(* ===== verification/Prelude.thy ===== *)
theory Prelude
  imports Complex_Main
begin

text \<open>
  Shared vocabulary of the development: database tables as lists of rows with the
  operations the code issues against them (find, count, guarded update, insert with
  skipped duplicates), the JavaScript string helpers and JSON values the code inspects,
  and the four interfaces several components share, stated as locales:
  \<^item> \<open>cas_column\<close>: a compare-and-swap on a row (\<open>updateMany\<close> guarded by the old value);
  \<^item> \<open>idempotent_sink\<close>: an insert that a retry must not repeat;
  \<^item> \<open>threshold_ladder\<close>: a tier table searched for the last floor that is reached;
  \<^item> \<open>status_machine\<close>: a set of statuses that a batch of row updates stays inside.
\<close>

named_theorems table_simps "facts about the table operations"

type_synonym ident = string
type_synonym time = int \<comment> \<open>milliseconds since the epoch, as \<open>Date.getTime()\<close> returns them\<close>

section \<open>Tables\<close>

definition find_where :: "('r \<Rightarrow> bool) \<Rightarrow> 'r list \<Rightarrow> 'r option" where
  "find_where P rows = List.find P rows"

definition count_where :: "('r \<Rightarrow> bool) \<Rightarrow> 'r list \<Rightarrow> nat" where
  "count_where P rows = length (filter P rows)"

definition update_where :: "('r \<Rightarrow> bool) \<Rightarrow> ('r \<Rightarrow> 'r) \<Rightarrow> 'r list \<Rightarrow> 'r list" where
  "update_where P f rows = map (\<lambda>r. if P r then f r else r) rows"

text \<open>\<open>updateMany\<close>: the new table and the number of rows matched.\<close>

definition update_many :: "('r \<Rightarrow> bool) \<Rightarrow> ('r \<Rightarrow> 'r) \<Rightarrow> 'r list \<Rightarrow> 'r list \<times> nat" where
  "update_many P f rows = (update_where P f rows, count_where P rows)"

text \<open>\<open>createMany\<close> with \<open>skipDuplicates\<close> for one row of a table with a unique key.\<close>

definition insert_unique :: "('r \<Rightarrow> 'k) \<Rightarrow> 'r \<Rightarrow> 'r list \<Rightarrow> 'r list \<times> bool" where
  "insert_unique key r rows =
     (if List.find (\<lambda>x. key x = key r) rows = None then (rows @ [r], True) else (rows, False))"

lemma count_where_Nil [simp, table_simps]: "count_where P [] = 0"
  by (simp add: count_where_def)

lemma count_where_Cons [simp, table_simps]:
  "count_where P (r # rs) = (if P r then Suc (count_where P rs) else count_where P rs)"
  by (simp add: count_where_def)

lemma count_where_append [simp, table_simps]:
  "count_where P (xs @ ys) = count_where P xs + count_where P ys"
  by (simp add: count_where_def)

lemma count_where_0_iff [table_simps]: "count_where P rs = 0 \<longleftrightarrow> (\<forall>r \<in> set rs. \<not> P r)"
  by (simp add: count_where_def filter_empty_conv)

lemma count_where_pos_iff [table_simps]: "0 < count_where P rs \<longleftrightarrow> (\<exists>r \<in> set rs. P r)"
  using count_where_0_iff [of P rs] by auto

lemma count_where_mono: "(\<And>r. r \<in> set rs \<Longrightarrow> P r \<Longrightarrow> Q r) \<Longrightarrow> count_where P rs \<le> count_where Q rs"
  by (induction rs) fastforce+

lemma count_where_cong: "(\<And>r. r \<in> set rs \<Longrightarrow> P r = Q r) \<Longrightarrow> count_where P rs = count_where Q rs"
  by (induction rs) auto

lemma count_where_le_length: "count_where P rs \<le> length rs"
  by (simp add: count_where_def)

lemma update_where_Nil [simp, table_simps]: "update_where P f [] = []"
  by (simp add: update_where_def)

lemma update_where_Cons [simp, table_simps]:
  "update_where P f (r # rs) = (if P r then f r else r) # update_where P f rs"
  by (simp add: update_where_def)

lemma update_where_append [simp]: "update_where P f (xs @ ys) = update_where P f xs @ update_where P f ys"
  by (simp add: update_where_def)

lemma length_update_where [simp]: "length (update_where P f rs) = length rs"
  by (simp add: update_where_def)

lemma set_update_where: "set (update_where P f rs) = (\<lambda>r. if P r then f r else r) ` set rs"
  by (simp add: update_where_def)

lemma map_update_where:
  "(\<And>r. P r \<Longrightarrow> g (f r) = g r) \<Longrightarrow> map g (update_where P f rs) = map g rs"
  by (induction rs) auto

lemma update_where_id: "(\<And>r. r \<in> set rs \<Longrightarrow> \<not> P r) \<Longrightarrow> update_where P f rs = rs"
  by (induction rs) auto

lemma count_update_where:
  "count_where Q (update_where P f rs)
     = count_where (\<lambda>r. if P r then Q (f r) else Q r) rs"
  by (induction rs) auto

lemma find_where_Nil [simp, table_simps]: "find_where P [] = None"
  by (simp add: find_where_def)

lemma find_where_Cons [simp, table_simps]:
  "find_where P (r # rs) = (if P r then Some r else find_where P rs)"
  by (simp add: find_where_def)

lemma find_where_Some: "find_where P rs = Some r \<Longrightarrow> P r \<and> r \<in> set rs"
  by (induction rs) (auto split: if_splits)

lemma find_where_None_iff: "find_where P rs = None \<longleftrightarrow> (\<forall>r \<in> set rs. \<not> P r)"
  by (induction rs) auto

lemma find_where_append:
  "find_where P (xs @ ys) = (case find_where P xs of Some r \<Rightarrow> Some r | None \<Rightarrow> find_where P ys)"
  by (induction xs) auto

text \<open>An update that keeps the searched field commutes with the lookup.\<close>

lemma find_where_update_where:
  assumes "\<And>r. Q r \<Longrightarrow> P (f r) = P r"
  shows "find_where P (update_where Q f rs)
           = map_option (\<lambda>r. if Q r then f r else r) (find_where P rs)"
  using assms by (induction rs) auto

lemma count_find_unique:
  assumes "distinct (map key rs)" and "r \<in> set rs"
  shows "count_where (\<lambda>x. key x = key r \<and> P x) rs = (if P r then 1 else 0)"
  using assms
proof (induction rs)
  case Nil
  then show ?case by simp
next
  case (Cons x xs)
  show ?case
  proof (cases "x = r")
    case True
    have "count_where (\<lambda>y. key y = key r \<and> P y) xs = 0"
      using Cons.prems True by (auto simp: count_where_0_iff rev_image_eqI)
    with True show ?thesis by simp
  next
    case False
    then have "r \<in> set xs" "key x \<noteq> key r"
      using Cons.prems by auto
    with Cons show ?thesis by auto
  qed
qed

text \<open>Counting after the update of one row, found by its key.\<close>

lemma count_update_one:
  assumes "distinct (map key rs)" and "r \<in> set rs" and "key r = k"
  shows "int (count_where Q (update_where (\<lambda>x. key x = k) f rs))
           = int (count_where Q rs) - (if Q r then 1 else 0) + (if Q (f r) then 1 else 0)"
  using assms
proof (induction rs)
  case Nil
  then show ?case by simp
next
  case (Cons x xs)
  show ?case
  proof (cases "x = r")
    case True
    have "update_where (\<lambda>x. key x = k) f xs = xs"
      using Cons.prems True by (intro update_where_id) (auto simp: rev_image_eqI)
    with True Cons.prems(3) show ?thesis by simp
  next
    case False
    then have "r \<in> set xs" "key x \<noteq> k" using Cons.prems by auto
    with Cons show ?thesis by auto
  qed
qed

lemma find_where_unique:
  assumes "distinct (map key rs)" and "r \<in> set rs"
  shows "find_where (\<lambda>x. key x = key r) rs = Some r"
  using assms by (induction rs) (auto simp: rev_image_eqI)

text \<open>Guarded updates of the one row with a given key.\<close>

lemma update_where_key_cong:
  assumes "distinct (map key rs)" and "find_where (\<lambda>x. key x = k) rs = Some r" and "f r = g r"
  shows "update_where (\<lambda>x. key x = k) f rs = update_where (\<lambda>x. key x = k) g rs"
proof -
  have "x = r" if "x \<in> set rs" "key x = k" for x
    using assms(1) that find_where_Some [OF assms(2)] by (metis distinct_map inj_on_def)
  with assms(3) show ?thesis by (auto simp: update_where_def)
qed

lemma update_where_key_guard:
  assumes "distinct (map key rs)" and "find_where (\<lambda>x. key x = k) rs = Some r"
  shows "update_where (\<lambda>x. key x = k \<and> Q x) f rs = (if Q r then update_where (\<lambda>x. key x = k) f rs else rs)"
proof -
  have uniq: "x = r" if "x \<in> set rs" "key x = k" for x
    using assms(1) that find_where_Some [OF assms(2)] by (metis distinct_map inj_on_def)
  show ?thesis
  proof (cases "Q r")
    case True
    with uniq show ?thesis by (auto simp: update_where_def)
  next
    case False
    with uniq show ?thesis by (auto intro!: update_where_id)
  qed
qed

lemma count_where_key_guard:
  assumes "distinct (map key rs)" and "find_where (\<lambda>x. key x = k) rs = Some r"
  shows "count_where (\<lambda>x. key x = k \<and> Q x) rs = (if Q r then 1 else 0)"
  using count_find_unique [OF assms(1), of r Q] find_where_Some [OF assms(2)] by simp

lemma update_where_compose:
  assumes "\<And>x. P (g x) = P x"
  shows "update_where P f (update_where P g rs) = update_where P (\<lambda>x. f (g x)) rs"
  using assms by (auto simp: update_where_def)

lemma find_where_key_update:
  assumes "find_where (\<lambda>x. key x = k) rs = Some r" and "\<And>x. key (f x) = key x"
  shows "find_where (\<lambda>x. key x = k) (update_where (\<lambda>x. key x = k) f rs) = Some (f r)"
  using assms find_where_Some [OF assms(1)] by (simp add: find_where_update_where)

lemma insert_unique_set: "set (fst (insert_unique key r rs)) \<subseteq> insert r (set rs)"
  by (auto simp: insert_unique_def)

lemma find_None_key: "List.find (\<lambda>x. key x = k) rs = None \<longleftrightarrow> k \<notin> key ` set rs"
  by (induction rs) auto

lemma insert_unique_distinct:
  "distinct (map key rs) \<Longrightarrow> distinct (map key (fst (insert_unique key r rs)))"
  by (auto simp: insert_unique_def find_None_key)

lemma insert_unique_present: "key r \<in> key ` set (fst (insert_unique key r rs))"
  using find_None_key [of key "key r" rs] by (auto simp: insert_unique_def)

lemma insert_unique_noop: "key r \<in> key ` set rs \<Longrightarrow> insert_unique key r rs = (rs, False)"
  using find_None_key [of key "key r" rs] by (auto simp: insert_unique_def)

lemma insert_unique_fresh: "key r \<notin> key ` set rs \<Longrightarrow> insert_unique key r rs = (rs @ [r], True)"
  using find_None_key [of key "key r" rs] by (auto simp: insert_unique_def)

section \<open>Interfaces shared by several components\<close>

subsection \<open>Compare-and-swap on a column\<close>

text \<open>
  The code guards every racy transition by an \<open>updateMany\<close> whose \<open>where\<close> names the old
  value and whose \<open>data\<close> makes it false. The law is that the write falsifies the guard;
  then a second attempt matches nothing, however many attempts are interleaved.
\<close>

locale cas_column =
  fixes expect :: "'r \<Rightarrow> bool"
    and swap :: "'r \<Rightarrow> 'r"
  assumes swap_clears: "expect r \<Longrightarrow> \<not> expect (swap r)"
begin

lemma swap_once: "count_where expect (update_where expect swap rs) = 0"
  by (induction rs) (auto simp: swap_clears)

lemma swap_idem: "update_where expect swap (update_where expect swap rs) = update_where expect swap rs"
  by (induction rs) (auto simp: swap_clears)

lemma second_attempt_loses:
  "update_many expect swap (fst (update_many expect swap rs)) = (fst (update_many expect swap rs), 0)"
  by (simp add: update_many_def swap_once swap_idem)

end

subsection \<open>Idempotent inserts\<close>

locale idempotent_sink =
  fixes put :: "'p \<Rightarrow> 's \<Rightarrow> 's"
    and has :: "'s \<Rightarrow> 'p \<Rightarrow> bool"
  assumes put_has: "has (put p s) p"
    and put_noop: "has s p \<Longrightarrow> put p s = s"
    and put_keeps: "has s q \<Longrightarrow> has (put p s) q"
begin

lemma put_put: "put p (put p s) = put p s"
  by (simp add: put_noop put_has)

lemma fold_keeps: "has s q \<Longrightarrow> has (fold put ps s) q"
  by (induction ps arbitrary: s) (auto simp: put_keeps)

lemma fold_has: "q \<in> set ps \<Longrightarrow> has (fold put ps s) q"
  by (induction ps arbitrary: s) (auto simp: put_has fold_keeps)

lemma fold_noop: "(\<And>q. q \<in> set ps \<Longrightarrow> has s q) \<Longrightarrow> fold put ps s = s"
  by (induction ps) (auto simp: put_noop)

text \<open>Replaying a whole batch, or any part of it, after it was applied changes nothing.\<close>

lemma replay_noop: "set qs \<subseteq> set ps \<Longrightarrow> fold put qs (fold put ps s) = fold put ps s"
  by (rule fold_noop) (auto simp: fold_has)

end

text \<open>\<open>createMany\<close> with \<open>skipDuplicates\<close> is such a sink, for every table with a unique key.\<close>

interpretation unique_insert: idempotent_sink "\<lambda>r rs. fst (insert_unique key r rs)" "\<lambda>rs r. key r \<in> key ` set rs"
  for key
  by unfold_locales
    (auto simp: insert_unique_noop insert_unique_present intro: insert_unique_present, auto simp: insert_unique_def)

lemma insert_unique_keys: "key ` set (fst (insert_unique key r rs)) = insert (key r) (key ` set rs)"
  using find_None_key [of key "key r" rs] by (auto simp: insert_unique_def)

lemma insert_all_keys:
  "key ` set (fold (\<lambda>r rs. fst (insert_unique key r rs)) qs rs) = key ` set rs \<union> key ` set qs"
  by (induction qs arbitrary: rs) (auto simp: insert_unique_keys)

lemma insert_all_distinct:
  "distinct (map key rs) \<Longrightarrow> distinct (map key (fold (\<lambda>r rs. fst (insert_unique key r rs)) qs rs))"
  by (induction qs arbitrary: rs) (auto intro: insert_unique_distinct)

subsection \<open>Threshold ladders\<close>

text \<open>
  Tier tables are searched by a loop that keeps the last row whose floor is reached. The
  contract: the table is non-empty, strictly ascending, and \<open>pick\<close> is that loop.
\<close>

definition last_reached :: "('t \<Rightarrow> int) \<Rightarrow> 't list \<Rightarrow> int \<Rightarrow> 't" where
  "last_reached flr tiers b = foldl (\<lambda>cur c. if flr c \<le> b then c else cur) (hd tiers) tiers"

locale threshold_ladder =
  fixes flr :: "'t \<Rightarrow> int"
    and tiers :: "'t list"
    and pick :: "int \<Rightarrow> 't"
  assumes nonempty: "tiers \<noteq> []"
    and ascending: "sorted_wrt (\<lambda>a b. flr a < flr b) tiers"
    and pick_eq: "pick b = last_reached flr tiers b"
begin

lemma foldl_pick:
  "sorted_wrt (\<lambda>a b. flr a < flr b) ts \<Longrightarrow>
   foldl (\<lambda>cur c. if flr c \<le> b then c else cur) x ts
     = (if \<exists>c \<in> set ts. flr c \<le> b then last (filter (\<lambda>c. flr c \<le> b) ts) else x)"
  by (induction ts arbitrary: x) (auto simp: filter_empty_conv)

lemma last_mem_filter:
  assumes "\<exists>c \<in> set tiers. flr c \<le> b"
  shows "pick b \<in> set tiers" and "flr (pick b) \<le> b" and "pick b = last (filter (\<lambda>c. flr c \<le> b) tiers)"
proof -
  let ?fs = "filter (\<lambda>c. flr c \<le> b) tiers"
  show eq: "pick b = last ?fs"
    using assms by (simp add: pick_eq last_reached_def foldl_pick [OF ascending])
  have "?fs \<noteq> []" using assms by (auto simp: filter_empty_conv)
  then have "last ?fs \<in> set ?fs" by (rule last_in_set)
  with eq show "pick b \<in> set tiers" "flr (pick b) \<le> b" by auto
qed

lemma pick_in: "pick b \<in> set tiers"
proof (cases "\<exists>c \<in> set tiers. flr c \<le> b")
  case True
  then show ?thesis by (rule last_mem_filter)
next
  case False
  then show ?thesis
    using nonempty by (simp add: pick_eq last_reached_def foldl_pick [OF ascending])
qed

lemma last_max:
  assumes "sorted_wrt (\<lambda>a b. flr a < flr b) ts" and "c \<in> set ts"
  shows "flr c \<le> flr (last ts)"
  using assms
proof (induction ts)
  case Nil
  then show ?case by simp
next
  case (Cons a xs)
  show ?case
  proof (cases "xs = []")
    case True
    with Cons.prems show ?thesis by simp
  next
    case False
    then have "flr a < flr (last xs)" using Cons.prems(1) by simp
    then have "flr a \<le> flr (last xs)" by simp
    with Cons False show ?thesis by auto
  qed
qed

lemma pick_greatest:
  assumes "c \<in> set tiers" and "flr c \<le> b"
  shows "flr (pick b) \<le> b \<and> flr c \<le> flr (pick b)"
proof -
  have ex: "\<exists>c \<in> set tiers. flr c \<le> b" using assms by blast
  have "sorted_wrt (\<lambda>a b. flr a < flr b) (filter (\<lambda>c. flr c \<le> b) tiers)"
    using ascending by (rule sorted_wrt_filter)
  then have "flr c \<le> flr (last (filter (\<lambda>c. flr c \<le> b) tiers))"
    by (rule last_max) (use assms in auto)
  with last_mem_filter [OF ex] show ?thesis by simp
qed

lemma pick_mono:
  assumes "b \<le> b'" and "\<exists>c \<in> set tiers. flr c \<le> b"
  shows "flr (pick b) \<le> flr (pick b')"
  using last_mem_filter [OF assms(2)] assms(1) pick_greatest [of "pick b" b'] by auto

lemma find_least_above:
  "sorted_wrt (\<lambda>a b. flr a < flr b) ts \<Longrightarrow> find_where (\<lambda>t. b < flr t) ts = Some t \<Longrightarrow>
   t \<in> set ts \<and> b < flr t \<and> (\<forall>c \<in> set ts. b < flr c \<longrightarrow> flr t \<le> flr c)"
proof (induction ts)
  case Nil
  then show ?case by simp
next
  case (Cons x xs)
  show ?case
  proof (cases "b < flr x")
    case True
    with Cons.prems show ?thesis by force
  next
    case False
    with Cons show ?thesis by auto
  qed
qed

text \<open>The rung above is the least floor above the balance, and it is above the current rung.\<close>

lemma next_above:
  assumes "find_where (\<lambda>t. b < flr t) tiers = Some t"
  shows "t \<in> set tiers \<and> b < flr t \<and> (\<forall>c \<in> set tiers. b < flr c \<longrightarrow> flr t \<le> flr c)"
  using find_least_above [OF ascending assms] .

end

subsection \<open>Row sets closed under a status change\<close>

locale status_machine =
  fixes ok :: "'r \<Rightarrow> bool"
    and step :: "'r \<Rightarrow> 'r"
  assumes step_ok: "ok r \<Longrightarrow> ok (step r)"
begin

lemma all_ok: "(\<forall>r \<in> set rs. ok r) \<Longrightarrow> \<forall>r \<in> set (update_where P step rs). ok r"
  by (auto simp: set_update_where step_ok)

end

section \<open>JavaScript strings\<close>

text \<open>
  Strings are lists of ASCII characters. \<open>trim\<close> strips the ASCII white space JavaScript
  strips and \<open>toLowerCase\<close> maps \<open>A\<close> to \<open>Z\<close>.
\<close>

definition is_ws :: "char \<Rightarrow> bool" where
  "is_ws c \<longleftrightarrow> of_char c \<in> {9, 10, 11, 12, 13, 32 :: nat}"

definition js_trim :: "string \<Rightarrow> string" where
  "js_trim s = rev (dropWhile is_ws (rev (dropWhile is_ws s)))"

definition lower_char :: "char \<Rightarrow> char" where
  "lower_char c = (if (65 :: nat) \<le> of_char c \<and> of_char c \<le> (90 :: nat) then char_of (of_char c + 32 :: nat) else c)"

text \<open>The same over \<open>int\<close>, for evaluation.\<close>

lemma is_ws_int [code]: "is_ws c = (let n = of_char c :: int in n = 32 \<or> 9 \<le> n \<and> n \<le> 13)"
proof -
  have e: "(of_char c :: int) = int (of_char c)" by (simp only: of_nat_of_char)
  show ?thesis unfolding is_ws_def Let_def e by auto
qed

lemma lower_char_int [code]:
  "lower_char c = (let n = of_char c :: int in if 65 \<le> n \<and> n \<le> 90 then char_of (n + 32) else c)"
proof -
  have e: "(of_char c :: int) = int (of_char c)" by (simp only: of_nat_of_char)
  have "(char_of (int (of_char c) + 32) :: char) = char_of (of_char c + 32 :: nat)"
    by (metis char_of_nat of_nat_add of_nat_numeral)
  then show ?thesis unfolding lower_char_def Let_def e by auto
qed

definition js_lower :: "string \<Rightarrow> string" where
  "js_lower s = map lower_char s"

lemma dropWhile_all: "\<forall>c \<in> set ws. P c \<Longrightarrow> dropWhile P (ws @ s) = dropWhile P s"
  by (induction ws) auto

lemma js_trim_ws_left: "\<forall>c \<in> set ws. is_ws c \<Longrightarrow> js_trim (ws @ s) = js_trim s"
  by (simp add: js_trim_def dropWhile_all)

lemma js_trim_ws_right:
  assumes "\<forall>c \<in> set ws. is_ws c"
  shows "js_trim (s @ ws) = js_trim s"
proof (cases "\<forall>c \<in> set s. is_ws c")
  case True
  then have "dropWhile is_ws (s @ ws) = []" "dropWhile is_ws s = []"
    using assms by (simp_all add: dropWhile_eq_Nil_conv ball_Un)
  then show ?thesis by (simp only: js_trim_def)
next
  case False
  then have "dropWhile is_ws (s @ ws) = dropWhile is_ws s @ ws"
    by (auto simp: dropWhile_append1)
  then show ?thesis using assms by (simp add: js_trim_def dropWhile_all)
qed

lemma rev_dropWhile_rev_prefix: "\<exists>zs. t = rev (dropWhile P (rev t)) @ zs"
proof
  show "t = rev (dropWhile P (rev t)) @ rev (takeWhile P (rev t))"
    by (metis rev_append rev_rev_ident takeWhile_dropWhile_id)
qed

lemma js_trim_idem [simp]: "js_trim (js_trim s) = js_trim s"
proof -
  define t where "t = dropWhile is_ws s"
  define u where "u = rev (dropWhile is_ws (rev t))"
  obtain zs where zs: "t = u @ zs"
    using rev_dropWhile_rev_prefix [of t is_ws] by (auto simp: u_def)
  have "dropWhile is_ws u = u"
  proof (cases u)
    case Nil
    then show ?thesis by simp
  next
    case (Cons y ys)
    then have "hd t = y" "t \<noteq> []" using zs by auto
    then have "\<not> is_ws y" using hd_dropWhile [of is_ws s] by (simp add: t_def)
    with Cons show ?thesis by simp
  qed
  then show ?thesis by (simp add: js_trim_def u_def t_def)
qed

text \<open>\<open>[...new Set(xs)]\<close>: the distinct elements, each at its first place.\<close>

definition js_unique :: "'a list \<Rightarrow> 'a list" where
  "js_unique xs = rev (remdups (rev xs))"

lemma js_unique_set [simp]: "set (js_unique xs) = set xs"
  by (simp add: js_unique_def)

lemma js_unique_distinct [simp]: "distinct (js_unique xs)"
  by (simp add: js_unique_def)

lemma js_unique_id: "distinct xs \<Longrightarrow> js_unique xs = xs"
  by (simp add: js_unique_def distinct_remdups_id)

text \<open>Decimal rendering of a number, as a template literal prints it.\<close>

fun show_nat :: "nat \<Rightarrow> string" where
  "show_nat n = (if n < 10 then [char_of (48 + n)] else show_nat (n div 10) @ [char_of (48 + n mod 10)])"

declare show_nat.simps [simp del]

lemma show_nat_digit: "n < 10 \<Longrightarrow> show_nat n = [char_of (48 + n)]"
  by (subst show_nat.simps) simp

lemma show_nat_more: "\<not> n < 10 \<Longrightarrow> show_nat n = show_nat (n div 10) @ [char_of (48 + n mod 10)]"
  by (subst show_nat.simps) simp

lemma show_nat_Nil: "show_nat n \<noteq> []"
  by (cases "n < 10") (simp_all add: show_nat_digit show_nat_more)

lemma digit_char_inj:
  assumes "(char_of (48 + a) :: char) = char_of (48 + b)" and "a < 10" and "b < 10"
  shows "a = (b :: nat)"
proof -
  have "(of_char (char_of (48 + a) :: char) :: nat) = of_char (char_of (48 + b) :: char)" using assms(1) by simp
  then show ?thesis using assms(2,3) by simp
qed

lemma show_nat_inj: "show_nat m = show_nat n \<Longrightarrow> m = n"
proof (induction m arbitrary: n rule: less_induct)
  case (less m)
  show ?case
  proof (cases "m < 10")
    case True
    then have n: "n < 10"
      using less.prems show_nat_Nil [of "n div 10"] by (cases "n < 10") (auto simp: show_nat_digit show_nat_more append_eq_Cons_conv)
    show ?thesis using less.prems True n by (intro digit_char_inj) (simp_all add: show_nat_digit)
  next
    case False
    then have n: "\<not> n < 10"
      using less.prems show_nat_Nil [of "m div 10"] by (cases "n < 10") (auto simp: show_nat_digit show_nat_more append_eq_Cons_conv)
    have "show_nat (m div 10) = show_nat (n div 10)" and c: "(char_of (48 + m mod 10) :: char) = char_of (48 + n mod 10)"
      using less.prems False n by (simp_all add: show_nat_more)
    then have "m div 10 = n div 10" using less.IH [of "m div 10"] False by simp
    moreover have "m mod 10 = n mod 10" using c by (rule digit_char_inj) simp_all
    ultimately show ?thesis by (metis div_mult_mod_eq)
  qed
qed

definition show_int :: "int \<Rightarrow> string" where
  "show_int i = (if i < 0 then ''-'' @ show_nat (nat (- i)) else show_nat (nat i))"

section \<open>JSON values\<close>

datatype json = JNull | JBool bool | JNum real | JStr string | JArr "json list" | JObj "(string \<times> json) list"

text \<open>A property read: \<open>None\<close> is JavaScript's \<open>undefined\<close>.\<close>

fun jget :: "json \<Rightarrow> string \<Rightarrow> json option" where
  "jget (JObj kvs) k = map_of kvs k"
| "jget _ k = None"

fun is_int_num :: "json option \<Rightarrow> bool" where
  "is_int_num (Some (JNum x)) = (x = real_of_int \<lfloor>x\<rfloor>)"
| "is_int_num _ = False"

fun num_of :: "json option \<Rightarrow> real" where
  "num_of (Some (JNum x)) = x"
| "num_of _ = 0"

fun is_str :: "json option \<Rightarrow> bool" where
  "is_str (Some (JStr s)) = True"
| "is_str _ = False"

fun str_of :: "json option \<Rightarrow> string" where
  "str_of (Some (JStr s)) = s"
| "str_of _ = []"

definition int_of :: "json option \<Rightarrow> int" where
  "int_of v = \<lfloor>num_of v\<rfloor>"

lemma is_int_num_iff: "is_int_num v \<longleftrightarrow> (\<exists>i. v = Some (JNum (real_of_int i)))"
proof (cases v)
  case None
  then show ?thesis by simp
next
  case (Some j)
  have num: "x = real_of_int \<lfloor>x\<rfloor> \<longleftrightarrow> (\<exists>i. x = real_of_int i)" for x :: real
    by (metis floor_of_int)
  from Some show ?thesis by (cases j) (simp_all add: num)
qed

end
