(* ===== verification/Difficulty.thy ===== *)
theory Difficulty
  imports Prelude
begin

text \<open>
  The difficulty scale (\<open>lib/difficulty.ts\<close>): three canonical levels, one permanent alias,
  and the resolver every pricing path goes through. A label is resolved, never rejected;
  how it resolved is reported in \<open>rd_source\<close>.
\<close>

datatype difficulty = Beginner | Intermediate | Advanced

datatype difficulty_source = Exact | Alias | Absent | Unknown

record resolved_difficulty =
  rd_level :: difficulty
  rd_source :: difficulty_source
  rd_raw :: "string option"

definition DEFAULT_ITEM_DIFFICULTY :: difficulty where
  "DEFAULT_ITEM_DIFFICULTY = Intermediate"

definition CANONICAL_DIFFICULTY_LEVELS :: "(string \<times> difficulty) list" where
  "CANONICAL_DIFFICULTY_LEVELS =
     [(''beginner'', Beginner), (''intermediate'', Intermediate), (''advanced'', Advanced)]"

definition ITEM_DIFFICULTY_ALIASES :: "(string \<times> difficulty) list" where
  "ITEM_DIFFICULTY_ALIASES = [(''expert'', Advanced)]"

definition lookupCanonical :: "string \<Rightarrow> difficulty option" where
  "lookupCanonical normalized = map_of CANONICAL_DIFFICULTY_LEVELS normalized"

text \<open>The argument is \<open>string | null | undefined\<close>: \<open>None\<close> for the last two.\<close>

definition resolveItemDifficulty :: "string option \<Rightarrow> resolved_difficulty" where
  "resolveItemDifficulty d =
     (let raw = (case d of Some s \<Rightarrow> js_trim s | None \<Rightarrow> [])
      in if raw = [] then \<lparr>rd_level = DEFAULT_ITEM_DIFFICULTY, rd_source = Absent, rd_raw = None\<rparr>
         else let normalized = js_lower raw
              in case lookupCanonical normalized of
                   Some l \<Rightarrow> \<lparr>rd_level = l, rd_source = Exact, rd_raw = Some raw\<rparr>
                 | None \<Rightarrow>
                     (case map_of ITEM_DIFFICULTY_ALIASES normalized of
                        Some l \<Rightarrow> \<lparr>rd_level = l, rd_source = Alias, rd_raw = Some raw\<rparr>
                      | None \<Rightarrow> \<lparr>rd_level = DEFAULT_ITEM_DIFFICULTY, rd_source = Unknown, rd_raw = Some raw\<rparr>))"

fun difficulty_label :: "difficulty \<Rightarrow> string" where
  "difficulty_label Beginner = ''beginner''"
| "difficulty_label Intermediate = ''intermediate''"
| "difficulty_label Advanced = ''advanced''"

text \<open>\<open>lib/difficulty-requirement.ts\<close>: which guidance a declared level selects.\<close>

datatype guidance = No_level_guidance | Level_guidance difficulty | Free_label_guidance string

record difficulty_requirement =
  dr_selected :: "string option"
  dr_guidance :: guidance

definition difficultyRequirement :: "string option \<Rightarrow> difficulty_requirement" where
  "difficultyRequirement sel =
     (case sel of
        None \<Rightarrow> \<lparr>dr_selected = None, dr_guidance = No_level_guidance\<rparr>
      | Some s \<Rightarrow>
          if js_trim s = [] then \<lparr>dr_selected = None, dr_guidance = No_level_guidance\<rparr>
          else let selected = js_trim s; resolved = resolveItemDifficulty (Some selected)
               in \<lparr>dr_selected = Some selected,
                   dr_guidance = (if rd_source resolved = Exact \<or> rd_source resolved = Alias
                                  then Level_guidance (rd_level resolved)
                                  else Free_label_guidance selected)\<rparr>)"

section \<open>Facts\<close>

lemma lower_char_idem [simp]: "lower_char (lower_char c) = lower_char c"
  by (auto simp: lower_char_def)

lemma js_lower_idem [simp]: "js_lower (js_lower s) = js_lower s"
  by (simp add: js_lower_def)

lemma label_resolves_exactly:
  "resolveItemDifficulty (Some (difficulty_label l))
     = \<lparr>rd_level = l, rd_source = Exact, rd_raw = Some (difficulty_label l)\<rparr>"
proof (cases l)
  case Beginner
  show ?thesis unfolding Beginner by code_simp
next
  case Intermediate
  show ?thesis unfolding Intermediate by code_simp
next
  case Advanced
  show ?thesis unfolding Advanced by code_simp
qed

lemma fallback_is_middle:
  "rd_source (resolveItemDifficulty d) \<in> {Absent, Unknown} \<Longrightarrow> rd_level (resolveItemDifficulty d) = Intermediate"
  by (auto simp: resolveItemDifficulty_def Let_def DEFAULT_ITEM_DIFFICULTY_def split: option.splits if_splits)

lemma resolve_trim:
  assumes "\<forall>c \<in> set l. is_ws c" and "\<forall>c \<in> set r. is_ws c"
  shows "resolveItemDifficulty (Some (l @ s @ r)) = resolveItemDifficulty (Some s)"
proof -
  have "js_trim (l @ s @ r) = js_trim s"
    using assms by (simp add: js_trim_ws_left js_trim_ws_right)
  then show ?thesis by (simp add: resolveItemDifficulty_def)
qed

text \<open>no mislabelled template is upgraded. A difficulty label resolves to the advanced level
  exactly when, whatever its case and surrounding blanks, it is \<open>advanced\<close> or \<open>expert\<close>.\<close>

lemma resolve_advanced_iff:
  "rd_level (resolveItemDifficulty (Some s)) = Advanced
     \<longleftrightarrow> js_lower (js_trim s) \<in> {''advanced'', ''expert''}"
  by (auto simp: resolveItemDifficulty_def Let_def DEFAULT_ITEM_DIFFICULTY_def lookupCanonical_def
        CANONICAL_DIFFICULTY_LEVELS_def ITEM_DIFFICULTY_ALIASES_def js_lower_def split: option.splits if_splits)

lemma requirement_level:
  "dr_guidance (difficultyRequirement (Some s)) = Level_guidance l \<Longrightarrow>
   rd_level (resolveItemDifficulty (Some s)) = l"
  by (auto simp: difficultyRequirement_def resolveItemDifficulty_def Let_def split: if_splits option.splits)

end
