(* ===== verification/Karma_Matrix.thy ===== *)
theory Karma_Matrix
  imports Difficulty
begin

text \<open>
  \<open>lib/karma-matrix.ts\<close>: the shapes of the three operator-editable karma settings, the
  read-side validators that decide whether a stored value is usable, the tier search, and
  the pricing kernel (ladder cell lookup). A stored value is a \<open>json\<close>; what the code casts
  after validating is read off by \<open>tier_of_json\<close>, \<open>rules_of_json\<close> and \<open>matrix_of_json\<close>.
\<close>

section \<open>Configuration shapes\<close>

record karma_tier =
  kt_tier :: string
  kt_label :: string
  kt_min :: int
  kt_color :: string
  kt_blurb :: string
  kt_perks :: "string list"
  kt_early_hours :: int
  kt_concurrency :: int

record karma_rules =
  kr_accepted :: "difficulty \<Rightarrow> int"
  kr_audit_item :: int
  kr_confirmed_flag :: int
  kr_request_approved :: int
  kr_publish_bonus :: int
  kr_bounty_published :: int

record matrix_entry =
  me_complexity :: int
  me_units :: int

type_synonym matrix_config = "string \<rightharpoonup> matrix_entry"

section \<open>Validators for stored settings\<close>

fun isRecord :: "json option \<Rightarrow> bool" where
  "isRecord (Some (JObj kvs)) = True"
| "isRecord _ = False"

definition isPositiveInt :: "json option \<Rightarrow> bool" where
  "isPositiveInt v \<longleftrightarrow> is_int_num v \<and> num_of v > 0"

definition isNonNegativeInt :: "json option \<Rightarrow> bool" where
  "isNonNegativeInt v \<longleftrightarrow> is_int_num v \<and> num_of v \<ge> 0"

fun all_strings :: "json option \<Rightarrow> bool" where
  "all_strings (Some (JArr vs)) = list_all (\<lambda>v. is_str (Some v)) vs"
| "all_strings _ = False"

definition tier_row_ok :: "json \<Rightarrow> bool" where
  "tier_row_ok row \<longleftrightarrow>
     isRecord (Some row)
     \<and> is_str (jget row ''tier'') \<and> str_of (jget row ''tier'') \<noteq> []
     \<and> is_str (jget row ''label'') \<and> str_of (jget row ''label'') \<noteq> []
     \<and> isNonNegativeInt (jget row ''minKarma'')
     \<and> is_str (jget row ''color'') \<and> str_of (jget row ''color'') \<noteq> []
     \<and> is_str (jget row ''blurb'')
     \<and> all_strings (jget row ''perks'')
     \<and> isNonNegativeInt (jget row ''earlyAccessHours'')
     \<and> isNonNegativeInt (jget row ''concurrencyBonus'')"

definition row_min :: "json \<Rightarrow> real" where
  "row_min row = num_of (jget row ''minKarma'')"

fun ascending_rows :: "json list \<Rightarrow> bool" where
  "ascending_rows (a # b # rs) = (row_min a < row_min b \<and> ascending_rows (b # rs))"
| "ascending_rows _ = True"

fun isKarmaTierConfigList :: "json option \<Rightarrow> bool" where
  "isKarmaTierConfigList (Some (JArr rows)) =
     (rows \<noteq> [] \<and> list_all tier_row_ok rows
      \<and> row_min (hd rows) = 0
      \<and> distinct (map (\<lambda>r. str_of (jget r ''tier'')) rows)
      \<and> ascending_rows rows)"
| "isKarmaTierConfigList _ = False"

definition jfield :: "json option \<Rightarrow> string \<Rightarrow> json option" where
  "jfield v k = (case v of None \<Rightarrow> None | Some j \<Rightarrow> jget j k)"

definition isKarmaRulesConfig :: "json option \<Rightarrow> bool" where
  "isKarmaRulesConfig value \<longleftrightarrow>
     (if \<not> isRecord value then False
      else let accepted = jfield value ''acceptedItem''
           in if \<not> isRecord accepted then False
              else if \<not> isPositiveInt (jfield accepted ''beginner'')
                    \<or> \<not> isPositiveInt (jfield accepted ''intermediate'')
                    \<or> \<not> isPositiveInt (jfield accepted ''advanced'') then False
              else isPositiveInt (jfield value ''auditItem'')
                   \<and> isPositiveInt (jfield value ''confirmedFlag'')
                   \<and> isPositiveInt (jfield value ''requestApproved'')
                   \<and> isPositiveInt (jfield value ''publishBonus'')
                   \<and> isPositiveInt (jfield value ''bountyPublished''))"

definition matrix_entry_ok :: "json \<Rightarrow> bool" where
  "matrix_entry_ok e \<longleftrightarrow>
     isRecord (Some e)
     \<and> isPositiveInt (jget e ''complexityScore'') \<and> num_of (jget e ''complexityScore'') \<le> 4
     \<and> isNonNegativeInt (jget e ''verificationUnits'')"

fun isKarmaMatrixConfig :: "json option \<Rightarrow> bool" where
  "isKarmaMatrixConfig (Some (JObj kvs)) = (kvs \<noteq> [] \<and> list_all (\<lambda>(k, e). matrix_entry_ok e) kvs)"
| "isKarmaMatrixConfig _ = False"

text \<open>What the casts after a successful check read.\<close>

fun strings_of :: "json option \<Rightarrow> string list" where
  "strings_of (Some (JArr vs)) = map (\<lambda>v. str_of (Some v)) vs"
| "strings_of _ = []"

definition tier_of_json :: "json \<Rightarrow> karma_tier" where
  "tier_of_json row =
     \<lparr>kt_tier = str_of (jget row ''tier''), kt_label = str_of (jget row ''label''),
      kt_min = int_of (jget row ''minKarma''), kt_color = str_of (jget row ''color''),
      kt_blurb = str_of (jget row ''blurb''), kt_perks = strings_of (jget row ''perks''),
      kt_early_hours = int_of (jget row ''earlyAccessHours''),
      kt_concurrency = int_of (jget row ''concurrencyBonus'')\<rparr>"

fun tiers_of_json :: "json option \<Rightarrow> karma_tier list" where
  "tiers_of_json (Some (JArr rows)) = map tier_of_json rows"
| "tiers_of_json _ = []"

definition rules_of_json :: "json option \<Rightarrow> karma_rules" where
  "rules_of_json v =
     (let a = jfield v ''acceptedItem''
      in \<lparr>kr_accepted = (\<lambda>d. int_of (jfield a (difficulty_label d))),
          kr_audit_item = int_of (jfield v ''auditItem''),
          kr_confirmed_flag = int_of (jfield v ''confirmedFlag''),
          kr_request_approved = int_of (jfield v ''requestApproved''),
          kr_publish_bonus = int_of (jfield v ''publishBonus''),
          kr_bounty_published = int_of (jfield v ''bountyPublished'')\<rparr>)"

definition entry_of_json :: "json \<Rightarrow> matrix_entry" where
  "entry_of_json e = \<lparr>me_complexity = int_of (jget e ''complexityScore''),
                      me_units = int_of (jget e ''verificationUnits'')\<rparr>"

fun matrix_of_json :: "json option \<Rightarrow> matrix_config" where
  "matrix_of_json (Some (JObj kvs)) = (\<lambda>k. map_option entry_of_json (map_of kvs k))"
| "matrix_of_json _ = (\<lambda>k. None)"

section \<open>Tier search\<close>

definition karmaTierForBalanceIn :: "karma_tier list \<Rightarrow> int \<Rightarrow> karma_tier" where
  "karmaTierForBalanceIn tiers balance =
     foldl (\<lambda>cur cand. if balance \<ge> kt_min cand then cand else cur) (hd tiers) tiers"

definition nextKarmaTierIn :: "karma_tier list \<Rightarrow> int \<Rightarrow> karma_tier option" where
  "nextKarmaTierIn tiers balance = find_where (\<lambda>t. kt_min t > balance) tiers"

definition matrixEntryFor :: "matrix_config \<Rightarrow> string option \<Rightarrow> matrix_entry option" where
  "matrixEntryFor matrix dt =
     (case dt of None \<Rightarrow> None | Some k \<Rightarrow> if k = [] then None else matrix k)"

section \<open>Pricing kernel\<close>

datatype verification_band = Band_standard | Band_elevated | Band_heavy

datatype review_load = Load_light | Load_standard | Load_heavy

definition COMPLEXITY_SCORES :: "int list" where
  "COMPLEXITY_SCORES = [1, 2, 3, 4]"

definition isComplexityScore :: "int option \<Rightarrow> bool" where
  "isComplexityScore v \<longleftrightarrow> (case v of None \<Rightarrow> False | Some s \<Rightarrow> s \<in> set COMPLEXITY_SCORES)"

definition DEFAULT_KARMA_LADDER :: "int list" where
  "DEFAULT_KARMA_LADDER = [10, 15, 20, 25, 30, 40, 50, 60, 75]"

record pricing_table =
  pt_ladder :: "int list"
  pt_contributor :: "int \<Rightarrow> difficulty \<Rightarrow> int"
  pt_band_shift :: "verification_band \<Rightarrow> int"
  pt_elevated_min :: int
  pt_heavy_min :: int
  pt_validator :: "int \<Rightarrow> review_load \<Rightarrow> int"
  pt_standard_fields :: int
  pt_heavy_fields :: int

fun default_contributor :: "int \<Rightarrow> difficulty \<Rightarrow> int" where
  "default_contributor c d =
     (if c = 1 then (case d of Beginner \<Rightarrow> 0 | Intermediate \<Rightarrow> 1 | Advanced \<Rightarrow> 2)
      else if c = 2 then (case d of Beginner \<Rightarrow> 1 | Intermediate \<Rightarrow> 2 | Advanced \<Rightarrow> 4)
      else if c = 3 then (case d of Beginner \<Rightarrow> 1 | Intermediate \<Rightarrow> 3 | Advanced \<Rightarrow> 5)
      else (case d of Beginner \<Rightarrow> 2 | Intermediate \<Rightarrow> 4 | Advanced \<Rightarrow> 6))"

fun default_validator :: "int \<Rightarrow> review_load \<Rightarrow> int" where
  "default_validator c l =
     (if c = 1 then (case l of Load_light \<Rightarrow> 10 | Load_standard \<Rightarrow> 15 | Load_heavy \<Rightarrow> 20)
      else if c = 2 then (case l of Load_light \<Rightarrow> 15 | Load_standard \<Rightarrow> 20 | Load_heavy \<Rightarrow> 25)
      else if c = 3 then (case l of Load_light \<Rightarrow> 20 | Load_standard \<Rightarrow> 25 | Load_heavy \<Rightarrow> 30)
      else (case l of Load_light \<Rightarrow> 25 | Load_standard \<Rightarrow> 30 | Load_heavy \<Rightarrow> 40))"

definition DEFAULT_KARMA_PRICING_TABLE :: pricing_table where
  "DEFAULT_KARMA_PRICING_TABLE =
     \<lparr>pt_ladder = DEFAULT_KARMA_LADDER,
      pt_contributor = default_contributor,
      pt_band_shift = (\<lambda>b. case b of Band_standard \<Rightarrow> 0 | Band_elevated \<Rightarrow> 1 | Band_heavy \<Rightarrow> 2),
      pt_elevated_min = 3, pt_heavy_min = 5,
      pt_validator = default_validator,
      pt_standard_fields = 5, pt_heavy_fields = 8\<rparr>"

definition bandForVerificationUnits :: "pricing_table \<Rightarrow> int \<Rightarrow> verification_band" where
  "bandForVerificationUnits table units =
     (if units \<ge> pt_heavy_min table then Band_heavy
      else if units \<ge> pt_elevated_min table then Band_elevated
      else Band_standard)"

definition reviewLoadForFieldCount :: "pricing_table \<Rightarrow> int \<Rightarrow> review_load" where
  "reviewLoadForFieldCount table nf =
     (if nf \<ge> pt_heavy_fields table then Load_heavy
      else if nf \<ge> pt_standard_fields table then Load_standard
      else Load_light)"

text \<open>The index is clamped at both ends, so the read is in range for every non-empty ladder.\<close>

definition contributorKarma :: "pricing_table \<Rightarrow> int \<Rightarrow> difficulty \<Rightarrow> verification_band \<Rightarrow> int" where
  "contributorKarma table complexity d band =
     (let base = pt_contributor table complexity d;
          index = min (base + pt_band_shift table band) (int (length (pt_ladder table)) - 1)
      in pt_ladder table ! nat (max 0 index))"

definition validatorKarma :: "pricing_table \<Rightarrow> int \<Rightarrow> review_load \<Rightarrow> int" where
  "validatorKarma table complexity load = pt_validator table complexity load"

record pricing_cell =
  pc_complexity :: int
  pc_difficulty :: difficulty
  pc_band :: verification_band
  pc_karma :: int

definition contributorMatrixCells :: "pricing_table \<Rightarrow> pricing_cell list" where
  "contributorMatrixCells table =
     concat (map (\<lambda>c. concat (map (\<lambda>d. map (\<lambda>b.
        \<lparr>pc_complexity = c, pc_difficulty = d, pc_band = b, pc_karma = contributorKarma table c d b\<rparr>)
        [Band_standard, Band_elevated, Band_heavy])
        (map snd CANONICAL_DIFFICULTY_LEVELS))) COMPLEXITY_SCORES)"

section \<open>Facts\<close>

definition tier_table_ok :: "karma_tier list \<Rightarrow> bool" where
  "tier_table_ok tiers \<longleftrightarrow> tiers \<noteq> [] \<and> kt_min (hd tiers) = 0
     \<and> sorted_wrt (\<lambda>a b. kt_min a < kt_min b) tiers \<and> distinct (map kt_tier tiers)"

lemma ascending_rows_sorted:
  "ascending_rows rows \<Longrightarrow> sorted_wrt (\<lambda>a b. row_min a < row_min b) rows"
proof (induction rows rule: ascending_rows.induct)
  case (1 a b rs)
  then show ?case by force
qed auto

lemma tier_row_min: "tier_row_ok r \<Longrightarrow> real_of_int (kt_min (tier_of_json r)) = row_min r"
  by (auto simp: tier_row_ok_def isNonNegativeInt_def is_int_num_iff tier_of_json_def int_of_def row_min_def)

lemma stored_tiers_ok:
  assumes "isKarmaTierConfigList v"
  shows "tier_table_ok (tiers_of_json v)"
proof -
  obtain rows where v: "v = Some (JArr rows)"
    using assms by (cases v rule: isKarmaTierConfigList.cases) auto
  have ok: "\<forall>r \<in> set rows. tier_row_ok r" and asc: "ascending_rows rows" and ne: "rows \<noteq> []"
    and h: "row_min (hd rows) = 0" and d: "distinct (map (\<lambda>r. str_of (jget r ''tier'')) rows)"
    using assms by (auto simp: v list_all_iff)
  have "sorted_wrt (\<lambda>a b. kt_min (tier_of_json a) < kt_min (tier_of_json b)) rows"
    by (rule sorted_wrt_mono_rel [OF _ ascending_rows_sorted [OF asc]])
      (metis ok of_int_less_iff tier_row_min)
  moreover have "kt_min (tier_of_json (hd rows)) = 0"
    by (metis h hd_in_set ne of_int_eq_0_iff ok tier_row_min)
  moreover have "kt_tier \<circ> tier_of_json = (\<lambda>r. str_of (jget r ''tier''))"
    by (auto simp: tier_of_json_def)
  ultimately show ?thesis
    using ne d by (simp add: v tier_table_ok_def sorted_wrt_map hd_map)
qed

lemma isPositiveInt_int: "isPositiveInt v \<Longrightarrow> 0 < int_of v"
  by (auto simp: isPositiveInt_def is_int_num_iff int_of_def)

definition rules_positive :: "karma_rules \<Rightarrow> bool" where
  "rules_positive r \<longleftrightarrow> (\<forall>d. 0 < kr_accepted r d) \<and> 0 < kr_audit_item r \<and> 0 < kr_confirmed_flag r
     \<and> 0 < kr_request_approved r \<and> 0 < kr_publish_bonus r \<and> 0 < kr_bounty_published r"

lemma stored_rules_positive:
  assumes "isKarmaRulesConfig v"
  shows "rules_positive (rules_of_json v)"
proof -
  have "0 < int_of (jfield (jfield v ''acceptedItem'') (difficulty_label d))" for d
    using assms by (cases d) (auto simp: isKarmaRulesConfig_def Let_def isPositiveInt_int split: if_splits)
  with assms show ?thesis
    by (auto simp: isKarmaRulesConfig_def rules_of_json_def rules_positive_def Let_def isPositiveInt_int
        split: if_splits)
qed

lemma stored_matrix_scored:
  assumes "isKarmaMatrixConfig v" and "matrix_of_json v k = Some e"
  shows "isComplexityScore (Some (me_complexity e)) \<and> 0 \<le> me_units e"
proof -
  obtain kvs where v: "v = Some (JObj kvs)"
    using assms by (cases v rule: isKarmaMatrixConfig.cases) auto
  obtain j where j: "map_of kvs k = Some j" "e = entry_of_json j"
    using assms by (auto simp: v)
  then have "matrix_entry_ok j"
    using assms(1) map_of_SomeD [OF j(1)] by (auto simp: v list_all_iff)
  then obtain c u where cu: "jget j ''complexityScore'' = Some (JNum (real_of_int c))" "0 < c" "c \<le> 4"
      "jget j ''verificationUnits'' = Some (JNum (real_of_int u))" "0 \<le> u"
    by (auto simp: matrix_entry_ok_def isPositiveInt_def isNonNegativeInt_def is_int_num_iff)
  then have "c = 1 \<or> c = 2 \<or> c = 3 \<or> c = 4" by arith
  with cu j show ?thesis
    by (auto simp: entry_of_json_def int_of_def isComplexityScore_def COMPLEXITY_SCORES_def)
qed

text \<open>A usable pricing table, and the shipped one is usable.\<close>

definition pricing_table_ok :: "pricing_table \<Rightarrow> bool" where
  "pricing_table_ok t \<longleftrightarrow> pt_ladder t \<noteq> [] \<and> sorted (pt_ladder t) \<and> (\<forall>k \<in> set (pt_ladder t). 0 < k)
     \<and> (\<forall>c \<in> set COMPLEXITY_SCORES. \<forall>l. 0 < pt_validator t c l)
     \<and> pt_elevated_min t \<le> pt_heavy_min t \<and> pt_standard_fields t \<le> pt_heavy_fields t
     \<and> pt_band_shift t Band_standard \<le> pt_band_shift t Band_elevated
     \<and> pt_band_shift t Band_elevated \<le> pt_band_shift t Band_heavy"

lemma default_table_ok: "pricing_table_ok DEFAULT_KARMA_PRICING_TABLE"
  by (auto simp: pricing_table_ok_def DEFAULT_KARMA_PRICING_TABLE_def DEFAULT_KARMA_LADDER_def
      COMPLEXITY_SCORES_def split: review_load.splits)

lemma ladder_index_in_range:
  "pt_ladder t \<noteq> [] \<Longrightarrow> nat (max 0 (min i (int (length (pt_ladder t)) - 1))) < length (pt_ladder t)"
  by (cases "pt_ladder t") auto

lemma contributorKarma_in_ladder:
  "pt_ladder t \<noteq> [] \<Longrightarrow> contributorKarma t c d b \<in> set (pt_ladder t)"
  by (simp add: contributorKarma_def Let_def ladder_index_in_range)

lemma contributorKarma_positive: "pricing_table_ok t \<Longrightarrow> 0 < contributorKarma t c d b"
  using contributorKarma_in_ladder [of t c d b] by (auto simp: pricing_table_ok_def)

lemma contributorKarma_mono:
  assumes "pricing_table_ok t"
    and "pt_contributor t c d + pt_band_shift t b \<le> pt_contributor t c' d' + pt_band_shift t b'"
  shows "contributorKarma t c d b \<le> contributorKarma t c' d' b'"
proof -
  have ne: "pt_ladder t \<noteq> []" and s: "sorted (pt_ladder t)" using assms by (auto simp: pricing_table_ok_def)
  show ?thesis
    unfolding contributorKarma_def Let_def
    by (rule sorted_nth_mono [OF s _ ladder_index_in_range [OF ne]]) (use assms(2) in auto)
qed

lemma band_shift_mono:
  "pricing_table_ok t \<Longrightarrow> u \<le> u' \<Longrightarrow>
   pt_band_shift t (bandForVerificationUnits t u) \<le> pt_band_shift t (bandForVerificationUnits t u')"
  by (auto simp: bandForVerificationUnits_def pricing_table_ok_def)

lemma default_contributor_mono:
  assumes "c \<in> set COMPLEXITY_SCORES" "c' \<in> set COMPLEXITY_SCORES" "c \<le> c'"
  shows "default_contributor c d \<le> default_contributor c' d"
  using assms by (cases d) (auto simp: COMPLEXITY_SCORES_def)

lemma default_validator_mono:
  assumes "c \<in> set COMPLEXITY_SCORES" "c' \<in> set COMPLEXITY_SCORES" "c \<le> c'"
  shows "default_validator c l \<le> default_validator c' l"
  using assms by (cases l) (auto simp: COMPLEXITY_SCORES_def)

lemma karmaTierForBalanceIn_last_reached:
  "karmaTierForBalanceIn tiers b = last_reached kt_min tiers b"
  by (simp add: karmaTierForBalanceIn_def last_reached_def)

lemma tier_table_ladder: "tier_table_ok tiers \<Longrightarrow> threshold_ladder kt_min tiers (karmaTierForBalanceIn tiers)"
  by unfold_locales (auto simp: tier_table_ok_def karmaTierForBalanceIn_last_reached)

end
