(* ===== verification/Karma_Pricing.thy ===== *)
theory Karma_Pricing
  imports Karma_Matrix "HOL-Library.Char_ord" "HOL-Library.List_Lexorder"
begin

text \<open>
  The pricing half of \<open>services/karma.ts\<close>: the code defaults, the fail-safe readers of the
  three settings, the frozen quote, the four-step resolution of what an accepted item and
  an audited item pay, and the summaries members are shown.
\<close>

section \<open>Code defaults and fail-safe readers\<close>

definition KARMA_TIERS :: "karma_tier list" where
  "KARMA_TIERS =
     [\<lparr>kt_tier = ''dharma'', kt_label = ''Dharma'', kt_min = 0, kt_color = ''#8a9382'',
       kt_blurb = ''The path is taken. Every accepted item carries the contributor's name.'',
       kt_perks = [''Leaderboard listing'', ''Tier badge on profile'',
                   ''Named credit on published dataset cards you contributed to''],
       kt_early_hours = 0, kt_concurrency = 0\<rparr>,
      \<lparr>kt_tier = ''bodhi'', kt_label = ''Bodhi'', kt_min = 5000, kt_color = ''#d4a24e'',
       kt_blurb = ''Awakening. The platform sees you before the crowd.'',
       kt_perks = [''Everything in Dharma'', ''24h early access to new community dataset pools'',
                   ''Batch sizes up to 25 items''],
       kt_early_hours = 24, kt_concurrency = 1\<rparr>,
      \<lparr>kt_tier = ''moksha'', kt_label = ''Moksha'', kt_min = 50000, kt_color = ''#b6ff1c'',
       kt_blurb = ''Liberation. Work recognized across domains.'',
       kt_perks = [''Everything in Bodhi'', ''48h early access'', ''Claim priority queue'',
                   ''Validator qualification fast-track''],
       kt_early_hours = 48, kt_concurrency = 2\<rparr>,
      \<lparr>kt_tier = ''nirvana'', kt_label = ''Nirvana'', kt_min = 500000, kt_color = ''#b9a6f2'',
       kt_blurb = ''The summit. Direct invites to featured dataset programs.'',
       kt_perks = [''Everything in Moksha'', ''72h first look'', ''Direct invites to featured dataset programs''],
       kt_early_hours = 72, kt_concurrency = 3\<rparr>]"

definition karmaTierForBalance :: "int \<Rightarrow> karma_tier" where
  "karmaTierForBalance balance =
     foldl (\<lambda>cur cand. if balance \<ge> kt_min cand then cand else cur) (hd KARMA_TIERS) KARMA_TIERS"

definition KARMA_RULES :: karma_rules where
  "KARMA_RULES =
     \<lparr>kr_accepted = (\<lambda>d. case d of Beginner \<Rightarrow> 10 | Intermediate \<Rightarrow> 25 | Advanced \<Rightarrow> 60),
      kr_audit_item = 8, kr_confirmed_flag = 25, kr_request_approved = 25,
      kr_publish_bonus = 150, kr_bounty_published = 50\<rparr>"

datatype setting_source = Stored | Default

text \<open>The argument is what \<open>getAdminSetting\<close> returned: \<open>None\<close> when no row is stored.\<close>

definition getKarmaTiers :: "json option \<Rightarrow> karma_tier list \<times> setting_source" where
  "getKarmaTiers stored =
     (if isKarmaTierConfigList stored then (tiers_of_json stored, Stored) else (KARMA_TIERS, Default))"

definition getKarmaRules :: "json option \<Rightarrow> karma_rules \<times> setting_source" where
  "getKarmaRules stored =
     (if isKarmaRulesConfig stored then (rules_of_json stored, Stored) else (KARMA_RULES, Default))"

text \<open>\<open>seed\<close> is \<open>CATEGORY_PRICING_SEED\<close> of \<open>lib/karma-category-scores.ts\<close>.\<close>

definition getKarmaMatrix :: "matrix_config \<Rightarrow> json option \<Rightarrow> matrix_config \<times> setting_source" where
  "getKarmaMatrix seed stored =
     (if isKarmaMatrixConfig stored then (matrix_of_json stored, Stored) else (seed, Default))"

definition resolveKarmaTier :: "json option \<Rightarrow> int \<Rightarrow> karma_tier \<times> karma_tier option \<times> real" where
  "resolveKarmaTier stored balance =
     (let tiers = fst (getKarmaTiers stored);
          current = karmaTierForBalanceIn tiers balance;
          nxt = nextKarmaTierIn tiers balance;
          progress = (case nxt of
                        Some n \<Rightarrow> min 1 (max 0 (real_of_int (balance - kt_min current)
                                                / real_of_int (kt_min n - kt_min current)))
                      | None \<Rightarrow> 1)
      in (current, nxt, progress))"

section \<open>Quotes and per-item amounts\<close>

record type_pricing =
  tp_complexity :: "int option"
  tp_units :: "int option"

record karma_quote =
  kq_complexity :: int
  kq_units :: int
  kq_fields :: int

text \<open>The dataset-type columns pricing reads; \<open>dt_fields\<close> is \<open>None\<close> when \<open>fields\<close> is not an array.\<close>

record dataset_type =
  dt_id :: ident
  dt_domain :: string
  dt_complexity :: "int option"
  dt_units :: "int option"
  dt_fields :: "nat option"

definition field_count :: "nat option \<Rightarrow> int" where
  "field_count fs = (case fs of Some n \<Rightarrow> int n | None \<Rightarrow> 0)"

definition createBountyKarmaQuote :: "dataset_type \<Rightarrow> karma_quote option" where
  "createBountyKarmaQuote t =
     (if \<not> isComplexityScore (dt_complexity t) \<or> dt_units t = None \<or> the (dt_units t) < 0 then None
      else Some \<lparr>kq_complexity = the (dt_complexity t), kq_units = the (dt_units t),
                 kq_fields = field_count (dt_fields t)\<rparr>)"

definition int_opt :: "json option \<Rightarrow> int option" where
  "int_opt v = (if is_int_num v then Some (int_of v) else None)"

definition asBountyKarmaQuote :: "json option \<Rightarrow> karma_quote option" where
  "asBountyKarmaQuote value =
     (if \<not> isRecord value then None
      else if jfield value ''version'' \<noteq> Some (JNum 1)
           \<or> \<not> isComplexityScore (int_opt (jfield value ''complexityScore''))
           \<or> \<not> is_int_num (jfield value ''verificationUnits'')
           \<or> num_of (jfield value ''verificationUnits'') < 0
           \<or> \<not> is_int_num (jfield value ''fieldCount'')
           \<or> num_of (jfield value ''fieldCount'') < 0 then None
      else Some \<lparr>kq_complexity = int_of (jfield value ''complexityScore''),
                 kq_units = int_of (jfield value ''verificationUnits''),
                 kq_fields = int_of (jfield value ''fieldCount'')\<rparr>)"

text \<open>The JSON a quote is stored as.\<close>

definition quote_json :: "karma_quote \<Rightarrow> json" where
  "quote_json q = JObj [(''version'', JNum 1), (''complexityScore'', JNum (real_of_int (kq_complexity q))),
                        (''verificationUnits'', JNum (real_of_int (kq_units q))),
                        (''fieldCount'', JNum (real_of_int (kq_fields q)))]"

definition effectiveTypePricing :: "string option \<Rightarrow> dataset_type option \<Rightarrow> matrix_config \<Rightarrow> type_pricing" where
  "effectiveTypePricing dtid dt matrix =
     (case matrixEntryFor matrix dtid of
        Some e \<Rightarrow> \<lparr>tp_complexity = Some (me_complexity e), tp_units = Some (me_units e)\<rparr>
      | None \<Rightarrow> (case dt of
                   Some t \<Rightarrow> \<lparr>tp_complexity = dt_complexity t, tp_units = dt_units t\<rparr>
                 | None \<Rightarrow> \<lparr>tp_complexity = None, tp_units = None\<rparr>))"

definition acceptedItemKarma ::
  "int \<Rightarrow> string option \<Rightarrow> karma_rules \<Rightarrow> type_pricing option \<Rightarrow> pricing_table \<Rightarrow> int" where
  "acceptedItemKarma perItem diff rules tp table =
     (if perItem > 0 then perItem
      else let resolved = resolveItemDifficulty diff
           in case tp of
                Some p \<Rightarrow>
                  (if isComplexityScore (tp_complexity p) \<and> tp_units p \<noteq> None
                   then contributorKarma table (the (tp_complexity p)) (rd_level resolved)
                          (bandForVerificationUnits table (the (tp_units p)))
                   else kr_accepted rules (rd_level resolved))
              | None \<Rightarrow> kr_accepted rules (rd_level resolved))"

definition acceptedItemKarmaForBounty ::
  "int \<Rightarrow> string option \<Rightarrow> json option \<Rightarrow> karma_rules \<Rightarrow> type_pricing option \<Rightarrow> pricing_table
     \<Rightarrow> int \<times> karma_quote option" where
  "acceptedItemKarmaForBounty perItem diff quoteValue rules tp table =
     (let q = asBountyKarmaQuote quoteValue
      in if perItem > 0 then (perItem, q)
         else case q of
                Some k \<Rightarrow> (contributorKarma table (kq_complexity k) (rd_level (resolveItemDifficulty diff))
                             (bandForVerificationUnits table (kq_units k)), q)
              | None \<Rightarrow> (acceptedItemKarma perItem diff rules tp table, None))"

definition auditItemKarma :: "karma_rules \<Rightarrow> (int option \<times> int) option \<Rightarrow> pricing_table \<Rightarrow> int" where
  "auditItemKarma rules tp table =
     (case tp of
        Some (c, nf) \<Rightarrow>
          (if isComplexityScore c then validatorKarma table (the c) (reviewLoadForFieldCount table nf)
           else kr_audit_item rules)
      | None \<Rightarrow> kr_audit_item rules)"

definition auditItemKarmaForBounty ::
  "json option \<Rightarrow> karma_rules \<Rightarrow> (int option \<times> int) option \<Rightarrow> pricing_table \<Rightarrow> int \<times> karma_quote option" where
  "auditItemKarmaForBounty quoteValue rules tp table =
     (case asBountyKarmaQuote quoteValue of
        Some k \<Rightarrow> (validatorKarma table (kq_complexity k) (reviewLoadForFieldCount table (kq_fields k)), Some k)
      | None \<Rightarrow> (auditItemKarma rules tp table, None))"

definition validatorAuditKarmaPerItem ::
  "json option \<Rightarrow> dataset_type option \<Rightarrow> karma_rules \<Rightarrow> pricing_table \<Rightarrow> int" where
  "validatorAuditKarmaPerItem quoteValue dt rules table =
     (let nf = (case dt of Some t \<Rightarrow> field_count (dt_fields t) | None \<Rightarrow> 0);
          c = (case dt of Some t \<Rightarrow> dt_complexity t | None \<Rightarrow> None)
      in fst (auditItemKarmaForBounty quoteValue rules (Some (c, nf)) table))"

section \<open>Summaries\<close>

record pricing_summary =
  ps_contributor_item :: int
  ps_contributor_total :: int
  ps_validator_item :: int
  ps_planned_audits :: int
  ps_validator_total :: int
  ps_complexity :: "int option"
  ps_units :: "int option"
  ps_difficulty :: difficulty

definition communityPricingSummary ::
  "int \<Rightarrow> string option \<Rightarrow> json option \<Rightarrow> int \<Rightarrow> int \<Rightarrow> type_pricing \<Rightarrow> int \<Rightarrow> karma_rules \<Rightarrow> pricing_table
     \<Rightarrow> pricing_summary" where
  "communityPricingSummary perItem diff quote target coverage tp nf rules table =
     (let contributor = acceptedItemKarmaForBounty perItem diff quote rules (Some tp) table;
          validator = auditItemKarmaForBounty quote rules (Some (tp_complexity tp, nf)) table;
          planned = \<lceil>real_of_int (target * coverage) / 100\<rceil>
      in \<lparr>ps_contributor_item = fst contributor,
          ps_contributor_total = fst contributor * target,
          ps_validator_item = fst validator,
          ps_planned_audits = planned,
          ps_validator_total = fst validator * planned,
          ps_complexity = (case snd contributor of Some q \<Rightarrow> Some (kq_complexity q) | None \<Rightarrow> tp_complexity tp),
          ps_units = (case snd contributor of Some q \<Rightarrow> Some (kq_units q) | None \<Rightarrow> tp_units tp),
          ps_difficulty = rd_level (resolveItemDifficulty diff)\<rparr>)"

record tier_estimate =
  te_tier :: string
  te_label :: string
  te_min :: int
  te_items :: "int option"

definition itemsNeededPerTier :: "int \<Rightarrow> karma_tier list \<Rightarrow> tier_estimate list" where
  "itemsNeededPerTier perItem tiers =
     map (\<lambda>t. \<lparr>te_tier = kt_tier t, te_label = kt_label t, te_min = kt_min t,
               te_items = (if perItem > 0 then Some \<lceil>real_of_int (kt_min t) / real_of_int perItem\<rceil> else None)\<rparr>)
       (filter (\<lambda>t. kt_min t > 0) tiers)"

definition lowest_highest_karma :: "pricing_table \<Rightarrow> int \<times> int" where
  "lowest_highest_karma table =
     (Min (set (map pc_karma (contributorMatrixCells table))),
      Max (set (map pc_karma (contributorMatrixCells table))))"

text \<open>
  The worked example and the catalogue's headline rate. A catalogue row is an active or inactive
  dataset type with its usage; the query keeps the active rows with a complexity score of their
  own, most used first.
\<close>

record karma_example =
  kx_type :: ident
  kx_complexity :: int
  kx_units :: int
  kx_band :: verification_band
  kx_difficulties :: "(difficulty \<times> int) list"
  kx_load :: review_load
  kx_validator :: int

definition karmaPricingExample :: "ident \<Rightarrow> type_pricing \<Rightarrow> int \<Rightarrow> pricing_table \<Rightarrow> karma_example option" where
  "karmaPricingExample tid tp nf table =
     (if \<not> isComplexityScore (tp_complexity tp) \<or> tp_units tp = None then None
      else let c = the (tp_complexity tp); u = the (tp_units tp);
               band = bandForVerificationUnits table u; load = reviewLoadForFieldCount table nf
           in Some \<lparr>kx_type = tid, kx_complexity = c, kx_units = u, kx_band = band,
                    kx_difficulties = map (\<lambda>l. (l, contributorKarma table c l band)) (map snd CANONICAL_DIFFICULTY_LEVELS),
                    kx_load = load, kx_validator = validatorKarma table c load\<rparr>)"

record catalog_row =
  cr_type :: dataset_type
  cr_active :: bool
  cr_usage :: int

definition priced_rows :: "catalog_row list \<Rightarrow> dataset_type list" where
  "priced_rows rows =
     map cr_type (sort_key (\<lambda>r. - cr_usage r) (sort_key (\<lambda>r. dt_id (cr_type r))
       (filter (\<lambda>r. cr_active r \<and> dt_complexity (cr_type r) \<noteq> None) rows)))"

definition live_pricing :: "matrix_config \<Rightarrow> dataset_type \<Rightarrow> type_pricing" where
  "live_pricing matrix t = effectiveTypePricing (Some (dt_id t)) (Some t) matrix"

definition fully_priced :: "type_pricing \<Rightarrow> bool" where
  "fully_priced tp \<longleftrightarrow> isComplexityScore (tp_complexity tp) \<and> tp_units tp \<noteq> None"

definition top_rate :: "pricing_table \<Rightarrow> type_pricing \<Rightarrow> int" where
  "top_rate table tp =
     contributorKarma table (the (tp_complexity tp)) Advanced (bandForVerificationUnits table (the (tp_units tp)))"

definition catalogPricingFacts ::
  "matrix_config \<Rightarrow> catalog_row list \<Rightarrow> pricing_table \<Rightarrow> int option \<times> karma_example option" where
  "catalogPricingFacts matrix rows table =
     (let priced = priced_rows rows;
          amounts = map (\<lambda>t. top_rate table (live_pricing matrix t))
                      (filter (\<lambda>t. fully_priced (live_pricing matrix t)) priced)
      in (if amounts = [] then None else Some (Max (set amounts)),
          case find_where (\<lambda>t. fully_priced (live_pricing matrix t)) priced of
            None \<Rightarrow> None
          | Some t \<Rightarrow> karmaPricingExample (dt_id t) (live_pricing matrix t) (field_count (dt_fields t)) table))"

section \<open>Facts\<close>

lemma default_tiers_ok: "tier_table_ok KARMA_TIERS"
  by (simp add: tier_table_ok_def KARMA_TIERS_def)

lemma default_rules_positive: "rules_positive KARMA_RULES"
  by (auto simp: rules_positive_def KARMA_RULES_def split: difficulty.splits)

interpretation default_tiers: threshold_ladder kt_min KARMA_TIERS karmaTierForBalance
  using default_tiers_ok
  by unfold_locales (auto simp: tier_table_ok_def karmaTierForBalance_def last_reached_def)

lemma getKarmaTiers_ok: "tier_table_ok (fst (getKarmaTiers stored))"
  by (simp add: getKarmaTiers_def stored_tiers_ok default_tiers_ok)

text \<open>Whatever is stored, the live tier table is a ladder and the live search is its \<open>pick\<close>.\<close>

interpretation live_tiers: threshold_ladder kt_min "fst (getKarmaTiers stored)"
    "karmaTierForBalanceIn (fst (getKarmaTiers stored))" for stored
  by (rule tier_table_ladder [OF getKarmaTiers_ok])

lemma getKarmaRules_positive: "rules_positive (fst (getKarmaRules stored))"
  by (simp add: getKarmaRules_def stored_rules_positive default_rules_positive)

lemma live_floor_reached:
  assumes "0 \<le> b"
  shows "\<exists>c \<in> set (fst (getKarmaTiers stored)). kt_min c \<le> b"
proof (rule bexI)
  have ok: "tier_table_ok (fst (getKarmaTiers stored))" by (rule getKarmaTiers_ok)
  then show "hd (fst (getKarmaTiers stored)) \<in> set (fst (getKarmaTiers stored))"
    by (auto simp: tier_table_ok_def)
  show "kt_min (hd (fst (getKarmaTiers stored))) \<le> b"
    using ok assms by (simp add: tier_table_ok_def)
qed

lemma progress_bounds:
  "(case resolveKarmaTier stored b of (c, n, p) \<Rightarrow> 0 \<le> p \<and> p \<le> 1)"
  by (simp add: resolveKarmaTier_def Let_def split: option.splits)

lemma scored_units:
  "createBountyKarmaQuote t = Some q \<Longrightarrow>
   isComplexityScore (Some (kq_complexity q)) \<and> 0 \<le> kq_units q \<and> 0 \<le> kq_fields q"
  by (auto simp: createBountyKarmaQuote_def isComplexityScore_def field_count_def split: if_splits option.splits)

lemma asBountyKarmaQuote_scored:
  "asBountyKarmaQuote v = Some q \<Longrightarrow> isComplexityScore (Some (kq_complexity q)) \<and> 0 \<le> kq_units q \<and> 0 \<le> kq_fields q"
  by (auto simp: asBountyKarmaQuote_def int_opt_def int_of_def isComplexityScore_def split: if_splits)

lemma quote_roundtrip:
  assumes "isComplexityScore (Some (kq_complexity q))" and "0 \<le> kq_units q" and "0 \<le> kq_fields q"
  shows "asBountyKarmaQuote (Some (quote_json q)) = Some q"
  using assms
  by (simp add: asBountyKarmaQuote_def quote_json_def jfield_def int_opt_def int_of_def)

lemma acceptedItemKarma_positive:
  assumes "rules_positive rules" and "pricing_table_ok table"
  shows "0 < acceptedItemKarma perItem diff rules tp table"
  using assms contributorKarma_positive [OF assms(2)]
  by (auto simp: acceptedItemKarma_def Let_def rules_positive_def split: option.splits)

lemma acceptedItemKarmaForBounty_positive:
  assumes "rules_positive rules" and "pricing_table_ok table"
  shows "0 < fst (acceptedItemKarmaForBounty perItem diff q rules tp table)"
  using assms contributorKarma_positive [OF assms(2)] acceptedItemKarma_positive [OF assms]
  by (auto simp: acceptedItemKarmaForBounty_def Let_def split: option.splits)

lemma validatorAuditKarmaPerItem_positive:
  assumes "rules_positive rules" and "pricing_table_ok table"
  shows "0 < validatorAuditKarmaPerItem q dt rules table"
proof -
  have v: "0 < validatorKarma table c l" if "isComplexityScore (Some c)" for c l
    using that assms(2) by (auto simp: validatorKarma_def pricing_table_ok_def isComplexityScore_def)
  show ?thesis
    using assms(1) v asBountyKarmaQuote_scored [of q]
    by (auto simp: validatorAuditKarmaPerItem_def auditItemKarmaForBounty_def auditItemKarma_def Let_def
        rules_positive_def isComplexityScore_def split: option.splits)
qed

lemma priced_rows_set:
  "set (priced_rows rows) = cr_type ` {r \<in> set rows. cr_active r \<and> dt_complexity (cr_type r) \<noteq> None}"
  by (auto simp: priced_rows_def)

lemma acceptedItemKarma_top_rate:
  "fully_priced tp \<Longrightarrow> acceptedItemKarma 0 (Some ''advanced'') rules (Some tp) table = top_rate table tp"
proof -
  assume f: "fully_priced tp"
  have "rd_level (resolveItemDifficulty (Some ''advanced'')) = Advanced"
    using label_resolves_exactly [of Advanced] by simp
  with f show ?thesis by (auto simp: acceptedItemKarma_def fully_priced_def top_rate_def Let_def)
qed

section \<open>Properties\<close>

text \<open>the tier a member is given. Whatever is stored in \<open>karma.tiers\<close> (a malformed value
  falls back to the shipped table as a whole), the tier resolved for a non-negative balance is a
  row of the live table whose floor is reached, no reached floor is higher, the next tier is the
  least floor above the balance, progress is a fraction, and more karma never means a lower tier.\<close>

lemma live_tier_is_highest_reached:
  assumes "0 \<le> b" and "b \<le> b'"
    and "resolveKarmaTier stored b = (cur, nxt, prog)" and "resolveKarmaTier stored b' = (cur', nxt', prog')"
  shows "cur \<in> set (fst (getKarmaTiers stored)) \<and> kt_min cur \<le> b
    \<and> (\<forall>t \<in> set (fst (getKarmaTiers stored)). kt_min t \<le> b \<longrightarrow> kt_min t \<le> kt_min cur)
    \<and> (\<forall>n. nxt = Some n \<longrightarrow> b < kt_min n
          \<and> (\<forall>t \<in> set (fst (getKarmaTiers stored)). b < kt_min t \<longrightarrow> kt_min n \<le> kt_min t))
    \<and> 0 \<le> prog \<and> prog \<le> 1 \<and> kt_min cur \<le> kt_min cur'"
proof -
  have cur: "cur = karmaTierForBalanceIn (fst (getKarmaTiers stored)) b"
    "cur' = karmaTierForBalanceIn (fst (getKarmaTiers stored)) b'"
    and nxt: "nxt = find_where (\<lambda>t. b < kt_min t) (fst (getKarmaTiers stored))"
    using assms(3,4) by (simp_all add: resolveKarmaTier_def Let_def nextKarmaTierIn_def)
  have prog: "0 \<le> prog \<and> prog \<le> 1"
    using progress_bounds [of stored b] assms(3) by simp
  have reached: "\<exists>c \<in> set (fst (getKarmaTiers stored)). kt_min c \<le> b"
    by (rule live_floor_reached [OF assms(1)])
  have "\<forall>t \<in> set (fst (getKarmaTiers stored)). kt_min t \<le> b \<longrightarrow> kt_min t \<le> kt_min cur"
    unfolding cur using live_tiers.pick_greatest by blast
  moreover have "cur \<in> set (fst (getKarmaTiers stored)) \<and> kt_min cur \<le> b \<and> kt_min cur \<le> kt_min cur'"
    unfolding cur using live_tiers.last_mem_filter(1,2) [OF reached] live_tiers.pick_mono [OF assms(2) reached]
    by blast
  ultimately show ?thesis
    using prog live_tiers.next_above [of b stored] by (simp add: nxt)
qed

lemma live_tier_is_highest_reached_witness:
  "kt_min (fst (resolveKarmaTier None 6000)) \<le> 6000"
  using live_tier_is_highest_reached [of 6000 6000 None] by (cases "resolveKarmaTier None 6000") simp

text \<open>every accepted item pays. Whatever rules are stored, whatever the difficulty label, the
  quote and the axes are, an accepted item and an audited item of a bounty are worth a positive
  amount under the live rules and the shipped ladder: pricing never fails and never pays zero.\<close>

lemma every_item_pays:
  "0 < fst (acceptedItemKarmaForBounty perItem diff q (fst (getKarmaRules stored)) tp DEFAULT_KARMA_PRICING_TABLE)
   \<and> 0 < validatorAuditKarmaPerItem q dt (fst (getKarmaRules stored)) DEFAULT_KARMA_PRICING_TABLE"
  by (intro conjI acceptedItemKarmaForBounty_positive validatorAuditKarmaPerItem_positive
      getKarmaRules_positive default_table_ok)

text \<open>C4: a frozen quote is immune to later edits. A quote minted from a priced dataset type is
  read back as itself, and once a bounty carries a readable quote, neither the live rules nor the
  live axes of its type change what an item pays.\<close>

theorem quote_freezes_price:
  assumes "createBountyKarmaQuote t = Some k"
  shows "asBountyKarmaQuote (Some (quote_json k)) = Some k
    \<and> acceptedItemKarmaForBounty perItem diff (Some (quote_json k)) rules tp table
        = acceptedItemKarmaForBounty perItem diff (Some (quote_json k)) rules' tp' table
    \<and> validatorAuditKarmaPerItem (Some (quote_json k)) dt rules table
        = validatorAuditKarmaPerItem (Some (quote_json k)) dt' rules' table"
proof -
  have "asBountyKarmaQuote (Some (quote_json k)) = Some k"
    using scored_units [OF assms] by (intro quote_roundtrip) simp_all
  then show ?thesis
    by (simp add: acceptedItemKarmaForBounty_def validatorAuditKarmaPerItem_def auditItemKarmaForBounty_def Let_def)
qed

definition demo_type :: dataset_type where
  "demo_type = \<lparr>dt_id = ''sql_generation'', dt_domain = ''coding'', dt_complexity = Some 2, dt_units = Some 3,
     dt_fields = Some 6\<rparr>"

theorem quote_freezes_price_witness:
  "asBountyKarmaQuote (Some (quote_json \<lparr>kq_complexity = 2, kq_units = 3, kq_fields = 6\<rparr>))
     = Some \<lparr>kq_complexity = 2, kq_units = 3, kq_fields = 6\<rparr>"
  using quote_freezes_price [of demo_type "\<lparr>kq_complexity = 2, kq_units = 3, kq_fields = 6\<rparr>"]
  by (simp add: demo_type_def createBountyKarmaQuote_def isComplexityScore_def COMPLEXITY_SCORES_def field_count_def)

text \<open>the shipped price table is monotone and capped: an item of higher complexity, or with
  more verification units, never pays less, and no cell leaves the ladder's range of 10 to 75.\<close>

lemma shipped_prices_monotone:
  assumes "c \<in> set COMPLEXITY_SCORES" and "c' \<in> set COMPLEXITY_SCORES" and "c \<le> c'" and "u \<le> u'"
  shows "contributorKarma DEFAULT_KARMA_PRICING_TABLE c d (bandForVerificationUnits DEFAULT_KARMA_PRICING_TABLE u)
           \<le> contributorKarma DEFAULT_KARMA_PRICING_TABLE c' d (bandForVerificationUnits DEFAULT_KARMA_PRICING_TABLE u')
    \<and> validatorKarma DEFAULT_KARMA_PRICING_TABLE c l \<le> validatorKarma DEFAULT_KARMA_PRICING_TABLE c' l
    \<and> contributorKarma DEFAULT_KARMA_PRICING_TABLE c d b \<in> {10..75}"
proof -
  let ?T = DEFAULT_KARMA_PRICING_TABLE
  have "pt_contributor ?T c d \<le> pt_contributor ?T c' d"
    using default_contributor_mono [OF assms(1-3), of d] by (simp add: DEFAULT_KARMA_PRICING_TABLE_def)
  then have "contributorKarma ?T c d (bandForVerificationUnits ?T u) \<le> contributorKarma ?T c' d (bandForVerificationUnits ?T u')"
    using band_shift_mono [OF default_table_ok assms(4)] by (intro contributorKarma_mono default_table_ok) simp
  moreover have "validatorKarma ?T c l \<le> validatorKarma ?T c' l"
    using default_validator_mono [OF assms(1-3), of l] by (simp add: validatorKarma_def DEFAULT_KARMA_PRICING_TABLE_def)
  moreover have "contributorKarma ?T c d b \<in> {10..75}"
    using contributorKarma_in_ladder [of ?T c d b] by (auto simp: DEFAULT_KARMA_PRICING_TABLE_def DEFAULT_KARMA_LADDER_def)
  ultimately show ?thesis by blast
qed

lemma shipped_prices_monotone_witness:
  "contributorKarma DEFAULT_KARMA_PRICING_TABLE 1 Beginner (bandForVerificationUnits DEFAULT_KARMA_PRICING_TABLE 0)
     \<le> contributorKarma DEFAULT_KARMA_PRICING_TABLE 4 Beginner (bandForVerificationUnits DEFAULT_KARMA_PRICING_TABLE 9)"
  using shipped_prices_monotone [of 1 4 0 9 Beginner] by (simp add: COMPLEXITY_SCORES_def)

text \<open>the headline rate on the karma page misses override-priced categories. A dataset type
  without axes of its own that the operator priced through \<open>karma.matrix\<close> pays its ladder cell
  for an advanced item, but the query behind the headline drops it, so the page can announce no
  rate at all while the award path pays 75.\<close>

lemma headline_misses_overrides:
  "\<exists>matrix rows t. set rows = {\<lparr>cr_type = t, cr_active = True, cr_usage = 0\<rparr>}
     \<and> fst (catalogPricingFacts matrix rows DEFAULT_KARMA_PRICING_TABLE) = None
     \<and> acceptedItemKarma 0 (Some ''advanced'') KARMA_RULES (Some (live_pricing matrix t)) DEFAULT_KARMA_PRICING_TABLE = 75"
proof (intro exI conjI)
  let ?t = "demo_type\<lparr>dt_complexity := None, dt_units := None\<rparr>"
  let ?m = "(\<lambda>k. None)(''sql_generation'' := Some \<lparr>me_complexity = 4, me_units = 5\<rparr>) :: matrix_config"
  let ?rows = "[\<lparr>cr_type = ?t, cr_active = True, cr_usage = 0\<rparr>]"
  show "set ?rows = {\<lparr>cr_type = ?t, cr_active = True, cr_usage = 0\<rparr>}" by simp
  show "fst (catalogPricingFacts ?m ?rows DEFAULT_KARMA_PRICING_TABLE) = None"
    by (simp add: catalogPricingFacts_def priced_rows_def Let_def)
  have tp: "live_pricing ?m ?t = \<lparr>tp_complexity = Some 4, tp_units = Some 5\<rparr>"
    by (simp add: live_pricing_def effectiveTypePricing_def matrixEntryFor_def demo_type_def)
  have "fully_priced (live_pricing ?m ?t)"
    unfolding tp by (simp add: fully_priced_def isComplexityScore_def COMPLEXITY_SCORES_def)
  then have "acceptedItemKarma 0 (Some ''advanced'') KARMA_RULES (Some (live_pricing ?m ?t)) DEFAULT_KARMA_PRICING_TABLE
      = top_rate DEFAULT_KARMA_PRICING_TABLE (live_pricing ?m ?t)"
    by (rule acceptedItemKarma_top_rate)
  also have "\<dots> = 75"
    unfolding tp by code_simp
  finally show "acceptedItemKarma 0 (Some ''advanced'') KARMA_RULES (Some (live_pricing ?m ?t)) DEFAULT_KARMA_PRICING_TABLE = 75" .
qed

end
