(* ===== verification/Schema.thy ===== *)
theory Schema
  imports Karma_Pricing
begin

text \<open>
  The data model (\<open>prisma/schema.prisma\<close> and the client types generated from it): the
  enumerations the services branch on, one record per table with the columns the modelled
  services read or write, and the database as a record of tables. Ids of created rows come
  from a supply \<open>e_id\<close>, indexed by the number of rows created so far; the clock, the admin
  settings and the hash functions are fields of the environment \<open>env\<close>.
\<close>

section \<open>Enumerations\<close>

datatype bounty_status =
  B_draft | B_planning | B_platform_review | B_active | B_paused | B_closing | B_export_ready
  | B_completed | B_partially_completed | B_cancelled | B_disputed

datatype publication_status =
  P_not_requested | P_pending | P_publishing | P_published | P_failed | P_manual_review
  | P_retracted | P_not_configured | P_awaiting_manual_upload

datatype submission_status =
  S_draft | S_submitted | S_duplicate_check | S_contamination_check | S_running_tests | S_tests_failed
  | S_llm_validation | S_needs_fixes | S_provisionally_accepted | S_in_audit | S_in_sponsor_review
  | S_flagged | S_disputed | S_accepted | S_accepted_pending_sample | S_rejected

datatype flag_status = F_open | F_fixed | F_disputed | F_confirmed | F_dismissed

datatype flag_reason =
  FR_duplicate | FR_contaminated | FR_tests_invalid | FR_solution_incorrect | FR_too_trivial
  | FR_low_quality | FR_off_spec | FR_other

datatype dispute_status = D_open | D_resolved

datatype audit_verdict = V_ok | V_flagged

datatype karma_event_type =
  K_item_accepted | K_item_reversed | K_audit_completed | K_request_approved | K_bounty_published
  | K_flag_confirmed | K_publish_bonus | K_admin_adjustment

datatype job_status = J_pending | J_processing | J_done | J_failed | J_dead | J_cancelled

datatype notification_status = N_pending | N_digesting | N_done | N_dead

datatype channel_kind = Ch_email | Ch_telegram | Ch_discord | Ch_slack | Ch_google_chat | Ch_microsoft_teams

datatype delivery_status = DL_pending | DL_processing | DL_sent | DL_failed | DL_dead

datatype artifact_kind =
  AK_sponsor_reference | AK_submission_attachment | AK_bulk_submission_source | AK_validation_log
  | AK_validation_report | AK_export_bundle | AK_public_sample | AK_benchmark_manifest
  | AK_benchmark_private_split | AK_benchmark_run_output | AK_publication_bundle

datatype artifact_status = AS_pending_upload | AS_scanning | AS_ready | AS_quarantined | AS_deleted

datatype role = R_sponsor | R_contributor | R_validator | R_admin | R_member | R_support

section \<open>Rows\<close>

record user_row =
  u_id :: ident
  u_karma :: int
  u_name :: string
  u_handle :: "string option"
  u_public :: bool
  u_active :: bool
  u_show_karma :: bool
  u_rank :: "int option"
  u_rank_at :: "time option"
  u_rank_prev :: "int option"
  u_rank_moved :: "time option"
  u_prefs :: "json option"

record rank_row =
  rk_user :: ident
  rk_audits :: int
  rk_missed :: int

record bounty_row =
  b_id :: ident
  b_requester :: ident
  b_community_requester :: "ident option"
  b_per_item :: int
  b_license :: "string option"
  b_publication :: publication_status
  b_type :: "dataset_type option"
  b_quote :: "json option"
  b_target :: int
  b_status :: bounty_status
  b_coverage :: int
  b_window_size :: "int option"
  b_failure_pct :: "int option"
  b_difficulty :: "string option"
  b_dispute_hours :: "int option"
  b_accepted :: int
  b_final_accepted :: int
  b_closed_at :: "time option"
  b_sampling_started :: "time option"
  b_sampling_completed :: "time option"
  b_cycle_opens :: "time option"
  b_cycle_settled :: "time option"
  b_sponsor_closed :: "time option"
  b_updated :: time

record submission_row =
  s_id :: ident
  s_bounty :: ident
  s_contributor :: ident
  s_payload :: json
  s_status :: submission_status
  s_dup_score :: "real option"
  s_dup_method :: "string option"
  s_dup_of :: "ident option"
  s_dup_decision :: "string option"
  s_contamination :: "real option"
  s_llm :: "real option"
  s_revisions :: int
  s_attempt :: int
  s_accepted_at :: "time option"
  s_pending_review :: bool
  s_dedupe :: "string option"
  s_created :: time
  s_updated :: time

record validation_row =
  vr_id :: ident
  vr_submission :: ident
  vr_attempt :: int
  vr_stage :: string
  vr_passed :: bool
  vr_score :: "real option"
  vr_outcome :: "string option"

record revision_row =
  rv_id :: ident
  rv_submission :: ident
  rv_number :: int
  rv_payload :: json
  rv_status :: submission_status
  rv_dup_score :: "real option"
  rv_llm :: "real option"
  rv_evidence :: "validation_row list"

record flag_row =
  fl_id :: ident
  fl_submission :: ident
  fl_validator :: "ident option"
  fl_reason :: flag_reason
  fl_details :: "string option"
  fl_status :: flag_status
  fl_created :: time

record dispute_row =
  di_id :: ident
  di_bounty :: "ident option"
  di_submission :: "ident option"
  di_raised_by :: "ident option"
  di_reason :: flag_reason
  di_argument :: string
  di_status :: dispute_status
  di_resolution :: "string option"
  di_decision :: "string option"
  di_resolved_by :: "ident option"
  di_created :: time
  di_resolved_at :: "time option"

record window_row =
  w_id :: ident
  w_bounty :: ident
  w_index :: int
  w_eligible :: int
  w_quota :: int
  w_carry :: int
  w_reason :: string
  w_closed_at :: time
  w_settled_at :: "time option"
  w_failed_at :: "time option"
  w_rejected :: "int option"
  w_superseded_at :: "time option"
  w_superseded_reason :: "string option"
  w_claimed_by :: "ident option"
  w_claimed_at :: "time option"
  w_expires :: "time option"
  w_batch :: "ident option"

record member_row =
  m_id :: ident
  m_window :: ident
  m_submission :: ident
  m_selected :: bool
  m_rank :: string

record audit_batch_row =
  ab_id :: ident
  ab_bounty :: ident
  ab_validator :: "ident option"
  ab_count :: int
  ab_status :: string
  ab_deadline :: "time option"
  ab_claimed_at :: "time option"
  ab_created :: time

record audit_item_row =
  ai_id :: ident
  ai_batch :: ident
  ai_submission :: ident
  ai_verdict :: "audit_verdict option"
  ai_reason :: "flag_reason option"
  ai_note :: "string option"
  ai_decided :: "time option"

record karma_event_row =
  ke_id :: ident
  ke_user :: ident
  ke_type :: karma_event_type
  ke_amount :: int
  ke_source_type :: string
  ke_source_id :: string
  ke_at :: time

record pending_award_row =
  pa_id :: ident
  pa_bounty :: ident
  pa_user :: ident
  pa_type :: karma_event_type
  pa_amount :: int
  pa_source_type :: string
  pa_source_id :: string
  pa_at :: time
  pa_released :: "time option"
  pa_reversed :: "time option"
  pa_reason :: "string option"

record job_row =
  j_id :: ident
  j_type :: string
  j_key :: string
  j_payload :: json
  j_status :: job_status
  j_attempts :: int
  j_max :: int
  j_next :: "time option"
  j_error :: "string option"
  j_workspace :: "string option"
  j_started :: "time option"
  j_finished :: "time option"

record notification_row =
  n_id :: ident
  n_user :: ident
  n_type :: string
  n_key :: string
  n_status :: notification_status
  n_entity_type :: "string option"
  n_entity :: "ident option"
  n_bounty :: "ident option"
  n_read :: bool
  n_at :: time

record channel_row =
  ch_id :: ident
  ch_user :: ident
  ch_kind :: channel_kind
  ch_address :: string
  ch_connected :: bool
  ch_verified :: bool
  ch_deliver :: bool
  ch_digest :: bool
  ch_error :: "string option"

record delivery_row =
  dl_notification :: ident
  dl_channel :: channel_kind
  dl_address :: string
  dl_status :: delivery_status
  dl_attempts :: int
  dl_next :: "time option"
  dl_error :: "string option"

record watch_row =
  wp_user :: ident
  wp_enabled :: bool
  wp_domains :: "string list"
  wp_categories :: "string list"
  wp_languages :: "string list"

record lsh_band_row =
  lb_submission :: ident
  lb_index :: nat
  lb_hash :: string

record artifact_row =
  art_id :: ident
  art_kind :: artifact_kind
  art_status :: artifact_status
  art_owner :: "ident option"
  art_bounty :: "ident option"
  art_batch :: "ident option"
  art_submission :: "ident option"

section \<open>The database and the environment\<close>

record db =
  users :: "user_row list"
  bounties :: "bounty_row list"
  submissions :: "submission_row list"
  vresults :: "validation_row list"
  revisions :: "revision_row list"
  flags :: "flag_row list"
  disputes :: "dispute_row list"
  windows :: "window_row list"
  members :: "member_row list"
  abatches :: "audit_batch_row list"
  aitems :: "audit_item_row list"
  kevents :: "karma_event_row list"
  awards :: "pending_award_row list"
  jobs :: "job_row list"
  notifs :: "notification_row list"
  channels :: "channel_row list"
  deliveries :: "delivery_row list"
  roles :: "(ident \<times> role) list"
  ranks :: "rank_row list"
  bands :: "lsh_band_row list"
  artifacts :: "artifact_row list"
  watches :: "watch_row list"
  db_seq :: nat

record env =
  e_now :: time
  e_id :: "nat \<Rightarrow> ident"
  e_setting :: "string \<Rightarrow> json option"
  e_sha256 :: "string \<Rightarrow> string"
  e_hmac :: "string \<Rightarrow> string" \<comment> \<open>HMAC-SHA256 under the pool sampling secret, in hex\<close>

definition fresh :: "env \<Rightarrow> db \<Rightarrow> ident" where
  "fresh e d = e_id e (db_seq d)"

abbreviation hours_ms :: "int \<Rightarrow> time" where
  "hours_ms h \<equiv> h * 3600000"

definition bounty_by :: "ident \<Rightarrow> db \<Rightarrow> bounty_row option" where
  "bounty_by k d = find_where (\<lambda>b. b_id b = k) (bounties d)"

definition submission_by :: "ident \<Rightarrow> db \<Rightarrow> submission_row option" where
  "submission_by k d = find_where (\<lambda>s. s_id s = k) (submissions d)"

definition window_by :: "ident \<Rightarrow> db \<Rightarrow> window_row option" where
  "window_by k d = find_where (\<lambda>w. w_id w = k) (windows d)"

definition batch_by :: "ident \<Rightarrow> db \<Rightarrow> audit_batch_row option" where
  "batch_by k d = find_where (\<lambda>a. ab_id a = k) (abatches d)"

definition user_by :: "ident \<Rightarrow> db \<Rightarrow> user_row option" where
  "user_by k d = find_where (\<lambda>u. u_id u = k) (users d)"

definition set_bounty :: "(bounty_row \<Rightarrow> bool) \<Rightarrow> (bounty_row \<Rightarrow> bounty_row) \<Rightarrow> db \<Rightarrow> db" where
  "set_bounty P f d = d\<lparr>bounties := update_where P f (bounties d)\<rparr>"

text \<open>A write of the client stamps \<open>updatedAt\<close>; raw SQL does not.\<close>

definition update_bounty :: "env \<Rightarrow> (bounty_row \<Rightarrow> bool) \<Rightarrow> (bounty_row \<Rightarrow> bounty_row) \<Rightarrow> db \<Rightarrow> db" where
  "update_bounty e P f d = set_bounty P (\<lambda>b. (f b)\<lparr>b_updated := e_now e\<rparr>) d"

definition set_submission :: "(submission_row \<Rightarrow> bool) \<Rightarrow> (submission_row \<Rightarrow> submission_row) \<Rightarrow> db \<Rightarrow> db" where
  "set_submission P f d = d\<lparr>submissions := update_where P f (submissions d)\<rparr>"

definition set_window :: "(window_row \<Rightarrow> bool) \<Rightarrow> (window_row \<Rightarrow> window_row) \<Rightarrow> db \<Rightarrow> db" where
  "set_window P f d = d\<lparr>windows := update_where P f (windows d)\<rparr>"

definition set_batch :: "(audit_batch_row \<Rightarrow> bool) \<Rightarrow> (audit_batch_row \<Rightarrow> audit_batch_row) \<Rightarrow> db \<Rightarrow> db" where
  "set_batch P f d = d\<lparr>abatches := update_where P f (abatches d)\<rparr>"

definition count_submissions :: "ident \<Rightarrow> submission_status set \<Rightarrow> db \<Rightarrow> int" where
  "count_submissions b sts d = int (count_where (\<lambda>s. s_bounty s = b \<and> s_status s \<in> sts) (submissions d))"

lemmas row_updates = set_bounty_def update_bounty_def set_submission_def set_window_def set_batch_def

text \<open>The empty database, and an environment whose ids are the decimal numerals.\<close>

definition db0 :: db where
  "db0 = \<lparr>users = [], bounties = [], submissions = [], vresults = [], revisions = [], flags = [],
          disputes = [], windows = [], members = [], abatches = [], aitems = [], kevents = [],
          awards = [], jobs = [], notifs = [], channels = [], deliveries = [], roles = [], ranks = [], bands = [],
          artifacts = [], watches = [], db_seq = 0\<rparr>"

definition env0 :: "time \<Rightarrow> env" where
  "env0 t = \<lparr>e_now = t, e_id = (\<lambda>n. ''id'' @ show_nat n), e_setting = (\<lambda>k. None), e_sha256 = (\<lambda>s. s),
             e_hmac = (\<lambda>s. s)\<rparr>"

lemma env0_ids: "inj (e_id (env0 t))"
  by (rule injI) (auto simp: env0_def dest: show_nat_inj)

text \<open>A bare user, bounty and submission, for concrete instances.\<close>

definition user0 :: "ident \<Rightarrow> user_row" where
  "user0 i = \<lparr>u_id = i, u_karma = 0, u_name = i, u_handle = Some i, u_public = True, u_active = True,
     u_show_karma = True, u_rank = None, u_rank_at = None, u_rank_prev = None, u_rank_moved = None,
     u_prefs = None\<rparr>"

definition bounty0 :: "ident \<Rightarrow> bounty_row" where
  "bounty0 i = \<lparr>b_id = i, b_requester = ''sponsor'', b_community_requester = None, b_per_item = 10,
     b_license = None, b_publication = P_not_requested, b_type = None, b_quote = None, b_target = 2,
     b_status = B_active, b_coverage = 50, b_window_size = None, b_failure_pct = None, b_difficulty = None,
     b_dispute_hours = None, b_accepted = 0, b_final_accepted = 0, b_closed_at = None,
     b_sampling_started = None, b_sampling_completed = None, b_cycle_opens = None, b_cycle_settled = None,
     b_sponsor_closed = None, b_updated = 0\<rparr>"

definition submission0 :: "ident \<Rightarrow> ident \<Rightarrow> ident \<Rightarrow> submission_status \<Rightarrow> submission_row" where
  "submission0 i b c st = \<lparr>s_id = i, s_bounty = b, s_contributor = c, s_payload = JNull,
     s_status = st, s_dup_score = None, s_dup_method = None, s_dup_of = None, s_dup_decision = None,
     s_contamination = None, s_llm = None, s_revisions = 0, s_attempt = 0, s_accepted_at = None,
     s_pending_review = False, s_dedupe = None, s_created = 0, s_updated = 0\<rparr>"

lemma count_submissions_mono: "A \<subseteq> B \<Longrightarrow> count_submissions b A d \<le> count_submissions b B d"
  unfolding count_submissions_def by (simp, rule count_where_mono) auto

lemma count_submissions_nonneg [simp]: "0 \<le> count_submissions b A d"
  by (simp add: count_submissions_def)

end
