(* ===== verification/Notifications.thy ===== *)
theory Notifications
  imports Schema
begin

text \<open>
  The notification outbox: the event catalog (\<open>services/notifications/events.ts\<close>: category,
  entity type, priority and cadence of each event; its rendered texts are not modelled) and the
  writes of \<open>services/notifications.ts\<close>. A notification row is unique per user and event key and
  is written together with one delivery intent per eligible channel.
\<close>

section \<open>Event catalog\<close>

datatype event_category = C_sponsor | C_contributor | C_validator | C_account | C_admin

datatype event_priority = Pr_high | Pr_medium | Pr_low

datatype event_cadence = Cad_immediate | Cad_digest

record event_def =
  ev_name :: string
  ev_category :: event_category
  ev_entity :: string
  ev_priority :: event_priority
  ev_cadence :: event_cadence

definition ev :: "string \<Rightarrow> event_category \<Rightarrow> string \<Rightarrow> event_priority \<Rightarrow> event_cadence \<Rightarrow> event_def" where
  "ev n c en p k = \<lparr>ev_name = n, ev_category = c, ev_entity = en, ev_priority = p, ev_cadence = k\<rparr>"

definition REVIEW_EVENTS :: "event_def list" where
  "REVIEW_EVENTS =
     [ev ''community.request_submitted'' C_admin ''dataset_request'' Pr_medium Cad_digest,
      ev ''community.request_status_changed'' C_sponsor ''dataset_request'' Pr_medium Cad_digest,
      ev ''community.request_implemented'' C_sponsor ''dataset_request'' Pr_high Cad_digest,
      ev ''community.request_changes_requested'' C_sponsor ''dataset_request'' Pr_high Cad_immediate,
      ev ''community.request_resubmitted'' C_admin ''dataset_request'' Pr_medium Cad_digest,
      ev ''community.request_comment_added'' C_sponsor ''dataset_request'' Pr_low Cad_digest,
      ev ''community.request_disputed'' C_admin ''dataset_request'' Pr_high Cad_immediate,
      ev ''community.request_declined'' C_sponsor ''dataset_request'' Pr_high Cad_immediate,
      ev ''community.request_possible_duplicate'' C_admin ''dataset_request'' Pr_low Cad_digest,
      ev ''dataset_type.review_decided'' C_sponsor ''dataset_type'' Pr_high Cad_digest,
      ev ''sponsor.request_example_reviewed'' C_sponsor ''dataset_request'' Pr_high Cad_immediate,
      ev ''sponsor.example_reviewed'' C_sponsor ''bounty'' Pr_high Cad_immediate,
      ev ''work.new_match'' C_contributor ''bounty'' Pr_high Cad_digest,
      ev ''batch.claimed'' C_sponsor ''batch'' Pr_medium Cad_digest,
      ev ''batch.deadline_approaching'' C_contributor ''batch'' Pr_high Cad_immediate,
      ev ''batch.settled'' C_sponsor ''batch'' Pr_medium Cad_digest,
      ev ''batch.abandoned'' C_contributor ''batch'' Pr_high Cad_digest,
      ev ''batch.abandoned_sponsor'' C_sponsor ''batch'' Pr_medium Cad_digest]"

definition SUBMISSION_EVENTS :: "event_def list" where
  "SUBMISSION_EVENTS =
     [ev ''submission.accepted'' C_contributor ''submission'' Pr_high Cad_digest,
      ev ''submission.needs_fixes'' C_contributor ''submission'' Pr_high Cad_digest,
      ev ''submission.rejected'' C_contributor ''submission'' Pr_high Cad_digest,
      ev ''submission.rejected_final'' C_sponsor ''submission'' Pr_high Cad_digest,
      ev ''submission.pending_sponsor_review'' C_sponsor ''submission'' Pr_high Cad_digest,
      ev ''submission.queued_for_audit'' C_sponsor ''submission'' Pr_medium Cad_digest,
      ev ''submission.auto_accepted'' C_sponsor ''submission'' Pr_medium Cad_digest,
      ev ''submission.flagged'' C_contributor ''submission'' Pr_high Cad_immediate,
      ev ''validation.tests_failed'' C_contributor ''submission'' Pr_high Cad_digest,
      ev ''validation.stage_result'' C_contributor ''submission'' Pr_medium Cad_digest,
      ev ''validation.manual_review_contributor'' C_contributor ''submission'' Pr_high Cad_digest,
      ev ''validation.manual_review_sponsor'' C_sponsor ''submission'' Pr_high Cad_digest,
      ev ''submission.accepted_sponsor'' C_sponsor ''submission'' Pr_medium Cad_digest,
      ev ''audit.available'' C_validator ''bounty'' Pr_medium Cad_digest,
      ev ''audit.claimed'' C_validator ''audit'' Pr_medium Cad_digest,
      ev ''audit.reopened'' C_validator ''audit'' Pr_high Cad_digest,
      ev ''audit.deadline_missed'' C_validator ''audit'' Pr_high Cad_digest,
      ev ''audit.completed'' C_sponsor ''audit'' Pr_medium Cad_digest,
      ev ''audit.item_decision_recorded'' C_validator ''audit'' Pr_low Cad_digest,
      ev ''audit.completed_validator'' C_validator ''audit'' Pr_high Cad_digest,
      ev ''issue.flagged'' C_sponsor ''audit'' Pr_high Cad_immediate,
      ev ''issue.disputed'' C_validator ''submission'' Pr_high Cad_immediate,
      ev ''issue.dispute_filed'' C_sponsor ''submission'' Pr_high Cad_immediate,
      ev ''issue.sponsor_disputed'' C_contributor ''submission'' Pr_high Cad_immediate,
      ev ''dispute.requeued'' C_contributor ''submission'' Pr_high Cad_digest,
      ev ''dispute.upheld'' C_contributor ''submission'' Pr_high Cad_digest,
      ev ''issue.dispute_resolved'' C_sponsor ''submission'' Pr_medium Cad_digest]"

definition POOL_EVENTS :: "event_def list" where
  "POOL_EVENTS =
     [ev ''pool.sampling_started'' C_sponsor ''bounty'' Pr_medium Cad_digest,
      ev ''pool.sponsor_review_ready'' C_sponsor ''bounty'' Pr_high Cad_immediate,
      ev ''submission.sampled_for_audit'' C_contributor ''submission'' Pr_medium Cad_digest,
      ev ''dataset.final_ready'' C_sponsor ''bounty'' Pr_high Cad_digest,
      ev ''community.bounty_published'' C_contributor ''bounty'' Pr_medium Cad_digest,
      ev ''community.publish_bonus_awarded'' C_contributor ''bounty'' Pr_medium Cad_digest,
      ev ''karma.awarded'' C_contributor ''karma_event'' Pr_low Cad_digest,
      ev ''badge.earned'' C_contributor ''badge'' Pr_medium Cad_digest,
      ev ''rank.changed'' C_account ''rank'' Pr_medium Cad_digest,
      ev ''rank.near_next'' C_account ''rank'' Pr_low Cad_digest,
      ev ''leaderboard.rank_improved'' C_contributor ''rank'' Pr_medium Cad_digest,
      ev ''profile.credential_recheck_failed'' C_account ''profile'' Pr_high Cad_immediate,
      ev ''channel.connected'' C_account ''channel'' Pr_low Cad_immediate,
      ev ''agent_issue.updated'' C_account ''agent_issue'' Pr_medium Cad_digest,
      ev ''agent_issue.status_changed'' C_account ''agent_issue'' Pr_medium Cad_digest,
      ev ''agent_issue.info_requested'' C_account ''agent_issue'' Pr_high Cad_immediate,
      ev ''agent_issue.canonical_outcome'' C_account ''agent_issue'' Pr_medium Cad_digest]"

definition ADMIN_EVENTS :: "event_def list" where
  "ADMIN_EVENTS =
     [ev ''admin.new_signup'' C_admin ''profile'' Pr_low Cad_digest,
      ev ''admin.dispute_filed'' C_admin ''submission'' Pr_high Cad_immediate,
      ev ''admin.harness_proof_completed'' C_admin ''dataset_type'' Pr_medium Cad_immediate,
      ev ''admin.validation_job_dead'' C_admin ''submission'' Pr_high Cad_immediate,
      ev ''agent_issue.created'' C_admin ''agent_issue'' Pr_medium Cad_immediate,
      ev ''admin.agent_issue_filed'' C_admin ''agent_issue'' Pr_medium Cad_immediate,
      ev ''admin.agent_issue_aging'' C_admin ''agent_issue'' Pr_high Cad_immediate,
      ev ''admin.system_alert'' C_admin ''system'' Pr_high Cad_immediate,
      ev ''admin.system_recovered'' C_admin ''system'' Pr_low Cad_digest,
      ev ''digest.summary'' C_account ''digest'' Pr_low Cad_immediate]"

definition EVENTS :: "event_def list" where
  "EVENTS = REVIEW_EVENTS @ SUBMISSION_EVENTS @ POOL_EVENTS @ ADMIN_EVENTS"

definition eventDefinition :: "string \<Rightarrow> event_def option" where
  "eventDefinition typ = find_where (\<lambda>d. ev_name d = typ) EVENTS"

definition isEventType :: "string \<Rightarrow> bool" where
  "isEventType typ \<longleftrightarrow> eventDefinition typ \<noteq> None"

section \<open>Outbox\<close>

definition notificationStatusForType :: "string \<Rightarrow> notification_status option \<Rightarrow> notification_status" where
  "notificationStatusForType typ override =
     (case override of
        Some s \<Rightarrow> s
      | None \<Rightarrow> (case eventDefinition typ of
                   None \<Rightarrow> N_pending
                 | Some d \<Rightarrow> if ev_cadence d = Cad_immediate then N_pending else N_digesting))"

record notify_input =
  ni_user :: ident
  ni_type :: string
  ni_key :: string
  ni_entity_type :: "string option"
  ni_entity :: "ident option"
  ni_bounty :: "ident option"
  ni_status :: "notification_status option"

definition eligible_channel :: "notification_row \<Rightarrow> channel_row \<Rightarrow> bool" where
  "eligible_channel n c \<longleftrightarrow>
     ch_user c = n_user n \<and> ch_connected c \<and> ch_verified c \<and> ch_deliver c
     \<and> (n_type n = ''digest.summary'' \<longrightarrow> ch_digest c)"

definition intent :: "notification_row \<Rightarrow> channel_row \<Rightarrow> delivery_row" where
  "intent n c = \<lparr>dl_notification = n_id n, dl_channel = ch_kind c, dl_address = ch_address c, dl_status = DL_pending,
     dl_attempts = 0, dl_next = None, dl_error = None\<rparr>"

definition delivery_key :: "delivery_row \<Rightarrow> ident \<times> channel_kind" where
  "delivery_key r = (dl_notification r, dl_channel r)"

definition createDeliveryIntents :: "notification_row \<Rightarrow> db \<Rightarrow> db" where
  "createDeliveryIntents n d =
     (if n_status n \<noteq> N_pending then d
      else d\<lparr>deliveries := fold (\<lambda>c dl. fst (insert_unique delivery_key (intent n c) dl))
                             (filter (eligible_channel n) (channels d)) (deliveries d)\<rparr>)"

definition new_notification :: "env \<Rightarrow> notify_input \<Rightarrow> db \<Rightarrow> notification_row" where
  "new_notification e i d =
     \<lparr>n_id = fresh e d, n_user = ni_user i, n_type = ni_type i, n_key = ni_key i,
      n_status = notificationStatusForType (ni_type i) (ni_status i),
      n_entity_type = ni_entity_type i, n_entity = ni_entity i, n_bounty = ni_bounty i, n_read = False, n_at = e_now e\<rparr>"

definition find_notification :: "ident \<Rightarrow> string \<Rightarrow> db \<Rightarrow> notification_row option" where
  "find_notification u k d = find_where (\<lambda>n. n_user n = u \<and> n_key n = k) (notifs d)"

text \<open>The upsert with an empty update, then the intents of the row it returned.\<close>

definition notify :: "env \<Rightarrow> notify_input \<Rightarrow> db \<Rightarrow> db" where
  "notify e i d =
     (case find_notification (ni_user i) (ni_key i) d of
        Some row \<Rightarrow> createDeliveryIntents row d
      | None \<Rightarrow> (let row = new_notification e i d
                 in createDeliveryIntents row (d\<lparr>notifs := notifs d @ [row], db_seq := Suc (db_seq d)\<rparr>)))"

record emit_input =
  em_user :: ident
  em_entity :: "ident option"
  em_suffix :: "string option"
  em_bounty :: "ident option"

definition or_else :: "'a option \<Rightarrow> 'a \<Rightarrow> 'a" where
  "or_else v w = (case v of Some x \<Rightarrow> x | None \<Rightarrow> w)"

definition event_suffix :: "emit_input \<Rightarrow> string" where
  "event_suffix i = or_else (em_suffix i) (or_else (em_entity i) (em_user i))"

definition notifyEvent :: "env \<Rightarrow> string \<Rightarrow> emit_input \<Rightarrow> db \<Rightarrow> db" where
  "notifyEvent e typ i d =
     notify e \<lparr>ni_user = em_user i, ni_type = typ, ni_key = typ @ '':'' @ event_suffix i,
              ni_entity_type = map_option ev_entity (eventDefinition typ),
              ni_entity = em_entity i, ni_bounty = em_bounty i, ni_status = None\<rparr> d"

definition admin_ids :: "bool \<Rightarrow> db \<Rightarrow> ident list" where
  "admin_ids adminOnly d =
     remdups (map fst (filter (\<lambda>(u, r). r \<in> (if adminOnly then {R_admin} else {R_admin, R_member, R_support})) (roles d)))"

definition notifyAdminsEvent :: "env \<Rightarrow> string \<Rightarrow> ident option \<Rightarrow> string option \<Rightarrow> bool \<Rightarrow> db \<Rightarrow> db" where
  "notifyAdminsEvent e typ entity suffix adminOnly d =
     fold (\<lambda>u. notifyEvent e typ \<lparr>em_user = u, em_entity = entity, em_suffix = suffix, em_bounty = None\<rparr>)
       (admin_ids adminOnly d) d"

text \<open>The wrapper for callers with a free-form type; a failed write is logged and dropped.\<close>

definition notifyUser ::
  "env \<Rightarrow> ident \<Rightarrow> string \<Rightarrow> string option \<Rightarrow> string option \<Rightarrow> ident option \<Rightarrow> ident option \<Rightarrow> db \<Rightarrow> db" where
  "notifyUser e user typ key entityType entity bounty d =
     notify e \<lparr>ni_user = user, ni_type = typ,
              ni_key = or_else key (typ @ '':'' @ or_else entity user),
              ni_entity_type = entityType, ni_entity = entity, ni_bounty = bounty, ni_status = None\<rparr> d"

definition notifyAdmins ::
  "env \<Rightarrow> string \<Rightarrow> string option \<Rightarrow> string option \<Rightarrow> ident option \<Rightarrow> ident option \<Rightarrow> bool \<Rightarrow> db \<Rightarrow> db" where
  "notifyAdmins e typ key entityType entity bounty adminOnly d =
     fold (\<lambda>u. notifyUser e u typ (map_option (\<lambda>k. ''admin:'' @ u @ '':'' @ k) key) entityType entity bounty)
       (admin_ids adminOnly d) d"

definition notifyValidationStageResults ::
  "env \<Rightarrow> ident \<Rightarrow> ident \<Rightarrow> string \<Rightarrow> string list \<Rightarrow> ident option \<Rightarrow> db \<Rightarrow> db" where
  "notifyValidationStageResults e user submission keyBase stages bounty d =
     fold (\<lambda>st. notifyEvent e ''validation.stage_result''
             \<lparr>em_user = user, em_entity = Some submission, em_suffix = Some (keyBase @ '':'' @ st), em_bounty = bounty\<rparr>)
       stages d"

section \<open>Facts\<close>

text \<open>What the outbox leaves alone.\<close>

lemma createDeliveryIntents_frame [simp]:
  "users (createDeliveryIntents n d) = users d" "bounties (createDeliveryIntents n d) = bounties d"
  "submissions (createDeliveryIntents n d) = submissions d" "vresults (createDeliveryIntents n d) = vresults d"
  "revisions (createDeliveryIntents n d) = revisions d" "flags (createDeliveryIntents n d) = flags d"
  "disputes (createDeliveryIntents n d) = disputes d" "windows (createDeliveryIntents n d) = windows d"
  "members (createDeliveryIntents n d) = members d" "abatches (createDeliveryIntents n d) = abatches d"
  "aitems (createDeliveryIntents n d) = aitems d" "kevents (createDeliveryIntents n d) = kevents d"
  "awards (createDeliveryIntents n d) = awards d" "jobs (createDeliveryIntents n d) = jobs d"
  "notifs (createDeliveryIntents n d) = notifs d" "channels (createDeliveryIntents n d) = channels d"
  "roles (createDeliveryIntents n d) = roles d" "ranks (createDeliveryIntents n d) = ranks d" "bands (createDeliveryIntents n d) = bands d"
  by (simp_all add: createDeliveryIntents_def)

definition outbox_frame :: "db \<Rightarrow> db \<Rightarrow> bool" where
  "outbox_frame d d' \<longleftrightarrow>
     users d' = users d \<and> bounties d' = bounties d \<and> submissions d' = submissions d \<and> vresults d' = vresults d
     \<and> revisions d' = revisions d \<and> flags d' = flags d \<and> disputes d' = disputes d \<and> windows d' = windows d
     \<and> members d' = members d \<and> abatches d' = abatches d \<and> aitems d' = aitems d \<and> kevents d' = kevents d
     \<and> awards d' = awards d \<and> jobs d' = jobs d \<and> channels d' = channels d \<and> roles d' = roles d \<and> ranks d' = ranks d \<and> bands d' = bands d"

lemma outbox_frame_refl: "outbox_frame d d"
  by (simp add: outbox_frame_def)

lemma notify_frame: "outbox_frame d (notify e i d)"
  by (simp add: outbox_frame_def notify_def Let_def split: option.split)

lemma outbox_frame_trans: "outbox_frame d d' \<Longrightarrow> outbox_frame d' d'' \<Longrightarrow> outbox_frame d d''"
  by (simp add: outbox_frame_def)

lemma outbox_frame_fold: "(\<And>x d. outbox_frame d (f x d)) \<Longrightarrow> outbox_frame d (fold f xs d)"
  by (induction xs arbitrary: d) (auto intro: outbox_frame_refl outbox_frame_trans)

lemma notifyEvent_frame: "outbox_frame d (notifyEvent e typ i d)"
  by (simp add: notifyEvent_def notify_frame)

lemma notifyUser_frame: "outbox_frame d (notifyUser e u typ k et en b d)"
  by (simp add: notifyUser_def notify_frame)

lemma notifyAdminsEvent_frame: "outbox_frame d (notifyAdminsEvent e typ en sf ao d)"
  by (simp add: notifyAdminsEvent_def outbox_frame_fold notifyEvent_frame)

lemma notifyAdmins_frame: "outbox_frame d (notifyAdmins e typ k et en b ao d)"
  by (simp add: notifyAdmins_def outbox_frame_fold notifyUser_frame)

lemma notifyStages_frame: "outbox_frame d (notifyValidationStageResults e u s kb sts b d)"
  by (simp add: notifyValidationStageResults_def outbox_frame_fold notifyEvent_frame)

lemmas outbox_frames = notify_frame notifyEvent_frame notifyUser_frame notifyAdminsEvent_frame
  notifyAdmins_frame notifyStages_frame

lemmas outbox_simps [simp] =
  notify_frame [unfolded outbox_frame_def] notifyEvent_frame [unfolded outbox_frame_def]
  notifyUser_frame [unfolded outbox_frame_def] notifyAdminsEvent_frame [unfolded outbox_frame_def]
  notifyAdmins_frame [unfolded outbox_frame_def] notifyStages_frame [unfolded outbox_frame_def]

section \<open>Exactly one inbox row, one intent per channel\<close>

definition covered :: "db \<Rightarrow> notification_row \<Rightarrow> bool" where
  "covered d n \<longleftrightarrow> (\<forall>c \<in> set (channels d). eligible_channel n c \<longrightarrow> (n_id n, ch_kind c) \<in> delivery_key ` set (deliveries d))"

definition emitted :: "db \<Rightarrow> env \<times> notify_input \<Rightarrow> bool" where
  "emitted d p \<longleftrightarrow>
     (case find_notification (ni_user (snd p)) (ni_key (snd p)) d of
        None \<Rightarrow> False | Some n \<Rightarrow> n_status n = N_pending \<longrightarrow> covered d n)"

lemma intent_key [simp]: "delivery_key (intent n c) = (n_id n, ch_kind c)"
  by (simp add: delivery_key_def intent_def)

lemma intents_fold:
  "deliveries (createDeliveryIntents n d) =
     (if n_status n = N_pending
      then fold (\<lambda>r dl. fst (insert_unique delivery_key r dl))
             (map (intent n) (filter (eligible_channel n) (channels d))) (deliveries d)
      else deliveries d)"
  by (simp add: createDeliveryIntents_def fold_map comp_def)

lemma intents_keep:
  "k \<in> delivery_key ` set (deliveries d) \<Longrightarrow> k \<in> delivery_key ` set (deliveries (createDeliveryIntents n d))"
  by (simp add: intents_fold insert_all_keys)

lemma intents_cover: "n_status n = N_pending \<Longrightarrow> covered (createDeliveryIntents n d) n"
proof -
  assume p: "n_status n = N_pending"
  have "(n_id n, ch_kind c) \<in> delivery_key ` set (deliveries (createDeliveryIntents n d))"
    if "c \<in> set (channels d)" "eligible_channel n c" for c
    using unique_insert.fold_has [of "intent n c" "map (intent n) (filter (eligible_channel n) (channels d))"
        delivery_key "deliveries d"] that
    by (simp add: intents_fold p)
  then show ?thesis by (simp add: covered_def)
qed

lemma intents_noop:
  assumes "n_status n = N_pending \<longrightarrow> covered d n"
  shows "createDeliveryIntents n d = d"
proof -
  have "deliveries (createDeliveryIntents n d) = deliveries d"
    using assms by (auto simp: intents_fold covered_def intro!: unique_insert.fold_noop)
  then show ?thesis by (simp add: createDeliveryIntents_def)
qed

lemma find_intents [simp]: "find_notification u k (createDeliveryIntents n d) = find_notification u k d"
  by (simp add: find_notification_def)

lemma notify_finds: "find_notification (ni_user i) (ni_key i) (notify e i d) \<noteq> None"
  by (auto simp: notify_def Let_def find_notification_def find_where_append new_notification_def split: option.splits)

lemma notify_keeps_found:
  "find_notification u k d = Some n \<Longrightarrow> find_notification u k (notify e i d) = Some n"
  by (auto simp: notify_def Let_def find_notification_def find_where_append split: option.splits)

lemma covered_keep: "covered d n \<Longrightarrow> covered (notify e i d) n"
  by (auto simp: covered_def notify_def Let_def intents_keep split: option.splits)

lemma notify_emitted: "emitted (notify e i d) (e, i)"
proof (cases "find_notification (ni_user i) (ni_key i) d")
  case None
  have "find_notification (ni_user i) (ni_key i) (notify e i d) = Some (new_notification e i d)"
    using None by (simp add: notify_def Let_def find_notification_def find_where_append new_notification_def)
  then show ?thesis
    using None by (simp add: emitted_def notify_def Let_def intents_cover)
next
  case (Some n)
  with notify_keeps_found [OF Some, of e i] show ?thesis
    by (simp add: emitted_def) (simp add: notify_def intents_cover)
qed

text \<open>The outbox is an idempotent sink, whatever the clocks of the two emissions.\<close>

interpretation outbox: idempotent_sink "\<lambda>p. notify (fst p) (snd p)" emitted
proof unfold_locales
  show "emitted (notify (fst p) (snd p) s) p" for p s
    using notify_emitted [of "fst p" "snd p" s] by (simp add: emitted_def)
  show "emitted s p \<Longrightarrow> notify (fst p) (snd p) s = s" for s p
    by (auto simp: emitted_def notify_def intents_noop split: option.splits)
  show "emitted s q \<Longrightarrow> emitted (notify (fst p) (snd p) s) q" for s q p
    by (auto simp: emitted_def covered_keep notify_keeps_found split: option.splits)
qed

definition inbox_ok :: "db \<Rightarrow> bool" where
  "inbox_ok d \<longleftrightarrow> distinct (map (\<lambda>n. (n_user n, n_key n)) (notifs d)) \<and> distinct (map delivery_key (deliveries d))"

lemma intents_inbox: "inbox_ok d \<Longrightarrow> inbox_ok (createDeliveryIntents n d)"
  by (simp add: inbox_ok_def intents_fold insert_all_distinct)

lemma notify_inbox: "inbox_ok d \<Longrightarrow> inbox_ok (notify e i d)"
proof (cases "find_notification (ni_user i) (ni_key i) d")
  case None
  assume ok: "inbox_ok d"
  let ?d = "d\<lparr>notifs := notifs d @ [new_notification e i d], db_seq := Suc (db_seq d)\<rparr>"
  have "(ni_user i, ni_key i) \<notin> (\<lambda>n. (n_user n, n_key n)) ` set (notifs d)"
    using None by (auto simp: find_notification_def find_where_None_iff)
  then have "inbox_ok ?d" using ok by (simp add: inbox_ok_def new_notification_def)
  then show ?thesis using None by (simp add: notify_def Let_def intents_inbox)
next
  case (Some n)
  assume "inbox_ok d"
  with Some show ?thesis by (simp add: notify_def intents_inbox)
qed

section \<open>Properties\<close>

text \<open>the in-app inbox is exactly-once. After a batch of events was emitted, replaying any
  part of it, at any later clock, changes nothing: no second row, no second delivery intent.\<close>

lemma replayed_events_are_dropped:
  assumes "\<forall>i \<in> set is'. i \<in> set is"
  shows "fold (notify e') is' (fold (notify e) is d) = fold (notify e) is d"
proof -
  have fold_pair: "fold (notify x) js s = fold (\<lambda>p. notify (fst p) (snd p)) (map (Pair x) js) s" for x js s
    by (simp add: fold_map comp_def)
  have "emitted (fold (notify e) is d) (e', i)" if "i \<in> set is" for i
    using outbox.fold_has [of "(e, i)" "map (Pair e) is" d] that
    by (simp only: fold_pair) (auto simp: emitted_def)
  then show ?thesis
    using assms by (subst fold_pair) (auto intro!: outbox.fold_noop)
qed

definition demo_event :: notify_input where
  "demo_event = \<lparr>ni_user = ''u'', ni_type = ''audit.claimed'', ni_key = ''audit.claimed:w1'',
     ni_entity_type = Some ''audit'', ni_entity = Some ''w1'', ni_bounty = None, ni_status = Some N_pending\<rparr>"

definition demo_inbox :: db where
  "demo_inbox = db0\<lparr>channels := [\<lparr>ch_id = ''c1'', ch_user = ''u'', ch_kind = Ch_email, ch_address = ''a'', ch_connected = True,
     ch_verified = True, ch_deliver = True, ch_digest = False, ch_error = None\<rparr>]\<rparr>"

lemma replayed_events_are_dropped_witness:
  "fold (notify (env0 9)) [demo_event] (fold (notify (env0 1)) [demo_event, demo_event] demo_inbox)
     = fold (notify (env0 1)) [demo_event, demo_event] demo_inbox"
  by (rule replayed_events_are_dropped) simp

text \<open>what an emission writes. A new event adds exactly one inbox row; its delivery intents
  are one per channel kind the recipient has connected, verified and switched on (for the digest
  also opted in to digests) when the event is immediate, and none when it is a digest event.\<close>

lemma notify_new_event:
  assumes "find_notification (ni_user i) (ni_key i) d = None"
    and "fresh e d \<notin> dl_notification ` set (deliveries d)"
  shows "notifs (notify e i d) = notifs d @ [new_notification e i d]
    \<and> {c. (fresh e d, c) \<in> delivery_key ` set (deliveries (notify e i d))}
        = (if notificationStatusForType (ni_type i) (ni_status i) = N_pending
           then {ch_kind c |c. c \<in> set (channels d) \<and> eligible_channel (new_notification e i d) c} else {})"
proof -
  have old: "(fresh e d, c) \<notin> delivery_key ` set (deliveries d)" for c
    using assms(2) by (auto simp: delivery_key_def)
  have n: "n_id (new_notification e i d) = fresh e d"
    "n_status (new_notification e i d) = notificationStatusForType (ni_type i) (ni_status i)"
    by (simp_all add: new_notification_def)
  show ?thesis
    using assms(1) old by (auto simp: notify_def Let_def intents_fold insert_all_keys n image_image)
qed

lemma notify_new_event_witness:
  "{c. (fresh (env0 1) demo_inbox, c) \<in> delivery_key ` set (deliveries (notify (env0 1) demo_event demo_inbox))}
     = {Ch_email}"
  using notify_new_event [of demo_event demo_inbox "env0 1"]
  by (simp add: demo_inbox_def demo_event_def db0_def find_notification_def notificationStatusForType_def
      eligible_channel_def new_notification_def)

text \<open>in every database the outbox writes, inbox rows are unique per user and event key and
  delivery intents per notification and channel.\<close>

lemma inbox_stays_unique: "inbox_ok d \<Longrightarrow> inbox_ok (fold (notify e) is d)"
  by (induction "is" arbitrary: d) (auto intro: notify_inbox)

lemma inbox_stays_unique_witness: "inbox_ok (fold (notify (env0 1)) [demo_event, demo_event] demo_inbox)"
  by (rule inbox_stays_unique) (simp add: inbox_ok_def demo_inbox_def db0_def)

text \<open>the catalog. Event names are unique, so the lookup is a function of the name; whatever
  asks its reader to act at once (a dispute, a flag, a reopened or approaching deadline of a batch,
  a sponsor review, a dead validation job) is delivered immediately, and no karma, badge, rank or
  validation-stage event is.\<close>

lemma catalog_cadences:
  "distinct (map ev_name EVENTS)
   \<and> list_all (\<lambda>t. notificationStatusForType t None = N_pending)
       [''submission.flagged'', ''issue.flagged'', ''issue.disputed'', ''issue.dispute_filed'',
        ''issue.sponsor_disputed'', ''batch.deadline_approaching'', ''pool.sponsor_review_ready'',
        ''admin.dispute_filed'', ''admin.validation_job_dead'', ''digest.summary'']
   \<and> list_all (\<lambda>t. notificationStatusForType t None = N_digesting)
       [''karma.awarded'', ''badge.earned'', ''rank.changed'', ''leaderboard.rank_improved'',
        ''validation.stage_result'', ''submission.accepted'', ''audit.claimed'']"
  by code_simp

end
