(* ===== verification/Dispatch.thy ===== *)
theory Dispatch
  imports Notifications "HOL-Library.Product_Lexorder" "HOL-Library.Char_ord" "HOL-Library.List_Lexorder"
begin

text \<open>
  The delivery worker of \<open>services/notifications.ts\<close>: the live settings, the choice of one
  notification per user and tick, the claim of a delivery under a lease, the transport's answer,
  the retry schedule, and the two ways an operator puts a dead delivery back (the service function
  and the route of \<open>routes/v1/admin-notifications.ts\<close>). A transport is a parameter: it answers a
  notification at an address. The clocks read at the claim and at the answer are parameters too.
\<close>

section \<open>Settings\<close>

record delivery_settings =
  ds_max :: int
  ds_lease :: int
  ds_backoff :: "int list"
  ds_time :: string
  ds_zone :: string

definition DEFAULT_NOTIFICATION_SETTINGS :: delivery_settings where
  "DEFAULT_NOTIFICATION_SETTINGS =
     \<lparr>ds_max = 8, ds_lease = 60000, ds_backoff = [30, 60, 300, 900, 3600, 10800, 21600],
      ds_time = ''09:00'', ds_zone = ''UTC''\<rparr>"

text \<open>\<open>Number\<close> of a stored value; \<open>None\<close> is NaN. \<open>str\<close> reads a string as a number.\<close>

fun js_Number :: "(string \<Rightarrow> real option) \<Rightarrow> json \<Rightarrow> real option" where
  "js_Number str JNull = Some 0"
| "js_Number str (JBool b) = Some (if b then 1 else 0)"
| "js_Number str (JNum x) = Some x"
| "js_Number str (JStr s) = str s"
| "js_Number str (JObj kvs) = None"
| "js_Number str (JArr vs) =
     (case vs of
        [] \<Rightarrow> Some 0
      | [v] \<Rightarrow> (case v of JNull \<Rightarrow> Some 0 | JBool b \<Rightarrow> None | _ \<Rightarrow> js_Number str v)
      | _ \<Rightarrow> None)"

definition safe_positive :: "real option \<Rightarrow> int option" where
  "safe_positive x =
     (case x of
        None \<Rightarrow> None
      | Some r \<Rightarrow> if r = real_of_int \<lfloor>r\<rfloor> \<and> 0 < \<lfloor>r\<rfloor> \<and> \<lfloor>r\<rfloor> \<le> 9007199254740991 then Some \<lfloor>r\<rfloor> else None)"

definition asPositiveInt :: "(string \<Rightarrow> real option) \<Rightarrow> json option \<Rightarrow> int \<Rightarrow> int \<Rightarrow> int" where
  "asPositiveInt str value fallback mx =
     (case safe_positive (Option.bind value (js_Number str)) of
        Some n \<Rightarrow> if n \<le> mx then n else fallback
      | None \<Rightarrow> fallback)"

definition asBackoffSeconds :: "(string \<Rightarrow> real option) \<Rightarrow> json option \<Rightarrow> int list \<Rightarrow> int list" where
  "asBackoffSeconds str value fallback =
     (case value of
        Some (JArr vs) \<Rightarrow>
          (let parsed = List.map_filter (\<lambda>v. safe_positive (js_Number str v)) vs
           in if parsed \<noteq> [] then parsed else fallback)
      | _ \<Rightarrow> fallback)"

definition is_digit :: "char \<Rightarrow> bool" where
  "is_digit c \<longleftrightarrow> c \<in> set ''0123456789''"

fun hh_mm :: "string \<Rightarrow> bool" where
  "hh_mm [a, b, c, x, y] = (is_digit a \<and> is_digit b \<and> c = CHR '':'' \<and> is_digit x \<and> is_digit y)"
| "hh_mm _ = False"

definition asDigestTime :: "json option \<Rightarrow> string \<Rightarrow> string" where
  "asDigestTime value fallback = (case value of Some (JStr s) \<Rightarrow> if hh_mm s then s else fallback | _ \<Rightarrow> fallback)"

text \<open>\<open>zone\<close> is whether the platform's calendar knows a zone name.\<close>

definition asTimeZone :: "(string \<Rightarrow> bool) \<Rightarrow> json option \<Rightarrow> string \<Rightarrow> string" where
  "asTimeZone zone value fallback =
     (case value of Some (JStr s) \<Rightarrow> if s \<noteq> [] \<and> zone s then s else fallback | _ \<Rightarrow> fallback)"

definition getNotificationRuntimeSettings ::
  "(string \<Rightarrow> real option) \<Rightarrow> (string \<Rightarrow> bool) \<Rightarrow> env \<Rightarrow> delivery_settings" where
  "getNotificationRuntimeSettings str zone e =
     (let dflt = DEFAULT_NOTIFICATION_SETTINGS
      in \<lparr>ds_max = asPositiveInt str (e_setting e ''notifications.delivery.max_attempts'') (ds_max dflt) 20,
          ds_lease = asPositiveInt str (e_setting e ''notifications.delivery.lease_seconds'') (ds_lease dflt div 1000) 3600 * 1000,
          ds_backoff = asBackoffSeconds str (e_setting e ''notifications.delivery.backoff_seconds'') (ds_backoff dflt),
          ds_time = asDigestTime (e_setting e ''notifications.digest.time'') (ds_time dflt),
          ds_zone = asTimeZone zone (e_setting e ''notifications.digest.timezone'') (ds_zone dflt)\<rparr>)"

definition backoffForAttempt :: "delivery_settings \<Rightarrow> int \<Rightarrow> int" where
  "backoffForAttempt st attempt =
     (let i = min (attempt - 1) (int (length (ds_backoff st)) - 1)
      in if 0 \<le> i then ds_backoff st ! nat i else 60)"

section \<open>What the transport answers\<close>

datatype send_error =
    Delivery_error string bool
  | Tagged_error "string option" bool
  | Other_error

datatype send_result = Accepted | Refused send_error

type_synonym transport = "channel_kind \<Rightarrow> string \<Rightarrow> notification_row \<Rightarrow> send_result"

fun deliveryFailure :: "send_error \<Rightarrow> string \<times> bool" where
  "deliveryFailure (Delivery_error m r) = (take 300 m, r)"
| "deliveryFailure (Tagged_error m r) =
     (take 300 (case m of Some s \<Rightarrow> s | None \<Rightarrow> ''Destination is unavailable.''), r)"
| "deliveryFailure Other_error = (''Delivery failed unexpectedly. DataBounty will retry.'', True)"

section \<open>One delivery\<close>

definition due :: "time \<Rightarrow> delivery_row \<Rightarrow> bool" where
  "due now r \<longleftrightarrow> (case dl_next r of Some t \<Rightarrow> t \<le> now | None \<Rightarrow> False)"

definition lease_free :: "time \<Rightarrow> delivery_row \<Rightarrow> bool" where
  "lease_free now r \<longleftrightarrow> dl_status r = DL_pending \<or> dl_status r \<in> {DL_failed, DL_processing} \<and> due now r"

definition settled :: "delivery_row \<Rightarrow> bool" where
  "settled r \<longleftrightarrow> dl_status r \<in> {DL_sent, DL_dead}"

definition waiting :: "time \<Rightarrow> delivery_row \<Rightarrow> bool" where
  "waiting now r \<longleftrightarrow>
     dl_status r \<in> {DL_failed, DL_processing} \<and> (case dl_next r of Some t \<Rightarrow> now < t | None \<Rightarrow> False)"

definition leased_row :: "delivery_settings \<Rightarrow> time \<Rightarrow> delivery_row \<Rightarrow> delivery_row" where
  "leased_row st t r = r\<lparr>dl_status := DL_processing, dl_next := Some (t + ds_lease st)\<rparr>"

definition sent_row :: "delivery_row \<Rightarrow> delivery_row" where
  "sent_row r = r\<lparr>dl_status := DL_sent, dl_attempts := dl_attempts r + 1, dl_next := None, dl_error := None\<rparr>"

text \<open>\<open>att\<close> is the attempt counter read before the claim, plus one.\<close>

definition terminal :: "delivery_settings \<Rightarrow> int \<Rightarrow> send_error \<Rightarrow> bool" where
  "terminal st att err \<longleftrightarrow> \<not> snd (deliveryFailure err) \<or> ds_max st \<le> att"

definition failed_row :: "delivery_settings \<Rightarrow> time \<Rightarrow> int \<Rightarrow> send_error \<Rightarrow> delivery_row \<Rightarrow> delivery_row" where
  "failed_row st t att err r =
     r\<lparr>dl_status := if terminal st att err then DL_dead else DL_failed,
       dl_attempts := dl_attempts r + 1,
       dl_next := if terminal st att err then None else Some (t + backoffForAttempt st att * 1000),
       dl_error := Some (fst (deliveryFailure err))\<rparr>"

definition answered_row :: "delivery_settings \<Rightarrow> time \<Rightarrow> int \<Rightarrow> send_result \<Rightarrow> delivery_row \<Rightarrow> delivery_row" where
  "answered_row st t att res r = (case res of Accepted \<Rightarrow> sent_row r | Refused err \<Rightarrow> failed_row st t att err r)"

definition delivery_at :: "ident \<Rightarrow> channel_kind \<Rightarrow> db \<Rightarrow> delivery_row option" where
  "delivery_at n k d = find_where (\<lambda>r. delivery_key r = (n, k)) (deliveries d)"

definition set_delivery :: "ident \<Rightarrow> channel_kind \<Rightarrow> (delivery_row \<Rightarrow> delivery_row) \<Rightarrow> db \<Rightarrow> db" where
  "set_delivery n k f d = d\<lparr>deliveries := update_where (\<lambda>r. delivery_key r = (n, k)) f (deliveries d)\<rparr>"

definition set_channel :: "ident \<Rightarrow> (channel_row \<Rightarrow> channel_row) \<Rightarrow> db \<Rightarrow> db" where
  "set_channel i f d = d\<lparr>channels := update_where (\<lambda>c. ch_id c = i) f (channels d)\<rparr>"

section \<open>One notification over one channel\<close>

definition still_wants_digest :: "channel_row \<Rightarrow> db \<Rightarrow> bool" where
  "still_wants_digest c d =
     (case find_where (\<lambda>x. ch_id x = ch_id c) (channels d) of
        None \<Rightarrow> False
      | Some x \<Rightarrow> ch_connected x \<and> ch_verified x \<and> ch_deliver x \<and> ch_digest x)"

definition late_intent :: "notification_row \<Rightarrow> channel_row \<Rightarrow> db \<Rightarrow> db" where
  "late_intent n c d = d\<lparr>deliveries := fst (insert_unique delivery_key (intent n c) (deliveries d))\<rparr>"

definition claim_delivery ::
  "delivery_settings \<Rightarrow> time \<Rightarrow> time \<Rightarrow> ident \<Rightarrow> channel_kind \<Rightarrow> db \<Rightarrow> db option" where
  "claim_delivery st now t n k d =
     (if list_ex (\<lambda>r. delivery_key r = (n, k) \<and> lease_free now r) (deliveries d)
      then Some (d\<lparr>deliveries := update_where (\<lambda>r. delivery_key r = (n, k) \<and> lease_free now r)
                                    (leased_row st t) (deliveries d)\<rparr>)
      else None)"

text \<open>A permanent refusal also switches the channel off.\<close>

definition channel_health :: "delivery_settings \<Rightarrow> int \<Rightarrow> send_result \<Rightarrow> channel_row \<Rightarrow> channel_row" where
  "channel_health st att res c =
     (case res of
        Accepted \<Rightarrow> c\<lparr>ch_error := None\<rparr>
      | Refused err \<Rightarrow>
          c\<lparr>ch_error := Some (fst (deliveryFailure err)),
            ch_deliver := ch_deliver c \<and> snd (deliveryFailure err)\<rparr>)"

definition settle_delivery ::
  "delivery_settings \<Rightarrow> time \<Rightarrow> int \<Rightarrow> send_result \<Rightarrow> ident \<Rightarrow> channel_row \<Rightarrow> db \<Rightarrow> db" where
  "settle_delivery st t att res n c d =
     set_channel (ch_id c) (channel_health st att res)
       (set_delivery n (ch_kind c) (answered_row st t att res) d)"

definition retry_later :: "delivery_settings \<Rightarrow> int \<Rightarrow> send_result \<Rightarrow> bool" where
  "retry_later st att res = (case res of Accepted \<Rightarrow> False | Refused err \<Rightarrow> \<not> terminal st att err)"

text \<open>The answer is whether the notification has to stay out of \<open>done\<close>. \<open>clk\<close> gives the clocks at
  the claim and at the settlement.\<close>

definition dispatchChannel ::
  "delivery_settings \<Rightarrow> time \<Rightarrow> (channel_row \<Rightarrow> time \<times> time) \<Rightarrow> transport
     \<Rightarrow> notification_row \<Rightarrow> channel_row \<Rightarrow> db \<Rightarrow> db \<times> bool" where
  "dispatchChannel st now clk send n c d =
     (if n_type n = ''digest.summary'' \<and> \<not> still_wants_digest c d then (d, False)
      else (let d1 = late_intent n c d
            in case delivery_at (n_id n) (ch_kind c) d1 of
                 None \<Rightarrow> (d1, False)
               | Some r \<Rightarrow>
                   if settled r then (d1, False)
                   else if waiting now r then (d1, True)
                   else (case claim_delivery st now (fst (clk c)) (n_id n) (ch_kind c) d1 of
                           None \<Rightarrow> (d1, True)
                         | Some d2 \<Rightarrow>
                             (let att = dl_attempts r + 1; res = send (ch_kind c) (ch_address c) n
                              in (settle_delivery st (snd (clk c)) att res (n_id n) c d2, retry_later st att res)))))"

section \<open>One notification, one tick\<close>

definition set_notification :: "ident \<Rightarrow> notification_status \<Rightarrow> db \<Rightarrow> db" where
  "set_notification i s d = d\<lparr>notifs := update_where (\<lambda>n. n_id n = i) (\<lambda>n. n\<lparr>n_status := s\<rparr>) (notifs d)\<rparr>"

fun dispatch_channels ::
  "delivery_settings \<Rightarrow> time \<Rightarrow> (channel_row \<Rightarrow> time \<times> time) \<Rightarrow> transport
     \<Rightarrow> notification_row \<Rightarrow> channel_row list \<Rightarrow> db \<Rightarrow> db \<times> bool" where
  "dispatch_channels st now clk send n [] d = (d, False)"
| "dispatch_channels st now clk send n (c # cs) d =
     (let (d1, a) = dispatchChannel st now clk send n c d;
          (d2, b) = dispatch_channels st now clk send n cs d1
      in (d2, a \<or> b))"

definition dispatchRow ::
  "delivery_settings \<Rightarrow> time \<Rightarrow> (channel_row \<Rightarrow> time \<times> time) \<Rightarrow> transport \<Rightarrow> notification_row \<Rightarrow> db \<Rightarrow> db" where
  "dispatchRow st now clk send n d =
     (let (d1, again) = dispatch_channels st now clk send n (filter (eligible_channel n) (channels d)) d
      in if again then d1 else set_notification (n_id n) N_done d1)"

definition dispatchable :: "time \<Rightarrow> db \<Rightarrow> notification_row \<Rightarrow> bool" where
  "dispatchable now d n \<longleftrightarrow>
     n_status n = N_pending
     \<or> n_status n = N_done
       \<and> list_ex (\<lambda>r. dl_notification r = n_id n \<and> dl_status r \<in> {DL_failed, DL_processing} \<and> due now r)
           (deliveries d)"

fun first_per_user :: "ident list \<Rightarrow> notification_row list \<Rightarrow> notification_row list" where
  "first_per_user seen [] = []"
| "first_per_user seen (n # ns) =
     (if n_user n \<in> set seen then first_per_user seen ns else n # first_per_user (n_user n # seen) ns)"

definition dispatch_key :: "notification_row \<Rightarrow> time \<times> ident" where
  "dispatch_key n = (n_at n, n_id n)"

definition candidates :: "nat \<Rightarrow> time \<Rightarrow> db \<Rightarrow> notification_row list" where
  "candidates limit now d =
     take limit (first_per_user [] (sort_key dispatch_key (filter (dispatchable now d) (notifs d))))"

definition dispatchPendingNotifications ::
  "delivery_settings \<Rightarrow> nat \<Rightarrow> time \<Rightarrow> (channel_row \<Rightarrow> time \<times> time) \<Rightarrow> transport \<Rightarrow> db \<Rightarrow> db" where
  "dispatchPendingNotifications st limit now clk send d =
     fold (dispatchRow st now clk send) (candidates limit now d) d"

section \<open>Putting a dead delivery back\<close>

datatype requeue_result = Not_found | Not_retryable | Requeued

definition requeueDeadLetter :: "ident \<Rightarrow> channel_kind \<Rightarrow> db \<Rightarrow> db \<times> requeue_result" where
  "requeueDeadLetter n k d =
     (case delivery_at n k d of
        None \<Rightarrow> (d, Not_found)
      | Some r \<Rightarrow>
          if dl_status r \<noteq> DL_dead then (d, Not_retryable)
          else (let d1 = set_delivery n k (\<lambda>r. r\<lparr>dl_status := DL_pending, dl_attempts := 0, dl_next := None, dl_error := None\<rparr>) d;
                    d2 = set_notification n N_pending d1;
                    u = map_option n_user (find_where (\<lambda>x. n_id x = n) (notifs d2))
                in (d2\<lparr>channels := update_where (\<lambda>c. Some (ch_user c) = u \<and> ch_kind c = k \<and> \<not> ch_deliver c)
                                     (\<lambda>c. c\<lparr>ch_deliver := True\<rparr>) (channels d2)\<rparr>, Requeued)))"

text \<open>The route of the admin console writes the delivery alone.\<close>

definition retry_dead_letter_route :: "ident \<Rightarrow> channel_kind \<Rightarrow> db \<Rightarrow> db \<times> requeue_result" where
  "retry_dead_letter_route n k d =
     (case delivery_at n k d of
        None \<Rightarrow> (d, Not_found)
      | Some r \<Rightarrow>
          if dl_status r \<noteq> DL_dead then (d, Not_retryable)
          else (set_delivery n k (\<lambda>r. r\<lparr>dl_status := DL_pending, dl_next := None\<rparr>) d, Requeued))"

definition disconnectChannel :: "ident \<Rightarrow> channel_kind \<Rightarrow> db \<Rightarrow> db" where
  "disconnectChannel u k d = d\<lparr>channels := filter (\<lambda>c. \<not> (ch_user c = u \<and> ch_kind c = k)) (channels d)\<rparr>"

section \<open>One channel\<close>

abbreviation deliveries_ok :: "db \<Rightarrow> bool" where
  "deliveries_ok d \<equiv> distinct (map delivery_key (deliveries d))"

lemma leased_row_key [simp]: "delivery_key (leased_row st t r) = delivery_key r"
  by (simp add: leased_row_def delivery_key_def)

lemma answered_row_key [simp]: "delivery_key (answered_row st t att res r) = delivery_key r"
  by (simp add: answered_row_def sent_row_def failed_row_def delivery_key_def split: send_result.split)

lemma find_other_key:
  assumes "\<And>r. P r \<Longrightarrow> key r = k'" and "\<And>r. key (f r) = key r" and "k \<noteq> k'"
  shows "find_where (\<lambda>r. key r = k) (update_where P f rs) = find_where (\<lambda>r. key r = k) rs"
  using assms by (induction rs) auto

lemma find_after_insert:
  "find_where (\<lambda>r. key r = k) (fst (insert_unique key x rs)) =
     (case find_where (\<lambda>r. key r = k) rs of Some r \<Rightarrow> Some r | None \<Rightarrow> if key x = k then Some x else None)"
proof (cases "key x \<in> key ` set rs")
  case True
  then show ?thesis
    by (auto simp: insert_unique_noop find_where_None_iff split: option.split)
next
  case False
  then show ?thesis by (simp add: insert_unique_fresh find_where_append split: option.split)
qed

text \<open>The writes, seen through one delivery.\<close>

lemma at_late_intent:
  "delivery_at m k (late_intent n c d) =
     (case delivery_at m k d of Some r \<Rightarrow> Some r | None \<Rightarrow> if (m, k) = (n_id n, ch_kind c) then Some (intent n c) else None)"
  unfolding delivery_at_def late_intent_def using find_after_insert [of delivery_key "(m, k)" "intent n c" "deliveries d"]
  by (auto split: option.split)

lemma at_claim:
  assumes "deliveries_ok d" and "delivery_at n k d = Some r"
  shows "claim_delivery st now t n k d =
    (if lease_free now r then Some (set_delivery n k (leased_row st t) d) else None)"
proof -
  have r: "r \<in> set (deliveries d)" "delivery_key r = (n, k)"
    using find_where_Some [OF assms(2) [unfolded delivery_at_def]] by auto
  have "x = r" if "x \<in> set (deliveries d)" "delivery_key x = (n, k)" for x
    using assms(1) r that by (metis distinct_map inj_on_def)
  then have "list_ex (\<lambda>x. delivery_key x = (n, k) \<and> lease_free now x) (deliveries d) \<longleftrightarrow> lease_free now r"
    using r unfolding list_ex_iff by blast
  then show ?thesis
    using update_where_key_guard [OF assms(1) assms(2) [unfolded delivery_at_def], of "lease_free now" "leased_row st t"]
    by (auto simp: claim_delivery_def set_delivery_def)
qed

lemma at_set_delivery:
  assumes "\<And>x. delivery_key (f x) = delivery_key x"
  shows "delivery_at m j (set_delivery n k f d) =
    (if (m, j) = (n, k) then map_option f (delivery_at m j d) else delivery_at m j d)"
proof (cases "(m, j) = (n, k)")
  case True
  then show ?thesis
    using find_where_update_where [of "\<lambda>r. delivery_key r = (n, k)" "\<lambda>r. delivery_key r = (n, k)" f "deliveries d"] assms
    by (cases "find_where (\<lambda>r. delivery_key r = (n, k)) (deliveries d)")
      (auto simp: delivery_at_def set_delivery_def dest!: find_where_Some)
next
  case False
  then show ?thesis
    using find_other_key [of "\<lambda>r. delivery_key r = (n, k)" delivery_key "(n, k)" f "(m, j)" "deliveries d"] assms
    by (auto simp: delivery_at_def set_delivery_def)
qed

lemma write_frames [simp]:
  "notifs (late_intent n c d) = notifs d" "channels (late_intent n c d) = channels d"
  "notifs (set_delivery i k f d) = notifs d" "channels (set_delivery i k f d) = channels d"
  "notifs (set_channel j g d) = notifs d" "deliveries (set_channel j g d) = deliveries d"
  by (simp_all add: late_intent_def set_delivery_def set_channel_def)

lemma at_set_channel [simp]: "delivery_at m j (set_channel i g d) = delivery_at m j d"
  by (simp add: delivery_at_def)

lemma late_intent_ok: "deliveries_ok d \<Longrightarrow> deliveries_ok (late_intent n c d)"
  by (simp add: late_intent_def insert_unique_distinct)

lemma set_delivery_ok:
  "deliveries_ok d \<Longrightarrow> (\<And>x. delivery_key (f x) = delivery_key x) \<Longrightarrow> deliveries_ok (set_delivery n k f d)"
  by (simp add: set_delivery_def map_update_where)

text \<open>What a dispatch over one channel leaves: the delivery it answers for, and everything else.\<close>

definition other_channels_kept :: "ident \<Rightarrow> db \<Rightarrow> db \<Rightarrow> bool" where
  "other_channels_kept i d d' \<longleftrightarrow>
     (\<forall>j. j \<noteq> i \<longrightarrow> find_where (\<lambda>x. ch_id x = j) (channels d') = find_where (\<lambda>x. ch_id x = j) (channels d))"

lemma channel_health_id [simp]:
  "ch_id (channel_health st att res c) = ch_id c" "ch_user (channel_health st att res c) = ch_user c"
  "ch_kind (channel_health st att res c) = ch_kind c"
  by (simp_all add: channel_health_def split: send_result.split)

text \<open>The three things a dispatch over a channel can write.\<close>

lemma dispatchChannel_cases:
  assumes "deliveries_ok d" and "dispatchChannel st now clk send n c d = (d', b)"
  obtains "d' = d" | "d' = late_intent n c d"
    | t t' att res where "d' = settle_delivery st t att res (n_id n) c
        (set_delivery (n_id n) (ch_kind c) (leased_row st t') (late_intent n c d))"
proof (cases "n_type n = ''digest.summary'' \<and> \<not> still_wants_digest c d")
  case True
  then show ?thesis using assms(2) that(1) by (simp add: dispatchChannel_def)
next
  case skip: False
  let ?d1 = "late_intent n c d" and ?k = "ch_kind c"
  show ?thesis
  proof (cases "delivery_at (n_id n) ?k ?d1")
    case None
    then have "d' = ?d1" using skip assms(2) by (auto simp: dispatchChannel_def)
    then show ?thesis by (rule that(2))
  next
    case (Some r)
    note claim = at_claim [OF late_intent_ok [OF assms(1)] Some, of st now "fst (clk c)"]
    show ?thesis
    proof (cases "settled r \<or> waiting now r \<or> \<not> lease_free now r")
      case True
      then have "d' = ?d1" using skip assms(2) Some claim by (auto simp: dispatchChannel_def Let_def split: if_splits)
      then show ?thesis by (rule that(2))
    next
      case False
      then have "d' = settle_delivery st (snd (clk c)) (dl_attempts r + 1) (send ?k (ch_address c) n) (n_id n) c
          (set_delivery (n_id n) ?k (leased_row st (fst (clk c))) ?d1)"
        using skip assms(2) Some claim by (auto simp: dispatchChannel_def Let_def)
      then show ?thesis by (rule that(3))
    qed
  qed
qed

lemma at_late_other:
  "(m, j) \<noteq> (n_id n, ch_kind c) \<Longrightarrow> delivery_at m j (late_intent n c d) = delivery_at m j d"
  unfolding at_late_intent by (simp split: option.split)

lemma settle_delivery_frame:
  "notifs (settle_delivery st t att res i c d) = notifs d"
  "other_channels_kept (ch_id c) d (settle_delivery st t att res i c d)"
  "(m, j) \<noteq> (i, ch_kind c) \<Longrightarrow> delivery_at m j (settle_delivery st t att res i c d) = delivery_at m j d"
  "deliveries_ok d \<Longrightarrow> deliveries_ok (settle_delivery st t att res i c d)"
proof -
  have "find_where (\<lambda>x. ch_id x = y) (update_where (\<lambda>x. ch_id x = ch_id c) (channel_health st att res) (channels d))
      = find_where (\<lambda>x. ch_id x = y) (channels d)" if "y \<noteq> ch_id c" for y
    by (rule find_other_key [where k' = "ch_id c"]) (use that in simp_all)
  then show "other_channels_kept (ch_id c) d (settle_delivery st t att res i c d)"
    by (simp add: other_channels_kept_def settle_delivery_def set_channel_def set_delivery_def)
qed (auto simp: settle_delivery_def at_set_delivery set_delivery_ok)

lemma dispatchChannel_frame:
  assumes "deliveries_ok d" and "dispatchChannel st now clk send n c d = (d', b)"
  shows "deliveries_ok d'" and "notifs d' = notifs d" and "other_channels_kept (ch_id c) d d'"
    and "(m, j) \<noteq> (n_id n, ch_kind c) \<Longrightarrow> delivery_at m j d' = delivery_at m j d"
proof -
  have claim: "deliveries_ok (set_delivery (n_id n) (ch_kind c) (leased_row st t) (late_intent n c d))" for t
    by (rule set_delivery_ok [OF late_intent_ok [OF assms(1)]]) simp
  have kept: "other_channels_kept i x y" if "channels x = channels y" for i x y
    using that by (simp add: other_channels_kept_def)
  from assms show "deliveries_ok d'"
    by (cases rule: dispatchChannel_cases) (simp_all add: assms(1) late_intent_ok settle_delivery_frame claim)
  from assms show "notifs d' = notifs d"
    by (cases rule: dispatchChannel_cases) (simp_all add: settle_delivery_frame)
  from assms show "other_channels_kept (ch_id c) d d'"
  proof (cases rule: dispatchChannel_cases)
    case (3 t t' att res)
    then show ?thesis
      using settle_delivery_frame(2) [of c "set_delivery (n_id n) (ch_kind c) (leased_row st t') (late_intent n c d)"]
      by (simp add: other_channels_kept_def)
  qed (simp_all add: kept)
  assume "(m, j) \<noteq> (n_id n, ch_kind c)"
  with assms show "delivery_at m j d' = delivery_at m j d"
    by (cases rule: dispatchChannel_cases)
      (auto simp: at_late_other settle_delivery_frame at_set_delivery)
qed

lemma dispatchChannel_outcome:
  assumes "deliveries_ok d" and "n_type n = ''digest.summary'' \<longrightarrow> still_wants_digest c d"
    and "dispatchChannel st now clk send n c d = (d', again)"
  shows "\<exists>r. delivery_at (n_id n) (ch_kind c) d' = Some r \<and> dl_status r \<noteq> DL_pending \<and> again = (\<not> settled r)"
proof -
  let ?d1 = "late_intent n c d" and ?k = "ch_kind c"
  obtain r where r: "delivery_at (n_id n) ?k ?d1 = Some r"
    using at_late_intent [of "n_id n" ?k n c d] by (cases "delivery_at (n_id n) ?k d") auto
  note ok = late_intent_ok [OF assms(1), of n c]
  note claim = at_claim [OF ok r, of st now "fst (clk c)"]
  have skip: "\<not> (n_type n = ''digest.summary'' \<and> \<not> still_wants_digest c d)" using assms(2) by blast
  consider "settled r" | "\<not> settled r" "waiting now r" | "\<not> settled r" "\<not> waiting now r" "\<not> lease_free now r"
    | "\<not> settled r" "\<not> waiting now r" "lease_free now r" by blast
  then show ?thesis
  proof cases
    case 1
    then have "d' = ?d1" "\<not> again" using assms(3) skip r by (simp_all add: dispatchChannel_def)
    then show ?thesis using r 1 by (auto simp: settled_def)
  next
    case 2
    then have "d' = ?d1" "again" using assms(3) skip r by (simp_all add: dispatchChannel_def)
    then show ?thesis using r 2 by (auto simp: waiting_def)
  next
    case 3
    then have "d' = ?d1" "again" using assms(3) skip r claim by (simp_all add: dispatchChannel_def)
    then show ?thesis using r 3 by (auto simp: lease_free_def)
  next
    case 4
    let ?att = "dl_attempts r + 1" and ?res = "send ?k (ch_address c) n"
    have d': "d' = settle_delivery st (snd (clk c)) ?att ?res (n_id n) c (set_delivery (n_id n) ?k (leased_row st (fst (clk c))) ?d1)"
      and again: "again = retry_later st ?att ?res"
      using assms(3) skip r claim 4 by (simp_all add: dispatchChannel_def Let_def)
    have "delivery_at (n_id n) ?k d' = Some (answered_row st (snd (clk c)) ?att ?res (leased_row st (fst (clk c)) r))"
      using r by (simp add: d' settle_delivery_def at_set_delivery)
    then show ?thesis
      using again by (auto simp: answered_row_def sent_row_def failed_row_def settled_def retry_later_def split: send_result.split)
  qed
qed

section \<open>One notification\<close>

lemma dispatch_channels_outcome:
  assumes "deliveries_ok d" and "distinct (map ch_kind cs)" and "distinct (map ch_id cs)"
    and "n_type n = ''digest.summary'' \<longrightarrow> (\<forall>c \<in> set cs. still_wants_digest c d)"
    and "dispatch_channels st now clk send n cs d = (d', again)"
  shows "deliveries_ok d' \<and> notifs d' = notifs d
    \<and> (\<forall>m j. m \<noteq> n_id n \<or> j \<notin> ch_kind ` set cs \<longrightarrow> delivery_at m j d' = delivery_at m j d)
    \<and> (\<forall>c \<in> set cs. \<exists>r. delivery_at (n_id n) (ch_kind c) d' = Some r \<and> dl_status r \<noteq> DL_pending)
    \<and> (again \<longleftrightarrow> (\<exists>c \<in> set cs. \<exists>r. delivery_at (n_id n) (ch_kind c) d' = Some r \<and> \<not> settled r))"
  using assms
proof (induction cs arbitrary: d d' again)
  case Nil
  then show ?case by simp
next
  case (Cons c cs)
  obtain d1 a where one: "dispatchChannel st now clk send n c d = (d1, a)" by fastforce
  obtain d2 b where rest: "dispatch_channels st now clk send n cs d1 = (d2, b)" by fastforce
  have d': "d' = d2" "again = (a \<or> b)" using Cons.prems(5) one rest by simp_all
  note fr = dispatchChannel_frame [OF Cons.prems(1) one]
  have wants: "n_type n = ''digest.summary'' \<longrightarrow> (\<forall>x \<in> set cs. still_wants_digest x d1)"
  proof (intro impI ballI)
    fix x assume dg: "n_type n = ''digest.summary''" and x: "x \<in> set cs"
    then have "ch_id x \<noteq> ch_id c" using Cons.prems(3) by (metis distinct.simps(2) image_eqI list.simps(9) set_map)
    then have "find_where (\<lambda>y. ch_id y = ch_id x) (channels d1) = find_where (\<lambda>y. ch_id y = ch_id x) (channels d)"
      using fr(3) unfolding other_channels_kept_def by blast
    then show "still_wants_digest x d1" using Cons.prems(4) dg x by (simp add: still_wants_digest_def)
  qed
  have ih: "deliveries_ok d2 \<and> notifs d2 = notifs d1
    \<and> (\<forall>m j. m \<noteq> n_id n \<or> j \<notin> ch_kind ` set cs \<longrightarrow> delivery_at m j d2 = delivery_at m j d1)
    \<and> (\<forall>c \<in> set cs. \<exists>r. delivery_at (n_id n) (ch_kind c) d2 = Some r \<and> dl_status r \<noteq> DL_pending)
    \<and> (b \<longleftrightarrow> (\<exists>c \<in> set cs. \<exists>r. delivery_at (n_id n) (ch_kind c) d2 = Some r \<and> \<not> settled r))"
    using Cons.IH [OF fr(1) _ _ wants rest] Cons.prems(2,3) by simp
  obtain r where r: "delivery_at (n_id n) (ch_kind c) d1 = Some r" "dl_status r \<noteq> DL_pending" "a = (\<not> settled r)"
    using dispatchChannel_outcome [OF Cons.prems(1) _ one] Cons.prems(4) by auto
  have keep: "delivery_at (n_id n) (ch_kind c) d2 = Some r"
    using ih r(1) Cons.prems(2) by simp
  have frame: "delivery_at m j d2 = delivery_at m j d" if "m \<noteq> n_id n \<or> j \<notin> ch_kind ` set (c # cs)" for m j
    using ih fr(4) [of m j] that by auto
  show ?case
    unfolding d' using ih fr(2) frame keep r by auto
qed

abbreviation routes :: "notification_row \<Rightarrow> db \<Rightarrow> channel_row list" where
  "routes n d \<equiv> filter (eligible_channel n) (channels d)"

definition channels_ok :: "db \<Rightarrow> bool" where
  "channels_ok d \<longleftrightarrow>
     distinct (map ch_id (channels d)) \<and> distinct (map (\<lambda>c. (ch_user c, ch_kind c)) (channels d))"

lemma routes_ok:
  assumes "channels_ok d"
  shows "distinct (map ch_kind (routes n d))" and "distinct (map ch_id (routes n d))"
    and "n_type n = ''digest.summary'' \<longrightarrow> (\<forall>c \<in> set (routes n d). still_wants_digest c d)"
proof -
  have "inj_on ch_kind (set (routes n d))"
    using assms by (auto simp: channels_ok_def distinct_map inj_on_def eligible_channel_def)
  then show "distinct (map ch_kind (routes n d))"
    using assms by (simp add: channels_ok_def distinct_map)
  show "distinct (map ch_id (routes n d))"
    using assms unfolding channels_ok_def by (metis distinct_map_filter)
  have "find_where (\<lambda>x. ch_id x = ch_id c) (channels d) = Some c" if "c \<in> set (channels d)" for c
    using assms that by (intro find_where_unique) (auto simp: channels_ok_def)
  then show "n_type n = ''digest.summary'' \<longrightarrow> (\<forall>c \<in> set (routes n d). still_wants_digest c d)"
    by (auto simp: still_wants_digest_def eligible_channel_def)
qed

definition all_settled :: "notification_row \<Rightarrow> channel_row list \<Rightarrow> db \<Rightarrow> bool" where
  "all_settled n cs d \<longleftrightarrow>
     (\<forall>c \<in> set cs. \<exists>r. delivery_at (n_id n) (ch_kind c) d = Some r \<and> settled r)"

lemma dispatchRow_outcome:
  assumes "deliveries_ok d" and "channels_ok d" and d'_def: "d' = dispatchRow st now clk send n d"
  shows "deliveries_ok d'"
    and "m \<noteq> n_id n \<Longrightarrow> delivery_at m j d' = delivery_at m j d"
    and "c \<in> set (routes n d) \<Longrightarrow> \<exists>r. delivery_at (n_id n) (ch_kind c) d' = Some r \<and> dl_status r \<noteq> DL_pending"
    and "notifs d' = (if all_settled n (routes n d) d'
                      then update_where (\<lambda>x. n_id x = n_id n) (\<lambda>x. x\<lparr>n_status := N_done\<rparr>) (notifs d) else notifs d)"
proof -
  obtain d1 again where run: "dispatch_channels st now clk send n (routes n d) d = (d1, again)" by fastforce
  note out = dispatch_channels_outcome [OF assms(1) routes_ok [OF assms(2)] run]
  have d': "d' = (if again then d1 else set_notification (n_id n) N_done d1)"
    by (simp add: d'_def dispatchRow_def run)
  have at: "delivery_at i j d' = delivery_at i j d1" for i j by (simp add: d' delivery_at_def set_notification_def)
  have "deliveries d' = deliveries d1" by (simp add: d' set_notification_def)
  then show "deliveries_ok d'" using out by simp
  show "m \<noteq> n_id n \<Longrightarrow> delivery_at m j d' = delivery_at m j d" using out at by simp
  show "c \<in> set (routes n d) \<Longrightarrow> \<exists>r. delivery_at (n_id n) (ch_kind c) d' = Some r \<and> dl_status r \<noteq> DL_pending"
    using out at by auto
  have "all_settled n (routes n d) d' \<longleftrightarrow> \<not> again"
    unfolding all_settled_def at using out by (metis option.inject)
  moreover have "notifs d' = (if again then notifs d
      else update_where (\<lambda>x. n_id x = n_id n) (\<lambda>x. x\<lparr>n_status := N_done\<rparr>) (notifs d))"
    using out by (cases again) (simp_all add: d' set_notification_def)
  ultimately show "notifs d' = (if all_settled n (routes n d) d'
      then update_where (\<lambda>x. n_id x = n_id n) (\<lambda>x. x\<lparr>n_status := N_done\<rparr>) (notifs d) else notifs d)"
    by (cases again) simp_all
qed

text \<open>one pass over a notification. It ends as done exactly when the delivery over every
  channel it goes out on is recorded as sent or dead; otherwise its status is kept and some channel
  has a delivery in progress or waiting to be retried. No channel is left without a claim, and no
  other notification's row or delivery is touched.\<close>

lemma done_when_every_channel_settled:
  assumes "deliveries_ok d" and "channels_ok d" and "find_where (\<lambda>x. n_id x = n_id n) (notifs d) = Some n"
    and "d' = dispatchRow st now clk send n d"
  shows "find_where (\<lambda>x. n_id x = n_id n) (notifs d')
      = Some (if all_settled n (routes n d) d' then n\<lparr>n_status := N_done\<rparr> else n)
    \<and> (\<forall>c \<in> set (routes n d). \<exists>r. delivery_at (n_id n) (ch_kind c) d' = Some r
          \<and> (settled r \<or> dl_status r \<in> {DL_processing, DL_failed}))
    \<and> (m \<noteq> n_id n \<longrightarrow> find_where (\<lambda>x. n_id x = m) (notifs d') = find_where (\<lambda>x. n_id x = m) (notifs d)
          \<and> delivery_at m j d' = delivery_at m j d)"
proof -
  note out = dispatchRow_outcome [OF assms(1,2,4)]
  have some: "settled r \<or> dl_status r \<in> {DL_processing, DL_failed}" if "dl_status r \<noteq> DL_pending" for r
    using that by (cases "dl_status r") (simp_all add: settled_def)
  have "find_where (\<lambda>x. n_id x = n_id n) (notifs d')
      = Some (if all_settled n (routes n d) d' then n\<lparr>n_status := N_done\<rparr> else n)"
    using out(4) find_where_key_update [where key = n_id, OF assms(3), where f = "\<lambda>x. x\<lparr>n_status := N_done\<rparr>"] assms(3)
    by simp
  moreover have "find_where (\<lambda>x. n_id x = m) (notifs d') = find_where (\<lambda>x. n_id x = m) (notifs d)" if "m \<noteq> n_id n"
  proof -
    have "find_where (\<lambda>x. n_id x = m) (update_where (\<lambda>x. n_id x = n_id n) (\<lambda>x. x\<lparr>n_status := N_done\<rparr>) (notifs d))
        = find_where (\<lambda>x. n_id x = m) (notifs d)"
      by (rule find_other_key [where k' = "n_id n"]) (use that in simp_all)
    then show ?thesis using out(4) by simp
  qed
  ultimately show ?thesis using out(2,3) some by blast
qed

text \<open>One user with one email channel and one pending notification whose transport accepts it.\<close>

definition demo_outbox :: db where
  "demo_outbox = demo_inbox\<lparr>notifs := [new_notification (env0 1) demo_event demo_inbox]\<rparr>"

definition accepting :: transport where
  "accepting k a n = Accepted"

lemma demo_outbox_row:
  "notifs demo_outbox = [new_notification (env0 1) demo_event demo_inbox]"
  "n_id (new_notification (env0 1) demo_event demo_inbox) = fresh (env0 1) demo_inbox"
  "n_user (new_notification (env0 1) demo_event demo_inbox) = ''u''"
  "n_status (new_notification (env0 1) demo_event demo_inbox) = N_pending"
  by (simp_all add: demo_outbox_def new_notification_def demo_event_def notificationStatusForType_def)

lemma done_when_every_channel_settled_witness:
  "find_where (\<lambda>x. n_id x = fresh (env0 1) demo_inbox) (notifs (dispatchRow DEFAULT_NOTIFICATION_SETTINGS 5 (\<lambda>c. (5, 6)) accepting
       (new_notification (env0 1) demo_event demo_inbox) demo_outbox))
     = Some ((new_notification (env0 1) demo_event demo_inbox)\<lparr>n_status := N_done\<rparr>)"
proof -
  let ?n = "new_notification (env0 1) demo_event demo_inbox"
  let ?d = "dispatchRow DEFAULT_NOTIFICATION_SETTINGS 5 (\<lambda>c. (5, 6)) accepting ?n demo_outbox"
  have "deliveries_ok demo_outbox" "channels_ok demo_outbox"
    by (simp_all add: demo_outbox_def demo_inbox_def db0_def channels_ok_def)
  moreover have "find_where (\<lambda>x. n_id x = n_id ?n) (notifs demo_outbox) = Some ?n" by (simp add: demo_outbox_row)
  ultimately have *: "find_where (\<lambda>x. n_id x = n_id ?n) (notifs ?d)
      = Some (if all_settled ?n (routes ?n demo_outbox) ?d then ?n\<lparr>n_status := N_done\<rparr> else ?n)"
    by (rule done_when_every_channel_settled [OF _ _ _ refl, THEN conjunct1])
  have "all_settled ?n (routes ?n demo_outbox) ?d"
  proof -
    have r: "routes ?n demo_outbox = channels demo_inbox"
      by (simp add: demo_outbox_def eligible_channel_def demo_outbox_row demo_inbox_def)
        (simp add: new_notification_def demo_event_def)
    have "dl_status (answered_row st t att Accepted r) = DL_sent" for st t att r
      by (simp add: answered_row_def sent_row_def)
    then show ?thesis
      unfolding dispatchRow_def r
      by (simp add: demo_inbox_def dispatchChannel_def Let_def late_intent_def demo_outbox_def db0_def
          insert_unique_def delivery_at_def intent_def delivery_key_def settled_def waiting_def claim_delivery_def
          lease_free_def settle_delivery_def set_delivery_def set_channel_def accepting_def retry_later_def
          set_notification_def all_settled_def leased_row_def answered_row_def sent_row_def)
        (simp add: new_notification_def demo_event_def)
  qed
  with * show ?thesis by (simp add: demo_outbox_row)
qed

section \<open>One tick\<close>

lemma first_per_user_subset: "set (first_per_user seen ns) \<subseteq> set ns"
  by (induction seen ns rule: first_per_user.induct) auto

lemma first_per_user_users:
  "distinct (map n_user (first_per_user seen ns)) \<and> n_user ` set (first_per_user seen ns) \<inter> set seen = {}"
  by (induction seen ns rule: first_per_user.induct) auto

lemma first_per_user_least:
  "sorted_wrt R ns \<Longrightarrow> n \<in> set (first_per_user seen ns) \<Longrightarrow> m \<in> set ns \<Longrightarrow> n_user m = n_user n \<Longrightarrow> m = n \<or> R n m"
proof (induction seen ns rule: first_per_user.induct)
  case (1 seen)
  then show ?case by simp
next
  case (2 seen x ns)
  note users = first_per_user_users [of "n_user x # seen" ns] first_per_user_users [of seen "x # ns"]
  show ?case
  proof (cases "n_user x \<in> set seen")
    case True
    then have "n_user n \<noteq> n_user x" using users(2) 2(4) by fastforce
    then show ?thesis using 2 True by auto
  next
    case False
    show ?thesis
    proof (cases "n = x")
      case True
      then show ?thesis using 2(3,5) by auto
    next
      case other: False
      then have n: "n \<in> set (first_per_user (n_user x # seen) ns)" using 2(4) False by simp
      then have "n_user n \<in> n_user ` set (first_per_user (n_user x # seen) ns)" by (rule imageI)
      then have "n_user n \<noteq> n_user x" using users(1) by auto
      then show ?thesis using 2 False n by auto
    qed
  qed
qed

lemma first_per_user_covers:
  "m \<in> set ns \<Longrightarrow> n_user m \<notin> set seen \<Longrightarrow> n_user m \<in> n_user ` set (first_per_user seen ns)"
  by (induction seen ns rule: first_per_user.induct) auto

lemma candidate_dispatchable:
  assumes "n \<in> set (candidates limit now d)"
  shows "n \<in> set (notifs d)" and "dispatchable now d n"
proof -
  have "n \<in> set (first_per_user [] (sort_key dispatch_key (filter (dispatchable now d) (notifs d))))"
    using assms unfolding candidates_def by (rule in_set_takeD)
  then have "n \<in> set (sort_key dispatch_key (filter (dispatchable now d) (notifs d)))"
    using first_per_user_subset by blast
  then show "n \<in> set (notifs d)" and "dispatchable now d n" by auto
qed

lemma candidates_distinct: "distinct (map n_user (candidates limit now d))"
  unfolding candidates_def take_map [symmetric] by (rule distinct_take) (simp add: first_per_user_users)

lemma candidate_oldest:
  assumes "n \<in> set (candidates limit now d)" and "m \<in> set (notifs d)" and "dispatchable now d m" and "n_user m = n_user n"
  shows "dispatch_key n \<le> dispatch_key m"
proof -
  let ?ns = "sort_key dispatch_key (filter (dispatchable now d) (notifs d))"
  have "sorted_wrt (\<lambda>x y. dispatch_key x \<le> dispatch_key y) ?ns"
    using sorted_sort_key [of dispatch_key] by (simp add: sorted_map)
  moreover have "n \<in> set (first_per_user [] ?ns)"
    using assms(1) unfolding candidates_def by (rule in_set_takeD)
  moreover have "m \<in> set ?ns" using assms(2,3) by simp
  ultimately have "m = n \<or> dispatch_key n \<le> dispatch_key m"
    using assms(4) by (rule first_per_user_least [where R = "\<lambda>x y. dispatch_key x \<le> dispatch_key y"])
  then show ?thesis by auto
qed

lemma candidates_cover:
  assumes "card (n_user ` {x \<in> set (notifs d). dispatchable now d x}) \<le> limit"
    and "m \<in> set (notifs d)" and "dispatchable now d m"
  shows "n_user m \<in> n_user ` set (candidates limit now d)"
proof -
  let ?ns = "sort_key dispatch_key (filter (dispatchable now d) (notifs d))"
  let ?fs = "first_per_user [] ?ns"
  have "length ?fs = card (n_user ` set ?fs)"
    using first_per_user_users [of "[]" ?ns] by (metis distinct_card length_map list.set_map)
  also have "\<dots> \<le> card (n_user ` {x \<in> set (notifs d). dispatchable now d x})"
    using first_per_user_subset [of "[]" ?ns] by (intro card_mono image_mono) auto
  finally have "candidates limit now d = ?fs" using assms(1) by (simp add: candidates_def)
  moreover have "n_user m \<in> n_user ` set ?fs"
    using assms(2,3) by (intro first_per_user_covers) auto
  ultimately show ?thesis by simp
qed

text \<open>The batch of a tick holds at most one notification per user, the oldest one of that user
  that can be dispatched; and when no more users have work than the limit, each of them is in it.\<close>

lemma batch_is_oldest_per_user:
  assumes "m \<in> set (notifs d)" and "dispatchable now d m"
  shows "distinct (map n_user (candidates limit now d))
    \<and> (n \<in> set (candidates limit now d) \<longrightarrow> n_user n = n_user m \<longrightarrow> dispatch_key n \<le> dispatch_key m)
    \<and> (card (n_user ` {x \<in> set (notifs d). dispatchable now d x}) \<le> limit
         \<longrightarrow> n_user m \<in> n_user ` set (candidates limit now d))"
  using candidates_distinct candidate_oldest [OF _ assms] candidates_cover [OF _ assms] by auto

lemma batch_is_oldest_per_user_witness: "n_user ` set (candidates 250 5 demo_outbox) = {''u''}"
proof -
  let ?n = "new_notification (env0 1) demo_event demo_inbox"
  have d: "dispatchable 5 demo_outbox ?n" by (simp add: dispatchable_def demo_outbox_row)
  have m: "?n \<in> set (notifs demo_outbox)" by (simp add: demo_outbox_row)
  have "{x \<in> set (notifs demo_outbox). dispatchable 5 demo_outbox x} = {?n}"
    using d by (auto simp: demo_outbox_row)
  then have "''u'' \<in> n_user ` set (candidates 250 5 demo_outbox)"
    using batch_is_oldest_per_user [OF m d, of 250] by (simp add: demo_outbox_row)
  moreover have "n_user ` set (candidates 250 5 demo_outbox) \<subseteq> {''u''}"
    using candidate_dispatchable(1) [of _ 250 5 demo_outbox] by (fastforce simp: demo_outbox_row)
  ultimately show ?thesis by blast
qed

end
