(* ===== verification/Dispatch_Stall.thy ===== *)
theory Dispatch_Stall
  imports Dispatch
begin

text \<open>
  How the dispatcher of \<open>services/notifications.ts\<close> depends on one user's rows, and two ways a
  delivery is left behind: the batch query picks up done notifications by their unsettled
  deliveries, whatever became of the channel of such a delivery; and a delivery put back by the
  admin console is pending under a notification nobody picks up.
\<close>

section \<open>A delivery without its channel\<close>

text \<open>What the dispatcher reads of one user.\<close>

definition user_ids :: "ident \<Rightarrow> db \<Rightarrow> ident set" where
  "user_ids u d = n_id ` {n \<in> set (notifs d). n_user n = u}"

definition user_view :: "ident \<Rightarrow> db \<Rightarrow> notification_row list \<times> delivery_row list \<times> channel_row list" where
  "user_view u d = (filter (\<lambda>n. n_user n = u) (notifs d),
                    filter (\<lambda>r. dl_notification r \<in> user_ids u d) (deliveries d),
                    filter (\<lambda>c. ch_user c = u) (channels d))"

definition outbox_ok :: "db \<Rightarrow> bool" where
  "outbox_ok d \<longleftrightarrow> deliveries_ok d \<and> distinct (map n_id (notifs d)) \<and> distinct (map ch_id (channels d))"

lemma filter_update_where_other:
  "(\<And>r. P r \<Longrightarrow> r \<in> set rs \<Longrightarrow> \<not> Q r \<and> \<not> Q (f r)) \<Longrightarrow> filter Q (update_where P f rs) = filter Q rs"
  by (induction rs) auto

lemma filter_insert_other: "\<not> Q x \<Longrightarrow> filter Q (fst (insert_unique key x rs)) = filter Q rs"
  by (simp add: insert_unique_def split: option.split)

lemma view_late_intent:
  assumes "n_id n \<notin> user_ids u d"
  shows "user_view u (late_intent n c d) = user_view u d"
proof -
  have "filter (\<lambda>r. dl_notification r \<in> user_ids u d) (fst (insert_unique delivery_key (intent n c) (deliveries d)))
      = filter (\<lambda>r. dl_notification r \<in> user_ids u d) (deliveries d)"
    by (rule filter_insert_other) (use assms in \<open>simp add: intent_def\<close>)
  then show ?thesis by (simp add: user_view_def late_intent_def user_ids_def)
qed

lemma view_set_delivery:
  assumes "i \<notin> user_ids u d" and "\<And>x. delivery_key (f x) = delivery_key x"
  shows "user_view u (set_delivery i k f d) = user_view u d"
proof -
  have "dl_notification (f x) = dl_notification x" for x
    using assms(2) [of x] by (simp add: delivery_key_def)
  then have "filter (\<lambda>r. dl_notification r \<in> user_ids u d) (update_where (\<lambda>r. delivery_key r = (i, k)) f (deliveries d))
      = filter (\<lambda>r. dl_notification r \<in> user_ids u d) (deliveries d)"
    using assms(1) by (intro filter_update_where_other) (auto simp: delivery_key_def)
  then show ?thesis by (simp add: user_view_def set_delivery_def user_ids_def)
qed

lemma view_set_channel:
  assumes "\<And>x. x \<in> set (channels d) \<Longrightarrow> ch_id x = i \<Longrightarrow> ch_user x \<noteq> u" and "\<And>x. ch_user (f x) = ch_user x"
  shows "user_view u (set_channel i f d) = user_view u d"
proof -
  have "filter (\<lambda>c. ch_user c = u) (update_where (\<lambda>c. ch_id c = i) f (channels d)) = filter (\<lambda>c. ch_user c = u) (channels d)"
    using assms by (intro filter_update_where_other) auto
  then show ?thesis by (simp add: user_view_def set_channel_def user_ids_def)
qed

lemma user_ids_cong: "notifs d = notifs d' \<Longrightarrow> user_ids u d = user_ids u d'"
  by (simp add: user_ids_def)

definition channel_keys :: "db \<Rightarrow> (ident \<times> ident) list" where
  "channel_keys d = map (\<lambda>c. (ch_id c, ch_user c)) (channels d)"

lemma channel_keys_settle: "channel_keys (settle_delivery st t att res i c d) = channel_keys d"
  by (simp add: channel_keys_def settle_delivery_def set_channel_def set_delivery_def map_update_where)

lemma channel_keys_mem: "channel_keys d = channel_keys d' \<Longrightarrow> x \<in> set (channels d') \<Longrightarrow> (ch_id x, ch_user x) \<in> set (channel_keys d)"
  by (simp add: channel_keys_def)

lemma view_dispatchChannel:
  assumes ok: "deliveries_ok d" and run: "dispatchChannel st now clk send n c d = (d', b)"
    and n: "n_id n \<notin> user_ids u d" and c: "\<And>x. x \<in> set (channels d) \<Longrightarrow> ch_id x = ch_id c \<Longrightarrow> ch_user x \<noteq> u"
  shows "user_view u d' = user_view u d \<and> channel_keys d' = channel_keys d \<and> notifs d' = notifs d"
  using ok run
proof (cases rule: dispatchChannel_cases)
  case 1
  then show ?thesis by simp
next
  case 2
  then show ?thesis using view_late_intent [OF n] by (simp add: channel_keys_def)
next
  case (3 t t' att res)
  let ?d1 = "late_intent n c d"
  let ?d2 = "set_delivery (n_id n) (ch_kind c) (leased_row st t') ?d1"
  let ?d3 = "set_delivery (n_id n) (ch_kind c) (answered_row st t att res) ?d2"
  have ids: "user_ids u ?d1 = user_ids u d" "user_ids u ?d2 = user_ids u d" by (rule user_ids_cong, simp)+
  have "user_view u ?d3 = user_view u d"
    using n ids by (simp add: view_set_delivery view_late_intent)
  moreover have "user_view u d' = user_view u ?d3"
    unfolding 3 settle_delivery_def using c by (intro view_set_channel) simp_all
  moreover have "channel_keys d' = channel_keys d"
    unfolding 3 channel_keys_settle by (simp add: channel_keys_def)
  ultimately show ?thesis using 3 by (simp add: settle_delivery_frame)
qed

lemma view_dispatch_channels:
  assumes "deliveries_ok d" and "dispatch_channels st now clk send n cs d = (d', b)"
    and "n_id n \<notin> user_ids u d" and "\<And>c x. c \<in> set cs \<Longrightarrow> x \<in> set (channels d) \<Longrightarrow> ch_id x = ch_id c \<Longrightarrow> ch_user x \<noteq> u"
  shows "user_view u d' = user_view u d \<and> channel_keys d' = channel_keys d \<and> notifs d' = notifs d \<and> deliveries_ok d'"
  using assms
proof (induction cs arbitrary: d d' b)
  case Nil
  then show ?case by simp
next
  case (Cons c cs)
  obtain d1 a where one: "dispatchChannel st now clk send n c d = (d1, a)" by fastforce
  obtain d2 e where rest: "dispatch_channels st now clk send n cs d1 = (d2, e)" by fastforce
  have d': "d' = d2" using Cons.prems(2) one rest by simp
  have first: "user_view u d1 = user_view u d \<and> channel_keys d1 = channel_keys d \<and> notifs d1 = notifs d"
    by (rule view_dispatchChannel [OF Cons.prems(1) one Cons.prems(3) Cons.prems(4) [of c]]) simp_all
  have chan: "ch_user x \<noteq> u" if "y \<in> set cs" "x \<in> set (channels d1)" "ch_id x = ch_id y" for y x
  proof -
    have "(ch_id x, ch_user x) \<in> set (channel_keys d)" using channel_keys_mem [OF _ that(2)] first by simp
    then obtain z where "z \<in> set (channels d)" "ch_id z = ch_id x" "ch_user z = ch_user x" by (auto simp: channel_keys_def)
    then show ?thesis using Cons.prems(4) [of y z] that(1,3) by simp
  qed
  have "n_id n \<notin> user_ids u d1" using Cons.prems(3) first user_ids_cong by metis
  from Cons.IH [OF dispatchChannel_frame(1) [OF Cons.prems(1) one] rest this chan] first d' show ?case by simp
qed

lemma dispatchRow_other_user:
  assumes ok: "outbox_ok d" and n: "n \<in> set (notifs d0)" "map (\<lambda>x. (n_id x, n_user x)) (notifs d) = map (\<lambda>x. (n_id x, n_user x)) (notifs d0)"
    and u: "n_user n \<noteq> u"
  shows "user_view u (dispatchRow st now clk send n d) = user_view u d
    \<and> outbox_ok (dispatchRow st now clk send n d)
    \<and> map (\<lambda>x. (n_id x, n_user x)) (notifs (dispatchRow st now clk send n d)) = map (\<lambda>x. (n_id x, n_user x)) (notifs d)"
proof -
  obtain d1 again where run: "dispatch_channels st now clk send n (routes n d) d = (d1, again)" by fastforce
  have owner: "n_user x = n_user n" if "x \<in> set (notifs d)" "n_id x = n_id n" for x
  proof -
    have "(n_id n, n_user n) \<in> set (map (\<lambda>x. (n_id x, n_user x)) (notifs d))" using n by simp
    then obtain y where "y \<in> set (notifs d)" "n_id y = n_id n" "n_user y = n_user n" by auto
    moreover have "y = x"
      using ok calculation that by (metis distinct_map inj_on_def outbox_ok_def)
    ultimately show ?thesis by simp
  qed
  have nid: "n_id n \<notin> user_ids u d" using owner u by (auto simp: user_ids_def)
  have chan: "ch_user x \<noteq> u" if "c \<in> set (routes n d)" "x \<in> set (channels d)" "ch_id x = ch_id c" for c x
  proof -
    have "x = c" using ok that by (auto simp: outbox_ok_def distinct_map inj_on_def)
    then show ?thesis using that(1) u by (simp add: eligible_channel_def)
  qed
  have d1: "user_view u d1 = user_view u d \<and> channel_keys d1 = channel_keys d \<and> notifs d1 = notifs d \<and> deliveries_ok d1"
    using ok chan by (intro view_dispatch_channels [OF _ run nid]) (auto simp: outbox_ok_def)
  have "map fst (channel_keys d1) = map fst (channel_keys d)" using d1 by simp
  then have chid: "map ch_id (channels d1) = map ch_id (channels d)" by (simp add: channel_keys_def comp_def)
  let ?d2 = "set_notification (n_id n) N_done d1"
  have "filter (\<lambda>x. n_user x = u) (notifs ?d2) = filter (\<lambda>x. n_user x = u) (notifs d1)"
    unfolding set_notification_def using owner u d1
    by (simp, intro filter_update_where_other) auto
  moreover have keys: "map (\<lambda>x. (n_id x, n_user x)) (notifs ?d2) = map (\<lambda>x. (n_id x, n_user x)) (notifs d1)"
    by (simp add: set_notification_def map_update_where)
  moreover have "user_ids u ?d2 = user_ids u d1"
  proof -
    have "user_ids u y = fst ` {p \<in> set (map (\<lambda>x. (n_id x, n_user x)) (notifs y)). snd p = u}" for y
      by (force simp: user_ids_def)
    then show ?thesis by (simp only: keys)
  qed
  ultimately have "user_view u ?d2 = user_view u d1"
    by (simp add: user_view_def set_notification_def)
  moreover have "map n_id (notifs ?d2) = map n_id (notifs d1)" by (simp add: set_notification_def map_update_where)
  moreover have "dispatchRow st now clk send n d = (if again then d1 else ?d2)" by (simp add: dispatchRow_def run)
  moreover have "deliveries_ok ?d2" "channels ?d2 = channels d1" using d1 by (simp_all add: set_notification_def)
  ultimately show ?thesis using d1 chid ok keys by (auto simp: outbox_ok_def)
qed

section \<open>A user whose oldest notification lost its channel\<close>

definition inert :: "notification_row \<Rightarrow> delivery_row list \<Rightarrow> bool" where
  "inert m ds \<longleftrightarrow> n_status m \<noteq> N_pending
     \<and> (\<forall>r \<in> set ds. dl_notification r = n_id m \<longrightarrow> dl_status r \<notin> {DL_failed, DL_processing})"

text \<open>\<open>a\<close> is done, one of its deliveries is due for a retry, every channel it can still go out on has
  its delivery settled, and all older notifications of its user are finished.\<close>

definition stalled :: "time \<Rightarrow> notification_row \<Rightarrow> db \<Rightarrow> bool" where
  "stalled now a d \<longleftrightarrow>
     (case user_view (n_user a) d of (ns, ds, cs) \<Rightarrow>
        a \<in> set ns \<and> n_status a = N_done
        \<and> (\<exists>r \<in> set ds. dl_notification r = n_id a \<and> dl_status r \<in> {DL_failed, DL_processing} \<and> due now r)
        \<and> (\<forall>c \<in> set cs. eligible_channel a c \<longrightarrow> (\<exists>r \<in> set ds. delivery_key r = (n_id a, ch_kind c) \<and> settled r))
        \<and> (\<forall>m \<in> set ns. m \<noteq> a \<longrightarrow> dispatch_key a < dispatch_key m \<or> inert m ds))"

type_synonym tick = "delivery_settings \<times> nat \<times> time \<times> (channel_row \<Rightarrow> time \<times> time) \<times> transport"

fun run_tick :: "tick \<Rightarrow> db \<Rightarrow> db" where
  "run_tick (st, limit, now, clk, send) d = dispatchPendingNotifications st limit now clk send d"

definition tick_time :: "tick \<Rightarrow> time" where
  "tick_time tk = fst (snd (snd tk))"

lemma stalled_view: "user_view (n_user a) d' = user_view (n_user a) d \<Longrightarrow> stalled now a d' = stalled now a d"
  by (simp add: stalled_def)

lemma stalled_later: "stalled now a d \<Longrightarrow> now \<le> now' \<Longrightarrow> stalled now' a d"
  unfolding stalled_def due_def by (fastforce split: option.splits)

lemma dispatchChannel_settled:
  assumes "delivery_at (n_id n) (ch_kind c) d = Some r" and "settled r"
  shows "dispatchChannel st now clk send n c d = (d, False)"
proof -
  have "r \<in> set (deliveries d)" "delivery_key r = (n_id n, ch_kind c)"
    using find_where_Some [OF assms(1) [unfolded delivery_at_def]] by auto
  then have "delivery_key (intent n c) \<in> delivery_key ` set (deliveries d)" by force
  then have "late_intent n c d = d" by (simp add: late_intent_def insert_unique_noop)
  then show ?thesis using assms by (simp add: dispatchChannel_def)
qed

lemma dispatch_channels_settled:
  "all_settled n cs d \<Longrightarrow> dispatch_channels st now clk send n cs d = (d, False)"
proof (induction cs)
  case Nil
  then show ?case by simp
next
  case (Cons c cs)
  then obtain r where "delivery_at (n_id n) (ch_kind c) d = Some r" "settled r" by (auto simp: all_settled_def)
  then have "dispatchChannel st now clk send n c d = (d, False)" by (rule dispatchChannel_settled)
  then show ?case using Cons by (simp add: all_settled_def)
qed

lemma dispatchRow_stalled:
  assumes "stalled now a d" and "outbox_ok d"
  shows "dispatchRow st now' clk send a d = d"
proof -
  have a: "a \<in> set (notifs d)" "n_status a = N_done" using assms(1) by (auto simp: stalled_def user_view_def)
  have "all_settled a (routes a d) d"
  proof -
    have "delivery_at (n_id a) k d = Some r" if "r \<in> set (deliveries d)" "delivery_key r = (n_id a, k)" for r k
      using find_where_unique [where key = delivery_key and rs = "deliveries d" and r = r] assms(2) that
      by (simp add: delivery_at_def outbox_ok_def)
    moreover have "\<exists>r \<in> set (deliveries d). delivery_key r = (n_id a, ch_kind c) \<and> settled r"
      if c: "c \<in> set (routes a d)" for c
    proof -
      have "c \<in> set (filter (\<lambda>c. ch_user c = n_user a) (channels d))" "eligible_channel a c"
        using c by (simp_all add: eligible_channel_def)
      then show ?thesis using assms(1) unfolding stalled_def user_view_def prod.case by auto
    qed
    ultimately show ?thesis unfolding all_settled_def by blast
  qed
  then have run: "dispatch_channels st now' clk send a (routes a d) d = (d, False)" by (rule dispatch_channels_settled)
  have "x\<lparr>n_status := N_done\<rparr> = x" if "x \<in> set (notifs d)" "n_id x = n_id a" for x
  proof -
    have "x = a" using assms(2) a that by (auto simp: outbox_ok_def distinct_map inj_on_def)
    then show ?thesis using a(2) by simp
  qed
  then have "update_where (\<lambda>x. n_id x = n_id a) (\<lambda>x. x\<lparr>n_status := N_done\<rparr>) (notifs d) = notifs d"
    unfolding update_where_def by (intro map_idI) simp
  then show ?thesis by (simp add: dispatchRow_def run set_notification_def)
qed

lemma stalled_candidate:
  assumes st: "stalled now a d" and le: "now \<le> now'" and c: "n \<in> set (candidates limit now' d)" and u: "n_user n = n_user a"
  shows "n = a"
proof (rule ccontr)
  assume ne: "n \<noteq> a"
  have n: "n \<in> set (notifs d)" "dispatchable now' d n" using candidate_dispatchable [OF c] by auto
  have st': "stalled now' a d" by (rule stalled_later [OF st le])
  then have a: "a \<in> set (notifs d)" "dispatchable now' d a"
    by (auto simp: stalled_def user_view_def dispatchable_def list_ex_iff)
  have "dispatch_key n \<le> dispatch_key a" using candidate_oldest [OF c a] u by simp
  moreover have "\<not> inert n (filter (\<lambda>r. dl_notification r \<in> user_ids (n_user a) d) (deliveries d))"
  proof -
    have "n_id n \<in> user_ids (n_user a) d" using n(1) u by (auto simp: user_ids_def)
    then show ?thesis using n(2) by (auto simp: inert_def dispatchable_def list_ex_iff)
  qed
  moreover have "dispatch_key a < dispatch_key n
      \<or> inert n (filter (\<lambda>r. dl_notification r \<in> user_ids (n_user a) d) (deliveries d))"
    using st' n(1) u ne by (simp add: stalled_def user_view_def)
  ultimately show False by auto
qed

lemma stalled_rows:
  assumes "stalled now a d" and "outbox_ok d" and "\<And>n. n \<in> set ns \<Longrightarrow> n \<in> set (notifs d)"
    and "\<And>n. n \<in> set ns \<Longrightarrow> n_user n = n_user a \<Longrightarrow> n = a"
  shows "user_view (n_user a) (fold (dispatchRow st now' clk send) ns d) = user_view (n_user a) d
    \<and> outbox_ok (fold (dispatchRow st now' clk send) ns d)"
proof -
  define keys where "keys = (\<lambda>y :: db. map (\<lambda>x. (n_id x, n_user x)) (notifs y))"
  have "user_view (n_user a) (fold (dispatchRow st now' clk send) ns y) = user_view (n_user a) d
      \<and> outbox_ok (fold (dispatchRow st now' clk send) ns y)"
    if "user_view (n_user a) y = user_view (n_user a) d" "outbox_ok y" "keys y = keys d" for y
    using that assms(3,4)
  proof (induction ns arbitrary: y)
    case Nil
    then show ?case by simp
  next
    case (Cons n ns)
    let ?z = "dispatchRow st now' clk send n y"
    have "user_view (n_user a) ?z = user_view (n_user a) y \<and> outbox_ok ?z \<and> keys ?z = keys y"
    proof (cases "n_user n = n_user a")
      case True
      then have "n = a" using Cons.prems(5) by simp
      moreover have "stalled now a y" using stalled_view [OF Cons.prems(1)] assms(1) by simp
      ultimately show ?thesis using dispatchRow_stalled [OF _ Cons.prems(2)] Cons.prems(2) by simp
    next
      case False
      then show ?thesis
        using dispatchRow_other_user [OF Cons.prems(2), of n d "n_user a"] Cons.prems(3,4) by (simp add: keys_def)
    qed
    then show ?case using Cons.IH [of ?z] Cons.prems by simp
  qed
  then show ?thesis using assms(2) by simp
qed

lemma stalled_tick:
  assumes "stalled now a d" and "outbox_ok d" and "now \<le> tick_time tk"
  shows "user_view (n_user a) (run_tick tk d) = user_view (n_user a) d \<and> outbox_ok (run_tick tk d)"
proof -
  obtain st limit t clk send where tk: "tk = (st, limit, t, clk, send)" by (cases tk) auto
  then have le: "now \<le> t" using assms(3) by (simp add: tick_time_def)
  show ?thesis
    unfolding tk run_tick.simps dispatchPendingNotifications_def
  proof (rule stalled_rows [OF assms(1,2)])
    show "n \<in> set (notifs d)" if "n \<in> set (candidates limit t d)" for n
      by (rule candidate_dispatchable(1) [OF that])
    show "n = a" if "n \<in> set (candidates limit t d)" "n_user n = n_user a" for n
      by (rule stalled_candidate [OF assms(1) le that])
  qed
qed

text \<open>a delivery that waits for its retry while its channel is disconnected or switched off
  stops its user: its notification is done and stays the user's entry in every batch, so that through
  any number of later ticks none of the user's notifications, deliveries or channels changes,
  whatever is pending and however many channels still work.\<close>

lemma lost_channel_stops_its_user:
  assumes "stalled now a d" and "outbox_ok d" and "\<forall>tk \<in> set tks. now \<le> tick_time tk"
  shows "user_view (n_user a) (fold run_tick tks d) = user_view (n_user a) d"
  using assms
proof (induction tks arbitrary: d)
  case Nil
  then show ?case by simp
next
  case (Cons tk tks)
  have one: "user_view (n_user a) (run_tick tk d) = user_view (n_user a) d" "outbox_ok (run_tick tk d)"
    using stalled_tick [OF Cons.prems(1,2)] Cons.prems(3) by simp_all
  then have "stalled now a (run_tick tk d)" using stalled_view Cons.prems(1) by blast
  from Cons.IH [OF this one(2)] Cons.prems(3) one(1) show ?case by simp
qed

text \<open>A user with email and Telegram: an email retry was scheduled for 100 when the email channel
  was disconnected. The next tick ends that notification as done; from 100 on the later one, pending
  for Telegram, is never sent.\<close>

definition stall_note :: "ident \<Rightarrow> notification_status \<Rightarrow> time \<Rightarrow> notification_row" where
  "stall_note i s t = \<lparr>n_id = i, n_user = ''u'', n_type = ''audit.claimed'', n_key = i, n_status = s,
     n_entity_type = None, n_entity = None, n_bounty = None, n_read = False, n_at = t\<rparr>"

definition stall_channel :: "ident \<Rightarrow> channel_kind \<Rightarrow> channel_row" where
  "stall_channel i k = \<lparr>ch_id = i, ch_user = ''u'', ch_kind = k, ch_address = i, ch_connected = True,
     ch_verified = True, ch_deliver = True, ch_digest = True, ch_error = None\<rparr>"

definition stall_delivery :: "ident \<Rightarrow> channel_kind \<Rightarrow> delivery_status \<Rightarrow> time option \<Rightarrow> delivery_row" where
  "stall_delivery i k s t = \<lparr>dl_notification = i, dl_channel = k, dl_address = ''x'', dl_status = s,
     dl_attempts = 1, dl_next = t, dl_error = None\<rparr>"

definition before_disconnect :: db where
  "before_disconnect = db0\<lparr>notifs := [stall_note ''a'' N_pending 1, stall_note ''b'' N_pending 2],
     channels := [stall_channel ''c1'' Ch_email, stall_channel ''c2'' Ch_telegram],
     deliveries := [stall_delivery ''a'' Ch_email DL_failed (Some 100), stall_delivery ''a'' Ch_telegram DL_sent None,
                    stall_delivery ''b'' Ch_telegram DL_pending None]\<rparr>"

definition all_accepted :: transport where
  "all_accepted k a n = Accepted"

definition tick_at :: "time \<Rightarrow> tick" where
  "tick_at t = (DEFAULT_NOTIFICATION_SETTINGS, 250, t, (\<lambda>c. (t, t)), all_accepted)"

definition after_disconnect :: db where
  "after_disconnect = before_disconnect\<lparr>notifs := [stall_note ''a'' N_done 1, stall_note ''b'' N_pending 2],
     channels := [stall_channel ''c2'' Ch_telegram]\<rparr>"

lemmas stall_defs = stall_note_def stall_channel_def stall_delivery_def before_disconnect_def after_disconnect_def
  all_accepted_def tick_at_def db0_def

lemma disconnect_then_tick: "run_tick (tick_at 50) (disconnectChannel ''u'' Ch_email before_disconnect) = after_disconnect"
proof -
  let ?d = "disconnectChannel ''u'' Ch_email before_disconnect"
  have c: "candidates 250 50 ?d = [stall_note ''a'' N_pending 1]"
    by (simp add: candidates_def disconnectChannel_def stall_defs dispatchable_def dispatch_key_def)
  show ?thesis
    by (simp add: tick_at_def dispatchPendingNotifications_def c)
      (simp add: dispatchRow_def disconnectChannel_def stall_defs eligible_channel_def dispatchChannel_def
        late_intent_def insert_unique_def delivery_key_def intent_def delivery_at_def settled_def set_notification_def)
qed

lemma lost_channel_stops_its_user_witness:
  "user_view ''u'' (fold run_tick [tick_at 200, tick_at 100000]
       (run_tick (tick_at 50) (disconnectChannel ''u'' Ch_email before_disconnect)))
     = user_view ''u'' after_disconnect"
proof -
  let ?a = "stall_note ''a'' N_done 1"
  have "user_ids ''u'' after_disconnect = n_id ` set (filter (\<lambda>n. n_user n = ''u'') (notifs after_disconnect))"
    by (simp add: user_ids_def)
  also have "\<dots> = {''a'', ''b''}" by (simp add: stall_defs)
  finally have "stalled 100 ?a after_disconnect"
    by (simp add: stalled_def user_view_def stall_defs due_def eligible_channel_def delivery_key_def
        settled_def inert_def dispatch_key_def)
  moreover have "outbox_ok after_disconnect"
    by (simp add: outbox_ok_def stall_defs delivery_key_def)
  ultimately have "user_view (n_user ?a) (fold run_tick [tick_at 200, tick_at 100000] after_disconnect)
      = user_view (n_user ?a) after_disconnect"
    by (rule lost_channel_stops_its_user) (simp add: tick_time_def tick_at_def)
  then show ?thesis by (simp add: disconnect_then_tick stall_note_def)
qed

section \<open>A delivery put back by the console\<close>

text \<open>retrying a dead delivery from the admin console reports success but leaves it pending
  under its done notification, which no later batch picks up at any time; the service's own requeue
  of the same delivery makes the notification pending again, so that a batch can.\<close>

lemma console_retry_is_never_sent:
  assumes "outbox_ok d" and "n \<in> set (notifs d)" and "n_status n = N_done"
    and "delivery_at (n_id n) k d = Some r" and "dl_status r = DL_dead"
    and "\<forall>x \<in> set (deliveries d). dl_notification x = n_id n \<longrightarrow> settled x"
  shows "snd (retry_dead_letter_route (n_id n) k d) = Requeued
    \<and> n \<in> set (notifs (fst (retry_dead_letter_route (n_id n) k d)))
    \<and> \<not> dispatchable now (fst (retry_dead_letter_route (n_id n) k d)) n
    \<and> n\<lparr>n_status := N_pending\<rparr> \<in> set (notifs (fst (requeueDeadLetter (n_id n) k d)))
    \<and> dispatchable now (fst (requeueDeadLetter (n_id n) k d)) (n\<lparr>n_status := N_pending\<rparr>)"
proof -
  let ?f = "\<lambda>r :: delivery_row. r\<lparr>dl_status := DL_pending, dl_next := None\<rparr>"
  have route: "retry_dead_letter_route (n_id n) k d = (set_delivery (n_id n) k ?f d, Requeued)"
    using assms(4,5) by (simp add: retry_dead_letter_route_def)
  have "\<not> dispatchable now (set_delivery (n_id n) k ?f d) n"
    using assms(3,6) by (auto simp: dispatchable_def list_ex_iff set_delivery_def update_where_def settled_def split: if_splits)
  moreover have "n\<lparr>n_status := N_pending\<rparr> \<in> set (notifs (fst (requeueDeadLetter (n_id n) k d)))"
    using assms(2,4,5) by (force simp: requeueDeadLetter_def Let_def set_notification_def update_where_def)
  ultimately show ?thesis using assms(2) by (simp add: route dispatchable_def)
qed

lemma console_retry_is_never_sent_witness:
  "\<not> dispatchable 900 (fst (retry_dead_letter_route ''a'' Ch_email
      (db0\<lparr>notifs := [stall_note ''a'' N_done 1], deliveries := [stall_delivery ''a'' Ch_email DL_dead None]\<rparr>)))
    (stall_note ''a'' N_done 1)"
proof -
  let ?d = "db0\<lparr>notifs := [stall_note ''a'' N_done 1], deliveries := [stall_delivery ''a'' Ch_email DL_dead None]\<rparr>"
  let ?n = "stall_note ''a'' N_done 1" and ?r = "stall_delivery ''a'' Ch_email DL_dead None"
  have "outbox_ok ?d" by (simp add: outbox_ok_def stall_defs)
  moreover have "?n \<in> set (notifs ?d)" "n_status ?n = N_done" by (simp_all add: stall_defs)
  moreover have "delivery_at (n_id ?n) Ch_email ?d = Some ?r" "dl_status ?r = DL_dead"
    by (simp_all add: delivery_at_def stall_defs delivery_key_def)
  moreover have "\<forall>x \<in> set (deliveries ?d). dl_notification x = n_id ?n \<longrightarrow> settled x"
    by (simp add: stall_defs settled_def)
  ultimately have "\<not> dispatchable 900 (fst (retry_dead_letter_route (n_id ?n) Ch_email ?d)) ?n"
    by (rule console_retry_is_never_sent [THEN conjunct2, THEN conjunct2, THEN conjunct1])
  then show ?thesis by (simp add: stall_note_def)
qed

end
