(* ===== verification/Digest.thy ===== *)
theory Digest
  imports Dispatch_Stall
begin

text \<open>
  Deep links (\<open>services/notifications/href.ts\<close>), the daily digest built from a user's buffered rows
  (\<open>services/notifications/digest.ts\<close>) and its flush (\<open>flushDigests\<close> of \<open>services/notifications.ts\<close>).
  Strings are UTF-8 bytes here. The calendar of a time zone and the UTC date of a clock are
  parameters, as are the two origins of the configuration.
\<close>

section \<open>Deep links\<close>

text \<open>JavaScript's truth of an optional string.\<close>

definition truthy :: "string option \<Rightarrow> string option" where
  "truthy s = (if s = Some [] then None else s)"

definition is_lower_or_digit :: "char \<Rightarrow> bool" where
  "is_lower_or_digit c \<longleftrightarrow> c \<in> set ''abcdefghijklmnopqrstuvwxyz0123456789''"

definition is_upper :: "char \<Rightarrow> bool" where
  "is_upper c \<longleftrightarrow> c \<in> set ''ABCDEFGHIJKLMNOPQRSTUVWXYZ''"

fun snake_breaks :: "string \<Rightarrow> string" where
  "snake_breaks (a # b # s) =
     (if is_lower_or_digit a \<and> is_upper b then a # CHR ''_'' # snake_breaks (b # s) else a # snake_breaks (b # s))"
| "snake_breaks s = s"

definition normalizeEntityType :: "string option \<Rightarrow> string option" where
  "normalizeEntityType et = map_option (\<lambda>s. js_lower (snake_breaks s)) (truthy et)"

definition starts_with :: "string \<Rightarrow> string \<Rightarrow> bool" where
  "starts_with p s \<longleftrightarrow> take (length p) s = p"

definition isAdminNotificationType :: "string \<Rightarrow> bool" where
  "isAdminNotificationType t \<longleftrightarrow>
     starts_with ''admin.'' t \<or> t = ''community.request_submitted'' \<or> t = ''agent_issue.created''"

definition hex_digit :: "nat \<Rightarrow> char" where
  "hex_digit n = ''0123456789ABCDEF'' ! n"

definition uri_unreserved :: "char \<Rightarrow> bool" where
  "uri_unreserved c \<longleftrightarrow> is_upper c \<or> is_lower_or_digit c \<or> c \<in> set ''-_.!~*()'' \<or> c = CHR 0x27"

definition encodeURIComponent :: "string \<Rightarrow> string" where
  "encodeURIComponent s =
     concat (map (\<lambda>c. if uri_unreserved c then [c]
                      else [CHR ''%'', hex_digit (of_char c div 16), hex_digit (of_char c mod 16)]) s)"

text \<open>\<open>or_path base p rec\<close>: the base with the record appended, or the fallback without one.\<close>

definition with_record :: "string \<Rightarrow> string \<Rightarrow> string option \<Rightarrow> string" where
  "with_record p fallback r = (case r of Some x \<Rightarrow> p @ x | None \<Rightarrow> fallback)"

definition admin_href :: "string \<Rightarrow> string option \<Rightarrow> string" where
  "admin_href t r =
     (if t \<in> {''community.request_submitted'', ''community.request_resubmitted'', ''community.request_disputed''}
      then ''/admin/community-requests''
      else if t = ''admin.dispute_filed'' then ''/admin/issues''
      else if t = ''admin.validation_job_dead'' then with_record ''/admin/submissions?id='' ''/admin/submissions'' r
      else if t = ''admin.new_signup'' then with_record ''/admin/contributors?id='' ''/admin/contributors'' r
      else if t \<in> {''agent_issue.created'', ''admin.agent_issue_filed'', ''admin.agent_issue_aging''}
        then with_record ''/admin/issues/view?id='' ''/admin/issues'' (map_option encodeURIComponent r)
      else if t \<in> {''admin.system_alert'', ''admin.system_recovered''} then ''/admin/health''
      else if t = ''admin.harness_proof_completed''
        then with_record ''/admin/datasets/view?id='' ''/admin/datasets'' (map_option encodeURIComponent r)
      else ''/admin'')"

definition sponsor_link :: "string option \<Rightarrow> string" where
  "sponsor_link link = with_record ''/sponsor/'' ''/sponsor'' (map_option encodeURIComponent (truthy link))"

text \<open>The fallback by entity type alone.\<close>

definition entity_href :: "string option \<Rightarrow> string option \<Rightarrow> string \<Rightarrow> string" where
  "entity_href en r bountyWork =
     (if en = Some ''submission'' \<and> r \<noteq> None then ''/contributor/submissions/'' @ the r
      else if en = Some ''batch'' then bountyWork
      else if en = Some ''bounty'' \<and> r \<noteq> None then ''/sponsor/'' @ the r
      else if en = Some ''audit'' \<and> r \<noteq> None then ''/validator/audit/'' @ the r
      else if en = Some ''dataset_request'' then with_record ''/sponsor/requests/'' ''/community'' (map_option encodeURIComponent r)
      else if en \<in> {Some ''profile'', Some ''rank''} then ''/profile''
      else if en = Some ''agent_issue'' then with_record ''/issues/'' ''/issues'' r
      else ''/notifications'')"

definition contributor_href :: "string option \<Rightarrow> string option \<Rightarrow> string \<Rightarrow> string" where
  "contributor_href en r bountyWork =
     (if en = Some ''submission'' \<and> r \<noteq> None then ''/contributor/submissions/'' @ the r
      else if en \<in> {Some ''karma_event'', Some ''badge'', Some ''rank''} then ''/karma''
      else bountyWork)"

definition validator_href :: "string option \<Rightarrow> string option \<Rightarrow> string" where
  "validator_href en r =
     (if en = Some ''audit'' \<and> r \<noteq> None then ''/validator/audit/'' @ the r
      else if en = Some ''submission'' \<and> r \<noteq> None then ''/validator?submission='' @ the r
      else ''/validator'')"

definition sponsor_href :: "string option \<Rightarrow> string option \<Rightarrow> string option \<Rightarrow> string" where
  "sponsor_href en r link =
     (if en = Some ''dataset_request'' then with_record ''/sponsor/requests/'' ''/community'' (map_option encodeURIComponent r)
      else if en = Some ''dataset_type'' then ''/community''
      else if en = Some ''bounty'' \<and> r \<noteq> None then ''/sponsor/'' @ the r
      else sponsor_link link)"

definition account_href :: "string option \<Rightarrow> string option \<Rightarrow> string" where
  "account_href en r =
     (if en \<in> {Some ''profile'', Some ''rank''} then ''/profile''
      else if en = Some ''agent_issue'' then with_record ''/issues/'' ''/issues'' r
      else ''/notifications'')"

definition notificationHref :: "string \<Rightarrow> string option \<Rightarrow> string option \<Rightarrow> string option \<Rightarrow> string" where
  "notificationHref t et eid link =
     (let en = normalizeEntityType et; r = map_option encodeURIComponent (truthy eid)
      in if isAdminNotificationType t then admin_href t r
         else if t = ''community.bounty_published'' then ''/community''
         else if t = ''community.publish_bonus_awarded'' then ''/karma''
         else (let bountyId = (if en = Some ''bounty'' then eid else link);
                   bountyWork = with_record ''/contributor?bounty='' ''/contributor'' (map_option encodeURIComponent (truthy bountyId))
               in case map_option ev_category (eventDefinition t) of
                    Some C_contributor \<Rightarrow> contributor_href en r bountyWork
                  | Some C_validator \<Rightarrow> validator_href en r
                  | Some C_sponsor \<Rightarrow> sponsor_href en r link
                  | Some C_account \<Rightarrow> account_href en r
                  | _ \<Rightarrow> entity_href en r bountyWork))"

definition strip_slashes :: "string \<Rightarrow> string" where
  "strip_slashes s = rev (dropWhile (\<lambda>c. c = CHR ''/'') (rev s))"

record origins =
  or_admin :: string
  or_app :: string

definition is_admin_path :: "string \<Rightarrow> bool" where
  "is_admin_path p \<longleftrightarrow> p = ''/admin'' \<or> starts_with ''/admin/'' p"

text \<open>The console serves its pages without the prefix.\<close>

definition without_admin :: "string \<Rightarrow> string" where
  "without_admin p = (if drop 6 p = [] then ''/'' else drop 6 p)"

definition absoluteNotificationUrl ::
  "origins \<Rightarrow> string \<Rightarrow> string option \<Rightarrow> string option \<Rightarrow> string option \<Rightarrow> string" where
  "absoluteNotificationUrl og t et eid link =
     (let href = notificationHref t et eid link
      in if is_admin_path href then strip_slashes (or_admin og) @ without_admin href
         else strip_slashes (or_app og) @ href)"

section \<open>The digest of a day\<close>

definition DIGEST_ITEMS_PER_SECTION :: nat where "DIGEST_ITEMS_PER_SECTION = 6"
definition DIGEST_MAX_ITEMS :: nat where "DIGEST_MAX_ITEMS = 24"

datatype section_key = Sec_admin | Sec_account | Sec_sponsor | Sec_validator | Sec_contributor | Sec_other

record digest_source =
  dr_type :: string
  dr_title :: string
  dr_body :: string
  dr_entity_type :: "string option"
  dr_entity :: "ident option"
  dr_bounty :: "ident option"
  dr_at :: time

record digest_item =
  di_title :: string
  di_body :: string
  di_href :: string
  di_at :: time

record digest_section =
  sc_key :: section_key
  sc_count :: nat
  sc_items :: "digest_item list"
  sc_href :: string

record digest_payload =
  dg_total :: nat
  dg_day :: string
  dg_zone :: string
  dg_sections :: "digest_section list"
  dg_primary_label :: string
  dg_primary_href :: string

definition SECTION_ORDER :: "section_key list" where
  "SECTION_ORDER = [Sec_admin, Sec_account, Sec_sponsor, Sec_validator, Sec_contributor, Sec_other]"

fun SECTION_LABELS :: "section_key \<Rightarrow> string" where
  "SECTION_LABELS Sec_admin = ''Admin console''"
| "SECTION_LABELS Sec_account = ''Your account''"
| "SECTION_LABELS Sec_sponsor = ''Your datasets''"
| "SECTION_LABELS Sec_validator = ''Validation queue''"
| "SECTION_LABELS Sec_contributor = ''Your work''"
| "SECTION_LABELS Sec_other = ''Other updates''"

fun SECTION_PATHS :: "section_key \<Rightarrow> string" where
  "SECTION_PATHS Sec_admin = ''/admin''"
| "SECTION_PATHS Sec_account = ''/notifications''"
| "SECTION_PATHS Sec_sponsor = ''/sponsor''"
| "SECTION_PATHS Sec_validator = ''/validator''"
| "SECTION_PATHS Sec_contributor = ''/contributor''"
| "SECTION_PATHS Sec_other = ''/notifications''"

definition sectionFor :: "string \<Rightarrow> section_key" where
  "sectionFor t =
     (if isAdminNotificationType t then Sec_admin
      else case map_option ev_category (eventDefinition t) of
             Some C_sponsor \<Rightarrow> Sec_sponsor
           | Some C_contributor \<Rightarrow> Sec_contributor
           | Some C_validator \<Rightarrow> Sec_validator
           | Some C_account \<Rightarrow> Sec_account
           | Some C_admin \<Rightarrow> Sec_admin
           | None \<Rightarrow> Sec_other)"

definition section_origin :: "origins \<Rightarrow> section_key \<Rightarrow> string" where
  "section_origin og k = strip_slashes (if k = Sec_admin then or_admin og else or_app og)"

definition section_url :: "origins \<Rightarrow> section_key \<Rightarrow> string \<Rightarrow> string" where
  "section_url og k p =
     section_origin og k @ (if k = Sec_admin \<and> is_admin_path p then without_admin p else p)"

definition digest_item_of :: "origins \<Rightarrow> section_key \<Rightarrow> digest_source \<Rightarrow> digest_item" where
  "digest_item_of og k r =
     \<lparr>di_title = dr_title r, di_body = dr_body r,
      di_href = section_url og k (notificationHref (dr_type r) (dr_entity_type r) (dr_entity r) (dr_bounty r)),
      di_at = dr_at r\<rparr>"

definition digest_bucket :: "section_key \<Rightarrow> digest_source list \<Rightarrow> digest_source list" where
  "digest_bucket k rows = filter (\<lambda>r. sectionFor (dr_type r) = k) rows"

fun build_sections :: "origins \<Rightarrow> digest_source list \<Rightarrow> nat \<Rightarrow> section_key list \<Rightarrow> digest_section list" where
  "build_sections og rows budget [] = []"
| "build_sections og rows budget (k # ks) =
     (let bucket = digest_bucket k rows
      in if bucket = [] then build_sections og rows budget ks
         else (let ordered = sort_key (\<lambda>r. - dr_at r) bucket;
                   n = min DIGEST_ITEMS_PER_SECTION (min budget (length ordered))
               in \<lparr>sc_key = k, sc_count = length bucket, sc_items = map (digest_item_of og k) (take n ordered),
                    sc_href = section_url og k (SECTION_PATHS k)\<rparr>
                  # build_sections og rows (budget - n) ks))"

definition buildDigestPayload :: "origins \<Rightarrow> digest_source list \<Rightarrow> string \<Rightarrow> string \<Rightarrow> digest_payload" where
  "buildDigestPayload og rows day zone =
     (let secs = build_sections og rows DIGEST_MAX_ITEMS SECTION_ORDER;
          adminOnly = (secs \<noteq> [] \<and> list_all (\<lambda>s. sc_key s = Sec_admin) secs)
      in \<lparr>dg_total = length rows, dg_day = day, dg_zone = zone, dg_sections = secs,
          dg_primary_label = (if adminOnly then ''Open admin console'' else ''Open DataBounty''),
          dg_primary_href = (if adminOnly then section_url og Sec_admin ''/admin''
                             else section_url og Sec_account ''/notifications'')\<rparr>)"

definition digestTitle :: "digest_payload \<Rightarrow> string" where
  "digestTitle p =
     (if dg_total p = 1 then ''1 update from DataBounty'' else show_nat (dg_total p) @ '' updates from DataBounty'')"

definition BULLET :: string where
  "BULLET = [CHR 0xE2, CHR 0x80, CHR 0xA2, CHR '' '']"

definition NL :: char where "NL = CHR 0x0A"

fun join_with :: "string \<Rightarrow> string list \<Rightarrow> string" where
  "join_with sep [] = []"
| "join_with sep [s] = s"
| "join_with sep (s # ss) = s @ sep @ join_with sep ss"

definition hidden_lines :: "digest_section \<Rightarrow> nat" where
  "hidden_lines s = sc_count s - length (sc_items s)"

definition section_text :: "digest_section \<Rightarrow> string" where
  "section_text s =
     join_with [NL]
       ((SECTION_LABELS (sc_key s) @ '' ('' @ show_nat (sc_count s) @ '')'')
        # map (\<lambda>i. BULLET @ di_title i) (sc_items s)
        @ (if 0 < hidden_lines s then [BULLET @ ''+'' @ show_nat (hidden_lines s) @ '' more''] else []))"

definition digestText :: "digest_payload \<Rightarrow> string" where
  "digestText p = join_with [NL, NL] (map section_text (dg_sections p))"

section \<open>The digest as HTML\<close>

fun html_char :: "char \<Rightarrow> string" where
  "html_char c =
     (if c = CHR ''&'' then ''&amp;'' else if c = CHR ''<'' then ''&lt;''
      else if c = CHR ''>'' then ''&gt;'' else if c = CHR 0x22 then ''&quot;'' else [c])"

text \<open>The four replacements one after the other are one pass: only the first one writes or reads
  an ampersand, and none of the others finds its character in what the earlier ones wrote.\<close>

definition html_escape :: "string \<Rightarrow> string" where
  "html_escape s = concat (map html_char s)"

definition Q :: string where "Q = [CHR 0x22]"

definition item_html :: "digest_item \<Rightarrow> string" where
  "item_html i =
     ''<li style='' @ Q @ ''margin:0 0 8px 0'' @ Q @ ''><a href='' @ Q @ html_escape (di_href i) @ Q
     @ '' style='' @ Q @ ''color:#1a5cff;text-decoration:none'' @ Q @ ''>'' @ html_escape (di_title i) @ ''</a>''
     @ (if di_body i \<noteq> [] then ''<br><span style='' @ Q @ ''color:#555;font-size:13px'' @ Q @ ''>''
          @ html_escape (di_body i) @ ''</span>'' else [])
     @ ''</li>''"

definition section_html :: "digest_section \<Rightarrow> string" where
  "section_html s =
     ''<h3 style='' @ Q @ ''margin:20px 0 8px 0;font-size:15px'' @ Q @ ''>''
     @ ''<a href='' @ Q @ html_escape (sc_href s) @ Q @ '' style='' @ Q @ ''color:#111;text-decoration:none'' @ Q @ ''>''
     @ html_escape (SECTION_LABELS (sc_key s)) @ ''</a> ''
     @ ''<span style='' @ Q @ ''color:#777;font-weight:normal'' @ Q @ ''>('' @ show_nat (sc_count s) @ '')</span></h3>''
     @ ''<ul style='' @ Q @ ''margin:0;padding-left:18px'' @ Q @ ''>'' @ concat (map item_html (sc_items s))
     @ (if 0 < hidden_lines s then ''<li style='' @ Q @ ''color:#777'' @ Q @ ''>+'' @ show_nat (hidden_lines s) @ '' more</li>'' else [])
     @ ''</ul>''"

definition footer_html :: "string option \<Rightarrow> string" where
  "footer_html url =
     (case truthy url of
        None \<Rightarrow> []
      | Some u \<Rightarrow>
          ''<p style='' @ Q @ ''margin:18px 0 0;color:#8a8f83;font-size:11px;line-height:1.45'' @ Q
          @ ''>You received this because routine notification digests are enabled for your DataBounty account. <a href=''
          @ Q @ html_escape u @ Q @ '' style='' @ Q @ ''color:#5c6354;text-decoration:underline'' @ Q
          @ ''>Unsubscribe from digest emails</a>. Security, verification and deadline messages are not affected.</p>'')"

definition digestHtml :: "digest_payload \<Rightarrow> string option \<Rightarrow> string" where
  "digestHtml p url =
     ''<p style='' @ Q @ ''margin:0 0 4px 0;font-size:14px;color:#555'' @ Q @ ''>'' @ html_escape (dg_day p)
     @ [CHR '' '', CHR 0xC2, CHR 0xB7, CHR '' ''] @ html_escape (dg_zone p) @ ''</p>''
     @ concat (map section_html (dg_sections p))
     @ ''<p style='' @ Q @ ''margin:24px 0 0 0'' @ Q @ ''><a href='' @ Q @ html_escape (dg_primary_href p) @ Q
     @ '' style='' @ Q @ ''color:#1a5cff'' @ Q @ ''>'' @ html_escape (dg_primary_label p) @ ''</a></p>''
     @ footer_html url"

section \<open>Flushing\<close>

definition DIGEST_MAX_WINDOW_MS :: time where "DIGEST_MAX_WINDOW_MS = 604800000"

fun schedule_minutes :: "string \<Rightarrow> int" where
  "schedule_minutes [a, b, c, x, y] =
     (let v = \<lambda>d. (of_char d :: int) - 48 in (10 * v a + v b) * 60 + 10 * v x + v y)"
| "schedule_minutes _ = 0"

record digest_run =
  dn_env :: env
  dn_settings :: delivery_settings
  dn_local :: "string \<Rightarrow> time \<Rightarrow> string \<times> int \<times> int" \<comment> \<open>date, hour and minute in a zone\<close>
  dn_utc :: "time \<Rightarrow> string"
  dn_origins :: origins
  dn_text :: "ident \<Rightarrow> string \<times> string" \<comment> \<open>the title and body columns\<close>

definition run_due :: "digest_run \<Rightarrow> bool" where
  "run_due x =
     (case dn_local x (ds_zone (dn_settings x)) (e_now (dn_env x)) of
        (day, h, m) \<Rightarrow> schedule_minutes (ds_time (dn_settings x)) \<le> h * 60 + m)"

definition run_day :: "digest_run \<Rightarrow> string" where
  "run_day x = fst (dn_local x (ds_zone (dn_settings x)) (e_now (dn_env x)))"

definition digest_key :: "digest_run \<Rightarrow> ident \<Rightarrow> string" where
  "digest_key x u = ''digest:'' @ u @ '':'' @ dn_utc x (e_now (dn_env x))"

definition source_of :: "digest_run \<Rightarrow> notification_row \<Rightarrow> digest_source" where
  "source_of x n =
     \<lparr>dr_type = n_type n, dr_title = fst (dn_text x (n_id n)), dr_body = snd (dn_text x (n_id n)),
      dr_entity_type = n_entity_type n, dr_entity = n_entity n, dr_bounty = n_bounty n, dr_at = n_at n\<rparr>"

definition digest_rows :: "ident \<Rightarrow> db \<Rightarrow> notification_row list" where
  "digest_rows u d = sort_key n_at (filter (\<lambda>n. n_user n = u \<and> n_status n = N_digesting) (notifs d))"

definition in_window :: "digest_run \<Rightarrow> notification_row \<Rightarrow> bool" where
  "in_window x n \<longleftrightarrow> e_now (dn_env x) - DIGEST_MAX_WINDOW_MS \<le> n_at n"

definition buffered :: "notification_row list \<Rightarrow> notification_row \<Rightarrow> bool" where
  "buffered ns n \<longleftrightarrow> n_id n \<in> n_id ` set ns \<and> n_status n = N_digesting"

text \<open>The writes of the transaction, for the rows \<open>ns\<close> it has read.\<close>

definition flush_write :: "digest_run \<Rightarrow> ident \<Rightarrow> notification_row list \<Rightarrow> db \<Rightarrow> db \<times> digest_payload option" where
  "flush_write x u ns d =
     (let rows = filter (in_window x) ns
      in if \<not> list_ex (buffered ns) (notifs d) then (d, None)
         else (let d1 = d\<lparr>notifs := update_where (buffered ns) (\<lambda>n. n\<lparr>n_status := N_done\<rparr>) (notifs d)\<rparr>
               in if rows = [] then (d1, None)
                  else (notify (dn_env x)
                          \<lparr>ni_user = u, ni_type = ''digest.summary'', ni_key = digest_key x u,
                           ni_entity_type = Some ''digest'', ni_entity = None, ni_bounty = None,
                           ni_status = Some N_pending\<rparr> d1,
                        Some (buildDigestPayload (dn_origins x) (map (source_of x) rows) (run_day x)
                                (ds_zone (dn_settings x))))))"

definition flushOne :: "digest_run \<Rightarrow> ident \<Rightarrow> db \<Rightarrow> db \<times> digest_payload option" where
  "flushOne x u d =
     (if find_notification u (digest_key x u) d \<noteq> None then (d, None)
      else if digest_rows u d = [] then (d, None)
      else flush_write x u (digest_rows u d) d)"

text \<open>The users with buffered rows, in the order of their ids.\<close>

definition digest_users :: "nat \<Rightarrow> db \<Rightarrow> ident list" where
  "digest_users maxUsers d =
     take maxUsers (sort (remdups (map n_user (filter (\<lambda>n. n_status n = N_digesting) (notifs d)))))"

fun flush_all :: "digest_run \<Rightarrow> ident list \<Rightarrow> db \<Rightarrow> db \<times> nat" where
  "flush_all x [] d = (d, 0)"
| "flush_all x (u # us) d =
     (let (d1, p) = flushOne x u d; (d2, k) = flush_all x us d1
      in (d2, if p = None then k else Suc k))"

definition flushDigests :: "digest_run \<Rightarrow> nat \<Rightarrow> db \<Rightarrow> db \<times> nat" where
  "flushDigests x maxUsers d =
     (if \<not> run_due x then (d, 0) else flush_all x (digest_users maxUsers d) d)"

section \<open>Links\<close>

lemma starts_with_same [simp]: "starts_with (c # p) (c # s) = starts_with p s"
  and starts_with_diff [simp]: "c \<noteq> e \<Longrightarrow> \<not> starts_with (c # p) (e # s)"
  and starts_with_Nil [simp]: "starts_with [] s"
  and starts_with_short [simp]: "\<not> starts_with (c # p) []"
  by (simp_all add: starts_with_def)

lemma not_admin_helpers:
  "\<not> is_admin_path (entity_href en r (''/contributor'' @ w))"
  "\<not> is_admin_path (contributor_href en r (''/contributor'' @ w))"
  "\<not> is_admin_path (validator_href en r)" "\<not> is_admin_path (sponsor_href en r link)"
  "\<not> is_admin_path (account_href en r)"
  by (simp_all add: is_admin_path_def entity_href_def contributor_href_def validator_href_def sponsor_href_def
      account_href_def sponsor_link_def with_record_def split: option.split)

lemma admin_helper: "is_admin_path (admin_href t r)"
  by (simp add: is_admin_path_def admin_href_def with_record_def split: option.split)

lemma href_is_admin: "is_admin_path (notificationHref t et eid link) = isAdminNotificationType t"
proof (cases "isAdminNotificationType t")
  case True
  then show ?thesis by (simp add: notificationHref_def admin_helper)
next
  case False
  let ?w = "with_record ''/contributor?bounty='' ''/contributor'' (map_option encodeURIComponent
      (truthy (if normalizeEntityType et = Some ''bounty'' then eid else link)))"
  obtain w where w: "?w = ''/contributor'' @ w" by (cases "truthy (if normalizeEntityType et = Some ''bounty'' then eid else link)")
      (simp_all add: with_record_def)
  have fixed: "\<not> is_admin_path ''/community''" "\<not> is_admin_path ''/karma''" by (simp_all add: is_admin_path_def)
  show ?thesis
    using False fixed unfolding notificationHref_def Let_def w
    by (auto simp: not_admin_helpers [simplified] split: option.split event_category.split)
qed

text \<open>the link of a notification leads to the admin console, without the path prefix the console
  does not serve, exactly when its type is recognised as an admin type, and to the member app under
  its full path otherwise. Of the catalog's events for admins three are not recognised: what is sent
  to an administrator about them links to the sponsor's page of the request in the member app.\<close>

lemma link_follows_admin_type:
  "absoluteNotificationUrl og t et eid link
     = (if isAdminNotificationType t
        then strip_slashes (or_admin og) @ without_admin (notificationHref t et eid link)
        else strip_slashes (or_app og) @ notificationHref t et eid link)
   \<and> map ev_name (filter (\<lambda>v. ev_category v = C_admin \<and> \<not> isAdminNotificationType (ev_name v)) EVENTS)
     = [''community.request_resubmitted'', ''community.request_disputed'', ''community.request_possible_duplicate'']
   \<and> notificationHref ''community.request_disputed'' (Some ''dataset_request'') (Some ''r1'') None = ''/sponsor/requests/r1''"
proof -
  have "map ev_name (filter (\<lambda>v. ev_category v = C_admin \<and> \<not> isAdminNotificationType (ev_name v)) EVENTS)
     = [''community.request_resubmitted'', ''community.request_disputed'', ''community.request_possible_duplicate'']"
    by code_simp
  moreover have "notificationHref ''community.request_disputed'' (Some ''dataset_request'') (Some ''r1'') None = ''/sponsor/requests/r1''"
    by code_simp
  ultimately show ?thesis unfolding absoluteNotificationUrl_def Let_def href_is_admin by simp
qed

section \<open>Counts of the digest\<close>

lemma filter_length_split:
  "length (filter (\<lambda>r. P r \<or> R r) xs) = length (filter P xs) + length (filter (\<lambda>r. R r \<and> \<not> P r) xs)"
  by (induction xs) auto

lemma section_counts:
  "distinct ks \<Longrightarrow>
   sum_list (map sc_count (build_sections og rows budget ks)) = length (filter (\<lambda>r. sectionFor (dr_type r) \<in> set ks) rows)"
proof (induction ks arbitrary: budget)
  case Nil
  then show ?case by simp
next
  case (Cons k ks)
  have "length (filter (\<lambda>r. sectionFor (dr_type r) \<in> set (k # ks)) rows)
      = length (digest_bucket k rows) + length (filter (\<lambda>r. sectionFor (dr_type r) \<in> set ks \<and> sectionFor (dr_type r) \<noteq> k) rows)"
    unfolding digest_bucket_def using filter_length_split [of "\<lambda>r. sectionFor (dr_type r) = k" "\<lambda>r. sectionFor (dr_type r) \<in> set ks" rows]
    by simp
  moreover have "filter (\<lambda>r. sectionFor (dr_type r) \<in> set ks \<and> sectionFor (dr_type r) \<noteq> k) rows
      = filter (\<lambda>r. sectionFor (dr_type r) \<in> set ks) rows"
    using Cons.prems by (intro filter_cong) auto
  ultimately show ?case using Cons by (simp add: Let_def)
qed

lemma section_lines:
  "sum_list (map (\<lambda>s. length (sc_items s)) (build_sections og rows budget ks)) \<le> budget
   \<and> (sum_list (map (\<lambda>s. length (sc_items s)) (build_sections og rows budget ks)) = budget
      \<or> (\<forall>s \<in> set (build_sections og rows budget ks). length (sc_items s) = min 6 (sc_count s)))"
proof (induction ks arbitrary: budget)
  case Nil
  then show ?case by simp
next
  case (Cons k ks)
  show ?case
  proof (cases "digest_bucket k rows = []")
    case True
    then show ?thesis using Cons [of budget] by (simp add: Let_def)
  next
    case False
    let ?l = "length (digest_bucket k rows)"
    let ?n = "min DIGEST_ITEMS_PER_SECTION (min budget ?l)"
    let ?rest = "build_sections og rows (budget - ?n) ks"
    let ?sum = "sum_list (map (\<lambda>s. length (sc_items s)) ?rest)"
    obtain s where sec: "build_sections og rows budget (k # ks) = s # ?rest" and s: "length (sc_items s) = ?n" "sc_count s = ?l"
      using False by (simp add: Let_def)
    have ih: "?sum \<le> budget - ?n" "?sum = budget - ?n \<or> (\<forall>x \<in> set ?rest. length (sc_items x) = min 6 (sc_count x))"
      using Cons [of "budget - ?n"] by blast+
    have le: "?n \<le> budget" by simp
    have "?n + ?sum = budget \<or> ?n = min 6 ?l"
      using ih(1) le by (cases "budget \<le> min 6 ?l") (auto simp: DIGEST_ITEMS_PER_SECTION_def min_def split: if_splits)
    moreover have "?n + ?sum = budget \<or> (\<forall>x \<in> set ?rest. length (sc_items x) = min 6 (sc_count x))"
      using ih le by auto
    moreover have "?n + ?sum \<le> budget" using ih(1) le by linarith
    ultimately show ?thesis unfolding sec by (simp add: s) blast
  qed
qed

lemma section_keys: "map sc_key (build_sections og rows budget ks) = filter (\<lambda>k. digest_bucket k rows \<noteq> []) ks"
  by (induction ks arbitrary: budget) (simp_all add: Let_def)

lemma section_order_all: "set SECTION_ORDER = UNIV" "distinct SECTION_ORDER"
proof -
  have "k \<in> set SECTION_ORDER" for k by (cases k) (simp_all add: SECTION_ORDER_def)
  then show "set SECTION_ORDER = UNIV" by auto
qed (simp add: SECTION_ORDER_def)

text \<open>A digest's headline is the sum of its section counts and counts every row given to it; the
  sections come in the fixed order, one per audience that has rows; there are at most 24 lines, and
  unless the 24 are used up every section lists six rows or all it has.\<close>

lemma digest_counts_add_up:
  "dg_total (buildDigestPayload og rows day zone) = length rows
   \<and> sum_list (map sc_count (dg_sections (buildDigestPayload og rows day zone))) = length rows
   \<and> map sc_key (dg_sections (buildDigestPayload og rows day zone)) = filter (\<lambda>k. digest_bucket k rows \<noteq> []) SECTION_ORDER
   \<and> sum_list (map (\<lambda>s. length (sc_items s)) (dg_sections (buildDigestPayload og rows day zone))) \<le> 24
   \<and> (sum_list (map (\<lambda>s. length (sc_items s)) (dg_sections (buildDigestPayload og rows day zone))) = 24
      \<or> list_all (\<lambda>s. length (sc_items s) = min 6 (sc_count s)) (dg_sections (buildDigestPayload og rows day zone)))"
proof -
  let ?s = "build_sections og rows DIGEST_MAX_ITEMS SECTION_ORDER"
  have "dg_sections (buildDigestPayload og rows day zone) = ?s" "dg_total (buildDigestPayload og rows day zone) = length rows"
    by (simp_all add: buildDigestPayload_def Let_def)
  moreover have "sum_list (map sc_count ?s) = length rows"
    using section_counts [OF section_order_all(2)] by (simp add: section_order_all(1))
  moreover note section_keys [of og rows DIGEST_MAX_ITEMS SECTION_ORDER] section_lines [of og rows DIGEST_MAX_ITEMS SECTION_ORDER]
  ultimately show ?thesis by (simp add: DIGEST_MAX_ITEMS_def list_all_iff)
qed

section \<open>Markup of the HTML\<close>

definition is_markup :: "char \<Rightarrow> bool" where
  "is_markup c \<longleftrightarrow> c = CHR ''<'' \<or> c = CHR ''>'' \<or> c = CHR 0x22"

abbreviation markup :: "string \<Rightarrow> string" where
  "markup s \<equiv> filter is_markup s"

lemma markup_escape [simp]: "markup (html_escape s) = []"
proof -
  have "markup (html_char c) = []" for c by (simp add: is_markup_def)
  then show ?thesis by (simp add: html_escape_def filter_concat)
qed

lemma markup_show_nat [simp]: "markup (show_nat n) = []"
proof -
  have differs: "char_of (48 + m) \<noteq> c" if "m < 10" "of_char c < (48 :: nat) \<or> (57 :: nat) < of_char c" for m :: nat and c :: char
  proof
    assume "char_of (48 + m) = c"
    from arg_cong [OF this, of "of_char :: char \<Rightarrow> nat"] that show False by auto
  qed
  have digit: "\<not> is_markup (char_of (48 + m) :: char)" if "m < 10" for m :: nat
    using differs [OF that, of "CHR ''<''"] differs [OF that, of "CHR ''>''"] differs [OF that, of "CHR 0x22"]
    by (simp add: is_markup_def)
  show ?thesis
  proof (induction n rule: show_nat.induct)
    case (1 n)
    show ?case
    proof (cases "n < 10")
      case True
      then show ?thesis using digit by (simp add: show_nat_digit)
    next
      case False
      then show ?thesis using 1 digit [of "n mod 10"] by (simp add: show_nat_more)
    qed
  qed
qed

text \<open>What the markup of a section depends on.\<close>

definition section_shape :: "digest_section \<Rightarrow> section_key \<times> bool list \<times> bool" where
  "section_shape s = (sc_key s, map (\<lambda>i. di_body i \<noteq> []) (sc_items s), 0 < hidden_lines s)"

definition item_markup :: "bool \<Rightarrow> string" where
  "item_markup body = markup (item_html \<lparr>di_title = [], di_body = (if body then ''b'' else []), di_href = [], di_at = 0\<rparr>)"

lemma markup_item: "markup (item_html i) = item_markup (di_body i \<noteq> [])"
  by (cases "di_body i = []") (simp_all only: item_html_def item_markup_def filter_append markup_escape digest_item.simps
      if_True if_False not_True_eq_False not_False_eq_True refl list.distinct simp_thms filter.simps(1))

lemma markup_items: "markup (concat (map item_html is)) = concat (map item_markup (map (\<lambda>i. di_body i \<noteq> []) is))"
  by (induction "is") (simp_all add: markup_item)

lemma markup_section: "section_shape s = section_shape s' \<Longrightarrow> markup (section_html s) = markup (section_html s')"
proof -
  assume "section_shape s = section_shape s'"
  then have "map (\<lambda>i. di_body i \<noteq> []) (sc_items s) = map (\<lambda>i. di_body i \<noteq> []) (sc_items s')"
    and h: "(0 < hidden_lines s) = (0 < hidden_lines s')"
    by (simp_all add: section_shape_def)
  then have "markup (concat (map item_html (sc_items s))) = markup (concat (map item_html (sc_items s')))"
    by (simp add: markup_items)
  then show ?thesis
    by (cases "0 < hidden_lines s'")
      (simp_all only: section_html_def filter_append markup_escape markup_show_nat h if_True if_False filter.simps(1))
qed

lemma markup_sections:
  "map section_shape ss = map section_shape ss' \<Longrightarrow> markup (concat (map section_html ss)) = markup (concat (map section_html ss'))"
proof (induction ss arbitrary: ss')
  case Nil
  then show ?case by simp
next
  case (Cons s ss)
  then obtain t ts where t: "ss' = t # ts" "section_shape s = section_shape t" "map section_shape ss = map section_shape ts"
    by (cases ss') auto
  then show ?case using markup_section [OF t(2)] Cons.IH [OF t(3)] by simp
qed

text \<open>nothing a notification says can change the structure of the digest mail: the sequence of angle
  brackets and quotes of the HTML is the same for any two digests with the same sections, the same
  number of lines in each, bodies in the same places and a footer in both or in none, whatever the
  titles, bodies, links, dates and counts.\<close>

lemma digest_html_is_escaped:
  assumes "map section_shape (dg_sections p) = map section_shape (dg_sections p')"
    and "(truthy url = None) = (truthy url' = None)"
  shows "filter is_markup (digestHtml p url) = filter is_markup (digestHtml p' url')"
proof -
  have "markup (footer_html url) = markup (footer_html url')"
    using assms(2) by (cases "truthy url"; cases "truthy url'")
      (simp_all only: footer_html_def option.case filter_append markup_escape option.distinct simp_thms)
  then show ?thesis
    using markup_sections [OF assms(1)] by (simp only: digestHtml_def filter_append markup_escape)
qed

definition demo_source :: "string \<Rightarrow> digest_source" where
  "demo_source t = \<lparr>dr_type = ''karma.awarded'', dr_title = t, dr_body = t, dr_entity_type = Some ''karma_event'',
     dr_entity = None, dr_bounty = None, dr_at = 0\<rparr>"

definition demo_digest :: "string \<Rightarrow> digest_payload" where
  "demo_digest t = buildDigestPayload \<lparr>or_admin = ''https://a'', or_app = ''https://b''\<rparr> [demo_source t] ''2026-01-01'' ''UTC''"

lemma digest_html_is_escaped_witness:
  "filter is_markup (digestHtml (demo_digest ''<script>'') None) = filter is_markup (digestHtml (demo_digest ''ok'') None)"
proof (rule digest_html_is_escaped)
  have "sectionFor ''karma.awarded'' = Sec_contributor" by code_simp
  then show "map section_shape (dg_sections (demo_digest ''<script>'')) = map section_shape (dg_sections (demo_digest ''ok''))"
    by (simp add: demo_digest_def buildDigestPayload_def Let_def SECTION_ORDER_def digest_bucket_def demo_source_def
        section_shape_def digest_item_of_def hidden_lines_def DIGEST_ITEMS_PER_SECTION_def DIGEST_MAX_ITEMS_def)
qed simp

section \<open>One summary a day\<close>

lemma notify_new:
  assumes "find_notification (ni_user i) (ni_key i) d = None"
  shows "notifs (notify e i d) = notifs d @ [new_notification e i d]"
  using assms by (simp add: notify_def Let_def)

lemma notify_known_key:
  assumes "find_notification (ni_user i) (ni_key i) d \<noteq> None"
  shows "notifs (notify e i d) = notifs d"
  using assms by (auto simp: notify_def)

lemma find_notification_update:
  assumes "\<And>n. n_user (f n) = n_user n" and "\<And>n. n_key (f n) = n_key n"
  shows "find_notification u k (d\<lparr>notifs := update_where P f (notifs d)\<rparr>) = None
    \<longleftrightarrow> find_notification u k d = None"
proof -
  have none: "find_notification u k y = None \<longleftrightarrow> (u, k) \<notin> set (map (\<lambda>n. (n_user n, n_key n)) (notifs y))" for y :: db
    unfolding find_notification_def find_where_None_iff by force
  show ?thesis unfolding none using assms by (simp add: map_update_where)
qed

lemma buffered_rows:
  assumes "distinct (map n_id (notifs d))" and "n \<in> set (notifs d)"
  shows "buffered (digest_rows u d) n \<longleftrightarrow> n_user n = u \<and> n_status n = N_digesting"
proof
  assume b: "buffered (digest_rows u d) n"
  then obtain m where m: "m \<in> set (notifs d)" "n_user m = u" "n_id m = n_id n" "n_status n = N_digesting"
    by (auto simp: buffered_def digest_rows_def)
  then have "m = n" using assms by (metis distinct_map inj_on_def)
  then show "n_user n = u \<and> n_status n = N_digesting" using m by simp
next
  assume "n_user n = u \<and> n_status n = N_digesting"
  then show "buffered (digest_rows u d) n" using assms(2) by (auto simp: buffered_def digest_rows_def)
qed

abbreviation retire :: "notification_row \<Rightarrow> notification_row" where
  "retire n \<equiv> n\<lparr>n_status := N_done\<rparr>"

lemma flushOne_write:
  assumes "find_notification u (digest_key x u) d = None" and "digest_rows u d \<noteq> []"
    and "distinct (map n_id (notifs d))" and "flushOne x u d = (d', p)"
  defines "rows \<equiv> filter (in_window x) (digest_rows u d)"
    and "kept \<equiv> update_where (\<lambda>n. n_user n = u \<and> n_status n = N_digesting) retire (notifs d)"
  shows "p = (if rows = [] then None
              else Some (buildDigestPayload (dn_origins x) (map (source_of x) rows) (run_day x) (ds_zone (dn_settings x))))"
    and "\<exists>s. notifs d' = kept @ (if rows = [] then [] else [s]) \<and> n_user s = u \<and> n_key s = digest_key x u
           \<and> n_status s = N_pending"
proof -
  have upd: "update_where (buffered (digest_rows u d)) retire (notifs d) = kept"
    unfolding kept_def update_where_def using buffered_rows [OF assms(3)] by (intro map_cong) auto
  obtain n where "n \<in> set (digest_rows u d)" using assms(2) by (cases "digest_rows u d") auto
  then have "list_ex (buffered (digest_rows u d)) (notifs d)"
    unfolding list_ex_iff by (auto simp: digest_rows_def buffered_def)
  then have run: "(d', p) = (if rows = [] then (d\<lparr>notifs := kept\<rparr>, None)
      else (notify (dn_env x) \<lparr>ni_user = u, ni_type = ''digest.summary'', ni_key = digest_key x u,
              ni_entity_type = Some ''digest'', ni_entity = None, ni_bounty = None, ni_status = Some N_pending\<rparr> (d\<lparr>notifs := kept\<rparr>),
            Some (buildDigestPayload (dn_origins x) (map (source_of x) rows) (run_day x) (ds_zone (dn_settings x)))))"
    using assms(1,2) unfolding assms(4) [symmetric] by (simp add: flushOne_def flush_write_def Let_def upd rows_def)
  then show "p = (if rows = [] then None
              else Some (buildDigestPayload (dn_origins x) (map (source_of x) rows) (run_day x) (ds_zone (dn_settings x))))"
    by (simp split: if_splits)
  have none: "find_notification u (digest_key x u) (d\<lparr>notifs := kept\<rparr>) = None"
    unfolding kept_def using find_notification_update [where f = retire and d = d and u = u and k = "digest_key x u"] assms(1)
    by simp
  show "\<exists>s. notifs d' = kept @ (if rows = [] then [] else [s]) \<and> n_user s = u \<and> n_key s = digest_key x u
           \<and> n_status s = N_pending"
  proof (cases "rows = []")
    case True
    then have "notifs d' = kept" using run by simp
    then show ?thesis
      using True by (intro exI [of _ "new_notification (dn_env x) \<lparr>ni_user = u, ni_type = [], ni_key = digest_key x u,
        ni_entity_type = None, ni_entity = None, ni_bounty = None, ni_status = Some N_pending\<rparr> d"])
        (simp add: new_notification_def notificationStatusForType_def)
  next
    case False
    let ?i = "\<lparr>ni_user = u, ni_type = ''digest.summary'', ni_key = digest_key x u,
              ni_entity_type = Some ''digest'', ni_entity = None, ni_bounty = None, ni_status = Some N_pending\<rparr>"
    have "d' = notify (dn_env x) ?i (d\<lparr>notifs := kept\<rparr>)" using False run by simp
    moreover have "notifs (notify (dn_env x) ?i (d\<lparr>notifs := kept\<rparr>))
        = notifs (d\<lparr>notifs := kept\<rparr>) @ [new_notification (dn_env x) ?i (d\<lparr>notifs := kept\<rparr>)]"
      by (rule notify_new) (use none in simp)
    ultimately show ?thesis
      using False by (intro exI [of _ "new_notification (dn_env x) ?i (d\<lparr>notifs := kept\<rparr>)"])
        (simp add: new_notification_def notificationStatusForType_def)
  qed
qed

text \<open>the first flush of a user's day claims every buffered row of the user and of nobody else, and
  adds one pending summary that counts exactly the rows of the last seven days, or none when there
  are none; afterwards nothing of the user is buffered, and neither a fresh flush under the same day
  nor the write of a flush that had read the same rows before changes anything.\<close>

lemma digest_claims_rows_once:
  assumes "find_notification u (digest_key x u) d = None" and "digest_rows u d \<noteq> []"
    and "distinct (map n_id (notifs d))" and "flushOne x u d = (d', p)"
    and "digest_key y u = digest_key x u"
  shows "digest_rows u d' = []
    \<and> map_option dg_total p = (if filter (in_window x) (digest_rows u d) = [] then None
                                else Some (length (filter (in_window x) (digest_rows u d))))
    \<and> length (notifs d') = length (notifs d) + (if p = None then 0 else 1)
    \<and> filter (\<lambda>n. n_user n \<noteq> u) (notifs d') = filter (\<lambda>n. n_user n \<noteq> u) (notifs d)
    \<and> flushOne y u d' = (d', None)
    \<and> flush_write y u (digest_rows u d) d' = (d', None)"
proof -
  let ?rows = "filter (in_window x) (digest_rows u d)"
  let ?kept = "update_where (\<lambda>n. n_user n = u \<and> n_status n = N_digesting) retire (notifs d)"
  note p = flushOne_write(1) [OF assms(1-4)]
  obtain s where s: "notifs d' = ?kept @ (if ?rows = [] then [] else [s])" "n_user s = u" "n_status s = N_pending"
    using flushOne_write(2) [OF assms(1-4)] by blast
  have kept: "\<not> (n_user n = u \<and> n_status n = N_digesting)" if mem: "n \<in> set ?kept" for n
  proof -
    obtain m where "m \<in> set (notifs d)" and m: "n = (if n_user m = u \<and> n_status m = N_digesting then retire m else m)"
      using mem unfolding update_where_def set_map by blast
    show ?thesis
    proof (cases "n_user m = u \<and> n_status m = N_digesting")
      case True
      then have "n_status n = N_done" by (simp add: m)
      then show ?thesis by simp
    next
      case False
      then show ?thesis by (simp only: m if_False simp_thms)
    qed
  qed
  have none: "\<not> (n_user n = u \<and> n_status n = N_digesting)" if "n \<in> set (notifs d')" for n
    using that kept [of n] s by (auto split: if_splits)
  have empty: "digest_rows u d' = []"
  proof -
    have "filter (\<lambda>n. n_user n = u \<and> n_status n = N_digesting) (notifs d') = []" using none by (simp add: filter_empty_conv)
    then show ?thesis by (simp add: digest_rows_def)
  qed
  have others: "filter (\<lambda>n. n_user n \<noteq> u) (notifs d') = filter (\<lambda>n. n_user n \<noteq> u) (notifs d)"
  proof -
    have "filter (\<lambda>n. n_user n \<noteq> u) ?kept = filter (\<lambda>n. n_user n \<noteq> u) (notifs d)"
      by (rule filter_update_where_other) simp
    then show ?thesis using s(1,2) by simp
  qed
  have "\<not> buffered (digest_rows u d) n" if "n \<in> set (notifs d')" for n
  proof
    assume b: "buffered (digest_rows u d) n"
    then have dig: "n_status n = N_digesting" by (simp add: buffered_def)
    then have "n \<in> set ?kept" using that s by (auto split: if_splits)
    then obtain m where m: "m \<in> set (notifs d)" "n = (if n_user m = u \<and> n_status m = N_digesting then retire m else m)"
      unfolding update_where_def set_map by blast
    have "n = m" "n_user m \<noteq> u" using m(2) dig none [OF that] by (auto split: if_splits)
    then show False using buffered_rows [OF assms(3) m(1), of u] b by simp
  qed
  then have stale: "flush_write y u (digest_rows u d) d' = (d', None)"
    by (simp add: flush_write_def list_ex_iff)
  have again: "flushOne y u d' = (d', None)" using empty by (simp add: flushOne_def)
  have size: "length (notifs d') = length (notifs d) + (if p = None then 0 else 1)" using s(1) p by simp
  have total: "map_option dg_total p = (if ?rows = [] then None else Some (length ?rows))"
    unfolding p by (simp add: buildDigestPayload_def Let_def)
  show ?thesis by (intro conjI empty total size others again stale)
qed

definition demo_run :: digest_run where
  "demo_run = \<lparr>dn_env = env0 5, dn_settings = DEFAULT_NOTIFICATION_SETTINGS, dn_local = (\<lambda>z t. (''2026-01-01'', 9, 0)),
     dn_utc = (\<lambda>t. ''2026-01-01''), dn_origins = \<lparr>or_admin = ''a'', or_app = ''b''\<rparr>, dn_text = (\<lambda>i. (i, i))\<rparr>"

definition demo_buffer :: db where
  "demo_buffer = db0\<lparr>notifs := [stall_note ''a'' N_digesting 1]\<rparr>"

lemma digest_claims_rows_once_witness:
  "digest_rows ''u'' demo_buffer \<noteq> [] \<and> digest_rows ''u'' (fst (flushOne demo_run ''u'' demo_buffer)) = []"
proof -
  have rows: "digest_rows ''u'' demo_buffer \<noteq> []"
    by (simp add: digest_rows_def demo_buffer_def stall_defs)
  have none: "find_notification ''u'' (digest_key demo_run ''u'') demo_buffer = None"
    by (simp add: find_notification_def demo_buffer_def stall_defs digest_key_def)
  have ids: "distinct (map n_id (notifs demo_buffer))" by (simp add: demo_buffer_def)
  obtain d' p where run: "flushOne demo_run ''u'' demo_buffer = (d', p)" by fastforce
  have "digest_rows ''u'' d' = []"
    using digest_claims_rows_once [OF none rows ids run refl] by blast
  then show ?thesis using rows run by simp
qed

text \<open>A flush that has read a row too late for the summary of another still claims it: the row is
  done, and no summary counts it, because the one it writes has the key of the existing one.\<close>

lemma row_lost_between_two_flushes:
  assumes "find_notification u (digest_key x u) d \<noteq> None" and "n \<in> set ns" and "n \<in> set (notifs d)" and "n_status n = N_digesting"
  shows "retire n \<in> set (notifs (fst (flush_write x u ns d)))
    \<and> length (notifs (fst (flush_write x u ns d))) = length (notifs d)"
proof -
  let ?d1 = "d\<lparr>notifs := update_where (buffered ns) retire (notifs d)\<rparr>"
  have b: "buffered ns n" using assms(2,4) by (simp add: buffered_def)
  then have "list_ex (buffered ns) (notifs d)" using assms(3) by (auto simp: list_ex_iff)
  moreover have "find_notification u (digest_key x u) ?d1 \<noteq> None"
    using find_notification_update [where f = retire and d = d and u = u and k = "digest_key x u" and P = "buffered ns"] assms(1)
    by simp
  ultimately have "notifs (fst (flush_write x u ns d)) = update_where (buffered ns) retire (notifs d)"
    by (simp add: flush_write_def Let_def notify_known_key)
  moreover have "retire n \<in> set (update_where (buffered ns) retire (notifs d))"
    unfolding update_where_def set_map using assms(3) b by (metis (mono_tags, lifting) image_eqI)
  ultimately show ?thesis by simp
qed

text \<open>When the first users of the window have all had their digest today, the run does nothing,
  however many users wait behind them.\<close>

lemma flushed_users_fill_the_window:
  assumes "\<And>u. u \<in> set (digest_users maxUsers d) \<Longrightarrow> find_notification u (digest_key x u) d \<noteq> None"
  shows "flushDigests x maxUsers d = (d, 0)"
proof -
  have "flush_all x us d = (d, 0)" if "set us \<subseteq> set (digest_users maxUsers d)" for us
    using that assms by (induction us) (auto simp: flushOne_def)
  then show ?thesis by (simp add: flushDigests_def)
qed

end
