(* ===== verification/Api_Keys.thy ===== *)
theory Api_Keys
  imports Digest
begin

text \<open>
  API keys (\<open>services/api-keys.ts\<close>): issuing, rotating, revoking and verifying, with the cache of verified
  keys. A call that waits between two effects is two steps here: a verification reads its row and only
  later stores the cache entry, and a revocation commits and only later drops the entry. The keyed
  digest and the random secret are parameters; the cache is the map with deadlines that the cache
  drivers refine.
\<close>

section \<open>State\<close>

datatype key_scope = KS_read | KS_contribute | KS_validate | KS_artifact | KS_sponsor | KS_account

record key_row =
  ak_id :: ident
  ak_user :: ident
  ak_prefix :: string
  ak_hash :: string
  ak_scopes :: "key_scope list"
  ak_created :: time
  ak_rotated :: "time option"
  ak_last_used :: "time option"
  ak_expires :: "time option"
  ak_revoked :: "time option"

record verified_key =
  vk_id :: ident
  vk_user :: ident
  vk_scopes :: "key_scope list"

record cached_key =
  ck_verified :: verified_key
  ck_expires :: "time option"

text \<open>\<open>ks_reading\<close> are the verifications that read a row and did not yet store it; \<open>ks_drops\<close> are the
  digests whose entries a committed revocation is about to drop.\<close>

record key_state =
  ks_rows :: "key_row list"
  ks_active :: "ident \<Rightarrow> bool"
  ks_cache :: "string \<Rightarrow> (cached_key \<times> time) option"
  ks_reading :: "(string \<times> cached_key) list"
  ks_drops :: "string list"
  ks_seq :: nat
  ks_audit :: "(string \<times> ident \<times> ident) list"

definition API_KEY_CACHE_TTL_SEC :: int where "API_KEY_CACHE_TTL_SEC = 60"
definition KEY_PREFIX :: string where "KEY_PREFIX = ''db_live_sk_''"
definition PREFIX_DISPLAY_LEN :: nat where "PREFIX_DISPLAY_LEN = 12"
definition DEFAULT_KEY_TTL_MS :: int where "DEFAULT_KEY_TTL_MS = 365 * 24 * 60 * 60 * 1000"

definition rawKey :: "string \<Rightarrow> string" where
  "rawKey secret = KEY_PREFIX @ secret"

definition key_prefix :: "string \<Rightarrow> string" where
  "key_prefix secret = take (length KEY_PREFIX + PREFIX_DISPLAY_LEN) (rawKey secret)"

definition key_by :: "ident \<Rightarrow> key_state \<Rightarrow> key_row option" where
  "key_by i s = find_where (\<lambda>r. ak_id r = i) (ks_rows s)"

definition new_key :: "(string \<Rightarrow> string) \<Rightarrow> time \<Rightarrow> string \<Rightarrow> ident \<Rightarrow> key_scope list \<Rightarrow> time option \<Rightarrow> key_state \<Rightarrow> key_row" where
  "new_key mac now secret uid scopes rotated s =
     \<lparr>ak_id = show_nat (ks_seq s), ak_user = uid, ak_prefix = key_prefix secret, ak_hash = mac (rawKey secret), ak_scopes = scopes,
      ak_created = now, ak_rotated = rotated, ak_last_used = None, ak_expires = Some (now + DEFAULT_KEY_TTL_MS), ak_revoked = None\<rparr>"

definition add_key :: "key_row \<Rightarrow> key_state \<Rightarrow> key_state" where
  "add_key r s = s\<lparr>ks_rows := ks_rows s @ [r], ks_seq := Suc (ks_seq s)\<rparr>"

definition set_key :: "(key_row \<Rightarrow> bool) \<Rightarrow> (key_row \<Rightarrow> key_row) \<Rightarrow> key_state \<Rightarrow> key_state" where
  "set_key P f s = s\<lparr>ks_rows := update_where P f (ks_rows s)\<rparr>"

definition audit_key :: "string \<Rightarrow> ident \<Rightarrow> ident \<Rightarrow> key_state \<Rightarrow> key_state" where
  "audit_key a actor i s = s\<lparr>ks_audit := ks_audit s @ [(a, actor, i)]\<rparr>"

definition drop_later :: "string \<Rightarrow> key_state \<Rightarrow> key_state" where
  "drop_later h s = s\<lparr>ks_drops := ks_drops s @ [h]\<rparr>"

section \<open>Operations\<close>

definition issueApiKey :: "(string \<Rightarrow> string) \<Rightarrow> time \<Rightarrow> string \<Rightarrow> ident \<Rightarrow> key_scope list \<Rightarrow> key_state \<Rightarrow> key_state \<times> key_row" where
  "issueApiKey mac now secret uid scopes s =
     (let r = new_key mac now secret uid scopes None s
      in (audit_key ''api_key.issued'' uid (ak_id r) (add_key r s), r))"

text \<open>The conditional update comes first and decides between simultaneous rotations.\<close>

definition key_rotatable :: "ident \<Rightarrow> ident \<Rightarrow> key_row \<Rightarrow> bool" where
  "key_rotatable i uid r \<longleftrightarrow> ak_id r = i \<and> ak_user r = uid \<and> ak_revoked r = None"

definition rotateApiKey :: "(string \<Rightarrow> string) \<Rightarrow> time \<Rightarrow> string \<Rightarrow> ident \<Rightarrow> ident \<Rightarrow> key_state \<Rightarrow> key_state \<times> key_row option" where
  "rotateApiKey mac now secret i uid s =
     (if count_where (key_rotatable i uid) (ks_rows s) \<noteq> 1 then (s, None)
      else case key_by i s of
        None \<Rightarrow> (s, None)
      | Some old \<Rightarrow>
          (let s1 = set_key (key_rotatable i uid) (\<lambda>r. r\<lparr>ak_revoked := Some now, ak_rotated := Some now\<rparr>) s;
               r = new_key mac now secret uid (ak_scopes old) (Some now) s1
           in (drop_later (ak_hash old) (audit_key ''api_key.rotated'' uid (ak_id r) (add_key r s1)), Some r)))"

definition revoke_by :: "string \<Rightarrow> time \<Rightarrow> ident \<Rightarrow> key_row \<Rightarrow> key_state \<Rightarrow> key_state" where
  "revoke_by action now actor old s =
     drop_later (ak_hash old) (audit_key action actor (ak_id old)
       (set_key (\<lambda>r. ak_id r = ak_id old) (\<lambda>r. r\<lparr>ak_revoked := Some now\<rparr>) s))"

definition revokeApiKey :: "time \<Rightarrow> ident \<Rightarrow> ident \<Rightarrow> key_state \<Rightarrow> key_state \<times> key_row option" where
  "revokeApiKey now i uid s =
     (case key_by i s of
        None \<Rightarrow> (s, None)
      | Some old \<Rightarrow>
          if ak_user old \<noteq> uid then (s, None)
          else if ak_revoked old \<noteq> None then (s, Some old)
          else (revoke_by ''api_key.revoked'' now uid old s, Some (old\<lparr>ak_revoked := Some now\<rparr>)))"

definition adminRevokeApiKey :: "time \<Rightarrow> ident \<Rightarrow> ident \<Rightarrow> key_state \<Rightarrow> key_state \<times> key_row option" where
  "adminRevokeApiKey now i actor s =
     (case key_by i s of
        None \<Rightarrow> (s, None)
      | Some old \<Rightarrow>
          if ak_revoked old \<noteq> None then (s, Some old)
          else (revoke_by ''admin.api_key.revoked'' now actor old s, Some (old\<lparr>ak_revoked := Some now\<rparr>)))"

text \<open>The deletion of one pending entry.\<close>

definition drop_entry :: "string \<Rightarrow> key_state \<Rightarrow> key_state" where
  "drop_entry h s = s\<lparr>ks_cache := (ks_cache s)(h := None), ks_drops := remove1 h (ks_drops s)\<rparr>"

definition invalidateUserApiKeys :: "ident \<Rightarrow> key_state \<Rightarrow> key_state" where
  "invalidateUserApiKeys uid s =
     s\<lparr>ks_cache := (\<lambda>h. if h \<in> ak_hash ` set (filter (\<lambda>r. ak_user r = uid) (ks_rows s)) then None else ks_cache s h)\<rparr>"

section \<open>Verification\<close>

definition past :: "time option \<Rightarrow> time \<Rightarrow> bool" where
  "past x now \<longleftrightarrow> (case x of Some e \<Rightarrow> e \<le> now | None \<Rightarrow> False)"

definition cached_of :: "key_row \<Rightarrow> cached_key" where
  "cached_of r = \<lparr>ck_verified = \<lparr>vk_id = ak_id r, vk_user = ak_user r, vk_scopes = ak_scopes r\<rparr>, ck_expires = ak_expires r\<rparr>"

definition key_row_ok :: "time \<Rightarrow> key_state \<Rightarrow> key_row \<Rightarrow> bool" where
  "key_row_ok now s r \<longleftrightarrow> ak_revoked r = None \<and> \<not> past (ak_expires r) now \<and> ks_active s (ak_user r)"

datatype lookup = Refused | Hit verified_key | Reading

text \<open>The cache first; a hit repeats only the check of the expiry. The row otherwise.\<close>

definition verify_lookup :: "(string \<Rightarrow> string) \<Rightarrow> time \<Rightarrow> string \<Rightarrow> key_state \<Rightarrow> key_state \<times> lookup" where
  "verify_lookup mac now token s =
     (if \<not> starts_with KEY_PREFIX token then (s, Refused)
      else let h = mac token
           in case (case ks_cache s h of Some (c, d) \<Rightarrow> if now < d then Some c else None | None \<Rightarrow> None) of
                Some c \<Rightarrow> (s, if past (ck_expires c) now then Refused else Hit (ck_verified c))
              | None \<Rightarrow>
                  (case find_where (\<lambda>r. ak_hash r = h) (ks_rows s) of
                     None \<Rightarrow> (s, Refused)
                   | Some r \<Rightarrow>
                       if \<not> key_row_ok now s r then (s, Refused)
                       else (set_key (\<lambda>x. ak_id x = ak_id r) (\<lambda>x. x\<lparr>ak_last_used := Some now\<rparr>)
                               (s\<lparr>ks_reading := ks_reading s @ [(h, cached_of r)]\<rparr>), Reading)))"

text \<open>The rest of the \<open>i\<close>-th verification that is reading.\<close>

definition verify_store :: "time \<Rightarrow> nat \<Rightarrow> key_state \<Rightarrow> key_state \<times> verified_key option" where
  "verify_store now i s =
     (if i < length (ks_reading s)
      then (let (h, c) = ks_reading s ! i
            in (s\<lparr>ks_cache := (ks_cache s)(h \<mapsto> (c, now + API_KEY_CACHE_TTL_SEC * 1000)),
                  ks_reading := take i (ks_reading s) @ drop (Suc i) (ks_reading s)\<rparr>, Some (ck_verified c)))
      else (s, None))"

definition listApiKeys :: "ident \<Rightarrow> key_state \<Rightarrow> key_row list" where
  "listApiKeys uid s = rev (sort_key ak_created (filter (\<lambda>r. ak_user r = uid) (ks_rows s)))"

definition adminCountActiveApiKeys :: "time \<Rightarrow> key_state \<Rightarrow> nat" where
  "adminCountActiveApiKeys now s = count_where (\<lambda>r. ak_revoked r = None \<and> \<not> past (ak_expires r) now) (ks_rows s)"

definition adminListApiKeys :: "ident option \<Rightarrow> nat option \<Rightarrow> nat option \<Rightarrow> key_state \<Rightarrow> key_row list \<times> nat" where
  "adminListApiKeys uid cnt offset s =
     (let rows = filter (\<lambda>r. case uid of Some u \<Rightarrow> u = [] \<or> ak_user r = u | None \<Rightarrow> True) (ks_rows s)
      in (take (case cnt of Some l \<Rightarrow> l | None \<Rightarrow> 50) (drop (case offset of Some x \<Rightarrow> x | None \<Rightarrow> 0) (rev (sort_key ak_created rows))),
          length rows))"

section \<open>Runs\<close>

datatype key_event =
    K_issue string ident "key_scope list"
  | K_rotate string ident ident
  | K_revoke ident ident
  | K_admin_revoke ident ident
  | K_drop string
  | K_status ident bool
  | K_invalidate ident
  | K_lookup string
  | K_store nat
  | K_evict string

text \<open>What a step lets in: the digest it accepted and who it is.\<close>

definition key_step :: "(string \<Rightarrow> string) \<Rightarrow> time \<Rightarrow> key_event \<Rightarrow> key_state \<Rightarrow> key_state \<times> (string \<times> verified_key) option" where
  "key_step mac now act s =
     (case act of
        K_issue secret uid scopes \<Rightarrow> (fst (issueApiKey mac now secret uid scopes s), None)
      | K_rotate secret i uid \<Rightarrow> (fst (rotateApiKey mac now secret i uid s), None)
      | K_revoke i uid \<Rightarrow> (fst (revokeApiKey now i uid s), None)
      | K_admin_revoke i actor \<Rightarrow> (fst (adminRevokeApiKey now i actor s), None)
      | K_drop h \<Rightarrow> (if h \<in> set (ks_drops s) then drop_entry h s else s, None)
      | K_status uid b \<Rightarrow> (s\<lparr>ks_active := (ks_active s)(uid := b)\<rparr>, None)
      | K_invalidate uid \<Rightarrow> (invalidateUserApiKeys uid s, None)
      | K_lookup token \<Rightarrow>
          (case verify_lookup mac now token s of
             (s', Hit v) \<Rightarrow> (s', Some (mac token, v))
           | (s', _) \<Rightarrow> (s', None))
      | K_store i \<Rightarrow>
          (case verify_store now i s of
             (s', Some v) \<Rightarrow> (s', Some (fst (ks_reading s ! i), v))
           | (s', None) \<Rightarrow> (s', None))
      | K_evict h \<Rightarrow> (s\<lparr>ks_cache := (ks_cache s)(h := None)\<rparr>, None))"

fun key_run :: "(string \<Rightarrow> string) \<Rightarrow> (time \<times> key_event) list \<Rightarrow> key_state \<Rightarrow> key_state \<times> (time \<times> string \<times> verified_key) list" where
  "key_run mac [] s = (s, [])"
| "key_run mac ((t, act) # es) s =
     (case key_step mac t act s of
        (s', a) \<Rightarrow> (case key_run mac es s' of
                     (s'', as) \<Rightarrow> (s'', (case a of Some (h, v) \<Rightarrow> (t, h, v) # as | None \<Rightarrow> as))))"

section \<open>Revocation\<close>

text \<open>No row of the digest is usable and no verification of it is under way.\<close>

definition key_dead :: "string \<Rightarrow> key_state \<Rightarrow> bool" where
  "key_dead h s \<longleftrightarrow> (\<forall>r \<in> set (ks_rows s). ak_hash r = h \<longrightarrow> ak_revoked r \<noteq> None) \<and> h \<notin> fst ` set (ks_reading s)"

definition mints :: "(string \<Rightarrow> string) \<Rightarrow> string \<Rightarrow> key_event \<Rightarrow> bool" where
  "mints mac h act \<longleftrightarrow> (case act of K_issue secret uid sc \<Rightarrow> mac (rawKey secret) = h | K_rotate secret i uid \<Rightarrow> mac (rawKey secret) = h | _ \<Rightarrow> False)"

lemma rows_set_key:
  "r \<in> set (ks_rows (set_key P f s)) \<Longrightarrow> \<exists>x \<in> set (ks_rows s). r = x \<or> r = f x"
  by (auto simp: set_key_def set_update_where)

lemmas state_defs = audit_key_def add_key_def drop_later_def set_key_def drop_entry_def

lemma key_dead_set_key:
  assumes "key_dead h s" and "\<And>r. ak_hash (f r) = ak_hash r" and "\<And>r. ak_revoked r \<noteq> None \<Longrightarrow> ak_revoked (f r) \<noteq> None"
  shows "key_dead h (set_key P f s)"
proof -
  have "ak_revoked r \<noteq> None" if r: "r \<in> set (ks_rows (set_key P f s))" "ak_hash r = h" for r
    using rows_set_key [OF r(1)] r(2) assms unfolding key_dead_def by metis
  then show ?thesis using assms(1) by (simp add: key_dead_def) (simp add: set_key_def)
qed

lemma key_dead_frame:
  "key_dead h s \<Longrightarrow> ks_rows s' = ks_rows s \<Longrightarrow> set (ks_reading s') \<subseteq> set (ks_reading s) \<Longrightarrow> key_dead h s'"
  by (auto simp: key_dead_def)

lemma key_dead_add: "key_dead h s \<Longrightarrow> ak_hash r \<noteq> h \<Longrightarrow> key_dead h (add_key r s)"
  by (auto simp: key_dead_def add_key_def)

lemma key_dead_audit [simp]: "key_dead h (audit_key a b c s) = key_dead h s" and key_dead_later [simp]: "key_dead h (drop_later k s) = key_dead h s"
  by (simp_all add: key_dead_def audit_key_def drop_later_def)

lemma cache_frame [simp]:
  "ks_cache (audit_key a b c s) = ks_cache s" "ks_cache (drop_later k s) = ks_cache s" "ks_cache (add_key r s) = ks_cache s"
  "ks_cache (set_key P f s) = ks_cache s"
  by (simp_all add: state_defs)

lemma cache_revoke [simp]: "ks_cache (revoke_by a now actor old s) = ks_cache s"
  by (simp add: revoke_by_def)

lemma key_dead_revoke: "key_dead h s \<Longrightarrow> key_dead h (revoke_by a now actor old s)"
  by (simp add: revoke_by_def key_dead_set_key)

text \<open>A step keeps a dead digest dead, never adds an entry for it, and lets it in by its entry only.\<close>

lemma key_dead_step:
  assumes "key_dead h s" and "\<not> mints mac h act" and "key_step mac t act s = (s', a)"
  shows "key_dead h s' \<and> (ks_cache s' h = ks_cache s h \<or> ks_cache s' h = None)
    \<and> (\<forall>v. a = Some (h, v) \<longrightarrow> (\<exists>c d. ks_cache s h = Some (c, d) \<and> t < d))"
proof (cases act)
  case (K_issue secret uid sc)
  then show ?thesis using assms by (auto simp: key_step_def issueApiKey_def Let_def mints_def new_key_def key_dead_add)
next
  case (K_rotate secret i uid)
  have "key_dead h (set_key (key_rotatable i uid) (\<lambda>r. r\<lparr>ak_revoked := Some t, ak_rotated := Some t\<rparr>) s)"
    by (rule key_dead_set_key [OF assms(1)]) simp_all
  then show ?thesis using assms K_rotate
    by (auto simp: key_step_def rotateApiKey_def Let_def mints_def new_key_def key_dead_add split: option.splits if_splits)
next
  case (K_revoke i uid)
  then show ?thesis using assms
    by (auto simp: key_step_def revokeApiKey_def key_dead_revoke split: option.splits if_splits)
next
  case (K_admin_revoke i uid)
  then show ?thesis using assms
    by (auto simp: key_step_def adminRevokeApiKey_def key_dead_revoke split: option.splits if_splits)
next
  case (K_drop k)
  then show ?thesis using assms by (auto simp: key_step_def drop_entry_def key_dead_def split: if_splits)
next
  case (K_status uid b)
  then show ?thesis using assms by (auto simp: key_step_def key_dead_def)
next
  case (K_invalidate uid)
  then show ?thesis using assms by (auto simp: key_step_def invalidateUserApiKeys_def key_dead_def split: if_splits)
next
  case (K_evict k)
  then show ?thesis using assms by (auto simp: key_step_def key_dead_def split: if_splits)
next
  case (K_lookup token)
  show ?thesis
  proof (cases "starts_with KEY_PREFIX token \<and> mac token = h")
    case True
    have none: "find_where (\<lambda>r. ak_hash r = h) (ks_rows s) = None \<or> (\<exists>r. find_where (\<lambda>r. ak_hash r = h) (ks_rows s) = Some r \<and> ak_revoked r \<noteq> None)"
      using assms(1) find_where_Some [of "\<lambda>r. ak_hash r = h" "ks_rows s"] unfolding key_dead_def
      by (cases "find_where (\<lambda>r. ak_hash r = h) (ks_rows s)") auto
    then have "s' = s \<and> (\<forall>v. a = Some (h, v) \<longrightarrow> (\<exists>c d. ks_cache s h = Some (c, d) \<and> t < d))"
      using assms(3) True K_lookup
      by (auto simp: key_step_def verify_lookup_def Let_def key_row_ok_def split: option.splits prod.splits if_splits)
    then show ?thesis using assms(1) by simp
  next
    case False
    then have "key_dead h s' \<and> ks_cache s' = ks_cache s \<and> (\<forall>v. a \<noteq> Some (h, v))"
      using assms(1,3) K_lookup
      by (auto simp: key_step_def verify_lookup_def Let_def key_dead_def set_key_def set_update_where split: option.splits prod.splits if_splits)
    then show ?thesis by simp
  qed
next
  case (K_store i)
  show ?thesis
  proof (cases "i < length (ks_reading s)")
    case True
    obtain k c where kc: "ks_reading s ! i = (k, c)" by (cases "ks_reading s ! i")
    then have "(k, c) \<in> set (ks_reading s)" using True nth_mem by metis
    then have "k \<noteq> h" using assms(1) by (force simp: key_dead_def)
    moreover have "set (take i (ks_reading s) @ drop (Suc i) (ks_reading s)) \<subseteq> set (ks_reading s)"
      by (auto dest: in_set_takeD in_set_dropD)
    then have "h \<notin> fst ` set (take i (ks_reading s) @ drop (Suc i) (ks_reading s))"
      using assms(1) unfolding key_dead_def by blast
    moreover have "s' = s\<lparr>ks_cache := (ks_cache s)(k \<mapsto> (c, t + API_KEY_CACHE_TTL_SEC * 1000)),
          ks_reading := take i (ks_reading s) @ drop (Suc i) (ks_reading s)\<rparr>" and "a = Some (k, ck_verified c)"
      using assms(3) K_store True kc by (auto simp: key_step_def verify_store_def Let_def)
    ultimately show ?thesis using assms(1) by (simp add: key_dead_def)
  next
    case False
    then show ?thesis using assms K_store by (auto simp: key_step_def verify_store_def)
  qed
qed

lemma dead_run:
  assumes "key_dead h s" and "\<forall>x \<in> set es. \<not> mints mac h (snd x)" and "key_run mac es s = (s', acc)" and "(t, h, v) \<in> set acc"
  shows "\<exists>c d. ks_cache s h = Some (c, d) \<and> t < d"
  using assms
proof (induction es arbitrary: s acc)
  case Nil
  then show ?case by simp
next
  case (Cons x es)
  obtain u act where x: "x = (u, act)" by (cases x)
  obtain s1 a where st: "key_step mac u act s = (s1, a)" by (cases "key_step mac u act s")
  obtain as where r: "key_run mac es s1 = (s', as)" and acc: "acc = (case a of Some (h, v) \<Rightarrow> (u, h, v) # as | None \<Rightarrow> as)"
    using Cons.prems(3) x st by (auto split: prod.splits)
  have d: "key_dead h s1 \<and> (ks_cache s1 h = ks_cache s h \<or> ks_cache s1 h = None)
      \<and> (\<forall>v. a = Some (h, v) \<longrightarrow> (\<exists>c d. ks_cache s h = Some (c, d) \<and> u < d))"
    using key_dead_step [OF Cons.prems(1) _ st] Cons.prems(2) x by simp
  show ?case
  proof (cases "(t, h, v) \<in> set as")
    case True
    then have "\<exists>c d. ks_cache s1 h = Some (c, d) \<and> t < d" using Cons.IH [OF _ _ r] d Cons.prems(2) by simp
    then show ?thesis using d by auto
  next
    case False
    then have "a = Some (h, v) \<and> t = u" using Cons.prems(4) acc by (auto split: option.splits)
    then show ?thesis using d by blast
  qed
qed

lemma deadline_step:
  assumes "\<forall>h c d. ks_cache s h = Some (c, d) \<longrightarrow> d \<le> T + 60000" and "t \<le> T" and "key_step mac t act s = (s', a)"
  shows "\<forall>h c d. ks_cache s' h = Some (c, d) \<longrightarrow> d \<le> T + 60000"
proof (cases act)
  case (K_store i)
  then show ?thesis using assms
    by (auto simp: key_step_def verify_store_def Let_def API_KEY_CACHE_TTL_SEC_def split: if_splits prod.splits)
next
  case (K_lookup token)
  then have "ks_cache s' = ks_cache s"
    using assms(3) by (auto simp: key_step_def verify_lookup_def Let_def split: option.splits prod.splits if_splits)
  then show ?thesis using assms(1) by simp
next
  case (K_rotate secret i uid)
  then have "ks_cache s' = ks_cache s"
    using assms(3) by (auto simp: key_step_def rotateApiKey_def Let_def split: option.splits if_splits)
  then show ?thesis using assms(1) by simp
next
  case (K_revoke i uid)
  then have "ks_cache s' = ks_cache s"
    using assms(3) by (auto simp: key_step_def revokeApiKey_def split: option.splits if_splits)
  then show ?thesis using assms(1) by simp
next
  case (K_admin_revoke i uid)
  then have "ks_cache s' = ks_cache s"
    using assms(3) by (auto simp: key_step_def adminRevokeApiKey_def split: option.splits if_splits)
  then show ?thesis using assms(1) by simp
qed (use assms in \<open>auto simp: key_step_def issueApiKey_def Let_def drop_entry_def invalidateUserApiKeys_def split: if_splits\<close>)

lemma deadline_run:
  assumes "\<forall>h c d. ks_cache s h = Some (c, d) \<longrightarrow> d \<le> T + 60000" and "\<forall>x \<in> set es. fst x \<le> T" and "key_run mac es s = (s', acc)"
  shows "\<forall>h c d. ks_cache s' h = Some (c, d) \<longrightarrow> d \<le> T + 60000"
  using assms
proof (induction es arbitrary: s acc)
  case (Cons x es)
  obtain u act where x: "x = (u, act)" by (cases x)
  obtain s1 a where st: "key_step mac u act s = (s1, a)" by (cases "key_step mac u act s")
  obtain as where r: "key_run mac es s1 = (s', as)" using Cons.prems(3) x st by (auto split: prod.splits)
  have "\<forall>h c d. ks_cache s1 h = Some (c, d) \<longrightarrow> d \<le> T + 60000"
    by (rule deadline_step [OF Cons.prems(1) _ st]) (use Cons.prems(2) x in simp)
  then show ?case using Cons.IH [OF _ _ r] Cons.prems(2) by simp
qed simp

text \<open>a revoked key dies. From a state, reached by any run up to a time \<open>T\<close>, in which every row of a
  digest is revoked and no verification of it is under way, the digest is let in again only if its
  cache entry was not dropped, and even then no later than a minute after \<open>T\<close>, whatever keys are issued,
  rotated, looked up or stored meanwhile, as long as no new secret has the same digest.\<close>

lemma revoked_key_dies:
  assumes "ks_cache s0 = (\<lambda>h. None)" and "key_run mac before s0 = (s, acc0)" and "\<forall>x \<in> set before. fst x \<le> T"
    and "key_dead h s" and "key_run mac es s = (s', acc)" and "\<forall>x \<in> set es. \<not> mints mac h (snd x)" and "(t, h, v) \<in> set acc"
  shows "ks_cache s h \<noteq> None \<and> t < T + 60000"
proof -
  obtain c d where c: "ks_cache s h = Some (c, d)" "t < d"
    using dead_run [OF assms(4) assms(6) assms(5) assms(7)] by blast
  moreover have "d \<le> T + 60000"
    using deadline_run [OF _ assms(3) assms(2)] assms(1) c(1) by auto
  ultimately show ?thesis by simp
qed

section \<open>Where an acceptance comes from\<close>

lemma key_run_append:
  "key_run mac (es @ fs) s = (case key_run mac es s of (s', as) \<Rightarrow> (case key_run mac fs s' of (s'', bs) \<Rightarrow> (s'', as @ bs)))"
  by (induction es arbitrary: s) (auto split: prod.splits option.splits)

text \<open>A lookup of the run found the row usable, and it says what was accepted.\<close>

definition looked_up :: "(string \<Rightarrow> string) \<Rightarrow> key_state \<Rightarrow> (time \<times> key_event) list \<Rightarrow> string \<Rightarrow> cached_key \<Rightarrow> bool" where
  "looked_up mac s0 es h c \<longleftrightarrow>
     (\<exists>pre t token post. es = pre @ (t, K_lookup token) # post \<and> mac token = h \<and> starts_with KEY_PREFIX token
        \<and> (\<exists>r \<in> set (ks_rows (fst (key_run mac pre s0))). ak_hash r = h \<and> key_row_ok t (fst (key_run mac pre s0)) r \<and> c = cached_of r))"

lemma looked_up_later: "looked_up mac s0 es h c \<Longrightarrow> looked_up mac s0 (es @ fs) h c"
  unfolding looked_up_def by (metis append.assoc append_Cons)

definition grounded :: "(string \<Rightarrow> string) \<Rightarrow> key_state \<Rightarrow> (time \<times> key_event) list \<Rightarrow> key_state \<Rightarrow> bool" where
  "grounded mac s0 es s \<longleftrightarrow>
     (\<forall>h c d. ks_cache s h = Some (c, d) \<longrightarrow> looked_up mac s0 es h c)
     \<and> (\<forall>h c. (h, c) \<in> set (ks_reading s) \<longrightarrow> looked_up mac s0 es h c)"

lemma grounded_step:
  assumes g: "grounded mac s0 es s" and s: "s = fst (key_run mac es s0)" and step: "key_step mac t act s = (s', a)"
  shows "grounded mac s0 (es @ [(t, act)]) s'
    \<and> (\<forall>h v. a = Some (h, v) \<longrightarrow> (\<exists>c. v = ck_verified c \<and> looked_up mac s0 (es @ [(t, act)]) h c))"
proof -
  have later: "grounded mac s0 (es @ [(t, act)]) s"
    using g looked_up_later unfolding grounded_def by blast
  have shrink: "grounded mac s0 (es @ [(t, act)]) x"
    if "ks_cache x \<subseteq>\<^sub>m ks_cache s" "set (ks_reading x) \<subseteq> set (ks_reading s)" for x
    using later that unfolding grounded_def map_le_def by (metis domI subsetD)
  show ?thesis
  proof (cases act)
    case (K_lookup token)
    have ?thesis if r: "find_where (\<lambda>r. ak_hash r = mac token) (ks_rows s) = Some r" "key_row_ok t s r" "starts_with KEY_PREFIX token"
        and st: "s' = set_key (\<lambda>x. ak_id x = ak_id r) (\<lambda>x. x\<lparr>ak_last_used := Some t\<rparr>) (s\<lparr>ks_reading := ks_reading s @ [(mac token, cached_of r)]\<rparr>)"
        and none: "a = None" for r
    proof -
      have "looked_up mac s0 (es @ [(t, K_lookup token)]) (mac token) (cached_of r)"
        unfolding looked_up_def using find_where_Some [OF r(1)] r(2,3) s by blast
      then show ?thesis using later K_lookup none unfolding st grounded_def
        by (auto simp: set_key_def)
    qed
    moreover have ?thesis if "s' = s" "a = Some (mac token, ck_verified c)" "ks_cache s (mac token) = Some (c, d)" for c d
      using later that unfolding grounded_def by blast
    moreover have ?thesis if "s' = s" "a = None" using later that by simp
    moreover have "(s' = s \<and> a = None) \<or> (\<exists>c d. s' = s \<and> a = Some (mac token, ck_verified c) \<and> ks_cache s (mac token) = Some (c, d))
        \<or> (\<exists>r. find_where (\<lambda>r. ak_hash r = mac token) (ks_rows s) = Some r \<and> key_row_ok t s r \<and> starts_with KEY_PREFIX token
             \<and> s' = set_key (\<lambda>x. ak_id x = ak_id r) (\<lambda>x. x\<lparr>ak_last_used := Some t\<rparr>) (s\<lparr>ks_reading := ks_reading s @ [(mac token, cached_of r)]\<rparr>)
             \<and> a = None)"
      using step K_lookup by (auto simp: key_step_def verify_lookup_def Let_def split: option.splits prod.splits if_splits)
    ultimately show ?thesis by blast
  next
    case (K_store i)
    show ?thesis
    proof (cases "i < length (ks_reading s)")
      case True
      obtain h c where kc: "ks_reading s ! i = (h, c)" by (cases "ks_reading s ! i")
      have l: "looked_up mac s0 (es @ [(t, act)]) h c"
        using later kc nth_mem [OF True] unfolding grounded_def by metis
      have e: "s' = s\<lparr>ks_cache := (ks_cache s)(h \<mapsto> (c, t + API_KEY_CACHE_TTL_SEC * 1000)),
                 ks_reading := take i (ks_reading s) @ drop (Suc i) (ks_reading s)\<rparr>" and a: "a = Some (h, ck_verified c)"
        using step K_store True kc by (auto simp: key_step_def verify_store_def Let_def)
      have "set (take i (ks_reading s) @ drop (Suc i) (ks_reading s)) \<subseteq> set (ks_reading s)"
        by (auto dest: in_set_takeD in_set_dropD)
      then have "grounded mac s0 (es @ [(t, act)]) s'"
        using later l unfolding e grounded_def by (auto split: if_splits)
      then show ?thesis using l a by blast
    next
      case False
      then show ?thesis using step K_store later by (simp add: key_step_def verify_store_def)
    qed
  next
    case (K_drop k)
    then show ?thesis using step by (intro conjI shrink) (auto simp: key_step_def drop_entry_def map_le_def split: if_splits)
  next
    case (K_invalidate uid)
    then show ?thesis using step by (intro conjI shrink) (auto simp: key_step_def invalidateUserApiKeys_def map_le_def split: if_splits)
  next
    case (K_evict k)
    then show ?thesis using step by (intro conjI shrink) (auto simp: key_step_def map_le_def split: if_splits)
  next
    case (K_status uid b)
    then show ?thesis using step by (intro conjI shrink) (auto simp: key_step_def)
  next
    case (K_issue secret uid sc)
    then show ?thesis using step by (intro conjI shrink) (auto simp: key_step_def issueApiKey_def Let_def state_defs)
  next
    case (K_rotate secret i uid)
    then show ?thesis using step
      by (intro conjI shrink) (auto simp: key_step_def rotateApiKey_def Let_def state_defs split: option.splits if_splits)
  next
    case (K_revoke i uid)
    then show ?thesis using step
      by (intro conjI shrink) (auto simp: key_step_def revokeApiKey_def revoke_by_def state_defs split: option.splits if_splits)
  next
    case (K_admin_revoke i uid)
    then show ?thesis using step
      by (intro conjI shrink) (auto simp: key_step_def adminRevokeApiKey_def revoke_by_def state_defs split: option.splits if_splits)
  qed
qed

lemma accepted_was_looked_up:
  assumes "ks_cache s0 = (\<lambda>h. None)" and "ks_reading s0 = []" and "key_run mac es s0 = (s, acc)"
  shows "grounded mac s0 es s \<and> (\<forall>t h v. (t, h, v) \<in> set acc \<longrightarrow> (\<exists>c. v = ck_verified c \<and> looked_up mac s0 es h c))"
  using assms(3)
proof (induction es arbitrary: s acc rule: rev_induct)
  case Nil
  then show ?case using assms(1,2) by (simp add: grounded_def)
next
  case (snoc x es)
  obtain t act where x: "x = (t, act)" by (cases x)
  obtain s1 as where r: "key_run mac es s0 = (s1, as)" by (cases "key_run mac es s0")
  obtain s2 a where st: "key_step mac t act s1 = (s2, a)" by (cases "key_step mac t act s1")
  have s: "s = s2" and acc: "acc = as @ (case a of Some (h, v) \<Rightarrow> [(t, h, v)] | None \<Rightarrow> [])"
    using snoc.prems x r st by (auto simp: key_run_append split: option.splits)
  have IH: "grounded mac s0 es s1" "\<forall>t h v. (t, h, v) \<in> set as \<longrightarrow> (\<exists>c. v = ck_verified c \<and> looked_up mac s0 es h c)"
    using snoc.IH [OF r] by blast+
  have g: "grounded mac s0 (es @ [x]) s \<and> (\<forall>h v. a = Some (h, v) \<longrightarrow> (\<exists>c. v = ck_verified c \<and> looked_up mac s0 (es @ [x]) h c))"
    using grounded_step [OF IH(1) _ st] r s x by simp
  have "\<exists>c. v = ck_verified c \<and> looked_up mac s0 (es @ [x]) h c" if "(u, h, v) \<in> set acc" for u h v
    using that g IH(2) looked_up_later unfolding acc by (auto split: option.splits) blast+
  then show ?case using g by blast
qed

text \<open>C33: nothing is let in that was not a key: whenever a verification accepts, now or from the cache,
  an earlier lookup of the same run with a token of the right form and that digest found a row that was
  neither revoked nor expired and whose owner was active, and the identity and scopes granted are those
  of that row.\<close>

theorem accepted_key_was_valid:
  assumes "ks_cache s0 = (\<lambda>h. None)" and "ks_reading s0 = []" and "key_run mac es s0 = (s, acc)" and "(t, h, v) \<in> set acc"
  shows "\<exists>pre u token post r. es = pre @ (u, K_lookup token) # post \<and> mac token = h \<and> starts_with KEY_PREFIX token
    \<and> r \<in> set (ks_rows (fst (key_run mac pre s0))) \<and> ak_hash r = h
    \<and> ak_revoked r = None \<and> \<not> past (ak_expires r) u \<and> ks_active (fst (key_run mac pre s0)) (ak_user r)
    \<and> v = \<lparr>vk_id = ak_id r, vk_user = ak_user r, vk_scopes = ak_scopes r\<rparr>"
proof -
  obtain c where c: "v = ck_verified c" "looked_up mac s0 es h c"
    using accepted_was_looked_up [OF assms(1-3)] assms(4) by blast
  then obtain pre u token post r where "es = pre @ (u, K_lookup token) # post" "mac token = h" "starts_with KEY_PREFIX token"
      "r \<in> set (ks_rows (fst (key_run mac pre s0)))" "ak_hash r = h" "key_row_ok u (fst (key_run mac pre s0)) r" "c = cached_of r"
    unfolding looked_up_def by blast
  then show ?thesis using c(1) by (auto simp: key_row_ok_def cached_of_def)
qed

section \<open>The race\<close>

text \<open>a key outlives its revocation when a verification of it is under way: the verification read the
  row, the revocation commits and drops the cache entry, and the verification then stores its entry,
  under which the revoked key is accepted for another minute.\<close>

lemma revoked_key_accepted_after_race:
  assumes "find_where (\<lambda>r. ak_hash r = mac token) (ks_rows s) = Some r" and "key_by (ak_id r) s = Some r" and "key_row_ok t1 s r"
    and "starts_with KEY_PREFIX token" and "ks_cache s (mac token) = None" and "ks_reading s = []"
    and "t5 < t4 + 60000" and "\<not> past (ak_expires r) t5"
    and "key_run mac [(t1, K_lookup token), (t2, K_revoke (ak_id r) (ak_user r)), (t3, K_drop (mac token)), (t4, K_store 0), (t5, K_lookup token)] s = (s', acc)"
  shows "(t5, mac token, ck_verified (cached_of r)) \<in> set acc \<and> (\<exists>x. key_by (ak_id r) s' = Some x \<and> ak_revoked x = Some t2)"
proof -
  let ?h = "mac token"
  have h: "ak_hash r = ?h" and rs: "r \<in> set (ks_rows s)" using find_where_Some [OF assms(1)] by simp_all
  let ?s1 = "set_key (\<lambda>x. ak_id x = ak_id r) (\<lambda>x. x\<lparr>ak_last_used := Some t1\<rparr>) (s\<lparr>ks_reading := [(?h, cached_of r)]\<rparr>)"
  have 1: "key_step mac t1 (K_lookup token) s = (?s1, None)"
    using assms(1,3,4,5,6) by (simp add: key_step_def verify_lookup_def Let_def)
  have upd: "key_by (ak_id r) (set_key (\<lambda>x. ak_id x = ak_id r) f z) = map_option f (key_by (ak_id r) z)"
    if f: "\<And>x. ak_id (f x) = ak_id x" for f z
  proof -
    have u: "find_where (\<lambda>x. ak_id x = ak_id r) (update_where (\<lambda>x. ak_id x = ak_id r) f (ks_rows z))
        = map_option (\<lambda>x. if ak_id x = ak_id r then f x else x) (find_where (\<lambda>x. ak_id x = ak_id r) (ks_rows z))"
      by (rule find_where_update_where) (simp add: f)
    show ?thesis using find_where_Some [of "\<lambda>x. ak_id x = ak_id r" "ks_rows z"]
      by (cases "find_where (\<lambda>x. ak_id x = ak_id r) (ks_rows z)") (auto simp: key_by_def set_key_def u)
  qed
  let ?r1 = "r\<lparr>ak_last_used := Some t1\<rparr>"
  have k1: "key_by (ak_id r) ?s1 = Some ?r1" using assms(2) by (simp add: upd) (simp add: key_by_def)
  let ?s2 = "revoke_by ''api_key.revoked'' t2 (ak_user r) ?r1 ?s1"
  have 2: "key_step mac t2 (K_revoke (ak_id r) (ak_user r)) ?s1 = (?s2, None)"
    using k1 assms(3) by (simp add: key_step_def revokeApiKey_def key_row_ok_def)
  have k2: "key_by (ak_id r) ?s2 = Some (?r1\<lparr>ak_revoked := Some t2\<rparr>)"
    using k1 upd [of "\<lambda>x. x\<lparr>ak_revoked := Some t2\<rparr>" ?s1]
    by (simp add: revoke_by_def drop_later_def audit_key_def key_by_def)
  let ?s3 = "drop_entry ?h ?s2"
  have 3: "key_step mac t3 (K_drop ?h) ?s2 = (?s3, None)"
    by (simp add: key_step_def revoke_by_def drop_later_def h)
  have reading: "ks_reading ?s3 = [(?h, cached_of r)]"
    by (simp add: drop_entry_def revoke_by_def drop_later_def audit_key_def set_key_def)
  let ?s4 = "?s3\<lparr>ks_cache := (ks_cache ?s3)(?h \<mapsto> (cached_of r, t4 + 60000)), ks_reading := []\<rparr>"
  have 4: "key_step mac t4 (K_store 0) ?s3 = (?s4, Some (?h, ck_verified (cached_of r)))"
    by (simp add: key_step_def verify_store_def reading API_KEY_CACHE_TTL_SEC_def)
  have 5: "key_step mac t5 (K_lookup token) ?s4 = (?s4, Some (?h, ck_verified (cached_of r)))"
    using assms(4,7,8) by (simp add: key_step_def verify_lookup_def Let_def cached_of_def)
  have "s' = ?s4 \<and> (t5, ?h, ck_verified (cached_of r)) \<in> set acc"
    using assms(9) by (simp only: key_run.simps 1 2 3 4 5 prod.case option.case) auto
  moreover have "key_by (ak_id r) ?s4 = Some (?r1\<lparr>ak_revoked := Some t2\<rparr>)"
    using k2 by (simp add: key_by_def drop_entry_def)
  ultimately show ?thesis by simp
qed

section \<open>Rotation\<close>

text \<open>Of two rotations of one key the second finds nothing to rotate, and the first hands over the scopes.\<close>

lemma one_rotation_wins:
  assumes "rotateApiKey mac t1 sec1 i uid s = (s1, Some r)" and "\<forall>x \<in> set (ks_rows s). ak_id x \<noteq> show_nat (ks_seq s)"
    and "i \<noteq> show_nat (ks_seq s)"
  shows "rotateApiKey mac t2 sec2 i uid s1 = (s1, None) \<and> (\<exists>old. key_by i s = Some old \<and> ak_scopes r = ak_scopes old)
    \<and> ak_revoked r = None \<and> ak_hash r = mac (rawKey sec1)"
proof -
  let ?u = "\<lambda>r. r\<lparr>ak_revoked := Some t1, ak_rotated := Some t1\<rparr>"
  have c: "count_where (key_rotatable i uid) (ks_rows s) = 1"
    using assms(1) unfolding rotateApiKey_def by (simp split: if_splits)
  obtain old where old: "key_by i s = Some old"
    using assms(1) c by (cases "key_by i s") (simp_all add: rotateApiKey_def)
  let ?n = "new_key mac t1 sec1 uid (ak_scopes old) (Some t1) (set_key (key_rotatable i uid) ?u s)"
  have "rotateApiKey mac t1 sec1 i uid s = (drop_later (ak_hash old) (audit_key ''api_key.rotated'' uid (ak_id ?n) (add_key ?n (set_key (key_rotatable i uid) ?u s))), Some ?n)"
    using c old unfolding rotateApiKey_def Let_def by simp
  then have e: "(s1, Some r) = (drop_later (ak_hash old) (audit_key ''api_key.rotated'' uid (ak_id ?n) (add_key ?n (set_key (key_rotatable i uid) ?u s))), Some ?n)"
    unfolding assms(1) .
  then have r: "r = ?n" by simp
  from e have s1': "s1 = drop_later (ak_hash old) (audit_key ''api_key.rotated'' uid (ak_id ?n) (add_key ?n (set_key (key_rotatable i uid) ?u s)))"
    by (rule Pair_inject)
  have s1: "ks_rows s1 = update_where (key_rotatable i uid) ?u (ks_rows s) @ [r]"
    unfolding s1' r by (simp add: drop_later_def audit_key_def add_key_def) (simp add: set_key_def)
  have "ak_id r = show_nat (ks_seq s)" by (simp add: r new_key_def set_key_def del: show_nat.simps)
  then have r': "\<not> key_rotatable i uid r" using assms(3) unfolding key_rotatable_def by metis
  have "\<not> key_rotatable i uid x" if "x \<in> set (ks_rows s1)" for x
  proof (cases "x = r")
    case False
    then have "x \<in> set (update_where (key_rotatable i uid) ?u (ks_rows s))" using that unfolding s1 by simp
    then obtain y where "x = (if key_rotatable i uid y then ?u y else y)" unfolding update_where_def set_map by blast
    then show ?thesis by (cases "key_rotatable i uid y") (simp_all add: key_rotatable_def)
  qed (use r' in blast)
  then have "count_where (key_rotatable i uid) (ks_rows s1) = 0" by (simp add: count_where_def)
  then show ?thesis using old by (simp add: rotateApiKey_def r new_key_def del: show_nat.simps)
qed

section \<open>Witnesses\<close>

definition demo_token :: string where "demo_token = KEY_PREFIX @ ''x''"

definition demo_key :: key_row where
  "demo_key = \<lparr>ak_id = ''k'', ak_user = ''u'', ak_prefix = [], ak_hash = demo_token, ak_scopes = [KS_read], ak_created = 0,
     ak_rotated = None, ak_last_used = None, ak_expires = Some 1000000, ak_revoked = None\<rparr>"

definition demo_keys :: key_state where
  "demo_keys = \<lparr>ks_rows = [demo_key], ks_active = (\<lambda>u. True), ks_cache = (\<lambda>h. None), ks_reading = [], ks_drops = [], ks_seq = 0, ks_audit = []\<rparr>"

lemma demo_token_starts [simp]: "starts_with KEY_PREFIX demo_token"
  by (simp add: demo_token_def starts_with_def)

definition demo_before :: "(time \<times> key_event) list" where
  "demo_before = [(0, K_lookup demo_token), (1, K_store 0), (2, K_revoke ''k'' ''u'')]"

lemmas key_eval = key_step_def verify_lookup_def verify_store_def revokeApiKey_def revoke_by_def drop_later_def audit_key_def set_key_def
  drop_entry_def key_by_def key_row_ok_def past_def cached_of_def API_KEY_CACHE_TTL_SEC_def demo_keys_def demo_key_def demo_before_def Let_def

lemma accepted_key_was_valid_witness:
  "\<exists>r \<in> set (ks_rows demo_keys). ak_revoked r = None \<and> ak_user r = ''u''"
proof -
  let ?es = "[(0, K_lookup demo_token), (1, K_store 0)]" and ?v = "\<lparr>vk_id = ''k'', vk_user = ''u'', vk_scopes = [KS_read]\<rparr>"
  obtain s acc where r: "key_run (\<lambda>x. x) ?es demo_keys = (s, acc)" by (cases "key_run (\<lambda>x. x) ?es demo_keys")
  have a: "(1, demo_token, ?v) \<in> set acc" using r by (simp add: key_eval) (auto simp: key_eval)
  have c: "ks_cache demo_keys = (\<lambda>h. None)" "ks_reading demo_keys = []" by (simp_all add: demo_keys_def)
  obtain pre u token post row where e: "?es = pre @ (u, K_lookup token) # post"
      and row: "row \<in> set (ks_rows (fst (key_run (\<lambda>x. x) pre demo_keys)))" "ak_revoked row = None" "ak_user row = ''u''"
    using accepted_key_was_valid [OF c r a] by auto
  have "pre = []" using e by (cases pre) (auto simp: Cons_eq_append_conv)
  then show ?thesis using row by auto
qed

lemma revoked_key_dies_witness:
  "ks_cache (fst (key_run (\<lambda>x. x) demo_before demo_keys)) demo_token \<noteq> None \<and> (3 :: time) < 2 + 60000"
proof -
  let ?v = "\<lparr>vk_id = ''k'', vk_user = ''u'', vk_scopes = [KS_read]\<rparr>" and ?es = "[(3, K_lookup demo_token)]"
  obtain s acc0 where r: "key_run (\<lambda>x. x) demo_before demo_keys = (s, acc0)" by (cases "key_run (\<lambda>x. x) demo_before demo_keys")
  obtain s' acc where r': "key_run (\<lambda>x. x) ?es s = (s', acc)" by (cases "key_run (\<lambda>x. x) ?es s")
  have c: "ks_cache demo_keys = (\<lambda>h. None)" by (simp add: demo_keys_def)
  have T: "\<forall>x \<in> set demo_before. fst x \<le> (2 :: time)" by (simp add: demo_before_def)
  have d: "key_dead demo_token s" using r by (auto simp: key_eval key_dead_def)
  have m: "\<forall>x \<in> set ?es. \<not> mints (\<lambda>x. x) demo_token (snd x)" by (simp add: mints_def)
  have a: "(3, demo_token, ?v) \<in> set acc" using r r' by (auto simp: key_eval)
  show ?thesis using revoked_key_dies [OF c r T d r' m a] r by simp
qed

lemma revoked_key_accepted_after_race_witness:
  "\<exists>s' acc. key_run (\<lambda>x. x) [(1, K_lookup demo_token), (2, K_revoke ''k'' ''u''), (3, K_drop demo_token), (4, K_store 0), (5, K_lookup demo_token)] demo_keys
     = (s', acc) \<and> (5, demo_token, \<lparr>vk_id = ''k'', vk_user = ''u'', vk_scopes = [KS_read]\<rparr>) \<in> set acc"
proof -
  have k: "ak_id demo_key = ''k''" "ak_user demo_key = ''u''" "ck_verified (cached_of demo_key) = \<lparr>vk_id = ''k'', vk_user = ''u'', vk_scopes = [KS_read]\<rparr>"
    by (simp_all add: demo_key_def cached_of_def)
  obtain s' acc where r: "key_run (\<lambda>x. x) [(1, K_lookup demo_token), (2, K_revoke (ak_id demo_key) (ak_user demo_key)),
      (3, K_drop ((\<lambda>x. x) demo_token)), (4, K_store 0), (5, K_lookup demo_token)] demo_keys = (s', acc)" by fastforce
  have "(5, demo_token, ck_verified (cached_of demo_key)) \<in> set acc"
    using revoked_key_accepted_after_race [OF _ _ _ demo_token_starts _ _ _ _ r]
    by (simp add: demo_keys_def key_by_def key_row_ok_def past_def demo_key_def)
  then show ?thesis using r unfolding k by blast
qed

end
