(* ===== verification/Cache_Store.thy ===== *)
theory Cache_Store
  imports Prelude
begin

text \<open>
  \<open>lib/cache/\<close>: the cache seam and the in-process LRU cache (\<open>memory.ts\<close>), with the map with deadlines it
  refines, and the no-op driver (\<open>noop.ts\<close>). The other drivers are in theory \<open>Cache_Drivers\<close>. A cached value is a JSON value; \<open>null\<close> and
  \<open>undefined\<close> are \<open>JNull\<close>.
\<close>

section \<open>JavaScript maps\<close>

text \<open>A \<open>Map\<close> keeps its keys in insertion order; \<open>set\<close> on a present key keeps its place.\<close>

definition js_delete :: "'k \<Rightarrow> ('k \<times> 'v) list \<Rightarrow> ('k \<times> 'v) list" where
  "js_delete k xs = filter (\<lambda>p. fst p \<noteq> k) xs"

definition js_put :: "'k \<Rightarrow> 'v \<Rightarrow> ('k \<times> 'v) list \<Rightarrow> ('k \<times> 'v) list" where
  "js_put k v xs = (if map_of xs k = None then xs @ [(k, v)] else map (\<lambda>p. if fst p = k then (k, v) else p) xs)"

section \<open>The in-process cache\<close>

type_synonym cell = "json \<times> time"

record memory_cache =
  mc_store :: "(string \<times> cell) list"
  mc_max :: int

definition DEFAULT_MAX_ENTRIES :: int where "DEFAULT_MAX_ENTRIES = 10000"

definition empty_cache :: "int \<Rightarrow> memory_cache" where
  "empty_cache n = \<lparr>mc_store = [], mc_max = n\<rparr>"

definition mc_read :: "time \<Rightarrow> string \<Rightarrow> memory_cache \<Rightarrow> memory_cache \<times> cell option" where
  "mc_read t k m =
     (case map_of (mc_store m) k of
        None \<Rightarrow> (m, None)
      | Some c \<Rightarrow>
          (if snd c \<le> t then (m\<lparr>mc_store := js_delete k (mc_store m)\<rparr>, None)
           else (m\<lparr>mc_store := js_put k c (js_delete k (mc_store m))\<rparr>, Some c)))"

definition mc_get :: "time \<Rightarrow> string \<Rightarrow> memory_cache \<Rightarrow> memory_cache \<times> json" where
  "mc_get t k m = (case mc_read t k m of (m', c) \<Rightarrow> (m', case c of None \<Rightarrow> JNull | Some (v, e) \<Rightarrow> v))"

fun mc_evict :: "int \<Rightarrow> (string \<times> cell) list \<Rightarrow> (string \<times> cell) list" where
  "mc_evict n [] = []"
| "mc_evict n (x # xs) = (if int (length (x # xs)) > n then mc_evict n xs else x # xs)"

definition mc_set :: "time \<Rightarrow> string \<Rightarrow> json \<Rightarrow> int \<Rightarrow> memory_cache \<Rightarrow> memory_cache" where
  "mc_set t k v ttl m =
     (if ttl \<le> 0 then m
      else m\<lparr>mc_store := mc_evict (mc_max m) (js_put k (v, t + ttl * 1000) (js_delete k (mc_store m)))\<rparr>)"

definition mc_del :: "string list \<Rightarrow> memory_cache \<Rightarrow> memory_cache" where
  "mc_del ks m = fold (\<lambda>k m. m\<lparr>mc_store := js_delete k (mc_store m)\<rparr>) ks m"

definition mc_incr :: "time \<Rightarrow> string \<Rightarrow> int \<Rightarrow> memory_cache \<Rightarrow> memory_cache \<times> json" where
  "mc_incr t k ttl m =
     (case mc_read t k m of
        (m', Some (JNum x, e)) \<Rightarrow> (m'\<lparr>mc_store := js_put k (JNum (x + 1), e) (mc_store m')\<rparr>, JNum (x + 1))
      | (m', _) \<Rightarrow> (m'\<lparr>mc_store := js_put k (JNum 1, t + ttl * 1000) (mc_store m')\<rparr>, JNum 1))"

definition mc_size :: "memory_cache \<Rightarrow> nat" where
  "mc_size m = length (mc_store m)"

definition mc_clear :: "memory_cache \<Rightarrow> memory_cache" where
  "mc_clear m = m\<lparr>mc_store := []\<rparr>"

section \<open>The operations of a provider\<close>

datatype cache_op = Op_get string | Op_set string json int | Op_del "string list" | Op_incr string int

text \<open>The answer of \<open>set\<close> and \<open>del\<close> is \<open>undefined\<close>.\<close>

fun memory_step :: "time \<Rightarrow> cache_op \<Rightarrow> memory_cache \<Rightarrow> memory_cache \<times> json" where
  "memory_step t (Op_get k) m = mc_get t k m"
| "memory_step t (Op_set k v ttl) m = (mc_set t k v ttl m, JNull)"
| "memory_step t (Op_del ks) m = (mc_del ks m, JNull)"
| "memory_step t (Op_incr k ttl) m = mc_incr t k ttl m"

fun noop_step :: "time \<Rightarrow> cache_op \<Rightarrow> unit \<Rightarrow> unit \<times> json" where
  "noop_step t op s = (s, JNull)"

fun cache_run :: "(time \<Rightarrow> cache_op \<Rightarrow> 's \<Rightarrow> 's \<times> json) \<Rightarrow> (time \<times> cache_op) list \<Rightarrow> 's \<Rightarrow> 's \<times> json list" where
  "cache_run step [] s = (s, [])"
| "cache_run step ((t, op) # ops) s =
     (case step t op s of (s', a) \<Rightarrow> (case cache_run step ops s' of (s'', as) \<Rightarrow> (s'', a # as)))"

section \<open>The abstract cache: a map with deadlines\<close>

type_synonym ttl_map = "string \<Rightarrow> cell option"

definition unexpired :: "time \<Rightarrow> ttl_map \<Rightarrow> ttl_map" where
  "unexpired t \<sigma> k = (case \<sigma> k of None \<Rightarrow> None | Some c \<Rightarrow> if snd c \<le> t then None else Some c)"

definition live :: "time \<Rightarrow> memory_cache \<Rightarrow> ttl_map" where
  "live t m = unexpired t (map_of (mc_store m))"

fun ttl_step :: "time \<Rightarrow> cache_op \<Rightarrow> ttl_map \<Rightarrow> ttl_map \<times> json" where
  "ttl_step t (Op_get k) \<sigma> = (\<sigma>, case unexpired t \<sigma> k of None \<Rightarrow> JNull | Some c \<Rightarrow> fst c)"
| "ttl_step t (Op_set k v ttl) \<sigma> = (if ttl \<le> 0 then \<sigma> else \<sigma>(k \<mapsto> (v, t + ttl * 1000)), JNull)"
| "ttl_step t (Op_del ks) \<sigma> = (\<sigma> |` (- set ks), JNull)"
| "ttl_step t (Op_incr k ttl) \<sigma> =
     (case unexpired t \<sigma> k of
        Some (JNum x, e) \<Rightarrow> (\<sigma>(k \<mapsto> (JNum (x + 1), e)), JNum (x + 1))
      | _ \<Rightarrow> (\<sigma>(k \<mapsto> (JNum 1, t + ttl * 1000)), JNum 1))"

text \<open>The keys an operation may add.\<close>

fun op_keys :: "cache_op \<Rightarrow> string set" where
  "op_keys (Op_get k) = {}"
| "op_keys (Op_set k v ttl) = {k}"
| "op_keys (Op_del ks) = {}"
| "op_keys (Op_incr k ttl) = {k}"

section \<open>Facts about maps\<close>

lemma js_delete_of [simp]: "map_of (js_delete k xs) = (map_of xs)(k := None)"
proof (rule ext)
  show "map_of (js_delete k xs) j = ((map_of xs)(k := None)) j" for j
    by (induction xs) (auto simp: js_delete_def)
qed

lemma js_delete_keys: "distinct (map fst xs) \<Longrightarrow> distinct (map fst (js_delete k xs))"
  by (induction xs) (auto simp: js_delete_def)

lemma js_delete_set: "set (js_delete k xs) = {p \<in> set xs. fst p \<noteq> k}"
  by (auto simp: js_delete_def)

lemma put_fresh [simp]: "js_put k v (js_delete k xs) = js_delete k xs @ [(k, v)]"
  by (simp add: js_put_def)

lemma js_put_of [simp]: "map_of (js_put k v xs) = (map_of xs)(k \<mapsto> v)"
proof (cases "map_of xs k")
  case None
  then show ?thesis by (auto simp: js_put_def map_of_append fun_eq_iff map_add_def split: option.split)
next
  case (Some w)
  have "map_of (map (\<lambda>p. if fst p = k then (k, v) else p) xs) j = (if j = k \<and> map_of xs k \<noteq> None then Some v else map_of xs j)" for j
    by (induction xs) auto
  with Some show ?thesis by (auto simp: js_put_def fun_eq_iff)
qed

lemma js_put_keys: "distinct (map fst xs) \<Longrightarrow> distinct (map fst (js_put k v xs))"
proof -
  have m: "map fst (map (\<lambda>p. if fst p = k then (k, v) else p) xs) = map fst xs" by (induction xs) auto
  assume "distinct (map fst xs)"
  moreover have "map_of xs k = None \<Longrightarrow> k \<notin> fst ` set xs" by (simp add: map_of_eq_None_iff)
  ultimately show ?thesis by (cases "map_of xs k") (simp_all add: js_put_def m del: map_map)
qed

lemma evict_suffix: "\<exists>ys. xs = ys @ mc_evict n xs"
proof (induction n xs rule: mc_evict.induct)
  case (2 n x xs)
  then show ?case by (cases "int (length (x # xs)) > n") (metis append_Cons mc_evict.simps(2), simp)
qed simp

lemma evict_length: "0 \<le> n \<Longrightarrow> int (length (mc_evict n xs)) = min (int (length xs)) n"
  by (induction n xs rule: mc_evict.induct) auto

lemma evict_id: "int (length xs) \<le> n \<Longrightarrow> mc_evict n xs = xs"
  by (cases xs) auto

lemma evict_keys: "distinct (map fst xs) \<Longrightarrow> distinct (map fst (mc_evict n xs))"
  using evict_suffix [of xs n] by (metis distinct_append map_append)

lemma evict_le: "distinct (map fst xs) \<Longrightarrow> map_of (mc_evict n xs) \<subseteq>\<^sub>m map_of xs"
proof -
  obtain ys where ys: "xs = ys @ mc_evict n xs" using evict_suffix by blast
  assume "distinct (map fst xs)"
  then have d: "distinct (map fst (ys @ mc_evict n xs))" using ys by simp
  have "map_of xs k = Some c" if "map_of (mc_evict n xs) k = Some c" for k c
  proof -
    have "(k, c) \<in> set (ys @ mc_evict n xs)" using that by (auto dest: map_of_SomeD)
    with d show ?thesis using ys by (metis map_of_is_SomeI)
  qed
  then show ?thesis by (auto simp: map_le_def dom_def)
qed

section \<open>The cache refines the map with deadlines\<close>

definition cache_wf :: "memory_cache \<Rightarrow> bool" where
  "cache_wf m \<longleftrightarrow> distinct (map fst (mc_store m))"

definition cache_keys :: "memory_cache \<Rightarrow> string set" where
  "cache_keys m = fst ` set (mc_store m)"

text \<open>From time \<open>t\<close> on, both hold the same values; or the cache holds some of them.\<close>

definition agrees :: "time \<Rightarrow> memory_cache \<Rightarrow> ttl_map \<Rightarrow> bool" where
  "agrees t m \<sigma> \<longleftrightarrow> (\<forall>t' \<ge> t. live t' m = unexpired t' \<sigma>)"

definition forgets :: "time \<Rightarrow> memory_cache \<Rightarrow> ttl_map \<Rightarrow> bool" where
  "forgets t m \<sigma> \<longleftrightarrow> (\<forall>t' \<ge> t. live t' m \<subseteq>\<^sub>m unexpired t' \<sigma>)"

lemma unexpired_upd [simp]:
  "unexpired t (\<sigma>(k := x)) = (unexpired t \<sigma>)(k := (case x of None \<Rightarrow> None | Some c \<Rightarrow> if snd c \<le> t then None else Some c))"
  by (auto simp: unexpired_def fun_eq_iff)

lemma unexpired_restrict [simp]: "unexpired t (\<sigma> |` A) = unexpired t \<sigma> |` A"
  by (auto simp: unexpired_def fun_eq_iff restrict_map_def)

lemma unexpired_twice: "t \<le> t' \<Longrightarrow> unexpired t' \<sigma> k = Some c \<Longrightarrow> unexpired t \<sigma> k = Some c"
  by (auto simp: unexpired_def split: option.splits if_splits)

lemma unexpired_le: "\<sigma> \<subseteq>\<^sub>m \<sigma>' \<Longrightarrow> unexpired t \<sigma> \<subseteq>\<^sub>m unexpired t \<sigma>'"
  by (force simp: unexpired_def map_le_def dom_def split: option.splits if_splits)

lemma mc_read_spec:
  assumes "mc_read t k m = (m', c)" and "cache_wf m"
  shows "c = live t m k" and "t \<le> t' \<Longrightarrow> live t' m' = live t' m" and "cache_wf m'" and "cache_keys m' \<subseteq> cache_keys m"
    and "mc_max m' = mc_max m"
    and "c \<noteq> None \<Longrightarrow> map_of (mc_store m') k = c"
    and "c = None \<Longrightarrow> map_of (mc_store m') k = None"
proof -
  show "c = live t m k" using assms(1) by (auto simp: mc_read_def live_def unexpired_def split: option.splits if_splits)
  show "t \<le> t' \<Longrightarrow> live t' m' = live t' m"
    using assms(1) by (auto simp: mc_read_def live_def unexpired_def fun_eq_iff split: option.splits if_splits)
  show "cache_wf m'"
    using assms js_delete_keys [of "mc_store m" k] js_delete_set [of k "mc_store m"]
    by (auto simp: mc_read_def cache_wf_def split: option.splits if_splits)
  show "cache_keys m' \<subseteq> cache_keys m"
    using assms(1) by (auto simp: mc_read_def cache_keys_def dom_map_of_conv_image_fst [symmetric] split: option.splits if_splits)
  show "mc_max m' = mc_max m" "c \<noteq> None \<Longrightarrow> map_of (mc_store m') k = c" "c = None \<Longrightarrow> map_of (mc_store m') k = None"
    using assms(1) by (auto simp: mc_read_def map_add_def split: option.splits if_splits)
qed

lemma keys_dom: "cache_keys m = dom (map_of (mc_store m))"
  by (simp add: cache_keys_def dom_map_of_conv_image_fst)

lemma wf_size: "cache_wf m \<Longrightarrow> cache_keys m \<subseteq> K \<Longrightarrow> finite K \<Longrightarrow> length (mc_store m) \<le> card K"
  unfolding cache_wf_def cache_keys_def by (metis card_mono distinct_card length_map list.set_map)

text \<open>One operation: the parts that do not depend on the capacity.\<close>

lemma step_keys:
  assumes "memory_step t op m = (m', a)" and "cache_wf m"
  shows "cache_wf m'" and "cache_keys m' \<subseteq> cache_keys m \<union> op_keys op" and "mc_max m' = mc_max m"
proof -
  have del: "cache_wf (mc_del ks m) \<and> cache_keys (mc_del ks m) \<subseteq> cache_keys m \<and> mc_max (mc_del ks m) = mc_max m"
    if "cache_wf m" for ks m
    using that
  proof (induction ks arbitrary: m)
    case (Cons k ks)
    let ?m = "m\<lparr>mc_store := js_delete k (mc_store m)\<rparr>"
    have top: "mc_del (k # ks) m = mc_del ks ?m" by (simp add: mc_del_def)
    have "cache_wf ?m" using Cons.prems by (simp add: cache_wf_def js_delete_keys)
    moreover have "cache_keys ?m \<subseteq> cache_keys m" by (auto simp: keys_dom)
    ultimately show ?case unfolding top using Cons.IH [of ?m] by auto
  qed (simp add: mc_del_def)
  have set_wf: "cache_wf (mc_set t k v ttl m)" "cache_keys (mc_set t k v ttl m) \<subseteq> insert k (cache_keys m)"
    "mc_max (mc_set t k v ttl m) = mc_max m" for k v ttl
  proof -
    let ?xs = "js_put k (v, t + ttl * 1000) (js_delete k (mc_store m))"
    have d: "distinct (map fst ?xs)"
      by (rule js_put_keys) (use assms(2) in \<open>simp add: cache_wf_def js_delete_keys\<close>)
    then show "cache_wf (mc_set t k v ttl m)"
      using assms(2) evict_keys [OF d] by (simp add: mc_set_def cache_wf_def)
    have "dom (map_of (mc_evict (mc_max m) ?xs)) \<subseteq> dom (map_of ?xs)" by (rule map_le_implies_dom_le [OF evict_le [OF d]])
    then show "cache_keys (mc_set t k v ttl m) \<subseteq> insert k (cache_keys m)"
      unfolding keys_dom mc_set_def by (cases "ttl \<le> 0") auto
    show "mc_max (mc_set t k v ttl m) = mc_max m" by (simp add: mc_set_def)
  qed
  have get: "cache_wf (fst (mc_get t k m)) \<and> cache_keys (fst (mc_get t k m)) \<subseteq> cache_keys m \<and> mc_max (fst (mc_get t k m)) = mc_max m" for k
    using mc_read_spec(3-5) [OF _ assms(2), of t k] by (simp add: mc_get_def split: prod.split)
  have inc: "cache_wf (fst (mc_incr t k ttl m)) \<and> cache_keys (fst (mc_incr t k ttl m)) \<subseteq> insert k (cache_keys m)
      \<and> mc_max (fst (mc_incr t k ttl m)) = mc_max m" for k ttl
  proof -
    obtain m1 c where r: "mc_read t k m = (m1, c)" by force
    note sp = mc_read_spec(3-5) [OF r assms(2)]
    have "\<exists>w. fst (mc_incr t k ttl m) = m1\<lparr>mc_store := js_put k w (mc_store m1)\<rparr>"
      by (auto simp: mc_incr_def r split: option.split json.split prod.split)
    then obtain w where w: "fst (mc_incr t k ttl m) = m1\<lparr>mc_store := js_put k w (mc_store m1)\<rparr>" by blast
    have "cache_keys (m1\<lparr>mc_store := js_put k w (mc_store m1)\<rparr>) = insert k (cache_keys m1)" by (simp add: keys_dom)
    then show ?thesis unfolding w using sp js_put_keys [of "mc_store m1" k] by (auto simp: cache_wf_def)
  qed
  have m': "m' = fst (memory_step t op m)" using assms(1) by simp
  have "cache_wf m' \<and> cache_keys m' \<subseteq> cache_keys m \<union> op_keys op \<and> mc_max m' = mc_max m"
  proof (cases op)
    case (Op_get k)
    then show ?thesis unfolding m' using get [of k] by simp
  next
    case (Op_set k v ttl)
    then show ?thesis unfolding m' using set_wf [of k v ttl] by simp
  next
    case (Op_del ks)
    then show ?thesis unfolding m' using del [OF assms(2), of ks] by simp
  next
    case (Op_incr k ttl)
    then show ?thesis unfolding m' using inc [of k ttl] by simp
  qed
  then show "cache_wf m'" "cache_keys m' \<subseteq> cache_keys m \<union> op_keys op" "mc_max m' = mc_max m" by simp_all
qed

text \<open>Values: what the store holds after each operation, seen from any later time.\<close>

lemma live_put:
  "map_of xs = (map_of (mc_store m))(k \<mapsto> c) \<Longrightarrow> live t (m\<lparr>mc_store := xs\<rparr>) = (live t m)(k := if snd c \<le> t then None else Some c)"
  by (simp add: live_def)

lemma del_live: "live t (mc_del ks m) = live t m |` (- set ks)"
proof (induction ks arbitrary: m)
  case (Cons k ks)
  let ?m = "m\<lparr>mc_store := js_delete k (mc_store m)\<rparr>"
  have "live t ?m = (live t m)(k := None)" by (simp add: live_def)
  moreover have "mc_del (k # ks) m = mc_del ks ?m" by (simp add: mc_del_def)
  ultimately show ?case using Cons.IH [of ?m] by (auto simp: restrict_map_def fun_eq_iff)
qed (simp add: mc_del_def restrict_map_def)

lemma set_live:
  fixes t t' :: time and v :: json
  assumes "cache_wf m" and "0 < ttl"
  defines "c \<equiv> (v, t + ttl * 1000)"
  shows "live t' (mc_set t k v ttl m) \<subseteq>\<^sub>m (live t' m)(k := if snd c \<le> t' then None else Some c)"
    and "int (length (js_put k c (js_delete k (mc_store m)))) \<le> mc_max m
         \<Longrightarrow> live t' (mc_set t k v ttl m) = (live t' m)(k := if snd c \<le> t' then None else Some c)"
proof -
  let ?xs = "js_put k c (js_delete k (mc_store m))"
  have d: "distinct (map fst ?xs)"
    by (rule js_put_keys) (use assms(1) in \<open>simp add: cache_wf_def js_delete_keys\<close>)
  have of: "map_of ?xs = (map_of (mc_store m))(k \<mapsto> c)" by (simp only: js_put_of js_delete_of fun_upd_upd)
  have st: "mc_set t k v ttl m = m\<lparr>mc_store := mc_evict (mc_max m) ?xs\<rparr>" using assms(2) by (simp add: mc_set_def c_def)
  have lv: "live t' (m\<lparr>mc_store := ?xs\<rparr>) = (live t' m)(k := if snd c \<le> t' then None else Some c)"
    by (rule live_put [OF of])
  show "int (length ?xs) \<le> mc_max m \<Longrightarrow> live t' (mc_set t k v ttl m) = (live t' m)(k := if snd c \<le> t' then None else Some c)"
    unfolding st using lv by (simp add: evict_id del: put_fresh)
  have "live t' (m\<lparr>mc_store := mc_evict (mc_max m) ?xs\<rparr>) \<subseteq>\<^sub>m live t' (m\<lparr>mc_store := ?xs\<rparr>)"
    using unexpired_le [OF evict_le [OF d]] by (simp add: live_def del: put_fresh)
  then show "live t' (mc_set t k v ttl m) \<subseteq>\<^sub>m (live t' m)(k := if snd c \<le> t' then None else Some c)"
    unfolding st lv .
qed

lemma get_live:
  assumes "cache_wf m" and "t \<le> t'"
  shows "live t' (fst (mc_get t k m)) = live t' m"
    and "snd (mc_get t k m) = (case live t m k of None \<Rightarrow> JNull | Some c \<Rightarrow> fst c)"
  using mc_read_spec(1,2) [OF prod.collapse [symmetric] assms(1), where t = t and k = k] assms(2)
  by (auto simp: mc_get_def split: prod.split option.split)

lemma incr_live:
  assumes "cache_wf m" and "t \<le> t'"
  shows "live t' (fst (mc_incr t k ttl m))
      = (live t' m)(k := (case live t m k of
           Some (JNum x, e) \<Rightarrow> if e \<le> t' then None else Some (JNum (x + 1), e)
         | _ \<Rightarrow> if t + ttl * 1000 \<le> t' then None else Some (JNum 1, t + ttl * 1000)))"
    and "snd (mc_incr t k ttl m) = (case live t m k of Some (JNum x, e) \<Rightarrow> JNum (x + 1) | _ \<Rightarrow> JNum 1)"
proof -
  obtain m1 c where r: "mc_read t k m = (m1, c)" by force
  note sp = mc_read_spec [OF r assms(1)]
  have put: "live t' (m1\<lparr>mc_store := js_put k w (mc_store m1)\<rparr>) = (live t' m)(k := if snd w \<le> t' then None else Some w)" for w
    using live_put [where xs = "js_put k w (mc_store m1)" and m = m1 and k = k and c = w and t = t'] sp(2) [OF assms(2)] by simp
  show "live t' (fst (mc_incr t k ttl m))
      = (live t' m)(k := (case live t m k of
           Some (JNum x, e) \<Rightarrow> if e \<le> t' then None else Some (JNum (x + 1), e)
         | _ \<Rightarrow> if t + ttl * 1000 \<le> t' then None else Some (JNum 1, t + ttl * 1000)))"
    unfolding sp(1) [symmetric] by (simp add: mc_incr_def r put split: option.split json.split prod.split)
  show "snd (mc_incr t k ttl m) = (case live t m k of Some (JNum x, e) \<Rightarrow> JNum (x + 1) | _ \<Rightarrow> JNum 1)"
    unfolding sp(1) [symmetric] by (simp add: mc_incr_def r split: option.split json.split prod.split)
qed

text \<open>The abstract map after an operation, seen from a later time.\<close>

lemma ttl_live:
  assumes "t \<le> t'"
  shows "unexpired t' (fst (ttl_step t op \<sigma>)) =
     (case op of
        Op_get k \<Rightarrow> unexpired t' \<sigma>
      | Op_set k v ttl \<Rightarrow> if ttl \<le> 0 then unexpired t' \<sigma>
          else (unexpired t' \<sigma>)(k := if t + ttl * 1000 \<le> t' then None else Some (v, t + ttl * 1000))
      | Op_del ks \<Rightarrow> unexpired t' \<sigma> |` (- set ks)
      | Op_incr k ttl \<Rightarrow> (unexpired t' \<sigma>)(k := (case unexpired t \<sigma> k of
             Some (JNum x, e) \<Rightarrow> if e \<le> t' then None else Some (JNum (x + 1), e)
           | _ \<Rightarrow> if t + ttl * 1000 \<le> t' then None else Some (JNum 1, t + ttl * 1000))))"
  by (cases op) (simp_all split: option.split json.split prod.split)

lemma memory_live:
  assumes "cache_wf m" and "t \<le> t'" and room: "finite K" "cache_keys m \<union> op_keys op \<subseteq> K" "int (card K) \<le> mc_max m"
  shows "live t' (fst (memory_step t op m)) =
     (case op of
        Op_get k \<Rightarrow> live t' m
      | Op_set k v ttl \<Rightarrow> if ttl \<le> 0 then live t' m
          else (live t' m)(k := if t + ttl * 1000 \<le> t' then None else Some (v, t + ttl * 1000))
      | Op_del ks \<Rightarrow> live t' m |` (- set ks)
      | Op_incr k ttl \<Rightarrow> (live t' m)(k := (case live t m k of
             Some (JNum x, e) \<Rightarrow> if e \<le> t' then None else Some (JNum (x + 1), e)
           | _ \<Rightarrow> if t + ttl * 1000 \<le> t' then None else Some (JNum 1, t + ttl * 1000))))"
proof (cases op)
  case (Op_set k v ttl)
  show ?thesis
  proof (cases "ttl \<le> 0")
    case False
    let ?xs = "js_put k (v, t + ttl * 1000) (js_delete k (mc_store m))"
    have d: "distinct (map fst ?xs)"
      by (rule js_put_keys) (use assms(1) in \<open>simp add: cache_wf_def js_delete_keys\<close>)
    have "dom (map_of ?xs) \<subseteq> K" using room(2) Op_set by (auto simp: keys_dom simp del: put_fresh)
    then have "length ?xs \<le> card K"
      using d room(1) by (metis card_mono distinct_card dom_map_of_conv_image_fst length_map list.set_map)
    then have "int (length ?xs) \<le> mc_max m" using room(3) by simp
    then show ?thesis using set_live(2) [OF assms(1), of ttl k v t t'] False Op_set by simp
  qed (simp add: Op_set mc_set_def)
qed (simp_all add: get_live [OF assms(1,2)] incr_live [OF assms(1,2)] del_live)

lemma step_refines:
  assumes "cache_wf m" and "agrees t m \<sigma>" and "finite K" "cache_keys m \<union> op_keys op \<subseteq> K" "int (card K) \<le> mc_max m"
  shows "agrees t (fst (memory_step t op m)) (fst (ttl_step t op \<sigma>))"
    and "snd (memory_step t op m) = snd (ttl_step t op \<sigma>)"
proof -
  have now: "live t m = unexpired t \<sigma>" using assms(2) by (simp add: agrees_def)
  show "agrees t (fst (memory_step t op m)) (fst (ttl_step t op \<sigma>))"
    unfolding agrees_def
  proof (intro allI impI)
    fix t' assume t': "t \<le> t'"
    have "live t' m = unexpired t' \<sigma>" using assms(2) t' by (simp add: agrees_def)
    then show "live t' (fst (memory_step t op m)) = unexpired t' (fst (ttl_step t op \<sigma>))"
      by (simp only: memory_live [OF assms(1) t' assms(3-5)] ttl_live [OF t'] now)
  qed
  show "snd (memory_step t op m) = snd (ttl_step t op \<sigma>)"
    using get_live(2) [OF assms(1) order_refl, where t = t] incr_live(2) [OF assms(1) order_refl, where t = t] now
    by (cases op) (auto split: option.split json.split prod.split)
qed

text \<open>Times that never go back, from \<open>t\<close> on.\<close>

fun from_time :: "time \<Rightarrow> (time \<times> 'o) list \<Rightarrow> bool" where
  "from_time t [] = True"
| "from_time t ((t', op) # ops) = (t \<le> t' \<and> from_time t' ops)"

lemma agrees_later: "agrees t m \<sigma> \<Longrightarrow> t \<le> t' \<Longrightarrow> agrees t' m \<sigma>"
  by (simp add: agrees_def)

lemma run_refines:
  assumes "cache_wf m" and "agrees t m \<sigma>" and "from_time t ops" and "finite K"
    and "cache_keys m \<union> (\<Union>p \<in> set ops. op_keys (snd p)) \<subseteq> K" and "int (card K) \<le> mc_max m"
  shows "snd (cache_run memory_step ops m) = snd (cache_run ttl_step ops \<sigma>)
         \<and> (\<exists>t'. agrees t' (fst (cache_run memory_step ops m)) (fst (cache_run ttl_step ops \<sigma>)))"
  using assms
proof (induction ops arbitrary: t m \<sigma>)
  case (Cons p ops)
  obtain t1 op where p: "p = (t1, op)" by force
  obtain m1 a where m1: "memory_step t1 op m = (m1, a)" by force
  have ag: "agrees t1 m \<sigma>" using Cons.prems(2,3) p by (auto intro: agrees_later)
  have k: "cache_keys m \<union> op_keys op \<subseteq> K" using Cons.prems(5) p by auto
  note st = step_refines [OF Cons.prems(1) ag Cons.prems(4) k Cons.prems(6)]
  note kp = step_keys [OF m1 Cons.prems(1)]
  obtain \<sigma>1 b where s1: "ttl_step t1 op \<sigma> = (\<sigma>1, b)" by force
  have "agrees t1 m1 \<sigma>1" "a = b" using st m1 s1 by simp_all
  moreover have "cache_keys m1 \<union> (\<Union>p \<in> set ops. op_keys (snd p)) \<subseteq> K" using kp(2) k Cons.prems(5) by auto
  ultimately show ?case
    using Cons.IH [of m1 t1 \<sigma>1] kp(1,3) Cons.prems(3,4,6) p m1 s1 by (auto split: prod.split)
qed auto

section \<open>A full cache only forgets\<close>

fun is_counter :: "cache_op \<Rightarrow> bool" where
  "is_counter (Op_incr k ttl) = True"
| "is_counter op = False"

lemma map_le_upd: "f \<subseteq>\<^sub>m g \<Longrightarrow> f(k := x) \<subseteq>\<^sub>m g(k := x)"
  by (auto simp: map_le_def dom_def)

lemma map_le_restrict: "f \<subseteq>\<^sub>m g \<Longrightarrow> f |` A \<subseteq>\<^sub>m g |` A"
  by (auto simp: map_le_def dom_def restrict_map_def)

lemma step_forgets:
  assumes "cache_wf m" and "forgets t m \<sigma>" and "\<not> is_counter op"
  shows "forgets t (fst (memory_step t op m)) (fst (ttl_step t op \<sigma>))"
    and "snd (memory_step t op m) \<in> {JNull, snd (ttl_step t op \<sigma>)}"
proof -
  have le: "live t' m \<subseteq>\<^sub>m unexpired t' \<sigma>" if "t \<le> t'" for t' using assms(2) that by (simp add: forgets_def)
  show "forgets t (fst (memory_step t op m)) (fst (ttl_step t op \<sigma>))"
    unfolding forgets_def
  proof (intro allI impI)
    fix t' assume t': "t \<le> t'"
    show "live t' (fst (memory_step t op m)) \<subseteq>\<^sub>m unexpired t' (fst (ttl_step t op \<sigma>))"
    proof (cases op)
      case (Op_get k)
      then show ?thesis using get_live(1) [OF assms(1) t'] le [OF t'] by simp
    next
      case (Op_set k v ttl)
      show ?thesis
      proof (cases "ttl \<le> 0")
        case False
        then show ?thesis
          using map_le_trans [OF set_live(1) [OF assms(1)] map_le_upd [OF le [OF t']]] Op_set by simp
      qed (use le [OF t'] Op_set in \<open>simp add: mc_set_def\<close>)
    next
      case (Op_del ks)
      then show ?thesis using map_le_restrict [OF le [OF t']] by (simp add: del_live)
    next
      case (Op_incr k ttl)
      then show ?thesis using assms(3) by simp
    qed
  qed
  have "snd (mc_get t k m) = JNull \<or> (\<exists>c. unexpired t \<sigma> k = Some c \<and> snd (mc_get t k m) = fst c)" for k
    using get_live(2) [OF assms(1) order_refl, of t k] le [OF order_refl] by (auto simp: map_le_def dom_def split: option.splits) 
  then show "snd (memory_step t op m) \<in> {JNull, snd (ttl_step t op \<sigma>)}"
    using assms(3) by (cases op) (fastforce)+
qed

lemma run_forgets:
  assumes "cache_wf m" and "forgets t m \<sigma>" and "from_time t ops" and "list_all (\<lambda>p. \<not> is_counter (snd p)) ops"
  shows "list_all2 (\<lambda>a b. a = JNull \<or> a = b) (snd (cache_run memory_step ops m)) (snd (cache_run ttl_step ops \<sigma>))"
  using assms
proof (induction ops arbitrary: t m \<sigma>)
  case (Cons p ops)
  obtain t1 op where p: "p = (t1, op)" by force
  have fg: "forgets t1 m \<sigma>" and nc: "\<not> is_counter op" using Cons.prems p by (auto simp: forgets_def)
  note st = step_forgets [OF Cons.prems(1) fg nc]
  have "cache_wf (fst (memory_step t1 op m))" using step_keys(1) [OF prod.collapse [symmetric] Cons.prems(1)] by simp
  then show ?case using Cons.IH [OF _ st(1)] st(2) Cons.prems(3,4) p by (auto split: prod.split)
qed simp

section \<open>Least recently used\<close>

fun touches :: "cache_op \<Rightarrow> string set" where
  "touches (Op_get k) = {k}"
| "touches (Op_set k v ttl) = {k}"
| "touches (Op_del ks) = {}"
| "touches (Op_incr k ttl) = {k}"

text \<open>An operation that does not write or delete \<open>k\<close>.\<close>

fun spares :: "string \<Rightarrow> cache_op \<Rightarrow> bool" where
  "spares k (Op_get j) = True"
| "spares k (Op_set j v ttl) = (j \<noteq> k)"
| "spares k (Op_del ks) = (k \<notin> set ks)"
| "spares k (Op_incr j ttl) = (j \<noteq> k)"

text \<open>The entry \<open>k\<close> is in the store, and only entries of \<open>T\<close> are younger.\<close>

definition young :: "string \<Rightarrow> cell \<Rightarrow> string set \<Rightarrow> memory_cache \<Rightarrow> bool" where
  "young k c T m \<longleftrightarrow> cache_wf m \<and> (\<exists>pre post. mc_store m = pre @ (k, c) # post \<and> fst ` set post \<subseteq> T)"

lemma youngI: "cache_wf m \<Longrightarrow> mc_store m = pre @ (k, c) # post \<Longrightarrow> fst ` set post \<subseteq> T \<Longrightarrow> young k c T m"
  by (auto simp: young_def)

lemma evict_keeps:
  "int (length ys) \<le> n \<Longrightarrow> \<exists>pre'. mc_evict n (pre @ ys) = pre' @ ys"
proof (induction pre)
  case Nil
  then show ?case by (auto simp: evict_id)
qed auto

lemma delete_split:
  assumes "j \<noteq> k"
  shows "js_delete j (pre @ (k, c) # post) = js_delete j pre @ (k, c) # js_delete j post"
  using assms by (simp add: js_delete_def)

lemma young_delete:
  assumes "young k c T m" and "j \<noteq> k"
  shows "young k c T (m\<lparr>mc_store := js_delete j (mc_store m)\<rparr>)"
proof -
  obtain pre post where s: "mc_store m = pre @ (k, c) # post" "fst ` set post \<subseteq> T" using assms(1) by (auto simp: young_def)
  have "js_delete j (mc_store m) = js_delete j pre @ (k, c) # js_delete j post" using delete_split [OF assms(2)] s(1) by simp
  moreover have "fst ` set (js_delete j post) \<subseteq> T" using s(2) by (auto simp: js_delete_def)
  moreover have "cache_wf (m\<lparr>mc_store := js_delete j (mc_store m)\<rparr>)"
    using assms(1) by (simp add: young_def cache_wf_def js_delete_keys)
  ultimately show ?thesis unfolding young_def by auto
qed

lemma young_append:
  assumes "young k c T m" and "map_of (mc_store m) j = None"
  shows "young k c (insert j T) (m\<lparr>mc_store := mc_store m @ [(j, w)]\<rparr>)"
proof -
  obtain pre post where s: "mc_store m = pre @ (k, c) # post" "fst ` set post \<subseteq> T" using assms(1) by (auto simp: young_def)
  have "mc_store m @ [(j, w)] = pre @ (k, c) # (post @ [(j, w)])" using s(1) by simp
  moreover have "fst ` set (post @ [(j, w)]) \<subseteq> insert j T" using s(2) by auto
  moreover have "cache_wf (m\<lparr>mc_store := mc_store m @ [(j, w)]\<rparr>)"
    using assms by (auto simp: young_def cache_wf_def map_of_eq_None_iff)
  ultimately show ?thesis by (intro youngI [of _ pre k c "post @ [(j, w)]"]) simp_all
qed

lemma young_evict:
  assumes "young k c T m" and "finite T" and "int (card (T - {k})) < mc_max m"
  shows "young k c T (m\<lparr>mc_store := mc_evict (mc_max m) (mc_store m)\<rparr>)"
proof -
  obtain pre post where s: "mc_store m = pre @ (k, c) # post" "fst ` set post \<subseteq> T" using assms(1) by (auto simp: young_def)
  have d: "distinct (map fst (mc_store m))" using assms(1) by (simp add: young_def cache_wf_def)
  then have dp: "distinct (map fst post)" "k \<notin> fst ` set post" using s(1) by auto
  have "fst ` set post \<subseteq> T - {k}" using dp(2) s(2) by auto
  then have "card (fst ` set post) \<le> card (T - {k})" using assms(2) by (intro card_mono) simp_all
  then have "length post \<le> card (T - {k})" using distinct_card [OF dp(1)] by simp
  then have "int (length ((k, c) # post)) \<le> mc_max m" using assms(3) by simp
  from evict_keeps [OF this, of pre] obtain pre' where e: "mc_evict (mc_max m) (mc_store m) = pre' @ (k, c) # post"
    using s(1) by auto
  have "cache_wf (m\<lparr>mc_store := mc_evict (mc_max m) (mc_store m)\<rparr>)" using evict_keys [OF d] by (simp add: cache_wf_def)
  with e s(2) show ?thesis unfolding young_def by auto
qed

lemma young_read:
  assumes "young k c T m" and "t < snd c" and "mc_read t j m = (m', r)"
  shows "young k c (insert j T) m' \<and> mc_max m' = mc_max m"
proof (cases "j = k")
  case True
  obtain pre post where s: "mc_store m = pre @ (k, c) # post" using assms(1) by (auto simp: young_def)
  have d: "distinct (map fst (mc_store m))" using assms(1) by (simp add: young_def cache_wf_def)
  then have "map_of (mc_store m) k = Some c" using s by (intro map_of_is_SomeI) auto
  then have m': "m' = m\<lparr>mc_store := js_delete k (mc_store m) @ [(k, c)]\<rparr>" using assms(2,3) True by (simp add: mc_read_def)
  have "cache_wf m'" using mc_read_spec(3) [OF assms(3)] assms(1) by (simp add: young_def)
  moreover have "mc_store m' = js_delete k (mc_store m) @ (k, c) # []" by (simp add: m')
  ultimately have "young k c (insert j T) m'" by (rule youngI) simp
  then show ?thesis by (simp add: m')
next
  case False
  show ?thesis
  proof (cases "map_of (mc_store m) j")
    case None
    then have "m' = m" using assms(3) by (simp add: mc_read_def)
    then show ?thesis using assms(1) by (auto simp: young_def)
  next
    case (Some w)
    let ?m = "m\<lparr>mc_store := js_delete j (mc_store m)\<rparr>"
    have y: "young k c T ?m" by (rule young_delete [OF assms(1) False])
    then have y1: "young k c (insert j T) ?m" unfolding young_def by (meson order_trans subset_insertI)
    have y2: "young k c (insert j T) (?m\<lparr>mc_store := mc_store ?m @ [(j, w)]\<rparr>)" by (rule young_append [OF y]) simp
    show ?thesis using assms(3) Some y1 y2 by (auto simp: mc_read_def split: if_splits)
  qed
qed

lemma young_later: "young k c T m \<Longrightarrow> T \<subseteq> T' \<Longrightarrow> young k c T' m"
  unfolding young_def by (meson order_trans)

lemma young_put:
  assumes "young k c T m" and "j \<noteq> k"
  shows "young k c (insert j T) (m\<lparr>mc_store := js_put j w (mc_store m)\<rparr>)"
proof (cases "map_of (mc_store m) j")
  case None
  then show ?thesis using young_append [OF assms(1) None, of w] by (simp add: js_put_def)
next
  case (Some u)
  obtain pre post where s: "mc_store m = pre @ (k, c) # post" "fst ` set post \<subseteq> T" using assms(1) by (auto simp: young_def)
  let ?f = "\<lambda>p. if fst p = j then (j, w) else p"
  have "js_put j w (mc_store m) = map ?f pre @ (k, c) # map ?f post" using Some assms(2) s(1) by (simp add: js_put_def)
  moreover have "fst ` set (map ?f post) \<subseteq> insert j T" using s(2) by auto
  moreover have "cache_wf (m\<lparr>mc_store := js_put j w (mc_store m)\<rparr>)"
    using assms(1) by (simp add: young_def cache_wf_def js_put_keys)
  ultimately show ?thesis by (intro youngI [of _ "map ?f pre" k c "map ?f post"]) simp_all
qed

lemma young_step:
  assumes y: "young k c T m" and "t < snd c" and "spares k op" and "finite T" and "int (card ((T \<union> touches op) - {k})) < mc_max m"
  shows "young k c (T \<union> touches op) (fst (memory_step t op m)) \<and> mc_max (fst (memory_step t op m)) = mc_max m"
proof (cases op)
  case (Op_get j)
  then show ?thesis using young_read [OF y assms(2) prod.collapse [symmetric], of j] by (simp add: mc_get_def case_prod_beta)
next
  case (Op_set j v ttl)
  have jk: "j \<noteq> k" using assms(3) Op_set by simp
  show ?thesis
  proof (cases "ttl \<le> 0")
    case True
    then show ?thesis using young_later [OF y] Op_set by (auto simp: mc_set_def)
  next
    case False
    let ?m = "m\<lparr>mc_store := js_delete j (mc_store m)\<rparr>"
    let ?m1 = "?m\<lparr>mc_store := js_put j (v, t + ttl * 1000) (mc_store ?m)\<rparr>"
    have "young k c (insert j T) ?m1" by (rule young_put [OF young_delete [OF y jk] jk])
    from young_evict [OF this] assms(4,5) Op_set False show ?thesis by (simp add: mc_set_def del: put_fresh)
  qed
next
  case (Op_del ks)
  have "k \<notin> set ks" using assms(3) Op_del by simp
  then have "young k c T (mc_del ks m) \<and> mc_max (mc_del ks m) = mc_max m" using y
  proof (induction ks arbitrary: m)
    case (Cons j ks)
    have "mc_del (j # ks) m = mc_del ks (m\<lparr>mc_store := js_delete j (mc_store m)\<rparr>)" by (simp add: mc_del_def)
    then show ?case using Cons.IH [OF _ young_delete [OF Cons.prems(2)], of j] Cons.prems(1) by fastforce
  qed (simp add: mc_del_def)
  then show ?thesis using Op_del by simp
next
  case (Op_incr j ttl)
  have jk: "j \<noteq> k" using assms(3) Op_incr by simp
  obtain m1 r where r: "mc_read t j m = (m1, r)" by force
  note y1 = young_read [OF y assms(2) r]
  have "\<exists>w. fst (mc_incr t j ttl m) = m1\<lparr>mc_store := js_put j w (mc_store m1)\<rparr>"
    by (auto simp: mc_incr_def r split: option.split json.split prod.split)
  then show ?thesis using young_put [OF conjunct1 [OF y1] jk] y1 Op_incr by auto
qed

lemma run_young:
  assumes "young k c T m" and "list_all (\<lambda>p. spares k (snd p) \<and> fst p < snd c) ops" and "finite T"
    and "int (card ((T \<union> (\<Union>p \<in> set ops. touches (snd p))) - {k})) < mc_max m"
  shows "young k c (T \<union> (\<Union>p \<in> set ops. touches (snd p))) (fst (cache_run memory_step ops m))"
  using assms
proof (induction ops arbitrary: T m)
  case (Cons p ops)
  obtain t op where p: "p = (t, op)" by force
  have fin: "finite (touches q)" for q by (cases q) simp_all
  have "card ((T \<union> touches op) - {k}) \<le> card ((T \<union> (\<Union>p \<in> set (p # ops). touches (snd p))) - {k})"
    by (rule card_mono) (use Cons.prems(3) fin p in auto)
  then have le: "int (card ((T \<union> touches op) - {k})) < mc_max m" using Cons.prems(4) by simp
  have st: "young k c (T \<union> touches op) (fst (memory_step t op m)) \<and> mc_max (fst (memory_step t op m)) = mc_max m"
    by (rule young_step [OF Cons.prems(1) _ _ Cons.prems(3) le]) (use Cons.prems(2) p in simp_all)
  have eq: "T \<union> touches op \<union> (\<Union>p \<in> set ops. touches (snd p)) = T \<union> (\<Union>p \<in> set (p # ops). touches (snd p))"
    using p by auto
  from Cons.IH [of "T \<union> touches op" "fst (memory_step t op m)", unfolded eq] st Cons.prems p fin show ?case
    by (auto split: prod.split)
qed simp

section \<open>Properties of the in-process cache\<close>

text \<open>C24: while a run names no more keys than the cache may hold, its answers are exactly those of the
  abstract map with deadlines, whatever reads, writes, deletions and counters it mixes.\<close>

theorem memory_cache_is_ttl_map:
  assumes "from_time t ops" and "int (card (\<Union>p \<in> set ops. op_keys (snd p))) \<le> n"
  shows "snd (cache_run memory_step ops (empty_cache n)) = snd (cache_run ttl_step ops Map.empty)"
proof -
  let ?K = "\<Union>p \<in> set ops. op_keys (snd p)"
  have "finite (op_keys q)" for q by (cases q) simp_all
  moreover have "cache_wf (empty_cache n)" "agrees t (empty_cache n) Map.empty" "cache_keys (empty_cache n) = {}" "mc_max (empty_cache n) = n"
    by (simp_all add: cache_wf_def agrees_def live_def empty_cache_def cache_keys_def)
  ultimately show ?thesis using run_refines [of "empty_cache n" t Map.empty ops ?K] assms by simp
qed

text \<open>When it has to evict, the cache only forgets: every answer of a run without counters is that of the
  abstract map or a miss.\<close>

lemma full_cache_only_forgets:
  assumes "from_time t ops" and "list_all (\<lambda>p. \<not> is_counter (snd p)) ops"
  shows "list_all2 (\<lambda>a b. a = JNull \<or> a = b) (snd (cache_run memory_step ops (empty_cache n))) (snd (cache_run ttl_step ops Map.empty))"
  by (rule run_forgets [where t = t]) (use assms in \<open>simp_all add: cache_wf_def forgets_def live_def unexpired_def empty_cache_def\<close>)

text \<open>A value stays readable until its deadline as long as fewer other keys than the capacity were
  touched since, in whatever order: the eviction drops the least recently used.\<close>

lemma recently_used_is_kept:
  assumes "cache_wf m" and "0 < ttl" and "list_all (\<lambda>p. spares k (snd p) \<and> fst p < t + ttl * 1000) ops"
    and "int (card ((\<Union>p \<in> set ops. touches (snd p)) - {k})) < mc_max m" and "t' < t + ttl * 1000"
  shows "snd (mc_get t' k (fst (cache_run memory_step ops (mc_set t k v ttl m)))) = v"
proof -
  let ?c = "(v, t + ttl * 1000)"
  have wf: "cache_wf (mc_set t k v ttl m)" "mc_max (mc_set t k v ttl m) = mc_max m"
    using step_keys(1,3) [of t "Op_set k v ttl" m] assms(1) by simp_all
  have pos: "0 < mc_max m" using assms(4) by (metis of_nat_0_le_iff order_le_less_trans)
  have "\<exists>pre'. mc_evict (mc_max m) (js_delete k (mc_store m) @ [(k, ?c)]) = pre' @ [(k, ?c)]"
    by (rule evict_keeps) (use pos in simp)
  then have "young k ?c {} (mc_set t k v ttl m)"
    using wf(1) assms(2) by (auto simp: young_def mc_set_def)
  from run_young [OF this] assms(3,4) wf(2)
  have y: "young k ?c (\<Union>p \<in> set ops. touches (snd p)) (fst (cache_run memory_step ops (mc_set t k v ttl m)))" by simp
  then have w: "cache_wf (fst (cache_run memory_step ops (mc_set t k v ttl m)))"
    and "map_of (mc_store (fst (cache_run memory_step ops (mc_set t k v ttl m)))) k = Some ?c"
    by (auto simp: young_def cache_wf_def intro!: map_of_is_SomeI)
  then have "live t' (fst (cache_run memory_step ops (mc_set t k v ttl m))) k = Some ?c"
    using assms(5) by (simp add: live_def unexpired_def)
  then show ?thesis using get_live(2) [OF w order_refl, of t' k] by simp
qed

text \<open>Reads, writes and deletions keep the size within the capacity; a counter does not look at it.\<close>

lemma step_size:
  assumes "cache_wf m" and "0 \<le> mc_max m" and "\<not> is_counter op" and "int (mc_size m) \<le> mc_max m"
  shows "int (mc_size (fst (memory_step t op m))) \<le> mc_max m"
proof -
  have small: "length (mc_store x) \<le> length (mc_store m)" if "cache_wf x" "cache_keys x \<subseteq> cache_keys m" for x
    using wf_size [OF that(1) order_refl] that assms(1)
    by (metis cache_keys_def cache_wf_def distinct_card finite_imageI finite_set length_map list.set_map wf_size)
  show ?thesis
  proof (cases op)
    case (Op_set k v ttl)
    then show ?thesis using assms(2,4) evict_length [OF assms(2)] by (simp add: mc_size_def mc_set_def)
  next
    case (Op_get k)
    then show ?thesis using small step_keys(1,2) [OF prod.collapse [symmetric] assms(1), of t op] assms(4)
      by (fastforce simp: mc_size_def)
  next
    case (Op_del ks)
    then show ?thesis using small step_keys(1,2) [OF prod.collapse [symmetric] assms(1), of t op] assms(4)
      by (fastforce simp: mc_size_def)
  qed (use assms(3) in simp)
qed

text \<open>In a run of reads, writes and deletions the cache never holds more entries than its capacity.\<close>

lemma cache_stays_within_capacity:
  assumes "0 \<le> n" and "list_all (\<lambda>p. \<not> is_counter (snd p)) ops"
  shows "int (mc_size (fst (cache_run memory_step ops (empty_cache n)))) \<le> n"
proof -
  have "int (mc_size (fst (cache_run memory_step ops m))) \<le> n"
    if "cache_wf m" "mc_max m = n" "int (mc_size m) \<le> n" "list_all (\<lambda>p. \<not> is_counter (snd p)) ops" for m and ops
    using that
  proof (induction ops arbitrary: m)
    case (Cons p ops)
    obtain t op where p: "p = (t, op)" by force
    obtain m1 a where m1: "memory_step t op m = (m1, a)" by force
    have "int (mc_size m1) \<le> n" using step_size [OF Cons.prems(1), of op t] Cons.prems assms(1) p m1 by simp
    then show ?case using Cons.IH [of m1] step_keys(1,3) [OF m1 Cons.prems(1)] Cons.prems(2,4) p m1 by (auto split: prod.split)
  qed simp
  from this [of "empty_cache n" ops] show ?thesis using assms by (simp add: empty_cache_def cache_wf_def mc_size_def)
qed

text \<open>Counters of fresh keys grow the store past any capacity.\<close>

lemma counters_pass_capacity:
  assumes "distinct ks"
  shows "mc_size (fst (cache_run memory_step (map (\<lambda>k. (t, Op_incr k ttl)) ks) (empty_cache n))) = length ks"
proof -
  have "mc_size (fst (cache_run memory_step (map (\<lambda>k. (t, Op_incr k ttl)) ks) m)) = mc_size m + length ks"
    if "distinct ks" "cache_keys m \<inter> set ks = {}" for m
    using that
  proof (induction ks arbitrary: m)
    case (Cons k ks)
    have "map_of (mc_store m) k = None" using Cons.prems(2) by (auto simp: keys_dom)
    then have st: "memory_step t (Op_incr k ttl) m = (m\<lparr>mc_store := mc_store m @ [(k, (JNum 1, t + ttl * 1000))]\<rparr>, JNum 1)"
      by (simp add: mc_incr_def mc_read_def js_put_def)
    have "cache_keys (m\<lparr>mc_store := mc_store m @ [(k, (JNum 1, t + ttl * 1000))]\<rparr>) \<inter> set ks = {}"
      using Cons.prems by (auto simp: cache_keys_def)
    then show ?case using Cons.IH [of "m\<lparr>mc_store := mc_store m @ [(k, (JNum 1, t + ttl * 1000))]\<rparr>"] Cons.prems(1) st
      by (simp add: mc_size_def case_prod_beta)
  qed simp
  from this [OF assms, of "empty_cache n"] show ?thesis by (simp add: empty_cache_def cache_keys_def mc_size_def)
qed

section \<open>Instances\<close>

theorem memory_cache_is_ttl_map_witness:
  "snd (cache_run memory_step [(0, Op_set ''a'' JNull 1), (5, Op_incr ''c'' 1), (900, Op_get ''c''), (1005, Op_get ''c'')] (empty_cache 2))
     = [JNull, JNum 1, JNum 1, JNull]"
  using memory_cache_is_ttl_map [of 0 "[(0, Op_set ''a'' JNull 1), (5, Op_incr ''c'' 1), (900, Op_get ''c''), (1005, Op_get ''c'')]" 2]
  by (simp add: unexpired_def)

lemma full_cache_only_forgets_witness:
  "list_all2 (\<lambda>a b. a = JNull \<or> a = b)
     (snd (cache_run memory_step [(0, Op_set ''a'' (JBool True) 9), (1, Op_set ''b'' (JBool True) 9), (2, Op_get ''a'')] (empty_cache 1)))
     [JNull, JNull, JBool True]"
  using full_cache_only_forgets [of 0 "[(0, Op_set ''a'' (JBool True) 9), (1, Op_set ''b'' (JBool True) 9), (2, Op_get ''a'')]" 1]
  by (simp add: unexpired_def)

lemma recently_used_is_kept_witness:
  "snd (mc_get 3 ''a'' (fst (cache_run memory_step [(1, Op_set ''b'' JNull 9), (2, Op_get ''a''), (2, Op_set ''b'' JNull 9)]
     (mc_set 0 ''a'' (JBool True) 9 (empty_cache 2))))) = JBool True"
proof -
  have "{''b'', ''a'', ''b''} - {''a''} = {''b''}" by auto
  then show ?thesis by (intro recently_used_is_kept) (simp_all add: cache_wf_def empty_cache_def)
qed

lemma cache_stays_within_capacity_witness:
  "int (mc_size (fst (cache_run memory_step [(0, Op_set ''a'' JNull 9), (1, Op_set ''b'' JNull 9)] (empty_cache 1)))) \<le> 1"
  by (rule cache_stays_within_capacity) simp_all

end
