(* ===== verification/Cache_Drivers.thy ===== *)
theory Cache_Drivers
  imports Cache_Store
begin

text \<open>
  The drivers over the in-process cache: the Redis driver with its circuit breaker, the two
  tiers, and the read-through they share. The contract every driver keeps is the locale \<open>value_cache\<close>:
  a served value was put in, and is served no later than its deadline plus the slack of the driver.
  The Redis server is a record of its commands; what the network does to a command is its fate. A command
  whose caller gave up stays under way and may reach the server later, and other instances use the server too.
\<close>

section \<open>The circuit breaker\<close>

definition FAILURE_THRESHOLD :: int where "FAILURE_THRESHOLD = 5"
definition OPEN_MS :: int where "OPEN_MS = 30000"

record breaker =
  br_failures :: int
  br_opened :: time
  br_probing :: bool

definition closed_breaker :: breaker where
  "closed_breaker = \<lparr>br_failures = 0, br_opened = 0, br_probing = False\<rparr>"

definition circuitOpen :: "time \<Rightarrow> breaker \<Rightarrow> bool" where
  "circuitOpen t b \<longleftrightarrow> \<not> br_failures b < FAILURE_THRESHOLD \<and> t - br_opened b < OPEN_MS"

definition allowCall :: "time \<Rightarrow> breaker \<Rightarrow> breaker \<times> bool" where
  "allowCall t b =
     (if br_failures b < FAILURE_THRESHOLD then (b, True)
      else if t - br_opened b \<ge> OPEN_MS \<and> \<not> br_probing b then (b\<lparr>br_probing := True\<rparr>, True)
      else (b, False))"

definition recordSuccess :: "breaker \<Rightarrow> breaker" where
  "recordSuccess b = b\<lparr>br_failures := 0, br_probing := False\<rparr>"

definition recordFailure :: "time \<Rightarrow> breaker \<Rightarrow> breaker" where
  "recordFailure t b =
     (let n = br_failures b + 1
      in b\<lparr>br_failures := n, br_probing := False, br_opened := (if n = FAILURE_THRESHOLD then t else br_opened b)\<rparr>)"

section \<open>The Redis driver\<close>

definition OP_TIMEOUT_MS :: int where "OP_TIMEOUT_MS = 250"

text \<open>The commands the driver sends. A value survives \<open>JSON.stringify\<close> and \<open>JSON.parse\<close>.\<close>

record 'r server =
  rs_get :: "time \<Rightarrow> string \<Rightarrow> 'r \<Rightarrow> json option"
  rs_set :: "time \<Rightarrow> string \<Rightarrow> json \<Rightarrow> int \<Rightarrow> 'r \<Rightarrow> 'r"
  rs_del :: "string list \<Rightarrow> 'r \<Rightarrow> 'r"
  rs_incr :: "time \<Rightarrow> string \<Rightarrow> 'r \<Rightarrow> 'r \<times> int"
  rs_expire :: "time \<Rightarrow> string \<Rightarrow> int \<Rightarrow> 'r \<Rightarrow> 'r"

text \<open>
  What becomes of a command sent at a time: it is answered after \<open>nt_delay\<close> milliseconds, having reached the
  server after \<open>nt_land\<close>; it is lost; it is answered or fails only after the timeout and is still on its
  way then; or it stops after its first half.
\<close>

datatype fate = Answered | Lost | Too_late | Half_done

record network =
  nt_fate :: "time \<Rightarrow> fate"
  nt_delay :: "time \<Rightarrow> int"
  nt_land :: "time \<Rightarrow> int"

text \<open>The race with the timer: an answer after the timeout is no answer.\<close>

definition answers :: "network \<Rightarrow> time \<Rightarrow> bool" where
  "answers net t \<longleftrightarrow> nt_fate net t = Answered \<and> nt_delay net t \<le> OP_TIMEOUT_MS"

definition settles :: "network \<Rightarrow> time \<Rightarrow> time" where
  "settles net t = t + min (nt_delay net t) OP_TIMEOUT_MS"

text \<open>\<open>rd_late\<close>: the commands whose caller has given up, with the time they were sent; they may still reach the
  server, in any order.\<close>

record 'r redis =
  rd_server :: 'r
  rd_breaker :: breaker
  rd_late :: "(time \<times> cache_op) list"

definition redis_incr :: "'r server \<Rightarrow> time \<Rightarrow> string \<Rightarrow> int \<Rightarrow> 'r \<Rightarrow> 'r \<times> json" where
  "redis_incr srv t k ttl r =
     (case rs_incr srv t k r of
        (r1, n) \<Rightarrow> ((if n = 1 then rs_expire srv t k ttl r1 else r1), JNum (real_of_int n)))"

text \<open>The function given to \<open>guarded\<close>, executed by the server at a time, and its first half.\<close>

fun redis_run :: "'r server \<Rightarrow> time \<Rightarrow> cache_op \<Rightarrow> 'r \<Rightarrow> 'r \<times> json" where
  "redis_run srv t (Op_get k) r = (r, case rs_get srv t k r of None \<Rightarrow> JNull | Some v \<Rightarrow> v)"
| "redis_run srv t (Op_set k v ttl) r = (rs_set srv t k v ttl r, JNull)"
| "redis_run srv t (Op_del ks) r = (rs_del srv ks r, JNull)"
| "redis_run srv t (Op_incr k ttl) r = redis_incr srv t k ttl r"

fun redis_half :: "'r server \<Rightarrow> time \<Rightarrow> cache_op \<Rightarrow> 'r \<Rightarrow> 'r" where
  "redis_half srv t (Op_incr k ttl) r = fst (rs_incr srv t k r)"
| "redis_half srv t op r = r"

definition guarded :: "'r server \<Rightarrow> network \<Rightarrow> time \<Rightarrow> cache_op \<Rightarrow> json \<Rightarrow> 'r redis \<Rightarrow> 'r redis \<times> json" where
  "guarded srv net t op fallback s =
     (case allowCall t (rd_breaker s) of
        (b, False) \<Rightarrow> (s\<lparr>rd_breaker := b\<rparr>, fallback)
      | (b, True) \<Rightarrow>
          (let failed = recordFailure (settles net t) b; x = t + nt_land net t
           in if answers net t
              then (case redis_run srv x op (rd_server s) of (r, a) \<Rightarrow> (s\<lparr>rd_server := r, rd_breaker := recordSuccess b\<rparr>, a))
              else case nt_fate net t of
                     Lost \<Rightarrow> (s\<lparr>rd_breaker := failed\<rparr>, fallback)
                   | Half_done \<Rightarrow> (s\<lparr>rd_server := redis_half srv x op (rd_server s), rd_breaker := failed\<rparr>, fallback)
                   | _ \<Rightarrow> (s\<lparr>rd_late := rd_late s @ [(t, op)], rd_breaker := failed\<rparr>, fallback)))"

text \<open>What the driver sends at all.\<close>

fun redis_sends :: "cache_op \<Rightarrow> bool" where
  "redis_sends (Op_set k v ttl) \<longleftrightarrow> 0 < ttl"
| "redis_sends (Op_del ks) \<longleftrightarrow> ks \<noteq> []"
| "redis_sends op \<longleftrightarrow> True"

definition redis_step :: "'r server \<Rightarrow> network \<Rightarrow> time \<Rightarrow> cache_op \<Rightarrow> 'r redis \<Rightarrow> 'r redis \<times> json" where
  "redis_step srv net t op s = (if redis_sends op then guarded srv net t op JNull s else (s, JNull))"

text \<open>What happens around the driver: a late command reaches the server, at most \<open>D\<close> milliseconds after it was
  sent, or another instance executes a command there.\<close>

datatype redis_event = Lands time nat | Elsewhere time cache_op

fun redis_env :: "int \<Rightarrow> 'r server \<Rightarrow> redis_event \<Rightarrow> 'r redis \<Rightarrow> 'r redis" where
  "redis_env D srv (Lands x i) s =
     (if i < length (rd_late s) \<and> x \<le> fst (rd_late s ! i) + D
      then s\<lparr>rd_server := fst (redis_run srv x (snd (rd_late s ! i)) (rd_server s)),
             rd_late := take i (rd_late s) @ drop (Suc i) (rd_late s)\<rparr>
      else s)"
| "redis_env D srv (Elsewhere x op) s =
     (if redis_sends op then s\<lparr>rd_server := fst (redis_run srv x op (rd_server s))\<rparr> else s)"

fun redis_foreign :: "redis_event \<Rightarrow> (time \<times> cache_op) option" where
  "redis_foreign (Lands x i) = None"
| "redis_foreign (Elsewhere x op) = Some (x, op)"

section \<open>The two tiers\<close>

definition L1_TTL_CAP_SEC :: int where "L1_TTL_CAP_SEC = 10"

record 's tiered =
  td_l1 :: memory_cache
  td_l2 :: 's

definition new_tiered :: "'s \<Rightarrow> 's tiered" where
  "new_tiered s = \<lparr>td_l1 = empty_cache DEFAULT_MAX_ENTRIES, td_l2 = s\<rparr>"

text \<open>\<open>back t\<close> is when the second tier has answered a call made at \<open>t\<close>.\<close>

fun tiered_step ::
  "(time \<Rightarrow> cache_op \<Rightarrow> 's \<Rightarrow> 's \<times> json) \<Rightarrow> (time \<Rightarrow> time) \<Rightarrow> time \<Rightarrow> cache_op \<Rightarrow> 's tiered \<Rightarrow> 's tiered \<times> json" where
  "tiered_step step back t (Op_get k) s =
     (case mc_get t k (td_l1 s) of
        (l1, v) \<Rightarrow>
          (if v \<noteq> JNull then (s\<lparr>td_l1 := l1\<rparr>, v)
           else case step t (Op_get k) (td_l2 s) of
                  (l2, w) \<Rightarrow> (\<lparr>td_l1 = (if w \<noteq> JNull then mc_set (back t) k w L1_TTL_CAP_SEC l1 else l1), td_l2 = l2\<rparr>, w)))"
| "tiered_step step back t (Op_set k v ttl) s =
     (\<lparr>td_l1 = mc_set t k v (min ttl L1_TTL_CAP_SEC) (td_l1 s), td_l2 = fst (step t (Op_set k v ttl) (td_l2 s))\<rparr>, JNull)"
| "tiered_step step back t (Op_del ks) s =
     (\<lparr>td_l1 = mc_del ks (td_l1 s), td_l2 = fst (step t (Op_del ks) (td_l2 s))\<rparr>, JNull)"
| "tiered_step step back t (Op_incr k ttl) s =
     (case step t (Op_incr k ttl) (td_l2 s) of (l2, a) \<Rightarrow> (s\<lparr>td_l2 := l2\<rparr>, a))"

definition tiered_env :: "('e \<Rightarrow> 's \<Rightarrow> 's) \<Rightarrow> 'e \<Rightarrow> 's tiered \<Rightarrow> 's tiered" where
  "tiered_env env v s = s\<lparr>td_l2 := env v (td_l2 s)\<rparr>"

section \<open>Read-through\<close>

text \<open>\<open>getOrLoad\<close> of the in-process and the Redis driver, with nobody else loading: \<open>load\<close> is \<open>None\<close> when the
  loader throws, and \<open>t2\<close> the time it returns. The result \<open>None\<close> is the error passed on.\<close>

definition read_through ::
  "(time \<Rightarrow> cache_op \<Rightarrow> 's \<Rightarrow> 's \<times> json) \<Rightarrow> time \<Rightarrow> time \<Rightarrow> string \<Rightarrow> int \<Rightarrow> json option \<Rightarrow> 's \<Rightarrow> 's \<times> json option" where
  "read_through step t t2 k ttl load s =
     (case step t (Op_get k) s of
        (s1, v) \<Rightarrow>
          (if v \<noteq> JNull then (s1, Some v)
           else case step t (Op_get k) s1 of
                  (s2, w) \<Rightarrow>
                    (if w \<noteq> JNull then (s2, Some w)
                     else case load of
                            None \<Rightarrow> (s2, None)
                          | Some x \<Rightarrow> ((if x \<noteq> JNull then fst (step t2 (Op_set k x ttl) s2) else s2), Some x))))"

text \<open>\<open>getOrLoad\<close> of the two tiers; at \<open>t3\<close> the second tier has answered.\<close>

definition tiered_read_through ::
  "(time \<Rightarrow> cache_op \<Rightarrow> 's \<Rightarrow> 's \<times> json) \<Rightarrow> time \<Rightarrow> time \<Rightarrow> time \<Rightarrow> string \<Rightarrow> int \<Rightarrow> json option \<Rightarrow> 's tiered \<Rightarrow> 's tiered \<times> json option" where
  "tiered_read_through step t t2 t3 k ttl load s =
     (case mc_get t k (td_l1 s) of
        (l1, v) \<Rightarrow>
          (if v \<noteq> JNull then (s\<lparr>td_l1 := l1\<rparr>, Some v)
           else case read_through step t t2 k ttl load (td_l2 s) of
                  (l2, r) \<Rightarrow>
                    (\<lparr>td_l1 = (case r of
                                 Some w \<Rightarrow> if w \<noteq> JNull then mc_set t3 k w (min ttl L1_TTL_CAP_SEC) l1 else l1
                               | None \<Rightarrow> l1),
                      td_l2 = l2\<rparr>, r)))"

definition noop_read_through :: "json option \<Rightarrow> unit \<Rightarrow> unit \<times> json option" where
  "noop_read_through load s = (s, load)"

section \<open>The contract of a driver\<close>

text \<open>The calls of one driver and what happens around it, in order.\<close>

datatype 'e cache_event = Call time cache_op | Around 'e

fun event_run :: "(time \<Rightarrow> cache_op \<Rightarrow> 's \<Rightarrow> 's \<times> json) \<Rightarrow> ('e \<Rightarrow> 's \<Rightarrow> 's) \<Rightarrow> 'e cache_event list \<Rightarrow> 's \<Rightarrow> 's" where
  "event_run step env [] s = s"
| "event_run step env (Call t op # vs) s = event_run step env vs (fst (step t op s))"
| "event_run step env (Around v # vs) s = event_run step env vs (env v s)"

text \<open>The command an event puts into the cache, here or by another instance, and whether it counts on a key.\<close>

fun event_op :: "('e \<Rightarrow> (time \<times> cache_op) option) \<Rightarrow> 'e cache_event \<Rightarrow> (time \<times> cache_op) option" where
  "event_op foreign (Call t op) = Some (t, op)"
| "event_op foreign (Around v) = foreign v"

definition counts_on :: "('e \<Rightarrow> (time \<times> cache_op) option) \<Rightarrow> string \<Rightarrow> 'e cache_event \<Rightarrow> bool" where
  "counts_on foreign k v \<longleftrightarrow> (case event_op foreign v of Some (t, Op_incr j ttl) \<Rightarrow> j = k | _ \<Rightarrow> False)"

text \<open>\<open>may s k v t\<close>: the state may serve \<open>v\<close> for \<open>k\<close> at time \<open>t\<close>.\<close>

locale value_cache =
  fixes step :: "time \<Rightarrow> cache_op \<Rightarrow> 's \<Rightarrow> 's \<times> json"
    and env :: "'e \<Rightarrow> 's \<Rightarrow> 's"
    and foreign :: "'e \<Rightarrow> (time \<times> cache_op) option"
    and may :: "'s \<Rightarrow> string \<Rightarrow> json \<Rightarrow> time \<Rightarrow> bool"
    and slack :: int
  assumes get_may: "snd (step t (Op_get k) s) \<noteq> JNull \<Longrightarrow> \<exists>x \<ge> t. may s k (snd (step t (Op_get k) s)) x"
    and get_keeps: "may (fst (step t (Op_get j) s)) k v t' \<Longrightarrow> may s k v t'"
    and set_adds: "may (fst (step t (Op_set j w ttl) s)) k v t' \<Longrightarrow>
          may s k v t' \<or> (k = j \<and> v = w \<and> 0 < ttl \<and> t' < t + ttl * 1000 + slack)"
    and del_keeps: "may (fst (step t (Op_del ks) s)) k v t' \<Longrightarrow> may s k v t'"
    and incr_keeps: "k \<noteq> j \<Longrightarrow> may (fst (step t (Op_incr j ttl) s)) k v t' \<Longrightarrow> may s k v t'"
    and env_adds: "may (env e s) k v t' \<Longrightarrow>
          may s k v t' \<or> (\<exists>t ttl. foreign e = Some (t, Op_set k v ttl) \<and> 0 < ttl \<and> t' < t + ttl * 1000 + slack)
          \<or> (\<exists>t ttl. foreign e = Some (t, Op_incr k ttl))"
begin

lemma run_may:
  assumes "may (event_run step env vs s) k v t'" and "list_all (\<lambda>e. \<not> counts_on foreign k e) vs"
  shows "may s k v t' \<or> (\<exists>e t ttl. e \<in> set vs \<and> event_op foreign e = Some (t, Op_set k v ttl) \<and> 0 < ttl \<and> t' < t + ttl * 1000 + slack)"
  using assms
proof (induction vs arbitrary: s)
  case (Cons e vs)
  let ?w = "\<lambda>e. \<exists>t ttl. event_op foreign e = Some (t, Op_set k v ttl) \<and> 0 < ttl \<and> t' < t + ttl * 1000 + slack"
  obtain s1 where run: "event_run step env (e # vs) s = event_run step env vs s1"
    and one: "may s1 k v t' \<Longrightarrow> may s k v t' \<or> ?w e"
  proof (cases e)
    case (Call t op)
    have "may (fst (step t op s)) k v t' \<Longrightarrow> may s k v t' \<or> ?w e"
    proof (cases op)
      case (Op_set j w ttl)
      then show "may (fst (step t op s)) k v t' \<Longrightarrow> may s k v t' \<or> ?w e"
        using set_adds [of t j w ttl s k v t'] Call by auto
    next
      case (Op_incr j ttl)
      then show "may (fst (step t op s)) k v t' \<Longrightarrow> may s k v t' \<or> ?w e"
        using incr_keeps [of k j t ttl s v t'] Cons.prems(2) Call by (auto simp: counts_on_def)
    qed (use get_keeps [of t _ s k v t'] del_keeps [of t _ s k v t'] in auto)
    then show ?thesis using that Call by simp
  next
    case (Around x)
    have "may (env x s) k v t' \<Longrightarrow> may s k v t' \<or> ?w e"
      using env_adds [of x s k v t'] Cons.prems(2) Around by (auto simp: counts_on_def)
    then show ?thesis using that Around by simp
  qed
  have "may s1 k v t' \<or> (\<exists>e' t ttl. e' \<in> set vs \<and> event_op foreign e' = Some (t, Op_set k v ttl) \<and> 0 < ttl \<and> t' < t + ttl * 1000 + slack)"
    using Cons.IH [of s1] Cons.prems run by simp
  then show ?case using one by (auto 0 4)
qed simp

text \<open>A read-through answers with a served value or what its loader returned, and stores only that.\<close>

lemma read_through_sound:
  assumes "read_through step t t2 k ttl load s = (s', r)"
  shows "(\<exists>v x. r = Some v \<and> v \<noteq> JNull \<and> t \<le> x \<and> may s k v x) \<or> r = load"
    and "may s' j v t' \<Longrightarrow> may s j v t' \<or> (j = k \<and> load = Some v \<and> v \<noteq> JNull \<and> 0 < ttl \<and> t' < t2 + ttl * 1000 + slack)"
proof -
  obtain s1 v1 where g1: "step t (Op_get k) s = (s1, v1)" by force
  obtain s2 v2 where g2: "step t (Op_get k) s1 = (s2, v2)" by force
  have m1: "may s1 j v t' \<Longrightarrow> may s j v t'" for j v t' using get_keeps [of t k s] g1 by simp
  have m2: "may s2 j v t' \<Longrightarrow> may s j v t'" for j v t' using get_keeps [of t k s1] g2 m1 by simp
  have a1: "v1 \<noteq> JNull \<Longrightarrow> \<exists>x \<ge> t. may s k v1 x" using get_may [of t k s] g1 by simp
  have a2: "v2 \<noteq> JNull \<Longrightarrow> \<exists>x \<ge> t. may s k v2 x" using get_may [of t k s1] g2 m1 by (metis snd_conv)
  show "(\<exists>v x. r = Some v \<and> v \<noteq> JNull \<and> t \<le> x \<and> may s k v x) \<or> r = load"
    using assms a1 a2 by (auto simp: read_through_def g1 g2 split: if_splits option.splits)
  show "may s' j v t' \<Longrightarrow> may s j v t' \<or> (j = k \<and> load = Some v \<and> v \<noteq> JNull \<and> 0 < ttl \<and> t' < t2 + ttl * 1000 + slack)"
  proof -
    assume m: "may s' j v t'"
    consider "s' = s1" | "s' = s2" | x where "load = Some x" "x \<noteq> JNull" "s' = fst (step t2 (Op_set k x ttl) s2)"
      using assms by (auto simp: read_through_def g1 g2 split: if_splits option.splits)
    then show ?thesis
    proof cases
      case (3 x)
      then show ?thesis using m set_adds [of t2 k x ttl s2 j v t'] m2 by auto
    qed (use m m1 m2 in blast)+
  qed
qed

end

subsection \<open>The drivers keep the contract\<close>

definition memory_may :: "memory_cache \<Rightarrow> string \<Rightarrow> json \<Rightarrow> time \<Rightarrow> bool" where
  "memory_may m k v t \<longleftrightarrow> (\<exists>e. (k, v, e) \<in> set (mc_store m) \<and> t < e)"

lemma evict_set: "set (mc_evict n xs) \<subseteq> set xs"
  by (induction n xs rule: mc_evict.induct) auto

lemma memory_get_may:
  "snd (mc_get t k m) \<noteq> JNull \<Longrightarrow> memory_may m k (snd (mc_get t k m)) t"
  "memory_may (fst (mc_get t j m)) k v t' \<Longrightarrow> memory_may m k v t'"
  by (auto simp: mc_get_def mc_read_def memory_may_def js_delete_set dest!: map_of_SomeD split: option.splits if_splits)

lemma memory_set_may:
  assumes "memory_may (mc_set t j w ttl m) k v t'"
  shows "memory_may m k v t' \<or> (k = j \<and> v = w \<and> 0 < ttl \<and> t' < t + ttl * 1000)"
proof (cases "ttl \<le> 0")
  case False
  then obtain e where "(k, v, e) \<in> set (js_put j (w, t + ttl * 1000) (js_delete j (mc_store m)))" "t' < e"
    using assms evict_set by (fastforce simp: memory_may_def mc_set_def)
  then show ?thesis using False by (auto simp: memory_may_def js_delete_set)
qed (use assms in \<open>simp add: mc_set_def\<close>)

lemma memory_del_may: "memory_may (mc_del ks m) k v t' \<Longrightarrow> memory_may m k v t'"
proof (induction ks arbitrary: m)
  case (Cons j ks)
  have "mc_del (j # ks) m = mc_del ks (m\<lparr>mc_store := js_delete j (mc_store m)\<rparr>)" by (simp add: mc_del_def)
  then have "memory_may (m\<lparr>mc_store := js_delete j (mc_store m)\<rparr>) k v t'" using Cons by simp
  then show ?case by (auto simp: memory_may_def js_delete_set)
qed (simp add: mc_del_def)

lemma js_put_other: "(k, v) \<in> set (js_put j w xs) \<Longrightarrow> k \<noteq> j \<Longrightarrow> (k, v) \<in> set xs"
  by (auto simp: js_put_def split: if_splits)

lemma memory_incr_may:
  assumes "k \<noteq> j" and "memory_may (fst (mc_incr t j ttl m)) k v t'"
  shows "memory_may m k v t'"
proof -
  obtain m' c where r: "mc_read t j m = (m', c)" by (cases "mc_read t j m")
  have "fst (mc_get t j m) = m'" using r by (simp add: mc_get_def)
  then have m': "memory_may m' k v t' \<Longrightarrow> memory_may m k v t'" using memory_get_may(2) [of t j m k v t'] by simp
  have "\<exists>w. fst (mc_incr t j ttl m) = m'\<lparr>mc_store := js_put j w (mc_store m')\<rparr>"
    using r by (auto simp: mc_incr_def split: option.split prod.split json.split)
  then obtain w where "fst (mc_incr t j ttl m) = m'\<lparr>mc_store := js_put j w (mc_store m')\<rparr>" by blast
  with assms show ?thesis using m' js_put_other by (fastforce simp: memory_may_def)
qed

interpretation memory_values: value_cache memory_step "\<lambda>_ :: unit. \<lambda>s. s" "\<lambda>_. None" memory_may 0
proof
  show "memory_may (fst (memory_step t (Op_set j w ttl) s)) k v t' \<Longrightarrow>
      memory_may s k v t' \<or> k = j \<and> v = w \<and> 0 < ttl \<and> t' < t + ttl * 1000 + 0" for t j w ttl s k v t'
    using memory_set_may [of t j w ttl s k v t'] by simp
  show "snd (memory_step t (Op_get k) s) \<noteq> JNull \<Longrightarrow> \<exists>x \<ge> t. memory_may s k (snd (memory_step t (Op_get k) s)) x" for t k s
    using memory_get_may(1) [of t k s] by auto
  show "memory_may (fst (memory_step t (Op_get j) s)) k v t' \<Longrightarrow> memory_may s k v t'" for t j s k v t'
    using memory_get_may(2) [of t j s k v t'] by simp
  show "memory_may (fst (memory_step t (Op_del ks) s)) k v t' \<Longrightarrow> memory_may s k v t'" for t ks s k v t'
    using memory_del_may [of ks s k v t'] by simp
  show "k \<noteq> j \<Longrightarrow> memory_may (fst (memory_step t (Op_incr j ttl) s)) k v t' \<Longrightarrow> memory_may s k v t'" for t j ttl s k v t'
    using memory_incr_may [of k j t ttl s v t'] by simp
qed simp

interpretation noop_values: value_cache noop_step "\<lambda>_ :: unit. \<lambda>s. s" "\<lambda>_. None" "\<lambda>s k v t. False" 0
  by unfold_locales simp_all

text \<open>What the driver relies on of the server: \<open>GET\<close> answers only with the value of the last \<open>SET\<close> of the
  key, before its \<open>EX\<close> seconds, counted from the execution, are over; \<open>DEL\<close>, and the counters of other keys,
  add nothing. The server may forget at any time.\<close>

definition redis_documented :: "'r server \<Rightarrow> bool" where
  "redis_documented srv \<longleftrightarrow>
     (\<forall>t j w ttl r t' k v. rs_get srv t' k (rs_set srv t j w ttl r) = Some v \<longrightarrow>
         rs_get srv t' k r = Some v \<or> (k = j \<and> v = w \<and> t' < t + ttl * 1000))
     \<and> (\<forall>ks r t' k v. rs_get srv t' k (rs_del srv ks r) = Some v \<longrightarrow> rs_get srv t' k r = Some v)
     \<and> (\<forall>t j ttl r t' k v. k \<noteq> j \<longrightarrow>
          (rs_get srv t' k (fst (rs_incr srv t j r)) = Some v \<longrightarrow> rs_get srv t' k r = Some v)
          \<and> (rs_get srv t' k (rs_expire srv t j ttl r) = Some v \<longrightarrow> rs_get srv t' k r = Some v))"

text \<open>What one command adds to what the server may serve.\<close>

definition op_adds :: "cache_op \<Rightarrow> time \<Rightarrow> string \<Rightarrow> json \<Rightarrow> time \<Rightarrow> bool" where
  "op_adds op t k v t' \<longleftrightarrow>
     (case op of
        Op_set j w ttl \<Rightarrow> j = k \<and> w = v \<and> t' < t + ttl * 1000
      | Op_incr j ttl \<Rightarrow> j = k
      | _ \<Rightarrow> False)"

lemma documented:
  assumes "redis_documented srv"
  shows "rs_get srv t' k (rs_set srv t j w ttl r) = Some v \<Longrightarrow> rs_get srv t' k r = Some v \<or> (k = j \<and> v = w \<and> t' < t + ttl * 1000)"
    and "rs_get srv t' k (rs_del srv ks r) = Some v \<Longrightarrow> rs_get srv t' k r = Some v"
    and "k \<noteq> j \<Longrightarrow> rs_get srv t' k (fst (rs_incr srv t j r)) = Some v \<Longrightarrow> rs_get srv t' k r = Some v"
    and "k \<noteq> j \<Longrightarrow> rs_get srv t' k (rs_expire srv t j ttl r) = Some v \<Longrightarrow> rs_get srv t' k r = Some v"
  using assms unfolding redis_documented_def by blast+

lemma run_adds:
  assumes "redis_documented srv" and "rs_get srv t' k (fst (redis_run srv x op r)) = Some v"
  shows "rs_get srv t' k r = Some v \<or> op_adds op x k v t'"
proof (cases op)
  case (Op_set j w ttl)
  then have "rs_get srv t' k (rs_set srv x j w ttl r) = Some v" using assms(2) by simp
  then show ?thesis using documented(1) [OF assms(1), of t' k x j w ttl r v] Op_set by (simp add: op_adds_def) blast
next
  case (Op_del ks)
  then show ?thesis using assms(2) documented(2) [OF assms(1), of t' k ks r v] by simp
next
  case (Op_incr j ttl)
  show ?thesis
  proof (cases "j = k")
    case False
    then have "k \<noteq> j" by simp
    note other = documented(3) [OF assms(1) this] documented(4) [OF assms(1) this]
    have "rs_get srv t' k (fst (rs_incr srv x j r)) = Some v"
      using assms(2) Op_incr other(2) [of t' x ttl "fst (rs_incr srv x j r)" v]
      by (simp add: redis_incr_def case_prod_beta split: if_splits)
    then show ?thesis using other(1) by blast
  qed (simp add: Op_incr op_adds_def)
qed (use assms(2) in simp)

lemma half_adds:
  assumes "redis_documented srv" and "rs_get srv t' k (redis_half srv x op r) = Some v"
  shows "rs_get srv t' k r = Some v \<or> (\<exists>ttl. op = Op_incr k ttl)"
proof (cases op)
  case (Op_incr j ttl)
  then show ?thesis using assms(2) documented(3) [OF assms(1), of k j t' x r v] by auto
qed (use assms(2) in simp_all)

text \<open>A late command may still add its value until its last landing.\<close>

definition redis_may :: "int \<Rightarrow> 'r server \<Rightarrow> 'r redis \<Rightarrow> string \<Rightarrow> json \<Rightarrow> time \<Rightarrow> bool" where
  "redis_may D srv s k v t \<longleftrightarrow>
     rs_get srv t k (rd_server s) = Some v
     \<or> (\<exists>p \<in> set (rd_late s). op_adds (snd p) (fst p + D) k v t)"

text \<open>The commands that are under way were sent, and an answered one reached the server before its answer.\<close>

definition timely :: "network \<Rightarrow> bool" where
  "timely net \<longleftrightarrow> (\<forall>t. 0 \<le> nt_land net t \<and> nt_land net t \<le> nt_delay net t)"

lemma guarded_cases:
  "(\<exists>b. guarded srv net t op fb s = (s\<lparr>rd_breaker := b\<rparr>, fb))
   \<or> (\<exists>b. guarded srv net t op fb s = (s\<lparr>rd_server := redis_half srv (t + nt_land net t) op (rd_server s), rd_breaker := b\<rparr>, fb))
   \<or> (\<exists>b. guarded srv net t op fb s = (s\<lparr>rd_late := rd_late s @ [(t, op)], rd_breaker := b\<rparr>, fb))
   \<or> (answers net t \<and> (\<exists>b. guarded srv net t op fb s
        = (s\<lparr>rd_server := fst (redis_run srv (t + nt_land net t) op (rd_server s)), rd_breaker := b\<rparr>,
           snd (redis_run srv (t + nt_land net t) op (rd_server s)))))"
proof (cases "allowCall t (rd_breaker s)")
  case (Pair b ok)
  show ?thesis
  proof (cases "ok \<and> answers net t")
    case True
    then show ?thesis using Pair by (auto simp: guarded_def Let_def split: prod.split)
  next
    case False
    then show ?thesis using Pair by (cases ok; cases "nt_fate net t") (auto simp: guarded_def Let_def)
  qed
qed

lemma step_adds:
  assumes "redis_documented srv" and "timely net" and "OP_TIMEOUT_MS \<le> D"
    and "redis_may D srv (fst (redis_step srv net t op s)) k v t'"
  shows "redis_may D srv s k v t' \<or> (redis_sends op \<and> op_adds op (t + D) k v t')"
proof (cases "redis_sends op")
  case True
  let ?x = "t + nt_land net t"
  have later: "op_adds op (t + D) k v t'" if a: "answers net t" and o: "op_adds op ?x k v t'"
  proof -
    have "nt_land net t \<le> nt_delay net t" using assms(2) by (simp add: timely_def)
    then have "?x \<le> t + D" using a assms(3) by (simp add: answers_def)
    then show ?thesis using o by (auto simp: op_adds_def split: cache_op.splits)
  qed
  have counted: "(\<exists>ttl. op = Op_incr k ttl) \<Longrightarrow> op_adds op (t + D) k v t'" by (auto simp: op_adds_def)
  have st: "redis_step srv net t op s = guarded srv net t op JNull s" using True by (simp add: redis_step_def)
  consider (same) "rd_server (fst (redis_step srv net t op s)) = rd_server s" "rd_late (fst (redis_step srv net t op s)) = rd_late s"
    | (half_way) "rd_server (fst (redis_step srv net t op s)) = redis_half srv ?x op (rd_server s)" "rd_late (fst (redis_step srv net t op s)) = rd_late s"
    | (late) "rd_server (fst (redis_step srv net t op s)) = rd_server s" "rd_late (fst (redis_step srv net t op s)) = rd_late s @ [(t, op)]"
    | (reached) "answers net t" "rd_server (fst (redis_step srv net t op s)) = fst (redis_run srv ?x op (rd_server s))"
        "rd_late (fst (redis_step srv net t op s)) = rd_late s"
    using guarded_cases [of srv net t op JNull s] unfolding st by force
  then show ?thesis
  proof cases
    case reached
    then show ?thesis using assms(4) run_adds [OF assms(1), of t' k ?x op "rd_server s" v] later True by (auto simp: redis_may_def)
  next
    case half_way
    then show ?thesis using assms(4) half_adds [OF assms(1), of t' k ?x op "rd_server s" v] counted True
      by (auto simp: redis_may_def)
  qed (use assms(4) True in \<open>auto simp: redis_may_def\<close>)
qed (use assms(4) in \<open>simp add: redis_step_def\<close>)

lemma redis_get:
  assumes "timely net" and "snd (redis_step srv net t (Op_get k) s) \<noteq> JNull"
  shows "\<exists>x. t \<le> x \<and> settles net t \<le> x + OP_TIMEOUT_MS \<and> redis_may D srv s k (snd (redis_step srv net t (Op_get k) s)) x"
proof -
  let ?x = "t + nt_land net t"
  have "rs_get srv ?x k (rd_server s) = Some (snd (redis_step srv net t (Op_get k) s))"
    using guarded_cases [of srv net t "Op_get k" JNull s] assms(2) by (auto simp: redis_step_def split: option.splits)
  moreover have "0 \<le> nt_land net t" using assms(1) by (simp add: timely_def)
  then have "t \<le> ?x" "settles net t \<le> ?x + OP_TIMEOUT_MS" by (simp_all add: settles_def min_def)
  ultimately show ?thesis unfolding redis_may_def by blast
qed

lemma redis_values:
  assumes "redis_documented srv" and "timely net" and "OP_TIMEOUT_MS \<le> D"
  shows "value_cache (redis_step srv net) (redis_env D srv) redis_foreign (redis_may D srv) D"
proof
  note adds = step_adds [OF assms]
  show "snd (redis_step srv net t (Op_get k) s) \<noteq> JNull \<Longrightarrow> \<exists>x \<ge> t. redis_may D srv s k (snd (redis_step srv net t (Op_get k) s)) x" for t k s
    using redis_get [OF assms(2)] by blast
  show "redis_may D srv (fst (redis_step srv net t (Op_get j) s)) k v t' \<Longrightarrow> redis_may D srv s k v t'" for t j s k v t'
    using adds [of t "Op_get j" s k v t'] by (simp add: op_adds_def)
  show "redis_may D srv (fst (redis_step srv net t (Op_set j w ttl) s)) k v t' \<Longrightarrow>
      redis_may D srv s k v t' \<or> k = j \<and> v = w \<and> 0 < ttl \<and> t' < t + ttl * 1000 + D" for t j w ttl s k v t'
    using adds [of t "Op_set j w ttl" s k v t'] by (auto simp: op_adds_def)
  show "redis_may D srv (fst (redis_step srv net t (Op_del ks) s)) k v t' \<Longrightarrow> redis_may D srv s k v t'" for t ks s k v t'
    using adds [of t "Op_del ks" s k v t'] by (simp add: op_adds_def)
  show "k \<noteq> j \<Longrightarrow> redis_may D srv (fst (redis_step srv net t (Op_incr j ttl) s)) k v t' \<Longrightarrow> redis_may D srv s k v t'" for t j ttl s k v t'
    using adds [of t "Op_incr j ttl" s k v t'] by (simp add: op_adds_def)
  show "redis_may D srv (redis_env D srv e s) k v t' \<Longrightarrow>
      redis_may D srv s k v t' \<or> (\<exists>t ttl. redis_foreign e = Some (t, Op_set k v ttl) \<and> 0 < ttl \<and> t' < t + ttl * 1000 + D)
      \<or> (\<exists>t ttl. redis_foreign e = Some (t, Op_incr k ttl))" for e s k v t'
  proof (cases e)
    case (Lands x i)
    assume m: "redis_may D srv (redis_env D srv e s) k v t'"
    show ?thesis
    proof (cases "i < length (rd_late s) \<and> x \<le> fst (rd_late s ! i) + D")
      case True
      let ?p = "rd_late s ! i"
      have p: "?p \<in> set (rd_late s)" using True by simp
      have rest: "set (take i (rd_late s) @ drop (Suc i) (rd_late s)) \<subseteq> set (rd_late s)"
        by (auto dest: in_set_takeD in_set_dropD)
      have "op_adds (snd ?p) x k v t' \<Longrightarrow> op_adds (snd ?p) (fst ?p + D) k v t'"
        using True by (auto simp: op_adds_def split: cache_op.splits)
      then have "rs_get srv t' k (fst (redis_run srv x (snd ?p) (rd_server s))) = Some v \<Longrightarrow> redis_may D srv s k v t'"
        using run_adds [OF assms(1), of t' k x "snd ?p" "rd_server s" v] p unfolding redis_may_def by blast
      then show ?thesis using m Lands True rest by (auto simp: redis_may_def)
    qed (use m Lands in \<open>simp only: redis_env.simps if_False simp_thms\<close>)
  next
    case (Elsewhere x op)
    assume m: "redis_may D srv (redis_env D srv e s) k v t'"
    show ?thesis
    proof (cases "redis_sends op")
      case True
      have "0 \<le> D" using assms(3) by (simp add: OP_TIMEOUT_MS_def)
      then show ?thesis
        using m Elsewhere True run_adds [OF assms(1), of t' k x op "rd_server s" v]
        by (cases op) (auto simp: redis_may_def op_adds_def)
    qed (use m Elsewhere in simp)
  qed
qed

text \<open>Both tiers: what the first holds is backed by what the second could serve when it was copied.\<close>

definition tiered_may :: "('s \<Rightarrow> string \<Rightarrow> json \<Rightarrow> time \<Rightarrow> bool) \<Rightarrow> int \<Rightarrow> 's tiered \<Rightarrow> string \<Rightarrow> json \<Rightarrow> time \<Rightarrow> bool" where
  "tiered_may may d s k v t \<longleftrightarrow> memory_may (td_l1 s) k v t \<or> (\<exists>x. t < x + d + L1_TTL_CAP_SEC * 1000 \<and> may (td_l2 s) k v x)"

lemma tiered_parts:
  "memory_may (td_l1 s) k v t \<Longrightarrow> tiered_may may d s k v t"
  "may (td_l2 s) k v x \<Longrightarrow> t < x + d + L1_TTL_CAP_SEC * 1000 \<Longrightarrow> tiered_may may d s k v t"
  by (auto simp: tiered_may_def)

lemma tiered_values:
  assumes "value_cache step env foreign may sl" and "0 \<le> d" and "0 \<le> sl" and "\<And>t. back t \<le> t + d"
  shows "value_cache (tiered_step step back) (tiered_env env) foreign (tiered_may may d) (sl + d + L1_TTL_CAP_SEC * 1000)"
proof
  note law = value_cache.get_may [OF assms(1)] value_cache.get_keeps [OF assms(1)] value_cache.set_adds [OF assms(1)]
    value_cache.del_keeps [OF assms(1)] value_cache.incr_keeps [OF assms(1)] value_cache.env_adds [OF assms(1)]
  let ?may = "tiered_may may d" and ?step = "tiered_step step back"
  note cap = L1_TTL_CAP_SEC_def
  show "snd (?step t (Op_get k) s) \<noteq> JNull \<Longrightarrow> \<exists>x \<ge> t. ?may s k (snd (?step t (Op_get k) s)) x" for t k s
  proof (cases "snd (mc_get t k (td_l1 s)) = JNull")
    case True
    assume "snd (?step t (Op_get k) s) \<noteq> JNull"
    then have a: "snd (?step t (Op_get k) s) = snd (step t (Op_get k) (td_l2 s))" "snd (step t (Op_get k) (td_l2 s)) \<noteq> JNull"
      using True by (auto simp: case_prod_beta)
    obtain x where "t \<le> x" "may (td_l2 s) k (snd (step t (Op_get k) (td_l2 s))) x" using law(1) [OF a(2)] by blast
    then have "?may s k (snd (?step t (Op_get k) s)) t"
      unfolding a(1) by (intro tiered_parts(2)) (use assms(2) in \<open>auto simp: cap\<close>)
    then show ?thesis by blast
  next
    case False
    then have "?may s k (snd (?step t (Op_get k) s)) t" using memory_get_may(1) [OF False] tiered_parts(1) by (simp add: case_prod_beta)
    then show ?thesis by blast
  qed
  show "?may (fst (?step t (Op_get j) s)) k v t' \<Longrightarrow> ?may s k v t'" for t j s k v t'
  proof (cases "snd (mc_get t j (td_l1 s)) = JNull")
    case True
    let ?w = "snd (step t (Op_get j) (td_l2 s))" and ?l1 = "fst (mc_get t j (td_l1 s))"
    assume "?may (fst (?step t (Op_get j) s)) k v t'"
    then consider (l1) "memory_may ?l1 k v t'" | (fill) "?w \<noteq> JNull" "memory_may (mc_set (back t) j ?w L1_TTL_CAP_SEC ?l1) k v t'"
      | (l2) x where "t' < x + d + L1_TTL_CAP_SEC * 1000" "may (fst (step t (Op_get j) (td_l2 s))) k v x"
      using True by (auto simp: tiered_may_def case_prod_beta split: if_splits)
    then show ?thesis
    proof cases
      case l1
      then show ?thesis using memory_get_may(2) tiered_parts(1) by blast
    next
      case fill
      obtain x where x: "t \<le> x" "may (td_l2 s) j ?w x" using law(1) [OF fill(1)] by blast
      show ?thesis
        using memory_set_may [OF fill(2)] x memory_get_may(2) [of t j "td_l1 s" k v t'] assms(4) [of t] tiered_parts by fastforce
    next
      case l2
      then show ?thesis using law(2) tiered_parts(2) by blast
    qed
  next
    case False
    assume "?may (fst (?step t (Op_get j) s)) k v t'"
    then show ?thesis using False memory_get_may(2) [of t j "td_l1 s" k v t'] by (auto simp: tiered_may_def case_prod_beta)
  qed
  show "?may (fst (?step t (Op_set j w ttl) s)) k v t' \<Longrightarrow>
      ?may s k v t' \<or> k = j \<and> v = w \<and> 0 < ttl \<and> t' < t + ttl * 1000 + (sl + d + L1_TTL_CAP_SEC * 1000)" for t j w ttl s k v t'
  proof -
    assume "?may (fst (?step t (Op_set j w ttl) s)) k v t'"
    then consider (l1) "memory_may (mc_set t j w (min ttl L1_TTL_CAP_SEC) (td_l1 s)) k v t'"
      | (l2) x where "t' < x + d + L1_TTL_CAP_SEC * 1000" "may (fst (step t (Op_set j w ttl) (td_l2 s))) k v x"
      by (auto simp: tiered_may_def)
    then show ?thesis
    proof cases
      case l1
      then show ?thesis using memory_set_may [OF l1] tiered_parts(1) assms(2,3) by (fastforce simp: cap min_def split: if_splits)
    next
      case l2
      then show ?thesis using law(3) [OF l2(2)] tiered_parts(2) [OF _ l2(1)] by fastforce
    qed
  qed
  show "?may (fst (?step t (Op_del ks) s)) k v t' \<Longrightarrow> ?may s k v t'" for t ks s k v t'
    using memory_del_may [of ks "td_l1 s" k v t'] law(4) by (auto simp: tiered_may_def)
  show "k \<noteq> j \<Longrightarrow> ?may (fst (?step t (Op_incr j ttl) s)) k v t' \<Longrightarrow> ?may s k v t'" for t j ttl s k v t'
    using law(5) by (auto simp: tiered_may_def case_prod_beta)
  show "?may (tiered_env env e s) k v t' \<Longrightarrow>
      ?may s k v t' \<or> (\<exists>t ttl. foreign e = Some (t, Op_set k v ttl) \<and> 0 < ttl \<and> t' < t + ttl * 1000 + (sl + d + L1_TTL_CAP_SEC * 1000))
      \<or> (\<exists>t ttl. foreign e = Some (t, Op_incr k ttl))" for e s k v t'
  proof -
    assume "?may (tiered_env env e s) k v t'"
    then consider (l1) "memory_may (td_l1 s) k v t'"
      | (l2) x where "t' < x + d + L1_TTL_CAP_SEC * 1000" "may (env e (td_l2 s)) k v x"
      by (auto simp: tiered_may_def tiered_env_def)
    then show ?thesis
    proof cases
      case l2
      then show ?thesis using law(6) [OF l2(2)] tiered_parts(2) [OF _ l2(1)] by fastforce
    qed (use tiered_parts(1) in blast)
  qed
qed

section \<open>Staleness\<close>

lemma documented_values:
  assumes "redis_documented srv" and "timely net" and "OP_TIMEOUT_MS \<le> D"
  shows "value_cache (tiered_step (redis_step srv net) (settles net)) (tiered_env (redis_env D srv)) redis_foreign
           (tiered_may (redis_may D srv) OP_TIMEOUT_MS) (D + OP_TIMEOUT_MS + L1_TTL_CAP_SEC * 1000)"
  by (rule tiered_values [OF redis_values [OF assms]]) (use assms(3) in \<open>simp_all add: settles_def OP_TIMEOUT_MS_def\<close>)

lemma tiered_get_may:
  assumes "timely net" and "snd (tiered_step (redis_step srv net) (settles net) t (Op_get k) s) \<noteq> JNull"
  shows "tiered_may (redis_may D srv) OP_TIMEOUT_MS s k (snd (tiered_step (redis_step srv net) (settles net) t (Op_get k) s))
           (if snd (mc_get t k (td_l1 s)) \<noteq> JNull then t else settles net t)"
proof (cases "snd (mc_get t k (td_l1 s)) = JNull")
  case True
  let ?w = "snd (redis_step srv net t (Op_get k) (td_l2 s))"
  have w: "snd (tiered_step (redis_step srv net) (settles net) t (Op_get k) s) = ?w" using True by (simp add: case_prod_beta)
  with assms(2) have "?w \<noteq> JNull" by simp
  then obtain x where "settles net t \<le> x + OP_TIMEOUT_MS" "redis_may D srv (td_l2 s) k ?w x" using redis_get [OF assms(1)] by blast
  then show ?thesis unfolding w using True tiered_parts(2) [of "redis_may D srv" s k ?w x] by (simp add: L1_TTL_CAP_SEC_def)
next
  case False
  then show ?thesis using memory_get_may(1) [OF False] tiered_parts(1) by (simp add: case_prod_beta)
qed

text \<open>C25: whatever the network does to the commands of the tiered cache over Redis, and whatever other
  instances do to the server, a value it serves was put in for that key, by this instance or another, and is
  served (at the call when the first tier has it, else when the answer arrives) before the end of the lifetime
  it was put in with, plus \<open>D\<close>, the time within which a command given up may still reach the server,
  plus the 250 ms of an answer, plus the ten seconds of the first tier; or it was on the server from the start
  and was served within 10.25 seconds of a time the server had it. The key is no counter. The calls of one
  instance run one after the other.\<close>

theorem tiered_staleness_bounded:
  fixes evs :: "redis_event cache_event list"
  assumes "redis_documented srv" and "timely net" and "OP_TIMEOUT_MS \<le> D"
    and "rd_late s = []" and "list_all (\<lambda>e. \<not> counts_on redis_foreign k e) evs"
    and "s' = event_run (tiered_step (redis_step srv net) (settles net)) (tiered_env (redis_env D srv)) evs (new_tiered s)"
    and "v = snd (tiered_step (redis_step srv net) (settles net) t (Op_get k) s')" and "v \<noteq> JNull"
    and "y = (if snd (mc_get t k (td_l1 s')) \<noteq> JNull then t else settles net t)"
  shows "(\<exists>e t0 ttl. e \<in> set evs \<and> event_op redis_foreign e = Some (t0, Op_set k v ttl) \<and> 0 < ttl
             \<and> y < t0 + ttl * 1000 + D + 250 + 10000)
         \<or> (\<exists>x. rs_get srv x k (rd_server s) = Some v \<and> y < x + 250 + 10000)"
proof -
  have "tiered_may (redis_may D srv) OP_TIMEOUT_MS s' k v y"
    unfolding assms(7,9) by (rule tiered_get_may [OF assms(2)]) (use assms(7,8) in simp)
  then have "tiered_may (redis_may D srv) OP_TIMEOUT_MS (new_tiered s) k v y
      \<or> (\<exists>e t0 ttl. e \<in> set evs \<and> event_op redis_foreign e = Some (t0, Op_set k v ttl) \<and> 0 < ttl
           \<and> y < t0 + ttl * 1000 + (D + OP_TIMEOUT_MS + L1_TTL_CAP_SEC * 1000))"
    using value_cache.run_may [OF documented_values [OF assms(1,2,3)] _ assms(5)] unfolding assms(6) by blast
  moreover have "\<exists>x. rs_get srv x k (rd_server s) = Some v \<and> y < x + 250 + 10000"
    if "tiered_may (redis_may D srv) OP_TIMEOUT_MS (new_tiered s) k v y"
    using that assms(4) by (auto simp: tiered_may_def memory_may_def new_tiered_def empty_cache_def redis_may_def
        OP_TIMEOUT_MS_def L1_TTL_CAP_SEC_def)
  ultimately show ?thesis by (auto simp: OP_TIMEOUT_MS_def L1_TTL_CAP_SEC_def algebra_simps)
qed

section \<open>Outages\<close>

lemma open_guarded:
  assumes "circuitOpen t (rd_breaker s)"
  shows "guarded srv net t op fb s = (s, fb)"
proof -
  have "allowCall t (rd_breaker s) = (rd_breaker s, False)" using assms by (simp add: allowCall_def circuitOpen_def)
  then show ?thesis by (simp add: guarded_def)
qed

lemma outage_get:
  assumes "\<not> answers net t \<or> circuitOpen t (rd_breaker s)"
  shows "snd (redis_step srv net t (Op_get k) s) = JNull"
    and "rd_server (fst (redis_step srv net t (Op_get k) s)) = rd_server s"
proof -
  have st: "redis_step srv net t (Op_get k) s = guarded srv net t (Op_get k) JNull s" by (simp add: redis_step_def)
  have "snd (guarded srv net t (Op_get k) JNull s) = JNull \<and> rd_server (fst (guarded srv net t (Op_get k) JNull s)) = rd_server s"
  proof (cases "circuitOpen t (rd_breaker s)")
    case False
    then have "\<not> answers net t" using assms by blast
    then show ?thesis using guarded_cases [of srv net t "Op_get k" JNull s] by auto
  qed (simp add: open_guarded)
  then show "snd (redis_step srv net t (Op_get k) s) = JNull"
    "rd_server (fst (redis_step srv net t (Op_get k) s)) = rd_server s" by (simp_all add: st)
qed

lemma open_get: "circuitOpen t (rd_breaker s) \<Longrightarrow> fst (redis_step srv net t (Op_get k) s) = s"
  by (simp add: redis_step_def open_guarded)

text \<open>while no command is answered, or the circuit is open, a read-through over both tiers gives what the
  first tier still holds and else what the loader gives, its error included.\<close>

lemma outage_is_a_miss:
  assumes "(\<forall>t. \<not> answers net t) \<or> circuitOpen t (rd_breaker (td_l2 s))"
  shows "snd (tiered_read_through (redis_step srv net) t t2 t3 k ttl load s)
     = (if snd (mc_get t k (td_l1 s)) \<noteq> JNull then Some (snd (mc_get t k (td_l1 s))) else load)"
proof -
  let ?get = "\<lambda>s. redis_step srv net t (Op_get k) s"
  have n1: "snd (?get (td_l2 s)) = JNull" using outage_get(1) assms by blast
  have "(\<forall>t. \<not> answers net t) \<or> circuitOpen t (rd_breaker (fst (?get (td_l2 s))))"
    using open_get [of t "td_l2 s" srv net k] assms by auto
  then have n2: "snd (?get (fst (?get (td_l2 s)))) = JNull" using outage_get(1) by blast
  have "snd (read_through (redis_step srv net) t t2 k ttl load (td_l2 s)) = load"
    using n1 n2 by (simp add: read_through_def case_prod_beta split: option.split)
  then show ?thesis by (simp add: tiered_read_through_def case_prod_beta)
qed

text \<open>The calls of one instance, one after the other: whether each reached the server.\<close>

fun reaches :: "network \<Rightarrow> time list \<Rightarrow> breaker \<Rightarrow> breaker \<times> bool list" where
  "reaches net [] b = (b, [])"
| "reaches net (t # ts) b =
     (case allowCall t b of
        (b1, False) \<Rightarrow> (case reaches net ts b1 of (b2, rs) \<Rightarrow> (b2, False # rs))
      | (b1, True) \<Rightarrow>
          (case reaches net ts (if answers net t then recordSuccess b1 else recordFailure (settles net t) b1) of
             (b2, rs) \<Rightarrow> (b2, True # rs)))"

text \<open>\<open>reaches\<close> follows the breaker of the driver.\<close>

lemma reaches_guarded:
  "rd_breaker (fst (guarded srv net t op fb s)) = fst (reaches net [t] (rd_breaker s))"
  "snd (reaches net [t] (rd_breaker s)) = [False] \<Longrightarrow> guarded srv net t op fb s = (s, fb)"
  by (cases "nt_fate net t"; auto simp: guarded_def Let_def allowCall_def split: prod.split if_splits)+

lemma five_failures:
  assumes "\<not> answers net t1" "\<not> answers net t2" "\<not> answers net t3" "\<not> answers net t4"
    "\<not> answers net t5"
  shows "reaches net [t1, t2, t3, t4, t5] closed_breaker
     = (\<lparr>br_failures = 5, br_opened = settles net t5, br_probing = False\<rparr>, [True, True, True, True, True])"
  using assms by (simp add: allowCall_def closed_breaker_def FAILURE_THRESHOLD_def recordFailure_def Let_def)

lemma open_refuses:
  assumes "FAILURE_THRESHOLD \<le> br_failures b" and "list_all (\<lambda>t. t < br_opened b + OPEN_MS) ts"
  shows "reaches net ts b = (b, map (\<lambda>t. False) ts)"
  using assms by (induction ts) (simp_all add: allowCall_def)

text \<open>After five consecutive failed calls no call reaches the server for thirty seconds from the fifth
  failure, and the breaker stays as it is.\<close>

lemma circuit_opens_after_five_failures:
  assumes "length fs = 5" and "list_all (\<lambda>t. \<not> answers net t) fs"
    and "list_all (\<lambda>t. t < settles net (last fs) + 30000) ts"
  shows "snd (reaches net (fs @ ts) closed_breaker) = map (\<lambda>t. True) fs @ map (\<lambda>t. False) ts"
proof -
  have split: "reaches net (xs @ ys) b = (case reaches net xs b of (b1, rs) \<Rightarrow> (case reaches net ys b1 of (b2, qs) \<Rightarrow> (b2, rs @ qs)))" for xs ys b
    by (induction xs arbitrary: b) (auto split: prod.split bool.split)
  obtain t1 t2 t3 t4 t5 where fs: "fs = [t1, t2, t3, t4, t5]"
    using assms(1) by (auto simp: numeral_eq_Suc length_Suc_conv)
  let ?b = "\<lparr>br_failures = 5, br_opened = settles net t5, br_probing = False\<rparr>"
  have "reaches net fs closed_breaker = (?b, map (\<lambda>t. True) fs)"
    using five_failures [of net t1 t2 t3 t4 t5] assms(2) by (simp add: fs)
  moreover have "reaches net ts ?b = (?b, map (\<lambda>t. False) ts)"
    by (rule open_refuses) (use assms(3) in \<open>simp_all add: fs FAILURE_THRESHOLD_def OPEN_MS_def\<close>)
  ultimately show ?thesis by (simp add: split)
qed

text \<open>A probe that fails does not open the circuit again: the failure count passes the threshold without
  meeting it, the opening time stays, and the next call goes to the server at once, for ever.\<close>

lemma failed_probe_never_reopens:
  assumes "FAILURE_THRESHOLD \<le> br_failures b" and "\<not> br_probing b"
    and "list_all (\<lambda>t. br_opened b + OPEN_MS \<le> t \<and> \<not> answers net t) ts"
  shows "snd (reaches net ts b) = map (\<lambda>t. True) ts
         \<and> list_all (\<lambda>t. \<not> circuitOpen t (fst (reaches net ts b))) ts"
proof -
  have "snd (reaches net ts b) = map (\<lambda>t. True) ts \<and> br_opened (fst (reaches net ts b)) = br_opened b" using assms
  proof (induction ts arbitrary: b)
    case (Cons t ts)
    let ?b = "recordFailure (settles net t) (b\<lparr>br_probing := True\<rparr>)"
    have "FAILURE_THRESHOLD \<le> br_failures ?b" "\<not> br_probing ?b" "br_opened ?b = br_opened b"
      using Cons.prems(1) by (simp_all add: recordFailure_def Let_def)
    then show ?case using Cons.IH [of ?b] Cons.prems by (simp add: allowCall_def case_prod_beta)
  qed simp
  then show ?thesis using assms(3) by (auto simp: circuitOpen_def list_all_iff)
qed

text \<open>A counter whose \<open>EXPIRE\<close> is lost after its first \<open>INCR\<close> is never given a deadline: every later
  increment sends only the \<open>INCR\<close>.\<close>

lemma later_increments_never_expire:
  assumes "snd (rs_incr srv t k r) \<noteq> 1"
  shows "fst (redis_incr srv t k ttl r) = fst (rs_incr srv t k r)"
  using assms by (simp add: redis_incr_def case_prod_beta)

section \<open>Instances\<close>

definition demo_server :: "(string \<Rightarrow> cell option) server" where
  "demo_server =
     \<lparr>rs_get = (\<lambda>t k r. case r k of None \<Rightarrow> None | Some c \<Rightarrow> if t < snd c then Some (fst c) else None),
      rs_set = (\<lambda>t k v ttl r. r(k \<mapsto> (v, t + ttl * 1000))),
      rs_del = (\<lambda>ks r. r |` (- set ks)),
      rs_incr = (\<lambda>t k r. (r, 1)),
      rs_expire = (\<lambda>t k ttl r. r)\<rparr>"

lemma demo_documented: "redis_documented demo_server"
  by (auto simp: redis_documented_def demo_server_def restrict_map_def split: if_splits option.splits)

text \<open>A network that loses the answer of the command sent at 0, and one that loses all.\<close>

definition shaky :: network where
  "shaky = \<lparr>nt_fate = (\<lambda>t. if t = 0 then Too_late else Answered), nt_delay = (\<lambda>t. if t = 0 then 400 else 20), nt_land = (\<lambda>t. 10)\<rparr>"

definition dead :: network where "dead = \<lparr>nt_fate = (\<lambda>t. Lost), nt_delay = (\<lambda>t. 250), nt_land = (\<lambda>t. 0)\<rparr>"

definition demo_redis :: "(string \<Rightarrow> cell option) redis" where
  "demo_redis = \<lparr>rd_server = Map.empty, rd_breaker = closed_breaker, rd_late = []\<rparr>"

text \<open>A value put in at 0 for sixty seconds reaches the server at 400, is served at 60320 and, from the first
  tier, at 70319.\<close>

definition demo_events :: "redis_event cache_event list" where
  "demo_events = [Call 0 (Op_set ''a'' (JBool True) 60), Around (Lands 400 0), Call 60300 (Op_get ''a'')]"

abbreviation demo_step :: "time \<Rightarrow> cache_op \<Rightarrow> (string \<Rightarrow> cell option) redis tiered \<Rightarrow> (string \<Rightarrow> cell option) redis tiered \<times> json" where
  "demo_step \<equiv> tiered_step (redis_step demo_server shaky) (settles shaky)"

abbreviation demo_end :: "(string \<Rightarrow> cell option) redis tiered" where
  "demo_end \<equiv> event_run demo_step (tiered_env (redis_env 500 demo_server)) demo_events (new_tiered demo_redis)"

lemmas demo_defs = demo_events_def new_tiered_def demo_redis_def empty_cache_def DEFAULT_MAX_ENTRIES_def mc_set_def mc_get_def
  mc_read_def js_delete_def js_put_def L1_TTL_CAP_SEC_def tiered_env_def redis_step_def guarded_def answers_def settles_def
  OP_TIMEOUT_MS_def shaky_def demo_server_def allowCall_def closed_breaker_def FAILURE_THRESHOLD_def recordSuccess_def
  recordFailure_def Let_def

lemma demo_tiered_read: "snd (demo_step 70319 (Op_get ''a'') demo_end) = JBool True" "snd (mc_get 70319 ''a'' (td_l1 demo_end)) = JBool True"
  by (simp_all add: demo_defs)

theorem tiered_staleness_bounded_witness:
  "(\<exists>e t0 ttl. e \<in> set demo_events \<and> event_op redis_foreign e = Some (t0, Op_set ''a'' (JBool True) ttl) \<and> 0 < ttl
      \<and> 70319 < t0 + ttl * 1000 + 500 + 250 + 10000)
   \<or> (\<exists>x. rs_get demo_server x ''a'' (rd_server demo_redis) = Some (JBool True) \<and> 70319 < x + 250 + 10000)"
proof (rule tiered_staleness_bounded [OF demo_documented, of shaky 500 demo_redis "''a''" demo_events demo_end "JBool True" 70319 70319])
  show "timely shaky" by (simp add: timely_def shaky_def)
  show "OP_TIMEOUT_MS \<le> 500" "rd_late demo_redis = []" by (simp_all add: OP_TIMEOUT_MS_def demo_redis_def)
  show "list_all (\<lambda>e. \<not> counts_on redis_foreign ''a'' e) demo_events" by (simp add: demo_events_def counts_on_def)
qed (simp_all add: demo_tiered_read del: tiered_step.simps)

lemma outage_is_a_miss_witness:
  "snd (tiered_read_through (redis_step demo_server dead) 5 6 6 ''a'' 60 (Some (JBool True)) (new_tiered demo_redis)) = Some (JBool True)"
  using outage_is_a_miss [of dead 5 "new_tiered demo_redis" demo_server 6 6 "''a''" 60 "Some (JBool True)"]
  by (simp add: dead_def answers_def new_tiered_def empty_cache_def mc_get_def mc_read_def)

lemma circuit_opens_after_five_failures_witness:
  "snd (reaches dead ([0, 1, 2, 3, 4] @ [5, 30253]) closed_breaker) = [True, True, True, True, True, False, False]"
  using circuit_opens_after_five_failures [of "[0, 1, 2, 3, 4]" dead "[5, 30253]"]
  by (simp add: dead_def answers_def settles_def OP_TIMEOUT_MS_def)

end
