(* ===== verification/Rate_Limits.thy ===== *)
theory Rate_Limits
  imports Api_Keys Cache_Drivers
begin

text \<open>
  The request limits: the per-credential counters of \<open>lib/mcp-rate-limit.ts\<close>, kept in the cache or in the
  database, the bucket of the global limiter (\<open>lib/rate-limit-key.ts\<close>) and the credential hook of
  \<open>app.ts\<close> that feeds both. The cache is any driver of the cache layer; digests and the number an
  environment variable reads as are parameters.
\<close>

section \<open>Counters\<close>

definition WINDOW_MS :: int where "WINDOW_MS = 60000"
definition PRUNE_OLDER_THAN_MS :: int where "PRUNE_OLDER_THAN_MS = 10 * WINDOW_MS"
definition BUCKET_TTL_SEC :: int where "BUCKET_TTL_SEC = 120"

text \<open>\<open>number\<close> is the finite value a text reads as.\<close>

definition limitPerMin :: "(string \<Rightarrow> real option) \<Rightarrow> string option \<Rightarrow> string option \<Rightarrow> int" where
  "limitPerMin number mcp key =
     (case (case mcp of Some x \<Rightarrow> number x | None \<Rightarrow> (case key of Some x \<Rightarrow> number x | None \<Rightarrow> Some 300)) of
        Some r \<Rightarrow> if 0 \<le> r then \<lfloor>r\<rfloor> else 300
      | None \<Rightarrow> 300)"

definition positiveIntEnv :: "(string \<Rightarrow> real option) \<Rightarrow> string option \<Rightarrow> int \<Rightarrow> bool \<Rightarrow> int" where
  "positiveIntEnv number raw fallback allowZero =
     (case raw of
        None \<Rightarrow> fallback
      | Some x \<Rightarrow>
          if js_trim x = [] then fallback
          else (case number x of
                  None \<Rightarrow> fallback
                | Some r \<Rightarrow> if r < 0 \<or> (r = 0 \<and> \<not> allowZero) then fallback else \<lfloor>r\<rfloor>))"

definition tokenLimitPerMin :: "(string \<Rightarrow> real option) \<Rightarrow> string option \<Rightarrow> int" where
  "tokenLimitPerMin number raw = positiveIntEnv number raw 60 True"

definition tokenReplayLimitPerMin :: "(string \<Rightarrow> real option) \<Rightarrow> string option \<Rightarrow> int" where
  "tokenReplayLimitPerMin number raw = positiveIntEnv number raw 5 True"

definition currentWindowStart :: "time \<Rightarrow> time" where
  "currentWindowStart now = now div WINDOW_MS * WINDOW_MS"

record rate_result =
  rr_allowed :: bool
  rr_limit :: int
  rr_remaining :: int
  rr_retry :: int

definition bucketCacheKey :: "string \<Rightarrow> time \<Rightarrow> string" where
  "bucketCacheKey bucket start = ''ratelimit:v1:'' @ bucket @ '':'' @ show_int start"

text \<open>The table of counters and the cache.\<close>

record 's limiter =
  lm_rows :: "string \<times> time \<Rightarrow> int option"
  lm_cache :: 's

definition incrementInDatabase :: "string \<Rightarrow> time \<Rightarrow> 's limiter \<Rightarrow> 's limiter \<times> int" where
  "incrementInDatabase bucket start s =
     (let n = (case lm_rows s (bucket, start) of None \<Rightarrow> 1 | Some c \<Rightarrow> c + 1)
      in (s\<lparr>lm_rows := (lm_rows s)((bucket, start) \<mapsto> n)\<rparr>, n))"

type_synonym 's driver = "time \<Rightarrow> cache_op \<Rightarrow> 's \<Rightarrow> 's \<times> json"

text \<open>The cache answers nothing when it is off or unreachable; then the table counts.\<close>

definition cache_count :: "'s driver \<Rightarrow> time \<Rightarrow> string \<Rightarrow> 's limiter \<Rightarrow> 's limiter \<times> int option" where
  "cache_count step now bucket s =
     (case step now (Op_incr (bucketCacheKey bucket (currentWindowStart now)) BUCKET_TTL_SEC) (lm_cache s) of
        (c, JNum n) \<Rightarrow> (s\<lparr>lm_cache := c\<rparr>, Some \<lfloor>n\<rfloor>)
      | (c, _) \<Rightarrow> (s\<lparr>lm_cache := c\<rparr>, None))"

definition count_request :: "'s driver \<Rightarrow> time \<Rightarrow> string \<Rightarrow> bool \<Rightarrow> 's limiter \<Rightarrow> 's limiter \<times> int" where
  "count_request step now bucket durable s =
     (if durable then incrementInDatabase bucket (currentWindowStart now) s
      else case cache_count step now bucket s of
             (s', Some n) \<Rightarrow> (s', n)
           | (s', None) \<Rightarrow> incrementInDatabase bucket (currentWindowStart now) s')"

definition ceil_div :: "int \<Rightarrow> int \<Rightarrow> int" where
  "ceil_div a b = - ((- a) div b)"

definition checkAndIncrement :: "'s driver \<Rightarrow> time \<Rightarrow> string \<Rightarrow> int \<Rightarrow> bool \<Rightarrow> 's limiter \<Rightarrow> 's limiter \<times> rate_result" where
  "checkAndIncrement step now bucket limit durable s =
     (case count_request step now bucket durable s of
        (s', n) \<Rightarrow>
          (s', \<lparr>rr_allowed = (limit \<le> 0 \<or> n \<le> limit), rr_limit = limit, rr_remaining = max 0 (limit - n),
                rr_retry = max 1 (ceil_div (currentWindowStart now + WINDOW_MS - now) 1000)\<rparr>))"

text \<open>Both checks of the token endpoint run; the first refusal is reported.\<close>

definition checkTokenEndpoint ::
  "'s driver \<Rightarrow> (string \<Rightarrow> string) \<Rightarrow> int \<Rightarrow> int \<Rightarrow> time \<Rightarrow> string \<Rightarrow> string option \<Rightarrow> 's limiter \<Rightarrow> 's limiter \<times> rate_result option" where
  "checkTokenEndpoint step sha clientLimit replayLimit now clientId secret s =
     (let (s1, rs1) = (if 0 < clientLimit
            then (case checkAndIncrement step now (''mcp-token:client:'' @ take 32 (sha clientId)) clientLimit True s of (s1, r) \<Rightarrow> (s1, [r]))
            else (s, []));
          (s2, rs2) = (if secret \<noteq> None \<and> secret \<noteq> Some [] \<and> 0 < replayLimit
            then (case checkAndIncrement step now (''mcp-token:grant:'' @ take 32 (sha (the secret))) replayLimit True s1 of (s2, r) \<Rightarrow> (s2, [r]))
            else (s1, []))
      in (s2, find_where (\<lambda>r. \<not> rr_allowed r) (rs1 @ rs2)))"

definition pruneOldRateBuckets :: "time \<Rightarrow> 's limiter \<Rightarrow> 's limiter" where
  "pruneOldRateBuckets now s =
     s\<lparr>lm_rows := (\<lambda>k. if snd k < now - PRUNE_OLDER_THAN_MS then None else lm_rows s k)\<rparr>"

section \<open>The bucket of the global limiter\<close>

definition VALIDATED_TTL_MS :: int where "VALIDATED_TTL_MS = 10 * 60 * 1000"
definition VALIDATED_MAX_ENTRIES :: nat where "VALIDATED_MAX_ENTRIES = 5000"

type_synonym validated = "(string \<times> time) list"

definition credentialFingerprint :: "(string \<Rightarrow> string) \<Rightarrow> string \<Rightarrow> string" where
  "credentialFingerprint sha token = take 32 (sha token)"

definition make_room :: "time \<Rightarrow> validated \<Rightarrow> validated" where
  "make_room now m =
     (if VALIDATED_MAX_ENTRIES \<le> length m
      then (let live = filter (\<lambda>p. now < snd p) m in drop (Suc (length live) - VALIDATED_MAX_ENTRIES) live)
      else m)"

definition noteValidatedCredential :: "(string \<Rightarrow> string) \<Rightarrow> time \<Rightarrow> string \<Rightarrow> validated \<Rightarrow> validated" where
  "noteValidatedCredential sha now token m =
     (let fp = credentialFingerprint sha token
      in js_put fp (now + VALIDATED_TTL_MS) (js_delete fp (make_room now m)))"

definition isValidatedFingerprint :: "time \<Rightarrow> string \<Rightarrow> validated \<Rightarrow> validated \<times> bool" where
  "isValidatedFingerprint now fp m =
     (case map_of m fp of
        None \<Rightarrow> (m, False)
      | Some e \<Rightarrow> if e \<le> now then (js_delete fp m, False) else (m, True))"

record web_request =
  wr_ip :: string
  wr_url :: string
  wr_auth :: string

definition request_path :: "string \<Rightarrow> string" where
  "request_path url = takeWhile (\<lambda>c. c \<noteq> CHR ''?'') url"

definition auth_path :: "string \<Rightarrow> bool" where
  "auth_path p \<longleftrightarrow> p = ''/v1/auth'' \<or> starts_with ''/v1/auth/'' p"

definition MCP_ACCESS_TOKEN_PREFIX :: string where "MCP_ACCESS_TOKEN_PREFIX = ''db_mcp_at_''"

definition bearer_token :: "web_request \<Rightarrow> string option" where
  "bearer_token r = (if starts_with ''Bearer '' (wr_auth r) then Some (drop 7 (wr_auth r)) else None)"

definition rateLimitKey :: "(string \<Rightarrow> string) \<Rightarrow> time \<Rightarrow> web_request \<Rightarrow> validated \<Rightarrow> validated \<times> string" where
  "rateLimitKey sha now r m =
     (let ipKey = ''ip:'' @ wr_ip r
      in if auth_path (request_path (wr_url r)) then (m, ipKey)
         else case bearer_token r of
                None \<Rightarrow> (m, ipKey)
              | Some token \<Rightarrow>
                  if \<not> starts_with KEY_PREFIX token \<and> \<not> starts_with MCP_ACCESS_TOKEN_PREFIX token then (m, ipKey)
                  else (case isValidatedFingerprint now (credentialFingerprint sha token) m of
                          (m', ok) \<Rightarrow> (m', if ok then ''k:'' @ credentialFingerprint sha token else ipKey)))"

section \<open>The credential hook\<close>

record 's gate =
  gt_limits :: "'s limiter"
  gt_validated :: validated

text \<open>What a verification of the token answers: the id of the key, or the user and client of a grant.\<close>

record credentials =
  cr_key :: "string \<Rightarrow> ident option"
  cr_oauth :: "string \<Rightarrow> (ident \<times> string) option"

text \<open>The verified credential is noted first, then its bucket is counted.\<close>

definition limit_bucket :: "'s driver \<Rightarrow> (string \<Rightarrow> string) \<Rightarrow> int \<Rightarrow> time \<Rightarrow> string \<Rightarrow> string \<Rightarrow> 's gate \<Rightarrow> 's gate \<times> rate_result option" where
  "limit_bucket step sha limit now token bucket g =
     (let g1 = g\<lparr>gt_validated := noteValidatedCredential sha now token (gt_validated g)\<rparr>
      in case checkAndIncrement step now bucket limit False (gt_limits g1) of
           (l, r) \<Rightarrow> (g1\<lparr>gt_limits := l\<rparr>, Some r))"

text \<open>The hook: \<open>None\<close> lets the request pass uncounted, a refused result is answered with 429.\<close>

definition credential_hook ::
  "'s driver \<Rightarrow> (string \<Rightarrow> string) \<Rightarrow> int \<Rightarrow> credentials \<Rightarrow> time \<Rightarrow> web_request \<Rightarrow> 's gate \<Rightarrow> 's gate \<times> rate_result option" where
  "credential_hook step sha limit cr now r g =
     (case bearer_token r of
        None \<Rightarrow> (g, None)
      | Some token \<Rightarrow>
          if starts_with KEY_PREFIX token
          then (case cr_key cr token of
                  None \<Rightarrow> (g, None)
                | Some i \<Rightarrow> limit_bucket step sha limit now token i g)
          else if starts_with MCP_ACCESS_TOKEN_PREFIX token
          then (case cr_oauth cr token of
                  None \<Rightarrow> (g, None)
                | Some (uid, client) \<Rightarrow> limit_bucket step sha limit now token (''mcp:'' @ uid @ '':'' @ client) g)
          else (g, None))"


section \<open>The durable limit\<close>

text \<open>What happens to the counters: counted requests and the periodic sweep, each at its time.\<close>

datatype limit_event = Counted time string int bool | Swept time

primrec event_time :: "limit_event \<Rightarrow> time" where
  "event_time (Counted t b l d) = t"
| "event_time (Swept t) = t"

fun limit_step :: "'s driver \<Rightarrow> limit_event \<Rightarrow> 's limiter \<Rightarrow> 's limiter \<times> rate_result option" where
  "limit_step step (Counted t b l d) s = (case checkAndIncrement step t b l d s of (s', r) \<Rightarrow> (s', Some r))"
| "limit_step step (Swept t) s = (pruneOldRateBuckets t s, None)"

fun durable_in :: "string \<Rightarrow> int \<Rightarrow> time \<Rightarrow> limit_event \<Rightarrow> bool" where
  "durable_in b l w (Counted t b' l' d) \<longleftrightarrow> b' = b \<and> l' = l \<and> d \<and> currentWindowStart t = w"
| "durable_in b l w (Swept t) \<longleftrightarrow> False"

text \<open>How many durable requests of a bucket a run lets through in one window.\<close>

fun let_through :: "'s driver \<Rightarrow> string \<Rightarrow> int \<Rightarrow> time \<Rightarrow> limit_event list \<Rightarrow> 's limiter \<Rightarrow> int" where
  "let_through step b l w [] s = 0"
| "let_through step b l w (e # es) s =
     (case limit_step step e s of
        (s', r) \<Rightarrow> (if durable_in b l w e \<and> (case r of Some x \<Rightarrow> rr_allowed x | None \<Rightarrow> False) then 1 else 0)
                 + let_through step b l w es s')"

definition row_count :: "string \<Rightarrow> time \<Rightarrow> 's limiter \<Rightarrow> int" where
  "row_count b w s = (case lm_rows s (b, w) of None \<Rightarrow> 0 | Some c \<Rightarrow> c)"

lemma increment_counts:
  assumes "incrementInDatabase b w s = (s', n)"
  shows "n = row_count b w s + 1"
    and "\<And>c v. row_count c v s' = (if c = b \<and> v = w then n else row_count c v s)"
  using assms by (auto simp: incrementInDatabase_def row_count_def Let_def split: option.splits)

lemma cache_count_rows: "cache_count step t b s = (s', n) \<Longrightarrow> lm_rows s' = lm_rows s"
  by (auto simp: cache_count_def split: prod.splits json.splits)

lemma count_request_grows:
  assumes "count_request step t b d s = (s', n)"
  shows "row_count c w s \<le> row_count c w s'"
proof -
  have frame: "row_count c w x = row_count c w s" if "lm_rows x = lm_rows s" for x
    using that by (simp add: row_count_def)
  have db: "row_count c w x \<le> row_count c w s'" if "incrementInDatabase b v x = (s', n)" for x v
    using increment_counts [OF that] by simp
  show ?thesis
  proof (cases d)
    case True
    with assms db show ?thesis by (simp add: count_request_def)
  next
    case False
    obtain x m where x: "cache_count step t b s = (x, m)" by (cases "cache_count step t b s")
    from cache_count_rows [OF this] have "row_count c w x = row_count c w s" by (rule frame)
    with assms False x db [of _ x] show ?thesis by (cases m) (auto simp: count_request_def)
  qed
qed

lemma durable_result:
  assumes "checkAndIncrement step t b l True s = (s', r)" and "0 < l"
  shows "(rr_allowed r \<longleftrightarrow> row_count b (currentWindowStart t) s + 1 \<le> l)
    \<and> row_count b (currentWindowStart t) s' = row_count b (currentWindowStart t) s + 1"
  using assms by (auto simp: checkAndIncrement_def count_request_def increment_counts
      dest: increment_counts(1) split: prod.splits)

lemma window_holds: "currentWindowStart t = w \<Longrightarrow> w \<le> t \<and> t < w + WINDOW_MS"
  unfolding currentWindowStart_def WINDOW_MS_def by (auto simp: minus_mod_eq_div_mult [symmetric])

lemma prune_keeps_window:
  assumes "t < w + WINDOW_MS"
  shows "row_count b w (pruneOldRateBuckets t s) = row_count b w s"
  using assms by (simp add: row_count_def pruneOldRateBuckets_def PRUNE_OLDER_THAN_MS_def WINDOW_MS_def)

lemma window_over:
  "\<forall>e \<in> set es. w + WINDOW_MS \<le> event_time e \<Longrightarrow> let_through step b l w es s = 0"
proof (induction es arbitrary: s)
  case (Cons e es)
  have "\<not> durable_in b l w e"
    using Cons.prems window_holds [of _ w] by (cases e) (auto simp: not_less [symmetric])
  then show ?case using Cons by (auto split: prod.splits)
qed simp

lemma let_through_bound:
  assumes "0 < l" and "sorted (map event_time es)"
  shows "let_through step b l w es s \<le> max 0 (l - row_count b w s)"
  using assms(2)
proof (induction es arbitrary: s)
  case (Cons e es)
  obtain s' r where st: "limit_step step e s = (s', r)" by (cases "limit_step step e s")
  have ih: "let_through step b l w es s' \<le> max 0 (l - row_count b w s')"
    using Cons by simp
  show ?case
  proof (cases e)
    case (Counted t b' l' d)
    then obtain x where x: "checkAndIncrement step t b' l' d s = (s', x)" "r = Some x"
      using st by (auto split: prod.splits)
    then obtain n where "count_request step t b' d s = (s', n)"
      by (auto simp: checkAndIncrement_def split: prod.splits)
    from count_request_grows [OF this] have grows: "row_count b w s \<le> row_count b w s'" .
    show ?thesis
    proof (cases "durable_in b l w e")
      case True
      with Counted have "b' = b" "l' = l" "d" "currentWindowStart t = w" by auto
      with durable_result [of step t b l s s' x] x(1) assms(1)
      have "(rr_allowed x \<longleftrightarrow> row_count b w s + 1 \<le> l) \<and> row_count b w s' = row_count b w s + 1" by simp
      with ih st x(2) True show ?thesis by auto
    next
      case False
      with ih st grows show ?thesis by auto
    qed
  next
    case (Swept t)
    then have s': "s' = pruneOldRateBuckets t s" "r = None" using st by auto
    show ?thesis
    proof (cases "t < w + WINDOW_MS")
      case True
      with ih st s' Swept prune_keeps_window [of t w b s] show ?thesis by simp
    next
      case False
      then have "\<forall>e \<in> set es. w + WINDOW_MS \<le> event_time e" using Cons.prems Swept by auto
      from window_over [OF this, of step b l s'] st s'(2) Swept show ?thesis by simp
    qed
  qed
qed simp

text \<open>C34: the limits of the token endpoint hold whatever the cache does: of the durable requests counted in one
  bucket with limit \<open>l\<close>, a minute lets at most \<open>l\<close> through, in any order with other buckets, cached counters
  and the sweep of old rows.\<close>

theorem durable_limit_holds:
  assumes "0 < l" and "sorted (map event_time es)"
  shows "let_through step b l w es \<lparr>lm_rows = (\<lambda>k. None), lm_cache = c\<rparr> \<le> l"
  using let_through_bound [OF assms, of step b w] assms(1)
  by (simp add: row_count_def order_trans [OF let_through_bound [OF assms]])

theorem durable_limit_holds_witness:
  "let_through (\<lambda>t x u. (u, JNull)) ''k'' 2 60000
     [Counted 60000 ''k'' 2 True, Counted 60001 ''k'' 2 True, Swept 60002, Counted 60003 ''k'' 2 True]
     \<lparr>lm_rows = (\<lambda>k. None), lm_cache = ()\<rparr> \<le> 2"
  by (rule durable_limit_holds) simp_all

section \<open>The bucket follows a verified credential\<close>

type_synonym ask = "time \<times> credentials \<times> web_request"

text \<open>A request passes the hook first; the global limiter asks for its bucket afterwards.\<close>

definition gate_step :: "'s driver \<Rightarrow> (string \<Rightarrow> string) \<Rightarrow> int \<Rightarrow> ask \<Rightarrow> 's gate \<Rightarrow> 's gate \<times> string" where
  "gate_step step sha limit x g =
     (case x of (t, cr, r) \<Rightarrow>
        (case credential_hook step sha limit cr t r g of
           (g1, _) \<Rightarrow> (case rateLimitKey sha t r (gt_validated g1) of (m, k) \<Rightarrow> (g1\<lparr>gt_validated := m\<rparr>, k))))"

fun gate_run :: "'s driver \<Rightarrow> (string \<Rightarrow> string) \<Rightarrow> int \<Rightarrow> ask list \<Rightarrow> 's gate \<Rightarrow> 's gate" where
  "gate_run step sha limit [] g = g"
| "gate_run step sha limit (x # xs) g = gate_run step sha limit xs (fst (gate_step step sha limit x g))"

text \<open>The request presents a token that verifies, of this digest.\<close>

definition proves :: "(string \<Rightarrow> string) \<Rightarrow> string \<Rightarrow> ask \<Rightarrow> bool" where
  "proves sha fp x =
     (case x of (t, cr, r) \<Rightarrow>
        (case bearer_token r of
           None \<Rightarrow> False
         | Some tok \<Rightarrow> credentialFingerprint sha tok = fp
             \<and> (if starts_with KEY_PREFIX tok then cr_key cr tok \<noteq> None
                else starts_with MCP_ACCESS_TOKEN_PREFIX tok \<and> cr_oauth cr tok \<noteq> None)))"

text \<open>Every entry of the validated set was earned by a request of the run.\<close>

definition earned :: "(string \<Rightarrow> string) \<Rightarrow> ask list \<Rightarrow> validated \<Rightarrow> bool" where
  "earned sha xs m \<longleftrightarrow> (\<forall>p \<in> set m. \<exists>x \<in> set xs. proves sha (fst p) x \<and> snd p = fst x + VALIDATED_TTL_MS)"

lemma make_room_subset: "set (make_room now m) \<subseteq> set m"
  by (auto simp: make_room_def Let_def dest: in_set_dropD)

lemma make_room_short: "length (make_room now m) < VALIDATED_MAX_ENTRIES"
  by (auto simp: make_room_def Let_def VALIDATED_MAX_ENTRIES_def)

lemma note_set:
  "set (noteValidatedCredential sha now tok m) \<subseteq> insert (credentialFingerprint sha tok, now + VALIDATED_TTL_MS) (set m)"
  using make_room_subset [of now m] by (auto simp: noteValidatedCredential_def Let_def js_delete_set)

lemma note_short: "length (noteValidatedCredential sha now tok m) \<le> VALIDATED_MAX_ENTRIES"
proof -
  have "length (js_delete fp (make_room now m)) \<le> length (make_room now m)" for fp
    by (simp add: js_delete_def)
  then show ?thesis
    using make_room_short [of now m] by (simp add: noteValidatedCredential_def Let_def) (meson Suc_leI le_trans less_le_trans not_less)
qed

lemma key_set: "rateLimitKey sha now r m = (m', k) \<Longrightarrow> set m' \<subseteq> set m \<and> length m' \<le> length m"
  by (auto simp: rateLimitKey_def isValidatedFingerprint_def Let_def js_delete_set js_delete_def
      split: if_splits option.splits prod.splits)

lemma hook_set:
  assumes "credential_hook step sha limit cr t r g = (g', a)"
  shows "gt_validated g' = gt_validated g
    \<or> (\<exists>tok. gt_validated g' = noteValidatedCredential sha t tok (gt_validated g)
           \<and> proves sha (credentialFingerprint sha tok) (t, cr, r))"
  using assms
  by (auto simp: credential_hook_def limit_bucket_def Let_def proves_def split: option.splits if_splits prod.splits)

lemma gate_step_earned:
  assumes "earned sha xs (gt_validated g)" and "gate_step step sha limit x g = (g', k)"
  shows "earned sha (xs @ [x]) (gt_validated g')"
proof -
  obtain t cr r where x: "x = (t, cr, r)" by (cases x)
  obtain g1 a where h: "credential_hook step sha limit cr t r g = (g1, a)"
    by (cases "credential_hook step sha limit cr t r g")
  obtain m where m: "rateLimitKey sha t r (gt_validated g1) = (m, k)" "gt_validated g' = m"
    using assms(2) x h by (auto simp: gate_step_def split: prod.splits)
  have "earned sha (xs @ [x]) (gt_validated g1)"
    using hook_set [OF h] assms(1) note_set [of sha t _ "gt_validated g"]
    unfolding earned_def x by fastforce
  then show ?thesis using key_set [OF m(1)] m(2) unfolding earned_def by blast
qed

lemma gate_run_earned:
  "earned sha ys (gt_validated g) \<Longrightarrow> earned sha (ys @ xs) (gt_validated (gate_run step sha limit xs g))"
proof (induction xs arbitrary: ys g)
  case (Cons x xs)
  obtain g' k where st: "gate_step step sha limit x g = (g', k)" by (cases "gate_step step sha limit x g")
  from Cons.IH [OF gate_step_earned [OF Cons.prems st]] st show ?case by simp
qed simp

lemma key_needs_entry:
  assumes "rateLimitKey sha now r m = (m', k)" and "k \<noteq> ''ip:'' @ wr_ip r"
  shows "\<not> auth_path (request_path (wr_url r))
    \<and> (\<exists>tok e. bearer_token r = Some tok \<and> k = ''k:'' @ credentialFingerprint sha tok
         \<and> (credentialFingerprint sha tok, e) \<in> set m \<and> now < e)"
  using assms
  by (auto simp: rateLimitKey_def isValidatedFingerprint_def Let_def dest: map_of_SomeD
      split: if_splits option.splits prod.splits)

text \<open>C35: nothing a caller invents leaves its address bucket. After any requests, the bucket of a request is its
  address unless the path is not an authentication path and the request presents a token with the digest
  of one that a request of the run presented and the server verified less than ten minutes ago.\<close>

theorem bucket_needs_verified_credential:
  assumes "rateLimitKey sha now r (gt_validated (gate_run step sha limit xs \<lparr>gt_limits = l, gt_validated = []\<rparr>)) = (m', k)"
    and "k \<noteq> ''ip:'' @ wr_ip r"
  shows "\<not> auth_path (request_path (wr_url r))
    \<and> (\<exists>tok x. bearer_token r = Some tok \<and> k = ''k:'' @ credentialFingerprint sha tok \<and> x \<in> set xs
         \<and> proves sha (credentialFingerprint sha tok) x \<and> now < fst x + VALIDATED_TTL_MS)"
proof -
  have "earned sha ([] @ xs) (gt_validated (gate_run step sha limit xs \<lparr>gt_limits = l, gt_validated = []\<rparr>))"
    by (rule gate_run_earned) (simp add: earned_def)
  with key_needs_entry [OF assms] show ?thesis unfolding earned_def by fastforce
qed

definition demo_request :: web_request where
  "demo_request = \<lparr>wr_ip = ''1'', wr_url = ''/v1/x?y'', wr_auth = ''Bearer db_live_sk_x''\<rparr>"

definition demo_ask :: ask where
  "demo_ask = (0, \<lparr>cr_key = (\<lambda>t. Some ''k''), cr_oauth = (\<lambda>t. None)\<rparr>, demo_request)"

theorem bucket_needs_verified_credential_witness:
  "rateLimitKey (\<lambda>x. x) 1000 demo_request
     (gt_validated (gate_run (\<lambda>t x u. (u, JNull)) (\<lambda>x. x) 5 [demo_ask] \<lparr>gt_limits = \<lparr>lm_rows = (\<lambda>k. None), lm_cache = ()\<rparr>, gt_validated = []\<rparr>))
     = ([(''db_live_sk_x'', 600000)], ''k:db_live_sk_x'')
   \<and> \<not> auth_path (request_path (wr_url demo_request))"
proof -
  let ?m = "gt_validated (gate_run (\<lambda>t x u. (u, JNull)) (\<lambda>x. x) 5 [demo_ask] \<lparr>gt_limits = \<lparr>lm_rows = (\<lambda>k. None), lm_cache = ()\<rparr>, gt_validated = []\<rparr>)"
  have k: "rateLimitKey (\<lambda>x. x) 1000 demo_request ?m = ([(''db_live_sk_x'', 600000)], ''k:db_live_sk_x'')"
    by code_simp
  have n: "''k:db_live_sk_x'' \<noteq> ''ip:'' @ wr_ip demo_request" by code_simp
  show ?thesis using bucket_needs_verified_credential [OF k n] k by blast
qed

text \<open>the set of validated credentials is bounded: no sequence of requests holds more than 5000 entries.\<close>

lemma validated_set_bounded:
  "length (gt_validated (gate_run step sha limit xs \<lparr>gt_limits = l, gt_validated = []\<rparr>)) \<le> VALIDATED_MAX_ENTRIES"
proof -
  have one: "length (gt_validated (fst (gate_step step sha limit x g))) \<le> VALIDATED_MAX_ENTRIES"
    if b: "length (gt_validated g) \<le> VALIDATED_MAX_ENTRIES" for x and g :: "'a gate"
  proof -
    obtain t cr r where x: "x = (t, cr, r)" by (cases x)
    obtain g1 a where h: "credential_hook step sha limit cr t r g = (g1, a)"
      by (cases "credential_hook step sha limit cr t r g")
    have "length (gt_validated g1) \<le> VALIDATED_MAX_ENTRIES"
      using hook_set [OF h] b note_short [of sha t _ "gt_validated g"] by auto
    then show ?thesis using key_set [of sha t r "gt_validated g1"]
      by (auto simp: gate_step_def x h split: prod.splits intro: order_trans)
  qed
  have "length (gt_validated g) \<le> VALIDATED_MAX_ENTRIES \<Longrightarrow>
    length (gt_validated (gate_run step sha limit xs g)) \<le> VALIDATED_MAX_ENTRIES" for g
    by (induction xs arbitrary: g) (simp_all add: one)
  then show ?thesis by simp
qed

text \<open>The blank setting that \<open>positiveIntEnv\<close> reads as unset switches the request limit off.\<close>

lemma blank_limit_disables:
  assumes "number [] = Some 0"
  shows "limitPerMin number (Some []) key = 0" and "tokenLimitPerMin number (Some []) = 60"
    and "\<And>step t b d s. rr_allowed (snd (checkAndIncrement step t b (limitPerMin number (Some []) key) d s))"
  using assms
  by (auto simp: limitPerMin_def tokenLimitPerMin_def positiveIntEnv_def js_trim_def checkAndIncrement_def split: prod.splits)

end
