(* ===== verification/Reputation.thy ===== *)
theory Reputation
  imports Schema "HOL-Library.Char_ord" "HOL-Library.List_Lexorder"
begin

text \<open>
  \<open>services/reputation.ts\<close>: the rank ladders of contributors and validators, the score formula,
  and the public-credit preference with the credit list of a published dataset. The three ladders
  are instances of the tier-table contract of the prelude.
\<close>

section \<open>Ladders\<close>

record score_tier =
  st_name :: string
  st_min :: int
  st_batches :: int

record item_tier =
  it_name :: string
  it_min :: int
  it_batches :: int

record audit_tier =
  at_name :: string
  at_min :: int
  at_concurrent :: int

definition RANK_TIERS :: "score_tier list" where
  "RANK_TIERS =
     [\<lparr>st_name = ''Unproven'', st_min = 0, st_batches = 1\<rparr>, \<lparr>st_name = ''Starter'', st_min = 60, st_batches = 3\<rparr>,
      \<lparr>st_name = ''Reliable'', st_min = 75, st_batches = 5\<rparr>, \<lparr>st_name = ''Expert'', st_min = 85, st_batches = 10\<rparr>]"

definition CONTRIBUTOR_RANK_TIERS :: "item_tier list" where
  "CONTRIBUTOR_RANK_TIERS =
     [\<lparr>it_name = ''Scout'', it_min = 0, it_batches = 1\<rparr>, \<lparr>it_name = ''Apprentice'', it_min = 25, it_batches = 2\<rparr>,
      \<lparr>it_name = ''Builder'', it_min = 75, it_batches = 3\<rparr>, \<lparr>it_name = ''Specialist'', it_min = 150, it_batches = 5\<rparr>,
      \<lparr>it_name = ''Craftsman'', it_min = 300, it_batches = 7\<rparr>, \<lparr>it_name = ''Senior Builder'', it_min = 600, it_batches = 10\<rparr>,
      \<lparr>it_name = ''Expert'', it_min = 1000, it_batches = 15\<rparr>, \<lparr>it_name = ''Architect'', it_min = 2000, it_batches = 15\<rparr>,
      \<lparr>it_name = ''Principal'', it_min = 4000, it_batches = 15\<rparr>, \<lparr>it_name = ''Master Builder'', it_min = 8000, it_batches = 15\<rparr>]"

definition VALIDATOR_RANK_TIERS :: "audit_tier list" where
  "VALIDATOR_RANK_TIERS =
     [\<lparr>at_name = ''Observer'', at_min = 0, at_concurrent = 1\<rparr>, \<lparr>at_name = ''Reviewer'', at_min = 10, at_concurrent = 2\<rparr>,
      \<lparr>at_name = ''Inspector'', at_min = 25, at_concurrent = 3\<rparr>, \<lparr>at_name = ''Auditor'', at_min = 50, at_concurrent = 5\<rparr>,
      \<lparr>at_name = ''Senior Auditor'', at_min = 100, at_concurrent = 7\<rparr>, \<lparr>at_name = ''Quality Lead'', at_min = 200, at_concurrent = 10\<rparr>,
      \<lparr>at_name = ''Verifier'', at_min = 400, at_concurrent = 15\<rparr>, \<lparr>at_name = ''Principal Verifier'', at_min = 800, at_concurrent = 15\<rparr>,
      \<lparr>at_name = ''Arbiter'', at_min = 1500, at_concurrent = 15\<rparr>, \<lparr>at_name = ''Master Arbiter'', at_min = 3000, at_concurrent = 15\<rparr>]"

text \<open>The three loops, each starting from the first row.\<close>

definition rankForScore :: "int \<Rightarrow> score_tier" where
  "rankForScore score = foldl (\<lambda>r tier. if score \<ge> st_min tier then tier else r) (hd RANK_TIERS) RANK_TIERS"

definition contributorRankForAcceptedItems :: "int \<Rightarrow> item_tier" where
  "contributorRankForAcceptedItems n =
     foldl (\<lambda>r tier. if n \<ge> it_min tier then tier else r) (hd CONTRIBUTOR_RANK_TIERS) CONTRIBUTOR_RANK_TIERS"

definition validatorRankForAudits :: "int \<Rightarrow> audit_tier" where
  "validatorRankForAudits n =
     foldl (\<lambda>r tier. if n \<ge> at_min tier then tier else r) (hd VALIDATOR_RANK_TIERS) VALIDATOR_RANK_TIERS"

record next_rank =
  nr_name :: string
  nr_to_go :: int

definition contributorNextRank :: "int \<Rightarrow> next_rank option" where
  "contributorNextRank n =
     map_option (\<lambda>t. \<lparr>nr_name = it_name t, nr_to_go = it_min t - n\<rparr>) (find_where (\<lambda>t. it_min t > n) CONTRIBUTOR_RANK_TIERS)"

definition validatorNextRank :: "int \<Rightarrow> next_rank option" where
  "validatorNextRank n =
     map_option (\<lambda>t. \<lparr>nr_name = at_name t, nr_to_go = at_min t - n\<rparr>) (find_where (\<lambda>t. at_min t > n) VALIDATOR_RANK_TIERS)"

text \<open>The score: the two settings and the number of verified credentials.\<close>

definition score_setting :: "env \<Rightarrow> string \<Rightarrow> real \<Rightarrow> real" where
  "score_setting e k def = (case e_setting e k of Some (JNum x) \<Rightarrow> x | _ \<Rightarrow> def)"

definition computeReputationScore :: "env \<Rightarrow> bool list \<Rightarrow> real \<times> nat \<times> nat" where
  "computeReputationScore e sources =
     (let verified = count_where id sources
      in (min 100 (score_setting e ''reputation.score.base'' 52
                   + score_setting e ''reputation.score.per_verified_credential'' 12 * real verified),
          verified, length sources))"

section \<open>Public credit\<close>

record profile_prefs =
  pp_karma :: bool
  pp_badges :: bool
  pp_datasets :: bool
  pp_activity :: bool
  pp_opt_out :: bool

definition DEFAULT_PUBLIC_PROFILE_PREFS :: profile_prefs where
  "DEFAULT_PUBLIC_PROFILE_PREFS =
     \<lparr>pp_karma = True, pp_badges = True, pp_datasets = True, pp_activity = True, pp_opt_out = False\<rparr>"

definition pref_bool :: "json option \<Rightarrow> string \<Rightarrow> bool \<Rightarrow> bool" where
  "pref_bool v k def = (case v of Some j \<Rightarrow> (case jget j k of Some (JBool b) \<Rightarrow> b | _ \<Rightarrow> def) | None \<Rightarrow> def)"

definition parsePublicProfilePrefs :: "json option \<Rightarrow> profile_prefs" where
  "parsePublicProfilePrefs v =
     \<lparr>pp_karma = pref_bool v ''showKarma'' (pp_karma DEFAULT_PUBLIC_PROFILE_PREFS),
      pp_badges = pref_bool v ''showBadges'' (pp_badges DEFAULT_PUBLIC_PROFILE_PREFS),
      pp_datasets = pref_bool v ''showDatasets'' (pp_datasets DEFAULT_PUBLIC_PROFILE_PREFS),
      pp_activity = pref_bool v ''showActivity'' (pp_activity DEFAULT_PUBLIC_PROFILE_PREFS),
      pp_opt_out = pref_bool v ''attributionOptOut'' (pp_opt_out DEFAULT_PUBLIC_PROFILE_PREFS)\<rparr>"

definition prefs_json :: "profile_prefs \<Rightarrow> json" where
  "prefs_json p =
     JObj [(''showKarma'', JBool (pp_karma p)), (''showBadges'', JBool (pp_badges p)), (''showDatasets'', JBool (pp_datasets p)),
           (''showActivity'', JBool (pp_activity p)), (''attributionOptOut'', JBool (pp_opt_out p))]"

text \<open>\<open>None\<close> is the thrown error of an unknown user.\<close>

definition getAttributionPreference :: "ident \<Rightarrow> db \<Rightarrow> bool option" where
  "getAttributionPreference u d = map_option (\<lambda>r. pp_opt_out (parsePublicProfilePrefs (u_prefs r))) (user_by u d)"

definition setAttributionPreference :: "ident \<Rightarrow> bool \<Rightarrow> db \<Rightarrow> (db \<times> bool) option" where
  "setAttributionPreference u optOut d =
     (case user_by u d of
        None \<Rightarrow> None
      | Some r \<Rightarrow>
          (let prefs = (parsePublicProfilePrefs (u_prefs r))\<lparr>pp_opt_out := optOut\<rparr>
           in Some (d\<lparr>users := update_where (\<lambda>x. u_id x = u) (\<lambda>x. x\<lparr>u_prefs := Some (prefs_json prefs)\<rparr>) (users d)\<rparr>,
                    pp_opt_out prefs)))"

record contributor_credits =
  cc_credited :: "string list"
  cc_anonymized :: nat

definition accepted_contributors :: "ident \<Rightarrow> db \<Rightarrow> ident list" where
  "accepted_contributors bid d =
     remdups (map s_contributor (filter (\<lambda>s. s_bounty s = bid \<and> s_status s = S_accepted) (submissions d)))"

text \<open>A missing or empty handle cannot be named.\<close>

definition credited_handle :: "db \<Rightarrow> ident \<Rightarrow> string option" where
  "credited_handle d u =
     (case user_by u d of
        None \<Rightarrow> None
      | Some r \<Rightarrow> (case u_handle r of
                      None \<Rightarrow> None
                    | Some h \<Rightarrow> if h = [] \<or> pp_opt_out (parsePublicProfilePrefs (u_prefs r)) then None else Some h))"

definition buildContributorCredits :: "ident \<Rightarrow> string option \<Rightarrow> db \<Rightarrow> contributor_credits option" where
  "buildContributorCredits bid kind d =
     (if kind \<noteq> Some ''community'' then None
      else (let rows = accepted_contributors bid d
            in Some \<lparr>cc_credited = sort (List.map_filter (credited_handle d) rows),
                     cc_anonymized = length (filter (\<lambda>u. credited_handle d u = None) rows)\<rparr>))"

fun newline_join :: "string list \<Rightarrow> string" where
  "newline_join [] = []"
| "newline_join [s] = s"
| "newline_join (s # t # r) = s @ [char_of (10 :: nat)] @ newline_join (t # r)"

definition renderContributorCredits :: "contributor_credits option \<Rightarrow> string" where
  "renderContributorCredits credits =
     (case credits of
        None \<Rightarrow> []
      | Some c \<Rightarrow>
          (if cc_credited c \<noteq> [] then newline_join (map (\<lambda>h. ''- @'' @ h) (cc_credited c))
           else ''_No contributors opted into public credit._'')
          @ (if cc_anonymized c > 0
             then [char_of (10 :: nat), char_of (10 :: nat)] @ ''_and '' @ show_nat (cc_anonymized c)
                  @ '' contributor(s) who opted out of public credit._''
             else []))"

section \<open>Facts\<close>

interpretation score_ladder: threshold_ladder st_min RANK_TIERS rankForScore
  by unfold_locales (simp_all add: RANK_TIERS_def rankForScore_def last_reached_def)

interpretation contributor_ladder: threshold_ladder it_min CONTRIBUTOR_RANK_TIERS contributorRankForAcceptedItems
  by unfold_locales (simp_all add: CONTRIBUTOR_RANK_TIERS_def contributorRankForAcceptedItems_def last_reached_def)

interpretation validator_ladder: threshold_ladder at_min VALIDATOR_RANK_TIERS validatorRankForAudits
  by unfold_locales (simp_all add: VALIDATOR_RANK_TIERS_def validatorRankForAudits_def last_reached_def)

lemma validator_floor: "0 \<le> n \<Longrightarrow> \<exists>c \<in> set VALIDATOR_RANK_TIERS. at_min c \<le> n"
  by (simp add: VALIDATOR_RANK_TIERS_def)

lemma concurrent_mono_table:
  "c \<in> set VALIDATOR_RANK_TIERS \<Longrightarrow> c' \<in> set VALIDATOR_RANK_TIERS \<Longrightarrow> at_min c \<le> at_min c' \<Longrightarrow> at_concurrent c \<le> at_concurrent c'"
  by (auto simp: VALIDATOR_RANK_TIERS_def)

lemma concurrent_bounds: "1 \<le> at_concurrent (validatorRankForAudits n) \<and> at_concurrent (validatorRankForAudits n) \<le> 15"
  using validator_ladder.pick_in [of n] by (auto simp: VALIDATOR_RANK_TIERS_def)

lemma concurrent_mono:
  assumes "0 \<le> n" and "n \<le> m"
  shows "at_concurrent (validatorRankForAudits n) \<le> at_concurrent (validatorRankForAudits m)"
  by (rule concurrent_mono_table [OF validator_ladder.pick_in validator_ladder.pick_in])
    (rule validator_ladder.pick_mono [OF assms(2) validator_floor [OF assms(1)]])

lemma prefs_roundtrip: "parsePublicProfilePrefs (Some (prefs_json p)) = p"
  by (cases p) (simp add: parsePublicProfilePrefs_def prefs_json_def pref_bool_def)

lemma user_by_update:
  assumes "user_by u d = Some r"
  shows "user_by u (d\<lparr>users := update_where (\<lambda>x. u_id x = u) (\<lambda>x. x\<lparr>u_prefs := p\<rparr>) (users d)\<rparr>) = Some (r\<lparr>u_prefs := p\<rparr>)"
  using assms find_where_Some [of "\<lambda>x. u_id x = u" "users d" r]
  by (simp add: user_by_def find_where_key_update)

lemma map_filter_partition: "length (List.map_filter f xs) + length (filter (\<lambda>x. f x = None) xs) = length xs"
  by (induction xs) (auto simp: List.map_filter_simps split: option.split)

section \<open>Properties\<close>

text \<open>Opting out of public credit is respected: after the preference is stored it reads back, every other
  preference of the member is unchanged, no credit list built later names the member, and the credits of a dataset
  still account for every distinct accepted contributor, by name or in the anonymous count.\<close>

lemma opt_out_is_respected:
  assumes "setAttributionPreference u True d = Some (d', r)"
  shows "getAttributionPreference u d' = Some True \<and> credited_handle d' u = None
     \<and> (\<exists>x x'. user_by u d = Some x \<and> user_by u d' = Some x'
          \<and> parsePublicProfilePrefs (u_prefs x') = (parsePublicProfilePrefs (u_prefs x))\<lparr>pp_opt_out := True\<rparr>)
     \<and> (\<forall>b. \<exists>c. buildContributorCredits b (Some ''community'') d' = Some c
          \<and> length (cc_credited c) + cc_anonymized c = card (s_contributor ` {s \<in> set (submissions d). s_bounty s = b \<and> s_status s = S_accepted}))"
proof -
  obtain x where x: "user_by u d = Some x"
    using assms by (auto simp: setAttributionPreference_def split: option.splits)
  let ?p = "Some (prefs_json ((parsePublicProfilePrefs (u_prefs x))\<lparr>pp_opt_out := True\<rparr>))"
  have d': "d' = d\<lparr>users := update_where (\<lambda>y. u_id y = u) (\<lambda>y. y\<lparr>u_prefs := ?p\<rparr>) (users d)\<rparr>"
    using assms x by (simp add: setAttributionPreference_def Let_def)
  have x': "user_by u d' = Some (x\<lparr>u_prefs := ?p\<rparr>)" unfolding d' by (rule user_by_update [OF x])
  have "set (map s_contributor (filter (\<lambda>s. s_bounty s = b \<and> s_status s = S_accepted) (submissions d')))
      = s_contributor ` {s \<in> set (submissions d). s_bounty s = b \<and> s_status s = S_accepted}" for b
    by (auto simp: d')
  then have "length (accepted_contributors b d') = card (s_contributor ` {s \<in> set (submissions d). s_bounty s = b \<and> s_status s = S_accepted})" for b
    unfolding accepted_contributors_def length_remdups_card_conv by simp
  then have "\<exists>c. buildContributorCredits b (Some ''community'') d' = Some c
          \<and> length (cc_credited c) + cc_anonymized c = card (s_contributor ` {s \<in> set (submissions d). s_bounty s = b \<and> s_status s = S_accepted})" for b
    using map_filter_partition [of "credited_handle d'" "accepted_contributors b d'"]
    by (simp add: buildContributorCredits_def Let_def)
  moreover have "getAttributionPreference u d' = Some True"
    using x' by (simp add: getAttributionPreference_def prefs_roundtrip)
  moreover have "credited_handle d' u = None"
    using x' by (simp add: credited_handle_def prefs_roundtrip split: option.split)
  moreover have "parsePublicProfilePrefs (u_prefs (x\<lparr>u_prefs := ?p\<rparr>)) = (parsePublicProfilePrefs (u_prefs x))\<lparr>pp_opt_out := True\<rparr>"
    by (simp add: prefs_roundtrip)
  ultimately show ?thesis using x x' by blast
qed

lemma opt_out_is_respected_witness:
  "\<exists>d' r. setAttributionPreference ''u'' True (db0\<lparr>users := [user0 ''u'', user0 ''w'']\<rparr>) = Some (d', r)
     \<and> credited_handle d' ''u'' = None"
proof -
  obtain d' r where s: "setAttributionPreference ''u'' True (db0\<lparr>users := [user0 ''u'', user0 ''w'']\<rparr>) = Some (d', r)"
    by (simp add: setAttributionPreference_def user_by_def user0_def Let_def)
  from opt_out_is_respected [OF s] s show ?thesis by blast
qed

end
