(* ===== verification/Publication_Files.thy ===== *)
theory Publication_Files
  imports Reputation Cache_Store "HOL-Library.Product_Lexorder"
begin

text \<open>
  What a community dataset is published as (\<open>services/community-publish.ts\<close>, lines 180 to 620, with
  \<open>huggingFaceLicenseTag\<close> of \<open>lib/publication/hugging-face.ts\<close>): the accepted items, the contributor
  files they name, the manifest, the two cards and the file set of each target. Strings are UTF-8
  bytes; letter case and regular expressions are the ASCII ones. The bundled license texts, the JSON
  text of a value and the stored objects are parameters.
\<close>

section \<open>Names\<close>

definition is_az09 :: "char \<Rightarrow> bool" where
  "is_az09 c \<longleftrightarrow> c \<in> set ''abcdefghijklmnopqrstuvwxyz0123456789''"

text \<open>Every maximal run of other characters becomes one dash.\<close>

fun dash_runs :: "bool \<Rightarrow> string \<Rightarrow> string" where
  "dash_runs inrun [] = []"
| "dash_runs inrun (c # s) =
     (if is_az09 c then c # dash_runs False s
      else if inrun then dash_runs True s else CHR ''-'' # dash_runs True s)"

definition strip_dashes :: "string \<Rightarrow> string" where
  "strip_dashes s = rev (dropWhile (\<lambda>c. c = CHR ''-'') (rev (dropWhile (\<lambda>c. c = CHR ''-'') s)))"

definition dashed :: "string \<Rightarrow> string" where
  "dashed s = strip_dashes (dash_runs False (js_lower s))"

definition slugForBounty :: "ident \<Rightarrow> string \<Rightarrow> string" where
  "slugForBounty i title =
     (let base = take 80 (dashed title)
      in (if base = [] then ''dataset'' else base) @ ''-'' @ take 8 i)"

definition sizeCategory :: "int \<Rightarrow> string" where
  "sizeCategory n =
     (if n < 1000 then ''n<1K'' else if n < 10000 then ''1K<n<10K'' else if n < 100000 then ''10K<n<100K''
      else if n < 1000000 then ''100K<n<1M'' else if n < 10000000 then ''1M<n<10M''
      else if n < 100000000 then ''10M<n<100M'' else if n < 1000000000 then ''100M<n<1B'' else ''n>1B'')"

definition HF_LICENSES :: "string list" where
  "HF_LICENSES =
     [''apache-2.0'', ''mit'', ''cc0-1.0'', ''cc-by-4.0'', ''cc-by-sa-4.0'', ''cc-by-nc-4.0'',
      ''cc-by-nc-sa-4.0'', ''cc-by-nd-4.0'', ''cc-by-3.0'', ''cc'', ''bsd'', ''bsd-2-clause'',
      ''bsd-3-clause'', ''gpl-3.0'', ''gpl-2.0'', ''lgpl-3.0'', ''agpl-3.0'', ''mpl-2.0'',
      ''odc-by'', ''odbl'', ''other'', ''unknown'']"

fun dash_spaces :: "bool \<Rightarrow> string \<Rightarrow> string" where
  "dash_spaces inrun [] = []"
| "dash_spaces inrun (c # s) =
     (if \<not> is_ws c then c # dash_spaces False s
      else if inrun then dash_spaces True s else CHR ''-'' # dash_spaces True s)"

definition huggingFaceLicenseTag :: "string option \<Rightarrow> string option" where
  "huggingFaceLicenseTag raw =
     (case raw of
        None \<Rightarrow> None
      | Some r \<Rightarrow> (let n = dash_spaces False (js_lower (js_trim r))
                    in if r \<noteq> [] \<and> n \<in> set HF_LICENSES then Some n else None))"

definition is_name_char :: "char \<Rightarrow> bool" where
  "is_name_char c \<longleftrightarrow> is_az09 c \<or> c \<in> set ''ABCDEFGHIJKLMNOPQRSTUVWXYZ._-''"

definition sanitizePublishFilename :: "string \<Rightarrow> string" where
  "sanitizePublishFilename name =
     (let a = map (\<lambda>c. if is_name_char c then c else CHR ''_'') name;
          b = (if a \<noteq> [] \<and> hd a = CHR ''.'' then CHR ''_'' # dropWhile (\<lambda>c. c = CHR ''.'') a else a);
          c = take 100 b
      in if c = [] then ''file'' else c)"

section \<open>Items\<close>

record bounty_text =
  bt_title :: string
  bt_description :: string
  bt_community :: bool
  bt_license_url :: "string option"
  bt_language :: string
  bt_framework :: string
  bt_hf :: "string option"

text \<open>\<open>None\<close> is the permanent error of an unusable target size.\<close>

definition selectAcceptedSubmissionsForPublication :: "ident \<Rightarrow> int \<Rightarrow> db \<Rightarrow> submission_row list option" where
  "selectAcceptedSubmissionsForPublication bid targetItems d =
     (if targetItems < 1 \<or> 9007199254740991 < targetItems then None
      else Some (take (nat targetItems)
             (sort_key (\<lambda>s. (s_created s, s_id s)) (filter (\<lambda>s. s_bounty s = bid \<and> s_status s = S_accepted) (submissions d)))))"

record publish_attachment =
  pa_submission :: ident
  pa_field :: string
  pa_path :: string
  pa_key :: string
  pa_size :: int

record blob =
  bl_name :: "string option"
  bl_size :: "int option"
  bl_key :: "string option"

definition fileKeysOf :: "json list \<Rightarrow> string list" where
  "fileKeysOf fds =
     List.map_filter (\<lambda>f. if jget f ''role'' = Some (JStr ''file'') then (case jget f ''key'' of Some (JStr k) \<Rightarrow> Some k | _ \<Rightarrow> None)
                          else None) fds"

text \<open>The file fields of one payload with their artifact ids, each key once.\<close>

definition file_values :: "string list \<Rightarrow> json \<Rightarrow> (string \<times> ident) list" where
  "file_values ks payload =
     (case payload of
        JObj kvs \<Rightarrow> List.map_filter (\<lambda>k. case map_of kvs k of Some (JStr v) \<Rightarrow> if v = [] then None else Some (k, v) | _ \<Rightarrow> None)
                      (rev (remdups (rev ks)))
      | _ \<Rightarrow> [])"

definition publishable :: "ident \<Rightarrow> db \<Rightarrow> bool" where
  "publishable i d \<longleftrightarrow>
     list_ex (\<lambda>a. art_id a = i \<and> art_status a = AS_ready \<and> art_kind a = AK_submission_attachment) (artifacts d)"

definition attachment_of :: "(ident \<Rightarrow> blob) \<Rightarrow> db \<Rightarrow> ident \<Rightarrow> string \<times> ident \<Rightarrow> publish_attachment option" where
  "attachment_of blobs d sid kv =
     (if \<not> publishable (snd kv) d then None
      else case bl_key (blobs (snd kv)) of
             None \<Rightarrow> None
           | Some [] \<Rightarrow> None
           | Some key \<Rightarrow>
               Some \<lparr>pa_submission = sid, pa_field = fst kv,
                     pa_path = ''contributor-items/'' @ sid @ ''/'' @ fst kv @ ''-'' @ snd kv @ ''-''
                                 @ sanitizePublishFilename (case bl_name (blobs (snd kv)) of Some n \<Rightarrow> n | None \<Rightarrow> ''file''),
                     pa_key = key, pa_size = (case bl_size (blobs (snd kv)) of Some n \<Rightarrow> n | None \<Rightarrow> 0)\<rparr>)"

definition collectSubmissionAttachments ::
  "(ident \<Rightarrow> blob) \<Rightarrow> json list \<Rightarrow> submission_row list \<Rightarrow> db \<Rightarrow> publish_attachment list" where
  "collectSubmissionAttachments blobs fds subs d =
     concat (map (\<lambda>s. List.map_filter (attachment_of blobs d (s_id s)) (file_values (fileKeysOf fds) (s_payload s))) subs)"

definition MAX_PUBLISH_ATTACHMENT_BYTES :: int where
  "MAX_PUBLISH_ATTACHMENT_BYTES = 200 * 1024 * 1024"

fun cap_from :: "int \<Rightarrow> int \<Rightarrow> publish_attachment list \<Rightarrow> publish_attachment list" where
  "cap_from cap used [] = []"
| "cap_from cap used (a # as) =
     (if cap < used + pa_size a then cap_from cap used as else a # cap_from cap (used + pa_size a) as)"

definition applyAttachmentCap :: "int \<Rightarrow> publish_attachment list \<Rightarrow> publish_attachment list" where
  "applyAttachmentCap cap as = cap_from cap 0 as"

text \<open>The rewrite map of one submission; a later entry of a field replaces an earlier one.\<close>

definition attachmentPathsBySubmission :: "publish_attachment list \<Rightarrow> ident \<Rightarrow> (string \<times> string) list" where
  "attachmentPathsBySubmission as sid =
     fold (\<lambda>a m. js_put (pa_field a) (''data/'' @ pa_path a) m) (filter (\<lambda>a. pa_submission a = sid) as) []"

definition rewritten_payload :: "(string \<times> string) list \<Rightarrow> json \<Rightarrow> json" where
  "rewritten_payload rw payload =
     (case payload of
        JObj kvs \<Rightarrow> JObj (fold (\<lambda>(k, p) m. js_put k (JStr p) m) rw kvs)
      | _ \<Rightarrow> payload)"

definition item_json :: "(ident \<Rightarrow> string) \<Rightarrow> publish_attachment list \<Rightarrow> submission_row \<Rightarrow> json" where
  "item_json titles as s =
     JObj [(''submissionId'', JStr (s_id s)), (''title'', JStr (titles (s_id s))),
           (''payload'', rewritten_payload (attachmentPathsBySubmission as (s_id s)) (s_payload s))]"

definition LF :: string where "LF = [CHR 0x0A]"

definition lines_of :: "string list \<Rightarrow> string" where
  "lines_of ls = newline_join ls"

definition buildItemsJsonl ::
  "(json \<Rightarrow> string) \<Rightarrow> (ident \<Rightarrow> string) \<Rightarrow> publish_attachment list \<Rightarrow> submission_row list \<Rightarrow> string \<times> nat" where
  "buildItemsJsonl stringify titles as rows =
     (if rows = [] then [] else lines_of (map (\<lambda>s. stringify (item_json titles as s)) rows) @ LF, length rows)"

section \<open>Manifest and cards\<close>

definition ITEMS_PATH :: string where "ITEMS_PATH = ''data/items.jsonl''"

record publish_manifest =
  mf_bounty :: ident
  mf_title :: string
  mf_license :: "string option"
  mf_license_url :: "string option"
  mf_language :: string
  mf_framework :: string
  mf_items :: nat
  mf_generated :: string
  mf_credits :: contributor_credits
  mf_resolved :: nat
  mf_published :: nat

definition buildManifest :: "bounty_row \<Rightarrow> bounty_text \<Rightarrow> string \<Rightarrow> db \<Rightarrow> nat \<Rightarrow> nat \<Rightarrow> nat \<Rightarrow> publish_manifest" where
  "buildManifest b tx generated d items resolved published =
     \<lparr>mf_bounty = b_id b, mf_title = bt_title tx, mf_license = b_license b, mf_license_url = bt_license_url tx,
      mf_language = bt_language tx, mf_framework = bt_framework tx, mf_items = items, mf_generated = generated,
      mf_credits = (case buildContributorCredits (b_id b) (if bt_community tx then Some ''community'' else None) d of
                      Some c \<Rightarrow> c | None \<Rightarrow> \<lparr>cc_credited = [], cc_anonymized = 0\<rparr>),
      mf_resolved = resolved, mf_published = published\<rparr>"

definition jopt :: "string option \<Rightarrow> json" where
  "jopt s = (case s of Some x \<Rightarrow> JStr x | None \<Rightarrow> JNull)"

definition manifest_json :: "publish_manifest \<Rightarrow> json" where
  "manifest_json m =
     JObj [(''bountyId'', JStr (mf_bounty m)), (''title'', JStr (mf_title m)), (''license'', jopt (mf_license m)),
           (''licenseUrl'', jopt (mf_license_url m)), (''language'', JStr (mf_language m)), (''framework'', JStr (mf_framework m)),
           (''acceptedItems'', JNum (real (mf_items m))), (''generatedAt'', JStr (mf_generated m)),
           (''contributors'', JObj [(''credited'', JArr (map JStr (cc_credited (mf_credits m)))),
                                    (''anonymizedCount'', JNum (real (cc_anonymized (mf_credits m))))]),
           (''attachments'', JObj [(''resolved'', JNum (real (mf_resolved m))), (''published'', JNum (real (mf_published m)))])]"

definition DASH :: string where "DASH = [CHR 0xE2, CHR 0x80, CHR 0x94]"
definition TICK :: string where "TICK = [CHR 0x60]"

text \<open>A set keeps the first occurrence of each tag.\<close>

definition card_tags :: "bounty_text \<Rightarrow> string list" where
  "card_tags tx =
     rev (remdups (rev (filter (\<lambda>t. t \<noteq> [] \<and> t \<noteq> ''none'' \<and> t \<noteq> ''n-a'')
            [''databounty'', ''community'', dashed (js_trim (bt_language tx)), dashed (js_trim (bt_framework tx))])))"

definition card_front :: "bounty_row \<Rightarrow> bounty_text \<Rightarrow> publish_manifest \<Rightarrow> string" where
  "card_front b tx m =
     lines_of ([''---'']
       @ (case huggingFaceLicenseTag (b_license b) of Some t \<Rightarrow> [''license: '' @ t] | None \<Rightarrow> [])
       @ [''size_categories:'' @ LF @ ''  - '' @ sizeCategory (int (mf_items m)), ''tags:'']
       @ map (\<lambda>t. ''  - '' @ t) (card_tags tx)
       @ [''configs:'', ''  - config_name: default'', ''    data_files:'', ''      - split: train'',
          ''        path: '' @ ITEMS_PATH, ''---''])"

definition given :: "string option \<Rightarrow> bool" where
  "given s \<longleftrightarrow> s \<noteq> None \<and> s \<noteq> Some []"

definition license_text :: "bounty_row \<Rightarrow> bounty_text \<Rightarrow> string" where
  "license_text b tx = the (b_license b) @ (if given (bt_license_url tx) then '' ('' @ the (bt_license_url tx) @ '')'' else [])"

definition counted_of :: "publish_manifest \<Rightarrow> string" where
  "counted_of m = show_nat (mf_published m) @ '' of '' @ show_nat (mf_resolved m)"

definition datasetCard :: "bounty_row \<Rightarrow> bounty_text \<Rightarrow> publish_manifest \<Rightarrow> string" where
  "datasetCard b tx m =
     lines_of ([card_front b tx m, [], ''# '' @ bt_title tx, [], bt_description tx, [], ''## About'', [],
        ''This dataset was produced by the DataBounty community and published here as part of an open, karma-only program.'', [],
        ''- **Accepted items:** '' @ show_nat (mf_items m), ''- **Language:** '' @ bt_language tx, ''- **Framework:** '' @ bt_framework tx]
       @ (if given (b_license b) then [''- **License:** '' @ license_text b tx] else [])
       @ [[], ''## Contributors'', [], renderContributorCredits (Some (mf_credits m)), [], ''## Files'', [],
          ''- '' @ TICK @ ITEMS_PATH @ TICK @ '' '' @ DASH @ '' the accepted dataset items (one JSON object per line).'',
          ''- '' @ TICK @ ''manifest.json'' @ TICK @ '' '' @ DASH @ '' machine-readable provenance, license, and credit metadata.'']
       @ (if mf_published m \<noteq> 0
          then [''- '' @ TICK @ ''data/contributor-items/'' @ TICK @ '' '' @ DASH @ '' '' @ show_nat (mf_published m)
                  @ '' contributor-uploaded file(s); an item'' @ [CHR 0x27] @ ''s file field holds the path to its file.''] else [])
       @ (if mf_published m < mf_resolved m
          then [LF @ ''**Partial upload set.** '' @ counted_of m @ '' contributor files are included; the rest exceeded this run''
                  @ [CHR 0x27] @ ''s cumulative size cap. An item whose file was omitted keeps the raw artifact id rather than a path to a file that is not here.'']
          else [])
       @ [[]])"

text \<open>A bundled license: its name, page and full text.\<close>

type_synonym license_shelf = "string option \<Rightarrow> (string \<times> string \<times> string) option"

definition github_license_line :: "license_shelf \<Rightarrow> bounty_row \<Rightarrow> bounty_text \<Rightarrow> string" where
  "github_license_line shelf b tx =
     (case shelf (b_license b) of
        Some (name, url, txt) \<Rightarrow>
          ''['' @ name @ ''](''@ url @ '') '' @ DASH @ '' full text in ['' @ TICK @ ''LICENSE'' @ TICK @ ''](LICENSE).''
      | None \<Rightarrow> if given (b_license b) then license_text b tx @ ''. Full text is not bundled in this repository.''
                 else ''Not specified.'')"

definition gitHubDatasetCard :: "license_shelf \<Rightarrow> bounty_row \<Rightarrow> bounty_text \<Rightarrow> publish_manifest \<Rightarrow> string" where
  "gitHubDatasetCard shelf b tx m =
     lines_of ([''# '' @ bt_title tx, [], bt_description tx, [],
        ''Produced by the DataBounty community and published as part of an open, karma-only program.'', [],
        ''## At a glance'', [], ''| | |'', ''|---|---|'',
        ''| Accepted items | '' @ show_nat (mf_items m) @ '' |'', ''| Language | '' @ bt_language tx @ '' |'',
        ''| Framework | '' @ bt_framework tx @ '' |'', ''| License | '' @ github_license_line shelf b tx @ '' |'',
        ''| Generated | '' @ mf_generated m @ '' |'', [], ''## Files'', [], ''| Path | What it is |'', ''|---|---|'',
        ''| '' @ TICK @ ITEMS_PATH @ TICK @ '' | The accepted dataset items, one JSON object per line (JSONL). |'',
        ''| '' @ TICK @ ''manifest.json'' @ TICK @ '' | Machine-readable provenance, license, and credit metadata. |'']
       @ (if shelf (b_license b) \<noteq> None
          then [''| '' @ TICK @ ''LICENSE'' @ TICK @ '' | The full license text this dataset is released under. |''] else [])
       @ (if mf_published m \<noteq> 0
          then [''| '' @ TICK @ ''data/contributor-items/'' @ TICK @ '' | '' @ show_nat (mf_published m)
                  @ '' file(s) contributors uploaded. An item'' @ [CHR 0x27] @ ''s file field holds the path to its file here. |''] else [])
       @ [[]]
       @ (if mf_published m < mf_resolved m
          then [''> **Partial upload set.** '' @ counted_of m @ '' contributor files are included; the rest exceeded this publish run''
                  @ [CHR 0x27] @ ''s cumulative size cap. An item whose file was not included keeps the raw artifact id instead of a path, ''
                  @ ''so it is visibly unresolved rather than pointing at a file that is not here.'', []]
          else [])
       @ [''## Contributors'', [], renderContributorCredits (Some (mf_credits m)), []])"

section \<open>The file set of a target\<close>

datatype target = T_huggingface | T_github | T_aikosh

type_synonym publish_file = "string \<times> string"

definition GITATTRIBUTES :: string where
  "GITATTRIBUTES = lines_of [''# Generated by DataBounty; not hand-edited.'', ITEMS_PATH @ '' linguist-generated=true -diff'',
     ''manifest.json linguist-generated=true'', []]"

definition shared_files :: "(json \<Rightarrow> string) \<Rightarrow> publish_manifest \<Rightarrow> string \<Rightarrow> publish_file list \<Rightarrow> publish_file list" where
  "shared_files pretty m jsonl attached =
     [(ITEMS_PATH, jsonl), (''manifest.json'', pretty (manifest_json m))] @ map (\<lambda>(p, c). (''data/'' @ p, c)) attached"

definition buildFilesForTarget ::
  "(json \<Rightarrow> string) \<Rightarrow> license_shelf \<Rightarrow> target \<Rightarrow> bounty_row \<Rightarrow> bounty_text \<Rightarrow> publish_manifest \<Rightarrow> string
     \<Rightarrow> publish_file list \<Rightarrow> publish_file list" where
  "buildFilesForTarget pretty shelf t b tx m jsonl attached =
     (if t = T_huggingface then shared_files pretty m jsonl attached @ [(''README.md'', datasetCard b tx m)]
      else shared_files pretty m jsonl attached
           @ [(''README.md'', gitHubDatasetCard shelf b tx m), (''.gitattributes'', GITATTRIBUTES)]
           @ (case shelf (b_license b) of Some (name, url, txt) \<Rightarrow> [(''LICENSE'', txt)] | None \<Rightarrow> []))"

section \<open>Facts\<close>

lemma cap_from_bound:
  "used \<le> cap \<Longrightarrow> used + sum_list (map pa_size (cap_from cap used as)) \<le> cap"
proof (induction as arbitrary: used)
  case (Cons a as)
  show ?case
  proof (cases "cap < used + pa_size a")
    case False
    then show ?thesis using Cons.IH [of "used + pa_size a"] by (simp add: add.assoc)
  qed (use Cons in simp)
qed simp

lemma cap_from_subset: "set (cap_from cap used as) \<subseteq> set as"
  by (induction as arbitrary: used) auto

lemma map_of_puts:
  "map_of (fold (\<lambda>(k, p) m. js_put k (f p) m) rw m) k = Some v \<Longrightarrow> map_of m k = Some v \<or> (\<exists>p. (k, p) \<in> set rw \<and> v = f p)"
proof (induction rw arbitrary: m)
  case Nil
  then show ?case by simp
next
  case (Cons kp rw)
  obtain k' p where kp: "kp = (k', p)" by (cases kp)
  have "map_of (fold (\<lambda>(k, p) m. js_put k (f p) m) rw (js_put k' (f p) m)) k = Some v"
    using Cons.prems kp by simp
  then have "map_of (js_put k' (f p) m) k = Some v \<or> (\<exists>q. (k, q) \<in> set rw \<and> v = f q)" by (rule Cons.IH)
  then show ?case using kp by (auto simp: js_put_of split: if_splits)
qed

lemma set_js_put: "set (js_put k v m) \<subseteq> insert (k, v) (set m)"
  by (auto simp: js_put_def)

lemma paths_come_from_attachments:
  "(k, p) \<in> set (attachmentPathsBySubmission as sid) \<Longrightarrow> \<exists>a \<in> set as. pa_submission a = sid \<and> pa_field a = k \<and> p = ''data/'' @ pa_path a"
proof -
  have "(k, p) \<in> set (fold (\<lambda>a m. js_put (pa_field a) (''data/'' @ pa_path a) m) xs m)
      \<Longrightarrow> (k, p) \<in> set m \<or> (\<exists>a \<in> set xs. pa_field a = k \<and> p = ''data/'' @ pa_path a)" for xs m
  proof (induction xs arbitrary: m)
    case Nil
    then show ?case by simp
  next
    case (Cons a xs)
    then have "(k, p) \<in> set (js_put (pa_field a) (''data/'' @ pa_path a) m) \<or> (\<exists>a \<in> set xs. pa_field a = k \<and> p = ''data/'' @ pa_path a)"
      by simp
    then show ?case using set_js_put [of "pa_field a" "''data/'' @ pa_path a" m] by auto
  qed
  from this [of "filter (\<lambda>a. pa_submission a = sid) as" "[]"]
  show "(k, p) \<in> set (attachmentPathsBySubmission as sid) \<Longrightarrow> ?thesis"
    by (auto simp: attachmentPathsBySubmission_def)
qed

lemma files_split: "\<exists>own. buildFilesForTarget pretty shelf t b tx m jsonl att = shared_files pretty m jsonl att @ own"
proof (cases "t = T_huggingface")
  case True
  show ?thesis unfolding buildFilesForTarget_def if_P [OF True] by blast
next
  case False
  show ?thesis unfolding buildFilesForTarget_def if_not_P [OF False] by blast
qed

lemma length_shared_files: "length (shared_files pretty m jsonl att) = 2 + length att"
  unfolding shared_files_def by (simp only: length_append list.size length_map)

lemma shared_in_every_target: "set (shared_files pretty m jsonl att) \<subseteq> set (buildFilesForTarget pretty shelf t b tx m jsonl att)"
  using files_split [of pretty shelf t b tx m jsonl att] by auto

lemma shared_prefix:
  "take (2 + length att) (buildFilesForTarget pretty shelf t b tx m jsonl att) = shared_files pretty m jsonl att"
  using files_split [of pretty shelf t b tx m jsonl att] length_shared_files [of pretty m jsonl att]
  by (metis append_eq_conv_conj)

text \<open>a published item never names a file that was not pushed: a field of its payload is either the
  stored value or the path of a file in the file set of every target. The files of all targets
  begin with the same items, manifest and attachments, byte for byte, and the attachments of a run
  are among those resolved and stay within the byte cap.\<close>

lemma published_items_name_pushed_files:
  assumes "rewritten_payload (attachmentPathsBySubmission as (s_id s)) (JObj kvs) = JObj kvs'" and "map_of kvs' k = Some v"
    and "0 \<le> cap"
  shows "(map_of kvs k = Some v
      \<or> (\<exists>p c. v = JStr p \<and> (p, c) \<in> set (buildFilesForTarget pretty shelf t b tx m jsonl (map (\<lambda>a. (pa_path a, content a)) as))))
    \<and> take (2 + length as) (buildFilesForTarget pretty shelf t b tx m jsonl (map (\<lambda>a. (pa_path a, content a)) as))
        = take (2 + length as) (buildFilesForTarget pretty shelf t' b tx m jsonl (map (\<lambda>a. (pa_path a, content a)) as))
    \<and> set (applyAttachmentCap cap as) \<subseteq> set as
    \<and> sum_list (map pa_size (applyAttachmentCap cap as)) \<le> cap"
proof -
  let ?att = "map (\<lambda>a. (pa_path a, content a)) as"
  have kvs': "kvs' = fold (\<lambda>(k, p) m. js_put k (JStr p) m) (attachmentPathsBySubmission as (s_id s)) kvs"
    using assms(1) by (simp add: rewritten_payload_def)
  have named: "map_of kvs k = Some v
      \<or> (\<exists>p c. v = JStr p \<and> (p, c) \<in> set (buildFilesForTarget pretty shelf t b tx m jsonl ?att))"
  proof -
    from map_of_puts [OF assms(2) [unfolded kvs']]
    consider "map_of kvs k = Some v" | p where "(k, p) \<in> set (attachmentPathsBySubmission as (s_id s))" "v = JStr p" by blast
    then show ?thesis
    proof cases
      case 2
      then obtain a where "a \<in> set as" "p = ''data/'' @ pa_path a" using paths_come_from_attachments by blast
      then have "(p, content a) \<in> set (shared_files pretty m jsonl ?att)" by (auto simp: shared_files_def)
      then have "(p, content a) \<in> set (buildFilesForTarget pretty shelf t b tx m jsonl ?att)"
        by (rule subsetD [OF shared_in_every_target])
      then show ?thesis using 2 by blast
    qed blast
  qed
  have shared: "take (2 + length as) (buildFilesForTarget pretty shelf u b tx m jsonl ?att) = shared_files pretty m jsonl ?att" for u
    using shared_prefix [of ?att pretty shelf u b tx m jsonl] unfolding length_map .
  have "take (2 + length as) (buildFilesForTarget pretty shelf t b tx m jsonl ?att)
      = take (2 + length as) (buildFilesForTarget pretty shelf t' b tx m jsonl ?att)" by (rule trans [OF shared shared [symmetric]])
  moreover have "set (applyAttachmentCap cap as) \<subseteq> set as" by (simp add: applyAttachmentCap_def cap_from_subset)
  moreover have "sum_list (map pa_size (applyAttachmentCap cap as)) \<le> cap"
    using cap_from_bound [of 0 cap as] assms(3) by (simp add: applyAttachmentCap_def)
  ultimately show ?thesis using named by blast
qed

definition demo_attachment :: publish_attachment where
  "demo_attachment = \<lparr>pa_submission = ''s'', pa_field = ''shot'', pa_path = ''contributor-items/s/shot-a1-x.png'', pa_key = ''k'', pa_size = 10\<rparr>"

definition demo_text :: bounty_text where
  "demo_text = \<lparr>bt_title = ''Demo'', bt_description = [], bt_community = True, bt_license_url = None, bt_language = ''en'',
     bt_framework = ''none'', bt_hf = None\<rparr>"

lemma published_items_name_pushed_files_witness:
  "\<exists>c. (''data/contributor-items/s/shot-a1-x.png'', c)
     \<in> set (buildFilesForTarget (\<lambda>j. []) (\<lambda>l. None) T_github (bounty0 ''b'') demo_text
              (buildManifest (bounty0 ''b'') demo_text [] db0 1 1 1) [] (map (\<lambda>a. (pa_path a, ''x'')) [demo_attachment]))"
proof -
  let ?s = "submission0 ''s'' ''b'' ''c'' S_accepted" and ?v = "JStr ''data/contributor-items/s/shot-a1-x.png''"
  have a: "rewritten_payload (attachmentPathsBySubmission [demo_attachment] (s_id ?s)) (JObj [(''shot'', JStr ''a1'')])
      = JObj [(''shot'', ?v)]"
    by (simp add: rewritten_payload_def attachmentPathsBySubmission_def demo_attachment_def submission0_def js_put_def)
  show ?thesis
    using published_items_name_pushed_files [OF a, of "''shot''" ?v 100 "\<lambda>j. []" "\<lambda>l. None" T_github "bounty0 ''b''"
        demo_text "buildManifest (bounty0 ''b'') demo_text [] db0 1 1 1" "[]" "\<lambda>a. ''x''"]
    by auto
qed

end
