(* ===== verification/Hub_Request.thy ===== *)
theory Hub_Request
  imports Publication_Files Digest
begin

text \<open>
  The request layer the publication drivers share (\<open>lib/publication/errors.ts\<close> and the private
  \<open>request\<close> helpers of \<open>github.ts\<close> and \<open>hugging-face.ts\<close>). The host is a parameter: a function from a
  call and the state of the world to a reply, or to no reply, and the next state of the world; nothing
  is assumed of it. A body that is not a JSON object reads as one without fields. Everything a driver
  does is a computation that threads the world and may end in an error, which says whether it is
  permanent.
\<close>

record pub_error =
  pe_message :: string
  pe_permanent :: bool

record http_response =
  hr_status :: int
  hr_json :: json
  hr_text :: string
  hr_retry_after :: bool
  hr_remaining :: "string option"

datatype http_reply = Got http_response | Lost string

datatype http_method = GET | POST | PUT | PATCH | DELETE

datatype http_body = No_body | Json_body json | Json_lines "json list" | Bytes_body string

record http_call =
  hc_method :: http_method
  hc_url :: string
  hc_body :: http_body

type_synonym 'w host = "http_call \<Rightarrow> 'w \<Rightarrow> http_reply \<times> 'w"

type_synonym ('w, 'a) net = "'w \<Rightarrow> (pub_error + 'a) \<times> 'w"

definition net_return :: "'a \<Rightarrow> ('w, 'a) net" where
  "net_return x w = (Inr x, w)"

definition net_fail :: "string \<Rightarrow> bool \<Rightarrow> ('w, 'a) net" where
  "net_fail m p w = (Inl \<lparr>pe_message = m, pe_permanent = p\<rparr>, w)"

definition net_bind :: "('w, 'a) net \<Rightarrow> ('a \<Rightarrow> ('w, 'b) net) \<Rightarrow> ('w, 'b) net" where
  "net_bind m f w = (case m w of (Inl e, w') \<Rightarrow> (Inl e, w') | (Inr x, w') \<Rightarrow> f x w')"

text \<open>A best-effort step: its error is dropped.\<close>

definition net_try :: "('w, 'a) net \<Rightarrow> ('w, unit) net" where
  "net_try m w = (Inr (), snd (m w))"

fun net_each :: "('a \<Rightarrow> ('w, 'b) net) \<Rightarrow> 'a list \<Rightarrow> ('w, 'b list) net" where
  "net_each f [] = net_return []"
| "net_each f (x # xs) = net_bind (f x) (\<lambda>y. net_bind (net_each f xs) (\<lambda>ys. net_return (y # ys)))"

section \<open>Statuses\<close>

text \<open>A 4xx other than 429 cannot be fixed by retrying.\<close>

definition isPermanentStatus :: "int \<Rightarrow> bool" where
  "isPermanentStatus s \<longleftrightarrow> 400 \<le> s \<and> s < 500 \<and> s \<noteq> 429"

definition is_ok :: "int \<Rightarrow> bool" where
  "is_ok s \<longleftrightarrow> 200 \<le> s \<and> s < 300"

fun includes_text :: "string \<Rightarrow> string \<Rightarrow> bool" where
  "includes_text p [] = (p = [])"
| "includes_text p (c # s) = (starts_with p (c # s) \<or> includes_text p s)"

text \<open>GitHub answers its rate limits with 403.\<close>

definition github_permanent :: "http_response \<Rightarrow> string \<Rightarrow> bool" where
  "github_permanent r body =
     (if hr_status r \<noteq> 403 then isPermanentStatus (hr_status r)
      else if hr_retry_after r then False
      else if hr_remaining r = Some ''0'' then False
      else \<not> (includes_text ''rate limit'' (js_lower body) \<or> includes_text ''secondary rate'' (js_lower body)
               \<or> includes_text ''abuse detection'' (js_lower body)))"

definition colon_detail :: "string \<Rightarrow> string" where
  "colon_detail d = (if d = [] then [] else '': '' @ d)"

text \<open>One request: \<open>judge\<close> says whether a refusal is permanent.\<close>

definition request ::
  "'w host \<Rightarrow> (http_response \<Rightarrow> string \<Rightarrow> bool) \<Rightarrow> string \<Rightarrow> http_call \<Rightarrow> int list \<Rightarrow> ('w, http_response) net" where
  "request host judge api c okStatuses w =
     (case host c w of
        (Lost reason, w') \<Rightarrow> net_fail (''Request failed for '' @ hc_url c @ '': '' @ reason) False w'
      | (Got r, w') \<Rightarrow>
          if is_ok (hr_status r) \<or> hr_status r \<in> set okStatuses then net_return r w'
          else net_fail (api @ '' API '' @ show_int (hr_status r) @ '' for '' @ hc_url c @ colon_detail (take 300 (hr_text r)))
                 (judge r (take 300 (hr_text r))) w')"

definition request_json ::
  "'w host \<Rightarrow> (http_response \<Rightarrow> string \<Rightarrow> bool) \<Rightarrow> string \<Rightarrow> http_call \<Rightarrow> int list \<Rightarrow> ('w, json) net" where
  "request_json host judge api c okStatuses =
     net_bind (request host judge api c okStatuses) (\<lambda>r. net_return (hr_json r))"

section \<open>Reading a body\<close>

definition field_text :: "json \<Rightarrow> string \<Rightarrow> string option" where
  "field_text j k = (case jget j k of Some (JStr s) \<Rightarrow> if s = [] then None else Some s | _ \<Rightarrow> None)"

definition inner :: "json \<Rightarrow> string \<Rightarrow> json" where
  "inner j k = (case jget j k of Some x \<Rightarrow> x | None \<Rightarrow> JNull)"

definition array_of :: "json \<Rightarrow> json list" where
  "array_of j = (case j of JArr xs \<Rightarrow> xs | _ \<Rightarrow> [])"

text \<open>The first slash splits a repository id; both parts are non-empty.\<close>

definition split_repo_id :: "string \<Rightarrow> (string \<times> string) option" where
  "split_repo_id r =
     (let a = takeWhile (\<lambda>c. c \<noteq> CHR ''/'') r; b = drop (Suc (length a)) r
      in if CHR ''/'' \<in> set r \<and> a \<noteq> [] \<and> b \<noteq> [] then Some (a, b) else None)"

lemma in_map_filter: "x \<in> set (List.map_filter f xs) \<Longrightarrow> \<exists>y \<in> set xs. f y = Some x"
  by (induction xs) (auto simp: List.map_filter_def split: if_splits)

definition ends_with :: "string \<Rightarrow> string \<Rightarrow> bool" where
  "ends_with p s \<longleftrightarrow> starts_with (rev p) (rev s)"

definition without_suffix :: "string \<Rightarrow> string \<Rightarrow> string" where
  "without_suffix p s =
     (if ends_with p s then take (length s - length p) s
      else if ends_with (p @ ''/'') s then take (length s - length p - 1) s else s)"

text \<open>\<open>toFixed(1)\<close> of the quotient of two whole numbers.\<close>

definition fixed1 :: "nat \<Rightarrow> nat \<Rightarrow> string" where
  "fixed1 num den = (let n = (20 * num + den) div (2 * den) in show_nat (n div 10) @ ''.'' @ show_nat (n mod 10))"

section \<open>Base64\<close>

definition b64_alphabet :: string where
  "b64_alphabet = ''ABCDEFGHIJKLMNOPQRSTUVWXYZabcdefghijklmnopqrstuvwxyz0123456789+/''"

definition b64_char :: "nat \<Rightarrow> char" where
  "b64_char n = b64_alphabet ! (n mod 64)"

definition byte :: "char \<Rightarrow> nat" where
  "byte c = of_char c"

fun base64 :: "string \<Rightarrow> string" where
  "base64 [] = []"
| "base64 [a] = [b64_char (byte a div 4), b64_char (byte a mod 4 * 16), CHR ''='', CHR ''='']"
| "base64 [a, b] =
     [b64_char (byte a div 4), b64_char (byte a mod 4 * 16 + byte b div 16), b64_char (byte b mod 16 * 4), CHR ''='']"
| "base64 (a # b # c # s) =
     b64_char (byte a div 4) # b64_char (byte a mod 4 * 16 + byte b div 16)
       # b64_char (byte b mod 16 * 4 + byte c div 64) # b64_char (byte c mod 64) # base64 s"

section \<open>What a computation calls\<close>

text \<open>The host with a record of the calls made.\<close>

definition recording :: "'w host \<Rightarrow> ('w \<times> http_call list) host" where
  "recording host c wl = (case host c (fst wl) of (r, w') \<Rightarrow> (r, (w', snd wl @ [c])))"

text \<open>Every call a computation makes satisfies \<open>R\<close>, whatever was recorded before it.\<close>

definition makes :: "(http_call \<Rightarrow> bool) \<Rightarrow> ('w \<times> http_call list, 'a) net \<Rightarrow> bool" where
  "makes R m \<longleftrightarrow> (\<forall>w past. \<exists>more_calls. snd (snd (m (w, past))) = past @ more_calls \<and> list_all R more_calls)"

named_theorems calls \<open>how the calls of a computation compose\<close>

lemma makes_return [calls]: "makes R (net_return x)"
  by (simp add: makes_def net_return_def)

lemma makes_fail [calls]: "makes R (net_fail m p)"
  by (simp add: makes_def net_fail_def)

lemma net_bind_ok:
  "net_bind m f w = (Inr y, w'') \<longleftrightarrow> (\<exists>x w'. m w = (Inr x, w') \<and> f x w' = (Inr y, w''))"
  by (auto simp: net_bind_def split: prod.splits sum.splits)

definition returns :: "('w, 'a) net \<Rightarrow> 'a \<Rightarrow> bool" where
  "returns m x \<longleftrightarrow> (\<exists>w w'. m w = (Inr x, w'))"

lemma makes_bind_returns:
  assumes "makes R m" and "\<And>x. returns m x \<Longrightarrow> makes R (f x)"
  shows "makes R (net_bind m f)"
  unfolding makes_def
proof (intro allI)
  fix w past
  obtain more_calls where more_calls: "snd (snd (m (w, past))) = past @ more_calls" "list_all R more_calls"
    using assms(1) by (auto simp: makes_def)
  show "\<exists>more_calls. snd (snd (net_bind m f (w, past))) = past @ more_calls \<and> list_all R more_calls"
  proof (cases "fst (m (w, past))")
    case (Inl e)
    then show ?thesis using more_calls by (cases "m (w, past)") (auto simp: net_bind_def)
  next
    case (Inr x)
    obtain w' past' where wl: "m (w, past) = (Inr x, (w', past'))"
      using Inr by (cases "m (w, past)") auto
    have "returns m x" unfolding returns_def using wl by blast
    then obtain later_calls where "snd (snd (f x (w', past'))) = past' @ later_calls" "list_all R later_calls"
      using assms(2) [of x] unfolding makes_def by blast
    then have "snd (snd (net_bind m f (w, past))) = past @ (more_calls @ later_calls) \<and> list_all R (more_calls @ later_calls)"
      using more_calls wl by (simp add: net_bind_def)
    then show ?thesis by blast
  qed
qed

lemma makes_bind [calls]: "makes R m \<Longrightarrow> (\<And>x. makes R (f x)) \<Longrightarrow> makes R (net_bind m f)"
  by (rule makes_bind_returns)

lemma returns_bind: "returns (net_bind m f) y \<Longrightarrow> \<exists>x. returns m x \<and> returns (f x) y"
  unfolding returns_def net_bind_ok by blast

lemma returns_return [simp]: "returns (net_return x) y \<longleftrightarrow> x = y"
  by (auto simp: returns_def net_return_def)

lemma returns_fail [simp]: "\<not> returns (net_fail m p) y"
  by (simp add: returns_def net_fail_def)

lemma returns_each: "returns (net_each f xs) ys \<Longrightarrow> list_all2 (\<lambda>x y. returns (f x) y) xs ys"
proof (induction xs arbitrary: ys)
  case (Cons x xs)
  then obtain y ys' where "returns (f x) y" "returns (net_each f xs) ys'" "ys = y # ys'"
    by (auto dest!: returns_bind)
  then show ?case using Cons.IH by simp
qed simp

lemma makes_try [calls]: "makes R m \<Longrightarrow> makes R (net_try m)"
  by (simp add: makes_def net_try_def)

lemma makes_each [calls]: "(\<And>x. makes R (f x)) \<Longrightarrow> makes R (net_each f xs)"
  by (induction xs) (auto intro!: calls)

lemma makes_each_in: "(\<And>x. x \<in> set xs \<Longrightarrow> makes R (f x)) \<Longrightarrow> makes R (net_each f xs)"
proof (induction xs)
  case (Cons x xs)
  then have "makes R (f x)" "makes R (net_each f xs)" by simp_all
  then show ?case by (auto intro!: makes_bind makes_return)
qed (simp add: makes_return)

lemma makes_request [calls]: "R c \<Longrightarrow> makes R (request (recording host) judge api c ok)"
  by (auto simp: makes_def request_def recording_def net_fail_def net_return_def split: prod.splits http_reply.splits)

lemma makes_request_json [calls]: "R c \<Longrightarrow> makes R (request_json (recording host) judge api c ok)"
  unfolding request_json_def by (intro calls)

lemma makes_if [calls]: "(c \<Longrightarrow> makes R m) \<Longrightarrow> (\<not> c \<Longrightarrow> makes R n) \<Longrightarrow> makes R (if c then m else n)"
  by simp

lemma makes_option [calls]:
  "(x = None \<Longrightarrow> makes R m) \<Longrightarrow> (\<And>y. x = Some y \<Longrightarrow> makes R (f y)) \<Longrightarrow> makes R (case x of None \<Rightarrow> m | Some y \<Rightarrow> f y)"
  by (cases x) simp_all

lemma makes_log: "makes R m \<Longrightarrow> c \<in> set (snd (snd (m (w, [])))) \<Longrightarrow> R c"
  unfolding makes_def by (metis append_Nil list_all_iff)

section \<open>Results\<close>

lemma net_return_ok [simp]: "net_return x w = (Inr y, w') \<longleftrightarrow> x = y \<and> w = w'"
  by (auto simp: net_return_def)

lemma net_fail_ok [simp]: "net_fail m p w \<noteq> (Inr y, w')"
  by (simp add: net_fail_def)

lemma request_ok:
  "request host judge api c ok w = (Inr r, w') \<longleftrightarrow> host c w = (Got r, w') \<and> (is_ok (hr_status r) \<or> hr_status r \<in> set ok)"
  by (auto simp: request_def net_return_def net_fail_def split: prod.splits http_reply.splits if_splits)

text \<open>Whether the caller retries is decided by the status alone outside of 403: nothing that was lost,
  no 429 and no 5xx is permanent, and every other 4xx is.\<close>

lemma request_error:
  assumes "request host judge api c ok w = (Inl e, w')" and "judge = (\<lambda>r d. isPermanentStatus (hr_status r))"
  shows "(\<exists>reason. host c w = (Lost reason, w') \<and> \<not> pe_permanent e)
    \<or> (\<exists>r. host c w = (Got r, w') \<and> \<not> is_ok (hr_status r) \<and> (pe_permanent e \<longleftrightarrow> 400 \<le> hr_status r \<and> hr_status r < 500 \<and> hr_status r \<noteq> 429))"
  using assms by (auto simp: request_def net_return_def net_fail_def isPermanentStatus_def split: prod.splits http_reply.splits if_splits)

end
