(* ===== verification/Sandbox.thy ===== *)
theory Sandbox
  imports Hub_Request
begin

text \<open>
  The isolated sandbox contributor code runs in (\<open>services/execution-providers/posture.ts\<close>, \<open>e2b.ts\<close> and
  the execution budget of \<open>config.ts\<close>). The service behind the SDK is a parameter: a function from the
  calls made so far to the answer of the next one, of which nothing is assumed. Every call of a run is
  recorded, so that the order of creating, checking, writing and running can be stated. Messages of
  errors are constructors.
\<close>

section \<open>Configuration\<close>

record sandbox_config =
  sc_allow_egress :: bool
  sc_allowlist :: "string list"
  sc_verify :: bool
  sc_max_cpus :: real
  sc_max_memory :: real
  sc_max_processes :: int
  sc_max_file_mb :: int
  sc_max_open_files :: int
  sc_api_key :: string
  sc_template :: string
  sc_timeout :: real

text \<open>The budgets derived from the one outer timeout, and the order checked at start.\<close>

definition childTimeoutMs :: "real \<Rightarrow> int" where "childTimeoutMs t = \<lfloor>t * (4 / 10)\<rfloor>"
definition probeTimeoutMs :: "real \<Rightarrow> int" where "probeTimeoutMs t = min 5000 \<lfloor>t * (15 / 100)\<rfloor>"
definition sandboxLifetimeMs :: "real \<Rightarrow> real" where "sandboxLifetimeMs t = t + 30000"

definition timeouts_ordered :: "real \<Rightarrow> bool" where
  "timeouts_ordered t \<longleftrightarrow>
     real_of_int (childTimeoutMs t) < t \<and> real_of_int (childTimeoutMs t * 2 + probeTimeoutMs t) < t \<and> t < sandboxLifetimeMs t"

text \<open>The isolation checks at start: both are refused only in production.\<close>

definition boot_refused :: "bool \<Rightarrow> sandbox_config \<Rightarrow> bool" where
  "boot_refused production c \<longleftrightarrow> \<not> timeouts_ordered (sc_timeout c) \<or> production \<and> (sc_allow_egress c \<or> \<not> sc_verify c)"

lemma boot_budget:
  assumes "5000 \<le> t"
  shows "timeouts_ordered t"
proof -
  have c: "real_of_int (childTimeoutMs t) \<le> t * (4 / 10)" unfolding childTimeoutMs_def by linarith
  have p: "real_of_int (probeTimeoutMs t) \<le> t * (15 / 100)" unfolding probeTimeoutMs_def by linarith
  have "real_of_int (childTimeoutMs t * 2 + probeTimeoutMs t) \<le> t * (95 / 100)" using c p by simp
  then show ?thesis using c assms by (simp add: timeouts_ordered_def sandboxLifetimeMs_def)
qed

section \<open>Posture\<close>

datatype egress = E_blocked | E_allowlist | E_open

record posture =
  po_egress :: egress
  po_allowlist :: "string list"

definition blocked_posture :: posture where
  "blocked_posture = \<lparr>po_egress = E_blocked, po_allowlist = []\<rparr>"

definition requestedPosture :: "sandbox_config \<Rightarrow> posture" where
  "requestedPosture c =
     (if sc_allow_egress c then \<lparr>po_egress = E_open, po_allowlist = []\<rparr>
      else if sc_allowlist c \<noteq> [] then \<lparr>po_egress = E_allowlist, po_allowlist = sc_allowlist c\<rparr>
      else blocked_posture)"

text \<open>What a provider can do: an allowlist, or only nothing at all (also when it does not say).\<close>

datatype egress_capability = Can_allowlist | Deny_only

definition egressCapabilityOf :: "egress_capability option \<Rightarrow> egress_capability" where
  "egressCapabilityOf x = (case x of Some y \<Rightarrow> y | None \<Rightarrow> Deny_only)"

definition requestedPostureFor :: "sandbox_config \<Rightarrow> egress_capability option \<Rightarrow> posture" where
  "requestedPostureFor c cap =
     (let intended = requestedPosture c
      in if po_egress intended \<noteq> E_allowlist then intended
         else if egressCapabilityOf cap = Can_allowlist then intended else blocked_posture)"

definition requestedPostureForCategory :: "sandbox_config \<Rightarrow> egress_capability option \<Rightarrow> bool \<Rightarrow> posture" where
  "requestedPostureForCategory c cap allowNetwork = (if allowNetwork then requestedPostureFor c cap else blocked_posture)"

section \<open>The service\<close>

text \<open>What the SDK may throw: its name, the code of its cause, a status, and the result of a command that
  ended with another exit code than 0.\<close>

record command_result =
  co_exit :: "int option"
  co_stdout :: string
  co_stderr :: string

record thrown =
  tr_message :: string
  tr_abort :: bool
  tr_cause :: "string option"
  tr_status :: "real option"
  tr_result :: "command_result option"

record create_opts =
  op_internet :: "bool option"
  op_deny :: "string list option"
  op_allow :: "string list option"

record sandbox_info =
  si_cpus :: "real option"
  si_memory :: "real option"
  si_internet :: "bool option"
  si_deny :: "string list option"
  si_allow :: "string list option"

datatype sandbox_call =
    C_create "string option" create_opts
  | C_info
  | C_write "(string \<times> string) list"
  | C_run string real
  | C_kill

record sandbox_host =
  sh_sdk :: bool
  sh_create :: "sandbox_call list \<Rightarrow> thrown option"
  sh_info :: "sandbox_call list \<Rightarrow> thrown + sandbox_info"
  sh_write :: "sandbox_call list \<Rightarrow> thrown option"
  sh_run :: "sandbox_call list \<Rightarrow> thrown + command_result"

section \<open>Errors\<close>

datatype phase = Ph_create | Ph_run

datatype isolation_fault =
    IF_limits_refused string
  | IF_unreadable string
  | IF_no_cpus
  | IF_no_memory
  | IF_too_many_cpus real
  | IF_too_much_memory real
  | IF_not_blocked
  | IF_not_denied_by_default
  | IF_unrequested "string list"

datatype sandbox_error =
    SE_no_sdk
  | SE_isolation isolation_fault
  | SE_certificate phase string
  | SE_timed_out phase
  | SE_status phase real string
  | SE_failed phase string
  | SE_thrown string

definition retryable_status :: "real \<Rightarrow> bool" where
  "retryable_status s \<longleftrightarrow> s = 429 \<or> 500 \<le> s"

primrec se_retryable :: "sandbox_error \<Rightarrow> bool" where
  "se_retryable SE_no_sdk = False"
| "se_retryable (SE_isolation x) = False"
| "se_retryable (SE_certificate ph m) = False"
| "se_retryable (SE_timed_out ph) = True"
| "se_retryable (SE_status ph s m) = retryable_status s"
| "se_retryable (SE_failed ph m) = True"
| "se_retryable (SE_thrown m) = True"

definition classify :: "thrown \<Rightarrow> phase \<Rightarrow> sandbox_error" where
  "classify e ph =
     (if (case tr_cause e of Some c \<Rightarrow> includes_text ''CERT'' c | None \<Rightarrow> False) then SE_certificate ph (tr_message e)
      else if tr_abort e then SE_timed_out ph
      else case tr_status e of
             Some s \<Rightarrow> SE_status ph s (tr_message e)
           | None \<Rightarrow> SE_failed ph (tr_message e))"

section \<open>Creating and checking\<close>

definition ALL_TRAFFIC :: string where "ALL_TRAFFIC = ''0.0.0.0/0''"

definition isolationOpts :: "posture \<Rightarrow> create_opts" where
  "isolationOpts p =
     (case po_egress p of
        E_open \<Rightarrow> \<lparr>op_internet = None, op_deny = None, op_allow = None\<rparr>
      | E_allowlist \<Rightarrow> \<lparr>op_internet = None, op_deny = Some [ALL_TRAFFIC], op_allow = Some (po_allowlist p)\<rparr>
      | E_blocked \<Rightarrow> \<lparr>op_internet = Some False, op_deny = Some [ALL_TRAFFIC], op_allow = None\<rparr>)"

record isolation =
  is_egress :: egress
  is_allowlist :: "string list option"
  is_verified :: bool
  is_cpus :: "real option"
  is_memory :: "real option"
  is_rlimits :: "(string \<times> string \<times> string) option"

definition base_isolation :: "posture \<Rightarrow> isolation" where
  "base_isolation p =
     \<lparr>is_egress = po_egress p, is_allowlist = (if po_egress p = E_allowlist then Some (po_allowlist p) else None),
      is_verified = False, is_cpus = None, is_memory = None, is_rlimits = None\<rparr>"

definition or_nil :: "'a list option \<Rightarrow> 'a list" where
  "or_nil x = (case x of Some xs \<Rightarrow> xs | None \<Rightarrow> [])"

definition blocked_all :: "sandbox_info \<Rightarrow> bool" where
  "blocked_all i \<longleftrightarrow> si_internet i = Some False \<or> ALL_TRAFFIC \<in> set (or_nil (si_deny i))"

definition unexpected :: "posture \<Rightarrow> sandbox_info \<Rightarrow> string list" where
  "unexpected p i = filter (\<lambda>x. x = ALL_TRAFFIC \<or> x \<notin> set (po_allowlist p)) (or_nil (si_allow i))"

definition check_info :: "sandbox_config \<Rightarrow> posture \<Rightarrow> sandbox_info \<Rightarrow> isolation_fault + isolation" where
  "check_info c p i =
     (case (si_cpus i, si_memory i) of
        (None, _) \<Rightarrow> Inl IF_no_cpus
      | (Some n, None) \<Rightarrow> Inl IF_no_memory
      | (Some n, Some m) \<Rightarrow>
          (let ok = (base_isolation p)\<lparr>is_verified := True, is_cpus := Some n, is_memory := Some m\<rparr>
           in if sc_max_cpus c < n then Inl (IF_too_many_cpus n)
              else if sc_max_memory c < m then Inl (IF_too_much_memory m)
              else if po_egress p = E_open then Inr ok
              else if po_egress p = E_blocked then (if blocked_all i then Inr ok else Inl IF_not_blocked)
              else if \<not> blocked_all i then Inl IF_not_denied_by_default
              else if unexpected p i \<noteq> [] then Inl (IF_unrequested (unexpected p i))
              else Inr ok))"

section \<open>The run\<close>

definition sandboxNodeRunnerPath :: string where "sandboxNodeRunnerPath = ''/home/user/databounty-runner.cjs''"
definition rlimitScriptPath :: string where "rlimitScriptPath = ''/tmp/databounty-rlimits.sh''"
definition RLIMIT_FAILED_EXIT :: int where "RLIMIT_FAILED_EXIT = 97"
definition RLIMIT_MARKER :: string where "RLIMIT_MARKER = ''__databounty_rlimits__''"

definition rlimit_wants :: "sandbox_config \<Rightarrow> (string \<times> int) list" where
  "rlimit_wants c =
     [(''u'', sc_max_processes c), (''f'', max 1 (sc_max_file_mb c * 1024 * 1024 div 512)), (''n'', sc_max_open_files c)]"

definition QUOTE :: string where "QUOTE = [CHR 0x27]"

definition read_hard :: "string \<times> int \<Rightarrow> string" where
  "read_hard w = ''h_'' @ fst w @ ''=$(ulimit -H'' @ fst w @ '' 2>/dev/null) || h_'' @ fst w @ ''=unlimited''"

definition resolve_limit :: "string \<times> int \<Rightarrow> string" where
  "resolve_limit w =
     ''e_'' @ fst w @ ''='' @ show_int (snd w) @ ''; if [ \"$h_'' @ fst w @ ''\" != \"unlimited\" ] && [ \"$h_'' @ fst w @ ''\" -le ''
     @ show_int (snd w) @ '' ] 2>/dev/null; then e_'' @ fst w @ ''=$h_'' @ fst w @ ''; fi''"

definition apply_limit :: "string \<times> int \<Rightarrow> string" where
  "apply_limit w = ''ulimit -S'' @ fst w @ '' \"$e_'' @ fst w @ ''\" || exit '' @ show_int RLIMIT_FAILED_EXIT"

definition rlimit_lines :: "sandbox_config \<Rightarrow> string \<Rightarrow> string list" where
  "rlimit_lines c runner =
     map read_hard (rlimit_wants c) @ map resolve_limit (rlimit_wants c)
     @ [''printf '' @ QUOTE @ ''%s nproc=%s fsize=%s nofile=%s'' @ [CHR 0x5C] @ ''n'' @ QUOTE @ '' '' @ QUOTE @ RLIMIT_MARKER @ QUOTE
          @ '' \"$e_u\" \"$e_f\" \"$e_n\" 1>&2'']
     @ map apply_limit (rlimit_wants c) @ [''exec node '' @ runner]"

definition buildRlimitScript :: "sandbox_config \<Rightarrow> string \<Rightarrow> string" where
  "buildRlimitScript c runner = join_with [NL] (rlimit_lines c runner)"

definition buildRlimitCommand :: "string \<Rightarrow> string" where
  "buildRlimitCommand path = ''/bin/bash '' @ path"

text \<open>One field of the report: the name, then everything up to white space.\<close>

definition report_field :: "string \<Rightarrow> string \<Rightarrow> (string \<times> string) option" where
  "report_field name s =
     (if starts_with name s
      then (let v = takeWhile (\<lambda>x. \<not> is_ws x) (drop (length name) s)
            in if v = [] then None else Some (v, drop (length name + length v) s))
      else None)"

definition report_at :: "string \<Rightarrow> (string \<times> string \<times> string) option" where
  "report_at s =
     (case report_field (RLIMIT_MARKER @ '' nproc='') s of
        None \<Rightarrow> None
      | Some (a, s1) \<Rightarrow>
          (case report_field '' fsize='' s1 of
             None \<Rightarrow> None
           | Some (b, s2) \<Rightarrow>
               (case report_field '' nofile='' s2 of
                  None \<Rightarrow> None
                | Some (x, s3) \<Rightarrow> Some (a, b, x))))"

fun parseRlimits :: "string \<Rightarrow> (string \<times> string \<times> string) option" where
  "parseRlimits [] = None"
| "parseRlimits (x # s) = (case report_at (x # s) of Some r \<Rightarrow> Some r | None \<Rightarrow> parseRlimits s)"

record run_result =
  ru_exit :: "int option"
  ru_stdout :: string
  ru_stderr :: string
  ru_isolation :: "isolation option"

definition finishRun :: "command_result \<Rightarrow> isolation \<Rightarrow> sandbox_error + run_result" where
  "finishRun r i =
     (if co_exit r = Some RLIMIT_FAILED_EXIT then Inl (SE_isolation (IF_limits_refused (take 500 (co_stderr r))))
      else Inr \<lparr>ru_exit = co_exit r, ru_stdout = co_stdout r, ru_stderr = co_stderr r,
                ru_isolation = Some (i\<lparr>is_rlimits := parseRlimits (co_stderr r)\<rparr>)\<rparr>)"

text \<open>Anything thrown after the sandbox exists: the exit code of a command is data.\<close>

definition caught :: "posture \<Rightarrow> isolation option \<Rightarrow> thrown \<Rightarrow> sandbox_error + run_result" where
  "caught p i e =
     (case tr_result e of
        Some r \<Rightarrow> finishRun r (case i of Some x \<Rightarrow> x | None \<Rightarrow> base_isolation p)
      | None \<Rightarrow> Inl (classify e Ph_run))"

text \<open>A run returns its result and the calls it made. The sandbox is always killed.\<close>

definition template_of :: "sandbox_config \<Rightarrow> string option" where
  "template_of c = (if sc_template c = [] then None else Some (sc_template c))"

definition createSandbox :: "sandbox_config \<Rightarrow> posture \<Rightarrow> sandbox_host \<Rightarrow> sandbox_error option \<times> sandbox_call list" where
  "createSandbox c p h =
     (if \<not> sh_sdk h then (Some SE_no_sdk, [])
      else let call = C_create (template_of c) (isolationOpts p)
           in (map_option (\<lambda>e. classify e Ph_create) (sh_create h []), [call]))"

definition verifyIsolation :: "sandbox_config \<Rightarrow> posture \<Rightarrow> sandbox_host \<Rightarrow> sandbox_call list \<Rightarrow> (sandbox_error + isolation) \<times> sandbox_call list" where
  "verifyIsolation c p h tr =
     (if \<not> sc_verify c then (Inr (base_isolation p), tr)
      else (case sh_info h tr of
              Inl e \<Rightarrow> (Inl (SE_isolation (IF_unreadable (tr_message e))), tr @ [C_info])
            | Inr i \<Rightarrow> (case check_info c p i of
                          Inl x \<Rightarrow> (Inl (SE_isolation x), tr @ [C_info])
                        | Inr y \<Rightarrow> (Inr y, tr @ [C_info]))))"

definition run_command :: "sandbox_config \<Rightarrow> posture \<Rightarrow> sandbox_host \<Rightarrow> string \<Rightarrow> real \<Rightarrow> isolation \<Rightarrow> sandbox_call list
    \<Rightarrow> (sandbox_error + run_result) \<times> sandbox_call list" where
  "run_command c p h script timeout i tr =
     (let tr1 = tr @ [C_write [(sandboxNodeRunnerPath, script), (rlimitScriptPath, buildRlimitScript c sandboxNodeRunnerPath)]]
      in case sh_write h tr of
           Some e \<Rightarrow> (caught p (Some i) e, tr1)
         | None \<Rightarrow>
             (let tr2 = tr1 @ [C_run (buildRlimitCommand rlimitScriptPath) timeout]
              in case sh_run h tr1 of
                   Inl e \<Rightarrow> (caught p (Some i) e, tr2)
                 | Inr r \<Rightarrow> (finishRun r i, tr2)))"

definition runScript :: "sandbox_config \<Rightarrow> sandbox_host \<Rightarrow> string \<Rightarrow> real \<Rightarrow> bool \<Rightarrow> (sandbox_error + run_result) \<times> sandbox_call list" where
  "runScript c h script timeout allowNetwork =
     (let p = requestedPostureForCategory c (Some Can_allowlist) allowNetwork
      in case createSandbox c p h of
           (Some e, tr) \<Rightarrow> (Inl e, tr)
         | (None, tr) \<Rightarrow>
             (case verifyIsolation c p h tr of
                (Inl e, tr1) \<Rightarrow> (Inl e, tr1 @ [C_kill])
              | (Inr i, tr1) \<Rightarrow> (case run_command c p h script timeout i tr1 of (r, tr2) \<Rightarrow> (r, tr2 @ [C_kill]))))"

definition isConfigured :: "sandbox_config \<Rightarrow> bool" where
  "isConfigured c \<longleftrightarrow> sc_api_key c \<noteq> []"

text \<open>Whether the boot is refused.\<close>

definition validateBootConfig :: "sandbox_config \<Rightarrow> bool \<Rightarrow> bool" where
  "validateBootConfig c resolvable \<longleftrightarrow> sc_api_key c \<noteq> [] \<and> \<not> resolvable"

section \<open>Isolation comes first\<close>

text \<open>
  What an accepted report says: a size within the ceilings; unless the posture is open, nothing leaves by
  default; under an allowlist, no destination but its own, and not all of them. Under the blocked posture the
  destinations are not looked at.
\<close>

definition acceptable :: "sandbox_config \<Rightarrow> posture \<Rightarrow> sandbox_info \<Rightarrow> bool" where
  "acceptable c p i \<longleftrightarrow>
     (case si_cpus i of Some n \<Rightarrow> n \<le> sc_max_cpus c | None \<Rightarrow> False)
     \<and> (case si_memory i of Some m \<Rightarrow> m \<le> sc_max_memory c | None \<Rightarrow> False)
     \<and> (po_egress p = E_open \<or> si_internet i = Some False \<or> ALL_TRAFFIC \<in> set (or_nil (si_deny i)))
     \<and> (po_egress p \<noteq> E_allowlist \<or> set (or_nil (si_allow i)) \<subseteq> set (po_allowlist p) - {ALL_TRAFFIC})"

lemma checked_info:
  "(\<exists>y. check_info c p i = Inr y) \<longleftrightarrow> acceptable c p i"
  by (cases "po_egress p")
    (auto simp: check_info_def acceptable_def Let_def unexpected_def blocked_all_def filter_empty_conv not_less
      split: option.splits)

lemma accepted_is_verified: "check_info c p i = Inr y \<Longrightarrow> is_verified y \<and> is_egress y = po_egress p"
  by (auto simp: check_info_def Let_def base_isolation_def split: option.splits if_splits)

text \<open>The calls before the first one that touches code: the creation for the posture, which succeeded, and
  where read-back is on the report, which was acceptable.\<close>

definition isolated_first :: "sandbox_config \<Rightarrow> sandbox_host \<Rightarrow> posture \<Rightarrow> sandbox_call list \<Rightarrow> bool" where
  "isolated_first c h p tr \<longleftrightarrow>
     (let created = C_create (template_of c) (isolationOpts p)
      in sh_create h [] = None
         \<and> (if sc_verify c
            then tr = [created, C_info] \<and> (\<exists>i. sh_info h [created] = Inr i \<and> acceptable c p i)
            else tr = [created]))"

definition touches_code :: "sandbox_call \<Rightarrow> bool" where
  "touches_code x = (case x of C_write fs \<Rightarrow> True | C_run cmd t \<Rightarrow> True | _ \<Rightarrow> False)"

lemma create_trace:
  assumes "createSandbox c p h = (e, tr)"
  shows "tr = (if sh_sdk h then [C_create (template_of c) (isolationOpts p)] else [])" and "e = None \<Longrightarrow> sh_sdk h \<and> sh_create h [] = None"
  using assms by (auto simp: createSandbox_def Let_def split: if_splits)

lemma verify_trace:
  assumes "verifyIsolation c p h [C_create (template_of c) (isolationOpts p)] = (r, tr)"
  shows "\<forall>x \<in> set tr. \<not> touches_code x" and "r = Inr i \<Longrightarrow> sh_create h [] = None \<Longrightarrow> isolated_first c h p tr"
  using assms checked_info [of c p]
  by (auto simp: verifyIsolation_def isolated_first_def touches_code_def Let_def split: if_splits sum.splits)

lemma run_trace:
  assumes "runScript c h script t allow = (r, tr)" and "p = requestedPostureForCategory c (Some Can_allowlist) allow"
  shows "(\<forall>x \<in> set tr. \<not> touches_code x) \<and> (\<exists>e. r = Inl e)
    \<or> (\<exists>pre post. tr = pre @ post @ [C_kill] \<and> isolated_first c h p pre \<and> set post \<subseteq> Collect touches_code)"
proof -
  obtain e tr0 where c: "createSandbox c p h = (e, tr0)" by (cases "createSandbox c p h")
  show ?thesis
  proof (cases e)
    case (Some x)
    with assms c create_trace(1) [OF c] show ?thesis by (auto simp: runScript_def Let_def touches_code_def split: if_splits)
  next
    case None
    with create_trace [OF c] have tr0: "tr0 = [C_create (template_of c) (isolationOpts p)]" and ok: "sh_create h [] = None" by simp_all
    obtain v tr1 where v: "verifyIsolation c p h tr0 = (v, tr1)" by (cases "verifyIsolation c p h tr0")
    note vt = verify_trace [OF v [unfolded tr0]]
    show ?thesis
    proof (cases v)
      case (Inl x)
      with assms c None v vt(1) show ?thesis by (auto simp: runScript_def Let_def touches_code_def)
    next
      case (Inr i)
      obtain r' tr2 where r: "run_command c p h script t i tr1 = (r', tr2)" by (cases "run_command c p h script t i tr1")
      have "\<exists>post. tr2 = tr1 @ post \<and> set post \<subseteq> Collect touches_code"
        using r by (auto simp: run_command_def Let_def touches_code_def split: option.splits sum.splits)
      then obtain post where "tr2 = tr1 @ post" "set post \<subseteq> Collect touches_code" by blast
      moreover have "tr = tr2 @ [C_kill]" using assms c None v Inr r by (simp add: runScript_def Let_def)
      ultimately show ?thesis using vt(2) [OF Inr ok] by auto
    qed
  qed
qed

lemma created_opts:
  assumes "runScript c h script t allow = (r, tr)" and "C_create tmpl opts \<in> set tr"
  shows "opts = isolationOpts (requestedPostureForCategory c (Some Can_allowlist) allow)"
  using assms
  by (auto simp: runScript_def createSandbox_def verifyIsolation_def run_command_def Let_def
      split: if_splits sum.splits option.splits prod.splits)

lemma creates:
  assumes "sh_sdk h"
  shows "C_create (template_of c) (isolationOpts (requestedPostureForCategory c (Some Can_allowlist) allow)) \<in> set (snd (runScript c h script t allow))"
  using assms
  by (auto simp: runScript_def createSandbox_def verifyIsolation_def run_command_def Let_def
      split: option.splits sum.splits prod.splits if_splits)

text \<open>C39: no byte of contributor code is written to or run in a sandbox before it was created, with success,
  with the options of the posture of the run, and, where read-back is on, its report was read: at most the
  ceilings of processors and memory, under a blocked or allowlisted posture no traffic by default, and
  under an allowlist no destination that is not on it. With read-back off nothing is checked, and under the
  blocked posture the destinations the provider reports are not looked at
  (\<open>blocked_ignores_allowed_hosts\<close>). The sandbox is killed last.\<close>

theorem isolation_before_code:
  assumes "runScript c h script t allow = (r, tr)" and "x \<in> set tr" and "touches_code x"
    and "p = requestedPostureForCategory c (Some Can_allowlist) allow"
    and "created = C_create (template_of c) (isolationOpts p)"
  shows "\<exists>pre post. tr = pre @ post @ [C_kill] \<and> x \<in> set post \<and> sh_create h [] = None
    \<and> (if sc_verify c
       then pre = [created, C_info]
         \<and> (\<exists>i n m. sh_info h [created] = Inr i
              \<and> si_cpus i = Some n \<and> n \<le> sc_max_cpus c \<and> si_memory i = Some m \<and> m \<le> sc_max_memory c
              \<and> (po_egress p = E_open \<or> si_internet i = Some False \<or> ALL_TRAFFIC \<in> set (or_nil (si_deny i)))
              \<and> (po_egress p \<noteq> E_allowlist \<or> set (or_nil (si_allow i)) \<subseteq> set (po_allowlist p) - {ALL_TRAFFIC}))
       else pre = [created])"
proof -
  obtain pre post where tr: "tr = pre @ post @ [C_kill]" and iso: "isolated_first c h p pre"
    using run_trace [OF assms(1,4)] assms(2,3) by blast
  have "x \<notin> set pre" using iso assms(3) by (auto simp: isolated_first_def touches_code_def Let_def split: if_splits)
  then have x: "x \<in> set post" using tr assms(2,3) by (auto simp: touches_code_def)
  show ?thesis
    by (intro exI [of _ pre] exI [of _ post] conjI tr x)
      (use iso assms(5) in \<open>auto simp: isolated_first_def acceptable_def Let_def split: if_splits option.splits\<close>)
qed

text \<open>a category without network access gets none: whatever the operator configured, such a run creates its
  sandbox with the internet off and all traffic denied, and a category with access gets no more than the
  configuration says: nothing where it is silent, only listed destinations where it lists any.\<close>

lemma posture_only_narrows:
  "isolationOpts (requestedPostureForCategory c cap False)
     = \<lparr>op_internet = Some False, op_deny = Some [ALL_TRAFFIC], op_allow = None\<rparr>
   \<and> (sc_allow_egress c
      \<or> (let opts = isolationOpts (requestedPostureForCategory c cap allow)
          in op_deny opts = Some [ALL_TRAFFIC] \<and> set (or_nil (op_allow opts)) \<subseteq> set (sc_allowlist c)
             \<and> (op_allow opts = None \<or> allow \<and> cap = Some Can_allowlist)))"
  by (auto simp: requestedPostureForCategory_def requestedPostureFor_def requestedPosture_def isolationOpts_def
      blocked_posture_def egressCapabilityOf_def or_nil_def Let_def split: egress.splits option.splits egress_capability.splits)

text \<open>A result is marked as verified only where read-back is on and the report was accepted.\<close>

lemma verified_means_read_back:
  assumes "runScript c h script t allow = (Inr r, tr)" and "ru_isolation r = Some i" and "is_verified i"
  shows "sc_verify c \<and> (\<exists>x y. sh_info h [C_create (template_of c) (isolationOpts (requestedPostureForCategory c (Some Can_allowlist) allow))] = Inr x
    \<and> check_info c (requestedPostureForCategory c (Some Can_allowlist) allow) x = Inr y)"
proof -
  let ?p = "requestedPostureForCategory c (Some Can_allowlist) allow"
  obtain e tr0 where cr: "createSandbox c ?p h = (e, tr0)" by (cases "createSandbox c ?p h")
  have e: "e = None" using assms(1) cr by (cases e) (auto simp: runScript_def Let_def)
  with create_trace [OF cr] have tr0: "tr0 = [C_create (template_of c) (isolationOpts ?p)]" by simp
  obtain v tr1 where v: "verifyIsolation c ?p h tr0 = (v, tr1)" by (cases "verifyIsolation c ?p h tr0")
  then obtain j where j: "v = Inr j" using assms(1) cr e by (cases v) (auto simp: runScript_def Let_def)
  have fin: "is_verified i = is_verified j" if "finishRun q j = Inr r" for q
    using that assms(2) by (auto simp: finishRun_def split: if_splits)
  have "fst (run_command c ?p h script t j tr1) = Inr r"
    using assms(1) cr e v j by (auto simp: runScript_def Let_def split: prod.splits)
  then have "\<exists>q. finishRun q j = Inr r"
    by (auto simp: run_command_def caught_def Let_def split: option.splits sum.splits)
  then have "is_verified j" using fin assms(3) by blast
  then show ?thesis using v j tr0
    by (auto simp: verifyIsolation_def base_isolation_def split: if_splits sum.splits)
qed

text \<open>A fully blocked posture is accepted although the provider reports destinations it lets through,
  which take precedence over the denial: only the allowlist posture looks at them.\<close>

lemma blocked_ignores_allowed_hosts:
  assumes "si_cpus i = Some n" and "n \<le> sc_max_cpus c" and "si_memory i = Some m" and "m \<le> sc_max_memory c"
    and "si_deny i = Some [ALL_TRAFFIC]" and "si_allow i = Some [host]"
  shows "\<exists>y. check_info c blocked_posture i = Inr y \<and> is_verified y \<and> is_egress y = E_blocked"
  using assms by (simp add: check_info_def Let_def blocked_posture_def blocked_all_def or_nil_def base_isolation_def)

section \<open>An evaluated run\<close>

definition demo_limits :: sandbox_config where
  "demo_limits = \<lparr>sc_allow_egress = False, sc_allowlist = [], sc_verify = True, sc_max_cpus = 2, sc_max_memory = 4096,
     sc_max_processes = 256, sc_max_file_mb = 256, sc_max_open_files = 1024, sc_api_key = ''k'', sc_template = [], sc_timeout = 120000\<rparr>"

definition demo_info :: sandbox_info where
  "demo_info = \<lparr>si_cpus = Some 2, si_memory = Some 512, si_internet = Some False, si_deny = None, si_allow = None\<rparr>"

definition demo_service :: sandbox_host where
  "demo_service = \<lparr>sh_sdk = True, sh_create = (\<lambda>t. None), sh_info = (\<lambda>t. Inr demo_info), sh_write = (\<lambda>t. None),
     sh_run = (\<lambda>t. Inr \<lparr>co_exit = Some 0, co_stdout = ''o'', co_stderr = RLIMIT_MARKER @ '' nproc=1 fsize=2 nofile=3''\<rparr>)\<rparr>"

theorem isolation_before_code_witness:
  "\<exists>post. snd (runScript demo_limits demo_service ''s'' 5000 True)
       = [C_create None (isolationOpts blocked_posture), C_info] @ post @ [C_kill]
     \<and> C_run (buildRlimitCommand rlimitScriptPath) 5000 \<in> set post"
proof -
  obtain r tr where r: "runScript demo_limits demo_service ''s'' 5000 True = (r, tr)"
    by (cases "runScript demo_limits demo_service ''s'' 5000 True")
  have x: "C_run (buildRlimitCommand rlimitScriptPath) 5000 \<in> set tr"
    using r by (auto simp: runScript_def createSandbox_def verifyIsolation_def run_command_def demo_service_def demo_info_def
        check_info_def demo_limits_def requestedPostureForCategory_def requestedPostureFor_def requestedPosture_def
        blocked_posture_def blocked_all_def Let_def)
  have t: "touches_code (C_run (buildRlimitCommand rlimitScriptPath) 5000)" by (simp add: touches_code_def)
  have p: "blocked_posture = requestedPostureForCategory demo_limits (Some Can_allowlist) True"
    and c: "C_create None (isolationOpts blocked_posture) = C_create (template_of demo_limits) (isolationOpts blocked_posture)"
    and v: "sc_verify demo_limits"
    by (simp_all add: demo_limits_def requestedPostureForCategory_def requestedPostureFor_def requestedPosture_def
        blocked_posture_def template_of_def Let_def)
  from isolation_before_code [OF r x t p c] r v show ?thesis by auto
qed

lemma rlimits_reported:
  "parseRlimits (''x'' @ RLIMIT_MARKER @ '' nproc=1 fsize=2 nofile=3'' @ [NL]) = Some (''1'', ''2'', ''3'')"
  by code_simp

end
