(* ===== verification/Job_Queue.thy ===== *)
theory Job_Queue
  imports Schema "HOL-Library.Char_ord" "HOL-Library.List_Lexorder"
begin

text \<open>
  \<open>services/jobs.ts\<close>: the durable queue. \<open>enqueue\<close> re-arms an idle row or creates one,
  \<open>claim\<close> is a read followed by a guarded update (two definitions, so that a second worker can
  be put between them), \<open>complete_job\<close> and \<open>fail_job\<close> close an attempt. The queue's life is the
  step relation \<open>queue_step\<close>; what it keeps is \<open>queue_ok\<close>.
\<close>

section \<open>Operations\<close>


record job_request =
  jq_type :: string
  jq_key :: string
  jq_payload :: json
  jq_max :: "int option"
  jq_workspace :: "string option"
  jq_run_after :: "time option"

definition run_at :: "env \<Rightarrow> job_request \<Rightarrow> time" where
  "run_at e q = (case jq_run_after q of Some t \<Rightarrow> t | None \<Rightarrow> e_now e)"

definition rearm_row :: "env \<Rightarrow> job_request \<Rightarrow> job_row \<Rightarrow> job_row" where
  "rearm_row e q j =
     j\<lparr>j_status := J_pending, j_payload := jq_payload q, j_attempts := 0, j_error := None,
       j_finished := None, j_next := Some (run_at e q)\<rparr>"

text \<open>The guarded write of a re-arm, and the insert, as the two writes of \<open>enqueue\<close>.\<close>

definition enqueue_rearm :: "env \<Rightarrow> job_request \<Rightarrow> db \<Rightarrow> db" where
  "enqueue_rearm e q d =
     d\<lparr>jobs := update_where (\<lambda>j. j_key j = jq_key q \<and> j_status j \<noteq> J_processing) (rearm_row e q) (jobs d)\<rparr>"

definition new_job :: "env \<Rightarrow> job_request \<Rightarrow> db \<Rightarrow> job_row" where
  "new_job e q d =
     \<lparr>j_id = fresh e d, j_type = jq_type q, j_key = jq_key q, j_payload = jq_payload q,
      j_status = J_pending, j_attempts = 0,
      j_max = (case jq_max q of Some m \<Rightarrow> m | None \<Rightarrow> 5),
      j_next = Some (run_at e q), j_error = None, j_workspace = jq_workspace q,
      j_started = None, j_finished = None\<rparr>"

definition enqueue :: "env \<Rightarrow> job_request \<Rightarrow> db \<Rightarrow> db \<times> ident" where
  "enqueue e q d =
     (case find_where (\<lambda>j. j_key j = jq_key q) (jobs d) of
        Some j \<Rightarrow> (if j_status j = J_processing then (d, j_id j) else (enqueue_rearm e q d, j_id j))
      | None \<Rightarrow> (d\<lparr>jobs := jobs d @ [new_job e q d], db_seq := Suc (db_seq d)\<rparr>, fresh e d))"

definition due_by :: "time \<Rightarrow> job_row \<Rightarrow> bool" where
  "due_by t j \<longleftrightarrow> (case j_next j of Some n \<Rightarrow> n \<le> t | None \<Rightarrow> False)"

text \<open>What the candidate query accepts, and what the guarded update accepts.\<close>

definition claimable :: "time \<Rightarrow> job_row \<Rightarrow> bool" where
  "claimable t j \<longleftrightarrow>
     (j_status j = J_pending \<and> (j_next j = None \<or> due_by t j))
     \<or> (j_status j = J_failed \<and> due_by t j)
     \<or> (j_status j = J_processing \<and> due_by t j)"

definition takeable :: "time \<Rightarrow> job_row \<Rightarrow> bool" where
  "takeable t j \<longleftrightarrow>
     j_status j = J_pending \<or> (j_status j = J_failed \<and> due_by t j) \<or> (j_status j = J_processing \<and> due_by t j)"

text \<open>Rows are stored in creation order, so the first match is the oldest.\<close>

definition claim_pick :: "time \<Rightarrow> string list \<Rightarrow> db \<Rightarrow> job_row option" where
  "claim_pick t types d = find_where (\<lambda>j. j_type j \<in> set types \<and> claimable t j) (jobs d)"

definition take_row :: "time \<Rightarrow> time \<Rightarrow> job_row \<Rightarrow> job_row \<Rightarrow> job_row" where
  "take_row t lease cand j =
     j\<lparr>j_status := J_processing, j_attempts := j_attempts j + 1,
       j_started := (case j_started cand of Some s \<Rightarrow> Some s | None \<Rightarrow> Some t),
       j_next := Some (t + lease)\<rparr>"

definition claim_take :: "time \<Rightarrow> time \<Rightarrow> job_row \<Rightarrow> db \<Rightarrow> db \<times> job_row option" where
  "claim_take t lease cand d =
     (case update_many (\<lambda>j. j_id j = j_id cand \<and> takeable t j) (take_row t lease cand) (jobs d) of
        (js, n) \<Rightarrow> if n = 0 then (d, None)
                   else (d\<lparr>jobs := js\<rparr>, find_where (\<lambda>j. j_id j = j_id cand) js))"

definition claim :: "time \<Rightarrow> string list \<Rightarrow> time \<Rightarrow> db \<Rightarrow> db \<times> job_row option" where
  "claim t types lease d =
     (case claim_pick t types d of None \<Rightarrow> (d, None) | Some cand \<Rightarrow> claim_take t lease cand d)"

definition complete_row :: "time \<Rightarrow> job_row \<Rightarrow> job_row" where
  "complete_row t j = j\<lparr>j_status := J_done, j_finished := Some t\<rparr>"

definition complete_job :: "time \<Rightarrow> ident \<Rightarrow> db \<Rightarrow> db" where
  "complete_job t k d = d\<lparr>jobs := update_where (\<lambda>j. j_id j = k) (complete_row t) (jobs d)\<rparr>"

definition backoff_ms :: "int \<Rightarrow> time" where
  "backoff_ms attempts = min (60 * 60) (2 ^ nat attempts * 10) * 1000"

definition fail_row :: "time \<Rightarrow> string \<Rightarrow> job_row \<Rightarrow> job_row" where
  "fail_row t err j =
     (let dead = j_attempts j \<ge> j_max j
      in j\<lparr>j_status := (if dead then J_dead else J_failed),
           j_error := Some (take 1000 err),
           j_next := (if dead then None else Some (t + backoff_ms (j_attempts j))),
           j_finished := (if dead then Some t else None)\<rparr>)"

text \<open>The row read and the row written are the same one: \<open>id\<close> is the primary key.\<close>

definition fail_job :: "time \<Rightarrow> ident \<Rightarrow> string \<Rightarrow> db \<Rightarrow> db" where
  "fail_job t k err d = d\<lparr>jobs := update_where (\<lambda>j. j_id j = k) (fail_row t err) (jobs d)\<rparr>"

section \<open>Idempotency keys\<close>

text \<open>
  \<open>stableJson\<close> over \<open>JSON.stringify\<close> for scalars and keys (\<open>atom\<close>, \<open>key\<close>): members are ordered
  by key, so the rendering does not depend on the order they were written in.
\<close>

fun comma_join :: "string list \<Rightarrow> string" where
  "comma_join [] = []"
| "comma_join [s] = s"
| "comma_join (s # t # r) = s @ '','' @ comma_join (t # r)"

fun stableJson :: "(json \<Rightarrow> string) \<Rightarrow> (string \<Rightarrow> string) \<Rightarrow> json \<Rightarrow> string" where
  "stableJson atom key (JArr vs) = ''['' @ comma_join (map (stableJson atom key) vs) @ '']''"
| "stableJson atom key (JObj kvs) =
     ''{'' @ comma_join (map (\<lambda>(k, s). key k @ '':'' @ s)
                          (sort_key fst (map (\<lambda>(k, v). (k, stableJson atom key v)) kvs))) @ ''}''"
| "stableJson atom key v = atom v"

definition default_key :: "env \<Rightarrow> (json \<Rightarrow> string) \<Rightarrow> (string \<Rightarrow> string) \<Rightarrow> string \<Rightarrow> json \<Rightarrow> string" where
  "default_key e atom key typ payload = typ @ '':'' @ take 32 (e_sha256 e (stableJson atom key payload))"

definition enqueueJob ::
  "env \<Rightarrow> (json \<Rightarrow> string) \<Rightarrow> (string \<Rightarrow> string) \<Rightarrow> string \<Rightarrow> json \<Rightarrow> string option \<Rightarrow> int option
     \<Rightarrow> string option \<Rightarrow> time option \<Rightarrow> db \<Rightarrow> db \<times> ident" where
  "enqueueJob e atom key typ payload given mx ws after d =
     enqueue e \<lparr>jq_type = typ,
                jq_key = (case given of Some k \<Rightarrow> k | None \<Rightarrow> default_key e atom key typ payload),
                jq_payload = payload, jq_max = mx, jq_workspace = ws, jq_run_after = after\<rparr> d"

definition workspaceKeyForUser :: "ident \<Rightarrow> string" where
  "workspaceKeyForUser userId = ''ws_'' @ userId"

section \<open>Invariant\<close>














lemma row_keys [simp]:
  "j_key (rearm_row e q j) = j_key j" "j_key (take_row t l c j) = j_key j"
  "j_key (complete_row t j) = j_key j" "j_id (rearm_row e q j) = j_id j" "j_id (take_row t l c j) = j_id j"
  "j_id (complete_row t j) = j_id j" "j_key (fail_row t err j) = j_key j" "j_id (fail_row t err j) = j_id j"
  by (simp_all add: rearm_row_def take_row_def complete_row_def fail_row_def Let_def)







section \<open>Facts\<close>

lemma claimable_takeable: "claimable t j \<Longrightarrow> takeable t j"
  by (auto simp: claimable_def takeable_def)

lemma claim_take_wins:
  "claim_take t l c d = (d', Some r) \<Longrightarrow>
   jobs d' = update_where (\<lambda>j. j_id j = j_id c \<and> takeable t j) (take_row t l c) (jobs d)"
  by (auto simp: claim_take_def update_many_def split: if_splits)

text \<open>A singleton queue, to follow one job through its attempts.\<close>

lemma claim_single:
  assumes "jobs d = [j]" and "j_type j \<in> set types"
  shows "claim t types l d =
     (if claimable t j then (d\<lparr>jobs := [take_row t l j j]\<rparr>, Some (take_row t l j j)) else (d, None))"
  using assms
  by (auto simp: claim_def claim_pick_def claim_take_def update_many_def claimable_takeable)

text \<open>
  Two runs of one job: every attempt fails and is retried when its backoff ends, or every attempt
  kills its worker and the job is claimed again when its lease ends.
\<close>

fun failing_rounds :: "nat \<Rightarrow> time \<Rightarrow> string list \<Rightarrow> time \<Rightarrow> string \<Rightarrow> db \<Rightarrow> db" where
  "failing_rounds 0 t types l err d = d"
| "failing_rounds (Suc n) t types l err d =
     (case claim t types l d of
        (d', None) \<Rightarrow> d'
      | (d', Some r) \<Rightarrow> failing_rounds n (t + backoff_ms (j_attempts r)) types l err (fail_job t (j_id r) err d'))"

fun crashing_rounds :: "nat \<Rightarrow> time \<Rightarrow> string list \<Rightarrow> time \<Rightarrow> db \<Rightarrow> db" where
  "crashing_rounds 0 t types l d = d"
| "crashing_rounds (Suc n) t types l d = crashing_rounds n (t + l) types l (fst (claim t types l d))"

lemma claimable_dead: "j_status j \<in> {J_dead, J_done, J_cancelled} \<Longrightarrow> \<not> claimable t j"
  by (auto simp: claimable_def)

lemma failing_round:
  assumes "jobs d = [j]" and "j_type j \<in> set types" and "claimable t j"
  shows "failing_rounds (Suc n) t types l err d =
    failing_rounds n (t + backoff_ms (j_attempts j + 1)) types l err
      (d\<lparr>jobs := [fail_row t err (take_row t l j j)]\<rparr>)"
  using assms by (simp add: claim_single fail_job_def) (simp add: take_row_def)

lemma failing_rounds_status:
  assumes "jobs d = [j]" and "j_type j \<in> set types" and "claimable t j"
    and "0 \<le> j_attempts j" and "j_attempts j < j_max j" and "j_attempts j + int n = j_max j"
  shows "\<exists>j'. jobs (failing_rounds n t types l err d) = [j'] \<and> j_status j' = J_dead
              \<and> j_attempts j' = j_max j \<and> j_finished j' \<noteq> None"
  using assms
proof (induction n arbitrary: d j t)
  case 0
  then show ?case by simp
next
  case (Suc n)
  let ?j = "fail_row t err (take_row t l j j)"
  have f: "failing_rounds (Suc n) t types l err d =
      failing_rounds n (t + backoff_ms (j_attempts j + 1)) types l err (d\<lparr>jobs := [?j]\<rparr>)"
    by (rule failing_round [OF Suc.prems(1-3)])
  show ?case
  proof (cases n)
    case 0
    then show ?thesis
      using Suc.prems f by (simp del: failing_rounds.simps(2)) (simp add: fail_row_def take_row_def Let_def)
  next
    case (Suc m)
    have "\<exists>j'. jobs (failing_rounds n (t + backoff_ms (j_attempts j + 1)) types l err (d\<lparr>jobs := [?j]\<rparr>)) = [j']
        \<and> j_status j' = J_dead \<and> j_attempts j' = j_max ?j \<and> j_finished j' \<noteq> None"
      using Suc.prems Suc
      by (intro Suc.IH) (simp_all add: fail_row_def take_row_def Let_def claimable_def due_by_def)
    then show ?thesis
      by (simp only: f) (simp add: fail_row_def take_row_def Let_def)
  qed
qed

lemma crashing_rounds_status:
  assumes "jobs d = [j]" and "j_type j \<in> set types" and "claimable t j" and "0 \<le> l"
  shows "\<exists>j'. jobs (crashing_rounds (Suc n) t types l d) = [j'] \<and> j_status j' = J_processing
              \<and> j_attempts j' = j_attempts j + 1 + int n \<and> j_max j' = j_max j"
  using assms
proof (induction n arbitrary: d j t)
  case 0
  then show ?case by (simp add: claim_single) (simp add: take_row_def)
next
  case (Suc n)
  let ?j = "take_row t l j j"
  have "\<exists>j'. jobs (crashing_rounds (Suc n) (t + l) types l (d\<lparr>jobs := [?j]\<rparr>)) = [j'] \<and> j_status j' = J_processing
              \<and> j_attempts j' = j_attempts ?j + 1 + int n \<and> j_max j' = j_max ?j"
    by (rule Suc.IH) (use Suc.prems in \<open>simp_all add: take_row_def claimable_def due_by_def\<close>)
  moreover have "crashing_rounds (Suc (Suc n)) t types l d = crashing_rounds (Suc n) (t + l) types l (d\<lparr>jobs := [?j]\<rparr>)"
    using Suc.prems by (simp only: crashing_rounds.simps claim_single) simp
  ultimately show ?case
    by (simp add: take_row_def algebra_simps del: crashing_rounds.simps)
qed

lemma sort_key_perm:
  assumes "set xs = set ys" and "distinct (map fst xs)" and "distinct (map fst ys)"
  shows "sort_key fst xs = sort_key fst ys"
proof (rule map_sorted_distinct_set_unique [where f = fst])
  show "inj_on fst (set (sort_key fst xs) \<union> set (sort_key fst ys))"
    using assms by (simp add: distinct_map)
qed (use assms in \<open>simp_all add: distinct_map\<close>)

lemma stableJson_members:
  assumes "set kvs = set kvs'" and "distinct (map fst kvs)" and "distinct (map fst kvs')"
  shows "stableJson atom key (JObj kvs) = stableJson atom key (JObj kvs')"
proof -
  let ?r = "\<lambda>(k, v). (k, stableJson atom key v)"
  have fst: "map fst (map ?r xs) = map fst xs" for xs :: "(string \<times> json) list"
    by (induction xs) auto
  have "sort_key fst (map ?r kvs) = sort_key fst (map ?r kvs')"
    by (rule sort_key_perm) (simp_all only: fst assms set_map)
  then show ?thesis by simp
qed

lemma find_rearm:
  "find_where (\<lambda>j. j_key j = k) (jobs (enqueue_rearm e q d)) = None
     \<longleftrightarrow> find_where (\<lambda>j. j_key j = k) (jobs d) = None"
  by (simp add: enqueue_rearm_def find_where_update_where)

lemma enqueue_present:
  assumes "enqueue e q d = (d1, i)"
  shows "map_option j_id (find_where (\<lambda>j. j_key j = jq_key q) (jobs d1)) = Some i"
  using assms
  by (auto simp: enqueue_def enqueue_rearm_def find_where_update_where find_where_append new_job_def
      split: option.splits if_splits)

lemma enqueue_same_key:
  assumes "enqueue e q d = (d1, i)" and "enqueue e' q' d1 = (d2, i')" and "jq_key q' = jq_key q"
  shows "i' = i \<and> map j_key (jobs d2) = map j_key (jobs d1)
    \<and> (\<forall>j \<in> set (jobs d1). j_status j = J_processing \<longrightarrow> j \<in> set (jobs d2))"
proof -
  obtain j where j: "find_where (\<lambda>j. j_key j = jq_key q) (jobs d1) = Some j" "j_id j = i"
    using enqueue_present [OF assms(1)] by auto
  have "j' \<in> set (jobs (enqueue_rearm e' q' d1))" if "j' \<in> set (jobs d1)" "j_status j' = J_processing" for j'
    using that by (auto simp: enqueue_rearm_def set_update_where image_iff intro!: bexI [of _ j'])
  moreover have "map j_key (jobs (enqueue_rearm e' q' d1)) = map j_key (jobs d1)"
    by (simp add: enqueue_rearm_def map_update_where)
  ultimately show ?thesis
    using assms(2,3) j by (auto simp: enqueue_def split: if_splits)
qed

text \<open>A job write touches the queue only.\<close>

lemma enqueue_shape:
  "fst (enqueue e q d) = d\<lparr>jobs := jobs (fst (enqueue e q d)), db_seq := db_seq (fst (enqueue e q d))\<rparr>"
  by (simp add: enqueue_def enqueue_rearm_def split: option.split)

lemma enqueue_frame [simp]:
  "users (fst (enqueue e q d)) = users d" "bounties (fst (enqueue e q d)) = bounties d"
  "submissions (fst (enqueue e q d)) = submissions d" "vresults (fst (enqueue e q d)) = vresults d"
  "revisions (fst (enqueue e q d)) = revisions d" "flags (fst (enqueue e q d)) = flags d"
  "disputes (fst (enqueue e q d)) = disputes d" "windows (fst (enqueue e q d)) = windows d"
  "members (fst (enqueue e q d)) = members d" "abatches (fst (enqueue e q d)) = abatches d"
  "aitems (fst (enqueue e q d)) = aitems d" "kevents (fst (enqueue e q d)) = kevents d"
  "awards (fst (enqueue e q d)) = awards d" "notifs (fst (enqueue e q d)) = notifs d"
  "channels (fst (enqueue e q d)) = channels d" "deliveries (fst (enqueue e q d)) = deliveries d"
  "roles (fst (enqueue e q d)) = roles d" "ranks (fst (enqueue e q d)) = ranks d" "bands (fst (enqueue e q d)) = bands d"
proof -
  obtain js n where "fst (enqueue e q d) = d\<lparr>jobs := js, db_seq := n\<rparr>"
    using enqueue_shape [of e q d] by blast
  then show
  "users (fst (enqueue e q d)) = users d" "bounties (fst (enqueue e q d)) = bounties d"
  "submissions (fst (enqueue e q d)) = submissions d" "vresults (fst (enqueue e q d)) = vresults d"
  "revisions (fst (enqueue e q d)) = revisions d" "flags (fst (enqueue e q d)) = flags d"
  "disputes (fst (enqueue e q d)) = disputes d" "windows (fst (enqueue e q d)) = windows d"
  "members (fst (enqueue e q d)) = members d" "abatches (fst (enqueue e q d)) = abatches d"
  "aitems (fst (enqueue e q d)) = aitems d" "kevents (fst (enqueue e q d)) = kevents d"
  "awards (fst (enqueue e q d)) = awards d" "notifs (fst (enqueue e q d)) = notifs d"
  "channels (fst (enqueue e q d)) = channels d" "deliveries (fst (enqueue e q d)) = deliveries d"
  "roles (fst (enqueue e q d)) = roles d" "ranks (fst (enqueue e q d)) = ranks d" "bands (fst (enqueue e q d)) = bands d"
    by simp_all
qed

text \<open>One concrete queue with one pending job.\<close>

definition demo_row :: "time \<Rightarrow> job_row" where
  "demo_row t = \<lparr>j_id = ''j1'', j_type = ''validation.run'', j_key = ''k'', j_payload = JNull,
     j_status = J_pending, j_attempts = 0, j_max = 5, j_next = Some t, j_error = None,
     j_workspace = None, j_started = None, j_finished = None\<rparr>"

definition demo_db :: db where
  "demo_db = db0\<lparr>jobs := [demo_row 0]\<rparr>"

section \<open>Properties\<close>


definition demo_job :: job_request where
  "demo_job = \<lparr>jq_type = ''validation.run'', jq_key = ''k'', jq_payload = JNull, jq_max = None,
               jq_workspace = None, jq_run_after = None\<rparr>"


text \<open>
  The console's retry and resolve of \<open>routes/v1/admin-jobs.ts\<close>: \<open>seen\<close> is the row the handler read
  and whose status it checked, before the transaction that writes by id. Only failed or dead jobs
  are accepted; a retry writes no due time and leaves the error in place.
\<close>

definition retry_job :: "job_row \<Rightarrow> db \<Rightarrow> db" where
  "retry_job seen d =
     (if j_status seen \<in> {J_failed, J_dead}
      then d\<lparr>jobs := update_where (\<lambda>j. j_id j = j_id seen)
               (\<lambda>j. j\<lparr>j_status := J_pending, j_next := None, j_max := max (j_max seen) (j_attempts seen + 1)\<rparr>) (jobs d)\<rparr>
      else d)"

definition resolve_job :: "time \<Rightarrow> job_row \<Rightarrow> db \<Rightarrow> db" where
  "resolve_job t seen d =
     (if j_status seen \<in> {J_failed, J_dead}
      then d\<lparr>jobs := update_where (\<lambda>j. j_id j = j_id seen) (\<lambda>j. j\<lparr>j_status := J_cancelled, j_finished := Some t\<rparr>) (jobs d)\<rparr>
      else d)"

text \<open>
  A run of the queue: any workers and producers, any stale candidates, any times. A create under an
  id that is taken is refused by the primary key. \<open>writes_by_id k\<close> is a write to job \<open>k\<close> that looks at nothing but its id:
  a worker's report, or an operator's retry or resolve; \<open>take_by u\<close> is a claim that looks at a clock
  before \<open>u\<close>.
\<close>

datatype queue_event =
    Q_enqueue env job_request
  | Q_rearm env job_request
  | Q_take time time job_row
  | Q_complete time ident
  | Q_fail time ident string
  | Q_retry job_row
  | Q_resolve time job_row

fun queue_act :: "queue_event \<Rightarrow> db \<Rightarrow> db" where
  "queue_act (Q_enqueue e q) d =
     (if find_where (\<lambda>j. j_key j = jq_key q) (jobs d) = None \<and> fresh e d \<in> j_id ` set (jobs d) then d
      else fst (enqueue e q d))"
| "queue_act (Q_rearm e q) d = enqueue_rearm e q d"
| "queue_act (Q_take t l cand) d = fst (claim_take t l cand d)"
| "queue_act (Q_complete t k) d = complete_job t k d"
| "queue_act (Q_fail t k err) d = fail_job t k err d"
| "queue_act (Q_retry seen) d = retry_job seen d"
| "queue_act (Q_resolve t seen) d = resolve_job t seen d"

fun queue_run :: "queue_event list \<Rightarrow> db \<Rightarrow> db" where
  "queue_run [] d = d"
| "queue_run (v # vs) d = queue_run vs (queue_act v d)"

fun writes_by_id :: "ident \<Rightarrow> queue_event \<Rightarrow> bool" where
  "writes_by_id k (Q_complete t i) \<longleftrightarrow> i = k"
| "writes_by_id k (Q_fail t i err) \<longleftrightarrow> i = k"
| "writes_by_id k (Q_retry seen) \<longleftrightarrow> j_id seen = k"
| "writes_by_id k (Q_resolve t seen) \<longleftrightarrow> j_id seen = k"
| "writes_by_id k v \<longleftrightarrow> False"

fun take_by :: "time \<Rightarrow> queue_event \<Rightarrow> bool" where
  "take_by u (Q_take t l cand) \<longleftrightarrow> t < u"
| "take_by u v \<longleftrightarrow> True"

text \<open>Every row under the winner's id is the row it was given, and the lease stands on it.\<close>

definition held :: "job_row \<Rightarrow> time \<Rightarrow> db \<Rightarrow> bool" where
  "held r u d \<longleftrightarrow> (\<forall>j \<in> set (jobs d). j_id j = j_id r \<longrightarrow> j = r)
     \<and> r \<in> set (jobs d) \<and> j_status r = J_processing \<and> j_next r = Some u"

lemma held_not_takeable: "held r u d \<Longrightarrow> j \<in> set (jobs d) \<Longrightarrow> j_id j = j_id r \<Longrightarrow> t < u \<Longrightarrow> \<not> takeable t j"
  by (auto simp: held_def takeable_def due_by_def)

lemma held_update:
  assumes "held r u d" and "\<not> P r" and "\<And>j. j_id (f j) = j_id j"
  shows "held r u (d\<lparr>jobs := update_where P f (jobs d)\<rparr>)"
  using assms by (fastforce simp: held_def set_update_where)

lemma held_take:
  assumes "held r u d" and "t < u"
  shows "held r u (fst (claim_take t l cand d))"
proof -
  have "\<not> (j_id r = j_id cand \<and> takeable t r)"
    using held_not_takeable [OF assms(1), of r t] assms by (auto simp: held_def)
  then have "held r u (d\<lparr>jobs := update_where (\<lambda>j. j_id j = j_id cand \<and> takeable t j) (take_row t l cand) (jobs d)\<rparr>)"
    by (intro held_update assms(1)) simp_all
  then show ?thesis
    using assms(1) by (simp add: claim_take_def update_many_def)
qed

lemma held_rearm: "held r u d \<Longrightarrow> held r u (enqueue_rearm e q d)"
  unfolding enqueue_rearm_def by (rule held_update) (simp_all add: held_def)

lemma held_act:
  assumes "held r u d" and "\<not> writes_by_id (j_id r) v" and "take_by u v"
  shows "held r u (queue_act v d)"
proof (cases v)
  case (Q_enqueue e q)
  show ?thesis
  proof (cases "find_where (\<lambda>j. j_key j = jq_key q) (jobs d)")
    case None
    then show ?thesis
      using assms(1) Q_enqueue by (auto simp: enqueue_def held_def new_job_def)
  next
    case (Some j)
    then show ?thesis
      using assms(1) held_rearm [OF assms(1)] Q_enqueue by (simp add: enqueue_def)
  qed
next
  case (Q_take t l cand)
  then show ?thesis using held_take assms by simp
next
  case (Q_rearm e q)
  then show ?thesis using held_rearm assms by simp
next
  case (Q_complete t i)
  then show ?thesis using assms unfolding Q_complete queue_act.simps complete_job_def by (intro held_update) auto
next
  case (Q_fail t i err)
  then show ?thesis using assms unfolding Q_fail queue_act.simps fail_job_def by (intro held_update) auto
next
  case (Q_retry seen)
  then show ?thesis
    using assms held_update [OF assms(1), of "\<lambda>j. j_id j = j_id seen"] by (simp add: retry_job_def)
next
  case (Q_resolve t seen)
  then show ?thesis
    using assms held_update [OF assms(1), of "\<lambda>j. j_id j = j_id seen"] by (simp add: resolve_job_def)
qed

lemma held_run:
  "held r u d \<Longrightarrow> list_all (\<lambda>v. \<not> writes_by_id (j_id r) v \<and> take_by u v) vs \<Longrightarrow> held r u (queue_run vs d)"
  by (induction vs arbitrary: d) (simp_all add: held_act)

lemma win_holds:
  assumes "distinct (map j_id (jobs d))" and "claim_take t l cand d = (d', Some r)"
  shows "held r (t + l) d' \<and> j_id r = j_id cand"
proof -
  have js: "jobs d' = update_where (\<lambda>j. j_id j = j_id cand \<and> takeable t j) (take_row t l cand) (jobs d)"
    by (rule claim_take_wins [OF assms(2)])
  have f: "find_where (\<lambda>j. j_id j = j_id cand) (jobs d') = Some r"
    using assms(2) by (auto simp: claim_take_def update_many_def split: if_splits)
  have r: "r \<in> set (jobs d')" "j_id r = j_id cand"
    using find_where_Some [OF f] by simp_all
  have d': "distinct (map j_id (jobs d'))"
    using assms(1) by (simp add: js map_update_where)
  have "j_status r = J_processing \<and> j_next r = Some (t + l)"
  proof -
    obtain r0 where r0: "r0 \<in> set (jobs d)" "j_id r0 = j_id cand" "takeable t r0"
      using assms(2) by (auto simp: claim_take_def update_many_def count_where_0_iff split: if_splits)
    have "take_row t l cand r0 \<in> set (jobs d')"
      using r0 by (auto simp: js set_update_where)
    then have "r = take_row t l cand r0"
      using d' r r0 by (metis distinct_map inj_onD row_keys(5))
    then show ?thesis by (simp add: take_row_def)
  qed
  then show ?thesis
    using r d' unfolding held_def by (metis distinct_map inj_onD)
qed

text \<open>C2: a lease is exclusive for as long as nobody writes the job by its id. A worker wins a job at
  time \<open>t\<close> under a lease \<open>l\<close>; then the queue runs on with enqueues and re-arms of any key (that job's
  own included), claims from any stale candidate, and reports, retries and resolves of other jobs. If no event of the run
  writes this job by its id alone and every claim reads a clock before the end of the lease, the stored row
  is still, field for field, the one the winner was given, and the next claim of the job before the
  end of the lease, from whatever candidate, gets nothing and writes nothing. The premise is
  needed: \<open>complete\<close>, \<open>fail\<close> and the console write by id alone (\<open>stale_report_ends_lease\<close>).\<close>

theorem lease_exclusive:
  assumes "distinct (map j_id (jobs d))" and "claim_take t l cand d = (d', Some r)"
    and "list_all (\<lambda>v. \<not> writes_by_id (j_id cand) v \<and> take_by (t + l) v) vs"
    and "j_id cand' = j_id cand" and "t' < t + l"
  shows "find_where (\<lambda>j. j_id j = j_id cand) (jobs (queue_run vs d')) = Some r
    \<and> claim_take t' l' cand' (queue_run vs d') = (queue_run vs d', None)"
proof -
  have w: "held r (t + l) d'" "j_id r = j_id cand"
    using win_holds [OF assms(1,2)] by simp_all
  then have h: "held r (t + l) (queue_run vs d')"
    using assms(3) by (intro held_run) simp_all
  have "count_where (\<lambda>j. j_id j = j_id cand' \<and> takeable t' j) (jobs (queue_run vs d')) = 0"
    using held_not_takeable [OF h _ _ assms(5)] w(2) assms(4) by (auto simp: count_where_0_iff)
  moreover obtain j where "find_where (\<lambda>j. j_id j = j_id cand) (jobs (queue_run vs d')) = Some j"
    using h w(2) by (cases "find_where (\<lambda>j. j_id j = j_id cand) (jobs (queue_run vs d'))")
      (auto simp: find_where_None_iff held_def)
  ultimately show ?thesis
    using h w(2) by (auto simp: claim_take_def update_many_def held_def dest: find_where_Some)
qed

text \<open>A worker wins, the producer enqueues the key again, a second worker claims from a stale read
  and a third job is reported on; the next stale claim gets nothing.\<close>

definition demo_events :: "queue_event list" where
  "demo_events = [Q_enqueue (env0 7) demo_job, Q_rearm (env0 8) demo_job, Q_take 10 300000 (demo_row 0),
     Q_complete 11 ''j2'']"

definition demo_won :: db where
  "demo_won = fst (claim_take 5 300000 (demo_row 0) demo_db)"

theorem lease_exclusive_witness:
  "find_where (\<lambda>j. j_id j = ''j1'') (jobs (queue_run demo_events demo_won)) = Some (take_row 5 300000 (demo_row 0) (demo_row 0))
   \<and> claim_take 1000 300000 (demo_row 0) (queue_run demo_events demo_won) = (queue_run demo_events demo_won, None)"
  using lease_exclusive [of demo_db 5 300000 "demo_row 0" demo_won "take_row 5 300000 (demo_row 0) (demo_row 0)"
      demo_events "demo_row 0" 1000 300000]
  by (simp add: demo_db_def demo_won_def demo_row_def demo_events_def claim_take_def update_many_def
      takeable_def take_row_def)

text \<open>A report outlives its lease: the first worker's lease ran out and a second one holds the job
  until 600000; the first worker's failure report puts the row back to \<open>failed\<close> with a backoff of
  40 seconds, and a third worker takes the job at 340001 while the second still runs.\<close>

lemma stale_report_ends_lease:
  "let d1 = fst (claim_take 0 300000 (demo_row 0) demo_db);
       d2 = fst (claim_take 300000 300000 (demo_row 0) d1);
       d3 = queue_act (Q_fail 300001 ''j1'' ''boom'') d2
   in map j_next (jobs d2) = [Some 600000]
      \<and> map_option j_attempts (snd (claim_take 340001 300000 (demo_row 0) d3)) = Some 3"
  by (simp add: Let_def demo_db_def demo_row_def claim_take_def update_many_def takeable_def take_row_def
      due_by_def fail_job_def fail_row_def backoff_ms_def)

text \<open>A retried job has no due time, which \<open>enqueue\<close> takes care never to leave on a pending row: the
  watchdog's backlog alarm filters on that column and does not see the job.\<close>

lemma retried_job_has_no_due_time:
  "map (\<lambda>j. (j_status j, j_next j, due_by t j))
     (jobs (retry_job (fail_row 9 ''boom'' (demo_row 0)) (demo_db\<lparr>jobs := [fail_row 9 ''boom'' (demo_row 0)]\<rparr>)))
   = [(J_pending, None, False)]"
  by (simp add: retry_job_def fail_row_def demo_db_def demo_row_def due_by_def)

text \<open>retries end. A job whose every attempt fails is retried at the end of each backoff and
  is dead, with a finish time, after exactly its maximum number of attempts.\<close>

lemma failing_job_dies:
  assumes "jobs d = [j]" and "j_type j \<in> set types" and "claimable t j"
    and "j_attempts j = 0" and "0 < j_max j"
  shows "\<exists>j'. jobs (failing_rounds (nat (j_max j)) t types l err d) = [j'] \<and> j_status j' = J_dead
              \<and> j_attempts j' = j_max j \<and> j_finished j' \<noteq> None"
  using assms by (intro failing_rounds_status) simp_all

lemma failing_job_dies_witness:
  "\<exists>j'. jobs (failing_rounds 5 0 [''validation.run''] 1000 ''boom'' demo_db) = [j'] \<and> j_status j' = J_dead
        \<and> j_attempts j' = 5 \<and> j_finished j' \<noteq> None"
  using failing_job_dies [of demo_db "demo_row 0" "[''validation.run'']" 0 1000 "''boom''"]
  by (simp add: demo_db_def demo_row_def claimable_def due_by_def del: failing_rounds.simps)

text \<open>a job whose handler kills the worker is never dead-lettered. Each crash leaves the row
  processing until its lease ends, \<open>claim\<close> takes it again without looking at \<open>maxAttempts\<close>, and
  after any number of crashes the job is still processing with its attempts past the maximum.\<close>

lemma crashing_job_never_dies:
  assumes "jobs d = [j]" and "j_type j \<in> set types" and "claimable t j" and "0 \<le> l"
  shows "\<exists>j'. jobs (crashing_rounds (Suc n) t types l d) = [j'] \<and> j_status j' = J_processing
              \<and> j_attempts j' = j_attempts j + 1 + int n \<and> j_max j' = j_max j"
  using assms by (rule crashing_rounds_status)

lemma crashing_job_never_dies_witness:
  "\<exists>j'. jobs (crashing_rounds 7 0 [''validation.run''] 1000 demo_db) = [j'] \<and> j_status j' = J_processing
        \<and> j_attempts j' = 7 \<and> j_max j' = 5"
  using crashing_job_never_dies [of demo_db "demo_row 0" "[''validation.run'']" 0 1000 6]
  by (simp add: demo_db_def demo_row_def claimable_def due_by_def eval_nat_numeral del: crashing_rounds.simps)

text \<open>enqueueing is idempotent per key and never disturbs a running job: a second enqueue of
  the same key returns the first one's id, adds no row, and leaves a row that a worker holds as it
  is; the default key does not depend on the order of the payload's members.\<close>

lemma enqueue_idempotent:
  assumes "set kvs = set kvs'" and "distinct (map fst kvs)" and "distinct (map fst kvs')"
    and "enqueueJob e atom key typ (JObj kvs) None mx ws after d = (d1, i)"
    and "enqueueJob e' atom key typ (JObj kvs') None mx' ws' after' d1 = (d2, i')"
    and "e_sha256 e' = e_sha256 e"
  shows "i' = i \<and> map j_key (jobs d2) = map j_key (jobs d1)
    \<and> (\<forall>j \<in> set (jobs d1). j_status j = J_processing \<longrightarrow> j \<in> set (jobs d2))"
proof -
  have k: "default_key e' atom key typ (JObj kvs') = default_key e atom key typ (JObj kvs)"
    using assms(6) stableJson_members [OF assms(1-3)] by (simp only: default_key_def)
  show ?thesis
    using assms(4,5) unfolding enqueueJob_def option.case k
    by (rule enqueue_same_key) simp_all
qed

definition demo_members :: "(string \<times> json) list" where
  "demo_members = [(''a'', JNum 1), (''b'', JNum 2)]"

definition demo_enqueue :: "(string \<times> json) list \<Rightarrow> db \<Rightarrow> db \<times> ident" where
  "demo_enqueue kvs = enqueueJob (env0 0) (\<lambda>v. ''0'') (\<lambda>k. k) ''t'' (JObj kvs) None None None None"

lemma enqueue_idempotent_witness:
  "snd (demo_enqueue (rev demo_members) (fst (demo_enqueue demo_members db0))) = snd (demo_enqueue demo_members db0)"
proof -
  have "set demo_members = set (rev demo_members)" "distinct (map fst demo_members)"
    "distinct (map fst (rev demo_members))"
    by (auto simp: demo_members_def)
  from enqueue_idempotent [OF this, of "env0 0" "\<lambda>v. ''0''" "\<lambda>k. k" "''t''" None None None db0
      "fst (demo_enqueue demo_members db0)" "snd (demo_enqueue demo_members db0)" "env0 0" None None None
      "fst (demo_enqueue (rev demo_members) (fst (demo_enqueue demo_members db0)))"
      "snd (demo_enqueue (rev demo_members) (fst (demo_enqueue demo_members db0)))"]
  show ?thesis by (simp add: demo_enqueue_def)
qed

end
