(* ===== verification/Cursor.thy ===== *)
theory Cursor
  imports Schema "HOL-Library.Char_ord" "HOL-Library.List_Lexorder"
begin

text \<open>
  \<open>lib/keyset-cursor.ts\<close>: the filter fingerprint a cursor is bound to, the checks on a decoded
  cursor, and the page cut. A token is its JSON envelope here; base64url and \<open>JSON.parse\<close> are the
  transport around it (\<open>None\<close> is text that does not parse). The contract of a keyset walk is the
  locale \<open>keyset_walk\<close>; the lists that page by such cursors interpret it.
\<close>

section \<open>Operations\<close>

datatype filter_part = Part_none | Part_text string | Part_int int | Part_bool bool

fun part_text :: "filter_part \<Rightarrow> string" where
  "part_text Part_none = []"
| "part_text (Part_text s) = s"
| "part_text (Part_int i) = show_int i"
| "part_text (Part_bool b) = (if b then ''true'' else ''false'')"

text \<open>The two replacements, the backslash first.\<close>

definition BACKSLASH :: char where "BACKSLASH = CHR 0x5C"

fun replace_char :: "char \<Rightarrow> string \<Rightarrow> string \<Rightarrow> string" where
  "replace_char c r [] = []"
| "replace_char c r (x # xs) = (if x = c then r else [x]) @ replace_char c r xs"

definition escape_part :: "string \<Rightarrow> string" where
  "escape_part s = replace_char CHR ''|'' [BACKSLASH, CHR ''|''] (replace_char BACKSLASH [BACKSLASH, BACKSLASH] s)"

fun bar_join :: "string list \<Rightarrow> string" where
  "bar_join [] = []"
| "bar_join [s] = s"
| "bar_join (s # t # r) = s @ ''|'' @ bar_join (t # r)"

definition filterKeyOf :: "filter_part list \<Rightarrow> string" where
  "filterKeyOf parts = bar_join (map (escape_part \<circ> part_text) parts)"

datatype cursor_error = Invalid_cursor | Filter_mismatch

record cursor_position =
  cp_key :: string
  cp_id :: string

definition CURSOR_VERSION :: real where
  "CURSOR_VERSION = 1"

definition encodeCursor :: "string \<Rightarrow> string \<Rightarrow> string \<Rightarrow> json" where
  "encodeCursor key i f = JObj [(''v'', JNum CURSOR_VERSION), (''c'', JStr key), (''i'', JStr i), (''f'', JStr f)]"

definition decodeCursor :: "json option \<Rightarrow> string \<Rightarrow> cursor_error + cursor_position" where
  "decodeCursor token filterKey =
     (case token of
        Some (JObj kvs) \<Rightarrow>
          (case (map_of kvs ''v'', map_of kvs ''c'', map_of kvs ''i'', map_of kvs ''f'') of
             (Some (JNum v), Some (JStr c), Some (JStr i), Some (JStr f)) \<Rightarrow>
               (if v \<noteq> CURSOR_VERSION then Inl Invalid_cursor
                else if f \<noteq> filterKey then Inl Filter_mismatch
                else Inr \<lparr>cp_key = c, cp_id = i\<rparr>)
           | _ \<Rightarrow> Inl Invalid_cursor)
      | _ \<Rightarrow> Inl Invalid_cursor)"

definition takePage :: "'a list \<Rightarrow> nat \<Rightarrow> 'a list \<times> bool" where
  "takePage rows limit = (if length rows > limit then take limit rows else rows, length rows > limit)"

section \<open>The fingerprint is faithful\<close>

lemma escape_part_simps [simp]:
  "escape_part [] = []"
  "escape_part (x # xs) = (if x = BACKSLASH then [BACKSLASH, BACKSLASH] else if x = CHR ''|'' then [BACKSLASH, CHR ''|''] else [x])
                          @ escape_part xs"
  by (simp_all add: escape_part_def BACKSLASH_def)

text \<open>Reading one escaped part back, up to the first bare bar.\<close>

fun read_part :: "string \<Rightarrow> string \<times> string option" where
  "read_part [] = ([], None)"
| "read_part [x] = (if x = CHR ''|'' then ([], Some []) else ([x], None))"
| "read_part (x # y # r) =
     (if x = CHR ''|'' then ([], Some (y # r))
      else if x = BACKSLASH then (case read_part r of (s, t) \<Rightarrow> (y # s, t))
      else (case read_part (y # r) of (s, t) \<Rightarrow> (x # s, t)))"

lemma bar_not_backslash: "BACKSLASH \<noteq> CHR ''|''"
  by (simp add: BACKSLASH_def)

lemma read_part_end: "read_part (escape_part s) = (s, None)"
proof (induction s)
  case Nil
  then show ?case by simp
next
  case (Cons x xs)
  then show ?case
    using bar_not_backslash by (cases "escape_part xs") auto
qed

lemma read_part_bar: "read_part (escape_part s @ CHR ''|'' # r) = (s, Some r)"
proof (induction s)
  case Nil
  then show ?case by (cases r) simp_all
next
  case (Cons x xs)
  then show ?case
    using bar_not_backslash by (cases "escape_part xs @ CHR ''|'' # r") auto
qed

lemma escape_part_inj: "escape_part s = escape_part t \<Longrightarrow> s = t"
proof -
  assume "escape_part s = escape_part t"
  then have "read_part (escape_part s) = read_part (escape_part t)" by (rule arg_cong)
  then show "s = t" unfolding read_part_end by simp
qed

lemma bar_join_more: "bar_join (map escape_part (a # b # c)) = escape_part a @ CHR ''|'' # bar_join (map escape_part (b # c))"
  by simp

lemma bar_join_inj: "length ss = length ts \<Longrightarrow> bar_join (map escape_part ss) = bar_join (map escape_part ts) \<Longrightarrow> ss = ts"
proof (induction ss ts rule: list_induct2)
  case Nil
  then show ?case by simp
next
  case (Cons s ss t ts)
  show ?case
  proof (cases ss)
    case Nil
    then have n: "ss = []" "ts = []" using Cons.hyps by auto
    have "escape_part s = escape_part t" using Cons.prems unfolding n list.map bar_join.simps .
    then show ?thesis using escape_part_inj n by blast
  next
    case (Cons s' ss')
    then obtain t' ts' where n: "ss = s' # ss'" "ts = t' # ts'" using Cons.hyps by (cases ts) auto
    have "read_part (escape_part s @ CHR ''|'' # bar_join (map escape_part ss)) = read_part (escape_part t @ CHR ''|'' # bar_join (map escape_part ts))"
      using Cons.prems unfolding n bar_join_more by (rule arg_cong)
    then have "s = t" "bar_join (map escape_part ss) = bar_join (map escape_part ts)"
      unfolding read_part_bar by simp_all
    then show ?thesis using Cons.IH by simp
  qed
qed

section \<open>Keyset walks\<close>

text \<open>
  A listing ordered strictly by \<open>before\<close>: a page is the first \<open>n\<close> rows after the last row of the
  page before. \<open>walk\<close> follows the cursors, one page per unit of fuel.
\<close>

definition after_rows :: "('r \<Rightarrow> 'r \<Rightarrow> bool) \<Rightarrow> 'r option \<Rightarrow> 'r list \<Rightarrow> 'r list" where
  "after_rows before pos rows = (case pos of None \<Rightarrow> rows | Some r \<Rightarrow> filter (before r) rows)"

fun walk :: "('r \<Rightarrow> 'r \<Rightarrow> bool) \<Rightarrow> nat \<Rightarrow> nat \<Rightarrow> 'r option \<Rightarrow> 'r list \<Rightarrow> 'r list list" where
  "walk before 0 n pos rows = []"
| "walk before (Suc k) n pos rows =
     (case takePage (after_rows before pos rows) n of
        (page, hasMore) \<Rightarrow> page # (if hasMore then walk before k n (Some (last page)) rows else []))"

locale keyset_walk =
  fixes before :: "'r \<Rightarrow> 'r \<Rightarrow> bool"
  assumes before_irrefl: "\<not> before x x"
    and before_trans: "before x y \<Longrightarrow> before y z \<Longrightarrow> before x z"
begin

lemma after_middle:
  assumes "sorted_wrt before (xs @ y # zs)"
  shows "filter (before y) (xs @ y # zs) = zs"
proof -
  have "\<forall>x \<in> set xs. before x y" using assms by (simp add: sorted_wrt_append)
  then have "\<forall>x \<in> set xs. \<not> before y x" using before_irrefl before_trans by blast
  moreover have "\<forall>z \<in> set zs. before y z" using assms by (simp add: sorted_wrt_append)
  ultimately show ?thesis by (simp add: before_irrefl filter_empty_conv filter_id_conv)
qed

text \<open>A walk over a listing that does not change serves every row once, in order.\<close>

lemma walk_complete:
  assumes "sorted_wrt before rows" and "n > 0"
  shows "length (after_rows before pos rows) < k * n + 1 \<Longrightarrow> k > 0 \<Longrightarrow>
    (pos = None \<or> (\<exists>y \<in> set rows. pos = Some y)) \<Longrightarrow> concat (walk before k n pos rows) = after_rows before pos rows"
proof (induction k arbitrary: pos)
  case 0
  then show ?case by simp
next
  case (Suc k)
  define a where "a = after_rows before pos rows"
  show ?case
  proof (cases "length a > n")
    case False
    then show ?thesis by (simp add: takePage_def a_def)
  next
    case True
    have p: "take n a \<noteq> []" using True assms(2) by auto
    define y where "y = last (take n a)"
    obtain xs where xs: "xs @ a = rows"
    proof (cases pos)
      case None
      then show ?thesis using that [of "[]"] by (simp add: a_def after_rows_def)
    next
      case (Some r)
      then have "r \<in> set rows" using Suc.prems(3) by auto
      then obtain as bs where ab: "rows = as @ r # bs" by (metis split_list)
      have "a = bs" unfolding a_def after_rows_def Some option.case ab
        by (rule after_middle) (use assms(1) ab in simp)
      then show ?thesis using that [of "as @ [r]"] ab by simp
    qed
    have "take n a = butlast (take n a) @ [y]" using append_butlast_last_id [OF p] by (simp add: y_def)
    then have "a = butlast (take n a) @ y # drop n a"
      using append_take_drop_id [of n a] by (metis append.assoc append_Cons append_Nil)
    then have r2: "(xs @ butlast (take n a)) @ y # drop n a = rows" using xs by (metis append.assoc)
    have next_page: "after_rows before (Some y) rows = drop n a"
      unfolding after_rows_def option.case using after_middle [of "xs @ butlast (take n a)" y "drop n a"] assms(1)
      unfolding r2 by blast
    have len: "length a < Suc k * n + 1" using Suc.prems(1) by (simp add: a_def)
    have "k > 0"
    proof (rule ccontr)
      assume "\<not> k > 0"
      then show False using len True by simp
    qed
    moreover have "length (drop n a) < k * n + 1" using len True by simp
    moreover have "y \<in> set rows" using r2 by (metis in_set_conv_decomp)
    ultimately have "concat (walk before k n (Some y) rows) = drop n a"
      using Suc.IH [of "Some y"] unfolding next_page by blast
    moreover have "takePage a n = (take n a, True)" using True by (simp add: takePage_def)
    ultimately have "concat (walk before (Suc k) n pos rows) = take n a @ drop n a"
      by (simp add: a_def [symmetric] y_def)
    then show ?thesis by (simp add: a_def)
  qed
qed

end

section \<open>Properties\<close>

text \<open>A cursor is bound to the filters it was minted under: read back by a request with the same filter values it
  gives the stored position, by a request with any other values it is refused as a mismatch, never served; and nothing
  that is not a complete envelope of the current version is ever accepted.\<close>

lemma cursor_bound_to_filter:
  assumes "length ps = length qs"
  shows "decodeCursor (Some (encodeCursor k i (filterKeyOf ps))) (filterKeyOf qs)
       = (if map part_text ps = map part_text qs then Inr \<lparr>cp_key = k, cp_id = i\<rparr> else Inl Filter_mismatch)
     \<and> (\<forall>token p. decodeCursor token (filterKeyOf qs) = Inr p \<longrightarrow>
          (\<exists>kvs. token = Some (JObj kvs) \<and> map_of kvs ''v'' = Some (JNum CURSOR_VERSION)
             \<and> map_of kvs ''c'' = Some (JStr (cp_key p)) \<and> map_of kvs ''i'' = Some (JStr (cp_id p))
             \<and> map_of kvs ''f'' = Some (JStr (filterKeyOf qs))))"
proof
  have "filterKeyOf ps = filterKeyOf qs \<longleftrightarrow> map part_text ps = map part_text qs"
  proof
    assume "filterKeyOf ps = filterKeyOf qs"
    then have "bar_join (map escape_part (map part_text ps)) = bar_join (map escape_part (map part_text qs))"
      unfolding filterKeyOf_def by (simp only: map_map)
    then show "map part_text ps = map part_text qs" by (intro bar_join_inj) (simp_all add: assms)
  next
    assume "map part_text ps = map part_text qs"
    then have "map escape_part (map part_text ps) = map escape_part (map part_text qs)" by (rule arg_cong)
    then show "filterKeyOf ps = filterKeyOf qs" unfolding filterKeyOf_def map_map by (rule arg_cong)
  qed
  then show "decodeCursor (Some (encodeCursor k i (filterKeyOf ps))) (filterKeyOf qs)
       = (if map part_text ps = map part_text qs then Inr \<lparr>cp_key = k, cp_id = i\<rparr> else Inl Filter_mismatch)"
    by (simp add: encodeCursor_def decodeCursor_def)
  show "\<forall>token p. decodeCursor token (filterKeyOf qs) = Inr p \<longrightarrow>
          (\<exists>kvs. token = Some (JObj kvs) \<and> map_of kvs ''v'' = Some (JNum CURSOR_VERSION)
             \<and> map_of kvs ''c'' = Some (JStr (cp_key p)) \<and> map_of kvs ''i'' = Some (JStr (cp_id p))
             \<and> map_of kvs ''f'' = Some (JStr (filterKeyOf qs)))"
    by (auto simp: decodeCursor_def split: option.splits json.splits if_splits)
qed

lemma cursor_bound_to_filter_witness:
  "decodeCursor (Some (encodeCursor ''7'' ''w'' (filterKeyOf [Part_text ''a|b'', Part_none]))) (filterKeyOf [Part_text ''a'', Part_text ''b''])
     = Inl Filter_mismatch"
  using cursor_bound_to_filter [of "[Part_text ''a|b'', Part_none]" "[Part_text ''a'', Part_text ''b'']" "''7''" "''w''"] by simp

end
