(* ===== verification/Dedup_Lsh.thy ===== *)
theory Dedup_Lsh
  imports Job_Queue Cursor
begin

text \<open>
  \<open>services/dedup-lsh.ts\<close> and the near-duplicate score of \<open>services/submissions.ts\<close>: the canonical
  text of a payload, its shingles, the MinHash signature, the LSH bands, and the score estimated
  from the bands two submissions share. \<open>String(n)\<close> of a number is the argument \<open>num\<close>, and
  \<open>SHA-256\<close> is the environment's.
\<close>

section \<open>Canonical text\<close>

definition SHINGLE_K_WORDS :: nat where "SHINGLE_K_WORDS = 5"
definition SHINGLE_K_CHARS :: nat where "SHINGLE_K_CHARS = 8"
definition NUM_HASHES :: nat where "NUM_HASHES = 64"
definition NUM_BANDS :: nat where "NUM_BANDS = 16"
definition ROWS_PER_BAND :: nat where "ROWS_PER_BAND = NUM_HASHES div NUM_BANDS"
definition MAX_SAFE_INTEGER :: nat where "MAX_SAFE_INTEGER = 2 ^ 53 - 1"

definition hash_seed :: "nat \<Rightarrow> string" where
  "hash_seed i = ''dbty-minhash-seed-'' @ show_nat i"

text \<open>Members are visited in the order of their keys.\<close>

fun flattenToStrings :: "(real \<Rightarrow> string) \<Rightarrow> json \<Rightarrow> string list" where
  "flattenToStrings num JNull = []"
| "flattenToStrings num (JStr s) = (if js_trim s = [] then [] else [js_trim s])"
| "flattenToStrings num (JNum x) = [num x]"
| "flattenToStrings num (JBool b) = [if b then ''true'' else ''false'']"
| "flattenToStrings num (JArr vs) = concat (map (flattenToStrings num) vs)"
| "flattenToStrings num (JObj kvs) =
     concat (map snd (sort_key fst (map (\<lambda>(k, v). (k, flattenToStrings num v)) kvs)))"

text \<open>\<open>replace(/\s+/g, " ")\<close>: \<open>after\<close> tells whether the previous character was white space.\<close>

fun collapse_ws :: "bool \<Rightarrow> string \<Rightarrow> string" where
  "collapse_ws after [] = []"
| "collapse_ws after (c # s) =
     (if is_ws c then (if after then collapse_ws True s else CHR '' '' # collapse_ws True s)
      else c # collapse_ws False s)"

fun spaced :: "string list \<Rightarrow> string" where
  "spaced [] = []"
| "spaced [s] = s"
| "spaced (s # t # r) = s @ '' '' @ spaced (t # r)"

definition canonicalizePayload :: "(real \<Rightarrow> string) \<Rightarrow> json \<Rightarrow> string" where
  "canonicalizePayload num p = js_trim (collapse_ws False (js_lower (spaced (flattenToStrings num p))))"

section \<open>Shingles and signature\<close>

fun split_space :: "string \<Rightarrow> string list" where
  "split_space [] = [[]]"
| "split_space (c # s) =
     (if c = CHR '' '' then [] # split_space s
      else (case split_space s of [] \<Rightarrow> [[c]] | w # ws \<Rightarrow> (c # w) # ws))"

definition slices :: "nat \<Rightarrow> 'a list \<Rightarrow> 'a list list" where
  "slices k xs = map (\<lambda>i. take k (drop i xs)) [0..<length xs - k + 1]"

definition shingle :: "string \<Rightarrow> string list" where
  "shingle t =
     (let ws = filter (\<lambda>w. w \<noteq> []) (split_space t); cs = filter (\<lambda>c. \<not> is_ws c) t
      in if length ws \<ge> SHINGLE_K_WORDS then map spaced (slices SHINGLE_K_WORDS ws)
         else if length cs \<ge> SHINGLE_K_CHARS then slices SHINGLE_K_CHARS cs
         else if cs \<noteq> [] then [cs] else [])"

text \<open>The first four bytes of a digest, as an unsigned integer.\<close>

definition hex_nibble :: "char \<Rightarrow> nat" where
  "hex_nibble c = (let n = of_char c :: nat in if n \<le> 57 then n - 48 else n - 87)"

definition seededHash32 :: "env \<Rightarrow> string \<Rightarrow> string \<Rightarrow> nat" where
  "seededHash32 e seed t = foldl (\<lambda>n c. n * 16 + hex_nibble c) 0 (take 8 (e_sha256 e (seed @ ''|'' @ t)))"

definition signature_entry :: "env \<Rightarrow> string list \<Rightarrow> nat \<Rightarrow> nat" where
  "signature_entry e shs h = foldl (\<lambda>m s. if seededHash32 e (hash_seed h) s < m then seededHash32 e (hash_seed h) s else m)
     MAX_SAFE_INTEGER shs"

definition computeMinHashSignature :: "env \<Rightarrow> (real \<Rightarrow> string) \<Rightarrow> json \<Rightarrow> nat list" where
  "computeMinHashSignature e num p =
     (let shs = shingle (canonicalizePayload num p)
      in if shs = [] then replicate NUM_HASHES 0 else map (signature_entry e shs) [0..<NUM_HASHES])"

type_synonym band = "nat \<times> string"

definition band_hash :: "env \<Rightarrow> nat list \<Rightarrow> string" where
  "band_hash e vs = take 32 (e_sha256 e (comma_join (map show_nat vs)))"

definition bandsFromSignature :: "env \<Rightarrow> nat list \<Rightarrow> band list" where
  "bandsFromSignature e sig =
     map (\<lambda>b. (b, band_hash e (take ROWS_PER_BAND (drop (b * ROWS_PER_BAND) sig)))) [0..<NUM_BANDS]"

definition computeLshBands :: "env \<Rightarrow> (real \<Rightarrow> string) \<Rightarrow> json \<Rightarrow> band list" where
  "computeLshBands e num p = bandsFromSignature e (computeMinHashSignature e num p)"

definition estimateJaccardSimilarity :: "nat list \<Rightarrow> nat list \<Rightarrow> real" where
  "estimateJaccardSimilarity a b =
     (if a = [] \<or> b = [] \<or> length a \<noteq> length b then 0
      else real (length (filter (\<lambda>(x, y). x = y) (zip a b))) / real (length a))"

section \<open>The near-duplicate score\<close>

definition band_match :: "ident \<Rightarrow> band list \<Rightarrow> ident option \<Rightarrow> db \<Rightarrow> lsh_band_row \<Rightarrow> bool" where
  "band_match bid bs excl d r \<longleftrightarrow>
     List.member bs (lb_index r, lb_hash r)
     \<and> (case submission_by (lb_submission r) d of
          None \<Rightarrow> False
        | Some s \<Rightarrow> s_bounty s = bid \<and> s_status s \<noteq> S_rejected \<and> excl \<noteq> Some (s_id s))"

definition shared_bands :: "ident \<Rightarrow> band list \<Rightarrow> ident option \<Rightarrow> db \<Rightarrow> ident \<Rightarrow> nat" where
  "shared_bands bid bs excl d k =
     length (filter (\<lambda>r. lb_submission r = k) (filter (band_match bid bs excl d) (bands d)))"

definition max_shared :: "ident \<Rightarrow> band list \<Rightarrow> ident option \<Rightarrow> db \<Rightarrow> nat" where
  "max_shared bid bs excl d =
     foldl (\<lambda>m r. max m (shared_bands bid bs excl d (lb_submission r))) 0 (filter (band_match bid bs excl d) (bands d))"

definition score_of_shared :: "nat \<Rightarrow> real" where
  "score_of_shared m = (if m = 0 then 0 else (real m / real NUM_BANDS) powr (1 / real ROWS_PER_BAND))"

definition computeNearDupScore :: "ident \<Rightarrow> band list \<Rightarrow> ident option \<Rightarrow> db \<Rightarrow> real" where
  "computeNearDupScore bid bs excl d = (if bs = [] then 0 else score_of_shared (max_shared bid bs excl d))"

definition band_row :: "ident \<Rightarrow> band \<Rightarrow> lsh_band_row" where
  "band_row k b = \<lparr>lb_submission = k, lb_index = fst b, lb_hash = snd b\<rparr>"

definition band_key :: "lsh_band_row \<Rightarrow> ident \<times> nat" where
  "band_key r = (lb_submission r, lb_index r)"

definition writeLshBands :: "ident \<Rightarrow> band list \<Rightarrow> db \<Rightarrow> db" where
  "writeLshBands k bs d =
     d\<lparr>bands := fold (\<lambda>r rs. fst (insert_unique band_key r rs)) (map (band_row k) bs) (bands d)\<rparr>"

section \<open>Key order does not matter\<close>

text \<open>Two values that differ in the order of members only, at any depth; within one object the keys
  are distinct.\<close>

inductive same_json :: "json \<Rightarrow> json \<Rightarrow> bool" where
  same_scalar: "same_json j j"
| same_array: "list_all2 same_json vs vs' \<Longrightarrow> same_json (JArr vs) (JArr vs')"
| same_object: "distinct (map fst kvs) \<Longrightarrow> map fst kvs' = map fst kvs
    \<Longrightarrow> list_all2 same_json (map snd kvs) (map snd kvs') \<Longrightarrow> set kvs'' = set kvs' \<Longrightarrow> distinct (map fst kvs'')
    \<Longrightarrow> same_json (JObj kvs) (JObj kvs'')"

lemma flatten_members:
  assumes "set kvs = set kvs'" and "distinct (map fst kvs)" and "distinct (map fst kvs')"
  shows "flattenToStrings num (JObj kvs) = flattenToStrings num (JObj kvs')"
proof -
  let ?r = "\<lambda>(k, v). (k, flattenToStrings num v)"
  have fst: "map fst (map ?r xs) = map fst xs" for xs :: "(string \<times> json) list"
    by (induction xs) auto
  have "sort_key fst (map ?r kvs) = sort_key fst (map ?r kvs')"
    by (rule sort_key_perm) (simp_all only: fst assms set_map)
  then show ?thesis by simp
qed

lemma flatten_pairs:
  "map fst xs = map fst ys \<Longrightarrow> list_all2 (\<lambda>a b. f a = f b) (map snd xs) (map snd ys)
   \<Longrightarrow> map (\<lambda>(k, v). (k, f v)) xs = map (\<lambda>(k, v). (k, f v)) ys"
proof (induction xs arbitrary: ys)
  case (Cons x xs)
  then show ?case by (cases ys; cases x) auto
qed auto

lemma flatten_same: "same_json a b \<Longrightarrow> flattenToStrings num a = flattenToStrings num b"
proof (induction rule: same_json.induct)
  case (same_array vs vs')
  then have "map (flattenToStrings num) vs = map (flattenToStrings num) vs'"
    by (intro nth_equalityI) (simp_all add: list_all2_conv_all_nth)
  then show ?case by simp
next
  case (same_object kvs kvs' kvs'')
  have "list_all2 (\<lambda>a b. flattenToStrings num a = flattenToStrings num b) (map snd kvs) (map snd kvs')"
    using same_object by (auto elim!: list_all2_mono)
  then have "flattenToStrings num (JObj kvs) = flattenToStrings num (JObj kvs')"
    using flatten_pairs [OF same_object(2) [symmetric], of "flattenToStrings num"] by simp
  also have "\<dots> = flattenToStrings num (JObj kvs'')"
    using same_object by (intro flatten_members) simp_all
  finally show ?case .
qed simp

section \<open>The signature is that of the set of shingles\<close>

lemma entry_fold:
  "foldl (\<lambda>m s. if f s < m then f s else m) (a :: nat) xs = Min (insert a (f ` set xs))"
proof (induction xs arbitrary: a)
  case (Cons x xs)
  have "(if f x < a then f x else a) = min (f x) a" by simp
  then show ?case using Cons by (cases "xs = []") (auto simp: insert_commute min_def)
qed simp

lemma signature_entry_min:
  "signature_entry e shs h = Min (insert MAX_SAFE_INTEGER (seededHash32 e (hash_seed h) ` set shs))"
  unfolding signature_entry_def by (rule entry_fold)

lemma signature_of_set:
  "set (shingle (canonicalizePayload num a)) = set (shingle (canonicalizePayload num b))
   \<Longrightarrow> computeMinHashSignature e num a = computeMinHashSignature e num b"
  by (auto simp: computeMinHashSignature_def Let_def signature_entry_min)

lemma signature_length [simp]: "length (computeMinHashSignature e num p) = NUM_HASHES"
  by (simp add: computeMinHashSignature_def Let_def)

lemma bands_length [simp]: "length (bandsFromSignature e sig) = NUM_BANDS"
  by (simp add: bandsFromSignature_def)

lemma bands_distinct: "distinct (bandsFromSignature e sig)"
  by (simp add: bandsFromSignature_def distinct_map inj_on_def)

section \<open>What a score means\<close>

text \<open>A submission has at most one row per band index (the table's unique key).\<close>

definition bands_unique :: "db \<Rightarrow> bool" where
  "bands_unique d \<longleftrightarrow> distinct (map band_key (bands d))"

lemma shared_bands_le:
  assumes "bands_unique d" and "distinct bs"
  shows "shared_bands bid bs excl d k \<le> length bs"
proof -
  let ?rows = "filter (\<lambda>r. lb_submission r = k) (filter (band_match bid bs excl d) (bands d))"
  have "distinct (map (\<lambda>r. (lb_submission r, lb_index r)) ?rows)"
    using assms(1) by (simp add: bands_unique_def distinct_map_filter flip: band_key_def)
  moreover have "map (\<lambda>r. (lb_submission r, lb_index r)) ?rows = map (\<lambda>i. (k, i)) (map lb_index ?rows)"
    by (induction "bands d") auto
  ultimately have "distinct (map lb_index ?rows)" by (metis distinct_map)
  then have "distinct (map (\<lambda>r. (lb_index r, lb_hash r)) ?rows)"
    by (metis (no_types, lifting) distinct_map fst_conv inj_on_def)
  moreover have "set (map (\<lambda>r. (lb_index r, lb_hash r)) ?rows) \<subseteq> set bs"
    by (auto simp: band_match_def)
  ultimately have "length (map (\<lambda>r. (lb_index r, lb_hash r)) ?rows) \<le> length bs"
    by (metis card_mono distinct_card List.finite_set assms(2))
  then show ?thesis by (simp add: shared_bands_def)
qed

lemma foldl_max_bounds:
  fixes f :: "'a \<Rightarrow> nat"
  shows "(\<forall>x \<in> set xs. f x \<le> foldl (\<lambda>m x. max m (f x)) a xs) \<and> a \<le> foldl (\<lambda>m x. max m (f x)) a xs
         \<and> (foldl (\<lambda>m x. max m (f x)) a xs = a \<or> (\<exists>x \<in> set xs. foldl (\<lambda>m x. max m (f x)) a xs = f x))"
proof (induction xs arbitrary: a)
  case (Cons y ys)
  from Cons [of "max a (f y)"] show ?case by (auto simp: max_def split: if_splits)
qed simp

lemma max_shared_spec:
  "max_shared bid bs excl d \<ge> n \<longleftrightarrow> n = 0 \<or> (\<exists>k. shared_bands bid bs excl d k \<ge> n)"
proof
  let ?ms = "filter (band_match bid bs excl d) (bands d)"
  note b = foldl_max_bounds [of ?ms "\<lambda>r. shared_bands bid bs excl d (lb_submission r)" 0]
  {
    assume "max_shared bid bs excl d \<ge> n"
    then show "n = 0 \<or> (\<exists>k. shared_bands bid bs excl d k \<ge> n)"
      using b unfolding max_shared_def by auto
  next
    assume r: "n = 0 \<or> (\<exists>k. shared_bands bid bs excl d k \<ge> n)"
    show "max_shared bid bs excl d \<ge> n"
    proof (cases "n = 0")
      case False
      then obtain k where k: "shared_bands bid bs excl d k \<ge> n" using r by blast
      then have "filter (\<lambda>r. lb_submission r = k) ?ms \<noteq> []" using False by (auto simp: shared_bands_def)
      then obtain r where "r \<in> set ?ms" "lb_submission r = k" by (auto simp: filter_empty_conv)
      then show ?thesis using b k unfolding max_shared_def by fastforce
    qed simp
  }
qed

lemma score_mono: "m \<le> n \<Longrightarrow> score_of_shared m \<le> score_of_shared n"
  by (auto simp: score_of_shared_def NUM_BANDS_def ROWS_PER_BAND_def NUM_HASHES_def intro!: powr_mono2)

lemma score_pow:
  assumes "0 < m" and "0 \<le> t"
  shows "t \<le> score_of_shared m \<longleftrightarrow> t ^ 4 \<le> real m / 16"
proof -
  have p: "(score_of_shared m) ^ 4 = real m / 16"
    using assms(1) by (simp add: score_of_shared_def NUM_BANDS_def ROWS_PER_BAND_def NUM_HASHES_def powr_powr
        flip: powr_numeral)
  have nn: "0 \<le> score_of_shared m" using assms(1) by (simp add: score_of_shared_def)
  show ?thesis using power_mono_iff [OF assms(2) nn, of 4] p by simp
qed

lemma score_at_least:
  assumes "0 < t" and "bs \<noteq> []"
  shows "t \<le> computeNearDupScore bid bs excl d \<longleftrightarrow> 0 < max_shared bid bs excl d \<and> t ^ 4 * 16 \<le> real (max_shared bid bs excl d)"
proof (cases "max_shared bid bs excl d = 0")
  case True
  then show ?thesis using assms by (simp add: computeNearDupScore_def score_of_shared_def)
next
  case False
  then show ?thesis using assms score_pow [of "max_shared bid bs excl d" t]
    by (auto simp: computeNearDupScore_def field_simps)
qed

lemma max_shared_bound:
  assumes "bands_unique d" and "distinct bs"
  shows "max_shared bid bs excl d \<le> length bs"
  using max_shared_spec [of "Suc (length bs)" bid bs excl d] shared_bands_le [OF assms, of bid excl]
  by (metis Suc_n_not_le_n nat.simps(3) not_less_eq_eq order_trans)

lemma same_bands: "same_json a b \<Longrightarrow> computeLshBands e num a = computeLshBands e num b"
  using flatten_same [of a b num] by (simp add: computeLshBands_def computeMinHashSignature_def canonicalizePayload_def)

text \<open>All the bands of a submission are stored.\<close>

definition bands_stored :: "ident \<Rightarrow> band list \<Rightarrow> db \<Rightarrow> bool" where
  "bands_stored k bs d \<longleftrightarrow> (\<forall>(i, h) \<in> set bs. \<lparr>lb_submission = k, lb_index = i, lb_hash = h\<rparr> \<in> set (bands d))"

lemma stored_all_shared:
  assumes "bands_stored (s_id s) bs d" and "distinct bs" and "submission_by (s_id s) d = Some s"
    and "s_bounty s = bid" and "s_status s \<noteq> S_rejected" and "excl \<noteq> Some (s_id s)"
  shows "length bs \<le> shared_bands bid bs excl d (s_id s)"
proof -
  let ?f = "\<lambda>(i, h). \<lparr>lb_submission = s_id s, lb_index = i, lb_hash = h\<rparr>"
  let ?rows = "filter (\<lambda>r. lb_submission r = s_id s) (filter (band_match bid bs excl d) (bands d))"
  have "inj_on ?f (set bs)" by (auto simp: inj_on_def)
  then have "length bs = card (?f ` set bs)" using assms(2) by (simp add: card_image distinct_card)
  moreover have "?f ` set bs \<subseteq> set ?rows"
    using assms by (auto simp: bands_stored_def band_match_def)
  ultimately have "length bs \<le> card (set ?rows)" by (metis List.finite_set card_mono)
  then show ?thesis unfolding shared_bands_def using card_length le_trans by blast
qed

text \<open>The rows of one submission, written to a table that has none of it yet.\<close>

lemma writeLshBands_unique: "bands_unique d \<Longrightarrow> bands_unique (writeLshBands k bs d)"
  by (simp add: bands_unique_def writeLshBands_def insert_all_distinct)

lemma writeLshBands_submissions [simp]: "submissions (writeLshBands k bs d) = submissions d"
  by (simp add: writeLshBands_def)

lemma fresh_rows_appended:
  "distinct (map key (rs @ qs)) \<Longrightarrow> fold (\<lambda>r rs. fst (insert_unique key r rs)) qs rs = rs @ qs"
proof (induction qs arbitrary: rs)
  case (Cons q qs)
  then have "fst (insert_unique key q rs) = rs @ [q]" by (subst insert_unique_fresh) auto
  with Cons show ?case by simp
qed simp

lemma bands_indices [simp]: "map fst (bandsFromSignature e sig) = [0..<NUM_BANDS]"
  by (simp add: bandsFromSignature_def comp_def)

lemma writeLshBands_stores:
  assumes "bands_unique d" and "\<forall>r \<in> set (bands d). lb_submission r \<noteq> k"
  shows "bands_stored k (bandsFromSignature e sig) (writeLshBands k (bandsFromSignature e sig) d)"
proof -
  let ?bs = "bandsFromSignature e sig"
  have keys: "map band_key (map (band_row k) bs) = map (Pair k) (map fst bs)" for bs
    by (simp add: band_key_def band_row_def comp_def)
  have "distinct (map (Pair k) [0..<NUM_BANDS])" by (simp add: distinct_map inj_on_def)
  then have "distinct (map band_key (bands d @ map (band_row k) ?bs))"
    using assms unfolding map_append keys bands_indices distinct_append
    by (auto simp: bands_unique_def band_key_def)
  then have "bands (writeLshBands k ?bs d) = bands d @ map (band_row k) ?bs"
    by (simp add: writeLshBands_def fresh_rows_appended)
  then show ?thesis by (force simp: bands_stored_def band_row_def)
qed

definition demo_dup_db :: "env \<Rightarrow> nat list \<Rightarrow> db" where
  "demo_dup_db e sig = writeLshBands ''s1'' (bandsFromSignature e sig)
     (db0\<lparr>submissions := [submission0 ''s1'' ''b'' ''c'' S_submitted]\<rparr>)"

lemma demo_dup_facts:
  "bands_unique (demo_dup_db e sig)" "bands_stored ''s1'' (bandsFromSignature e sig) (demo_dup_db e sig)"
  "submission_by ''s1'' (demo_dup_db e sig) = Some (submission0 ''s1'' ''b'' ''c'' S_submitted)"
  unfolding demo_dup_db_def
  by (rule writeLshBands_unique, simp add: bands_unique_def db0_def, rule writeLshBands_stores, simp_all add: bands_unique_def db0_def,
      simp_all add: submission_by_def submission0_def)

text \<open>the score of an item is a fraction; at the default thresholds it is rejected exactly when
  some active item of the pool shares at least 11 of its 16 bands, and sent to a human from 7 on.\<close>

lemma near_dup_thresholds:
  fixes bid excl d
  assumes "bands_unique d" and "bs = bandsFromSignature e sig"
  defines "score \<equiv> computeNearDupScore bid bs excl d"
  shows "0 \<le> score \<and> score \<le> 1
         \<and> (9 / 10 \<le> score \<longleftrightarrow> (\<exists>k. 11 \<le> shared_bands bid bs excl d k))
         \<and> (8 / 10 \<le> score \<longleftrightarrow> (\<exists>k. 7 \<le> shared_bands bid bs excl d k))"
proof -
  have ne: "bs \<noteq> []" by (simp add: assms(2) bandsFromSignature_def NUM_BANDS_def)
  let ?m = "max_shared bid bs excl d"
  have le: "?m \<le> 16"
    using max_shared_bound [OF assms(1) bands_distinct [of e sig, folded assms(2)], of bid excl]
      bands_length [of e sig] assms(2) by (simp add: NUM_BANDS_def)
  have "score \<le> score_of_shared 16"
    using score_mono [OF le] ne by (simp add: score_def computeNearDupScore_def)
  then have one: "score \<le> 1" by (simp add: score_of_shared_def NUM_BANDS_def)
  have nn: "0 \<le> score" by (simp add: score_def computeNearDupScore_def score_of_shared_def)
  have "(9 / 10 \<le> score) = (11 \<le> ?m)" "(8 / 10 \<le> score) = (7 \<le> ?m)"
    using score_at_least [of "9 / 10" bs bid excl d] score_at_least [of "8 / 10" bs bid excl d] ne
    by (simp_all add: score_def power_divide) linarith+
  with one nn max_shared_spec [of 11 bid bs excl d] max_shared_spec [of 7 bid bs excl d] show ?thesis by simp
qed

lemma near_dup_thresholds_witness:
  "9 / 10 \<le> computeNearDupScore ''b'' (bandsFromSignature (env0 0) (replicate 64 7)) None
       (demo_dup_db (env0 0) (replicate 64 7))"
proof -
  let ?bs = "bandsFromSignature (env0 0) (replicate 64 7)"
  let ?d = "demo_dup_db (env0 0) (replicate 64 7)"
  have "length ?bs \<le> shared_bands ''b'' ?bs None ?d ''s1''"
    using stored_all_shared [of "submission0 ''s1'' ''b'' ''c'' S_submitted" ?bs ?d "''b''" None] demo_dup_facts bands_distinct
    by (simp add: submission0_def)
  then have "11 \<le> shared_bands ''b'' ?bs None ?d ''s1''" by (simp add: NUM_BANDS_def)
  then show ?thesis
    using near_dup_thresholds [OF demo_dup_facts(1), of ?bs "env0 0" "replicate 64 7" "''b''" None] by blast
qed

text \<open>a payload that repeats an active item of the pool up to the order of its members, at any
  depth, scores exactly 1.\<close>

lemma reordered_copy_scores_one:
  assumes "same_json a b" and "bands_unique d" and "submission_by (s_id s) d = Some s" and "s_bounty s = bid"
    and "s_status s \<noteq> S_rejected" and "bands_stored (s_id s) (computeLshBands e num a) d"
  shows "computeNearDupScore bid (computeLshBands e num b) None d = 1"
proof -
  let ?bs = "computeLshBands e num b"
  have d: "distinct ?bs" and n: "length ?bs = 16"
    using bands_distinct bands_length by (simp_all add: computeLshBands_def NUM_BANDS_def)
  have "16 \<le> shared_bands bid ?bs None d (s_id s)"
    using stored_all_shared [of s ?bs d bid None] assms same_bands [OF assms(1), of e num] d n by simp
  then have "16 \<le> max_shared bid ?bs None d" unfolding max_shared_spec by blast
  moreover have "max_shared bid ?bs None d \<le> 16" using max_shared_bound [OF assms(2) d] n by simp
  ultimately have "max_shared bid ?bs None d = 16" by simp
  then show ?thesis using n by (auto simp: computeNearDupScore_def score_of_shared_def NUM_BANDS_def)
qed

lemma reordered_copy_scores_one_witness:
  "computeNearDupScore ''b'' (computeLshBands (env0 0) (\<lambda>x. ''n'') (JObj [(''q'', JStr ''two''), (''p'', JStr ''one'')])) None
     (demo_dup_db (env0 0) (computeMinHashSignature (env0 0) (\<lambda>x. ''n'') (JObj [(''p'', JStr ''one''), (''q'', JStr ''two'')]))) = 1"
proof -
  let ?a = "JObj [(''p'', JStr ''one''), (''q'', JStr ''two'')]"
  have "same_json ?a (JObj [(''q'', JStr ''two''), (''p'', JStr ''one'')])"
    by (rule same_object [where kvs' = "[(''p'', JStr ''one''), (''q'', JStr ''two'')]"]) (auto intro: same_scalar)
  then show ?thesis
    by (rule reordered_copy_scores_one [where s = "submission0 ''s1'' ''b'' ''c'' S_submitted"])
      (use demo_dup_facts in \<open>simp_all add: computeLshBands_def submission0_def\<close>)
qed

end
