(* ===== verification/Artifact_Attach.thy ===== *)
theory Artifact_Attach
  imports Schema
begin

text \<open>
  \<open>services/artifact-attach.ts\<close>: binding the uploaded files of a submit to the rows that reference
  them, in the transaction that inserts the rows. \<open>JSON.parse\<close> is the argument \<open>parse\<close>; the column
  \<open>DatasetType.fields\<close> is the argument of \<open>fileFieldsForBounty\<close>. \<open>None\<close> is the thrown
  \<open>INVALID_FILE_ARTIFACT_REFERENCE\<close>, on which the transaction rolls back.
\<close>

section \<open>Operations\<close>

definition fileFieldsForBounty :: "json option \<Rightarrow> json list" where
  "fileFieldsForBounty raw =
     (case raw of Some (JArr fs) \<Rightarrow> filter (\<lambda>f. jget f ''role'' = Some (JStr ''file'')) fs | _ \<Rightarrow> [])"

fun nonblank :: "json \<Rightarrow> bool" where
  "nonblank (JStr s) = (js_trim s \<noteq> [])"
| "nonblank _ = False"

fun json_str :: "json \<Rightarrow> string" where
  "json_str (JStr s) = s"
| "json_str _ = []"

definition field_artifacts :: "(string \<Rightarrow> json option) \<Rightarrow> json \<Rightarrow> json \<Rightarrow> string list" where
  "field_artifacts parse payload f =
     (case (jget f ''role'', jget f ''key'') of
        (Some (JStr r), Some (JStr k)) \<Rightarrow>
          (if r \<noteq> ''file'' \<or> k = [] then []
           else (case jget payload k of
                   Some (JArr vs) \<Rightarrow> map json_str (filter nonblank vs)
                 | Some (JStr v) \<Rightarrow>
                     (if js_trim v = [] then []
                      else (case parse v of
                              Some (JArr ws) \<Rightarrow> (if list_all nonblank ws then map json_str ws else [v])
                            | _ \<Rightarrow> [v]))
                 | _ \<Rightarrow> []))
      | _ \<Rightarrow> [])"

definition fileArtifactIdsFromPayload :: "(string \<Rightarrow> json option) \<Rightarrow> json list \<Rightarrow> json \<Rightarrow> string list" where
  "fileArtifactIdsFromPayload parse fs payload = concat (map (field_artifacts parse payload) fs)"

type_synonym attach_row = "ident \<times> json"
type_synonym attach_pair = "ident \<times> ident" \<comment> \<open>artifact, submission\<close>

fun attach_pairs :: "(string \<Rightarrow> json option) \<Rightarrow> json list \<Rightarrow> attach_row list \<Rightarrow> attach_pair list \<Rightarrow> attach_pair list option" where
  "attach_pairs parse fs [] ps = Some ps"
| "attach_pairs parse fs ((k, payload) # rows) ps =
     (let arts = js_unique (fileArtifactIdsFromPayload parse fs payload)
      in if list_ex (\<lambda>a. a \<in> set (map fst ps)) arts then None
         else attach_pairs parse fs rows (ps @ map (\<lambda>a. (a, k)) arts))"

definition attachable :: "ident \<Rightarrow> ident option \<Rightarrow> ident \<Rightarrow> artifact_row \<Rightarrow> bool" where
  "attachable bid batch user a \<longleftrightarrow>
     art_bounty a = Some bid \<and> art_batch a = batch \<and> art_owner a = Some user \<and> art_submission a = None
     \<and> art_kind a = AK_submission_attachment \<and> art_status a = AS_ready"

definition attachFileArtifacts ::
  "(string \<Rightarrow> json option) \<Rightarrow> attach_row list \<Rightarrow> json list \<Rightarrow> ident \<Rightarrow> ident option \<Rightarrow> ident \<Rightarrow> db \<Rightarrow> (db \<times> nat) option" where
  "attachFileArtifacts parse rows fs bid batch user d =
     (if fs = [] \<or> rows = [] then Some (d, 0)
      else (case attach_pairs parse fs rows [] of
              None \<Rightarrow> None
            | Some ps \<Rightarrow>
                (if ps = [] then Some (d, 0)
                 else let hit = (\<lambda>a. attachable bid batch user a \<and> map_of ps (art_id a) \<noteq> None);
                          n = count_where hit (artifacts d)
                      in if n \<noteq> length ps then None
                         else Some (d\<lparr>artifacts := update_where hit (\<lambda>a. a\<lparr>art_submission := map_of ps (art_id a)\<rparr>)
                                                      (artifacts d)\<rparr>, n))))"

section \<open>Properties\<close>

lemma update_where_hit: "r \<in> set rs \<Longrightarrow> P r \<Longrightarrow> f r \<in> set (update_where P f rs)"
  by (induction rs) auto

lemma update_where_miss: "r \<in> set rs \<Longrightarrow> \<not> P r \<Longrightarrow> r \<in> set (update_where P f rs)"
  by (induction rs) auto

lemma attach_pairs_spec:
  assumes "attach_pairs parse fs rows ps = Some qs" and "distinct (map fst ps)"
  shows "distinct (map fst qs)
         \<and> set qs = set ps \<union> {(a, k). \<exists>payload. (k, payload) \<in> set rows \<and> a \<in> set (fileArtifactIdsFromPayload parse fs payload)}"
  using assms
proof (induction parse fs rows ps rule: attach_pairs.induct)
  case (2 parse fs k payload rows ps)
  let ?arts = "js_unique (fileArtifactIdsFromPayload parse fs payload)"
  have no: "\<not> list_ex (\<lambda>a. a \<in> set (map fst ps)) ?arts"
    and r: "attach_pairs parse fs rows (ps @ map (\<lambda>a. (a, k)) ?arts) = Some qs"
    using "2.prems"(1) by (simp_all add: Let_def split: if_splits)
  have "distinct (map fst (ps @ map (\<lambda>a. (a, k)) ?arts))"
    using no "2.prems"(2) by (auto simp: list_ex_iff comp_def)
  from "2.IH" [OF refl no r this] show ?case by auto
qed auto

definition artifact_ids :: "db \<Rightarrow> bool" where
  "artifact_ids d \<longleftrightarrow> distinct (map art_id (artifacts d))"

lemma hits_all:
  assumes "distinct (map art_id rs)" and "distinct (map fst ps)"
    and "count_where (\<lambda>a. P a \<and> map_of ps (art_id a) \<noteq> None) rs = length ps" and "k \<in> fst ` set ps"
  shows "\<exists>a \<in> set rs. art_id a = k \<and> P a"
proof -
  let ?hits = "filter (\<lambda>a. P a \<and> map_of ps (art_id a) \<noteq> None) rs"
  have "distinct (map art_id ?hits)" using assms(1) by (rule distinct_map_filter)
  then have "card (set (map art_id ?hits)) = length (map fst ps)"
    using assms(3) by (simp only: distinct_card length_map count_where_def)
  moreover have "card (set (map fst ps)) = length (map fst ps)" using assms(2) by (rule distinct_card)
  moreover have "set (map art_id ?hits) \<subseteq> set (map fst ps)" by (auto simp: map_of_eq_None_iff)
  ultimately have "set (map art_id ?hits) = set (map fst ps)" by (intro card_subset_eq) simp_all
  with assms(4) have "k \<in> set (map art_id ?hits)" by simp
  then show ?thesis by auto
qed

text \<open>attaching is all or nothing and takes only what the caller may take: on success every
  file a row of the submit references is a ready, unattached attachment of the caller for this pool and
  is now bound to that row, and no other artifact changed.\<close>

lemma attachments_all_or_nothing:
  assumes "attachFileArtifacts parse rows fs bid batch user d = Some (d', n)" and "artifact_ids d"
    and "(k, payload) \<in> set rows" and "f \<in> set (fileArtifactIdsFromPayload parse fs payload)"
  shows "(\<exists>a \<in> set (artifacts d). art_id a = f \<and> attachable bid batch user a
            \<and> a\<lparr>art_submission := Some k\<rparr> \<in> set (artifacts d'))
         \<and> (\<forall>a \<in> set (artifacts d). \<not> attachable bid batch user a \<longrightarrow> a \<in> set (artifacts d'))
         \<and> length (artifacts d') = length (artifacts d)"
proof -
  have ne: "fs \<noteq> []" "rows \<noteq> []" using assms(3,4) by (auto simp: fileArtifactIdsFromPayload_def)
  then obtain ps where ps: "attach_pairs parse fs rows [] = Some ps"
    using assms(1) by (cases "attach_pairs parse fs rows []") (simp_all add: attachFileArtifacts_def)
  note sp = attach_pairs_spec [OF ps]
  have fk: "(f, k) \<in> set ps" and dist: "distinct (map fst ps)" using sp assms(3,4) by auto
  let ?hit = "\<lambda>a. attachable bid batch user a \<and> map_of ps (art_id a) \<noteq> None"
  let ?bind = "\<lambda>a. a\<lparr>art_submission := map_of ps (art_id a)\<rparr>"
  have "ps \<noteq> []" using fk by auto
  then have n: "count_where ?hit (artifacts d) = length ps"
    and d': "artifacts d' = update_where ?hit ?bind (artifacts d)"
    using assms(1) ne ps by (auto simp: attachFileArtifacts_def Let_def split: if_splits)
  have m: "map_of ps f = Some k" using fk dist by simp
  have "f \<in> fst ` set ps" using fk by force
  then obtain a where a: "a \<in> set (artifacts d)" "art_id a = f" "attachable bid batch user a"
    using hits_all [OF assms(2) [unfolded artifact_ids_def] dist n] by blast
  have hit: "?hit a" and new: "?bind a = a\<lparr>art_submission := Some k\<rparr>" using a m by simp_all
  have "?bind a \<in> set (artifacts d')" unfolding d' by (rule update_where_hit [where P = ?hit, OF a(1) hit])
  then have "a\<lparr>art_submission := Some k\<rparr> \<in> set (artifacts d')" unfolding new .
  moreover have "x \<in> set (artifacts d')" if "x \<in> set (artifacts d)" "\<not> attachable bid batch user x" for x
    using update_where_miss [OF that(1), of ?hit ?bind] that(2) by (simp only: d') simp
  moreover have "length (artifacts d') = length (artifacts d)" by (simp only: d' length_update_where)
  ultimately show ?thesis using a by blast
qed

text \<open>What is bound stays bound to the same submission, whatever submits follow.\<close>

lemma bound_artifact_stays:
  assumes "attachFileArtifacts parse rows fs bid batch user d = Some (d', n)"
    and "a \<in> set (artifacts d)" and "art_submission a = Some k"
  shows "a \<in> set (artifacts d')"
  using assms
  by (auto simp: attachFileArtifacts_def Let_def set_update_where image_iff attachable_def split: if_splits option.splits)

lemma attach_frame:
  "attachFileArtifacts parse rows fs bid batch user d = Some (d', n)
   \<Longrightarrow> d' = d\<lparr>artifacts := artifacts d'\<rparr>"
  by (auto simp: attachFileArtifacts_def Let_def split: if_splits option.splits)

definition demo_artifact :: artifact_row where
  "demo_artifact = \<lparr>art_id = ''f1'', art_kind = AK_submission_attachment, art_status = AS_ready, art_owner = Some ''u'',
     art_bounty = Some ''b'', art_batch = None, art_submission = None\<rparr>"

lemma attachments_all_or_nothing_witness:
  "demo_artifact\<lparr>art_submission := Some ''s1''\<rparr> \<in> set (artifacts (fst (the (attachFileArtifacts (\<lambda>x. None)
       [(''s1'', JObj [(''log'', JStr ''f1'')])] [JObj [(''key'', JStr ''log''), (''role'', JStr ''file'')]] ''b'' None ''u''
       (db0\<lparr>artifacts := [demo_artifact]\<rparr>)))))"
  (is "?a \<in> set (artifacts (fst (the ?r)))")
proof -
  have "?r = Some (the ?r)"
    by (simp add: attachFileArtifacts_def fileArtifactIdsFromPayload_def field_artifacts_def js_unique_def js_trim_def is_ws_def
        attachable_def demo_artifact_def Let_def)
  then obtain d' n where r: "?r = Some (d', n)" by (metis surj_pair)
  from attachments_all_or_nothing [OF r, of "''s1''" "JObj [(''log'', JStr ''f1'')]" "''f1''"]
  have "?a \<in> set (artifacts d')"
    by (simp add: artifact_ids_def fileArtifactIdsFromPayload_def field_artifacts_def js_trim_def is_ws_def)
  then show ?thesis using r by simp
qed

end
