(* ===== verification/Karma_Ledger.thy ===== *)
theory Karma_Ledger
  imports Job_Queue Notifications
begin

text \<open>
  The karma ledger (\<open>services/karma.ts\<close>): an append-only event log, unique per user, event type
  and source, and the denormalised balance on the user row. An award writes the event, moves the
  balance, emits \<open>karma.awarded\<close> and queues a rank check; a reversal appends the opposite event.
  A database error aborts the transaction and is the left value of the result.
\<close>

section \<open>Operations\<close>

datatype karma_error = Karma_user_missing | Karma_event_exists

record award_params =
  ap_user :: ident
  ap_type :: karma_event_type
  ap_amount :: int
  ap_source_type :: string
  ap_source_id :: string

type_synonym karma_key = "ident \<times> karma_event_type \<times> string \<times> string"

definition event_key :: "karma_event_row \<Rightarrow> karma_key" where
  "event_key k = (ke_user k, ke_type k, ke_source_type k, ke_source_id k)"

definition award_key :: "award_params \<Rightarrow> karma_key" where
  "award_key p = (ap_user p, ap_type p, ap_source_type p, ap_source_id p)"

definition event_by :: "karma_key \<Rightarrow> db \<Rightarrow> karma_event_row option" where
  "event_by k d = find_where (\<lambda>r. event_key r = k) (kevents d)"

definition new_event :: "env \<Rightarrow> award_params \<Rightarrow> db \<Rightarrow> karma_event_row" where
  "new_event e p d =
     \<lparr>ke_id = fresh e d, ke_user = ap_user p, ke_type = ap_type p, ke_amount = ap_amount p,
      ke_source_type = ap_source_type p, ke_source_id = ap_source_id p, ke_at = e_now e\<rparr>"

definition post_event :: "env \<Rightarrow> award_params \<Rightarrow> db \<Rightarrow> db" where
  "post_event e p d =
     d\<lparr>kevents := kevents d @ [new_event e p d],
       users := update_where (\<lambda>u. u_id u = ap_user p) (\<lambda>u. u\<lparr>u_karma := u_karma u + ap_amount p\<rparr>) (users d),
       db_seq := Suc (db_seq d)\<rparr>"

definition COALESCE_WINDOW_MS :: time where
  "COALESCE_WINDOW_MS = 60000"

definition enqueueLeaderboardRankCheck :: "env \<Rightarrow> ident \<Rightarrow> db \<Rightarrow> db" where
  "enqueueLeaderboardRankCheck e userId d =
     (let bucket = e_now e div COALESCE_WINDOW_MS
      in fst (enqueue e
           \<lparr>jq_type = ''leaderboard.rank_check'',
            jq_key = ''leaderboard.rank_check:'' @ userId @ '':'' @ show_int bucket,
            jq_payload = JObj [(''userId'', JStr userId)], jq_max = Some 2,
            jq_workspace = Some (workspaceKeyForUser userId),
            jq_run_after = Some (e_now e + COALESCE_WINDOW_MS)\<rparr> d))"

record award_result =
  ar_id :: ident
  ar_amount :: int
  ar_total :: int

text \<open>The two outbox writes of an award, in the caller's transaction.\<close>

definition announce_award :: "env \<Rightarrow> award_params \<Rightarrow> ident \<Rightarrow> db \<Rightarrow> db" where
  "announce_award e p event d =
     enqueueLeaderboardRankCheck e (ap_user p)
       (notifyEvent e ''karma.awarded''
          \<lparr>em_user = ap_user p, em_entity = Some event,
           em_suffix = Some (ap_source_type p @ '':'' @ ap_source_id p), em_bounty = None\<rparr> d)"

definition awardKarma :: "env \<Rightarrow> award_params \<Rightarrow> db \<Rightarrow> karma_error + (db \<times> award_result option)" where
  "awardKarma e p d =
     (case event_by (award_key p) d of
        Some existing \<Rightarrow> Inr (d, None)
      | None \<Rightarrow>
          (case user_by (ap_user p) d of
             None \<Rightarrow> Inl Karma_user_missing
           | Some u \<Rightarrow>
               Inr (announce_award e p (fresh e d) (post_event e p d),
                    Some \<lparr>ar_id = fresh e d, ar_amount = ap_amount p, ar_total = u_karma u + ap_amount p\<rparr>)))"

definition reverseAcceptedSubmissionKarma ::
  "env \<Rightarrow> ident \<Rightarrow> string \<Rightarrow> string \<Rightarrow> db \<Rightarrow> karma_error + (db \<times> bool)" where
  "reverseAcceptedSubmissionKarma e user st si d =
     (case event_by (user, K_item_accepted, st, si) d of
        None \<Rightarrow> Inr (d, False)
      | Some original \<Rightarrow>
          (let p = \<lparr>ap_user = user, ap_type = K_item_reversed, ap_amount = - ke_amount original,
                    ap_source_type = st, ap_source_id = si\<rparr>
           in if event_by (award_key p) d \<noteq> None then Inl Karma_event_exists
              else if user_by user d = None then Inl Karma_user_missing
              else Inr (post_event e p d, True)))"

text \<open>\<open>getKarmaBreakdown\<close>: the balance, its live tier, and the events grouped by type.\<close>

definition events_of :: "ident \<Rightarrow> db \<Rightarrow> karma_event_row list" where
  "events_of user d = filter (\<lambda>k. ke_user k = user) (kevents d)"

definition all_event_types :: "karma_event_type list" where
  "all_event_types = [K_item_accepted, K_item_reversed, K_audit_completed, K_request_approved,
     K_bounty_published, K_flag_confirmed, K_publish_bonus, K_admin_adjustment]"

definition breakdown_entry :: "karma_event_row list \<Rightarrow> karma_event_type \<Rightarrow> int \<times> nat" where
  "breakdown_entry evs t =
     (let g = filter (\<lambda>k. ke_type k = t) evs in (sum_list (map ke_amount g), length g))"

record karma_breakdown =
  kb_total :: int
  kb_tier :: karma_tier
  kb_next :: "karma_tier option"
  kb_progress :: real
  kb_rank :: "int option"
  kb_by_type :: "(karma_event_type \<times> int \<times> nat) list"

definition getKarmaBreakdown :: "env \<Rightarrow> ident \<Rightarrow> db \<Rightarrow> karma_breakdown option" where
  "getKarmaBreakdown e user d =
     (case user_by user d of
        None \<Rightarrow> None
      | Some u \<Rightarrow>
          (case resolveKarmaTier (e_setting e ''karma.tiers'') (u_karma u) of
             (cur, nxt, prog) \<Rightarrow>
               Some \<lparr>kb_total = u_karma u, kb_tier = cur, kb_next = nxt, kb_progress = prog, kb_rank = u_rank u,
                     kb_by_type = map (\<lambda>t. (t, breakdown_entry (events_of user d) t))
                       (filter (\<lambda>t. t \<in> ke_type ` set (events_of user d)) all_event_types)\<rparr>))"

text \<open>\<open>getKarmaHistory\<close>: newest first; rows are stored in creation order.\<close>

definition getKarmaHistory ::
  "ident \<Rightarrow> nat option \<Rightarrow> nat option \<Rightarrow> db \<Rightarrow> karma_event_row list \<times> nat \<times> nat \<times> nat" where
  "getKarmaHistory user limit offset d =
     (let tk = min (or_else limit 50) 100; skip = or_else offset 0
      in (take tk (drop skip (rev (events_of user d))), length (events_of user d), tk, skip))"

section \<open>The ledger as a balance sheet\<close>

definition ledger_sum :: "ident \<Rightarrow> db \<Rightarrow> int" where
  "ledger_sum user d = sum_list (map ke_amount (events_of user d))"

definition ledger_ok :: "db \<Rightarrow> bool" where
  "ledger_ok d \<longleftrightarrow> distinct (map event_key (kevents d)) \<and> distinct (map u_id (users d))
     \<and> (\<forall>u \<in> set (users d). u_karma u = ledger_sum (u_id u) d)"

lemma event_by_None: "event_by k d = None \<longleftrightarrow> k \<notin> event_key ` set (kevents d)"
  by (auto simp: event_by_def find_where_None_iff)

lemma new_event_simps [simp]:
  "event_key (new_event e p d) = award_key p" "ke_amount (new_event e p d) = ap_amount p"
  "ke_user (new_event e p d) = ap_user p" "ke_type (new_event e p d) = ap_type p"
  by (simp_all add: event_key_def new_event_def award_key_def)

lemma post_event_sum:
  "ledger_sum v (post_event e p d) = ledger_sum v d + (if v = ap_user p then ap_amount p else 0)"
  by (simp add: ledger_sum_def events_of_def post_event_def)

lemma post_event_ledger:
  assumes "ledger_ok d" and "event_by (award_key p) d = None"
  shows "ledger_ok (post_event e p d)"
proof -
  have "distinct (map event_key (kevents (post_event e p d)))"
    using assms by (simp add: ledger_ok_def post_event_def event_by_None)
  moreover have "distinct (map u_id (users (post_event e p d)))"
    using assms(1) by (simp add: ledger_ok_def post_event_def map_update_where)
  moreover have "\<forall>u \<in> set (users (post_event e p d)). u_karma u = ledger_sum (u_id u) (post_event e p d)"
    using assms(1) unfolding post_event_sum
    by (auto simp: ledger_ok_def post_event_def set_update_where)
  ultimately show ?thesis by (simp add: ledger_ok_def)
qed

text \<open>The outbox writes of an award leave every business table alone.\<close>

lemma announce_frame [simp]:
  "users (announce_award e p i d) = users d" "bounties (announce_award e p i d) = bounties d"
  "submissions (announce_award e p i d) = submissions d" "vresults (announce_award e p i d) = vresults d"
  "revisions (announce_award e p i d) = revisions d" "flags (announce_award e p i d) = flags d"
  "disputes (announce_award e p i d) = disputes d" "windows (announce_award e p i d) = windows d"
  "members (announce_award e p i d) = members d" "abatches (announce_award e p i d) = abatches d"
  "aitems (announce_award e p i d) = aitems d" "kevents (announce_award e p i d) = kevents d"
  "awards (announce_award e p i d) = awards d" "roles (announce_award e p i d) = roles d" "ranks (announce_award e p i d) = ranks d"
  by (simp_all add: announce_award_def enqueueLeaderboardRankCheck_def Let_def)

lemmas ledger_frame =
  ledger_ok_def ledger_sum_def events_of_def

lemma ledger_ok_cong: "kevents d' = kevents d \<Longrightarrow> users d' = users d \<Longrightarrow> ledger_ok d' = ledger_ok d"
  by (simp add: ledger_frame)

text \<open>What an award does to the two tables of the ledger.\<close>

lemma awardKarma_tables:
  assumes "awardKarma e p d = Inr (d', Some r)"
  shows "kevents d' = kevents (post_event e p d) \<and> users d' = users (post_event e p d)
    \<and> event_by (award_key p) d = None \<and> user_by (ap_user p) d \<noteq> None"
  using assms
  by (auto simp: awardKarma_def split: option.splits)

lemma awardKarma_None: "awardKarma e p d = Inr (d', None) \<Longrightarrow> d' = d \<and> event_by (award_key p) d \<noteq> None"
  by (auto simp: awardKarma_def split: option.splits)

lemma awardKarma_ledger: "awardKarma e p d = Inr (d', r) \<Longrightarrow> ledger_ok d \<Longrightarrow> ledger_ok d'"
proof (cases r)
  case None
  assume "awardKarma e p d = Inr (d', r)" "ledger_ok d"
  with None show ?thesis using awardKarma_None by blast
next
  case (Some x)
  assume a: "awardKarma e p d = Inr (d', r)" "ledger_ok d"
  then have "ledger_ok (post_event e p d)"
    using awardKarma_tables [of e p d d' x] Some by (auto intro: post_event_ledger)
  then show ?thesis
    using a Some awardKarma_tables [of e p d d' x] ledger_ok_cong [of d' "post_event e p d"] by simp
qed

lemma reverse_tables:
  assumes "reverseAcceptedSubmissionKarma e u st si d = Inr (d', True)"
  shows "\<exists>k. event_by (u, K_item_accepted, st, si) d = Some k
    \<and> event_by (u, K_item_reversed, st, si) d = None
    \<and> d' = post_event e \<lparr>ap_user = u, ap_type = K_item_reversed, ap_amount = - ke_amount k,
                         ap_source_type = st, ap_source_id = si\<rparr> d"
  using assms
  by (auto simp: reverseAcceptedSubmissionKarma_def Let_def award_key_def split: option.splits if_splits)

lemma reverse_ledger:
  assumes "reverseAcceptedSubmissionKarma e u st si d = Inr (d', b)" and "ledger_ok d"
  shows "ledger_ok d'"
proof (cases b)
  case False
  then have "d' = d"
    using assms(1) by (auto simp: reverseAcceptedSubmissionKarma_def Let_def split: option.splits if_splits)
  with assms(2) show ?thesis by simp
next
  case True
  with assms reverse_tables [of e u st si d d'] show ?thesis
    by (auto simp: award_key_def intro!: post_event_ledger)
qed

text \<open>The ledger's steps, over any interleaving of awards and reversals.\<close>

inductive ledger_step :: "db \<Rightarrow> db \<Rightarrow> bool" where
  ledger_award: "awardKarma e p d = Inr (d', r) \<Longrightarrow> ledger_step d d'"
| ledger_reverse: "reverseAcceptedSubmissionKarma e u st si d = Inr (d', b) \<Longrightarrow> ledger_step d d'"

inductive_cases ledger_stepE: "ledger_step d d'"

lemma ledger_step_ok: "ledger_step d d' \<Longrightarrow> ledger_ok d \<Longrightarrow> ledger_ok d'"
  by (erule ledger_stepE) (auto intro: awardKarma_ledger reverse_ledger)

lemma event_persists: "ledger_step d d' \<Longrightarrow> set (kevents d) \<subseteq> set (kevents d')"
proof (erule ledger_stepE)
  fix e p r assume "awardKarma e p d = Inr (d', r)"
  then show ?thesis
    using awardKarma_tables [of e p d d'] awardKarma_None [of e p d d'] by (cases r) (auto simp: post_event_def)
next
  fix e u st si b assume "reverseAcceptedSubmissionKarma e u st si d = Inr (d', b)"
  then show ?thesis
    by (auto simp: reverseAcceptedSubmissionKarma_def Let_def post_event_def split: option.splits if_splits)
qed

section \<open>Awards as an idempotent sink\<close>

text \<open>A caller that retries a batch of awards; a failed award leaves the database as it was.\<close>

definition put_award :: "env \<times> award_params \<Rightarrow> db \<Rightarrow> db" where
  "put_award ep d = (case awardKarma (fst ep) (snd ep) d of Inl _ \<Rightarrow> d | Inr (d', _) \<Rightarrow> d')"

definition awarded :: "db \<Rightarrow> env \<times> award_params \<Rightarrow> bool" where
  "awarded d ep \<longleftrightarrow> event_by (award_key (snd ep)) d \<noteq> None \<or> user_by (ap_user (snd ep)) d = None"

lemma user_by_karma:
  "user_by k (d\<lparr>users := update_where P (\<lambda>u. u\<lparr>u_karma := f u\<rparr>) (users d)\<rparr>) = None \<longleftrightarrow> user_by k d = None"
  by (simp add: user_by_def find_where_update_where)

lemma user_by_post [simp]: "user_by k (post_event e p d) = None \<longleftrightarrow> user_by k d = None"
  by (simp add: user_by_def post_event_def find_where_update_where)

lemma event_by_post: "event_by k d \<noteq> None \<Longrightarrow> event_by k (post_event e p d) \<noteq> None"
  by (auto simp: event_by_None post_event_def)

lemma event_by_posted: "event_by (award_key p) (post_event e p d) \<noteq> None"
  by (simp add: event_by_None post_event_def)

lemma by_announce [simp]:
  "event_by k (announce_award e p i d) = event_by k d" "user_by u (announce_award e p i d) = user_by u d"
  by (simp_all add: event_by_def user_by_def)

interpretation awards: idempotent_sink put_award awarded
proof unfold_locales
  show "awarded (put_award p s) p" for p s
    using event_by_posted [of "snd p" "fst p" s]
    by (auto simp: awarded_def put_award_def awardKarma_def split: option.splits)
  show "awarded s p \<Longrightarrow> put_award p s = s" for s p
    by (auto simp: awarded_def put_award_def awardKarma_def split: option.splits)
  show "awarded s q \<Longrightarrow> awarded (put_award p s) q" for s q p
    using event_by_post [of "award_key (snd q)" s "fst p" "snd p"]
    by (auto simp: awarded_def put_award_def awardKarma_def split: option.splits)
qed

lemma event_by_step: "ledger_step d d' \<Longrightarrow> event_by k d \<noteq> None \<Longrightarrow> event_by k d' \<noteq> None"
  by (metis event_by_None event_persists image_mono subsetD)

lemma event_by_steps: "ledger_step\<^sup>*\<^sup>* d d' \<Longrightarrow> event_by k d \<noteq> None \<Longrightarrow> event_by k d' \<noteq> None"
proof (induction rule: rtranclp_induct)
  case (step y z)
  show ?case by (rule event_by_step [OF step.hyps(2)]) (rule step.IH [OF step.prems])
qed

lemma breakdown_sum:
  "sum_list (map (\<lambda>t. fst (breakdown_entry evs t)) all_event_types) = sum_list (map ke_amount evs)"
proof (induction evs)
  case Nil
  then show ?case by (simp add: all_event_types_def breakdown_entry_def)
next
  case (Cons k ks)
  then show ?case
    by (cases "ke_type k") (simp_all add: all_event_types_def breakdown_entry_def Let_def)
qed

lemma breakdown_by_type:
  assumes "getKarmaBreakdown e user d = Some b"
  shows "sum_list (map (fst \<circ> snd) (kb_by_type b)) = ledger_sum user d"
proof -
  have z: "fst (breakdown_entry evs t) = 0" if "t \<notin> ke_type ` set evs" for evs t
  proof -
    have "filter (\<lambda>k. ke_type k = t) evs = []" using that by (auto simp: filter_empty_conv)
    then show ?thesis by (simp add: breakdown_entry_def)
  qed
  show ?thesis
    using assms
    by (auto simp: getKarmaBreakdown_def comp_def ledger_sum_def breakdown_sum [symmetric] z
        sum_list_map_filter split: option.splits prod.splits)
qed

section \<open>Properties\<close>

definition demo_award :: award_params where
  "demo_award = \<lparr>ap_user = ''u'', ap_type = K_item_accepted, ap_amount = 25,
     ap_source_type = ''submission'', ap_source_id = ''s1''\<rparr>"

definition demo_ledger :: db where
  "demo_ledger = db0\<lparr>users := [user0 ''u'', user0 ''v'']\<rparr>"

lemma demo_ledger_ok: "ledger_ok demo_ledger"
  by (simp add: ledger_ok_def demo_ledger_def db0_def user0_def ledger_sum_def events_of_def)

definition demo_paid :: db where
  "demo_paid = put_award (env0 1, demo_award) demo_ledger"

lemma demo_step: "ledger_step\<^sup>*\<^sup>* demo_ledger demo_paid"
proof -
  obtain d' r where "awardKarma (env0 1) demo_award demo_ledger = Inr (d', r)" "demo_paid = d'"
    by (auto simp: demo_paid_def put_award_def awardKarma_def event_by_def demo_ledger_def db0_def
        user_by_def demo_award_def user0_def)
  then show ?thesis by (auto intro: ledger_award)
qed

text \<open>C1: the balance is the ledger. However awards and reversals interleave, every member's
  balance equals the sum of the member's karma events and no event is recorded twice; the
  breakdown shown to the member adds up to that balance.\<close>

theorem balance_is_ledger:
  assumes "ledger_step\<^sup>*\<^sup>* d d'" and "ledger_ok d"
  shows "ledger_ok d' \<and> (\<forall>e user b. getKarmaBreakdown e user d' = Some b \<longrightarrow>
           sum_list (map (fst \<circ> snd) (kb_by_type b)) = kb_total b)"
proof -
  have ok: "ledger_ok d'" using assms by (induction rule: rtranclp_induct) (auto intro: ledger_step_ok)
  moreover have "sum_list (map (fst \<circ> snd) (kb_by_type b)) = kb_total b"
    if b: "getKarmaBreakdown e user d' = Some b" for e user b
  proof -
    obtain u where u: "user_by user d' = Some u" "kb_total b = u_karma u"
      using b by (auto simp: getKarmaBreakdown_def split: option.splits prod.splits)
    then have "u \<in> set (users d')" "u_id u = user"
      by (auto simp: user_by_def dest: find_where_Some)
    then show ?thesis
      using breakdown_by_type [OF b] ok u(2) by (auto simp: ledger_ok_def)
  qed
  ultimately show ?thesis by blast
qed

theorem balance_is_ledger_witness: "ledger_ok demo_paid"
  using balance_is_ledger [OF demo_step demo_ledger_ok] by blast

text \<open>an award is paid at most once. After an award was posted, and whatever happens to the
  ledger in between, a later award with the same user, event type and source posts no event, moves
  no balance, emits nothing and queues nothing, whatever its amount.\<close>

lemma award_paid_once:
  assumes "awardKarma e p d = Inr (d1, Some r)" and "ledger_step\<^sup>*\<^sup>* d1 d2" and "award_key q = award_key p"
  shows "awardKarma e' q d2 = Inr (d2, None)"
proof -
  have "event_by (award_key p) d1 \<noteq> None"
    using awardKarma_tables [OF assms(1)] event_by_posted [of p e d]
    by (simp add: event_by_def)
  then have "event_by (award_key q) d2 \<noteq> None"
    using event_by_steps [OF assms(2)] assms(3) by simp
  then show ?thesis by (auto simp: awardKarma_def)
qed

lemma award_paid_once_witness:
  "awardKarma (env0 9) (demo_award\<lparr>ap_amount := 1000\<rparr>) demo_paid = Inr (demo_paid, None)"
proof -
  obtain r where r: "awardKarma (env0 1) demo_award demo_ledger = Inr (demo_paid, Some r)"
    by (auto simp: demo_paid_def put_award_def awardKarma_def event_by_def demo_ledger_def db0_def
        user_by_def demo_award_def user0_def)
  show ?thesis by (rule award_paid_once [OF r]) (simp_all add: award_key_def)
qed

text \<open>a reversal takes back exactly what was paid, once. After an accepted item's award and
  its reversal the balance is what it was; a second reversal is refused by the unique key; and the
  award key stays used, so an item that is accepted again later is not paid again.\<close>

lemma reversal_nets_zero:
  assumes "awardKarma e p d = Inr (d1, Some r)" and "ap_type p = K_item_accepted"
    and "reverseAcceptedSubmissionKarma e' (ap_user p) (ap_source_type p) (ap_source_id p) d1 = Inr (d2, True)"
  shows "(\<forall>user. ledger_sum user d2 = ledger_sum user d)
    \<and> reverseAcceptedSubmissionKarma e'' (ap_user p) (ap_source_type p) (ap_source_id p) d2 = Inl Karma_event_exists
    \<and> awardKarma e'' p d2 = Inr (d2, None)"
proof -
  have k1: "kevents d1 = kevents d @ [new_event e p d]" and fresh: "event_by (award_key p) d = None"
    using awardKarma_tables [OF assms(1)] by (auto simp: post_event_def)
  have key: "(ap_user p, K_item_accepted, ap_source_type p, ap_source_id p) = award_key p"
    using assms(2) by (simp add: award_key_def)
  have ev1: "event_by (award_key p) d1 = Some (new_event e p d)"
    using fresh by (simp add: event_by_def k1 find_where_append)
  let ?q = "\<lparr>ap_user = ap_user p, ap_type = K_item_reversed, ap_amount = - ap_amount p,
             ap_source_type = ap_source_type p, ap_source_id = ap_source_id p\<rparr>"
  have d2: "d2 = post_event e' ?q d1"
    using reverse_tables [OF assms(3)] ev1 key by auto
  have sums: "ledger_sum user d1 = ledger_sum user d + (if user = ap_user p then ap_amount p else 0)" for user
    by (simp add: ledger_sum_def events_of_def k1)
  have acc: "event_by (award_key p) d2 \<noteq> None" and rev: "event_by (award_key ?q) d2 \<noteq> None"
    using event_by_post [of "award_key p" d1 e' ?q] event_by_posted [of ?q e' d1] ev1 by (simp_all add: d2)
  have "ledger_sum user d2 = ledger_sum user d" for user
    by (simp add: d2 post_event_sum sums)
  moreover have "reverseAcceptedSubmissionKarma e'' (ap_user p) (ap_source_type p) (ap_source_id p) d2
      = Inl Karma_event_exists"
    using acc rev by (auto simp: reverseAcceptedSubmissionKarma_def key Let_def) (auto simp: award_key_def)
  moreover have "awardKarma e'' p d2 = Inr (d2, None)"
    using acc by (auto simp: awardKarma_def)
  ultimately show ?thesis by blast
qed

lemma reversal_nets_zero_witness:
  "\<exists>d2. reverseAcceptedSubmissionKarma (env0 2) ''u'' ''submission'' ''s1'' demo_paid = Inr (d2, True)
      \<and> ledger_sum ''u'' d2 = 0 \<and> awardKarma (env0 3) demo_award d2 = Inr (d2, None)"
proof -
  obtain r where r: "awardKarma (env0 1) demo_award demo_ledger = Inr (demo_paid, Some r)"
    by (auto simp: demo_paid_def put_award_def awardKarma_def event_by_def demo_ledger_def db0_def
        user_by_def demo_award_def user0_def)
  have k: "kevents demo_paid = [new_event (env0 1) demo_award demo_ledger]"
    using awardKarma_tables [OF r] by (simp add: post_event_def demo_ledger_def db0_def)
  have u: "user_by ''u'' demo_paid \<noteq> None"
    using awardKarma_tables [OF r]
    by (simp add: user_by_def post_event_def find_where_update_where demo_ledger_def user0_def)
  obtain d2 where d2: "reverseAcceptedSubmissionKarma (env0 2) ''u'' ''submission'' ''s1'' demo_paid = Inr (d2, True)"
    using u by (auto simp: reverseAcceptedSubmissionKarma_def event_by_def k award_key_def demo_award_def)
  have "ledger_sum ''u'' d2 = ledger_sum ''u'' demo_ledger \<and> awardKarma (env0 3) demo_award d2 = Inr (d2, None)"
    using reversal_nets_zero [OF r, of "env0 2" d2 "env0 3"] d2 by (simp add: demo_award_def)
  then show ?thesis
    using d2 by (auto simp: ledger_sum_def events_of_def demo_ledger_def db0_def)
qed

text \<open>retrying a batch of awards, or any part of it, pays nothing more.\<close>

lemma retried_awards_pay_nothing:
  assumes "set qs \<subseteq> set ps"
  shows "fold (\<lambda>p. put_award (e, p)) qs (fold (\<lambda>p. put_award (e, p)) ps d) = fold (\<lambda>p. put_award (e, p)) ps d"
  using awards.replay_noop [of "map (Pair e) qs" "map (Pair e) ps" d] assms
  by (simp add: fold_map comp_def image_mono)

lemma retried_awards_pay_nothing_witness:
  "fold (\<lambda>p. put_award (env0 1, p)) [demo_award] (fold (\<lambda>p. put_award (env0 1, p)) [demo_award, demo_award] demo_ledger)
     = fold (\<lambda>p. put_award (env0 1, p)) [demo_award, demo_award] demo_ledger"
  by (rule retried_awards_pay_nothing) simp

end
