(* ===== verification/Karma_Holds.thy ===== *)
theory Karma_Holds
  imports Karma_Ledger
begin

text \<open>
  \<open>services/karma-holds.ts\<close>: awards frozen until the dispute window of their item is over. A hold
  is queued at acceptance, released by a sweep that claims the row before it pays, or cancelled by
  an upheld dispute; a released award is reversed by an opposite event. Rows are never deleted.
\<close>

section \<open>Operations\<close>

datatype hold_error = Hold_amount | Hold_reference | Hold_karma karma_error

definition isSubmissionSource :: "string \<Rightarrow> bool" where
  "isSubmissionSource sourceType \<longleftrightarrow> js_lower sourceType = ''submission''"

definition karmaHoldsEnabled :: "env \<Rightarrow> bool" where
  "karmaHoldsEnabled e = (case e_setting e ''community.karma_holds.enabled'' of Some (JBool b) \<Rightarrow> b | _ \<Rightarrow> True)"

definition DEFAULT_COMMUNITY_DISPUTE_WINDOW_HOURS :: real where
  "DEFAULT_COMMUNITY_DISPUTE_WINDOW_HOURS = 48"

definition defaultDisputeWindowHours :: "env \<Rightarrow> real" where
  "defaultDisputeWindowHours e =
     (case e_setting e ''community.dispute_window_hours'' of
        Some (JNum x) \<Rightarrow> if x \<ge> 0 then x else DEFAULT_COMMUNITY_DISPUTE_WINDOW_HOURS
      | _ \<Rightarrow> DEFAULT_COMMUNITY_DISPUTE_WINDOW_HOURS)"

definition hold_key :: "pending_award_row \<Rightarrow> karma_key" where
  "hold_key a = (pa_user a, pa_type a, pa_source_type a, pa_source_id a)"

definition new_hold :: "env \<Rightarrow> ident \<Rightarrow> award_params \<Rightarrow> db \<Rightarrow> pending_award_row" where
  "new_hold e bounty p d =
     \<lparr>pa_id = fresh e d, pa_bounty = bounty, pa_user = ap_user p, pa_type = ap_type p, pa_amount = ap_amount p,
      pa_source_type = ap_source_type p, pa_source_id = ap_source_id p, pa_at = e_now e,
      pa_released = None, pa_reversed = None, pa_reason = None\<rparr>"

text \<open>A conflicting row is skipped before the foreign keys are looked at.\<close>

definition queuePendingKarmaAward :: "env \<Rightarrow> ident \<Rightarrow> award_params \<Rightarrow> db \<Rightarrow> hold_error + (db \<times> bool)" where
  "queuePendingKarmaAward e bounty p d =
     (if ap_amount p \<le> 0 then Inl Hold_amount
      else (case insert_unique hold_key (new_hold e bounty p d) (awards d) of
              (aw, False) \<Rightarrow> Inr (d, False)
            | (aw, True) \<Rightarrow>
                (if user_by (ap_user p) d = None \<or> bounty_by bounty d = None then Inl Hold_reference
                 else Inr (d\<lparr>awards := aw, db_seq := Suc (db_seq d)\<rparr>, True))))"

record hold_outcome =
  ho_held :: bool
  ho_written :: bool

definition awardOrHoldAcceptedItemKarma ::
  "env \<Rightarrow> bool option \<Rightarrow> ident \<Rightarrow> award_params \<Rightarrow> db \<Rightarrow> hold_error + (db \<times> hold_outcome)" where
  "awardOrHoldAcceptedItemKarma e given bounty p d =
     (if \<not> or_else given (karmaHoldsEnabled e)
      then (case awardKarma e p d of
              Inl err \<Rightarrow> Inl (Hold_karma err)
            | Inr (d', r) \<Rightarrow> Inr (d', \<lparr>ho_held = False, ho_written = (r \<noteq> None)\<rparr>))
      else (case queuePendingKarmaAward e bounty p d of
              Inl err \<Rightarrow> Inl err
            | Inr (d', w) \<Rightarrow> Inr (d', \<lparr>ho_held = True, ho_written = w\<rparr>)))"

definition hold_of :: "ident \<Rightarrow> string \<Rightarrow> string \<Rightarrow> pending_award_row \<Rightarrow> bool" where
  "hold_of user st si a \<longleftrightarrow> pa_user a = user \<and> pa_source_type a = st \<and> pa_source_id a = si"

definition open_hold :: "pending_award_row \<Rightarrow> bool" where
  "open_hold a \<longleftrightarrow> pa_released a = None \<and> pa_reversed a = None"

definition cancel_row :: "time \<Rightarrow> string \<Rightarrow> pending_award_row \<Rightarrow> pending_award_row" where
  "cancel_row t reason a = a\<lparr>pa_reversed := Some t, pa_reason := Some reason\<rparr>"

definition reverseUnreleasedPendingKarmaAward ::
  "env \<Rightarrow> ident \<Rightarrow> string \<Rightarrow> string \<Rightarrow> string option \<Rightarrow> db \<Rightarrow> db \<times> bool" where
  "reverseUnreleasedPendingKarmaAward e user st si reason d =
     (case update_many (\<lambda>a. hold_of user st si a \<and> open_hold a)
             (cancel_row (e_now e) (or_else reason ''dispute_upheld'')) (awards d) of
        (aw, n) \<Rightarrow> (d\<lparr>awards := aw\<rparr>, n > 0))"

datatype reversal_state = RS_released | RS_held | RS_none

definition reverseAcceptedItemKarma ::
  "env \<Rightarrow> ident \<Rightarrow> string \<Rightarrow> string \<Rightarrow> string option \<Rightarrow> db \<Rightarrow> hold_error + (db \<times> bool \<times> reversal_state)" where
  "reverseAcceptedItemKarma e user st si reason d =
     (case event_by (user, K_item_accepted, st, si) d of
        Some released \<Rightarrow>
          (let p = \<lparr>ap_user = user, ap_type = K_item_reversed, ap_amount = - ke_amount released,
                    ap_source_type = st, ap_source_id = si\<rparr>;
               isnew = event_by (award_key p) d = None;
               d1 = (if isnew then post_event e p d else d)
           in if isnew \<and> user_by user d = None then Inl Hold_reference
              else Inr (d1\<lparr>awards := update_where (\<lambda>a. hold_of user st si a \<and> pa_reversed a = None)
                                      (cancel_row (e_now e) (or_else reason ''dispute_upheld'')) (awards d1)\<rparr>,
                        isnew, RS_released))
      | None \<Rightarrow>
          (case reverseUnreleasedPendingKarmaAward e user st si reason d of
             (d', cancelled) \<Rightarrow> Inr (d', cancelled, if cancelled then RS_held else RS_none)))"

text \<open>
  \<open>new Date(ms)\<close>: out of range is an invalid date, whose time is \<open>NaN\<close>; otherwise the value is
  truncated to whole milliseconds.
\<close>

definition js_date :: "real \<Rightarrow> time option" where
  "js_date x = (if \<bar>x\<bar> > 8640000000000000 then None else Some (if x \<ge> 0 then \<lfloor>x\<rfloor> else \<lceil>x\<rceil>))"

definition hold_anchor :: "pending_award_row \<Rightarrow> bounty_row \<Rightarrow> time option \<Rightarrow> time" where
  "hold_anchor a b acceptedAt =
     (let itemAnchor = or_else (if isSubmissionSource (pa_source_type a) then acceptedAt else None) (pa_at a)
      in case b_cycle_opens b of Some c \<Rightarrow> if c > itemAnchor then c else itemAnchor | None \<Rightarrow> itemAnchor)"

definition holdReleasesAt :: "pending_award_row \<Rightarrow> bounty_row \<Rightarrow> time option \<Rightarrow> real \<Rightarrow> time option" where
  "holdReleasesAt a b acceptedAt defaultHours =
     js_date (real_of_int (hold_anchor a b acceptedAt)
              + or_else (map_option real_of_int (b_dispute_hours b)) defaultHours * 3600000)"

text \<open>The acceptance time the sweep looks up for a candidate.\<close>

definition accepted_at_of :: "pending_award_row \<Rightarrow> db \<Rightarrow> time option" where
  "accepted_at_of a d = map_option (\<lambda>s. or_else (s_accepted_at s) (s_created s)) (submission_by (pa_source_id a) d)"

definition hold_due :: "time \<Rightarrow> real \<Rightarrow> db \<Rightarrow> pending_award_row \<Rightarrow> bool" where
  "hold_due now defaultHours d a \<longleftrightarrow>
     (case bounty_by (pa_bounty a) d of
        None \<Rightarrow> False
      | Some b \<Rightarrow> (case holdReleasesAt a b (accepted_at_of a d) defaultHours of Some r \<Rightarrow> \<not> r > now | None \<Rightarrow> True))"

definition award_of :: "pending_award_row \<Rightarrow> award_params" where
  "award_of a = \<lparr>ap_user = pa_user a, ap_type = pa_type a, ap_amount = pa_amount a,
                 ap_source_type = pa_source_type a, ap_source_id = pa_source_id a\<rparr>"

text \<open>One transaction of the sweep: claim the row, then pay it.\<close>

definition claim_hold :: "time \<Rightarrow> ident \<Rightarrow> db \<Rightarrow> db \<times> nat" where
  "claim_hold now k d =
     (case update_many (\<lambda>a. pa_id a = k \<and> open_hold a) (\<lambda>a. a\<lparr>pa_released := Some now\<rparr>) (awards d) of
        (aw, n) \<Rightarrow> (d\<lparr>awards := aw\<rparr>, n))"

definition release_one :: "env \<Rightarrow> pending_award_row \<Rightarrow> db \<Rightarrow> karma_error + (db \<times> bool)" where
  "release_one e a d =
     (case claim_hold (e_now e) (pa_id a) d of
        (d1, n) \<Rightarrow> if n \<noteq> 1 then Inr (d, False)
                   else (case awardKarma e (award_of a) d1 of
                           Inl err \<Rightarrow> Inl err
                         | Inr (d2, _) \<Rightarrow> Inr (d2, True)))"

record release_result =
  rr_scanned :: nat
  rr_released :: nat
  rr_karma :: int

fun release_all ::
  "env \<Rightarrow> (pending_award_row \<Rightarrow> bool) \<Rightarrow> pending_award_row list \<Rightarrow> release_result \<Rightarrow> db
     \<Rightarrow> db \<times> (karma_error + release_result)" where
  "release_all e due [] r d = (d, Inr r)"
| "release_all e due (a # as) r d =
     (if \<not> due a then release_all e due as r d
      else (case release_one e a d of
              Inl err \<Rightarrow> (d, Inl err)
            | Inr (d', True) \<Rightarrow> release_all e due as
                (r\<lparr>rr_released := rr_released r + 1, rr_karma := rr_karma r + pa_amount a\<rparr>) d'
            | Inr (d', False) \<Rightarrow> release_all e due as r d'))"

definition hold_candidates :: "nat \<Rightarrow> db \<Rightarrow> pending_award_row list" where
  "hold_candidates limit d = take limit (filter open_hold (awards d))"

definition sweep_limit :: "int option \<Rightarrow> nat" where
  "sweep_limit limit = nat (min (max (or_else limit 200) 1) 1000)"

definition releaseDueKarmaHolds :: "env \<Rightarrow> int option \<Rightarrow> db \<Rightarrow> db \<times> (karma_error + release_result)" where
  "releaseDueKarmaHolds e limit d =
     (let cands = hold_candidates (sweep_limit limit) d
      in release_all e (hold_due (e_now e) (defaultDisputeWindowHours e) d) cands
           \<lparr>rr_scanned = length cands, rr_released = 0, rr_karma = 0\<rparr> d)"

section \<open>Facts\<close>

text \<open>The claim is a compare-and-swap on the hold.\<close>

interpretation hold_claim: cas_column "\<lambda>a. pa_id a = k \<and> open_hold a" "\<lambda>a. a\<lparr>pa_released := Some now\<rparr>" for k now
  by unfold_locales (simp add: open_hold_def)

interpretation hold_cancel: cas_column "\<lambda>a. hold_of u st si a \<and> open_hold a" "cancel_row t reason" for u st si t reason
  by unfold_locales (simp add: open_hold_def cancel_row_def)

lemma claim_hold_frame [simp]:
  "users (fst (claim_hold t k d)) = users d" "kevents (fst (claim_hold t k d)) = kevents d"
  "bounties (fst (claim_hold t k d)) = bounties d" "submissions (fst (claim_hold t k d)) = submissions d"
  by (simp_all add: claim_hold_def update_many_def)

lemma post_event_frame [simp]:
  "awards (post_event e p d) = awards d" "bounties (post_event e p d) = bounties d"
  "submissions (post_event e p d) = submissions d"
  by (simp_all add: post_event_def)

lemma awardKarma_frame:
  "awardKarma e p d = Inr (d', r) \<Longrightarrow> awards d' = awards d \<and> bounties d' = bounties d \<and> submissions d' = submissions d"
  by (auto simp: awardKarma_def split: option.splits)

text \<open>What one release does: nothing, or the claim followed by the award.\<close>

lemma release_oneD:
  assumes "release_one e a d = Inr (d', b)"
  shows "if b then snd (claim_hold (e_now e) (pa_id a) d) = 1
                \<and> (\<exists>r. awardKarma e (award_of a) (fst (claim_hold (e_now e) (pa_id a) d)) = Inr (d', r))
         else d' = d"
  using assms by (auto simp: release_one_def split: prod.splits sum.splits if_splits)

lemma release_one_awards:
  "release_one e a d = Inr (d', b) \<Longrightarrow>
   awards d' = (if b then update_where (\<lambda>x. pa_id x = pa_id a \<and> open_hold x)
                          (\<lambda>x. x\<lparr>pa_released := Some (e_now e)\<rparr>) (awards d) else awards d)"
  using release_oneD [of e a d d' b]
  by (auto simp: claim_hold_def update_many_def dest!: awardKarma_frame split: if_splits)

lemma ledger_ok_claim: "ledger_ok (fst (claim_hold t k d)) = ledger_ok d"
  by (rule ledger_ok_cong) simp_all

lemma release_one_ledger: "release_one e a d = Inr (d', b) \<Longrightarrow> ledger_ok d \<Longrightarrow> ledger_ok d'"
  using release_oneD [of e a d d' b]
  by (cases b) (auto intro: awardKarma_ledger simp: ledger_ok_claim)

text \<open>An induction over the sweep: what every release keeps, the sweep keeps.\<close>

lemma release_all_keeps:
  assumes "I d" and "\<And>a d d' b. a \<in> set as \<Longrightarrow> due a \<Longrightarrow> I d \<Longrightarrow> release_one e a d = Inr (d', b) \<Longrightarrow> I d'"
  shows "I (fst (release_all e due as r d))"
  using assms
proof (induction as arbitrary: r d)
  case Nil
  then show ?case by simp
next
  case (Cons a as)
  have rest: "I d' \<Longrightarrow> I (fst (release_all e due as r' d'))" for d' r'
    by (rule Cons.IH) (use Cons.prems(2) in \<open>auto\<close>)
  have step: "due a \<Longrightarrow> release_one e a d = Inr (d', b) \<Longrightarrow> I d'" for d' b
    using Cons.prems(1) Cons.prems(2) [of a d d' b] by simp
  show ?case
    using Cons.prems(1) rest step by (auto split: sum.splits prod.splits bool.splits)
qed

lemma sweep_keeps:
  assumes "I d"
    and "\<And>a d1 d' b. a \<in> set (awards d) \<Longrightarrow> open_hold a \<Longrightarrow> hold_due (e_now e) (defaultDisputeWindowHours e) d a \<Longrightarrow>
           I d1 \<Longrightarrow> release_one e a d1 = Inr (d', b) \<Longrightarrow> I d'"
  shows "I (fst (releaseDueKarmaHolds e limit d))"
  unfolding releaseDueKarmaHolds_def Let_def
proof (rule release_all_keeps [where I = I])
  fix a d1 d' b
  assume a: "a \<in> set (hold_candidates (sweep_limit limit) d)"
    and rest: "hold_due (e_now e) (defaultDisputeWindowHours e) d a" "I d1" "release_one e a d1 = Inr (d', b)"
  have "a \<in> set (filter open_hold (awards d))"
    using a unfolding hold_candidates_def by (rule in_set_takeD)
  then show "I d'" using assms(2) [of a d1 d' b] rest by simp
qed (rule assms(1))

lemma sweep_ledger: "ledger_ok d \<Longrightarrow> ledger_ok (fst (releaseDueKarmaHolds e limit d))"
  by (rule sweep_keeps [where I = ledger_ok]) (auto intro: release_one_ledger)

lemma update_where_None: "count_where P rs = 0 \<Longrightarrow> update_where P f rs = rs"
  by (rule update_where_id) (auto simp: count_where_0_iff)

text \<open>A hold cancelled for good: no open hold is left for the item and it was never paid.\<close>

definition item_cancelled :: "ident \<Rightarrow> string \<Rightarrow> string \<Rightarrow> db \<Rightarrow> bool" where
  "item_cancelled user st si d \<longleftrightarrow>
     count_where (\<lambda>a. hold_of user st si a \<and> open_hold a) (awards d) = 0
     \<and> event_by (user, K_item_accepted, st, si) d = None"

lemma new_event_award_of [simp]: "award_key (award_of a) = hold_key a"
  by (simp add: award_key_def award_of_def hold_key_def)

lemma awardKarma_events:
  "awardKarma e p d = Inr (d', r) \<Longrightarrow> set (kevents d') \<subseteq> insert (new_event e p d) (set (kevents d))"
  by (auto simp: awardKarma_def post_event_def split: option.splits)

lemma event_by_award:
  "awardKarma e p d = Inr (d', r) \<Longrightarrow> event_by k d = None \<Longrightarrow> k \<noteq> award_key p \<Longrightarrow> event_by k d' = None"
  by (auto dest!: awardKarma_events simp: event_by_None)

lemma open_count_claim:
  "count_where (\<lambda>a. hold_of u st si a \<and> open_hold a) (awards d) = 0 \<Longrightarrow>
   count_where (\<lambda>a. hold_of u st si a \<and> open_hold a)
     (update_where (\<lambda>x. pa_id x = k \<and> open_hold x) (\<lambda>x. x\<lparr>pa_released := Some t\<rparr>) (awards d)) = 0"
  by (auto simp: count_where_0_iff set_update_where open_hold_def hold_of_def)

lemma sweep_sources:
  "\<forall>k \<in> set (kevents (fst (releaseDueKarmaHolds e limit d))). k \<in> set (kevents d)
     \<or> (\<exists>a \<in> set (awards d). open_hold a \<and> hold_due (e_now e) (defaultDisputeWindowHours e) d a
          \<and> event_key k = hold_key a \<and> ke_amount k = pa_amount a)"
proof (rule sweep_keeps)
  fix a d1 d' b
  assume a: "a \<in> set (awards d)" "open_hold a" "hold_due (e_now e) (defaultDisputeWindowHours e) d a"
    and I: "\<forall>k \<in> set (kevents d1). k \<in> set (kevents d)
     \<or> (\<exists>a \<in> set (awards d). open_hold a \<and> hold_due (e_now e) (defaultDisputeWindowHours e) d a
          \<and> event_key k = hold_key a \<and> ke_amount k = pa_amount a)"
    and r: "release_one e a d1 = Inr (d', b)"
  have "set (kevents d') \<subseteq> insert (new_event e (award_of a) (fst (claim_hold (e_now e) (pa_id a) d1))) (set (kevents d1))"
    using release_oneD [OF r] by (auto split: if_splits dest!: awardKarma_events)
  moreover have "event_key (new_event e (award_of a) x) = hold_key a \<and> ke_amount (new_event e (award_of a) x) = pa_amount a" for x
    by (simp only: new_event_simps new_event_award_of) (simp add: award_of_def)
  ultimately show "\<forall>k \<in> set (kevents d'). k \<in> set (kevents d)
     \<or> (\<exists>a \<in> set (awards d). open_hold a \<and> hold_due (e_now e) (defaultDisputeWindowHours e) d a
          \<and> event_key k = hold_key a \<and> ke_amount k = pa_amount a)"
    using I a by blast
qed simp

section \<open>Properties\<close>

text \<open>a sweep pays only what is due, and exactly what was frozen. Every karma event a sweep
  adds is the frozen amount of a hold that was open when the sweep read it and whose dispute window
  was over, under that hold's own user, type and source.\<close>

lemma sweep_pays_only_due_holds:
  "set (kevents (fst (releaseDueKarmaHolds e limit d)))
     \<subseteq> set (kevents d) \<union> {k. \<exists>a \<in> set (awards d). open_hold a \<and> hold_due (e_now e) (defaultDisputeWindowHours e) d a
                              \<and> event_key k = hold_key a \<and> ke_amount k = pa_amount a}"
  using sweep_sources [of e limit d] by blast

text \<open>the window is never cut short. A hold's release time is at least the whole window after
  the item's acceptance (or after the hold's creation when there is no acceptance to anchor on) and
  at least the whole window after the pool's dispute cycle opened, whichever is later.\<close>

lemma window_never_cut_short:
  assumes "holdReleasesAt a b acc hrs = Some r" and "0 \<le> hrs"
    and "or_else (map_option real_of_int (b_dispute_hours b)) hrs \<ge> 0" and "0 \<le> hold_anchor a b acc"
  shows "real_of_int r > real_of_int (hold_anchor a b acc) + or_else (map_option real_of_int (b_dispute_hours b)) hrs * 3600000 - 1
    \<and> hold_anchor a b acc \<ge> or_else (if isSubmissionSource (pa_source_type a) then acc else None) (pa_at a)
    \<and> (\<forall>c. b_cycle_opens b = Some c \<longrightarrow> hold_anchor a b acc \<ge> c)"
proof -
  let ?x = "real_of_int (hold_anchor a b acc) + or_else (map_option real_of_int (b_dispute_hours b)) hrs * 3600000"
  have "0 \<le> ?x" using assms(3,4) by simp
  then have "r = \<lfloor>?x\<rfloor>" using assms(1) by (auto simp: holdReleasesAt_def js_date_def split: if_splits)
  then have "real_of_int r > ?x - 1" by linarith
  moreover have "hold_anchor a b acc \<ge> or_else (if isSubmissionSource (pa_source_type a) then acc else None) (pa_at a)"
    "\<forall>c. b_cycle_opens b = Some c \<longrightarrow> hold_anchor a b acc \<ge> c"
    by (auto simp: hold_anchor_def Let_def split: option.splits)
  ultimately show ?thesis by blast
qed

definition demo_hold :: "ident \<Rightarrow> ident \<Rightarrow> string \<Rightarrow> time \<Rightarrow> pending_award_row" where
  "demo_hold k b s t = \<lparr>pa_id = k, pa_bounty = b, pa_user = ''u'', pa_type = K_item_accepted, pa_amount = 25,
     pa_source_type = ''Submission'', pa_source_id = s, pa_at = t, pa_released = None, pa_reversed = None, pa_reason = None\<rparr>"

lemma window_never_cut_short_witness:
  "\<exists>r. holdReleasesAt (demo_hold ''h'' ''b'' ''s'' 5) (bounty0 ''b''\<lparr>b_cycle_opens := Some 100\<rparr>) (Some 50) 48 = Some r
      \<and> hold_anchor (demo_hold ''h'' ''b'' ''s'' 5) (bounty0 ''b''\<lparr>b_cycle_opens := Some 100\<rparr>) (Some 50) \<ge> 100"
proof -
  let ?a = "demo_hold ''h'' ''b'' ''s'' 5" and ?b = "bounty0 ''b''\<lparr>b_cycle_opens := Some 100\<rparr>"
  have h: "b_dispute_hours ?b = None" by (simp add: bounty0_def)
  have sub: "isSubmissionSource ''Submission''" by code_simp
  have a: "hold_anchor ?a ?b (Some 50) = 100" by (simp add: hold_anchor_def demo_hold_def sub or_else_def)
  have r: "holdReleasesAt ?a ?b (Some 50) 48 = Some 172800100"
    by (simp add: holdReleasesAt_def a h or_else_def js_date_def)
  show ?thesis using window_never_cut_short [OF r] r a by (simp add: h or_else_def)
qed

text \<open>C7: an upheld dispute on a held award is final. Once the hold was cancelled before its release,
  no sweep, at any time and however often it runs, pays the item.\<close>

theorem cancelled_hold_never_pays:
  assumes "reverseAcceptedItemKarma e user st si reason d = Inr (d1, b, RS_held)"
  shows "item_cancelled user st si (fold (\<lambda>(e', limit) x. fst (releaseDueKarmaHolds e' limit x)) sweeps d1)"
proof -
  have "event_by (user, K_item_accepted, st, si) d = None" "d1 = fst (reverseUnreleasedPendingKarmaAward e user st si reason d)"
    using assms by (auto simp: reverseAcceptedItemKarma_def Let_def split: option.splits prod.splits if_splits)
  then have "item_cancelled user st si d1"
    by (simp add: item_cancelled_def reverseUnreleasedPendingKarmaAward_def update_many_def hold_cancel.swap_once event_by_def)
  then show ?thesis
  proof (induction sweeps arbitrary: d1)
    case Nil
    then show ?case by simp
  next
    case (Cons s sweeps)
    obtain e' limit where s: "s = (e', limit)" by (cases s)
    have "item_cancelled user st si (fst (releaseDueKarmaHolds e' limit d1))"
    proof (rule sweep_keeps [where I = "item_cancelled user st si"])
      fix a x y b
      assume a: "a \<in> set (awards d1)" "open_hold a" and x: "item_cancelled user st si x" and r: "release_one e' a x = Inr (y, b)"
      have na: "\<not> hold_of user st si a"
        using Cons.prems a by (auto simp: item_cancelled_def count_where_0_iff)
      have "event_by (user, K_item_accepted, st, si) y = None"
      proof (cases b)
        case True
        have "event_by (user, K_item_accepted, st, si) (fst (claim_hold (e_now e') (pa_id a) x)) = None"
          using x by (simp add: item_cancelled_def event_by_def)
        moreover have "(user, K_item_accepted, st, si) \<noteq> award_key (award_of a)"
          using na by (auto simp: hold_key_def hold_of_def)
        ultimately show ?thesis using release_oneD [OF r] True event_by_award by auto
      next
        case False
        then show ?thesis using release_oneD [OF r] x by (simp add: item_cancelled_def)
      qed
      then show "item_cancelled user st si y"
        using x open_count_claim [of user st si x] release_one_awards [OF r] by (auto simp: item_cancelled_def)
    qed (rule Cons.prems)
    then show ?case using Cons.IH by (simp add: s)
  qed
qed

definition demo_holds :: db where
  "demo_holds = db0\<lparr>users := [user0 ''u''], bounties := [bounty0 ''b'', bounty0 ''c''\<lparr>b_dispute_hours := Some 0\<rparr>],
     awards := [demo_hold ''h1'' ''b'' ''s1'' 0, demo_hold ''h2'' ''c'' ''s2'' 1]\<rparr>"

lemmas demo_holds_simps = demo_holds_def demo_hold_def db0_def bounty0_def user0_def env0_def

theorem cancelled_hold_never_pays_witness:
  "\<exists>d1. reverseAcceptedItemKarma (env0 10) ''u'' ''Submission'' ''s1'' None demo_holds = Inr (d1, True, RS_held)
      \<and> event_by (''u'', K_item_accepted, ''Submission'', ''s1'')
           (fst (releaseDueKarmaHolds (env0 1000000000) None d1)) = None"
proof -
  obtain d1 where d1: "reverseAcceptedItemKarma (env0 10) ''u'' ''Submission'' ''s1'' None demo_holds = Inr (d1, True, RS_held)"
    by (auto simp: reverseAcceptedItemKarma_def event_by_def reverseUnreleasedPendingKarmaAward_def update_many_def
        hold_of_def open_hold_def demo_holds_simps)
  have "item_cancelled ''u'' ''Submission'' ''s1''
      (fold (\<lambda>(e', limit) x. fst (releaseDueKarmaHolds e' limit x)) [(env0 1000000000, None)] d1)"
    by (rule cancelled_hold_never_pays [OF d1])
  then show ?thesis using d1 by (auto simp: item_cancelled_def)
qed

text \<open>the claim decides the race. However stale the candidate a sweep holds, a hold that was
  released or cancelled meanwhile is left alone: nothing is written and nothing is paid.\<close>

lemma stale_candidate_backs_off:
  assumes "distinct (map pa_id (awards d))" and "r \<in> set (awards d)" and "pa_id r = pa_id a" and "\<not> open_hold r"
  shows "release_one e a d = Inr (d, False)"
proof -
  have "count_where (\<lambda>x. pa_id x = pa_id r \<and> open_hold x) (awards d) = (if open_hold r then 1 else 0)"
    by (rule count_find_unique [OF assms(1,2)])
  then show ?thesis
    using assms(3,4) by (simp add: release_one_def claim_hold_def update_many_def)
qed

lemma stale_candidate_backs_off_witness:
  "release_one (env0 9) (demo_hold ''h1'' ''b'' ''s1'' 0)
     (demo_holds\<lparr>awards := [cancel_row 5 ''dispute_upheld'' (demo_hold ''h1'' ''b'' ''s1'' 0)]\<rparr>)
   = Inr (demo_holds\<lparr>awards := [cancel_row 5 ''dispute_upheld'' (demo_hold ''h1'' ''b'' ''s1'' 0)]\<rparr>, False)"
  by (rule stale_candidate_backs_off [where r = "cancel_row 5 ''dispute_upheld'' (demo_hold ''h1'' ''b'' ''s1'' 0)"])
    (simp_all add: cancel_row_def open_hold_def demo_hold_def)

text \<open>the sweep starves. It reads only the oldest \<open>limit\<close> open holds and skips those whose
  window is still open, so when those fill the batch every younger hold waits, however long its own
  window has been over: such a sweep releases nothing and changes nothing.\<close>

lemma sweep_starves_younger_holds:
  assumes "\<forall>a \<in> set (hold_candidates (sweep_limit limit) d). \<not> hold_due (e_now e) (defaultDisputeWindowHours e) d a"
  shows "releaseDueKarmaHolds e limit d
     = (d, Inr \<lparr>rr_scanned = length (hold_candidates (sweep_limit limit) d), rr_released = 0, rr_karma = 0\<rparr>)"
proof -
  have "release_all e due as r d = (d, Inr r)" if "\<forall>a \<in> set as. \<not> due a" for due as r
    using that by (induction as) auto
  with assms show ?thesis by (simp add: releaseDueKarmaHolds_def Let_def)
qed

lemma sweep_starves_younger_holds_witness:
  "hold_due 1000 48 demo_holds (demo_hold ''h2'' ''c'' ''s2'' 1)
   \<and> fst (releaseDueKarmaHolds (env0 1000) (Some 1) demo_holds) = demo_holds"
proof
  have sub: "isSubmissionSource ''Submission''" by code_simp
  show "hold_due 1000 48 demo_holds (demo_hold ''h2'' ''c'' ''s2'' 1)"
    by (simp add: hold_due_def bounty_by_def accepted_at_of_def submission_by_def holdReleasesAt_def hold_anchor_def
        sub or_else_def js_date_def demo_holds_simps)
  have cand: "hold_candidates (sweep_limit (Some 1)) demo_holds = [demo_hold ''h1'' ''b'' ''s1'' 0]"
    by (simp add: hold_candidates_def sweep_limit_def or_else_def open_hold_def demo_holds_simps)
  have "\<not> hold_due 1000 48 demo_holds (demo_hold ''h1'' ''b'' ''s1'' 0)"
    by (simp add: hold_due_def bounty_by_def accepted_at_of_def submission_by_def holdReleasesAt_def hold_anchor_def
        sub or_else_def js_date_def demo_holds_simps)
  then show "fst (releaseDueKarmaHolds (env0 1000) (Some 1) demo_holds) = demo_holds"
    using sweep_starves_younger_holds [of "Some 1" demo_holds "env0 1000"]
    by (simp add: cand defaultDisputeWindowHours_def env0_def DEFAULT_COMMUNITY_DISPUTE_WINDOW_HOURS_def)
qed

end
