(* ===== verification/Pool_Counters.thy ===== *)
theory Pool_Counters
  imports Karma_Holds
begin

text \<open>
  Capacity of an open pool: the atomic acceptance gate and the close-out paths of
  \<open>services/pool-lifecycle.ts\<close>, the recount of \<open>services/submission-acceptance.ts\<close> (which also
  closes and reopens), the sponsor's early close (\<open>routes/v1/bounties.ts\<close>), and the read-side
  room of \<open>services/pool-capacity.ts\<close> and \<open>services/submission-limits.ts\<close>. Audit-log writes are
  not modelled. \<open>BountyKind\<close> has the one value \<open>community\<close>, so its guards always hold.
\<close>

section \<open>Recounting, closing and reopening\<close>

definition POOL_CAPACITY_STATUSES :: "submission_status set" where
  "POOL_CAPACITY_STATUSES = {S_accepted, S_accepted_pending_sample, S_in_audit, S_in_sponsor_review}"

definition FINAL_ACCEPTED_STATUSES :: "submission_status set" where
  "FINAL_ACCEPTED_STATUSES = {S_accepted}"

record accepted_counters =
  ac_accepted :: int
  ac_final :: int
  ac_closed :: bool
  ac_reopened :: bool

definition enqueuePoolSampling :: "env \<Rightarrow> ident \<Rightarrow> db \<Rightarrow> db" where
  "enqueuePoolSampling e bid d =
     fst (enqueue e \<lparr>jq_type = ''pool.sampling'', jq_key = ''pool-sample:'' @ bid,
                     jq_payload = JObj [(''bountyId'', JStr bid)], jq_max = None, jq_workspace = None,
                     jq_run_after = None\<rparr> d)"

text \<open>The compare-and-swap every close-out path shares, and its mirror image.\<close>

definition close_row :: "time \<Rightarrow> bounty_row \<Rightarrow> bounty_row" where
  "close_row now b = b\<lparr>b_closed_at := Some now, b_cycle_opens := Some now\<rparr>"

definition close_cas :: "env \<Rightarrow> ident \<Rightarrow> db \<Rightarrow> db \<times> bool" where
  "close_cas e bid d =
     (update_bounty e (\<lambda>b. b_id b = bid \<and> b_closed_at b = None) (close_row (e_now e)) d,
      count_where (\<lambda>b. b_id b = bid \<and> b_closed_at b = None) (bounties d) = 1)"

definition auto_settled :: "bounty_row \<Rightarrow> bool" where
  "auto_settled b \<longleftrightarrow> b_status b = B_completed \<or> b_status b = B_partially_completed"

definition reopen_row :: "bool \<Rightarrow> bounty_row \<Rightarrow> bounty_row" where
  "reopen_row settled b =
     (let b1 = b\<lparr>b_closed_at := None, b_cycle_opens := None, b_sampling_started := None, b_sampling_completed := None\<rparr>
      in if settled then b1\<lparr>b_status := B_active, b_cycle_settled := None\<rparr> else b1)"

definition reopen_cas :: "env \<Rightarrow> bool \<Rightarrow> ident \<Rightarrow> db \<Rightarrow> db \<times> bool" where
  "reopen_cas e settled bid d =
     (update_bounty e (\<lambda>b. b_id b = bid \<and> b_closed_at b \<noteq> None) (reopen_row settled) d,
      count_where (\<lambda>b. b_id b = bid \<and> b_closed_at b \<noteq> None) (bounties d) = 1)"

definition set_counters :: "env \<Rightarrow> ident \<Rightarrow> int \<Rightarrow> int \<Rightarrow> bounty_row \<Rightarrow> db \<Rightarrow> db" where
  "set_counters e bid acc fin b d =
     (if b_accepted b \<noteq> acc \<or> b_final_accepted b \<noteq> fin
      then update_bounty e (\<lambda>x. b_id x = bid) (\<lambda>x. x\<lparr>b_accepted := acc, b_final_accepted := fin\<rparr>) d
      else d)"

definition close_if_full :: "env \<Rightarrow> ident \<Rightarrow> int \<Rightarrow> bounty_row \<Rightarrow> db \<Rightarrow> db \<times> bool" where
  "close_if_full e bid acc b d =
     (if b_closed_at b = None \<and> b_target b > 0 \<and> acc \<ge> b_target b
      then (case close_cas e bid d of (d', won) \<Rightarrow> (if won then enqueuePoolSampling e bid d' else d', won))
      else (d, False))"

definition reopen_if_room :: "env \<Rightarrow> ident \<Rightarrow> int \<Rightarrow> bounty_row \<Rightarrow> db \<Rightarrow> db \<times> bool" where
  "reopen_if_room e bid acc b d =
     (if b_closed_at b \<noteq> None \<and> b_target b > 0 \<and> acc < b_target b
      then reopen_cas e (auto_settled b) bid d
      else (d, False))"

text \<open>\<open>None\<close> is the thrown error of a missing bounty.\<close>

definition recomputeAcceptedItemCounters :: "env \<Rightarrow> ident \<Rightarrow> db \<Rightarrow> (db \<times> accepted_counters) option" where
  "recomputeAcceptedItemCounters e bid d =
     (case bounty_by bid d of
        None \<Rightarrow> None
      | Some b \<Rightarrow>
          (let acc = count_submissions bid POOL_CAPACITY_STATUSES d;
               fin = count_submissions bid FINAL_ACCEPTED_STATUSES d;
               d1 = set_counters e bid acc fin b d;
               (d2, closed) = close_if_full e bid acc b d1;
               (d3, reopened) = reopen_if_room e bid acc b d2
           in Some (d3, \<lparr>ac_accepted = acc, ac_final = fin, ac_closed = closed, ac_reopened = reopened\<rparr>)))"

section \<open>The acceptance gate and the direct close\<close>

definition slot_free :: "ident \<Rightarrow> bounty_row \<Rightarrow> bool" where
  "slot_free bid b \<longleftrightarrow> b_id b = bid \<and> (b_target b \<le> 0 \<or> b_accepted b < b_target b)"

definition claimPoolAcceptanceSlot :: "ident \<Rightarrow> db \<Rightarrow> db \<times> bool" where
  "claimPoolAcceptanceSlot bid d =
     (set_bounty (slot_free bid) (\<lambda>b. b\<lparr>b_accepted := b_accepted b + 1\<rparr>) d,
      count_where (slot_free bid) (bounties d) = 1)"

definition checkAndClosePoolIfTargetReached :: "env \<Rightarrow> ident \<Rightarrow> db \<Rightarrow> db" where
  "checkAndClosePoolIfTargetReached e bid d =
     (case bounty_by bid d of
        None \<Rightarrow> d
      | Some b \<Rightarrow>
          (if b_target b \<le> 0 then d
           else if b_accepted b < b_target b then d
           else if b_closed_at b \<noteq> None then d
           else (case close_cas e bid d of (d', won) \<Rightarrow> if won then enqueuePoolSampling e bid d' else d')))"

text \<open>The transaction of \<open>POST /:id/close-pool\<close>; the result is \<open>alreadyClosed\<close>.\<close>

definition close_pool_early :: "env \<Rightarrow> ident \<Rightarrow> db \<Rightarrow> db \<times> bool" where
  "close_pool_early e bid d =
     (if count_where (\<lambda>b. b_id b = bid \<and> b_sponsor_closed b = None) (bounties d) = 0 then (d, True)
      else let d1 = update_bounty e (\<lambda>b. b_id b = bid \<and> b_sponsor_closed b = None)
                      (\<lambda>b. b\<lparr>b_sponsor_closed := Some (e_now e)\<rparr>) d
           in (case bounty_by bid d1 of
                 None \<Rightarrow> (d1, False)
               | Some cur \<Rightarrow>
                   (if b_closed_at cur = None
                    then (case close_cas e bid d1 of (d2, won) \<Rightarrow> (if won then enqueuePoolSampling e bid d2 else d2, False))
                    else (d1, False))))"

section \<open>The reconcile sweep\<close>

record reconcile_outcome =
  ro_scanned :: nat
  ro_corrected :: nat
  ro_closed :: nat

definition open_pools :: "nat \<Rightarrow> db \<Rightarrow> bounty_row list" where
  "open_pools limit d = take (max 1 limit) (sort_key b_updated (filter (\<lambda>b. b_closed_at b = None) (bounties d)))"

text \<open>A recount that throws ends the sweep; what it committed before stays.\<close>

fun reconcile_loop :: "env \<Rightarrow> bounty_row list \<Rightarrow> reconcile_outcome \<Rightarrow> db \<Rightarrow> db \<times> reconcile_outcome option" where
  "reconcile_loop e [] r d = (d, Some r)"
| "reconcile_loop e (pool # rest) r d =
     (case recomputeAcceptedItemCounters e (b_id pool) d of
        None \<Rightarrow> (d, None)
      | Some (d', c) \<Rightarrow>
          reconcile_loop e rest
            \<lparr>ro_scanned = ro_scanned r + 1,
             ro_corrected = ro_corrected r
               + (if ac_accepted c \<noteq> b_accepted pool \<or> ac_final c \<noteq> b_final_accepted pool then 1 else 0),
             ro_closed = ro_closed r + (if ac_closed c then 1 else 0)\<rparr> d')"

definition reconcileOpenCommunityPools :: "env \<Rightarrow> nat \<Rightarrow> db \<Rightarrow> db \<times> reconcile_outcome option" where
  "reconcileOpenCommunityPools e limit d =
     reconcile_loop e (open_pools limit d) \<lparr>ro_scanned = 0, ro_corrected = 0, ro_closed = 0\<rparr> d"

section \<open>Room as the read side shows it\<close>

datatype recommended_path = Path_submit | Path_bulk | Path_none

record pool_capacity =
  pcap_remaining :: int
  pcap_yours :: int
  pcap_max_call :: int
  pcap_path :: recommended_path

definition poolCapacityFor :: "int \<Rightarrow> int \<Rightarrow> int \<Rightarrow> bool \<Rightarrow> pool_capacity" where
  "poolCapacityFor targetItems reserved bulk accepting =
     (let remaining = max 0 (targetItems - reserved)
      in if \<not> accepting then
           \<lparr>pcap_remaining = remaining, pcap_yours = remaining, pcap_max_call = 0, pcap_path = Path_none\<rparr>
         else if remaining = 0 then
           \<lparr>pcap_remaining = 0, pcap_yours = 0, pcap_max_call = 0, pcap_path = Path_none\<rparr>
         else \<lparr>pcap_remaining = remaining, pcap_yours = remaining, pcap_max_call = min remaining bulk,
               pcap_path = (if remaining > bulk then Path_bulk else Path_submit)\<rparr>)"

text \<open>\<open>mcp/core/limits.ts\<close>: the hard cap and the default hand-off threshold.\<close>

definition SUBMISSION_ITEMS_HARD_MAX :: int where
  "SUBMISSION_ITEMS_HARD_MAX = 100"

definition MCP_BULK_THRESHOLD_ITEMS :: int where
  "MCP_BULK_THRESHOLD_ITEMS = 20"

definition boundedInt :: "json option \<Rightarrow> int \<Rightarrow> int" where
  "boundedInt v fallback =
     (if is_int_num v \<and> num_of v \<ge> 1 \<and> num_of v \<le> real_of_int SUBMISSION_ITEMS_HARD_MAX then int_of v else fallback)"

definition getMaxItemsPerRequest :: "env \<Rightarrow> int" where
  "getMaxItemsPerRequest e = boundedInt (e_setting e ''submissions.max_items_per_request'') SUBMISSION_ITEMS_HARD_MAX"

definition getBulkThresholdItems :: "env \<Rightarrow> int" where
  "getBulkThresholdItems e =
     min (boundedInt (e_setting e ''submissions.mcp_bulk_threshold_items'') MCP_BULK_THRESHOLD_ITEMS)
         (getMaxItemsPerRequest e)"

definition getPoolSubmitLimits :: "env \<Rightarrow> int \<times> int" where
  "getPoolSubmitLimits e = (getBulkThresholdItems e, getBulkThresholdItems e)"

section \<open>Facts\<close>

definition bounty_ids :: "db \<Rightarrow> bool" where
  "bounty_ids d \<longleftrightarrow> distinct (map b_id (bounties d))"

definition submission_ids :: "db \<Rightarrow> bool" where
  "submission_ids d \<longleftrightarrow> distinct (map s_id (submissions d))"

text \<open>What a guarded write of one bounty does to a lookup.\<close>

lemma update_bounty_self:
  assumes "bounty_by bid d = Some b" and "\<And>x. b_id (f x) = b_id x"
  shows "bounty_by bid (update_bounty e (\<lambda>x. b_id x = bid \<and> Q x) f d)
           = Some (if Q b then (f b)\<lparr>b_updated := e_now e\<rparr> else b)"
  using assms find_where_Some [of "\<lambda>b. b_id b = bid" "bounties d" b]
  by (simp add: bounty_by_def update_bounty_def set_bounty_def find_where_update_where)

lemma update_bounty_key:
  assumes "bounty_by bid d = Some b" and "\<And>x. b_id (f x) = b_id x"
  shows "bounty_by bid (update_bounty e (\<lambda>x. b_id x = bid) f d) = Some ((f b)\<lparr>b_updated := e_now e\<rparr>)"
  using update_bounty_self [OF assms, of e "\<lambda>x. True"] by simp

lemma update_bounty_other:
  assumes "k \<noteq> bid" and "\<And>x. b_id (f x) = b_id x"
  shows "bounty_by k (update_bounty e (\<lambda>x. b_id x = bid \<and> Q x) f d) = bounty_by k d"
proof -
  have "map_option (\<lambda>r. if b_id r = bid \<and> Q r then (f r)\<lparr>b_updated := e_now e\<rparr> else r) (bounty_by k d) = bounty_by k d"
    using assms(1) by (cases "bounty_by k d") (auto simp: bounty_by_def dest: find_where_Some)
  then show ?thesis
    using assms(2) by (simp add: bounty_by_def update_bounty_def set_bounty_def find_where_update_where)
qed

lemma update_bounty_ids:
  "(\<And>x. b_id (f x) = b_id x) \<Longrightarrow> bounty_ids (update_bounty e P f d) = bounty_ids d"
  by (simp add: bounty_ids_def update_bounty_def set_bounty_def map_update_where)

lemma update_bounty_frame [simp]:
  "users (update_bounty e P f d) = users d" "submissions (update_bounty e P f d) = submissions d"
  "kevents (update_bounty e P f d) = kevents d" "awards (update_bounty e P f d) = awards d"
  "jobs (update_bounty e P f d) = jobs d" "windows (update_bounty e P f d) = windows d"
  "members (update_bounty e P f d) = members d" "disputes (update_bounty e P f d) = disputes d"
  "db_seq (update_bounty e P f d) = db_seq d" "abatches (update_bounty e P f d) = abatches d"
  "aitems (update_bounty e P f d) = aitems d" "flags (update_bounty e P f d) = flags d" "ranks (update_bounty e P f d) = ranks d"
  "vresults (update_bounty e P f d) = vresults d"
  by (simp_all add: update_bounty_def set_bounty_def)

lemma enqueuePoolSampling_frame [simp]:
  "users (enqueuePoolSampling e k d) = users d" "submissions (enqueuePoolSampling e k d) = submissions d"
  "kevents (enqueuePoolSampling e k d) = kevents d" "awards (enqueuePoolSampling e k d) = awards d"
  "bounties (enqueuePoolSampling e k d) = bounties d" "windows (enqueuePoolSampling e k d) = windows d"
  "members (enqueuePoolSampling e k d) = members d" "disputes (enqueuePoolSampling e k d) = disputes d"
  "abatches (enqueuePoolSampling e k d) = abatches d" "aitems (enqueuePoolSampling e k d) = aitems d"
  "flags (enqueuePoolSampling e k d) = flags d" "ranks (enqueuePoolSampling e k d) = ranks d" "vresults (enqueuePoolSampling e k d) = vresults d"
  by (simp_all add: enqueuePoolSampling_def)

lemma row_ids [simp]:
  "b_id (close_row now b) = b_id b" "b_id (reopen_row s b) = b_id b"
  by (simp_all add: close_row_def reopen_row_def Let_def)

lemma bounty_by_cong: "bounties d = bounties d' \<Longrightarrow> bounty_by k d = bounty_by k d'"
  by (simp add: bounty_by_def)

lemma count_submissions_cong: "submissions d = submissions d' \<Longrightarrow> count_submissions k A d = count_submissions k A d'"
  by (simp add: count_submissions_def)

text \<open>The row a recount leaves.\<close>

definition counted_row :: "env \<Rightarrow> int \<Rightarrow> int \<Rightarrow> bounty_row \<Rightarrow> bounty_row" where
  "counted_row e acc fin b =
     (if b_accepted b \<noteq> acc \<or> b_final_accepted b \<noteq> fin
      then b\<lparr>b_accepted := acc, b_final_accepted := fin, b_updated := e_now e\<rparr> else b)"

definition recount_row :: "env \<Rightarrow> int \<Rightarrow> int \<Rightarrow> bounty_row \<Rightarrow> bounty_row" where
  "recount_row e acc fin b =
     (let b1 = counted_row e acc fin b
      in if b_closed_at b = None \<and> b_target b > 0 \<and> acc \<ge> b_target b then (close_row (e_now e) b1)\<lparr>b_updated := e_now e\<rparr>
         else if b_closed_at b \<noteq> None \<and> b_target b > 0 \<and> acc < b_target b
         then (reopen_row (auto_settled b) b1)\<lparr>b_updated := e_now e\<rparr> else b1)"

lemma set_counters_by:
  "bounty_by bid d = Some b \<Longrightarrow> bounty_by bid (set_counters e bid acc fin b d) = Some (counted_row e acc fin b)"
  by (auto simp: set_counters_def counted_row_def update_bounty_key)

lemma set_counters_frame [simp]:
  "submissions (set_counters e bid acc fin b d) = submissions d" "users (set_counters e bid acc fin b d) = users d"
  "kevents (set_counters e bid acc fin b d) = kevents d" "awards (set_counters e bid acc fin b d) = awards d"
  "windows (set_counters e bid acc fin b d) = windows d" "members (set_counters e bid acc fin b d) = members d"
  "disputes (set_counters e bid acc fin b d) = disputes d" "jobs (set_counters e bid acc fin b d) = jobs d"
  "abatches (set_counters e bid acc fin b d) = abatches d" "aitems (set_counters e bid acc fin b d) = aitems d"
  "flags (set_counters e bid acc fin b d) = flags d" "vresults (set_counters e bid acc fin b d) = vresults d"
  by (simp_all add: set_counters_def)

lemma close_cas_frame [simp]:
  "submissions (fst (close_cas e bid d)) = submissions d" "users (fst (close_cas e bid d)) = users d"
  "kevents (fst (close_cas e bid d)) = kevents d" "awards (fst (close_cas e bid d)) = awards d"
  "windows (fst (close_cas e bid d)) = windows d" "members (fst (close_cas e bid d)) = members d"
  "disputes (fst (close_cas e bid d)) = disputes d" "jobs (fst (close_cas e bid d)) = jobs d"
  "abatches (fst (close_cas e bid d)) = abatches d" "aitems (fst (close_cas e bid d)) = aitems d"
  "flags (fst (close_cas e bid d)) = flags d" "vresults (fst (close_cas e bid d)) = vresults d"
  by (simp_all add: close_cas_def)

lemma close_if_full_frame [simp]:
  "submissions (fst (close_if_full e bid acc b d)) = submissions d" "users (fst (close_if_full e bid acc b d)) = users d"
  "kevents (fst (close_if_full e bid acc b d)) = kevents d" "awards (fst (close_if_full e bid acc b d)) = awards d"
  "windows (fst (close_if_full e bid acc b d)) = windows d" "members (fst (close_if_full e bid acc b d)) = members d"
  "disputes (fst (close_if_full e bid acc b d)) = disputes d" "abatches (fst (close_if_full e bid acc b d)) = abatches d"
  "aitems (fst (close_if_full e bid acc b d)) = aitems d" "flags (fst (close_if_full e bid acc b d)) = flags d"
  "vresults (fst (close_if_full e bid acc b d)) = vresults d"
  by (simp_all add: close_if_full_def close_cas_def)

lemma reopen_if_room_frame [simp]:
  "submissions (fst (reopen_if_room e bid acc b d)) = submissions d" "users (fst (reopen_if_room e bid acc b d)) = users d"
  "kevents (fst (reopen_if_room e bid acc b d)) = kevents d" "awards (fst (reopen_if_room e bid acc b d)) = awards d"
  "windows (fst (reopen_if_room e bid acc b d)) = windows d" "members (fst (reopen_if_room e bid acc b d)) = members d"
  "disputes (fst (reopen_if_room e bid acc b d)) = disputes d" "jobs (fst (reopen_if_room e bid acc b d)) = jobs d"
  "abatches (fst (reopen_if_room e bid acc b d)) = abatches d" "aitems (fst (reopen_if_room e bid acc b d)) = aitems d"
  "flags (fst (reopen_if_room e bid acc b d)) = flags d" "vresults (fst (reopen_if_room e bid acc b d)) = vresults d"
  by (simp_all add: reopen_if_room_def reopen_cas_def)

lemma close_cas_by:
  "bounty_by bid d = Some b \<Longrightarrow>
   bounty_by bid (fst (close_cas e bid d))
     = Some (if b_closed_at b = None then (close_row (e_now e) b)\<lparr>b_updated := e_now e\<rparr> else b)"
  by (simp add: close_cas_def update_bounty_self)

lemma reopen_cas_by:
  "bounty_by bid d = Some b \<Longrightarrow>
   bounty_by bid (fst (reopen_cas e s bid d))
     = Some (if b_closed_at b \<noteq> None then (reopen_row s b)\<lparr>b_updated := e_now e\<rparr> else b)"
  by (simp add: reopen_cas_def update_bounty_self)

lemma cas_wins:
  assumes "bounty_ids d" and "bounty_by bid d = Some b"
  shows "snd (close_cas e bid d) \<longleftrightarrow> b_closed_at b = None"
    and "snd (reopen_cas e s bid d) \<longleftrightarrow> b_closed_at b \<noteq> None"
  using count_where_key_guard [of b_id "bounties d" bid b] assms
  by (simp_all add: close_cas_def reopen_cas_def bounty_ids_def bounty_by_def)

lemma counted_row_fields [simp]:
  "b_id (counted_row e a f b) = b_id b" "b_closed_at (counted_row e a f b) = b_closed_at b"
  "b_target (counted_row e a f b) = b_target b" "b_accepted (counted_row e a f b) = a"
  "b_final_accepted (counted_row e a f b) = f" "b_status (counted_row e a f b) = b_status b"
  "b_sponsor_closed (counted_row e a f b) = b_sponsor_closed b"
  by (simp_all add: counted_row_def)

lemma set_counters_ids: "bounty_ids (set_counters e bid acc fin b d) = bounty_ids d"
  by (simp add: set_counters_def update_bounty_ids)

text \<open>The recount, in one lemma: the row it leaves, its result, and what it does not touch.\<close>

lemma recompute_spec:
  assumes "bounty_ids d" and "bounty_by bid d = Some b"
  defines "acc \<equiv> count_submissions bid POOL_CAPACITY_STATUSES d"
    and "fin \<equiv> count_submissions bid FINAL_ACCEPTED_STATUSES d"
  shows "\<exists>d'. recomputeAcceptedItemCounters e bid d = Some (d', \<lparr>ac_accepted = acc, ac_final = fin,
           ac_closed = (b_closed_at b = None \<and> b_target b > 0 \<and> acc \<ge> b_target b),
           ac_reopened = (b_closed_at b \<noteq> None \<and> b_target b > 0 \<and> acc < b_target b)\<rparr>)
       \<and> bounty_by bid d' = Some (recount_row e acc fin b)"
proof -
  let ?d1 = "set_counters e bid acc fin b d"
  have b1: "bounty_by bid ?d1 = Some (counted_row e acc fin b)" by (rule set_counters_by [OF assms(2)])
  have i1: "bounty_ids ?d1" using assms(1) by (simp add: set_counters_ids)
  have won: "snd (close_cas e bid ?d1) \<longleftrightarrow> b_closed_at b = None"
    using cas_wins(1) [OF i1 b1] by simp
  have row: "bounty_by bid (fst (close_cas e bid ?d1))
      = Some (if b_closed_at b = None then (close_row (e_now e) (counted_row e acc fin b))\<lparr>b_updated := e_now e\<rparr>
              else counted_row e acc fin b)"
    using close_cas_by [OF b1] by simp
  have rwon: "snd (reopen_cas e (auto_settled b) bid ?d1) \<longleftrightarrow> b_closed_at b \<noteq> None"
    using cas_wins(2) [OF i1 b1] by simp
  have rrow: "bounty_by bid (fst (reopen_cas e (auto_settled b) bid ?d1))
      = Some (if b_closed_at b \<noteq> None then (reopen_row (auto_settled b) (counted_row e acc fin b))\<lparr>b_updated := e_now e\<rparr>
              else counted_row e acc fin b)"
    using reopen_cas_by [OF b1] by simp
  consider (close) "b_closed_at b = None \<and> b_target b > 0 \<and> acc \<ge> b_target b"
    | (reopen) "b_closed_at b \<noteq> None \<and> b_target b > 0 \<and> acc < b_target b"
    | (keep) "\<not> (b_closed_at b = None \<and> b_target b > 0 \<and> acc \<ge> b_target b)"
        "\<not> (b_closed_at b \<noteq> None \<and> b_target b > 0 \<and> acc < b_target b)"
    by blast
  then show ?thesis
  proof cases
    case close
    then have "close_if_full e bid acc b ?d1 = (enqueuePoolSampling e bid (fst (close_cas e bid ?d1)), True)"
      using won by (simp add: close_if_full_def split: prod.split) (metis fst_conv snd_conv)
    moreover have "reopen_if_room e bid acc b x = (x, False)" for x
      using close by (simp add: reopen_if_room_def)
    moreover have "bounty_by bid (enqueuePoolSampling e bid x) = bounty_by bid x" for x
      by (rule bounty_by_cong) simp
    ultimately show ?thesis
      using close row assms(2)
      by (simp add: recomputeAcceptedItemCounters_def acc_def [symmetric] fin_def [symmetric] Let_def recount_row_def)
  next
    case reopen
    then have "reopen_if_room e bid acc b ?d1 = (fst (reopen_cas e (auto_settled b) bid ?d1), True)"
      using rwon by (simp add: reopen_if_room_def prod_eq_iff)
    moreover have "close_if_full e bid acc b ?d1 = (?d1, False)"
      using reopen by (simp add: close_if_full_def)
    ultimately show ?thesis
      using reopen rrow assms(2)
      by (simp add: recomputeAcceptedItemCounters_def acc_def [symmetric] fin_def [symmetric] Let_def recount_row_def)
  next
    case keep
    then have "close_if_full e bid acc b ?d1 = (?d1, False)" "reopen_if_room e bid acc b ?d1 = (?d1, False)"
      by (auto simp: close_if_full_def reopen_if_room_def)
    then show ?thesis
      using keep b1 assms(2)
      by (auto simp: recomputeAcceptedItemCounters_def acc_def [symmetric] fin_def [symmetric] Let_def recount_row_def)
  qed
qed

definition pool_frame :: "db \<Rightarrow> db \<Rightarrow> bool" where
  "pool_frame d d' \<longleftrightarrow> submissions d' = submissions d \<and> users d' = users d \<and> kevents d' = kevents d
     \<and> awards d' = awards d \<and> windows d' = windows d \<and> members d' = members d \<and> disputes d' = disputes d
     \<and> abatches d' = abatches d \<and> aitems d' = aitems d \<and> flags d' = flags d \<and> vresults d' = vresults d
     \<and> ranks d' = ranks d \<and> map b_id (bounties d') = map b_id (bounties d)"

lemma pool_frame_refl [simp]: "pool_frame d d"
  by (simp add: pool_frame_def)

lemma pool_frame_trans: "pool_frame d d' \<Longrightarrow> pool_frame d' d'' \<Longrightarrow> pool_frame d d''"
  by (simp add: pool_frame_def)

lemma pool_frame_update: "(\<And>x. b_id (f x) = b_id x) \<Longrightarrow> pool_frame d (update_bounty e P f d)"
  by (simp add: pool_frame_def) (simp add: update_bounty_def set_bounty_def map_update_where)

lemma pool_frame_enqueue [simp]: "pool_frame d (enqueuePoolSampling e k d)"
  by (simp add: pool_frame_def)

lemma pool_frame_parts:
  "pool_frame d (set_counters e bid acc fin b d)" "pool_frame d (fst (close_cas e bid d))"
  "pool_frame d (fst (reopen_cas e s bid d))"
  by (auto simp: set_counters_def close_cas_def reopen_cas_def intro: pool_frame_update)

lemma pool_frame_cond:
  "pool_frame d (fst (close_if_full e bid acc b d))" "pool_frame d (fst (reopen_if_room e bid acc b d))"
  using pool_frame_parts(2) [of d e bid] pool_frame_parts(3) [of d e "auto_settled b" bid]
  by (auto simp: close_if_full_def reopen_if_room_def split: prod.split intro: pool_frame_trans)

lemma recompute_frame:
  "recomputeAcceptedItemCounters e bid d = Some (d', c) \<Longrightarrow> pool_frame d d'"
  by (auto simp: recomputeAcceptedItemCounters_def Let_def split: option.splits prod.splits)
    (metis fst_conv pool_frame_cond pool_frame_parts(1) pool_frame_trans)

lemma pool_frame_ids: "pool_frame d d' \<Longrightarrow> bounty_ids d' = bounty_ids d"
  by (simp add: pool_frame_def bounty_ids_def)

lemma pool_frame_count: "pool_frame d d' \<Longrightarrow> count_submissions k A d' = count_submissions k A d"
  by (simp add: pool_frame_def count_submissions_def)

text \<open>Closing and reopening are compare-and-swaps on the close time.\<close>

interpretation pool_close: cas_column "\<lambda>b. b_id b = bid \<and> b_closed_at b = None"
    "\<lambda>b. (close_row now b)\<lparr>b_updated := now'\<rparr>" for bid now now'
  by unfold_locales (simp add: close_row_def)

interpretation pool_reopen: cas_column "\<lambda>b. b_id b = bid \<and> b_closed_at b \<noteq> None"
    "\<lambda>b. (reopen_row s b)\<lparr>b_updated := now\<rparr>" for bid s now
  by unfold_locales (simp add: reopen_row_def Let_def)

interpretation sponsor_close: cas_column "\<lambda>b. b_id b = bid \<and> b_sponsor_closed b = None"
    "\<lambda>b. b\<lparr>b_sponsor_closed := Some now, b_updated := now'\<rparr>" for bid now now'
  by unfold_locales simp

text \<open>The gate, on the one row it addresses.\<close>

lemma claim_spec:
  assumes "bounty_ids d" and "bounty_by bid d = Some b"
  defines "free \<equiv> b_target b \<le> 0 \<or> b_accepted b < b_target b"
  shows "snd (claimPoolAcceptanceSlot bid d) = free"
    and "bounty_by bid (fst (claimPoolAcceptanceSlot bid d))
           = Some (if free then b\<lparr>b_accepted := b_accepted b + 1\<rparr> else b)"
    and "bounty_ids (fst (claimPoolAcceptanceSlot bid d))"
    and "\<not> free \<Longrightarrow> fst (claimPoolAcceptanceSlot bid d) = d"
    and "submissions (fst (claimPoolAcceptanceSlot bid d)) = submissions d"
proof -
  have sf: "slot_free bid = (\<lambda>x. b_id x = bid \<and> (b_target x \<le> 0 \<or> b_accepted x < b_target x))"
    by (rule ext) (simp add: slot_free_def)
  have row: "find_where (\<lambda>b. b_id b = bid) (bounties d) = Some b" and ids: "distinct (map b_id (bounties d))"
    using assms(1,2) by (simp_all add: bounty_ids_def bounty_by_def)
  show "snd (claimPoolAcceptanceSlot bid d) = free"
    using count_where_key_guard [OF ids row] by (simp add: claimPoolAcceptanceSlot_def sf free_def)
  show "bounty_by bid (fst (claimPoolAcceptanceSlot bid d))
      = Some (if free then b\<lparr>b_accepted := b_accepted b + 1\<rparr> else b)"
    using row find_where_Some [OF row]
    by (simp add: claimPoolAcceptanceSlot_def set_bounty_def bounty_by_def sf free_def find_where_update_where)
  show "bounty_ids (fst (claimPoolAcceptanceSlot bid d))"
    using ids by (simp add: claimPoolAcceptanceSlot_def set_bounty_def bounty_ids_def map_update_where)
  show "fst (claimPoolAcceptanceSlot bid d) = d" if "\<not> free"
    using that update_where_key_guard [OF ids row] by (simp add: claimPoolAcceptanceSlot_def set_bounty_def sf free_def)
  show "submissions (fst (claimPoolAcceptanceSlot bid d)) = submissions d"
    by (simp add: claimPoolAcceptanceSlot_def set_bounty_def)
qed

text \<open>\<open>n\<close> callers, serialised by the row lock in any order.\<close>

fun claim_many :: "nat \<Rightarrow> ident \<Rightarrow> db \<Rightarrow> db \<times> nat" where
  "claim_many 0 bid d = (d, 0)"
| "claim_many (Suc n) bid d =
     (case claimPoolAcceptanceSlot bid d of
        (d', won) \<Rightarrow> (case claim_many n bid d' of (d'', k) \<Rightarrow> (d'', k + (if won then 1 else 0))))"

lemma claim_many_spec:
  assumes "bounty_ids d" and "bounty_by bid d = Some b" and "0 < b_target b" and "b_accepted b \<le> b_target b"
  shows "int (snd (claim_many n bid d)) = min (int n) (b_target b - b_accepted b)
    \<and> bounty_by bid (fst (claim_many n bid d)) = Some (b\<lparr>b_accepted := b_accepted b + int (snd (claim_many n bid d))\<rparr>)"
  using assms
proof (induction n arbitrary: d b)
  case 0
  then show ?case by simp
next
  case (Suc n)
  note spec = claim_spec [OF Suc.prems(1,2)]
  let ?d = "fst (claimPoolAcceptanceSlot bid d)"
  show ?case
  proof (cases "b_accepted b < b_target b")
    case True
    have "int (snd (claim_many n bid ?d)) = min (int n) (b_target b - (b_accepted b + 1))
      \<and> bounty_by bid (fst (claim_many n bid ?d)) = Some (b\<lparr>b_accepted := b_accepted b + 1 + int (snd (claim_many n bid ?d))\<rparr>)"
      using Suc.IH [of ?d "b\<lparr>b_accepted := b_accepted b + 1\<rparr>"] spec True Suc.prems by simp
    with True spec(1) show ?thesis by (simp add: case_prod_beta)
  next
    case False
    have "\<not> (b_target b \<le> 0 \<or> b_accepted b < b_target b)" using False Suc.prems(3) by simp
    then show ?thesis
      using Suc.IH [OF Suc.prems] spec False Suc.prems(3,4) by (simp add: case_prod_beta)
  qed
qed

lemma set_submission_frame [simp]:
  "bounties (set_submission P f d) = bounties d" "jobs (set_submission P f d) = jobs d"
  "awards (set_submission P f d) = awards d" "users (set_submission P f d) = users d"
  "kevents (set_submission P f d) = kevents d"
  by (simp_all add: set_submission_def)

lemma by_set_submission [simp]: "bounty_by k (set_submission P f d) = bounty_by k d"
  "bounty_ids (set_submission P f d) = bounty_ids d"
  by (simp_all add: bounty_by_def bounty_ids_def)

lemma recount_row_fields [simp]:
  "b_target (recount_row e a f b) = b_target b" "b_accepted (recount_row e a f b) = a"
  "b_final_accepted (recount_row e a f b) = f" "b_sponsor_closed (recount_row e a f b) = b_sponsor_closed b"
  by (simp_all add: recount_row_def Let_def close_row_def reopen_row_def)

section \<open>Properties\<close>

definition demo_pool :: "bounty_row \<Rightarrow> submission_row list \<Rightarrow> db" where
  "demo_pool b subs = db0\<lparr>bounties := [b], submissions := subs\<rparr>"

definition demo_bounty :: bounty_row where
  "demo_bounty = bounty0 ''b''"

lemma demo_pool_simps [simp]:
  "bounty_ids (demo_pool b subs)" "bounty_by (b_id b) (demo_pool b subs) = Some b"
  "submissions (demo_pool b subs) = subs" "bounties (demo_pool b subs) = [b]"
  by (simp_all add: demo_pool_def bounty_ids_def bounty_by_def)

lemma demo_bounty_simps [simp]:
  "b_id demo_bounty = ''b''" "b_target demo_bounty = 2" "b_accepted demo_bounty = 0" "b_closed_at demo_bounty = None"
  "b_sponsor_closed demo_bounty = None" "b_final_accepted demo_bounty = 0" "b_status demo_bounty = B_active"
  by (simp_all add: demo_bounty_def bounty0_def)

text \<open>the gate hands out exactly the room there is. Of \<open>n\<close> concurrent callers, however they are
  serialised, as many win as there are free slots, no more and no fewer, and the counter moves by
  exactly the number of winners.\<close>

lemma gate_is_exact:
  assumes "bounty_ids d" and "bounty_by bid d = Some b" and "0 < b_target b" and "b_accepted b \<le> b_target b"
  shows "int (snd (claim_many n bid d)) = min (int n) (b_target b - b_accepted b)
    \<and> bounty_by bid (fst (claim_many n bid d)) = Some (b\<lparr>b_accepted := b_accepted b + int (snd (claim_many n bid d))\<rparr>)"
  by (rule claim_many_spec [OF assms])

lemma gate_is_exact_witness: "snd (claim_many 5 ''b'' (demo_pool demo_bounty [])) = 2"
  using gate_is_exact [of "demo_pool demo_bounty []" "''b''" demo_bounty 5] demo_pool_simps(2) [of demo_bounty "[]"] by simp

text \<open>a recount tells the truth and is idempotent. After it the counters equal the numbers of
  submissions holding a slot and finally accepted, a capped pool is closed exactly when its slots
  are all held, and recounting again, at any time, changes nothing and closes or reopens nothing.\<close>

lemma recount_is_truth:
  assumes "bounty_ids d" and "bounty_by bid d = Some b" and "recomputeAcceptedItemCounters e bid d = Some (d', c)"
  shows "(\<exists>b'. bounty_by bid d' = Some b'
      \<and> b_accepted b' = count_submissions bid POOL_CAPACITY_STATUSES d'
      \<and> b_final_accepted b' = count_submissions bid FINAL_ACCEPTED_STATUSES d'
      \<and> (0 < b_target b' \<longrightarrow> (b_closed_at b' \<noteq> None \<longleftrightarrow> b_accepted b' \<ge> b_target b')))
    \<and> recomputeAcceptedItemCounters e' bid d' = Some (d', c\<lparr>ac_closed := False, ac_reopened := False\<rparr>)"
proof -
  let ?acc = "count_submissions bid POOL_CAPACITY_STATUSES d" and ?fin = "count_submissions bid FINAL_ACCEPTED_STATUSES d"
  have f: "pool_frame d d'" by (rule recompute_frame [OF assms(3)])
  have b': "bounty_by bid d' = Some (recount_row e ?acc ?fin b)"
    and c: "ac_accepted c = ?acc" "ac_final c = ?fin"
    using recompute_spec [OF assms(1,2), of e] assms(3) by auto
  have cnt: "count_submissions bid A d' = count_submissions bid A d" for A
    using f by (rule pool_frame_count)
  have shut: "0 < b_target b \<longrightarrow> (b_closed_at (recount_row e ?acc ?fin b) \<noteq> None \<longleftrightarrow> ?acc \<ge> b_target b)"
    by (auto simp: recount_row_def Let_def close_row_def reopen_row_def)
  have "recomputeAcceptedItemCounters e' bid d' = Some (d', c\<lparr>ac_closed := False, ac_reopened := False\<rparr>)"
    using shut c by (auto simp: recomputeAcceptedItemCounters_def b' cnt set_counters_def close_if_full_def
        reopen_if_room_def Let_def)
  then show ?thesis using b' shut cnt by auto
qed

lemma recount_is_truth_witness:
  "\<exists>d' c. recomputeAcceptedItemCounters (env0 5) ''b'' (demo_pool demo_bounty [submission0 ''s'' ''b'' ''u'' S_accepted]) = Some (d', c)
     \<and> recomputeAcceptedItemCounters (env0 9) ''b'' d' = Some (d', c\<lparr>ac_closed := False, ac_reopened := False\<rparr>)"
proof -
  let ?d = "demo_pool demo_bounty [submission0 ''s'' ''b'' ''u'' S_accepted]"
  have i: "bounty_ids ?d" and b: "bounty_by ''b'' ?d = Some demo_bounty"
    using demo_pool_simps(2) [of demo_bounty] by simp_all
  obtain d' c where r: "recomputeAcceptedItemCounters (env0 5) ''b'' ?d = Some (d', c)"
    using recompute_spec [OF i b, of "env0 5"] by blast
  show ?thesis using recount_is_truth [OF i b r, of "env0 9"] r by blast
qed

text \<open>one close, one sampling job. Whichever path closes the pool first (an acceptance, a
  recount or the sponsor), every later attempt of another path loses the swap and writes nothing
  while the pool stays closed.\<close>

lemma pool_closes_once:
  assumes "close_cas e bid d = (d1, True)"
  shows "bounties (fst (close_cas e' bid d1)) = bounties d1 \<and> \<not> snd (close_cas e' bid d1)
    \<and> checkAndClosePoolIfTargetReached e' bid d1 = d1"
proof -
  have b1: "bounties d1 = update_where (\<lambda>b. b_id b = bid \<and> b_closed_at b = None)
      (\<lambda>b. (close_row (e_now e) b)\<lparr>b_updated := e_now e\<rparr>) (bounties d)"
    using assms by (auto simp: close_cas_def update_bounty_def set_bounty_def)
  have none: "count_where (\<lambda>b. b_id b = bid \<and> b_closed_at b = None) (bounties d1) = 0"
    unfolding b1 by (rule pool_close.swap_once)
  have "b_closed_at b \<noteq> None" if "bounty_by bid d1 = Some b" for b
    using none that by (auto simp: count_where_0_iff bounty_by_def dest: find_where_Some)
  moreover have "bounties (fst (close_cas e' bid d1)) = bounties d1"
    using none by (simp add: close_cas_def update_bounty_def set_bounty_def count_where_0_iff update_where_id)
  ultimately show ?thesis
    using none by (auto simp: close_cas_def checkAndClosePoolIfTargetReached_def split: option.split)
qed

lemma pool_closes_once_witness:
  "\<not> snd (close_cas (env0 9) ''b'' (fst (close_cas (env0 5) ''b'' (demo_pool demo_bounty []))))"
proof -
  have "close_cas (env0 5) ''b'' (demo_pool demo_bounty []) = (fst (close_cas (env0 5) ''b'' (demo_pool demo_bounty [])), True)"
    by (simp add: close_cas_def)
  from pool_closes_once [OF this] show ?thesis by blast
qed

text \<open>a sponsor's early close does not last. The sponsor closes an under-filled pool; the next
  recount of that pool, which every audit decision, sponsor review and sampling run performs,
  reopens it, although the sponsor's close is still on record.\<close>

lemma sponsor_close_is_undone:
  assumes "bounty_ids d" and "bounty_by bid d = Some b" and "b_sponsor_closed b = None" and "b_closed_at b = None"
    and "0 < b_target b" and "count_submissions bid POOL_CAPACITY_STATUSES d < b_target b"
    and "close_pool_early e bid d = (d1, early)"
  shows "\<not> early \<and> (\<exists>b1. bounty_by bid d1 = Some b1 \<and> b_closed_at b1 = Some (e_now e))
    \<and> (\<exists>d2 c b2. recomputeAcceptedItemCounters e' bid d1 = Some (d2, c) \<and> ac_reopened c
         \<and> bounty_by bid d2 = Some b2 \<and> b_closed_at b2 = None \<and> b_sponsor_closed b2 = Some (e_now e))"
proof -
  let ?x = "update_bounty e (\<lambda>b. b_id b = bid \<and> b_sponsor_closed b = None) (\<lambda>b. b\<lparr>b_sponsor_closed := Some (e_now e)\<rparr>) d"
  let ?b1 = "b\<lparr>b_sponsor_closed := Some (e_now e), b_updated := e_now e\<rparr>"
  have x: "bounty_by bid ?x = Some ?b1" using update_bounty_self [OF assms(2)] assms(3) by simp
  have ix: "bounty_ids ?x" using assms(1) by (simp add: update_bounty_ids)
  have won: "snd (close_cas e bid ?x)" using cas_wins(1) [OF ix x] assms(4) by simp
  have cnt: "count_where (\<lambda>b. b_id b = bid \<and> b_sponsor_closed b = None) (bounties d) = 1"
    using count_where_key_guard [of b_id "bounties d" bid b] assms(1-3) by (simp add: bounty_ids_def bounty_by_def)
  have d1: "d1 = enqueuePoolSampling e bid (fst (close_cas e bid ?x))" "\<not> early"
    using assms(4,7) x cnt won by (auto simp: close_pool_early_def Let_def split: prod.splits)
  have enq: "bounty_by bid (enqueuePoolSampling e bid y) = bounty_by bid y" for y
    by (rule bounty_by_cong) simp
  let ?b2 = "(close_row (e_now e) ?b1)\<lparr>b_updated := e_now e\<rparr>"
  have b1: "bounty_by bid d1 = Some ?b2"
    using close_cas_by [OF x, of e] assms(4) by (simp add: d1 enq)
  have i1: "bounty_ids d1" and c1: "count_submissions bid POOL_CAPACITY_STATUSES d1 = count_submissions bid POOL_CAPACITY_STATUSES d"
    using ix pool_frame_ids [OF pool_frame_parts(2)] by (simp_all add: d1 count_submissions_def bounty_ids_def)
  obtain d2 c where "recomputeAcceptedItemCounters e' bid d1 = Some (d2, c)" "ac_reopened c"
      "bounty_by bid d2 = Some (recount_row e' (count_submissions bid POOL_CAPACITY_STATUSES d1)
         (count_submissions bid FINAL_ACCEPTED_STATUSES d1) ?b2)"
    using recompute_spec [OF i1 b1, of e'] assms(5,6) c1 by (auto simp: close_row_def)
  moreover have "b_closed_at (recount_row e' (count_submissions bid POOL_CAPACITY_STATUSES d1) n ?b2) = None" for n
    using assms(5,6) c1 by (simp add: recount_row_def Let_def close_row_def reopen_row_def)
  ultimately show ?thesis using b1 d1(2) by (auto simp: close_row_def)
qed

lemma sponsor_close_is_undone_witness:
  "\<exists>d2 c b2. recomputeAcceptedItemCounters (env0 9) ''b'' (fst (close_pool_early (env0 5) ''b'' (demo_pool demo_bounty []))) = Some (d2, c)
     \<and> bounty_by ''b'' d2 = Some b2 \<and> b_closed_at b2 = None \<and> b_sponsor_closed b2 = Some 5"
proof -
  let ?d = "demo_pool demo_bounty []"
  have b: "bounty_by ''b'' ?d = Some demo_bounty" using demo_pool_simps(2) [of demo_bounty] by simp
  have "count_submissions ''b'' POOL_CAPACITY_STATUSES ?d = 0" by (simp add: count_submissions_def)
  then show ?thesis
    using sponsor_close_is_undone [of ?d "''b''" demo_bounty "env0 5" "fst (close_pool_early (env0 5) ''b'' ?d)"
        "snd (close_pool_early (env0 5) ''b'' ?d)" "env0 9"] b
    by (auto simp: env0_def)
qed

text \<open>the room shown is the room there is, except for uncapped pools. For a capped pool that
  takes contributions the read side shows room exactly when the gate would let an item in, and
  never suggests a call larger than the room or the bulk threshold; an uncapped pool (target 0),
  which the gate never refuses, is shown as full.\<close>

lemma shown_room_matches_gate:
  fixes e :: env
  assumes "bounty_ids d" and "bounty_by bid d = Some b"
  defines "cap \<equiv> poolCapacityFor (b_target b) (b_accepted b) (getBulkThresholdItems e) True"
  shows "(0 < b_target b \<longrightarrow> (snd (claimPoolAcceptanceSlot bid d) \<longleftrightarrow> 0 < pcap_remaining cap))
    \<and> pcap_max_call cap \<le> pcap_remaining cap \<and> pcap_max_call cap \<le> SUBMISSION_ITEMS_HARD_MAX
    \<and> (b_target b = 0 \<and> 0 \<le> b_accepted b \<longrightarrow>
         snd (claimPoolAcceptanceSlot bid d) \<and> pcap_remaining cap = 0 \<and> pcap_path cap = Path_none)"
proof -
  have lim: "getBulkThresholdItems e \<le> SUBMISSION_ITEMS_HARD_MAX"
    by (auto simp: getBulkThresholdItems_def getMaxItemsPerRequest_def boundedInt_def is_int_num_iff int_of_def
        SUBMISSION_ITEMS_HARD_MAX_def min_le_iff_disj)
  have "(0::int) \<le> SUBMISSION_ITEMS_HARD_MAX" by (simp add: SUBMISSION_ITEMS_HARD_MAX_def)
  then show ?thesis
    using claim_spec(1) [OF assms(1,2)] lim by (auto simp: cap_def poolCapacityFor_def Let_def)
qed

lemma shown_room_matches_gate_witness:
  "pcap_path (poolCapacityFor 0 7 (getBulkThresholdItems (env0 0)) True) = Path_none
   \<and> snd (claimPoolAcceptanceSlot ''b'' (demo_pool (demo_bounty\<lparr>b_target := 0, b_accepted := 7\<rparr>) []))"
  using shown_room_matches_gate [of "demo_pool (demo_bounty\<lparr>b_target := 0, b_accepted := 7\<rparr>) []" "''b''"
      "demo_bounty\<lparr>b_target := 0, b_accepted := 7\<rparr>" "env0 0"]
    demo_pool_simps(2) [of "demo_bounty\<lparr>b_target := 0, b_accepted := 7\<rparr>" "[]"]
  by simp

text \<open>the reconcile sweep starves. It takes the pools that were written longest ago, and a pool
  whose counters are right is not written to; so when the first \<open>limit\<close> open pools are healthy,
  every tick scans the same ones and a drifted pool behind them is never repaired.\<close>

lemma reconcile_starves:
  assumes "\<forall>e. \<forall>p \<in> set (open_pools limit d). \<exists>c. recomputeAcceptedItemCounters e (b_id p) d = Some (d, c)"
  shows "fold (\<lambda>e x. fst (reconcileOpenCommunityPools e limit x)) ticks d = d"
proof -
  have loop: "fst (reconcile_loop e ps r d) = d"
    if "\<forall>p \<in> set ps. \<exists>c. recomputeAcceptedItemCounters e (b_id p) d = Some (d, c)" for e ps r
    using that by (induction ps arbitrary: r) auto
  have "fst (reconcileOpenCommunityPools e limit d) = d" for e
    unfolding reconcileOpenCommunityPools_def by (rule loop) (use assms in blast)
  then show ?thesis by (induction ticks) auto
qed

text \<open>Two open pools: the first is healthy, the second has one accepted item its counter missed.\<close>

definition drifted_pools :: db where
  "drifted_pools = db0\<lparr>bounties := [bounty0 ''a'', (bounty0 ''b'')\<lparr>b_updated := 1\<rparr>],
     submissions := [submission0 ''s'' ''b'' ''u'' S_accepted]\<rparr>"

lemma reconcile_starves_witness:
  "fold (\<lambda>e x. fst (reconcileOpenCommunityPools e 1 x)) [env0 5, env0 6] drifted_pools = drifted_pools
   \<and> map b_accepted (bounties drifted_pools) = [0, 0]
   \<and> count_submissions ''b'' POOL_CAPACITY_STATUSES drifted_pools = 1"
proof (intro conjI)
  have "open_pools 1 drifted_pools = [bounty0 ''a'']"
    by (simp add: open_pools_def drifted_pools_def bounty0_def)
  moreover have "recomputeAcceptedItemCounters e ''a'' drifted_pools
      = Some (drifted_pools, \<lparr>ac_accepted = 0, ac_final = 0, ac_closed = False, ac_reopened = False\<rparr>)" for e
    by (simp add: recomputeAcceptedItemCounters_def bounty_by_def drifted_pools_def bounty0_def submission0_def
        count_submissions_def set_counters_def close_if_full_def reopen_if_room_def Let_def)
  ultimately show "fold (\<lambda>e x. fst (reconcileOpenCommunityPools e 1 x)) [env0 5, env0 6] drifted_pools = drifted_pools"
    by (intro reconcile_starves) (simp add: bounty0_def)
qed (simp_all add: drifted_pools_def bounty0_def submission0_def count_submissions_def POOL_CAPACITY_STATUSES_def)

end
