(* ===== verification/Submissions.thy ===== *)
theory Submissions
  imports Dedup_Lsh Artifact_Attach Pool_Counters
begin

text \<open>
  \<open>services/submissions.ts\<close>: the three intake paths of an open pool, the revision of an item and
  the rerun of its validation. A call is a read on one database (the argument \<open>d0\<close>) and its
  transaction on a later one; a revision is the sequence of its separate writes. \<open>String(n)\<close> is \<open>num\<close>,
  \<open>JSON.parse\<close> is \<open>parse\<close>. Titles and \<open>generationMethod\<close> are stored and never read by the decisions
  here; they are left out. All rows are those of open pools (\<open>contributorBatchId\<close> null).
\<close>

section \<open>Keys and limits\<close>

text \<open>\<open>JSON.stringify\<close>\<close>

definition hex_char :: "nat \<Rightarrow> char" where
  "hex_char n = (if n < 10 then char_of (48 + n) else char_of (87 + n))"

definition escape_char :: "char \<Rightarrow> string" where
  "escape_char c =
     (let n = of_char c :: nat
      in if c = CHR 0x22 \<or> c = CHR 0x5C then [CHR 0x5C, c]
         else if n = 8 then [CHR 0x5C, CHR ''b''] else if n = 9 then [CHR 0x5C, CHR ''t'']
         else if n = 10 then [CHR 0x5C, CHR ''n''] else if n = 12 then [CHR 0x5C, CHR ''f'']
         else if n = 13 then [CHR 0x5C, CHR ''r'']
         else if n < 32 then [CHR 0x5C] @ ''u00'' @ [hex_char (n div 16), hex_char (n mod 16)] else [c])"

definition quoted :: "string \<Rightarrow> string" where
  "quoted s = [CHR 0x22] @ concat (map escape_char s) @ [CHR 0x22]"

fun json_text :: "(real \<Rightarrow> string) \<Rightarrow> json \<Rightarrow> string" where
  "json_text num JNull = ''null''"
| "json_text num (JBool b) = (if b then ''true'' else ''false'')"
| "json_text num (JNum x) = num x"
| "json_text num (JStr s) = quoted s"
| "json_text num (JArr vs) = ''['' @ comma_join (map (json_text num) vs) @ '']''"
| "json_text num (JObj kvs) = ''{'' @ comma_join (map (\<lambda>(k, v). quoted k @ '':'' @ json_text num v) kvs) @ ''}''"

definition computeDedupeKey :: "env \<Rightarrow> (real \<Rightarrow> string) \<Rightarrow> json \<Rightarrow> string" where
  "computeDedupeKey e num p = e_sha256 e (case p of JStr s \<Rightarrow> js_trim s | _ \<Rightarrow> json_text num p)"

definition REVISABLE_STATUSES :: "submission_status list" where
  "REVISABLE_STATUSES = [S_needs_fixes, S_flagged, S_rejected, S_tests_failed]"

definition AUTOMATED_RERUNNABLE_STATUSES :: "submission_status list" where
  "AUTOMATED_RERUNNABLE_STATUSES = [S_needs_fixes, S_tests_failed, S_rejected]"

definition DEFAULT_MAX_REVISIONS :: int where "DEFAULT_MAX_REVISIONS = 3"

definition getMaxRevisions :: "env \<Rightarrow> int" where
  "getMaxRevisions e =
     (let v = e_setting e ''submissions.max_revisions''
      in if is_int_num v \<and> 0 \<le> int_of v then int_of v else DEFAULT_MAX_REVISIONS)"

section \<open>The partial unique index\<close>

text \<open>\<open>submissions_bounty_batch_dedupe_key_active_unique\<close>: no two rows of one pool that are not rejected
  share a key. A write that would break it throws.\<close>

definition key_taken :: "submission_row \<Rightarrow> db \<Rightarrow> bool" where
  "key_taken s d \<longleftrightarrow>
     s_status s \<noteq> S_rejected \<and> s_dedupe s \<noteq> None
     \<and> list_ex (\<lambda>x. s_id x \<noteq> s_id s \<and> s_bounty x = s_bounty s \<and> s_dedupe x = s_dedupe s \<and> s_status x \<noteq> S_rejected)
         (submissions d)"

definition insert_submission :: "submission_row \<Rightarrow> db \<Rightarrow> db" where
  "insert_submission s d = d\<lparr>submissions := submissions d @ [s], db_seq := Suc (db_seq d)\<rparr>"

definition create_submission :: "submission_row \<Rightarrow> db \<Rightarrow> db option" where
  "create_submission s d = (if key_taken s d then None else Some (insert_submission s d))"

section \<open>Intake\<close>

definition find_dup :: "ident \<Rightarrow> string \<Rightarrow> db \<Rightarrow> ident option" where
  "find_dup bid key d =
     map_option s_id (find_where (\<lambda>s. s_bounty s = bid \<and> s_dedupe s = Some key \<and> s_status s \<noteq> S_rejected) (submissions d))"

definition new_submission ::
  "env \<Rightarrow> ident \<Rightarrow> ident \<Rightarrow> json \<Rightarrow> string option \<Rightarrow> submission_status \<Rightarrow> real \<Rightarrow> ident option \<Rightarrow> db \<Rightarrow> submission_row" where
  "new_submission e bid user payload key st score dup d =
     \<lparr>s_id = fresh e d, s_bounty = bid, s_contributor = user, s_payload = payload, s_status = st,
      s_dup_score = Some score, s_dup_method = None, s_dup_of = dup, s_dup_decision = None,
      s_contamination = None, s_llm = None, s_revisions = 0, s_attempt = 0, s_accepted_at = None,
      s_pending_review = False, s_dedupe = key, s_created = e_now e, s_updated = e_now e\<rparr>"

text \<open>The insert, and what the code does when it hits the index.\<close>

definition store_item :: "env \<Rightarrow> ident \<Rightarrow> ident \<Rightarrow> json \<Rightarrow> string \<Rightarrow> ident option \<Rightarrow> real \<Rightarrow> db \<Rightarrow> db \<times> submission_row" where
  "store_item e bid user payload key dup score d =
     (let s = new_submission e bid user payload (Some key) (if dup = None then S_submitted else S_rejected) score dup d
      in case create_submission s d of
           Some d' \<Rightarrow> (d', s)
         | None \<Rightarrow> (let w = new_submission e bid user payload None S_rejected 1 (find_dup bid key d) d
                    in (insert_submission w d, w)))"

definition enqueueValidation :: "env \<Rightarrow> string \<Rightarrow> ident \<Rightarrow> int \<Rightarrow> db \<Rightarrow> db" where
  "enqueueValidation e key k attempt d =
     fst (enqueue e \<lparr>jq_type = ''validation.run'', jq_key = key,
                     jq_payload = JObj [(''submissionId'', JStr k), (''validationAttempt'', JNum (real_of_int attempt))],
                     jq_max = None, jq_workspace = None, jq_run_after = None\<rparr> d)"

text \<open>One item of an intake: the lookups, and the insert on what they found. The lock of the pool is held over both,
  but only intakes take it.\<close>

definition look_up_item :: "env \<Rightarrow> (real \<Rightarrow> string) \<Rightarrow> ident \<Rightarrow> json \<Rightarrow> db \<Rightarrow> ident option \<times> real" where
  "look_up_item e num bid payload d =
     (let dup = find_dup bid (computeDedupeKey e num payload) d
      in (dup, if dup \<noteq> None then 1 else computeNearDupScore bid (computeLshBands e num payload) None d))"

definition insert_item ::
  "env \<Rightarrow> (real \<Rightarrow> string) \<Rightarrow> ident \<Rightarrow> ident \<Rightarrow> json \<Rightarrow> ident option \<Rightarrow> real \<Rightarrow> db \<Rightarrow> db \<times> submission_row" where
  "insert_item e num bid user payload dup score d =
     (let (d1, s) = store_item e bid user payload (computeDedupeKey e num payload) dup score d;
          d2 = writeLshBands (s_id s) (computeLshBands e num payload) d1
      in ((if s_status s = S_submitted then enqueueValidation e (''val:'' @ s_id s @ '':0'') (s_id s) 0 d2 else d2), s))"

definition intake_item :: "env \<Rightarrow> (real \<Rightarrow> string) \<Rightarrow> ident \<Rightarrow> ident \<Rightarrow> json \<Rightarrow> db \<Rightarrow> db \<times> submission_row" where
  "intake_item e num bid user payload d =
     (case look_up_item e num bid payload d of (dup, score) \<Rightarrow> insert_item e num bid user payload dup score d)"

text \<open>The items of one call, when no other call writes between the lookups and the insert of an item.\<close>

fun intake_items :: "env \<Rightarrow> (real \<Rightarrow> string) \<Rightarrow> ident \<Rightarrow> ident \<Rightarrow> json list \<Rightarrow> db \<Rightarrow> db \<times> submission_row list" where
  "intake_items e num bid user [] d = (d, [])"
| "intake_items e num bid user (p # ps) d =
     (let (d1, s) = intake_item e num bid user p d; (d2, ss) = intake_items e num bid user ps d1 in (d2, s # ss))"

text \<open>The bulk loop: \<open>n\<close> items that are not duplicates were created so far.\<close>

fun bulk_items ::
  "env \<Rightarrow> (real \<Rightarrow> string) \<Rightarrow> ident \<Rightarrow> ident \<Rightarrow> bounty_row \<Rightarrow> json list \<Rightarrow> int \<Rightarrow> db \<Rightarrow> db \<times> submission_row list \<times> bool" where
  "bulk_items e num bid user b [] n d = (d, [], False)"
| "bulk_items e num bid user b (p # ps) n d =
     (if find_dup bid (computeDedupeKey e num p) d = None \<and> b_target b > 0 \<and> b_accepted b + n \<ge> b_target b
      then (d, [], True)
      else let (d1, s) = intake_item e num bid user p d;
               (d2, ss, stopped) = bulk_items e num bid user b ps (if s_status s = S_submitted then n + 1 else n) d1
           in (d2, s # ss, stopped))"

datatype intake_error = Pool_not_found | Pool_not_accepting | Pool_inactive | Pool_full | Too_many_items | Invalid_file_reference

definition target_reached :: "bounty_row \<Rightarrow> bool" where
  "target_reached b \<longleftrightarrow> b_target b > 0 \<and> b_accepted b \<ge> b_target b"

text \<open>Attaching the files, or rolling back.\<close>

definition attach_created ::
  "(string \<Rightarrow> json option) \<Rightarrow> json option \<Rightarrow> ident \<Rightarrow> ident \<Rightarrow> submission_row list \<Rightarrow> json list \<Rightarrow> db \<Rightarrow> intake_error + db" where
  "attach_created parse fcol bid user ss ps d =
     (case attachFileArtifacts parse (zip (map s_id ss) ps) (fileFieldsForBounty fcol) bid None user d of
        None \<Rightarrow> Inl Invalid_file_reference | Some (d', n) \<Rightarrow> Inr d')"

definition createBountyPoolItems ::
  "env \<Rightarrow> (real \<Rightarrow> string) \<Rightarrow> (string \<Rightarrow> json option) \<Rightarrow> json option \<Rightarrow> ident \<Rightarrow> ident \<Rightarrow> json list \<Rightarrow> db \<Rightarrow> db
   \<Rightarrow> intake_error + (db \<times> submission_row list)" where
  "createBountyPoolItems e num parse fcol bid user items d0 d =
     (case bounty_by bid d0 of
        None \<Rightarrow> Inl Pool_not_found
      | Some b \<Rightarrow>
          (if b_status b \<noteq> B_active then Inl Pool_not_accepting
           else if target_reached b then Inl Pool_full
           else case intake_items e num bid user items d of (d1, ss) \<Rightarrow>
                  (case attach_created parse fcol bid user ss items d1 of
                     Inl err \<Rightarrow> Inl err | Inr d2 \<Rightarrow> Inr (d2, ss))))"

definition createPoolSubmission ::
  "env \<Rightarrow> (real \<Rightarrow> string) \<Rightarrow> (string \<Rightarrow> json option) \<Rightarrow> json option \<Rightarrow> ident \<Rightarrow> ident \<Rightarrow> json \<Rightarrow> db \<Rightarrow> db
   \<Rightarrow> intake_error + (db \<times> submission_row)" where
  "createPoolSubmission e num parse fcol bid user payload d0 d =
     (case bounty_by bid d0 of
        None \<Rightarrow> Inl Pool_inactive
      | Some b \<Rightarrow>
          (if b_status b \<noteq> B_active then Inl Pool_inactive
           else case intake_item e num bid user payload d of (d1, s) \<Rightarrow>
                  (case attach_created parse fcol bid user [s] [payload] d1 of
                     Inl err \<Rightarrow> Inl err | Inr d2 \<Rightarrow> Inr (d2, s))))"

definition submitPoolBatchItems ::
  "env \<Rightarrow> (real \<Rightarrow> string) \<Rightarrow> (string \<Rightarrow> json option) \<Rightarrow> json option \<Rightarrow> ident \<Rightarrow> ident \<Rightarrow> json list \<Rightarrow> db \<Rightarrow> db
   \<Rightarrow> intake_error + (db \<times> submission_row list \<times> bool)" where
  "submitPoolBatchItems e num parse fcol bid user items d0 d =
     (if int (length items) > fst (getPoolSubmitLimits e) then Inl Too_many_items
      else case bounty_by bid d0 of
        None \<Rightarrow> Inl Pool_inactive
      | Some b \<Rightarrow>
          (if b_status b \<noteq> B_active then Inl Pool_inactive
           else if target_reached b then Inl Pool_full
           else case bulk_items e num bid user b items 0 d of (d1, ss, stopped) \<Rightarrow>
                  (case attach_created parse fcol bid user ss items d1 of
                     Inl err \<Rightarrow> Inl err | Inr d2 \<Rightarrow> Inr (d2, ss, stopped))))"

section \<open>Revision\<close>

datatype revise_error = Rv_not_found | Rv_not_revisable | Rv_pool_closed | Rv_revision_cap_exceeded | Rv_concurrent_change

text \<open>The read and its checks; a submission's pool exists (foreign key).\<close>

definition revise_read :: "ident \<Rightarrow> ident \<Rightarrow> db \<Rightarrow> revise_error + (submission_row \<times> bounty_row)" where
  "revise_read user k d =
     (case submission_by k d of
        None \<Rightarrow> Inl Rv_not_found
      | Some s \<Rightarrow>
          (if s_contributor s \<noteq> user then Inl Rv_not_found
           else if \<not> List.member REVISABLE_STATUSES (s_status s) then Inl Rv_not_revisable
           else case bounty_by (s_bounty s) d of
                  None \<Rightarrow> Inl Rv_not_found
                | Some b \<Rightarrow> (if b_closed_at b \<noteq> None then Inl Rv_pool_closed else Inr (s, b))))"

text \<open>The raw conditional update that reserves an attempt, and the number it returns.\<close>

definition revision_claimable :: "ident \<Rightarrow> int \<Rightarrow> ident \<Rightarrow> submission_row \<Rightarrow> bool" where
  "revision_claimable user cap k x \<longleftrightarrow>
     s_id x = k \<and> s_contributor x = user \<and> List.member REVISABLE_STATUSES (s_status x) \<and> (cap = 0 \<or> s_revisions x < cap)"

definition claim_revision :: "ident \<Rightarrow> int \<Rightarrow> ident \<Rightarrow> db \<Rightarrow> db \<times> int option" where
  "claim_revision user cap k d =
     (set_submission (revision_claimable user cap k) (\<lambda>x. x\<lparr>s_revisions := s_revisions x + 1\<rparr>) d,
      map_option (\<lambda>x. s_revisions x + 1) (find_where (revision_claimable user cap k) (submissions d)))"

text \<open>What follows a claim that matched no row. The pool and the item are those of the first read.\<close>

definition refuse_revision :: "env \<Rightarrow> ident \<Rightarrow> int \<Rightarrow> submission_row \<Rightarrow> bounty_row \<Rightarrow> db \<Rightarrow> db \<times> revise_error" where
  "refuse_revision e user cap s b d =
     (case submission_by (s_id s) d of
        None \<Rightarrow> (d, Rv_concurrent_change)
      | Some x \<Rightarrow>
          (if cap \<noteq> 0 \<and> s_revisions x \<ge> cap
           then let d1 = (if s_status x \<noteq> S_rejected
                          then set_submission (\<lambda>y. s_id y = s_id s) (\<lambda>y. y\<lparr>s_status := S_rejected, s_updated := e_now e\<rparr>) d
                          else d);
                    d2 = notifyEvent e ''submission.rejected''
                           \<lparr>em_user = user, em_entity = Some (s_id s), em_suffix = Some (s_id s @ '':revision-cap''),
                            em_bounty = Some (s_bounty s)\<rparr> d1;
                    req = or_else (b_community_requester b) (b_requester b)
                in ((if req \<noteq> [] \<and> req \<noteq> user
                     then notifyEvent e ''submission.rejected_final''
                            \<lparr>em_user = req, em_entity = Some (s_id s), em_suffix = Some (s_id s @ '':revision-cap:sponsor''),
                             em_bounty = Some (s_bounty s)\<rparr> d2
                     else d2), Rv_revision_cap_exceeded)
           else (d, Rv_concurrent_change)))"

text \<open>The snapshot of the replaced version, with the evidence of the first read, newest first.\<close>

definition evidence_of :: "ident \<Rightarrow> db \<Rightarrow> validation_row list" where
  "evidence_of k d = rev (filter (\<lambda>r. vr_submission r = k) (vresults d))"

definition snapshot_revision :: "env \<Rightarrow> submission_row \<Rightarrow> validation_row list \<Rightarrow> int \<Rightarrow> db \<Rightarrow> db" where
  "snapshot_revision e s evidence n d =
     d\<lparr>revisions := revisions d @ [\<lparr>rv_id = fresh e d, rv_submission = s_id s, rv_number = n, rv_payload = s_payload s,
          rv_status = s_status s, rv_dup_score = s_dup_score s, rv_llm = s_llm s, rv_evidence = evidence\<rparr>],
        db_seq := Suc (db_seq d)\<rparr>"

definition revised_row :: "env \<Rightarrow> json \<Rightarrow> string \<Rightarrow> submission_row \<Rightarrow> submission_row" where
  "revised_row e payload key x =
     x\<lparr>s_payload := payload, s_dedupe := Some key, s_status := S_submitted, s_attempt := s_attempt x + 1,
       s_updated := e_now e\<rparr>"

text \<open>An absent winner leaves \<open>duplicateOfSubmissionId\<close> as it is.\<close>

definition collided_row :: "env \<Rightarrow> json \<Rightarrow> ident option \<Rightarrow> submission_row \<Rightarrow> submission_row" where
  "collided_row e payload winner x =
     x\<lparr>s_payload := payload, s_dedupe := None, s_status := S_rejected, s_dup_score := Some 1,
       s_dup_of := (if winner = None then s_dup_of x else winner), s_attempt := s_attempt x + 1, s_updated := e_now e\<rparr>"

definition other_holder :: "submission_row \<Rightarrow> string \<Rightarrow> db \<Rightarrow> ident option" where
  "other_holder s key d =
     map_option s_id (find_where (\<lambda>x. s_bounty x = s_bounty s \<and> s_dedupe x = Some key \<and> s_status x \<noteq> S_rejected
                                      \<and> s_id x \<noteq> s_id s) (submissions d))"

definition write_revision :: "env \<Rightarrow> submission_row \<Rightarrow> json \<Rightarrow> string \<Rightarrow> db \<Rightarrow> db \<times> submission_row option" where
  "write_revision e s payload key d =
     (case submission_by (s_id s) d of
        None \<Rightarrow> (d, None)
      | Some x \<Rightarrow>
          (let y = (if key_taken (revised_row e payload key x) d then collided_row e payload (other_holder s key d) x
                    else revised_row e payload key x)
           in (set_submission (\<lambda>z. s_id z = s_id s) (\<lambda>z. y) d, Some y)))"

definition finish_revision ::
  "env \<Rightarrow> (real \<Rightarrow> string) \<Rightarrow> submission_row \<Rightarrow> validation_row list \<Rightarrow> json \<Rightarrow> int \<Rightarrow> db \<Rightarrow> db \<times> submission_row option" where
  "finish_revision e num s evidence payload n d =
     (case write_revision e s payload (computeDedupeKey e num payload) (snapshot_revision e s evidence n d) of
        (d2, None) \<Rightarrow> (d2, None)
      | (d2, Some y) \<Rightarrow>
          ((if s_status y = S_submitted
            then enqueueValidation e (''val:'' @ s_id y @ '':'' @ show_int n) (s_id y) (s_attempt y) d2 else d2), Some y))"

definition reviseSubmission ::
  "env \<Rightarrow> (real \<Rightarrow> string) \<Rightarrow> ident \<Rightarrow> ident \<Rightarrow> json \<Rightarrow> db \<Rightarrow> db \<times> (revise_error + submission_row option)" where
  "reviseSubmission e num user k payload d =
     (case revise_read user k d of
        Inl err \<Rightarrow> (d, Inl err)
      | Inr (s, b) \<Rightarrow>
          (let cap = getMaxRevisions e
           in case claim_revision user cap k d of
                (d1, None) \<Rightarrow> (case refuse_revision e user cap s b d1 of (d2, err) \<Rightarrow> (d2, Inl err))
              | (d1, Some n) \<Rightarrow>
                  (case finish_revision e num s (evidence_of k d) payload n d1 of (d2, y) \<Rightarrow> (d2, Inr y))))"

section \<open>Rerun\<close>

text \<open>The transaction; \<open>Rr_unique_violation\<close> is the database error the code does not catch.\<close>

datatype rerun_error = Rr_not_found | Rr_not_rerunnable | Rr_pool_closed | Rr_concurrent_change | Rr_unique_violation

definition validator_decided :: "ident \<Rightarrow> db \<Rightarrow> bool" where
  "validator_decided k d \<longleftrightarrow> list_ex (\<lambda>a. ai_submission a = k \<and> ai_decided a \<noteq> None) (aitems d)"

definition failed_automated :: "submission_row \<Rightarrow> db \<Rightarrow> bool" where
  "failed_automated s d \<longleftrightarrow>
     list_ex (\<lambda>r. vr_submission r = s_id s \<and> vr_attempt r = s_attempt s \<and> vr_stage r \<noteq> ''human_audit'' \<and> \<not> vr_passed r)
       (vresults d)"

definition rerun_row :: "env \<Rightarrow> submission_row \<Rightarrow> submission_row" where
  "rerun_row e x = x\<lparr>s_status := S_submitted, s_pending_review := False, s_attempt := s_attempt x + 1, s_updated := e_now e\<rparr>"

definition rerun_claims :: "submission_row \<Rightarrow> submission_row \<Rightarrow> bool" where
  "rerun_claims s x \<longleftrightarrow>
     s_id x = s_id s \<and> s_contributor x = s_contributor s \<and> List.member AUTOMATED_RERUNNABLE_STATUSES (s_status x)
     \<and> s_attempt x = s_attempt s"

text \<open>The guarded update and the enqueue, on the database as it is then; \<open>s\<close> is the row read.\<close>

definition rerun_write :: "env \<Rightarrow> submission_row \<Rightarrow> db \<Rightarrow> rerun_error + db" where
  "rerun_write e s d =
     (case find_where (rerun_claims s) (submissions d) of
        None \<Rightarrow> Inl Rr_concurrent_change
      | Some x \<Rightarrow>
          (if key_taken (rerun_row e x) d then Inl Rr_unique_violation
           else Inr (enqueueValidation e (''val:'' @ s_id s @ '':attempt:'' @ show_int (s_attempt s + 1)) (s_id s) (s_attempt s + 1)
                       (set_submission (rerun_claims s) (rerun_row e) d))))"

definition rerunSubmissionValidation :: "env \<Rightarrow> ident \<Rightarrow> ident \<Rightarrow> db \<Rightarrow> rerun_error + db" where
  "rerunSubmissionValidation e user k d =
     (case submission_by k d of
        None \<Rightarrow> Inl Rr_not_found
      | Some s \<Rightarrow>
          (if s_contributor s \<noteq> user then Inl Rr_not_found
           else if \<not> List.member AUTOMATED_RERUNNABLE_STATUSES (s_status s) then Inl Rr_not_rerunnable
           else if (case bounty_by (s_bounty s) d of None \<Rightarrow> False | Some b \<Rightarrow> b_closed_at b \<noteq> None) then Inl Rr_pool_closed
           else if validator_decided k d then Inl Rr_not_rerunnable
           else if \<not> failed_automated s d then Inl Rr_not_rerunnable
           else rerun_write e s d))"

section \<open>What every operation keeps\<close>

definition holds_key :: "submission_row \<Rightarrow> bool" where
  "holds_key s \<longleftrightarrow> s_status s \<noteq> S_rejected \<and> s_dedupe s \<noteq> None"

text \<open>Two rows the index forbids together.\<close>

definition clashes :: "submission_row \<Rightarrow> submission_row \<Rightarrow> bool" where
  "clashes x y \<longleftrightarrow>
     holds_key x \<and> holds_key y \<and> s_bounty y = s_bounty x \<and> s_dedupe y = s_dedupe x \<and> s_id y \<noteq> s_id x"

lemma clashes_sym: "clashes x y \<Longrightarrow> clashes y x"
  by (auto simp: clashes_def)

definition keys_unique :: "db \<Rightarrow> bool" where
  "keys_unique d \<longleftrightarrow> (\<forall>x \<in> set (submissions d). \<forall>y \<in> set (submissions d). \<not> clashes x y)"

text \<open>Ids come from the supply, and rows of a submission are not written before it exists.\<close>

definition intake_ok :: "env \<Rightarrow> db \<Rightarrow> bool" where
  "intake_ok e d \<longleftrightarrow>
     inj (e_id e) \<and> submission_ids d \<and> keys_unique d \<and> bands_unique d
     \<and> (\<forall>s \<in> set (submissions d). \<exists>n < db_seq d. s_id s = e_id e n)
     \<and> (\<forall>r \<in> set (bands d). \<exists>n < db_seq d. lb_submission r = e_id e n)"

lemma same_row: "submission_ids d \<Longrightarrow> x \<in> set (submissions d) \<Longrightarrow> y \<in> set (submissions d) \<Longrightarrow> s_id x = s_id y \<Longrightarrow> x = y"
  by (auto simp: submission_ids_def distinct_map inj_on_def)

lemma fresh_unused:
  assumes "intake_ok e d"
  shows "fresh e d \<notin> s_id ` set (submissions d)" and "\<forall>r \<in> set (bands d). lb_submission r \<noteq> fresh e d"
  using assms by (auto simp: intake_ok_def fresh_def dest: injD) (metis injD nat_neq_iff)+

lemma enqueue_seq: "db_seq d \<le> db_seq (fst (enqueue e q d))"
  by (simp add: enqueue_def enqueue_rearm_def split: option.split)

lemma enqueueValidation_frame [simp]:
  "submissions (enqueueValidation e k s a d) = submissions d" "bands (enqueueValidation e k s a d) = bands d"
  "bounties (enqueueValidation e k s a d) = bounties d" "vresults (enqueueValidation e k s a d) = vresults d"
  "revisions (enqueueValidation e k s a d) = revisions d"
  "db_seq d \<le> db_seq (enqueueValidation e k s a d)"
  by (simp_all add: enqueueValidation_def enqueue_seq)

lemma insert_submission_frame [simp]:
  "submissions (insert_submission s d) = submissions d @ [s]" "bands (insert_submission s d) = bands d"
  "bounties (insert_submission s d) = bounties d" "db_seq (insert_submission s d) = Suc (db_seq d)"
  "jobs (insert_submission s d) = jobs d"
  by (simp_all add: insert_submission_def)

lemma writeLshBands_frame [simp]:
  "db_seq (writeLshBands k bs d) = db_seq d" "bounties (writeLshBands k bs d) = bounties d" "jobs (writeLshBands k bs d) = jobs d"
  by (simp_all add: writeLshBands_def)

lemma set_submission_writes [simp]:
  "bands (set_submission P f d) = bands d" "db_seq (set_submission P f d) = db_seq d" "jobs (set_submission P f d) = jobs d"
  "submissions (set_submission P f d) = update_where P f (submissions d)"
  by (simp_all add: set_submission_def)

lemma key_taken_iff: "key_taken s d \<longleftrightarrow> (\<exists>x \<in> set (submissions d). clashes s x)"
  by (auto simp: key_taken_def list_ex_iff holds_key_def clashes_def)

lemma keys_insert:
  assumes "keys_unique d" and "\<not> key_taken s d"
  shows "keys_unique (insert_submission s d)"
proof -
  have "\<not> clashes s x" "\<not> clashes x s" if "x \<in> set (submissions d)" for x
    using assms(2) that clashes_sym by (auto simp: key_taken_iff)
  moreover have "\<not> clashes s s" by (simp add: clashes_def)
  ultimately show ?thesis using assms(1) by (simp add: keys_unique_def)
qed

text \<open>A write of one row: it may take a key nobody else holds.\<close>

lemma keys_update:
  assumes "keys_unique d"
    and one: "\<And>x. x \<in> set (submissions d) \<Longrightarrow> P x \<Longrightarrow> s_id (f x) = k \<and> \<not> key_taken (f x) d"
  shows "keys_unique (set_submission P f d)"
proof -
  let ?g = "\<lambda>x. if P x then f x else x"
  have l: "\<not> clashes (?g x) y" if "x \<in> set (submissions d)" "y \<in> set (submissions d)" for x y
    using assms(1) one [OF that(1)] that by (auto simp: keys_unique_def key_taken_iff)
  have "\<not> clashes (?g x) (?g y)" if x: "x \<in> set (submissions d)" and y: "y \<in> set (submissions d)" for x y
  proof (cases "P x \<and> P y")
    case True
    then have "s_id (?g x) = s_id (?g y)" using one x y by simp
    then show ?thesis by (simp add: clashes_def)
  next
    case False
    then have "?g x = x \<or> ?g y = y" by auto
    then show ?thesis using l [OF x y] l [OF y x] clashes_sym by metis
  qed
  then show ?thesis unfolding keys_unique_def set_submission_writes update_where_def set_map by blast
qed

lemma keys_weaken:
  assumes "keys_unique d"
    and "\<And>x. P x \<Longrightarrow> s_id (f x) = s_id x \<and> s_bounty (f x) = s_bounty x \<and> s_dedupe (f x) = s_dedupe x
              \<and> (holds_key (f x) \<longrightarrow> holds_key x)"
  shows "keys_unique (set_submission P f d)"
proof -
  let ?g = "\<lambda>x. if P x then f x else x"
  have g: "s_id (?g x) = s_id x \<and> s_bounty (?g x) = s_bounty x \<and> s_dedupe (?g x) = s_dedupe x
           \<and> (holds_key (?g x) \<longrightarrow> holds_key x)" for x
    using assms(2) [of x] by (cases "P x") simp_all
  have "clashes (?g x) (?g y) \<Longrightarrow> clashes x y" for x y
    using g [of x] g [of y] unfolding clashes_def by metis
  with assms(1) have "\<not> clashes (?g x) (?g y)" if "x \<in> set (submissions d)" "y \<in> set (submissions d)" for x y
    using that unfolding keys_unique_def by blast
  then show ?thesis unfolding keys_unique_def set_submission_writes update_where_def set_map by blast
qed

lemma ids_update:
  "intake_ok e d \<Longrightarrow> (\<And>x. P x \<Longrightarrow> s_id (f x) = s_id x) \<Longrightarrow> keys_unique (set_submission P f d)
   \<Longrightarrow> intake_ok e (set_submission P f d)"
  by (auto simp: intake_ok_def submission_ids_def bands_unique_def map_update_where set_update_where)

lemma intake_ok_mono:
  assumes "intake_ok e d" and "submissions d' = submissions d" and "bands d' = bands d" and "db_seq d \<le> db_seq d'"
  shows "intake_ok e d'"
  using assms unfolding intake_ok_def submission_ids_def keys_unique_def bands_unique_def by (metis order_less_le_trans)

lemma find_dup_None: "find_dup bid key d = None \<longleftrightarrow>
    (\<forall>x \<in> set (submissions d). \<not> (s_bounty x = bid \<and> s_dedupe x = Some key \<and> s_status x \<noteq> S_rejected))"
  by (simp add: find_dup_def find_where_None_iff)

text \<open>The catch around the insert is never entered: the lookup saw the row that would collide.\<close>

lemma store_item_direct:
  assumes "dup = find_dup bid key d"
  shows "store_item e bid user payload key dup score d =
    (let s = new_submission e bid user payload (Some key) (if dup = None then S_submitted else S_rejected) score dup d
     in (insert_submission s d, s))"
proof -
  let ?s = "new_submission e bid user payload (Some key) (if dup = None then S_submitted else S_rejected) score dup d"
  have "\<not> key_taken ?s d"
  proof (cases dup)
    case None
    then show ?thesis using find_dup_None [of bid key d] assms
      by (auto simp: key_taken_def list_ex_iff new_submission_def)
  qed (simp add: key_taken_def new_submission_def)
  then show ?thesis by (simp add: store_item_def create_submission_def Let_def)
qed

definition stored_item :: "env \<Rightarrow> (real \<Rightarrow> string) \<Rightarrow> ident \<Rightarrow> ident \<Rightarrow> json \<Rightarrow> db \<Rightarrow> submission_row" where
  "stored_item e num bid user payload d =
     (let dup = find_dup bid (computeDedupeKey e num payload) d
      in new_submission e bid user payload (Some (computeDedupeKey e num payload)) (if dup = None then S_submitted else S_rejected)
           (if dup \<noteq> None then 1 else computeNearDupScore bid (computeLshBands e num payload) None d) dup d)"

lemma stored_item_fields [simp]:
  "s_id (stored_item e num bid user p d) = fresh e d" "s_bounty (stored_item e num bid user p d) = bid"
  "s_payload (stored_item e num bid user p d) = p" "s_contributor (stored_item e num bid user p d) = user"
  "s_dedupe (stored_item e num bid user p d) = Some (computeDedupeKey e num p)"
  "s_attempt (stored_item e num bid user p d) = 0"
  "s_status (stored_item e num bid user p d)
     = (if find_dup bid (computeDedupeKey e num p) d = None then S_submitted else S_rejected)"
  by (simp_all add: stored_item_def new_submission_def Let_def)

lemma intake_item_spec:
  "snd (intake_item e num bid user p d) = stored_item e num bid user p d"
  "submissions (fst (intake_item e num bid user p d)) = submissions d @ [stored_item e num bid user p d]"
  "bands (fst (intake_item e num bid user p d)) = bands (writeLshBands (fresh e d) (computeLshBands e num p) d)"
  "bounties (fst (intake_item e num bid user p d)) = bounties d"
  "db_seq d < db_seq (fst (intake_item e num bid user p d))"
proof -
  let ?s = "stored_item e num bid user p d"
  have st: "store_item e bid user p (computeDedupeKey e num p) (find_dup bid (computeDedupeKey e num p) d)
      (if find_dup bid (computeDedupeKey e num p) d \<noteq> None then 1 else computeNearDupScore bid (computeLshBands e num p) None d) d
    = (insert_submission ?s d, ?s)"
    by (subst store_item_direct) (simp_all add: stored_item_def Let_def)
  have i: "intake_item e num bid user p d =
    ((if s_status ?s = S_submitted
      then enqueueValidation e (''val:'' @ fresh e d @ '':0'') (fresh e d) 0
             (writeLshBands (fresh e d) (computeLshBands e num p) (insert_submission ?s d))
      else writeLshBands (fresh e d) (computeLshBands e num p) (insert_submission ?s d)), ?s)"
    unfolding intake_item_def look_up_item_def insert_item_def Let_def prod.case st by simp
  show "snd (intake_item e num bid user p d) = ?s"
    "submissions (fst (intake_item e num bid user p d)) = submissions d @ [?s]"
    "bands (fst (intake_item e num bid user p d)) = bands (writeLshBands (fresh e d) (computeLshBands e num p) d)"
    "bounties (fst (intake_item e num bid user p d)) = bounties d"
    unfolding i by (simp_all del: stored_item_fields(7)) (simp add: writeLshBands_def)
  show "db_seq d < db_seq (fst (intake_item e num bid user p d))"
    unfolding i using enqueueValidation_frame(6) [of "writeLshBands (fresh e d) (computeLshBands e num p) (insert_submission ?s d)"
        e "''val:'' @ fresh e d @ '':0''" "fresh e d" 0]
    by (simp del: stored_item_fields(7) enqueueValidation_frame(6))
qed

lemma written_rows: "r \<in> set (bands (writeLshBands k bs d)) \<Longrightarrow> r \<in> set (bands d) \<or> lb_submission r = k"
proof -
  have "set (fold (\<lambda>r rs. fst (insert_unique band_key r rs)) qs rs) \<subseteq> set rs \<union> set qs" for qs rs
    by (induction qs arbitrary: rs) (fastforce simp: insert_unique_def split: if_splits)+
  from this [of "map (band_row k) bs" "bands d"]
  show "r \<in> set (bands (writeLshBands k bs d)) \<Longrightarrow> r \<in> set (bands d) \<or> lb_submission r = k"
    by (auto simp: writeLshBands_def band_row_def)
qed

text \<open>An insert on lookups that may be stale.\<close>

lemma insert_item_spec:
  fixes e num bid user p dup score d
  defines "s \<equiv> snd (insert_item e num bid user p dup score d)" and "d' \<equiv> fst (insert_item e num bid user p dup score d)"
  shows "submissions d' = submissions d @ [s]" and "s_id s = fresh e d" and "s_bounty s = bid" and "s_attempt s = 0"
    and "\<not> key_taken s d" and "s_dedupe s = None \<or> s_dedupe s = Some (computeDedupeKey e num p)"
    and "s_status s = S_submitted \<or> s_status s = S_rejected"
    and "bands d' = bands (writeLshBands (fresh e d) (computeLshBands e num p) d)" and "bounties d' = bounties d"
    and "db_seq d < db_seq d'"
proof -
  let ?k = "computeDedupeKey e num p"
  let ?s1 = "new_submission e bid user p (Some ?k) (if dup = None then S_submitted else S_rejected) score dup d"
  let ?s2 = "new_submission e bid user p None S_rejected 1 (find_dup bid ?k d) d"
  have st: "store_item e bid user p ?k dup score d = (insert_submission s d, s)"
    and sc: "s = (if key_taken ?s1 d then ?s2 else ?s1)"
    by (simp_all add: s_def insert_item_def store_item_def create_submission_def Let_def case_prod_beta)
  show id: "s_id s = fresh e d" and "s_bounty s = bid" "s_attempt s = 0"
    "s_dedupe s = None \<or> s_dedupe s = Some ?k" "s_status s = S_submitted \<or> s_status s = S_rejected"
    unfolding sc by (simp_all add: new_submission_def)
  show "\<not> key_taken s d" unfolding sc by (cases "key_taken ?s1 d") (simp_all add: key_taken_def new_submission_def)
  let ?w = "writeLshBands (fresh e d) (computeLshBands e num p) (insert_submission s d)"
  have d': "d' = (if s_status s = S_submitted then enqueueValidation e (''val:'' @ s_id s @ '':0'') (s_id s) 0 ?w else ?w)"
    unfolding d'_def insert_item_def Let_def st prod.case fst_conv id ..
  show "submissions d' = submissions d @ [s]" "bounties d' = bounties d" unfolding d' by simp_all
  show "bands d' = bands (writeLshBands (fresh e d) (computeLshBands e num p) d)"
    unfolding d' by (simp add: writeLshBands_def)
  show "db_seq d < db_seq d'"
    unfolding d' using enqueueValidation_frame(6) [of ?w e "''val:'' @ s_id s @ '':0''" "s_id s" 0]
    by (simp del: enqueueValidation_frame(6))
qed

lemma insert_item_ok:
  assumes "intake_ok e d"
  shows "intake_ok e (fst (insert_item e num bid user p dup score d))"
proof -
  let ?s = "snd (insert_item e num bid user p dup score d)" and ?d = "fst (insert_item e num bid user p dup score d)"
  note sp = insert_item_spec [where e = e and num = num and bid = bid and user = user and p = p and dup = dup and score = score and d = d]
  note fr = fresh_unused [OF assms]
  have "keys_unique (insert_submission ?s d)"
    using assms sp(5) by (intro keys_insert) (simp_all add: intake_ok_def)
  then have k: "keys_unique ?d" by (simp add: keys_unique_def sp(1))
  have b: "bands_unique ?d" using writeLshBands_unique [of d "fresh e d"] assms sp(8) by (simp add: intake_ok_def bands_unique_def)
  have new: "fresh e d = e_id e (db_seq d)" by (simp add: fresh_def)
  have ids: "\<exists>n < db_seq ?d. s_id x = e_id e n" if "x \<in> set (submissions ?d)" for x
    using that assms sp(1,2,10) new by (auto simp: intake_ok_def) (meson order_less_trans)
  have bids: "\<exists>n < db_seq ?d. lb_submission r = e_id e n" if "r \<in> set (bands ?d)" for r
    using that assms sp(8,10) new written_rows [of r "fresh e d" "computeLshBands e num p" d]
    by (auto simp: intake_ok_def) (meson order_less_trans)
  have "submission_ids ?d" using assms fr(1) sp(1,2) by (simp add: submission_ids_def intake_ok_def)
  with assms k b ids bids show ?thesis by (simp add: intake_ok_def)
qed

section \<open>Interleaved operations\<close>

text \<open>The writes that calls interleave: the insert of an item, the three writes of a revision and the
  write of a rerun. The rows and lookups a write was planned on are arguments, so they may be stale.\<close>

datatype intake_op =
    Op_insert ident ident json "ident option" real
  | Op_claim ident int ident
  | Op_refuse ident int submission_row bounty_row
  | Op_finish submission_row "validation_row list" json int
  | Op_rerun submission_row

fun intake_step :: "env \<Rightarrow> (real \<Rightarrow> string) \<Rightarrow> intake_op \<Rightarrow> db \<Rightarrow> db" where
  "intake_step e num (Op_insert bid user p dup score) d = fst (insert_item e num bid user p dup score d)"
| "intake_step e num (Op_claim user cap k) d = fst (claim_revision user cap k d)"
| "intake_step e num (Op_refuse user cap s b) d = fst (refuse_revision e user cap s b d)"
| "intake_step e num (Op_finish s evd p n) d = fst (finish_revision e num s evd p n d)"
| "intake_step e num (Op_rerun s) d = (case rerun_write e s d of Inl err \<Rightarrow> d | Inr d' \<Rightarrow> d')"

fun intake_run :: "env \<Rightarrow> (real \<Rightarrow> string) \<Rightarrow> (time \<times> intake_op) list \<Rightarrow> db \<Rightarrow> db" where
  "intake_run e num [] d = d"
| "intake_run e num ((t, op) # ops) d = intake_run e num ops (intake_step (e\<lparr>e_now := t\<rparr>) num op d)"

lemma intake_ok_clock [simp]: "intake_ok (e\<lparr>e_now := t\<rparr>) d = intake_ok e d"
  by (simp add: intake_ok_def)

lemma notifyEvent_seq: "db_seq d \<le> db_seq (notifyEvent e ty i d)"
  by (simp add: notifyEvent_def notify_def createDeliveryIntents_def Let_def split: option.split)

lemma enqueueValidation_ok: "intake_ok e x \<Longrightarrow> intake_ok e (enqueueValidation e' k s a x)"
  by (erule intake_ok_mono) simp_all

lemma claim_revision_ok: "intake_ok e d \<Longrightarrow> intake_ok e (fst (claim_revision user cap k d))"
  unfolding claim_revision_def fst_conv
  by (intro ids_update keys_weaken) (simp_all add: intake_ok_def holds_key_def)

lemma refuse_revision_ok:
  assumes "intake_ok e d"
  shows "intake_ok e (fst (refuse_revision e' user cap s b d))"
proof -
  let ?d1 = "set_submission (\<lambda>y. s_id y = s_id s) (\<lambda>y. y\<lparr>s_status := S_rejected, s_updated := e_now e'\<rparr>) d"
  have ok: "intake_ok e ?d1"
    using assms by (intro ids_update keys_weaken) (simp_all add: intake_ok_def holds_key_def)
  have n: "intake_ok e x \<Longrightarrow> intake_ok e (notifyEvent e' ty i x)" for x ty i
    by (erule intake_ok_mono) (simp_all add: notifyEvent_seq)
  show ?thesis
    using assms ok n by (auto simp: refuse_revision_def Let_def split: option.split)
qed

lemma write_revision_ok:
  assumes "intake_ok e d"
  shows "intake_ok e (fst (write_revision e' s p key d))"
proof (cases "submission_by (s_id s) d")
  case None
  then show ?thesis using assms by (simp add: write_revision_def)
next
  case (Some x)
  let ?y = "if key_taken (revised_row e' p key x) d then collided_row e' p (other_holder s key d) x else revised_row e' p key x"
  have xid: "s_id x = s_id s" using Some by (auto simp: submission_by_def dest: find_where_Some)
  have y: "s_id ?y = s_id s" "\<not> key_taken ?y d"
    using xid by (auto simp: revised_row_def collided_row_def key_taken_iff clashes_def holds_key_def)
  have "keys_unique (set_submission (\<lambda>z. s_id z = s_id s) (\<lambda>z. ?y) d)"
    using assms y by (intro keys_update [where k = "s_id s"]) (simp_all add: intake_ok_def)
  then have "intake_ok e (set_submission (\<lambda>z. s_id z = s_id s) (\<lambda>z. ?y) d)"
    using assms y(1) by (intro ids_update) simp_all
  then show ?thesis using Some by (simp add: write_revision_def Let_def)
qed

lemma finish_revision_ok:
  assumes "intake_ok e d"
  shows "intake_ok e (fst (finish_revision e' num s evd p n d))"
proof -
  let ?d1 = "snapshot_revision e' s evd n d"
  have "intake_ok e ?d1" using assms by (rule intake_ok_mono) (simp_all add: snapshot_revision_def)
  note w = write_revision_ok [OF this, of e' s p "computeDedupeKey e' num p"]
  obtain d2 y where "write_revision e' s p (computeDedupeKey e' num p) ?d1 = (d2, y)" by (meson surj_pair)
  then show ?thesis using w by (cases y) (simp_all add: finish_revision_def enqueueValidation_ok)
qed

lemma rerun_write_ok:
  assumes "intake_ok e d" and "rerun_write e' s d = Inr d'"
  shows "intake_ok e d'"
proof -
  obtain x where x: "find_where (rerun_claims s) (submissions d) = Some x" and nt: "\<not> key_taken (rerun_row e' x) d"
    and d': "d' = enqueueValidation e' (''val:'' @ s_id s @ '':attempt:'' @ show_int (s_attempt s + 1)) (s_id s) (s_attempt s + 1)
                    (set_submission (rerun_claims s) (rerun_row e') d)"
    using assms(2) by (auto simp: rerun_write_def split: option.splits if_splits)
  have xin: "x \<in> set (submissions d)" "s_id x = s_id s" using find_where_Some [OF x] by (simp_all add: rerun_claims_def)
  have "z = x" if "z \<in> set (submissions d)" "rerun_claims s z" for z
    using that xin assms(1) same_row [of d z x] by (simp add: intake_ok_def rerun_claims_def)
  then have "keys_unique (set_submission (rerun_claims s) (rerun_row e') d)"
    using assms(1) nt by (intro keys_update [where k = "s_id s"]) (auto simp: intake_ok_def rerun_row_def rerun_claims_def)
  then have "intake_ok e (set_submission (rerun_claims s) (rerun_row e') d)"
    using assms(1) by (intro ids_update) (simp_all add: rerun_row_def)
  then show ?thesis unfolding d' by (rule enqueueValidation_ok)
qed

lemma intake_step_ok: "intake_ok e d \<Longrightarrow> intake_ok e (intake_step (e\<lparr>e_now := t\<rparr>) num op d)"
proof (cases op)
  case (Op_insert bid user p dup score)
  then show "intake_ok e d \<Longrightarrow> ?thesis" using insert_item_ok [of "e\<lparr>e_now := t\<rparr>" d] by simp
qed (auto simp: claim_revision_ok refuse_revision_ok finish_revision_ok split: sum.split intro: rerun_write_ok)

lemma intake_run_ok: "intake_ok e d \<Longrightarrow> intake_ok e (intake_run e num ops d)"
proof (induction ops arbitrary: d)
  case (Cons a ops)
  then show ?case by (cases a) (simp add: intake_step_ok)
qed simp

text \<open>The writes that may put a content key into a pool.\<close>

fun may_put :: "env \<Rightarrow> (real \<Rightarrow> string) \<Rightarrow> ident \<Rightarrow> string \<Rightarrow> intake_op \<Rightarrow> bool" where
  "may_put e num bid key (Op_insert k user p dup score) \<longleftrightarrow> k = bid \<and> computeDedupeKey e num p = key"
| "may_put e num bid key (Op_finish s evd p n) \<longleftrightarrow> computeDedupeKey e num p = key"
| "may_put e num bid key (Op_rerun s) \<longleftrightarrow> True"
| "may_put e num bid key op \<longleftrightarrow> False"

definition key_absent :: "ident \<Rightarrow> string \<Rightarrow> db \<Rightarrow> bool" where
  "key_absent bid key d \<longleftrightarrow>
     (\<forall>x \<in> set (submissions d). \<not> (s_bounty x = bid \<and> s_dedupe x = Some key \<and> s_status x \<noteq> S_rejected))"

lemma absent_update:
  assumes "key_absent bid key d" and "\<And>x. x \<in> set (submissions d) \<Longrightarrow> P x \<Longrightarrow>
       s_status (f x) = S_rejected \<or> s_dedupe (f x) \<noteq> Some key \<or> (s_bounty (f x) = s_bounty x \<and> s_dedupe x = Some key \<and> s_status x \<noteq> S_rejected)"
  shows "key_absent bid key (set_submission P f d)"
  using assms by (fastforce simp: key_absent_def set_submission_def set_update_where)

lemma absent_cong: "key_absent bid key d \<Longrightarrow> submissions d' = submissions d \<Longrightarrow> key_absent bid key d'"
  by (simp add: key_absent_def)

lemma step_keeps_absent:
  assumes "key_absent bid key d" and "\<not> may_put e num bid key op"
  shows "key_absent bid key (intake_step e num op d)"
proof (cases op)
  case (Op_insert k user p dup score)
  note sp = insert_item_spec(1,3,6) [of e num k user p dup score d]
  then show ?thesis using assms Op_insert by (auto simp: key_absent_def)
next
  case (Op_claim user cap k)
  then show ?thesis unfolding Op_claim intake_step.simps claim_revision_def fst_conv
    by (intro absent_update [OF assms(1)]) (use assms(1) in \<open>auto simp: key_absent_def\<close>)
next
  case (Op_refuse user cap s b)
  have "key_absent bid key (set_submission (\<lambda>y. s_id y = s_id s) (\<lambda>y. y\<lparr>s_status := S_rejected, s_updated := e_now e\<rparr>) d)"
    by (intro absent_update [OF assms(1)]) simp
  then show ?thesis
    using assms(1) unfolding Op_refuse by (auto simp: refuse_revision_def Let_def key_absent_def split: option.splits)
next
  case (Op_finish s evd p n)
  let ?d1 = "snapshot_revision e s evd n d"
  have snap: "key_absent bid key ?d1" using assms(1) by (rule absent_cong) (simp add: snapshot_revision_def)
  have "key_absent bid key (fst (write_revision e s p (computeDedupeKey e num p) ?d1))"
    using snap assms(2) Op_finish
    by (auto simp: write_revision_def Let_def revised_row_def collided_row_def split: option.split intro!: absent_update)
  then show ?thesis unfolding Op_finish
    by (auto simp: finish_revision_def split: prod.splits option.splits) (metis absent_cong enqueueValidation_frame(1) fst_conv)+
qed (use assms(2) in simp)

lemma run_keeps_absent:
  "key_absent bid key d \<Longrightarrow> list_all (\<lambda>p. \<not> may_put e num bid key (snd p)) ops \<Longrightarrow> key_absent bid key (intake_run e num ops d)"
proof (induction ops arbitrary: d)
  case (Cons a ops)
  have c: "may_put (e\<lparr>e_now := t\<rparr>) num bid key op = may_put e num bid key op" for t op
    by (cases op) (simp_all add: computeDedupeKey_def)
  show ?case using Cons step_keeps_absent [of bid key d "e\<lparr>e_now := fst a\<rparr>" num "snd a"] c by (cases a) simp
qed simp

text \<open>C21: whatever inserts, revisions, refusals and reruns are interleaved, and on whatever stale rows and
  lookups they were planned, no two active items of a pool ever share a content key. And an insert whose lookup
  found no duplicate stores its item as submitted, without meeting the unique index, unless between the two
  another insert of the same content, a revision to the same content, or a rerun was written; the lock of the
  pool excludes the first, nothing excludes the other two.\<close>

theorem one_active_item_per_key:
  assumes "intake_ok e d" and "d' = intake_run e num ops d"
    and "x \<in> set (submissions d')" and "y \<in> set (submissions d')" and "s_bounty x = s_bounty y"
    and "s_dedupe x = Some k" and "s_dedupe y = Some k" and "s_status x \<noteq> S_rejected" and "s_status y \<noteq> S_rejected"
  shows "x = y \<and>
    (look_up_item e num bid p d' = (None, score) \<and> d'' = intake_run e num between d'
       \<and> snd (insert_item e num bid user p None score d'')
           \<noteq> new_submission e bid user p (Some (computeDedupeKey e num p)) S_submitted score None d''
     \<longrightarrow> (\<exists>(t, op) \<in> set between. may_put e num bid (computeDedupeKey e num p) op))"
proof
  have ok: "intake_ok e d'" unfolding assms(2) by (rule intake_run_ok [OF assms(1)])
  have "\<not> clashes x y" using ok assms(3,4) by (simp add: intake_ok_def keys_unique_def)
  then have "s_id x = s_id y" using assms(5-9) by (auto simp: clashes_def holds_key_def)
  then show "x = y" using ok assms(3,4) same_row [of d' x y] by (simp add: intake_ok_def)
  let ?key = "computeDedupeKey e num p"
  show "look_up_item e num bid p d' = (None, score) \<and> d'' = intake_run e num between d'
       \<and> snd (insert_item e num bid user p None score d'') \<noteq> new_submission e bid user p (Some ?key) S_submitted score None d''
     \<longrightarrow> (\<exists>(t, op) \<in> set between. may_put e num bid ?key op)"
  proof (rule impI, rule ccontr)
    assume a: "look_up_item e num bid p d' = (None, score) \<and> d'' = intake_run e num between d'
         \<and> snd (insert_item e num bid user p None score d'') \<noteq> new_submission e bid user p (Some ?key) S_submitted score None d''"
      and "\<not> (\<exists>(t, op) \<in> set between. may_put e num bid ?key op)"
    then have n: "list_all (\<lambda>p. \<not> may_put e num bid ?key (snd p)) between" by (auto simp: list_all_iff)
    have "key_absent bid ?key d'" using a find_dup_None [of bid ?key d'] by (simp add: look_up_item_def Let_def key_absent_def)
    then have "key_absent bid ?key d''" using run_keeps_absent [OF _ n] a by simp
    then have "find_dup bid ?key d'' = None" using find_dup_None [of bid ?key d''] by (simp add: key_absent_def)
    from store_item_direct [OF this [symmetric], of e user p score]
    have "snd (insert_item e num bid user p None score d'')
        = new_submission e bid user p (Some ?key) S_submitted score None d''"
      by (simp add: insert_item_def Let_def case_prod_beta)
    with a show False by blast
  qed
qed

text \<open>the race the lock does not exclude: a revision to the same content lands between the lookup and the
  insert of an item. The insert meets the index and its recovery stores the item as a rejected duplicate of the
  revised one, without a key.\<close>

lemma revision_races_intake:
  assumes "intake_ok e d" and "find_dup bid (computeDedupeKey e num p) d = Some k"
  shows "snd (insert_item e num bid user p None score d) = new_submission e bid user p None S_rejected 1 (Some k) d"
proof -
  obtain x where "find_where (\<lambda>s. s_bounty s = bid \<and> s_dedupe s = Some (computeDedupeKey e num p) \<and> s_status s \<noteq> S_rejected) (submissions d) = Some x"
    using assms(2) by (auto simp: find_dup_def)
  from find_where_Some [OF this] have x: "x \<in> set (submissions d)" "s_bounty x = bid" "s_dedupe x = Some (computeDedupeKey e num p)"
      "s_status x \<noteq> S_rejected" by auto
  have "s_id x \<noteq> fresh e d" using fresh_unused(1) [OF assms(1)] x(1) by force
  then have "key_taken (new_submission e bid user p (Some (computeDedupeKey e num p)) S_submitted score None d) d"
    using x by (auto simp: key_taken_def list_ex_iff new_submission_def)
  then show ?thesis
    using assms(2) by (simp add: insert_item_def store_item_def create_submission_def Let_def case_prod_beta)
qed

section \<open>Capacity of a bulk submit\<close>

lemma bulk_items_spec:
  assumes "bulk_items e num bid user b ps n d = (d', ss, stopped)" and "0 < b_target b" and "b_accepted b + n \<le> b_target b"
  shows "b_accepted b + n + int (count_where (\<lambda>s. s_status s = S_submitted) ss) \<le> b_target b
         \<and> (stopped \<longrightarrow> b_accepted b + n + int (count_where (\<lambda>s. s_status s = S_submitted) ss) = b_target b)
         \<and> (stopped \<longleftrightarrow> length ss < length ps) \<and> map s_payload ss = take (length ss) ps
         \<and> list_all (\<lambda>s. s_status s = S_submitted \<or> (s_status s = S_rejected \<and> s_dup_of s \<noteq> None \<and> s_dup_score s = Some 1)) ss"
  using assms
proof (induction ps arbitrary: n d d' ss stopped)
  case Nil
  then show ?case by simp
next
  case (Cons p ps)
  let ?dup = "find_dup bid (computeDedupeKey e num p) d"
  show ?case
  proof (cases "?dup = None \<and> b_accepted b + n \<ge> b_target b")
    case True
    then show ?thesis using Cons.prems by simp
  next
    case False
    obtain d1 s where i: "intake_item e num bid user p d = (d1, s)" by (meson surj_pair)
    have s: "s = stored_item e num bid user p d" using intake_item_spec(1) [of e num bid user p d] i by simp
    let ?n = "if s_status s = S_submitted then n + 1 else n"
    obtain d2 ss' st where r: "bulk_items e num bid user b ps ?n d1 = (d2, ss', st)" by (metis prod_cases3)
    have eqs: "d' = d2" "ss = s # ss'" "stopped = st"
      using Cons.prems(1) False i r by (auto simp: Let_def split: if_splits)
    have le: "b_accepted b + ?n \<le> b_target b" using False Cons.prems(3) s by (cases "?dup = None") auto
    have shape: "s_status s = S_submitted \<or> (s_status s = S_rejected \<and> s_dup_of s \<noteq> None \<and> s_dup_score s = Some 1)"
      unfolding s by (simp add: stored_item_def new_submission_def Let_def)
    have pay: "s_payload s = p" unfolding s by simp
    from Cons.IH [OF r Cons.prems(2) le] show ?thesis using eqs shape pay by (auto split: if_splits)
  qed
qed

text \<open>a bulk submit that succeeds writes a prefix of its items, each either submitted or rejected
  as a duplicate with score 1 and a pointer to the item it repeats; at a capped pool the submitted ones
  fit into the room it read, and it stops short exactly when it reports so, with the room used up.\<close>

lemma bulk_stays_within_room:
  assumes "submitPoolBatchItems e num parse fcol bid user items d0 d = Inr (d', ss, stopped)"
    and "bounty_by bid d0 = Some b" and "0 < b_target b"
  shows "b_accepted b + int (count_where (\<lambda>s. s_status s = S_submitted) ss) \<le> b_target b
         \<and> map s_payload ss = take (length ss) items \<and> (stopped \<longleftrightarrow> length ss < length items)
         \<and> (stopped \<longrightarrow> b_accepted b + int (count_where (\<lambda>s. s_status s = S_submitted) ss) = b_target b)
         \<and> list_all (\<lambda>s. s_status s = S_submitted \<or> (s_status s = S_rejected \<and> s_dup_of s \<noteq> None \<and> s_dup_score s = Some 1)) ss
         \<and> int (length ss) \<le> fst (getPoolSubmitLimits e)"
proof -
  obtain d1 where r: "bulk_items e num bid user b items 0 d = (d1, ss, stopped)"
    and lim: "int (length items) \<le> fst (getPoolSubmitLimits e)" and room: "\<not> target_reached b"
    using assms(1,2) by (auto simp: submitPoolBatchItems_def split: if_splits prod.splits sum.splits)
  have "b_accepted b + 0 \<le> b_target b" using room assms(3) by (auto simp: target_reached_def)
  note sp = bulk_items_spec [OF r assms(3) this]
  have "length ss \<le> length items" using sp by (metis length_map length_take min.cobounded2 nat_le_linear take_all)
  with sp lim show ?thesis by auto
qed

section \<open>Revision numbers\<close>

text \<open>The numbers the claims on one item return, in the order of a run.\<close>

fun claimed_numbers :: "env \<Rightarrow> (real \<Rightarrow> string) \<Rightarrow> ident \<Rightarrow> (time \<times> intake_op) list \<Rightarrow> db \<Rightarrow> int list" where
  "claimed_numbers e num k [] d = []"
| "claimed_numbers e num k ((t, op) # ops) d =
     (case op of
        Op_claim user cap k' \<Rightarrow>
          (if k' = k then (case snd (claim_revision user cap k d) of Some n \<Rightarrow> [n] | None \<Rightarrow> []) else [])
      | _ \<Rightarrow> []) @ claimed_numbers e num k ops (intake_step (e\<lparr>e_now := t\<rparr>) num op d)"

definition revisions_of :: "ident \<Rightarrow> db \<Rightarrow> int option" where
  "revisions_of k d = map_option s_revisions (submission_by k d)"

lemma revisions_update:
  assumes "\<And>x. P x \<Longrightarrow> s_id x = k \<Longrightarrow> s_id (f x) = k \<and> s_revisions (f x) = s_revisions x"
    and "\<And>x. P x \<Longrightarrow> s_id x \<noteq> k \<Longrightarrow> s_id (f x) \<noteq> k"
  shows "revisions_of k (set_submission P f d) = revisions_of k d"
proof -
  have "find_where (\<lambda>s. s_id s = k) (update_where P f (submissions d))
          = map_option (\<lambda>r. if P r then f r else r) (find_where (\<lambda>s. s_id s = k) (submissions d))"
    by (rule find_where_update_where) (metis assms)
  then show ?thesis
    using assms(1) by (cases "find_where (\<lambda>s. s_id s = k) (submissions d)")
      (auto simp: revisions_of_def submission_by_def dest: find_where_Some)
qed

lemma revisions_cong: "submissions d' = submissions d \<Longrightarrow> revisions_of k d' = revisions_of k d"
  by (simp add: revisions_of_def submission_by_def)

lemma other_steps_keep_revisions:
  assumes "revisions_of k d = Some r" and "\<And>user cap. op \<noteq> Op_claim user cap k"
  shows "revisions_of k (intake_step e num op d) = Some r"
proof (cases op)
  case (Op_insert bid user p dup score)
  then show ?thesis using assms(1) insert_item_spec(1) [of e num bid user p dup score d]
    by (auto simp: revisions_of_def submission_by_def find_where_append split: option.splits)
next
  case (Op_claim user cap k')
  then have "k' \<noteq> k" using assms(2) by auto
  then have "revisions_of k (intake_step e num op d) = revisions_of k d"
    unfolding Op_claim intake_step.simps claim_revision_def fst_conv
    by (intro revisions_update) (auto simp: revision_claimable_def)
  with assms(1) show ?thesis by simp
next
  case (Op_refuse user cap s b)
  have "revisions_of k (set_submission (\<lambda>y. s_id y = s_id s) (\<lambda>y. y\<lparr>s_status := S_rejected, s_updated := e_now e\<rparr>) d)
          = revisions_of k d"
    by (rule revisions_update) simp_all
  then show ?thesis
    using assms(1) unfolding Op_refuse
    by (auto simp: refuse_revision_def Let_def revisions_of_def submission_by_def split: option.splits)
next
  case (Op_finish s evd p n)
  let ?d1 = "snapshot_revision e s evd n d"
  have snap: "revisions_of k ?d1 = Some r" "submissions ?d1 = submissions d"
    using assms(1) by (simp_all add: revisions_of_def submission_by_def snapshot_revision_def)
  have "revisions_of k (fst (write_revision e s p key ?d1)) = Some r" for key
  proof (cases "submission_by (s_id s) ?d1")
    case None
    then show ?thesis using snap by (simp add: write_revision_def)
  next
    case (Some x)
    let ?y = "if key_taken (revised_row e p key x) ?d1 then collided_row e p (other_holder s key ?d1) x else revised_row e p key x"
    have xid: "s_id x = s_id s" and xy: "s_id ?y = s_id s" "s_revisions ?y = s_revisions x"
      using Some by (auto simp: submission_by_def revised_row_def collided_row_def dest: find_where_Some)
    show ?thesis
    proof (cases "s_id s = k")
      case True
      then have "submission_by k (set_submission (\<lambda>z. s_id z = s_id s) (\<lambda>z. ?y) ?d1) = Some ?y"
        using Some xy(1) xid
        by (simp add: submission_by_def find_where_update_where del: if_split)
      then show ?thesis using Some snap(1) True xy(2) by (simp add: write_revision_def Let_def revisions_of_def)
    next
      case False
      have "revisions_of k (set_submission (\<lambda>z. s_id z = s_id s) (\<lambda>z. ?y) ?d1) = revisions_of k ?d1"
        by (rule revisions_update) (use False xy(1) in \<open>simp_all del: if_split\<close>)
      then show ?thesis using Some snap(1) by (simp add: write_revision_def Let_def)
    qed
  qed
  then show ?thesis unfolding Op_finish
    by (auto simp: finish_revision_def split: prod.splits option.splits)
      (metis enqueueValidation_frame(1) fst_conv revisions_cong)+
next
  case (Op_rerun s)
  have "revisions_of k (set_submission (rerun_claims s) (rerun_row e) d) = revisions_of k d"
    by (rule revisions_update) (simp_all add: rerun_row_def)
  then have "revisions_of k d' = Some r" if "rerun_write e s d = Inr d'" for d'
    using that assms(1) by (auto simp: rerun_write_def revisions_of_def submission_by_def split: option.splits if_splits)
  then show ?thesis using assms(1) Op_rerun by (auto split: sum.split)
qed

lemma claim_on_item:
  assumes "submission_ids d" and "revisions_of k d = Some r"
  shows "(snd (claim_revision user cap k d) = None \<and> revisions_of k (fst (claim_revision user cap k d)) = Some r)
         \<or> (snd (claim_revision user cap k d) = Some (r + 1) \<and> revisions_of k (fst (claim_revision user cap k d)) = Some (r + 1)
             \<and> (cap = 0 \<or> r < cap))"
proof -
  obtain x where x: "find_where (\<lambda>s. s_id s = k) (submissions d) = Some x" and r: "s_revisions x = r"
    using assms(2) by (auto simp: revisions_of_def submission_by_def)
  have xin: "x \<in> set (submissions d)" "s_id x = k" using find_where_Some [OF x] by auto
  let ?P = "revision_claimable user cap k"
  have eqP: "?P = (\<lambda>y. s_id y = k \<and> (s_contributor y = user \<and> List.member REVISABLE_STATUSES (s_status y) \<and> (cap = 0 \<or> s_revisions y < cap)))"
    by (simp add: revision_claimable_def fun_eq_iff)
  have only: "y = x" if "y \<in> set (submissions d)" "?P y" for y
    using that xin same_row [OF assms(1)] by (simp add: revision_claimable_def)
  have sub: "find_where (\<lambda>s. s_id s = k) (update_where ?P (\<lambda>x. x\<lparr>s_revisions := s_revisions x + 1\<rparr>) (submissions d))
        = Some (if ?P x then x\<lparr>s_revisions := s_revisions x + 1\<rparr> else x)"
    using x by (simp add: find_where_update_where)
  show ?thesis
  proof (cases "?P x")
    case True
    have "find_where ?P (submissions d) \<noteq> None" using True xin by (auto simp: find_where_None_iff)
    then obtain y where "find_where ?P (submissions d) = Some y" by blast
    with find_where_Some [OF this] only have "find_where ?P (submissions d) = Some x" by blast
    with True sub r show ?thesis
      by (simp add: claim_revision_def revisions_of_def submission_by_def) (simp add: revision_claimable_def)
  next
    case False
    then have "find_where ?P (submissions d) = None" using only by (auto simp: find_where_None_iff)
    with False sub r show ?thesis by (simp add: claim_revision_def revisions_of_def submission_by_def)
  qed
qed

lemma upto_rec: "[r + 1 .. r + 1 + int n] = (r + 1) # [r + 1 + 1 .. r + 1 + int n]"
  by (subst upto.simps) simp

lemma claimed_numbers_spec:
  assumes "intake_ok e d" and "revisions_of k d = Some r" and "0 < cap"
    and "list_all (\<lambda>(t, op). case op of Op_claim user c k' \<Rightarrow> k' = k \<longrightarrow> c = cap | _ \<Rightarrow> True) ops"
  shows "claimed_numbers e num k ops d = [r + 1 .. r + int (length (claimed_numbers e num k ops d))]
         \<and> (claimed_numbers e num k ops d = [] \<or> r + int (length (claimed_numbers e num k ops d)) \<le> cap)
         \<and> revisions_of k (intake_run e num ops d) = Some (r + int (length (claimed_numbers e num k ops d)))"
  using assms
proof (induction ops arbitrary: d r)
  case (Cons a ops)
  obtain t op where a: "a = (t, op)" by (cases a)
  let ?d = "intake_step (e\<lparr>e_now := t\<rparr>) num op d"
  have ok: "intake_ok e ?d" by (rule intake_step_ok [OF Cons.prems(1)])
  have rest: "list_all (\<lambda>(t, op). case op of Op_claim user c k' \<Rightarrow> k' = k \<longrightarrow> c = cap | _ \<Rightarrow> True) ops"
    using Cons.prems(4) by simp
  show ?case
  proof (cases "\<exists>user c. op = Op_claim user c k")
    case False
    then have "revisions_of k ?d = Some r" using other_steps_keep_revisions [OF Cons.prems(2)] by blast
    note ih = Cons.IH [OF ok this Cons.prems(3) rest]
    have "claimed_numbers e num k (a # ops) d = claimed_numbers e num k ops ?d"
      using False a by (cases op) auto
    with ih a show ?thesis by simp
  next
    case True
    then obtain user where op: "op = Op_claim user cap k" using Cons.prems(4) a by auto
    have sid: "submission_ids d" using Cons.prems(1) by (simp add: intake_ok_def)
    from claim_on_item [OF sid Cons.prems(2), of user cap] show ?thesis
    proof
      assume "snd (claim_revision user cap k d) = None \<and> revisions_of k (fst (claim_revision user cap k d)) = Some r"
      then have "revisions_of k ?d = Some r" and eq: "claimed_numbers e num k (a # ops) d = claimed_numbers e num k ops ?d"
        using a op by simp_all
      with Cons.IH [OF ok this(1) Cons.prems(3) rest] a show ?thesis by simp
    next
      assume c: "snd (claim_revision user cap k d) = Some (r + 1) \<and> revisions_of k (fst (claim_revision user cap k d)) = Some (r + 1)
             \<and> (cap = 0 \<or> r < cap)"
      then have "revisions_of k ?d = Some (r + 1)" using op by simp
      note ih = Cons.IH [OF ok this Cons.prems(3) rest]
      let ?ns = "claimed_numbers e num k ops ?d"
      have eq: "claimed_numbers e num k (a # ops) d = (r + 1) # ?ns" using a op c by simp
      have up: "(r + 1) # ?ns = [r + 1 .. r + 1 + int (length ?ns)]"
        using ih upto_rec [of r "length ?ns"] by metis
      have "r < cap" using c Cons.prems(3) by linarith
      then have le: "r + 1 + int (length ?ns) \<le> cap" using ih by (cases "?ns = []") (simp, blast)
      have fin: "revisions_of k (intake_run e num ops ?d) = Some (r + 1 + int (length ?ns))" using ih by blast
      have run: "intake_run e num (a # ops) d = intake_run e num ops ?d" unfolding a by simp
      have m: "r + int (length ((r + 1) # ?ns)) = r + 1 + int (length ?ns)" by simp
      show ?thesis unfolding eq run m using up le fin by blast
    qed
  qed
qed simp

text \<open>C22: under any interleaving of calls the successful revision claims on an item return
  consecutive numbers, each once, and never pass the cap.\<close>

theorem revision_numbers_capped:
  assumes "intake_ok e d" and "submission_by k d = Some s" and "0 < cap"
    and "list_all (\<lambda>(t, op). case op of Op_claim user c k' \<Rightarrow> k' = k \<longrightarrow> c = cap | _ \<Rightarrow> True) ops"
  shows "claimed_numbers e num k ops d = [s_revisions s + 1 .. s_revisions s + int (length (claimed_numbers e num k ops d))]
         \<and> list_all (\<lambda>n. n \<le> cap) (claimed_numbers e num k ops d)
         \<and> revisions_of k (intake_run e num ops d) = Some (s_revisions s + int (length (claimed_numbers e num k ops d)))"
proof -
  have "revisions_of k d = Some (s_revisions s)" using assms(2) by (simp add: revisions_of_def)
  note sp = claimed_numbers_spec [OF assms(1) this assms(3,4), of num]
  have "n \<le> cap" if "n \<in> set (claimed_numbers e num k ops d)" for n
  proof -
    let ?m = "s_revisions s + int (length (claimed_numbers e num k ops d))"
    have "n \<in> set [s_revisions s + 1 .. ?m]" using sp that by metis
    then have "n \<le> ?m" by simp
    moreover have "?m \<le> cap" using sp that by (metis empty_iff list.set(1))
    ultimately show ?thesis by simp
  qed
  with sp show ?thesis by (simp add: list_all_iff)
qed

section \<open>Two calls for the last revision\<close>

lemma submission_by_set:
  assumes "submission_by k d = Some x" and "\<And>z. s_id z = k \<Longrightarrow> P z \<Longrightarrow> s_id (f z) = k" and "\<And>z. s_id z \<noteq> k \<Longrightarrow> P z \<Longrightarrow> s_id (f z) \<noteq> k"
  shows "submission_by k (set_submission P f d) = Some (if P x then f x else x)"
proof -
  have "find_where (\<lambda>s. s_id s = k) (update_where P f (submissions d))
          = map_option (\<lambda>r. if P r then f r else r) (find_where (\<lambda>s. s_id s = k) (submissions d))"
    by (rule find_where_update_where) (metis assms(2,3))
  then show ?thesis using assms(1) by (simp add: submission_by_def)
qed

lemma submission_by_row: "submission_by k d = Some x \<Longrightarrow> x \<in> set (submissions d) \<and> s_id x = k"
  by (auto simp: submission_by_def dest: find_where_Some)

lemma claim_none:
  assumes "submission_ids d" and "submission_by k d = Some x" and "\<not> revision_claimable user cap k x"
  shows "snd (claim_revision user cap k d) = None"
proof -
  have "\<not> revision_claimable user cap k y" if "y \<in> set (submissions d)" for y
    using same_row [OF assms(1) that, of x] submission_by_row [OF assms(2)] assms(3)
    by (cases "s_id y = k") (auto simp: revision_claimable_def)
  then show ?thesis by (simp add: claim_revision_def find_where_None_iff)
qed

lemma key_taken_after_claim:
  assumes "holds_key y = holds_key y'" "s_id y = s_id y'" "s_bounty y = s_bounty y'" "s_dedupe y = s_dedupe y'"
  shows "key_taken y (snapshot_revision e s evd n (fst (claim_revision user cap k d))) = key_taken y' d"
proof -
  let ?g = "\<lambda>z. if revision_claimable user cap k z then z\<lparr>s_revisions := s_revisions z + 1\<rparr> else z"
  have sub: "submissions (snapshot_revision e s evd n (fst (claim_revision user cap k d))) = map ?g (submissions d)"
    by (simp add: snapshot_revision_def claim_revision_def update_where_def)
  have "clashes y (?g z) = clashes y' z" for z
    using assms by (simp add: clashes_def holds_key_def)
  then show ?thesis unfolding key_taken_iff sub set_map bex_simps(7) by (rule bex_cong [OF refl])
qed

text \<open>two calls that read an item with one revision left: the second loses the claim, and if it
  decides after the first has resubmitted the item, it rejects the resubmission as over the cap.\<close>

lemma lost_claim_rejects_resubmission:
  assumes "submission_ids d" and "revise_read user k d = Inr (s, b)" and "0 < cap" and "s_revisions s = cap - 1"
    and "\<not> key_taken (revised_row e p (computeDedupeKey e num p) s) d"
    and "claim_revision user cap k d = (d1, n1)" and "finish_revision e num s evd p cap d1 = (d2, w)"
    and "claim_revision user cap k d2 = (d3, n2)" and "refuse_revision e' user cap s b d3 = (d4, err)"
  shows "n1 = Some cap \<and> map_option s_status w = Some S_submitted \<and> n2 = None \<and> err = Rv_revision_cap_exceeded
         \<and> (\<exists>y. submission_by k d4 = Some y \<and> s_status y = S_rejected \<and> s_payload y = p \<and> s_revisions y = cap)"
proof -
  let ?key = "computeDedupeKey e num p"
  have s: "submission_by k d = Some s" and claimable: "revision_claimable user cap k s"
    using assms(2-4) by (auto simp: revise_read_def revision_claimable_def dest: submission_by_row split: option.splits if_splits)
  have sk: "s_id s = k" using submission_by_row [OF s] by simp
  let ?s1 = "s\<lparr>s_revisions := cap\<rparr>"
  have d1: "d1 = fst (claim_revision user cap k d)" and n1: "n1 = Some cap"
  proof -
    have "find_where (revision_claimable user cap k) (submissions d) \<noteq> None"
      using submission_by_row [OF s] claimable by (auto simp: find_where_None_iff)
    then obtain x where x: "find_where (revision_claimable user cap k) (submissions d) = Some x" by blast
    then have "x = s" using find_where_Some [OF x] same_row [OF assms(1), of x s] submission_by_row [OF s]
      by (simp add: revision_claimable_def)
    with x show "d1 = fst (claim_revision user cap k d)" "n1 = Some cap" using assms(4,6) by (auto simp: claim_revision_def)
  qed
  have s1: "submission_by k d1 = Some ?s1"
    using submission_by_set [OF s, of "revision_claimable user cap k" "\<lambda>x. x\<lparr>s_revisions := s_revisions x + 1\<rparr>"] claimable assms(4)
    by (simp add: d1 claim_revision_def)
  have ids1: "submission_ids d1" using assms(1) by (simp add: d1 claim_revision_def submission_ids_def map_update_where)
  let ?y = "revised_row e p ?key ?s1"
  let ?d1 = "snapshot_revision e s evd cap d1"
  have nt: "\<not> key_taken ?y ?d1"
    using assms(5) key_taken_after_claim [of ?y "revised_row e p ?key s" e s evd cap user cap k d]
    by (simp add: d1 revised_row_def holds_key_def)
  have snap: "submissions ?d1 = submissions d1" by (simp add: snapshot_revision_def)
  have wr: "write_revision e s p ?key ?d1 = (set_submission (\<lambda>z. s_id z = k) (\<lambda>z. ?y) ?d1, Some ?y)"
    using s1 nt sk snap by (simp add: write_revision_def submission_by_def Let_def)
  have yk: "s_id ?y = k" "s_status ?y = S_submitted" "s_revisions ?y = cap" "s_payload ?y = p"
    using sk by (simp_all add: revised_row_def)
  have w: "w = Some ?y" and sub2: "submissions d2 = update_where (\<lambda>z. s_id z = k) (\<lambda>z. ?y) (submissions d1)"
    using assms(7) yk(2) snap by (auto simp: finish_revision_def wr)
  have y2: "submission_by k d2 = Some ?y"
    using submission_by_set [of k d1 ?s1 "\<lambda>z. s_id z = k" "\<lambda>z. ?y"] s1 yk(1) sk sub2 by (simp add: submission_by_def)
  have ids2: "submission_ids d2" using ids1 yk(1) by (simp add: submission_ids_def sub2 map_update_where)
  have n2: "n2 = None"
    using claim_none [OF ids2 y2, of user cap] assms(8) yk(2) by (simp add: revision_claimable_def REVISABLE_STATUSES_def)
  have "submission_by k d3 = Some ?y"
    using submission_by_set [OF y2, of "revision_claimable user cap k" "\<lambda>x. x\<lparr>s_revisions := s_revisions x + 1\<rparr>"] assms(8) yk(2)
    by (simp add: claim_revision_def revision_claimable_def REVISABLE_STATUSES_def)
  moreover from this have "submission_by k (set_submission (\<lambda>y. s_id y = k) (\<lambda>y. y\<lparr>s_status := S_rejected, s_updated := e_now e'\<rparr>) d3)
      = Some (?y\<lparr>s_status := S_rejected, s_updated := e_now e'\<rparr>)"
    using submission_by_set [of k d3 ?y "\<lambda>y. s_id y = k"] yk(1) by simp
  ultimately have "err = Rv_revision_cap_exceeded \<and> submission_by k d4 = Some (?y\<lparr>s_status := S_rejected, s_updated := e_now e'\<rparr>)"
    using assms(3,9) yk sk by (auto simp: refuse_revision_def Let_def submission_by_def split: if_splits)
  with n1 n2 w yk show ?thesis by simp
qed

section \<open>Instances\<close>

definition demo_env :: env where
  "demo_env = (env0 0)\<lparr>e_sha256 := (\<lambda>s. s)\<rparr>"

definition demo_item :: submission_row where
  "demo_item = (submission0 ''id0'' ''b'' ''u'' S_flagged)\<lparr>s_revisions := 2, s_dedupe := Some ''old''\<rparr>"

definition demo_intake :: db where
  "demo_intake = db0\<lparr>submissions := [demo_item], bounties := [(bounty0 ''b'')\<lparr>b_target := 2, b_accepted := 1\<rparr>], db_seq := 1\<rparr>"

lemma demo_intake_ok: "intake_ok demo_env demo_intake"
proof -
  have "''id0'' = e_id demo_env 0" by code_simp
  then show ?thesis
    using env0_ids [of 0]
    by (auto simp: intake_ok_def demo_intake_def demo_env_def demo_item_def submission0_def db0_def submission_ids_def
        keys_unique_def clashes_def bands_unique_def)
qed

lemma demo_claims:
  "claim_revision ''u'' 3 ''id0'' demo_intake = (demo_intake\<lparr>submissions := [demo_item\<lparr>s_revisions := 3\<rparr>]\<rparr>, Some 3)"
  "claim_revision ''u'' 3 ''id0'' (demo_intake\<lparr>submissions := [demo_item\<lparr>s_revisions := 3\<rparr>]\<rparr>)
     = (demo_intake\<lparr>submissions := [demo_item\<lparr>s_revisions := 3\<rparr>]\<rparr>, None)"
  by (simp_all add: claim_revision_def set_submission_def demo_intake_def demo_item_def submission0_def revision_claimable_def
      REVISABLE_STATUSES_def)

text \<open>An intake looks its item up, the holder revises an old item to the same content, and the item is inserted.\<close>

definition demo_ops :: "(time \<times> intake_op) list" where
  "demo_ops = [(7, Op_claim ''u'' 3 ''id0'')]"

definition demo_between :: "(time \<times> intake_op) list" where
  "demo_between = [(8, Op_finish demo_item [] JNull 3)]"

lemma demo_race:
  "submissions (intake_run demo_env (\<lambda>x. ''n'') demo_ops demo_intake) = [demo_item\<lparr>s_revisions := 3\<rparr>]"
  "look_up_item demo_env (\<lambda>x. ''n'') ''b'' JNull (intake_run demo_env (\<lambda>x. ''n'') demo_ops demo_intake)
     = (None, computeNearDupScore ''b'' (computeLshBands demo_env (\<lambda>x. ''n'') JNull) None
                (intake_run demo_env (\<lambda>x. ''n'') demo_ops demo_intake))"
  by (simp_all add: demo_ops_def demo_claims) (simp add: look_up_item_def find_dup_def demo_intake_def demo_item_def
      submission0_def computeDedupeKey_def demo_env_def env0_def Let_def)

lemma demo_met:
  "s_status (snd (insert_item demo_env (\<lambda>x. ''n'') ''b'' ''v'' JNull None score
     (intake_run demo_env (\<lambda>x. ''n'') demo_between (intake_run demo_env (\<lambda>x. ''n'') demo_ops demo_intake)))) = S_rejected"
proof -
  let ?d = "intake_run demo_env (\<lambda>x. ''n'') demo_between (intake_run demo_env (\<lambda>x. ''n'') demo_ops demo_intake)"
  let ?key = "computeDedupeKey demo_env (\<lambda>x. ''n'') JNull"
  have "submissions ?d = [revised_row (demo_env\<lparr>e_now := 8\<rparr>) JNull (computeDedupeKey (demo_env\<lparr>e_now := 8\<rparr>) (\<lambda>x. ''n'') JNull)
           (demo_item\<lparr>s_revisions := 3\<rparr>)]"
    by (simp add: demo_between_def demo_ops_def demo_claims finish_revision_def write_revision_def snapshot_revision_def
        submission_by_def key_taken_def set_submission_def Let_def demo_item_def submission0_def revised_row_def split: prod.split option.split)
  then have "find_dup ''b'' ?key ?d = Some ''id0''"
    by (simp add: find_dup_def revised_row_def demo_item_def submission0_def computeDedupeKey_def)
  then show ?thesis
    using revision_races_intake [OF intake_run_ok [OF intake_run_ok [OF demo_intake_ok]], of "''b''" "\<lambda>x. ''n''" JNull] by (simp add: new_submission_def)
qed

theorem one_active_item_per_key_witness:
  "submissions (intake_run demo_env (\<lambda>x. ''n'') demo_ops demo_intake) = [demo_item\<lparr>s_revisions := 3\<rparr>]
   \<and> (\<exists>(t, op) \<in> set demo_between. may_put demo_env (\<lambda>x. ''n'') ''b'' (computeDedupeKey demo_env (\<lambda>x. ''n'') JNull) op)"
proof -
  let ?d = "intake_run demo_env (\<lambda>x. ''n'') demo_ops demo_intake"
  let ?score = "computeNearDupScore ''b'' (computeLshBands demo_env (\<lambda>x. ''n'') JNull) None ?d"
  note s = demo_race(1)
  then have m: "demo_item\<lparr>s_revisions := 3\<rparr> \<in> set (submissions ?d)" by simp
  have k: "s_dedupe (demo_item\<lparr>s_revisions := 3\<rparr>) = Some ''old''" "s_status (demo_item\<lparr>s_revisions := 3\<rparr>) \<noteq> S_rejected"
    by (simp_all add: demo_item_def submission0_def)
  have "snd (insert_item demo_env (\<lambda>x. ''n'') ''b'' ''v'' JNull None ?score (intake_run demo_env (\<lambda>x. ''n'') demo_between ?d))
      \<noteq> new_submission demo_env ''b'' ''v'' JNull (Some (computeDedupeKey demo_env (\<lambda>x. ''n'') JNull)) S_submitted ?score None
          (intake_run demo_env (\<lambda>x. ''n'') demo_between ?d)"
    using demo_met [of ?score] by (auto simp: new_submission_def)
  with one_active_item_per_key [OF demo_intake_ok refl m m refl k(1,1,2,2), where bid = "''b''" and p = JNull and score = ?score
      and between = demo_between and user = "''v''" and d'' = "intake_run demo_env (\<lambda>x. ''n'') demo_between ?d"]
    demo_race(2) s show ?thesis by blast
qed

theorem revision_numbers_capped_witness:
  "claimed_numbers demo_env (\<lambda>x. ''n'') ''id0'' [(7, Op_claim ''u'' 3 ''id0''), (8, Op_claim ''u'' 3 ''id0'')] demo_intake = [3]
   \<and> revisions_of ''id0'' (intake_run demo_env (\<lambda>x. ''n'') [(7, Op_claim ''u'' 3 ''id0''), (8, Op_claim ''u'' 3 ''id0'')] demo_intake) = Some 3"
proof -
  let ?ops = "[(7, Op_claim ''u'' 3 ''id0''), (8, Op_claim ''u'' 3 ''id0'')]"
  have c: "claimed_numbers demo_env (\<lambda>x. ''n'') ''id0'' ?ops demo_intake = [3]" by (simp add: demo_claims)
  have s: "submission_by ''id0'' demo_intake = Some demo_item" "s_revisions demo_item = 2"
    by (simp_all add: submission_by_def demo_intake_def demo_item_def submission0_def)
  have "revisions_of ''id0'' (intake_run demo_env (\<lambda>x. ''n'') ?ops demo_intake)
      = Some (s_revisions demo_item + int (length (claimed_numbers demo_env (\<lambda>x. ''n'') ''id0'' ?ops demo_intake)))"
    using revision_numbers_capped [OF demo_intake_ok s(1), of 3 ?ops "\<lambda>x. ''n''"] by simp
  then show ?thesis unfolding c s(2) by simp
qed

lemma bulk_stays_within_room_witness:
  "\<exists>d' ss. submitPoolBatchItems demo_env (\<lambda>x. ''n'') (\<lambda>s. None) None ''b'' ''u'' [JNull, JBool True] demo_intake demo_intake
      = Inr (d', ss, True) \<and> map s_payload ss = [JNull] \<and> count_where (\<lambda>s. s_status s = S_submitted) ss = 1"
proof -
  let ?b = "(bounty0 ''b'')\<lparr>b_target := 2, b_accepted := 1\<rparr>"
  let ?i = "intake_item demo_env (\<lambda>x. ''n'') ''b'' ''u'' JNull demo_intake"
  have k: "computeDedupeKey demo_env (\<lambda>x. ''n'') JNull = ''null''" "computeDedupeKey demo_env (\<lambda>x. ''n'') (JBool True) = ''true''"
    by (simp_all add: computeDedupeKey_def demo_env_def)
  have n1: "find_dup ''b'' ''null'' demo_intake = None"
    by (simp add: find_dup_def demo_intake_def demo_item_def)
  have s1: "snd ?i = stored_item demo_env (\<lambda>x. ''n'') ''b'' ''u'' JNull demo_intake"
    "submissions (fst ?i) = submissions demo_intake @ [stored_item demo_env (\<lambda>x. ''n'') ''b'' ''u'' JNull demo_intake]"
    by (rule intake_item_spec)+
  have n2: "find_dup ''b'' ''true'' (fst ?i) = None"
  proof -
    have "submissions demo_intake = [demo_item]" "s_dedupe demo_item = Some ''old''"
      by (simp_all add: demo_intake_def demo_item_def)
    then show ?thesis by (simp add: find_dup_def s1(2) k)
  qed
  have lim: "fst (getPoolSubmitLimits demo_env) = 20"
    by (simp add: getPoolSubmitLimits_def getBulkThresholdItems_def getMaxItemsPerRequest_def boundedInt_def demo_env_def env0_def
        MCP_BULK_THRESHOLD_ITEMS_def SUBMISSION_ITEMS_HARD_MAX_def)
  have b: "bounty_by ''b'' demo_intake = Some ?b" "b_status ?b = B_active" "b_target ?b = 2" "b_accepted ?b = 1"
    by (simp_all add: demo_intake_def bounty_by_def bounty0_def)
  have "\<exists>d'. submitPoolBatchItems demo_env (\<lambda>x. ''n'') (\<lambda>s. None) None ''b'' ''u'' [JNull, JBool True] demo_intake demo_intake
      = Inr (d', [stored_item demo_env (\<lambda>x. ''n'') ''b'' ''u'' JNull demo_intake], True)"
    using n1 n2 s1(1) lim b
    by (simp add: submitPoolBatchItems_def target_reached_def k split_beta Let_def
        attach_created_def attachFileArtifacts_def fileFieldsForBounty_def)
  then obtain d' where r: "submitPoolBatchItems demo_env (\<lambda>x. ''n'') (\<lambda>s. None) None ''b'' ''u'' [JNull, JBool True] demo_intake demo_intake
      = Inr (d', [stored_item demo_env (\<lambda>x. ''n'') ''b'' ''u'' JNull demo_intake], True)" by blast
  from bulk_stays_within_room [OF r b(1)] b(3,4) r show ?thesis by (simp add: n1 k)
qed

lemma lost_claim_rejects_resubmission_witness:
  "\<exists>y. submission_by ''id0'' (fst (refuse_revision demo_env ''u'' 3 demo_item ((bounty0 ''b'')\<lparr>b_target := 2, b_accepted := 1\<rparr>)
       (fst (claim_revision ''u'' 3 ''id0'' (fst (finish_revision demo_env (\<lambda>x. ''n'') demo_item [] JNull 3
         (fst (claim_revision ''u'' 3 ''id0'' demo_intake))))))))
     = Some y \<and> s_status y = S_rejected \<and> s_payload y = JNull"
proof -
  have "submission_ids demo_intake" using demo_intake_ok by (simp add: intake_ok_def)
  moreover have "revise_read ''u'' ''id0'' demo_intake = Inr (demo_item, (bounty0 ''b'')\<lparr>b_target := 2, b_accepted := 1\<rparr>)"
    by (simp add: revise_read_def demo_intake_def submission_by_def demo_item_def submission0_def bounty_by_def bounty0_def
        REVISABLE_STATUSES_def)
  moreover have "s_revisions demo_item = 3 - 1" by (simp add: demo_item_def)
  moreover have "\<not> key_taken (revised_row demo_env JNull (computeDedupeKey demo_env (\<lambda>x. ''n'') JNull) demo_item) demo_intake"
    by (simp add: key_taken_def demo_intake_def revised_row_def)
  ultimately show ?thesis
    using lost_claim_rejects_resubmission [OF _ _ _ _ _ prod.collapse [symmetric] prod.collapse [symmetric]
        prod.collapse [symmetric] prod.collapse [symmetric]] by (metis zero_less_numeral)
qed

end
