(* ===== verification/Ai_Attribution.thy ===== *)
theory Ai_Attribution
  imports Prelude
begin

text \<open>
  \<open>services/ai-attribution.ts\<close>: the bounded traversal that collects the text of a payload, the five
  disclosure patterns as regular expressions with a backtracking matcher that keeps the priorities
  of \<open>RegExp\<close>, and the verdict.
\<close>

section \<open>Regular expressions\<close>

text \<open>What the patterns use: literals without case, the classes \<open>\s\<close>, \<open>[-\s]\<close> and \<open>[- ]\<close> once or
  repeated, options, alternatives and word boundaries. A position is the character before it and
  the text after it; \<open>ends\<close> lists the positions a match can reach, the preferred one first.\<close>

datatype cclass = Ws | WsDash | SpDash

datatype re =
  Lit string | One cclass | Many cclass | Opt re | Seq re re | Alt re re | Bound | Eps | Never

type_synonym position = "char option \<times> string"

fun in_class :: "cclass \<Rightarrow> char \<Rightarrow> bool" where
  "in_class Ws c = is_ws c"
| "in_class WsDash c = (is_ws c \<or> c = CHR ''-'')"
| "in_class SpDash c = (c = CHR '' '' \<or> c = CHR ''-'')"

definition word_char :: "char \<Rightarrow> bool" where
  "word_char c = (let n = of_char c :: int
                  in (48 \<le> n \<and> n \<le> 57) \<or> (65 \<le> n \<and> n \<le> 90) \<or> n = 95 \<or> (97 \<le> n \<and> n \<le> 122))"

fun word_before :: "char option \<Rightarrow> bool" where
  "word_before None = False"
| "word_before (Some c) = word_char c"

fun word_after :: "string \<Rightarrow> bool" where
  "word_after [] = False"
| "word_after (c # s) = word_char c"

fun lit_end :: "string \<Rightarrow> position \<Rightarrow> position list" where
  "lit_end [] p = [p]"
| "lit_end (x # xs) (q, []) = []"
| "lit_end (x # xs) (q, c # s) = (if lower_char x = lower_char c then lit_end xs (Some c, s) else [])"

fun many_ends :: "cclass \<Rightarrow> string \<Rightarrow> position list" where
  "many_ends k [] = []"
| "many_ends k (c # s) = (if in_class k c then many_ends k s @ [(Some c, s)] else [])"

fun ends :: "re \<Rightarrow> position \<Rightarrow> position list" where
  "ends (Lit xs) p = lit_end xs p"
| "ends (One k) p = (case snd p of [] \<Rightarrow> [] | c # s \<Rightarrow> if in_class k c then [(Some c, s)] else [])"
| "ends (Many k) p = many_ends k (snd p)"
| "ends (Opt r) p = ends r p @ [p]"
| "ends (Seq a b) p = concat (map (ends b) (ends a p))"
| "ends (Alt a b) p = ends a p @ ends b p"
| "ends Bound p = (if word_before (fst p) \<noteq> word_after (snd p) then [p] else [])"
| "ends Eps p = [p]"
| "ends Never p = []"

text \<open>\<open>matchAll\<close> with the flag \<open>g\<close>: the search goes on behind each match.\<close>

function find_all :: "re \<Rightarrow> char option \<Rightarrow> string \<Rightarrow> string list" where
  "find_all r q [] = []"
| "find_all r q (c # s) =
     (case ends r (q, c # s) of
        [] \<Rightarrow> find_all r (Some c) s
      | (q', s') # _ \<Rightarrow>
          (if length s' < length (c # s)
           then take (length (c # s) - length s') (c # s) # find_all r q' s'
           else find_all r (Some c) s))"
  by pat_completeness auto
termination by (relation "measure (\<lambda>(r, q, s). length s)") auto

section \<open>The disclosures\<close>

definition seqs :: "re list \<Rightarrow> re" where "seqs rs = foldr Seq rs Eps"
definition alts :: "re list \<Rightarrow> re" where "alts rs = foldr Alt rs Never"
definition words :: "string list \<Rightarrow> re" where "words ws = alts (map Lit ws)"

definition MODEL_OR_TOOL :: re where
  "MODEL_OR_TOOL = alts
     (map Lit [''openai'', ''chatgpt'']
      @ [Seq (Lit ''gpt'')
           (Opt (Seq (Opt (One SpDash))
                     (alts [Seq (Lit ''3'') (Opt (Lit ''.5'')), Seq (Lit ''4'') (Opt (Lit ''o'')), Lit ''5''])))]
      @ map Lit [''codex'', ''anthropic'', ''claude'', ''gemini'', ''google ai'', ''bard'', ''copilot'', ''github copilot'',
         ''mistral'', ''le chat'', ''llama'', ''meta ai'', ''deepseek'', ''grok'', ''xai'', ''qwen'',
         ''perplexity'', ''poe'', ''cursor'', ''tabnine'', ''codewhisperer'', ''amazon q'', ''replit ai'',
         ''cohere'', ''command r'', ''ai21'', ''phind''])"

definition powered :: re where
  "powered = Opt (Seq (Many WsDash) (Lit ''powered''))"

definition an_ai_tool :: re where
  "an_ai_tool = seqs [Lit ''an ai'', powered, Lit '' '', words [''tool'', ''model'']]"

definition DISCLOSURES :: "(string \<times> re) list" where
  "DISCLOSURES =
     [(''ai_language_model'', seqs [Bound, Lit ''as an ai'', powered, Lit '' language model'', Bound]),
      (''model_identity'',
         seqs [Bound, alts [Lit ''i am'', seqs [Lit ''i'', Opt (Lit [CHR 0x27]), Lit ''m'']], Many Ws,
               Alt MODEL_OR_TOOL (seqs [Lit ''an ai'', powered, Lit '' language model'']), Bound]),
      (''generated_by_model'',
         seqs [Bound, words [''generated'', ''written'', ''created'', ''produced'', ''drafted'', ''authored''], Many Ws,
               Opt (Seq (Lit ''entirely'') (Many Ws)), Lit ''by'', Many Ws, Alt MODEL_OR_TOOL an_ai_tool, Bound]),
      (''coauthor_disclosure'',
         seqs [Bound, alts [seqs [Lit ''co'', Opt (Lit ''-''), Lit ''authored''], seqs [Lit ''co'', Opt (Lit ''-''), Lit ''written''],
                            Lit ''assisted'', Lit ''with help''], Many Ws, words [''by'', ''with''], Many Ws,
               Alt MODEL_OR_TOOL an_ai_tool, Bound]),
      (''generic_ai_generated'',
         seqs [Bound, words [''ai'', ''llm'', ''machine''], Opt (One WsDash),
               words [''generated'', ''written'', ''authored'', ''produced''], Bound])]"

section \<open>Collecting the text\<close>

definition MAX_SCANNED_CHARS :: int where "MAX_SCANNED_CHARS = 100000"
definition MAX_VISITED_VALUES :: int where "MAX_VISITED_VALUES = 10000"

text \<open>\<open>slice(0, n)\<close>\<close>

definition js_prefix :: "int \<Rightarrow> string \<Rightarrow> string" where
  "js_prefix n s = (if int (length s) \<le> n then s else take (nat n) s)"

text \<open>The stack, its top first, with the strings collected so far, the characters left, the values
  visited, and whether a string was cut.\<close>

function collect_loop ::
  "json list \<Rightarrow> string list \<Rightarrow> int \<Rightarrow> int \<Rightarrow> bool \<Rightarrow> json list \<times> string list \<times> int \<times> int \<times> bool" where
  "collect_loop pending strings room visited clipped =
     (if pending \<noteq> [] \<and> room > 0 \<and> visited < MAX_VISITED_VALUES
      then (case hd pending of
              JStr s \<Rightarrow> (let chunk = js_prefix room s
                         in collect_loop (tl pending) (strings @ [chunk]) (room - int (length chunk)) (visited + 1)
                              (clipped \<or> length chunk < length s))
            | JArr vs \<Rightarrow> collect_loop (rev vs @ tl pending) strings room (visited + 1) clipped
            | JObj kvs \<Rightarrow> collect_loop (rev (map snd kvs) @ tl pending) strings room (visited + 1) clipped
            | _ \<Rightarrow> collect_loop (tl pending) strings room (visited + 1) clipped)
      else (pending, strings, room, visited, clipped))"
  by pat_completeness auto
termination by (relation "measure (\<lambda>(p, s, r, v, c). nat (MAX_VISITED_VALUES - v))") auto

declare collect_loop.simps [simp del]

fun join_lines :: "string list \<Rightarrow> string" where
  "join_lines [] = []"
| "join_lines [s] = s"
| "join_lines (s # t # r) = s @ [CHR 0x0A] @ join_lines (t # r)"

record collected =
  co_text :: string
  co_truncated :: bool
  co_visited :: int

definition collectPayloadText :: "json \<Rightarrow> collected" where
  "collectPayloadText v =
     (case collect_loop [v] [] MAX_SCANNED_CHARS 0 False of
        (pending, strings, room, visited, clipped) \<Rightarrow>
          \<lparr>co_text = join_lines strings, co_truncated = (clipped \<or> pending \<noteq> []), co_visited = visited\<rparr>)"

section \<open>The verdict\<close>

datatype scan_status = Scan_flagged | Scan_partial | Scan_clear

record ai_attribution =
  aa_passed :: bool
  aa_score :: int
  aa_status :: scan_status
  aa_matches :: "(string \<times> string) list"
  aa_scanned :: int
  aa_visited :: int
  aa_truncated :: bool

definition disclosures_in :: "string \<Rightarrow> (string \<times> string) list" where
  "disclosures_in t =
     take 50 (concat (map (\<lambda>(i, r). map (\<lambda>m. (i, take 200 m)) (take 20 (find_all r None t))) DISCLOSURES))"

definition checkAiAttribution :: "json \<Rightarrow> ai_attribution" where
  "checkAiAttribution payload =
     (let c = collectPayloadText payload; ms = disclosures_in (co_text c)
      in \<lparr>aa_passed = (ms = []), aa_score = (if ms = [] then 0 else 1),
          aa_status = (if ms \<noteq> [] then Scan_flagged else if co_truncated c then Scan_partial else Scan_clear),
          aa_matches = ms, aa_scanned = int (length (co_text c)), aa_visited = co_visited c,
          aa_truncated = co_truncated c\<rparr>)"

section \<open>The traversal\<close>

text \<open>The strings of a payload in the order they are visited, and the size of a payload.\<close>

fun leaves :: "json \<Rightarrow> string list" where
  "leaves (JStr s) = [s]"
| "leaves (JArr vs) = concat (rev (map leaves vs))"
| "leaves (JObj kvs) = concat (rev (map (\<lambda>(k, v). leaves v) kvs))"
| "leaves _ = []"

fun node_count :: "json \<Rightarrow> int" where
  "node_count (JArr vs) = 1 + sum_list (map node_count vs)"
| "node_count (JObj kvs) = 1 + sum_list (map (\<lambda>(k, v). node_count v) kvs)"
| "node_count _ = 1"

definition char_count :: "string list \<Rightarrow> int" where
  "char_count ss = sum_list (map (\<lambda>s. int (length s)) ss)"

lemma char_count_simps [simp]:
  "char_count [] = 0" "char_count (s # ss) = int (length s) + char_count ss"
  "char_count (ss @ ts) = char_count ss + char_count ts"
  by (simp_all add: char_count_def)

lemma char_count_nonneg [simp]: "0 \<le> char_count ss"
  by (induction ss) simp_all

lemma node_count_pos: "1 \<le> node_count v"
proof (induction v)
  case (JArr vs)
  then have "0 \<le> sum_list (map node_count vs)" by (intro sum_list_nonneg) force
  then show ?case by simp
next
  case (JObj kvs)
  then have "0 \<le> sum_list (map (\<lambda>(k, v). node_count v) kvs)" by (intro sum_list_nonneg) force
  then show ?case by simp
qed simp_all

lemma node_sum_nonneg: "0 \<le> sum_list (map node_count vs)"
proof (induction vs)
  case (Cons v vs)
  then show ?case using node_count_pos [of v] by simp
qed simp

lemma js_prefix_take: "0 \<le> n \<Longrightarrow> js_prefix n s = take (nat n) s"
  by (simp add: js_prefix_def)

text \<open>One round: the values pushed, and the text taken.\<close>

fun children :: "json \<Rightarrow> json list" where
  "children (JArr vs) = rev vs"
| "children (JObj kvs) = rev (map snd kvs)"
| "children _ = []"

fun own_text :: "json \<Rightarrow> string list" where
  "own_text (JStr s) = [s]"
| "own_text _ = []"

lemma leaves_split: "leaves x = own_text x @ concat (map leaves (children x))"
  by (cases x) (simp_all add: rev_map comp_def split_beta case_prod_unfold)

lemma nodes_split: "node_count x = 1 + sum_list (map node_count (children x))"
  by (cases x) (simp_all add: rev_map [symmetric] comp_def case_prod_unfold)

lemma collect_stop:
  "\<not> (p \<noteq> [] \<and> r > 0 \<and> v < MAX_VISITED_VALUES) \<Longrightarrow> collect_loop p ss r v c = (p, ss, r, v, c)"
  by (subst collect_loop.simps) (auto simp only: if_False)

lemma collect_step:
  assumes "r > 0" and "v < MAX_VISITED_VALUES"
  shows "collect_loop (x # xs) ss r v c =
    (let ts = map (js_prefix r) (own_text x)
     in collect_loop (children x @ xs) (ss @ ts) (r - char_count ts) (v + 1) (c \<or> char_count ts < char_count (own_text x)))"
  using assms by (subst collect_loop.simps) (cases x; simp add: Let_def)

lemma collect_induct [consumes 0, case_names stop step]:
  assumes stop: "\<And>p ss r v c. \<not> (p \<noteq> [] \<and> r > 0 \<and> v < MAX_VISITED_VALUES) \<Longrightarrow> P p ss r v c"
    and step: "\<And>x xs ss r v c ts. r > 0 \<Longrightarrow> v < MAX_VISITED_VALUES \<Longrightarrow> ts = map (js_prefix r) (own_text x)
      \<Longrightarrow> P (children x @ xs) (ss @ ts) (r - char_count ts) (v + 1) (c \<or> char_count ts < char_count (own_text x))
      \<Longrightarrow> P (x # xs) ss r v c"
  shows "P p ss r v c"
proof (induction "nat (MAX_VISITED_VALUES - v)" arbitrary: p ss r v c rule: less_induct)
  case less
  show ?case
  proof (cases "p \<noteq> [] \<and> r > 0 \<and> v < MAX_VISITED_VALUES")
    case True
    then obtain x xs where p: "p = x # xs" by (cases p) auto
    show ?thesis unfolding p using True by (intro step [OF _ _ refl] less) simp_all
  next
    case False
    then show ?thesis by (rule stop)
  qed
qed

lemma prefix_texts:
  "0 \<le> r \<Longrightarrow> char_count (map (js_prefix r) (own_text x)) \<le> r
     \<and> char_count (map (js_prefix r) (own_text x)) \<le> char_count (own_text x)
     \<and> (char_count (map (js_prefix r) (own_text x)) < char_count (own_text x) \<or> map (js_prefix r) (own_text x) = own_text x)"
  by (cases x) (auto simp: js_prefix_def)

lemma collect_untruncated:
  "collect_loop p ss r v c = ([], ss', r', v', False) \<Longrightarrow> \<not> c \<and> ss' = ss @ concat (map leaves p)"
proof (induction p ss r v c rule: collect_induct)
  case (stop p ss r v c)
  then show ?case by (simp add: collect_stop)
next
  case (step x xs ss r v c ts)
  then have "\<not> (c \<or> char_count ts < char_count (own_text x))"
    and "ss' = (ss @ ts) @ concat (map leaves (children x @ xs))"
    by (simp_all add: collect_step Let_def)
  moreover from this have "ts = own_text x" using prefix_texts [of r x] step(1,3) by auto
  ultimately show ?case using leaves_split [of x] by simp
qed

lemma collect_bounds:
  assumes "0 \<le> r" and "v \<le> MAX_VISITED_VALUES" and "collect_loop p ss r v c = (p', ss', r', v', c')"
  shows "0 \<le> r' \<and> v' \<le> MAX_VISITED_VALUES \<and> char_count ss' + r' = char_count ss + r
         \<and> int (length ss') \<le> int (length ss) + (v' - v)"
  using assms
proof (induction p ss r v c rule: collect_induct)
  case (stop p ss r v c)
  then show ?case by (simp add: collect_stop)
next
  case (step x xs ss r v c ts)
  have "length ts \<le> 1" using step(3) by (cases x) simp_all
  moreover have "char_count ts \<le> r" using prefix_texts [of r x] step(1,3) by simp
  ultimately show ?case using step by (auto simp: collect_step Let_def)
qed

lemma collect_complete:
  assumes "v + sum_list (map node_count p) \<le> MAX_VISITED_VALUES" and "char_count (concat (map leaves p)) < r"
  shows "collect_loop p ss r v c = ([], ss @ concat (map leaves p), r - char_count (concat (map leaves p)),
           v + sum_list (map node_count p), c)"
  using assms
proof (induction p ss r v c rule: collect_induct)
  case (stop p ss r v c)
  have "0 \<le> char_count (concat (map leaves p))" by simp
  then have r: "r > 0" using stop(3) by linarith
  have "p = []"
  proof (rule ccontr)
    assume "p \<noteq> []"
    then obtain x xs where p: "p = x # xs" by (cases p) auto
    have "v < MAX_VISITED_VALUES" using stop(2) p node_count_pos [of x] node_sum_nonneg [of xs] by simp
    with r stop(1) \<open>p \<noteq> []\<close> show False by simp
  qed
  with stop show ?case by (simp add: collect_stop)
next
  case (step x xs ss r v c ts)
  have "char_count (own_text x) \<le> char_count (concat (map leaves (x # xs)))"
    using leaves_split [of x] by simp
  then have "char_count (own_text x) \<le> r" using step(6) by simp
  then have "ts = own_text x" using step(3) by (cases x) (simp_all add: js_prefix_def)
  with step show ?case
    using leaves_split [of x] nodes_split [of x] by (simp add: collect_step Let_def algebra_simps)
qed

section \<open>A match survives its surroundings\<close>

lemma lit_end_context:
  "(q', s') \<in> set (lit_end xs (q, s)) \<Longrightarrow> word_before p = word_before q
   \<Longrightarrow> \<exists>p'. (p', s' @ t) \<in> set (lit_end xs (p, s @ t)) \<and> word_before p' = word_before q'"
proof (induction xs arbitrary: q p s)
  case (Cons x xs)
  then show ?case by (cases s) (auto split: if_splits)
qed auto

lemma many_ends_context: "(q', s') \<in> set (many_ends k s) \<Longrightarrow> (q', s' @ t) \<in> set (many_ends k (s @ t))"
  by (induction s) (auto split: if_splits)

lemma ends_context:
  assumes "(q', s') \<in> set (ends r (q, s))" and "word_before p = word_before q" and "\<not> word_after t"
  shows "\<exists>p'. (p', s' @ t) \<in> set (ends r (p, s @ t)) \<and> word_before p' = word_before q'"
  using assms
proof (induction r arbitrary: q s q' s' p)
  case (Seq a b)
  from Seq.prems(1) obtain q1 s1 where 1: "(q1, s1) \<in> set (ends a (q, s))" "(q', s') \<in> set (ends b (q1, s1))"
    by auto
  from Seq.IH(1) [OF 1(1) Seq.prems(2,3)] obtain p1
    where 2: "(p1, s1 @ t) \<in> set (ends a (p, s @ t))" "word_before p1 = word_before q1" by blast
  from Seq.IH(2) [OF 1(2) 2(2) Seq.prems(3)] obtain p2
    where 3: "(p2, s' @ t) \<in> set (ends b (p1, s1 @ t))" "word_before p2 = word_before q'" by blast
  have "(p2, s' @ t) \<in> set (ends (Seq a b) (p, s @ t))" using 2(1) 3(1) by (auto simp del: append_assoc)
  with 3(2) show ?case by blast
next
  case (Alt a b)
  then consider (left) "(q', s') \<in> set (ends a (q, s))" | (right) "(q', s') \<in> set (ends b (q, s))" by auto
  then show ?case
  proof cases
    case left
    from Alt.IH(1) [OF this Alt.prems(2,3)] show ?thesis by auto
  next
    case right
    from Alt.IH(2) [OF this Alt.prems(2,3)] show ?thesis by auto
  qed
next
  case (Opt r)
  then consider (match) "(q', s') \<in> set (ends r (q, s))" | (skip) "q' = q" "s' = s" by auto
  then show ?case
  proof cases
    case match
    from Opt.IH [OF this Opt.prems(2,3)] show ?thesis by auto
  next
    case skip
    with Opt.prems(2) show ?thesis by (intro exI [of _ p]) simp
  qed
next
  case (Many k)
  then show ?case using many_ends_context by force
next
  case (One k)
  then show ?case by (cases s) (auto split: if_splits)
next
  case Bound
  then show ?case by (cases s) (auto split: if_splits)
qed (use lit_end_context in \<open>auto\<close>)

text \<open>Every pattern consumes text.\<close>

fun consuming :: "re \<Rightarrow> bool" where
  "consuming (Lit xs) = (xs \<noteq> [])"
| "consuming (One k) = True"
| "consuming (Many k) = True"
| "consuming (Opt r) = False"
| "consuming (Seq a b) = (consuming a \<or> consuming b)"
| "consuming (Alt a b) = (consuming a \<and> consuming b)"
| "consuming Bound = False"
| "consuming Eps = False"
| "consuming Never = True"

lemma lit_end_shorter:
  "(q', s') \<in> set (lit_end xs (q, s)) \<Longrightarrow> length s' + length xs = length s"
proof (induction xs arbitrary: q s)
  case (Cons x xs)
  then show ?case by (cases s) (auto split: if_splits)
qed auto

lemma many_ends_shorter: "(q', s') \<in> set (many_ends k s) \<Longrightarrow> length s' < length s"
  by (induction s) (auto split: if_splits)

lemma ends_shorter:
  "(q', s') \<in> set (ends r (q, s)) \<Longrightarrow> length s' \<le> length s \<and> (consuming r \<longrightarrow> length s' < length s)"
proof (induction r arbitrary: q s q' s')
  case (Lit xs)
  then show ?case using lit_end_shorter [of q' s' xs q s] by (cases xs) auto
next
  case (Many k)
  then show ?case using many_ends_shorter [of q' s' k s] by auto
next
  case (Seq a b)
  from Seq.prems obtain q1 s1 where "(q1, s1) \<in> set (ends a (q, s))" "(q', s') \<in> set (ends b (q1, s1))"
    by auto
  with Seq.IH show ?case by fastforce
next
  case (One k)
  then show ?case by (cases s) (auto split: if_splits)
next
  case (Alt a b)
  then show ?case by auto
next
  case (Opt r)
  then show ?case by fastforce
qed (auto split: if_splits)

definition before :: "char option \<Rightarrow> string \<Rightarrow> char option" where
  "before q pre = (if pre = [] then q else Some (last pre))"

lemma find_all_iff:
  "consuming r \<Longrightarrow> find_all r q s \<noteq> [] \<longleftrightarrow> (\<exists>pre suf. s = pre @ suf \<and> ends r (before q pre, suf) \<noteq> [])"
proof (induction r q s rule: find_all.induct)
  case (1 r q)
  have "ends r (q, []) = []" using ends_shorter [of _ _ r q "[]"] 1 by (cases "ends r (q, [])") fastforce+
  then show ?case by (simp add: before_def)
next
  case (2 r q c s)
  show ?case
  proof (cases "ends r (q, c # s)")
    case Nil
    have "(\<exists>pre suf. c # s = pre @ suf \<and> ends r (before q pre, suf) \<noteq> [])
            \<longleftrightarrow> (\<exists>pre suf. s = pre @ suf \<and> ends r (before (Some c) pre, suf) \<noteq> [])"
      (is "?A \<longleftrightarrow> ?B")
    proof
      assume ?A
      then obtain pre suf where *: "c # s = pre @ suf" "ends r (before q pre, suf) \<noteq> []" by blast
      with Nil obtain pre' where "pre = c # pre'" by (cases pre) (auto simp: before_def)
      with * show ?B by (intro exI [of _ pre'] exI [of _ suf]) (auto simp: before_def)
    next
      assume ?B
      then obtain pre suf where "s = pre @ suf" "ends r (before (Some c) pre, suf) \<noteq> []" by blast
      then show ?A by (intro exI [of _ "c # pre"] exI [of _ suf]) (auto simp: before_def)
    qed
    with Nil 2 show ?thesis by simp
  next
    case (Cons e es)
    obtain q' s' where e: "e = (q', s')" by (cases e)
    have "length s' < length (c # s)" using ends_shorter [of q' s' r q "c # s"] Cons e 2(4) by simp
    then have "find_all r q (c # s) \<noteq> []" using Cons e by simp
    moreover have "\<exists>pre suf. c # s = pre @ suf \<and> ends r (before q pre, suf) \<noteq> []"
      using Cons by (intro exI [of _ "[]"] exI [of _ "c # s"]) (simp add: before_def)
    ultimately show ?thesis by simp
  qed
qed

lemma match_in_context:
  assumes "consuming r" and "find_all r None s \<noteq> []" and "\<not> word_before (before None a)" and "\<not> word_after b"
  shows "find_all r None (a @ s @ b) \<noteq> []"
proof -
  from assms(1,2) obtain pre suf where s: "s = pre @ suf" and e: "ends r (before None pre, suf) \<noteq> []"
    using find_all_iff by blast
  then obtain q' s' where "(q', s') \<in> set (ends r (before None pre, suf))"
    by (metis last_in_set surj_pair)
  moreover have "word_before (before None (a @ pre)) = word_before (before None pre)"
    using assms(3) by (auto simp: before_def)
  ultimately have "\<exists>p'. (p', s' @ b) \<in> set (ends r (before None (a @ pre), suf @ b))"
    using ends_context assms(4) by metis
  then show ?thesis using find_all_iff [OF assms(1)] s
    by (metis append.assoc empty_iff list.set(1))
qed

lemma join_lines_in:
  "s \<in> set ss \<Longrightarrow> \<exists>a b. join_lines ss = a @ s @ b \<and> \<not> word_before (before None a) \<and> \<not> word_after b"
proof (induction ss rule: join_lines.induct)
  case (2 t)
  then show ?case by (intro exI [of _ "[]"]) (simp add: before_def)
next
  case (3 t u ss)
  have nl: "\<not> word_char (CHR 0x0A)" by code_simp
  show ?case
  proof (cases "s = t")
    case True
    with nl show ?thesis by (intro exI [of _ "[]"] exI [of _ "CHR 0x0A # join_lines (u # ss)"]) (simp add: before_def)
  next
    case False
    with 3 obtain a b where ab: "join_lines (u # ss) = a @ s @ b" "\<not> word_before (before None a)" "\<not> word_after b"
      by auto
    have "\<not> word_before (before None (t @ CHR 0x0A # a))" using ab(2) nl by (auto simp: before_def split: if_splits)
    with ab show ?thesis by (intro exI [of _ "t @ CHR 0x0A # a"] exI [of _ b]) simp
  qed
qed simp

lemma disclosures_consuming: "list_all (\<lambda>(i, r). consuming r) DISCLOSURES"
  by code_simp

lemma collect_leaves: "\<not> co_truncated (collectPayloadText p) \<Longrightarrow> co_text (collectPayloadText p) = join_lines (leaves p)"
  using collect_untruncated [of "[p]" "[]" MAX_SCANNED_CHARS 0 False]
  by (auto simp: collectPayloadText_def split: prod.splits)

lemma disclosures_found:
  assumes "(i, r) \<in> set DISCLOSURES" and "find_all r None t \<noteq> []"
  shows "disclosures_in t \<noteq> []"
  using assms by (force simp: disclosures_in_def take_eq_Nil)

section \<open>Properties\<close>

text \<open>C20: a clear verdict is a statement about all of the payload: when some string in it, at any
  depth, contains a disclosure, the item is flagged or reported as only partly scanned, and flagged
  whenever the payload is within the limits.\<close>

theorem disclosures_never_missed:
  assumes "s \<in> set (leaves p)" and "(i, r) \<in> set DISCLOSURES" and "find_all r None s \<noteq> []"
  shows "aa_status (checkAiAttribution p) \<noteq> Scan_clear
         \<and> (node_count p \<le> 10000 \<and> char_count (leaves p) < 100000
            \<longrightarrow> \<not> aa_passed (checkAiAttribution p) \<and> aa_score (checkAiAttribution p) = 1
                \<and> aa_status (checkAiAttribution p) = Scan_flagged)"
proof -
  have whole: "disclosures_in (co_text (collectPayloadText p)) \<noteq> []" if nt: "\<not> co_truncated (collectPayloadText p)"
  proof -
    obtain a b where "join_lines (leaves p) = a @ s @ b" "\<not> word_before (before None a)" "\<not> word_after b"
      using join_lines_in [OF assms(1)] by blast
    moreover have "consuming r" using assms(2) disclosures_consuming by (auto simp: list_all_iff)
    ultimately have "find_all r None (join_lines (leaves p)) \<noteq> []" using match_in_context assms(3) by simp
    then show ?thesis using disclosures_found [OF assms(2)] collect_leaves [OF nt] by simp
  qed
  have "\<not> co_truncated (collectPayloadText p)" if "node_count p \<le> 10000" "char_count (leaves p) < 100000"
    using collect_complete [of 0 "[p]" MAX_SCANNED_CHARS "[]" False] that
    by (simp add: collectPayloadText_def MAX_SCANNED_CHARS_def MAX_VISITED_VALUES_def)
  with whole show ?thesis by (auto simp: checkAiAttribution_def Let_def)
qed

lemma join_lines_length: "int (length (join_lines ss)) \<le> char_count ss + int (length ss)"
  by (induction ss rule: join_lines.induct) simp_all

text \<open>whatever the payload, the check visits at most 10000 values, scans at most 110000
  characters and reports at most 50 excerpts of at most 200 characters; it passes exactly when it
  reports none.\<close>

lemma scan_is_bounded:
  "aa_visited (checkAiAttribution p) \<le> 10000 \<and> aa_scanned (checkAiAttribution p) \<le> 110000
   \<and> length (aa_matches (checkAiAttribution p)) \<le> 50
   \<and> list_all (\<lambda>(i, m). length m \<le> 200) (aa_matches (checkAiAttribution p))
   \<and> aa_passed (checkAiAttribution p) = (aa_matches (checkAiAttribution p) = [])"
proof -
  obtain p' ss r v c where e: "collect_loop [p] [] MAX_SCANNED_CHARS 0 False = (p', ss, r, v, c)"
    by (metis prod_cases5)
  have b: "0 \<le> r" "v \<le> 10000" "char_count ss + r = 100000" "int (length ss) \<le> v"
    using collect_bounds [OF _ _ e] by (simp_all add: MAX_SCANNED_CHARS_def MAX_VISITED_VALUES_def)
  have "int (length (join_lines ss)) \<le> 110000" using join_lines_length [of ss] b by linarith
  moreover have "list_all (\<lambda>(i, m). length m \<le> 200) (disclosures_in t)" for t
    unfolding disclosures_in_def list_all_iff by (auto dest!: in_set_takeD)
  moreover have "length (disclosures_in t) \<le> 50" for t by (simp add: disclosures_in_def)
  ultimately show ?thesis using b(2) by (simp add: checkAiAttribution_def collectPayloadText_def e Let_def)
qed

text \<open>The strings of one payload are matched as one text: two fields that say nothing together read
  as a disclosure, since a line break is white space.\<close>

definition demo_fields :: json where
  "demo_fields = JObj [(''answer'', JStr ''Claude Monet''), (''question'', JStr ''Which water lilies were created by'')]"

lemma fields_read_as_one:
  "\<not> aa_passed (checkAiAttribution demo_fields)
   \<and> list_all (\<lambda>s. list_all (\<lambda>(i, r). find_all r None s = []) DISCLOSURES) (leaves demo_fields)"
  by code_simp

theorem disclosures_never_missed_witness:
  "aa_status (checkAiAttribution (JArr [JNull, JObj [(''a'', JStr ''It was Drafted by GPT-4o.'')]])) = Scan_flagged"
proof -
  let ?p = "JArr [JNull, JObj [(''a'', JStr ''It was Drafted by GPT-4o.'')]]"
  obtain i r where m: "DISCLOSURES ! 2 = (i, r)" by (cases "DISCLOSURES ! 2")
  have "find_all (snd (DISCLOSURES ! 2)) None ''It was Drafted by GPT-4o.'' \<noteq> []" by code_simp
  moreover have "(i, r) \<in> set DISCLOSURES" using m nth_mem [of 2 DISCLOSURES] by (simp add: DISCLOSURES_def)
  ultimately show ?thesis
    using disclosures_never_missed [of "''It was Drafted by GPT-4o.''" ?p i r] m by (simp add: char_count_def)
qed

end
