(* ===== verification/Validation.thy ===== *)
theory Validation
  imports Submissions Ai_Attribution
begin

text \<open>
  \<open>services/validation.ts\<close>: the automated pipeline of one submission. The sandbox
  (\<open>runExecution\<close>) and the model review (\<open>reviewSubmission\<close>, \<open>None\<close> when it throws) are the record
  \<open>externals\<close>; evidence details, titles and the texts of notifications are not stored. The run reads
  the submission once and then writes step by step; the acceptance is one transaction.
\<close>

section \<open>Externals and settings\<close>

datatype pending_reason =
  No_provider_configured | No_executable_harness | All_providers_failed | Runtime_unavailable | Execution_unverifiable

datatype execution = Exec_done bool "real option" | Exec_pending pending_reason

fun reason_text :: "pending_reason \<Rightarrow> string" where
  "reason_text No_provider_configured = ''no_provider_configured''"
| "reason_text No_executable_harness = ''no_executable_harness''"
| "reason_text All_providers_failed = ''all_providers_failed''"
| "reason_text Runtime_unavailable = ''runtime_unavailable''"
| "reason_text Execution_unverifiable = ''execution_unverifiable''"

text \<open>\<open>executionToStageResult\<close>: whether the stage passed, and its score.\<close>

fun executionToStageResult :: "execution \<Rightarrow> bool \<times> real option" where
  "executionToStageResult (Exec_done passed score) = (passed, score)"
| "executionToStageResult (Exec_pending r) = (False, None)"

record externals =
  ex_run :: "json \<Rightarrow> execution"
  ex_configured :: bool
  ex_review :: "json \<Rightarrow> (bool \<times> real) option"

text \<open>The catalog admits only numbers as thresholds (\<open>z.number().min(0).max(1)\<close>).\<close>

definition setting_number :: "env \<Rightarrow> string \<Rightarrow> real \<Rightarrow> real" where
  "setting_number e k dflt = (case e_setting e k of None \<Rightarrow> dflt | Some v \<Rightarrow> num_of (Some v))"

definition reject_threshold :: "env \<Rightarrow> real" where
  "reject_threshold e = setting_number e ''validation.dedupe.reject_threshold'' (9 / 10)"

definition review_threshold :: "env \<Rightarrow> real" where
  "review_threshold e = setting_number e ''validation.dedupe.review_threshold'' (8 / 10)"

definition llmValidationEnabled :: "env \<Rightarrow> bool" where
  "llmValidationEnabled e \<longleftrightarrow> e_setting e ''validation.llm.enabled'' = Some (JBool True)"

section \<open>The stages\<close>

datatype dedupe_decision = DD_accepted | DD_review_required | DD_rejected

fun decision_text :: "dedupe_decision \<Rightarrow> string" where
  "decision_text DD_accepted = ''accepted''"
| "decision_text DD_review_required = ''review_required''"
| "decision_text DD_rejected = ''rejected''"

definition dedupe_decision_of :: "env \<Rightarrow> real option \<Rightarrow> dedupe_decision" where
  "dedupe_decision_of e score =
     (case score of None \<Rightarrow> DD_accepted
      | Some x \<Rightarrow> if x \<ge> reject_threshold e then DD_rejected
                  else if x \<ge> review_threshold e then DD_review_required else DD_accepted)"

definition add_result :: "env \<Rightarrow> ident \<Rightarrow> int \<Rightarrow> string \<Rightarrow> bool \<Rightarrow> real option \<Rightarrow> string option \<Rightarrow> db \<Rightarrow> db" where
  "add_result e k attempt stage passed score outcome d =
     d\<lparr>vresults := vresults d @ [\<lparr>vr_id = fresh e d, vr_submission = k, vr_attempt = attempt, vr_stage = stage,
          vr_passed = passed, vr_score = score, vr_outcome = outcome\<rparr>], db_seq := Suc (db_seq d)\<rparr>"

text \<open>A write of the row; \<open>None\<close> is the error of the unique index.\<close>

definition write_row :: "env \<Rightarrow> ident \<Rightarrow> (submission_row \<Rightarrow> submission_row) \<Rightarrow> db \<Rightarrow> db option" where
  "write_row e k f d =
     (case submission_by k d of
        None \<Rightarrow> None
      | Some x \<Rightarrow> (if key_taken (f x) d then None
                   else Some (set_submission (\<lambda>y. s_id y = k) (\<lambda>y. (f y)\<lparr>s_updated := e_now e\<rparr>) d)))"

definition resolvePoolAcceptance :: "submission_row \<Rightarrow> int \<Rightarrow> db \<Rightarrow> db \<times> bool" where
  "resolvePoolAcceptance s attempt d =
     (if s_status s = S_accepted_pending_sample then (d, True)
      else if list_ex (\<lambda>r. vr_submission r = s_id s \<and> vr_attempt r = attempt \<and> vr_stage r = ''pool_capacity'') (vresults d)
      then (d, False)
      else claimPoolAcceptanceSlot (s_bounty s) d)"

text \<open>What the acceptance writes: scores only when the execution ran (\<open>Some llm\<close>).\<close>

definition settle_scores :: "submission_row \<Rightarrow> real option option \<Rightarrow> submission_row \<Rightarrow> submission_row" where
  "settle_scores s ran_llm x =
     (case ran_llm of None \<Rightarrow> x | Some llm \<Rightarrow> x\<lparr>s_dup_score := Some (or_else (s_dup_score s) 0), s_llm := llm\<rparr>)"

definition accepted_row :: "submission_row \<Rightarrow> real option option \<Rightarrow> bool \<Rightarrow> submission_row \<Rightarrow> submission_row" where
  "accepted_row s ran_llm won x =
     settle_scores s ran_llm (if won then x\<lparr>s_status := S_accepted_pending_sample, s_pending_review := True\<rparr>
                          else x\<lparr>s_status := S_rejected\<rparr>)"

text \<open>The transaction; an error rolls the slot back.\<close>

definition accept_txn :: "env \<Rightarrow> submission_row \<Rightarrow> int \<Rightarrow> real option option \<Rightarrow> db \<Rightarrow> (db \<times> bool) option" where
  "accept_txn e s attempt ran_llm d =
     (case resolvePoolAcceptance s attempt d of
        (d1, won) \<Rightarrow> map_option (\<lambda>d2. (d2, won)) (write_row e (s_id s) (accepted_row s ran_llm won) d1))"

definition event_key :: "string \<Rightarrow> submission_row \<Rightarrow> string" where
  "event_key ty s = ty @ '':'' @ s_id s @ '':validation:'' @ show_int (s_revisions s)"

definition tell_user :: "env \<Rightarrow> string \<Rightarrow> submission_row \<Rightarrow> db \<Rightarrow> db" where
  "tell_user e ty s d =
     notifyUser e (s_contributor s) ty (Some (event_key ty s)) (Some ''Submission'') (Some (s_id s)) (Some (s_bounty s)) d"

definition tell_stages :: "env \<Rightarrow> submission_row \<Rightarrow> int \<Rightarrow> string list \<Rightarrow> db \<Rightarrow> db" where
  "tell_stages e s attempt stages d =
     notifyValidationStageResults e (s_contributor s) (s_id s) (''validation:'' @ show_int attempt) stages (Some (s_bounty s)) d"

text \<open>The evidence of the model review: the score, and whether the stage took part.\<close>

definition llm_stage :: "env \<Rightarrow> externals \<Rightarrow> submission_row \<Rightarrow> int \<Rightarrow> db \<Rightarrow> db \<times> real option \<times> bool" where
  "llm_stage e x s attempt d =
     (if \<not> llmValidationEnabled e then (d, None, False)
      else if ex_configured x then
        (case ex_review x (s_payload s) of
           Some (passed, score) \<Rightarrow>
             (add_result e (s_id s) attempt ''llm'' passed (Some score) (Some (if passed then ''llm_pass'' else ''llm_fail'')) d,
              Some score, True)
         | None \<Rightarrow> (add_result e (s_id s) attempt ''llm'' False None (Some ''provider_error'') d, None, True))
      else (add_result e (s_id s) attempt ''llm'' False None (Some ''no_provider_configured'') d, None, True))"

datatype validation_end = VE_missing | VE_duplicate | VE_tests_failed | VE_no_slot | VE_accepted | VE_error

text \<open>From the acceptance to the end of the run; \<open>passed\<close> are the stages reported before it.\<close>

definition finish_run ::
  "env \<Rightarrow> submission_row \<Rightarrow> int \<Rightarrow> real option option \<Rightarrow> string list \<Rightarrow> string list \<Rightarrow> db \<Rightarrow> db \<times> validation_end" where
  "finish_run e s attempt ran_llm lost won d =
     (case accept_txn e s attempt ran_llm d of
        None \<Rightarrow> (d, VE_error)
      | Some (d1, False) \<Rightarrow>
          (checkAndClosePoolIfTargetReached e (s_bounty s)
             (tell_stages e s attempt lost
               (tell_user e ''submission.rejected'' s
                 (add_result e (s_id s) attempt ''pool_capacity'' False None (Some ''pool_capacity_reached'') d1))), VE_no_slot)
      | Some (d1, True) \<Rightarrow>
          (checkAndClosePoolIfTargetReached e (s_bounty s)
             (tell_stages e s attempt won (tell_user e ''submission.accepted'' s d1)), VE_accepted))"

definition execution_of :: "externals \<Rightarrow> submission_row \<Rightarrow> bounty_row \<Rightarrow> execution" where
  "execution_of x s b = (if b_type b = None then Exec_pending No_executable_harness else ex_run x (s_payload s))"

definition execution_evidence :: "env \<Rightarrow> submission_row \<Rightarrow> int \<Rightarrow> execution \<Rightarrow> db \<Rightarrow> db" where
  "execution_evidence e s attempt ex d =
     add_result e (s_id s) attempt ''execution'' (fst (executionToStageResult ex)) (snd (executionToStageResult ex))
       (Some (case ex of Exec_done p sc \<Rightarrow> ''runner_completed'' | Exec_pending r \<Rightarrow> reason_text r)) d"

definition after_execution :: "env \<Rightarrow> externals \<Rightarrow> submission_row \<Rightarrow> int \<Rightarrow> execution \<Rightarrow> db \<Rightarrow> db \<times> validation_end" where
  "after_execution e x s attempt ex d =
     (case ex of
        Exec_pending r \<Rightarrow>
          finish_run e s attempt None [''dedupe'', ''ai_attribution'', ''pool_capacity''] [''dedupe'', ''ai_attribution'', ''execution''] d
      | Exec_done False score \<Rightarrow>
          (case write_row e (s_id s) (\<lambda>y. y\<lparr>s_status := S_tests_failed\<rparr>) d of
             None \<Rightarrow> (d, VE_error)
           | Some d1 \<Rightarrow> (tell_stages e s attempt [''dedupe'', ''ai_attribution'', ''execution'']
                            (tell_user e ''submission.needs_fixes'' s d1), VE_tests_failed))
      | Exec_done True score \<Rightarrow>
          (case llm_stage e x s attempt d of
             (d1, llm, step) \<Rightarrow>
               finish_run e s attempt (Some llm)
                 ([''dedupe'', ''ai_attribution'', ''execution''] @ (if step then [''llm''] else []) @ [''pool_capacity''])
                 ([''dedupe'', ''ai_attribution'', ''execution''] @ (if step then [''llm''] else []) @ [''human_audit'']) d1))"

text \<open>The run on the rows read, and the run.\<close>

definition validate_rows :: "env \<Rightarrow> externals \<Rightarrow> submission_row \<Rightarrow> bounty_row \<Rightarrow> int \<Rightarrow> db \<Rightarrow> db \<times> validation_end" where
  "validate_rows e x s b attempt d =
     (let dec = dedupe_decision_of e (s_dup_score s);
          d1 = add_result e (s_id s) attempt ''dedupe'' (dec \<noteq> DD_rejected) (Some (or_else (s_dup_score s) 0)) None d
      in if dec = DD_rejected then
           (case write_row e (s_id s) (\<lambda>y. y\<lparr>s_status := S_rejected, s_dup_decision := Some (decision_text dec)\<rparr>) d1 of
              None \<Rightarrow> (d1, VE_error)
            | Some d2 \<Rightarrow> (tell_stages e s attempt [''dedupe''] d2, VE_duplicate))
         else
           let d2 = (if dec = DD_review_required
                     then set_submission (\<lambda>y. s_id y = s_id s)
                            (\<lambda>y. y\<lparr>s_dup_decision := Some (decision_text dec), s_updated := e_now e\<rparr>) d1
                     else d1);
               ai = checkAiAttribution (s_payload s);
               d3 = add_result e (s_id s) attempt ''ai_attribution'' (aa_passed ai) (Some (real_of_int (aa_score ai))) None d2;
               ex = execution_of x s b
           in after_execution e x s attempt ex (execution_evidence e s attempt ex d3))"

definition runSubmissionValidation :: "env \<Rightarrow> externals \<Rightarrow> ident \<Rightarrow> int \<Rightarrow> db \<Rightarrow> db \<times> validation_end" where
  "runSubmissionValidation e x k attempt d =
     (case submission_by k d of
        None \<Rightarrow> (d, VE_missing)
      | Some s \<Rightarrow> (case bounty_by (s_bounty s) d of
                     None \<Rightarrow> (d, VE_missing)
                   | Some b \<Rightarrow> validate_rows e x s b attempt d))"

section \<open>What a run leaves alone\<close>

lemma add_result_frame [simp]:
  "submissions (add_result e k a st p sc oc d) = submissions d" "bounties (add_result e k a st p sc oc d) = bounties d"
  by (simp_all add: add_result_def)

lemma set_submission_results [simp]: "vresults (set_submission P f d) = vresults d"
  by (simp add: set_submission_def)

lemma tell_frame [simp]:
  "submissions (tell_user e ty s d) = submissions d" "bounties (tell_user e ty s d) = bounties d"
  "vresults (tell_user e ty s d) = vresults d"
  "submissions (tell_stages e s a sts d) = submissions d" "bounties (tell_stages e s a sts d) = bounties d"
  "vresults (tell_stages e s a sts d) = vresults d"
  by (simp_all add: tell_user_def tell_stages_def)

lemma by_cong:
  "submissions d' = submissions d \<Longrightarrow> submission_by k d' = submission_by k d"
  "bounties d' = bounties d \<Longrightarrow> bounty_by c d' = bounty_by c d"
  "bounties d' = bounties d \<Longrightarrow> bounty_ids d' = bounty_ids d"
  by (simp_all add: submission_by_def bounty_by_def bounty_ids_def)

lemma key_taken_cong: "submissions d' = submissions d \<Longrightarrow> key_taken x d' = key_taken x d"
  by (simp add: key_taken_def)

lemma check_pool_frame:
  "pool_frame d (checkAndClosePoolIfTargetReached e bid d)"
  by (auto simp: checkAndClosePoolIfTargetReached_def split: option.split prod.split)
    (metis fst_conv pool_frame_enqueue pool_frame_parts(2) pool_frame_trans)+

lemma check_pool_by:
  assumes "bounty_by bid d = Some b"
  shows "\<exists>b'. bounty_by bid (checkAndClosePoolIfTargetReached e bid d) = Some b' \<and> b_accepted b' = b_accepted b
           \<and> b_target b' = b_target b \<and> b_type b' = b_type b"
proof -
  have c: "bounty_by bid (enqueuePoolSampling e bid x) = bounty_by bid x" for x by (rule bounty_by_cong) simp
  show ?thesis
    using close_cas_by [OF assms, of e] assms
    by (auto simp: checkAndClosePoolIfTargetReached_def c case_prod_beta close_row_def)
qed

text \<open>The evidence of one attempt, oldest first.\<close>

definition trail :: "ident \<Rightarrow> int \<Rightarrow> db \<Rightarrow> (string \<times> bool) list" where
  "trail k attempt d =
     map (\<lambda>r. (vr_stage r, vr_passed r)) (filter (\<lambda>r. vr_submission r = k \<and> vr_attempt r = attempt) (vresults d))"

lemma trail_cong: "vresults d' = vresults d \<Longrightarrow> trail k a d' = trail k a d"
  by (simp add: trail_def)

lemma trail_add [simp]: "trail k a (add_result e k a st p sc oc d) = trail k a d @ [(st, p)]"
  by (simp add: trail_def add_result_def)

section \<open>The acceptance\<close>

text \<open>A write of the row succeeds when no other active row of the pool holds its key.\<close>

definition key_free :: "submission_row \<Rightarrow> db \<Rightarrow> bool" where
  "key_free s d \<longleftrightarrow> \<not> key_taken (s\<lparr>s_status := S_submitted\<rparr>) d"

definition same_item :: "submission_row \<Rightarrow> submission_row \<Rightarrow> bool" where
  "same_item s x \<longleftrightarrow> s_id x = s_id s \<and> s_bounty x = s_bounty s \<and> s_dedupe x = s_dedupe s \<and> s_payload x = s_payload s
     \<and> s_contributor x = s_contributor s"

lemma free_row: "key_free s d \<Longrightarrow> same_item s y \<Longrightarrow> \<not> key_taken y d"
  by (auto simp: key_free_def key_taken_def same_item_def list_ex_iff)

lemma write_row_free:
  assumes "submission_by (s_id s) d = Some x" and "key_free s d" and "same_item s (f x)"
  shows "write_row e (s_id s) f d = Some (set_submission (\<lambda>y. s_id y = s_id s) (\<lambda>y. (f y)\<lparr>s_updated := e_now e\<rparr>) d)"
  using assms free_row [OF assms(2,3)] by (simp add: write_row_def)

lemma key_free_write:
  assumes "key_free s d" and "\<And>y. s_id y = s_id s \<Longrightarrow> s_id (f y) = s_id s"
  shows "key_free s (set_submission (\<lambda>y. s_id y = s_id s) f d)"
proof -
  have "\<not> (s_id x \<noteq> s_id s \<and> s_bounty x = s_bounty s \<and> s_dedupe x = s_dedupe s \<and> s_status x \<noteq> S_rejected)"
    if "s_dedupe s \<noteq> None" "x \<in> set (submissions d)" for x
    using assms(1) that by (auto simp: key_free_def key_taken_def list_ex_iff)
  moreover have "s_id x \<noteq> s_id s \<Longrightarrow> x \<in> set (submissions d)" if "x \<in> set (update_where (\<lambda>y. s_id y = s_id s) f (submissions d))" for x
    using that assms(2) by (auto simp: update_where_def split: if_splits)
  ultimately show ?thesis by (auto simp: key_free_def key_taken_def list_ex_iff)
qed

lemma key_free_cong: "submissions d' = submissions d \<Longrightarrow> key_free s d' = key_free s d"
  by (simp add: key_free_def key_taken_def)

text \<open>Whether the acceptance is won, on the rows read.\<close>

definition wins :: "submission_row \<Rightarrow> bounty_row \<Rightarrow> bool \<Rightarrow> bool" where
  "wins s b lost \<longleftrightarrow> s_status s = S_accepted_pending_sample \<or> (\<not> lost \<and> (b_target b \<le> 0 \<or> b_accepted b < b_target b))"

definition takes_slot :: "submission_row \<Rightarrow> bool \<Rightarrow> int" where
  "takes_slot s won = (if won \<and> s_status s \<noteq> S_accepted_pending_sample then 1 else 0)"

definition lost_before :: "ident \<Rightarrow> int \<Rightarrow> db \<Rightarrow> bool" where
  "lost_before k attempt d \<longleftrightarrow> list_ex (\<lambda>p. fst p = ''pool_capacity'') (trail k attempt d)"

lemma resolve_spec:
  assumes "bounty_ids d" and "bounty_by (s_bounty s) d = Some b" and "resolvePoolAcceptance s a d = (d1, won)"
  shows "won = wins s b (lost_before (s_id s) a d)" and "submissions d1 = submissions d" and "vresults d1 = vresults d"
    and "bounty_ids d1" and "bounty_by (s_bounty s) d1 = Some (b\<lparr>b_accepted := b_accepted b + takes_slot s won\<rparr>)"
proof -
  have l: "list_ex (\<lambda>r. vr_submission r = s_id s \<and> vr_attempt r = a \<and> vr_stage r = ''pool_capacity'') (vresults d)
      = lost_before (s_id s) a d"
    by (auto simp: lost_before_def trail_def list_ex_iff)
  note c = claim_spec [OF assms(1,2)]
  have v: "vresults (fst (claimPoolAcceptanceSlot (s_bounty s) d)) = vresults d"
    by (simp add: claimPoolAcceptanceSlot_def set_bounty_def)
  show "won = wins s b (lost_before (s_id s) a d)"
    using assms(3) c(1) by (auto simp: resolvePoolAcceptance_def l wins_def split: if_splits)
  have d1: "d1 = d \<or> d1 = fst (claimPoolAcceptanceSlot (s_bounty s) d)"
    using assms(3) by (auto simp: resolvePoolAcceptance_def split: if_splits)
  then show "submissions d1 = submissions d" "vresults d1 = vresults d" "bounty_ids d1"
    using assms(1) c(3,5) v by auto
  have "resolvePoolAcceptance s a d = (d, won) \<and> takes_slot s won = 0
      \<or> s_status s \<noteq> S_accepted_pending_sample \<and> claimPoolAcceptanceSlot (s_bounty s) d = (d1, won)"
    using assms(3) by (auto simp: resolvePoolAcceptance_def takes_slot_def split: if_splits)
  then show "bounty_by (s_bounty s) d1 = Some (b\<lparr>b_accepted := b_accepted b + takes_slot s won\<rparr>)"
    using assms(2,3) c(1,2) by (auto simp: takes_slot_def)
qed

text \<open>The row after the transaction, and the pool.\<close>

lemma accept_txn_spec:
  fixes a :: int
  assumes "bounty_ids d" and "bounty_by (s_bounty s) d = Some b" and x: "submission_by (s_id s) d = Some x"
    and "key_free s d" and "same_item s x"
  defines "won \<equiv> wins s b (lost_before (s_id s) a d)"
  shows "\<exists>d1. accept_txn e s a rl d = Some (d1, won)
          \<and> submission_by (s_id s) d1 = Some ((accepted_row s rl won x)\<lparr>s_updated := e_now e\<rparr>)
          \<and> vresults d1 = vresults d \<and> bounty_ids d1 \<and> key_free s d1
          \<and> bounty_by (s_bounty s) d1 = Some (b\<lparr>b_accepted := b_accepted b + takes_slot s won\<rparr>)"
proof -
  obtain d0 w where r: "resolvePoolAcceptance s a d = (d0, w)" by force
  note sp = resolve_spec [OF assms(1,2) r]
  have w: "w = won" using sp(1) by (simp add: won_def)
  have id: "s_id (accepted_row s rl won y) = s_id y" for y
    by (simp add: accepted_row_def settle_scores_def split: option.split)
  have "same_item s (accepted_row s rl won x)"
    using assms(5) by (auto simp: same_item_def accepted_row_def settle_scores_def split: option.split)
  moreover have x0: "submission_by (s_id s) d0 = Some x" using x by (simp add: submission_by_def sp(2))
  moreover have k0: "key_free s d0" using assms(4) key_free_cong [OF sp(2)] by simp
  ultimately have wr: "write_row e (s_id s) (accepted_row s rl won) d0
      = Some (set_submission (\<lambda>y. s_id y = s_id s) (\<lambda>y. (accepted_row s rl won y)\<lparr>s_updated := e_now e\<rparr>) d0)"
    (is "_ = Some ?d1") by (intro write_row_free)
  have "s_id x = s_id s" using assms(5) by (simp add: same_item_def)
  then have "submission_by (s_id s) ?d1 = Some ((accepted_row s rl won x)\<lparr>s_updated := e_now e\<rparr>)"
    using submission_by_set [OF x0, of "\<lambda>y. s_id y = s_id s"] id by simp
  moreover have "key_free s ?d1" using k0 by (rule key_free_write) (simp add: id)
  moreover have "bounties ?d1 = bounties d0" by (simp add: set_submission_def)
  ultimately show ?thesis
    using r wr sp w by (intro exI [of _ ?d1]) (simp add: accept_txn_def bounty_ids_def bounty_by_def)
qed

lemma accepted_row_item: "same_item s x \<Longrightarrow> same_item s ((accepted_row s rl won x)\<lparr>s_updated := t\<rparr>)"
  by (simp add: same_item_def accepted_row_def settle_scores_def split: option.split)

definition last_stage :: "bool \<Rightarrow> (string \<times> bool) list" where
  "last_stage won = (if won then [] else [(''pool_capacity'', False)])"

definition run_end :: "bool \<Rightarrow> validation_end" where
  "run_end won = (if won then VE_accepted else VE_no_slot)"

text \<open>What a phase of the run leaves: the row \<open>y\<close>, the slot counter, the evidence; and what a later phase needs.\<close>

definition leaves :: "submission_row \<Rightarrow> bounty_row \<Rightarrow> int \<Rightarrow> submission_row \<Rightarrow> int \<Rightarrow> (string \<times> bool) list \<Rightarrow> db \<Rightarrow> bool" where
  "leaves s b a y n tr d \<longleftrightarrow>
     submission_by (s_id s) d = Some y \<and> same_item s y \<and> key_free s d \<and> bounty_ids d
     \<and> (\<exists>b'. bounty_by (s_bounty s) d = Some b' \<and> b_accepted b' = n \<and> b_target b' = b_target b \<and> b_type b' = b_type b)
     \<and> trail (s_id s) a d = tr"

lemma leaves_cong:
  assumes "leaves s b a y n tr d" and "submissions d' = submissions d" and "bounties d' = bounties d" and "trail (s_id s) a d' = tr'"
  shows "leaves s b a y n tr' d'"
  using assms key_free_cong [OF assms(2), of s]
  by (simp add: leaves_def submission_by_def bounty_by_def bounty_ids_def)

lemma leaves_check:
  assumes "leaves s b a y n tr d"
  shows "leaves s b a y n tr (checkAndClosePoolIfTargetReached e (s_bounty s) d)"
proof -
  let ?d = "checkAndClosePoolIfTargetReached e (s_bounty s) d"
  have f: "pool_frame d ?d" by (rule check_pool_frame)
  then have "submissions ?d = submissions d" "vresults ?d = vresults d" by (simp_all add: pool_frame_def)
  then show ?thesis
    using assms check_pool_by [of "s_bounty s" d _ e] pool_frame_ids [OF f] key_free_cong [of ?d d s] trail_cong [of ?d d "s_id s" a]
    unfolding leaves_def submission_by_def by (metis (no_types, lifting))
qed

lemma leaves_add:
  "leaves s b a x n tr d \<Longrightarrow> leaves s b a x n (tr @ [(st, p)]) (add_result e (s_id s) a st p sc oc d)"
  by (rule leaves_cong) (auto simp: leaves_def)

lemma leaves_tell:
  assumes "leaves s b a x n tr d"
  shows "leaves s b a x n tr (tell_stages e s' a' sts d)" and "leaves s b a x n tr (tell_user e' ty s'' d)"
proof -
  show "leaves s b a x n tr (tell_stages e s' a' sts d)"
    by (rule leaves_cong [OF assms]) (use assms in \<open>auto simp: leaves_def trail_def\<close>)
  show "leaves s b a x n tr (tell_user e' ty s'' d)"
    by (rule leaves_cong [OF assms]) (use assms in \<open>auto simp: leaves_def trail_def\<close>)
qed

lemma finish_run_spec:
  assumes l: "leaves s b a x (b_accepted b) tr d"
  defines "won \<equiv> wins s b (list_ex (\<lambda>p. fst p = ''pool_capacity'') tr)"
  shows "\<exists>d1. finish_run e s a rl lost ws d = (d1, run_end won)
          \<and> leaves s b a ((accepted_row s rl won x)\<lparr>s_updated := e_now e\<rparr>) (b_accepted b + takes_slot s won) (tr @ last_stage won) d1"
proof -
  obtain b0 where b0: "bounty_by (s_bounty s) d = Some b0" "b_accepted b0 = b_accepted b" "b_target b0 = b_target b" "b_type b0 = b_type b"
    using l by (auto simp: leaves_def)
  have tr: "trail (s_id s) a d = tr" using l by (simp add: leaves_def)
  have w: "wins s b0 (lost_before (s_id s) a d) = won"
    using b0 tr by (simp add: wins_def won_def lost_before_def)
  obtain d1 where d1: "accept_txn e s a rl d = Some (d1, won)"
      "submission_by (s_id s) d1 = Some ((accepted_row s rl won x)\<lparr>s_updated := e_now e\<rparr>)"
      "vresults d1 = vresults d" "bounty_ids d1" "key_free s d1"
      "bounty_by (s_bounty s) d1 = Some (b0\<lparr>b_accepted := b_accepted b0 + takes_slot s won\<rparr>)"
    using accept_txn_spec [of d s b0 x e a rl, unfolded w] l b0(1) unfolding leaves_def by blast
  have item: "same_item s ((accepted_row s rl won x)\<lparr>s_updated := e_now e\<rparr>)"
    using l by (intro accepted_row_item) (simp add: leaves_def)
  have l1: "leaves s b a ((accepted_row s rl won x)\<lparr>s_updated := e_now e\<rparr>) (b_accepted b + takes_slot s won) tr d1"
    using d1 item b0 tr trail_cong [OF d1(3)] by (simp add: leaves_def)
  show ?thesis
  proof (cases won)
    case True
    then show ?thesis
      using leaves_check [OF leaves_tell(1) [OF leaves_tell(2) [OF l1]], of e e s a ws e "''submission.accepted''" s] d1(1)
      by (simp add: finish_run_def run_end_def last_stage_def)
  next
    case False
    then show ?thesis
      using leaves_check [OF leaves_tell(1) [OF leaves_tell(2) [OF leaves_add [OF l1, of "''pool_capacity''" False e None
          "Some ''pool_capacity_reached''"]]], of e e s a lost e "''submission.rejected''" s] d1(1)
      by (simp add: finish_run_def run_end_def last_stage_def)
  qed
qed

section \<open>The end of a run\<close>

text \<open>The verdict the code means to reach, on the rows read: whether the attempt lost a slot before is \<open>lost\<close>.\<close>

definition verdict :: "env \<Rightarrow> externals \<Rightarrow> submission_row \<Rightarrow> bounty_row \<Rightarrow> bool \<Rightarrow> validation_end" where
  "verdict e x s b lost =
     (if dedupe_decision_of e (s_dup_score s) = DD_rejected then VE_duplicate
      else case execution_of x s b of
             Exec_done False sc \<Rightarrow> VE_tests_failed
           | _ \<Rightarrow> run_end (wins s b lost))"

fun end_status :: "validation_end \<Rightarrow> submission_status" where
  "end_status VE_tests_failed = S_tests_failed"
| "end_status VE_accepted = S_accepted_pending_sample"
| "end_status v = S_rejected"

definition llm_rows :: "env \<Rightarrow> externals \<Rightarrow> submission_row \<Rightarrow> execution \<Rightarrow> (string \<times> bool) list" where
  "llm_rows e x s ex =
     (case ex of
        Exec_done True sc \<Rightarrow>
          if llmValidationEnabled e
          then [(''llm'', ex_configured x \<and> (case ex_review x (s_payload s) of None \<Rightarrow> False | Some (p, sc) \<Rightarrow> p))]
          else []
      | _ \<Rightarrow> [])"

definition evidence_rows :: "env \<Rightarrow> externals \<Rightarrow> submission_row \<Rightarrow> bounty_row \<Rightarrow> validation_end \<Rightarrow> (string \<times> bool) list" where
  "evidence_rows e x s b v =
     (if v = VE_duplicate then [(''dedupe'', False)]
      else [(''dedupe'', True), (''ai_attribution'', aa_passed (checkAiAttribution (s_payload s))),
            (''execution'', fst (executionToStageResult (execution_of x s b)))]
           @ llm_rows e x s (execution_of x s b) @ (if v = VE_no_slot then [(''pool_capacity'', False)] else []))"

lemma leaves_write:
  assumes "leaves s b a x n tr d" and "\<And>y. same_item s y \<Longrightarrow> same_item s (f y)" and "\<And>y. s_id (f y) = s_id y"
  shows "write_row e (s_id s) f d = Some (set_submission (\<lambda>y. s_id y = s_id s) (\<lambda>y. (f y)\<lparr>s_updated := e_now e\<rparr>) d)"
    and "leaves s b a ((f x)\<lparr>s_updated := e_now e\<rparr>) n tr (set_submission (\<lambda>y. s_id y = s_id s) (\<lambda>y. (f y)\<lparr>s_updated := e_now e\<rparr>) d)"
proof -
  let ?d = "set_submission (\<lambda>y. s_id y = s_id s) (\<lambda>y. (f y)\<lparr>s_updated := e_now e\<rparr>) d"
  have x: "submission_by (s_id s) d = Some x" "same_item s x" "key_free s d" using assms(1) by (simp_all add: leaves_def)
  show "write_row e (s_id s) f d = Some ?d" using x assms(2) by (intro write_row_free)
  have "submission_by (s_id s) ?d = Some ((f x)\<lparr>s_updated := e_now e\<rparr>)"
    using submission_by_set [OF x(1), of "\<lambda>y. s_id y = s_id s"] assms(3) x(2) by (simp add: same_item_def)
  moreover have "key_free s ?d" using x(3) by (rule key_free_write) (simp add: assms(3))
  moreover have "same_item s ((f x)\<lparr>s_updated := e_now e\<rparr>)" using assms(2) [OF x(2)] by (simp add: same_item_def)
  moreover have "bounties ?d = bounties d" by (simp add: set_submission_def)
  ultimately show "leaves s b a ((f x)\<lparr>s_updated := e_now e\<rparr>) n tr ?d"
    using assms(1) by (simp add: leaves_def bounty_by_def bounty_ids_def trail_def)
qed

lemma leaves_llm:
  assumes "leaves s b a x n tr d"
  shows "\<exists>d1 sc st. llm_stage e y s a d = (d1, sc, st)
           \<and> leaves s b a x n (tr @ (if llmValidationEnabled e
                then [(''llm'', ex_configured y \<and> (case ex_review y (s_payload s) of None \<Rightarrow> False | Some (p, sc) \<Rightarrow> p))] else [])) d1"
  using assms by (auto simp: llm_stage_def intro!: leaves_add split: option.split)

text \<open>How the row of the item ends.\<close>

definition ends_as :: "submission_row \<Rightarrow> validation_end \<Rightarrow> submission_row \<Rightarrow> bool" where
  "ends_as s v y \<longleftrightarrow>
     s_status y = end_status v \<and> (v = VE_accepted \<longrightarrow> s_pending_review y)
     \<and> (s_dup_score s \<noteq> None \<longrightarrow> s_dup_score y = s_dup_score s)"

lemma finish_ends:
  assumes "leaves s b a x (b_accepted b) tr d" and "s_dup_score x = s_dup_score s"
  defines "won \<equiv> wins s b (list_ex (\<lambda>p. fst p = ''pool_capacity'') tr)"
  shows "\<exists>d1 y. finish_run e s a rl lost ws d = (d1, run_end won) \<and> ends_as s (run_end won) y
          \<and> leaves s b a y (b_accepted b + takes_slot s won) (tr @ last_stage won) d1"
proof -
  obtain d1 where "finish_run e s a rl lost ws d = (d1, run_end won)"
      "leaves s b a ((accepted_row s rl won x)\<lparr>s_updated := e_now e\<rparr>) (b_accepted b + takes_slot s won) (tr @ last_stage won) d1"
    using finish_run_spec [OF assms(1)] unfolding won_def by blast
  moreover have "ends_as s (run_end won) ((accepted_row s rl won x)\<lparr>s_updated := e_now e\<rparr>)"
    using assms(2) by (auto simp: ends_as_def accepted_row_def settle_scores_def run_end_def or_else_def split: option.split)
  ultimately show ?thesis by blast
qed

lemma after_execution_spec:
  fixes ex :: execution and d :: db
  assumes "leaves s b a x (b_accepted b) tr d" and "s_dup_score x = s_dup_score s"
  defines "won \<equiv> wins s b (list_ex (\<lambda>p. fst p = ''pool_capacity'') tr)"
  defines "v \<equiv> (case ex of Exec_done False sc \<Rightarrow> VE_tests_failed | _ \<Rightarrow> run_end won)"
  shows "\<exists>d1 y. after_execution e xt s a ex d = (d1, v) \<and> ends_as s v y
          \<and> leaves s b a y (b_accepted b + (if v = VE_accepted then takes_slot s True else 0))
              (tr @ llm_rows e xt s ex @ (if v = VE_no_slot then [(''pool_capacity'', False)] else [])) d1"
proof (cases ex)
  case (Exec_pending r)
  from finish_ends [OF assms(1,2), of e None] show ?thesis
    unfolding won_def [symmetric] by (fastforce simp: after_execution_def v_def Exec_pending llm_rows_def run_end_def last_stage_def takes_slot_def)
next
  case (Exec_done p sc)
  show ?thesis
  proof (cases p)
    case False
    note w = leaves_write [OF assms(1), of "\<lambda>y. y\<lparr>s_status := S_tests_failed\<rparr>" e]
    have st: "same_item s y \<Longrightarrow> same_item s (y\<lparr>s_status := S_tests_failed\<rparr>)" for y by (simp add: same_item_def)
    note l = leaves_tell(1) [OF leaves_tell(2) [OF w(2) [OF st]]]
    have "ends_as s VE_tests_failed (x\<lparr>s_status := S_tests_failed, s_updated := e_now e\<rparr>)"
      using assms(2) by (simp add: ends_as_def)
    with False w(1) [OF st] l show ?thesis
      by (fastforce simp: after_execution_def v_def Exec_done llm_rows_def)
  next
    case True
    let ?tr = "tr @ (if llmValidationEnabled e
                then [(''llm'', ex_configured xt \<and> (case ex_review xt (s_payload s) of None \<Rightarrow> False | Some (p, sc) \<Rightarrow> p))] else [])"
    obtain d1 llm st where d1: "llm_stage e xt s a d = (d1, llm, st)" "leaves s b a x (b_accepted b) ?tr d1"
      using leaves_llm [OF assms(1)] by blast
    have w: "wins s b (list_ex (\<lambda>p. fst p = ''pool_capacity'') ?tr) = won" by (simp add: won_def)
    from finish_ends [OF d1(2) assms(2), of e "Some llm", unfolded w] True d1(1) show ?thesis
      by (fastforce simp: after_execution_def v_def Exec_done llm_rows_def run_end_def last_stage_def takes_slot_def)
  qed
qed

lemma run_leaves:
  fixes e :: env and x :: externals and a :: int
  assumes s: "submission_by k d = Some s" and b: "bounty_by (s_bounty s) d = Some b" and "bounty_ids d" and "key_free s d"
  defines "v \<equiv> verdict e x s b (lost_before k a d)"
  shows "\<exists>d' y. runSubmissionValidation e x k a d = (d', v) \<and> ends_as s v y
           \<and> leaves s b a y (b_accepted b + (if v = VE_accepted then takes_slot s True else 0))
               (trail k a d @ evidence_rows e x s b v) d'"
proof -
  have k: "s_id s = k" using submission_by_row [OF s] by simp
  have l0: "leaves s b a s (b_accepted b) (trail k a d) d"
    using assms by (auto simp: leaves_def same_item_def k)
  let ?dec = "dedupe_decision_of e (s_dup_score s)"
  let ?d1 = "add_result e (s_id s) a ''dedupe'' (?dec \<noteq> DD_rejected) (Some (or_else (s_dup_score s) 0)) None d"
  have l1: "leaves s b a s (b_accepted b) (trail k a d @ [(''dedupe'', ?dec \<noteq> DD_rejected)]) ?d1"
    by (rule leaves_add [OF l0])
  show ?thesis
  proof (cases "?dec = DD_rejected")
    case True
    let ?f = "\<lambda>y. y\<lparr>s_status := S_rejected, s_dup_decision := Some (decision_text ?dec)\<rparr>"
    have si: "same_item s y \<Longrightarrow> same_item s (?f y)" for y by (simp add: same_item_def)
    note w = leaves_write [OF l1, of ?f e]
    note l = leaves_tell(1) [OF w(2) [OF si]]
    have "ends_as s VE_duplicate ((?f s)\<lparr>s_updated := e_now e\<rparr>)" by (simp add: ends_as_def)
    with True w(1) [OF si] l s b show ?thesis
      by (fastforce simp: runSubmissionValidation_def validate_rows_def v_def verdict_def evidence_rows_def)
  next
    case False
    let ?d2 = "if ?dec = DD_review_required
               then set_submission (\<lambda>y. s_id y = s_id s)
                      (\<lambda>y. y\<lparr>s_dup_decision := Some (decision_text ?dec), s_updated := e_now e\<rparr>) ?d1 else ?d1"
    let ?y = "if ?dec = DD_review_required then s\<lparr>s_dup_decision := Some (decision_text ?dec), s_updated := e_now e\<rparr> else s"
    have si: "same_item s y \<Longrightarrow> same_item s (y\<lparr>s_dup_decision := Some (decision_text ?dec)\<rparr>)" for y by (simp add: same_item_def)
    have l2: "leaves s b a ?y (b_accepted b) (trail k a d @ [(''dedupe'', True)]) ?d2"
      using l1 leaves_write(2) [OF l1, of "\<lambda>y. y\<lparr>s_dup_decision := Some (decision_text ?dec)\<rparr>" e, OF si] False
      by (cases "?dec = DD_review_required") simp_all
    let ?ai = "checkAiAttribution (s_payload s)"
    let ?d3 = "add_result e (s_id s) a ''ai_attribution'' (aa_passed ?ai) (Some (real_of_int (aa_score ?ai))) None ?d2"
    let ?ex = "execution_of x s b"
    let ?tr = "trail k a d @ [(''dedupe'', True), (''ai_attribution'', aa_passed ?ai), (''execution'', fst (executionToStageResult ?ex))]"
    have l4: "leaves s b a ?y (b_accepted b) ?tr (execution_evidence e s a ?ex ?d3)"
      using leaves_add [OF leaves_add [OF l2]] by (simp add: execution_evidence_def)
    have lost: "list_ex (\<lambda>p. fst p = ''pool_capacity'') ?tr = lost_before k a d"
      by (simp add: lost_before_def)
    have ex: "(case ?ex of Exec_done False sc \<Rightarrow> VE_tests_failed
        | _ \<Rightarrow> run_end (wins s b (list_ex (\<lambda>p. fst p = ''pool_capacity'') ?tr))) = v"
      using False unfolding lost v_def verdict_def by simp
    have run: "runSubmissionValidation e x k a d = after_execution e x s a ?ex (execution_evidence e s a ?ex ?d3)"
      using s b False by (simp add: runSubmissionValidation_def validate_rows_def Let_def)
    have "v \<noteq> VE_duplicate"
      using False by (simp add: v_def verdict_def run_end_def split: execution.split bool.split)
    moreover have "s_dup_score ?y = s_dup_score s" by simp
    ultimately show ?thesis
      using after_execution_spec [OF l4, where ex = ?ex and e = e and xt = x] unfolding ex run evidence_rows_def by simp
  qed
qed

section \<open>Properties\<close>

text \<open>C23: a run whose item and pool exist ends exactly as the stages decide: a duplicate and a failed test
  leave the slot counter alone, an accepted item takes one slot unless it holds one already and is marked
  for human review, an item without a slot is rejected; the evidence of the attempt grows by the rows of
  the stages that ran, in order. No run ever writes \<open>accepted\<close>.\<close>

theorem validation_reaches_verdict:
  assumes "submission_by k d = Some s" and "bounty_by (s_bounty s) d = Some b" and "bounty_ids d" and "key_free s d"
    and "runSubmissionValidation e x k a d = (d', v)"
  shows "v = verdict e x s b (lost_before k a d)
         \<and> trail k a d' = trail k a d @ evidence_rows e x s b v
         \<and> (\<exists>y b'. submission_by k d' = Some y \<and> s_status y = end_status v \<and> (v = VE_accepted \<longrightarrow> s_pending_review y)
              \<and> bounty_by (s_bounty s) d' = Some b'
              \<and> b_accepted b' = b_accepted b + (if v = VE_accepted \<and> s_status s \<noteq> S_accepted_pending_sample then 1 else 0))"
proof -
  have k: "s_id s = k" using submission_by_row [OF assms(1)] by simp
  from run_leaves [OF assms(1-4), of e x a] assms(5) show ?thesis
    unfolding leaves_def ends_as_def takes_slot_def k by auto
qed

text \<open>What a later run of the same item reads.\<close>

lemma leaves_reads:
  assumes "leaves s b a y n tr d" and "s_id s = k"
  shows "submission_by k d = Some y" and "bounty_ids d" and "key_free y d" and "trail k a d = tr"
    and "\<exists>b'. bounty_by (s_bounty y) d = Some b' \<and> b_accepted b' = n \<and> b_target b' = b_target b \<and> b_type b' = b_type b"
  using assms by (auto simp: leaves_def key_free_def key_taken_def same_item_def)

lemma dedupe_env: "e_setting e' = e_setting e \<Longrightarrow> dedupe_decision_of e' sc = dedupe_decision_of e sc"
  by (simp add: dedupe_decision_of_def reject_threshold_def review_threshold_def setting_number_def split: option.split)

text \<open>a run of an attempt that is repeated later, with the same settings and the same answers of
  the sandbox, reaches the same end, leaves the same status and takes no further slot.\<close>

lemma replay_reaches_same_end:
  assumes "submission_by k d = Some s" and "bounty_by (s_bounty s) d = Some b" and "bounty_ids d" and "key_free s d"
    and "s_dup_score s \<noteq> None" and "e_setting e' = e_setting e"
    and "runSubmissionValidation e x k a d = (d1, v1)" and "runSubmissionValidation e' x k a d1 = (d2, v2)"
  shows "v2 = v1
         \<and> map_option s_status (submission_by k d2) = map_option s_status (submission_by k d1)
         \<and> map_option b_accepted (bounty_by (s_bounty s) d2) = map_option b_accepted (bounty_by (s_bounty s) d1)"
proof -
  have k: "s_id s = k" using submission_by_row [OF assms(1)] by simp
  obtain y where v1: "v1 = verdict e x s b (lost_before k a d)" and y: "ends_as s v1 y"
    and l1: "leaves s b a y (b_accepted b + (if v1 = VE_accepted then takes_slot s True else 0)) (trail k a d @ evidence_rows e x s b v1) d1"
    using run_leaves [OF assms(1-4), of e x a] assms(7) by auto
  note r = leaves_reads [OF l1 k]
  have yb: "s_bounty y = s_bounty s" "s_payload y = s_payload s" "s_id y = k" using l1 k by (auto simp: leaves_def same_item_def)
  obtain b1 where b1: "bounty_by (s_bounty y) d1 = Some b1" "b_type b1 = b_type b" "b_target b1 = b_target b"
    using r(5) by blast
  have e1: "execution_of x y b1 = execution_of x s b" using yb b1 by (simp add: execution_of_def)
  have dd: "dedupe_decision_of e' (s_dup_score y) = dedupe_decision_of e (s_dup_score s)"
    using y assms(5) dedupe_env [OF assms(6)] by (simp add: ends_as_def)
  have w: "wins y b1 (lost_before k a d1) = won" if "v1 = run_end won" for won
    using that y r(4) by (cases won) (auto simp: wins_def ends_as_def run_end_def lost_before_def evidence_rows_def)
  obtain y2 where v2: "v2 = verdict e' x y b1 (lost_before k a d1)" and y2: "ends_as y v2 y2"
    and l2: "leaves y b1 a y2 (b_accepted b1 + (if v2 = VE_accepted then takes_slot y True else 0))
        (trail k a d1 @ evidence_rows e' x y b1 v2) d2"
    using run_leaves [OF r(1) b1(1) r(2,3), of e' x a] assms(8) by auto
  have same: "v2 = v1"
    using v1 v2 w unfolding verdict_def dd e1 by (auto split: if_splits execution.splits bool.splits)
  have "takes_slot y True = 0" if "v1 = VE_accepted" using y that by (simp add: takes_slot_def ends_as_def)
  then show ?thesis
    using same y y2 leaves_reads(1) [OF l2 yb(3)] leaves_reads(5) [OF l2 yb(3)] r(1) b1(1) l2 yb(1)
    by (auto simp: ends_as_def leaves_def same_item_def)
qed

text \<open>A repeated run that comes after the accepted item moved on to its audit is not recognised: when
  the item took the last slot of the pool, it is rejected under its own count.\<close>

lemma late_replay_rejects_own_slot:
  assumes "submission_by k d = Some s" and "bounty_by (s_bounty s) d = Some b" and "bounty_ids d" and "key_free s d"
    and "s_status s = S_submitted" and "b_target b = b_accepted b + 1" and "0 < b_target b"
    and "s_dup_score s \<noteq> None" and "e_setting e' = e_setting e"
    and "runSubmissionValidation e x k a d = (d1, VE_accepted)"
    and "d2 = set_submission (\<lambda>y. s_id y = k) (\<lambda>y. y\<lparr>s_status := S_in_audit\<rparr>) d1"
    and "runSubmissionValidation e' x k a d2 = (d3, v)"
  shows "v = VE_no_slot \<and> map_option s_status (submission_by k d3) = Some S_rejected"
proof -
  have k: "s_id s = k" using submission_by_row [OF assms(1)] by simp
  let ?v = "verdict e x s b (lost_before k a d)"
  obtain y where v1: "?v = VE_accepted" and y: "ends_as s VE_accepted y"
    and l1: "leaves s b a y (b_accepted b + takes_slot s True) (trail k a d @ evidence_rows e x s b VE_accepted) d1"
    using run_leaves [OF assms(1-4), of e x a] assms(10) by auto
  note r = leaves_reads [OF l1 k]
  let ?y = "y\<lparr>s_status := S_in_audit\<rparr>"
  have yb: "s_bounty y = s_bounty s" "s_payload y = s_payload s" "s_id y = k" using l1 k by (auto simp: leaves_def same_item_def)
  obtain b1 where b1: "bounty_by (s_bounty s) d1 = Some b1" "b_type b1 = b_type b" "b_target b1 = b_target b" "b_accepted b1 = b_target b"
    using r(5) assms(5,6) yb by (auto simp: takes_slot_def)
  have fr: "bounties d2 = bounties d1" "vresults d2 = vresults d1" by (simp_all add: assms(11) set_submission_def)
  have y2: "submission_by k d2 = Some ?y" unfolding assms(11)
    using submission_by_set [OF r(1), of "\<lambda>y. s_id y = k"] yb(3) by simp
  have kf: "key_free ?y d2"
  proof -
    have "key_free y (set_submission (\<lambda>z. s_id z = s_id y) (\<lambda>y. y\<lparr>s_status := S_in_audit\<rparr>) d1)"
      using r(3) by (rule key_free_write) simp
    then show ?thesis by (simp add: key_free_def assms(11) yb(3))
  qed
  have notlost: "\<not> lost_before k a d"
    using v1 assms(5) by (auto simp: verdict_def run_end_def wins_def split: if_splits execution.splits bool.splits)
  have lost: "lost_before k a d2 = lost_before k a d"
    using r(4) trail_cong [OF fr(2), of k a]
    by (simp add: lost_before_def evidence_rows_def llm_rows_def split: execution.split bool.split)
  have e1: "execution_of x ?y b1 = execution_of x s b" using yb b1 by (simp add: execution_of_def)
  have dd: "dedupe_decision_of e' (s_dup_score ?y) = dedupe_decision_of e (s_dup_score s)"
    using y assms(8) dedupe_env [OF assms(9)] by (simp add: ends_as_def)
  have "wins ?y b1 (lost_before k a d2) = False" using notlost lost b1 assms(7) by (simp add: wins_def)
  then have v2: "verdict e' x ?y b1 (lost_before k a d2) = VE_no_slot"
    using v1 unfolding verdict_def dd e1 by (auto simp: run_end_def split: if_splits execution.splits bool.splits)
  have bb: "bounty_by (s_bounty ?y) d2 = Some b1" using b1(1) fr(1) yb(1) by (simp add: bounty_by_def)
  have bi: "bounty_ids d2" using r(2) fr(1) by (simp add: bounty_ids_def)
  from run_leaves [OF y2 bb bi kf, of e' x a] assms(12) v2 yb(3) show ?thesis
    by (auto simp: leaves_def ends_as_def)
qed

text \<open>A repeated run of an accepted attempt whose sandbox now reports a failed test flips the item to
  \<open>tests_failed\<close>, and the pool still counts the slot it took.\<close>

lemma flaky_replay_strands_slot:
  assumes "submission_by k d = Some s" and "bounty_by (s_bounty s) d = Some b" and "bounty_ids d" and "key_free s d"
    and "s_status s = S_submitted" and "s_dup_score s \<noteq> None" and "e_setting e' = e_setting e"
    and "runSubmissionValidation e x k a d = (d1, VE_accepted)"
    and "b_type b \<noteq> None" and "ex_run x' (s_payload s) = Exec_done False sc"
    and "runSubmissionValidation e' x' k a d1 = (d2, v)"
  shows "v = VE_tests_failed \<and> map_option s_status (submission_by k d2) = Some S_tests_failed
         \<and> map_option b_accepted (bounty_by (s_bounty s) d2) = Some (b_accepted b + 1)"
proof -
  have k: "s_id s = k" using submission_by_row [OF assms(1)] by simp
  obtain y where v1: "verdict e x s b (lost_before k a d) = VE_accepted" and y: "ends_as s VE_accepted y"
    and l1: "leaves s b a y (b_accepted b + takes_slot s True) (trail k a d @ evidence_rows e x s b VE_accepted) d1"
    using run_leaves [OF assms(1-4), of e x a] assms(8) by auto
  note r = leaves_reads [OF l1 k]
  have yb: "s_bounty y = s_bounty s" "s_payload y = s_payload s" "s_id y = k" using l1 k by (auto simp: leaves_def same_item_def)
  obtain b1 where b1: "bounty_by (s_bounty y) d1 = Some b1" "b_type b1 = b_type b" "b_accepted b1 = b_accepted b + 1"
    using r(5) assms(5) by (auto simp: takes_slot_def)
  have "dedupe_decision_of e' (s_dup_score y) = dedupe_decision_of e (s_dup_score s)"
    using y assms(6) dedupe_env [OF assms(7)] by (simp add: ends_as_def)
  then have v2: "verdict e' x' y b1 (lost_before k a d1) = VE_tests_failed"
    using v1 assms(9,10) b1(2) yb(2) by (auto simp: verdict_def execution_of_def split: if_splits)
  from run_leaves [OF r(1) b1(1) r(2,3), of e' x' a] assms(11) v2 show ?thesis
    using yb b1(3) by (auto simp: leaves_def ends_as_def)
qed

section \<open>Revisions of a near-duplicate\<close>

lemma snapshot_frame:
  "submissions (snapshot_revision e s evd n d) = submissions d" "bounties (snapshot_revision e s evd n d) = bounties d"
  by (simp_all add: snapshot_revision_def)

lemma claim_frame: "bounties (fst (claim_revision user cap k d)) = bounties d"
  by (simp add: claim_revision_def set_submission_def)

lemma finish_revision_row:
  assumes "submission_by (s_id s) d = Some x" and "finish_revision e num s evd p n d = (d', Some w)" and "s_status w = S_submitted"
  shows "w = revised_row e p (computeDedupeKey e num p) x" and "submission_by (s_id s) d' = Some w" and "bounties d' = bounties d"
    and "key_free w d'"
proof -
  obtain ds o1 where wr: "write_revision e s p (computeDedupeKey e num p) (snapshot_revision e s evd n d) = (ds, o1)" by force
  let ?key = "computeDedupeKey e num p" and ?d = "snapshot_revision e s evd n d"
  have x: "submission_by (s_id s) ?d = Some x" "s_id x = s_id s"
    using assms(1) submission_by_row [OF assms(1)] by (simp_all add: submission_by_def snapshot_frame)
  have o1: "o1 = Some w" using assms(2) wr by (simp add: finish_revision_def split: option.splits)
  have "s_status (collided_row e p c x) = S_rejected" for c by (simp add: collided_row_def)
  then have nt: "\<not> key_taken (revised_row e p ?key x) ?d" and w: "w = revised_row e p ?key x"
    using wr o1 assms(3) x(1) by (auto simp: write_revision_def Let_def split: if_splits)
  let ?d2 = "set_submission (\<lambda>z. s_id z = s_id s) (\<lambda>z. w) ?d"
  have d': "d' = enqueueValidation e (''val:'' @ s_id w @ '':'' @ show_int n) (s_id w) (s_attempt w) ?d2"
    using assms(2,3) nt w x(1) by (simp add: finish_revision_def write_revision_def Let_def)
  show "w = revised_row e p ?key x" by (rule w)
  have wid: "s_id w = s_id s" using w x(2) by (simp add: revised_row_def)
  have sub: "submissions d' = submissions ?d2" by (simp add: d')
  show "submission_by (s_id s) d' = Some w"
    using submission_by_set [OF x(1), of "\<lambda>z. s_id z = s_id s" "\<lambda>z. w"] wid x(2) by (simp add: submission_by_def sub)
  show "bounties d' = bounties d" by (simp add: d' set_submission_def snapshot_frame)
  have ws: "w\<lparr>s_status := S_submitted\<rparr> = w" using assms(3) by simp
  have "key_free w ?d" using nt by (simp add: key_free_def ws w [symmetric])
  then have "key_free w ?d2" using key_free_write [of w ?d "\<lambda>z. w"] wid by simp
  then show "key_free w d'" using key_free_cong [OF sub] by simp
qed

text \<open>a revision keeps the duplicate score of the version it replaces: an item whose first version was
  rejected as a near-duplicate is rejected again by the run of its resubmission, whatever it now contains.\<close>

lemma revised_duplicate_rejected_again:
  assumes "submission_by k d = Some s" and "bounty_ids d" and "s_dup_score s = Some q" and "reject_threshold e' \<le> q"
    and "reviseSubmission e num user k p d = (d1, Inr (Some w))" and "s_status w = S_submitted"
    and "runSubmissionValidation e' x k (s_attempt w) d1 = (d2, v)"
  shows "s_payload w = p \<and> v = VE_duplicate \<and> map_option s_status (submission_by k d2) = Some S_rejected"
proof -
  have k: "s_id s = k" using submission_by_row [OF assms(1)] by simp
  let ?cap = "getMaxRevisions e"
  let ?c = "fst (claim_revision user ?cap k d)"
  obtain b n where rd: "revise_read user k d = Inr (s, b)"
    and cl: "snd (claim_revision user ?cap k d) = Some n"
    and fin: "finish_revision e num s (evidence_of k d) p n ?c = (d1, Some w)"
    using assms(1,5)
    by (auto simp: reviseSubmission_def revise_read_def Let_def split: sum.splits prod.splits option.splits if_splits)
  have b: "bounty_by (s_bounty s) d = Some b" using rd by (auto simp: revise_read_def split: option.splits if_splits)
  obtain x0 where x0: "submission_by k ?c = Some x0" "x0 = s \<or> x0 = s\<lparr>s_revisions := s_revisions s + 1\<rparr>"
    using submission_by_set [OF assms(1), of "revision_claimable user ?cap k" "\<lambda>x. x\<lparr>s_revisions := s_revisions x + 1\<rparr>"]
    by (fastforce simp: claim_revision_def revision_claimable_def split: if_splits)
  note f = finish_revision_row [OF _ fin assms(6), unfolded k, OF x0(1)]
  have w: "s_payload w = p" "s_dup_score w = Some q" "s_bounty w = s_bounty s" "s_id w = k"
    using f(1) x0(2) assms(3) k by (auto simp: revised_row_def)
  have bb: "bounty_by (s_bounty w) d1 = Some b" and bi: "bounty_ids d1"
    using b assms(2) w(3) by (simp_all add: bounty_by_def bounty_ids_def f(3) claim_frame)
  have "verdict e' x w b (lost_before k (s_attempt w) d1) = VE_duplicate"
    using assms(4) w(2) by (simp add: verdict_def dedupe_decision_of_def)
  then show ?thesis
    using run_leaves [OF f(2) bb bi f(4), of e' x "s_attempt w"] assms(7) w by (auto simp: leaves_def ends_as_def)
qed

section \<open>The notifications of a run\<close>

definition notified :: "ident \<Rightarrow> string \<Rightarrow> db \<Rightarrow> bool" where
  "notified u key d \<longleftrightarrow> find_notification u key d \<noteq> None"

lemma notified_iff: "notified u key d \<longleftrightarrow> (\<exists>n \<in> set (notifs d). n_user n = u \<and> n_key n = key)"
  by (auto simp: notified_def find_notification_def find_where_None_iff)

lemma notify_notified:
  "notified (ni_user i) (ni_key i) (notify e i d)" "notified u key d \<Longrightarrow> notified u key (notify e i d)"
  by (auto simp: notified_iff notify_def new_notification_def Let_def find_notification_def split: option.split
      dest: find_where_Some)

lemma notify_again: "notified (ni_user i) (ni_key i) d \<Longrightarrow> notifs (notify e i d) = notifs d"
  by (auto simp: notified_def notify_def)

lemma notifyEvent_notified:
  "notified (em_user i) (ty @ '':'' @ event_suffix i) (notifyEvent e ty i d)"
  "notified u key d \<Longrightarrow> notified u key (notifyEvent e ty i d)"
  "notified (em_user i) (ty @ '':'' @ event_suffix i) d \<Longrightarrow> notifs (notifyEvent e ty i d) = notifs d"
proof -
  let ?i = "\<lparr>ni_user = em_user i, ni_type = ty, ni_key = ty @ '':'' @ event_suffix i,
        ni_entity_type = map_option ev_entity (eventDefinition ty), ni_entity = em_entity i, ni_bounty = em_bounty i,
        ni_status = None\<rparr>"
  show "notified (em_user i) (ty @ '':'' @ event_suffix i) (notifyEvent e ty i d)"
    using notify_notified(1) [of ?i e d] by (simp add: notifyEvent_def)
  show "notified u key d \<Longrightarrow> notified u key (notifyEvent e ty i d)"
    by (simp add: notifyEvent_def notify_notified(2))
  show "notified (em_user i) (ty @ '':'' @ event_suffix i) d \<Longrightarrow> notifs (notifyEvent e ty i d) = notifs d"
    using notify_again [of ?i d e] by (simp add: notifyEvent_def)
qed

definition stage_key :: "int \<Rightarrow> string \<Rightarrow> string" where
  "stage_key attempt st = ''validation.stage_result:validation:'' @ show_int attempt @ '':'' @ st"

abbreviation stage_event :: "submission_row \<Rightarrow> int \<Rightarrow> string \<Rightarrow> emit_input" where
  "stage_event s a st \<equiv> \<lparr>em_user = s_contributor s, em_entity = Some (s_id s),
      em_suffix = Some ((''validation:'' @ show_int a) @ '':'' @ st), em_bounty = Some (s_bounty s)\<rparr>"

lemma tell_stages_fold:
  "tell_stages e s a sts d = fold (\<lambda>st. notifyEvent e ''validation.stage_result'' (stage_event s a st)) sts d"
  by (simp add: tell_stages_def notifyValidationStageResults_def)

lemma stage_event_key: "''validation.stage_result'' @ '':'' @ event_suffix (stage_event s a st) = stage_key a st"
  by (simp add: event_suffix_def stage_key_def or_else_def)

lemma stage_notified:
  "notified (s_contributor s) (stage_key a st) (notifyEvent e ''validation.stage_result'' (stage_event s a st) d)"
  "notified (s_contributor s) (stage_key a st) d
     \<Longrightarrow> notifs (notifyEvent e ''validation.stage_result'' (stage_event s a st) d) = notifs d"
  using notifyEvent_notified(1,3) [where i = "stage_event s a st" and ty = "''validation.stage_result''"]
  unfolding stage_event_key by simp_all

lemma tell_stages_keeps: "notified u key d \<Longrightarrow> notified u key (tell_stages e s a sts d)"
  unfolding tell_stages_fold by (induction sts arbitrary: d) (simp_all add: notifyEvent_notified(2))

lemma tell_stages_notifies: "st \<in> set sts \<Longrightarrow> notified (s_contributor s) (stage_key a st) (tell_stages e s a sts d)"
proof (induction sts arbitrary: d)
  case (Cons t sts)
  let ?d = "notifyEvent e ''validation.stage_result'' (stage_event s a t) d"
  have top: "tell_stages e s a (t # sts) d = tell_stages e s a sts ?d" by (simp add: tell_stages_fold)
  show ?case
  proof (cases "st = t")
    case True
    then show ?thesis unfolding top using stage_notified(1) by (intro tell_stages_keeps) simp
  next
    case False
    then show ?thesis unfolding top using Cons by simp
  qed
qed simp

lemma tell_stages_known:
  "list_all (\<lambda>st. notified (s_contributor s) (stage_key a st) d) sts \<Longrightarrow> notifs (tell_stages e s a sts d) = notifs d"
proof (induction sts arbitrary: d)
  case (Cons t sts)
  let ?d = "notifyEvent e ''validation.stage_result'' (stage_event s a t) d"
  have top: "tell_stages e s a (t # sts) d = tell_stages e s a sts ?d" by (simp add: tell_stages_fold)
  have "notifs ?d = notifs d" using Cons.prems by (intro stage_notified(2)) simp
  moreover have "list_all (\<lambda>st. notified (s_contributor s) (stage_key a st) ?d) sts"
    using Cons.prems notifyEvent_notified(2) by (auto simp: list_all_iff)
  ultimately show ?case unfolding top using Cons.IH by simp
qed (simp add: tell_stages_fold)

text \<open>The stage results of an item are told to its contributor once per attempt number, not once per
  item: after one item, the same stages of every other item of the contributor add no notification.\<close>

lemma stage_results_told_once_per_contributor:
  assumes "s_contributor s' = s_contributor s" and "set sts' \<subseteq> set sts"
  shows "notifs (tell_stages e' s' a sts' (tell_stages e s a sts d)) = notifs (tell_stages e s a sts d)"
  using assms tell_stages_notifies [of _ sts s a e d]
  by (intro tell_stages_known) (auto simp: list_all_iff)

section \<open>Instances\<close>

definition demo_sub :: submission_row where
  "demo_sub = (submission0 ''s'' ''b'' ''u'' S_submitted)\<lparr>s_dup_score := Some 0\<rparr>"

definition demo_type :: dataset_type where
  "demo_type = \<lparr>dt_id = ''t'', dt_domain = ''coding'', dt_complexity = None, dt_units = None, dt_fields = None\<rparr>"

definition demo_pool_row :: bounty_row where
  "demo_pool_row = (bounty0 ''b'')\<lparr>b_target := 1, b_type := Some demo_type\<rparr>"

definition demo_db :: db where
  "demo_db = db0\<lparr>submissions := [demo_sub], bounties := [demo_pool_row]\<rparr>"

definition demo_sandbox :: "bool \<Rightarrow> externals" where
  "demo_sandbox p = \<lparr>ex_run = (\<lambda>v. Exec_done p (Some 1)), ex_configured = False, ex_review = (\<lambda>v. None)\<rparr>"

lemma demo_reads:
  "submission_by ''s'' demo_db = Some demo_sub" "bounty_by (s_bounty demo_sub) demo_db = Some demo_pool_row"
  "bounty_ids demo_db" "key_free demo_sub demo_db" "s_status demo_sub = S_submitted" "s_dup_score demo_sub = Some 0"
  "s_payload demo_sub = JNull" "s_contributor demo_sub = ''u''" "s_bounty demo_sub = ''b''"
  "b_target demo_pool_row = 1" "b_accepted demo_pool_row = 0" "b_type demo_pool_row = Some demo_type"
  by (simp_all add: demo_db_def demo_sub_def demo_pool_row_def submission_by_def bounty_by_def bounty_ids_def key_free_def
      key_taken_def submission0_def bounty0_def)

lemma demo_score: "dedupe_decision_of (env0 t) (Some 0) = DD_accepted"
  by (simp add: dedupe_decision_of_def reject_threshold_def review_threshold_def setting_number_def env0_def)

lemma demo_not_lost: "\<not> lost_before ''s'' 0 demo_db"
  by (simp add: lost_before_def trail_def demo_db_def db0_def)

lemma demo_verdict: "verdict (env0 t) (demo_sandbox True) demo_sub demo_pool_row (lost_before ''s'' 0 demo_db) = VE_accepted"
  using demo_not_lost demo_score
  by (simp add: verdict_def demo_reads execution_of_def demo_sandbox_def run_end_def wins_def)

definition demo_after :: db where
  "demo_after = fst (runSubmissionValidation (env0 1) (demo_sandbox True) ''s'' 0 demo_db)"

lemma demo_run: "runSubmissionValidation (env0 1) (demo_sandbox True) ''s'' 0 demo_db = (demo_after, VE_accepted)"
  using run_leaves [OF demo_reads(1-4), of "env0 1" "demo_sandbox True" 0] unfolding demo_verdict
  by (auto simp: demo_after_def)

theorem validation_reaches_verdict_witness:
  "\<exists>y b'. submission_by ''s'' demo_after = Some y \<and> s_status y = S_accepted_pending_sample \<and> s_pending_review y
     \<and> bounty_by ''b'' demo_after = Some b' \<and> b_accepted b' = 1"
  using validation_reaches_verdict [OF demo_reads(1-4) demo_run] demo_reads by simp

lemma replay_reaches_same_end_witness:
  "snd (runSubmissionValidation (env0 9) (demo_sandbox True) ''s'' 0 demo_after) = VE_accepted"
  using replay_reaches_same_end [OF demo_reads(1-4) _ _ demo_run prod.collapse [symmetric], of "env0 9"] demo_reads
  by (simp add: env0_def)

lemma late_replay_rejects_own_slot_witness:
  "snd (runSubmissionValidation (env0 9) (demo_sandbox True) ''s'' 0
     (set_submission (\<lambda>y. s_id y = ''s'') (\<lambda>y. y\<lparr>s_status := S_in_audit\<rparr>) demo_after)) = VE_no_slot"
  using late_replay_rejects_own_slot [OF demo_reads(1-5) _ _ _ _ demo_run refl prod.collapse [symmetric], of "env0 9"] demo_reads
  by (simp add: env0_def)

lemma flaky_replay_strands_slot_witness:
  "snd (runSubmissionValidation (env0 9) (demo_sandbox False) ''s'' 0 demo_after) = VE_tests_failed"
  using flaky_replay_strands_slot [OF demo_reads(1-5) _ _ demo_run _ _ prod.collapse [symmetric],
      of "env0 9" "demo_sandbox False" "Some 1"] demo_reads
  by (simp add: env0_def demo_sandbox_def)

definition near_row :: submission_row where
  "near_row = demo_sub\<lparr>s_status := S_rejected, s_dup_score := Some (95 / 100)\<rparr>"

definition demo_near :: db where
  "demo_near = demo_db\<lparr>submissions := [near_row]\<rparr>"

lemma demo_near_reads:
  "submission_by ''s'' demo_near = Some near_row" "bounty_ids demo_near" "s_dup_score near_row = Some (95 / 100)"
  by (simp_all add: demo_near_def near_row_def submission_by_def demo_sub_def submission0_def bounty_ids_def demo_db_def)

lemma demo_threshold: "reject_threshold (env0 t) \<le> 95 / 100"
  by (simp add: reject_threshold_def setting_number_def env0_def)

definition near_revised :: submission_row where
  "near_revised = revised_row (env0 1) (JBool True) (computeDedupeKey (env0 1) (\<lambda>x. ''n'') (JBool True))
     (near_row\<lparr>s_revisions := 1\<rparr>)"

lemma demo_revise:
  "snd (reviseSubmission (env0 1) (\<lambda>x. ''n'') ''u'' ''s'' (JBool True) demo_near) = Inr (Some near_revised)"
proof -
  have cap: "getMaxRevisions (env0 1) = 3"
    by (simp add: getMaxRevisions_def env0_def DEFAULT_MAX_REVISIONS_def)
  have row: "s_id near_row = ''s''" "s_contributor near_row = ''u''" "s_bounty near_row = ''b''" "s_status near_row = S_rejected"
    "s_revisions near_row = 0"
    by (simp_all add: near_row_def demo_sub_def submission0_def)
  have sub: "submissions demo_near = [near_row]" and bnt: "bounty_by ''b'' demo_near = Some demo_pool_row"
    by (simp_all add: demo_near_def demo_db_def bounty_by_def demo_pool_row_def bounty0_def)
  have rd: "revise_read ''u'' ''s'' demo_near = Inr (near_row, demo_pool_row)"
    using row bnt by (simp add: revise_read_def demo_near_reads REVISABLE_STATUSES_def demo_pool_row_def bounty0_def)
  have cl: "claim_revision ''u'' 3 ''s'' demo_near = (demo_near\<lparr>submissions := [near_row\<lparr>s_revisions := 1\<rparr>]\<rparr>, Some 1)"
    by (simp add: claim_revision_def set_submission_def sub revision_claimable_def REVISABLE_STATUSES_def row)
  show ?thesis
    by (simp add: reviseSubmission_def rd cap cl finish_revision_def write_revision_def submission_by_def snapshot_frame row
        Let_def near_revised_def key_taken_def revised_row_def)
qed

lemma revised_duplicate_rejected_again_witness:
  "s_payload near_revised = JBool True
   \<and> snd (runSubmissionValidation (env0 9) (demo_sandbox True) ''s'' (s_attempt near_revised)
       (fst (reviseSubmission (env0 1) (\<lambda>x. ''n'') ''u'' ''s'' (JBool True) demo_near))) = VE_duplicate"
proof -
  have "reviseSubmission (env0 1) (\<lambda>x. ''n'') ''u'' ''s'' (JBool True) demo_near
      = (fst (reviseSubmission (env0 1) (\<lambda>x. ''n'') ''u'' ''s'' (JBool True) demo_near), Inr (Some near_revised))"
    using demo_revise by (simp add: prod_eq_iff)
  from revised_duplicate_rejected_again [OF demo_near_reads demo_threshold this _ prod.collapse [symmetric]]
  show ?thesis by (simp add: near_revised_def revised_row_def)
qed

lemma stage_results_told_once_per_contributor_witness:
  "notifs (tell_stages (env0 9) (demo_sub\<lparr>s_id := ''s2''\<rparr>) 0 [''dedupe''] (tell_stages (env0 1) demo_sub 0 [''dedupe''] demo_db))
     = notifs (tell_stages (env0 1) demo_sub 0 [''dedupe''] demo_db)"
  by (rule stage_results_told_once_per_contributor) simp_all

end
