(* ===== verification/Web_Url.thy ===== *)
theory Web_Url
  imports Prelude
begin

text \<open>
  URLs as the OAuth services read them. The runtime's parser \<open>new URL\<close> is the argument \<open>parse\<close>
  (\<open>None\<close> is its \<open>TypeError\<close>); the parsed URL is a record of the standard's own components, from
  which the getters, the two setters the code uses and the serialiser are defined. On top of it:
  the resource comparison and redirect checks of \<open>services/mcp-oauth.ts\<close> and the client-id URL
  check of \<open>services/mcp-client-metadata.ts\<close>.
\<close>

section \<open>The URL object\<close>

record url =
  pu_protocol :: string          \<comment> \<open>with its colon\<close>
  pu_username :: string
  pu_password :: string
  pu_hostname :: "string option" \<comment> \<open>\<open>None\<close> for a URL without an authority\<close>
  pu_port :: string
  pu_pathname :: string
  pu_query :: "string option"
  pu_fragment :: "string option"

definition url_hostname :: "url \<Rightarrow> string" where
  "url_hostname u = (case pu_hostname u of None \<Rightarrow> [] | Some h \<Rightarrow> h)"

definition url_search :: "url \<Rightarrow> string" where
  "url_search u = (case pu_query u of None \<Rightarrow> [] | Some q \<Rightarrow> if q = [] then [] else CHR ''?'' # q)"

definition url_hash :: "url \<Rightarrow> string" where
  "url_hash u = (case pu_fragment u of None \<Rightarrow> [] | Some f \<Rightarrow> if f = [] then [] else CHR ''#'' # f)"

definition special_scheme :: "string \<Rightarrow> bool" where
  "special_scheme p \<longleftrightarrow> p \<in> {''http:'', ''https:'', ''ws:'', ''wss:'', ''ftp:'', ''file:''}"

definition opaque_path :: "url \<Rightarrow> bool" where
  "opaque_path u \<longleftrightarrow> pu_hostname u = None \<and> take 1 (pu_pathname u) \<noteq> ''/''"

definition url_credentials :: "url \<Rightarrow> string" where
  "url_credentials u =
     (if pu_username u = [] \<and> pu_password u = [] then []
      else pu_username u @ (if pu_password u = [] then [] else CHR '':'' # pu_password u) @ ''@'')"

definition url_href :: "url \<Rightarrow> string" where
  "url_href u =
     pu_protocol u
     @ (case pu_hostname u of
          Some h \<Rightarrow> ''//'' @ url_credentials u @ h @ (if pu_port u = [] then [] else CHR '':'' # pu_port u)
        | None \<Rightarrow> if take 2 (pu_pathname u) = ''//'' then ''/.'' else [])
     @ pu_pathname u
     @ (case pu_query u of None \<Rightarrow> [] | Some q \<Rightarrow> CHR ''?'' # q)
     @ (case pu_fragment u of None \<Rightarrow> [] | Some f \<Rightarrow> CHR ''#'' # f)"

definition set_pathname :: "string \<Rightarrow> url \<Rightarrow> url" where
  "set_pathname p u =
     (if opaque_path u then u
      else u\<lparr>pu_pathname := (if p = [] \<and> special_scheme (pu_protocol u) then ''/'' else p)\<rparr>)"

definition lower_hostname :: "url \<Rightarrow> url" where
  "lower_hostname u = u\<lparr>pu_hostname := map_option js_lower (pu_hostname u)\<rparr>"

definition trimSlashes :: "string \<Rightarrow> string" where
  "trimSlashes s = rev (dropWhile (\<lambda>c. c = CHR ''/'') (rev s))"

section \<open>Resource indicators\<close>

definition canonicalResource :: "(string \<Rightarrow> url option) \<Rightarrow> string \<Rightarrow> string option" where
  "canonicalResource parse v =
     (case parse v of
        None \<Rightarrow> None
      | Some u \<Rightarrow>
          if url_hash u \<noteq> [] then None
          else (let u' = lower_hostname (u\<lparr>pu_protocol := js_lower (pu_protocol u)\<rparr>);
                    u'' = set_pathname (trimSlashes (pu_pathname u')) u'
                in Some (if url_search u'' \<noteq> [] then url_href u'' else trimSlashes (url_href u''))))"

definition MCP_RESOURCE_PATH :: string where
  "MCP_RESOURCE_PATH = ''/mcp''"

definition ends_with :: "string \<Rightarrow> string \<Rightarrow> bool" where
  "ends_with s suf \<longleftrightarrow> length suf \<le> length s \<and> drop (length s - length suf) s = suf"

definition normalizeMcpPublicUrl :: "string \<Rightarrow> string" where
  "normalizeMcpPublicUrl raw =
     (let trimmed = trimSlashes (js_trim raw)
      in if ends_with trimmed MCP_RESOURCE_PATH
         then trimSlashes (take (length trimmed - length MCP_RESOURCE_PATH) trimmed) else trimmed)"

definition mcpPublicBaseUrl :: "string \<Rightarrow> string" where
  "mcpPublicBaseUrl public = trimSlashes public"

definition mcpResourceUrl :: "string \<Rightarrow> string" where
  "mcpResourceUrl public = mcpPublicBaseUrl public @ MCP_RESOURCE_PATH"

definition consentBaseUrl :: "string \<Rightarrow> string" where
  "consentBaseUrl app = trimSlashes app @ ''/mcp/authorize''"

definition authorizationServerUrl :: "string \<Rightarrow> string" where
  "authorizationServerUrl public = mcpPublicBaseUrl public @ MCP_RESOURCE_PATH"

definition protectedResourceMetadataUrl :: "string \<Rightarrow> string" where
  "protectedResourceMetadataUrl public =
     mcpPublicBaseUrl public @ ''/.well-known/oauth-protected-resource'' @ MCP_RESOURCE_PATH"

definition canonicalMcpResource :: "(string \<Rightarrow> url option) \<Rightarrow> string \<Rightarrow> string" where
  "canonicalMcpResource parse public =
     (case canonicalResource parse (mcpResourceUrl public) of Some r \<Rightarrow> r | None \<Rightarrow> mcpResourceUrl public)"

definition requestedResource :: "(string \<Rightarrow> url option) \<Rightarrow> string \<Rightarrow> string option \<Rightarrow> string option" where
  "requestedResource parse public v =
     (case v of None \<Rightarrow> Some (canonicalMcpResource parse public) | Some s \<Rightarrow> canonicalResource parse s)"

definition storedResource :: "(string \<Rightarrow> url option) \<Rightarrow> string \<Rightarrow> string option \<Rightarrow> string" where
  "storedResource parse public v =
     (case v of
        None \<Rightarrow> canonicalMcpResource parse public
      | Some s \<Rightarrow> (case canonicalResource parse s of Some r \<Rightarrow> r | None \<Rightarrow> s))"

section \<open>Redirect URIs and client-id URLs\<close>

definition MAX_REDIRECT_URI_LENGTH :: int where
  "MAX_REDIRECT_URI_LENGTH = 2048"

definition LOOPBACK_HOSTS :: "string list" where
  "LOOPBACK_HOSTS = [''localhost'', ''127.0.0.1'', ''[::1]'']"

definition isSafeRedirectUri :: "(string \<Rightarrow> url option) \<Rightarrow> string \<Rightarrow> bool" where
  "isSafeRedirectUri parse v =
     (if int (length v) > MAX_REDIRECT_URI_LENGTH then False
      else case parse v of
        None \<Rightarrow> False
      | Some u \<Rightarrow>
          if url_hash u \<noteq> [] \<or> pu_protocol u = [] \<or> url_hostname u = [] then False
          else if pu_username u \<noteq> [] \<or> pu_password u \<noteq> [] then False
          else if pu_protocol u = ''https:'' then True
          else pu_protocol u = ''http:'' \<and> List.member LOOPBACK_HOSTS (url_hostname u))"

definition redirectMatches :: "(string \<Rightarrow> url option) \<Rightarrow> string \<Rightarrow> string \<Rightarrow> bool" where
  "redirectMatches parse requested registered =
     (if requested = registered then True
      else case (parse requested, parse registered) of
        (Some a, Some b) \<Rightarrow>
          (List.member LOOPBACK_HOSTS (url_hostname a) \<and> url_hostname a = url_hostname b)
          \<and> pu_protocol a = ''http:'' \<and> pu_protocol b = ''http:''
          \<and> pu_pathname a = pu_pathname b \<and> url_search a = url_search b
      | _ \<Rightarrow> False)"

definition MAX_CLIENT_ID_URL_LENGTH :: int where
  "MAX_CLIENT_ID_URL_LENGTH = 2048"

definition isClientIdMetadataUrl :: "(string \<Rightarrow> url option) \<Rightarrow> string \<Rightarrow> bool" where
  "isClientIdMetadataUrl parse cid =
     (if length cid = 0 \<or> int (length cid) > MAX_CLIENT_ID_URL_LENGTH then False
      else case parse cid of
        None \<Rightarrow> False
      | Some u \<Rightarrow>
          if pu_protocol u \<noteq> ''https:'' then False
          else if url_hostname u = [] then False
          else if pu_username u \<noteq> [] \<or> pu_password u \<noteq> [] then False
          else if url_hash u \<noteq> [] \<or> List.member cid CHR ''#'' then False
          else if url_search u \<noteq> [] \<or> List.member cid CHR ''?'' then False
          else if pu_pathname u = [] \<or> pu_pathname u = ''/'' then False
          else True)"

definition isLoopbackRedirectUri :: "(string \<Rightarrow> url option) \<Rightarrow> string \<Rightarrow> bool" where
  "isLoopbackRedirectUri parse v =
     (case parse v of None \<Rightarrow> False | Some u \<Rightarrow> List.member LOOPBACK_HOSTS (url_hostname u))"

section \<open>Facts\<close>

lemma trimSlashes_idem [simp]: "trimSlashes (trimSlashes s) = trimSlashes s"
  by (simp add: trimSlashes_def dropWhile_idem)

lemma trimSlashes_append_slashes: "trimSlashes (s @ replicate n CHR ''/'') = trimSlashes s"
  by (simp add: trimSlashes_def dropWhile_all)

text \<open>Both spellings of the public URL, with and without the resource path, give the same origin.\<close>

lemma normalize_both_spellings:
  assumes "js_trim origin = origin" and "js_trim (origin @ MCP_RESOURCE_PATH) = origin @ MCP_RESOURCE_PATH"
    and "\<not> ends_with (trimSlashes origin) MCP_RESOURCE_PATH"
  shows "normalizeMcpPublicUrl (origin @ MCP_RESOURCE_PATH) = normalizeMcpPublicUrl origin"
proof -
  have t: "trimSlashes (origin @ MCP_RESOURCE_PATH) = origin @ MCP_RESOURCE_PATH"
    by (simp add: trimSlashes_def MCP_RESOURCE_PATH_def)
  have "ends_with (origin @ MCP_RESOURCE_PATH) MCP_RESOURCE_PATH"
    by (simp add: ends_with_def)
  then have "normalizeMcpPublicUrl (origin @ MCP_RESOURCE_PATH) = trimSlashes origin"
    by (simp only: normalizeMcpPublicUrl_def Let_def assms(2) t if_True length_append add_diff_cancel_right' take_append) simp
  then show ?thesis using assms(1,3) by (simp add: normalizeMcpPublicUrl_def Let_def)
qed

text \<open>Two redirect URIs the code treats as the same differ in nothing but the port, on a loopback host.\<close>

lemma redirectMatches_cases:
  assumes "redirectMatches parse a b" and "a \<noteq> b"
  obtains u v where "parse a = Some u" and "parse b = Some v" and "url_hostname u = url_hostname v"
    and "pu_pathname u = pu_pathname v" and "url_search u = url_search v"
    and "url_hostname u \<in> set LOOPBACK_HOSTS"
  using assms by (auto simp: redirectMatches_def split: option.splits)

end
