(* ===== verification/Client_Metadata.thy ===== *)
theory Client_Metadata
  imports Web_Url "HOL-Library.Word"
begin

text \<open>
  \<open>services/mcp-client-metadata.ts\<close>, first part: the classification of the addresses that a
  server-initiated fetch must not reach, from the text of the address on, and its equivalence with
  a list of CIDR blocks. The groups of an IPv6 address are 16-bit words.
\<close>

unbundle bit_operations_syntax

section \<open>Text helpers of the runtime\<close>

fun split_char :: "char \<Rightarrow> string \<Rightarrow> string list" where
  "split_char c [] = [[]]"
| "split_char c (x # xs) =
     (if x = c then [] # split_char c xs
      else (case split_char c xs of [] \<Rightarrow> [[x]] | y # ys \<Rightarrow> (x # y) # ys))"

text \<open>\<open>split("::")\<close>, leftmost and non-overlapping.\<close>

fun split_colons :: "string \<Rightarrow> string \<Rightarrow> string list" where
  "split_colons acc [] = [rev acc]"
| "split_colons acc [x] = [rev (x # acc)]"
| "split_colons acc (x # y # r) =
     (if x = CHR '':'' \<and> y = CHR '':'' then rev acc # split_colons [] r
      else split_colons (x # acc) (y # r))"

definition is_digit :: "char \<Rightarrow> bool" where
  "is_digit c \<longleftrightarrow> 48 \<le> (of_char c :: nat) \<and> (of_char c :: nat) \<le> 57"

definition is_hex :: "char \<Rightarrow> bool" where
  "is_hex c \<longleftrightarrow> is_digit c \<or> 65 \<le> (of_char c :: nat) \<and> (of_char c :: nat) \<le> 70
                \<or> 97 \<le> (of_char c :: nat) \<and> (of_char c :: nat) \<le> 102"

definition hex_value :: "char \<Rightarrow> nat" where
  "hex_value c = (let n = of_char c :: nat in if n \<le> 57 then n - 48 else if n \<le> 70 then n - 55 else n - 87)"

text \<open>\<open>Number\<close> on decimal digits and \<open>parseInt(_, 16)\<close> on hexadecimal ones.\<close>

definition read_digits :: "nat \<Rightarrow> string \<Rightarrow> nat" where
  "read_digits b s = foldl (\<lambda>n c. n * b + hex_value c) 0 s"

definition hex_digit :: "nat \<Rightarrow> char" where
  "hex_digit n = char_of (if n < 10 then 48 + n else 87 + n)"

fun show_hex :: "nat \<Rightarrow> string" where
  "show_hex n = (if n < 16 then [hex_digit n] else show_hex (n div 16) @ [hex_digit (n mod 16)])"

declare show_hex.simps [simp del]

section \<open>Address classification\<close>

type_synonym ipv4 = "nat \<times> nat \<times> nat \<times> nat"

definition parse_octet :: "string \<Rightarrow> nat option" where
  "parse_octet p =
     (if 1 \<le> length p \<and> length p \<le> 3 \<and> list_all is_digit p \<and> read_digits 10 p \<le> 255
      then Some (read_digits 10 p) else None)"

definition parseIPv4 :: "string \<Rightarrow> ipv4 option" where
  "parseIPv4 v =
     (case map parse_octet (split_char CHR ''.'' v) of
        [Some a, Some b, Some c, Some d] \<Rightarrow> Some (a, b, c, d)
      | _ \<Rightarrow> None)"

fun isForbiddenIPv4 :: "ipv4 \<Rightarrow> bool" where
  "isForbiddenIPv4 (a, b, c, d) =
     (a = 0 \<or> a = 10 \<or> a = 127
      \<or> a = 169 \<and> b = 254
      \<or> a = 172 \<and> b \<ge> 16 \<and> b \<le> 31
      \<or> a = 192 \<and> b = 168
      \<or> a = 100 \<and> b \<ge> 64 \<and> b \<le> 127
      \<or> a \<ge> 224)"

definition strip_brackets :: "string \<Rightarrow> string" where
  "strip_brackets s =
     (if s \<noteq> [] \<and> hd s = CHR ''['' \<and> last s = CHR '']'' then butlast (tl s) else s)"

text \<open>A trailing dotted quad becomes two hexadecimal groups.\<close>

definition after_last_colon :: "string \<Rightarrow> string" where
  "after_last_colon t = rev (takeWhile (\<lambda>c. c \<noteq> CHR '':'') (rev t))"

definition expand_quad :: "string \<Rightarrow> string option" where
  "expand_quad t =
     (let lst = after_last_colon t; pre = take (length t - length lst) t
      in if List.member t CHR '':'' \<and> List.member lst CHR ''.'' then
           (case parseIPv4 lst of
              None \<Rightarrow> None
            | Some (a, b, c, d) \<Rightarrow> Some (pre @ show_hex (a * 256 + b) @ '':'' @ show_hex (c * 256 + d)))
         else Some t)"

definition hex_group :: "string \<Rightarrow> bool" where
  "hex_group g \<longleftrightarrow> 1 \<le> length g \<and> length g \<le> 4 \<and> list_all is_hex g"

definition groups_of :: "string \<Rightarrow> string list" where
  "groups_of h = (if h = [] then [] else split_char CHR '':'' h)"

definition group_words :: "string list \<Rightarrow> 16 word list" where
  "group_words gs = map (\<lambda>g. of_nat (read_digits 16 g)) gs"

definition parse_groups :: "string \<Rightarrow> 16 word list option" where
  "parse_groups t =
     (case split_colons [] t of
        [h] \<Rightarrow>
          (let g = groups_of h
           in if list_all hex_group g \<and> length g = 8 then Some (group_words g) else None)
      | [h, l] \<Rightarrow>
          (let g = groups_of h; k = groups_of l; n = length g + length k
           in if list_all hex_group (g @ k) \<and> n < 8
              then Some (group_words g @ replicate (8 - n) 0 @ group_words k) else None)
      | _ \<Rightarrow> None)"

definition parseIPv6 :: "string \<Rightarrow> 16 word list option" where
  "parseIPv6 v =
     (let t = takeWhile (\<lambda>c. c \<noteq> CHR ''%'') (strip_brackets (js_trim v))
      in case expand_quad t of None \<Rightarrow> None | Some t' \<Rightarrow> parse_groups t')"

definition embeddedIPv4 :: "16 word \<Rightarrow> 16 word \<Rightarrow> ipv4" where
  "embeddedIPv4 hi lo = (unat (drop_bit 8 hi), unat (hi AND 0xff), unat (drop_bit 8 lo), unat (lo AND 0xff))"

definition isForbiddenIPv6 :: "16 word list \<Rightarrow> bool" where
  "isForbiddenIPv6 g =
     (if list_all (\<lambda>x. x = 0) g then True
      else if list_all (\<lambda>x. x = 0) (take 7 g) \<and> g ! 7 = 1 then True
      else if (g ! 0) AND 0xfe00 = 0xfc00 then True
      else if (g ! 0) AND 0xffc0 = 0xfe80 then True
      else if (g ! 0) AND 0xff00 = 0xff00 then True
      else if list_all (\<lambda>x. x = 0) (take 5 g) \<and> g ! 5 = 0xffff then isForbiddenIPv4 (embeddedIPv4 (g ! 6) (g ! 7))
      else if list_all (\<lambda>x. x = 0) (take 6 g) then isForbiddenIPv4 (embeddedIPv4 (g ! 6) (g ! 7))
      else if g ! 0 = 0x64 \<and> g ! 1 = 0xff9b \<and> list_all (\<lambda>x. x = 0) (take 4 (drop 2 g))
           then isForbiddenIPv4 (embeddedIPv4 (g ! 6) (g ! 7))
      else if g ! 0 = 0x2002 then isForbiddenIPv4 (embeddedIPv4 (g ! 1) (g ! 2))
      else False)"

definition isForbiddenAddress :: "string \<Rightarrow> bool" where
  "isForbiddenAddress a =
     (case parseIPv4 a of
        Some q \<Rightarrow> isForbiddenIPv4 q
      | None \<Rightarrow> (case parseIPv6 a of Some g \<Rightarrow> isForbiddenIPv6 g | None \<Rightarrow> True))"

subsection \<open>The CIDR blocks the octet tests stand for\<close>

fun quad_value :: "ipv4 \<Rightarrow> nat" where
  "quad_value (a, b, c, d) = ((a * 256 + b) * 256 + c) * 256 + d"

definition in_block :: "ipv4 \<Rightarrow> nat \<Rightarrow> ipv4 \<Rightarrow> bool" where
  "in_block base bits q \<longleftrightarrow> quad_value q div 2 ^ (32 - bits) = quad_value base div 2 ^ (32 - bits)"

definition forbidden_blocks :: "(ipv4 \<times> nat) list" where
  "forbidden_blocks =
     [((0, 0, 0, 0), 8), ((10, 0, 0, 0), 8), ((127, 0, 0, 0), 8), ((169, 254, 0, 0), 16), ((172, 16, 0, 0), 12),
      ((192, 168, 0, 0), 16), ((100, 64, 0, 0), 10), ((224, 0, 0, 0), 4), ((240, 0, 0, 0), 4)]"

definition forbidden_quad :: "ipv4 \<Rightarrow> bool" where
  "forbidden_quad q \<longleftrightarrow> list_ex (\<lambda>(base, bits). in_block base bits q) forbidden_blocks"

fun octets :: "ipv4 \<Rightarrow> bool" where
  "octets (a, b, c, d) \<longleftrightarrow> a < 256 \<and> b < 256 \<and> c < 256 \<and> d < 256"

lemma digits_inj:
  fixes n :: nat
  assumes "y < n" and "y' < n"
  shows "x * n + y = x' * n + y' \<longleftrightarrow> x = x' \<and> y = y'"
proof
  assume eq: "x * n + y = x' * n + y'"
  then have "(x * n + y) div n = (x' * n + y') div n" and "(x * n + y) mod n = (x' * n + y') mod n" by simp_all
  then show "x = x' \<and> y = y'" using assms by (simp add: div_add1_eq)
qed simp

lemma forbidden_quad_octets: "octets q \<Longrightarrow> forbidden_quad q = isForbiddenIPv4 q"
proof (cases q)
  case (fields a b c d)
  assume "octets q"
  then have l: "a < 256" "b < 256" "c < 256" "d < 256" using fields by auto
  let ?v = "((a * 256 + b) * 256 + c) * 256 + d"
  have low: "(x * 256 + y) div 256 = x" if "y < 256" for x y :: nat
    using that by simp
  have d16: "?v div 65536 = a * 256 + b"
    using div_mult2_eq [of ?v 256 256] low [OF l(4)] low [OF l(3)] by simp
  have d24: "?v div 16777216 = a"
    using div_mult2_eq [of ?v 65536 256] d16 low [OF l(2)] by simp
  have d20: "?v div 1048576 = a * 16 + b div 16"
    using div_mult2_eq [of ?v 65536 16] d16 by simp
  have d22: "?v div 4194304 = a * 4 + b div 64"
    using div_mult2_eq [of ?v 65536 64] d16 by simp
  have d28: "?v div 268435456 = a div 16"
    using div_mult2_eq [of ?v 16777216 16] d24 by simp
  have two: "a * 256 + b = 43518 \<longleftrightarrow> a = 169 \<and> b = 254" "a * 256 + b = 49320 \<longleftrightarrow> a = 192 \<and> b = 168"
    using digits_inj [OF l(2), of 254 a 169] digits_inj [OF l(2), of 168 a 192] by simp_all
  have b16: "b div 16 < 16" "b div 16 = 1 \<longleftrightarrow> 16 \<le> b \<and> b \<le> 31"
    and b64: "b div 64 < 4" "b div 64 = 1 \<longleftrightarrow> 64 \<le> b \<and> b \<le> 127"
    using l(2) by auto
  have part: "a * 16 + b div 16 = 2753 \<longleftrightarrow> a = 172 \<and> 16 \<le> b \<and> b \<le> 31"
    "a * 4 + b div 64 = 401 \<longleftrightarrow> a = 100 \<and> 64 \<le> b \<and> b \<le> 127"
    using digits_inj [OF b16(1), of 1 a 172] digits_inj [OF b64(1), of 1 a 100] b16(2) b64(2) by simp_all
  have high: "a div 16 = 14 \<or> a div 16 = 15 \<longleftrightarrow> 224 \<le> a"
    using l(1) by auto
  have v: "quad_value q = ?v" using fields by simp
  have blocks: "forbidden_quad q \<longleftrightarrow> a = 0 \<or> a = 10 \<or> a = 127 \<or> a * 256 + b = 43518 \<or> a * 16 + b div 16 = 2753
      \<or> a * 256 + b = 49320 \<or> a * 4 + b div 64 = 401 \<or> a div 16 = 14 \<or> a div 16 = 15"
    by (simp add: forbidden_quad_def forbidden_blocks_def in_block_def
        d24 [folded v] d16 [folded v] d20 [folded v] d22 [folded v] d28 [folded v])
  show ?thesis
    unfolding blocks using fields by (simp add: two part high)
qed

subsection \<open>Rendering and reading numbers\<close>

fun dotted :: "ipv4 \<Rightarrow> string" where
  "dotted (a, b, c, d) = show_nat a @ ''.'' @ show_nat b @ ''.'' @ show_nat c @ ''.'' @ show_nat d"

lemma read_digits_snoc: "read_digits b (s @ [c]) = read_digits b s * b + hex_value c"
  by (simp add: read_digits_def)

lemma show_nat_read: "list_all is_digit (show_nat n) \<and> read_digits 10 (show_nat n) = n"
proof (induction n rule: less_induct)
  case (less n)
  have dig: "is_digit (char_of (48 + m)) \<and> hex_value (char_of (48 + m)) = m" if "m < 10" for m
    using that by (auto simp: is_digit_def hex_value_def Let_def)
  show ?case
  proof (cases "n < 10")
    case True
    with dig [of n] show ?thesis by (simp add: show_nat_digit read_digits_def)
  next
    case False
    with less.IH [of "n div 10"] dig [of "n mod 10"] show ?thesis
      by (simp add: show_nat_more read_digits_snoc)
  qed
qed

lemma show_nat_length: "n < 1000 \<Longrightarrow> 1 \<le> length (show_nat n) \<and> length (show_nat n) \<le> 3"
  by (cases "n < 10"; cases "n < 100") (simp_all add: show_nat_digit show_nat_more)

lemma parse_octet_show: "n < 256 \<Longrightarrow> parse_octet (show_nat n) = Some n"
  using show_nat_read [of n] show_nat_length [of n] by (simp add: parse_octet_def)

lemma hex_digit_value: "n < 16 \<Longrightarrow> is_hex (hex_digit n) \<and> hex_value (hex_digit n) = n"
  by (auto simp: is_hex_def is_digit_def hex_value_def hex_digit_def Let_def)

lemma show_hex_read: "list_all is_hex (show_hex n) \<and> read_digits 16 (show_hex n) = n"
proof (induction n rule: less_induct)
  case (less n)
  show ?case
  proof (cases "n < 16")
    case True
    with hex_digit_value [of n] show ?thesis by (simp add: show_hex.simps [of n] read_digits_def)
  next
    case False
    with less.IH [of "n div 16"] hex_digit_value [of "n mod 16"] show ?thesis
      by (simp add: show_hex.simps [of n] read_digits_snoc)
  qed
qed

lemma show_hex_length: "n < 16 ^ Suc k \<Longrightarrow> 1 \<le> length (show_hex n) \<and> length (show_hex n) \<le> Suc k"
proof (induction k arbitrary: n)
  case 0
  then show ?case by (simp add: show_hex.simps [of n])
next
  case (Suc k)
  show ?case
  proof (cases "n < 16")
    case True
    then show ?thesis by (simp add: show_hex.simps [of n])
  next
    case False
    have "n div 16 < 16 ^ Suc k" using Suc.prems by (simp add: less_mult_imp_div_less mult.commute)
    with Suc.IH False show ?thesis by (simp add: show_hex.simps [of n])
  qed
qed

lemma show_hex_group: "n < 65536 \<Longrightarrow> hex_group (show_hex n)"
  using show_hex_length [of n 3] show_hex_read [of n] by (simp add: hex_group_def)

subsection \<open>Reading an address written with a dotted quad\<close>

lemma split_char_plain: "c \<notin> set x \<Longrightarrow> split_char c x = [x]"
  by (induction x) auto

lemma split_char_step: "c \<notin> set x \<Longrightarrow> split_char c (x @ c # y) = x # split_char c y"
  by (induction x) auto

lemma digits_plain: "list_all is_digit x \<Longrightarrow> \<not> is_digit c \<Longrightarrow> c \<notin> set x"
  by (auto simp: list_all_iff)

lemma not_digits: "\<not> is_digit CHR ''.''" "\<not> is_digit CHR '':''" "\<not> is_digit CHR ''%''"
  by (simp_all add: is_digit_def)

lemma not_hexes: "\<not> is_hex CHR '':''" "\<not> is_hex CHR ''%''" "\<not> is_hex CHR ''.''"
  by (simp_all add: is_hex_def is_digit_def)

lemma digit_not_ws: "is_digit c \<Longrightarrow> \<not> is_ws c"
  by (auto simp: is_digit_def is_ws_def)

lemma show_nat_plain [simp]:
  "CHR ''.'' \<notin> set (show_nat n)" "CHR '':'' \<notin> set (show_nat n)" "CHR ''%'' \<notin> set (show_nat n)"
  using digits_plain [of "show_nat n"] show_nat_read [of n] not_digits by blast+

lemma show_hex_plain [simp]: "CHR '':'' \<notin> set (show_hex n)"
  using show_hex_read [of n] not_hexes by (auto simp: list_all_iff)

lemma dotted_plain: "CHR '':'' \<notin> set (dotted q)" "CHR ''%'' \<notin> set (dotted q)" "CHR ''.'' \<in> set (dotted q)"
  by (cases q; simp)+

lemma split_dotted:
  "split_char CHR ''.'' (dotted (a, b, c, d)) = [show_nat a, show_nat b, show_nat c, show_nat d]"
  by (simp add: split_char_step split_char_plain)

lemma parseIPv4_dotted: "octets q \<Longrightarrow> parseIPv4 (dotted q) = Some q"
  by (cases q) (simp add: parseIPv4_def split_dotted parse_octet_show del: dotted.simps)

text \<open>A text with a colon in its first part is no IPv4 address.\<close>

lemma split_char_hd: "split_char c x \<noteq> [] \<and> hd (split_char c x) = takeWhile (\<lambda>y. y \<noteq> c) x"
  by (induction x) (auto split: list.splits)

lemma parseIPv4_colon:
  assumes "CHR '':'' \<in> set (takeWhile (\<lambda>y. y \<noteq> CHR ''.'') x)"
  shows "parseIPv4 x = None"
proof -
  obtain p ps where sp: "split_char CHR ''.'' x = p # ps"
    using split_char_hd [of "CHR ''.''" x] by (cases "split_char CHR ''.'' x") auto
  then have "CHR '':'' \<in> set p" using split_char_hd [of "CHR ''.''" x] assms by simp
  then have "parse_octet p = None"
    using not_digits(2) by (auto simp: parse_octet_def list_all_iff)
  then show ?thesis by (simp add: parseIPv4_def sp)
qed

lemma after_last_colon_app: "CHR '':'' \<notin> set y \<Longrightarrow> after_last_colon (x @ CHR '':'' # y) = y"
proof -
  assume "CHR '':'' \<notin> set y"
  then have "takeWhile (\<lambda>c. c \<noteq> CHR '':'') (rev y @ CHR '':'' # rev x) = rev y"
    by (subst takeWhile_append2) auto
  then show ?thesis by (simp add: after_last_colon_def)
qed

lemma expand_quad_dotted:
  assumes "octets (a, b, c, d)"
  shows "expand_quad (x @ CHR '':'' # dotted (a, b, c, d))
           = Some (x @ CHR '':'' # show_hex (a * 256 + b) @ CHR '':'' # show_hex (c * 256 + d))"
  using parseIPv4_dotted [OF assms] dotted_plain [of "(a, b, c, d)"]
  by (simp add: expand_quad_def after_last_colon_app Let_def del: dotted.simps)

lemma expand_quad_plain: "CHR ''.'' \<notin> set t \<Longrightarrow> expand_quad t = Some t"
proof -
  assume "CHR ''.'' \<notin> set t"
  then have "CHR ''.'' \<notin> set (after_last_colon t)"
    by (auto simp: after_last_colon_def dest: set_takeWhileD)
  then show ?thesis by (simp add: expand_quad_def Let_def)
qed

text \<open>The compressed form is split at its one double colon.\<close>

fun single_colons :: "string \<Rightarrow> bool" where
  "single_colons (x # y # r) \<longleftrightarrow> \<not> (x = CHR '':'' \<and> y = CHR '':'') \<and> single_colons (y # r)"
| "single_colons _ \<longleftrightarrow> True"

lemma single_colons_plain: "CHR '':'' \<notin> set x \<Longrightarrow> single_colons x"
  by (induction x rule: single_colons.induct) auto

lemma single_colons_step:
  "CHR '':'' \<notin> set x \<Longrightarrow> x \<noteq> [] \<Longrightarrow> single_colons (x @ CHR '':'' # y) \<longleftrightarrow> single_colons (CHR '':'' # y)"
  by (induction x rule: single_colons.induct) auto

lemma split_colons_plain: "single_colons x \<Longrightarrow> split_colons acc x = [rev acc @ x]"
  by (induction acc x rule: split_colons.induct) auto

lemma split_colons_double:
  "single_colons (x @ '':'') \<Longrightarrow> split_colons acc (x @ CHR '':'' # CHR '':'' # y) = (rev acc @ x) # split_colons [] y"
proof (induction x arbitrary: acc)
  case Nil
  then show ?case by simp
next
  case (Cons a x)
  then show ?case by (cases x) auto
qed

lemma tail_groups:
  fixes m n :: nat
  assumes "m < 65536" and "n < 65536"
  shows "single_colons (show_hex m @ CHR '':'' # show_hex n)"
    and "split_char CHR '':'' (show_hex m @ CHR '':'' # show_hex n) = [show_hex m, show_hex n]"
    and "hex_group (show_hex m)" and "hex_group (show_hex n)" and "show_hex n \<noteq> []" and "show_hex m \<noteq> []"
proof -
  show ne: "show_hex n \<noteq> []" "show_hex m \<noteq> []"
    using show_hex_length [of n 3] show_hex_length [of m 3] assms by auto
  then show "single_colons (show_hex m @ CHR '':'' # show_hex n)"
    by (cases "show_hex n") (use show_hex_plain [of n] in \<open>auto simp: single_colons_step intro: single_colons_plain\<close>)
qed (use assms in \<open>simp_all add: split_char_step split_char_plain show_hex_group\<close>)

lemma embedded_bytes:
  assumes "octets (a, b, c, d)"
  shows "embeddedIPv4 (of_nat (a * 256 + b)) (of_nat (c * 256 + d)) = (a, b, c, d)"
proof -
  have high: "unat (drop_bit 8 (of_nat (x * 256 + y) :: 16 word)) = x"
    and low: "unat ((of_nat (x * 256 + y) :: 16 word) AND 0xff) = y" if "x < 256" "y < 256" for x y :: nat
  proof -
    have v: "unat (of_nat (x * 256 + y) :: 16 word) = x * 256 + y"
      using that by (simp add: unat_of_nat del: of_nat_add of_nat_mult)
    have "unat (drop_bit 8 (of_nat (x * 256 + y) :: 16 word)) = drop_bit 8 (x * 256 + y)"
      by (metis v unat_drop_bit_eq)
    with that show "unat (drop_bit 8 (of_nat (x * 256 + y) :: 16 word)) = x" by (simp add: drop_bit_eq_div)
    have "(of_nat (x * 256 + y) :: 16 word) AND 0xff = take_bit 8 (of_nat (x * 256 + y))"
      by (simp add: take_bit_eq_mask mask_eq_exp_minus_1)
    then have "unat ((of_nat (x * 256 + y) :: 16 word) AND 0xff) = take_bit 8 (x * 256 + y)"
      by (metis v unsigned_take_bit_eq)
    with that show "unat ((of_nat (x * 256 + y) :: 16 word) AND 0xff) = y" by (simp add: take_bit_eq_mod)
  qed
  show ?thesis using assms by (simp add: embeddedIPv4_def high low del: of_nat_add of_nat_mult)
qed

lemma word16_eq_iff: "m < 65536 \<Longrightarrow> n < 65536 \<Longrightarrow> (of_nat m :: 16 word) = of_nat n \<longleftrightarrow> m = n"
  by (auto simp: word_unat_eq_iff unat_of_nat)

lemma word16_consts: "(of_nat m :: 16 word) = 0 \<longleftrightarrow> m = 0" "(of_nat m :: 16 word) = 1 \<longleftrightarrow> m = 1" if "m < 65536"
  using word16_eq_iff [OF that, of 0] word16_eq_iff [OF that, of 1] by simp_all

definition embeddings :: "string list" where
  "embeddings = [''::ffff:'', ''::'', ''64:ff9b::'']"

definition embedded_groups :: "string \<Rightarrow> 16 word \<Rightarrow> 16 word \<Rightarrow> 16 word list" where
  "embedded_groups p hi lo =
     (if p = ''::ffff:'' then [0, 0, 0, 0, 0, 0xffff, hi, lo]
      else if p = ''::'' then [0, 0, 0, 0, 0, 0, hi, lo]
      else [0x64, 0xff9b, 0, 0, 0, 0, hi, lo])"

lemma fixed_groups: "read_digits 16 ''ffff'' = 0xffff" "read_digits 16 ''64'' = 0x64" "read_digits 16 ''ff9b'' = 0xff9b"
  "hex_group ''ffff''" "hex_group ''64''" "hex_group ''ff9b''" "read_digits 16 ''2002'' = 0x2002" "hex_group ''2002''"
  by (simp_all add: read_digits_def hex_value_def hex_group_def is_hex_def is_digit_def)

lemma zero_runs:
  "replicate 4 x = [x, x, x, x]" "replicate 5 x = [x, x, x, x, x]" "replicate 6 x = [x, x, x, x, x, x]"
  by (simp_all add: numeral_eq_Suc)

lemma parse_groups_embedded:
  assumes "p \<in> set embeddings" and "m < 65536" and "n < 65536"
  shows "parse_groups (p @ show_hex m @ CHR '':'' # show_hex n) = Some (embedded_groups p (of_nat m) (of_nat n))"
proof -
  let ?t = "show_hex m @ CHR '':'' # show_hex n"
  note tg = tail_groups [OF assms(2,3)]
  have rd: "read_digits 16 (show_hex k) = k" for k using show_hex_read by blast
  have ffff: "single_colons (''ffff:'' @ ?t)" "groups_of (''ffff:'' @ ?t) = [''ffff'', show_hex m, show_hex n]"
    using tg show_hex_plain [of m] by (cases "show_hex m"; auto simp: groups_of_def)+
  have g: "groups_of ?t = [show_hex m, show_hex n]" using tg by (simp add: groups_of_def)
  consider "p = ''::ffff:''" | "p = ''::''" | "p = ''64:ff9b::''"
    using assms(1) by (auto simp: embeddings_def)
  then show ?thesis
  proof cases
    case 1
    with ffff tg show ?thesis
      by (simp add: parse_groups_def split_colons_plain groups_of_def [of "[]"] group_words_def rd fixed_groups embedded_groups_def zero_runs)
  next
    case 2
    with g tg show ?thesis
      by (simp add: parse_groups_def split_colons_plain groups_of_def [of "[]"] group_words_def rd embedded_groups_def zero_runs)
  next
    case 3
    have "split_colons [] (p @ ?t) = [''64:ff9b'', ?t]"
      using 3 split_colons_double [of "''64:ff9b''" "[]" ?t] tg(1) by (simp add: split_colons_plain)
    moreover have "groups_of ''64:ff9b'' = [''64'', ''ff9b'']" by (simp add: groups_of_def)
    ultimately show ?thesis
      using 3 g tg by (simp add: parse_groups_def group_words_def rd fixed_groups embedded_groups_def zero_runs)
  qed
qed

lemma forbidden_embedded:
  assumes "octets (a, b, c, d)" and "p \<in> set embeddings"
  shows "isForbiddenIPv6 (embedded_groups p (of_nat (a * 256 + b)) (of_nat (c * 256 + d))) = isForbiddenIPv4 (a, b, c, d)"
proof -
  let ?hi = "of_nat (a * 256 + b) :: 16 word" and ?lo = "of_nat (c * 256 + d) :: 16 word"
  have l: "a * 256 + b < 65536" "c * 256 + d < 65536" using assms(1) by auto
  have e: "embeddedIPv4 ?hi ?lo = (a, b, c, d)" by (rule embedded_bytes [OF assms(1)])
  have z: "?hi = 0 \<longleftrightarrow> a = 0 \<and> b = 0" "?lo = 0 \<longleftrightarrow> c = 0 \<and> d = 0"
    by (simp_all only: word16_consts [OF l(1)] word16_consts [OF l(2)]) auto
  consider "p = ''::ffff:''" | "p = ''::''" | "p = ''64:ff9b::''"
    using assms(2) by (auto simp: embeddings_def)
  then show ?thesis
  proof cases
    case 1
    then show ?thesis
      by (simp add: isForbiddenIPv6_def embedded_groups_def e del: of_nat_add of_nat_mult isForbiddenIPv4.simps)
  next
    case 2
    then show ?thesis
      using z by (auto simp: isForbiddenIPv6_def embedded_groups_def e simp del: of_nat_add of_nat_mult)
  next
    case 3
    then show ?thesis
      by (simp add: isForbiddenIPv6_def embedded_groups_def e del: of_nat_add of_nat_mult isForbiddenIPv4.simps)
  qed
qed

lemma dropWhile_none: "(\<And>c. c \<in> set s \<Longrightarrow> \<not> P c) \<Longrightarrow> dropWhile P s = s"
  by (cases s) auto

lemma js_trim_plain: "(\<And>c. c \<in> set s \<Longrightarrow> \<not> is_ws c) \<Longrightarrow> js_trim s = s"
  using dropWhile_none [of s is_ws] dropWhile_none [of "rev s" is_ws] by (simp add: js_trim_def)

lemma takeWhile_absent: "c \<notin> set s \<Longrightarrow> takeWhile (\<lambda>x. x \<noteq> c) s = s"
  by (simp add: takeWhile_eq_all_conv) metis

lemma dotted_chars: "c \<in> set (dotted q) \<Longrightarrow> is_digit c \<or> c = CHR ''.''"
  using show_nat_read by (cases q) (auto simp: list_all_iff)

lemma parseIPv6_plain:
  assumes "\<And>c. c \<in> set s \<Longrightarrow> is_hex c \<or> c = CHR '':'' \<or> c = CHR ''.''"
  shows "parseIPv6 s = (case expand_quad s of None \<Rightarrow> None | Some t \<Rightarrow> parse_groups t)"
proof -
  have "\<not> is_ws c \<and> c \<noteq> CHR ''%'' \<and> c \<noteq> CHR ''[''" if "c \<in> set s" for c
    using assms [OF that] by (auto simp: is_hex_def is_digit_def is_ws_def)
  then have "js_trim s = s" "CHR ''%'' \<notin> set s" "strip_brackets s = s"
    by (auto intro!: js_trim_plain simp: strip_brackets_def dest: hd_in_set)
  then show ?thesis by (simp add: parseIPv6_def takeWhile_absent)
qed

lemma embedding_shape:
  assumes "p \<in> set embeddings"
  obtains x where "p = x @ '':''" and "\<And>c. c \<in> set p \<Longrightarrow> is_hex c \<or> c = CHR '':''"
    and "CHR '':'' \<in> set (takeWhile (\<lambda>y. y \<noteq> CHR ''.'') (p @ z))"
proof
  show "p = butlast p @ '':''" using assms by (auto simp: embeddings_def)
  show "\<And>c. c \<in> set p \<Longrightarrow> is_hex c \<or> c = CHR '':''"
    using assms by (auto simp: embeddings_def is_hex_def is_digit_def)
  show "CHR '':'' \<in> set (takeWhile (\<lambda>y. y \<noteq> CHR ''.'') (p @ z))"
    using assms by (auto simp: embeddings_def)
qed

lemma isForbidden_embedded:
  assumes "octets q" and "p \<in> set embeddings"
  shows "isForbiddenAddress (p @ dotted q) = isForbiddenIPv4 q"
proof -
  obtain a b c d where q: "q = (a, b, c, d)" by (cases q)
  have l: "a * 256 + b < 65536" "c * 256 + d < 65536" using assms(1) q by auto
  obtain x where x: "p = x @ '':''" and hex: "\<And>c. c \<in> set p \<Longrightarrow> is_hex c \<or> c = CHR '':''"
    and col: "CHR '':'' \<in> set (takeWhile (\<lambda>y. y \<noteq> CHR ''.'') (p @ dotted q))"
    using embedding_shape [OF assms(2)] by blast
  have "parseIPv6 (p @ dotted q)
          = (case expand_quad (p @ dotted q) of None \<Rightarrow> None | Some t \<Rightarrow> parse_groups t)"
    by (rule parseIPv6_plain) (use hex dotted_chars [of _ q] in \<open>auto simp: is_hex_def\<close>)
  also have "expand_quad (p @ dotted q) = Some (p @ show_hex (a * 256 + b) @ CHR '':'' # show_hex (c * 256 + d))"
    using expand_quad_dotted [of a b c d x] assms(1) q x by simp
  finally have "parseIPv6 (p @ dotted q) = Some (embedded_groups p (of_nat (a * 256 + b)) (of_nat (c * 256 + d)))"
    using parse_groups_embedded [OF assms(2) l] by simp
  moreover have "isForbiddenIPv6 (embedded_groups p (of_nat (a * 256 + b)) (of_nat (c * 256 + d))) = isForbiddenIPv4 q"
    using forbidden_embedded [OF _ assms(2)] assms(1) q by blast
  ultimately show ?thesis by (simp add: isForbiddenAddress_def parseIPv4_colon [OF col])
qed

fun sixtofour :: "ipv4 \<Rightarrow> string" where
  "sixtofour (a, b, c, d) = ''2002:'' @ show_hex (a * 256 + b) @ '':'' @ show_hex (c * 256 + d) @ ''::''"

lemma isForbidden_sixtofour:
  assumes "octets q"
  shows "isForbiddenAddress (sixtofour q) = isForbiddenIPv4 q"
proof -
  obtain a b c d where q: "q = (a, b, c, d)" by (cases q)
  let ?m = "a * 256 + b" and ?n = "c * 256 + d"
  let ?t = "''2002:'' @ show_hex ?m @ CHR '':'' # show_hex ?n"
  have l: "?m < 65536" "?n < 65536" using assms q by auto
  note tg = tail_groups [OF l]
  have rd: "read_digits 16 (show_hex k) = k" for k using show_hex_read by blast
  have s: "sixtofour q = ?t @ ''::''" using q by simp
  have chars: "is_hex y \<or> y = CHR '':''" if "y \<in> set (sixtofour q)" for y
    using that show_hex_read [of ?m] show_hex_read [of ?n] q
    by (auto simp: list_all_iff is_hex_def is_digit_def)
  have dotless: "CHR ''.'' \<notin> set (sixtofour q)" using chars not_hexes by blast
  have "single_colons (show_hex ?n @ '':'')"
    using tg(5) by (simp add: single_colons_step)
  then have "single_colons (show_hex ?m @ CHR '':'' # show_hex ?n @ '':'')"
    using tg(5,6) show_hex_plain [of ?n] by (cases "show_hex ?n") (auto simp: single_colons_step)
  then have "single_colons (?t @ '':'')"
    using tg(6) show_hex_plain [of ?m] by (cases "show_hex ?m") auto
  then have "split_colons [] (sixtofour q) = [?t, []]"
    using split_colons_double [of ?t "[]" "[]"] by (simp add: s)
  moreover have "groups_of ?t = [''2002'', show_hex ?m, show_hex ?n]"
    using tg by (simp add: groups_of_def)
  ultimately have "parse_groups (sixtofour q) = Some ([0x2002, of_nat ?m, of_nat ?n, 0, 0, 0, 0, 0])"
    using tg by (simp add: parse_groups_def group_words_def rd fixed_groups zero_runs groups_of_def [of "[]"])
  moreover have "parseIPv6 (sixtofour q)
      = (case expand_quad (sixtofour q) of None \<Rightarrow> None | Some t \<Rightarrow> parse_groups t)"
    by (rule parseIPv6_plain) (use chars in blast)
  ultimately have "parseIPv6 (sixtofour q) = Some ([0x2002, of_nat ?m, of_nat ?n, 0, 0, 0, 0, 0])"
    by (simp add: expand_quad_plain [OF dotless])
  moreover have "parseIPv4 (sixtofour q) = None"
    by (rule parseIPv4_colon) (simp add: s)
  moreover have "isForbiddenIPv6 [0x2002, of_nat ?m, of_nat ?n, 0, 0, 0, 0, 0] = isForbiddenIPv4 q"
    using embedded_bytes [of a b c d] assms q
    by (simp add: isForbiddenIPv6_def del: of_nat_add of_nat_mult isForbiddenIPv4.simps)
  ultimately show ?thesis by (simp add: isForbiddenAddress_def)
qed

text \<open>C19: an address is refused exactly when it lies in one of the listed CIDR blocks, and spelling
  it as an IPv4-mapped, IPv4-compatible, NAT64 or 6to4 address does not change the verdict.\<close>

theorem embedded_addresses_agree:
  assumes "octets q"
  shows "isForbiddenAddress (dotted q) = forbidden_quad q
         \<and> (\<forall>p \<in> set embeddings. isForbiddenAddress (p @ dotted q) = forbidden_quad q)
         \<and> isForbiddenAddress (sixtofour q) = forbidden_quad q"
  using assms isForbidden_embedded [OF assms] isForbidden_sixtofour [OF assms]
  by (simp add: forbidden_quad_octets isForbiddenAddress_def parseIPv4_dotted)

lemma embedded_addresses_agree_witness:
  "isForbiddenAddress (''64:ff9b::'' @ dotted (169, 254, 169, 254)) \<and> \<not> isForbiddenAddress (''::ffff:'' @ dotted (8, 8, 8, 8))"
  using embedded_addresses_agree [of "(169, 254, 169, 254)"] embedded_addresses_agree [of "(8, 8, 8, 8)"]
  by (simp add: embeddings_def forbidden_quad_octets del: dotted.simps)

end
