(* ===== verification/Harness.thy ===== *)
theory Harness
  imports Sandbox Validation Client_Metadata Cache_Store
begin

text \<open>
  Which verifier runs a submission (\<open>services/execution-providers/registry-catalog.ts\<close>,
  \<open>registry-loader.ts\<close> and \<open>harness.ts\<close>), and in which languages a dataset type can be built
  (\<open>lib/exec-languages.ts\<close>, \<open>language-support.ts\<close>, \<open>provider-order.ts\<close>). The vendored corpus is a record:
  the entries of its routing table and, per category, the source and the fields of its schema. A script is
  the template it is filled from, with the values filled in; the text of the templates is not modelled.
  The keys of a payload and of a table are its own properties.
\<close>

section \<open>Routing table\<close>

definition id_char :: "char \<Rightarrow> bool" where
  "id_char x \<longleftrightarrow> x = CHR ''_'' \<or> CHR ''a'' \<le> x \<and> x \<le> CHR ''z'' \<or> CHR ''0'' \<le> x \<and> x \<le> CHR ''9''"

definition isSafeCategoryId :: "string \<Rightarrow> bool" where
  "isSafeCategoryId i \<longleftrightarrow> i \<noteq> [] \<and> hd i \<noteq> CHR ''_'' \<and> list_all id_char i \<and> length i \<le> 64"

record category_entry =
  ce_id :: string
  ce_network :: bool

definition entry_of :: "json \<Rightarrow> category_entry option" where
  "entry_of c =
     (case jget c ''id'' of
        Some (JStr i) \<Rightarrow> if isSafeCategoryId i then Some \<lparr>ce_id = i, ce_network = (jget c ''networkEgress'' = Some (JBool True))\<rparr> else None
      | _ \<Rightarrow> None)"

definition add_category :: "json \<Rightarrow> (string \<rightharpoonup> category_entry) \<Rightarrow> (string \<rightharpoonup> category_entry)" where
  "add_category c m =
     (case entry_of c of
        None \<Rightarrow> m
      | Some e \<Rightarrow>
          (let m1 = m(ce_id e \<mapsto> e)
           in case jget c ''datasetType'' of
                Some (JStr d) \<Rightarrow> if isSafeCategoryId d \<and> d \<noteq> ce_id e then m1(d \<mapsto> e) else m1
              | _ \<Rightarrow> m1))"

text \<open>A contract that exactly one category has is an alias of it.\<close>

definition contract_matches :: "json list \<Rightarrow> (string \<rightharpoonup> category_entry) \<Rightarrow> string \<Rightarrow> category_entry list" where
  "contract_matches cs m k =
     List.map_filter (\<lambda>c. if jget c ''contract'' = Some (JStr k) then Option.bind (entry_of c) (\<lambda>e. m (ce_id e)) else None) cs"

definition loadCategories :: "json list \<Rightarrow> (string \<rightharpoonup> category_entry)" where
  "loadCategories cs =
     (let m = fold add_category cs (\<lambda>k. None)
      in (\<lambda>k. case m k of
                Some e \<Rightarrow> Some e
              | None \<Rightarrow> if k = [] then None else (case contract_matches cs m k of [e] \<Rightarrow> Some e | _ \<Rightarrow> None)))"

definition categoryAllowsNetworkEgress :: "json list \<Rightarrow> string \<Rightarrow> bool" where
  "categoryAllowsNetworkEgress cs i \<longleftrightarrow>
     isSafeCategoryId i \<and> (case loadCategories cs i of Some e \<Rightarrow> ce_network e | None \<Rightarrow> False)"

text \<open>
  What the loop over the table amounts to. A category with a safe id claims that id and, when it is safe,
  the dataset type it names; the last category that claims a key has it.
\<close>

definition claims_key :: "string \<Rightarrow> json \<Rightarrow> bool" where
  "claims_key k c \<longleftrightarrow>
     entry_of c \<noteq> None \<and> (jget c ''id'' = Some (JStr k) \<or> jget c ''datasetType'' = Some (JStr k) \<and> isSafeCategoryId k)"

definition claimant :: "json list \<Rightarrow> string \<Rightarrow> json option" where
  "claimant cs k = find_where (claims_key k) (rev cs)"

definition contract_holders :: "json list \<Rightarrow> string \<Rightarrow> json list" where
  "contract_holders cs k = filter (\<lambda>c. entry_of c \<noteq> None \<and> jget c ''contract'' = Some (JStr k)) cs"

lemma entry_of_id: "entry_of c = Some e \<Longrightarrow> jget c ''id'' = Some (JStr (ce_id e)) \<and> isSafeCategoryId (ce_id e)
    \<and> ce_network e = (jget c ''networkEgress'' = Some (JBool True))"
  by (auto simp: entry_of_def split: option.splits json.splits if_splits)

lemma add_category_key: "add_category c m k = (if claims_key k c then entry_of c else m k)"
proof (cases "entry_of c")
  case (Some e)
  then show ?thesis
    using entry_of_id [OF Some]
    by (auto simp: add_category_def claims_key_def Let_def split: option.splits json.splits)
qed (simp add: add_category_def claims_key_def)

lemma table_key: "fold add_category cs m k = (case claimant cs k of Some c \<Rightarrow> entry_of c | None \<Rightarrow> m k)"
  by (induction cs arbitrary: m)
    (simp_all add: claimant_def find_where_append add_category_key split: option.split)

lemma claimant_claims: "claimant cs k = Some c \<Longrightarrow> claims_key k c \<and> c \<in> set cs"
  using find_where_Some [of "claims_key k" "rev cs" c] by (simp add: claimant_def)

lemma holder_claims:
  assumes "c \<in> set cs" and "entry_of c = Some d"
  obtains e where "claimant cs (ce_id d) = Some e" and "entry_of e \<noteq> None"
proof -
  have "claimant cs (ce_id d) \<noteq> None"
    using assms entry_of_id [OF assms(2)] by (auto simp: claimant_def claims_key_def find_where_None_iff)
  with that claimant_claims show ?thesis by (auto simp: claims_key_def)
qed

lemma contract_matches_holders:
  "contract_matches cs (fold add_category cs (\<lambda>k. None)) k =
     map (\<lambda>c. the (entry_of (the (claimant cs (ce_id (the (entry_of c))))))) (contract_holders cs k)"
proof -
  let ?m = "fold add_category cs (\<lambda>k. None)"
  let ?f = "\<lambda>c. if jget c ''contract'' = Some (JStr k) then Option.bind (entry_of c) (\<lambda>e. ?m (ce_id e)) else None"
  let ?P = "\<lambda>c. entry_of c \<noteq> None \<and> jget c ''contract'' = Some (JStr k)"
  have f: "?f c = (if ?P c then Some (the (entry_of (the (claimant cs (ce_id (the (entry_of c))))))) else None)"
    if c: "c \<in> set cs" for c
  proof (cases "entry_of c")
    case (Some d)
    obtain e where "claimant cs (ce_id d) = Some e" "entry_of e \<noteq> None" by (rule holder_claims [OF c Some])
    then show ?thesis using Some by (auto simp: table_key)
  qed simp
  have "List.map_filter ?f xs = map (\<lambda>c. the (entry_of (the (claimant cs (ce_id (the (entry_of c))))))) (filter ?P xs)"
    if "set xs \<subseteq> set cs" for xs
    using that by (induction xs) (simp_all add: map_filter_simps f)
  then show ?thesis by (simp add: contract_matches_def contract_holders_def)
qed

text \<open>The entry under a key: the claimant's; else the one of the only category that has the key as its contract.\<close>

lemma loaded_entry:
  assumes "loadCategories cs k = Some e"
  shows "\<exists>c. entry_of c = Some e \<and> c \<in> set cs
    \<and> (claimant cs k = Some c
       \<or> claimant cs k = None
         \<and> (\<exists>d i. contract_holders cs k = [d] \<and> jget d ''id'' = Some (JStr i) \<and> claimant cs i = Some c))"
proof (cases "claimant cs k")
  case (Some c)
  then have "entry_of c = Some e" using assms claimant_claims [OF Some]
    by (auto simp: loadCategories_def Let_def table_key claims_key_def)
  then show ?thesis using Some claimant_claims [OF Some] by blast
next
  case None
  let ?m = "fold add_category cs (\<lambda>k. None)"
  have "contract_matches cs ?m k = [e]"
    using assms None by (auto simp: loadCategories_def Let_def table_key split: if_splits list.splits)
  then obtain d where d: "contract_holders cs k = [d]" "e = the (entry_of (the (claimant cs (ce_id (the (entry_of d))))))"
    unfolding contract_matches_holders by auto
  from d(1) have "d \<in> set (contract_holders cs k)" by simp
  then obtain x where x: "d \<in> set cs" "entry_of d = Some x" by (auto simp: contract_holders_def)
  obtain c where c: "claimant cs (ce_id x) = Some c" "entry_of c \<noteq> None" by (rule holder_claims [OF x])
  have "entry_of c = Some e" using d(2) x(2) c by auto
  then show ?thesis using None d(1) c(1) claimant_claims [OF c(1)] entry_of_id [OF x(2)] by blast
qed

text \<open>
  A run may reach the network only when the entry the table holds under the type's name, or under the id of
  the one category that has the name as its contract, declares it.
\<close>

definition egress_declared :: "json list \<Rightarrow> string \<Rightarrow> bool" where
  "egress_declared cs k \<longleftrightarrow>
     (case claimant cs k of
        Some c \<Rightarrow> jget c ''networkEgress'' = Some (JBool True)
      | None \<Rightarrow>
          (case contract_holders cs k of
             [d] \<Rightarrow> (case jget d ''id'' of
                      Some (JStr i) \<Rightarrow> Option.bind (claimant cs i) (\<lambda>c. jget c ''networkEgress'') = Some (JBool True)
                    | _ \<Rightarrow> False)
           | _ \<Rightarrow> False))"

lemma network_is_declared:
  assumes "categoryAllowsNetworkEgress cs i"
  shows "isSafeCategoryId i \<and> egress_declared cs i"
proof -
  obtain e where e: "loadCategories cs i = Some e" "ce_network e" "isSafeCategoryId i"
    using assms by (auto simp: categoryAllowsNetworkEgress_def split: option.splits)
  from loaded_entry [OF e(1)] obtain c where c: "entry_of c = Some e"
      "claimant cs i = Some c \<or> claimant cs i = None
         \<and> (\<exists>d j. contract_holders cs i = [d] \<and> jget d ''id'' = Some (JStr j) \<and> claimant cs j = Some c)"
    by blast
  have "jget c ''networkEgress'' = Some (JBool True)" using entry_of_id [OF c(1)] e(2) by simp
  with c(2) e(3) show ?thesis by (auto simp: egress_declared_def)
qed

section \<open>Category harness\<close>

record registry =
  rg_categories :: "json list"
  rg_source :: "string \<Rightarrow> string option"
  rg_schema :: "string \<Rightarrow> json list option"
  rg_shared :: bool

record type_contract =
  tc_id :: string
  tc_fields :: "json option"
  tc_verification :: "json option"

datatype harness_script =
    Category_script string json
  | Sql_script string string string
  | Translation_script "(string \<times> string \<times> string) list"
  | Node_script string string string string
  | Python_script string string string
  | Compiled_script string string string string
  | Output_script string string string string

datatype provenance = From_registry | Role_fallback

text \<open>Assembling raises when one of the two shared files of the corpus is missing.\<close>

datatype resolution = No_harness | Harness_raised | Resolved harness_script provenance

definition harness_source :: "registry \<Rightarrow> string \<Rightarrow> string option" where
  "harness_source rg i = (if isSafeCategoryId i then rg_source rg i else None)"

definition buildRegistryHarness :: "registry \<Rightarrow> string \<Rightarrow> json \<Rightarrow> resolution" where
  "buildRegistryHarness rg i payload =
     (if \<not> isSafeCategoryId i then No_harness
      else case loadCategories (rg_categories rg) i of
             None \<Rightarrow> No_harness
           | Some e \<Rightarrow>
               (case harness_source rg (ce_id e) of
                  None \<Rightarrow> No_harness
                | Some src \<Rightarrow>
                    if src = [] then No_harness
                    else if rg_shared rg then Resolved (Category_script src payload) From_registry else Harness_raised))"

definition inheritedHarnessName :: "json option \<Rightarrow> string option" where
  "inheritedHarnessName v =
     (case v of
        Some j \<Rightarrow> (case jget j ''harness'' of Some (JStr h) \<Rightarrow> if js_trim h = [] then None else Some (js_trim h) | _ \<Rightarrow> None)
      | None \<Rightarrow> None)"

text \<open>\<open>===\<close> after \<open>?? undefined\<close>: null is absent, objects and arrays are never the same.\<close>

definition present :: "json option \<Rightarrow> json option" where
  "present x = (if x = Some JNull then None else x)"

fun js_same :: "json option \<Rightarrow> json option \<Rightarrow> bool" where
  "js_same (Some (JObj a)) y = False"
| "js_same (Some (JArr a)) y = False"
| "js_same x y = (x = y)"

definition fork_field :: "json list \<Rightarrow> string \<Rightarrow> json option" where
  "fork_field fs k = find_where (\<lambda>f. jget f ''key'' = Some (JStr k)) (rev fs)"

definition field_survives :: "json list \<Rightarrow> json \<Rightarrow> bool" where
  "field_survives fs s =
     (case jget s ''key'' of
        Some (JStr k) \<Rightarrow>
          k \<noteq> [] \<and> (case fork_field fs k of
             None \<Rightarrow> False
           | Some f \<Rightarrow> js_same (present (jget s ''role'')) (present (jget f ''role''))
                      \<and> js_same (present (jget s ''lang'')) (present (jget f ''lang'')))
      | _ \<Rightarrow> False)"

definition fieldsCompatibleWithSchema :: "json option \<Rightarrow> json list \<Rightarrow> bool" where
  "fieldsCompatibleWithSchema fs0 schema =
     (case fs0 of Some (JArr fs) \<Rightarrow> list_all (field_survives fs) schema | _ \<Rightarrow> False)"

definition inheritedRegistryHarnessName :: "registry \<Rightarrow> type_contract \<Rightarrow> string option" where
  "inheritedRegistryHarnessName rg ty =
     (case inheritedHarnessName (tc_verification ty) of
        None \<Rightarrow> None
      | Some h \<Rightarrow>
          if h = tc_id ty \<or> \<not> isSafeCategoryId h then None
          else (case loadCategories (rg_categories rg) h of
                  None \<Rightarrow> None
                | Some e \<Rightarrow>
                    if harness_source rg (ce_id e) = None then None
                    else (case (if isSafeCategoryId (ce_id e) then rg_schema rg (ce_id e) else None) of
                            None \<Rightarrow> None
                          | Some schema \<Rightarrow> if fieldsCompatibleWithSchema (tc_fields ty) schema then Some (ce_id e) else None)))"

definition buildCategoryHarness :: "registry \<Rightarrow> json \<Rightarrow> type_contract \<Rightarrow> resolution" where
  "buildCategoryHarness rg payload ty =
     (case (if tc_id ty = [] then No_harness else buildRegistryHarness rg (tc_id ty) payload) of
        No_harness \<Rightarrow>
          (case inheritedRegistryHarnessName rg ty of None \<Rightarrow> No_harness | Some i \<Rightarrow> buildRegistryHarness rg i payload)
      | r \<Rightarrow> r)"

definition hasRegistryHarness :: "registry \<Rightarrow> type_contract \<Rightarrow> bool" where
  "hasRegistryHarness rg ty \<longleftrightarrow>
     (tc_id ty \<noteq> [] \<and> isSafeCategoryId (tc_id ty)
        \<and> (case loadCategories (rg_categories rg) (tc_id ty) of Some e \<Rightarrow> harness_source rg (ce_id e) \<noteq> None | None \<Rightarrow> False))
     \<or> inheritedRegistryHarnessName rg ty \<noteq> None"

section \<open>Role fallback\<close>

record contract_field =
  cf_key :: "string option"
  cf_role :: "string option"
  cf_lang :: "string option"

definition text_of :: "json option \<Rightarrow> string option" where
  "text_of x = (case x of Some (JStr s) \<Rightarrow> Some s | _ \<Rightarrow> None)"

definition field_of :: "json \<Rightarrow> contract_field" where
  "field_of f = \<lparr>cf_key = text_of (jget f ''key''), cf_role = text_of (jget f ''role''), cf_lang = text_of (jget f ''lang'')\<rparr>"

definition raw_fields :: "type_contract \<Rightarrow> json list" where
  "raw_fields ty = (case tc_fields ty of Some (JArr fs) \<Rightarrow> fs | _ \<Rightarrow> [])"

definition fieldsOf :: "type_contract \<Rightarrow> contract_field list" where
  "fieldsOf ty = map field_of (raw_fields ty)"

definition executionEnvOf :: "type_contract \<Rightarrow> string" where
  "executionEnvOf ty = (case tc_verification ty of Some v \<Rightarrow> str_of (jget v ''executionEnv'') | None \<Rightarrow> [])"

text \<open>A whole word of a text: what \<open>\\b\<close> on both sides means.\<close>

definition env_char :: "char \<Rightarrow> bool" where
  "env_char x \<longleftrightarrow> x = CHR ''_'' \<or> CHR ''a'' \<le> x \<and> x \<le> CHR ''z'' \<or> CHR ''A'' \<le> x \<and> x \<le> CHR ''Z'' \<or> CHR ''0'' \<le> x \<and> x \<le> CHR ''9''"

fun has_word_after :: "bool \<Rightarrow> string \<Rightarrow> string \<Rightarrow> bool" where
  "has_word_after inside w [] = False"
| "has_word_after inside w (x # s) =
     (\<not> inside \<and> starts_with w (x # s) \<and> (case drop (length w) (x # s) of [] \<Rightarrow> True | y # r \<Rightarrow> \<not> env_char y)
      \<or> has_word_after (env_char x) w s)"

definition has_word :: "string \<Rightarrow> string \<Rightarrow> bool" where
  "has_word w s = has_word_after False w s"

definition NODE_LANGS :: "string list" where
  "NODE_LANGS = [''js'', ''jsx'', ''javascript'', ''node'', ''ts'', ''tsx'', ''typescript'']"

definition PYTHON_LANGS :: "string list" where "PYTHON_LANGS = [''py'', ''python'', ''python3'']"

definition COMPILED_LANGS :: "string list" where
  "COMPILED_LANGS = [''java'', ''go'', ''rust'', ''rs'', ''c'', ''c++'', ''cpp'', ''cxx'', ''rb'', ''ruby'', ''php'', ''cs'', ''csharp'', ''c#'']"

datatype runtime = Rt_node | Rt_python | Rt_compiled

definition runtimeForLang :: "string \<Rightarrow> runtime option" where
  "runtimeForLang s =
     (let l = js_lower (js_trim s)
      in if l \<in> set NODE_LANGS then Some Rt_node
         else if l \<in> set PYTHON_LANGS then Some Rt_python
         else if l \<in> set COMPILED_LANGS then Some Rt_compiled else None)"

definition BROKEN_VARIANT_KEYS :: "string list" where "BROKEN_VARIANT_KEYS = [''broken_code'', ''buggy_code'', ''vulnerable_code'']"
definition SOLUTION_KEYS :: "string list" where
  "SOLUTION_KEYS = [''fixed_code'', ''solution_code'', ''translated_code'', ''optimized_code'', ''fast_code'', ''migrated_code'']"
definition TEST_KEYS :: "string list" where "TEST_KEYS = [''tests'', ''test_code'', ''benchmark'']"

type_synonym payload = "(string \<times> json) list"

fun pickString :: "payload \<Rightarrow> string list \<Rightarrow> string" where
  "pickString p [] = []"
| "pickString p (k # ks) =
     (case map_of p k of Some (JStr s) \<Rightarrow> if js_trim s \<noteq> [] then s else pickString p ks | _ \<Rightarrow> pickString p ks)"

definition either :: "string \<Rightarrow> string \<Rightarrow> string" where
  "either a b = (if a \<noteq> [] then a else b)"

definition buildNodeHarness :: "payload \<Rightarrow> string \<Rightarrow> harness_script option" where
  "buildNodeHarness p language =
     (let tests = pickString p TEST_KEYS; fixed = pickString p SOLUTION_KEYS; broken = pickString p BROKEN_VARIANT_KEYS
      in if tests = [] \<or> fixed = [] \<and> broken = [] then None
         else Some (Node_script (if js_lower (js_trim language) \<in> {''ts'', ''tsx'', ''typescript''} then ''ts'' else ''js'')
                      tests (either fixed broken) broken))"

definition buildPythonHarness :: "payload \<Rightarrow> harness_script option" where
  "buildPythonHarness p =
     (let tests = pickString p TEST_KEYS; fixed = pickString p SOLUTION_KEYS; broken = pickString p BROKEN_VARIANT_KEYS
      in if tests = [] \<or> fixed = [] \<and> broken = [] then None else Some (Python_script tests (either fixed broken) broken))"

definition buildCompiledHarness :: "payload \<Rightarrow> string \<Rightarrow> harness_script option" where
  "buildCompiledHarness p lang =
     (let fixed = pickString p SOLUTION_KEYS; broken = pickString p BROKEN_VARIANT_KEYS; tests = pickString p TEST_KEYS
      in if fixed = [] \<and> broken = [] then None else Some (Compiled_script lang (either fixed broken) broken tests))"

definition buildSqlHarness :: "payload \<Rightarrow> harness_script option" where
  "buildSqlHarness p =
     (let schema = pickString p [''schema_definition'', ''schema'', ''table_schema'', ''ddl''];
          sql = pickString p [''sql_query'', ''sql'', ''query'', ''solution_code''];
          expected = pickString p [''expected_output_shape'', ''expected_output'', ''expected_json_output'']
      in if sql = [] then None else Some (Sql_script schema sql expected))"

definition buildExpectedOutputHarness :: "payload \<Rightarrow> bool \<Rightarrow> harness_script option" where
  "buildExpectedOutputHarness p python =
     (let code = pickString p [''extraction_script'', ''solution_code'', ''script'', ''code''];
          expected = pickString p [''expected_json_output'', ''expected_output'', ''expected''];
          inp = pickString p [''raw_input_data'', ''input'', ''input_context'', ''stdin'']
      in if code = [] \<or> expected = [] then None
         else Some (Output_script (if python then ''python3'' else ''node'') code expected inp))"

definition buildTranslationHarness :: "payload \<Rightarrow> string \<Rightarrow> string \<Rightarrow> harness_script option" where
  "buildTranslationHarness p sourceLang targetLang =
     (let sides = filter (\<lambda>s. fst (snd s) \<noteq> [])
            [(''source_code'', pickString p [''source_code''], sourceLang),
             (''translated_code'', pickString p [''translated_code'', ''target_code''], targetLang)]
      in if sides = [] then None else Some (Translation_script sides))"

definition ROLE_CANONICAL_KEY :: "string \<Rightarrow> string option" where
  "ROLE_CANONICAL_KEY r =
     map_of [(''solution_code'', ''solution_code''), (''input_code'', ''source_code''), (''broken_code'', ''broken_code''),
             (''tests'', ''tests''), (''expected_output'', ''expected_output'')] r"

definition bridge_field :: "payload \<Rightarrow> contract_field \<Rightarrow> payload \<Rightarrow> payload" where
  "bridge_field p f out =
     (case (Option.bind (cf_role f) ROLE_CANONICAL_KEY, cf_key f) of
        (Some canon, Some k) \<Rightarrow>
          if k \<noteq> [] \<and> k \<noteq> canon \<and> \<not> is_str (map_of out canon) \<and> is_str (map_of p k)
          then js_put canon (the (map_of p k)) out else out
      | _ \<Rightarrow> out)"

definition normalizeByRole :: "payload \<Rightarrow> contract_field list \<Rightarrow> payload" where
  "normalizeByRole p fs = fold (bridge_field p) fs p"

definition langOfRole :: "contract_field list \<Rightarrow> string \<Rightarrow> string" where
  "langOfRole fs r =
     (case find_where (\<lambda>f. cf_role f = Some r) fs of
        Some f \<Rightarrow> (case cf_lang f of Some l \<Rightarrow> js_lower l | None \<Rightarrow> [])
      | None \<Rightarrow> [])"

definition has_role :: "contract_field list \<Rightarrow> string \<Rightarrow> bool" where
  "has_role fs r = list_ex (\<lambda>f. cf_role f = Some r) fs"

definition both_strings :: "payload \<Rightarrow> string \<Rightarrow> string \<Rightarrow> bool" where
  "both_strings p a b \<longleftrightarrow> is_str (map_of p a) \<and> is_str (map_of p b)"

definition tested_lang :: "contract_field list \<Rightarrow> string \<Rightarrow> string" where
  "tested_lang fs env =
     either (langOfRole fs ''solution_code'') (either (langOfRole fs ''input_code'')
       (if has_word ''python'' env then ''python'' else if has_word ''node'' env then ''node'' else if has_word ''go'' env then ''go'' else []))"

definition code_or_output :: "payload \<Rightarrow> contract_field list \<Rightarrow> string \<Rightarrow> harness_script option" where
  "code_or_output p fs env =
     (if has_role fs ''tests''
      then (let lang = tested_lang fs env
            in case runtimeForLang lang of
                 Some Rt_node \<Rightarrow> buildNodeHarness p lang
               | Some Rt_python \<Rightarrow> buildPythonHarness p
               | Some Rt_compiled \<Rightarrow> buildCompiledHarness p lang
               | None \<Rightarrow> None)
      else if has_role fs ''expected_output'' \<and> has_role fs ''solution_code''
      then (case runtimeForLang (langOfRole fs ''solution_code'') of
              Some Rt_python \<Rightarrow> buildExpectedOutputHarness p True
            | Some Rt_node \<Rightarrow> buildExpectedOutputHarness p False
            | _ \<Rightarrow> None)
      else None)"

definition buildRoleHarness :: "payload \<Rightarrow> type_contract \<Rightarrow> harness_script option" where
  "buildRoleHarness raw ty =
     (let fs = fieldsOf ty; p = normalizeByRole raw fs; env = js_lower (executionEnvOf ty)
      in if langOfRole fs ''solution_code'' = ''sql'' \<or> list_ex (\<lambda>w. has_word w env) [''sqlite'', ''postgres'', ''postgresql'', ''sql'']
         then buildSqlHarness p
         else case (if both_strings p ''source_code'' ''translated_code'' \<or> both_strings p ''source_language'' ''target_language''
                    then buildTranslationHarness p
                           (either (str_of (map_of p ''source_language'')) (langOfRole fs ''input_code''))
                           (either (str_of (map_of p ''target_language'')) (langOfRole fs ''solution_code''))
                    else None) of
                Some h \<Rightarrow> Some h
              | None \<Rightarrow> code_or_output p fs env)"

text \<open>A \<open>null\<close> among the fields raises.\<close>

definition resolveHarness :: "registry \<Rightarrow> payload \<Rightarrow> type_contract \<Rightarrow> resolution" where
  "resolveHarness rg p ty =
     (case buildCategoryHarness rg (JObj p) ty of
        No_harness \<Rightarrow>
          if JNull \<in> set (raw_fields ty) then Harness_raised
          else (case buildRoleHarness p ty of None \<Rightarrow> No_harness | Some h \<Rightarrow> Resolved h Role_fallback)
      | r \<Rightarrow> r)"

definition executable_langs :: "contract_field list \<Rightarrow> string list" where
  "executable_langs fs =
     filter (\<lambda>l. l \<noteq> []) (map (\<lambda>f. js_lower (js_trim (case cf_lang f of Some l \<Rightarrow> l | None \<Rightarrow> [])))
       (filter (\<lambda>f. cf_role f \<in> {Some ''input_code'', Some ''solution_code'', Some ''tests''}) fs))"

definition supportsNodeHarness :: "type_contract \<Rightarrow> bool" where
  "supportsNodeHarness ty \<longleftrightarrow>
     has_word ''node'' (js_lower (executionEnvOf ty)) \<and> executable_langs (fieldsOf ty) \<noteq> []
     \<and> set (executable_langs (fieldsOf ty)) \<subseteq> set NODE_LANGS"

definition supportsPythonHarness :: "type_contract \<Rightarrow> bool" where
  "supportsPythonHarness ty \<longleftrightarrow>
     has_word ''python'' (js_lower (executionEnvOf ty)) \<and> executable_langs (fieldsOf ty) \<noteq> []
     \<and> set (executable_langs (fieldsOf ty)) \<subseteq> set PYTHON_LANGS"


section \<open>Languages\<close>

datatype language = L_python | L_javascript | L_typescript | L_java | L_go | L_rust | L_cpp | L_c | L_ruby | L_php | L_csharp

definition ALIASES :: "(string \<times> language) list" where
  "ALIASES =
     [(''py'', L_python), (''python'', L_python), (''python3'', L_python),
      (''js'', L_javascript), (''javascript'', L_javascript), (''node'', L_javascript), (''jsx'', L_javascript),
      (''ts'', L_typescript), (''typescript'', L_typescript), (''tsx'', L_typescript),
      (''java'', L_java), (''go'', L_go), (''golang'', L_go), (''rust'', L_rust), (''rs'', L_rust),
      (''c++'', L_cpp), (''cpp'', L_cpp), (''cxx'', L_cpp), (''c'', L_c), (''ruby'', L_ruby), (''rb'', L_ruby),
      (''php'', L_php), (''c#'', L_csharp), (''csharp'', L_csharp), (''cs'', L_csharp)]"

primrec LANGUAGE_LABELS :: "language \<Rightarrow> string" where
  "LANGUAGE_LABELS L_python = ''Python''"
| "LANGUAGE_LABELS L_javascript = ''JavaScript''"
| "LANGUAGE_LABELS L_typescript = ''TypeScript''"
| "LANGUAGE_LABELS L_java = ''Java''"
| "LANGUAGE_LABELS L_go = ''Go''"
| "LANGUAGE_LABELS L_rust = ''Rust''"
| "LANGUAGE_LABELS L_cpp = ''C++''"
| "LANGUAGE_LABELS L_c = ''C''"
| "LANGUAGE_LABELS L_ruby = ''Ruby''"
| "LANGUAGE_LABELS L_php = ''PHP''"
| "LANGUAGE_LABELS L_csharp = ''C#''"

primrec LANGUAGE_RUNTIMES :: "language \<Rightarrow> string list" where
  "LANGUAGE_RUNTIMES L_python = [''python3'']"
| "LANGUAGE_RUNTIMES L_javascript = [''node'']"
| "LANGUAGE_RUNTIMES L_typescript = [''node'']"
| "LANGUAGE_RUNTIMES L_java = [''javac'', ''java'']"
| "LANGUAGE_RUNTIMES L_go = [''go'']"
| "LANGUAGE_RUNTIMES L_rust = [''rustc'']"
| "LANGUAGE_RUNTIMES L_cpp = [''g++'']"
| "LANGUAGE_RUNTIMES L_c = [''gcc'']"
| "LANGUAGE_RUNTIMES L_ruby = [''ruby'']"
| "LANGUAGE_RUNTIMES L_php = [''php'']"
| "LANGUAGE_RUNTIMES L_csharp = [''mcs'', ''mono'']"

definition normalizeLanguage :: "string \<Rightarrow> language option" where
  "normalizeLanguage raw = map_of ALIASES (js_lower (js_trim raw))"

definition CATEGORY_LANGUAGE_LABELS :: "(string \<times> string) list" where
  "CATEGORY_LANGUAGE_LABELS =
     [(''sh'', ''Bash''), (''bash'', ''Bash''), (''shell'', ''Bash''), (''sql'', ''SQL''), (''regex'', ''Regex''), (''graphql'', ''GraphQL'')]"

definition languageLabel :: "string \<Rightarrow> string" where
  "languageLabel raw =
     (case normalizeLanguage raw of
        Some l \<Rightarrow> LANGUAGE_LABELS l
      | None \<Rightarrow> (case map_of CATEGORY_LANGUAGE_LABELS (js_lower (js_trim raw)) of Some x \<Rightarrow> x | None \<Rightarrow> js_trim raw))"

text \<open>What a configured provider says it can run.\<close>

record capability =
  cp_binaries :: "string list"
  cp_usable :: bool

record verdict_for =
  rv_verified :: bool
  rv_missing :: "string list"
  rv_unknown :: bool

text \<open>The loop: \<open>closest\<close> is the smallest gap so far, \<open>None\<close> while nobody could answer.\<close>

fun runtime_loop :: "string list \<Rightarrow> capability option list \<Rightarrow> string list option \<Rightarrow> verdict_for" where
  "runtime_loop required [] closest =
     (case closest of
        None \<Rightarrow> \<lparr>rv_verified = False, rv_missing = [], rv_unknown = True\<rparr>
      | Some gap \<Rightarrow> \<lparr>rv_verified = False, rv_missing = gap, rv_unknown = False\<rparr>)"
| "runtime_loop required (None # ps) closest = runtime_loop required ps closest"
| "runtime_loop required (Some c # ps) closest =
     (if \<not> cp_usable c then runtime_loop required ps closest
      else let missing = filter (\<lambda>b. b \<notin> set (cp_binaries c)) required
           in if missing = [] then \<lparr>rv_verified = True, rv_missing = [], rv_unknown = False\<rparr>
              else runtime_loop required ps
                     (case closest of
                        None \<Rightarrow> Some missing
                      | Some gap \<Rightarrow> if length missing < length gap then Some missing else Some gap))"

definition runtimeVerdictFor :: "capability option list \<Rightarrow> language \<Rightarrow> verdict_for" where
  "runtimeVerdictFor ps l = runtime_loop (LANGUAGE_RUNTIMES l) ps None"

record declared_field =
  df_key :: "string option"
  df_role :: "string option"
  df_lang :: "string option"
  df_options :: "string list option"

definition declared_field :: "json \<Rightarrow> declared_field" where
  "declared_field f =
     \<lparr>df_key = text_of (jget f ''key''), df_role = text_of (jget f ''role''), df_lang = text_of (jget f ''lang''),
      df_options = (case jget f ''options'' of Some (JArr xs) \<Rightarrow> Some (List.map_filter (\<lambda>x. text_of (Some x)) xs) | _ \<Rightarrow> None)\<rparr>"

definition is_object :: "json \<Rightarrow> bool" where
  "is_object f \<longleftrightarrow> (case f of JObj kvs \<Rightarrow> True | _ \<Rightarrow> False)"

definition language_fields :: "type_contract \<Rightarrow> declared_field list" where
  "language_fields ty = map declared_field (filter is_object (raw_fields ty))"

definition LANGUAGE_FIELD_KEYS :: "string list" where "LANGUAGE_FIELD_KEYS = [''language'', ''source_language'', ''target_language'']"
definition EXECUTABLE_ROLES :: "string list" where "EXECUTABLE_ROLES = [''input_code'', ''solution_code'', ''tests'']"

definition has_exec_role :: "declared_field \<Rightarrow> bool" where
  "has_exec_role f \<longleftrightarrow> (case df_role f of Some r \<Rightarrow> r \<in> set EXECUTABLE_ROLES | None \<Rightarrow> False)"

text \<open>Two spellings of one language are one.\<close>

definition identity_of :: "string \<Rightarrow> language + string" where
  "identity_of v = (case normalizeLanguage v of Some l \<Rightarrow> Inl l | None \<Rightarrow> Inr (js_lower (js_trim v)))"

fun first_spellings :: "(language + string) list \<Rightarrow> string list \<Rightarrow> string list" where
  "first_spellings seen [] = []"
| "first_spellings seen (v # vs) =
     (if identity_of v = Inr [] \<or> identity_of v \<in> set seen then first_spellings seen vs
      else v # first_spellings (identity_of v # seen) vs)"

definition declaredLanguages :: "type_contract \<Rightarrow> string list" where
  "declaredLanguages ty =
     (let fs = language_fields ty
      in first_spellings []
           (concat (map (\<lambda>f. if (case df_key f of Some k \<Rightarrow> k \<in> set LANGUAGE_FIELD_KEYS | None \<Rightarrow> False) then or_nil (df_options f) else []) fs)
            @ concat (map (\<lambda>f. if has_exec_role f \<and> (case df_lang f of Some l \<Rightarrow> js_trim l \<noteq> [] | None \<Rightarrow> False)
                                then [js_trim (the (df_lang f))] else []) fs)))"

datatype support_status = Verified_language | Unverifiable_unknown | Unverifiable_missing "string list"

record supported_language =
  sl_id :: "language + string"
  sl_label :: string
  sl_status :: support_status

definition supported_language :: "capability option list \<Rightarrow> string \<Rightarrow> supported_language" where
  "supported_language ps v =
     \<lparr>sl_id = identity_of v, sl_label = languageLabel v,
      sl_status = (case normalizeLanguage v of
                     None \<Rightarrow> Verified_language
                   | Some l \<Rightarrow> (let r = runtimeVerdictFor ps l
                                in if rv_verified r then Verified_language
                                   else if rv_unknown r then Unverifiable_unknown else Unverifiable_missing (rv_missing r)))\<rparr>"

datatype support_mode = Fixed_language | Language_choice | Any_language | No_language

definition languageSupportFor :: "capability option list \<Rightarrow> type_contract \<Rightarrow> support_mode \<times> supported_language list" where
  "languageSupportFor ps ty =
     (let ls = declaredLanguages ty
      in if ls = [] then (if list_ex has_exec_role (language_fields ty) then Any_language else No_language, [])
         else (if length ls = 1 then Fixed_language else Language_choice, map (supported_language ps) ls))"

text \<open>A provider that answers, and what it lacks.\<close>

definition lacks :: "string list \<Rightarrow> capability \<Rightarrow> string list" where
  "lacks required c = filter (\<lambda>b. b \<notin> set (cp_binaries c)) required"

definition voters :: "capability option list \<Rightarrow> capability list" where
  "voters ps = filter cp_usable (List.map_filter (\<lambda>p. p) ps)"

lemma voters_simps [simp]:
  "voters [] = []" "voters (None # ps) = voters ps"
  "voters (Some c # ps) = (if cp_usable c then c # voters ps else voters ps)"
  by (simp_all add: voters_def map_filter_simps)

definition gap_spec :: "string list \<Rightarrow> capability list \<Rightarrow> string list option \<Rightarrow> verdict_for \<Rightarrow> bool" where
  "gap_spec required cs closest r \<longleftrightarrow>
     (rv_verified r \<longleftrightarrow> (\<exists>c \<in> set cs. lacks required c = []))
     \<and> (rv_unknown r \<longleftrightarrow> cs = [] \<and> closest = None)
     \<and> (\<not> rv_verified r \<and> \<not> rv_unknown r \<longrightarrow>
          (closest = Some (rv_missing r) \<or> rv_missing r \<in> lacks required ` set cs)
          \<and> (\<forall>c \<in> set cs. length (rv_missing r) \<le> length (lacks required c))
          \<and> (\<forall>g. closest = Some g \<longrightarrow> length (rv_missing r) \<le> length g))"

definition nearer :: "string list \<Rightarrow> string list option \<Rightarrow> string list" where
  "nearer m closest = (case closest of None \<Rightarrow> m | Some gap \<Rightarrow> if length m < length gap then m else gap)"

lemma gap_spec_closer:
  assumes "gap_spec required cs (Some (nearer (lacks required c) closest)) r" and "lacks required c \<noteq> []"
  shows "gap_spec required (c # cs) closest r"
proof -
  let ?m = "lacks required c"
  have n: "nearer ?m closest = ?m \<or> closest = Some (nearer ?m closest)" "length (nearer ?m closest) \<le> length ?m"
    "\<And>g. closest = Some g \<Longrightarrow> length (nearer ?m closest) \<le> length g"
    by (auto simp: nearer_def split: option.splits)
  let ?g = "nearer ?m closest"
  have v: "rv_verified r \<longleftrightarrow> (\<exists>x \<in> set cs. lacks required x = [])" and k: "\<not> rv_unknown r"
    and r: "\<not> rv_verified r \<Longrightarrow> (?g = rv_missing r \<or> rv_missing r \<in> lacks required ` set cs)
      \<and> (\<forall>x \<in> set cs. length (rv_missing r) \<le> length (lacks required x)) \<and> length (rv_missing r) \<le> length ?g"
    using assms(1) unfolding gap_spec_def by blast+
  have "closest = Some (rv_missing r) \<or> rv_missing r \<in> lacks required ` set (c # cs)" if "\<not> rv_verified r"
    using r [OF that] n(1) by auto
  moreover have "\<forall>x \<in> set (c # cs). length (rv_missing r) \<le> length (lacks required x)" if "\<not> rv_verified r"
    using r [OF that] n(2) by simp
  moreover have "\<forall>g. closest = Some g \<longrightarrow> length (rv_missing r) \<le> length g" if "\<not> rv_verified r"
    using r [OF that] n(3) le_trans by blast
  ultimately show ?thesis using v k assms(2) unfolding gap_spec_def by simp
qed

lemma runtime_loop_spec: "gap_spec required (voters ps) closest (runtime_loop required ps closest)"
proof (induction required ps closest rule: runtime_loop.induct)
  case (1 required closest)
  then show ?case by (cases closest) (simp_all add: gap_spec_def)
next
  case (2 required ps closest)
  then show ?case by simp
next
  case (3 required c ps closest)
  have m: "filter (\<lambda>b. b \<notin> set (cp_binaries c)) required = lacks required c" by (simp add: lacks_def)
  have k: "(case closest of None \<Rightarrow> Some x | Some gap \<Rightarrow> if length x < length gap then Some x else Some gap) = Some (nearer x closest)" for x :: "string list"
    by (simp add: nearer_def split: option.split)
  show ?case
  proof (cases "cp_usable c")
    case False
    have "runtime_loop required (Some c # ps) closest = runtime_loop required ps closest" using False by simp
    then show ?thesis using 3(1) False by (simp only: voters_simps if_False) simp
  next
    case True
    note u = this
    show ?thesis
    proof (cases "lacks required c = []")
      case True
      with u show ?thesis by (simp add: gap_spec_def m)
    next
      case False
      have "runtime_loop required (Some c # ps) closest = runtime_loop required ps (Some (nearer (lacks required c) closest))"
        using u False by (simp add: m k)
      moreover have "gap_spec required (voters ps) (Some (nearer (lacks required c) closest))
          (runtime_loop required ps (Some (nearer (lacks required c) closest)))"
        using 3(2) [OF _ refl] u False unfolding m k by simp
      ultimately show ?thesis using gap_spec_closer [OF _ False] u by simp
    qed
  qed
qed

text \<open>C40: a declared language is called unverifiable only on evidence: it is one the polyglot runner dispatches
  and no provider that can answer has all its binaries. The gap then named is what some provider lacks, and
  no provider lacks less; where no provider can answer at all, the reason is that, not a missing binary.\<close>

theorem unverifiable_only_on_evidence:
  "(sl_status (supported_language ps v) = Verified_language
     \<longleftrightarrow> (\<forall>l. normalizeLanguage v = Some l \<longrightarrow> (\<exists>c \<in> set (voters ps). set (LANGUAGE_RUNTIMES l) \<subseteq> set (cp_binaries c))))
   \<and> (\<forall>gap. sl_status (supported_language ps v) = Unverifiable_missing gap \<longrightarrow>
        (\<exists>l. normalizeLanguage v = Some l \<and> gap \<in> lacks (LANGUAGE_RUNTIMES l) ` set (voters ps) \<and> gap \<noteq> []
           \<and> (\<forall>c \<in> set (voters ps). length gap \<le> length (lacks (LANGUAGE_RUNTIMES l) c))))
   \<and> (sl_status (supported_language ps v) = Unverifiable_unknown \<longrightarrow> voters ps = [])"
proof (cases "normalizeLanguage v")
  case None
  then show ?thesis by (simp add: supported_language_def)
next
  case (Some l)
  define r where "r = runtimeVerdictFor ps l"
  have has: "lacks (LANGUAGE_RUNTIMES l) c = [] \<longleftrightarrow> set (LANGUAGE_RUNTIMES l) \<subseteq> set (cp_binaries c)" for c
    by (auto simp: lacks_def filter_empty_conv)
  have spec: "(rv_verified r \<longleftrightarrow> (\<exists>c \<in> set (voters ps). lacks (LANGUAGE_RUNTIMES l) c = []))
      \<and> (rv_unknown r \<longleftrightarrow> voters ps = [])
      \<and> (\<not> rv_verified r \<and> \<not> rv_unknown r \<longrightarrow> rv_missing r \<in> lacks (LANGUAGE_RUNTIMES l) ` set (voters ps)
           \<and> (\<forall>c \<in> set (voters ps). length (rv_missing r) \<le> length (lacks (LANGUAGE_RUNTIMES l) c)))"
    using runtime_loop_spec [of "LANGUAGE_RUNTIMES l" ps None] by (simp add: gap_spec_def r_def runtimeVerdictFor_def)
  have st: "sl_status (supported_language ps v) = (if rv_verified r then Verified_language
      else if rv_unknown r then Unverifiable_unknown else Unverifiable_missing (rv_missing r))"
    using Some by (simp add: supported_language_def r_def Let_def)
  show ?thesis
  proof (cases "rv_verified r")
    case True
    then show ?thesis using spec Some by (auto simp: st has)
  next
    case False
    note nv = this
    show ?thesis
    proof (cases "rv_unknown r")
      case True
      then show ?thesis using spec Some nv by (simp add: st)
    next
      case False
      then obtain c where c: "c \<in> set (voters ps)" "rv_missing r = lacks (LANGUAGE_RUNTIMES l) c" using spec nv by auto
      have "rv_missing r \<noteq> []" using spec nv c by auto
      then show ?thesis using spec Some nv False has by (auto simp: st)
    qed
  qed
qed

theorem unverifiable_only_on_evidence_witness:
  "\<exists>l. normalizeLanguage ''Java'' = Some l
     \<and> [''javac'', ''java''] \<in> lacks (LANGUAGE_RUNTIMES l) ` set (voters [Some \<lparr>cp_binaries = [''node''], cp_usable = True\<rparr>])"
proof -
  have "sl_status (supported_language [Some \<lparr>cp_binaries = [''node''], cp_usable = True\<rparr>] ''Java'') = Unverifiable_missing [''javac'', ''java'']"
    by code_simp
  with unverifiable_only_on_evidence [of "[Some \<lparr>cp_binaries = [''node''], cp_usable = True\<rparr>]" "''Java''"] show ?thesis by auto
qed

text \<open>The languages offered name no language twice.\<close>

lemma first_spellings_distinct:
  "distinct (map identity_of (first_spellings seen vs)) \<and> set (map identity_of (first_spellings seen vs)) \<inter> set seen = {}"
proof (induction seen vs rule: first_spellings.induct)
  case (2 seen v vs)
  show ?case
  proof (cases "identity_of v = Inr [] \<or> identity_of v \<in> set seen")
    case True
    then have "first_spellings seen (v # vs) = first_spellings seen vs" by simp
    then show ?thesis using 2(1) [OF True] by (simp only:)
  next
    case False
    let ?ys = "map identity_of (first_spellings (identity_of v # seen) vs)"
    have e: "map identity_of (first_spellings seen (v # vs)) = identity_of v # ?ys" using False by simp
    have "distinct ?ys \<and> set ?ys \<inter> set (identity_of v # seen) = {}" using 2(2) [OF False] .
    then have "distinct ?ys" "identity_of v \<notin> set ?ys" "set ?ys \<inter> set seen = {}" by auto
    then show ?thesis unfolding e using False by simp
  qed
qed simp

lemma languages_distinct: "distinct (map sl_id (snd (languageSupportFor ps ty)))"
proof -
  have m: "map (sl_id \<circ> supported_language ps) ls = map identity_of ls" for ls
    by (induction ls) (simp_all add: supported_language_def)
  have "distinct (map identity_of (declaredLanguages ty))"
    using first_spellings_distinct unfolding declaredLanguages_def Let_def by blast
  then show ?thesis unfolding languageSupportFor_def Let_def by (simp add: m del: map_eq_conv distinct_map)
qed

section \<open>The configured order\<close>

text \<open>\<open>known\<close> are the registered providers. The order is refused when it names another or one twice.\<close>

datatype order_error = Unknown_providers "string list" | Listed_twice string

definition configuredProviderOrder :: "string list \<Rightarrow> string option \<Rightarrow> order_error + string list" where
  "configuredProviderOrder known raw =
     (let order = filter (\<lambda>s. s \<noteq> []) (map js_trim (split_char (CHR '','') (case raw of Some r \<Rightarrow> r | None \<Rightarrow> ''e2b'')));
          strangers = filter (\<lambda>s. s \<notin> set known) order
      in if strangers \<noteq> [] then Inl (Unknown_providers strangers)
         else case find_where (\<lambda>i. order ! i \<in> set (take i order)) [0..<length order] of
                Some i \<Rightarrow> Inl (Listed_twice (order ! i))
              | None \<Rightarrow> Inr order)"

lemma first_repeat: "find_where (\<lambda>i. xs ! i \<in> set (take i xs)) [0..<length xs] = None \<Longrightarrow> distinct xs"
proof -
  assume n: "find_where (\<lambda>i. xs ! i \<in> set (take i xs)) [0..<length xs] = None"
  have "xs ! j \<noteq> xs ! i" if "j < i" "i < length xs" for i j
  proof
    assume e: "xs ! j = xs ! i"
    have "take i xs ! j \<in> set (take i xs)" using that by (intro nth_mem) simp
    then have "xs ! i \<in> set (take i xs)" using that e by simp
    with n that show False by (auto simp: find_where_None_iff)
  qed
  then show "distinct xs" unfolding distinct_conv_nth by (metis nat_neq_iff)
qed

lemma configured_order_ok:
  assumes "configuredProviderOrder known raw = Inr order"
  shows "distinct order \<and> set order \<subseteq> set known \<and> [] \<notin> set order"
proof -
  define xs where "xs = filter (\<lambda>s. s \<noteq> []) (map js_trim (split_char (CHR '','') (case raw of Some r \<Rightarrow> r | None \<Rightarrow> ''e2b'')))"
  have u: "configuredProviderOrder known raw =
      (if filter (\<lambda>s. s \<notin> set known) xs \<noteq> [] then Inl (Unknown_providers (filter (\<lambda>s. s \<notin> set known) xs))
       else case find_where (\<lambda>i. xs ! i \<in> set (take i xs)) [0..<length xs] of Some i \<Rightarrow> Inl (Listed_twice (xs ! i)) | None \<Rightarrow> Inr xs)"
    unfolding configuredProviderOrder_def xs_def Let_def by (rule refl)
  have k: "filter (\<lambda>s. s \<notin> set known) xs = []" using assms unfolding u by (cases "filter (\<lambda>s. s \<notin> set known) xs = []") simp_all
  have f: "find_where (\<lambda>i. xs ! i \<in> set (take i xs)) [0..<length xs] = None \<and> order = xs"
    using assms k unfolding u by (cases "find_where (\<lambda>i. xs ! i \<in> set (take i xs)) [0..<length xs]") simp_all
  have "distinct xs" using f by (intro first_repeat) simp
  moreover have "set xs \<subseteq> set known" using k by (auto simp: filter_empty_conv)
  moreover have "[] \<notin> set xs" by (simp add: xs_def)
  ultimately show ?thesis using f by simp
qed

end
