(* ===== verification/Execution.thy ===== *)
theory Execution
  imports Harness
begin

text \<open>
  The execution stage (\<open>services/execution-providers/service.ts\<close>, \<open>contract.ts\<close>, \<open>verdict-parse.ts\<close>): the
  verdict line of a run, the contract it must meet, and the chain of providers. A provider is any function
  from a script, a budget and the permission to use the network to an error or a result; the sandbox of
  theory \<open>Sandbox\<close> is one. \<open>JSON.parse\<close> and the redaction of logs are parameters.
\<close>

section \<open>Verdict line\<close>

text \<open>A text read as JSON; \<open>None\<close> is the exception.\<close>

type_synonym json_reader = "string \<Rightarrow> json option"

definition verdict_of_line :: "json_reader \<Rightarrow> string \<Rightarrow> json option" where
  "verdict_of_line rd line =
     (case rd line of Some (JObj kvs) \<Rightarrow> if map_of kvs ''passed'' \<noteq> None then Some (JObj kvs) else None | _ \<Rightarrow> None)"

definition tamperedVerdict :: "nat \<Rightarrow> json" where
  "tamperedVerdict n =
     JObj [(''passed'', JBool False), (''score'', JNull),
           (''logs'', JStr (''sandbox stdout carried '' @ show_nat n
              @ '' verdict lines; every harness emits exactly one, so the extra line(s) were appended after the run'')),
           (''detail'', JObj [(''harnessFault'', JBool True), (''reason'', JStr ''multiple_verdict_lines''), (''verdictLineCount'', JNum (real n))])]"

definition verdict_lines :: "json_reader \<Rightarrow> string \<Rightarrow> json list" where
  "verdict_lines rd out = List.map_filter (verdict_of_line rd) (filter (\<lambda>l. l \<noteq> []) (split_char NL (js_trim out)))"

definition parseVerdictLine :: "json_reader \<Rightarrow> string \<Rightarrow> json option" where
  "parseVerdictLine rd out =
     (case verdict_lines rd out of [] \<Rightarrow> None | [v] \<Rightarrow> Some v | vs \<Rightarrow> Some (tamperedVerdict (length vs)))"

section \<open>Contract\<close>

fun js_truthy :: "json option \<Rightarrow> bool" where
  "js_truthy None = False"
| "js_truthy (Some JNull) = False"
| "js_truthy (Some (JBool b)) = b"
| "js_truthy (Some (JNum x)) = (x \<noteq> 0)"
| "js_truthy (Some (JStr s)) = (s \<noteq> [])"
| "js_truthy (Some (JArr xs)) = True"
| "js_truthy (Some (JObj kvs)) = True"

text \<open>\<open>some\<close> over the fields stops at the first hit and raises at a \<open>null\<close> before it.\<close>

fun expects_broken :: "json list \<Rightarrow> bool option" where
  "expects_broken [] = Some False"
| "expects_broken (f # fs) =
     (if f = JNull then None
      else case jget f ''key'' of
             Some (JStr k) \<Rightarrow> if k \<in> set BROKEN_VARIANT_KEYS then Some True else expects_broken fs
           | _ \<Rightarrow> expects_broken fs)"

text \<open>The answer is whatever \<open>runnerPassed && \<dots>\<close> yields: a falsy \<open>passed\<close> is passed on as it is.\<close>

definition executionContractPassed :: "json \<Rightarrow> json option \<Rightarrow> bool \<Rightarrow> json" where
  "executionContractPassed passed broken expects =
     (if expects \<and> broken = None then JNull
      else if \<not> js_truthy (Some passed) then passed
      else JBool (\<not> expects \<or> broken = Some (JBool True)))"

section \<open>Outcome\<close>

datatype attempt_error =
    AE_not_configured
  | AE_unparseable
  | AE_harness_fault string
  | AE_runtime_unavailable string
  | AE_fixed_unverifiable
  | AE_no_broken_assertion
  | AE_sandbox sandbox_error

record attempt =
  at_provider :: string
  at_retryable :: "bool option"
  at_error :: attempt_error
  at_duration :: "int option"

datatype detail_value = DV json | DV_attempts "attempt list" | DV_names "string list" | DV_isolation "isolation option"

record outcome =
  ou_passed :: json
  ou_score :: json
  ou_verified :: bool
  ou_provider :: string
  ou_duration :: int
  ou_detail :: "(string \<times> detail_value) list"

datatype execution_end = Done outcome | Pending pending_reason "attempt list" | Raised_early

record sandbox_provider =
  pv_name :: string
  pv_configured :: bool
  pv_run :: "harness_script \<Rightarrow> real \<Rightarrow> bool \<Rightarrow> sandbox_error + run_result"
  pv_took :: int

definition worseHold :: "pending_reason option \<Rightarrow> pending_reason \<Rightarrow> pending_reason" where
  "worseHold cur nxt =
     (if cur = Some Execution_unverifiable \<or> nxt = Execution_unverifiable then Execution_unverifiable else Runtime_unavailable)"

text \<open>Spreading a JSON value into an object.\<close>

definition spread :: "json option \<Rightarrow> (string \<times> detail_value) list" where
  "spread d =
     (case d of
        Some (JObj kvs) \<Rightarrow> map (\<lambda>p. (fst p, DV (snd p))) kvs
      | Some (JArr xs) \<Rightarrow> map (\<lambda>p. (show_nat (fst p), DV (snd p))) (enumerate 0 xs)
      | Some (JStr s) \<Rightarrow> map (\<lambda>p. (show_nat (fst p), DV (JStr [snd p]))) (enumerate 0 s)
      | _ \<Rightarrow> [])"

definition put_all :: "(string \<times> detail_value) list \<Rightarrow> (string \<times> detail_value) list \<Rightarrow> (string \<times> detail_value) list" where
  "put_all kvs base = fold (\<lambda>p. js_put (fst p) (snd p)) kvs base"

definition or_null :: "json option \<Rightarrow> json" where
  "or_null x = (case x of Some v \<Rightarrow> v | None \<Rightarrow> JNull)"

definition nullish :: "json option \<Rightarrow> bool" where
  "nullish x \<longleftrightarrow> x = None \<or> x = Some JNull"

definition provenance_name :: "provenance \<Rightarrow> string" where
  "provenance_name p = (case p of From_registry \<Rightarrow> ''registry'' | Role_fallback \<Rightarrow> ''role_fallback'')"

definition nonempty_list :: "json option \<Rightarrow> bool" where
  "nonempty_list x = (case x of Some (JArr xs) \<Rightarrow> xs \<noteq> [] | Some (JStr s) \<Rightarrow> s \<noteq> [] | Some (JObj kvs) \<Rightarrow> js_truthy (map_of kvs ''length'') | _ \<Rightarrow> False)"

definition trusted_detail :: "(json option \<Rightarrow> string) \<Rightarrow> sandbox_provider \<Rightarrow> provenance \<Rightarrow> run_result \<Rightarrow> attempt list \<Rightarrow> json \<Rightarrow> (string \<times> detail_value) list" where
  "trusted_detail redact p pr raw attempts v =
     [(''status'', DV (JStr ''runner_completed'')), (''provider'', DV (JStr (pv_name p))),
      (''harnessSource'', DV (JStr (provenance_name pr))), (''isolation'', DV_isolation (ru_isolation raw)),
      (''durationMs'', DV (JNum (real_of_int (pv_took p))))]
     @ (if attempts \<noteq> [] then [(''attempts'', DV_attempts attempts), (''fallbackFrom'', DV_names (map at_provider attempts))] else [])
     @ [(''testsRun'', DV (if nullish (jget v ''testsRun'') then JNum 0 else or_null (jget v ''testsRun''))),
        (''brokenCodeFailedTests'', DV (or_null (jget v ''brokenCodeFailedTests''))),
        (''fixedCodePassedTests'', DV (or_null (jget v ''passed'')))]
     @ (if nonempty_list (jget v ''unverifiable'') then [(''unverifiable'', DV (or_null (jget v ''unverifiable'')))] else [])
     @ [(''logs'', DV (JStr (redact (jget v ''logs''))))]"

definition outcome_of :: "(json option \<Rightarrow> string) \<Rightarrow> sandbox_provider \<Rightarrow> provenance \<Rightarrow> run_result \<Rightarrow> attempt list \<Rightarrow> json \<Rightarrow> json \<Rightarrow> outcome" where
  "outcome_of redact p pr raw attempts v passed =
     \<lparr>ou_passed = passed,
      ou_score = (if nullish (jget v ''score'') then JNum (if js_truthy (Some passed) then 1 else 0) else or_null (jget v ''score'')),
      ou_verified = (case ru_isolation raw of Some i \<Rightarrow> is_verified i | None \<Rightarrow> False),
      ou_provider = pv_name p, ou_duration = pv_took p,
      ou_detail = put_all (trusted_detail redact p pr raw attempts v) (spread (jget v ''detail''))\<rparr>"

section \<open>The chain\<close>

text \<open>What one provider contributes: a verdict, or why there is none, with the hold it suggests.\<close>

datatype step_result = Verdict run_result json json | No_verdict "bool option" attempt_error "pending_reason option"

definition detail_flag :: "json \<Rightarrow> string \<Rightarrow> bool" where
  "detail_flag v k \<longleftrightarrow> Option.bind (jget v ''detail'') (\<lambda>d. jget d k) = Some (JBool True)"

definition contract_step :: "json list \<Rightarrow> run_result \<Rightarrow> json \<Rightarrow> step_result" where
  "contract_step fs raw v =
     (case expects_broken fs of
        None \<Rightarrow> No_verdict (Some True) (AE_sandbox (SE_thrown ''TypeError'')) None
      | Some expects \<Rightarrow>
          (let c = executionContractPassed (or_null (jget v ''passed'')) (jget v ''brokenCodeFailedTests'') expects
           in if c = JNull then No_verdict (Some False) AE_no_broken_assertion None else Verdict raw v c))"

definition provider_step :: "json_reader \<Rightarrow> (json option \<Rightarrow> string) \<Rightarrow> json list \<Rightarrow> harness_script \<Rightarrow> real \<Rightarrow> bool \<Rightarrow> sandbox_provider \<Rightarrow> step_result" where
  "provider_step rd redact fs script timeout net p =
     (if \<not> pv_configured p then No_verdict None AE_not_configured None
      else case pv_run p script timeout net of
             Inl e \<Rightarrow> No_verdict (Some (se_retryable e)) (AE_sandbox e) None
           | Inr raw \<Rightarrow>
               (case parseVerdictLine rd (ru_stdout raw) of
                  None \<Rightarrow> No_verdict (Some False) AE_unparseable None
                | Some v \<Rightarrow>
                    if detail_flag v ''harnessFault''
                    then No_verdict (Some False) (AE_harness_fault (take 200 (redact (jget v ''logs'')))) None
                    else if js_truthy (jget v ''runtimeUnavailable'')
                    then No_verdict (Some False) (AE_runtime_unavailable (take 120 (redact (jget v ''logs'')))) (Some Runtime_unavailable)
                    else if detail_flag v ''fixedRunUnverifiable''
                    then No_verdict (Some False) AE_fixed_unverifiable (Some Execution_unverifiable)
                    else contract_step fs raw v))"

definition attempt_of :: "sandbox_provider \<Rightarrow> bool option \<Rightarrow> attempt_error \<Rightarrow> attempt" where
  "attempt_of p rt e =
     \<lparr>at_provider = pv_name p, at_retryable = rt, at_error = e, at_duration = (if e = AE_not_configured then None else Some (pv_took p))\<rparr>"

fun provider_loop ::
  "json_reader \<Rightarrow> (json option \<Rightarrow> string) \<Rightarrow> json list \<Rightarrow> harness_script \<Rightarrow> provenance \<Rightarrow> real \<Rightarrow> bool \<Rightarrow> sandbox_provider list
     \<Rightarrow> attempt list \<Rightarrow> pending_reason option \<Rightarrow> outcome + (attempt list \<times> pending_reason option)" where
  "provider_loop rd redact fs script pr timeout net [] attempts hold = Inr (attempts, hold)"
| "provider_loop rd redact fs script pr timeout net (p # ps) attempts hold =
     (case provider_step rd redact fs script timeout net p of
        Verdict raw v c \<Rightarrow> Inl (outcome_of redact p pr raw attempts v c)
      | No_verdict rt e h \<Rightarrow>
          provider_loop rd redact fs script pr timeout net ps (attempts @ [attempt_of p rt e])
            (case h of None \<Rightarrow> hold | Some x \<Rightarrow> Some (worseHold hold x)))"

definition allowNetwork :: "registry \<Rightarrow> type_contract \<Rightarrow> provenance \<Rightarrow> bool" where
  "allowNetwork rg ty pr \<longleftrightarrow> pr = From_registry \<and> categoryAllowsNetworkEgress (rg_categories rg) (tc_id ty)"

definition runExecution ::
  "json_reader \<Rightarrow> (json option \<Rightarrow> string) \<Rightarrow> registry \<Rightarrow> real \<Rightarrow> sandbox_provider list \<Rightarrow> type_contract \<Rightarrow> payload \<Rightarrow> execution_end" where
  "runExecution rd redact rg timeout providers ty payload =
     (case resolveHarness rg payload ty of
        Harness_raised \<Rightarrow> Raised_early
      | No_harness \<Rightarrow> Pending No_executable_harness []
      | Resolved script pr \<Rightarrow>
          (case provider_loop rd redact (raw_fields ty) script pr timeout (allowNetwork rg ty pr) providers [] None of
             Inl x \<Rightarrow> Done x
           | Inr (attempts, Some h) \<Rightarrow> Pending h attempts
           | Inr (attempts, None) \<Rightarrow>
               Pending (if list_ex pv_configured providers then All_providers_failed else No_provider_configured) attempts))"

text \<open>The sandbox as a provider; \<open>render\<close> is the text of a script.\<close>

definition e2bSandboxProvider :: "sandbox_config \<Rightarrow> sandbox_host \<Rightarrow> (harness_script \<Rightarrow> string) \<Rightarrow> int \<Rightarrow> sandbox_provider" where
  "e2bSandboxProvider c h render took =
     \<lparr>pv_name = ''e2b'', pv_configured = isConfigured c, pv_run = (\<lambda>s t net. fst (runScript c h (render s) t net)), pv_took = took\<rparr>"

text \<open>What validation takes from it.\<close>

definition execution_result :: "execution_end \<Rightarrow> execution option" where
  "execution_result e =
     (case e of
        Done x \<Rightarrow> Some (Exec_done (js_truthy (Some (ou_passed x))) (case ou_score x of JNum n \<Rightarrow> Some n | _ \<Rightarrow> None))
      | Pending r as \<Rightarrow> Some (Exec_pending r)
      | Raised_early \<Rightarrow> None)"


section \<open>Where a verdict comes from\<close>

definition concludes :: "json_reader \<Rightarrow> (json option \<Rightarrow> string) \<Rightarrow> json list \<Rightarrow> harness_script \<Rightarrow> real \<Rightarrow> bool \<Rightarrow> sandbox_provider \<Rightarrow> bool" where
  "concludes rd redact fs script timeout net p \<longleftrightarrow>
     (case provider_step rd redact fs script timeout net p of Verdict raw v c \<Rightarrow> True | _ \<Rightarrow> False)"

definition attempt_at :: "json_reader \<Rightarrow> (json option \<Rightarrow> string) \<Rightarrow> json list \<Rightarrow> harness_script \<Rightarrow> real \<Rightarrow> bool \<Rightarrow> sandbox_provider \<Rightarrow> attempt" where
  "attempt_at rd redact fs script timeout net p =
     (case provider_step rd redact fs script timeout net p of
        No_verdict rt e h \<Rightarrow> attempt_of p rt e
      | Verdict raw v c \<Rightarrow> attempt_of p None AE_not_configured)"

definition hold_at :: "json_reader \<Rightarrow> (json option \<Rightarrow> string) \<Rightarrow> json list \<Rightarrow> harness_script \<Rightarrow> real \<Rightarrow> bool \<Rightarrow> sandbox_provider \<Rightarrow> pending_reason option" where
  "hold_at rd redact fs script timeout net p =
     (case provider_step rd redact fs script timeout net p of No_verdict rt e h \<Rightarrow> h | Verdict raw v c \<Rightarrow> None)"

lemma loop_done:
  "provider_loop rd redact fs script pr timeout net ps as hold = Inl x \<Longrightarrow>
   \<exists>pre p post raw v c. ps = pre @ p # post \<and> (\<forall>q \<in> set pre. \<not> concludes rd redact fs script timeout net q)
     \<and> provider_step rd redact fs script timeout net p = Verdict raw v c
     \<and> x = outcome_of redact p pr raw (as @ map (attempt_at rd redact fs script timeout net) pre) v c"
proof (induction ps arbitrary: as hold)
  case (Cons p ps)
  show ?case
  proof (cases "provider_step rd redact fs script timeout net p")
    case (Verdict raw v c)
    then have x: "x = outcome_of redact p pr raw as v c" using Cons.prems by simp
    show ?thesis by (rule exI [of _ "[]"]) (use Verdict x in simp)
  next
    case (No_verdict rt e h)
    then have "provider_loop rd redact fs script pr timeout net ps (as @ [attempt_of p rt e])
        (case h of None \<Rightarrow> hold | Some y \<Rightarrow> Some (worseHold hold y)) = Inl x" using Cons.prems by simp
    from Cons.IH [OF this] obtain pre q post raw v c where r: "ps = pre @ q # post"
        "\<forall>q \<in> set pre. \<not> concludes rd redact fs script timeout net q"
        "provider_step rd redact fs script timeout net q = Verdict raw v c"
        "x = outcome_of redact q pr raw ((as @ [attempt_of p rt e]) @ map (attempt_at rd redact fs script timeout net) pre) v c"
      by blast
    have "\<not> concludes rd redact fs script timeout net p" "attempt_at rd redact fs script timeout net p = attempt_of p rt e"
      using No_verdict by (simp_all add: concludes_def attempt_at_def)
    then show ?thesis using r by (intro exI [of _ "p # pre"]) auto
  qed
qed simp

lemma step_verdict:
  assumes "provider_step rd redact fs script timeout net p = Verdict raw v c"
  shows "pv_configured p \<and> pv_run p script timeout net = Inr raw \<and> parseVerdictLine rd (ru_stdout raw) = Some v
    \<and> \<not> detail_flag v ''harnessFault'' \<and> \<not> js_truthy (jget v ''runtimeUnavailable'') \<and> \<not> detail_flag v ''fixedRunUnverifiable''
    \<and> (\<exists>expects. expects_broken fs = Some expects
         \<and> c = executionContractPassed (or_null (jget v ''passed'')) (jget v ''brokenCodeFailedTests'') expects \<and> c \<noteq> JNull)"
  using assms
  by (auto simp: provider_step_def contract_step_def Let_def split: if_splits sum.splits option.splits)

text \<open>A run whose output has a second verdict line is a harness fault.\<close>

lemma tampered_is_fault:
  assumes "parseVerdictLine rd out = Some v" and "\<not> detail_flag v ''harnessFault''"
  shows "verdict_lines rd out = [v]"
  using assms by (auto simp: parseVerdictLine_def tamperedVerdict_def detail_flag_def split: list.splits)

lemma contract_pass:
  "js_truthy (Some (executionContractPassed passed broken expects)) \<longleftrightarrow>
     js_truthy (Some passed) \<and> (expects \<longrightarrow> broken = Some (JBool True))"
  by (auto simp: executionContractPassed_def)

text \<open>C36: a verdict exists only where a run gave one. When the stage reports an outcome, a verifier was resolved,
  some configured provider ran it with the permission of its category, everything before it in the order
  came without a verdict and is listed, its output held exactly one verdict line, which reports no fault
  of the harness, the runtime or the loading; it passes only if that line does and, where the contract has
  a variant that must fail, says that it failed; it is marked isolated only if the provider said so.\<close>

theorem verdict_from_one_genuine_run:
  assumes "runExecution rd redact rg timeout providers ty payload = Done x"
  shows "\<exists>script pr pre p post raw v expects c. resolveHarness rg payload ty = Resolved script pr \<and> providers = pre @ p # post
    \<and> (\<forall>q \<in> set pre. \<not> concludes rd redact (raw_fields ty) script timeout (allowNetwork rg ty pr) q)
    \<and> pv_configured p \<and> pv_run p script timeout (allowNetwork rg ty pr) = Inr raw
    \<and> verdict_lines rd (ru_stdout raw) = [v]
    \<and> \<not> detail_flag v ''harnessFault'' \<and> \<not> js_truthy (jget v ''runtimeUnavailable'') \<and> \<not> detail_flag v ''fixedRunUnverifiable''
    \<and> expects_broken (raw_fields ty) = Some expects
    \<and> c = executionContractPassed (or_null (jget v ''passed'')) (jget v ''brokenCodeFailedTests'') expects \<and> c \<noteq> JNull
    \<and> x = outcome_of redact p pr raw (map (attempt_at rd redact (raw_fields ty) script timeout (allowNetwork rg ty pr)) pre) v c
    \<and> (js_truthy (Some (ou_passed x)) \<longleftrightarrow>
         js_truthy (Some (or_null (jget v ''passed''))) \<and> (expects \<longrightarrow> jget v ''brokenCodeFailedTests'' = Some (JBool True)))
    \<and> (ou_verified x \<longleftrightarrow> (\<exists>i. ru_isolation raw = Some i \<and> is_verified i))
    \<and> ou_provider x = pv_name p"
proof -
  obtain script pr where r: "resolveHarness rg payload ty = Resolved script pr"
    using assms by (auto simp: runExecution_def split: resolution.splits)
  let ?net = "allowNetwork rg ty pr"
  have lp: "provider_loop rd redact (raw_fields ty) script pr timeout ?net providers [] None = Inl x"
    using assms r by (auto simp: runExecution_def split: sum.splits prod.splits option.splits)
  then obtain pre p post raw v c where l: "providers = pre @ p # post"
      "\<forall>q \<in> set pre. \<not> concludes rd redact (raw_fields ty) script timeout ?net q"
      "provider_step rd redact (raw_fields ty) script timeout ?net p = Verdict raw v c"
      "x = outcome_of redact p pr raw ([] @ map (attempt_at rd redact (raw_fields ty) script timeout ?net) pre) v c"
    using loop_done [OF lp] by blast
  note st = step_verdict [OF l(3)]
  then obtain expects where e: "expects_broken (raw_fields ty) = Some expects"
      "c = executionContractPassed (or_null (jget v ''passed'')) (jget v ''brokenCodeFailedTests'') expects" by blast
  have v: "verdict_lines rd (ru_stdout raw) = [v]" using st tampered_is_fault by blast
  have o: "ou_passed x = c" "ou_verified x \<longleftrightarrow> (\<exists>i. ru_isolation raw = Some i \<and> is_verified i)" "ou_provider x = pv_name p"
    using l(4) by (auto simp: outcome_of_def split: option.splits)
  have "js_truthy (Some (ou_passed x)) \<longleftrightarrow>
      js_truthy (Some (or_null (jget v ''passed''))) \<and> (expects \<longrightarrow> jget v ''brokenCodeFailedTests'' = Some (JBool True))"
    unfolding o(1) e(2) contract_pass ..
  moreover have "c \<noteq> JNull" "x = outcome_of redact p pr raw (map (attempt_at rd redact (raw_fields ty) script timeout ?net) pre) v c"
    using st l(4) by auto
  ultimately show ?thesis using r l(1,2) st e v o(2,3) by blast
qed

section \<open>Why there is no verdict\<close>

definition join_hold :: "pending_reason option \<Rightarrow> pending_reason option \<Rightarrow> pending_reason option" where
  "join_hold hold h = (case h of None \<Rightarrow> hold | Some x \<Rightarrow> Some (worseHold hold x))"

lemma loop_pending:
  "provider_loop rd redact fs script pr timeout net ps as hold = Inr (as', h') \<longleftrightarrow>
   (\<forall>p \<in> set ps. \<not> concludes rd redact fs script timeout net p)
   \<and> as' = as @ map (attempt_at rd redact fs script timeout net) ps
   \<and> h' = fold (\<lambda>p h. join_hold h (hold_at rd redact fs script timeout net p)) ps hold"
proof (induction ps arbitrary: as hold)
  case (Cons p ps)
  then show ?case
    by (cases "provider_step rd redact fs script timeout net p")
      (auto simp: concludes_def attempt_at_def hold_at_def join_hold_def)
qed auto

lemma step_holds:
  "hold_at rd redact fs script timeout net p \<in> {None, Some Runtime_unavailable, Some Execution_unverifiable}"
  by (auto simp: hold_at_def provider_step_def contract_step_def Let_def
      split: step_result.splits if_splits sum.splits option.splits)

lemma join_hold_worst:
  assumes "a \<in> {None, Some Runtime_unavailable, Some Execution_unverifiable}"
    and "b \<in> {None, Some Runtime_unavailable, Some Execution_unverifiable}"
  shows "join_hold a b = (if Some Execution_unverifiable \<in> {a, b} then Some Execution_unverifiable
     else if Some Runtime_unavailable \<in> {a, b} then Some Runtime_unavailable else None)"
  using assms by (auto simp: join_hold_def worseHold_def)

definition worst_hold :: "pending_reason option set \<Rightarrow> pending_reason option" where
  "worst_hold A =
     (if Some Execution_unverifiable \<in> A then Some Execution_unverifiable
      else if Some Runtime_unavailable \<in> A then Some Runtime_unavailable else None)"

lemma worst_hold_join: "worst_hold (insert (worst_hold {a, b}) A) = worst_hold (insert a (insert b A))"
  by (simp add: worst_hold_def)

lemma holds_join:
  assumes "\<forall>p \<in> set ps. f p \<in> {None, Some Runtime_unavailable, Some Execution_unverifiable}"
    and "hold \<in> {None, Some Runtime_unavailable, Some Execution_unverifiable}"
  shows "fold (\<lambda>p h. join_hold h (f p)) ps hold = worst_hold (insert hold (f ` set ps))"
  using assms
proof (induction ps arbitrary: hold)
  case Nil
  then show ?case by (auto simp: worst_hold_def)
next
  case (Cons p ps)
  have j: "join_hold hold (f p) = worst_hold {hold, f p}"
    unfolding worst_hold_def by (rule join_hold_worst) (use Cons.prems in simp_all)
  have n: "worst_hold {hold, f p} \<in> {None, Some Runtime_unavailable, Some Execution_unverifiable}"
    by (simp add: worst_hold_def)
  have "fold (\<lambda>p h. join_hold h (f p)) (p # ps) hold = worst_hold (insert (worst_hold {hold, f p}) (f ` set ps))"
    using Cons.IH [OF _ n] Cons.prems by (simp add: j)
  then show ?case by (simp only: worst_hold_join) simp
qed

text \<open>C37: the stage ends without a verdict exactly when no verifier was resolved or no provider of the order
  concluded, and then says why: a loading fault of the fixed code over a missing runtime over a failure of
  everything that was configured over nothing being configured; every provider is listed once, in order.\<close>

theorem no_verdict_says_why:
  "runExecution rd redact rg timeout providers ty payload = Pending r as \<longleftrightarrow>
     resolveHarness rg payload ty = No_harness \<and> r = No_executable_harness \<and> as = []
     \<or> (\<exists>script pr. resolveHarness rg payload ty = Resolved script pr
          \<and> (let net = allowNetwork rg ty pr;
                 holds = hold_at rd redact (raw_fields ty) script timeout net ` set providers
             in (\<forall>p \<in> set providers. \<not> concludes rd redact (raw_fields ty) script timeout net p)
                \<and> as = map (attempt_at rd redact (raw_fields ty) script timeout net) providers
                \<and> r = (if Some Execution_unverifiable \<in> holds then Execution_unverifiable
                       else if Some Runtime_unavailable \<in> holds then Runtime_unavailable
                       else if list_ex pv_configured providers then All_providers_failed else No_provider_configured)))"
proof (cases "resolveHarness rg payload ty")
  case (Resolved script pr)
  define net where "net = allowNetwork rg ty pr"
  define h where "h = hold_at rd redact (raw_fields ty) script timeout net"
  define l where "l = provider_loop rd redact (raw_fields ty) script pr timeout net providers [] None"
  define k where "k = worst_hold (h ` set providers)"
  have "worst_hold (insert None A) = worst_hold A" for A by (simp add: worst_hold_def)
  then have f: "fold (\<lambda>p x. join_hold x (h p)) providers None = k"
    using holds_join [of providers h None] step_holds unfolding k_def h_def by simp
  have lp: "l = Inr (as', h') \<longleftrightarrow> (\<forall>p \<in> set providers. \<not> concludes rd redact (raw_fields ty) script timeout net p)
      \<and> as' = map (attempt_at rd redact (raw_fields ty) script timeout net) providers \<and> h' = k" for as' h'
    unfolding l_def loop_pending f [symmetric] h_def by simp
  have run: "runExecution rd redact rg timeout providers ty payload =
      (case l of Inl x \<Rightarrow> Done x | Inr (attempts, Some h) \<Rightarrow> Pending h attempts
       | Inr (attempts, None) \<Rightarrow> Pending (if list_ex pv_configured providers then All_providers_failed else No_provider_configured) attempts)"
    unfolding runExecution_def Resolved l_def net_def by simp
  have "runExecution rd redact rg timeout providers ty payload = Pending r as \<longleftrightarrow>
      (\<exists>h'. l = Inr (as, h') \<and> r = (case h' of Some x \<Rightarrow> x | None \<Rightarrow> if list_ex pv_configured providers then All_providers_failed else No_provider_configured))"
    unfolding run by (auto split: sum.splits prod.splits option.splits)
  also have "\<dots> \<longleftrightarrow> (\<forall>p \<in> set providers. \<not> concludes rd redact (raw_fields ty) script timeout net p)
      \<and> as = map (attempt_at rd redact (raw_fields ty) script timeout net) providers
      \<and> r = (case k of Some x \<Rightarrow> x | None \<Rightarrow> if list_ex pv_configured providers then All_providers_failed else No_provider_configured)"
    unfolding lp by blast
  finally show ?thesis unfolding k_def h_def net_def worst_hold_def by (simp add: Resolved Let_def)
qed (auto simp: runExecution_def)

section \<open>What the harness cannot overwrite\<close>

lemma js_put_of_all: "map_of (put_all kvs base) k = (case map_of (rev kvs) k of Some x \<Rightarrow> Some x | None \<Rightarrow> map_of base k)"
proof (induction kvs arbitrary: base)
  case (Cons p kvs)
  have "map_of (put_all (p # kvs) base) k = map_of (put_all kvs (js_put (fst p) (snd p) base)) k" by (simp add: put_all_def)
  also have "\<dots> = (case map_of (rev kvs) k of Some x \<Rightarrow> Some x | None \<Rightarrow> map_of (js_put (fst p) (snd p) base) k)" by (rule Cons.IH)
  finally show ?case by (cases p) (simp add: map_of_append map_add_def split: option.split)
qed (simp add: put_all_def)

text \<open>The evidence row states the provider, the provenance and the isolation the platform saw, whatever the
  harness put into its own detail.\<close>

lemma trusted_keys_win:
  shows "map_of (ou_detail (outcome_of redact p pr raw as v c)) ''isolation'' = Some (DV_isolation (ru_isolation raw))"
    and "map_of (ou_detail (outcome_of redact p pr raw as v c)) ''harnessSource'' = Some (DV (JStr (provenance_name pr)))"
    and "map_of (ou_detail (outcome_of redact p pr raw as v c)) ''provider'' = Some (DV (JStr (pv_name p)))"
    and "map_of (ou_detail (outcome_of redact p pr raw as v c)) ''status'' = Some (DV (JStr ''runner_completed''))"
    and "map_of (ou_detail (outcome_of redact p pr raw as v c)) ''logs'' = Some (DV (JStr (redact (jget v ''logs''))))"
  by (simp_all add: outcome_of_def js_put_of_all trusted_detail_def)

text \<open>The list of failed attempts is written only when there were some: a detail with keys of those names
  reaches the row of a run the first provider concluded.\<close>

lemma forged_attempts_reach_the_row:
  assumes "jget v ''detail'' = Some (JObj kvs)" and "map_of kvs ''attempts'' = Some j"
  shows "map_of (ou_detail (outcome_of redact p pr raw [] v c)) ''attempts'' = Some (DV j)"
proof -
  have "map_of (map (\<lambda>p. (fst p, DV (snd p))) kvs) k = map_option DV (map_of kvs k)" for k
    by (induction kvs) auto
  then show ?thesis using assms by (simp add: outcome_of_def js_put_of_all trusted_detail_def spread_def)
qed

section \<open>The network of a run\<close>

text \<open>C38: contributor code reaches the network only where the category and the operator both allow it. The
  sandbox of an execution is created with the internet off and everything denied, unless the verifier came
  from the registry, the dataset type's name is a safe id, network access is declared for it, and the
  configuration opens the network or lists destinations; then no others are opened. Declared means: the last
  category of the routing table that claims the name (as its id or its dataset type) says
  \<open>networkEgress: true\<close>; or nobody claims it, exactly one category has it as its contract (an ambiguous
  contract is no alias), and the category the table holds under that one's id says so.\<close>

theorem network_needs_declaration_and_operator:
  assumes "C_create tmpl opts \<in> set (snd (runScript c h script t (allowNetwork rg ty pr)))"
  shows "opts = \<lparr>op_internet = Some False, op_deny = Some [ALL_TRAFFIC], op_allow = None\<rparr>
    \<or> pr = From_registry \<and> isSafeCategoryId (tc_id ty)
      \<and> (case claimant (rg_categories rg) (tc_id ty) of
           Some e \<Rightarrow> jget e ''networkEgress'' = Some (JBool True)
         | None \<Rightarrow> (\<exists>d i e. contract_holders (rg_categories rg) (tc_id ty) = [d] \<and> jget d ''id'' = Some (JStr i)
                      \<and> claimant (rg_categories rg) i = Some e \<and> jget e ''networkEgress'' = Some (JBool True)))
      \<and> (sc_allow_egress c \<or> op_deny opts = Some [ALL_TRAFFIC] \<and> op_allow opts = Some (sc_allowlist c) \<and> sc_allowlist c \<noteq> [])"
proof -
  let ?a = "allowNetwork rg ty pr"
  let ?p = "requestedPostureForCategory c (Some Can_allowlist) ?a"
  obtain r tr where r: "runScript c h script t ?a = (r, tr)" by (cases "runScript c h script t ?a")
  have opts: "opts = isolationOpts ?p"
    using assms r created_opts [of c h script t ?a r tr] by (simp add: r)
  show ?thesis
  proof (cases ?a)
    case False
    then show ?thesis using opts by (simp add: requestedPostureForCategory_def isolationOpts_def blocked_posture_def)
  next
    case True
    then have n: "pr = From_registry" "categoryAllowsNetworkEgress (rg_categories rg) (tc_id ty)" by (simp_all add: allowNetwork_def)
    have d: "isSafeCategoryId (tc_id ty)" "case claimant (rg_categories rg) (tc_id ty) of
           Some e \<Rightarrow> jget e ''networkEgress'' = Some (JBool True)
         | None \<Rightarrow> (\<exists>d i e. contract_holders (rg_categories rg) (tc_id ty) = [d] \<and> jget d ''id'' = Some (JStr i)
                      \<and> claimant (rg_categories rg) i = Some e \<and> jget e ''networkEgress'' = Some (JBool True))"
      using network_is_declared [OF n(2)]
      by (auto simp: egress_declared_def split: option.splits list.splits json.splits bind_splits)
    have "opts = \<lparr>op_internet = Some False, op_deny = Some [ALL_TRAFFIC], op_allow = None\<rparr>
        \<or> sc_allow_egress c \<or> op_deny opts = Some [ALL_TRAFFIC] \<and> op_allow opts = Some (sc_allowlist c) \<and> sc_allowlist c \<noteq> []"
      using opts True by (auto simp: requestedPostureForCategory_def requestedPostureFor_def requestedPosture_def isolationOpts_def
          blocked_posture_def egressCapabilityOf_def Let_def split: if_splits)
    with n(1) d show ?thesis by blast
  qed
qed


section \<open>Evaluated runs\<close>

definition demo_contract :: type_contract where
  "demo_contract = \<lparr>tc_id = ''n'', tc_fields = Some (JArr [JObj [(''key'', JStr ''solution_code''), (''role'', JStr ''solution_code''), (''lang'', JStr ''python'')],
     JObj [(''key'', JStr ''tests''), (''role'', JStr ''tests'')]]), tc_verification = None\<rparr>"

definition demo_registry :: registry where
  "demo_registry = \<lparr>rg_categories = [], rg_source = (\<lambda>i. None), rg_schema = (\<lambda>i. None), rg_shared = True\<rparr>"

definition demo_payload :: payload where
  "demo_payload = [(''solution_code'', JStr ''x''), (''tests'', JStr ''t'')]"

definition demo_reader :: json_reader where
  "demo_reader line = (if line = ''v'' then Some (JObj [(''passed'', JBool True)]) else None)"

definition demo_box :: sandbox_provider where
  "demo_box = \<lparr>pv_name = ''p'', pv_configured = True,
     pv_run = (\<lambda>s t n. Inr \<lparr>ru_exit = Some 0, ru_stdout = ''v'', ru_stderr = [], ru_isolation = None\<rparr>), pv_took = 7\<rparr>"

lemma demo_resolves: "resolveHarness demo_registry demo_payload demo_contract = Resolved (Python_script ''t'' ''x'' []) Role_fallback"
  by code_simp

lemma demo_line: "verdict_lines demo_reader ''v'' = [JObj [(''passed'', JBool True)]]"
  by code_simp

theorem verdict_from_one_genuine_run_witness:
  "\<exists>x. runExecution demo_reader (\<lambda>j. []) demo_registry 5000 [demo_box] demo_contract demo_payload = Done x
     \<and> ou_provider x = ''p'' \<and> js_truthy (Some (ou_passed x)) \<and> \<not> ou_verified x"
proof -
  let ?net = "allowNetwork demo_registry demo_contract Role_fallback"
  have b: "expects_broken (raw_fields demo_contract) = Some False" by code_simp
  have p: "parseVerdictLine demo_reader ''v'' = Some (JObj [(''passed'', JBool True)])"
    by (simp add: parseVerdictLine_def demo_line)
  have v: "provider_step demo_reader (\<lambda>j. []) (raw_fields demo_contract) (Python_script ''t'' ''x'' []) 5000 ?net demo_box
      = Verdict \<lparr>ru_exit = Some 0, ru_stdout = ''v'', ru_stderr = [], ru_isolation = None\<rparr> (JObj [(''passed'', JBool True)]) (JBool True)"
    by (simp add: provider_step_def demo_box_def p detail_flag_def contract_step_def b executionContractPassed_def or_null_def Let_def)
  obtain x where x: "runExecution demo_reader (\<lambda>j. []) demo_registry 5000 [demo_box] demo_contract demo_payload = Done x"
    using v by (simp add: runExecution_def demo_resolves)
  from verdict_from_one_genuine_run [OF x] obtain script pr pre p post raw v expects c where
      r: "Resolved (Python_script ''t'' ''x'' []) Role_fallback = Resolved script pr" and sp: "[demo_box] = pre @ p # post"
      and run: "pv_run p script 5000 (allowNetwork demo_registry demo_contract pr) = Inr raw"
      and l: "verdict_lines demo_reader (ru_stdout raw) = [v]" and e: "expects_broken (raw_fields demo_contract) = Some expects"
      and ps: "js_truthy (Some (ou_passed x)) \<longleftrightarrow>
        js_truthy (Some (or_null (jget v ''passed''))) \<and> (expects \<longrightarrow> jget v ''brokenCodeFailedTests'' = Some (JBool True))"
      and iso: "ou_verified x \<longleftrightarrow> (\<exists>i. ru_isolation raw = Some i \<and> is_verified i)" and n: "ou_provider x = pv_name p"
    unfolding demo_resolves by blast
  have "p = demo_box" using sp by (cases pre) simp_all
  moreover from this run have "raw = \<lparr>ru_exit = Some 0, ru_stdout = ''v'', ru_stderr = [], ru_isolation = None\<rparr>"
    by (simp add: demo_box_def)
  ultimately show ?thesis using x ps iso n l e b by (auto simp: demo_line demo_box_def or_null_def)
qed

theorem no_verdict_says_why_witness:
  "\<exists>as. runExecution demo_reader (\<lambda>j. []) demo_registry 5000 [demo_box\<lparr>pv_configured := False\<rparr>] demo_contract demo_payload
     = Pending No_provider_configured as"
  by (rule exI, subst no_verdict_says_why)
    (simp add: demo_resolves concludes_def hold_at_def provider_step_def Let_def)

theorem network_needs_declaration_and_operator_witness:
  "\<exists>opts. C_create None opts \<in> set (snd (runScript (demo_limits\<lparr>sc_allowlist := [''h'']\<rparr>) demo_service ''s'' 5000
       (allowNetwork (demo_registry\<lparr>rg_categories := [JObj [(''id'', JStr ''n''), (''networkEgress'', JBool True)]]\<rparr>) demo_contract From_registry)))
     \<and> op_allow opts \<in> {None, Some [''h'']}"
proof -
  let ?c = "demo_limits\<lparr>sc_allowlist := [''h'']\<rparr>"
  let ?rg = "demo_registry\<lparr>rg_categories := [JObj [(''id'', JStr ''n''), (''networkEgress'', JBool True)]]\<rparr>"
  have "sh_sdk demo_service" "template_of ?c = None" by (simp_all add: demo_service_def demo_limits_def template_of_def)
  then obtain opts where o: "C_create None opts \<in> set (snd (runScript ?c demo_service ''s'' 5000 (allowNetwork ?rg demo_contract From_registry)))"
    using creates [of demo_service ?c "allowNetwork ?rg demo_contract From_registry" "''s''" 5000] by auto
  from network_needs_declaration_and_operator [OF o] o show ?thesis by (auto simp: demo_limits_def)
qed

end
