(* ===== verification/Pool_Settlement.thy ===== *)
theory Pool_Settlement
  imports Pool_Counters
begin

text \<open>
  \<open>settleDueCommunityPools\<close> of \<open>services/pool-lifecycle.ts\<close>: a closed pool whose dispute window is
  over is settled (and its publication queued once) or, when it is short of its target and its
  sponsor did not close it, reopened. One transaction per pool; the sweep works from a snapshot.
\<close>

section \<open>One pool\<close>

datatype settle_result = Settle_none | Settle_reopened | Settle_done bounty_status bool

definition open_dispute :: "ident \<Rightarrow> db \<Rightarrow> bool" where
  "open_dispute bid d \<longleftrightarrow> find_where (\<lambda>x. di_bounty x = Some bid \<and> di_status x = D_open) (disputes d) \<noteq> None"

definition settle_reopen_row :: "int \<Rightarrow> bounty_row \<Rightarrow> bounty_row" where
  "settle_reopen_row fin b =
     b\<lparr>b_closed_at := None, b_cycle_opens := None, b_sampling_started := None, b_sampling_completed := None,
       b_final_accepted := fin\<rparr>"

definition settle_row :: "time \<Rightarrow> bounty_status \<Rightarrow> int \<Rightarrow> bounty_row \<Rightarrow> bounty_row" where
  "settle_row now st fin b = b\<lparr>b_cycle_settled := Some now, b_status := st, b_final_accepted := fin\<rparr>"

text \<open>The first time only: the swap on \<open>publicationStatus\<close>. An empty license counts as none.\<close>

definition queue_publication :: "env \<Rightarrow> bounty_row \<Rightarrow> db \<Rightarrow> db \<times> bool" where
  "queue_publication e b d =
     (if or_else (b_license b) [] \<noteq> [] \<and> b_publication b = P_not_requested
      then (update_bounty e (\<lambda>x. b_id x = b_id b \<and> b_publication x = P_not_requested) (\<lambda>x. x\<lparr>b_publication := P_pending\<rparr>) d,
            count_where (\<lambda>x. b_id x = b_id b \<and> b_publication x = P_not_requested) (bounties d) = 1)
      else (d, False))"

text \<open>The transaction; \<open>b\<close> is the row the sweep read before.\<close>

definition settle_txn :: "env \<Rightarrow> bounty_row \<Rightarrow> db \<Rightarrow> db \<times> settle_result" where
  "settle_txn e b d =
     (if open_dispute (b_id b) d then (d, Settle_none)
      else let fin = count_submissions (b_id b) FINAL_ACCEPTED_STATUSES d;
               reached = (b_target b > 0 \<and> fin \<ge> b_target b)
           in if \<not> reached \<and> b_sponsor_closed b = None
              then (if count_where (\<lambda>x. b_id x = b_id b \<and> b_closed_at x \<noteq> None) (bounties d) = 0 then (d, Settle_none)
                    else (update_bounty e (\<lambda>x. b_id x = b_id b \<and> b_closed_at x \<noteq> None) (settle_reopen_row fin) d,
                          Settle_reopened))
              else let st = (if reached then B_completed else B_partially_completed)
                   in if count_where (\<lambda>x. b_id x = b_id b \<and> b_cycle_settled x = None) (bounties d) = 0 then (d, Settle_none)
                      else (case queue_publication e b
                                   (update_bounty e (\<lambda>x. b_id x = b_id b \<and> b_cycle_settled x = None)
                                      (settle_row (e_now e) st fin) d) of
                              (d', queued) \<Rightarrow> (d', Settle_done st queued)))"

definition enqueueCommunityPublish :: "env \<Rightarrow> ident \<Rightarrow> db \<Rightarrow> db" where
  "enqueueCommunityPublish e bid d =
     fst (enqueue e \<lparr>jq_type = ''community.publish'', jq_key = ''community.publish:'' @ bid,
                     jq_payload = JObj [(''bountyId'', JStr bid)], jq_max = Some 5, jq_workspace = None,
                     jq_run_after = None\<rparr> d)"

section \<open>The sweep\<close>

record settle_outcome =
  so_scanned :: nat
  so_settled :: nat
  so_completed :: nat
  so_partial :: nat
  so_reopened :: nat

definition due_pools :: "nat \<Rightarrow> db \<Rightarrow> bounty_row list" where
  "due_pools limit d =
     take (max 1 limit) (sort_key (\<lambda>b. or_else (b_closed_at b) 0)
       (filter (\<lambda>b. b_status b = B_active \<and> b_closed_at b \<noteq> None \<and> b_cycle_settled b = None) (bounties d)))"

text \<open>\<open>now < settlesAt\<close>; a comparison with an invalid date is false.\<close>

definition window_open :: "env \<Rightarrow> real \<Rightarrow> time \<Rightarrow> bounty_row \<Rightarrow> bool" where
  "window_open e defaultHours opensAt b =
     (case js_date (real_of_int opensAt + or_else (map_option real_of_int (b_dispute_hours b)) defaultHours * 60 * 60 * 1000) of
        Some t \<Rightarrow> e_now e < t | None \<Rightarrow> False)"

definition stamp_window :: "env \<Rightarrow> ident \<Rightarrow> db \<Rightarrow> db" where
  "stamp_window e bid d = update_bounty e (\<lambda>x. b_id x = bid) (\<lambda>x. x\<lparr>b_cycle_opens := Some (e_now e)\<rparr>) d"

definition settle_one :: "env \<Rightarrow> real \<Rightarrow> bounty_row \<Rightarrow> db \<Rightarrow> db \<times> settle_result" where
  "settle_one e defaultHours b d =
     (case b_cycle_opens b of
        None \<Rightarrow> (stamp_window e (b_id b) d, Settle_none)
      | Some opensAt \<Rightarrow>
          (if window_open e defaultHours opensAt b then (d, Settle_none)
           else if open_dispute (b_id b) d then (d, Settle_none)
           else (case settle_txn e b d of
                   (d', r) \<Rightarrow> (case r of
                                 Settle_done st True \<Rightarrow> (enqueueCommunityPublish e (b_id b) d', r)
                               | _ \<Rightarrow> (d', r)))))"

definition tally :: "settle_result \<Rightarrow> settle_outcome \<Rightarrow> settle_outcome" where
  "tally r o1 =
     (let o2 = o1\<lparr>so_scanned := so_scanned o1 + 1\<rparr>
      in case r of
           Settle_none \<Rightarrow> o2
         | Settle_reopened \<Rightarrow> o2\<lparr>so_reopened := so_reopened o2 + 1\<rparr>
         | Settle_done st q \<Rightarrow>
             (if st = B_completed then o2\<lparr>so_settled := so_settled o2 + 1, so_completed := so_completed o2 + 1\<rparr>
              else if st = B_partially_completed then o2\<lparr>so_settled := so_settled o2 + 1, so_partial := so_partial o2 + 1\<rparr>
              else o2))"

fun settle_loop :: "env \<Rightarrow> real \<Rightarrow> bounty_row list \<Rightarrow> settle_outcome \<Rightarrow> db \<Rightarrow> db \<times> settle_outcome" where
  "settle_loop e h [] o1 d = (d, o1)"
| "settle_loop e h (b # bs) o1 d =
     (case settle_one e h b d of (d', r) \<Rightarrow> settle_loop e h bs (tally r o1) d')"

definition settleDueCommunityPools :: "env \<Rightarrow> nat \<Rightarrow> db \<Rightarrow> db \<times> settle_outcome" where
  "settleDueCommunityPools e limit d =
     settle_loop e (defaultDisputeWindowHours e) (due_pools limit d)
       \<lparr>so_scanned = 0, so_settled = 0, so_completed = 0, so_partial = 0, so_reopened = 0\<rparr> d"

section \<open>Facts\<close>

interpretation settle_once: cas_column "\<lambda>x. b_id x = bid \<and> b_cycle_settled x = None"
    "\<lambda>x. (settle_row now st fin x)\<lparr>b_updated := now'\<rparr>" for bid now st fin now'
  by unfold_locales (simp add: settle_row_def)

interpretation publish_once: cas_column "\<lambda>x. b_id x = bid \<and> b_publication x = P_not_requested"
    "\<lambda>x. x\<lparr>b_publication := P_pending, b_updated := now\<rparr>" for bid now
  by unfold_locales simp

lemma settle_row_ids [simp]:
  "b_id (settle_row now st fin b) = b_id b" "b_id (settle_reopen_row fin b) = b_id b"
  by (simp_all add: settle_row_def settle_reopen_row_def)

lemma publish_frame [simp]:
  "bounties (enqueueCommunityPublish e bid d) = bounties d" "disputes (enqueueCommunityPublish e bid d) = disputes d"
  "submissions (enqueueCommunityPublish e bid d) = submissions d"
  by (simp_all add: enqueueCommunityPublish_def)

lemma queue_publication_frame [simp]:
  "submissions (fst (queue_publication e b d)) = submissions d" "disputes (fst (queue_publication e b d)) = disputes d"
  by (simp_all add: queue_publication_def)

text \<open>The transaction on a pool whose row did not change since it was read, on every branch.\<close>

lemma settle_txn_spec:
  assumes "bounty_ids d" and "bounty_by (b_id b) d = Some b" and "b_closed_at b \<noteq> None" and "b_cycle_settled b = None"
    and "\<not> open_dispute (b_id b) d"
  defines "fin \<equiv> count_submissions (b_id b) FINAL_ACCEPTED_STATUSES d"
  defines "reached \<equiv> b_target b > 0 \<and> fin \<ge> b_target b"
  shows "if \<not> reached \<and> b_sponsor_closed b = None
         then settle_txn e b d = (update_bounty e (\<lambda>x. b_id x = b_id b \<and> b_closed_at x \<noteq> None) (settle_reopen_row fin) d, Settle_reopened)
              \<and> bounty_by (b_id b) (fst (settle_txn e b d)) = Some ((settle_reopen_row fin b)\<lparr>b_updated := e_now e\<rparr>)
         else (\<exists>p. bounty_by (b_id b) (fst (settle_txn e b d))
                 = Some ((settle_row (e_now e) (if reached then B_completed else B_partially_completed) fin b)
                           \<lparr>b_publication := p, b_updated := e_now e\<rparr>)
               \<and> snd (settle_txn e b d) = Settle_done (if reached then B_completed else B_partially_completed)
                   (or_else (b_license b) [] \<noteq> [] \<and> b_publication b = P_not_requested)
               \<and> p = (if or_else (b_license b) [] \<noteq> [] \<and> b_publication b = P_not_requested then P_pending else b_publication b))"
proof -
  have row: "find_where (\<lambda>x. b_id x = b_id b) (bounties d) = Some b" and ids: "distinct (map b_id (bounties d))"
    using assms(1,2) by (simp_all add: bounty_ids_def bounty_by_def)
  have c1: "count_where (\<lambda>x. b_id x = b_id b \<and> b_closed_at x \<noteq> None) (bounties d) = 1"
    and c2: "count_where (\<lambda>x. b_id x = b_id b \<and> b_cycle_settled x = None) (bounties d) = 1"
    using count_where_key_guard [OF ids row] assms(3,4) by simp_all
  let ?st = "if reached then B_completed else B_partially_completed"
  let ?d1 = "update_bounty e (\<lambda>x. b_id x = b_id b \<and> b_cycle_settled x = None) (settle_row (e_now e) ?st fin) d"
  have d1: "bounty_by (b_id b) ?d1 = Some ((settle_row (e_now e) ?st fin b)\<lparr>b_updated := e_now e\<rparr>)"
    using update_bounty_self [OF assms(2)] assms(4) by simp
  have i1: "distinct (map b_id (bounties ?d1))"
    using update_bounty_ids [of "settle_row (e_now e) ?st fin" e _ d] assms(1) by (simp add: bounty_ids_def)
  have c3: "count_where (\<lambda>x. b_id x = b_id b \<and> b_publication x = P_not_requested) (bounties ?d1)
      = (if b_publication b = P_not_requested then 1 else 0)"
    using count_where_key_guard [OF i1, of "b_id b"] d1 by (simp add: bounty_by_def settle_row_def)
  have d2: "bounty_by (b_id b) (update_bounty e (\<lambda>x. b_id x = b_id b \<and> b_publication x = P_not_requested) (\<lambda>x. x\<lparr>b_publication := P_pending\<rparr>) ?d1)
      = Some (if b_publication b = P_not_requested
              then (settle_row (e_now e) ?st fin b)\<lparr>b_publication := P_pending, b_updated := e_now e\<rparr>
              else (settle_row (e_now e) ?st fin b)\<lparr>b_updated := e_now e\<rparr>)"
    using update_bounty_self [OF d1] by (simp add: settle_row_def)
  show ?thesis
  proof (cases "\<not> reached \<and> b_sponsor_closed b = None")
    case True
    then have "settle_txn e b d = (update_bounty e (\<lambda>x. b_id x = b_id b \<and> b_closed_at x \<noteq> None) (settle_reopen_row fin) d, Settle_reopened)"
      unfolding settle_txn_def Let_def fin_def [symmetric] reached_def [symmetric] using assms(5) c1 by simp
    then show ?thesis
      using True update_bounty_self [OF assms(2)] assms(3) by simp
  next
    case False
    then have "settle_txn e b d = (case queue_publication e b ?d1 of (d', q) \<Rightarrow> (d', Settle_done ?st q))"
      unfolding settle_txn_def Let_def fin_def [symmetric] reached_def [symmetric] using assms(5) c2 by auto
    then show ?thesis
      using False d1 d2 c3 by (auto simp: queue_publication_def settle_row_def)
  qed
qed

text \<open>A pool with an open dispute: the sweep may stamp its window, and that is all.\<close>

lemma settle_txn_other:
  assumes "k \<noteq> b_id b"
  shows "bounty_by k (fst (settle_txn e b d)) = bounty_by k d"
proof -
  have q: "bounty_by k (fst (queue_publication e b x)) = bounty_by k x" for x
    using update_bounty_other [OF assms, of "\<lambda>x. x\<lparr>b_publication := P_pending\<rparr>"] by (simp add: queue_publication_def)
  show ?thesis
    using update_bounty_other [OF assms, of "settle_reopen_row _"] update_bounty_other [OF assms, of "settle_row _ _ _"] q
    by (simp add: settle_txn_def Let_def case_prod_beta)
qed

definition no_clock :: "bounty_row \<Rightarrow> bounty_row" where
  "no_clock b = b\<lparr>b_cycle_opens := None, b_updated := 0\<rparr>"

definition same_but_clock :: "bounty_row option \<Rightarrow> bounty_row option \<Rightarrow> bool" where
  "same_but_clock r r' \<longleftrightarrow> map_option no_clock r = map_option no_clock r'"

lemma same_but_clock_refl [simp]: "same_but_clock r r"
  by (simp add: same_but_clock_def)

lemma same_but_clock_trans: "same_but_clock r r' \<Longrightarrow> same_but_clock r' r'' \<Longrightarrow> same_but_clock r r''"
  by (simp add: same_but_clock_def)

lemma stamp_window_by: "same_but_clock (bounty_by k d) (bounty_by k (stamp_window e bid d))"
proof (cases "k = bid")
  case True
  show ?thesis
  proof (cases "bounty_by k d")
    case None
    then have "bounty_by k (stamp_window e bid d) = None"
      using True by (simp add: stamp_window_def update_bounty_def set_bounty_def bounty_by_def find_where_update_where)
    with None show ?thesis by (simp add: same_but_clock_def)
  next
    case (Some b)
    then show ?thesis
      using update_bounty_key [of bid d b "\<lambda>x. x\<lparr>b_cycle_opens := Some (e_now e)\<rparr>" e] True
      by (simp add: stamp_window_def same_but_clock_def no_clock_def)
  qed
next
  case False
  then show ?thesis
    using update_bounty_other [OF False, of "\<lambda>x. x\<lparr>b_cycle_opens := Some (e_now e)\<rparr>" e "\<lambda>x. True" d]
    by (simp add: stamp_window_def)
qed

lemma stamp_window_frame [simp]: "disputes (stamp_window e bid d) = disputes d"
  by (simp add: stamp_window_def)

lemma settle_txn_frame [simp]: "disputes (fst (settle_txn e b d)) = disputes d"
  by (simp add: settle_txn_def Let_def case_prod_beta)

lemma settle_one_frame [simp]: "disputes (fst (settle_one e h b d)) = disputes d"
  by (auto simp: settle_one_def split: option.split prod.split settle_result.split bool.split)
    (metis fst_conv settle_txn_frame publish_frame(2))+

lemma bounty_by_publish [simp]: "bounty_by k (enqueueCommunityPublish e bid d) = bounty_by k d"
  by (rule bounty_by_cong) simp

lemma settle_one_disputed:
  assumes "open_dispute k d"
  shows "same_but_clock (bounty_by k d) (bounty_by k (fst (settle_one e h b d)))"
proof (cases "b_cycle_opens b")
  case None
  then show ?thesis by (simp add: settle_one_def stamp_window_by)
next
  case (Some t)
  show ?thesis
  proof (cases "k = b_id b")
    case True
    with Some assms show ?thesis by (simp add: settle_one_def)
  next
    case False
    note settle_txn_other [OF False, of e d]
    with Some show ?thesis
      by (auto simp: settle_one_def split: prod.split settle_result.split bool.split)
  qed
qed

lemma settle_loop_disputed:
  "open_dispute k d \<Longrightarrow> same_but_clock (bounty_by k d) (bounty_by k (fst (settle_loop e h bs o1 d)))"
proof (induction bs arbitrary: o1 d)
  case Nil
  then show ?case by simp
next
  case (Cons b bs)
  let ?d = "fst (settle_one e h b d)"
  have "open_dispute k ?d" using Cons.prems by (simp add: open_dispute_def)
  then have "same_but_clock (bounty_by k ?d) (bounty_by k (fst (settle_loop e h bs (tally (snd (settle_one e h b d)) o1) ?d)))"
    by (rule Cons.IH)
  then show ?case
    using same_but_clock_trans [OF settle_one_disputed [OF Cons.prems, of e h b]] by (simp add: case_prod_beta)
qed

text \<open>The sweep and one row whose window has not run out: every iteration leaves it alone.\<close>

lemma settle_one_open:
  assumes "bounty_by k d = Some b" and "b_cycle_opens b = Some t" and "window_open e h t b"
    and "b_id c = k \<Longrightarrow> c = b"
  shows "bounty_by k (fst (settle_one e h c d)) = Some b"
proof (cases "b_id c = k")
  case True
  with assms show ?thesis by (simp add: settle_one_def)
next
  case False
  then have ne: "k \<noteq> b_id c" by simp
  note settle_txn_other [OF ne, of e d] update_bounty_other [OF ne, of "\<lambda>x. x\<lparr>b_cycle_opens := Some (e_now e)\<rparr>" e "\<lambda>x. True" d]
  with assms(1) show ?thesis
    by (auto simp: settle_one_def stamp_window_def split: prod.split settle_result.split bool.split option.split)
qed

lemma settle_loop_open:
  assumes "b_cycle_opens b = Some t" and "window_open e h t b" and "\<forall>c \<in> set bs. b_id c = k \<longrightarrow> c = b"
  shows "bounty_by k d = Some b \<Longrightarrow> bounty_by k (fst (settle_loop e h bs o1 d)) = Some b"
  using assms(3)
proof (induction bs arbitrary: o1 d)
  case Nil
  then show ?case by simp
next
  case (Cons c bs)
  have "bounty_by k (fst (settle_one e h c d)) = Some b"
    using settle_one_open [OF Cons.prems(1) assms(1,2), of c] Cons.prems(2) by auto
  from Cons.IH [OF this] Cons.prems(2) show ?case by (simp add: case_prod_beta)
qed

lemma due_pools_row:
  assumes "bounty_ids d" and "bounty_by k d = Some b"
  shows "\<forall>c \<in> set (due_pools n d). b_id c = k \<longrightarrow> c = b"
proof safe
  fix c
  assume "c \<in> set (due_pools n d)" and k: "k = b_id c"
  then have "c \<in> set (bounties d)" by (auto simp: due_pools_def dest: in_set_takeD)
  moreover have "b \<in> set (bounties d)" "b_id b = k"
    using assms(2) find_where_Some [of _ "bounties d" b] by (auto simp: bounty_by_def)
  ultimately show "c = b" using assms(1) k by (simp add: bounty_ids_def distinct_map inj_on_def)
qed

text \<open>Concrete rows for the instances below.\<close>

definition due_bounty :: bounty_row where
  "due_bounty = (bounty0 ''b'')\<lparr>b_closed_at := Some 0, b_cycle_opens := Some 0, b_dispute_hours := Some 1,
                   b_license := Some ''cc-by'', b_target := 1\<rparr>"

definition demo_dispute :: dispute_row where
  "demo_dispute = \<lparr>di_id = ''x'', di_bounty = Some ''b'', di_submission = None, di_raised_by = None,
     di_reason = FR_other, di_argument = [], di_status = D_open, di_resolution = None, di_decision = None,
     di_resolved_by = None, di_created = 0, di_resolved_at = None\<rparr>"

lemma due_bounty_simps [simp]:
  "b_id due_bounty = ''b''" "b_closed_at due_bounty = Some 0" "b_cycle_opens due_bounty = Some 0"
  "b_target due_bounty = 1" "b_sponsor_closed due_bounty = None" "b_cycle_settled due_bounty = None"
  "b_license due_bounty = Some ''cc-by''" "b_publication due_bounty = P_not_requested"
  "b_dispute_hours due_bounty = Some 1" "b_status due_bounty = B_active"
  by (simp_all add: due_bounty_def bounty0_def)

lemma due_bounty_window [simp]:
  "window_open (env0 1000) h 0 due_bounty" "\<not> window_open (env0 7200000) h 0 due_bounty"
  by (simp_all add: window_open_def js_date_def env0_def or_else_def)

section \<open>Properties\<close>

text \<open>While a dispute on a pool is open, the settlement sweep, whatever else it settles, leaves that pool's
  status, close and settlement stamps, publication and counters as they are.\<close>

lemma disputed_pool_not_settled:
  assumes "open_dispute k d" and "bounty_by k d = Some b"
  shows "\<exists>b'. bounty_by k (fst (settleDueCommunityPools e n d)) = Some b' \<and> b_status b' = b_status b
           \<and> b_closed_at b' = b_closed_at b \<and> b_cycle_settled b' = b_cycle_settled b
           \<and> b_publication b' = b_publication b \<and> b_final_accepted b' = b_final_accepted b"
proof -
  let ?r = "bounty_by k (fst (settleDueCommunityPools e n d))"
  have s: "map_option no_clock ?r = Some (no_clock b)"
    using settle_loop_disputed [OF assms(1), of e "defaultDisputeWindowHours e" "due_pools n d"] assms(2)
    by (simp add: settleDueCommunityPools_def same_but_clock_def)
  then obtain b' where b': "?r = Some b'" "no_clock b' = no_clock b" by auto
  have "b_status b' = b_status b" "b_closed_at b' = b_closed_at b" "b_cycle_settled b' = b_cycle_settled b"
    "b_publication b' = b_publication b" "b_final_accepted b' = b_final_accepted b"
    using arg_cong [OF b'(2), of b_status] arg_cong [OF b'(2), of b_closed_at] arg_cong [OF b'(2), of b_cycle_settled]
      arg_cong [OF b'(2), of b_publication] arg_cong [OF b'(2), of b_final_accepted]
    by (simp_all add: no_clock_def)
  with b'(1) show ?thesis by blast
qed

lemma disputed_pool_not_settled_witness:
  "\<exists>b'. bounty_by ''b'' (fst (settleDueCommunityPools (env0 7200000) 200
          (db0\<lparr>bounties := [due_bounty], disputes := [demo_dispute]\<rparr>))) = Some b' \<and> b_status b' = B_active"
  using disputed_pool_not_settled [of "''b''" "db0\<lparr>bounties := [due_bounty], disputes := [demo_dispute]\<rparr>" due_bounty
      "env0 7200000" 200]
  by (auto simp: open_dispute_def demo_dispute_def bounty_by_def db0_def)

text \<open>A closed pool whose review window (its own hours, or the configured default) has not elapsed is left
  exactly as it is by the sweep.\<close>

lemma open_window_blocks_settlement:
  assumes "bounty_ids d" and "bounty_by k d = Some b" and "b_cycle_opens b = Some t"
    and "window_open e (defaultDisputeWindowHours e) t b"
  shows "bounty_by k (fst (settleDueCommunityPools e n d)) = Some b"
  using settle_loop_open [OF assms(3,4) due_pools_row [OF assms(1,2)] assms(2)]
  by (simp add: settleDueCommunityPools_def)

lemma open_window_blocks_settlement_witness:
  "bounty_by ''b'' (fst (settleDueCommunityPools (env0 1000) 200 (db0\<lparr>bounties := [due_bounty]\<rparr>))) = Some due_bounty"
  by (rule open_window_blocks_settlement [where t = 0])
    (simp_all add: bounty_ids_def bounty_by_def db0_def)

text \<open>C6: A closed, unsettled, undisputed pool whose window is over: under target with no early close by its
  sponsor it is reopened with the recounted acceptances; otherwise it is settled as completed exactly when the
  finally accepted items reach the target, and publication is queued exactly when it has a license and was never
  requested.\<close>

theorem settling_decides:
  assumes "bounty_ids d" and "bounty_by (b_id b) d = Some b" and "b_closed_at b \<noteq> None" and "b_cycle_settled b = None"
    and "\<not> open_dispute (b_id b) d" and "b_cycle_opens b = Some t" and "\<not> window_open e h t b"
  defines "fin \<equiv> count_submissions (b_id b) FINAL_ACCEPTED_STATUSES d"
  defines "reached \<equiv> b_target b > 0 \<and> fin \<ge> b_target b"
  defines "queued \<equiv> or_else (b_license b) [] \<noteq> [] \<and> b_publication b = P_not_requested"
  shows "\<exists>b'. bounty_by (b_id b) (fst (settle_one e h b d)) = Some b' \<and> b_final_accepted b' = fin
     \<and> (if \<not> reached \<and> b_sponsor_closed b = None
        then snd (settle_one e h b d) = Settle_reopened \<and> b_closed_at b' = None \<and> b_status b' = b_status b
             \<and> b_cycle_settled b' = None \<and> b_publication b' = b_publication b
        else snd (settle_one e h b d) = Settle_done (if reached then B_completed else B_partially_completed) queued
             \<and> b_closed_at b' = b_closed_at b \<and> b_status b' = (if reached then B_completed else B_partially_completed)
             \<and> b_cycle_settled b' = Some (e_now e) \<and> b_publication b' = (if queued then P_pending else b_publication b))"
proof -
  note spec = settle_txn_spec [OF assms(1-5), of e, folded fin_def, folded reached_def, folded queued_def]
  obtain d' r where dr: "settle_txn e b d = (d', r)" by force
  have one: "bounty_by (b_id b) (fst (settle_one e h b d)) = bounty_by (b_id b) d'" "snd (settle_one e h b d) = r"
    using assms(5-7) dr by (simp_all add: settle_one_def split: settle_result.split bool.split)
  show ?thesis
  proof (cases "\<not> reached \<and> b_sponsor_closed b = None")
    case True
    with spec dr have "bounty_by (b_id b) d' = Some ((settle_reopen_row fin b)\<lparr>b_updated := e_now e\<rparr>)" "r = Settle_reopened"
      by auto
    with True one show ?thesis by (simp add: settle_reopen_row_def assms(4))
  next
    case False
    with spec dr show ?thesis unfolding one by (auto simp: settle_row_def)
  qed
qed

theorem settling_decides_witness:
  "snd (settle_one (env0 7200000) 1 due_bounty (db0\<lparr>bounties := [due_bounty], submissions := [submission0 ''s'' ''b'' ''u'' S_accepted]\<rparr>))
     = Settle_done B_completed True"
  using settling_decides [of "db0\<lparr>bounties := [due_bounty], submissions := [submission0 ''s'' ''b'' ''u'' S_accepted]\<rparr>"
      due_bounty 0 "env0 7200000" 1]
  by (auto simp: bounty_ids_def bounty_by_def db0_def open_dispute_def or_else_def
      count_submissions_def FINAL_ACCEPTED_STATUSES_def submission0_def)

text \<open>A pool full at its target, some of whose items still await a verdict when the window ends, is reopened
  by the sweep although it has no free slot; the next recount closes it again and starts a new window, so it never
  settles while a verdict is outstanding and is sampled afresh each time.\<close>

lemma full_pool_is_reopened:
  assumes "bounty_ids d" and "bounty_by (b_id b) d = Some b" and "b_closed_at b \<noteq> None" and "b_cycle_settled b = None"
    and "\<not> open_dispute (b_id b) d" and "b_cycle_opens b = Some t" and "\<not> window_open e h t b"
    and "b_target b > 0" and "count_submissions (b_id b) POOL_CAPACITY_STATUSES d = b_target b"
    and "count_submissions (b_id b) FINAL_ACCEPTED_STATUSES d < b_target b" and "b_sponsor_closed b = None"
  shows "\<exists>d1 b1 d2 c b2. settle_one e h b d = (d1, Settle_reopened) \<and> bounty_by (b_id b) d1 = Some b1
           \<and> b_closed_at b1 = None \<and> recomputeAcceptedItemCounters e' (b_id b) d1 = Some (d2, c) \<and> ac_closed c
           \<and> bounty_by (b_id b) d2 = Some b2 \<and> b_cycle_opens b2 = Some (e_now e') \<and> b_sampling_completed b2 = None"
proof -
  let ?fin = "count_submissions (b_id b) FINAL_ACCEPTED_STATUSES d"
  let ?d1 = "update_bounty e (\<lambda>x. b_id x = b_id b \<and> b_closed_at x \<noteq> None) (settle_reopen_row ?fin) d"
  let ?b1 = "(settle_reopen_row ?fin b)\<lparr>b_updated := e_now e\<rparr>"
  have not_reached: "\<not> (b_target b > 0 \<and> ?fin \<ge> b_target b)" using assms(10) by simp
  have txn: "settle_txn e b d = (?d1, Settle_reopened)" and by1: "bounty_by (b_id b) ?d1 = Some ?b1"
    using settle_txn_spec [OF assms(1-5), of e] not_reached assms(11) by auto
  then have one: "settle_one e h b d = (?d1, Settle_reopened)"
    using assms(5-7) by (simp add: settle_one_def)
  have cap: "count_submissions (b_id b) POOL_CAPACITY_STATUSES ?d1 = b_target b"
    using assms(9) by (simp add: count_submissions_def)
  have ids: "bounty_ids ?d1"
    using update_bounty_ids [of "settle_reopen_row ?fin" e _ d] assms(1) by simp
  note spec = recompute_spec [OF ids by1, of e']
  show ?thesis
    using spec one by1 cap assms(8)
    by (auto simp: recount_row_def settle_reopen_row_def close_row_def Let_def counted_row_def)
qed

lemma full_pool_is_reopened_witness:
  "\<exists>d1 d2 c. settle_one (env0 7200000) 1 due_bounty
       (db0\<lparr>bounties := [due_bounty], submissions := [submission0 ''s'' ''b'' ''u'' S_in_audit]\<rparr>) = (d1, Settle_reopened)
     \<and> recomputeAcceptedItemCounters (env0 7300000) ''b'' d1 = Some (d2, c) \<and> ac_closed c"
  using full_pool_is_reopened [of "db0\<lparr>bounties := [due_bounty], submissions := [submission0 ''s'' ''b'' ''u'' S_in_audit]\<rparr>"
      due_bounty 0 "env0 7200000" 1 "env0 7300000"]
  by (auto simp: bounty_ids_def bounty_by_def db0_def open_dispute_def
      count_submissions_def FINAL_ACCEPTED_STATUSES_def POOL_CAPACITY_STATUSES_def submission0_def)

end
