(* ===== verification/Pool_Sampling.thy ===== *)
theory Pool_Sampling
  imports Pool_Settlement
begin

text \<open>
  The close-out of a pool: \<open>runPoolSamplingJob\<close> of \<open>services/pool-lifecycle.ts\<close> draws the items a
  human will review, packs them into claimable windows with one audit batch each, and accepts the
  rest; \<open>createWindowAuditBatch\<close> of \<open>services/audit-routing.ts\<close>. The transaction and the
  notifications sent after its commit are separate, as in the code. \<open>seed\<close> is the shipped pricing
  matrix (\<open>CATEGORY_PRICING_SEED\<close>). Titles and prose are not modelled.
\<close>

section \<open>Window size and rank\<close>

definition HUMAN_AUDIT_WINDOW_SIZE_MIN :: int where
  "HUMAN_AUDIT_WINDOW_SIZE_MIN = 50"

definition HUMAN_AUDIT_WINDOW_SIZE_MAX :: int where
  "HUMAN_AUDIT_WINDOW_SIZE_MAX = 100"

definition HUMAN_AUDIT_WINDOW_SIZE_DEFAULT :: int where
  "HUMAN_AUDIT_WINDOW_SIZE_DEFAULT = HUMAN_AUDIT_WINDOW_SIZE_MIN"

definition clampHumanAuditWindowSize :: "json option \<Rightarrow> int option" where
  "clampHumanAuditWindowSize v =
     (if \<not> is_int_num v \<or> num_of v < 1 then None
      else Some (min HUMAN_AUDIT_WINDOW_SIZE_MAX (max HUMAN_AUDIT_WINDOW_SIZE_MIN (int_of v))))"

definition resolveHumanAuditWindowSize :: "env \<Rightarrow> int option \<Rightarrow> int" where
  "resolveHumanAuditWindowSize e perBounty =
     (case clampHumanAuditWindowSize (map_option (\<lambda>n. JNum (real_of_int n)) perBounty) of
        Some n \<Rightarrow> n
      | None \<Rightarrow> or_else (clampHumanAuditWindowSize (e_setting e ''community.human_audit_window_size''))
                  HUMAN_AUDIT_WINDOW_SIZE_DEFAULT)"

definition hmacRank :: "env \<Rightarrow> ident \<Rightarrow> ident \<Rightarrow> ident \<Rightarrow> string" where
  "hmacRank e bid wid sid = e_hmac e (bid @ '':'' @ wid @ '':'' @ sid)"

section \<open>The draw\<close>

definition eligible_items :: "ident \<Rightarrow> db \<Rightarrow> submission_row list" where
  "eligible_items bid d = filter (\<lambda>s. s_bounty s = bid \<and> s_status s = S_accepted_pending_sample) (submissions d)"

definition prior_window :: "ident \<Rightarrow> db \<Rightarrow> window_row option" where
  "prior_window bid d =
     (case sort_key (\<lambda>w. - w_index w) (filter (\<lambda>w. w_bounty w = bid) (windows d)) of [] \<Rightarrow> None | w # _ \<Rightarrow> Some w)"

record draw_numbers =
  dn_index :: int
  dn_quota :: int
  dn_carry :: int

definition draw_of :: "int \<Rightarrow> nat \<Rightarrow> window_row option \<Rightarrow> draw_numbers" where
  "draw_of coverage n prior =
     (let numerator = int n * coverage + or_else (map_option w_carry prior) 0
      in \<lparr>dn_index = or_else (map_option w_index prior) 0 + 1, dn_quota = numerator div 100, dn_carry = numerator mod 100\<rparr>)"

definition rank_in :: "env \<Rightarrow> ident \<Rightarrow> ident \<Rightarrow> submission_row \<Rightarrow> string" where
  "rank_in e bid wid s = hmacRank e bid wid (s_id s)"

definition ranked_clean :: "env \<Rightarrow> ident \<Rightarrow> ident \<Rightarrow> submission_row list \<Rightarrow> submission_row list" where
  "ranked_clean e bid wid es = sort_key (rank_in e bid wid) (filter (\<lambda>s. \<not> s_pending_review s) es)"

definition randomly_selected :: "env \<Rightarrow> ident \<Rightarrow> ident \<Rightarrow> int \<Rightarrow> submission_row list \<Rightarrow> ident list" where
  "randomly_selected e bid wid quota es =
     (let ranked = ranked_clean e bid wid es
      in map s_id (take (nat (min quota (int (length ranked)))) ranked))"

definition ordered_selected :: "env \<Rightarrow> ident \<Rightarrow> ident \<Rightarrow> int \<Rightarrow> submission_row list \<Rightarrow> ident list" where
  "ordered_selected e bid wid quota es =
     sort_key (hmacRank e bid wid) (map s_id (filter s_pending_review es))
     @ map s_id (filter (\<lambda>s. s_id s \<in> set (randomly_selected e bid wid quota es)) (ranked_clean e bid wid es))"

text \<open>The packing loop. The size is at least 50, so the stop at size 0 is never used.\<close>

function chunks_of :: "nat \<Rightarrow> 'a list \<Rightarrow> 'a list list" where
  "chunks_of n xs = (if xs = [] \<or> n = 0 then [] else take n xs # chunks_of n (drop n xs))"
  by auto
termination by (relation "measure (\<lambda>(n, xs). length xs)") auto

declare chunks_of.simps [simp del]

definition window_chunks :: "int \<Rightarrow> ident list \<Rightarrow> ident list list" where
  "window_chunks n xs = (case chunks_of (nat n) xs of [] \<Rightarrow> [[]] | cs \<Rightarrow> cs)"

section \<open>Rows written\<close>

definition new_window :: "env \<Rightarrow> ident \<Rightarrow> int \<Rightarrow> int \<Rightarrow> int \<Rightarrow> int \<Rightarrow> string \<Rightarrow> db \<Rightarrow> window_row" where
  "new_window e bid idx eligible quota carry reason d =
     \<lparr>w_id = fresh e d, w_bounty = bid, w_index = idx, w_eligible = eligible, w_quota = quota, w_carry = carry,
      w_reason = reason, w_closed_at = e_now e, w_settled_at = None, w_failed_at = None, w_rejected = None,
      w_superseded_at = None, w_superseded_reason = None, w_claimed_by = None, w_claimed_at = None,
      w_expires = None, w_batch = None\<rparr>"

definition create_window :: "env \<Rightarrow> ident \<Rightarrow> int \<Rightarrow> int \<Rightarrow> int \<Rightarrow> int \<Rightarrow> string \<Rightarrow> db \<Rightarrow> db \<times> ident" where
  "create_window e bid idx eligible quota carry reason d =
     (d\<lparr>windows := windows d @ [new_window e bid idx eligible quota carry reason d], db_seq := Suc (db_seq d)\<rparr>, fresh e d)"

fun extra_windows :: "env \<Rightarrow> ident \<Rightarrow> int \<Rightarrow> ident list list \<Rightarrow> db \<Rightarrow> db \<times> ident list" where
  "extra_windows e bid idx [] d = (d, [])"
| "extra_windows e bid idx (c # cs) d =
     (case create_window e bid idx (int (length c)) (int (length c)) 0 ''pool_target_reached_window_split'' d of
        (d1, wid) \<Rightarrow> (case extra_windows e bid (idx + 1) cs d1 of (d2, ws) \<Rightarrow> (d2, wid # ws)))"

definition new_member :: "env \<Rightarrow> ident \<Rightarrow> bool \<Rightarrow> ident \<Rightarrow> ident \<Rightarrow> db \<Rightarrow> member_row" where
  "new_member e bid sel wid sid d =
     \<lparr>m_id = fresh e d, m_window = wid, m_submission = sid, m_selected = sel, m_rank = hmacRank e bid wid sid\<rparr>"

definition create_member :: "env \<Rightarrow> ident \<Rightarrow> bool \<Rightarrow> ident \<times> ident \<Rightarrow> db \<Rightarrow> db" where
  "create_member e bid sel ws d =
     d\<lparr>members := members d @ [new_member e bid sel (fst ws) (snd ws) d], db_seq := Suc (db_seq d)\<rparr>"

definition selected_pairs :: "ident list \<Rightarrow> ident list list \<Rightarrow> (ident \<times> ident) list" where
  "selected_pairs wids chunks = concat (map (\<lambda>(w, c). map (Pair w) c) (zip wids chunks))"

definition new_audit_item :: "env \<Rightarrow> ident \<Rightarrow> ident \<Rightarrow> db \<Rightarrow> audit_item_row" where
  "new_audit_item e batch sid d =
     \<lparr>ai_id = fresh e d, ai_batch = batch, ai_submission = sid, ai_verdict = None, ai_reason = None, ai_note = None,
      ai_decided = None\<rparr>"

definition create_item :: "env \<Rightarrow> ident \<Rightarrow> ident \<Rightarrow> db \<Rightarrow> db" where
  "create_item e batch sid d = d\<lparr>aitems := aitems d @ [new_audit_item e batch sid d], db_seq := Suc (db_seq d)\<rparr>"

definition createWindowAuditBatch :: "env \<Rightarrow> ident \<Rightarrow> ident list \<Rightarrow> db \<Rightarrow> db \<times> ident option" where
  "createWindowAuditBatch e bid sids d =
     (if sids = [] then (d, None)
      else let k = fresh e d;
               row = \<lparr>ab_id = k, ab_bounty = bid, ab_validator = None, ab_count = int (length sids),
                      ab_status = ''available'', ab_deadline = None, ab_claimed_at = None, ab_created = e_now e\<rparr>
           in (fold (create_item e k) sids (d\<lparr>abatches := abatches d @ [row], db_seq := Suc (db_seq d)\<rparr>), Some k))"

text \<open>Linking a chunk's batch; a batch that lost the race is deleted with its items.\<close>

definition link_batch :: "env \<Rightarrow> ident \<Rightarrow> ident \<times> ident list \<Rightarrow> db \<Rightarrow> db" where
  "link_batch e bid wc d =
     (if snd wc = [] then d
      else if Option.bind (window_by (fst wc) d) w_batch \<noteq> None then d
      else (case createWindowAuditBatch e bid (snd wc) d of
              (d1, None) \<Rightarrow> d1
            | (d1, Some k) \<Rightarrow>
                (let linkable = (\<lambda>w. w_id w = fst wc \<and> w_batch w = None)
                 in if count_where linkable (windows d1) = 0
                    then d1\<lparr>aitems := filter (\<lambda>i. ai_batch i \<noteq> k) (aitems d1),
                            abatches := filter (\<lambda>b. ab_id b \<noteq> k) (abatches d1)\<rparr>
                    else set_window linkable (\<lambda>w. w\<lparr>w_batch := Some k\<rparr>) d1)))"

definition set_status :: "env \<Rightarrow> ident list \<Rightarrow> (submission_row \<Rightarrow> submission_row) \<Rightarrow> db \<Rightarrow> db" where
  "set_status e ids f d = set_submission (\<lambda>s. s_id s \<in> set ids) (\<lambda>s. (f s)\<lparr>s_updated := e_now e\<rparr>) d"

definition to_sponsor_row :: "submission_row \<Rightarrow> submission_row" where
  "to_sponsor_row s = s\<lparr>s_status := S_in_sponsor_review\<rparr>"

definition to_audit_row :: "submission_row \<Rightarrow> submission_row" where
  "to_audit_row s = s\<lparr>s_status := S_in_audit\<rparr>"

definition to_accepted_row :: "time \<Rightarrow> submission_row \<Rightarrow> submission_row" where
  "to_accepted_row now s = s\<lparr>s_status := S_accepted, s_accepted_at := Some now\<rparr>"

definition sampling_done :: "env \<Rightarrow> ident \<Rightarrow> db \<Rightarrow> db" where
  "sampling_done e bid d =
     update_bounty e (\<lambda>b. b_id b = bid) (\<lambda>b. b\<lparr>b_sampling_completed := Some (e_now e)\<rparr>) d"

section \<open>Accepting the items that were not drawn\<close>

datatype sampling_error = Sampling_no_bounty | Sampling_award hold_error

definition sampling_award :: "matrix_config \<Rightarrow> env \<Rightarrow> bounty_row \<Rightarrow> submission_row \<Rightarrow> award_params" where
  "sampling_award seed e b s =
     \<lparr>ap_user = s_contributor s, ap_type = K_item_accepted,
      ap_amount = fst (acceptedItemKarmaForBounty (b_per_item b) (b_difficulty b) (b_quote b)
                         (fst (getKarmaRules (e_setting e ''karma.rules'')))
                         (Some (effectiveTypePricing (map_option dt_id (b_type b)) (b_type b)
                                  (fst (getKarmaMatrix seed (e_setting e ''karma.matrix'')))))
                         DEFAULT_KARMA_PRICING_TABLE),
      ap_source_type = ''Submission'', ap_source_id = s_id s\<rparr>"

fun award_all :: "matrix_config \<Rightarrow> env \<Rightarrow> bounty_row \<Rightarrow> submission_row list \<Rightarrow> db \<Rightarrow> sampling_error + db" where
  "award_all seed e b [] d = Inr d"
| "award_all seed e b (s # ss) d =
     (case awardOrHoldAcceptedItemKarma e None (b_id b) (sampling_award seed e b s) d of
        Inl err \<Rightarrow> Inl (Sampling_award err)
      | Inr (d', _) \<Rightarrow> award_all seed e b ss d')"

definition accept_unselected :: "matrix_config \<Rightarrow> env \<Rightarrow> bounty_row \<Rightarrow> submission_row list \<Rightarrow> db \<Rightarrow> sampling_error + db" where
  "accept_unselected seed e b ss d =
     (if ss = [] then Inr d
      else (case recomputeAcceptedItemCounters e (b_id b) (set_status e (map s_id ss) (to_accepted_row (e_now e)) d) of
              None \<Rightarrow> Inl Sampling_no_bounty
            | Some (d1, _) \<Rightarrow> award_all seed e b ss d1))"

section \<open>The job\<close>

datatype skip_reason = Skip_no_bounty | Skip_not_closed | Skip_already_completed | Skip_lost_race

record sampling_counts =
  sm_windows :: "ident list"
  sm_eligible :: nat
  sm_selected :: nat
  sm_accepted :: nat
  sm_sponsor :: nat

datatype sampling_note = Note_user ident string string string ident ident | Note_fanout job_request

definition sponsor_of :: "bounty_row \<Rightarrow> ident" where
  "sponsor_of b = or_else (b_community_requester b) (b_requester b)"

definition close_tag :: "bounty_row \<Rightarrow> string" where
  "close_tag b = b_id b @ '':close:'' @ show_int (or_else (b_closed_at b) 0)"

definition item_tag :: "submission_row \<Rightarrow> string" where
  "item_tag s = s_id s @ '':pool_close_out:'' @ show_int (s_revisions s)"

definition item_note :: "string \<Rightarrow> ident \<Rightarrow> submission_row \<Rightarrow> sampling_note" where
  "item_note typ bid s = Note_user (s_contributor s) typ (typ @ '':'' @ item_tag s) ''Submission'' (s_id s) bid"

definition pool_note :: "string \<Rightarrow> bounty_row \<Rightarrow> sampling_note" where
  "pool_note typ b = Note_user (sponsor_of b) typ (typ @ '':'' @ close_tag b) ''Bounty'' (b_id b) (b_id b)"

definition emitAuditAvailableMatches :: "bounty_row \<Rightarrow> ident option \<Rightarrow> job_request" where
  "emitAuditAvailableMatches b wid =
     \<lparr>jq_type = ''notifications.fanout_watchers'',
      jq_key = ''fanout:audit_available:'' @ or_else wid (b_id b),
      jq_payload = JObj [(''kind'', JStr ''audit_available''), (''entityId'', JStr (b_id b)),
                         (''domain'', JStr (case b_type b of None \<Rightarrow> ''coding'' | Some t \<Rightarrow> dt_domain t)),
                         (''requesterUserId'', JStr (sponsor_of b))],
      jq_max = None, jq_workspace = None, jq_run_after = None\<rparr>"

type_synonym sampling_result = "sampling_error + (db \<times> (skip_reason + sampling_counts) \<times> sampling_note list)"

text \<open>No validator coverage: every item goes to the sponsor, and no window is opened.\<close>

definition sample_to_sponsor :: "env \<Rightarrow> bounty_row \<Rightarrow> submission_row list \<Rightarrow> db \<Rightarrow> sampling_result" where
  "sample_to_sponsor e b es d =
     Inr (sampling_done e (b_id b) (set_status e (map s_id es) to_sponsor_row d),
          Inr \<lparr>sm_windows = [], sm_eligible = length es, sm_selected = 0, sm_accepted = 0, sm_sponsor = length es\<rparr>,
          pool_note ''pool.sponsor_review_ready'' b
            # map (item_note ''submission.pending_sponsor_review'' (b_id b)) es)"

text \<open>The windows of a draw: the primary one, its continuations, and the corrected quota on a split.\<close>

definition open_windows :: "env \<Rightarrow> bounty_row \<Rightarrow> submission_row list \<Rightarrow> db \<Rightarrow> db \<times> ident list \<times> ident list list" where
  "open_windows e b es d =
     (let dr = draw_of (b_coverage b) (length es) (prior_window (b_id b) d);
          (d1, wid) = create_window e (b_id b) (dn_index dr) (int (length es)) (dn_quota dr) (dn_carry dr) ''pool_target_reached'' d;
          chunks = window_chunks (resolveHumanAuditWindowSize e (b_window_size b))
                     (ordered_selected e (b_id b) wid (dn_quota dr) es);
          (d2, wids) = extra_windows e (b_id b) (dn_index dr + 1) (tl chunks) d1;
          d3 = (if length chunks > 1 then set_window (\<lambda>w. w_id w = wid) (\<lambda>w. w\<lparr>w_quota := int (length (hd chunks))\<rparr>) d2 else d2)
      in (d3, wid # wids, chunks))"

definition sample_windows :: "matrix_config \<Rightarrow> env \<Rightarrow> bounty_row \<Rightarrow> submission_row list \<Rightarrow> db \<Rightarrow> sampling_result" where
  "sample_windows seed e b es d =
     (let (d1, wids, chunks) = open_windows e b es d;
          selected = concat chunks;
          unselected = filter (\<lambda>s. s_id s \<notin> set selected) es;
          d2 = fold (create_member e (b_id b) True) (selected_pairs wids chunks) d1;
          d3 = fold (create_member e (b_id b) False) (map (\<lambda>s. (hd wids, s_id s)) unselected) d2;
          d4 = (if selected = [] then d3
                else fold (link_batch e (b_id b)) (zip wids chunks) (set_status e selected to_audit_row d3))
      in case accept_unselected seed e b unselected d4 of
           Inl err \<Rightarrow> Inl err
         | Inr d5 \<Rightarrow>
             Inr (sampling_done e (b_id b) d5,
                  Inr \<lparr>sm_windows = wids, sm_eligible = length es, sm_selected = length selected,
                       sm_accepted = length unselected, sm_sponsor = 0\<rparr>,
                  (if selected = [] then [] else [Note_fanout (emitAuditAvailableMatches b None)])
                  @ pool_note ''pool.sampling_started'' b
                  # map (\<lambda>s. item_note (if s_id s \<in> set selected then ''submission.sampled_for_audit''
                                        else ''submission.auto_accepted'') (b_id b) s) es))"

definition sampling_txn :: "matrix_config \<Rightarrow> env \<Rightarrow> ident \<Rightarrow> db \<Rightarrow> sampling_result" where
  "sampling_txn seed e bid d =
     (case bounty_by bid d of
        None \<Rightarrow> Inr (d, Inl Skip_no_bounty, [])
      | Some b \<Rightarrow>
          (if b_closed_at b = None then Inr (d, Inl Skip_not_closed, [])
           else if b_sampling_completed b \<noteq> None then Inr (d, Inl Skip_already_completed, [])
           else let open_row = (\<lambda>x. b_id x = bid \<and> b_sampling_completed x = None)
                in if count_where open_row (bounties d) = 0 then Inr (d, Inl Skip_lost_race, [])
                   else let d1 = update_bounty e open_row
                                   (\<lambda>x. x\<lparr>b_sampling_started := Some (or_else (b_sampling_started b) (e_now e))\<rparr>) d;
                            es = eligible_items bid d1
                        in if es = []
                           then Inr (sampling_done e bid d1,
                                     Inr \<lparr>sm_windows = [], sm_eligible = 0, sm_selected = 0, sm_accepted = 0, sm_sponsor = 0\<rparr>, [])
                           else if b_coverage b = 0 then sample_to_sponsor e b es d1
                           else sample_windows seed e b es d1))"

fun send_note :: "env \<Rightarrow> sampling_note \<Rightarrow> db \<Rightarrow> db" where
  "send_note e (Note_user u typ key ent i bid) d = notifyUser e u typ (Some key) (Some ent) (Some i) (Some bid) d"
| "send_note e (Note_fanout q) d = fst (enqueue e q d)"

definition runPoolSamplingJob :: "matrix_config \<Rightarrow> env \<Rightarrow> ident \<Rightarrow> db \<Rightarrow> db \<times> (sampling_error + (skip_reason + sampling_counts))" where
  "runPoolSamplingJob seed e bid d =
     (case sampling_txn seed e bid d of
        Inl err \<Rightarrow> (d, Inl err)
      | Inr (d', r, notes) \<Rightarrow> (fold (send_note e) notes d', Inr r))"

section \<open>Facts: packing and drawing\<close>

lemma size_bounds:
  "HUMAN_AUDIT_WINDOW_SIZE_MIN \<le> resolveHumanAuditWindowSize e p" "resolveHumanAuditWindowSize e p \<le> HUMAN_AUDIT_WINDOW_SIZE_MAX"
proof -
  have c: "HUMAN_AUDIT_WINDOW_SIZE_MIN \<le> n \<and> n \<le> HUMAN_AUDIT_WINDOW_SIZE_MAX" if "clampHumanAuditWindowSize v = Some n" for v n
    using that by (auto simp: clampHumanAuditWindowSize_def HUMAN_AUDIT_WINDOW_SIZE_MIN_def HUMAN_AUDIT_WINDOW_SIZE_MAX_def
        split: if_splits)
  have d: "HUMAN_AUDIT_WINDOW_SIZE_MIN \<le> or_else (clampHumanAuditWindowSize v) HUMAN_AUDIT_WINDOW_SIZE_DEFAULT
     \<and> or_else (clampHumanAuditWindowSize v) HUMAN_AUDIT_WINDOW_SIZE_DEFAULT \<le> HUMAN_AUDIT_WINDOW_SIZE_MAX" for v
    using c by (cases "clampHumanAuditWindowSize v")
      (auto simp: or_else_def HUMAN_AUDIT_WINDOW_SIZE_DEFAULT_def HUMAN_AUDIT_WINDOW_SIZE_MIN_def HUMAN_AUDIT_WINDOW_SIZE_MAX_def)
  show "HUMAN_AUDIT_WINDOW_SIZE_MIN \<le> resolveHumanAuditWindowSize e p" "resolveHumanAuditWindowSize e p \<le> HUMAN_AUDIT_WINDOW_SIZE_MAX"
    using c d by (auto simp: resolveHumanAuditWindowSize_def split: option.split)
qed

lemma concat_chunks: "n > 0 \<Longrightarrow> concat (chunks_of n xs) = xs"
  by (induction n xs rule: chunks_of.induct) (subst chunks_of.simps, auto)

lemma chunk_sizes: "c \<in> set (chunks_of n xs) \<Longrightarrow> c \<noteq> [] \<and> length c \<le> n"
proof (induction n xs rule: chunks_of.induct)
  case (1 n xs)
  show ?case
  proof (cases "xs = [] \<or> n = 0")
    case True
    with 1(2) show ?thesis by (subst (asm) chunks_of.simps) auto
  next
    case False
    with 1 show ?thesis by (subst (asm) (2) chunks_of.simps) auto
  qed
qed

lemma window_chunks_spec:
  assumes "n > 0"
  shows "concat (window_chunks n xs) = xs" "\<forall>c \<in> set (window_chunks n xs). int (length c) \<le> n"
    "window_chunks n xs \<noteq> []" "\<forall>c \<in> set (tl (window_chunks n xs)). c \<noteq> []"
proof -
  have "concat (chunks_of (nat n) xs) = xs" using assms by (simp add: concat_chunks)
  moreover have "\<forall>c \<in> set (chunks_of (nat n) xs). c \<noteq> [] \<and> int (length c) \<le> n"
    using chunk_sizes [of _ "nat n" xs] assms by fastforce
  ultimately show "concat (window_chunks n xs) = xs" "\<forall>c \<in> set (window_chunks n xs). int (length c) \<le> n"
    "window_chunks n xs \<noteq> []" "\<forall>c \<in> set (tl (window_chunks n xs)). c \<noteq> []"
    using assms by (auto simp: window_chunks_def split: list.split)
qed

lemma filter_taken:
  assumes "distinct (map f xs)"
  shows "filter (\<lambda>x. f x \<in> set (map f (take k xs))) xs = take k xs"
proof -
  have "filter (\<lambda>x. f x \<in> set (map f (take k xs))) (take k xs @ drop k xs) = take k xs @ []"
    unfolding filter_append
  proof (rule arg_cong2 [where f = append])
    have "set (map f (take k xs)) \<inter> set (map f (drop k xs)) = {}"
      using assms by (metis append_take_drop_id distinct_append map_append)
    then show "filter (\<lambda>x. f x \<in> set (map f (take k xs))) (drop k xs) = []"
      by (auto simp: filter_empty_conv)
  qed (simp add: filter_id_conv)
  then show ?thesis by simp
qed

lemma distinct_filter_map: "distinct (map f xs) \<Longrightarrow> distinct (map f (filter P xs))"
  by (induction xs) auto

lemma ranked_clean_ids:
  assumes "distinct (map s_id es)"
  shows "distinct (map s_id (ranked_clean e bid wid es))"
  using distinct_filter_map [OF assms, of "\<lambda>s. \<not> s_pending_review s"]
  by (simp add: ranked_clean_def distinct_map inj_on_def)

text \<open>The draw: every forced item and the first \<open>quota\<close> clean ones by rank, each once.\<close>

lemma ordered_selected_spec:
  fixes e :: env and bid wid :: ident
  assumes "distinct (map s_id es)" and "quota \<ge> 0"
  defines "clean \<equiv> ranked_clean e bid wid es"
  shows "set (ordered_selected e bid wid quota es)
           = s_id ` {s \<in> set es. s_pending_review s} \<union> s_id ` set (take (nat quota) clean)"
    and "length (ordered_selected e bid wid quota es)
           = length (filter s_pending_review es) + min (nat quota) (length (filter (\<lambda>s. \<not> s_pending_review s) es))"
    and "distinct (ordered_selected e bid wid quota es)"
proof -
  let ?k = "nat (min quota (int (length clean)))"
  have cl: "distinct (map s_id clean)" unfolding clean_def by (rule ranked_clean_ids [OF assms(1)])
  have len: "length clean = length (filter (\<lambda>s. \<not> s_pending_review s) es)" by (simp add: clean_def ranked_clean_def)
  have tk: "take ?k clean = take (nat quota) clean"
    using assms(2) by (cases "quota \<le> int (length clean)") (simp_all add: min_def)
  have f: "filter (\<lambda>s. s_id s \<in> set (randomly_selected e bid wid quota es)) clean = take (nat quota) clean"
    using filter_taken [OF cl, of ?k] tk by (simp add: randomly_selected_def Let_def clean_def)
  have os: "ordered_selected e bid wid quota es
      = sort_key (hmacRank e bid wid) (map s_id (filter s_pending_review es)) @ map s_id (take (nat quota) clean)"
    using f by (simp add: ordered_selected_def clean_def)
  then show "set (ordered_selected e bid wid quota es)
           = s_id ` {s \<in> set es. s_pending_review s} \<union> s_id ` set (take (nat quota) clean)" by simp
  show "length (ordered_selected e bid wid quota es)
           = length (filter s_pending_review es) + min (nat quota) (length (filter (\<lambda>s. \<not> s_pending_review s) es))"
    using os len by (simp add: min.commute)
  have sub: "set (take (nat quota) clean) \<subseteq> {s \<in> set es. \<not> s_pending_review s}"
    using set_take_subset [of "nat quota" clean] by (auto simp: clean_def ranked_clean_def)
  have "distinct (map s_id (take (nat quota) clean))" using cl by (metis distinct_take take_map)
  moreover have "distinct (map s_id (filter s_pending_review es))" by (rule distinct_filter_map [OF assms(1)])
  moreover have "s_id s \<noteq> s_id t" if "s \<in> set es" "s_pending_review s" "t \<in> set (take (nat quota) clean)" for s t
    using assms(1) that sub by (auto simp: distinct_map inj_on_def)
  ultimately show "distinct (ordered_selected e bid wid quota es)"
    unfolding os by auto
qed

section \<open>Facts: what the writes leave alone\<close>

definition window_frame :: "db \<Rightarrow> db \<Rightarrow> bool" where
  "window_frame d d' \<longleftrightarrow> submissions d' = submissions d \<and> bounties d' = bounties d \<and> users d' = users d
     \<and> kevents d' = kevents d \<and> awards d' = awards d \<and> jobs d' = jobs d"

lemma window_frame_refl [simp]: "window_frame d d"
  by (simp add: window_frame_def)

lemma window_frame_trans: "window_frame d d' \<Longrightarrow> window_frame d' d'' \<Longrightarrow> window_frame d d''"
  by (simp add: window_frame_def)

lemma window_frame_fold: "(\<And>x d. window_frame d (f x d)) \<Longrightarrow> window_frame d (fold f xs d)"
  by (induction xs arbitrary: d) (auto intro: window_frame_trans)

lemma create_member_frame: "window_frame d (create_member e bid sel ws d)"
  by (simp add: create_member_def window_frame_def)

lemma create_batch_frame: "window_frame d (fst (createWindowAuditBatch e bid ids d))"
proof -
  have "window_frame d (fold (create_item e k) ids (d\<lparr>abatches := a, db_seq := n\<rparr>))" for k a n
    using window_frame_fold [of "create_item e k" "d\<lparr>abatches := a, db_seq := n\<rparr>" ids]
    by (simp add: window_frame_def create_item_def)
  then show ?thesis by (simp add: createWindowAuditBatch_def Let_def)
qed

lemma set_window_frame: "window_frame d (set_window P f d)"
  by (simp add: set_window_def window_frame_def)

lemma link_batch_frame: "window_frame d (link_batch e bid wc d)"
proof -
  obtain d1 k where c: "createWindowAuditBatch e bid (snd wc) d = (d1, k)" by force
  then have f: "window_frame d d1" using create_batch_frame [of d e bid "snd wc"] by simp
  then have "window_frame d (set_window P g d1)" for P g by (rule window_frame_trans) (rule set_window_frame)
  moreover have "window_frame d (d1\<lparr>aitems := x, abatches := y\<rparr>)" for x y using f by (simp add: window_frame_def)
  ultimately show ?thesis using c f by (simp add: link_batch_def Let_def split: option.split)
qed

lemma extra_windows_frame: "window_frame d (fst (extra_windows e bid i cs d))"
proof (induction cs arbitrary: i d)
  case Nil
  then show ?case by simp
next
  case (Cons c cs)
  have "window_frame d (fst (create_window e bid i x y z r d))" for x y z r
    by (simp add: create_window_def window_frame_def)
  from window_frame_trans [OF this Cons.IH] show ?case by (simp add: case_prod_beta)
qed

lemma extra_windows_length: "length (snd (extra_windows e bid i cs d)) = length cs"
  by (induction cs arbitrary: i d) (simp_all add: case_prod_beta)

definition drawn_ids :: "env \<Rightarrow> bounty_row \<Rightarrow> submission_row list \<Rightarrow> db \<Rightarrow> ident list" where
  "drawn_ids e b es d =
     ordered_selected e (b_id b) (fresh e d) (dn_quota (draw_of (b_coverage b) (length es) (prior_window (b_id b) d))) es"

lemma open_windows_eq:
  fixes e :: env and b :: bounty_row and es :: "submission_row list" and d :: db
  defines "dr \<equiv> draw_of (b_coverage b) (length es) (prior_window (b_id b) d)"
  defines "chunks \<equiv> window_chunks (resolveHumanAuditWindowSize e (b_window_size b)) (drawn_ids e b es d)"
  defines "d0 \<equiv> fst (create_window e (b_id b) (dn_index dr) (int (length es)) (dn_quota dr) (dn_carry dr) ''pool_target_reached'' d)"
  defines "ex \<equiv> extra_windows e (b_id b) (dn_index dr + 1) (tl chunks) d0"
  shows "open_windows e b es d
     = (if length chunks > 1 then set_window (\<lambda>w. w_id w = fresh e d) (\<lambda>w. w\<lparr>w_quota := int (length (hd chunks))\<rparr>) (fst ex)
        else fst ex, fresh e d # snd ex, chunks)"
  by (simp add: open_windows_def Let_def case_prod_beta create_window_def drawn_ids_def dr_def chunks_def d0_def ex_def)

lemma open_windows_spec:
  assumes "open_windows e b es d = (d1, wids, chunks)"
  shows "window_frame d d1" and "hd wids = fresh e d" and "length wids = length chunks"
    and "chunks = window_chunks (resolveHumanAuditWindowSize e (b_window_size b)) (drawn_ids e b es d)"
    and "concat chunks = drawn_ids e b es d"
proof -
  let ?n = "resolveHumanAuditWindowSize e (b_window_size b)"
  have pos: "?n > 0" using size_bounds(1) [of e "b_window_size b"] by (simp add: HUMAN_AUDIT_WINDOW_SIZE_MIN_def)
  show ch: "chunks = window_chunks ?n (drawn_ids e b es d)"
    using assms by (simp add: open_windows_eq)
  with pos show "concat chunks = drawn_ids e b es d" by (simp add: window_chunks_spec)
  show "hd wids = fresh e d" using assms by (auto simp: open_windows_eq)
  have "chunks \<noteq> []" using ch pos by (simp add: window_chunks_spec)
  then have "Suc (length (tl chunks)) = length chunks" by simp
  then show "length wids = length chunks"
    using assms by (auto simp: open_windows_eq extra_windows_length)
  have x: "window_frame d (fst (extra_windows e k i cs (fst (create_window e k j m q c r d))))" for k i cs j m q c r
    by (rule window_frame_trans [OF _ extra_windows_frame]) (simp add: create_window_def window_frame_def)
  show "window_frame d d1"
    using assms x window_frame_trans [OF x set_window_frame] by (auto simp: open_windows_eq split: if_splits)
qed

lemma set_status_frame [simp]:
  "bounties (set_status e ids f d) = bounties d" "windows (set_status e ids f d) = windows d"
  "members (set_status e ids f d) = members d" "aitems (set_status e ids f d) = aitems d"
  "abatches (set_status e ids f d) = abatches d" "db_seq (set_status e ids f d) = db_seq d"
  "jobs (set_status e ids f d) = jobs d"
  "submissions (set_status e ids f d) = update_where (\<lambda>s. s_id s \<in> set ids) (\<lambda>s. (f s)\<lparr>s_updated := e_now e\<rparr>) (submissions d)"
  by (simp_all add: set_status_def set_submission_def)

definition award_frame :: "db \<Rightarrow> db \<Rightarrow> bool" where
  "award_frame d d' \<longleftrightarrow> submissions d' = submissions d \<and> bounties d' = bounties d \<and> windows d' = windows d
     \<and> members d' = members d \<and> aitems d' = aitems d \<and> abatches d' = abatches d \<and> ranks d' = ranks d"

lemma award_frame_trans: "award_frame d d' \<Longrightarrow> award_frame d' d'' \<Longrightarrow> award_frame d d''"
  by (simp add: award_frame_def)

lemma award_or_hold_frame:
  assumes "awardOrHoldAcceptedItemKarma e g k p d = Inr (d', r)"
  shows "award_frame d d'"
proof -
  have "award_frame d d1" if "awardKarma e p d = Inr (d1, x)" for d1 x
    using that by (auto simp: awardKarma_def award_frame_def post_event_def split: option.splits)
  moreover have "award_frame d d1" if "queuePendingKarmaAward e k p d = Inr (d1, x)" for d1 x
    using that by (auto simp: queuePendingKarmaAward_def award_frame_def split: prod.splits bool.splits if_splits)
  ultimately show ?thesis
    using assms by (auto simp: awardOrHoldAcceptedItemKarma_def split: sum.splits if_splits)
qed

lemma award_all_frame: "award_all seed e b ss d = Inr d' \<Longrightarrow> award_frame d d'"
proof (induction ss arbitrary: d)
  case Nil
  then show ?case by (simp add: award_frame_def)
next
  case (Cons s ss)
  then show ?case
    by (auto split: sum.splits prod.splits intro: award_frame_trans dest: award_or_hold_frame)
qed

text \<open>The close-out of a pool with coverage: the rows it leaves.\<close>

definition audit_or_accept :: "env \<Rightarrow> ident list \<Rightarrow> submission_row list \<Rightarrow> submission_row list \<Rightarrow> submission_row list" where
  "audit_or_accept e sel un rows =
     update_where (\<lambda>s. s_id s \<in> set (map s_id un)) (\<lambda>s. (to_accepted_row (e_now e) s)\<lparr>s_updated := e_now e\<rparr>)
       (update_where (\<lambda>s. s_id s \<in> set sel) (\<lambda>s. (to_audit_row s)\<lparr>s_updated := e_now e\<rparr>) rows)"

definition left_out :: "env \<Rightarrow> bounty_row \<Rightarrow> submission_row list \<Rightarrow> db \<Rightarrow> submission_row list" where
  "left_out e b es d = filter (\<lambda>s. s_id s \<notin> set (drawn_ids e b es d)) es"

lemma sample_windows_spec:
  assumes "sample_windows seed e b es d = Inr (d', r, ns)" and "bounty_ids d" and "bounty_by (b_id b) d = Some b0"
  defines "sel \<equiv> drawn_ids e b es d" and "un \<equiv> left_out e b es d"
  defines "acc \<equiv> count_submissions (b_id b) POOL_CAPACITY_STATUSES d'" and "fin \<equiv> count_submissions (b_id b) FINAL_ACCEPTED_STATUSES d'"
  shows "submissions d' = audit_or_accept e sel un (submissions d)"
    and "bounty_by (b_id b) d'
           = Some ((if un = [] then b0 else recount_row e acc fin b0)\<lparr>b_sampling_completed := Some (e_now e), b_updated := e_now e\<rparr>)"
    and "\<exists>wids. r = Inr \<lparr>sm_windows = wids, sm_eligible = length es, sm_selected = length sel, sm_accepted = length un, sm_sponsor = 0\<rparr>"
    and "bounty_ids d'"
proof -
  obtain d1 wids chunks where ow: "open_windows e b es d = (d1, wids, chunks)" by (cases "open_windows e b es d")
  have sel: "concat chunks = sel" using open_windows_spec(5) [OF ow] by (simp add: sel_def)
  have un: "filter (\<lambda>s. s_id s \<notin> set sel) es = un" by (simp add: un_def left_out_def sel_def)
  define d3 where "d3 = fold (create_member e (b_id b) False) (map (\<lambda>s. (hd wids, s_id s)) un)
                          (fold (create_member e (b_id b) True) (selected_pairs wids chunks) d1)"
  define d4 where "d4 = (if sel = [] then d3 else fold (link_batch e (b_id b)) (zip wids chunks) (set_status e sel to_audit_row d3))"
  have f3: "window_frame d d3"
    unfolding d3_def
    by (rule window_frame_trans [OF open_windows_spec(1) [OF ow]], rule window_frame_trans)
      (rule window_frame_fold, rule create_member_frame)+
  have f4: "window_frame (set_status e sel to_audit_row d3) (fold (link_batch e (b_id b)) ps (set_status e sel to_audit_row d3))" for ps
    by (rule window_frame_fold) (rule link_batch_frame)
  have sub4: "submissions d4 = update_where (\<lambda>s. s_id s \<in> set sel) (\<lambda>s. (to_audit_row s)\<lparr>s_updated := e_now e\<rparr>) (submissions d)"
    and bo4: "bounties d4 = bounties d"
    using f3 f4 by (auto simp: d4_def window_frame_def intro!: update_where_id [symmetric])
  obtain d5 where a5: "accept_unselected seed e b un d4 = Inr d5"
    and d': "d' = sampling_done e (b_id b) d5"
    and r: "r = Inr \<lparr>sm_windows = wids, sm_eligible = length es, sm_selected = length sel, sm_accepted = length un, sm_sponsor = 0\<rparr>"
    using assms(1) unfolding sample_windows_def ow Let_def prod.case sel un d3_def [symmetric] d4_def [symmetric]
    by (auto split: sum.splits)
  show "\<exists>wids. r = Inr \<lparr>sm_windows = wids, sm_eligible = length es, sm_selected = length sel, sm_accepted = length un, sm_sponsor = 0\<rparr>"
    using r by blast
  have i4: "bounty_ids d4" and b4: "bounty_by (b_id b) d4 = Some b0"
    using assms(2,3) bo4 by (simp_all add: bounty_ids_def bounty_by_def)
  have sub': "submissions d' = submissions d5" by (simp add: d' sampling_done_def)
  have done': "bounty_by (b_id b) d5 = Some x \<Longrightarrow>
      bounty_by (b_id b) d' = Some (x\<lparr>b_sampling_completed := Some (e_now e), b_updated := e_now e\<rparr>)" for x
    using update_bounty_key [of "b_id b" d5 x "\<lambda>b. b\<lparr>b_sampling_completed := Some (e_now e)\<rparr>" e] by (simp add: d' sampling_done_def)
  have ids': "bounty_ids d' = bounty_ids d5"
    unfolding d' sampling_done_def by (rule update_bounty_ids) simp
  have "submissions d5 = audit_or_accept e sel un (submissions d) \<and> bounty_ids d5
      \<and> bounty_by (b_id b) d5 = Some (if un = [] then b0 else recount_row e acc fin b0)"
  proof (cases "un = []")
    case True
    then show ?thesis
      using a5 sub4 i4 b4 by (auto simp: accept_unselected_def audit_or_accept_def intro!: update_where_id [symmetric])
  next
    case False
    let ?d = "set_status e (map s_id un) (to_accepted_row (e_now e)) d4"
    obtain d6 c where rec: "recomputeAcceptedItemCounters e (b_id b) ?d = Some (d6, c)"
      and aw: "award_all seed e b un d6 = Inr d5"
      using a5 False by (auto simp: accept_unselected_def split: option.splits)
    have i: "bounty_ids ?d" and bb: "bounty_by (b_id b) ?d = Some b0"
      using i4 b4 by (simp_all add: bounty_ids_def bounty_by_def)
    have fr: "pool_frame ?d d6" by (rule recompute_frame [OF rec])
    have af: "award_frame d6 d5" by (rule award_all_frame [OF aw])
    have s5: "submissions d5 = submissions ?d" using fr af by (simp add: pool_frame_def award_frame_def)
    have cnt: "count_submissions (b_id b) A ?d = count_submissions (b_id b) A d'" for A
      using s5 sub' by (simp add: count_submissions_def)
    have "bounty_by (b_id b) d6 = Some (recount_row e acc fin b0)"
      using recompute_spec [OF i bb, of e] rec unfolding cnt acc_def fin_def by auto
    then have "bounty_by (b_id b) d5 = Some (recount_row e acc fin b0)"
      using af by (simp add: award_frame_def bounty_by_def)
    moreover have "bounty_ids d5"
      using pool_frame_ids [OF fr] i af by (simp add: award_frame_def bounty_ids_def)
    ultimately show ?thesis using s5 sub4 False by (simp add: audit_or_accept_def)
  qed
  then show "submissions d' = audit_or_accept e sel un (submissions d)" "bounty_ids d'"
    "bounty_by (b_id b) d'
       = Some ((if un = [] then b0 else recount_row e acc fin b0)\<lparr>b_sampling_completed := Some (e_now e), b_updated := e_now e\<rparr>)"
    using sub' ids' done' by auto
qed

text \<open>The transaction of a closed, unsampled pool with coverage and items to draw from.\<close>

definition started_row :: "env \<Rightarrow> bounty_row \<Rightarrow> bounty_row" where
  "started_row e b = b\<lparr>b_sampling_started := Some (or_else (b_sampling_started b) (e_now e)), b_updated := e_now e\<rparr>"

lemma bounty_by_id: "bounty_by k d = Some b \<Longrightarrow> b_id b = k"
  using find_where_Some [of "\<lambda>b. b_id b = k" "bounties d" b] by (simp add: bounty_by_def)

lemma sampling_txn_windows:
  assumes "sampling_txn seed e bid d = Inr (d', Inr c, ns)" and "bounty_ids d" and "bounty_by bid d = Some b"
    and "b_coverage b \<noteq> 0" and "eligible_items bid d \<noteq> []"
  obtains d1 where "sample_windows seed e b (eligible_items bid d) d1 = Inr (d', Inr c, ns)" and "bounty_ids d1"
    and "bounty_by (b_id b) d1 = Some (started_row e b)" and "drawn_ids e b (eligible_items bid d) d1 = drawn_ids e b (eligible_items bid d) d"
    and "submissions d1 = submissions d" and "b_closed_at b \<noteq> None" and "b_sampling_completed b = None"
proof -
  let ?P = "\<lambda>x. b_id x = bid \<and> b_sampling_completed x = None"
  let ?d1 = "update_bounty e ?P (\<lambda>x. x\<lparr>b_sampling_started := Some (or_else (b_sampling_started b) (e_now e))\<rparr>) d"
  have k: "b_id b = bid" by (rule bounty_by_id [OF assms(3)])
  have el: "eligible_items bid ?d1 = eligible_items bid d" by (simp add: eligible_items_def)
  have open_b: "b_closed_at b \<noteq> None" "b_sampling_completed b = None"
    and tx: "sample_windows seed e b (eligible_items bid d) ?d1 = Inr (d', Inr c, ns)"
    using assms(1,3,4,5) el by (auto simp: sampling_txn_def Let_def split: if_splits)
  have "bounty_ids ?d1" using assms(2) update_bounty_ids [of "\<lambda>x. x\<lparr>b_sampling_started := Some (or_else (b_sampling_started b) (e_now e))\<rparr>" e ?P d]
    by simp
  moreover have "bounty_by (b_id b) ?d1 = Some (started_row e b)"
    using update_bounty_self [OF assms(3), of "\<lambda>x. x\<lparr>b_sampling_started := Some (or_else (b_sampling_started b) (e_now e))\<rparr>" e
        "\<lambda>x. b_sampling_completed x = None"] open_b k by (simp add: started_row_def)
  moreover have "drawn_ids e b es ?d1 = drawn_ids e b es d" for es
    by (simp add: drawn_ids_def fresh_def prior_window_def)
  ultimately show ?thesis using that [of ?d1] tx open_b by simp
qed

lemma eligible_ids:
  assumes "submission_ids d"
  shows "distinct (map s_id (eligible_items bid d))"
  using assms distinct_filter_map unfolding submission_ids_def eligible_items_def by blast

text \<open>Under distinct ids the two writes of the close-out are one map over the rows.\<close>

definition final_row :: "env \<Rightarrow> ident \<Rightarrow> ident list \<Rightarrow> submission_row \<Rightarrow> submission_row" where
  "final_row e bid sel s =
     (if s_bounty s \<noteq> bid \<or> s_status s \<noteq> S_accepted_pending_sample then s
      else if s_id s \<in> set sel then s\<lparr>s_status := S_in_audit, s_updated := e_now e\<rparr>
      else s\<lparr>s_status := S_accepted, s_accepted_at := Some (e_now e), s_updated := e_now e\<rparr>)"

lemma audit_or_accept_map:
  assumes "submission_ids d" and "set sel \<subseteq> s_id ` set (eligible_items bid d)"
  shows "audit_or_accept e sel (filter (\<lambda>s. s_id s \<notin> set sel) (eligible_items bid d)) (submissions d)
           = map (final_row e bid sel) (submissions d)"
proof -
  have el: "s_id s \<in> s_id ` set (eligible_items bid d) \<longleftrightarrow> s \<in> set (eligible_items bid d)" if "s \<in> set (submissions d)" for s
    using assms(1) that by (auto simp: submission_ids_def eligible_items_def distinct_map inj_on_def)
  have un: "s_id s \<in> set (map s_id (filter (\<lambda>s. s_id s \<notin> set sel) (eligible_items bid d)))
      \<longleftrightarrow> s \<in> set (eligible_items bid d) \<and> s_id s \<notin> set sel" if "s \<in> set (submissions d)" for s
    using el [OF that] by auto
  have sel: "s \<in> set (eligible_items bid d)" if "s \<in> set (submissions d)" "s_id s \<in> set sel" for s
    using el [OF that(1)] that(2) assms(2) by blast
  have mem: "s \<in> set (eligible_items bid d) \<longleftrightarrow> s_bounty s = bid \<and> s_status s = S_accepted_pending_sample"
    if "s \<in> set (submissions d)" for s using that by (simp add: eligible_items_def)
  show ?thesis
    unfolding audit_or_accept_def update_where_def map_map comp_def
  proof (rule map_cong [OF refl])
    fix s assume s: "s \<in> set (submissions d)"
    consider "s_id s \<in> set sel" | "s_id s \<notin> set sel" "s \<in> set (eligible_items bid d)"
      | "s_id s \<notin> set sel" "s \<notin> set (eligible_items bid d)" by blast
    then show "(if s_id (if s_id s \<in> set sel then (to_audit_row s)\<lparr>s_updated := e_now e\<rparr> else s)
             \<in> set (map s_id (filter (\<lambda>s. s_id s \<notin> set sel) (eligible_items bid d)))
          then (to_accepted_row (e_now e) (if s_id s \<in> set sel then (to_audit_row s)\<lparr>s_updated := e_now e\<rparr> else s))\<lparr>s_updated := e_now e\<rparr>
          else if s_id s \<in> set sel then (to_audit_row s)\<lparr>s_updated := e_now e\<rparr> else s) = final_row e bid sel s"
    proof cases
      case 1
      then have "s_id s \<notin> set (map s_id (filter (\<lambda>s. s_id s \<notin> set sel) (eligible_items bid d)))" by auto
      with 1 sel [OF s 1] mem [OF s] show ?thesis by (simp add: to_audit_row_def final_row_def)
    next
      case 2
      with un [OF s] mem [OF s] show ?thesis by (simp add: to_accepted_row_def final_row_def)
    next
      case 3
      then have "s_id s \<notin> set (map s_id (filter (\<lambda>s. s_id s \<notin> set sel) (eligible_items bid d)))"
        using un [OF s] by blast
      with 3 mem [OF s] show ?thesis by (simp add: final_row_def)
    qed
  qed
qed

lemma sort_key_take_le:
  assumes "s \<in> set (take n (sort_key f xs))" and "t \<in> set (sort_key f xs)" and "t \<notin> set (take n (sort_key f xs))"
  shows "f s \<le> f t"
proof -
  have "t \<in> set (drop n (sort_key f xs))"
    using assms(2,3) by (metis Un_iff append_take_drop_id set_append)
  moreover have "sorted (map f (take n (sort_key f xs)) @ map f (drop n (sort_key f xs)))"
    by (simp flip: map_append)
  ultimately show ?thesis using assms(1) by (auto simp: sorted_append)
qed

lemma prior_window_in:
  assumes "prior_window bid d = Some w"
  shows "w \<in> set (windows d)" and "w_bounty w = bid" and "\<forall>v \<in> set (windows d). w_bounty v = bid \<longrightarrow> w_index v \<le> w_index w"
proof -
  let ?ws = "filter (\<lambda>w. w_bounty w = bid) (windows d)"
  obtain ws where ws: "sort_key (\<lambda>w. - w_index w) ?ws = w # ws"
    using assms by (auto simp: prior_window_def split: list.splits)
  have s: "set ?ws = insert w (set ws)" by (metis ws set_sort list.simps(15))
  then show "w \<in> set (windows d)" "w_bounty w = bid" by auto
  have "sorted (map (\<lambda>w. - w_index w) (w # ws))" by (metis ws sorted_sort_key)
  with s show "\<forall>v \<in> set (windows d). w_bounty v = bid \<longrightarrow> w_index v \<le> w_index w" by auto
qed

lemma drawn_ids_spec:
  fixes e :: env and bid :: ident
  assumes "submission_ids d" and "0 \<le> b_coverage b" and "\<forall>w \<in> set (windows d). 0 \<le> w_carry w"
  defines "es \<equiv> eligible_items bid d"
  defines "quota \<equiv> (int (length es) * b_coverage b + or_else (map_option w_carry (prior_window (b_id b) d)) 0) div 100"
  defines "rk \<equiv> \<lambda>s. hmacRank e (b_id b) (fresh e d) (s_id s)"
  shows "distinct (drawn_ids e b es d)" and "set (drawn_ids e b es d) \<subseteq> s_id ` set es"
    and "\<forall>s \<in> set es. s_pending_review s \<longrightarrow> s_id s \<in> set (drawn_ids e b es d)"
    and "int (length (drawn_ids e b es d))
           = int (length (filter s_pending_review es)) + min quota (int (length (filter (\<lambda>s. \<not> s_pending_review s) es)))"
    and "\<forall>s \<in> set es. \<forall>t \<in> set es. \<not> s_pending_review s \<and> s_id s \<in> set (drawn_ids e b es d)
           \<and> s_id t \<notin> set (drawn_ids e b es d) \<longrightarrow> rk s \<le> rk t"
proof -
  have ids: "distinct (map s_id es)" unfolding es_def by (rule eligible_ids [OF assms(1)])
  have carry: "0 \<le> or_else (map_option w_carry (prior_window (b_id b) d)) 0"
  proof (cases "prior_window (b_id b) d")
    case None
    then show ?thesis by (simp add: or_else_def)
  next
    case (Some w)
    with assms(3) prior_window_in [OF Some] show ?thesis by (simp add: or_else_def)
  qed
  have q: "0 \<le> quota" unfolding quota_def using assms(2) carry by (subst pos_imp_zdiv_nonneg_iff) simp_all
  have dr: "drawn_ids e b es d = ordered_selected e (b_id b) (fresh e d) quota es"
    by (simp add: drawn_ids_def draw_of_def Let_def quota_def)
  note sp = ordered_selected_spec [OF ids q, of e "b_id b" "fresh e d"]
  have sub: "set (take (nat quota) (ranked_clean e (b_id b) (fresh e d) es)) \<subseteq> {s \<in> set es. \<not> s_pending_review s}"
    using set_take_subset [of "nat quota" "ranked_clean e (b_id b) (fresh e d) es"] by (auto simp: ranked_clean_def)
  show "distinct (drawn_ids e b es d)" using sp(3) by (simp add: dr)
  show "set (drawn_ids e b es d) \<subseteq> s_id ` set es" using sp(1) sub by (auto simp: dr)
  show "\<forall>s \<in> set es. s_pending_review s \<longrightarrow> s_id s \<in> set (drawn_ids e b es d)" using sp(1) by (auto simp: dr)
  show "int (length (drawn_ids e b es d))
      = int (length (filter s_pending_review es)) + min quota (int (length (filter (\<lambda>s. \<not> s_pending_review s) es)))"
    using sp(2) q by (simp add: dr of_nat_min)
  show "\<forall>s \<in> set es. \<forall>t \<in> set es. \<not> s_pending_review s \<and> s_id s \<in> set (drawn_ids e b es d)
           \<and> s_id t \<notin> set (drawn_ids e b es d) \<longrightarrow> rk s \<le> rk t"
  proof (intro ballI impI)
    fix s t
    assume st: "s \<in> set es" "t \<in> set es"
      and a: "\<not> s_pending_review s \<and> s_id s \<in> set (drawn_ids e b es d) \<and> s_id t \<notin> set (drawn_ids e b es d)"
    have uniq: "x = y" if "x \<in> set es" "y \<in> set es" "s_id x = s_id y" for x y
      using ids that by (auto simp: distinct_map inj_on_def)
    have "s \<in> set (take (nat quota) (ranked_clean e (b_id b) (fresh e d) es))"
    proof -
      have "s_id s \<notin> s_id ` {s \<in> set es. s_pending_review s}" using a st(1) uniq by auto
      then obtain x where x: "x \<in> set (take (nat quota) (ranked_clean e (b_id b) (fresh e d) es))" "s_id s = s_id x"
        using a sp(1) unfolding dr by auto
      with sub uniq [OF st(1), of x] show ?thesis by auto
    qed
    moreover have "\<not> s_pending_review t" "t \<notin> set (take (nat quota) (ranked_clean e (b_id b) (fresh e d) es))"
      using a sp(1) st unfolding dr by auto
    ultimately show "rk s \<le> rk t"
      using sort_key_take_le [of s "nat quota" "rank_in e (b_id b) (fresh e d)" "filter (\<lambda>s. \<not> s_pending_review s) es" t] st
      by (simp add: ranked_clean_def rank_in_def rk_def)
  qed
qed

section \<open>Facts: the job returns\<close>

definition user_known :: "db \<Rightarrow> ident \<Rightarrow> bool" where
  "user_known d u \<longleftrightarrow> u \<in> u_id ` set (users d)"

lemma user_known_iff: "user_by u d \<noteq> None \<longleftrightarrow> user_known d u"
  by (auto simp: user_by_def user_known_def find_where_None_iff)

lemma award_returns:
  assumes "ap_amount p > 0" and "user_known d (ap_user p)" and "bounty_by k d \<noteq> None"
  shows "\<exists>d' r. awardOrHoldAcceptedItemKarma e g k p d = Inr (d', r) \<and> map u_id (users d') = map u_id (users d)"
proof -
  have "\<exists>d' r. awardKarma e p d = Inr (d', r) \<and> map u_id (users d') = map u_id (users d)"
    using assms(2) user_known_iff [of "ap_user p" d]
    by (auto simp: awardKarma_def post_event_def map_update_where split: option.split)
  moreover have "\<exists>d' r. queuePendingKarmaAward e k p d = Inr (d', r) \<and> map u_id (users d') = map u_id (users d)"
    using assms user_known_iff [of "ap_user p" d]
    by (auto simp: queuePendingKarmaAward_def split: prod.split bool.split)
  ultimately show ?thesis by (auto simp: awardOrHoldAcceptedItemKarma_def)
qed

lemma sampling_award_positive: "ap_amount (sampling_award seed e b s) > 0"
  by (simp add: sampling_award_def acceptedItemKarmaForBounty_positive getKarmaRules_positive default_table_ok)

lemma award_all_returns:
  assumes "\<forall>s \<in> set ss. user_known d (s_contributor s)" and "bounty_by (b_id b) d \<noteq> None"
  shows "\<exists>d'. award_all seed e b ss d = Inr d'"
  using assms
proof (induction ss arbitrary: d)
  case Nil
  then show ?case by simp
next
  case (Cons s ss)
  obtain d1 r where a: "awardOrHoldAcceptedItemKarma e None (b_id b) (sampling_award seed e b s) d = Inr (d1, r)"
    and u: "map u_id (users d1) = map u_id (users d)"
    using award_returns [OF sampling_award_positive, of d seed e b s "b_id b" e None] Cons.prems
    by (auto simp: sampling_award_def)
  have "\<forall>s \<in> set ss. user_known d1 (s_contributor s)"
    using Cons.prems(1) u by (simp add: user_known_def flip: set_map)
  moreover have "bounty_by (b_id b) d1 \<noteq> None"
    using Cons.prems(2) award_or_hold_frame [OF a] by (simp add: award_frame_def bounty_by_def)
  ultimately show ?case using Cons.IH [of d1] a by simp
qed

lemma accept_unselected_returns:
  assumes "\<forall>s \<in> set ss. user_known d (s_contributor s)" and "bounty_ids d" and "bounty_by (b_id b) d = Some b0"
  shows "\<exists>d'. accept_unselected seed e b ss d = Inr d'"
proof -
  let ?d = "set_status e (map s_id ss) (to_accepted_row (e_now e)) d"
  have i: "bounty_ids ?d" and k: "bounty_by (b_id b) ?d = Some b0"
    using assms(2,3) by (simp_all add: bounty_ids_def bounty_by_def)
  obtain d1 c where r: "recomputeAcceptedItemCounters e (b_id b) ?d = Some (d1, c)" and b: "bounty_by (b_id b) d1 \<noteq> None"
    using recompute_spec [OF i k, of e] by auto
  have "users d1 = users d"
    using recompute_frame [OF r] by (simp add: pool_frame_def set_status_def set_submission_def)
  then have "\<forall>s \<in> set ss. user_known d1 (s_contributor s)" using assms(1) by (simp add: user_known_def)
  from award_all_returns [OF this b] r show ?thesis by (auto simp: accept_unselected_def)
qed

lemma sample_windows_returns:
  assumes "\<forall>s \<in> set es. user_known d (s_contributor s)" and "bounty_ids d" and "bounty_by (b_id b) d = Some b0"
  shows "\<exists>d' c ns. sample_windows seed e b es d = Inr (d', Inr c, ns)"
proof -
  obtain d1 wids chunks where ow: "open_windows e b es d = (d1, wids, chunks)" by (cases "open_windows e b es d")
  let ?sel = "concat chunks" let ?un = "filter (\<lambda>s. s_id s \<notin> set (concat chunks)) es"
  let ?d3 = "fold (create_member e (b_id b) False) (map (\<lambda>s. (hd wids, s_id s)) ?un)
               (fold (create_member e (b_id b) True) (selected_pairs wids chunks) d1)"
  let ?d4 = "if ?sel = [] then ?d3 else fold (link_batch e (b_id b)) (zip wids chunks) (set_status e ?sel to_audit_row ?d3)"
  have f3: "window_frame d ?d3"
    by (rule window_frame_trans [OF open_windows_spec(1) [OF ow]], rule window_frame_trans)
      (rule window_frame_fold, rule create_member_frame)+
  have f4: "window_frame (set_status e ?sel to_audit_row ?d3) (fold (link_batch e (b_id b)) ps (set_status e ?sel to_audit_row ?d3))" for ps
    by (rule window_frame_fold) (rule link_batch_frame)
  have "users ?d4 = users d \<and> bounties ?d4 = bounties d"
    using f3 f4 by (auto simp: window_frame_def set_status_def set_submission_def)
  then have "\<forall>s \<in> set ?un. user_known ?d4 (s_contributor s)" "bounty_ids ?d4" "bounty_by (b_id b) ?d4 = Some b0"
    using assms by (auto simp: user_known_def bounty_ids_def bounty_by_def simp del: filter_append)
  from accept_unselected_returns [OF this] obtain d5 where d5: "accept_unselected seed e b ?un ?d4 = Inr d5" by blast
  show ?thesis
    unfolding sample_windows_def ow Let_def prod.case d5 sum.case by blast
qed

lemma sampling_txn_returns:
  assumes "bounty_ids d" and "bounty_by bid d = Some b" and "b_closed_at b \<noteq> None" and "b_sampling_completed b = None"
    and "\<forall>s \<in> set (eligible_items bid d). user_known d (s_contributor s)"
  shows "\<exists>d' c ns. sampling_txn seed e bid d = Inr (d', Inr c, ns)"
proof -
  let ?P = "\<lambda>x. b_id x = bid \<and> b_sampling_completed x = None"
  let ?f = "\<lambda>x. x\<lparr>b_sampling_started := Some (or_else (b_sampling_started b) (e_now e))\<rparr>"
  let ?d1 = "update_bounty e ?P ?f d"
  have k: "b_id b = bid" by (rule bounty_by_id [OF assms(2)])
  have el: "eligible_items bid ?d1 = eligible_items bid d" by (simp add: eligible_items_def)
  have n: "count_where ?P (bounties d) = 1"
    using count_where_key_guard [of b_id "bounties d" bid b] assms(1,2,4) by (simp add: bounty_ids_def bounty_by_def)
  have i: "bounty_ids ?d1" using assms(1) update_bounty_ids [of ?f e ?P d] by simp
  have b1: "bounty_by (b_id b) ?d1 = Some (started_row e b)"
    using update_bounty_self [OF assms(2), of ?f e "\<lambda>x. b_sampling_completed x = None"] assms(4) k by (simp add: started_row_def)
  have u: "\<forall>s \<in> set (eligible_items bid d). user_known ?d1 (s_contributor s)" using assms(5) by (simp add: user_known_def)
  obtain d' c ns where "sample_windows seed e b (eligible_items bid d) ?d1 = Inr (d', Inr c, ns)"
    using sample_windows_returns [OF u i b1] by blast
  then show ?thesis
    using assms(2-4) el n by (simp add: sampling_txn_def Let_def sample_to_sponsor_def)
qed

lemma send_notes_frame: "bounties (fold (send_note e) ns d) = bounties d"
proof (induction ns arbitrary: d)
  case Nil
  then show ?case by simp
next
  case (Cons n rest)
  have "bounties (send_note e n d) = bounties d" by (cases n) simp_all
  with Cons show ?case by simp
qed

lemma sampling_txn_stamps:
  assumes "sampling_txn seed e bid d = Inr (d', Inr c, ns)" and "bounty_ids d" and "bounty_by bid d = Some b"
  shows "sm_eligible c = length (eligible_items bid d) \<and> (\<exists>b'. bounty_by bid d' = Some b' \<and> b_sampling_completed b' = Some (e_now e))"
proof (cases "eligible_items bid d \<noteq> [] \<and> b_coverage b \<noteq> 0")
  case True
  have k: "b_id b = bid" by (rule bounty_by_id [OF assms(3)])
  obtain d1 where d1: "sample_windows seed e b (eligible_items bid d) d1 = Inr (d', Inr c, ns)" "bounty_ids d1"
    "bounty_by (b_id b) d1 = Some (started_row e b)"
    using sampling_txn_windows [OF assms] True by metis
  show ?thesis using sample_windows_spec(2,3) [OF d1] k by auto
next
  case False
  let ?f = "\<lambda>x. x\<lparr>b_sampling_started := Some (or_else (b_sampling_started b) (e_now e))\<rparr>"
  let ?d1 = "update_bounty e (\<lambda>x. b_id x = bid \<and> b_sampling_completed x = None) ?f d"
  have k: "b_id b = bid" by (rule bounty_by_id [OF assms(3)])
  have el: "eligible_items bid ?d1 = eligible_items bid d" by (simp add: eligible_items_def)
  have b1: "bounty_by bid ?d1 = Some (if b_sampling_completed b = None then (?f b)\<lparr>b_updated := e_now e\<rparr> else b)"
    using update_bounty_self [OF assms(3), of ?f e "\<lambda>x. b_sampling_completed x = None"] by simp
  have st: "\<exists>b'. bounty_by bid (sampling_done e bid x) = Some b' \<and> b_sampling_completed b' = Some (e_now e)"
    if "bounties x = bounties ?d1" for x
    using b1 that update_bounty_key [of bid x _ "\<lambda>b. b\<lparr>b_sampling_completed := Some (e_now e)\<rparr>" e]
    by (simp add: sampling_done_def bounty_by_def)
  show ?thesis
    using assms(1,3) False el k st [of ?d1] st [of "set_status e (map s_id (eligible_items bid d)) to_sponsor_row ?d1"]
    by (auto simp: sampling_txn_def Let_def sample_to_sponsor_def split: if_splits)
qed

lemma close_out_spec:
  assumes "sampling_txn seed e bid d = Inr (d', Inr c, ns)" and "bounty_ids d" and "submission_ids d"
    and "bounty_by bid d = Some b" and "0 < b_coverage b" and "\<forall>w \<in> set (windows d). 0 \<le> w_carry w"
    and "eligible_items bid d \<noteq> []"
  defines "es \<equiv> eligible_items bid d"
  defines "sel \<equiv> drawn_ids e b es d"
  shows "submissions d' = map (final_row e bid sel) (submissions d)" and "sm_selected c = length sel"
    and "sm_selected c + sm_accepted c = sm_eligible c" and "sm_eligible c = length es"
proof -
  have k: "b_id b = bid" by (rule bounty_by_id [OF assms(4)])
  obtain d1 where d1: "sample_windows seed e b es d1 = Inr (d', Inr c, ns)" "bounty_ids d1"
    "bounty_by (b_id b) d1 = Some (started_row e b)" "drawn_ids e b es d1 = drawn_ids e b es d" "submissions d1 = submissions d"
    using sampling_txn_windows [OF assms(1,2,4)] assms(5,7) unfolding es_def by (metis less_irrefl)
  note sp = drawn_ids_spec [where e = e and bid = bid, OF assms(3) less_imp_le [OF assms(5)] assms(6), folded es_def,
      folded sel_def]
  note sw = sample_windows_spec [OF d1(1-3), unfolded d1(4,5), folded sel_def]
  have un: "left_out e b es d1 = filter (\<lambda>s. s_id s \<notin> set sel) es" by (simp add: left_out_def d1(4) sel_def)
  show "submissions d' = map (final_row e bid sel) (submissions d)"
    using sw(1) [unfolded un] audit_or_accept_map [OF assms(3), of sel bid e, folded es_def] sp(2) by simp
  have "length (filter (\<lambda>s. s_id s \<in> set sel) es) = length sel"
  proof -
    have "map s_id (filter (\<lambda>s. s_id s \<in> set sel) es) = filter (\<lambda>i. i \<in> set sel) (map s_id es)"
      by (simp add: filter_map comp_def)
    moreover have "set (filter (\<lambda>i. i \<in> set sel) (map s_id es)) = set sel" using sp(2) by auto
    ultimately show ?thesis
      using distinct_card [OF sp(1)] distinct_card [OF distinct_filter [OF eligible_ids [OF assms(3), of bid, folded es_def]], of "\<lambda>i. i \<in> set sel"]
      by (metis length_map)
  qed
  then have split: "length sel + length (left_out e b es d1) = length es"
    unfolding un using sum_length_filter_compl [of "\<lambda>s. s_id s \<in> set sel" es] by simp
  obtain wids where "c = \<lparr>sm_windows = wids, sm_eligible = length es, sm_selected = length sel,
      sm_accepted = length (left_out e b es d1), sm_sponsor = 0\<rparr>" using sw(3) by blast
  then show "sm_selected c = length sel" "sm_selected c + sm_accepted c = sm_eligible c" "sm_eligible c = length es"
    using split by simp_all
qed

text \<open>After a split the window of highest index is a continuation.\<close>

lemma extra_windows_rows:
  "\<exists>ws. windows (fst (extra_windows e k i cs d)) = windows d @ ws \<and> map w_index ws = map (\<lambda>n. i + int n) [0..<length cs]
     \<and> (\<forall>w \<in> set ws. w_bounty w = k \<and> w_carry w = 0 \<and> w_reason w = ''pool_target_reached_window_split'')"
proof (induction cs arbitrary: i d)
  case Nil
  then show ?case by simp
next
  case (Cons c cs)
  define d1 where "d1 = fst (create_window e k i (int (length c)) (int (length c)) 0 ''pool_target_reached_window_split'' d)"
  obtain ws where ws: "windows (fst (extra_windows e k (i + 1) cs d1)) = windows d1 @ ws"
    "map w_index ws = map (\<lambda>n. i + 1 + int n) [0..<length cs]"
    "\<forall>w \<in> set ws. w_bounty w = k \<and> w_carry w = 0 \<and> w_reason w = ''pool_target_reached_window_split''"
    using Cons.IH [of "i + 1" d1] by blast
  have up: "map (\<lambda>n. i + int n) [0..<length (c # cs)] = i # map (\<lambda>n. i + 1 + int n) [0..<length cs]"
    by (simp add: upt_conv_Cons map_Suc_upt [symmetric] del: upt_Suc)
  have "windows (fst (extra_windows e k i (c # cs) d)) = windows (fst (extra_windows e k (i + 1) cs d1))"
    by (simp add: case_prod_beta d1_def create_window_def)
  then show ?case
    unfolding up using ws
    by (intro exI [of _ "new_window e k i (int (length c)) (int (length c)) 0 ''pool_target_reached_window_split'' d # ws"])
      (simp add: d1_def create_window_def new_window_def)
qed

lemma prior_window_exists: "w \<in> set (windows d) \<Longrightarrow> w_bounty w = k \<Longrightarrow> \<exists>v. prior_window k d = Some v"
proof -
  assume "w \<in> set (windows d)" "w_bounty w = k"
  then have "length (filter (\<lambda>w. w_bounty w = k) (windows d)) \<noteq> 0" by (auto simp: filter_empty_conv)
  then have "sort_key (\<lambda>w. - w_index w) (filter (\<lambda>w. w_bounty w = k) (windows d)) \<noteq> []"
    by (metis length_sort list.size(3))
  then show ?thesis unfolding prior_window_def by (auto split: list.split)
qed

lemma split_prior_window:
  assumes "open_windows e b es d = (d1, wids, chunks)" and "length chunks > 1"
  shows "\<exists>w. prior_window (b_id b) d1 = Some w \<and> w_carry w = 0 \<and> w_reason w = ''pool_target_reached_window_split''"
proof -
  let ?dr = "draw_of (b_coverage b) (length es) (prior_window (b_id b) d)"
  let ?d0 = "fst (create_window e (b_id b) (dn_index ?dr) (int (length es)) (dn_quota ?dr) (dn_carry ?dr) ''pool_target_reached'' d)"
  let ?f = "\<lambda>w. if w_id w = fresh e d then w\<lparr>w_quota := int (length (hd chunks))\<rparr> else w"
  obtain ws where ws: "windows (fst (extra_windows e (b_id b) (dn_index ?dr + 1) (tl chunks) ?d0)) = windows ?d0 @ ws"
    "map w_index ws = map (\<lambda>n. dn_index ?dr + 1 + int n) [0..<length (tl chunks)]"
    "\<forall>w \<in> set ws. w_bounty w = b_id b \<and> w_carry w = 0 \<and> w_reason w = ''pool_target_reached_window_split''"
    using extra_windows_rows by blast
  have d1: "windows d1 = map ?f (windows ?d0 @ ws)"
    using assms ws(1) by (auto simp: open_windows_eq set_window_def update_where_def)
  have d0: "windows ?d0 = windows d @ [new_window e (b_id b) (dn_index ?dr) (int (length es)) (dn_quota ?dr) (dn_carry ?dr) ''pool_target_reached'' d]"
    by (simp add: create_window_def)
  have low: "w_index w \<le> dn_index ?dr" if lw: "w \<in> set (windows ?d0)" "w_bounty w = b_id b" for w
  proof (cases "w \<in> set (windows d)")
    case True
    then obtain v where v: "prior_window (b_id b) d = Some v" using lw(2) prior_window_exists by blast
    then have "w_index w \<le> w_index v" using prior_window_in(3) [OF v] True lw(2) by blast
    then show ?thesis using v by (simp add: draw_of_def Let_def or_else_def)
  next
    case False
    then show ?thesis using lw d0 by (auto simp: new_window_def)
  qed
  obtain u where u: "u \<in> set ws" "w_index u \<ge> dn_index ?dr + 1"
  proof -
    have "length ws = length (tl chunks)" using ws(2) by (metis length_map length_upt minus_nat.diff_0)
    then obtain u us where "ws = u # us" using assms(2) by (cases ws) auto
    then show ?thesis using that [of u] ws(2) by (cases "tl chunks") (auto simp: upt_conv_Cons simp del: upt_Suc)
  qed
  have "?f u \<in> set (windows d1)" "w_bounty (?f u) = b_id b" using u(1) ws(3) d1 by auto
  from prior_window_exists [OF this] obtain w where w: "prior_window (b_id b) d1 = Some w" by blast
  have "w_index (?f u) \<le> w_index w"
    using prior_window_in(3) [OF w] \<open>?f u \<in> set (windows d1)\<close> \<open>w_bounty (?f u) = b_id b\<close> by blast
  then have hi: "w_index w \<ge> dn_index ?dr + 1" using u(2) by (auto split: if_splits)
  have "w \<in> ?f ` (set (windows ?d0) \<union> set ws)" using prior_window_in(1) [OF w] unfolding d1 by (simp only: set_map set_append)
  then obtain x where x: "x \<in> set (windows ?d0) \<union> set ws" "w = ?f x" by (elim imageE)
  have same: "w_index (?f x) = w_index x" "w_bounty (?f x) = w_bounty x" "w_carry (?f x) = w_carry x" "w_reason (?f x) = w_reason x"
    by simp_all
  have "x \<in> set ws"
  proof (rule ccontr)
    assume "x \<notin> set ws"
    with x(1) have "x \<in> set (windows ?d0)" by blast
    moreover have "w_bounty x = b_id b" using prior_window_in(2) [OF w] same(2) unfolding x(2) by (simp only:)
    ultimately have "w_index x \<le> dn_index ?dr" by (rule low)
    with hi show False using same(1) unfolding x(2) by linarith
  qed
  then have "w_carry x = 0" "w_reason x = ''pool_target_reached_window_split''" using ws(3) by blast+
  then have "w_carry w = 0" "w_reason w = ''pool_target_reached_window_split''"
    using same(3,4) unfolding x(2) by (simp_all only:)
  with w show ?thesis by blast
qed

section \<open>Facts: windows and their batches\<close>

text \<open>The id supply never repeats and never collides with a stored id.\<close>

definition fresh_supply :: "env \<Rightarrow> db \<Rightarrow> bool" where
  "fresh_supply e d \<longleftrightarrow> inj (e_id e) \<and> distinct (map w_id (windows d))
     \<and> (\<forall>n \<ge> db_seq d. e_id e n \<notin> w_id ` set (windows d) \<and> e_id e n \<notin> ai_batch ` set (aitems d))"

text \<open>Window \<open>w\<close> holds a batch with exactly the items \<open>c\<close>, all undecided.\<close>

definition claimable_batch :: "ident \<Rightarrow> ident list \<Rightarrow> db \<Rightarrow> bool" where
  "claimable_batch w c d \<longleftrightarrow> c \<noteq> [] \<and>
     (\<exists>r k. window_by w d = Some r \<and> w_batch r = Some k
        \<and> map ai_submission (filter (\<lambda>i. ai_batch i = k) (aitems d)) = c
        \<and> (\<forall>i \<in> set (aitems d). ai_batch i = k \<longrightarrow> ai_verdict i = None)
        \<and> (\<exists>a \<in> set (abatches d). ab_id a = k \<and> ab_count a = int (length c) \<and> ab_status a = ''available''))"

lemma claimable_batch_cong:
  "windows d' = windows d \<Longrightarrow> aitems d' = aitems d \<Longrightarrow> abatches d' = abatches d \<Longrightarrow> claimable_batch w c d' = claimable_batch w c d"
  by (simp add: claimable_batch_def window_by_def)

lemma create_item_rows:
  "aitems (create_item e k s d) = aitems d @ [new_audit_item e k s d]" "windows (create_item e k s d) = windows d"
  "abatches (create_item e k s d) = abatches d" "db_seq (create_item e k s d) = Suc (db_seq d)"
  by (simp_all add: create_item_def)

lemma create_items_rows:
  "\<exists>rows. aitems (fold (create_item e k) ids d) = aitems d @ rows \<and> map ai_submission rows = ids
     \<and> (\<forall>i \<in> set rows. ai_batch i = k \<and> ai_verdict i = None)
     \<and> windows (fold (create_item e k) ids d) = windows d \<and> abatches (fold (create_item e k) ids d) = abatches d
     \<and> db_seq (fold (create_item e k) ids d) = db_seq d + length ids"
proof (induction ids arbitrary: d)
  case Nil
  then show ?case by simp
next
  case (Cons s ss)
  let ?d = "create_item e k s d"
  obtain rows where r: "aitems (fold (create_item e k) ss ?d) = aitems ?d @ rows" "map ai_submission rows = ss"
    "\<forall>i \<in> set rows. ai_batch i = k \<and> ai_verdict i = None" "windows (fold (create_item e k) ss ?d) = windows ?d"
    "abatches (fold (create_item e k) ss ?d) = abatches ?d" "db_seq (fold (create_item e k) ss ?d) = db_seq ?d + length ss"
    using Cons.IH [of ?d] by blast
  show ?case
    unfolding fold_simps r using r(2,3)
    by (intro exI [of _ "new_audit_item e k s d # rows"]) (simp add: create_item_rows new_audit_item_def)
qed

text \<open>One link, on a window without a batch.\<close>

lemma link_batch_rows:
  assumes "fresh_supply e d" and "window_by w d = Some r" and "w_batch r = None" and "c \<noteq> []"
  shows "\<exists>rows a. aitems (link_batch e bid (w, c) d) = aitems d @ rows \<and> map ai_submission rows = c
     \<and> (\<forall>i \<in> set rows. ai_batch i = fresh e d \<and> ai_verdict i = None)
     \<and> windows (link_batch e bid (w, c) d) = update_where (\<lambda>x. w_id x = w) (\<lambda>x. x\<lparr>w_batch := Some (fresh e d)\<rparr>) (windows d)
     \<and> abatches (link_batch e bid (w, c) d) = abatches d @ [a] \<and> ab_id a = fresh e d
     \<and> ab_count a = int (length c) \<and> ab_status a = ''available''
     \<and> db_seq (link_batch e bid (w, c) d) = db_seq d + 1 + length c"
proof -
  let ?k = "fresh e d"
  let ?a = "\<lparr>ab_id = ?k, ab_bounty = bid, ab_validator = None, ab_count = int (length c), ab_status = ''available'',
     ab_deadline = None, ab_claimed_at = None, ab_created = e_now e\<rparr>"
  let ?d1 = "fold (create_item e ?k) c (d\<lparr>abatches := abatches d @ [?a], db_seq := Suc (db_seq d)\<rparr>)"
  obtain rows where rows: "aitems ?d1 = aitems d @ rows" "map ai_submission rows = c"
    "\<forall>i \<in> set rows. ai_batch i = ?k \<and> ai_verdict i = None" "windows ?d1 = windows d" "abatches ?d1 = abatches d @ [?a]"
    "db_seq ?d1 = db_seq d + 1 + length c"
    using create_items_rows [of e ?k c "d\<lparr>abatches := abatches d @ [?a], db_seq := Suc (db_seq d)\<rparr>"] by auto
  have row: "find_where (\<lambda>x. w_id x = w) (windows d) = Some r" using assms(2) by (simp add: window_by_def)
  have ids: "distinct (map w_id (windows d))" using assms(1) by (simp add: fresh_supply_def)
  have n: "count_where (\<lambda>x. w_id x = w \<and> w_batch x = None) (windows ?d1) = 1"
    unfolding rows(4) using count_where_key_guard [OF ids row, of "\<lambda>x. w_batch x = None"] assms(3) by simp
  have "link_batch e bid (w, c) d = set_window (\<lambda>x. w_id x = w \<and> w_batch x = None) (\<lambda>x. x\<lparr>w_batch := Some ?k\<rparr>) ?d1"
    using assms(2-4) n by (simp add: link_batch_def createWindowAuditBatch_def Let_def)
  then show ?thesis
    using rows update_where_key_guard [OF ids row, of "\<lambda>x. w_batch x = None"] assms(3)
    by (intro exI [of _ rows] exI [of _ ?a]) (simp add: set_window_def)
qed

lemma link_batch_empty: "link_batch e bid (w, []) d = d"
  by (simp add: link_batch_def)

text \<open>What one link does to the other windows, and to the id supply.\<close>

lemma link_batch_keeps:
  assumes "fresh_supply e d" and "window_by w d = Some r" and "w_batch r = None"
  shows "fresh_supply e (link_batch e bid (w, c) d)"
    and "v \<noteq> w \<Longrightarrow> window_by v (link_batch e bid (w, c) d) = window_by v d"
    and "c \<noteq> [] \<Longrightarrow> claimable_batch w c (link_batch e bid (w, c) d)"
    and "v \<noteq> w \<Longrightarrow> claimable_batch v c' d \<Longrightarrow> claimable_batch v c' (link_batch e bid (w, c) d)"
proof -
  have "fresh_supply e (link_batch e bid (w, c) d)
     \<and> (v \<noteq> w \<longrightarrow> window_by v (link_batch e bid (w, c) d) = window_by v d)
     \<and> (c \<noteq> [] \<longrightarrow> claimable_batch w c (link_batch e bid (w, c) d))
     \<and> (v \<noteq> w \<longrightarrow> claimable_batch v c' d \<longrightarrow> claimable_batch v c' (link_batch e bid (w, c) d))"
  proof (cases "c = []")
    case True
    with assms show ?thesis by (simp add: link_batch_empty)
  next
    case False
    let ?d = "link_batch e bid (w, c) d" and ?k = "fresh e d"
    obtain rows a where it: "aitems ?d = aitems d @ rows" "map ai_submission rows = c"
        "\<forall>i \<in> set rows. ai_batch i = ?k \<and> ai_verdict i = None"
      and wi: "windows ?d = update_where (\<lambda>x. w_id x = w) (\<lambda>x. x\<lparr>w_batch := Some ?k\<rparr>) (windows d)"
      and ab: "abatches ?d = abatches d @ [a]" "ab_id a = ?k" "ab_count a = int (length c)" "ab_status a = ''available''"
      and sq: "db_seq ?d = db_seq d + 1 + length c"
      using link_batch_rows [OF assms False] by blast
    have new: "?k \<notin> ai_batch ` set (aitems d)" using assms(1) by (simp add: fresh_supply_def fresh_def)
    then have old: "\<forall>i \<in> set (aitems d). ai_batch i \<noteq> ?k" by (metis imageI)
    have wid: "map w_id (windows ?d) = map w_id (windows d)" unfolding wi by (rule map_update_where) simp
    have late: "e_id e n \<noteq> ?k" if "n \<ge> db_seq ?d" for n
      using that assms(1) sq by (auto simp: fresh_supply_def fresh_def dest: injD)
    have "fresh_supply e ?d"
      unfolding fresh_supply_def
    proof (intro conjI allI impI)
      show "inj (e_id e)" "distinct (map w_id (windows ?d))" using assms(1) wid by (simp_all add: fresh_supply_def)
      fix n assume n: "n \<ge> db_seq ?d"
      then have "n \<ge> db_seq d" using sq by simp
      then have prev: "e_id e n \<notin> w_id ` set (windows d)" "e_id e n \<notin> ai_batch ` set (aitems d)"
        using assms(1) by (simp_all add: fresh_supply_def)
      show "e_id e n \<notin> w_id ` set (windows ?d)" using prev(1) wid by (metis set_map)
      show "e_id e n \<notin> ai_batch ` set (aitems ?d)" using prev(2) it(1,3) late [OF n] by auto
    qed
    moreover have other: "window_by v ?d = window_by v d" if "v \<noteq> w"
    proof -
      have "window_by v ?d = map_option (\<lambda>x. if w_id x = w then x\<lparr>w_batch := Some ?k\<rparr> else x) (window_by v d)"
        unfolding window_by_def wi by (rule find_where_update_where) simp
      also have "\<dots> = window_by v d"
        using that find_where_Some [of "\<lambda>x. w_id x = v" "windows d"] by (cases "window_by v d") (auto simp: window_by_def)
      finally show ?thesis .
    qed
    moreover have "claimable_batch w c ?d"
    proof -
      have "window_by w ?d = Some (r\<lparr>w_batch := Some ?k\<rparr>)"
        unfolding window_by_def wi using assms(2) by (intro find_where_key_update) (simp_all add: window_by_def)
      moreover have "filter (\<lambda>i. ai_batch i = ?k) (aitems ?d) = rows"
        using old it(3) by (simp add: it(1) filter_empty_conv filter_id_conv)
      moreover have "\<forall>i \<in> set (aitems ?d). ai_batch i = ?k \<longrightarrow> ai_verdict i = None"
        using old it(3) by (auto simp: it(1))
      ultimately show ?thesis using it(2) ab False by (simp add: claimable_batch_def)
    qed
    moreover have "claimable_batch v c' ?d" if vw: "v \<noteq> w" and cb: "claimable_batch v c' d"
    proof -
      obtain r' k' a' where v: "window_by v d = Some r'" "w_batch r' = Some k'"
        "map ai_submission (filter (\<lambda>i. ai_batch i = k') (aitems d)) = c'"
        "\<forall>i \<in> set (aitems d). ai_batch i = k' \<longrightarrow> ai_verdict i = None"
        "a' \<in> set (abatches d)" "ab_id a' = k'" "ab_count a' = int (length c')" "ab_status a' = ''available''"
        using cb by (auto simp: claimable_batch_def)
      have "c' \<noteq> []" using cb by (simp add: claimable_batch_def)
      then have "filter (\<lambda>i. ai_batch i = k') (aitems d) \<noteq> []" using v(3) by auto
      then have "k' \<in> ai_batch ` set (aitems d)" by (auto simp: filter_empty_conv)
      with new have "k' \<noteq> ?k" by blast
      then have none: "\<forall>i \<in> set rows. ai_batch i \<noteq> k'" using it(3) by auto
      then have "filter (\<lambda>i. ai_batch i = k') (aitems ?d) = filter (\<lambda>i. ai_batch i = k') (aitems d)"
        by (simp add: it(1) filter_empty_conv)
      moreover have "\<forall>i \<in> set (aitems ?d). ai_batch i = k' \<longrightarrow> ai_verdict i = None"
        using v(4) none by (auto simp: it(1))
      moreover have "a' \<in> set (abatches ?d)" using v(5) ab(1) by simp
      ultimately show ?thesis
        using v other [OF vw] \<open>c' \<noteq> []\<close> unfolding claimable_batch_def by metis
    qed
    ultimately show ?thesis by blast
  qed
  then show "fresh_supply e (link_batch e bid (w, c) d)"
    "v \<noteq> w \<Longrightarrow> window_by v (link_batch e bid (w, c) d) = window_by v d"
    "c \<noteq> [] \<Longrightarrow> claimable_batch w c (link_batch e bid (w, c) d)"
    "v \<noteq> w \<Longrightarrow> claimable_batch v c' d \<Longrightarrow> claimable_batch v c' (link_batch e bid (w, c) d)"
    by blast+
qed

text \<open>Linking every chunk of a close-out.\<close>

lemma link_all:
  assumes "fresh_supply e d" and "distinct (map fst wcs)"
    and "\<forall>wc \<in> set wcs. \<exists>r. window_by (fst wc) d = Some r \<and> w_batch r = None"
  shows "\<forall>wc \<in> set wcs. snd wc \<noteq> [] \<longrightarrow> claimable_batch (fst wc) (snd wc) (fold (link_batch e bid) wcs d)"
    and "v \<notin> fst ` set wcs \<Longrightarrow> claimable_batch v c' d \<Longrightarrow> claimable_batch v c' (fold (link_batch e bid) wcs d)"
  using assms
proof (induction wcs arbitrary: d v c')
  case Nil
  { case 1 then show ?case by simp }
  { case 2 then show ?case by simp }
next
  case (Cons wc wcs)
  obtain w c where wc: "wc = (w, c)" by (cases wc)
  have step: "fresh_supply e (link_batch e bid wc d)" "distinct (map fst wcs)"
    "\<forall>x \<in> set wcs. \<exists>r. window_by (fst x) (link_batch e bid wc d) = Some r \<and> w_batch r = None"
    "c \<noteq> [] \<longrightarrow> claimable_batch w c (link_batch e bid wc d)" "w \<notin> fst ` set wcs"
    if fs: "fresh_supply e d" and di: "distinct (map fst (wc # wcs))"
      and wi: "\<forall>x \<in> set (wc # wcs). \<exists>r. window_by (fst x) d = Some r \<and> w_batch r = None" for d
  proof -
    obtain r where r: "window_by w d = Some r" "w_batch r = None" using wi wc by auto
    note lk = link_batch_keeps [OF fs r, where bid = bid and c = c, folded wc]
    show "fresh_supply e (link_batch e bid wc d)" by (rule lk(1))
    show "c \<noteq> [] \<longrightarrow> claimable_batch w c (link_batch e bid wc d)" using lk(3) by blast
    show "distinct (map fst wcs)" "w \<notin> fst ` set wcs" using di wc by auto
    then show "\<forall>x \<in> set wcs. \<exists>r. window_by (fst x) (link_batch e bid wc d) = Some r \<and> w_batch r = None"
      using lk(2) wi by (metis imageI list.set_intros(2))
  qed
  { case 1
    note st = step [OF 1]
    show ?case
      using Cons.IH(1) [OF st(1-3)] Cons.IH(2) [OF st(5) _ st(1-3), of c] st(4) wc by auto }
  { case 2
    note st = step [OF 2(3-5)]
    obtain r where r: "window_by w d = Some r" "w_batch r = None" using 2(5) wc by auto
    have "claimable_batch v c' (link_batch e bid wc d)"
      using link_batch_keeps(4) [OF 2(3) r, of v c' bid c] 2(1,2) wc by auto
    then show ?case using Cons.IH(2) [OF _ _ st(1-3), of v c'] 2(1) by simp }
qed

text \<open>The windows of a close-out are new, distinct and without a batch.\<close>

definition blank_windows :: "ident list \<Rightarrow> db \<Rightarrow> bool" where
  "blank_windows ws d \<longleftrightarrow> distinct ws \<and> (\<forall>w \<in> set ws. \<exists>r. window_by w d = Some r \<and> w_batch r = None)"

lemma create_window_fresh:
  assumes "fresh_supply e d"
  shows "fresh_supply e (fst (create_window e k i x y z r d))"
    and "window_by (fresh e d) (fst (create_window e k i x y z r d)) = Some (new_window e k i x y z r d)"
    and "v \<in> w_id ` set (windows d) \<Longrightarrow> window_by v (fst (create_window e k i x y z r d)) = window_by v d"
    and "fresh e d \<notin> w_id ` set (windows d)"
proof -
  show f: "fresh e d \<notin> w_id ` set (windows d)" using assms by (simp add: fresh_supply_def fresh_def)
  have "e_id e n \<noteq> fresh e d" if "n \<ge> Suc (db_seq d)" for n
    using that assms by (auto simp: fresh_supply_def fresh_def dest: injD)
  then show "fresh_supply e (fst (create_window e k i x y z r d))"
    using assms f by (auto simp: fresh_supply_def create_window_def new_window_def)
  have none: "find_where (\<lambda>w. w_id w = fresh e d) (windows d) = None" using f by (auto simp: find_where_None_iff image_iff)
  show "window_by (fresh e d) (fst (create_window e k i x y z r d)) = Some (new_window e k i x y z r d)"
    by (simp add: window_by_def create_window_def find_where_append none) (simp add: new_window_def)
  show "v \<in> w_id ` set (windows d) \<Longrightarrow> window_by v (fst (create_window e k i x y z r d)) = window_by v d"
    by (auto simp: window_by_def create_window_def find_where_append find_where_None_iff split: option.split)
qed

lemma extra_windows_blank:
  assumes "fresh_supply e d"
  shows "fresh_supply e (fst (extra_windows e k i cs d)) \<and> blank_windows (snd (extra_windows e k i cs d)) (fst (extra_windows e k i cs d))
     \<and> set (snd (extra_windows e k i cs d)) \<inter> w_id ` set (windows d) = {}
     \<and> (\<forall>v \<in> w_id ` set (windows d). window_by v (fst (extra_windows e k i cs d)) = window_by v d)"
  using assms
proof (induction cs arbitrary: i d)
  case Nil
  then show ?case by (simp add: blank_windows_def)
next
  case (Cons c cs)
  define d1 where "d1 = fst (create_window e k i (int (length c)) (int (length c)) 0 ''pool_target_reached_window_split'' d)"
  note cw = create_window_fresh(1-3) [OF Cons.prems, where k = k and i = i and x = "int (length c)" and y = "int (length c)" and z = 0
      and r = "''pool_target_reached_window_split''", folded d1_def]
  obtain d2 ws where x: "extra_windows e k (i + 1) cs d1 = (d2, ws)" by force
  have ih: "fresh_supply e d2" "blank_windows ws d2" "set ws \<inter> w_id ` set (windows d1) = {}"
    "\<forall>v \<in> w_id ` set (windows d1). window_by v d2 = window_by v d1"
    using Cons.IH [OF cw(1), of "i + 1"] by (simp_all add: x)
  have w1: "w_id ` set (windows d1) = insert (fresh e d) (w_id ` set (windows d))"
    by (auto simp: d1_def create_window_def new_window_def)
  have "extra_windows e k i (c # cs) d = (d2, fresh e d # ws)"
    using x by (simp add: case_prod_beta d1_def create_window_def)
  moreover have "blank_windows (fresh e d # ws) d2"
    using ih w1 cw(2) by (auto simp: blank_windows_def new_window_def)
  moreover have "set (fresh e d # ws) \<inter> w_id ` set (windows d) = {}" using ih(3) w1 create_window_fresh(4) [OF Cons.prems] by auto
  moreover have "\<forall>v \<in> w_id ` set (windows d). window_by v d2 = window_by v d" using ih(4) w1 cw(3) by auto
  ultimately show ?case using ih(1) by simp
qed

lemma open_windows_blank:
  assumes "open_windows e b es d = (d1, wids, chunks)" and "fresh_supply e d"
  shows "fresh_supply e d1" and "blank_windows wids d1"
proof -
  let ?dr = "draw_of (b_coverage b) (length es) (prior_window (b_id b) d)"
  define d0 where "d0 = fst (create_window e (b_id b) (dn_index ?dr) (int (length es)) (dn_quota ?dr) (dn_carry ?dr) ''pool_target_reached'' d)"
  note cw = create_window_fresh(1-3) [OF assms(2), where k = "b_id b" and i = "dn_index ?dr" and x = "int (length es)" and y = "dn_quota ?dr"
      and z = "dn_carry ?dr" and r = "''pool_target_reached''", folded d0_def]
  obtain d2 ws where x: "extra_windows e (b_id b) (dn_index ?dr + 1) (tl chunks) d0 = (d2, ws)" by force
  note ex = extra_windows_blank [OF cw(1), of "b_id b" "dn_index ?dr + 1" "tl chunks", unfolded x fst_conv snd_conv]
  have w0: "fresh e d \<in> w_id ` set (windows d0)" by (simp add: d0_def create_window_def new_window_def)
  have bl: "blank_windows (fresh e d # ws) d2"
    using ex w0 cw(2) by (auto simp: blank_windows_def new_window_def)
  have sw: "fresh_supply e (set_window P (\<lambda>w. w\<lparr>w_quota := q\<rparr>) d2)" for P q
    using ex by (auto simp: fresh_supply_def set_window_def map_update_where set_update_where)
  have sb: "blank_windows (fresh e d # ws) (set_window P (\<lambda>w. w\<lparr>w_quota := q\<rparr>) d2)" for P q
  proof -
    have "window_by w (set_window P (\<lambda>w. w\<lparr>w_quota := q\<rparr>) d2) = map_option (\<lambda>r. if P r then r\<lparr>w_quota := q\<rparr> else r) (window_by w d2)" for w
      unfolding window_by_def set_window_def by (simp add: find_where_update_where)
    then have "\<exists>r'. window_by w (set_window P (\<lambda>w. w\<lparr>w_quota := q\<rparr>) d2) = Some r' \<and> w_batch r' = None"
      if "window_by w d2 = Some r" "w_batch r = None" for w r
      using that by (cases "P r") simp_all
    with bl show ?thesis unfolding blank_windows_def by metis
  qed
  have "wids = fresh e d # ws"
    and "d1 = (if length chunks > 1 then set_window (\<lambda>w. w_id w = fresh e d) (\<lambda>w. w\<lparr>w_quota := int (length (hd chunks))\<rparr>) d2 else d2)"
    using assms(1) x by (auto simp: open_windows_eq d0_def)
  then show "fresh_supply e d1" "blank_windows wids d1" using ex bl sw sb by auto
qed

lemma create_members_same:
  "windows (fold (create_member e bid sel) ps d) = windows d \<and> aitems (fold (create_member e bid sel) ps d) = aitems d
   \<and> db_seq d \<le> db_seq (fold (create_member e bid sel) ps d)"
proof (induction ps arbitrary: d)
  case Nil
  then show ?case by simp
next
  case (Cons p ps)
  from Cons.IH [of "create_member e bid sel p d"] show ?case by (simp add: create_member_def)
qed

lemma create_members_fresh:
  "fresh_supply e d \<Longrightarrow> fresh_supply e (fold (create_member e bid sel) ps d)"
  "windows (fold (create_member e bid sel) ps d) = windows d"
  using create_members_same [of e bid sel ps d] by (auto simp: fresh_supply_def)

lemma sample_windows_claimable:
  assumes "sample_windows seed e b es d = Inr (d', Inr c, ns)" and "fresh_supply e d"
  shows "\<exists>chunks. concat chunks = drawn_ids e b es d \<and> length chunks = length (sm_windows c) \<and> distinct (sm_windows c)
     \<and> (\<forall>ch \<in> set chunks. int (length ch) \<le> resolveHumanAuditWindowSize e (b_window_size b))
     \<and> (\<forall>wc \<in> set (zip (sm_windows c) chunks). snd wc \<noteq> [] \<longrightarrow> claimable_batch (fst wc) (snd wc) d')"
proof -
  obtain d1 wids chunks where ow: "open_windows e b es d = (d1, wids, chunks)" by (cases "open_windows e b es d")
  define un where "un = filter (\<lambda>s. s_id s \<notin> set (concat chunks)) es"
  define d3 where "d3 = fold (create_member e (b_id b) False) (map (\<lambda>s. (hd wids, s_id s)) un)
                          (fold (create_member e (b_id b) True) (selected_pairs wids chunks) d1)"
  define ds where "ds = set_status e (concat chunks) to_audit_row d3"
  define d4 where "d4 = (if concat chunks = [] then d3 else fold (link_batch e (b_id b)) (zip wids chunks) ds)"
  obtain d5 where a5: "accept_unselected seed e b un d4 = Inr d5" and d': "d' = sampling_done e (b_id b) d5"
    and c: "sm_windows c = wids"
    using assms(1) unfolding sample_windows_def ow Let_def prod.case un_def [symmetric] d3_def [symmetric] ds_def [symmetric] d4_def [symmetric]
    by (auto split: sum.splits)
  have f3: "fresh_supply e d3" "windows d3 = windows d1"
    unfolding d3_def using open_windows_blank(1) [OF ow assms(2)] by (simp_all add: create_members_fresh)
  have fs: "fresh_supply e ds" using f3 by (simp add: fresh_supply_def ds_def)
  have bl: "blank_windows wids ds"
    using open_windows_blank(2) [OF ow assms(2)] f3(2) by (simp add: blank_windows_def window_by_def ds_def)
  have "map fst (zip wids chunks) = wids" using open_windows_spec(3) [OF ow] by simp
  then have "distinct (map fst (zip wids chunks))" "\<forall>wc \<in> set (zip wids chunks). \<exists>r. window_by (fst wc) ds = Some r \<and> w_batch r = None"
    using bl by (auto simp: blank_windows_def dest: set_zip_leftD)
  from link_all(1) [OF fs this, of "b_id b"]
  have l4: "\<forall>wc \<in> set (zip wids chunks). snd wc \<noteq> [] \<longrightarrow> claimable_batch (fst wc) (snd wc) d4"
    by (auto simp: d4_def dest: set_zip_rightD)
  have "windows d5 = windows d4 \<and> aitems d5 = aitems d4 \<and> abatches d5 = abatches d4"
  proof (cases "un = []")
    case True
    then show ?thesis using a5 by (simp add: accept_unselected_def)
  next
    case False
    then obtain d6 r where rec: "recomputeAcceptedItemCounters e (b_id b) (set_status e (map s_id un) (to_accepted_row (e_now e)) d4) = Some (d6, r)"
      and aw: "award_all seed e b un d6 = Inr d5"
      using a5 by (auto simp: accept_unselected_def split: option.splits)
    from recompute_frame [OF rec] award_all_frame [OF aw] show ?thesis by (simp add: pool_frame_def award_frame_def)
  qed
  then have "claimable_batch w x d' = claimable_batch w x d4" for w x
    by (intro claimable_batch_cong) (simp_all add: d' sampling_done_def)
  moreover have "0 < resolveHumanAuditWindowSize e (b_window_size b)"
    using size_bounds(1) [of e "b_window_size b"] by (simp add: HUMAN_AUDIT_WINDOW_SIZE_MIN_def)
  moreover have "distinct wids" using bl by (simp add: blank_windows_def)
  ultimately show ?thesis
    using l4 c open_windows_spec(3-5) [OF ow] window_chunks_spec(2) by (intro exI [of _ chunks]) simp
qed

section \<open>Properties\<close>


text \<open>A closed pool of three items, one of them marked for human review, half of the rest to be drawn.\<close>

definition sampled_bounty :: bounty_row where
  "sampled_bounty = (bounty0 ''b'')\<lparr>b_closed_at := Some 5, b_target := 3, b_coverage := 50\<rparr>"

definition waiting_item :: "ident \<Rightarrow> submission_row" where
  "waiting_item i = submission0 i ''b'' ''u'' S_accepted_pending_sample"

definition sampled_db :: db where
  "sampled_db = db0\<lparr>users := [user0 ''u''], bounties := [sampled_bounty],
     submissions := [waiting_item ''s1'', (waiting_item ''s2'')\<lparr>s_pending_review := True\<rparr>, waiting_item ''s3'']\<rparr>"

lemma sampled_simps [simp]:
  "bounty_ids sampled_db" "submission_ids sampled_db" "bounty_by ''b'' sampled_db = Some sampled_bounty"
  "windows sampled_db = []" "b_id sampled_bounty = ''b''" "b_coverage sampled_bounty = 50" "b_target sampled_bounty = 3"
  "b_closed_at sampled_bounty = Some 5" "b_sampling_completed sampled_bounty = None" "b_status sampled_bounty = B_active"
  "eligible_items ''b'' sampled_db = [waiting_item ''s1'', (waiting_item ''s2'')\<lparr>s_pending_review := True\<rparr>, waiting_item ''s3'']"
  "user_known sampled_db ''u''" "s_contributor (waiting_item i) = ''u''" "s_id (waiting_item i) = i"
  "s_pending_review (waiting_item i) = False" "prior_window ''b'' sampled_db = None"
  by (simp_all add: sampled_db_def sampled_bounty_def bounty0_def db0_def bounty_ids_def submission_ids_def bounty_by_def
      eligible_items_def waiting_item_def submission0_def user_known_def user0_def prior_window_def)

lemma sampled_returns: "\<exists>d' c ns. sampling_txn seed e ''b'' sampled_db = Inr (d', Inr c, ns)"
  by (rule sampling_txn_returns) auto


text \<open>Every drawn item becomes claimable exactly once: the draw is cut into windows of at most 100 items, the
  windows are new and distinct, and each non-empty one ends up linked to an available batch holding exactly its items,
  all undecided.\<close>

lemma drawn_items_are_claimable:
  assumes "sampling_txn seed e bid d = Inr (d', Inr c, ns)" and "bounty_ids d" and "bounty_by bid d = Some b"
    and "b_coverage b \<noteq> 0" and "eligible_items bid d \<noteq> []" and "fresh_supply e d"
  shows "\<exists>chunks. concat chunks = drawn_ids e b (eligible_items bid d) d \<and> length chunks = length (sm_windows c)
     \<and> distinct (sm_windows c) \<and> (\<forall>ch \<in> set chunks. int (length ch) \<le> HUMAN_AUDIT_WINDOW_SIZE_MAX)
     \<and> (\<forall>wc \<in> set (zip (sm_windows c) chunks). snd wc \<noteq> [] \<longrightarrow> claimable_batch (fst wc) (snd wc) d')"
proof -
  let ?P = "\<lambda>x. b_id x = bid \<and> b_sampling_completed x = None"
  let ?d1 = "update_bounty e ?P (\<lambda>x. x\<lparr>b_sampling_started := Some (or_else (b_sampling_started b) (e_now e))\<rparr>) d"
  have el: "eligible_items bid ?d1 = eligible_items bid d" by (simp add: eligible_items_def)
  have tx: "sample_windows seed e b (eligible_items bid d) ?d1 = Inr (d', Inr c, ns)"
    using assms(1,3,4,5) el by (auto simp: sampling_txn_def Let_def split: if_splits)
  have "fresh_supply e ?d1" using assms(6) by (simp add: fresh_supply_def)
  from sample_windows_claimable [OF tx this]
  obtain chunks where ch: "concat chunks = drawn_ids e b (eligible_items bid d) ?d1" "length chunks = length (sm_windows c)"
    "distinct (sm_windows c)" "\<forall>ch \<in> set chunks. int (length ch) \<le> resolveHumanAuditWindowSize e (b_window_size b)"
    "\<forall>wc \<in> set (zip (sm_windows c) chunks). snd wc \<noteq> [] \<longrightarrow> claimable_batch (fst wc) (snd wc) d'"
    by blast
  have "drawn_ids e b (eligible_items bid d) ?d1 = drawn_ids e b (eligible_items bid d) d"
    by (simp add: drawn_ids_def fresh_def prior_window_def)
  moreover have "\<forall>ch \<in> set chunks. int (length ch) \<le> HUMAN_AUDIT_WINDOW_SIZE_MAX"
    using ch(4) size_bounds(2) [of e "b_window_size b"] by fastforce
  ultimately show ?thesis using ch by (intro exI [of _ chunks]) simp
qed

lemma drawn_items_are_claimable_witness:
  "\<exists>d' c ns ch. sampling_txn (\<lambda>k. None) (env0 9) ''b'' sampled_db = Inr (d', Inr c, ns)
     \<and> (\<forall>wc \<in> set (zip (sm_windows c) ch). snd wc \<noteq> [] \<longrightarrow> claimable_batch (fst wc) (snd wc) d')
     \<and> length (concat ch) = 2"
proof -
  obtain d' c ns where r: "sampling_txn (\<lambda>k. None) (env0 9) ''b'' sampled_db = Inr (d', Inr c, ns)"
    using sampled_returns by blast
  have fs: "fresh_supply (env0 9) sampled_db"
    by (simp add: fresh_supply_def env0_ids) (simp add: sampled_db_def db0_def)
  have p: "b_coverage sampled_bounty \<noteq> 0" "eligible_items ''b'' sampled_db \<noteq> []" "0 \<le> b_coverage sampled_bounty"
    "\<forall>w \<in> set (windows sampled_db). 0 \<le> w_carry w" by simp_all
  have n: "length (drawn_ids (env0 9) sampled_bounty (eligible_items ''b'' sampled_db) sampled_db) = 2"
    using drawn_ids_spec(4) [OF sampled_simps(2) p(3,4), of "env0 9" "''b''"] by (simp add: or_else_def)
  show ?thesis
    using drawn_items_are_claimable [OF r sampled_simps(1,3) p(1,2) fs] r n by metis
qed

text \<open>C9: Sampling a closed pool always returns: when the contributors of the waiting items exist, the transaction
  succeeds on every route (nothing to draw, sponsor review, or windows), and the row is stamped as sampled.\<close>

theorem sampling_always_returns:
  assumes "bounty_ids d" and "bounty_by bid d = Some b" and "b_closed_at b \<noteq> None" and "b_sampling_completed b = None"
    and "\<forall>s \<in> set (eligible_items bid d). user_known d (s_contributor s)"
  shows "\<exists>d' c b'. runPoolSamplingJob seed e bid d = (d', Inr (Inr c)) \<and> sm_eligible c = length (eligible_items bid d)
           \<and> bounty_by bid d' = Some b' \<and> b_sampling_completed b' = Some (e_now e)"
proof -
  obtain d1 c ns where tx: "sampling_txn seed e bid d = Inr (d1, Inr c, ns)"
    using sampling_txn_returns [OF assms] by blast
  have fr: "bounties (fold (send_note e) ns d1) = bounties d1"
    by (rule send_notes_frame)
  have "sm_eligible c = length (eligible_items bid d) \<and> (\<exists>b'. bounty_by bid d1 = Some b' \<and> b_sampling_completed b' = Some (e_now e))"
    by (rule sampling_txn_stamps [OF tx assms(1,2)])
  then show ?thesis using tx fr by (auto simp: runPoolSamplingJob_def bounty_by_def)
qed

theorem sampling_always_returns_witness:
  "\<exists>d' c. runPoolSamplingJob (\<lambda>k. None) (env0 9) ''b'' sampled_db = (d', Inr (Inr c)) \<and> sm_eligible c = 3"
proof -
  have u: "\<forall>s \<in> set (eligible_items ''b'' sampled_db). user_known sampled_db (s_contributor s)" by simp
  show ?thesis
    using sampling_always_returns [OF sampled_simps(1,3) _ sampled_simps(9) u, of "\<lambda>k. None" "env0 9"] by auto
qed

text \<open>The job runs once per close-out: run again after it succeeded, by any worker at any time, it changes no
  row and sends no notification.\<close>

lemma sampling_runs_once:
  assumes "runPoolSamplingJob seed e bid d = (d', Inr (Inr c))" and "bounty_ids d"
  shows "\<exists>reason. runPoolSamplingJob seed' e' bid d' = (d', Inr (Inl reason)) \<and> reason \<in> {Skip_not_closed, Skip_already_completed}"
proof -
  obtain d1 ns where tx: "sampling_txn seed e bid d = Inr (d1, Inr c, ns)" and d': "d' = fold (send_note e) ns d1"
    using assms(1) by (auto simp: runPoolSamplingJob_def split: sum.splits prod.splits)
  obtain b where "bounty_by bid d = Some b"
    using tx by (auto simp: sampling_txn_def split: option.splits)
  from sampling_txn_stamps [OF tx assms(2) this]
  obtain b' where "bounty_by bid d' = Some b'" "b_sampling_completed b' = Some (e_now e)"
    by (auto simp: d' bounty_by_def send_notes_frame)
  then show ?thesis by (auto simp: runPoolSamplingJob_def sampling_txn_def)
qed

lemma sampling_runs_once_witness:
  "\<exists>d' c reason. runPoolSamplingJob (\<lambda>k. None) (env0 9) ''b'' sampled_db = (d', Inr (Inr c))
     \<and> runPoolSamplingJob (\<lambda>k. None) (env0 20) ''b'' d' = (d', Inr (Inl reason))"
proof -
  obtain d1 c ns where "sampling_txn (\<lambda>k. None) (env0 9) ''b'' sampled_db = Inr (d1, Inr c, ns)"
    using sampled_returns by blast
  then obtain d' where r: "runPoolSamplingJob (\<lambda>k. None) (env0 9) ''b'' sampled_db = (d', Inr (Inr c))"
    by (simp add: runPoolSamplingJob_def)
  from sampling_runs_once [OF r sampled_simps(1)] r show ?thesis by blast
qed

text \<open>A pool its sponsor closed early is left open and marked as sampled: when the draw accepts an item and the
  pool is still under target, the recount inside the job reopens it, and the job then stamps the reopened pool as
  sampled; after the next close, whatever was contributed meanwhile, sampling skips it.\<close>

lemma early_close_blocks_later_sampling:
  assumes "sampling_txn seed e bid d = Inr (d', Inr c, ns)" and "bounty_ids d" and "bounty_by bid d = Some b"
    and "b_coverage b \<noteq> 0" and "eligible_items bid d \<noteq> []" and "0 < sm_accepted c"
    and "count_submissions bid POOL_CAPACITY_STATUSES d' < b_target b"
  shows "\<exists>b'. bounty_by bid d' = Some b' \<and> b_closed_at b' = None \<and> b_sampling_completed b' = Some (e_now e)
           \<and> sampling_txn seed' e2 bid (fst (close_cas e1 bid (d'\<lparr>submissions := ss\<rparr>)))
               = Inr (fst (close_cas e1 bid (d'\<lparr>submissions := ss\<rparr>)), Inl Skip_already_completed, [])"
proof -
  have k: "b_id b = bid" by (rule bounty_by_id [OF assms(3)])
  obtain d1 where d1: "sample_windows seed e b (eligible_items bid d) d1 = Inr (d', Inr c, ns)" "bounty_ids d1"
    "bounty_by (b_id b) d1 = Some (started_row e b)" "b_closed_at b \<noteq> None"
    using sampling_txn_windows [OF assms(1-5)] by metis
  note sw = sample_windows_spec [OF d1(1-3), unfolded k]
  have un: "left_out e b (eligible_items bid d) d1 \<noteq> []" using sw(3) assms(6) by auto
  let ?acc = "count_submissions bid POOL_CAPACITY_STATUSES d'"
  let ?b' = "(recount_row e ?acc (count_submissions bid FINAL_ACCEPTED_STATUSES d') (started_row e b))
               \<lparr>b_sampling_completed := Some (e_now e), b_updated := e_now e\<rparr>"
  have b': "bounty_by bid d' = Some ?b'" using sw(2) un by simp
  have "0 < b_target b" using assms(7) count_submissions_nonneg [of bid POOL_CAPACITY_STATUSES d'] by linarith
  then have o: "b_closed_at ?b' = None"
    using assms(7) d1(4) by (simp add: recount_row_def started_row_def reopen_row_def Let_def)
  have "bounty_by bid (d'\<lparr>submissions := ss\<rparr>) = Some ?b'" using b' by (simp add: bounty_by_def)
  from close_cas_by [OF this, of e1] o
  have "bounty_by bid (fst (close_cas e1 bid (d'\<lparr>submissions := ss\<rparr>))) = Some ((close_row (e_now e1) ?b')\<lparr>b_updated := e_now e1\<rparr>)"
    by simp
  then have "sampling_txn seed' e2 bid (fst (close_cas e1 bid (d'\<lparr>submissions := ss\<rparr>)))
      = Inr (fst (close_cas e1 bid (d'\<lparr>submissions := ss\<rparr>)), Inl Skip_already_completed, [])"
    by (simp add: sampling_txn_def close_row_def)
  with b' o show ?thesis by simp
qed

text \<open>The same pool under target (five wanted, no one marked), closed by its sponsor.\<close>

definition early_db :: db where
  "early_db = db0\<lparr>users := [user0 ''u''], bounties := [sampled_bounty\<lparr>b_target := 5, b_sponsor_closed := Some 5\<rparr>],
     submissions := [waiting_item ''s1'', waiting_item ''s2'', waiting_item ''s3'']\<rparr>"

lemma early_simps [simp]:
  "bounty_ids early_db" "submission_ids early_db" "bounty_by ''b'' early_db = Some (sampled_bounty\<lparr>b_target := 5, b_sponsor_closed := Some 5\<rparr>)"
  "windows early_db = []" "prior_window ''b'' early_db = None" "user_known early_db ''u''"
  "eligible_items ''b'' early_db = [waiting_item ''s1'', waiting_item ''s2'', waiting_item ''s3'']"
  "length (submissions early_db) = 3"
  by (simp_all add: early_db_def sampled_bounty_def bounty0_def db0_def bounty_ids_def submission_ids_def bounty_by_def
      eligible_items_def waiting_item_def submission0_def user_known_def user0_def prior_window_def)

lemma capacity_bound: "count_submissions k A d \<le> int (length (submissions d))"
  by (simp add: count_submissions_def count_where_le_length)

lemma early_close_blocks_later_sampling_witness:
  "\<exists>d' c ns b'. sampling_txn (\<lambda>k. None) (env0 9) ''b'' early_db = Inr (d', Inr c, ns)
     \<and> bounty_by ''b'' d' = Some b' \<and> b_closed_at b' = None \<and> b_sampling_completed b' = Some 9
     \<and> sampling_txn (\<lambda>k. None) (env0 30) ''b'' (fst (close_cas (env0 20) ''b''
           (d'\<lparr>submissions := [waiting_item ''s4'', waiting_item ''s5'']\<rparr>)))
         = Inr (fst (close_cas (env0 20) ''b'' (d'\<lparr>submissions := [waiting_item ''s4'', waiting_item ''s5'']\<rparr>)),
                Inl Skip_already_completed, [])"
proof -
  let ?b = "sampled_bounty\<lparr>b_target := 5, b_sponsor_closed := Some 5\<rparr>"
  have u: "\<forall>s \<in> set (eligible_items ''b'' early_db). user_known early_db (s_contributor s)" by simp
  have cov: "0 < b_coverage ?b" "\<forall>w \<in> set (windows early_db). 0 \<le> w_carry w" "eligible_items ''b'' early_db \<noteq> []" by simp_all
  obtain d' c ns where r: "sampling_txn (\<lambda>k. None) (env0 9) ''b'' early_db = Inr (d', Inr c, ns)"
    using sampling_txn_returns [OF early_simps(1,3) _ _ u, of "\<lambda>k. None" "env0 9"] by auto
  note cs = close_out_spec [OF r early_simps(1-3) cov]
  have "length (drawn_ids (env0 9) ?b (eligible_items ''b'' early_db) early_db) = 1"
    using drawn_ids_spec(4) [OF early_simps(2) less_imp_le [OF cov(1)] cov(2), of "env0 9" "''b''"] by (simp add: or_else_def)
  then have acc: "0 < sm_accepted c" using cs(2-4) by simp
  have "count_submissions ''b'' POOL_CAPACITY_STATUSES d' < b_target ?b"
    using capacity_bound [of "''b''" POOL_CAPACITY_STATUSES d'] cs(1) by simp
  from early_close_blocks_later_sampling [OF r early_simps(1,3) _ cov(3) acc this, of "\<lambda>k. None" "env0 30" "env0 20"
      "[waiting_item ''s4'', waiting_item ''s5'']"] r
  show ?thesis by (auto simp: env0_def)
qed

text \<open>The remainder of a draw is lost when its windows are split: the continuation windows are stored with
  remainder zero and the highest index, and the next draw reads the remainder of the highest index.\<close>

lemma split_draw_loses_carry:
  assumes "open_windows e b es d = (d1, wids, chunks)" and "length chunks > 1"
  shows "\<exists>w. prior_window (b_id b) d1 = Some w \<and> w_carry w = 0
           \<and> w_reason w = ''pool_target_reached_window_split''
           \<and> draw_of cov n (prior_window (b_id b) d1)
               = \<lparr>dn_index = w_index w + 1, dn_quota = int n * cov div 100, dn_carry = int n * cov mod 100\<rparr>"
proof -
  obtain w where w: "prior_window (b_id b) d1 = Some w" "w_carry w = 0" "w_reason w = ''pool_target_reached_window_split''"
    using split_prior_window [OF assms] by blast
  then show ?thesis by (auto simp: draw_of_def or_else_def Let_def)
qed

lemma window_chunks_split:
  assumes "n > 0" and "int (length xs) > n"
  shows "length (window_chunks n xs) > 1"
proof (rule ccontr)
  assume "\<not> length (window_chunks n xs) > 1"
  then obtain c where "window_chunks n xs = [c]"
    using window_chunks_spec(3) [OF assms(1), of xs] by (cases "window_chunks n xs") auto
  then show False using window_chunks_spec(1,2) [OF assms(1), of xs] assms(2) by auto
qed

definition many_items :: "submission_row list" where
  "many_items = map (\<lambda>n. (waiting_item (replicate n CHR ''a''))\<lparr>s_pending_review := True\<rparr>) [0..<101]"

lemma many_items_ids: "distinct (map s_id many_items)" "filter s_pending_review many_items = many_items" "length many_items = 101"
proof -
  have "inj (\<lambda>n. replicate n CHR ''a'')" by (rule injI) (metis length_replicate)
  then show "distinct (map s_id many_items)" by (simp add: many_items_def comp_def distinct_map inj_on_def)
  show "filter s_pending_review many_items = many_items" by (rule filter_True) (simp add: many_items_def del: upt_Suc)
  show "length many_items = 101" by (simp add: many_items_def)
qed

lemma split_draw_loses_carry_witness:
  "\<exists>d1 wids chunks w. open_windows (env0 9) sampled_bounty many_items db0 = (d1, wids, chunks)
     \<and> dn_carry (draw_of 50 101 None) = 50 \<and> prior_window ''b'' d1 = Some w \<and> w_carry w = 0"
proof -
  obtain d1 wids chunks where ow: "open_windows (env0 9) sampled_bounty many_items db0 = (d1, wids, chunks)"
    by (cases "open_windows (env0 9) sampled_bounty many_items db0")
  let ?n = "resolveHumanAuditWindowSize (env0 9) (b_window_size sampled_bounty)"
  have n: "0 < ?n" "?n \<le> 100"
    using size_bounds [of "env0 9" "b_window_size sampled_bounty"]
    by (simp_all add: HUMAN_AUDIT_WINDOW_SIZE_MIN_def HUMAN_AUDIT_WINDOW_SIZE_MAX_def)
  have "0 \<le> dn_quota (draw_of (b_coverage sampled_bounty) (length many_items) (prior_window ''b'' db0))"
    by (simp add: draw_of_def or_else_def prior_window_def db0_def Let_def)
  from ordered_selected_spec(2) [OF many_items_ids(1) this, of "env0 9" "''b''" "fresh (env0 9) db0"]
  have "int (length (drawn_ids (env0 9) sampled_bounty many_items db0)) > ?n"
    using n(2) many_items_ids(2,3) by (simp add: drawn_ids_def)
  from window_chunks_split [OF n(1) this] have "length chunks > 1" using open_windows_spec(4) [OF ow] by simp
  from split_draw_loses_carry [OF ow this, of 50 101] ow show ?thesis
    by (auto simp: draw_of_def or_else_def Let_def)
qed

text \<open>A close is lost when it falls while the previous sampling job is still marked as running (its transaction
  committed, its notifications being sent): the request leaves the running job alone, the worker then marks it done,
  and the closed, unsampled pool has no job left that a worker could claim.\<close>

lemma close_during_sampling_is_lost:
  fixes e :: env and t t' :: time
  assumes "find_where (\<lambda>j. j_key j = ''pool-sample:'' @ bid) (jobs d) = Some j" and "j_status j = J_processing"
    and "distinct (map j_key (jobs d))" and "distinct (map j_id (jobs d))"
    and "bounty_ids d" and "bounty_by bid d = Some b" and "b_closed_at b = None"
    and "0 < b_target b" and "b_target b \<le> b_accepted b" and "b_sampling_completed b = None"
  defines "d' \<equiv> complete_job t (j_id j) (checkAndClosePoolIfTargetReached e bid d)"
  shows "(\<exists>b'. bounty_by bid d' = Some b' \<and> b_closed_at b' = Some (e_now e) \<and> b_sampling_completed b' = None)
     \<and> (\<exists>j'. find_where (\<lambda>j. j_key j = ''pool-sample:'' @ bid) (jobs d') = Some j' \<and> j_status j' = J_done
            \<and> \<not> takeable t' j')"
proof -
  have enq: "enqueuePoolSampling e bid x = x" if "jobs x = jobs d" for x
    using assms(1,2) that by (simp add: enqueuePoolSampling_def enqueue_def)
  have jb: "jobs (fst (close_cas e bid d)) = jobs d" by (simp add: close_cas_def)
  have "checkAndClosePoolIfTargetReached e bid d = fst (close_cas e bid d)"
    using assms(6-9) enq [OF jb] by (simp add: checkAndClosePoolIfTargetReached_def case_prod_beta)
  then have d': "d' = complete_job t (j_id j) (fst (close_cas e bid d))" by (simp add: d'_def)
  have "bounty_by bid d' = Some ((close_row (e_now e) b)\<lparr>b_updated := e_now e\<rparr>)"
    using close_cas_by [OF assms(6), of e] assms(7) by (simp add: d' complete_job_def bounty_by_def)
  moreover have "find_where (\<lambda>j. j_key j = ''pool-sample:'' @ bid) (jobs d') = Some (complete_row t j)"
    using assms(1) by (simp add: d' complete_job_def jb find_where_update_where complete_row_def)
  ultimately show ?thesis
    using assms(10) by (simp add: close_row_def complete_row_def takeable_def)
qed

lemma close_during_sampling_is_lost_witness:
  "\<exists>d j b' j'. find_where (\<lambda>j. j_key j = ''pool-sample:b'') (jobs d) = Some j \<and> j_status j = J_processing
     \<and> bounty_by ''b'' (complete_job 60 (j_id j) (checkAndClosePoolIfTargetReached (env0 50) ''b'' d)) = Some b'
     \<and> b_closed_at b' = Some 50 \<and> b_sampling_completed b' = None
     \<and> find_where (\<lambda>j. j_key j = ''pool-sample:b'') (jobs (complete_job 60 (j_id j) (checkAndClosePoolIfTargetReached (env0 50) ''b'' d))) = Some j'
     \<and> \<not> takeable 100 j'"
proof -
  let ?b = "(bounty0 ''b'')\<lparr>b_accepted := 2\<rparr>"
  let ?d0 = "enqueuePoolSampling (env0 1) ''b'' (db0\<lparr>bounties := [?b]\<rparr>)"
  let ?j = "(hd (jobs ?d0))\<lparr>j_status := J_processing\<rparr>"
  let ?d = "?d0\<lparr>jobs := [?j]\<rparr>"
  have f: "find_where (\<lambda>j. j_key j = ''pool-sample:'' @ ''b'') (jobs ?d) = Some ?j"
    by (simp add: enqueuePoolSampling_def enqueue_def db0_def new_job_def)
  have s: "j_status ?j = J_processing" "distinct (map j_key (jobs ?d))" "distinct (map j_id (jobs ?d))"
    "bounty_ids ?d" "bounty_by ''b'' ?d = Some ?b" "b_closed_at ?b = None" "0 < b_target ?b" "b_target ?b \<le> b_accepted ?b"
    "b_sampling_completed ?b = None"
    by (simp_all add: bounty_ids_def bounty_by_def bounty0_def)
  from close_during_sampling_is_lost [OF f s, of 60 "env0 50" 100] f s(1)
  show ?thesis by (intro exI [of _ ?d] exI [of _ ?j]) (auto simp: env0_def)
qed

end
