(* ===== verification/Audit_Claims.thy ===== *)
theory Audit_Claims
  imports Pool_Sampling Reputation Cursor "HOL-Library.Product_Lexorder"
begin

text \<open>
  Who may review what: the conflict predicates, the list of open windows, the exclusive claim and
  the dashboard counts of \<open>services/audits.ts\<close>; the reaper of overdue claims
  (\<open>services/audit-lifecycle.ts\<close>); and the return of one item to review
  (\<open>services/audit-routing.ts\<close>). A handler that reads before its transaction is split there, so the
  races between the two are explicit.
\<close>

section \<open>Conflicts of interest\<close>

definition DECIDED_SUBMISSION_STATUSES :: "submission_status list" where
  "DECIDED_SUBMISSION_STATUSES = [S_flagged, S_disputed, S_rejected, S_accepted]"

definition isDecidedAuditItem :: "audit_item_row option \<Rightarrow> bool" where
  "isDecidedAuditItem i = (case i of None \<Rightarrow> False | Some r \<Rightarrow> ai_verdict r \<noteq> None \<and> ai_decided r \<noteq> None)"

definition decidedSubmissionIds :: "ident list \<Rightarrow> db \<Rightarrow> ident list" where
  "decidedSubmissionIds sids d =
     map ai_submission (filter (\<lambda>i. ai_submission i \<in> set sids \<and> isDecidedAuditItem (Some i)) (aitems d))"

text \<open>The selected members of a window, joined with their submissions.\<close>

definition selected_members :: "ident \<Rightarrow> db \<Rightarrow> (member_row \<times> submission_row) list" where
  "selected_members wid d =
     List.map_filter (\<lambda>m. if m_window m = wid \<and> m_selected m then map_option (Pair m) (submission_by (m_submission m) d) else None)
       (members d)"

datatype audit_conflict = Own_submission | Duplicate_of_own_work

definition auditConflictReasonFor :: "(member_row \<times> submission_row) list \<Rightarrow> ident \<Rightarrow> audit_conflict option" where
  "auditConflictReasonFor ms v = (if list_ex (\<lambda>(m, s). s_contributor s = v) ms then Some Own_submission else None)"

definition hasAuditConflict :: "(member_row \<times> submission_row) list \<Rightarrow> ident \<Rightarrow> bool" where
  "hasAuditConflict ms v \<longleftrightarrow> auditConflictReasonFor ms v \<noteq> None"

definition DUPLICATE_CONFLICT_SCAN_LIMIT :: nat where
  "DUPLICATE_CONFLICT_SCAN_LIMIT = 2000"

record duplicate_sets =
  ds_own :: "ident list"
  ds_targets :: "ident list"

definition loadValidatorDuplicateConflictSets :: "ident \<Rightarrow> db \<Rightarrow> duplicate_sets" where
  "loadValidatorDuplicateConflictSets v d =
     \<lparr>ds_own = map s_id (take DUPLICATE_CONFLICT_SCAN_LIMIT
                 (sort_key (\<lambda>s. - s_created s) (filter (\<lambda>s. s_contributor s = v) (submissions d)))),
      ds_targets = filter (\<lambda>i. i \<noteq> []) (List.map_filter s_dup_of (take DUPLICATE_CONFLICT_SCAN_LIMIT
                 (sort_key (\<lambda>s. - s_created s) (filter (\<lambda>s. s_contributor s = v \<and> s_dup_of s \<noteq> None) (submissions d)))))\<rparr>"

definition hasDuplicateOfOwnWorkConflict :: "(ident \<times> ident option) list \<Rightarrow> duplicate_sets \<Rightarrow> bool" where
  "hasDuplicateOfOwnWorkConflict items ds \<longleftrightarrow>
     list_ex (\<lambda>(sid, dup). (case dup of None \<Rightarrow> False | Some o1 \<Rightarrow> o1 \<in> set (ds_own ds)) \<or> sid \<in> set (ds_targets ds)) items"

definition duplicate_items :: "(member_row \<times> submission_row) list \<Rightarrow> (ident \<times> ident option) list" where
  "duplicate_items ms = map (\<lambda>(m, s). (m_submission m, s_dup_of s)) ms"

definition pending_count :: "(member_row \<times> submission_row) list \<Rightarrow> nat" where
  "pending_count ms = length (filter (\<lambda>(m, s). s_status s = S_in_audit) ms)"

section \<open>The list of open windows\<close>

definition decided_count :: "window_row \<Rightarrow> (member_row \<times> submission_row) list \<Rightarrow> db \<Rightarrow> nat" where
  "decided_count w ms d =
     (if w_batch w \<noteq> None
      then length (filter (\<lambda>(m, s). m_submission m \<in> set (decidedSubmissionIds (map (m_submission \<circ> fst) ms) d)) ms)
      else length (filter (\<lambda>(m, s). s_status s \<in> set DECIDED_SUBMISSION_STATUSES) ms))"

definition window_conflict :: "duplicate_sets \<Rightarrow> ident \<Rightarrow> window_row \<Rightarrow> db \<Rightarrow> audit_conflict option" where
  "window_conflict ds v w d =
     (let ms = selected_members (w_id w) d
      in case auditConflictReasonFor ms v of
           Some c \<Rightarrow> Some c
         | None \<Rightarrow> if hasDuplicateOfOwnWorkConflict (duplicate_items ms) ds then Some Duplicate_of_own_work else None)"

definition listed_before :: "window_row \<Rightarrow> window_row \<Rightarrow> bool" where
  "listed_before a b \<longleftrightarrow> w_closed_at b < w_closed_at a \<or> (w_closed_at b = w_closed_at a \<and> w_id b < w_id a)"

text \<open>The query; \<open>want\<close> is the filter on the bounty that the caller asked for.\<close>

definition open_unclaimed :: "(window_row \<Rightarrow> bool) \<Rightarrow> window_row \<Rightarrow> bool" where
  "open_unclaimed want w \<longleftrightarrow> w_settled_at w = None \<and> w_superseded_at w = None \<and> w_claimed_by w = None \<and> want w"

definition queried_windows :: "(window_row \<Rightarrow> bool) \<Rightarrow> db \<Rightarrow> window_row list" where
  "queried_windows want d = rev (sort_key (\<lambda>w. (w_closed_at w, w_id w)) (filter (open_unclaimed want) (windows d)))"

definition audit_rows :: "(window_row \<Rightarrow> bool) \<Rightarrow> ident \<Rightarrow> db \<Rightarrow> window_row list" where
  "audit_rows want v d =
     (let ds = loadValidatorDuplicateConflictSets v d
      in filter (\<lambda>w. pending_count (selected_members (w_id w) d) \<noteq> 0 \<and> window_conflict ds v w d = None) (queried_windows want d))"

definition conflict_excluded :: "(window_row \<Rightarrow> bool) \<Rightarrow> ident \<Rightarrow> audit_conflict \<Rightarrow> db \<Rightarrow> nat" where
  "conflict_excluded want v c d =
     (let ds = loadValidatorDuplicateConflictSets v d
      in length (filter (\<lambda>w. pending_count (selected_members (w_id w) d) \<noteq> 0 \<and> window_conflict ds v w d = Some c) (queried_windows want d)))"

record audit_page =
  ap_rows :: "window_row list"
  ap_rows_total :: nat
  ap_excluded :: "nat \<times> nat"
  ap_limit :: nat
  ap_has_more :: bool
  ap_next :: "(time \<times> ident) option"

definition page_size :: "int option \<Rightarrow> nat" where
  "page_size limit = nat (min (max (or_else limit 20) 1) 50)"

text \<open>\<open>position\<close> is the decoded cursor; without one the page is cut by the offset.\<close>

definition listAvailableAudits ::
  "(window_row \<Rightarrow> bool) \<Rightarrow> ident \<Rightarrow> int option \<Rightarrow> int option \<Rightarrow> (time \<times> ident) option \<Rightarrow> db \<Rightarrow> audit_page" where
  "listAvailableAudits want v limit offset position d =
     (let rows = audit_rows want v d;
          n = page_size limit;
          skip = nat (max (or_else offset 0) 0);
          (page, hasMore) =
            (case position of
               Some (anchor, i) \<Rightarrow>
                 (let rest = filter (\<lambda>w. if w_closed_at w \<noteq> anchor then w_closed_at w < anchor else w_id w < i) rows
                  in (fst (takePage (take (n + 1) rest) n), length rest > n))
             | None \<Rightarrow> (take n (drop skip rows), length rows > skip + n))
      in \<lparr>ap_rows = page, ap_rows_total = length rows,
          ap_excluded = (conflict_excluded want v Own_submission d, conflict_excluded want v Duplicate_of_own_work d),
          ap_limit = n, ap_has_more = hasMore,
          ap_next = (if hasMore \<and> page \<noteq> [] then Some (w_closed_at (last page), w_id (last page)) else None)\<rparr>)"

section \<open>The claim\<close>

definition CLAIM_SLA_MS :: time where
  "CLAIM_SLA_MS = 24 * 60 * 60 * 1000"

datatype claim_result =
    Claim_ok ident time time nat
  | Claim_not_found | Claim_forbidden | Claim_conflict
  | Claim_capacity int nat

definition active_claim :: "ident \<Rightarrow> time \<Rightarrow> window_row \<Rightarrow> bool" where
  "active_claim v now w \<longleftrightarrow>
     w_claimed_by w = Some v \<and> w_settled_at w = None \<and> w_superseded_at w = None
     \<and> (w_expires w = None \<or> or_else (w_expires w) 0 \<ge> now)"

definition held_by :: "ident \<Rightarrow> window_row \<Rightarrow> nat \<Rightarrow> claim_result option" where
  "held_by v w n =
     (case (w_claimed_by w, w_claimed_at w, w_expires w) of
        (Some u, Some at1, Some ex) \<Rightarrow> if u = v then Some (Claim_ok v at1 ex n) else None
      | _ \<Rightarrow> None)"

text \<open>The checks before the transaction: an answer, or the window to claim with its number of items.\<close>

definition claim_precheck :: "ident \<Rightarrow> ident \<Rightarrow> db \<Rightarrow> claim_result + (window_row \<times> nat)" where
  "claim_precheck wid v d =
     (case window_by wid d of
        None \<Rightarrow> Inl Claim_not_found
      | Some w \<Rightarrow>
          (let ms = selected_members wid d; n = length ms
           in if w_superseded_at w \<noteq> None then Inl Claim_not_found
              else if hasAuditConflict ms v then Inl Claim_forbidden
              else if hasDuplicateOfOwnWorkConflict (duplicate_items ms) (loadValidatorDuplicateConflictSets v d) then Inl Claim_forbidden
              else (case held_by v w n of
                      Some r \<Rightarrow> Inl r
                    | None \<Rightarrow>
                        (if w_settled_at w \<noteq> None then Inl Claim_conflict
                         else if pending_count ms = 0 then Inl Claim_conflict
                         else Inr (w, n)))))"

definition audits_of :: "ident \<Rightarrow> db \<Rightarrow> int" where
  "audits_of v d = or_else (map_option rk_audits (find_where (\<lambda>r. rk_user r = v) (ranks d))) 0"

definition claimable_row :: "ident \<Rightarrow> window_row \<Rightarrow> bool" where
  "claimable_row wid w \<longleftrightarrow> w_id w = wid \<and> w_claimed_by w = None \<and> w_settled_at w = None \<and> w_superseded_at w = None"

definition claimed_row :: "ident \<Rightarrow> time \<Rightarrow> window_row \<Rightarrow> window_row" where
  "claimed_row v now w = w\<lparr>w_claimed_by := Some v, w_claimed_at := Some now, w_expires := Some (now + CLAIM_SLA_MS)\<rparr>"

definition claim_txn :: "env \<Rightarrow> ident \<Rightarrow> ident \<Rightarrow> nat \<Rightarrow> db \<Rightarrow> db \<times> claim_result" where
  "claim_txn e wid v n d =
     (let maxc = at_concurrent (validatorRankForAudits (audits_of v d));
          active = count_where (active_claim v (e_now e)) (windows d)
      in if int active \<ge> maxc then (d, Claim_capacity maxc active)
         else (case update_many (claimable_row wid) (claimed_row v (e_now e)) (windows d) of
                 (ws, k) \<Rightarrow>
                   (if k = 1 then (d\<lparr>windows := ws\<rparr>, Claim_ok v (e_now e) (e_now e + CLAIM_SLA_MS) n)
                    else (d\<lparr>windows := ws\<rparr>,
                          case window_by wid (d\<lparr>windows := ws\<rparr>) of
                            None \<Rightarrow> Claim_conflict
                          | Some f \<Rightarrow> or_else (held_by v f n) Claim_conflict))))"

definition claimAuditWindow :: "env \<Rightarrow> ident \<Rightarrow> ident \<Rightarrow> db \<Rightarrow> db \<times> claim_result" where
  "claimAuditWindow e wid v d =
     (case claim_precheck wid v d of Inl r \<Rightarrow> (d, r) | Inr (w, n) \<Rightarrow> claim_txn e wid v n d)"

record work_summary =
  ws_claimed :: nat
  ws_completed :: nat
  ws_pending :: nat
  ws_active :: nat

definition getMyAuditWorkSummary :: "env \<Rightarrow> ident \<Rightarrow> db \<Rightarrow> work_summary" where
  "getMyAuditWorkSummary e v d =
     \<lparr>ws_claimed = count_where (\<lambda>w. w_claimed_by w = Some v) (windows d),
      ws_completed = count_where (\<lambda>w. w_claimed_by w = Some v \<and> w_settled_at w \<noteq> None) (windows d),
      ws_pending = sum_list (map (\<lambda>w. pending_count (selected_members (w_id w) d))
                     (filter (\<lambda>w. w_claimed_by w = Some v \<and> w_settled_at w = None \<and> w_superseded_at w = None) (windows d))),
      ws_active = count_where (active_claim v (e_now e)) (windows d)\<rparr>"

section \<open>The reaper\<close>

definition overdue :: "time \<Rightarrow> window_row \<Rightarrow> bool" where
  "overdue now w \<longleftrightarrow>
     w_claimed_by w \<noteq> None \<and> (case w_expires w of Some x \<Rightarrow> x < now | None \<Rightarrow> False) \<and> w_settled_at w = None \<and> w_superseded_at w = None"

definition decided_members :: "window_row \<Rightarrow> db \<Rightarrow> nat" where
  "decided_members w d = length (filter (\<lambda>(m, s). s_status s \<noteq> S_in_audit) (selected_members (w_id w) d))"

definition still_overdue :: "time \<Rightarrow> ident \<Rightarrow> window_row \<Rightarrow> window_row \<Rightarrow> bool" where
  "still_overdue now v cand w \<longleftrightarrow>
     w_id w = w_id cand \<and> w_claimed_by w = Some v \<and> (case w_expires w of Some x \<Rightarrow> x < now | None \<Rightarrow> False) \<and> w_settled_at w = None"

definition released_row :: "bool \<Rightarrow> window_row \<Rightarrow> window_row" where
  "released_row untouched w =
     (if untouched then w\<lparr>w_claimed_by := None, w_claimed_at := None, w_expires := None\<rparr> else w\<lparr>w_expires := None\<rparr>)"

definition add_missed :: "ident \<Rightarrow> rank_row list \<Rightarrow> rank_row list" where
  "add_missed v rs =
     (if find_where (\<lambda>r. rk_user r = v) rs = None then rs @ [\<lparr>rk_user = v, rk_audits = 0, rk_missed = 1\<rparr>]
      else update_where (\<lambda>r. rk_user r = v) (\<lambda>r. r\<lparr>rk_missed := rk_missed r + 1\<rparr>) rs)"

text \<open>The transaction; \<open>decided\<close> was counted when the sweep read the window.\<close>

definition release_txn :: "time \<Rightarrow> ident \<Rightarrow> window_row \<Rightarrow> nat \<Rightarrow> db \<Rightarrow> db \<times> bool" where
  "release_txn now v cand decided d =
     (case update_many (still_overdue now v cand) (released_row (decided = 0)) (windows d) of
        (ws, k) \<Rightarrow> (if k = 0 then (d, False)
                    else (d\<lparr>windows := ws, ranks := add_missed v (ranks d)\<rparr>, True)))"

definition release_notices :: "env \<Rightarrow> ident \<Rightarrow> window_row \<Rightarrow> nat \<Rightarrow> db \<Rightarrow> db" where
  "release_notices e v cand decided d =
     (let d1 = (if decided = 0
                then (case bounty_by (w_bounty cand) d of
                        None \<Rightarrow> d | Some b \<Rightarrow> fst (enqueue e (emitAuditAvailableMatches b None) d))
                else d)
      in notifyUser e v ''audit.deadline_missed''
           (Some (''audit.deadline_missed:'' @ w_id cand @ '':claim:'' @ show_int (or_else (w_expires cand) 0)))
           (Some ''HumanAuditWindow'') (Some (w_id cand)) (Some (w_bounty cand)) d1)"

fun release_loop :: "env \<Rightarrow> time \<Rightarrow> (window_row \<times> nat) list \<Rightarrow> db \<Rightarrow> db \<times> nat" where
  "release_loop e now [] d = (d, 0)"
| "release_loop e now ((w, decided) # rest) d =
     (case w_claimed_by w of
        None \<Rightarrow> release_loop e now rest d
      | Some v \<Rightarrow>
          (case release_txn now v w decided d of
             (d1, False) \<Rightarrow> release_loop e now rest d1
           | (d1, True) \<Rightarrow>
               (case release_loop e now rest (release_notices e v w decided d1) of (d2, n) \<Rightarrow> (d2, Suc n))))"

definition releaseOverdueAudits :: "env \<Rightarrow> time \<Rightarrow> db \<Rightarrow> db \<times> nat" where
  "releaseOverdueAudits e now d =
     release_loop e now (map (\<lambda>w. (w, decided_members w d)) (filter (overdue now) (windows d))) d"

section \<open>Returning one item to review\<close>

definition AUDIT_REVIEW_SLA_MS :: time where
  "AUDIT_REVIEW_SLA_MS = 24 * 60 * 60 * 1000"

record reopen_result =
  ro_batch :: ident
  ro_pooled :: bool
  ro_retained :: "ident option"

definition cleared_item :: "audit_item_row \<Rightarrow> audit_item_row" where
  "cleared_item i = i\<lparr>ai_verdict := None, ai_reason := None, ai_note := None, ai_decided := None\<rparr>"

definition reopened_window :: "bool \<Rightarrow> time \<Rightarrow> window_row \<Rightarrow> window_row" where
  "reopened_window pooled now w =
     (if pooled then w\<lparr>w_settled_at := None, w_claimed_by := None, w_claimed_at := None, w_expires := None\<rparr>
      else w\<lparr>w_settled_at := None, w_expires := Some (now + AUDIT_REVIEW_SLA_MS)\<rparr>)"

definition reopened_batch :: "bool \<Rightarrow> time \<Rightarrow> audit_batch_row \<Rightarrow> audit_batch_row" where
  "reopened_batch pooled now b =
     (if pooled then b\<lparr>ab_status := ''available'', ab_validator := None, ab_claimed_at := None, ab_deadline := None\<rparr>
      else b\<lparr>ab_status := ''in_progress'', ab_deadline := Some (now + AUDIT_REVIEW_SLA_MS)\<rparr>)"

text \<open>\<open>None\<close> is the error of an update that finds no row.\<close>

definition reopenAuditItemForReview :: "env \<Rightarrow> ident \<Rightarrow> ident \<Rightarrow> db \<Rightarrow> (db \<times> reopen_result) option" where
  "reopenAuditItemForReview e item batch d =
     (if find_where (\<lambda>i. ai_id i = item) (aitems d) = None then None
      else let d1 = d\<lparr>aitems := update_where (\<lambda>i. ai_id i = item) cleared_item (aitems d)\<rparr>;
               decidedElsewhere = count_where (\<lambda>i. ai_batch i = batch \<and> isDecidedAuditItem (Some i)) (aitems d1);
               owner = Option.bind (batch_by batch d1) ab_validator;
               pooled = (decidedElsewhere = 0 \<or> owner = None)
           in if batch_by batch d1 = None then None
              else Some (set_window (\<lambda>w. w_batch w = Some batch) (reopened_window pooled (e_now e))
                           (set_batch (\<lambda>b. ab_id b = batch) (reopened_batch pooled (e_now e)) d1),
                         \<lparr>ro_batch = batch, ro_pooled = pooled, ro_retained = (if pooled then None else owner)\<rparr>))"

section \<open>Facts\<close>

definition window_ids :: "db \<Rightarrow> bool" where
  "window_ids d \<longleftrightarrow> distinct (map w_id (windows d))"

lemma window_by_in: "window_ids d \<Longrightarrow> w \<in> set (windows d) \<Longrightarrow> window_by (w_id w) d = Some w"
  by (simp add: window_ids_def window_by_def find_where_unique)

lemma window_by_id: "window_by k d = Some w \<Longrightarrow> w_id w = k \<and> w \<in> set (windows d)"
  using find_where_Some [of "\<lambda>w. w_id w = k" "windows d" w] by (simp add: window_by_def)

text \<open>Claims, releases and reopenings are compare-and-swaps on the claimant, or leave it.\<close>

interpretation window_claim: cas_column "claimable_row wid" "claimed_row v now" for wid v now
  by unfold_locales (simp add: claimable_row_def claimed_row_def)

interpretation window_release: cas_column "still_overdue now v cand" "released_row untouched" for now v cand untouched
  by unfold_locales (simp add: still_overdue_def released_row_def)

lemma queried_windows_set: "set (queried_windows want d) = {w \<in> set (windows d). open_unclaimed want w}"
  by (auto simp: queried_windows_def)

lemma audit_rows_set:
  "w \<in> set (audit_rows want v d) \<longleftrightarrow>
     w \<in> set (windows d) \<and> open_unclaimed want w \<and> pending_count (selected_members (w_id w) d) \<noteq> 0
     \<and> window_conflict (loadValidatorDuplicateConflictSets v d) v w d = None"
  by (auto simp: audit_rows_def Let_def queried_windows_set)

lemma window_conflict_None:
  "window_conflict ds v w d = None \<longleftrightarrow>
     \<not> hasAuditConflict (selected_members (w_id w) d) v \<and> \<not> hasDuplicateOfOwnWorkConflict (duplicate_items (selected_members (w_id w) d)) ds"
  by (simp add: window_conflict_def hasAuditConflict_def Let_def split: option.split)

text \<open>The claim's transaction on the row it addresses.\<close>

lemma claim_txn_spec:
  fixes e :: env and v :: ident
  assumes "window_ids d" and "window_by wid d = Some w"
  defines "maxc \<equiv> at_concurrent (validatorRankForAudits (audits_of v d))"
    and "active \<equiv> count_where (active_claim v (e_now e)) (windows d)"
  shows "claim_txn e wid v n d =
     (if int active \<ge> maxc then (d, Claim_capacity maxc active)
      else if claimable_row wid w
      then (d\<lparr>windows := update_where (\<lambda>x. w_id x = wid) (claimed_row v (e_now e)) (windows d)\<rparr>,
            Claim_ok v (e_now e) (e_now e + CLAIM_SLA_MS) n)
      else (d, or_else (held_by v w n) Claim_conflict))"
proof -
  have row: "find_where (\<lambda>x. w_id x = wid) (windows d) = Some w" and ids: "distinct (map w_id (windows d))"
    using assms(1,2) by (simp_all add: window_ids_def window_by_def)
  let ?Q = "\<lambda>x. w_claimed_by x = None \<and> w_settled_at x = None \<and> w_superseded_at x = None"
  have cr: "claimable_row wid = (\<lambda>x. w_id x = wid \<and> ?Q x)" by (rule ext) (simp add: claimable_row_def)
  have id: "w_id w = wid" using window_by_id [OF assms(2)] by simp
  have cnt: "count_where (claimable_row wid) (windows d) = (if claimable_row wid w then 1 else 0)"
    unfolding cr using count_where_key_guard [OF ids row, of ?Q] id by simp
  have upd: "update_where (claimable_row wid) f (windows d) = (if claimable_row wid w then update_where (\<lambda>x. w_id x = wid) f (windows d) else windows d)" for f
    unfolding cr using update_where_key_guard [OF ids row, of ?Q] id by simp
  show ?thesis
    using assms(2) by (simp add: claim_txn_def Let_def update_many_def cnt upd maxc_def active_def window_by_def)
qed

lemma listed_before_order: "\<not> listed_before x x" "listed_before x y \<Longrightarrow> listed_before y z \<Longrightarrow> listed_before x z"
  by (auto simp: listed_before_def)

interpretation audit_pages: keyset_walk listed_before
  by unfold_locales (auto intro: listed_before_order simp: listed_before_order)

lemma ascending_windows:
  "sorted (map (\<lambda>w. (w_closed_at w, w_id w)) ws) \<Longrightarrow> distinct (map w_id ws) \<Longrightarrow> sorted_wrt (\<lambda>a b. listed_before b a) ws"
proof (induction ws)
  case Nil
  then show ?case by simp
next
  case (Cons w ws)
  have "listed_before x w" if "x \<in> set ws" for x
  proof -
    have "(w_closed_at w, w_id w) \<le> (w_closed_at x, w_id x)" "w_id w \<noteq> w_id x" using Cons.prems that by auto
    then show ?thesis by (auto simp: listed_before_def)
  qed
  with Cons show ?case by simp
qed

lemma audit_rows_sorted:
  assumes "window_ids d"
  shows "sorted_wrt listed_before (audit_rows want v d)"
proof -
  let ?k = "\<lambda>w. (w_closed_at w, w_id w)"
  let ?ws = "filter (open_unclaimed want) (windows d)"
  have di: "distinct (map w_id ?ws)" using assms by (simp add: window_ids_def distinct_filter_map)
  then have "distinct (map w_id (sort_key ?k ?ws))" by (simp add: distinct_map)
  then have "sorted_wrt (\<lambda>a b. listed_before b a) (sort_key ?k ?ws)" by (intro ascending_windows) simp_all
  then show ?thesis
    unfolding audit_rows_def Let_def queried_windows_def by (intro sorted_wrt_filter) (simp add: sorted_wrt_rev)
qed

text \<open>The reaper on one window: what the transaction writes, and what the notices leave alone.\<close>

lemma release_notices_frame [simp]:
  "windows (release_notices e v c n d) = windows d" "ranks (release_notices e v c n d) = ranks d"
  "members (release_notices e v c n d) = members d" "submissions (release_notices e v c n d) = submissions d"
  by (simp_all add: release_notices_def Let_def split: option.split)

definition missed_total :: "db \<Rightarrow> int" where
  "missed_total d = sum_list (map rk_missed (ranks d))"

lemma add_missed_total:
  assumes "distinct (map rk_user rs)"
  shows "sum_list (map rk_missed (add_missed v rs)) = sum_list (map rk_missed rs) + 1
    \<and> distinct (map rk_user (add_missed v rs))"
proof (cases "find_where (\<lambda>r. rk_user r = v) rs")
  case None
  then have "v \<notin> rk_user ` set rs" by (auto simp: find_where_None_iff)
  with None assms show ?thesis by (simp add: add_missed_def)
next
  case (Some r)
  then have v: "v \<in> rk_user ` set rs" using find_where_Some by fastforce
  have "sum_list (map rk_missed (update_where (\<lambda>r. rk_user r = v) (\<lambda>r. r\<lparr>rk_missed := rk_missed r + 1\<rparr>) rs)) = sum_list (map rk_missed rs) + 1"
    using assms v
  proof (induction rs)
    case Nil
    then show ?case by simp
  next
    case (Cons x xs)
    show ?case
    proof (cases "rk_user x = v")
      case True
      then have "update_where (\<lambda>r. rk_user r = v) (\<lambda>r. r\<lparr>rk_missed := rk_missed r + 1\<rparr>) xs = xs"
        using Cons.prems by (intro update_where_id) (auto simp: image_iff)
      with True show ?thesis by simp
    next
      case False
      with Cons show ?thesis by auto
    qed
  qed
  with Some assms show ?thesis by (simp add: add_missed_def map_update_where)
qed

lemma release_txn_spec:
  assumes "window_ids d" and "window_by (w_id c) d = Some w" and "w_claimed_by c = Some v"
    and "w_claimed_by w = w_claimed_by c" and "w_expires w = w_expires c" and "w_settled_at w = None" and "overdue now c"
  shows "release_txn now v c n d
     = (d\<lparr>windows := update_where (\<lambda>x. w_id x = w_id c) (released_row (n = 0)) (windows d), ranks := add_missed v (ranks d)\<rparr>, True)"
proof -
  have row: "find_where (\<lambda>x. w_id x = w_id c) (windows d) = Some w" and ids: "distinct (map w_id (windows d))"
    using assms(1,2) by (simp_all add: window_ids_def window_by_def)
  let ?Q = "\<lambda>x. w_claimed_by x = Some v \<and> (case w_expires x of Some x \<Rightarrow> x < now | None \<Rightarrow> False) \<and> w_settled_at x = None"
  have so: "still_overdue now v c = (\<lambda>x. w_id x = w_id c \<and> ?Q x)" by (rule ext) (simp add: still_overdue_def)
  have q: "?Q w" using assms(3-7) by (simp add: overdue_def)
  show ?thesis
    unfolding release_txn_def update_many_def so
    using count_where_key_guard [OF ids row, of ?Q] update_where_key_guard [OF ids row, of ?Q "released_row (n = 0)"] q by simp
qed

lemma released_row_id [simp]: "w_id (released_row u w) = w_id w"
  by (simp add: released_row_def)

lemma release_loop_spec:
  assumes "window_ids d" and "distinct (map rk_user (ranks d))" and "distinct (map (w_id \<circ> fst) ps)"
    and "\<forall>p \<in> set ps. window_by (w_id (fst p)) d = Some (fst p) \<and> overdue now (fst p)"
  shows "windows (fst (release_loop e now ps d))
           = map (\<lambda>x. case map_of (map (\<lambda>p. (w_id (fst p), snd p)) ps) (w_id x) of None \<Rightarrow> x | Some k \<Rightarrow> released_row (k = 0) x) (windows d)
     \<and> snd (release_loop e now ps d) = length ps
     \<and> missed_total (fst (release_loop e now ps d)) = missed_total d + int (length ps)
     \<and> members (fst (release_loop e now ps d)) = members d \<and> submissions (fst (release_loop e now ps d)) = submissions d"
  using assms
proof (induction ps arbitrary: d)
  case Nil
  then show ?case by simp
next
  case (Cons p ps)
  obtain c k where p: "p = (c, k)" by (cases p)
  have cb: "window_by (w_id c) d = Some c" and od: "overdue now c" using Cons.prems(4) p by auto
  then obtain v where v: "w_claimed_by c = Some v" and st: "w_settled_at c = None" by (auto simp: overdue_def)
  let ?d1 = "d\<lparr>windows := update_where (\<lambda>x. w_id x = w_id c) (released_row (k = 0)) (windows d), ranks := add_missed v (ranks d)\<rparr>"
  define d2 where "d2 = release_notices e v c k ?d1"
  have tx: "release_txn now v c k d = (?d1, True)"
    by (rule release_txn_spec [OF Cons.prems(1) cb v refl refl st od])
  have w2: "windows d2 = update_where (\<lambda>x. w_id x = w_id c) (released_row (k = 0)) (windows d)"
    and r2: "ranks d2 = add_missed v (ranks d)" and s2: "members d2 = members d" "submissions d2 = submissions d"
    by (simp_all add: d2_def)
  have i2: "window_ids d2" using Cons.prems(1) by (simp add: window_ids_def w2 map_update_where)
  have other: "window_by (w_id (fst q)) d2 = Some (fst q)" if "q \<in> set ps" for q
  proof -
    have ne: "w_id (fst q) \<noteq> w_id c" using Cons.prems(3) that p by (auto simp: image_iff)
    have "window_by (w_id (fst q)) d = Some (fst q)" using Cons.prems(4) that by auto
    then show ?thesis
      using ne by (simp add: window_by_def w2 find_where_update_where)
  qed
  have ih: "windows (fst (release_loop e now ps d2))
           = map (\<lambda>x. case map_of (map (\<lambda>p. (w_id (fst p), snd p)) ps) (w_id x) of None \<Rightarrow> x | Some k \<Rightarrow> released_row (k = 0) x) (windows d2)
     \<and> snd (release_loop e now ps d2) = length ps
     \<and> missed_total (fst (release_loop e now ps d2)) = missed_total d2 + int (length ps)
     \<and> members (fst (release_loop e now ps d2)) = members d2 \<and> submissions (fst (release_loop e now ps d2)) = submissions d2"
    by (rule Cons.IH) (use i2 other Cons.prems(2-4) add_missed_total r2 p in auto)
  have step: "release_loop e now (p # ps) d = (fst (release_loop e now ps d2), Suc (snd (release_loop e now ps d2)))"
    using tx v by (simp add: p d2_def case_prod_beta)
  have none: "map_of (map (\<lambda>p. (w_id (fst p), snd p)) ps) (w_id c) = None"
    using Cons.prems(3) p by (auto simp: map_of_eq_None_iff image_iff)
  have "map (\<lambda>x. case map_of (map (\<lambda>p. (w_id (fst p), snd p)) ps) (w_id x) of None \<Rightarrow> x | Some k \<Rightarrow> released_row (k = 0) x) (windows d2)
      = map (\<lambda>x. case map_of (map (\<lambda>p. (w_id (fst p), snd p)) (p # ps)) (w_id x) of None \<Rightarrow> x | Some k \<Rightarrow> released_row (k = 0) x) (windows d)"
    unfolding w2 update_where_def map_map comp_def p using none by (intro map_cong) auto
  moreover have "missed_total d2 = missed_total d + 1"
    using add_missed_total [OF Cons.prems(2)] r2 by (simp add: missed_total_def)
  ultimately show ?case using ih s2 unfolding step by simp
qed

lemma reaper_spec:
  assumes "window_ids d" and "distinct (map rk_user (ranks d))"
  shows "windows (fst (releaseOverdueAudits e now d))
           = map (\<lambda>x. if overdue now x then released_row (decided_members x d = 0) x else x) (windows d)
     \<and> snd (releaseOverdueAudits e now d) = count_where (overdue now) (windows d)
     \<and> missed_total (fst (releaseOverdueAudits e now d)) = missed_total d + int (count_where (overdue now) (windows d))"
proof -
  let ?ps = "map (\<lambda>w. (w, decided_members w d)) (filter (overdue now) (windows d))"
  have d1: "distinct (map (w_id \<circ> fst) ?ps)" using assms(1) distinct_filter_map by (auto simp: comp_def window_ids_def)
  have d2: "\<forall>p \<in> set ?ps. window_by (w_id (fst p)) d = Some (fst p) \<and> overdue now (fst p)"
    using window_by_in [OF assms(1)] by auto
  note sp = release_loop_spec [OF assms d1 d2, of e]
  have mo: "map_of (map (\<lambda>p. (w_id (fst p), snd p)) ?ps) (w_id x) = (if overdue now x then Some (decided_members x d) else None)"
    if x: "x \<in> set (windows d)" for x
  proof -
    have e: "map (\<lambda>p. (w_id (fst p), snd p)) ?ps = map (\<lambda>w. (w_id w, decided_members w d)) (filter (overdue now) (windows d))"
      by simp
    have di: "distinct (map fst (map (\<lambda>w. (w_id w, decided_members w d)) (filter (overdue now) (windows d))))"
      using assms(1) distinct_filter_map by (auto simp: comp_def window_ids_def)
    show ?thesis
    proof (cases "overdue now x")
      case True
      then have "(w_id x, decided_members x d) \<in> set (map (\<lambda>w. (w_id w, decided_members w d)) (filter (overdue now) (windows d)))"
        using x by auto
      with di True show ?thesis unfolding e by (simp only: map_of_eq_Some_iff if_True)
    next
      case False
      have "w_id x \<notin> w_id ` set (filter (overdue now) (windows d))"
        using False x assms(1) by (auto simp: window_ids_def distinct_map inj_on_def)
      with False show ?thesis unfolding e by (auto simp: map_of_eq_None_iff image_iff)
    qed
  qed
  have "map (\<lambda>x. case map_of (map (\<lambda>p. (w_id (fst p), snd p)) ?ps) (w_id x) of None \<Rightarrow> x | Some k \<Rightarrow> released_row (k = 0) x) (windows d)
      = map (\<lambda>x. if overdue now x then released_row (decided_members x d = 0) x else x) (windows d)"
    by (rule map_cong [OF refl]) (simp only: mo if_distrib [of "case_option _ _"] option.case if_split, simp)
  then show ?thesis using sp unfolding releaseOverdueAudits_def by (simp add: count_where_def)
qed

text \<open>Following the cursors of the list.\<close>

fun audit_walk :: "nat \<Rightarrow> (window_row \<Rightarrow> bool) \<Rightarrow> ident \<Rightarrow> int option \<Rightarrow> (time \<times> ident) option \<Rightarrow> db \<Rightarrow> window_row list" where
  "audit_walk 0 want v limit pos d = []"
| "audit_walk (Suc k) want v limit pos d =
     (let p = listAvailableAudits want v limit None pos d
      in ap_rows p @ (if ap_has_more p then audit_walk k want v limit (ap_next p) d else []))"

definition position_of :: "window_row option \<Rightarrow> (time \<times> ident) option" where
  "position_of r = map_option (\<lambda>w. (w_closed_at w, w_id w)) r"

lemma page_size_pos: "0 < page_size limit"
  by (simp add: page_size_def)

lemma page_is_keyset:
  "ap_rows (listAvailableAudits want v limit None (position_of r) d)
     = fst (takePage (after_rows listed_before r (audit_rows want v d)) (page_size limit))
   \<and> ap_has_more (listAvailableAudits want v limit None (position_of r) d)
     = snd (takePage (after_rows listed_before r (audit_rows want v d)) (page_size limit))
   \<and> (ap_has_more (listAvailableAudits want v limit None (position_of r) d) \<longrightarrow>
       ap_next (listAvailableAudits want v limit None (position_of r) d)
         = position_of (Some (last (fst (takePage (after_rows listed_before r (audit_rows want v d)) (page_size limit))))))"
proof (cases r)
  case None
  have "take (page_size limit) xs \<noteq> []" if "length xs > page_size limit" for xs :: "window_row list"
    using that page_size_pos [of limit] by auto
  then show ?thesis
    unfolding None by (auto simp: listAvailableAudits_def position_of_def after_rows_def takePage_def Let_def or_else_def)
next
  case (Some y)
  have f: "(\<lambda>w. if w_closed_at w \<noteq> w_closed_at y then w_closed_at w < w_closed_at y else w_id w < w_id y) = listed_before y"
    by (rule ext) (auto simp: listed_before_def)
  have tp: "fst (takePage (take (n + 1) xs) n) = fst (takePage xs n)" for n and xs :: "window_row list"
    by (auto simp: takePage_def min_def)
  have ne: "fst (takePage xs n) \<noteq> []" if "length xs > n" "n > 0" for n and xs :: "window_row list"
    using that by (auto simp: takePage_def)
  have sn: "snd (takePage xs n) = (length xs > n)" for n and xs :: "window_row list"
    by (simp add: takePage_def)
  show ?thesis
    unfolding Some listAvailableAudits_def position_of_def after_rows_def option.map option.case Let_def prod.case f tp
    using ne page_size_pos [of limit] by (simp add: sn)
qed

lemma audit_walk_eq:
  "audit_walk k want v limit (position_of r) d = concat (walk listed_before k (page_size limit) r (audit_rows want v d))"
proof (induction k arbitrary: r)
  case 0
  then show ?case by simp
next
  case (Suc k)
  obtain page hasMore where tp: "takePage (after_rows listed_before r (audit_rows want v d)) (page_size limit) = (page, hasMore)" by force
  note pk = page_is_keyset [of want v limit r d, unfolded tp fst_conv snd_conv]
  show ?case
  proof (cases hasMore)
    case True
    then have n: "ap_next (listAvailableAudits want v limit None (position_of r) d) = position_of (Some (last page))" using pk by blast
    have "audit_walk (Suc k) want v limit (position_of r) d = page @ audit_walk k want v limit (position_of (Some (last page))) d"
      unfolding audit_walk.simps Let_def n using pk True by simp
    then show ?thesis using Suc.IH tp True by simp
  next
    case False
    then show ?thesis using pk tp by (simp add: Let_def)
  qed
qed

section \<open>Properties\<close>

text \<open>C10: The list and the claim agree: an unclaimed window is listed for a validator exactly when the checks of the
  claim let that validator through to the transaction, so nothing listed is refused for a conflict of interest, for
  being settled or superseded, or for having nothing left to decide.\<close>

theorem list_agrees_with_claim:
  assumes "window_ids d" and "w \<in> set (windows d)" and "w_claimed_by w = None"
  shows "w \<in> set (audit_rows (\<lambda>x. True) v d) \<longleftrightarrow> (\<exists>n. claim_precheck (w_id w) v d = Inr (w, n))"
proof -
  have wb: "window_by (w_id w) d = Some w" by (rule window_by_in [OF assms(1,2)])
  have "held_by v w n = None" for n using assms(3) by (simp add: held_by_def)
  then show ?thesis
    using assms(2,3) by (auto simp: audit_rows_set window_conflict_None claim_precheck_def wb Let_def open_unclaimed_def)
qed


text \<open>An open window of two items, by two contributors, waiting for its validator \<open>v\<close>.\<close>

definition open_window :: "ident \<Rightarrow> time \<Rightarrow> window_row" where
  "open_window i t = \<lparr>w_id = i, w_bounty = ''b'', w_index = 1, w_eligible = 2, w_quota = 2, w_carry = 0, w_reason = [],
     w_closed_at = t, w_settled_at = None, w_failed_at = None, w_rejected = None, w_superseded_at = None,
     w_superseded_reason = None, w_claimed_by = None, w_claimed_at = None, w_expires = None, w_batch = None\<rparr>"

definition audit_member :: "ident \<Rightarrow> ident \<Rightarrow> ident \<Rightarrow> member_row" where
  "audit_member i w s = \<lparr>m_id = i, m_window = w, m_submission = s, m_selected = True, m_rank = []\<rparr>"

definition audit_db :: "window_row list \<Rightarrow> db" where
  "audit_db ws = db0\<lparr>bounties := [bounty0 ''b''], windows := ws,
     members := [audit_member ''m1'' ''w1'' ''s1'', audit_member ''m2'' ''w1'' ''s2'', audit_member ''m3'' ''w2'' ''s3''],
     submissions := [submission0 ''s1'' ''b'' ''u1'' S_in_audit, submission0 ''s2'' ''b'' ''u2'' S_in_audit,
                     submission0 ''s3'' ''b'' ''u1'' S_in_audit]\<rparr>"

lemmas audit_db_simps = audit_db_def open_window_def audit_member_def db0_def submission0_def bounty0_def

theorem list_agrees_with_claim_witness:
  "(open_window ''w1'' 5 \<in> set (audit_rows (\<lambda>x. True) ''v'' (audit_db [open_window ''w1'' 5])))
     = (\<exists>n. claim_precheck ''w1'' ''v'' (audit_db [open_window ''w1'' 5]) = Inr (open_window ''w1'' 5, n))"
  using list_agrees_with_claim [of "audit_db [open_window ''w1'' 5]" "open_window ''w1'' 5" "''v''"]
  by (simp add: window_ids_def audit_db_simps)

text \<open>Listing by cursor is complete: following the cursors of a list that does not change serves every window the
  validator may review exactly once, in order, within one page per window.\<close>

lemma audit_listing_complete:
  assumes "window_ids d" and "length (audit_rows want v d) \<le> k" and "0 < k"
  shows "audit_walk k want v limit None d = audit_rows want v d"
proof -
  have "length (after_rows listed_before None (audit_rows want v d)) < k * page_size limit + 1"
  proof -
    have "k * 1 \<le> k * page_size limit" using page_size_pos [of limit] by (intro mult_le_mono2) simp
    with assms(2) have "length (audit_rows want v d) \<le> k * page_size limit" by linarith
    then show ?thesis by (simp add: after_rows_def)
  qed
  from audit_pages.walk_complete [OF audit_rows_sorted [OF assms(1)] page_size_pos this assms(3)]
  show ?thesis
    using audit_walk_eq [of k want v limit None d] by (simp add: position_of_def after_rows_def)
qed

lemma audit_listing_complete_witness:
  "audit_walk 5 (\<lambda>x. True) ''v'' (Some 1) None (audit_db [open_window ''w1'' 5, open_window ''w2'' 7])
     = audit_rows (\<lambda>x. True) ''v'' (audit_db [open_window ''w1'' 5, open_window ''w2'' 7])"
proof (rule audit_listing_complete)
  show "length (audit_rows (\<lambda>x. True) ''v'' (audit_db [open_window ''w1'' 5, open_window ''w2'' 7])) \<le> 5"
    unfolding audit_rows_def Let_def queried_windows_def
    by (rule order_trans [OF length_filter_le]) (simp add: audit_db_simps)
qed (simp_all add: window_ids_def audit_db_simps)

text \<open>A claim is exclusive: whatever an earlier read said, the transaction of another validator on a held window
  changes nothing and is answered with a conflict or with that validator's own limit.\<close>

lemma held_window_not_taken:
  assumes "window_ids d" and "window_by wid d = Some w" and "w_claimed_by w = Some v" and "v' \<noteq> v"
  shows "\<exists>r. claim_txn e wid v' n d = (d, r) \<and> (r = Claim_conflict \<or> (\<exists>m k. r = Claim_capacity m k))"
  using claim_txn_spec [OF assms(1,2), of e v' n] assms(3,4)
  by (auto simp: claimable_row_def held_by_def or_else_def split: option.split)

lemma held_window_not_taken_witness:
  "\<exists>r. claim_txn (env0 9) ''w1'' ''v2'' 2 (audit_db [(open_window ''w1'' 5)\<lparr>w_claimed_by := Some ''v''\<rparr>])
     = (audit_db [(open_window ''w1'' 5)\<lparr>w_claimed_by := Some ''v''\<rparr>], r)"
proof -
  let ?w = "(open_window ''w1'' 5)\<lparr>w_claimed_by := Some ''v''\<rparr>"
  have "window_ids (audit_db [?w])" "window_by ''w1'' (audit_db [?w]) = Some ?w" "w_claimed_by ?w = Some ''v''" "''v2'' \<noteq> ''v''"
    by (simp_all add: window_ids_def window_by_def audit_db_simps)
  from held_window_not_taken [OF this] show ?thesis by blast
qed

text \<open>A validator never claims past the limit of their rank: after a claim succeeds they hold at most as many
  active windows as the rank of their completed audits allows, never more than 15, and the claim of a free window
  holds it for exactly the review period.\<close>

lemma claims_stay_within_rank:
  assumes "window_ids d" and "window_by wid d = Some w" and "claim_txn e wid v n d = (d', Claim_ok v t1 t2 n)"
  shows "int (count_where (active_claim v (e_now e)) (windows d')) \<le> at_concurrent (validatorRankForAudits (audits_of v d))
     \<and> at_concurrent (validatorRankForAudits (audits_of v d)) \<le> 15
     \<and> (w_claimed_by w = None \<longrightarrow> window_by wid d' = Some (claimed_row v (e_now e) w) \<and> t1 = e_now e \<and> t2 = t1 + 24 * 60 * 60 * 1000)"
proof -
  let ?n = "\<lambda>x. count_where (active_claim v (e_now e)) (windows x)"
  have lim: "int (?n d) < at_concurrent (validatorRankForAudits (audits_of v d))"
    using claim_txn_spec [OF assms(1,2), of e v n] assms(3) by (auto split: if_splits)
  have row: "find_where (\<lambda>x. w_id x = wid) (windows d) = Some w" and ids: "distinct (map w_id (windows d))"
    using assms(1,2) by (simp_all add: window_ids_def window_by_def)
  show ?thesis
  proof (cases "claimable_row wid w")
    case True
    then have d': "d' = d\<lparr>windows := update_where (\<lambda>x. w_id x = wid) (claimed_row v (e_now e)) (windows d)\<rparr>"
      and t: "t1 = e_now e" "t2 = e_now e + CLAIM_SLA_MS"
      using claim_txn_spec [OF assms(1,2), of e v n] assms(3) lim by auto
    have "int (?n d') = int (?n d) - (if active_claim v (e_now e) w then 1 else 0)
        + (if active_claim v (e_now e) (claimed_row v (e_now e) w) then 1 else 0)"
      unfolding d' using count_update_one [OF ids _ _, of w wid "active_claim v (e_now e)" "claimed_row v (e_now e)"]
        find_where_Some [OF row] by simp
    also have "\<dots> \<le> int (?n d) + 1" by simp
    finally have "int (?n d') \<le> at_concurrent (validatorRankForAudits (audits_of v d))" using lim by simp
    moreover have "window_by wid d' = Some (claimed_row v (e_now e) w)"
      unfolding window_by_def d' using row by (simp add: find_where_key_update claimed_row_def)
    ultimately show ?thesis using t concurrent_bounds by (simp add: CLAIM_SLA_MS_def)
  next
    case False
    then have "d' = d \<and> held_by v w n \<noteq> None"
      using claim_txn_spec [OF assms(1,2), of e v n] assms(3) lim by (cases "held_by v w n") (auto simp: or_else_def)
    then have "d' = d" and "w_claimed_by w = None \<longrightarrow> False" by (auto simp: held_by_def split: option.split_asm)
    then show ?thesis using lim concurrent_bounds [of "audits_of v d"] by auto
  qed
qed

lemma claims_stay_within_rank_witness:
  "\<exists>d'. claim_txn (env0 9) ''w1'' ''v'' 2 (audit_db [open_window ''w1'' 5]) = (d', Claim_ok ''v'' 9 86400009 2)
     \<and> count_where (active_claim ''v'' 9) (windows d') \<le> 1"
proof -
  let ?d = "audit_db [open_window ''w1'' 5]"
  have i: "window_ids ?d" and w: "window_by ''w1'' ?d = Some (open_window ''w1'' 5)"
    by (simp_all add: window_ids_def window_by_def audit_db_simps)
  have a: "audits_of ''v'' ?d = 0" by (simp add: audits_of_def or_else_def audit_db_simps)
  have one: "at_concurrent (validatorRankForAudits 0) = 1" by (simp add: validatorRankForAudits_def VALIDATOR_RANK_TIERS_def)
  have "active_claim ''v'' 9 (open_window ''w1'' 5) = False" by (simp add: active_claim_def open_window_def)
  then have z: "count_where (active_claim ''v'' 9) (windows ?d) = 0" by (simp add: audit_db_def)
  obtain d' where c: "claim_txn (env0 9) ''w1'' ''v'' 2 ?d = (d', Claim_ok ''v'' 9 86400009 2)"
    using claim_txn_spec [OF i w, of "env0 9" "''v''" 2] a one z
    by (simp add: claimable_row_def open_window_def env0_def CLAIM_SLA_MS_def)
  from claims_stay_within_rank [OF i w c] a one have "count_where (active_claim ''v'' (e_now (env0 9))) (windows d') \<le> 1" by simp
  with c show ?thesis by (auto simp: env0_def)
qed

text \<open>The reaper settles every overdue claim once: afterwards no claim is overdue, an untouched window is free, a
  window with decisions keeps its validator and loses its deadline, no other window changes, and one missed deadline is
  recorded per overdue claim; a second pass finds nothing.\<close>

lemma reaper_settles_overdue_claims:
  assumes "window_ids d" and "distinct (map rk_user (ranks d))" and "releaseOverdueAudits e now d = (d', n)"
  shows "windows d' = map (\<lambda>w. if \<not> overdue now w then w
                              else if decided_members w d = 0 then w\<lparr>w_claimed_by := None, w_claimed_at := None, w_expires := None\<rparr>
                              else w\<lparr>w_expires := None\<rparr>) (windows d)
     \<and> n = count_where (overdue now) (windows d) \<and> missed_total d' = missed_total d + int n
     \<and> snd (releaseOverdueAudits e' now d') = 0"
proof -
  note sp = reaper_spec [OF assms(1,2), of e now, unfolded assms(3) fst_conv snd_conv]
  have w: "windows d' = map (\<lambda>x. if overdue now x then released_row (decided_members x d = 0) x else x) (windows d)"
    using sp by blast
  have "filter (overdue now) (windows d') = []"
    unfolding w filter_empty_conv by (auto simp: released_row_def overdue_def)
  then have "snd (releaseOverdueAudits e' now d') = 0" by (simp add: releaseOverdueAudits_def)
  moreover have "windows d' = map (\<lambda>w. if \<not> overdue now w then w
                              else if decided_members w d = 0 then w\<lparr>w_claimed_by := None, w_claimed_at := None, w_expires := None\<rparr>
                              else w\<lparr>w_expires := None\<rparr>) (windows d)"
    unfolding w by (rule map_cong [OF refl]) (simp add: released_row_def)
  ultimately show ?thesis using sp by blast
qed

lemma reaper_settles_overdue_claims_witness:
  "\<exists>d' n. releaseOverdueAudits (env0 100) 100 (audit_db [(open_window ''w1'' 5)\<lparr>w_claimed_by := Some ''v'', w_expires := Some 50\<rparr>]) = (d', n)
     \<and> missed_total d' = int n \<and> n = 1"
proof -
  let ?d = "audit_db [(open_window ''w1'' 5)\<lparr>w_claimed_by := Some ''v'', w_expires := Some 50\<rparr>]"
  obtain d' n where r: "releaseOverdueAudits (env0 100) 100 ?d = (d', n)" by force
  have "window_ids ?d" "distinct (map rk_user (ranks ?d))" by (simp_all add: window_ids_def audit_db_simps)
  from reaper_settles_overdue_claims [OF this r]
  have "n = count_where (overdue 100) (windows ?d)" "missed_total d' = missed_total ?d + int n" by blast+
  moreover have "count_where (overdue 100) (windows ?d) = 1" by (simp add: audit_db_simps overdue_def)
  moreover have "missed_total ?d = 0" by (simp add: missed_total_def audit_db_simps)
  ultimately show ?thesis using r by auto
qed

text \<open>The reaper can revoke a claim that holds decisions: the number of decided items is read before the
  transaction and its guard does not look at it again, so a validator who decides an item in between loses the window
  with the decision recorded, and another validator can claim it and finish it.\<close>

lemma reaper_revokes_decided_claim:
  assumes "window_ids d" and "window_by (w_id c) d = Some c" and "w_claimed_by c = Some v" and "overdue now c"
    and "0 < decided_members c d"
  shows "\<exists>d' w. release_txn now v c 0 d = (d', True) \<and> window_by (w_id c) d' = Some w \<and> w_claimed_by w = None
     \<and> 0 < decided_members w d' \<and> claimable_row (w_id c) w"
proof -
  have st: "w_settled_at c = None" "w_superseded_at c = None" using assms(4) by (simp_all add: overdue_def)
  have row: "find_where (\<lambda>x. w_id x = w_id c) (windows d) = Some c" using assms(2) by (simp add: window_by_def)
  let ?d = "d\<lparr>windows := update_where (\<lambda>x. w_id x = w_id c) (released_row True) (windows d), ranks := add_missed v (ranks d)\<rparr>"
  have tx: "release_txn now v c 0 d = (?d, True)"
    using release_txn_spec [OF assms(1,2,3) refl refl st(1) assms(4), of 0] by simp
  have w: "window_by (w_id c) ?d = Some (released_row True c)"
    using row by (simp add: window_by_def find_where_key_update)
  have sb: "(\<lambda>k. submission_by k ?d) = (\<lambda>k. submission_by k d)" by (rule ext) (simp add: submission_by_def)
  have "decided_members (released_row True c) ?d = decided_members c d"
    unfolding decided_members_def selected_members_def fun_cong [OF sb] by (simp add: released_row_def)
  then have "0 < decided_members (released_row True c) ?d" using assms(5) by simp
  moreover have "w_claimed_by (released_row True c) = None" "claimable_row (w_id c) (released_row True c)"
    using st assms(4) by (simp_all add: released_row_def claimable_row_def overdue_def)
  ultimately show ?thesis using tx w by blast
qed

lemma reaper_revokes_decided_claim_witness:
  "\<exists>d' w. release_txn 100 ''v'' ((open_window ''w1'' 5)\<lparr>w_claimed_by := Some ''v'', w_expires := Some 50\<rparr>) 0
     ((audit_db [(open_window ''w1'' 5)\<lparr>w_claimed_by := Some ''v'', w_expires := Some 50\<rparr>])
        \<lparr>submissions := [submission0 ''s1'' ''b'' ''u1'' S_accepted, submission0 ''s2'' ''b'' ''u2'' S_in_audit]\<rparr>) = (d', True)
     \<and> window_by ''w1'' d' = Some w \<and> w_claimed_by w = None \<and> 0 < decided_members w d'"
proof -
  let ?c = "(open_window ''w1'' 5)\<lparr>w_claimed_by := Some ''v'', w_expires := Some 50\<rparr>"
  let ?d = "(audit_db [?c])\<lparr>submissions := [submission0 ''s1'' ''b'' ''u1'' S_accepted, submission0 ''s2'' ''b'' ''u2'' S_in_audit]\<rparr>"
  have a: "window_ids ?d" "window_by (w_id ?c) ?d = Some ?c" "w_claimed_by ?c = Some ''v''" "overdue 100 ?c"
    by (simp_all add: window_ids_def window_by_def audit_db_simps overdue_def)
  have b: "0 < decided_members ?c ?d"
    by (simp add: decided_members_def selected_members_def List.map_filter_simps submission_by_def audit_db_simps)
  have i: "w_id ?c = ''w1''" by (simp add: open_window_def)
  from reaper_revokes_decided_claim [OF a b] show ?thesis unfolding i by blast
qed

text \<open>No operation ever writes the validator of an audit batch, so a returned item finds no owner.\<close>

lemma reopen_spec:
  assumes "\<forall>b \<in> set (abatches d). ab_validator b = None" and "reopenAuditItemForReview e item batch d = Some (d', r)"
  shows "ro_pooled r \<and> ro_retained r = None \<and> (\<forall>b \<in> set (abatches d'). ab_validator b = None)
     \<and> map ab_id (abatches d') = map ab_id (abatches d) \<and> map ai_id (aitems d') = map ai_id (aitems d)
     \<and> members d' = members d \<and> submissions d' = submissions d \<and> bounties d' = bounties d \<and> flags d' = flags d
     \<and> disputes d' = disputes d \<and> kevents d' = kevents d \<and> awards d' = awards d
     \<and> windows d' = map (\<lambda>w. if w_batch w = Some batch
           then w\<lparr>w_settled_at := None, w_claimed_by := None, w_claimed_at := None, w_expires := None\<rparr> else w) (windows d)"
proof -
  let ?d1 = "d\<lparr>aitems := update_where (\<lambda>i. ai_id i = item) cleared_item (aitems d)\<rparr>"
  let ?d2 = "set_batch (\<lambda>b. ab_id b = batch) (reopened_batch True (e_now e)) ?d1"
  have none: "Option.bind (batch_by batch ?d1) ab_validator = None"
  proof (cases "find_where (\<lambda>a. ab_id a = batch) (abatches d)")
    case None
    then show ?thesis by (simp add: batch_by_def)
  next
    case (Some b)
    from find_where_Some [OF this] assms(1) have "ab_validator b = None" by blast
    with Some show ?thesis by (simp add: batch_by_def)
  qed
  have eq: "d' = set_window (\<lambda>w. w_batch w = Some batch) (reopened_window True (e_now e)) ?d2"
    "ro_pooled r" "ro_retained r = None"
    using assms(2) by (auto simp: reopenAuditItemForReview_def Let_def none split: if_splits)
  have "\<forall>b \<in> set (abatches ?d2). ab_validator b = None"
    using assms(1) by (auto simp: set_batch_def update_where_def reopened_batch_def)
  then show ?thesis
    using eq(2,3) unfolding eq(1)
    by (simp add: set_window_def set_batch_def map_update_where reopened_batch_def cleared_item_def)
      (simp add: update_where_def reopened_window_def)
qed

text \<open>An item returned to review always sends its whole window back to the pool: no operation ever records a
  validator on an audit batch, so even when other items of the batch are decided the owner's claim is dropped.\<close>

lemma reopened_item_drops_owner:
  assumes "\<forall>b \<in> set (abatches d). ab_validator b = None" and "reopenAuditItemForReview e item batch d = Some (d', r)"
  shows "ro_pooled r \<and> ro_retained r = None \<and> (\<forall>b \<in> set (abatches d'). ab_validator b = None)
     \<and> windows d' = map (\<lambda>w. if w_batch w = Some batch
           then w\<lparr>w_settled_at := None, w_claimed_by := None, w_claimed_at := None, w_expires := None\<rparr> else w) (windows d)"
  using reopen_spec [OF assms] by blast

lemma reopened_item_drops_owner_witness:
  "\<exists>d' r. reopenAuditItemForReview (env0 9) ''i1'' ''k''
      ((audit_db [(open_window ''w1'' 5)\<lparr>w_claimed_by := Some ''v'', w_batch := Some ''k''\<rparr>])
        \<lparr>abatches := [\<lparr>ab_id = ''k'', ab_bounty = ''b'', ab_validator = None, ab_count = 2, ab_status = ''available'',
                        ab_deadline = None, ab_claimed_at = None, ab_created = 0\<rparr>],
         aitems := [\<lparr>ai_id = ''i1'', ai_batch = ''k'', ai_submission = ''s1'', ai_verdict = Some V_ok, ai_reason = None,
                      ai_note = None, ai_decided = Some 6\<rparr>,
                    \<lparr>ai_id = ''i2'', ai_batch = ''k'', ai_submission = ''s2'', ai_verdict = Some V_ok, ai_reason = None,
                      ai_note = None, ai_decided = Some 7\<rparr>]\<rparr>) = Some (d', r)
      \<and> ro_pooled r \<and> map w_claimed_by (windows d') = [None]"
proof -
  let ?d = "(audit_db [(open_window ''w1'' 5)\<lparr>w_claimed_by := Some ''v'', w_batch := Some ''k''\<rparr>])
        \<lparr>abatches := [\<lparr>ab_id = ''k'', ab_bounty = ''b'', ab_validator = None, ab_count = 2, ab_status = ''available'',
                        ab_deadline = None, ab_claimed_at = None, ab_created = 0\<rparr>],
         aitems := [\<lparr>ai_id = ''i1'', ai_batch = ''k'', ai_submission = ''s1'', ai_verdict = Some V_ok, ai_reason = None,
                      ai_note = None, ai_decided = Some 6\<rparr>,
                    \<lparr>ai_id = ''i2'', ai_batch = ''k'', ai_submission = ''s2'', ai_verdict = Some V_ok, ai_reason = None,
                      ai_note = None, ai_decided = Some 7\<rparr>]\<rparr>"
  have v: "\<forall>b \<in> set (abatches ?d). ab_validator b = None" by simp
  obtain d' r where r: "reopenAuditItemForReview (env0 9) ''i1'' ''k'' ?d = Some (d', r)"
    unfolding reopenAuditItemForReview_def batch_by_def Let_def by simp
  from reopened_item_drops_owner [OF v r] have "ro_pooled r" "map w_claimed_by (windows d') = [None]"
    by (auto simp: audit_db_simps)
  with r show ?thesis by (intro exI conjI)
qed

end
