(* ===== verification/Audit_History.thy ===== *)
theory Audit_History
  imports Audit_Claims
begin

text \<open>
  A validator's own windows (\<open>listMyAuditWindows\<close> of \<open>services/audits.ts\<close>): the status buckets, the
  three-key ordering with nulls, the cursor predicate that continues it, and the page. The cursor
  carries the two times and the id of the last row; their ISO text is the transport.
\<close>

section \<open>Buckets\<close>

datatype my_status = My_claimed | My_overdue | My_completed

definition before_now :: "time option \<Rightarrow> time \<Rightarrow> bool" where
  "before_now t now = (case t of Some x \<Rightarrow> x < now | None \<Rightarrow> False)"

text \<open>
  A filter of the query: the keys that must all hold, and the alternatives of its one \<open>OR\<close> key, if it
  has one. A spread with another \<open>OR\<close> replaces that key.
\<close>

record window_where =
  ww_keys :: "window_row \<Rightarrow> bool"
  ww_or :: "(window_row \<Rightarrow> bool) list option"

definition selects :: "window_where \<Rightarrow> window_row \<Rightarrow> bool" where
  "selects q w \<longleftrightarrow> ww_keys q w \<and> (case ww_or q of None \<Rightarrow> True | Some cs \<Rightarrow> list_ex (\<lambda>c. c w) cs)"

definition myAuditWindowStatusWhere :: "string option \<Rightarrow> time \<Rightarrow> window_where" where
  "myAuditWindowStatusWhere status now =
     (if status = Some ''completed'' then \<lparr>ww_keys = (\<lambda>w. w_settled_at w \<noteq> None), ww_or = None\<rparr>
      else if status = Some ''overdue'' \<or> status = Some ''overdue_review''
      then \<lparr>ww_keys = (\<lambda>w. w_settled_at w = None \<and> before_now (w_expires w) now), ww_or = None\<rparr>
      else if status = Some ''claimed'' \<or> status = Some ''in_progress''
      then \<lparr>ww_keys = (\<lambda>w. w_settled_at w = None),
            ww_or = Some [\<lambda>w. w_expires w = None, \<lambda>w. (case w_expires w of Some x \<Rightarrow> x \<ge> now | None \<Rightarrow> False)]\<rparr>
      else \<lparr>ww_keys = (\<lambda>w. True), ww_or = None\<rparr>)"

definition my_bucket :: "string option \<Rightarrow> string" where
  "my_bucket status =
     (if status = Some ''completed'' then ''completed''
      else if status = Some ''overdue'' \<or> status = Some ''overdue_review'' then ''overdue''
      else if status = Some ''claimed'' \<or> status = Some ''in_progress'' then ''claimed''
      else [])"

definition my_search :: "string option \<Rightarrow> string" where
  "my_search search = take 160 (js_trim (or_else search []))"

definition myAuditWindowsFilterKey :: "ident \<Rightarrow> string option \<Rightarrow> string option \<Rightarrow> string" where
  "myAuditWindowsFilterKey v status search =
     filterKeyOf [Part_text ''my-audits'', Part_text v, Part_text (my_bucket status), Part_text (my_search search)]"

text \<open>The status stamped on a row.\<close>

definition my_window_status :: "time \<Rightarrow> window_row \<Rightarrow> my_status" where
  "my_window_status now w =
     (if w_settled_at w \<noteq> None then My_completed
      else if before_now (w_expires w) now then My_overdue else My_claimed)"

section \<open>Order and cursor\<close>

record my_position =
  mp_settled :: "time option"
  mp_claimed :: "time option"
  mp_id :: ident

text \<open>The clauses of the cursor's \<open>OR\<close>.\<close>

definition within_group :: "my_position \<Rightarrow> (window_row \<Rightarrow> bool) \<Rightarrow> (window_row \<Rightarrow> bool) list" where
  "within_group p grp =
     (case mp_claimed p of
        None \<Rightarrow> [\<lambda>w. grp w \<and> w_claimed_at w = None \<and> w_id w < mp_id p,
                 \<lambda>w. grp w \<and> w_claimed_at w \<noteq> None]
      | Some c \<Rightarrow> [\<lambda>w. grp w \<and> before_now (w_claimed_at w) c,
                   \<lambda>w. grp w \<and> w_claimed_at w = Some c \<and> w_id w < mp_id p])"

definition myAuditWindowsAfter :: "my_position \<Rightarrow> (window_row \<Rightarrow> bool) list" where
  "myAuditWindowsAfter p =
     (case mp_settled p of
        None \<Rightarrow> within_group p (\<lambda>w. w_settled_at w = None)
      | Some s \<Rightarrow> within_group p (\<lambda>w. w_settled_at w = Some s)
                  @ [\<lambda>w. (case w_settled_at w of Some x \<Rightarrow> x > s | None \<Rightarrow> False),
                     \<lambda>w. w_settled_at w = None])"

text \<open>
  \<open>[settledAt asc, claimedAt desc, id desc]\<close> of the database: nulls last when ascending, first when
  descending.
\<close>

definition history_before :: "window_row \<Rightarrow> window_row \<Rightarrow> bool" where
  "history_before a b \<longleftrightarrow>
     (case (w_settled_at a, w_settled_at b) of
        (Some x, None) \<Rightarrow> True
      | (None, Some y) \<Rightarrow> False
      | (Some x, Some y) \<Rightarrow> x < y \<or> (x = y \<and> (case (w_claimed_at a, w_claimed_at b) of
            (None, Some _) \<Rightarrow> True | (Some _, None) \<Rightarrow> False
          | (Some p, Some q) \<Rightarrow> q < p \<or> (p = q \<and> w_id b < w_id a)
          | (None, None) \<Rightarrow> w_id b < w_id a))
      | (None, None) \<Rightarrow> (case (w_claimed_at a, w_claimed_at b) of
            (None, Some _) \<Rightarrow> True | (Some _, None) \<Rightarrow> False
          | (Some p, Some q) \<Rightarrow> q < p \<or> (p = q \<and> w_id b < w_id a)
          | (None, None) \<Rightarrow> w_id b < w_id a))"

definition history_key :: "window_row \<Rightarrow> (bool \<times> int) \<times> (bool \<times> int) \<times> string" where
  "history_key w =
     ((w_settled_at w \<noteq> None, - or_else (w_settled_at w) 0), (w_claimed_at w = None, or_else (w_claimed_at w) 0), w_id w)"

definition my_windows :: "(window_row \<Rightarrow> bool) \<Rightarrow> ident \<Rightarrow> window_where \<Rightarrow> db \<Rightarrow> window_row list" where
  "my_windows want v q d =
     rev (sort_key history_key (filter (\<lambda>w. w_claimed_by w = Some v \<and> selects q w \<and> want w) (windows d)))"

record my_page =
  my_rows :: "(window_row \<times> my_status \<times> nat) list"
  my_total :: nat
  my_limit :: nat
  my_skip :: "nat option"
  my_has_more :: bool
  my_next :: "my_position option"

definition my_page_size :: "int option \<Rightarrow> nat" where
  "my_page_size limit = nat (min (max (or_else limit 50) 1) 200)"

definition my_position_of :: "window_row \<Rightarrow> my_position" where
  "my_position_of w = \<lparr>mp_settled = w_settled_at w, mp_claimed = w_claimed_at w, mp_id = w_id w\<rparr>"

definition listMyAuditWindows ::
  "(window_row \<Rightarrow> bool) \<Rightarrow> ident \<Rightarrow> string option \<Rightarrow> int option \<Rightarrow> int option \<Rightarrow> my_position option \<Rightarrow> time \<Rightarrow> db \<Rightarrow> my_page" where
  "listMyAuditWindows want v status limit skip position now d =
     (let n = my_page_size limit;
          q = myAuditWindowStatusWhere status now;
          all = my_windows want v q d;
          sk = nat (max (or_else skip 0) 0);
          rows = (case position of
                    Some p \<Rightarrow> take (n + 1) (my_windows want v (q\<lparr>ww_or := Some (myAuditWindowsAfter p)\<rparr>) d)
                  | None \<Rightarrow> take (n + 1) (drop sk all));
          (page, hasMore) = takePage rows n
      in \<lparr>my_rows = map (\<lambda>w. (w, my_window_status now w, decided_count w (selected_members (w_id w) d) d)) page,
          my_total = length all, my_limit = n, my_skip = (if position = None then Some sk else None), my_has_more = hasMore,
          my_next = (if hasMore \<and> page \<noteq> [] then Some (my_position_of (last page)) else None)\<rparr>)"

section \<open>Facts\<close>

lemma history_before_key: "history_before a b \<longleftrightarrow> history_key b < history_key a"
  by (cases "w_settled_at a"; cases "w_settled_at b"; cases "w_claimed_at a"; cases "w_claimed_at b")
    (auto simp: history_before_def history_key_def or_else_def)

interpretation my_pages: keyset_walk history_before
  by unfold_locales (auto simp: history_before_key)

lemma descending_sort:
  assumes "distinct (map key ws)"
  shows "sorted_wrt (\<lambda>a b. key b < (key a :: 'k :: linorder)) (rev (sort_key key ws))"
proof -
  have "distinct (map key (sort_key key ws))"
    using assms by (simp add: distinct_map)
  then have "sorted_wrt (<) (map key (sort_key key ws))" by (simp add: strict_sorted_iff)
  then show ?thesis by (simp add: sorted_wrt_rev sorted_wrt_map)
qed

lemma my_windows_sorted:
  assumes "window_ids d"
  shows "sorted_wrt history_before (my_windows want v q d)"
proof -
  let ?ws = "filter (\<lambda>w. w_claimed_by w = Some v \<and> selects q w \<and> want w) (windows d)"
  have "distinct (map w_id ?ws)" using assms by (simp add: window_ids_def distinct_filter_map)
  then have "distinct (map history_key ?ws)"
    by (auto simp: distinct_map inj_on_def history_key_def)
  from descending_sort [OF this] show ?thesis
    unfolding my_windows_def history_before_key .
qed

lemma after_clauses: "list_ex (\<lambda>c. c w) (myAuditWindowsAfter (my_position_of p)) \<longleftrightarrow> history_before p w"
  by (cases "w_settled_at w"; cases "w_settled_at p"; cases "w_claimed_at w"; cases "w_claimed_at p")
    (auto simp: myAuditWindowsAfter_def within_group_def my_position_of_def before_now_def history_before_def)

fun my_walk ::
  "nat \<Rightarrow> (window_row \<Rightarrow> bool) \<Rightarrow> ident \<Rightarrow> string option \<Rightarrow> int option \<Rightarrow> my_position option \<Rightarrow> time \<Rightarrow> db \<Rightarrow> window_row list" where
  "my_walk 0 want v status limit pos now d = []"
| "my_walk (Suc k) want v status limit pos now d =
     (let p = listMyAuditWindows want v status limit None pos now d
      in map fst (my_rows p) @ (if my_has_more p then my_walk k want v status limit (my_next p) now d else []))"

lemma my_page_size_pos: "0 < my_page_size limit"
  by (simp add: my_page_size_def)

lemma take_page_take: "fst (takePage (take (n + 1) xs) n) = fst (takePage xs n)" "snd (takePage (take (n + 1) xs) n) = snd (takePage xs n)"
  by (auto simp: takePage_def min_def)

text \<open>The windows of a query without its alternatives: what a page behind a cursor selects from.\<close>

definition unguarded :: "window_where \<Rightarrow> window_where" where
  "unguarded q = q\<lparr>ww_or := None\<rparr>"

lemma my_windows_filter:
  "(\<And>w. selects q w \<longleftrightarrow> selects r w \<and> P w) \<Longrightarrow> my_windows want v q d = filter P (my_windows want v r d)"
  by (simp add: my_windows_def filter_sort rev_filter [symmetric] conj_ac)

lemma behind_cursor:
  "my_windows want v (q\<lparr>ww_or := Some (myAuditWindowsAfter (my_position_of p))\<rparr>) d
     = filter (history_before p) (my_windows want v (unguarded q) d)"
  by (rule my_windows_filter) (simp add: selects_def unguarded_def after_clauses)

lemma my_page_shape:
  fixes rows limit want v status pos now d
  defines "p \<equiv> listMyAuditWindows want v status limit None pos now d" and "n \<equiv> my_page_size limit"
  assumes "rows = (case pos of
      None \<Rightarrow> my_windows want v (myAuditWindowStatusWhere status now) d
    | Some c \<Rightarrow> my_windows want v ((myAuditWindowStatusWhere status now)\<lparr>ww_or := Some (myAuditWindowsAfter c)\<rparr>) d)"
  shows "map fst (my_rows p) = take n rows" and "my_has_more p = (n < length rows)"
    and "n < length rows \<Longrightarrow> my_next p = Some (my_position_of (last (take n rows)))"
proof -
  have id: "map (fst \<circ> (\<lambda>w. (w, x w, y w))) ws = ws" for x :: "window_row \<Rightarrow> my_status" and y :: "window_row \<Rightarrow> nat" and ws
    by (induction ws) simp_all
  have tp: "takePage (take (n + 1) rows) n = (take n rows, n < length rows)"
    by (auto simp: takePage_def min_def)
  have ne: "take n rows \<noteq> []" if "n < length rows" using that my_page_size_pos [of limit] by (auto simp: n_def)
  have "p = \<lparr>my_rows = map (\<lambda>w. (w, my_window_status now w, decided_count w (selected_members (w_id w) d) d)) (take n rows),
          my_total = length (my_windows want v (myAuditWindowStatusWhere status now) d), my_limit = n,
          my_skip = (if pos = None then Some 0 else None), my_has_more = n < length rows,
          my_next = (if n < length rows \<and> take n rows \<noteq> [] then Some (my_position_of (last (take n rows))) else None)\<rparr>"
    using tp unfolding p_def listMyAuditWindows_def Let_def assms(3) n_def
    by (cases pos) (simp_all add: or_else_def)
  then show "map fst (my_rows p) = take n rows" "my_has_more p = (n < length rows)"
    "n < length rows \<Longrightarrow> my_next p = Some (my_position_of (last (take n rows)))"
    using ne by (simp_all add: id)
qed

lemma my_walk_behind:
  "my_walk k want v status limit (Some (my_position_of r)) now d
     = concat (walk history_before k (my_page_size limit) (Some r) (my_windows want v (unguarded (myAuditWindowStatusWhere status now)) d))"
proof (induction k arbitrary: r)
  case 0
  then show ?case by simp
next
  case (Suc k)
  let ?n = "my_page_size limit"
  let ?A = "my_windows want v (unguarded (myAuditWindowStatusWhere status now)) d"
  let ?rows = "filter (history_before r) ?A"
  have rows: "?rows = (case Some (my_position_of r) of
      None \<Rightarrow> my_windows want v (myAuditWindowStatusWhere status now) d
    | Some c \<Rightarrow> my_windows want v ((myAuditWindowStatusWhere status now)\<lparr>ww_or := Some (myAuditWindowsAfter c)\<rparr>) d)"
    by (simp add: behind_cursor)
  note ps = my_page_shape [OF rows, of limit]
  have tp: "takePage (after_rows history_before (Some r) ?A) ?n = (take ?n ?rows, ?n < length ?rows)"
    by (auto simp: takePage_def after_rows_def)
  show ?case
  proof (cases "?n < length ?rows")
    case True
    then show ?thesis using ps tp Suc.IH [of "last (take ?n ?rows)"] by (simp add: Let_def)
  next
    case False
    then show ?thesis using ps tp by (simp add: Let_def)
  qed
qed

text \<open>The first page is of the bucket; everything behind it is of the bucket without its alternatives.\<close>

lemma my_walk_eq:
  fixes want v status limit now d
  defines "all \<equiv> my_windows want v (myAuditWindowStatusWhere status now) d"
    and "A \<equiv> my_windows want v (unguarded (myAuditWindowStatusWhere status now)) d" and "n \<equiv> my_page_size limit"
  assumes "window_ids d" and "length A \<le> k" and "0 < k"
  shows "my_walk k want v status limit None now d
    = take n all @ (if n < length all then filter (history_before (last (take n all))) A else [])"
proof -
  obtain j where k: "k = Suc j" using assms(6) by (cases k) auto
  have rows: "all = (case None of None \<Rightarrow> my_windows want v (myAuditWindowStatusWhere status now) d
    | Some c \<Rightarrow> my_windows want v ((myAuditWindowStatusWhere status now)\<lparr>ww_or := Some (myAuditWindowsAfter c)\<rparr>) d)"
    by (simp add: all_def)
  note ps = my_page_shape [OF rows, of limit, folded n_def]
  have n: "0 < n" using my_page_size_pos by (simp add: n_def)
  show ?thesis
  proof (cases "n < length all")
    case False
    then show ?thesis using ps by (simp add: k Let_def)
  next
    case True
    define y where "y = last (take n all)"
    obtain P where "all = filter P A"
      using my_windows_filter [of "myAuditWindowStatusWhere status now" "unguarded (myAuditWindowStatusWhere status now)"
          "\<lambda>w. selects (myAuditWindowStatusWhere status now) w" want v d]
      by (auto simp: all_def A_def selects_def unguarded_def)
    then have sub: "set all \<subseteq> set A" "length all \<le> length A" by auto
    have "y \<in> set all" using True n unfolding y_def by (metis in_set_takeD last_in_set length_greater_0_conv take_eq_Nil not_less0 neq0_conv)
    then have y: "y \<in> set A" using sub by blast
    have "length (filter (history_before y) A) < length A"
      using y my_pages.before_irrefl [of y] by (metis length_filter_less)
    then have len: "length (filter (history_before y) A) \<le> j" using assms(5) k by simp
    have j: "0 < j" using True n sub(2) assms(5) k by simp
    have "j * 1 \<le> j * n" using n by (intro mult_le_mono2) simp
    then have fit: "length (after_rows history_before (Some y) A) < j * n + 1"
      using len unfolding after_rows_def option.case by linarith
    have srt: "sorted_wrt history_before A" unfolding A_def by (rule my_windows_sorted [OF assms(4)])
    have "concat (walk history_before j n (Some y) A) = filter (history_before y) A"
      using my_pages.walk_complete [OF srt n fit j] y by (simp add: after_rows_def)
    then have "my_walk j want v status limit (Some (my_position_of y)) now d = filter (history_before y) A"
      using my_walk_behind [of j want v status limit y now d] by (simp add: A_def n_def)
    then show ?thesis using ps True by (simp add: k Let_def y_def)
  qed
qed

lemma rest_of_sorted:
  assumes "sorted_wrt history_before ws" and "0 < n" and "n < length ws"
  shows "filter (history_before (last (take n ws))) ws = drop n ws"
proof -
  have ne: "take n ws \<noteq> []" using assms(2,3) by auto
  have ws: "butlast (take n ws) @ last (take n ws) # drop n ws = ws"
    using append_butlast_last_id [OF ne] by (metis append.assoc append_Cons append_Nil append_take_drop_id)
  show ?thesis
    using my_pages.after_middle [of "butlast (take n ws)" "last (take n ws)" "drop n ws"] assms(1) unfolding ws by blast
qed

section \<open>Properties\<close>

text \<open>C12: What following the cursors of a validator's history serves. The clauses behind a cursor, one per nullable
  key, select exactly the windows that come after the last row in the database order. In the buckets whose filter
  has no alternatives (completed, overdue, and all) the walk serves every window of the bucket exactly once, in
  order, within one page per window. In the claimed bucket, whose filter has an \<open>OR\<close> of its own, the clauses replace
  it: the first page is of the bucket, and behind it the walk serves every unsettled window after the first page,
  the overdue ones included; no claimed window is missed or served twice.\<close>

theorem history_walk_complete:
  assumes "window_ids d" and "q = myAuditWindowStatusWhere status now" and "all = my_windows want v q d"
    and "length (my_windows want v (q\<lparr>ww_or := None\<rparr>) d) \<le> k" and "0 < k"
  shows "(\<forall>p w. list_ex (\<lambda>c. c w) (myAuditWindowsAfter (my_position_of p)) \<longleftrightarrow> history_before p w)
     \<and> (status \<notin> Some ` {''claimed'', ''in_progress''} \<longrightarrow> my_walk k want v status limit None now d = all)
     \<and> (status \<in> Some ` {''claimed'', ''in_progress''} \<longrightarrow>
          my_walk k want v status limit None now d
            = (let page = take (my_page_size limit) all
               in page @ (if length all \<le> my_page_size limit then []
                          else filter (history_before (last page)) (my_windows want v \<lparr>ww_keys = (\<lambda>w. w_settled_at w = None), ww_or = None\<rparr> d)))
          \<and> filter (selects q) (my_walk k want v status limit None now d) = all)"
proof (intro conjI impI)
  let ?n = "my_page_size limit"
  let ?A = "my_windows want v (unguarded q) d"
  have w: "my_walk k want v status limit None now d
    = take ?n all @ (if ?n < length all then filter (history_before (last (take ?n all))) ?A else [])"
    using my_walk_eq [of d want v status now k limit] assms by (simp add: unguarded_def)
  have srt: "sorted_wrt history_before all" unfolding assms(3) by (rule my_windows_sorted [OF assms(1)])
  show "\<forall>p w. list_ex (\<lambda>c. c w) (myAuditWindowsAfter (my_position_of p)) \<longleftrightarrow> history_before p w"
    by (simp add: after_clauses)
  show "my_walk k want v status limit None now d = all" if "status \<notin> Some ` {''claimed'', ''in_progress''}"
  proof -
    have "unguarded q = q" using that by (auto simp: assms(2) unguarded_def myAuditWindowStatusWhere_def)
    then show ?thesis
      using w rest_of_sorted [OF srt my_page_size_pos [of limit]] by (simp add: assms(3) [symmetric] not_less)
  qed
  assume c: "status \<in> Some ` {''claimed'', ''in_progress''}"
  then have u: "unguarded q = \<lparr>ww_keys = (\<lambda>w. w_settled_at w = None), ww_or = None\<rparr>"
    by (auto simp: assms(2) unguarded_def myAuditWindowStatusWhere_def)
  show "my_walk k want v status limit None now d
            = (let page = take ?n all
               in page @ (if length all \<le> ?n then []
                          else filter (history_before (last page)) (my_windows want v \<lparr>ww_keys = (\<lambda>w. w_settled_at w = None), ww_or = None\<rparr> d)))"
    unfolding w u by (simp add: Let_def not_less)
  have all: "all = filter (selects q) ?A"
    unfolding assms(3) by (rule my_windows_filter) (auto simp: selects_def unguarded_def)
  have "filter (selects q) (filter (history_before y) ?A) = filter (history_before y) all" for y
    unfolding all filter_filter by (simp add: conj_commute)
  moreover have "filter (selects q) (take ?n all) = take ?n all"
    by (rule filter_True) (auto simp: all dest: in_set_takeD)
  ultimately show "filter (selects q) (my_walk k want v status limit None now d) = all"
    unfolding w using rest_of_sorted [OF srt my_page_size_pos [of limit]] by (simp add: not_less)
qed

definition claimed_until :: "ident \<Rightarrow> time \<Rightarrow> time \<Rightarrow> window_row" where
  "claimed_until i t x = (open_window i 5)\<lparr>w_claimed_by := Some ''v'', w_claimed_at := Some t, w_expires := Some x\<rparr>"

text \<open>Three claims at time 60, the middle one overdue since 50.\<close>

definition demo_history :: db where
  "demo_history = audit_db [claimed_until ''w1'' 6 90, claimed_until ''w2'' 7 50, claimed_until ''w3'' 8 90]"

lemma demo_history_windows:
  "my_windows (\<lambda>x. True) ''v'' \<lparr>ww_keys = (\<lambda>w. w_settled_at w = None), ww_or = None\<rparr> demo_history
     = [claimed_until ''w3'' 8 90, claimed_until ''w2'' 7 50, claimed_until ''w1'' 6 90]"
  "my_windows (\<lambda>x. True) ''v'' (myAuditWindowStatusWhere (Some ''claimed'') 60) demo_history
     = [claimed_until ''w3'' 8 90, claimed_until ''w1'' 6 90]"
  "my_windows (\<lambda>x. True) ''v'' ((myAuditWindowStatusWhere (Some ''claimed'') 60)\<lparr>ww_or := None\<rparr>) demo_history
     = [claimed_until ''w3'' 8 90, claimed_until ''w2'' 7 50, claimed_until ''w1'' 6 90]"
  by (simp_all add: my_windows_def demo_history_def claimed_until_def audit_db_simps selects_def myAuditWindowStatusWhere_def
      history_key_def or_else_def)

theorem history_walk_complete_witness:
  "filter (selects (myAuditWindowStatusWhere (Some ''claimed'') 60)) (my_walk 3 (\<lambda>x. True) ''v'' (Some ''claimed'') (Some 1) None 60 demo_history)
     = [claimed_until ''w3'' 8 90, claimed_until ''w1'' 6 90]"
proof -
  have ids: "window_ids demo_history" by (simp add: window_ids_def demo_history_def claimed_until_def audit_db_simps)
  have k: "length (my_windows (\<lambda>x. True) ''v'' ((myAuditWindowStatusWhere (Some ''claimed'') 60)\<lparr>ww_or := None\<rparr>) demo_history) \<le> 3"
    unfolding demo_history_windows(3) by simp
  have "Some ''claimed'' \<in> Some ` {''claimed'', ''in_progress''}" by simp
  from conjunct2 [OF mp [OF conjunct2 [OF conjunct2 [OF history_walk_complete [OF ids refl refl k, of "Some 1"]]] this]]
  show ?thesis unfolding demo_history_windows(2) by simp
qed

text \<open>The page behind the cursor of the claimed bucket serves an overdue window, which the bucket's total does not count.\<close>

lemma claimed_pages_leak_overdue:
  "let p1 = listMyAuditWindows (\<lambda>x. True) ''v'' (Some ''claimed'') (Some 1) None None 60 demo_history;
       p2 = listMyAuditWindows (\<lambda>x. True) ''v'' (Some ''claimed'') (Some 1) None (my_next p1) 60 demo_history
   in map (w_id \<circ> fst) (my_rows p1) = [''w3''] \<and> my_total p1 = 2
      \<and> map (w_id \<circ> fst) (my_rows p2) = [''w2''] \<and> map (fst \<circ> snd) (my_rows p2) = [My_overdue]"
proof -
  let ?w = "claimed_until ''w3'' 8 90"
  have n: "my_page_size (Some 1) = 1" by (simp add: my_page_size_def or_else_def)
  have 1: "my_windows (\<lambda>x. True) ''v'' ((myAuditWindowStatusWhere (Some ''claimed'') 60)\<lparr>ww_or := Some (myAuditWindowsAfter (my_position_of ?w))\<rparr>) demo_history
      = [claimed_until ''w2'' 7 50, claimed_until ''w1'' 6 90]"
    unfolding behind_cursor unguarded_def demo_history_windows(3)
    by (simp add: history_before_def claimed_until_def open_window_def)
  show ?thesis
    by (simp add: listMyAuditWindows_def n Let_def demo_history_windows 1 takePage_def or_else_def)
      (simp add: claimed_until_def open_window_def my_window_status_def before_now_def)
qed

text \<open>The bucket a window is filtered into is the status it is shown with: each status filter selects exactly the
  windows stamped with that status, every window has exactly one, spellings that select the same windows share one
  cursor key, and filters that select different buckets never do.\<close>

lemma shown_status_is_filtered_status:
  "(selects (myAuditWindowStatusWhere (Some ''completed'') now) w \<longleftrightarrow> my_window_status now w = My_completed)
   \<and> (s \<in> {''overdue'', ''overdue_review''} \<longrightarrow> (selects (myAuditWindowStatusWhere (Some s) now) w \<longleftrightarrow> my_window_status now w = My_overdue))
   \<and> (s \<in> {''claimed'', ''in_progress''} \<longrightarrow> (selects (myAuditWindowStatusWhere (Some s) now) w \<longleftrightarrow> my_window_status now w = My_claimed))
   \<and> (myAuditWindowsFilterKey v st q = myAuditWindowsFilterKey v st' q' \<longleftrightarrow> my_bucket st = my_bucket st' \<and> my_search q = my_search q')
   \<and> (my_bucket st = my_bucket st' \<longrightarrow> myAuditWindowStatusWhere st = myAuditWindowStatusWhere st')"
proof -
  have "(bar_join (map escape_part [''my-audits'', v, my_bucket st, my_search q])
        = bar_join (map escape_part [''my-audits'', v, my_bucket st', my_search q']))
      \<longleftrightarrow> [''my-audits'', v, my_bucket st, my_search q] = [''my-audits'', v, my_bucket st', my_search q']"
    using bar_join_inj [of "[''my-audits'', v, my_bucket st, my_search q]" "[''my-audits'', v, my_bucket st', my_search q']"]
    by auto
  then have key: "myAuditWindowsFilterKey v st q = myAuditWindowsFilterKey v st' q' \<longleftrightarrow> my_bucket st = my_bucket st' \<and> my_search q = my_search q'"
    by (simp add: myAuditWindowsFilterKey_def filterKeyOf_def)
  have bucket: "my_bucket st = my_bucket st' \<longrightarrow> myAuditWindowStatusWhere st now' = myAuditWindowStatusWhere st' now'" for now'
    by (simp add: my_bucket_def myAuditWindowStatusWhere_def)
  have "(selects (myAuditWindowStatusWhere (Some ''completed'') now) w \<longleftrightarrow> my_window_status now w = My_completed)
   \<and> (s \<in> {''overdue'', ''overdue_review''} \<longrightarrow> (selects (myAuditWindowStatusWhere (Some s) now) w \<longleftrightarrow> my_window_status now w = My_overdue))
   \<and> (s \<in> {''claimed'', ''in_progress''} \<longrightarrow> (selects (myAuditWindowStatusWhere (Some s) now) w \<longleftrightarrow> my_window_status now w = My_claimed))"
    by (cases "w_expires w") (auto simp: selects_def myAuditWindowStatusWhere_def my_window_status_def before_now_def)
  with key bucket show ?thesis by (simp add: fun_eq_iff)
qed

lemma shown_status_is_filtered_status_witness:
  "selects (myAuditWindowStatusWhere (Some ''overdue'') 60) ((open_window ''w1'' 5)\<lparr>w_expires := Some 50\<rparr>)
     = (my_window_status 60 ((open_window ''w1'' 5)\<lparr>w_expires := Some 50\<rparr>) = My_overdue)"
  using shown_status_is_filtered_status [of 60 "(open_window ''w1'' 5)\<lparr>w_expires := Some 50\<rparr>" "''overdue''"] by blast

end
