(* ===== verification/Doubles.thy ===== *)
theory Doubles
  imports Complex_Main
begin

text \<open>
  The numbers of JavaScript where their rounding decides a branch. A positive double in the normal range is
  kept as the pair of a numerator and a power of two that divides it; \<open>fl (a, b)\<close> is the double nearest to
  \<open>a / b\<close>, ties to even, with a significand of 53 bits. Overflow, subnormal numbers and signs are outside
  the range this development computes in. Executable on integers.
\<close>

section \<open>Rounding\<close>

definition round_div :: "int \<Rightarrow> int \<Rightarrow> int" where
  "round_div a b =
     (let q = a div b; r = a mod b
      in if 2 * r < b \<or> 2 * r = b \<and> even q then q else q + 1)"

text \<open>Double the numerator until the quotient has 53 bits before the point, counting the doublings as a power;
  then, for a quotient that has more, double the denominator.\<close>

function scale_up :: "int \<Rightarrow> int \<Rightarrow> int \<Rightarrow> int \<times> int" where
  "scale_up a b k = (if a \<le> 0 \<or> 4503599627370496 * b \<le> a then (a, k) else scale_up (2 * a) b (2 * k))"
  by pat_completeness auto

termination
  by (relation "measure (\<lambda>(a, b, k). nat (4503599627370496 * b - a))") auto

function scale_down :: "int \<Rightarrow> int \<Rightarrow> int \<Rightarrow> int \<times> int" where
  "scale_down a b j = (if b \<le> 0 \<or> a < 9007199254740992 * b then (b, j) else scale_down a (2 * b) (2 * j))"
  by pat_completeness auto

termination
  by (relation "measure (\<lambda>(a, b, j). nat (a - b))") auto

declare scale_up.simps [simp del] scale_down.simps [simp del]

definition fl :: "int \<times> int \<Rightarrow> int \<times> int" where
  "fl x =
     (if fst x \<le> 0 \<or> snd x \<le> 0 then (0, 1)
      else (case scale_up (fst x) (snd x) 1 of
              (a, k) \<Rightarrow> (case scale_down a (snd x) 1 of (b, j) \<Rightarrow> (round_div a b * j, k))))"

text \<open>\<open>(x / y) * z\<close> in doubles, for whole numbers that are doubles themselves.\<close>

definition quotient_times :: "int \<Rightarrow> int \<Rightarrow> int \<Rightarrow> int \<times> int" where
  "quotient_times x y z = (let q = fl (x, y) in fl (fst q * z, snd q))"

definition at_least :: "int \<times> int \<Rightarrow> int \<Rightarrow> bool" where
  "at_least x n \<longleftrightarrow> n * snd x \<le> fst x"

section \<open>How far a rounded number is off\<close>

lemma round_div_near:
  assumes "0 < b"
  shows "2 * \<bar>round_div a b * b - a\<bar> \<le> b"
proof -
  have a: "a = a div b * b + a mod b" by simp
  have r: "0 \<le> a mod b" "a mod b < b" using assms by simp_all
  show ?thesis
  proof (cases "2 * (a mod b) < b \<or> 2 * (a mod b) = b \<and> even (a div b)")
    case True
    have "round_div a b = a div b" using True unfolding round_div_def Let_def by simp
    then have "round_div a b * b = a div b * b" by simp
    then have "round_div a b * b - a = - (a mod b)" using a by linarith
    then show ?thesis using True r by auto
  next
    case False
    have "round_div a b = a div b + 1" using False unfolding round_div_def Let_def by simp
    then have "round_div a b * b = a div b * b + b" by (simp add: distrib_right)
    then have "round_div a b * b - a = b - a mod b" using a by linarith
    then show ?thesis using False r by auto
  qed
qed

lemma scale_up_spec:
  "0 < a \<Longrightarrow> 0 < k \<Longrightarrow> scale_up a b k = (a', k') \<Longrightarrow>
   4503599627370496 * b \<le> a' \<and> 0 < a' \<and> 0 < k' \<and> a' * k = a * k'"
proof (induction a b k rule: scale_up.induct)
  case (1 a b k)
  show ?case
  proof (cases "4503599627370496 * b \<le> a")
    case True
    then show ?thesis using 1(2-4) by (simp add: scale_up.simps [of a])
  next
    case False
    then have "scale_up (2 * a) b (2 * k) = (a', k')" using 1(2,4) by (simp add: scale_up.simps [of a])
    with 1(1) False 1(2,3) show ?thesis by auto
  qed
qed

lemma scale_down_spec:
  "0 < b \<Longrightarrow> 0 < j \<Longrightarrow> 4503599627370496 * b \<le> a \<Longrightarrow> scale_down a b j = (b', j') \<Longrightarrow>
   4503599627370496 * b' \<le> a \<and> 0 < b' \<and> 0 < j' \<and> b' * j = b * j'"
proof (induction a b j rule: scale_down.induct)
  case (1 a b j)
  show ?case
  proof (cases "a < 9007199254740992 * b")
    case True
    then show ?thesis using 1(2-5) by (simp add: scale_down.simps [of a])
  next
    case False
    then have "scale_down a (2 * b) (2 * j) = (b', j')" using 1(2,5) by (simp add: scale_down.simps [of a])
    with 1(1) False 1(2,3) show ?thesis by auto
  qed
qed

text \<open>The relative error of one rounding is at most \<open>2 ^ -53\<close>.\<close>

lemma fl_near:
  assumes "0 < a" and "0 < b" and "fl (a, b) = (m, d)"
  shows "0 < d" and "9007199254740992 * \<bar>m * b - a * d\<bar> \<le> a * d"
proof -
  obtain a' k where u: "scale_up a b 1 = (a', k)" by (cases "scale_up a b 1")
  obtain b' j where v: "scale_down a' b 1 = (b', j)" by (cases "scale_down a' b 1")
  have su: "4503599627370496 * b \<le> a'" "0 < a'" "0 < k" "a' = a * k" using scale_up_spec [OF assms(1) _ u] by simp_all
  have sd: "4503599627370496 * b' \<le> a'" "0 < b'" "0 < j" "b' = b * j" using scale_down_spec [OF assms(2) _ su(1) v] by simp_all
  have md: "m = round_div a' b' * j" "d = k" using assms u v by (simp_all add: fl_def)
  show "0 < d" using su(3) md(2) by simp
  have "m * b - a * d = round_div a' b' * b' - a'" unfolding md sd(4) su(4) by (simp add: algebra_simps)
  then have "2 * \<bar>m * b - a * d\<bar> \<le> b'" using round_div_near [OF sd(2), of a'] by simp
  then show "9007199254740992 * \<bar>m * b - a * d\<bar> \<le> a * d" using sd(1) unfolding md(2) su(4) by linarith
qed

lemma fl_real:
  assumes "0 < a" and "0 < b" and "fl (a, b) = (m, d)"
  shows "\<bar>real_of_int m / real_of_int d - real_of_int a / real_of_int b\<bar> \<le> real_of_int a / real_of_int b / 2 ^ 53"
proof -
  note n = fl_near [OF assms]
  have "real_of_int (9007199254740992 * \<bar>m * b - a * d\<bar>) \<le> real_of_int (a * d)"
    using n(2) by (simp only: of_int_le_iff)
  then have "2 ^ 53 * \<bar>real_of_int m * b - real_of_int a * d\<bar> \<le> real_of_int a * d" by simp
  then have i: "\<bar>real_of_int m * b - real_of_int a * d\<bar> / (real_of_int d * b) \<le> real_of_int a * d / 2 ^ 53 / (real_of_int d * b)"
    using n(1) assms(2) by (intro divide_right_mono) (simp_all add: field_simps)
  have "real_of_int m / d - real_of_int a / b = (real_of_int m * b - real_of_int a * d) / (real_of_int d * b)"
    using n(1) assms(2) by (simp add: diff_frac_eq)
  moreover have "0 < real_of_int d * real_of_int b" using n(1) assms(2) by simp
  ultimately have "\<bar>real_of_int m / d - real_of_int a / b\<bar> = \<bar>real_of_int m * b - real_of_int a * d\<bar> / (real_of_int d * b)"
    by (simp only: abs_divide abs_of_pos)
  with i show ?thesis using n(1) assms(2) by simp
qed

text \<open>Hence a quotient times a whole number compares with a whole number as the exact one does, unless the two
  are equal; then the rounding decides.\<close>

lemma quotient_times_compares:
  assumes "0 \<le> x" and "0 < y" and "0 < z" and "x * z \<le> 2 ^ 51" and "x * z \<noteq> n * y"
  shows "at_least (quotient_times x y z) n \<longleftrightarrow> n * y < x * z"
proof (cases "x = 0")
  case True
  have "n * y < 0 \<longleftrightarrow> n < 0" using assms(2) by (simp add: mult_less_0_iff)
  then show ?thesis using True assms(2,5) by (auto simp: quotient_times_def fl_def at_least_def)
next
  case False
  then have x: "0 < x" using assms(1) by simp
  obtain m d where q: "fl (x, y) = (m, d)" by (cases "fl (x, y)")
  note q1 = fl_near [OF x assms(2) q] and q2 = fl_real [OF x assms(2) q]
  define r where "r = real_of_int x / real_of_int y"
  define s where "s = real_of_int m / real_of_int d"
  have r: "0 < r" "\<bar>s - r\<bar> \<le> r / 2 ^ 53" using x assms(2) q2 by (simp_all add: r_def s_def)
  have "r / 2 ^ 53 < r" using r(1) by simp
  then have "0 < s" using r(2) unfolding abs_le_iff by linarith
  then have m: "0 < m" using q1(1) by (simp add: s_def zero_less_divide_iff)
  obtain m2 d2 where p: "fl (m * z, d) = (m2, d2)" by (cases "fl (m * z, d)")
  have mz: "0 < m * z" using m assms(3) by simp
  define t where "t = real_of_int m2 / real_of_int d2"
  have t: "\<bar>t - s * z\<bar> \<le> s * z / 2 ^ 53" and d2: "0 < d2"
    using fl_real [OF mz q1(1) p] fl_near [OF mz q1(1) p] by (simp_all add: t_def s_def)
  have z: "1 \<le> real_of_int z" using assms(3) by simp
  define w where "w = r * z"
  have w: "0 < w" using r(1) z by (simp add: w_def)
  have sz: "\<bar>s * z - w\<bar> \<le> w / 2 ^ 53"
  proof -
    have "\<bar>s * z - w\<bar> = \<bar>s - r\<bar> * z" using z by (simp add: w_def abs_mult flip: left_diff_distrib)
    also have "\<dots> \<le> r / 2 ^ 53 * z" using r(2) z by (intro mult_right_mono) simp_all
    finally show ?thesis by (simp add: w_def)
  qed
  have tw: "\<bar>t - w\<bar> < w / 2 ^ 51"
  proof -
    define u where "u = s * z"
    have "\<bar>t - u\<bar> * 9007199254740992 \<le> u" "\<bar>u - w\<bar> * 9007199254740992 \<le> w" using t sz by (simp_all add: u_def field_simps)
    moreover have "\<bar>t - w\<bar> \<le> \<bar>t - u\<bar> + \<bar>u - w\<bar>" "u \<le> w + \<bar>u - w\<bar>" by linarith+
    moreover have "dd * 2251799813685248 < w"
      if "aa * 9007199254740992 \<le> u" "bb * 9007199254740992 \<le> w" "dd \<le> aa + bb" "u \<le> w + bb" for aa bb dd :: real
      using that w by linarith
    ultimately have "\<bar>t - w\<bar> * 2251799813685248 < w" by blast
    then show ?thesis by (simp add: field_simps)
  qed
  have band: "w - w / 2 ^ 51 < t" "t < w + w / 2 ^ 51" using tw unfolding abs_less_iff by linarith+
  have al: "at_least (quotient_times x y z) n \<longleftrightarrow> real_of_int n \<le> t"
  proof -
    have "at_least (quotient_times x y z) n \<longleftrightarrow> real_of_int (n * d2) \<le> real_of_int m2"
      by (simp only: at_least_def quotient_times_def Let_def q p fst_conv snd_conv of_int_le_iff)
    also have "\<dots> \<longleftrightarrow> real_of_int n \<le> t" using d2 by (simp add: t_def field_simps)
    finally show ?thesis .
  qed
  have y: "0 < real_of_int y" using assms(2) by simp
  have wy: "w * y = real_of_int (x * z)" using y by (simp add: w_def r_def)
  have small: "w * y / 2 ^ 51 \<le> 1"
  proof -
    have "real_of_int (x * z) \<le> real_of_int (2 ^ 51)" using assms(4) by (simp only: of_int_le_iff)
    then show ?thesis unfolding wy by simp
  qed
  show ?thesis
  proof (cases "n * y < x * z")
    case True
    then have "n * y + 1 \<le> x * z" by simp
    then have "real_of_int (n * y + 1) \<le> real_of_int (x * z)" by (simp only: of_int_le_iff)
    then have "real_of_int n * y + w * y / 2 ^ 51 \<le> w * y" using small wy by simp
    then have "(real_of_int n + w / 2 ^ 51) * y \<le> w * y" by (simp add: algebra_simps)
    then have "real_of_int n + w / 2 ^ 51 \<le> w" using y by (simp add: mult_le_cancel_right)
    then have "real_of_int n \<le> t" using band by linarith
    then show ?thesis using True al by simp
  next
    case False
    then have "x * z + 1 \<le> n * y" using assms(5) by simp
    then have "real_of_int (x * z + 1) \<le> real_of_int (n * y)" by (simp only: of_int_le_iff)
    then have "w * y + w * y / 2 ^ 51 \<le> real_of_int n * y" using small wy by simp
    then have "(w + w / 2 ^ 51) * y \<le> real_of_int n * y" by (simp add: algebra_simps)
    then have "w + w / 2 ^ 51 \<le> real_of_int n" using y by (simp add: mult_le_cancel_right)
    then have "\<not> real_of_int n \<le> t" using band by linarith
    then show ?thesis using False al by simp
  qed
qed

text \<open>29 of 100 is 28.999999999999996 percent.\<close>

lemma twenty_nine_percent:
  "quotient_times 29 100 100 = (8162774324609023, 281474976710656)"
  "\<not> at_least (quotient_times 29 100 100) 29" "at_least (quotient_times 30 100 100) 29"
  by code_simp+

end
