(* ===== verification/Audit_Decisions.thy ===== *)
theory Audit_Decisions
  imports Audit_Claims Doubles
begin

text \<open>
  \<open>submitAuditDecisions\<close> of \<open>services/audits.ts\<close>: the typed refusals before anything is written,
  the transaction that flips each item by a guarded update, records the verdict, opens a flag or
  awards the contributor, pays the validator, counts the audits, recounts the pool and settles the
  window. The checks read one database, the transaction runs on a possibly later one.
\<close>

section \<open>The checks\<close>

datatype decision_error =
    Window_not_found | Window_settled | Window_superseded | Window_not_claimed | Window_claimed_by_other
  | Item_not_in_window | Item_own_submission | Item_already_decided | Flag_note_required
  | Decision_award hold_error | Decision_no_bounty

record decision =
  dc_item :: ident
  dc_verdict :: audit_verdict
  dc_reason :: "flag_reason option"
  dc_note :: "string option"

definition MIN_FLAG_NOTE_LENGTH :: nat where
  "MIN_FLAG_NOTE_LENGTH = 10"

definition claimed_window :: "ident \<Rightarrow> ident \<Rightarrow> db \<Rightarrow> decision_error + window_row" where
  "claimed_window wid v d =
     (case window_by wid d of
        None \<Rightarrow> Inl Window_not_found
      | Some w \<Rightarrow>
          (if w_settled_at w \<noteq> None then Inl Window_settled
           else if w_superseded_at w \<noteq> None then Inl Window_superseded
           else if w_claimed_by w = None then Inl Window_not_claimed
           else if w_claimed_by w \<noteq> Some v then Inl Window_claimed_by_other
           else Inr w))"

definition note_missing :: "decision \<Rightarrow> bool" where
  "note_missing c \<longleftrightarrow>
     dc_verdict c = V_flagged
     \<and> (case dc_note c of None \<Rightarrow> True | Some n \<Rightarrow> length (js_trim n) < MIN_FLAG_NOTE_LENGTH)"

definition check_decision :: "ident \<Rightarrow> (member_row \<times> submission_row) list \<Rightarrow> decision \<Rightarrow> decision_error option" where
  "check_decision v ms c =
     (case find_where (\<lambda>(m, s). m_id m = dc_item c) ms of
        None \<Rightarrow> Some Item_not_in_window
      | Some (m, s) \<Rightarrow>
          (if s_contributor s = v then Some Item_own_submission
           else if s_status s \<noteq> S_in_audit then Some Item_already_decided
           else if note_missing c then Some Flag_note_required
           else None))"

fun check_decisions :: "ident \<Rightarrow> (member_row \<times> submission_row) list \<Rightarrow> decision list \<Rightarrow> decision_error option" where
  "check_decisions v ms [] = None"
| "check_decisions v ms (c # cs) =
     (case check_decision v ms c of Some err \<Rightarrow> Some err | None \<Rightarrow> check_decisions v ms cs)"

section \<open>The transaction\<close>

record decided_so_far =
  df_applied :: nat
  df_rejected :: nat
  df_notes :: "(ident \<times> string \<times> string \<times> ident) list" \<comment> \<open>user, type, key, submission\<close>

definition decided_row :: "env \<Rightarrow> audit_verdict \<Rightarrow> submission_row \<Rightarrow> submission_row" where
  "decided_row e vd s =
     (if vd = V_flagged then s\<lparr>s_status := S_flagged, s_updated := e_now e\<rparr>
      else s\<lparr>s_status := S_accepted, s_accepted_at := Some (e_now e), s_updated := e_now e\<rparr>)"

definition verdict_row :: "env \<Rightarrow> decision \<Rightarrow> audit_item_row \<Rightarrow> audit_item_row" where
  "verdict_row e c i =
     i\<lparr>ai_verdict := Some (dc_verdict c),
       ai_reason := (if dc_verdict c = V_flagged then Some (or_else (dc_reason c) FR_other) else None),
       ai_note := dc_note c, ai_decided := Some (e_now e)\<rparr>"

definition record_verdict :: "env \<Rightarrow> ident option \<Rightarrow> ident \<Rightarrow> decision \<Rightarrow> db \<Rightarrow> db" where
  "record_verdict e batch sid c d =
     (case batch of
        None \<Rightarrow> d
      | Some k \<Rightarrow> d\<lparr>aitems := update_where (\<lambda>i. ai_batch i = k \<and> ai_submission i = sid \<and> ai_decided i = None)
                                 (verdict_row e c) (aitems d)\<rparr>)"

definition new_flag :: "env \<Rightarrow> ident \<Rightarrow> ident \<Rightarrow> decision \<Rightarrow> db \<Rightarrow> flag_row" where
  "new_flag e sid v c d =
     \<lparr>fl_id = fresh e d, fl_submission = sid, fl_validator = Some v, fl_reason = or_else (dc_reason c) FR_other,
      fl_details = dc_note c, fl_status = F_open, fl_created = e_now e\<rparr>"

text \<open>The outcome of the item itself: a flag, or the contributor's award.\<close>

definition item_outcome ::
  "matrix_config \<Rightarrow> env \<Rightarrow> bounty_row \<Rightarrow> ident \<Rightarrow> submission_row \<Rightarrow> decision \<Rightarrow> db \<Rightarrow> decision_error + db" where
  "item_outcome seed e b v s c d =
     (if dc_verdict c = V_flagged
      then Inr (d\<lparr>flags := flags d @ [new_flag e (s_id s) v c d], db_seq := Suc (db_seq d)\<rparr>)
      else (case awardOrHoldAcceptedItemKarma e None (b_id b) (sampling_award seed e b s) d of
              Inl err \<Rightarrow> Inl (Decision_award err)
            | Inr (d', _) \<Rightarrow> Inr d'))"

definition validator_award :: "env \<Rightarrow> bounty_row \<Rightarrow> ident \<Rightarrow> member_row \<Rightarrow> award_params" where
  "validator_award e b v m =
     \<lparr>ap_user = v, ap_type = K_audit_completed,
      ap_amount = validatorAuditKarmaPerItem (b_quote b) (b_type b) (fst (getKarmaRules (e_setting e ''karma.rules'')))
                    DEFAULT_KARMA_PRICING_TABLE,
      ap_source_type = ''HumanAuditWindowMembership'', ap_source_id = m_id m\<rparr>"

definition decision_note :: "window_row \<Rightarrow> submission_row \<Rightarrow> decision \<Rightarrow> ident \<times> string \<times> string \<times> ident" where
  "decision_note w s c =
     (let typ = (if dc_verdict c = V_flagged then ''submission.flagged'' else ''submission.accepted'')
      in (s_contributor s, typ, typ @ '':'' @ s_id s @ '':window:'' @ w_id w, s_id s))"

text \<open>One decision; a lost guard skips the item.\<close>

definition decide_one ::
  "matrix_config \<Rightarrow> env \<Rightarrow> bounty_row \<Rightarrow> window_row \<Rightarrow> ident \<Rightarrow> (decision \<times> member_row \<times> submission_row)
     \<Rightarrow> db \<times> decided_so_far \<Rightarrow> decision_error + (db \<times> decided_so_far)" where
  "decide_one seed e b w v x st =
     (case (x, st) of ((c, m, s), (d, acc)) \<Rightarrow>
        (case update_many (\<lambda>y. s_id y = s_id s \<and> s_status y = S_in_audit) (decided_row e (dc_verdict c)) (submissions d) of
           (rows, n) \<Rightarrow>
             (if n = 0 then Inr (d, acc)
              else (case item_outcome seed e b v s c (record_verdict e (w_batch w) (s_id s) c (d\<lparr>submissions := rows\<rparr>)) of
                      Inl err \<Rightarrow> Inl err
                    | Inr d1 \<Rightarrow>
                        (case awardKarma e (validator_award e b v m) d1 of
                           Inl err \<Rightarrow> Inl (Decision_award (Hold_karma err))
                         | Inr (d2, _) \<Rightarrow>
                             Inr (d2, \<lparr>df_applied = Suc (df_applied acc),
                                       df_rejected = df_rejected acc + (if dc_verdict c = V_flagged then 1 else 0),
                                       df_notes = df_notes acc @ [decision_note w s c]\<rparr>))))))"

fun decide_all ::
  "matrix_config \<Rightarrow> env \<Rightarrow> bounty_row \<Rightarrow> window_row \<Rightarrow> ident \<Rightarrow> (decision \<times> member_row \<times> submission_row) list
     \<Rightarrow> db \<times> decided_so_far \<Rightarrow> decision_error + (db \<times> decided_so_far)" where
  "decide_all seed e b w v [] st = Inr st"
| "decide_all seed e b w v (x # xs) st =
     (case decide_one seed e b w v x st of Inl err \<Rightarrow> Inl err | Inr st' \<Rightarrow> decide_all seed e b w v xs st')"

definition add_audits :: "ident \<Rightarrow> nat \<Rightarrow> rank_row list \<Rightarrow> rank_row list" where
  "add_audits v n rs =
     (if find_where (\<lambda>r. rk_user r = v) rs = None then rs @ [\<lparr>rk_user = v, rk_audits = int n, rk_missed = 0\<rparr>]
      else update_where (\<lambda>r. rk_user r = v) (\<lambda>r. r\<lparr>rk_audits := rk_audits r + int n\<rparr>) rs)"

definition count_audits :: "env \<Rightarrow> ident \<Rightarrow> ident \<Rightarrow> nat \<Rightarrow> db \<Rightarrow> decision_error + db" where
  "count_audits e bid v n d =
     (if n = 0 then Inr d
      else (case recomputeAcceptedItemCounters e bid (d\<lparr>ranks := add_audits v n (ranks d)\<rparr>) of
              None \<Rightarrow> Inl Decision_no_bounty | Some (d', _) \<Rightarrow> Inr d'))"

definition selected_in :: "ident \<Rightarrow> submission_status set \<Rightarrow> db \<Rightarrow> nat" where
  "selected_in wid sts d = length (filter (\<lambda>(m, s). s_status s \<in> sts) (selected_members wid d))"

text \<open>The share of bad items is a quotient of doubles times 100, compared with the whole threshold.\<close>

definition window_failed :: "bounty_row \<Rightarrow> window_row \<Rightarrow> nat \<Rightarrow> bool" where
  "window_failed b w flagged \<longleftrightarrow>
     w_quota w > 0 \<and> at_least (quotient_times (int flagged) (w_quota w) 100) (or_else (b_failure_pct b) 20)"

definition settled_row :: "env \<Rightarrow> bounty_row \<Rightarrow> window_row \<Rightarrow> nat \<Rightarrow> window_row \<Rightarrow> window_row" where
  "settled_row e b w flagged x =
     x\<lparr>w_settled_at := Some (e_now e), w_rejected := Some (int flagged),
       w_failed_at := (if window_failed b w flagged then Some (e_now e) else None)\<rparr>"

definition settle_window :: "env \<Rightarrow> bounty_row \<Rightarrow> window_row \<Rightarrow> db \<Rightarrow> db" where
  "settle_window e b w d =
     (if selected_in (w_id w) {S_in_audit} d = 0
      then set_window (\<lambda>x. w_id x = w_id w) (settled_row e b w (selected_in (w_id w) {S_flagged, S_disputed, S_rejected} d)) d
      else d)"

definition no_decisions :: decided_so_far where
  "no_decisions = \<lparr>df_applied = 0, df_rejected = 0, df_notes = []\<rparr>"

definition decisions_txn ::
  "matrix_config \<Rightarrow> env \<Rightarrow> bounty_row \<Rightarrow> window_row \<Rightarrow> ident \<Rightarrow> (decision \<times> member_row \<times> submission_row) list
     \<Rightarrow> db \<Rightarrow> decision_error + (db \<times> decided_so_far)" where
  "decisions_txn seed e b w v xs d =
     (case decide_all seed e b w v xs (d, no_decisions) of
        Inl err \<Rightarrow> Inl err
      | Inr (d1, acc) \<Rightarrow>
          (case count_audits e (b_id b) v (df_applied acc) d1 of
             Inl err \<Rightarrow> Inl err
           | Inr d2 \<Rightarrow> Inr (settle_window e b w d2, acc)))"

section \<open>The handler\<close>

definition with_member :: "(member_row \<times> submission_row) list \<Rightarrow> decision \<Rightarrow> (decision \<times> member_row \<times> submission_row) option" where
  "with_member ms c = map_option (Pair c) (find_where (\<lambda>(m, s). m_id m = dc_item c) ms)"

definition plan_decisions ::
  "ident \<Rightarrow> ident \<Rightarrow> decision list \<Rightarrow> db
     \<Rightarrow> decision_error + (bounty_row \<times> window_row \<times> (decision \<times> member_row \<times> submission_row) list)" where
  "plan_decisions wid v cs d =
     (case claimed_window wid v d of
        Inl err \<Rightarrow> Inl err
      | Inr w \<Rightarrow>
          (let ms = selected_members wid d
           in case check_decisions v ms cs of
                Some err \<Rightarrow> Inl err
              | None \<Rightarrow> (case bounty_by (w_bounty w) d of
                           None \<Rightarrow> Inl Decision_no_bounty
                         | Some b \<Rightarrow> Inr (b, w, List.map_filter (with_member ms) cs))))"

definition send_decision_notes :: "env \<Rightarrow> ident \<Rightarrow> (ident \<times> string \<times> string \<times> ident) list \<Rightarrow> db \<Rightarrow> db" where
  "send_decision_notes e bid ns d =
     fold (\<lambda>(u, typ, key, sid). notifyUser e u typ (Some key) (Some ''Submission'') (Some sid) (Some bid)) ns d"

record decisions_result =
  dr_window :: ident
  dr_decided :: nat
  dr_rejected :: nat

definition submitAuditDecisions ::
  "matrix_config \<Rightarrow> env \<Rightarrow> ident \<Rightarrow> ident \<Rightarrow> decision list \<Rightarrow> db \<Rightarrow> db \<times> (decision_error + decisions_result)" where
  "submitAuditDecisions seed e wid v cs d =
     (case plan_decisions wid v cs d of
        Inl err \<Rightarrow> (d, Inl err)
      | Inr (b, w, xs) \<Rightarrow>
          (case decisions_txn seed e b w v xs d of
             Inl err \<Rightarrow> (d, Inl err)
           | Inr (d1, acc) \<Rightarrow>
               (send_decision_notes e (b_id b) (df_notes acc) d1,
                Inr \<lparr>dr_window = w_id w, dr_decided = df_applied acc, dr_rejected = df_rejected acc\<rparr>)))"

section \<open>Facts\<close>

text \<open>What a decision leaves alone, and that the ledger only grows.\<close>

definition decision_frame :: "db \<Rightarrow> db \<Rightarrow> bool" where
  "decision_frame d d' \<longleftrightarrow> bounties d' = bounties d \<and> windows d' = windows d \<and> members d' = members d
     \<and> abatches d' = abatches d \<and> ranks d' = ranks d \<and> map u_id (users d') = map u_id (users d)
     \<and> (\<exists>ks. kevents d' = kevents d @ ks)"

lemma decision_frame_refl: "decision_frame d d"
  by (simp add: decision_frame_def)

lemma decision_frame_trans: "decision_frame d d' \<Longrightarrow> decision_frame d' d'' \<Longrightarrow> decision_frame d d''"
  by (auto simp: decision_frame_def)

lemma decision_frame_event: "decision_frame d d' \<Longrightarrow> event_by k d \<noteq> None \<Longrightarrow> event_by k d' \<noteq> None"
  by (auto simp: decision_frame_def event_by_def find_where_append split: option.split)

lemma decision_frame_known: "decision_frame d d' \<Longrightarrow> user_known d' u = user_known d u"
  by (simp add: decision_frame_def user_known_def flip: set_map)

lemma decision_frame_bounty: "decision_frame d d' \<Longrightarrow> bounty_by k d' = bounty_by k d"
  by (simp add: decision_frame_def bounty_by_def)

lemma awardKarma_decision:
  assumes "awardKarma e p d = Inr (d', r)"
  shows "decision_frame d d' \<and> submissions d' = submissions d \<and> event_by (award_key p) d' \<noteq> None"
proof -
  have "event_by (award_key p) (post_event e p d) \<noteq> None"
    by (auto simp: event_by_def post_event_def find_where_append event_key_def award_key_def new_event_def split: option.split)
  then have "event_by (award_key p) (announce_award e p x (post_event e p d)) \<noteq> None" for x
    by (simp add: event_by_def announce_award_def enqueueLeaderboardRankCheck_def Let_def)
  then show ?thesis
    using assms
    by (auto simp: awardKarma_def decision_frame_def announce_award_def enqueueLeaderboardRankCheck_def Let_def
        post_event_def map_update_where split: option.splits)
qed

lemma award_or_hold_decision:
  assumes "awardOrHoldAcceptedItemKarma e g k p d = Inr (d', r)"
  shows "decision_frame d d' \<and> submissions d' = submissions d"
proof -
  have "decision_frame d d1 \<and> submissions d1 = submissions d" if "queuePendingKarmaAward e k p d = Inr (d1, x)" for d1 x
    using that by (auto simp: queuePendingKarmaAward_def decision_frame_def split: prod.splits bool.splits if_splits)
  then show ?thesis
    using assms awardKarma_decision
    by (auto simp: awardOrHoldAcceptedItemKarma_def split: sum.splits if_splits prod.splits)
qed

lemma record_verdict_decision:
  "decision_frame d (record_verdict e k sid c d)" "submissions (record_verdict e k sid c d) = submissions d"
  by (simp_all add: record_verdict_def decision_frame_def split: option.split)

lemma item_outcome_decision:
  "item_outcome seed e b v s c d = Inr d' \<Longrightarrow> decision_frame d d' \<and> submissions d' = submissions d"
  using award_or_hold_decision
  by (auto simp: item_outcome_def decision_frame_def split: if_splits sum.splits)

text \<open>An item is open while it has a submission in audit.\<close>

definition open_item :: "ident \<Rightarrow> db \<Rightarrow> bool" where
  "open_item sid d \<longleftrightarrow> (\<exists>y \<in> set (submissions d). s_id y = sid \<and> s_status y = S_in_audit)"

definition decide_rows :: "env \<Rightarrow> decision \<Rightarrow> ident \<Rightarrow> submission_row list \<Rightarrow> submission_row list" where
  "decide_rows e c sid = update_where (\<lambda>y. s_id y = sid \<and> s_status y = S_in_audit) (decided_row e (dc_verdict c))"

lemma decided_row_fields [simp]:
  "s_id (decided_row e vd s) = s_id s" "s_status (decided_row e vd s) = (if vd = V_flagged then S_flagged else S_accepted)"
  by (simp_all add: decided_row_def)

lemma decide_rows_open:
  "submissions d' = decide_rows e c sid (submissions d) \<Longrightarrow> open_item k d' \<longleftrightarrow> open_item k d \<and> k \<noteq> sid"
  by (auto simp: open_item_def decide_rows_def set_update_where split: if_splits)

lemma decide_one_skip:
  "\<not> open_item (s_id s) d \<Longrightarrow> decide_one seed e b w v (c, m, s) (d, acc) = Inr (d, acc)"
  using count_where_0_iff [of "\<lambda>y. s_id y = s_id s \<and> s_status y = S_in_audit" "submissions d"]
  by (auto simp: decide_one_def update_many_def open_item_def)

definition counted :: "decision \<Rightarrow> decided_so_far \<Rightarrow> decided_so_far \<Rightarrow> bool" where
  "counted c acc acc' \<longleftrightarrow> df_applied acc' = Suc (df_applied acc)
     \<and> df_rejected acc' = df_rejected acc + (if dc_verdict c = V_flagged then 1 else 0)"

lemma decide_one_open:
  assumes "open_item (s_id s) d" and "decide_one seed e b w v (c, m, s) (d, acc) = Inr (d', acc')"
  shows "decision_frame d d' \<and> submissions d' = decide_rows e c (s_id s) (submissions d)
     \<and> event_by (award_key (validator_award e b v m)) d' \<noteq> None \<and> counted c acc acc'"
proof -
  let ?d0 = "record_verdict e (w_batch w) (s_id s) c (d\<lparr>submissions := decide_rows e c (s_id s) (submissions d)\<rparr>)"
  have n: "count_where (\<lambda>y. s_id y = s_id s \<and> s_status y = S_in_audit) (submissions d) \<noteq> 0"
    using assms(1) by (auto simp: open_item_def count_where_0_iff)
  obtain d1 r where o: "item_outcome seed e b v s c ?d0 = Inr d1"
    and a: "awardKarma e (validator_award e b v m) d1 = Inr (d', r)" and c: "counted c acc acc'"
    using assms(2) n by (auto simp: decide_one_def update_many_def decide_rows_def counted_def split: sum.splits)
  have "decision_frame d (d\<lparr>submissions := decide_rows e c (s_id s) (submissions d)\<rparr>)" by (simp add: decision_frame_def)
  then have f0: "decision_frame d ?d0" using record_verdict_decision(1) decision_frame_trans by blast
  note od = item_outcome_decision [OF o] and ad = awardKarma_decision [OF a]
  have "decision_frame d d'"
    by (rule decision_frame_trans [OF decision_frame_trans [OF f0 conjunct1 [OF od]] conjunct1 [OF ad]])
  moreover have "submissions d' = decide_rows e c (s_id s) (submissions d)"
    using od ad by (simp add: record_verdict_decision(2))
  ultimately show ?thesis using ad c by blast
qed

lemma awardKarma_returns: "user_known d (ap_user p) \<Longrightarrow> \<exists>d' r. awardKarma e p d = Inr (d', r)"
  using user_known_iff [of "ap_user p" d] by (auto simp: awardKarma_def split: option.split)

text \<open>Any decision succeeds when the users and the bounty it names exist.\<close>

lemma decide_one_returns:
  assumes "user_known d v" and "user_known d (s_contributor s)" and "bounty_by (b_id b) d \<noteq> None"
  shows "\<exists>r. decide_one seed e b w v (c, m, s) (d, acc) = Inr r"
proof (cases "open_item (s_id s) d")
  case False
  then show ?thesis by (simp add: decide_one_skip)
next
  case True
  let ?d0 = "record_verdict e (w_batch w) (s_id s) c (d\<lparr>submissions := decide_rows e c (s_id s) (submissions d)\<rparr>)"
  have "decision_frame d (d\<lparr>submissions := decide_rows e c (s_id s) (submissions d)\<rparr>)" by (simp add: decision_frame_def)
  then have f0: "decision_frame d ?d0" using record_verdict_decision(1) decision_frame_trans by blast
  obtain d1 where o: "item_outcome seed e b v s c ?d0 = Inr d1"
  proof (cases "dc_verdict c = V_flagged")
    case True
    then show ?thesis using that by (simp add: item_outcome_def)
  next
    case False
    have "user_known ?d0 (ap_user (sampling_award seed e b s))" and "bounty_by (b_id b) ?d0 \<noteq> None"
      using decision_frame_known [OF f0] decision_frame_bounty [OF f0] assms(2,3) by (simp_all add: sampling_award_def)
    from award_returns [OF sampling_award_positive this, of e None] show ?thesis
      using that False by (auto simp: item_outcome_def)
  qed
  have "user_known d1 v"
    using decision_frame_known [OF decision_frame_trans [OF f0 conjunct1 [OF item_outcome_decision [OF o]]]] assms(1) by simp
  then obtain d2 r where "awardKarma e (validator_award e b v m) d1 = Inr (d2, r)"
    using awardKarma_returns [of d1 "validator_award e b v m" e] by (auto simp: validator_award_def)
  then show ?thesis
    using o by (simp add: decide_one_def update_many_def decide_rows_def)
qed

text \<open>A whole batch.\<close>

type_synonym planned = "decision \<times> member_row \<times> submission_row"

definition item_of :: "planned \<Rightarrow> ident" where
  "item_of x = s_id (snd (snd x))"

lemma decide_one_frame:
  assumes "decide_one seed e b w v x (d, acc) = Inr (d', acc')"
  shows "decision_frame d d' \<and> (\<forall>k. open_item k d' \<longleftrightarrow> open_item k d \<and> k \<noteq> item_of x)"
proof -
  obtain c m s where x: "x = (c, m, s)" by (cases x)
  show ?thesis
  proof (cases "open_item (s_id s) d")
    case True
    from decide_one_open [OF True assms [unfolded x]] decide_rows_open
    show ?thesis by (auto simp: x item_of_def)
  next
    case False
    with decide_one_skip [OF False, of seed e b w v c m acc] assms
    have "d' = d" by (simp add: x)
    with False show ?thesis by (auto simp: x item_of_def decision_frame_refl)
  qed
qed

lemma decide_all_frame:
  "decide_all seed e b w v xs (d, acc) = Inr (d', acc') \<Longrightarrow>
     decision_frame d d' \<and> (\<forall>k. open_item k d' \<longleftrightarrow> open_item k d \<and> k \<notin> item_of ` set xs)"
proof (induction xs arbitrary: d acc)
  case Nil
  then show ?case by (simp add: decision_frame_refl)
next
  case (Cons x xs)
  obtain d1 acc1 where o: "decide_one seed e b w v x (d, acc) = Inr (d1, acc1)"
    and a: "decide_all seed e b w v xs (d1, acc1) = Inr (d', acc')"
    using Cons.prems by (auto split: sum.splits)
  from decide_one_frame [OF o] Cons.IH [OF a] show ?case
    by (auto intro: decision_frame_trans)
qed

lemma decide_all_closed:
  "\<forall>x \<in> set xs. \<not> open_item (item_of x) d \<Longrightarrow> decide_all seed e b w v xs (d, acc) = Inr (d, acc)"
proof (induction xs)
  case Nil
  then show ?case by simp
next
  case (Cons x xs)
  obtain c m s where x: "x = (c, m, s)" by (cases x)
  have "decide_one seed e b w v x (d, acc) = Inr (d, acc)"
    using Cons.prems unfolding x by (intro decide_one_skip) (simp add: item_of_def)
  then show ?case using Cons by simp
qed

lemma decide_all_returns:
  assumes "user_known d v" and "\<forall>x \<in> set xs. user_known d (s_contributor (snd (snd x)))" and "bounty_by (b_id b) d \<noteq> None"
  shows "\<exists>d' acc'. decide_all seed e b w v xs (d, acc) = Inr (d', acc')"
  using assms
proof (induction xs arbitrary: d acc)
  case Nil
  then show ?case by simp
next
  case (Cons x xs)
  obtain c m s where x: "x = (c, m, s)" by (cases x)
  obtain d1 acc1 where o: "decide_one seed e b w v x (d, acc) = Inr (d1, acc1)"
    using decide_one_returns [of d v s b seed e w c m acc] Cons.prems by (auto simp: x)
  have fr: "decision_frame d d1" using decide_one_frame [OF o] by blast
  have "\<exists>d' acc'. decide_all seed e b w v xs (d1, acc1) = Inr (d', acc')"
    by (rule Cons.IH) (use Cons.prems decision_frame_known [OF fr] decision_frame_bounty [OF fr] in auto)
  then show ?case using o by auto
qed

definition verdict_of :: "planned list \<Rightarrow> ident \<Rightarrow> audit_verdict option" where
  "verdict_of xs = map_of (map (\<lambda>x. (item_of x, dc_verdict (fst x))) xs)"

definition after_decisions :: "env \<Rightarrow> planned list \<Rightarrow> submission_row \<Rightarrow> submission_row" where
  "after_decisions e xs y =
     (case verdict_of xs (s_id y) of
        Some vd \<Rightarrow> if s_status y = S_in_audit then decided_row e vd y else y
      | None \<Rightarrow> y)"

definition rejections :: "planned list \<Rightarrow> nat" where
  "rejections xs = count_where (\<lambda>x. dc_verdict (fst x) = V_flagged) xs"

lemma after_decisions_Cons:
  assumes "item_of x \<notin> item_of ` set xs"
  shows "map (after_decisions e xs) (decide_rows e (fst x) (item_of x) ys) = map (after_decisions e (x # xs)) ys"
proof -
  have n: "verdict_of xs (item_of x) = None"
    using assms by (auto simp: verdict_of_def map_of_eq_None_iff image_image)
  show ?thesis
    unfolding decide_rows_def update_where_def map_map
    by (rule map_cong [OF refl]) (auto simp: after_decisions_def verdict_of_def n [unfolded verdict_of_def] split: option.split)
qed

lemma decide_all_spec:
  assumes "distinct (map item_of xs)" and "\<forall>x \<in> set xs. open_item (item_of x) d"
    and "decide_all seed e b w v xs (d, acc) = Inr (d', acc')"
  shows "submissions d' = map (after_decisions e xs) (submissions d)
     \<and> (\<forall>x \<in> set xs. event_by (award_key (validator_award e b v (fst (snd x)))) d' \<noteq> None)
     \<and> df_applied acc' = df_applied acc + length xs \<and> df_rejected acc' = df_rejected acc + rejections xs"
  using assms
proof (induction xs arbitrary: d acc)
  case Nil
  have "map (after_decisions e []) ys = ys" for ys
    by (induction ys) (simp_all add: after_decisions_def verdict_of_def)
  then show ?case using Nil by (simp add: rejections_def)
next
  case (Cons x xs)
  obtain c m s where x: "x = (c, m, s)" by (cases x)
  obtain d1 acc1 where o: "decide_one seed e b w v x (d, acc) = Inr (d1, acc1)"
    and a: "decide_all seed e b w v xs (d1, acc1) = Inr (d', acc')"
    using Cons.prems(3) by (auto split: sum.splits)
  have op: "open_item (s_id s) d" using Cons.prems(2) by (simp add: x item_of_def)
  note one = decide_one_open [OF op o [unfolded x]]
  have ne: "item_of y \<noteq> item_of x" if "y \<in> set xs" for y
    using Cons.prems(1) that by (metis distinct.simps(2) imageI list.set_map list.simps(9))
  have op1: "\<forall>y \<in> set xs. open_item (item_of y) d1"
    using decide_one_frame [OF o] Cons.prems(2) ne by auto
  have d1: "distinct (map item_of xs)" using Cons.prems(1) by simp
  note ih = Cons.IH [OF d1 op1 a]
  have "submissions d' = map (after_decisions e (x # xs)) (submissions d)"
    using ih one after_decisions_Cons [of x xs e "submissions d"] Cons.prems(1) by (simp add: x item_of_def)
  moreover have "event_by (award_key (validator_award e b v m)) d' \<noteq> None"
    using one decision_frame_event decide_all_frame [OF a] by blast
  ultimately show ?case
    using ih one by (auto simp: x counted_def rejections_def)
qed

text \<open>What passing the checks means.\<close>

lemma check_decisions_first:
  "\<forall>a \<in> set as. check_decision v ms a = None \<Longrightarrow> check_decision v ms c = Some err \<Longrightarrow> check_decisions v ms (as @ c # bs) = Some err"
  by (induction as) auto

lemma check_decisions_None: "check_decisions v ms cs = None \<longleftrightarrow> (\<forall>c \<in> set cs. check_decision v ms c = None)"
  by (induction cs) (auto split: option.split)

lemma check_decision_None:
  assumes "check_decision v ms c = None"
  obtains m s where "with_member ms c = Some (c, m, s)" "(m, s) \<in> set ms" "s_contributor s \<noteq> v" "s_status s = S_in_audit"
proof -
  from assms obtain p where p: "find_where (\<lambda>(m, s). m_id m = dc_item c) ms = Some p"
    by (auto simp: check_decision_def split: option.splits)
  obtain m s where ms: "p = (m, s)" by (cases p)
  have "(m, s) \<in> set ms" using find_where_Some [OF p] ms by simp
  then show ?thesis
    using that [of m s] assms p ms by (auto simp: check_decision_def with_member_def split: if_splits)
qed

lemma selected_members_in: "(m, s) \<in> set (selected_members wid d) \<Longrightarrow> s \<in> set (submissions d)"
  by (auto simp: selected_members_def List.map_filter_def submission_by_def split: if_splits dest: find_where_Some)

lemma with_members_length:
  "\<forall>c \<in> set cs. check_decision v ms c = None \<Longrightarrow> length (List.map_filter (with_member ms) cs) = length cs"
  by (induction cs) (auto simp: List.map_filter_simps elim: check_decision_None)

lemma plan_checked:
  assumes "plan_decisions wid v cs d = Inr (b, w, xs)"
  shows "window_by wid d = Some w \<and> w_settled_at w = None \<and> w_superseded_at w = None \<and> w_claimed_by w = Some v
     \<and> bounty_by (w_bounty w) d = Some b \<and> length xs = length cs \<and> (\<forall>x \<in> set xs. open_item (item_of x) d)"
proof -
  let ?ms = "selected_members wid d"
  have w: "window_by wid d = Some w \<and> w_settled_at w = None \<and> w_superseded_at w = None \<and> w_claimed_by w = Some v"
    and c: "check_decisions v ?ms cs = None" and b: "bounty_by (w_bounty w) d = Some b"
    and xs: "xs = List.map_filter (with_member ?ms) cs"
    using assms by (auto simp: plan_decisions_def claimed_window_def Let_def split: sum.splits option.splits if_splits)
  have ok: "\<forall>c \<in> set cs. check_decision v ?ms c = None" using c by (simp add: check_decisions_None)
  have "open_item (item_of x) d" if x: "x \<in> set xs" for x
  proof -
    obtain a where a: "a \<in> set cs" "with_member ?ms a = Some x"
      using x unfolding xs List.map_filter_def by force
    obtain m s where "x = (a, m, s)" "(m, s) \<in> set ?ms" "s_status s = S_in_audit"
      using ok a by (metis check_decision_None option.inject)
    then show ?thesis using selected_members_in by (auto simp: open_item_def item_of_def)
  qed
  then show ?thesis using w b with_members_length [OF ok] xs by simp
qed

lemma audits_of_added: "audits_of v (d\<lparr>ranks := add_audits v n (ranks d)\<rparr>) = audits_of v d + int n"
proof (cases "find_where (\<lambda>r. rk_user r = v) (ranks d)")
  case None
  then show ?thesis by (simp add: audits_of_def add_audits_def find_where_append or_else_def)
next
  case (Some r)
  have "find_where (\<lambda>r. rk_user r = v) (update_where (\<lambda>r. rk_user r = v) (\<lambda>r. r\<lparr>rk_audits := rk_audits r + int n\<rparr>) (ranks d))
      = Some (r\<lparr>rk_audits := rk_audits r + int n\<rparr>)"
    by (rule find_where_key_update [OF Some]) simp
  then show ?thesis using Some by (simp add: audits_of_def add_audits_def or_else_def)
qed

lemma count_audits_spec:
  assumes "bounty_ids d" and "bounty_by bid d = Some b"
  shows "\<exists>d'. count_audits e bid v n d = Inr d' \<and> pool_frame (d\<lparr>ranks := ranks d'\<rparr>) d' \<and> audits_of v d' = audits_of v d + int n"
proof (cases "n = 0")
  case True
  then show ?thesis by (simp add: count_audits_def)
next
  case False
  let ?d = "d\<lparr>ranks := add_audits v n (ranks d)\<rparr>"
  have "bounty_ids ?d" "bounty_by bid ?d = Some b" using assms by (simp_all add: bounty_ids_def bounty_by_def)
  from recompute_spec [OF this, of e] obtain d' c where r: "recomputeAcceptedItemCounters e bid ?d = Some (d', c)" by blast
  have fr: "pool_frame ?d d'" by (rule recompute_frame [OF r])
  then have rk: "ranks d' = add_audits v n (ranks d)" by (simp add: pool_frame_def)
  have "audits_of v d' = audits_of v ?d" using fr by (simp add: audits_of_def pool_frame_def)
  then show ?thesis using r fr False rk audits_of_added by (simp add: count_audits_def)
qed

lemma send_decision_notes_frame: "outbox_frame d (send_decision_notes e bid ns d)"
  unfolding send_decision_notes_def by (rule outbox_frame_fold) (auto simp: notifyUser_frame split: prod.split)

lemma settle_window_frame [simp]:
  "submissions (settle_window e b w d) = submissions d" "kevents (settle_window e b w d) = kevents d"
  "flags (settle_window e b w d) = flags d" "awards (settle_window e b w d) = awards d" "ranks (settle_window e b w d) = ranks d"
  "users (settle_window e b w d) = users d" "members (settle_window e b w d) = members d" "aitems (settle_window e b w d) = aitems d"
  by (simp_all add: settle_window_def set_window_def)

lemma selected_in_cong: "members d = members d' \<Longrightarrow> submissions d = submissions d' \<Longrightarrow> selected_in wid sts d = selected_in wid sts d'"
proof -
  assume a: "members d = members d'" "submissions d = submissions d'"
  have sb: "submission_by k d = submission_by k d'" for k by (simp add: submission_by_def a(2))
  show ?thesis unfolding selected_in_def selected_members_def sb a(1) ..
qed

lemma settle_window_row:
  assumes "window_by (w_id w) d = Some x"
  shows "window_by (w_id w) (settle_window e b w d)
       = Some (if selected_in (w_id w) {S_in_audit} d = 0
               then settled_row e b w (selected_in (w_id w) {S_flagged, S_disputed, S_rejected} d) x else x)"
  using assms by (simp add: settle_window_def set_window_def window_by_def find_where_key_update settled_row_def)

text \<open>The rounding of the failure test is right unless the share is exactly the threshold, where it may miss it:
  29 of 100 at a threshold of 29 is no failure.\<close>

lemma failure_test_is_exact_off_the_threshold:
  assumes "0 < w_quota w" and "int flagged * 100 \<le> 2 ^ 51"
    and "int flagged * 100 \<noteq> or_else (b_failure_pct b) 20 * w_quota w"
  shows "window_failed b w flagged \<longleftrightarrow> or_else (b_failure_pct b) 20 * w_quota w < int flagged * 100"
  using quotient_times_compares [of "int flagged" "w_quota w" 100] assms by (simp add: window_failed_def)

lemma failure_test_misses_the_threshold:
  assumes "b_failure_pct b = Some 29" and "w_quota w = 100"
  shows "\<not> window_failed b w 29 \<and> window_failed b w 30 \<and> int 29 * 100 = 29 * w_quota w"
  using twenty_nine_percent assms by (simp add: window_failed_def or_else_def)

section \<open>Properties\<close>

text \<open>Refusals are typed and write nothing: a request that is refused leaves the database as it was; a window that
  is missing, settled, superseded, unclaimed or claimed by someone else is refused with its own error in that order of
  precedence, and otherwise the first decision that fails a check decides the error of the whole request.\<close>

lemma refused_decisions_write_nothing:
  fixes seed :: matrix_config and e :: env
  defines "r \<equiv> \<lambda>wid v cs d. submitAuditDecisions seed e wid v cs d"
  shows "(\<forall>wid v cs d err. snd (r wid v cs d) = Inl err \<longrightarrow> fst (r wid v cs d) = d)
     \<and> (\<forall>wid v cs d. window_by wid d = None \<longrightarrow> snd (r wid v cs d) = Inl Window_not_found)
     \<and> (\<forall>wid v cs d w. window_by wid d = Some w \<longrightarrow>
          (w_settled_at w \<noteq> None \<longrightarrow> snd (r wid v cs d) = Inl Window_settled)
          \<and> (w_settled_at w = None \<and> w_superseded_at w \<noteq> None \<longrightarrow> snd (r wid v cs d) = Inl Window_superseded)
          \<and> (w_settled_at w = None \<and> w_superseded_at w = None \<and> w_claimed_by w = None \<longrightarrow> snd (r wid v cs d) = Inl Window_not_claimed)
          \<and> (w_settled_at w = None \<and> w_superseded_at w = None \<and> (\<exists>u. w_claimed_by w = Some u \<and> u \<noteq> v)
               \<longrightarrow> snd (r wid v cs d) = Inl Window_claimed_by_other)
          \<and> (w_settled_at w = None \<and> w_superseded_at w = None \<and> w_claimed_by w = Some v \<longrightarrow>
               (\<forall>as c bs err. cs = as @ c # bs \<and> (\<forall>a \<in> set as. check_decision v (selected_members wid d) a = None)
                  \<and> check_decision v (selected_members wid d) c = Some err \<longrightarrow> snd (r wid v cs d) = Inl err)))"
proof (intro conjI allI impI)
  fix wid v cs d err
  assume "snd (r wid v cs d) = Inl err"
  then show "fst (r wid v cs d) = d"
    by (auto simp: r_def submitAuditDecisions_def split: sum.splits prod.splits)
qed (auto simp: r_def submitAuditDecisions_def plan_decisions_def claimed_window_def Let_def check_decisions_first)

text \<open>A claimed window of two items and the users it names.\<close>

definition claimed_db :: "submission_status \<Rightarrow> db" where
  "claimed_db st = (audit_db [(open_window ''w1'' 5)\<lparr>w_claimed_by := Some ''v'', w_claimed_at := Some 6, w_expires := Some 50\<rparr>])
     \<lparr>users := [user0 ''v'', user0 ''u1'', user0 ''u2''],
      submissions := [submission0 ''s1'' ''b'' ''u1'' st, submission0 ''s2'' ''b'' ''u2'' st]\<rparr>"

definition ok_decision :: "ident \<Rightarrow> decision" where
  "ok_decision i = \<lparr>dc_item = i, dc_verdict = V_ok, dc_reason = None, dc_note = None\<rparr>"

lemmas claimed_db_simps = claimed_db_def ok_decision_def user0_def audit_db_simps

lemma refused_decisions_write_nothing_witness:
  "snd (submitAuditDecisions Map.empty (env0 9) ''w1'' ''x'' [ok_decision ''m1''] (claimed_db S_in_audit)) = Inl Window_claimed_by_other"
proof -
  have w: "window_by ''w1'' (claimed_db S_in_audit)
      = Some ((open_window ''w1'' 5)\<lparr>w_claimed_by := Some ''v'', w_claimed_at := Some 6, w_expires := Some 50\<rparr>)"
    by (simp add: window_by_def claimed_db_simps)
  show ?thesis
    using refused_decisions_write_nothing [of Map.empty "env0 9"] w by (simp add: open_window_def)
qed

text \<open>C11: An accepted request takes effect in full. The request passed the checks and names every item once; bounty ids
  are unique, and the validator and the contributors of the items are users (rows the schema guarantees by its primary
  and foreign keys). Then it cannot fail, every item gets its verdict's status and nothing else changes status, the
  validator's audit of every item is on the ledger, the audit count rises by exactly the number of decisions, and the
  window is settled with its count of bad items exactly when no item is left in audit; it is marked as failed when
  their share of the quota, computed in doubles as the code does, reaches the threshold of the bounty, which is the exact
  comparison except where share and threshold are equal (\<open>failure_test_is_exact_off_the_threshold\<close>).\<close>

theorem decisions_take_effect:
  assumes "plan_decisions wid v cs d = Inr (b, w, xs)" and "distinct (map item_of xs)" and "bounty_ids d"
    and "user_known d v" and "\<forall>x \<in> set xs. user_known d (s_contributor (snd (snd x)))"
  shows "\<exists>d'. submitAuditDecisions seed e wid v cs d
       = (d', Inr \<lparr>dr_window = wid, dr_decided = length cs, dr_rejected = rejections xs\<rparr>)
     \<and> submissions d' = map (after_decisions e xs) (submissions d)
     \<and> (\<forall>x \<in> set xs. event_by (award_key (validator_award e b v (fst (snd x)))) d' \<noteq> None)
     \<and> audits_of v d' = audits_of v d + int (length cs)
     \<and> window_by wid d' = Some (if selected_in wid {S_in_audit} d' = 0
           then settled_row e b w (selected_in wid {S_flagged, S_disputed, S_rejected} d') w else w)"
proof -
  note pl = plan_checked [OF assms(1)]
  have wid: "w_id w = wid" and bid: "b_id b = w_bounty w"
    using pl find_where_Some [of "\<lambda>w. w_id w = wid" "windows d" w] find_where_Some [of "\<lambda>x. b_id x = w_bounty w" "bounties d" b]
    by (auto simp: window_by_def bounty_by_def)
  have b: "bounty_by (b_id b) d = Some b" using pl bid by simp
  obtain d1 acc where da: "decide_all seed e b w v xs (d, no_decisions) = Inr (d1, acc)"
    using decide_all_returns [OF assms(4,5), of b seed e w no_decisions] b by auto
  have fr: "decision_frame d d1" using decide_all_frame [OF da] by blast
  have op: "\<forall>x \<in> set xs. open_item (item_of x) d" using pl by blast
  note sp = decide_all_spec [OF assms(2) op da]
  have n: "df_applied acc = length cs" "df_rejected acc = rejections xs" using sp pl by (simp_all add: no_decisions_def)
  have "bounty_ids d1" "bounty_by (b_id b) d1 = Some b"
    using fr assms(3) b by (simp_all add: decision_frame_def bounty_ids_def bounty_by_def)
  from count_audits_spec [OF this, of e v "df_applied acc"] obtain d2 where
    ca: "count_audits e (b_id b) v (df_applied acc) d1 = Inr d2"
    and pf: "pool_frame (d1\<lparr>ranks := ranks d2\<rparr>) d2" and au: "audits_of v d2 = audits_of v d1 + int (length cs)"
    using n by auto
  let ?d3 = "settle_window e b w d2"
  let ?d' = "send_decision_notes e (b_id b) (df_notes acc) ?d3"
  have of: "outbox_frame ?d3 ?d'" by (rule send_decision_notes_frame)
  have s2: "submissions d2 = submissions d1" "members d2 = members d" "windows d2 = windows d" "kevents d2 = kevents d1"
    using pf fr by (simp_all add: pool_frame_def decision_frame_def)
  have "submitAuditDecisions seed e wid v cs d = (?d', Inr \<lparr>dr_window = wid, dr_decided = length cs, dr_rejected = rejections xs\<rparr>)"
    using assms(1) da ca n wid by (simp add: submitAuditDecisions_def decisions_txn_def)
  moreover have "submissions ?d' = map (after_decisions e xs) (submissions d)"
    using of s2 sp by (simp add: outbox_frame_def)
  moreover have "\<forall>x \<in> set xs. event_by (award_key (validator_award e b v (fst (snd x)))) ?d' \<noteq> None"
    using of s2 sp by (simp add: outbox_frame_def event_by_def)
  moreover have "audits_of v ?d' = audits_of v d + int (length cs)"
    using of au fr by (simp add: outbox_frame_def audits_of_def decision_frame_def)
  moreover have "window_by wid ?d' = Some (if selected_in wid {S_in_audit} ?d' = 0
           then settled_row e b w (selected_in wid {S_flagged, S_disputed, S_rejected} ?d') w else w)"
  proof -
    have "window_by (w_id w) d2 = Some w" using s2 pl wid by (simp add: window_by_def)
    from settle_window_row [OF this, of e b] wid of
    have "window_by wid ?d' = Some (if selected_in wid {S_in_audit} d2 = 0
           then settled_row e b w (selected_in wid {S_flagged, S_disputed, S_rejected} d2) w else w)"
      by (simp add: window_by_def outbox_frame_def)
    moreover have "selected_in wid sts ?d' = selected_in wid sts d2" for sts
      by (rule selected_in_cong) (use of in \<open>simp_all add: outbox_frame_def\<close>)
    ultimately show ?thesis by simp
  qed
  ultimately show ?thesis by blast
qed

definition claimed_member :: "ident \<Rightarrow> ident \<Rightarrow> ident \<Rightarrow> planned" where
  "claimed_member i s u = (ok_decision i, audit_member i ''w1'' s, submission0 s ''b'' u S_in_audit)"

lemma claimed_plan:
  "plan_decisions ''w1'' ''v'' [ok_decision ''m1'', ok_decision ''m2''] (claimed_db S_in_audit)
     = Inr (bounty0 ''b'', (open_window ''w1'' 5)\<lparr>w_claimed_by := Some ''v'', w_claimed_at := Some 6, w_expires := Some 50\<rparr>,
            [claimed_member ''m1'' ''s1'' ''u1'', claimed_member ''m2'' ''s2'' ''u2''])"
proof -
  have ms: "selected_members ''w1'' (claimed_db S_in_audit)
      = [(audit_member ''m1'' ''w1'' ''s1'', submission0 ''s1'' ''b'' ''u1'' S_in_audit),
         (audit_member ''m2'' ''w1'' ''s2'', submission0 ''s2'' ''b'' ''u2'' S_in_audit)]"
    by (simp add: selected_members_def List.map_filter_simps submission_by_def claimed_db_simps)
  show ?thesis
    unfolding plan_decisions_def ms Let_def
    by (simp add: claimed_window_def window_by_def bounty_by_def check_decision_def note_missing_def with_member_def
        List.map_filter_simps claimed_member_def claimed_db_simps)
qed

theorem decisions_take_effect_witness:
  "\<exists>d'. submitAuditDecisions Map.empty (env0 9) ''w1'' ''v'' [ok_decision ''m1'', ok_decision ''m2''] (claimed_db S_in_audit)
       = (d', Inr \<lparr>dr_window = ''w1'', dr_decided = 2, dr_rejected = 0\<rparr>)
     \<and> map s_status (submissions d') = [S_accepted, S_accepted] \<and> audits_of ''v'' d' = 2"
proof -
  let ?xs = "[claimed_member ''m1'' ''s1'' ''u1'', claimed_member ''m2'' ''s2'' ''u2'']"
  have "distinct (map item_of ?xs)" "bounty_ids (claimed_db S_in_audit)" "user_known (claimed_db S_in_audit) ''v''"
    "\<forall>x \<in> set ?xs. user_known (claimed_db S_in_audit) (s_contributor (snd (snd x)))"
    by (simp_all add: item_of_def claimed_member_def bounty_ids_def user_known_def claimed_db_simps)
  from decisions_take_effect [OF claimed_plan this, of Map.empty "env0 9"]
  obtain d' where d': "submitAuditDecisions Map.empty (env0 9) ''w1'' ''v'' [ok_decision ''m1'', ok_decision ''m2''] (claimed_db S_in_audit)
       = (d', Inr \<lparr>dr_window = ''w1'', dr_decided = length [ok_decision ''m1'', ok_decision ''m2''], dr_rejected = rejections ?xs\<rparr>)"
    and s: "submissions d' = map (after_decisions (env0 9) ?xs) (submissions (claimed_db S_in_audit))"
    and a: "audits_of ''v'' d' = audits_of ''v'' (claimed_db S_in_audit) + int (length [ok_decision ''m1'', ok_decision ''m2''])"
    by blast
  have "rejections ?xs = 0" by (simp add: rejections_def claimed_member_def ok_decision_def)
  moreover have "map s_status (submissions d') = [S_accepted, S_accepted]"
    unfolding s by (simp add: after_decisions_def verdict_of_def item_of_def claimed_member_def decided_row_def claimed_db_simps)
  moreover have "audits_of ''v'' (claimed_db S_in_audit) = 0" by (simp add: audits_of_def or_else_def claimed_db_simps)
  ultimately show ?thesis using d' a by simp
qed

text \<open>An item is decided once: whatever stale plan a second request holds on items a first request has decided,
  its transaction counts no decision, pays nobody, opens no flag and changes no verdict; at most the settlement of its
  window is written again.\<close>

lemma items_decided_once:
  assumes "decisions_txn seed e b w v xs d = Inr (d1, acc)" and "item_of ` set ys \<subseteq> item_of ` set xs"
  shows "decisions_txn seed' e' b' w' v' ys d1 = Inr (settle_window e' b' w' d1, no_decisions)
     \<and> submissions (settle_window e' b' w' d1) = submissions d1 \<and> kevents (settle_window e' b' w' d1) = kevents d1
     \<and> awards (settle_window e' b' w' d1) = awards d1 \<and> flags (settle_window e' b' w' d1) = flags d1
     \<and> aitems (settle_window e' b' w' d1) = aitems d1 \<and> ranks (settle_window e' b' w' d1) = ranks d1"
proof -
  obtain d0 d2 where da: "decide_all seed e b w v xs (d, no_decisions) = Inr (d0, acc)"
    and ca: "count_audits e (b_id b) v (df_applied acc) d0 = Inr d2" and d1: "d1 = settle_window e b w d2"
    using assms(1) by (auto simp: decisions_txn_def split: sum.splits)
  have "submissions d2 = submissions d0"
    using ca recompute_frame [of e "b_id b"] by (auto simp: count_audits_def pool_frame_def split: if_splits option.splits)
  then have "open_item k d1 = open_item k d0" for k by (simp add: open_item_def d1)
  then have "\<forall>y \<in> set ys. \<not> open_item (item_of y) d1"
    using decide_all_frame [OF da] assms(2) by auto
  then have "decide_all seed' e' b' w' v' ys (d1, no_decisions) = Inr (d1, no_decisions)" by (rule decide_all_closed)
  then show ?thesis by (simp add: decisions_txn_def count_audits_def no_decisions_def)
qed

lemma items_decided_once_witness:
  "\<exists>d1 acc. decisions_txn Map.empty (env0 9) (bounty0 ''b'') (open_window ''w1'' 5) ''v'' [claimed_member ''m1'' ''s1'' ''u1''] (claimed_db S_in_audit)
       = Inr (d1, acc)
     \<and> decisions_txn Map.empty (env0 10) (bounty0 ''b'') (open_window ''w1'' 5) ''x'' [claimed_member ''m1'' ''s1'' ''u1''] d1
       = Inr (settle_window (env0 10) (bounty0 ''b'') (open_window ''w1'' 5) d1, no_decisions)"
proof -
  let ?xs = "[claimed_member ''m1'' ''s1'' ''u1'']"
  have k: "user_known (claimed_db S_in_audit) ''v''" "\<forall>x \<in> set ?xs. user_known (claimed_db S_in_audit) (s_contributor (snd (snd x)))"
    "bounty_by (b_id (bounty0 ''b'')) (claimed_db S_in_audit) = Some (bounty0 ''b'')" "bounty_ids (claimed_db S_in_audit)"
    by (simp_all add: claimed_member_def user_known_def bounty_by_def bounty_ids_def claimed_db_simps)
  then obtain d0 acc where da: "decide_all Map.empty (env0 9) (bounty0 ''b'') (open_window ''w1'' 5) ''v'' ?xs (claimed_db S_in_audit, no_decisions) = Inr (d0, acc)"
    using decide_all_returns [OF k(1,2), of "bounty0 ''b''" Map.empty "env0 9" "open_window ''w1'' 5" no_decisions] by auto
  have "decision_frame (claimed_db S_in_audit) d0" using decide_all_frame [OF da] by blast
  then have "bounty_ids d0" "bounty_by (b_id (bounty0 ''b'')) d0 = Some (bounty0 ''b'')"
    using k by (simp_all add: decision_frame_def bounty_ids_def bounty_by_def)
  from count_audits_spec [OF this, of "env0 9" "''v''" "df_applied acc"] da
  obtain d1 where t: "decisions_txn Map.empty (env0 9) (bounty0 ''b'') (open_window ''w1'' 5) ''v'' ?xs (claimed_db S_in_audit) = Inr (d1, acc)"
    by (auto simp: decisions_txn_def)
  from items_decided_once [OF t order_refl] t show ?thesis by blast
qed

end
