(* ===== verification/Disputes.thy ===== *)
theory Disputes
  imports Audit_Decisions
begin

text \<open>
  Disputes: filing one on a rejected or flagged item (\<open>services/disputes.ts\<close>), and the admin's
  ruling (\<open>POST /disputes/:id/resolve\<close> of \<open>routes/v1/admin.ts\<close>), which rejects the item for good
  or sends it back to human audit, on its own audit items or on a window minted for it. Filing
  reads before its transaction; the ruling is one transaction under a row lock. Titles, the quoted
  validator note and the audit-log row are not modelled.
\<close>

section \<open>Filing\<close>

definition DISPUTABLE_STATUSES :: "submission_status list" where
  "DISPUTABLE_STATUSES = [S_flagged, S_rejected]"

datatype file_result = File_ok ident | File_not_found | File_not_disputable submission_status | File_failed

definition open_flag :: "ident \<Rightarrow> db \<Rightarrow> flag_row option" where
  "open_flag sid d = find_where (\<lambda>f. fl_submission f = sid \<and> fl_status f = F_open) (flags d)"

definition new_dispute :: "env \<Rightarrow> submission_row \<Rightarrow> flag_row option \<Rightarrow> ident \<Rightarrow> string \<Rightarrow> db \<Rightarrow> dispute_row" where
  "new_dispute e s f user argument d =
     \<lparr>di_id = fresh e d, di_bounty = Some (s_bounty s), di_submission = Some (s_id s), di_raised_by = Some user,
      di_reason = (case f of Some x \<Rightarrow> fl_reason x | None \<Rightarrow> FR_other), di_argument = argument, di_status = D_open,
      di_resolution = None, di_decision = None, di_resolved_by = None, di_created = e_now e, di_resolved_at = None\<rparr>"

definition dispute_notices :: "env \<Rightarrow> submission_row \<Rightarrow> bounty_row \<Rightarrow> flag_row option \<Rightarrow> ident \<Rightarrow> ident \<Rightarrow> db \<Rightarrow> db" where
  "dispute_notices e s b f user did d =
     (let d1 = (case Option.bind f fl_validator of
                  Some v \<Rightarrow> notifyEvent e ''issue.disputed''
                    \<lparr>em_user = v, em_entity = Some (s_id s), em_suffix = Some did, em_bounty = Some (s_bounty s)\<rparr> d
                | None \<Rightarrow> d);
          requester = sponsor_of b;
          d2 = (if requester \<noteq> [] \<and> requester \<noteq> user
                then notifyEvent e ''issue.dispute_filed''
                  \<lparr>em_user = requester, em_entity = Some (s_id s), em_suffix = Some did, em_bounty = Some (s_bounty s)\<rparr> d1
                else d1)
      in notifyAdminsEvent e ''admin.dispute_filed'' (Some (s_id s)) (Some did) False d2)"

text \<open>\<open>s\<close>, \<open>b\<close> and \<open>f\<close> were read before the transaction.\<close>

definition file_txn :: "env \<Rightarrow> submission_row \<Rightarrow> bounty_row \<Rightarrow> flag_row option \<Rightarrow> ident \<Rightarrow> string \<Rightarrow> db \<Rightarrow> (db \<times> ident) option" where
  "file_txn e s b f user argument d =
     (let row = new_dispute e s f user argument d;
          d1 = d\<lparr>disputes := disputes d @ [row], db_seq := Suc (db_seq d)\<rparr>
      in if submission_by (s_id s) d1 = None then None
         else Some (dispute_notices e s b f user (di_id row)
                      (set_submission (\<lambda>x. s_id x = s_id s) (\<lambda>x. x\<lparr>s_status := S_disputed, s_updated := e_now e\<rparr>) d1),
                    di_id row))"

definition file_precheck :: "ident \<Rightarrow> ident \<Rightarrow> db \<Rightarrow> file_result + (submission_row \<times> bounty_row \<times> flag_row option)" where
  "file_precheck sid user d =
     (case submission_by sid d of
        None \<Rightarrow> Inl File_not_found
      | Some s \<Rightarrow>
          (if s_contributor s \<noteq> user then Inl File_not_found
           else if s_status s \<notin> set DISPUTABLE_STATUSES then Inl (File_not_disputable (s_status s))
           else (case bounty_by (s_bounty s) d of
                   None \<Rightarrow> Inl File_failed
                 | Some b \<Rightarrow> Inr (s, b, open_flag sid d))))"

definition fileSubmissionDispute :: "env \<Rightarrow> ident \<Rightarrow> ident \<Rightarrow> string \<Rightarrow> db \<Rightarrow> db \<times> file_result" where
  "fileSubmissionDispute e sid user argument d =
     (case file_precheck sid user d of
        Inl r \<Rightarrow> (d, r)
      | Inr (s, b, f) \<Rightarrow>
          (case file_txn e s b f user argument d of
             None \<Rightarrow> (d, File_failed)
           | Some (d', k) \<Rightarrow> (d', File_ok k)))"

section \<open>The ruling\<close>

datatype ruling = Uphold_flag | Overturn_flag

definition RESOLVE_DECISION_MAP :: "ruling \<Rightarrow> string" where
  "RESOLVE_DECISION_MAP r = (case r of Uphold_flag \<Rightarrow> ''dismissed'' | Overturn_flag \<Rightarrow> ''upheld'')"

datatype resolve_result = Resolve_not_found | Resolve_already | Resolve_done

definition dispute_by :: "ident \<Rightarrow> db \<Rightarrow> dispute_row option" where
  "dispute_by k d = find_where (\<lambda>x. di_id x = k) (disputes d)"

definition resolved_dispute :: "env \<Rightarrow> ident \<Rightarrow> ruling \<Rightarrow> string \<Rightarrow> dispute_row \<Rightarrow> dispute_row" where
  "resolved_dispute e admin r text x =
     x\<lparr>di_status := D_resolved, di_decision := Some (RESOLVE_DECISION_MAP r), di_resolution := Some text,
       di_resolved_by := Some admin, di_resolved_at := Some (e_now e)\<rparr>"

definition close_flags :: "ident \<Rightarrow> flag_status \<Rightarrow> db \<Rightarrow> db" where
  "close_flags sid st d =
     d\<lparr>flags := update_where (\<lambda>f. fl_submission f = sid \<and> fl_status f = F_open) (\<lambda>f. f\<lparr>fl_status := st\<rparr>) (flags d)\<rparr>"

definition ruled_row :: "env \<Rightarrow> ruling \<Rightarrow> submission_row \<Rightarrow> submission_row" where
  "ruled_row e r s =
     (case r of
        Overturn_flag \<Rightarrow> s\<lparr>s_status := S_in_audit, s_accepted_at := None, s_updated := e_now e\<rparr>
      | Uphold_flag \<Rightarrow> s\<lparr>s_status := S_rejected, s_updated := e_now e\<rparr>)"

definition items_of :: "ident \<Rightarrow> db \<Rightarrow> audit_item_row list" where
  "items_of sid d = filter (\<lambda>i. ai_submission i = sid) (aitems d)"

fun reopen_items :: "env \<Rightarrow> ident \<Rightarrow> audit_item_row list \<Rightarrow> db \<Rightarrow> db option" where
  "reopen_items e did [] d = Some d"
| "reopen_items e did (i # is) d =
     (case reopenAuditItemForReview e (ai_id i) (ai_batch i) d of
        None \<Rightarrow> None
      | Some (d1, r) \<Rightarrow>
          reopen_items e did is
            (case (ro_pooled r, ro_retained r) of
               (False, Some v) \<Rightarrow> notifyEvent e ''audit.reopened''
                 \<lparr>em_user = v, em_entity = Some (ro_batch r), em_suffix = Some (''dispute:'' @ did @ '':'' @ ai_id i), em_bounty = None\<rparr> d1
             | _ \<Rightarrow> d1))"

text \<open>The window, batch and membership of an item that has no audit item.\<close>

definition next_window_index :: "ident \<Rightarrow> db \<Rightarrow> int" where
  "next_window_index bid d =
     (case map w_index (filter (\<lambda>w. w_bounty w = bid) (windows d)) of [] \<Rightarrow> 0 | x # xs \<Rightarrow> foldl max x xs) + 1"

definition mint_reaudit :: "env \<Rightarrow> ident \<Rightarrow> ident \<Rightarrow> ident \<Rightarrow> db \<Rightarrow> db" where
  "mint_reaudit e did sid bid d =
     (case createWindowAuditBatch e bid [sid] d of
        (d1, k) \<Rightarrow>
          (let w = (new_window e bid (next_window_index bid d1) 1 1 0 ''dispute_overturn_reaudit'' d1)\<lparr>w_batch := k\<rparr>;
               d2 = d1\<lparr>windows := windows d1 @ [w], db_seq := Suc (db_seq d1)\<rparr>
           in d2\<lparr>members := members d2 @ [\<lparr>m_id = fresh e d2, m_window = w_id w, m_submission = sid,
                                           m_selected = True, m_rank = ''dispute:'' @ did\<rparr>],
                 db_seq := Suc (db_seq d2)\<rparr>))"

definition overturn_item :: "env \<Rightarrow> dispute_row \<Rightarrow> ident \<Rightarrow> db \<Rightarrow> db option" where
  "overturn_item e x sid d =
     (let d1 = close_flags sid F_dismissed (set_submission (\<lambda>s. s_id s = sid) (ruled_row e Overturn_flag) d);
          its = items_of sid d1
      in if its \<noteq> [] then reopen_items e (di_id x) its d1
         else (case Option.bind (di_bounty x) (\<lambda>k. bounty_by k d1) of
                 None \<Rightarrow> Some d1
               | Some b \<Rightarrow> Some (mint_reaudit e (di_id x) sid (b_id b) d1)))"

definition uphold_item :: "env \<Rightarrow> ident \<Rightarrow> db \<Rightarrow> db" where
  "uphold_item e sid d = close_flags sid F_confirmed (set_submission (\<lambda>s. s_id s = sid) (ruled_row e Uphold_flag) d)"

text \<open>What the ruling does to the disputed item; \<open>None\<close> is a thrown error.\<close>

definition rule_item :: "env \<Rightarrow> dispute_row \<Rightarrow> ruling \<Rightarrow> ident \<Rightarrow> db \<Rightarrow> db option" where
  "rule_item e x r sid d =
     (case submission_by sid d of
        None \<Rightarrow> None
      | Some s \<Rightarrow>
          (case (case r of Overturn_flag \<Rightarrow> overturn_item e x sid d | Uphold_flag \<Rightarrow> Some (uphold_item e sid d)) of
             None \<Rightarrow> None
           | Some d1 \<Rightarrow> map_option fst (recomputeAcceptedItemCounters e (s_bounty s) d1)))"

definition resolve_txn :: "env \<Rightarrow> ident \<Rightarrow> ident \<Rightarrow> ruling \<Rightarrow> string \<Rightarrow> db \<Rightarrow> (db \<times> resolve_result) option" where
  "resolve_txn e admin did r text d =
     (case dispute_by did d of
        None \<Rightarrow> Some (d, Resolve_not_found)
      | Some x \<Rightarrow>
          (if di_status x \<noteq> D_open then Some (d, Resolve_already)
           else let d1 = d\<lparr>disputes := update_where (\<lambda>y. di_id y = did) (resolved_dispute e admin r text) (disputes d)\<rparr>
                in (case di_submission x of
                      None \<Rightarrow> Some (d1, Resolve_done)
                    | Some sid \<Rightarrow> map_option (\<lambda>d2. (d2, Resolve_done)) (rule_item e x r sid d1))))"

section \<open>Facts\<close>

text \<open>Reopening every audit item of a submission.\<close>

definition batches_known :: "ident \<Rightarrow> db \<Rightarrow> bool" where
  "batches_known sid d \<longleftrightarrow> (\<forall>i \<in> set (items_of sid d). batch_by (ai_batch i) d \<noteq> None)"

definition reopen_frame :: "db \<Rightarrow> db \<Rightarrow> bool" where
  "reopen_frame d d' \<longleftrightarrow> members d' = members d \<and> submissions d' = submissions d \<and> bounties d' = bounties d
     \<and> flags d' = flags d \<and> disputes d' = disputes d \<and> kevents d' = kevents d \<and> awards d' = awards d
     \<and> map ab_id (abatches d') = map ab_id (abatches d) \<and> map ai_id (aitems d') = map ai_id (aitems d)"

lemma reopen_frame_refl: "reopen_frame d d"
  by (simp add: reopen_frame_def)

lemma reopen_frame_trans: "reopen_frame d d' \<Longrightarrow> reopen_frame d' d'' \<Longrightarrow> reopen_frame d d''"
  by (simp add: reopen_frame_def)

lemma batch_known: "batch_by k d \<noteq> None \<longleftrightarrow> k \<in> set (map ab_id (abatches d))"
  by (auto simp: batch_by_def find_where_None_iff)

lemma item_known: "find_where (\<lambda>i. ai_id i = k) (aitems d) \<noteq> None \<longleftrightarrow> k \<in> set (map ai_id (aitems d))"
  by (auto simp: find_where_None_iff)

lemma reopen_returns:
  assumes "ai_id i \<in> set (map ai_id (aitems d))" and "batch_by (ai_batch i) d \<noteq> None"
  shows "\<exists>d' r. reopenAuditItemForReview e (ai_id i) (ai_batch i) d = Some (d', r)"
proof -
  have "batch_by (ai_batch i) (d\<lparr>aitems := x\<rparr>) \<noteq> None" for x using assms(2) by (simp add: batch_by_def)
  then show ?thesis using assms(1) item_known [of "ai_id i" d] by (auto simp: reopenAuditItemForReview_def Let_def)
qed

text \<open>A window after the items of some batches were reopened: one that serves such a batch is unsettled; it is
  unclaimed, or keeps its claimant, and every other window is as it was.\<close>

definition reopened_as :: "ident set \<Rightarrow> window_row \<Rightarrow> window_row \<Rightarrow> bool" where
  "reopened_as ks w w' \<longleftrightarrow> w_id w' = w_id w \<and> w_batch w' = w_batch w \<and> w_superseded_at w' = w_superseded_at w
     \<and> (case w_batch w of Some k \<Rightarrow> if k \<in> ks then w_settled_at w' = None \<and> (w_claimed_by w' = None \<or> w_claimed_by w' = w_claimed_by w)
                                    else w' = w
                        | None \<Rightarrow> w' = w)"

lemma reopened_as_trans: "reopened_as A w w' \<Longrightarrow> reopened_as B w' w'' \<Longrightarrow> reopened_as (A \<union> B) w w''"
  by (auto simp: reopened_as_def split: option.splits if_splits)

lemma reopen_one:
  assumes "reopenAuditItemForReview e item batch d = Some (d', r)"
  shows "reopen_frame d d' \<and> list_all2 (reopened_as {batch}) (windows d) (windows d')"
proof -
  obtain pl where d': "d' = set_window (\<lambda>w. w_batch w = Some batch) (reopened_window pl (e_now e))
      (set_batch (\<lambda>b. ab_id b = batch) (reopened_batch pl (e_now e))
        (d\<lparr>aitems := update_where (\<lambda>i. ai_id i = item) cleared_item (aitems d)\<rparr>))"
    using assms by (auto simp: reopenAuditItemForReview_def Let_def split: if_splits)
  have "reopen_frame d d'"
    unfolding d' by (simp add: reopen_frame_def set_window_def set_batch_def map_update_where reopened_batch_def cleared_item_def)
  moreover have "list_all2 (reopened_as {batch}) ws (update_where (\<lambda>w. w_batch w = Some batch) (reopened_window pl (e_now e)) ws)" for ws
    by (induction ws) (auto simp: reopened_as_def reopened_window_def split: option.split)
  ultimately show ?thesis by (simp add: d' set_window_def set_batch_def)
qed

lemma reopen_items_spec:
  assumes "\<forall>i \<in> set its. ai_id i \<in> set (map ai_id (aitems d)) \<and> batch_by (ai_batch i) d \<noteq> None"
  shows "\<exists>d'. reopen_items e did its d = Some d' \<and> reopen_frame d d'
     \<and> list_all2 (reopened_as (ai_batch ` set its)) (windows d) (windows d')"
  using assms
proof (induction its arbitrary: d)
  case Nil
  have "list_all2 (reopened_as {}) ws ws" for ws by (induction ws) (auto simp: reopened_as_def split: option.split)
  then show ?case by (simp add: reopen_frame_refl)
next
  case (Cons i its)
  obtain d1 r where r: "reopenAuditItemForReview e (ai_id i) (ai_batch i) d = Some (d1, r)"
    using reopen_returns [of i d e] Cons.prems by auto
  let ?d1 = "case (ro_pooled r, ro_retained r) of
               (False, Some v) \<Rightarrow> notifyEvent e ''audit.reopened''
                 \<lparr>em_user = v, em_entity = Some (ro_batch r), em_suffix = Some (''dispute:'' @ did @ '':'' @ ai_id i), em_bounty = None\<rparr> d1
             | _ \<Rightarrow> d1"
  note one = reopen_one [OF r]
  have same: "outbox_frame d1 ?d1" by (auto simp: outbox_frame_refl notifyEvent_frame split: bool.split option.split)
  then have fr: "reopen_frame d ?d1" and ws: "windows ?d1 = windows d1" using one unfolding outbox_frame_def reopen_frame_def by auto
  have "\<forall>i \<in> set its. ai_id i \<in> set (map ai_id (aitems ?d1)) \<and> batch_by (ai_batch i) ?d1 \<noteq> None"
    using Cons.prems fr unfolding batch_known reopen_frame_def by simp
  then obtain d' where d': "reopen_items e did its ?d1 = Some d'" "reopen_frame ?d1 d'"
    and w: "list_all2 (reopened_as (ai_batch ` set its)) (windows ?d1) (windows d')"
    using Cons.IH by blast
  have "list_all2 (reopened_as ({ai_batch i} \<union> ai_batch ` set its)) (windows d) (windows d')"
    by (rule list_all2_trans [OF reopened_as_trans conjunct2 [OF one] w [unfolded ws]])
  then show ?case
    using r d' reopen_frame_trans [OF fr d'(2)] by simp
qed

text \<open>The minted window.\<close>

lemma fold_create_item_frame:
  "windows (fold (create_item e k) sids d) = windows d" "members (fold (create_item e k) sids d) = members d"
  "submissions (fold (create_item e k) sids d) = submissions d" "bounties (fold (create_item e k) sids d) = bounties d"
  "flags (fold (create_item e k) sids d) = flags d" "disputes (fold (create_item e k) sids d) = disputes d"
  "kevents (fold (create_item e k) sids d) = kevents d" "awards (fold (create_item e k) sids d) = awards d"
  by (induction sids arbitrary: d) (simp_all add: create_item_def)

definition minted_window :: "env \<Rightarrow> ident \<Rightarrow> db \<Rightarrow> db \<Rightarrow> window_row" where
  "minted_window e bid d d1 = (new_window e bid (next_window_index bid d) 1 1 0 ''dispute_overturn_reaudit'' d1)\<lparr>w_batch := Some (fresh e d)\<rparr>"

lemma mint_spec:
  "\<exists>d1 m. windows (mint_reaudit e did sid bid d) = windows d @ [minted_window e bid d d1]
     \<and> members (mint_reaudit e did sid bid d) = members d @ [m]
     \<and> m_window m = w_id (minted_window e bid d d1) \<and> m_submission m = sid \<and> m_selected m
     \<and> submissions (mint_reaudit e did sid bid d) = submissions d \<and> bounties (mint_reaudit e did sid bid d) = bounties d
     \<and> flags (mint_reaudit e did sid bid d) = flags d \<and> disputes (mint_reaudit e did sid bid d) = disputes d
     \<and> kevents (mint_reaudit e did sid bid d) = kevents d \<and> awards (mint_reaudit e did sid bid d) = awards d"
proof -
  define row where "row = \<lparr>ab_id = fresh e d, ab_bounty = bid, ab_validator = None, ab_count = int (length [sid]),
                      ab_status = ''available'', ab_deadline = None, ab_claimed_at = None, ab_created = e_now e\<rparr>"
  define d1 where "d1 = fold (create_item e (fresh e d)) [sid] (d\<lparr>abatches := abatches d @ [row], db_seq := Suc (db_seq d)\<rparr>)"
  have c: "createWindowAuditBatch e bid [sid] d = (d1, Some (fresh e d))"
    by (simp add: createWindowAuditBatch_def Let_def d1_def row_def)
  have fr: "windows d1 = windows d" "members d1 = members d" "submissions d1 = submissions d" "bounties d1 = bounties d"
    "flags d1 = flags d" "disputes d1 = disputes d" "kevents d1 = kevents d" "awards d1 = awards d"
    unfolding d1_def fold_create_item_frame by simp_all
  have "next_window_index bid d1 = next_window_index bid d" by (simp add: next_window_index_def fr)
  then show ?thesis
    unfolding mint_reaudit_def c prod.case Let_def
    by (intro exI [of _ d1] exI [of _ "\<lparr>m_id = fresh e (d1\<lparr>windows := windows d1 @ [minted_window e bid d d1], db_seq := Suc (db_seq d1)\<rparr>),
        m_window = w_id (minted_window e bid d d1), m_submission = sid, m_selected = True, m_rank = ''dispute:'' @ did\<rparr>"])
      (simp add: minted_window_def fr)
qed

lemma foldl_max_ge: "y \<in> insert (x :: int) (set xs) \<Longrightarrow> y \<le> foldl max x xs"
proof (induction xs arbitrary: x y)
  case Nil
  then show ?case by simp
next
  case (Cons a xs)
  have m: "max x a \<le> foldl max (max x a) xs" by (rule Cons.IH) simp
  show ?case
  proof (cases "y \<in> set xs")
    case True
    then show ?thesis using Cons.IH [of y "max x a"] by simp
  next
    case False
    with Cons.prems m show ?thesis by auto
  qed
qed

lemma next_index_above:
  assumes "w \<in> set (windows d)" and "w_bounty w = bid"
  shows "w_index w < next_window_index bid d"
proof (cases "map w_index (filter (\<lambda>w. w_bounty w = bid) (windows d))")
  case Nil
  with assms show ?thesis by (simp add: filter_empty_conv)
next
  case (Cons x xs)
  have "w_index w \<in> set (map w_index (filter (\<lambda>w. w_bounty w = bid) (windows d)))" using assms by auto
  then have "w_index w \<in> insert x (set xs)" unfolding Cons by simp
  from foldl_max_ge [OF this] show ?thesis by (simp add: next_window_index_def Cons)
qed

text \<open>Rulings on an existing item of an existing bounty.\<close>

definition rule_frame :: "db \<Rightarrow> db \<Rightarrow> bool" where
  "rule_frame d d' \<longleftrightarrow> disputes d' = disputes d \<and> kevents d' = kevents d \<and> awards d' = awards d \<and> bounty_ids d' = bounty_ids d"

lemma ruled_row_id [simp]: "s_id (ruled_row e r s) = s_id s" "s_bounty (ruled_row e r s) = s_bounty s"
  by (cases r; simp add: ruled_row_def)+

definition ruled_submissions :: "env \<Rightarrow> ruling \<Rightarrow> ident \<Rightarrow> db \<Rightarrow> submission_row list" where
  "ruled_submissions e r sid d = update_where (\<lambda>s. s_id s = sid) (ruled_row e r) (submissions d)"

lemma close_flags_none:
  assumes "st \<noteq> F_open"
  shows "count_where (\<lambda>f. fl_submission f = sid \<and> fl_status f = F_open)
    (update_where (\<lambda>f. fl_submission f = sid \<and> fl_status f = F_open) (\<lambda>f. f\<lparr>fl_status := st\<rparr>) fs) = 0"
  using assms by (induction fs) simp_all

lemma recount_tail:
  assumes "bounty_ids d" and "bounty_by k d = Some b"
  shows "\<exists>d'. map_option fst (recomputeAcceptedItemCounters e k d) = Some d' \<and> pool_frame d d'
     \<and> bounty_by k d' = Some (recount_row e (count_submissions k POOL_CAPACITY_STATUSES d) (count_submissions k FINAL_ACCEPTED_STATUSES d) b)"
  using recompute_spec [OF assms, of e] recompute_frame by fastforce

lemma uphold_spec:
  assumes "submission_by sid d = Some s" and "bounty_ids d" and "bounty_by (s_bounty s) d = Some b"
  shows "\<exists>d'. rule_item e x Uphold_flag sid d = Some d' \<and> pool_frame (uphold_item e sid d) d'"
proof -
  have "bounty_ids (uphold_item e sid d)" "bounty_by (s_bounty s) (uphold_item e sid d) = Some b"
    using assms(2,3) by (simp_all add: uphold_item_def close_flags_def set_submission_def bounty_ids_def bounty_by_def)
  from recount_tail [OF this, of e] assms(1) show ?thesis by (auto simp: rule_item_def)
qed

text \<open>An item can be reviewed while a window that is neither settled nor superseded holds it as a selected member:
  by the claimant of the window, or by whoever claims it.\<close>

definition awaits_review :: "ident \<Rightarrow> db \<Rightarrow> bool" where
  "awaits_review sid d \<longleftrightarrow>
     (\<exists>w \<in> set (windows d). w_settled_at w = None \<and> w_superseded_at w = None
        \<and> (\<exists>m \<in> set (members d). m_window m = w_id w \<and> m_submission m = sid \<and> m_selected m))"

text \<open>A window serves the batch of one of the item's audit items.\<close>

definition served :: "ident \<Rightarrow> db \<Rightarrow> bool" where
  "served sid d \<longleftrightarrow>
     (\<exists>i \<in> set (items_of sid d). \<exists>w \<in> set (windows d). w_batch w = Some (ai_batch i) \<and> w_superseded_at w = None
        \<and> (\<exists>m \<in> set (members d). m_window m = w_id w \<and> m_submission m = sid \<and> m_selected m))"

lemma reopened_awaits:
  assumes "list_all2 (reopened_as (ai_batch ` set (items_of sid d))) (windows d) (windows d')" and "members d' = members d"
  shows "awaits_review sid d' \<longleftrightarrow> awaits_review sid d \<or> served sid d"
proof
  assume "awaits_review sid d'"
  then obtain w' m where w': "w' \<in> set (windows d')" "w_settled_at w' = None" "w_superseded_at w' = None"
    and m: "m \<in> set (members d)" "m_window m = w_id w'" "m_submission m = sid" "m_selected m"
    unfolding awaits_review_def assms(2) by blast
  obtain w where w: "w \<in> set (windows d)" "reopened_as (ai_batch ` set (items_of sid d)) w w'"
    using assms(1) w'(1) by (metis in_set_conv_nth list_all2_conv_all_nth)
  show "awaits_review sid d \<or> served sid d"
  proof (cases "w' = w")
    case True
    then show ?thesis using w' w m unfolding awaits_review_def by blast
  next
    case False
    then obtain i where "i \<in> set (items_of sid d)" "w_batch w = Some (ai_batch i)"
      using w(2) by (auto simp: reopened_as_def split: option.splits if_splits)
    moreover have "w_superseded_at w = None" "m_window m = w_id w" using w(2) w'(3) m(2) by (simp_all add: reopened_as_def)
    ultimately show ?thesis using w(1) m unfolding served_def by blast
  qed
next
  have into: "\<exists>w' \<in> set (windows d'). reopened_as (ai_batch ` set (items_of sid d)) w w'" if "w \<in> set (windows d)" for w
    using assms(1) that by (metis in_set_conv_nth list_all2_conv_all_nth)
  assume "awaits_review sid d \<or> served sid d"
  then obtain w m where w: "w \<in> set (windows d)" "w_superseded_at w = None"
      "w_settled_at w = None \<or> (\<exists>i \<in> set (items_of sid d). w_batch w = Some (ai_batch i))"
    and m: "m \<in> set (members d)" "m_window m = w_id w" "m_submission m = sid" "m_selected m"
    unfolding awaits_review_def served_def by blast
  obtain w' where w': "w' \<in> set (windows d')" "reopened_as (ai_batch ` set (items_of sid d)) w w'" using into [OF w(1)] by blast
  have "w_settled_at w' = None" using w(3) w'(2) by (auto simp: reopened_as_def split: option.splits if_splits)
  moreover have "w_superseded_at w' = None" "w_id w' = w_id w" using w'(2) w(2) by (simp_all add: reopened_as_def)
  ultimately show "awaits_review sid d'" using w'(1) m unfolding awaits_review_def assms(2) by (metis (no_types))
qed

lemma overturn_spec:
  assumes "submission_by sid d = Some s" and "batches_known sid d" and "di_bounty x = Some k" and "bounty_by k d = Some b"
  shows "\<exists>d'. overturn_item e x sid d = Some d' \<and> submissions d' = ruled_submissions e Overturn_flag sid d
     \<and> flags d' = flags (close_flags sid F_dismissed d) \<and> bounties d' = bounties d \<and> disputes d' = disputes d
     \<and> kevents d' = kevents d \<and> awards d' = awards d
     \<and> (awaits_review sid d' \<longleftrightarrow> awaits_review sid d \<or> items_of sid d = [] \<or> served sid d)"
proof -
  let ?d1 = "close_flags sid F_dismissed (set_submission (\<lambda>s. s_id s = sid) (ruled_row e Overturn_flag) d)"
  have d1: "submissions ?d1 = ruled_submissions e Overturn_flag sid d" "flags ?d1 = flags (close_flags sid F_dismissed d)"
    "bounties ?d1 = bounties d" "disputes ?d1 = disputes d" "kevents ?d1 = kevents d" "awards ?d1 = awards d"
    "windows ?d1 = windows d" "members ?d1 = members d" "aitems ?d1 = aitems d" "abatches ?d1 = abatches d"
    by (simp_all add: close_flags_def set_submission_def ruled_submissions_def)
  have its: "items_of sid ?d1 = items_of sid d" by (simp add: items_of_def d1)
  show ?thesis
  proof (cases "items_of sid d = []")
    case False
    have "\<forall>i \<in> set (items_of sid d). ai_id i \<in> set (map ai_id (aitems ?d1)) \<and> batch_by (ai_batch i) ?d1 \<noteq> None"
      using assms(2) by (auto simp: batches_known_def items_of_def d1 batch_by_def)
    then obtain d' where r: "reopen_items e (di_id x) (items_of sid d) ?d1 = Some d'" and fr: "reopen_frame ?d1 d'"
      and w: "list_all2 (reopened_as (ai_batch ` set (items_of sid d))) (windows ?d1) (windows d')"
      using reopen_items_spec [of "items_of sid d" ?d1 e "di_id x"] by blast
    have "awaits_review sid d' \<longleftrightarrow> awaits_review sid d \<or> served sid d"
      by (rule reopened_awaits [OF w [unfolded d1]]) (use fr in \<open>simp add: reopen_frame_def d1\<close>)
    then show ?thesis
      using r fr False unfolding overturn_item_def Let_def its reopen_frame_def d1 by auto
  next
    case True
    have b: "bounty_by k ?d1 = Some b" using assms(4) by (simp add: bounty_by_def d1)
    have "overturn_item e x sid d = Some (mint_reaudit e (di_id x) sid (b_id b) ?d1)"
      unfolding overturn_item_def Let_def its using True b assms(3) by simp
    moreover obtain d0 m where ms: "windows (mint_reaudit e (di_id x) sid (b_id b) ?d1) = windows ?d1 @ [minted_window e (b_id b) ?d1 d0]"
      "members (mint_reaudit e (di_id x) sid (b_id b) ?d1) = members ?d1 @ [m]"
      "m_window m = w_id (minted_window e (b_id b) ?d1 d0)" "m_submission m = sid" "m_selected m"
      and fr: "submissions (mint_reaudit e (di_id x) sid (b_id b) ?d1) = submissions ?d1"
      "bounties (mint_reaudit e (di_id x) sid (b_id b) ?d1) = bounties ?d1" "flags (mint_reaudit e (di_id x) sid (b_id b) ?d1) = flags ?d1"
      "disputes (mint_reaudit e (di_id x) sid (b_id b) ?d1) = disputes ?d1"
      "kevents (mint_reaudit e (di_id x) sid (b_id b) ?d1) = kevents ?d1" "awards (mint_reaudit e (di_id x) sid (b_id b) ?d1) = awards ?d1"
      using mint_spec [of e "di_id x" sid "b_id b" ?d1] by blast
    moreover have "w_settled_at (minted_window e (b_id b) ?d1 d0) = None" "w_superseded_at (minted_window e (b_id b) ?d1 d0) = None"
      by (simp_all add: minted_window_def new_window_def)
    ultimately show ?thesis using True unfolding d1 awaits_review_def by auto
  qed
qed

lemma ruled_by:
  assumes "submission_by sid d = Some s" and "submissions d' = ruled_submissions e r sid d"
  shows "submission_by sid d' = Some (ruled_row e r s)"
  using assms by (simp add: submission_by_def ruled_submissions_def find_where_key_update)

lemma dispute_resolved_by:
  "dispute_by did d = Some x \<Longrightarrow> dispute_by did (d\<lparr>disputes := update_where (\<lambda>y. di_id y = did) (resolved_dispute e a r t) (disputes d)\<rparr>)
     = Some (resolved_dispute e a r t x)"
  by (simp add: dispute_by_def find_where_key_update resolved_dispute_def)

text \<open>A ruling that overturns, written out.\<close>

lemma overturn_ruling:
  assumes "dispute_by did d = Some x" and "di_status x = D_open" and "di_submission x = Some sid"
    and "di_bounty x = Some k" and "bounty_by k d = Some b0"
    and "submission_by sid d = Some s" and "bounty_ids d" and "bounty_by (s_bounty s) d = Some b"
    and "batches_known sid d"
  shows "\<exists>d'. resolve_txn e admin did Overturn_flag reason d = Some (d', Resolve_done)
     \<and> submissions d' = ruled_submissions e Overturn_flag sid d \<and> flags d' = flags (close_flags sid F_dismissed d)
     \<and> dispute_by did d' = Some (resolved_dispute e admin Overturn_flag reason x) \<and> kevents d' = kevents d \<and> awards d' = awards d
     \<and> (awaits_review sid d' \<longleftrightarrow> awaits_review sid d \<or> items_of sid d = [] \<or> served sid d)
     \<and> bounty_by (s_bounty s) d' = Some (recount_row e (count_submissions (s_bounty s) POOL_CAPACITY_STATUSES d')
          (count_submissions (s_bounty s) FINAL_ACCEPTED_STATUSES d') b)"
proof -
  let ?d1 = "d\<lparr>disputes := update_where (\<lambda>y. di_id y = did) (resolved_dispute e admin Overturn_flag reason) (disputes d)\<rparr>"
  have a: "submission_by sid ?d1 = Some s" "batches_known sid ?d1" "bounty_by k ?d1 = Some b0"
    "awaits_review sid ?d1 = awaits_review sid d" "items_of sid ?d1 = items_of sid d" "served sid ?d1 = served sid d"
    using assms by (simp_all add: submission_by_def batches_known_def items_of_def batch_by_def bounty_by_def awaits_review_def served_def)
  obtain d2 where o: "overturn_item e x sid ?d1 = Some d2" and s2: "submissions d2 = ruled_submissions e Overturn_flag sid d"
    and f2: "flags d2 = flags (close_flags sid F_dismissed d)" and b2: "bounties d2 = bounties d"
    and e2: "disputes d2 = disputes ?d1" "kevents d2 = kevents d" "awards d2 = awards d"
    and w2: "awaits_review sid d2 \<longleftrightarrow> awaits_review sid d \<or> items_of sid d = [] \<or> served sid d"
    using overturn_spec [OF a(1,2) assms(4) a(3), of e] unfolding a(4-6) by (auto simp: ruled_submissions_def close_flags_def)
  have "bounty_ids d2" "bounty_by (s_bounty s) d2 = Some b"
    using assms(7,8) b2 by (simp_all add: bounty_ids_def bounty_by_def)
  from recount_tail [OF this, of e] obtain d' where r: "map_option fst (recomputeAcceptedItemCounters e (s_bounty s) d2) = Some d'"
    and p: "pool_frame d2 d'" and b': "bounty_by (s_bounty s) d' = Some (recount_row e (count_submissions (s_bounty s) POOL_CAPACITY_STATUSES d2)
          (count_submissions (s_bounty s) FINAL_ACCEPTED_STATUSES d2) b)" by blast
  have "rule_item e x Overturn_flag sid ?d1 = Some d'" using a(1) o r by (simp add: rule_item_def)
  then have "resolve_txn e admin did Overturn_flag reason d = Some (d', Resolve_done)"
    using assms(1-3) by (simp add: resolve_txn_def Let_def)
  moreover have "dispute_by did d' = Some (resolved_dispute e admin Overturn_flag reason x)"
    using p e2(1) dispute_resolved_by [OF assms(1)] by (simp add: dispute_by_def pool_frame_def)
  ultimately show ?thesis
    using p s2 f2 e2 w2 b' pool_frame_count [OF p] by (auto simp: pool_frame_def awaits_review_def)
qed

section \<open>Properties\<close>

text \<open>C13: Overturning a flag resolves the dispute for good: no open flag is left on the item, its status is back in
  audit, and nothing is paid or taken back. And the item can be reviewed afterwards exactly when it could before, or
  it had no audit item (a window is then minted for it), or a window that is not superseded serves the batch of one
  of its audit items and holds it as a selected member. The dispute's pool and item exist, and so do the batches of
  the audit items (foreign keys).\<close>

theorem overturned_item_is_reviewable:
  assumes "dispute_by did d = Some x" and "di_status x = D_open" and "di_submission x = Some sid"
    and "di_bounty x = Some k" and "bounty_by k d = Some b0"
    and "submission_by sid d = Some s" and "bounty_ids d" and "bounty_by (s_bounty s) d = Some b"
    and "batches_known sid d"
  shows "\<exists>d'. resolve_txn e admin did Overturn_flag reason d = Some (d', Resolve_done)
     \<and> (awaits_review sid d' \<longleftrightarrow> awaits_review sid d \<or> items_of sid d = [] \<or> served sid d)
     \<and> submission_by sid d' = Some (s\<lparr>s_status := S_in_audit, s_accepted_at := None, s_updated := e_now e\<rparr>)
     \<and> open_flag sid d' = None \<and> kevents d' = kevents d \<and> awards d' = awards d
     \<and> (\<forall>e' admin' r reason'. resolve_txn e' admin' did r reason' d' = Some (d', Resolve_already))"
proof -
  from overturn_ruling [OF assms, of e admin reason] obtain d' where
    r: "resolve_txn e admin did Overturn_flag reason d = Some (d', Resolve_done)"
    and s: "submissions d' = ruled_submissions e Overturn_flag sid d" and f: "flags d' = flags (close_flags sid F_dismissed d)"
    and x: "dispute_by did d' = Some (resolved_dispute e admin Overturn_flag reason x)"
    and l: "kevents d' = kevents d" "awards d' = awards d"
    and w: "awaits_review sid d' \<longleftrightarrow> awaits_review sid d \<or> items_of sid d = [] \<or> served sid d" by blast
  have s': "submission_by sid d' = Some (ruled_row e Overturn_flag s)" by (rule ruled_by [OF assms(6) s])
  have "open_flag sid d' = None"
    using close_flags_none [of F_dismissed sid "flags d"] f
    by (simp add: open_flag_def close_flags_def find_where_None_iff count_where_0_iff)
  moreover have "resolve_txn e' admin' did r' reason' d' = Some (d', Resolve_already)" for e' admin' r' reason'
    using x by (simp add: resolve_txn_def resolved_dispute_def)
  moreover have "ruled_row e Overturn_flag s = s\<lparr>s_status := S_in_audit, s_accepted_at := None, s_updated := e_now e\<rparr>"
    by (simp add: ruled_row_def)
  ultimately show ?thesis using r s' l w by metis
qed

text \<open>an item whose audit items all belong to batches without a window (batches migrated from the first version have
  none) is put back in audit where nobody can review it: a window is minted only for an item without audit items.\<close>

lemma overturn_strands_migrated_item:
  assumes "dispute_by did d = Some x" and "di_status x = D_open" and "di_submission x = Some sid"
    and "di_bounty x = Some k" and "bounty_by k d = Some b0"
    and "submission_by sid d = Some s" and "bounty_ids d" and "bounty_by (s_bounty s) d = Some b"
    and "batches_known sid d"
    and "items_of sid d \<noteq> []" and "\<forall>i \<in> set (items_of sid d). \<forall>w \<in> set (windows d). w_batch w \<noteq> Some (ai_batch i)"
    and "\<not> awaits_review sid d"
  shows "\<exists>d'. resolve_txn e admin did Overturn_flag reason d = Some (d', Resolve_done)
     \<and> submission_by sid d' = Some (s\<lparr>s_status := S_in_audit, s_accepted_at := None, s_updated := e_now e\<rparr>)
     \<and> \<not> awaits_review sid d'"
proof -
  have "\<not> served sid d" using assms(11) by (auto simp: served_def)
  moreover from overturn_ruling [OF assms(1-9), of e admin reason] obtain d' where
    "resolve_txn e admin did Overturn_flag reason d = Some (d', Resolve_done)"
    "submissions d' = ruled_submissions e Overturn_flag sid d"
    "awaits_review sid d' \<longleftrightarrow> awaits_review sid d \<or> items_of sid d = [] \<or> served sid d" by blast
  moreover from ruled_by [OF assms(6) this(2)] have "submission_by sid d'
      = Some (s\<lparr>s_status := S_in_audit, s_accepted_at := None, s_updated := e_now e\<rparr>)" by (simp add: ruled_row_def)
  ultimately show ?thesis using assms(10,12) by blast
qed

definition disputed_db :: "submission_status \<Rightarrow> db" where
  "disputed_db st = db0\<lparr>users := [user0 ''u1''], bounties := [bounty0 ''b''],
     submissions := [submission0 ''s1'' ''b'' ''u1'' st],
     flags := [\<lparr>fl_id = ''f1'', fl_submission = ''s1'', fl_validator = Some ''v'', fl_reason = FR_off_spec, fl_details = None,
                fl_status = F_open, fl_created = 3\<rparr>],
     disputes := [\<lparr>di_id = ''d1'', di_bounty = Some ''b'', di_submission = Some ''s1'', di_raised_by = Some ''u1'',
                   di_reason = FR_off_spec, di_argument = [], di_status = D_open, di_resolution = None, di_decision = None,
                   di_resolved_by = None, di_created = 4, di_resolved_at = None\<rparr>]\<rparr>"

lemmas disputed_db_simps = disputed_db_def db0_def submission0_def bounty0_def user0_def

text \<open>The flagged item was drawn into a window that has settled; its batch has no owner.\<close>

definition drawn_db :: db where
  "drawn_db = (disputed_db S_disputed)\<lparr>
     windows := [\<lparr>w_id = ''w'', w_bounty = ''b'', w_index = 1, w_eligible = 1, w_quota = 1, w_carry = 0, w_reason = ''full'', w_closed_at = 1,
                  w_settled_at = Some 3, w_failed_at = Some 3, w_rejected = Some 1, w_superseded_at = None, w_superseded_reason = None,
                  w_claimed_by = Some ''v'', w_claimed_at = Some 2, w_expires = None, w_batch = Some ''k''\<rparr>],
     members := [\<lparr>m_id = ''m'', m_window = ''w'', m_submission = ''s1'', m_selected = True, m_rank = ''r''\<rparr>],
     abatches := [\<lparr>ab_id = ''k'', ab_bounty = ''b'', ab_validator = None, ab_count = 1, ab_status = ''completed'', ab_deadline = None,
                   ab_claimed_at = None, ab_created = 1\<rparr>],
     aitems := [\<lparr>ai_id = ''i'', ai_batch = ''k'', ai_submission = ''s1'', ai_verdict = Some V_flagged, ai_reason = Some FR_off_spec,
                 ai_note = None, ai_decided = Some 3\<rparr>]\<rparr>"

theorem overturned_item_is_reviewable_witness:
  "\<not> awaits_review ''s1'' drawn_db
   \<and> (\<exists>d'. resolve_txn (env0 9) ''admin'' ''d1'' Overturn_flag ''wrong reason'' drawn_db = Some (d', Resolve_done)
        \<and> awaits_review ''s1'' d')"
proof -
  let ?x = "\<lparr>di_id = ''d1'', di_bounty = Some ''b'', di_submission = Some ''s1'', di_raised_by = Some ''u1'',
                   di_reason = FR_off_spec, di_argument = [], di_status = D_open, di_resolution = None, di_decision = None,
                   di_resolved_by = None, di_created = 4, di_resolved_at = None\<rparr>"
  note defs = drawn_db_def disputed_db_simps
  have "dispute_by ''d1'' drawn_db = Some ?x" "di_status ?x = D_open" "di_submission ?x = Some ''s1''"
    "di_bounty ?x = Some ''b''" "bounty_by ''b'' drawn_db = Some (bounty0 ''b'')"
    "submission_by ''s1'' drawn_db = Some (submission0 ''s1'' ''b'' ''u1'' S_disputed)"
    "bounty_ids drawn_db"
    "bounty_by (s_bounty (submission0 ''s1'' ''b'' ''u1'' S_disputed)) drawn_db = Some (bounty0 ''b'')"
    "batches_known ''s1'' drawn_db"
    by (simp_all add: dispute_by_def bounty_by_def submission_by_def bounty_ids_def batches_known_def items_of_def batch_by_def defs)
  note o = overturned_item_is_reviewable [OF this, of "env0 9" "''admin''" "''wrong reason''"]
  have "served ''s1'' drawn_db" "\<not> awaits_review ''s1'' drawn_db"
    by (simp_all add: served_def awaits_review_def items_of_def drawn_db_def disputed_db_def)
  then show ?thesis using o by blast
qed

text \<open>Filing a dispute is exact and not exclusive: it is refused for anyone but the contributor and for any item
  that is not flagged or rejected, a filing puts the item in dispute, but two filings whose checks read the same item
  both open a dispute; and an upheld flag rejects the item of the second one whatever its status is by then, an item
  accepted and paid in between included, without reversing anything it earned.\<close>

lemma second_dispute_reverses_acceptance:
  assumes "file_precheck sid user d = Inr (s, b, f)"
  shows "s_contributor s = user \<and> s_status s \<in> {S_flagged, S_rejected}
     \<and> (\<exists>d1 k1 d2 k2. file_txn e s b f user arg d = Some (d1, k1) \<and> file_txn e2 s b f user arg2 d1 = Some (d2, k2)
          \<and> map_option s_status (submission_by sid d2) = Some S_disputed
          \<and> (\<exists>x1 x2. disputes d2 = disputes d @ [x1, x2] \<and> di_status x1 = D_open \<and> di_status x2 = D_open
                \<and> di_submission x1 = Some sid \<and> di_submission x2 = Some sid \<and> di_id x1 = k1 \<and> di_id x2 = k2))
     \<and> (\<forall>did d3 x s3 b3. dispute_by did d3 = Some x \<and> di_status x = D_open \<and> di_submission x = Some sid
          \<and> submission_by sid d3 = Some s3 \<and> bounty_ids d3 \<and> bounty_by (s_bounty s3) d3 = Some b3 \<longrightarrow>
          (\<exists>d4. resolve_txn e admin did Uphold_flag reason d3 = Some (d4, Resolve_done)
             \<and> map_option s_status (submission_by sid d4) = Some S_rejected \<and> kevents d4 = kevents d3 \<and> awards d4 = awards d3))"
proof (intro conjI allI impI)
  show "s_contributor s = user" "s_status s \<in> {S_flagged, S_rejected}"
    using assms by (auto simp: file_precheck_def DISPUTABLE_STATUSES_def split: option.splits if_splits)
next
  have sid: "s_id s = sid" and s: "submission_by sid d = Some s"
    using assms find_where_Some [of "\<lambda>x. s_id x = sid" "submissions d" s]
    by (auto simp: file_precheck_def submission_by_def split: option.splits if_splits)
  have nf: "outbox_frame x (dispute_notices e s b f user k x)" for e k x
    unfolding dispute_notices_def Let_def
    by (auto split: option.split intro!: outbox_frame_trans [OF _ notifyAdminsEvent_frame] intro: outbox_frame_refl notifyEvent_frame outbox_frame_trans)
  have step: "\<exists>x' k y. file_txn e s b f user arg x = Some (x', k) \<and> disputes x' = disputes x @ [y] \<and> di_id y = k
      \<and> di_status y = D_open \<and> di_submission y = Some sid
      \<and> submissions x' = update_where (\<lambda>z. s_id z = sid) (\<lambda>z. z\<lparr>s_status := S_disputed, s_updated := e_now e\<rparr>) (submissions x)"
    if "submission_by sid x \<noteq> None" for e arg x
  proof -
    let ?row = "new_dispute e s f user arg x"
    let ?x1 = "x\<lparr>disputes := disputes x @ [?row], db_seq := Suc (db_seq x)\<rparr>"
    have "submission_by (s_id s) ?x1 \<noteq> None" using that sid by (simp add: submission_by_def)
    moreover have "di_status ?row = D_open" "di_submission ?row = Some sid" by (simp_all add: new_dispute_def sid)
    ultimately show ?thesis
      using nf by (simp add: file_txn_def Let_def sid outbox_frame_def set_submission_def)
  qed
  obtain d1 k1 y1 where t1: "file_txn e s b f user arg d = Some (d1, k1)" "disputes d1 = disputes d @ [y1]" "di_id y1 = k1"
    "di_status y1 = D_open" "di_submission y1 = Some sid"
    and s1: "submissions d1 = update_where (\<lambda>z. s_id z = sid) (\<lambda>z. z\<lparr>s_status := S_disputed, s_updated := e_now e\<rparr>) (submissions d)"
    using step [of d e arg] s by auto
  have b1: "submission_by sid d1 = Some (s\<lparr>s_status := S_disputed, s_updated := e_now e\<rparr>)"
    using s unfolding submission_by_def s1 by (simp add: find_where_key_update)
  obtain d2 k2 y2 where t2: "file_txn e2 s b f user arg2 d1 = Some (d2, k2)" "disputes d2 = disputes d1 @ [y2]" "di_id y2 = k2"
    "di_status y2 = D_open" "di_submission y2 = Some sid"
    and s2: "submissions d2 = update_where (\<lambda>z. s_id z = sid) (\<lambda>z. z\<lparr>s_status := S_disputed, s_updated := e_now e2\<rparr>) (submissions d1)"
    using step [of d1 e2 arg2] b1 by auto
  have "map_option s_status (submission_by sid d2) = Some S_disputed"
    using b1 unfolding submission_by_def s2 by (simp add: find_where_key_update)
  with t1 t2 show "\<exists>d1 k1 d2 k2. file_txn e s b f user arg d = Some (d1, k1) \<and> file_txn e2 s b f user arg2 d1 = Some (d2, k2)
          \<and> map_option s_status (submission_by sid d2) = Some S_disputed
          \<and> (\<exists>x1 x2. disputes d2 = disputes d @ [x1, x2] \<and> di_status x1 = D_open \<and> di_status x2 = D_open
                \<and> di_submission x1 = Some sid \<and> di_submission x2 = Some sid \<and> di_id x1 = k1 \<and> di_id x2 = k2)"
    by auto
next
  fix did d3 x s3 b3
  assume a: "dispute_by did d3 = Some x \<and> di_status x = D_open \<and> di_submission x = Some sid
          \<and> submission_by sid d3 = Some s3 \<and> bounty_ids d3 \<and> bounty_by (s_bounty s3) d3 = Some b3"
  let ?d = "d3\<lparr>disputes := update_where (\<lambda>y. di_id y = did) (resolved_dispute e admin Uphold_flag reason) (disputes d3)\<rparr>"
  have "submission_by sid ?d = Some s3" "bounty_ids ?d" "bounty_by (s_bounty s3) ?d = Some b3"
    using a by (simp_all add: submission_by_def bounty_ids_def bounty_by_def)
  from uphold_spec [OF this, of e x] obtain d4 where r: "rule_item e x Uphold_flag sid ?d = Some d4"
    and p: "pool_frame (uphold_item e sid ?d) d4" by blast
  have "submissions d4 = ruled_submissions e Uphold_flag sid d3" "kevents d4 = kevents d3" "awards d4 = awards d3"
    using p by (simp_all add: pool_frame_def uphold_item_def close_flags_def set_submission_def ruled_submissions_def)
  moreover from this(1) have "submission_by sid d4 = Some (ruled_row e Uphold_flag s3)" using a ruled_by by blast
  ultimately show "\<exists>d4. resolve_txn e admin did Uphold_flag reason d3 = Some (d4, Resolve_done)
             \<and> map_option s_status (submission_by sid d4) = Some S_rejected \<and> kevents d4 = kevents d3 \<and> awards d4 = awards d3"
    using a r by (auto simp: resolve_txn_def Let_def ruled_row_def)
qed

lemma second_dispute_reverses_acceptance_witness:
  "\<exists>d4. resolve_txn (env0 9) ''admin'' ''d1'' Uphold_flag ''upheld'' (disputed_db S_accepted) = Some (d4, Resolve_done)
     \<and> map_option s_status (submission_by ''s1'' d4) = Some S_rejected"
proof -
  have p: "file_precheck ''s1'' ''u1'' (disputed_db S_flagged)
      = Inr (submission0 ''s1'' ''b'' ''u1'' S_flagged, bounty0 ''b'', open_flag ''s1'' (disputed_db S_flagged))"
    by (simp add: file_precheck_def submission_by_def bounty_by_def DISPUTABLE_STATUSES_def disputed_db_simps)
  have "\<exists>x. dispute_by ''d1'' (disputed_db S_accepted) = Some x \<and> di_status x = D_open \<and> di_submission x = Some ''s1''"
    "submission_by ''s1'' (disputed_db S_accepted) = Some (submission0 ''s1'' ''b'' ''u1'' S_accepted)"
    "bounty_ids (disputed_db S_accepted)"
    "bounty_by (s_bounty (submission0 ''s1'' ''b'' ''u1'' S_accepted)) (disputed_db S_accepted) = Some (bounty0 ''b'')"
    by (simp_all add: dispute_by_def submission_by_def bounty_ids_def bounty_by_def disputed_db_simps)
  then show ?thesis
    using second_dispute_reverses_acceptance [OF p, of "env0 9" "[]" "env0 9" "[]" "''admin''" "''upheld''"] by blast
qed

text \<open>A ruling does not look at the pool: overturning a flag on an item of a full pool brings one item more than the
  target into the counted set, past the bound every acceptance keeps; and the window minted for an item without audit
  items becomes the newest window of its pool with remainder zero, so the remainder the last draw carried is lost.\<close>

lemma overturn_ignores_pool:
  assumes "dispute_by did d = Some x" and "di_status x = D_open" and "di_submission x = Some sid"
    and "di_bounty x = Some k" and "bounty_by k d = Some b0"
    and "submission_by sid d = Some s" and "bounty_ids d" and "bounty_by (s_bounty s) d = Some b"
    and "batches_known sid d"
    and "submission_ids d" and "s_status s = S_disputed"
    and "count_submissions (s_bounty s) POOL_CAPACITY_STATUSES d = b_target b"
  shows "(\<exists>d' b'. resolve_txn e admin did Overturn_flag reason d = Some (d', Resolve_done)
          \<and> bounty_by (s_bounty s) d' = Some b' \<and> b_accepted b' = b_target b' + 1 \<and> b_target b' = b_target b)
     \<and> (\<exists>w. prior_window k (mint_reaudit e did sid k d) = Some w
          \<and> dn_quota (draw_of cov n (prior_window k (mint_reaudit e did sid k d))) = int n * cov div 100)"
proof
  from overturn_ruling [OF assms(1-9), of e admin reason] obtain d' where
    r: "resolve_txn e admin did Overturn_flag reason d = Some (d', Resolve_done)"
    and s: "submissions d' = ruled_submissions e Overturn_flag sid d"
    and b': "bounty_by (s_bounty s) d' = Some (recount_row e (count_submissions (s_bounty s) POOL_CAPACITY_STATUSES d')
          (count_submissions (s_bounty s) FINAL_ACCEPTED_STATUSES d') b)" by blast
  have sin: "s \<in> set (submissions d)" "s_id s = sid"
    using find_where_Some [of "\<lambda>x. s_id x = sid" "submissions d" s] assms(6) by (simp_all add: submission_by_def)
  have "count_submissions (s_bounty s) POOL_CAPACITY_STATUSES d' = b_target b + 1"
    using count_update_one [of s_id "submissions d" s sid
        "\<lambda>y. s_bounty y = s_bounty s \<and> s_status y \<in> POOL_CAPACITY_STATUSES" "ruled_row e Overturn_flag"] assms(10-12) sin
    by (simp add: count_submissions_def s ruled_submissions_def submission_ids_def ruled_row_def POOL_CAPACITY_STATUSES_def)
  then show "\<exists>d' b'. resolve_txn e admin did Overturn_flag reason d = Some (d', Resolve_done)
          \<and> bounty_by (s_bounty s) d' = Some b' \<and> b_accepted b' = b_target b' + 1 \<and> b_target b' = b_target b"
    using r b' by auto
next
  obtain d1 m where ws: "windows (mint_reaudit e did sid k d) = windows d @ [minted_window e k d d1]"
    using mint_spec [of e did sid k d] by blast
  have mw: "w_bounty (minted_window e k d d1) = k" "w_index (minted_window e k d d1) = next_window_index k d"
    "w_carry (minted_window e k d d1) = 0" by (simp_all add: minted_window_def new_window_def)
  then obtain w where w: "prior_window k (mint_reaudit e did sid k d) = Some w"
    using prior_window_exists [of "minted_window e k d d1" "mint_reaudit e did sid k d" k] ws by auto
  note pi = prior_window_in [OF w]
  have "next_window_index k d \<le> w_index w" using pi(3) mw ws by auto
  moreover have "w \<in> set (windows d) \<Longrightarrow> w_index w < next_window_index k d" using next_index_above pi(2) by blast
  ultimately have "w = minted_window e k d d1" using pi(1) ws by auto
  then show "\<exists>w. prior_window k (mint_reaudit e did sid k d) = Some w
          \<and> dn_quota (draw_of cov n (prior_window k (mint_reaudit e did sid k d))) = int n * cov div 100"
    using w mw(3) by (simp add: draw_of_def or_else_def Let_def)
qed

definition full_pool :: db where
  "full_pool = (disputed_db S_disputed)\<lparr>bounties := [(bounty0 ''b'')\<lparr>b_target := 1\<rparr>],
     submissions := [submission0 ''s1'' ''b'' ''u1'' S_disputed, submission0 ''s2'' ''b'' ''u2'' S_accepted]\<rparr>"

lemma overturn_ignores_pool_witness:
  "\<exists>d' b'. resolve_txn (env0 9) ''admin'' ''d1'' Overturn_flag ''ok''
       full_pool = Some (d', Resolve_done)
     \<and> bounty_by ''b'' d' = Some b' \<and> b_accepted b' = 2 \<and> b_target b' = 1"
proof -
  let ?d = full_pool
  let ?s = "submission0 ''s1'' ''b'' ''u1'' S_disputed"
  obtain x where "dispute_by ''d1'' ?d = Some x" "di_status x = D_open" "di_submission x = Some ''s1''" "di_bounty x = Some ''b''"
    by (simp add: dispute_by_def full_pool_def disputed_db_simps)
  moreover have "bounty_by ''b'' ?d = Some ((bounty0 ''b'')\<lparr>b_target := 1\<rparr>)" "submission_by ''s1'' ?d = Some ?s" "bounty_ids ?d"
    "bounty_by (s_bounty ?s) ?d = Some ((bounty0 ''b'')\<lparr>b_target := 1\<rparr>)"
    "batches_known ''s1'' ?d" "submission_ids ?d" "s_status ?s = S_disputed"
    "count_submissions (s_bounty ?s) POOL_CAPACITY_STATUSES ?d = b_target ((bounty0 ''b'')\<lparr>b_target := 1\<rparr>)"
    by (simp_all add: bounty_by_def submission_by_def bounty_ids_def batches_known_def items_of_def submission_ids_def
        count_submissions_def POOL_CAPACITY_STATUSES_def full_pool_def disputed_db_simps)
  ultimately obtain d' b' where "resolve_txn (env0 9) ''admin'' ''d1'' Overturn_flag ''ok'' ?d = Some (d', Resolve_done)"
    "bounty_by (s_bounty ?s) d' = Some b'" "b_accepted b' = b_target b' + 1" "b_target b' = b_target ((bounty0 ''b'')\<lparr>b_target := 1\<rparr>)"
    using overturn_ignores_pool [of "''d1''" ?d x "''s1''" "''b''" _ ?s _ "env0 9" "''admin''" "''ok''" 0 0] by metis
  then show ?thesis by (simp add: submission0_def)
qed

end
