(* ===== verification/Pool_Life.thy ===== *)
theory Pool_Life
  imports Validation Disputes
begin

text \<open>
  The slots of a pool over its whole life: the operations of the other theories that move an item into or out
  of the counted set, the sponsor's review of an item (\<open>POST /:id/sponsor-review/:submissionId\<close> of
  \<open>routes/v1/bounties.ts\<close>), and the bound they keep together. The one operation that breaks the bound, the
  overturned flag, is \<open>overturn_ignores_pool\<close> of Disputes.
\<close>

section \<open>The sponsor's review\<close>

datatype review_result =
  Review_done | Review_no_pool | Review_forbidden | Review_no_item | Review_not_waiting | Review_no_note | Review_failed

text \<open>The body's note is trimmed and not empty when present. The checks read outside the transaction.\<close>

definition review_precheck ::
  "ident \<Rightarrow> ident \<Rightarrow> ident \<Rightarrow> bool \<Rightarrow> bool \<Rightarrow> string option \<Rightarrow> db \<Rightarrow> review_result + (bounty_row \<times> submission_row)" where
  "review_precheck bid sid user admin accept note d =
     (case bounty_by bid d of
        None \<Rightarrow> Inl Review_no_pool
      | Some b \<Rightarrow>
          (if b_requester b \<noteq> user \<and> b_community_requester b \<noteq> Some user \<and> \<not> admin then Inl Review_forbidden
           else (case submission_by sid d of
                   None \<Rightarrow> Inl Review_no_item
                 | Some s \<Rightarrow>
                     (if s_bounty s \<noteq> bid then Inl Review_no_item
                      else if s_status s \<noteq> S_in_sponsor_review then Inl Review_not_waiting
                      else if \<not> accept \<and> note = None then Inl Review_no_note
                      else Inr (b, s)))))"

definition reviewed_row :: "env \<Rightarrow> bool \<Rightarrow> submission_row \<Rightarrow> submission_row" where
  "reviewed_row e accept s =
     (if accept then s\<lparr>s_status := S_accepted, s_accepted_at := Some (e_now e), s_updated := e_now e\<rparr>
      else s\<lparr>s_status := S_needs_fixes, s_updated := e_now e\<rparr>)"

text \<open>The transaction, on the rows read before; \<open>None\<close> is a thrown error.\<close>

definition review_txn ::
  "matrix_config \<Rightarrow> env \<Rightarrow> bounty_row \<Rightarrow> submission_row \<Rightarrow> bool \<Rightarrow> string option \<Rightarrow> db \<Rightarrow> db option" where
  "review_txn seed e b s accept note d =
     (if submission_by (s_id s) d = None then None
      else case recomputeAcceptedItemCounters e (b_id b) (set_submission (\<lambda>x. s_id x = s_id s) (reviewed_row e accept) d) of
             None \<Rightarrow> None
           | Some (d1, _) \<Rightarrow>
               (if accept
                then (case awardOrHoldAcceptedItemKarma e None (b_id b) (sampling_award seed e b s) d1 of
                        Inl err \<Rightarrow> None | Inr (d2, _) \<Rightarrow> Some d2)
                else Some (d1\<lparr>flags := flags d1 @ [\<lparr>fl_id = fresh e d1, fl_submission = s_id s, fl_validator = None,
                                 fl_reason = FR_other, fl_details = note, fl_status = F_open, fl_created = e_now e\<rparr>],
                              db_seq := Suc (db_seq d1)\<rparr>)))"

definition review_notice :: "env \<Rightarrow> bounty_row \<Rightarrow> submission_row \<Rightarrow> bool \<Rightarrow> db \<Rightarrow> db" where
  "review_notice e b s accept d =
     (let typ = (if accept then ''submission.accepted'' else ''submission.needs_fixes'')
      in notifyUser e (s_contributor s) typ (Some (typ @ '':'' @ s_id s @ '':sponsor_review:'' @ show_int (s_revisions s)))
           (Some ''Submission'') (Some (s_id s)) (Some (b_id b)) d)"

definition reviewSubmission ::
  "matrix_config \<Rightarrow> env \<Rightarrow> ident \<Rightarrow> ident \<Rightarrow> ident \<Rightarrow> bool \<Rightarrow> bool \<Rightarrow> string option \<Rightarrow> db \<Rightarrow> db \<times> review_result" where
  "reviewSubmission seed e bid sid user admin accept note d =
     (case review_precheck bid sid user admin accept note d of
        Inl r \<Rightarrow> (d, r)
      | Inr (b, s) \<Rightarrow>
          (case review_txn seed e b s accept note d of
             None \<Rightarrow> (d, Review_failed)
           | Some d' \<Rightarrow> (review_notice e b s accept d', Review_done)))"

section \<open>The operations that move slots\<close>

text \<open>Whole calls, and the transactions of calls that read their rows before (\<open>Accepts\<close>, \<open>Reviews\<close>, and the
  writes of \<open>intake_op\<close>), so that other calls come in between.\<close>

datatype pool_event =
    Runs env externals ident int
  | Accepts env submission_row int "real option option"
  | Intake env "real \<Rightarrow> string" intake_op
  | Recounts env ident
  | Checks env ident
  | Closes env ident
  | Reconciles env nat
  | Samples matrix_config env ident
  | Decides matrix_config env ident ident "decision list"
  | Settles env nat
  | Files env ident ident string
  | Rules env ident ident ruling string
  | Reviews matrix_config env bounty_row submission_row bool "string option"

fun pool_step :: "pool_event \<Rightarrow> db \<Rightarrow> db" where
  "pool_step (Runs e x k a) d = fst (runSubmissionValidation e x k a d)"
| "pool_step (Accepts e s a rl) d = (case accept_txn e s a rl d of None \<Rightarrow> d | Some (d', won) \<Rightarrow> d')"
| "pool_step (Intake e num op) d = intake_step e num op d"
| "pool_step (Recounts e k) d = (case recomputeAcceptedItemCounters e k d of None \<Rightarrow> d | Some (d', c) \<Rightarrow> d')"
| "pool_step (Checks e k) d = checkAndClosePoolIfTargetReached e k d"
| "pool_step (Closes e k) d = fst (close_pool_early e k d)"
| "pool_step (Reconciles e n) d = fst (reconcileOpenCommunityPools e n d)"
| "pool_step (Samples seed e k) d = fst (runPoolSamplingJob seed e k d)"
| "pool_step (Decides seed e wid v cs) d = fst (submitAuditDecisions seed e wid v cs d)"
| "pool_step (Settles e n) d = fst (settleDueCommunityPools e n d)"
| "pool_step (Files e sid user argument) d = fst (fileSubmissionDispute e sid user argument d)"
| "pool_step (Rules e admin did r reason) d = (case resolve_txn e admin did r reason d of None \<Rightarrow> d | Some (d', x) \<Rightarrow> d')"
| "pool_step (Reviews seed e b s accept note) d = (case review_txn seed e b s accept note d of None \<Rightarrow> d | Some d' \<Rightarrow> d')"

text \<open>What a row read before says of the row as it is: the pool of an item never changes; and an item that was read
  holding its slot still holds it, which is what the code does not check.\<close>

definition still :: "submission_row \<Rightarrow> db \<Rightarrow> bool" where
  "still s d \<longleftrightarrow> (\<forall>x \<in> set (submissions d). s_id x = s_id s \<longrightarrow>
     s_bounty x = s_bounty s \<and> (s_status s \<in> POOL_CAPACITY_STATUSES \<longrightarrow> s_status x \<in> POOL_CAPACITY_STATUSES))"

fun admissible :: "pool_event \<Rightarrow> db \<Rightarrow> bool" where
  "admissible (Accepts e s a rl) d \<longleftrightarrow> still s d"
| "admissible (Reviews seed e b s accept note) d \<longleftrightarrow> still s d \<and> s_status s = S_in_sponsor_review"
| "admissible (Intake e num op) d \<longleftrightarrow> (case op of Op_insert bid user p dup score \<Rightarrow> fresh e d \<notin> s_id ` set (submissions d) | _ \<Rightarrow> True)"
| "admissible (Rules e admin did r reason) d \<longleftrightarrow> r = Uphold_flag"
| "admissible v d \<longleftrightarrow> True"

fun pool_run :: "pool_event list \<Rightarrow> db \<Rightarrow> db" where
  "pool_run [] d = d"
| "pool_run (v # vs) d = pool_run vs (pool_step v d)"

fun all_admissible :: "pool_event list \<Rightarrow> db \<Rightarrow> bool" where
  "all_admissible [] d \<longleftrightarrow> True"
| "all_admissible (v # vs) d \<longleftrightarrow> admissible v d \<and> all_admissible vs (pool_step v d)"

section \<open>The bound, and what keeps it\<close>

abbreviation holds_slot :: "ident \<Rightarrow> submission_row \<Rightarrow> bool" where
  "holds_slot bid x \<equiv> s_bounty x = bid \<and> s_status x \<in> POOL_CAPACITY_STATUSES"

abbreviation slots_held :: "ident \<Rightarrow> db \<Rightarrow> int" where
  "slots_held bid d \<equiv> count_submissions bid POOL_CAPACITY_STATUSES d"

definition fits :: "ident \<Rightarrow> int \<Rightarrow> db \<Rightarrow> bool" where
  "fits bid T d \<longleftrightarrow> submission_ids d \<and> bounty_ids d
     \<and> (\<exists>b. bounty_by bid d = Some b \<and> b_target b = T \<and> slots_held bid d \<le> b_accepted b \<and> (0 < T \<longrightarrow> b_accepted b \<le> T))"

lemma fits_same: "fits bid T d \<Longrightarrow> submissions d' = submissions d \<Longrightarrow> bounties d' = bounties d \<Longrightarrow> fits bid T d'"
  by (simp add: fits_def submission_ids_def bounty_ids_def bounty_by_def count_submissions_def)

lemma fits_fold: "(\<And>x d. fits bid T d \<Longrightarrow> fits bid T (f x d)) \<Longrightarrow> fits bid T d \<Longrightarrow> fits bid T (fold f xs d)"
  by (induction xs arbitrary: d) simp_all

lemma fits_rows:
  assumes "fits bid T d" and "submissions d' = update_where P f (submissions d)" and "bounties d' = bounties d"
    and "\<And>x. x \<in> set (submissions d) \<Longrightarrow> P x \<Longrightarrow> s_id (f x) = s_id x"
    and "\<And>x. x \<in> set (submissions d) \<Longrightarrow> P x \<Longrightarrow> holds_slot bid (f x) \<Longrightarrow> holds_slot bid x"
  shows "fits bid T d'"
proof -
  have "map s_id (submissions d') = map s_id (submissions d)"
    unfolding assms(2) update_where_def using assms(4) by simp
  moreover have "count_where (\<lambda>x. if P x then holds_slot bid (f x) else holds_slot bid x) (submissions d)
      \<le> count_where (holds_slot bid) (submissions d)"
    by (rule count_where_mono) (use assms(5) in \<open>auto split: if_splits\<close>)
  then have "slots_held bid d' \<le> slots_held bid d" by (simp add: count_submissions_def assms(2) count_update_where)
  ultimately show ?thesis using assms(1,3) by (auto simp: fits_def submission_ids_def bounty_ids_def bounty_by_def)
qed

lemma fits_set:
  assumes "fits bid T d"
    and "\<And>x. x \<in> set (submissions d) \<Longrightarrow> P x \<Longrightarrow> s_id (f x) = s_id x"
    and "\<And>x. x \<in> set (submissions d) \<Longrightarrow> P x \<Longrightarrow> holds_slot bid (f x) \<Longrightarrow> holds_slot bid x"
  shows "fits bid T (set_submission P f d)"
  by (rule fits_rows [OF assms(1) _ _ assms(2,3)]) (simp_all add: set_submission_def)

lemma fits_insert:
  assumes "fits bid T d" and "submissions d' = submissions d @ [s]" and "bounties d' = bounties d"
    and "s_id s \<notin> s_id ` set (submissions d)" and "s_status s \<notin> POOL_CAPACITY_STATUSES"
  shows "fits bid T d'"
  using assms by (auto simp: fits_def submission_ids_def bounty_ids_def bounty_by_def count_submissions_def)

text \<open>Writes of pool rows that keep target and counter.\<close>

definition keeps_slots :: "(bounty_row \<Rightarrow> bounty_row) \<Rightarrow> bool" where
  "keeps_slots f \<longleftrightarrow> (\<forall>x. b_id (f x) = b_id x \<and> b_target (f x) = b_target x \<and> b_accepted (f x) = b_accepted x)"

lemma fits_update_bounty:
  assumes "fits bid T d" and "keeps_slots f"
  shows "fits bid T (update_bounty e P f d)"
proof -
  obtain b where b: "bounty_by bid d = Some b" "b_target b = T" "slots_held bid d \<le> b_accepted b" "0 < T \<longrightarrow> b_accepted b \<le> T"
    using assms(1) by (auto simp: fits_def)
  have "bounty_by bid (update_bounty e P f d) = Some (if P b then (f b)\<lparr>b_updated := e_now e\<rparr> else b)"
    using b(1) assms(2) by (simp add: bounty_by_def update_bounty_def set_bounty_def find_where_update_where keeps_slots_def)
  moreover have "bounty_ids (update_bounty e P f d) = bounty_ids d"
    by (rule update_bounty_ids) (use assms(2) in \<open>simp add: keeps_slots_def\<close>)
  moreover have "slots_held bid (update_bounty e P f d) = slots_held bid d" by (rule count_submissions_cong) simp
  moreover have "b_target (if P b then (f b)\<lparr>b_updated := e_now e\<rparr> else b) = T"
    "b_accepted (if P b then (f b)\<lparr>b_updated := e_now e\<rparr> else b) = b_accepted b"
    using b(2) assms(2) by (simp_all add: keeps_slots_def)
  ultimately show ?thesis
    using assms(1) b(3,4) by (auto simp: fits_def submission_ids_def simp del: if_split_eq1)
qed

lemma fits_enqueue: "fits bid T d \<Longrightarrow> fits bid T (enqueuePoolSampling e k d)"
  by (erule fits_same) simp_all

lemma fits_close_cas: "fits bid T d \<Longrightarrow> fits bid T (fst (close_cas e k d))"
  by (simp add: close_cas_def fits_update_bounty keeps_slots_def close_row_def)

lemma fits_closing: "fits bid T d \<Longrightarrow> close_cas e k d = (d', won) \<Longrightarrow> fits bid T d' \<and> fits bid T (enqueuePoolSampling e k d')"
  using fits_close_cas [of bid T d e k] fits_enqueue by simp

lemma fits_check: "fits bid T d \<Longrightarrow> fits bid T (checkAndClosePoolIfTargetReached e k d)"
  by (auto simp: checkAndClosePoolIfTargetReached_def dest: fits_closing split: option.split prod.split)

lemma fits_close_early:
  assumes "fits bid T d"
  shows "fits bid T (fst (close_pool_early e k d))"
proof -
  have "fits bid T (update_bounty e P (\<lambda>b. b\<lparr>b_sponsor_closed := Some (e_now e)\<rparr>) d)" for P
    by (rule fits_update_bounty [OF assms]) (simp add: keeps_slots_def)
  then show ?thesis using assms by (auto simp: close_pool_early_def Let_def dest: fits_closing split: option.split prod.split)
qed

lemma fits_recount:
  assumes "fits bid T d" and "recomputeAcceptedItemCounters e k d = Some (d', c)"
  shows "fits bid T d'"
proof (cases "k = bid")
  case True
  obtain b where b: "bounty_ids d" "bounty_by bid d = Some b" "b_target b = T" "slots_held bid d \<le> b_accepted b"
      "0 < T \<longrightarrow> b_accepted b \<le> T" using assms(1) by (auto simp: fits_def)
  have f: "pool_frame d d'" by (rule recompute_frame [OF assms(2)])
  have "bounty_by bid d' = Some (recount_row e (slots_held bid d) (count_submissions bid FINAL_ACCEPTED_STATUSES d) b)"
    using recompute_spec [OF b(1,2), of e] assms(2) True by auto
  moreover have "submission_ids d'" using assms(1) f by (simp add: fits_def submission_ids_def pool_frame_def)
  moreover have "0 < T \<longrightarrow> slots_held bid d \<le> T" using b(4,5) by linarith
  ultimately show ?thesis using b(1,3) pool_frame_ids [OF f] pool_frame_count [OF f] by (simp add: fits_def)
next
  case False
  obtain b where b: "bounty_by k d = Some b" using assms(2) by (auto simp: recomputeAcceptedItemCounters_def split: option.splits)
  let ?acc = "count_submissions k POOL_CAPACITY_STATUSES d" and ?fin = "count_submissions k FINAL_ACCEPTED_STATUSES d"
  let ?d1 = "set_counters e k ?acc ?fin b d"
  have "bounty_by bid ?d1 = bounty_by bid d"
    using False update_bounty_other [of bid k "\<lambda>x. x\<lparr>b_accepted := ?acc, b_final_accepted := ?fin\<rparr>" e "\<lambda>x. True" d]
    by (simp add: set_counters_def)
  moreover have "bounty_ids ?d1 = bounty_ids d" by (rule set_counters_ids)
  ultimately have w1: "fits bid T ?d1" using assms(1) by (simp add: fits_def submission_ids_def count_submissions_def)
  have w2: "fits bid T (fst (close_if_full e k a x y))" if "fits bid T y" for a x y
    using that fits_closing [OF that] by (auto simp: close_if_full_def split: prod.split)
  have w3: "fits bid T (fst (reopen_if_room e k a x y))" if "fits bid T y" for a x y
    using fits_update_bounty [OF that, of "reopen_row (auto_settled x)" e] that
    by (simp add: reopen_if_room_def reopen_cas_def keeps_slots_def reopen_row_def Let_def)
  have "d' = fst (reopen_if_room e k ?acc b (fst (close_if_full e k ?acc b ?d1)))"
    using assms(2) b by (simp add: recomputeAcceptedItemCounters_def Let_def case_prod_beta)
  then show ?thesis using w3 [OF w2 [OF w1]] by simp
qed

lemma fits_reconcile: "fits bid T d \<Longrightarrow> fits bid T (fst (reconcile_loop e ps r d))"
proof (induction ps arbitrary: r d)
  case (Cons p ps)
  then show ?case by (auto split: option.split dest: fits_recount)
qed simp

lemma fits_settle_txn: "fits bid T d \<Longrightarrow> fits bid T (fst (settle_txn e b d))"
proof -
  assume a: "fits bid T d"
  have k: "keeps_slots (settle_reopen_row n)" "keeps_slots (settle_row t st n)" "keeps_slots (\<lambda>x. x\<lparr>b_publication := P_pending\<rparr>)" for n t st
    by (simp_all add: keeps_slots_def settle_reopen_row_def settle_row_def)
  have q: "fits bid T (fst (queue_publication e b x))" if "fits bid T x" for x
    using that fits_update_bounty [OF that k(3)] by (simp add: queue_publication_def)
  have r: "fits bid T (update_bounty e P (settle_reopen_row n) d)" for P n by (rule fits_update_bounty [OF a k(1)])
  have s: "fits bid T (fst (queue_publication e b (update_bounty e P (settle_row t st n) d)))" for P t st n
    by (rule q [OF fits_update_bounty [OF a k(2)]])
  show ?thesis unfolding settle_txn_def Let_def using a r s by (simp add: case_prod_beta)
qed

lemma fits_settle_one:
  assumes "fits bid T d"
  shows "fits bid T (fst (settle_one e h b d))"
proof -
  have s: "fits bid T (stamp_window e k d)" for k
    unfolding stamp_window_def by (rule fits_update_bounty [OF assms]) (simp add: keeps_slots_def)
  obtain d' r where x: "settle_txn e b d = (d', r)" by force
  have d': "fits bid T d'" using fits_settle_txn [OF assms, of e b] x by simp
  have "fits bid T (enqueueCommunityPublish e k d')" for k
    by (rule fits_same [OF d']) (simp_all add: enqueueCommunityPublish_def)
  then show ?thesis using assms s d' by (auto simp: settle_one_def x split: option.split settle_result.split bool.split)
qed

lemma fits_settle: "fits bid T d \<Longrightarrow> fits bid T (fst (settle_loop e h bs o1 d))"
proof (induction bs arbitrary: o1 d)
  case (Cons b bs)
  then show ?case using fits_settle_one [OF Cons.prems, of e h b] by (auto split: prod.split)
qed simp

subsection \<open>Sampling and audits\<close>

definition all_hold :: "ident list \<Rightarrow> db \<Rightarrow> bool" where
  "all_hold ids d \<longleftrightarrow> (\<forall>x \<in> set (submissions d). s_id x \<in> set ids \<longrightarrow> s_status x \<in> POOL_CAPACITY_STATUSES)"

lemma fits_set_status:
  assumes "fits bid T d" and "all_hold ids d" and "\<And>x. s_id (f x) = s_id x \<and> s_bounty (f x) = s_bounty x"
  shows "fits bid T (set_status e ids f d)"
  unfolding set_status_def by (rule fits_set [OF assms(1)]) (use assms(2,3) in \<open>auto simp: all_hold_def\<close>)

lemma all_hold_set_status:
  assumes "all_hold ids d" and "\<And>x. s_id (f x) = s_id x \<and> s_status (f x) \<in> POOL_CAPACITY_STATUSES"
  shows "all_hold ids (set_status e js f d)"
  using assms by (auto simp: all_hold_def set_update_where)

lemma all_hold_subset: "all_hold ids d \<Longrightarrow> set js \<subseteq> set ids \<Longrightarrow> all_hold js d"
  by (auto simp: all_hold_def)

lemma all_hold_cong: "all_hold ids d \<Longrightarrow> submissions d' = submissions d \<Longrightarrow> all_hold ids d'"
  by (simp add: all_hold_def)

lemma eligible_hold:
  assumes "submission_ids d"
  shows "all_hold (map s_id (eligible_items k d)) d"
proof -
  have "x = y" if "x \<in> set (submissions d)" "y \<in> set (submissions d)" "s_id x = s_id y" for x y
    using assms that by (auto simp: submission_ids_def distinct_map inj_on_def)
  then show ?thesis by (fastforce simp: all_hold_def eligible_items_def POOL_CAPACITY_STATUSES_def)
qed

lemma status_rows [simp]:
  "s_id (to_audit_row x) = s_id x" "s_bounty (to_audit_row x) = s_bounty x" "s_status (to_audit_row x) = S_in_audit"
  "s_id (to_sponsor_row x) = s_id x" "s_bounty (to_sponsor_row x) = s_bounty x" "s_status (to_sponsor_row x) = S_in_sponsor_review"
  "s_id (to_accepted_row t x) = s_id x" "s_bounty (to_accepted_row t x) = s_bounty x" "s_status (to_accepted_row t x) = S_accepted"
  by (simp_all add: to_audit_row_def to_sponsor_row_def to_accepted_row_def)

lemma drawn_subset: "set (ordered_selected e k wid q es) \<subseteq> s_id ` set es"
  by (auto simp: ordered_selected_def ranked_clean_def randomly_selected_def Let_def)

lemma fits_window_frame: "fits bid T d \<Longrightarrow> window_frame d d' \<Longrightarrow> fits bid T d'"
  by (erule fits_same) (simp_all add: window_frame_def)

lemma fits_accept_unselected:
  assumes "fits bid T d" and "all_hold (map s_id ss) d" and "accept_unselected seed e b ss d = Inr d'"
  shows "fits bid T d'"
proof (cases "ss = []")
  case False
  then obtain d1 c where r: "recomputeAcceptedItemCounters e (b_id b) (set_status e (map s_id ss) (to_accepted_row (e_now e)) d) = Some (d1, c)"
    and a: "award_all seed e b ss d1 = Inr d'" using assms(3) by (auto simp: accept_unselected_def split: option.splits)
  have "fits bid T (set_status e (map s_id ss) (to_accepted_row (e_now e)) d)"
    by (rule fits_set_status [OF assms(1,2)]) simp
  then have "fits bid T d1" using r by (rule fits_recount)
  then show ?thesis using award_all_frame [OF a] by (auto simp: award_frame_def intro: fits_same)
qed (use assms in \<open>simp add: accept_unselected_def\<close>)

lemma fits_sample_windows:
  assumes "fits bid T d" and "all_hold (map s_id es) d" and "sample_windows seed e b es d = Inr (d', r, ns)"
  shows "fits bid T d'"
proof -
  obtain d1 wids chunks where ow: "open_windows e b es d = (d1, wids, chunks)" by (cases "open_windows e b es d")
  define un where "un = filter (\<lambda>s. s_id s \<notin> set (concat chunks)) es"
  define d3 where "d3 = fold (create_member e (b_id b) False) (map (\<lambda>s. (hd wids, s_id s)) un)
                          (fold (create_member e (b_id b) True) (selected_pairs wids chunks) d1)"
  define d4 where "d4 = (if concat chunks = [] then d3
     else fold (link_batch e (b_id b)) (zip wids chunks) (set_status e (concat chunks) to_audit_row d3))"
  have f3: "window_frame d d3"
    unfolding d3_def
    by (rule window_frame_trans [OF open_windows_spec(1) [OF ow]], rule window_frame_trans)
      (rule window_frame_fold, rule create_member_frame)+
  have h3: "fits bid T d3" "all_hold (map s_id es) d3"
    using fits_window_frame [OF assms(1) f3] all_hold_cong [OF assms(2)] f3 by (simp_all add: window_frame_def)
  have sub: "set (concat chunks) \<subseteq> set (map s_id es)"
    using open_windows_spec(5) [OF ow] drawn_subset by (simp add: drawn_ids_def)
  have s4: "fits bid T (set_status e (concat chunks) to_audit_row d3)" "all_hold (map s_id es) (set_status e (concat chunks) to_audit_row d3)"
    using fits_set_status [OF h3(1) all_hold_subset [OF h3(2) sub]] all_hold_set_status [OF h3(2)]
    by (simp_all add: POOL_CAPACITY_STATUSES_def)
  have f4: "window_frame x (fold (link_batch e (b_id b)) ps x)" for ps x
    by (rule window_frame_fold) (rule link_batch_frame)
  have h4: "fits bid T d4" "all_hold (map s_id es) d4"
    using h3 fits_window_frame [OF s4(1) f4] all_hold_cong [OF s4(2)] f4 by (auto simp: d4_def window_frame_def)
  obtain d5 where a5: "accept_unselected seed e b un d4 = Inr d5" and d': "d' = sampling_done e (b_id b) d5"
    using assms(3) unfolding sample_windows_def ow Let_def prod.case un_def [symmetric] d3_def [symmetric] d4_def [symmetric]
    by (auto split: sum.splits)
  have "all_hold (map s_id un) d4" by (rule all_hold_subset [OF h4(2)]) (auto simp: un_def)
  then have "fits bid T d5" using fits_accept_unselected [OF h4(1) _ a5] by blast
  then show ?thesis unfolding d' sampling_done_def by (rule fits_update_bounty) (simp add: keeps_slots_def)
qed

lemma fits_sampling:
  assumes "fits bid T d" and "sampling_txn seed e k d = Inr (d', r, ns)"
  shows "fits bid T d'"
proof (cases "bounty_by k d")
  case (Some b)
  let ?d1 = "update_bounty e (\<lambda>x. b_id x = k \<and> b_sampling_completed x = None)
               (\<lambda>x. x\<lparr>b_sampling_started := Some (or_else (b_sampling_started b) (e_now e))\<rparr>) d"
  let ?es = "eligible_items k ?d1"
  have d1: "fits bid T ?d1" by (rule fits_update_bounty [OF assms(1)]) (simp add: keeps_slots_def)
  then have h: "all_hold (map s_id ?es) ?d1" by (intro eligible_hold) (simp add: fits_def)
  have dn: "fits bid T (sampling_done e j x)" if "fits bid T x" for j x
    unfolding sampling_done_def by (rule fits_update_bounty [OF that]) (simp add: keeps_slots_def)
  have sp: "fits bid T (set_status e (map s_id ?es) to_sponsor_row ?d1)"
    by (rule fits_set_status [OF d1 h]) simp
  from assms(2) Some consider "d' = d" | "d' = sampling_done e k ?d1"
    | "d' = sampling_done e (b_id b) (set_status e (map s_id ?es) to_sponsor_row ?d1)"
    | "sample_windows seed e b ?es ?d1 = Inr (d', r, ns)"
    by (auto simp: sampling_txn_def Let_def sample_to_sponsor_def split: if_splits)
  then show ?thesis using assms(1) dn [OF d1] dn [OF sp] fits_sample_windows [OF d1 h] by cases auto
qed (use assms in \<open>simp add: sampling_txn_def\<close>)

lemma fits_sampling_job: "fits bid T d \<Longrightarrow> fits bid T (fst (runPoolSamplingJob seed e k d))"
proof -
  assume a: "fits bid T d"
  have n: "fits bid T (fold (send_note e) ns x)" if "fits bid T x" for ns x
  proof (rule fits_fold [OF _ that])
    show "fits bid T y \<Longrightarrow> fits bid T (send_note e m y)" for m y by (cases m) (auto intro: fits_same)
  qed
  then show ?thesis
    using a fits_sampling [OF a] by (auto simp: runPoolSamplingJob_def split: sum.split)
qed

lemma fits_decision_frame:
  assumes "fits bid T d" and "decision_frame d d'" and "submissions d' = submissions d"
  shows "fits bid T d'"
  by (rule fits_same [OF assms(1,3)]) (use assms(2) in \<open>simp add: decision_frame_def\<close>)

lemma fits_decide_one:
  assumes "fits bid T d" and "decide_one seed e b w v x (d, acc) = Inr (d', acc')"
  shows "fits bid T d'"
proof -
  obtain c m s where x: "x = (c, m, s)" by (cases x)
  show ?thesis
  proof (cases "open_item (s_id s) d")
    case True
    let ?d0 = "d\<lparr>submissions := decide_rows e c (s_id s) (submissions d)\<rparr>"
    have d0: "fits bid T ?d0"
      by (rule fits_rows [OF assms(1), of _ "\<lambda>y. s_id y = s_id s \<and> s_status y = S_in_audit" "decided_row e (dc_verdict c)"])
        (auto simp: decide_rows_def decided_row_def POOL_CAPACITY_STATUSES_def)
    from decide_one_open [OF True assms(2) [unfolded x]]
    have "decision_frame d d'" "submissions d' = decide_rows e c (s_id s) (submissions d)" by auto
    then show ?thesis by (intro fits_same [OF d0]) (simp_all add: decision_frame_def)
  next
    case False
    with decide_one_skip [OF False, of seed e b w v c m acc] assms show ?thesis by (simp add: x)
  qed
qed

lemma fits_decide_all: "fits bid T d \<Longrightarrow> decide_all seed e b w v xs (d, acc) = Inr (d', acc') \<Longrightarrow> fits bid T d'"
proof (induction xs arbitrary: d acc)
  case (Cons x xs)
  obtain d1 acc1 where o: "decide_one seed e b w v x (d, acc) = Inr (d1, acc1)" "decide_all seed e b w v xs (d1, acc1) = Inr (d', acc')"
    using Cons.prems(2) by (auto split: sum.splits)
  show ?case by (rule Cons.IH [OF fits_decide_one [OF Cons.prems(1) o(1)] o(2)])
qed simp

lemma fits_decisions:
  assumes "fits bid T d"
  shows "fits bid T (fst (submitAuditDecisions seed e wid v cs d))"
proof -
  have "fits bid T d1" if "decisions_txn seed e b w v xs d = Inr (d1, acc)" for b w xs d1 acc
  proof -
    obtain d2 d3 where d2: "decide_all seed e b w v xs (d, no_decisions) = Inr (d2, acc)"
      and d3: "count_audits e (b_id b) v (df_applied acc) d2 = Inr d3" and d1: "d1 = settle_window e b w d3"
      using \<open>decisions_txn seed e b w v xs d = Inr (d1, acc)\<close> by (auto simp: decisions_txn_def split: sum.splits)
    have "fits bid T (d2\<lparr>ranks := q\<rparr>)" "fits bid T d2" for q
      using fits_decide_all [OF assms d2] by (auto intro: fits_same)
    then have "fits bid T d3" using d3 by (auto simp: count_audits_def split: if_splits option.splits dest: fits_recount)
    then show ?thesis unfolding d1 by (rule fits_same) (simp_all add: settle_window_def set_window_def)
  qed
  moreover have "fits bid T (send_decision_notes e k ns x)" if "fits bid T x" for k ns x
    using that send_decision_notes_frame [of x e k ns] by (auto simp: outbox_frame_def intro: fits_same)
  ultimately show ?thesis using assms by (auto simp: submitAuditDecisions_def split: sum.split prod.split)
qed

subsection \<open>Intake, revisions and disputes\<close>

lemma fits_intake:
  assumes "fits bid T d" and "admissible (Intake e num op) d"
  shows "fits bid T (intake_step e num op d)"
proof (cases op)
  case (Op_insert k user p dup score)
  note sp = insert_item_spec [where e = e and num = num and bid = k and user = user and p = p and dup = dup and score = score and d = d]
  have "s_status (snd (insert_item e num k user p dup score d)) \<notin> POOL_CAPACITY_STATUSES"
    using sp(7) by (auto simp: POOL_CAPACITY_STATUSES_def)
  then show ?thesis
    unfolding Op_insert intake_step.simps using fits_insert [OF assms(1) sp(1) sp(9)] sp(2) assms(2) Op_insert by simp
next
  case (Op_claim user cap k)
  show ?thesis unfolding Op_claim intake_step.simps claim_revision_def fst_conv by (rule fits_set [OF assms(1)]) simp_all
next
  case (Op_refuse user cap s b)
  let ?d1 = "set_submission (\<lambda>y. s_id y = s_id s) (\<lambda>y. y\<lparr>s_status := S_rejected, s_updated := e_now e\<rparr>) d"
  have d1: "fits bid T ?d1" by (rule fits_set [OF assms(1)]) (simp_all add: POOL_CAPACITY_STATUSES_def)
  have n: "fits bid T (notifyEvent e ty i x)" if "fits bid T x" for ty i x by (rule fits_same [OF that]) simp_all
  have "\<exists>x. (x = d \<or> x = ?d1) \<and> submissions (fst (refuse_revision e user cap s b d)) = submissions x
      \<and> bounties (fst (refuse_revision e user cap s b d)) = bounties x"
    by (auto simp: refuse_revision_def Let_def split: option.split)
  then show ?thesis unfolding Op_refuse intake_step.simps using assms(1) d1 fits_same by blast
next
  case (Op_finish s evd p n)
  let ?d1 = "snapshot_revision e s evd n d"
  have d1: "fits bid T ?d1" by (rule fits_same [OF assms(1)]) (simp_all add: snapshot_revision_def)
  have w: "fits bid T (fst (write_revision e s p k ?d1))" for k
  proof (cases "submission_by (s_id s) ?d1")
    case (Some x)
    then have "s_id x = s_id s" using find_where_Some [of "\<lambda>x. s_id x = s_id s" "submissions ?d1" x] by (simp add: submission_by_def)
    then show ?thesis
      using Some by (auto simp: write_revision_def Let_def revised_row_def collided_row_def POOL_CAPACITY_STATUSES_def intro!: fits_set [OF d1])
  qed (use d1 in \<open>simp add: write_revision_def\<close>)
  have "submissions (fst (finish_revision e num s evd p n d)) = submissions (fst (write_revision e s p (computeDedupeKey e num p) ?d1))"
    "bounties (fst (finish_revision e num s evd p n d)) = bounties (fst (write_revision e s p (computeDedupeKey e num p) ?d1))"
    by (auto simp: finish_revision_def split: prod.split option.split)
  then show ?thesis unfolding Op_finish intake_step.simps using w fits_same by blast
next
  case (Op_rerun s)
  have "fits bid T (set_submission (rerun_claims s) (rerun_row e) d)"
    by (rule fits_set [OF assms(1)]) (simp_all add: rerun_row_def POOL_CAPACITY_STATUSES_def)
  then show ?thesis
    unfolding Op_rerun intake_step.simps using assms(1)
    by (auto simp: rerun_write_def split: option.split intro: fits_same)
qed

lemma fits_filing:
  assumes "fits bid T d"
  shows "fits bid T (fst (fileSubmissionDispute e sid user argument d))"
proof -
  have n: "fits bid T (dispute_notices e s b f user k x)" if "fits bid T x" for s b f k x
    by (rule fits_same [OF that]) (auto simp: dispute_notices_def Let_def split: option.split)
  have "fits bid T d'" if "file_txn e s b f user argument d = Some (d', k)" for s b f d' k
  proof -
    let ?d1 = "d\<lparr>disputes := disputes d @ [new_dispute e s f user argument d], db_seq := Suc (db_seq d)\<rparr>"
    have "fits bid T ?d1" by (rule fits_same [OF assms]) simp_all
    then have "fits bid T (set_submission (\<lambda>x. s_id x = s_id s) (\<lambda>x. x\<lparr>s_status := S_disputed, s_updated := e_now e\<rparr>) ?d1)"
      by (rule fits_set) (simp_all add: POOL_CAPACITY_STATUSES_def)
    from n [OF this] that show ?thesis by (auto simp: file_txn_def Let_def split: if_splits)
  qed
  then show ?thesis using assms by (auto simp: fileSubmissionDispute_def split: sum.split option.split)
qed

lemma fits_uphold:
  assumes "fits bid T d" and "resolve_txn e admin did Uphold_flag reason d = Some (d', r)"
  shows "fits bid T d'"
proof -
  have up: "fits bid T (uphold_item e sid x)" if "fits bid T x" for sid x
  proof -
    have "fits bid T (set_submission (\<lambda>s. s_id s = sid) (ruled_row e Uphold_flag) x)"
      by (rule fits_set [OF that]) (simp_all add: ruled_row_def POOL_CAPACITY_STATUSES_def)
    then show ?thesis unfolding uphold_item_def by (rule fits_same) (simp_all add: close_flags_def)
  qed
  have ru: "fits bid T y" if "rule_item e z Uphold_flag sid x = Some y" "fits bid T x" for z sid x y
    using that(1) fits_recount [OF up [OF that(2)]] by (auto simp: rule_item_def split: option.splits)
  have "fits bid T (d\<lparr>disputes := q\<rparr>)" for q by (rule fits_same [OF assms(1)]) simp_all
  then show ?thesis using assms ru by (auto simp: resolve_txn_def Let_def split: option.splits if_splits)
qed

lemma fits_review:
  assumes "fits bid T d" and "still s d" and "s_status s = S_in_sponsor_review" and "review_txn seed e b s accept note d = Some d'"
  shows "fits bid T d'"
proof -
  let ?d0 = "set_submission (\<lambda>x. s_id x = s_id s) (reviewed_row e accept) d"
  have "holds_slot bid x" if "x \<in> set (submissions d)" "s_id x = s_id s" "s_bounty x = bid" for x
    using assms(2,3) that by (auto simp: still_def POOL_CAPACITY_STATUSES_def)
  then have d0: "fits bid T ?d0"
    by (intro fits_set [OF assms(1)]) (auto simp: reviewed_row_def split: if_splits)
  obtain d1 c where r: "recomputeAcceptedItemCounters e (b_id b) ?d0 = Some (d1, c)"
    using assms(4) by (auto simp: review_txn_def split: if_splits option.splits)
  have d1: "fits bid T d1" by (rule fits_recount [OF d0 r])
  show ?thesis
  proof (cases accept)
    case True
    then obtain q where "awardOrHoldAcceptedItemKarma e None (b_id b) (sampling_award seed e b s) d1 = Inr (d', q)"
      using assms(4) r by (auto simp: review_txn_def split: if_splits sum.splits)
    from award_or_hold_frame [OF this] show ?thesis by (auto simp: award_frame_def intro: fits_same [OF d1])
  next
    case False
    then show ?thesis using assms(4) r by (auto simp: review_txn_def split: if_splits intro!: fits_same [OF d1])
  qed
qed

subsection \<open>Validation\<close>

lemma fits_accept:
  assumes "fits bid T d" and "still s d" and "accept_txn e s a rl d = Some (d', won)"
  shows "fits bid T d'"
proof -
  obtain d1 w where r: "resolvePoolAcceptance s a d = (d1, w)" by force
  let ?f = "\<lambda>y. (accepted_row s rl w y)\<lparr>s_updated := e_now e\<rparr>"
  have d': "d' = set_submission (\<lambda>y. s_id y = s_id s) ?f d1"
    using assms(3) r by (auto simp: accept_txn_def write_row_def split: option.splits if_splits)
  have f: "s_id (?f y) = s_id y" "s_bounty (?f y) = s_bounty y"
    "s_status (?f y) = (if w then S_accepted_pending_sample else S_rejected)" for y
    by (simp_all add: accepted_row_def settle_scores_def split: option.split)
  have no: "fits bid T d'" if "d1 = d" "w \<Longrightarrow> s_status s = S_accepted_pending_sample"
    unfolding d' that(1) by (rule fits_set [OF assms(1)])
      (use f that(2) assms(2) in \<open>auto simp: still_def POOL_CAPACITY_STATUSES_def split: if_splits\<close>)
  from r consider (same) "d1 = d" "w \<Longrightarrow> s_status s = S_accepted_pending_sample" | (gate) "claimPoolAcceptanceSlot (s_bounty s) d = (d1, w)"
    by (auto simp: resolvePoolAcceptance_def split: if_splits)
  then show ?thesis
  proof cases
    case gate
    obtain b where b: "bounty_ids d" "submission_ids d" "bounty_by bid d = Some b" "b_target b = T"
        "slots_held bid d \<le> b_accepted b" "0 < T \<longrightarrow> b_accepted b \<le> T"
      using assms(1) by (auto simp: fits_def)
    have g: "submissions d1 = submissions d" "bounty_ids d1"
      using gate b(1) by (auto simp: claimPoolAcceptanceSlot_def set_bounty_def bounty_ids_def map_update_where)
    show ?thesis
    proof (cases "s_bounty s = bid")
      case True
      note sp = claim_spec [OF b(1) b(3), folded True, unfolded gate fst_conv snd_conv]
      show ?thesis
      proof (cases w)
        case False
        then have "d1 = d" using sp(1,4) by blast
        then show ?thesis using no False by simp
      next
        case won: True
        obtain x where "submission_by (s_id s) d1 = Some x"
          using assms(3) r by (cases "submission_by (s_id s) d1") (simp_all add: accept_txn_def write_row_def)
        then have x: "x \<in> set (submissions d)" "s_id x = s_id s"
          using find_where_Some [of "\<lambda>x. s_id x = s_id s" "submissions d" x] g(1) by (simp_all add: submission_by_def)
        have "slots_held bid d' \<le> slots_held bid d + 1"
          using count_update_one [of s_id "submissions d" x "s_id s" "holds_slot bid" ?f] b(2) x g(1)
          by (simp add: d' count_submissions_def set_submission_def submission_ids_def)
        moreover have "bounty_by bid d' = Some (b\<lparr>b_accepted := b_accepted b + 1\<rparr>)"
          using sp(1,2) won by (simp add: d' True)
        moreover have "submission_ids d'"
          using b(2) g(1) f(1) by (simp add: d' submission_ids_def set_submission_def map_update_where)
        moreover have "0 < T \<longrightarrow> b_accepted b < T" using sp(1) won b(4) by auto
        ultimately show ?thesis using b(4,5) g(2) by (auto simp: fits_def d')
      qed
    next
      case False
      have "bounty_by bid d1 = bounty_by bid d"
      proof -
        have "d1 = set_bounty (slot_free (s_bounty s)) (\<lambda>b. b\<lparr>b_accepted := b_accepted b + 1\<rparr>) d"
          using gate by (simp add: claimPoolAcceptanceSlot_def)
        then have "bounty_by bid d1 = map_option (\<lambda>x. if slot_free (s_bounty s) x then x\<lparr>b_accepted := b_accepted x + 1\<rparr> else x) (bounty_by bid d)"
          by (simp add: bounty_by_def set_bounty_def find_where_update_where)
        moreover have "\<not> slot_free (s_bounty s) b" using False bounty_by_id [OF b(3)] by (simp add: slot_free_def)
        ultimately show ?thesis using b(3) by simp
      qed
      then have d1: "fits bid T d1"
        using assms(1) g by (simp add: fits_def submission_ids_def count_submissions_def)
      show ?thesis unfolding d'
        by (rule fits_set [OF d1]) (use f(1,2) assms(2) False g(1) in \<open>auto simp: still_def\<close>)
    qed
  qed (use no in blast)
qed

lemma fits_add_result: "fits bid T d \<Longrightarrow> fits bid T (add_result e k a st p sc oc d)"
  by (erule fits_same) simp_all

lemma fits_tell: "fits bid T d \<Longrightarrow> fits bid T (tell_stages e s a sts d)" "fits bid T d \<Longrightarrow> fits bid T (tell_user e ty s d)"
  by (erule fits_same; simp)+

lemma still_cong: "still s d \<Longrightarrow> submissions d' = submissions d \<Longrightarrow> still s d'"
  by (simp add: still_def)

lemma fits_write_row:
  assumes "fits bid T d" and "write_row e k f d = Some d'"
    and "\<And>y. s_id (f y) = s_id y" and "\<And>y. s_status (f y) \<notin> POOL_CAPACITY_STATUSES"
  shows "fits bid T d'"
proof -
  have "d' = set_submission (\<lambda>y. s_id y = k) (\<lambda>y. (f y)\<lparr>s_updated := e_now e\<rparr>) d"
    using assms(2) by (auto simp: write_row_def split: option.splits if_splits)
  then show ?thesis using fits_set [OF assms(1), of "\<lambda>y. s_id y = k" "\<lambda>y. (f y)\<lparr>s_updated := e_now e\<rparr>"] assms(3,4) by simp
qed

lemma fits_finish:
  assumes "fits bid T d" and "still s d"
  shows "fits bid T (fst (finish_run e s a rl lost ws d))"
proof (cases "accept_txn e s a rl d")
  case (Some p)
  then obtain d1 won where t: "accept_txn e s a rl d = Some (d1, won)" by (cases p) simp
  note d1 = fits_accept [OF assms t]
  show ?thesis using d1 t by (cases won) (simp_all add: finish_run_def fits_check fits_tell fits_add_result)
qed (use assms in \<open>simp add: finish_run_def\<close>)

lemma fits_after_execution:
  assumes "fits bid T d" and "still s d"
  shows "fits bid T (fst (after_execution e x s a ex d))"
proof (cases ex)
  case (Exec_done passed score)
  show ?thesis
  proof (cases passed)
    case True
    obtain d1 llm step where l: "llm_stage e x s a d = (d1, llm, step)" by (metis prod_cases3)
    then have sb: "submissions d1 = submissions d" "bounties d1 = bounties d"
      by (auto simp: llm_stage_def split: if_splits option.splits prod.splits)
    show ?thesis
      using fits_finish [OF fits_same [OF assms(1) sb] still_cong [OF assms(2) sb(1)]] True l by (simp add: after_execution_def Exec_done)
  next
    case False
    have "fits bid T d1" if "write_row e (s_id s) (\<lambda>y. y\<lparr>s_status := S_tests_failed\<rparr>) d = Some d1" for d1
      by (rule fits_write_row [OF assms(1) that]) (simp_all add: POOL_CAPACITY_STATUSES_def)
    then show ?thesis
      using False assms(1) by (auto simp: after_execution_def Exec_done fits_tell split: option.split)
  qed
qed (simp add: after_execution_def fits_finish [OF assms])

lemma fits_validate:
  assumes "fits bid T d" and "still s d"
  shows "fits bid T (fst (validate_rows e x s b a d))"
proof -
  let ?dec = "dedupe_decision_of e (s_dup_score s)"
  let ?d1 = "add_result e (s_id s) a ''dedupe'' (?dec \<noteq> DD_rejected) (Some (or_else (s_dup_score s) 0)) None d"
  have d1: "fits bid T ?d1" "still s ?d1" using fits_add_result [OF assms(1)] still_cong [OF assms(2)] by simp_all
  show ?thesis
  proof (cases "?dec = DD_rejected")
    case True
    have "fits bid T d2" if "write_row e (s_id s) (\<lambda>y. y\<lparr>s_status := S_rejected, s_dup_decision := Some (decision_text ?dec)\<rparr>) ?d1 = Some d2" for d2
      by (rule fits_write_row [OF d1(1) that]) (simp_all add: POOL_CAPACITY_STATUSES_def)
    then show ?thesis using True d1(1) by (auto simp: validate_rows_def Let_def fits_tell split: option.split)
  next
    case False
    let ?f = "\<lambda>y. y\<lparr>s_dup_decision := Some (decision_text ?dec), s_updated := e_now e\<rparr>"
    let ?d2 = "if ?dec = DD_review_required then set_submission (\<lambda>y. s_id y = s_id s) ?f ?d1 else ?d1"
    have d2: "fits bid T ?d2" 
    proof (cases "?dec = DD_review_required")
      case True
      then have e2: "?d2 = set_submission (\<lambda>y. s_id y = s_id s) ?f ?d1" by (rule if_P)
      show ?thesis unfolding e2 by (rule fits_set [OF d1(1)]) simp_all
    next
      case no: False
      then have "?d2 = ?d1" by (rule if_not_P)
      then show ?thesis using d1(1) by (rule ssubst)
    qed
    have s2: "still s ?d2" using d1(2) by (auto simp: still_def set_submission_def set_update_where)
    have ev: "submissions (execution_evidence e s a ex y) = submissions y" "bounties (execution_evidence e s a ex y) = bounties y" for ex y
      by (simp_all add: execution_evidence_def)
    have "fits bid T (fst (after_execution e x s a ex (execution_evidence e s a ex
        (add_result e (s_id s) a ''ai_attribution'' p (Some q) None ?d2))))" for ex p q
      by (rule fits_after_execution) (rule fits_same [OF d2] still_cong [OF s2]; simp only: ev add_result_frame)+
    then show ?thesis using False by (simp add: validate_rows_def Let_def)
  qed
qed

lemma fits_run:
  assumes "fits bid T d"
  shows "fits bid T (fst (runSubmissionValidation e x k a d))"
proof (cases "submission_by k d")
  case (Some s)
  then have s: "s \<in> set (submissions d)" using find_where_Some [of "\<lambda>x. s_id x = k" "submissions d" s] by (simp add: submission_by_def)
  have "still s d"
    using s assms by (auto simp: still_def fits_def submission_ids_def distinct_map inj_on_def)
  then show ?thesis using assms fits_validate Some by (auto simp: runSubmissionValidation_def split: option.split)
qed (use assms in \<open>simp add: runSubmissionValidation_def\<close>)

section \<open>Every run of admissible events\<close>

lemma fits_step:
  assumes "fits bid T d" and "admissible v d"
  shows "fits bid T (pool_step v d)"
proof (cases v)
  case (Intake e num op)
  then show ?thesis using fits_intake assms by simp
qed (use assms in \<open>auto simp: fits_run fits_check fits_close_early fits_sampling_job fits_decisions fits_filing fits_reconcile
    fits_settle reconcileOpenCommunityPools_def settleDueCommunityPools_def split: option.split
    intro: fits_accept fits_recount fits_uphold fits_review\<close>)

lemma fits_run_all: "fits bid T d \<Longrightarrow> all_admissible vs d \<Longrightarrow> fits bid T (pool_run vs d)"
  by (induction vs arbitrary: d) (simp_all add: fits_step)

text \<open>C5: a pool is never overfilled. From a state in which the items that hold a slot are at most the stored
  counter and the counter is at most the target, every run of validation runs, acceptance transactions of runs
  still under way, inserts, revisions, reruns, recounts, closes, reconcile sweeps, sampling jobs, audit decisions,
  settlements, filed disputes, upheld flags and sponsor reviews, in any order, leads to such a state. The
  side conditions of the events (\<open>admissible\<close>) are: new rows have new ids; an acceptance or a review that read an
  item holding its slot finds it still holding it when its transaction runs; no flag is overturned.\<close>

theorem pool_never_overfilled:
  assumes "bounty_by bid d = Some b" and "slots_held bid d \<le> b_accepted b" and "0 < b_target b \<longrightarrow> b_accepted b \<le> b_target b"
    and "submission_ids d" and "bounty_ids d" and "all_admissible vs d"
  shows "\<exists>b'. bounty_by bid (pool_run vs d) = Some b' \<and> b_target b' = b_target b
     \<and> slots_held bid (pool_run vs d) \<le> b_accepted b' \<and> (0 < b_target b' \<longrightarrow> b_accepted b' \<le> b_target b')"
proof -
  have "fits bid (b_target b) d" using assms(1-5) by (auto simp: fits_def)
  then have "fits bid (b_target b) (pool_run vs d)" by (rule fits_run_all [OF _ assms(6)])
  then show ?thesis by (auto simp: fits_def)
qed

section \<open>The two transactions that trust a stale read\<close>

text \<open>a replayed run that read its item as accepted writes it accepted without the gate, whatever became of the
  item: when its slot was given away meanwhile, the pool holds one item more than it counts.\<close>

lemma late_replay_overfills:
  assumes "submission_ids d" and "submission_by (s_id s) d = Some x" and "s_status x \<notin> POOL_CAPACITY_STATUSES"
    and "s_status s = S_accepted_pending_sample" and "s_dedupe x = None"
  shows "\<exists>d'. accept_txn e s a rl d = Some (d', True) \<and> bounties d' = bounties d
     \<and> slots_held (s_bounty x) d' = slots_held (s_bounty x) d + 1"
proof -
  let ?f = "\<lambda>y. (accepted_row s rl True y)\<lparr>s_updated := e_now e\<rparr>"
  have f: "s_id (?f y) = s_id y" "s_bounty (?f y) = s_bounty y" "s_status (?f y) = S_accepted_pending_sample"
    "s_dedupe (accepted_row s rl True y) = s_dedupe y" for y
    by (simp_all add: accepted_row_def settle_scores_def split: option.split)
  have x: "x \<in> set (submissions d)" "s_id x = s_id s"
    using find_where_Some [of "\<lambda>x. s_id x = s_id s" "submissions d" x] assms(2) by (simp_all add: submission_by_def)
  have "accept_txn e s a rl d = Some (set_submission (\<lambda>y. s_id y = s_id s) ?f d, True)"
    using assms(2,4,5) f(4) by (simp add: accept_txn_def resolvePoolAcceptance_def write_row_def key_taken_def)
  moreover have "slots_held (s_bounty x) (set_submission (\<lambda>y. s_id y = s_id s) ?f d) = slots_held (s_bounty x) d + 1"
    using count_update_one [of s_id "submissions d" x "s_id s" "holds_slot (s_bounty x)" ?f] assms(1,3) x f
    by (simp add: count_submissions_def set_submission_def submission_ids_def POOL_CAPACITY_STATUSES_def)
  ultimately show ?thesis by simp
qed

text \<open>a review checks the status of the item before its transaction, and the transaction writes the item by id
  only: accepting an item that another review has just sent back, in a pool that has filled meanwhile, brings the
  counter past the target.\<close>

lemma late_review_overfills:
  assumes "submission_ids d" and "bounty_ids d" and "bounty_by (b_id b) d = Some b0" and "submission_by (s_id s) d = Some x"
    and "s_bounty x = b_id b" and "s_status x \<notin> POOL_CAPACITY_STATUSES" and "slots_held (b_id b) d = b_target b0"
    and "review_txn seed e b s True note d = Some d'"
  shows "\<exists>b'. bounty_by (b_id b) d' = Some b' \<and> b_target b' = b_target b0 \<and> b_accepted b' = b_target b0 + 1"
proof -
  let ?f = "reviewed_row e True" and ?d0 = "set_submission (\<lambda>x. s_id x = s_id s) (reviewed_row e True) d"
  have x: "x \<in> set (submissions d)" "s_id x = s_id s"
    using find_where_Some [of "\<lambda>x. s_id x = s_id s" "submissions d" x] assms(4) by (simp_all add: submission_by_def)
  have n: "slots_held (b_id b) ?d0 = b_target b0 + 1"
    using count_update_one [of s_id "submissions d" x "s_id s" "holds_slot (b_id b)" ?f] assms(1,5-7) x
    by (simp add: count_submissions_def set_submission_def submission_ids_def POOL_CAPACITY_STATUSES_def reviewed_row_def)
  obtain d1 c where r: "recomputeAcceptedItemCounters e (b_id b) ?d0 = Some (d1, c)"
    and a: "\<exists>q. awardOrHoldAcceptedItemKarma e None (b_id b) (sampling_award seed e b s) d1 = Inr (d', q)"
    using assms(8) by (auto simp: review_txn_def split: if_splits option.splits sum.splits)
  have "bounty_by (b_id b) d1 = Some (recount_row e (b_target b0 + 1) (count_submissions (b_id b) FINAL_ACCEPTED_STATUSES ?d0) b0)"
    using recompute_spec [of ?d0 "b_id b" b0 e] r n assms(2,3) by auto
  then show ?thesis using a award_or_hold_frame by (auto simp: award_frame_def bounty_by_def)
qed

section \<open>Instances\<close>

text \<open>A pool with room for one item, and two items whose runs reach the gate one after the other.\<close>

definition race_item :: "ident \<Rightarrow> submission_row" where
  "race_item k = submission0 k ''b'' ''u'' S_submitted"

definition race_db :: db where
  "race_db = db0\<lparr>bounties := [(bounty0 ''b'')\<lparr>b_target := 1\<rparr>], submissions := [race_item ''s1'', race_item ''s2'']\<rparr>"

definition race_events :: "pool_event list" where
  "race_events = [Accepts (env0 5) (race_item ''s1'') 0 None, Accepts (env0 6) (race_item ''s2'') 0 None]"

lemma race_run:
  "map s_status (submissions (pool_run race_events race_db)) = [S_accepted_pending_sample, S_rejected]"
  "all_admissible race_events race_db"
  by (simp_all add: race_events_def race_db_def race_item_def submission0_def bounty0_def db0_def still_def accept_txn_def
      resolvePoolAcceptance_def claimPoolAcceptanceSlot_def slot_free_def set_bounty_def write_row_def submission_by_def
      key_taken_def set_submission_def accepted_row_def settle_scores_def POOL_CAPACITY_STATUSES_def env0_def)

theorem pool_never_overfilled_witness:
  "map s_status (submissions (pool_run race_events race_db)) = [S_accepted_pending_sample, S_rejected]
   \<and> (\<exists>b'. bounty_by ''b'' (pool_run race_events race_db) = Some b' \<and> b_target b' = 1
        \<and> slots_held ''b'' (pool_run race_events race_db) \<le> b_accepted b' \<and> b_accepted b' \<le> 1)"
proof -
  let ?b = "(bounty0 ''b'')\<lparr>b_target := 1\<rparr>"
  have "bounty_by ''b'' race_db = Some ?b" "slots_held ''b'' race_db \<le> b_accepted ?b" "submission_ids race_db" "bounty_ids race_db"
    by (simp_all add: race_db_def race_item_def bounty_by_def submission_ids_def bounty_ids_def count_submissions_def
        submission0_def bounty0_def POOL_CAPACITY_STATUSES_def)
  moreover have "0 < b_target ?b \<longrightarrow> b_accepted ?b \<le> b_target ?b" by (simp add: bounty0_def)
  ultimately show ?thesis using pool_never_overfilled [of "''b''" race_db ?b race_events] race_run by auto
qed

end
