(* ===== verification/Metadata_Fetch.thy ===== *)
theory Metadata_Fetch
  imports Client_Metadata
begin

text \<open>
  \<open>services/mcp-client-metadata.ts\<close>, second part: the bounded LRU caches, the transport that only
  dials vetted addresses, and the fetch and validation of a Client ID Metadata Document. The
  outside world is the record \<open>net\<close>: the resolver, the socket, \<open>net.isIP\<close> and \<open>JSON.parse\<close>. A fetch
  returns, beside its result, the addresses it dialled.
\<close>

section \<open>Errors and documents\<close>

datatype metadata_reason =
  Not_a_metadata_url | Forbidden_host | Dns_failed | Fetch_failed | Fetch_timeout | Bad_status
  | Bad_content_type | Too_large | Bad_json | Invalid_document

record metadata_document =
  md_client_id :: string
  md_client_name :: string
  md_redirect_uris :: "string list"
  md_grant_types :: "string list"

definition CLIENT_METADATA_MAX_BYTES :: int where "CLIENT_METADATA_MAX_BYTES = 64 * 1024"
definition CLIENT_METADATA_MIN_TTL_MS :: time where "CLIENT_METADATA_MIN_TTL_MS = 60000"
definition CLIENT_METADATA_MAX_TTL_MS :: time where "CLIENT_METADATA_MAX_TTL_MS = 60 * 60000"
definition CLIENT_METADATA_DEFAULT_TTL_MS :: time where "CLIENT_METADATA_DEFAULT_TTL_MS = 5 * 60000"
definition CLIENT_METADATA_NEGATIVE_TTL_MS :: time where "CLIENT_METADATA_NEGATIVE_TTL_MS = 60000"
definition CLIENT_METADATA_CACHE_MAX_ENTRIES :: int where "CLIENT_METADATA_CACHE_MAX_ENTRIES = 1024"
definition MAX_PINNED_ADDRESSES :: nat where "MAX_PINNED_ADDRESSES = 4"
definition MAX_REDIRECT_URIS :: nat where "MAX_REDIRECT_URIS = 20"

definition SECRET_BASED_AUTH_METHODS :: "string list" where
  "SECRET_BASED_AUTH_METHODS = [''client_secret_post'', ''client_secret_basic'', ''client_secret_jwt'']"

section \<open>The bounded LRU cache\<close>

text \<open>A JavaScript \<open>Map\<close> in insertion order: the first entry is the oldest.\<close>

type_synonym 'v cache = "(string \<times> time \<times> 'v) list"

definition cache_delete :: "string \<Rightarrow> 'v cache \<Rightarrow> 'v cache" where
  "cache_delete k c = filter (\<lambda>(k', _). k' \<noteq> k) c"

definition cache_get :: "string \<Rightarrow> time \<Rightarrow> 'v cache \<Rightarrow> 'v cache \<times> 'v option" where
  "cache_get k now c =
     (case map_of c k of
        None \<Rightarrow> (c, None)
      | Some (ex, v) \<Rightarrow>
          if ex \<le> now then (cache_delete k c, None)
          else (cache_delete k c @ [(k, ex, v)], Some v))"

definition cache_ttl :: "string \<Rightarrow> time \<Rightarrow> 'v cache \<Rightarrow> time option" where
  "cache_ttl k now c =
     (case map_of c k of None \<Rightarrow> None | Some (ex, _) \<Rightarrow> if ex > now then Some (ex - now) else None)"

definition sweepExpired :: "time \<Rightarrow> 'v cache \<Rightarrow> 'v cache" where
  "sweepExpired now c = filter (\<lambda>(_, ex, _). \<not> ex \<le> now) c"

text \<open>The eviction loop removes the first entry until there is room.\<close>

fun evict_oldest :: "int \<Rightarrow> 'v cache \<Rightarrow> 'v cache" where
  "evict_oldest n [] = []"
| "evict_oldest n (x # c) = (if int (length (x # c)) \<ge> n then evict_oldest n c else x # c)"

definition cache_set :: "int \<Rightarrow> string \<Rightarrow> 'v \<Rightarrow> time \<Rightarrow> time \<Rightarrow> 'v cache \<Rightarrow> 'v cache" where
  "cache_set n k v ex now c =
     (let c1 = cache_delete k c;
          c2 = (if int (length c1) \<ge> n then evict_oldest n (sweepExpired now c1) else c1)
      in c2 @ [(k, ex, v)])"

section \<open>Cache-Control\<close>

definition is_sep :: "char \<Rightarrow> bool" where
  "is_sep c \<longleftrightarrow> c = CHR '','' \<or> is_ws c"

text \<open>The places where \<open>(?:^|[,\s])\<close> can end, from left to right.\<close>

fun after_seps :: "string \<Rightarrow> string list" where
  "after_seps [] = []"
| "after_seps (c # s) = (if is_sep c then s # after_seps s else after_seps s)"

definition no_store_at :: "string \<Rightarrow> bool" where
  "no_store_at s \<longleftrightarrow> take 8 s = ''no-store'' \<and> (drop 8 s = [] \<or> is_sep (hd (drop 8 s)))"

definition age_value :: "string \<Rightarrow> nat option" where
  "age_value r =
     (case dropWhile is_ws r of
        [] \<Rightarrow> None
      | c # r' \<Rightarrow>
          (let ds = takeWhile is_digit (dropWhile is_ws r')
           in if c = CHR ''='' \<and> ds \<noteq> [] then Some (read_digits 10 ds) else None))"

definition max_age_at :: "string \<Rightarrow> nat option" where
  "max_age_at s =
     (if take 8 s = ''s-maxage'' then age_value (drop 8 s)
      else if take 7 s = ''max-age'' then age_value (drop 7 s) else None)"

text \<open>\<open>Number\<close> of a digit string is infinite from this value on.\<close>

definition double_overflow :: int where
  "double_overflow = 2 ^ 1024 - 2 ^ 970"

definition ttlFromCacheControl :: "string option \<Rightarrow> time" where
  "ttlFromCacheControl header =
     (case header of
        None \<Rightarrow> CLIENT_METADATA_DEFAULT_TTL_MS
      | Some h \<Rightarrow>
          if h = [] then CLIENT_METADATA_DEFAULT_TTL_MS
          else (let lower = js_lower h; starts = lower # after_seps lower
                in if list_ex no_store_at starts then CLIENT_METADATA_MIN_TTL_MS
                   else (case find_where (\<lambda>s. max_age_at s \<noteq> None) starts of
                           None \<Rightarrow> CLIENT_METADATA_DEFAULT_TTL_MS
                         | Some s \<Rightarrow>
                             (let seconds = the (max_age_at s)
                              in if int seconds \<ge> double_overflow then CLIENT_METADATA_DEFAULT_TTL_MS
                                 else min CLIENT_METADATA_MAX_TTL_MS
                                        (max CLIENT_METADATA_MIN_TTL_MS (int seconds * 1000))))))"

section \<open>Validating a document\<close>

definition json_strings :: "json list \<Rightarrow> string list" where
  "json_strings js = map (\<lambda>j. str_of (Some j)) js"

definition allowed_grants :: "string list" where
  "allowed_grants = [''authorization_code'', ''refresh_token'']"

definition offered_grants :: "string list \<Rightarrow> string list" where
  "offered_grants gs = filter (\<lambda>g. List.member allowed_grants g) (js_unique gs)"

definition string_list :: "json \<Rightarrow> string list option" where
  "string_list j =
     (case j of JArr js \<Rightarrow> if list_all (\<lambda>x. is_str (Some x)) js then Some (json_strings js) else None | _ \<Rightarrow> None)"

definition document_redirects :: "(string \<Rightarrow> url option) \<Rightarrow> json option \<Rightarrow> string list option" where
  "document_redirects parse j =
     (case j of
        None \<Rightarrow> None
      | Some a \<Rightarrow>
          (case string_list a of
             None \<Rightarrow> None
           | Some us \<Rightarrow> if us \<noteq> [] \<and> length us \<le> MAX_REDIRECT_URIS \<and> list_all (isSafeRedirectUri parse) us
                       then Some us else None))"

definition auth_method_ok :: "json option \<Rightarrow> bool" where
  "auth_method_ok j =
     (case j of
        None \<Rightarrow> True
      | Some JNull \<Rightarrow> True
      | Some (JStr m) \<Rightarrow> \<not> List.member SECRET_BASED_AUTH_METHODS m
      | _ \<Rightarrow> False)"

definition document_grants :: "json option \<Rightarrow> string list option" where
  "document_grants j =
     (case j of
        None \<Rightarrow> Some allowed_grants
      | Some a \<Rightarrow>
          (case string_list a of
             None \<Rightarrow> None
           | Some gs \<Rightarrow> if List.member (offered_grants gs) ''authorization_code'' then Some (offered_grants gs) else None))"

definition response_types_ok :: "json option \<Rightarrow> bool" where
  "response_types_ok j =
     (case j of
        None \<Rightarrow> True
      | Some a \<Rightarrow> (case string_list a of None \<Rightarrow> False | Some ts \<Rightarrow> List.member ts ''code''))"

definition validateClientIdMetadataDocument ::
  "(string \<Rightarrow> url option) \<Rightarrow> string \<Rightarrow> json \<Rightarrow> metadata_reason + metadata_document" where
  "validateClientIdMetadataDocument parse u v =
     (case v of
        JObj _ \<Rightarrow>
          (if jget v ''client_id'' \<noteq> Some (JStr u) then Inl Invalid_document
           else if \<not> is_str (jget v ''client_name'') \<or> js_trim (str_of (jget v ''client_name'')) = [] then Inl Invalid_document
           else (case document_redirects parse (jget v ''redirect_uris'') of
                   None \<Rightarrow> Inl Invalid_document
                 | Some us \<Rightarrow>
                     if \<not> auth_method_ok (jget v ''token_endpoint_auth_method'') then Inl Invalid_document
                     else (case document_grants (jget v ''grant_types'') of
                             None \<Rightarrow> Inl Invalid_document
                           | Some gs \<Rightarrow>
                               if \<not> response_types_ok (jget v ''response_types'') then Inl Invalid_document
                               else Inr \<lparr>md_client_id = u, md_client_name = take 200 (str_of (jget v ''client_name'')),
                                         md_redirect_uris = js_unique us, md_grant_types = gs\<rparr>)))
      | _ \<Rightarrow> Inl Invalid_document)"

section \<open>The guarded fetch\<close>

datatype body = Body_chunks "string list" | Body_broken "string list" bool \<comment> \<open>the chunks read before the failure, and whether the deadline fired\<close>

record http_response =
  ht_status :: int
  ht_content_type :: "string option"
  ht_declared :: "int option" \<comment> \<open>\<open>Number\<close> of the \<open>content-length\<close>: \<open>None\<close> when not finite, 0 when absent\<close>
  ht_cache_control :: "string option"
  ht_body :: body

text \<open>One connection attempt: a transport failure (with the deadline flag) or a response.\<close>

datatype dial_outcome = Dial_failed bool | Dial_response http_response

record net =
  nt_parse :: "string \<Rightarrow> url option"
  nt_isip :: "string \<Rightarrow> nat"
  nt_lookup :: "string \<Rightarrow> string list option"
  nt_dial :: "string \<Rightarrow> string \<Rightarrow> dial_outcome"
  nt_json :: "string \<Rightarrow> json option"

definition bare_hostname :: "url \<Rightarrow> string" where
  "bare_hostname u = strip_brackets (url_hostname u)"

definition internal_host :: "string \<Rightarrow> bool" where
  "internal_host h \<longleftrightarrow> h = ''localhost'' \<or> ends_with h ''.localhost'' \<or> ends_with h ''.local'' \<or> ends_with h ''.internal''"

definition assertHostFetchable :: "net \<Rightarrow> url \<Rightarrow> metadata_reason + string list" where
  "assertHostFetchable n u =
     (let h = bare_hostname u
      in if nt_isip n h \<noteq> 0 then Inl Forbidden_host
         else if internal_host h then Inl Forbidden_host
         else (case nt_lookup n h of
                 None \<Rightarrow> Inl Dns_failed
               | Some as \<Rightarrow>
                   if as = [] then Inl Dns_failed
                   else if list_ex isForbiddenAddress as then Inl Forbidden_host
                   else Inr as))"

datatype request_outcome = Req_ok http_response | Req_refused | Req_failed bool

definition requestPinned :: "net \<Rightarrow> string \<Rightarrow> string \<Rightarrow> request_outcome" where
  "requestPinned n u a =
     (case nt_dial n u a of
        Dial_failed ab \<Rightarrow> Req_failed ab
      | Dial_response r \<Rightarrow>
          if 300 \<le> ht_status r \<and> ht_status r < 400 then Req_refused
          else if ht_status r < 200 \<or> ht_status r > 599 then Req_refused
          else Req_ok r)"

text \<open>The candidates are tried in order; a refusal or the deadline ends the loop. The first component
  lists the addresses dialled.\<close>

fun try_candidates :: "net \<Rightarrow> string \<Rightarrow> string list \<Rightarrow> string list \<times> (bool + http_response)" where
  "try_candidates n u [] = ([], Inl False)"
| "try_candidates n u (a # as) =
     (case requestPinned n u a of
        Req_ok r \<Rightarrow> ([a], Inr r)
      | Req_refused \<Rightarrow> ([a], Inl False)
      | Req_failed ab \<Rightarrow>
          if ab then ([a], Inl True)
          else (let (ds, r) = try_candidates n u as in (a # ds, r)))"

definition pinnedHttpsFetch :: "net \<Rightarrow> string \<Rightarrow> url \<Rightarrow> string list \<Rightarrow> string list \<times> (bool + http_response)" where
  "pinnedHttpsFetch n u parsed pinned =
     (let candidates = take MAX_PINNED_ADDRESSES pinned
      in if pu_protocol parsed \<noteq> ''https:'' then ([], Inl False)
         else if candidates = [] then ([], Inl False)
         else if list_ex isForbiddenAddress candidates then ([], Inl False)
         else try_candidates n u candidates)"

fun read_chunks :: "int \<Rightarrow> string \<Rightarrow> string list \<Rightarrow> string option" where
  "read_chunks limit acc [] = Some acc"
| "read_chunks limit acc (c # cs) =
     (if int (length acc + length c) > limit then None else read_chunks limit (acc @ c) cs)"

definition readBodyCapped :: "body \<Rightarrow> int \<Rightarrow> metadata_reason + string" where
  "readBodyCapped b limit =
     (case b of
        Body_chunks cs \<Rightarrow> (case read_chunks limit [] cs of None \<Rightarrow> Inl Too_large | Some s \<Rightarrow> Inr s)
      | Body_broken cs ab \<Rightarrow>
          (case read_chunks limit [] cs of None \<Rightarrow> Inl Too_large | Some _ \<Rightarrow> Inl (if ab then Fetch_timeout else Fetch_failed)))"

definition media_type :: "string option \<Rightarrow> string" where
  "media_type h = js_lower (js_trim (takeWhile (\<lambda>c. c \<noteq> CHR '';'') (case h of None \<Rightarrow> [] | Some s \<Rightarrow> s)))"

definition readDocument :: "net \<Rightarrow> string \<Rightarrow> http_response \<Rightarrow> metadata_reason + (metadata_document \<times> time)" where
  "readDocument n u r =
     (if ht_status r \<noteq> 200 then Inl Bad_status
      else if media_type (ht_content_type r) \<noteq> [] \<and> media_type (ht_content_type r) \<noteq> ''application/json''
              \<and> \<not> ends_with (media_type (ht_content_type r)) ''+json'' then Inl Bad_content_type
      else if (case ht_declared r of Some k \<Rightarrow> k > CLIENT_METADATA_MAX_BYTES | None \<Rightarrow> False) then Inl Too_large
      else (case readBodyCapped (ht_body r) CLIENT_METADATA_MAX_BYTES of
              Inl e \<Rightarrow> Inl e
            | Inr s \<Rightarrow>
                (case nt_json n s of
                   None \<Rightarrow> Inl Bad_json
                 | Some j \<Rightarrow>
                     (case validateClientIdMetadataDocument (nt_parse n) u j of
                        Inl e \<Rightarrow> Inl e
                      | Inr d \<Rightarrow> Inr (d, ttlFromCacheControl (ht_cache_control r))))))"

definition fetchUncached :: "net \<Rightarrow> string \<Rightarrow> string list \<times> (metadata_reason + (metadata_document \<times> time))" where
  "fetchUncached n u =
     (case nt_parse n u of
        None \<Rightarrow> ([], Inl Fetch_failed)
      | Some parsed \<Rightarrow>
          (case assertHostFetchable n parsed of
             Inl e \<Rightarrow> ([], Inl e)
           | Inr pinned \<Rightarrow>
               (case pinnedHttpsFetch n u parsed pinned of
                  (ds, Inl ab) \<Rightarrow> (ds, Inl (if ab then Fetch_timeout else Fetch_failed))
                | (ds, Inr r) \<Rightarrow> (ds, readDocument n u r))))"

record metadata_caches =
  mc_positive :: "metadata_document cache"
  mc_negative :: "metadata_reason cache"

definition clearClientMetadataCache :: "metadata_caches \<Rightarrow> metadata_caches" where
  "clearClientMetadataCache c = c\<lparr>mc_positive := [], mc_negative := []\<rparr>"

definition sweepClientMetadataCache :: "time \<Rightarrow> metadata_caches \<Rightarrow> metadata_caches" where
  "sweepClientMetadataCache now c =
     c\<lparr>mc_positive := sweepExpired now (mc_positive c), mc_negative := sweepExpired now (mc_negative c)\<rparr>"

definition fetchClientIdMetadataDocument ::
  "net \<Rightarrow> time \<Rightarrow> string \<Rightarrow> metadata_caches
   \<Rightarrow> metadata_caches \<times> string list \<times> (metadata_reason + metadata_document)" where
  "fetchClientIdMetadataDocument n now u c =
     (if \<not> isClientIdMetadataUrl (nt_parse n) u then (c, [], Inl Not_a_metadata_url)
      else (let (pos, hit) = cache_get u now (mc_positive c); c1 = c\<lparr>mc_positive := pos\<rparr>
            in case hit of
                 Some d \<Rightarrow> (c1, [], Inr d)
               | None \<Rightarrow>
                   (let (neg, miss) = cache_get u now (mc_negative c1); c2 = c1\<lparr>mc_negative := neg\<rparr>
                    in case miss of
                         Some e \<Rightarrow> (c2, [], Inl e)
                       | None \<Rightarrow>
                           (case fetchUncached n u of
                              (ds, Inr (d, ttl)) \<Rightarrow>
                                (c2\<lparr>mc_positive := cache_set CLIENT_METADATA_CACHE_MAX_ENTRIES u d (now + ttl) now (mc_positive c2)\<rparr>,
                                 ds, Inr d)
                            | (ds, Inl e) \<Rightarrow>
                                (c2\<lparr>mc_negative := cache_set CLIENT_METADATA_CACHE_MAX_ENTRIES u e
                                       (now + CLIENT_METADATA_NEGATIVE_TTL_MS) now (mc_negative c2)\<rparr>,
                                 ds, Inl e)))))"

section \<open>The cache\<close>

definition cache_ok :: "int \<Rightarrow> 'v cache \<Rightarrow> bool" where
  "cache_ok n c \<longleftrightarrow> distinct (map fst c) \<and> int (length c) \<le> n"

lemma cache_delete_keys: "k \<notin> fst ` set (cache_delete k c)" "fst ` set (cache_delete k c) \<subseteq> fst ` set c"
  by (auto simp: cache_delete_def)

lemma cache_delete_distinct: "distinct (map fst c) \<Longrightarrow> distinct (map fst (cache_delete k c))"
  by (induction c) (auto simp: cache_delete_def)

lemma cache_delete_length: "length (cache_delete k c) \<le> length c"
  by (simp add: cache_delete_def)

lemma cache_delete_found: "map_of c k = Some v \<Longrightarrow> length (cache_delete k c) < length c"
  by (induction c) (auto simp: cache_delete_def less_Suc_eq_le split: if_splits)

lemma map_of_delete: "map_of (cache_delete k c) k' = (if k' = k then None else map_of c k')"
  by (induction c) (auto simp: cache_delete_def)

lemma evict_oldest_drop: "\<exists>m. evict_oldest n c = drop m c"
proof (induction c)
  case (Cons x c)
  then obtain m where "evict_oldest n c = drop m c" by blast
  then have "evict_oldest n (x # c) = drop (if int (length (x # c)) \<ge> n then Suc m else 0) (x # c)" by simp
  then show ?case by blast
qed simp

lemma evict_oldest_length: "0 < n \<Longrightarrow> int (length (evict_oldest n c)) < n"
  by (induction c) auto

lemma evict_oldest_keys: "set (evict_oldest n c) \<subseteq> set c"
  using evict_oldest_drop [of n c] set_drop_subset by metis

lemma evict_oldest_distinct: "distinct (map fst c) \<Longrightarrow> distinct (map fst (evict_oldest n c))"
  using evict_oldest_drop [of n c] by (metis distinct_drop drop_map)

lemma cache_delete_absent [simp]: "(k, x) \<notin> set (cache_delete k c)"
  by (simp add: cache_delete_def)

lemma cache_delete_ok: "cache_ok n c \<Longrightarrow> cache_ok n (cache_delete k c)"
  using cache_delete_length [of k c] by (auto simp: cache_ok_def cache_delete_distinct)

lemma cache_get_ok: "cache_ok n c \<Longrightarrow> cache_ok n (fst (cache_get k now c))"
proof (cases "map_of c k")
  case (Some e)
  assume ok: "cache_ok n c"
  have "cache_ok n (cache_delete k c @ [(k, e)])"
    using cache_delete_ok [OF ok, of k] cache_delete_found [OF Some] cache_delete_keys(1) [of k c] ok
    by (auto simp: cache_ok_def)
  with Some cache_delete_ok [OF ok, of k] show ?thesis by (cases e) (simp add: cache_get_def)
qed (simp add: cache_get_def)

lemma sweepExpired_ok: "cache_ok n c \<Longrightarrow> cache_ok n (sweepExpired now c)"
  by (auto simp: cache_ok_def sweepExpired_def distinct_map_filter intro: order_trans [OF of_nat_mono [OF length_filter_le]])

lemma cache_set_ok:
  assumes "cache_ok n c" and "0 < n"
  shows "cache_ok n (cache_set n k v ex now c)"
proof -
  let ?c1 = "cache_delete k c"
  let ?c2 = "if int (length ?c1) \<ge> n then evict_oldest n (sweepExpired now ?c1) else ?c1"
  have d1: "distinct (map fst ?c1)" "k \<notin> fst ` set ?c1"
    using assms(1) cache_delete_distinct cache_delete_keys by (auto simp: cache_ok_def)
  have s: "set (sweepExpired now ?c1) \<subseteq> set ?c1" "distinct (map fst (sweepExpired now ?c1))"
    using d1 by (auto simp: sweepExpired_def distinct_map_filter)
  have "int (length ?c2) < n" using evict_oldest_length [OF assms(2)] by auto
  moreover have "distinct (map fst ?c2)" using d1(1) evict_oldest_distinct [OF s(2)] by simp
  moreover have "set ?c2 \<subseteq> set ?c1"
    using s(1) evict_oldest_keys [of n "sweepExpired now ?c1"] by (cases "int (length ?c1) \<ge> n") auto
  then have "k \<notin> fst ` set ?c2" using d1(2) by blast
  ultimately show ?thesis by (auto simp: cache_ok_def cache_set_def Let_def)
qed

lemma map_of_cache_set: "map_of (cache_set n k v ex now c) k = Some (ex, v)"
proof -
  let ?c1 = "cache_delete k c"
  let ?c2 = "if int (length ?c1) \<ge> n then evict_oldest n (sweepExpired now ?c1) else ?c1"
  have "set ?c2 \<subseteq> set ?c1"
    using evict_oldest_keys [of n "sweepExpired now ?c1"] by (auto simp: sweepExpired_def)
  then have "map_of ?c2 k = None" by (auto simp: map_of_eq_None_iff)
  then show ?thesis by (simp add: cache_set_def Let_def map_add_def)
qed

lemma cache_get_live: "map_of c k = Some (ex, v) \<Longrightarrow> now < ex \<Longrightarrow> snd (cache_get k now c) = Some v"
  by (simp add: cache_get_def)

lemma cache_get_dead:
  assumes "cache_ttl k now c = None"
  shows "snd (cache_get k now c) = None" and "map_of (fst (cache_get k now c)) k = None"
  using assms by (auto simp: cache_get_def cache_ttl_def map_of_delete split: option.splits if_splits)

lemma cache_get_absent: "map_of c k = None \<Longrightarrow> snd (cache_get k now c) = None"
  by (simp add: cache_get_def)

section \<open>Properties\<close>

lemma cache_max_pos [simp]: "0 < CLIENT_METADATA_CACHE_MAX_ENTRIES" "0 \<le> CLIENT_METADATA_CACHE_MAX_ENTRIES"
  by (simp_all add: CLIENT_METADATA_CACHE_MAX_ENTRIES_def)

definition caches_ok :: "metadata_caches \<Rightarrow> bool" where
  "caches_ok c \<longleftrightarrow> cache_ok CLIENT_METADATA_CACHE_MAX_ENTRIES (mc_positive c)
                 \<and> cache_ok CLIENT_METADATA_CACHE_MAX_ENTRIES (mc_negative c)"

lemma fetch_caches_ok:
  assumes "caches_ok c"
  shows "caches_ok (fst (fetchClientIdMetadataDocument n now u c))"
proof -
  note pos = cache_max_pos(1)
  obtain p hit where p: "cache_get u now (mc_positive c) = (p, hit)" by (cases "cache_get u now (mc_positive c)")
  obtain q miss where q: "cache_get u now (mc_negative c) = (q, miss)" by (cases "cache_get u now (mc_negative c)")
  obtain ds r where f: "fetchUncached n u = (ds, r)" by (cases "fetchUncached n u")
  have ok: "cache_ok CLIENT_METADATA_CACHE_MAX_ENTRIES (mc_positive c)" "cache_ok CLIENT_METADATA_CACHE_MAX_ENTRIES (mc_negative c)"
    "cache_ok CLIENT_METADATA_CACHE_MAX_ENTRIES p" "cache_ok CLIENT_METADATA_CACHE_MAX_ENTRIES q"
    using assms cache_get_ok [of _ "mc_positive c" u now] cache_get_ok [of _ "mc_negative c" u now] p q
    by (simp_all add: caches_ok_def)
  show ?thesis
    using ok cache_set_ok [OF ok(3) pos] cache_set_ok [OF ok(4) pos] assms
    by (cases hit; cases miss; cases r)
      (auto simp: fetchClientIdMetadataDocument_def p q f caches_ok_def Let_def)
qed

datatype cache_op = Fetch_document net time string | Sweep_caches time | Clear_caches

fun cache_step :: "cache_op \<Rightarrow> metadata_caches \<Rightarrow> metadata_caches" where
  "cache_step (Fetch_document n now u) c = fst (fetchClientIdMetadataDocument n now u c)"
| "cache_step (Sweep_caches now) c = sweepClientMetadataCache now c"
| "cache_step Clear_caches c = clearClientMetadataCache c"

lemma cache_step_ok: "caches_ok c \<Longrightarrow> caches_ok (cache_step op c)"
proof (cases op)
  case (Fetch_document n now u)
  assume "caches_ok c"
  with Fetch_document show ?thesis by (simp add: fetch_caches_ok)
qed (auto simp: sweepClientMetadataCache_def clearClientMetadataCache_def caches_ok_def sweepExpired_ok cache_ok_def [of _ "[]"])

text \<open>whatever URLs are presented, in whatever order, neither cache ever holds more than 1024
  entries or two entries for one URL.\<close>

lemma metadata_caches_bounded:
  "caches_ok (fold cache_step ops \<lparr>mc_positive = [], mc_negative = []\<rparr>)"
proof (induction ops rule: rev_induct)
  case Nil
  then show ?case by (simp add: caches_ok_def cache_ok_def)
qed (simp add: cache_step_ok)

lemma try_candidates_prefix: "\<exists>zs. as = fst (try_candidates n u as) @ zs"
proof (induction as)
  case (Cons a as)
  then obtain zs where "as = fst (try_candidates n u as) @ zs" by blast
  then show ?case by (auto split: request_outcome.splits prod.splits)
qed simp

definition vetted :: "net \<Rightarrow> string \<Rightarrow> string list \<Rightarrow> bool" where
  "vetted n u as \<longleftrightarrow>
     (\<exists>parsed. nt_parse n u = Some parsed \<and> pu_protocol parsed = ''https:''
        \<and> nt_isip n (bare_hostname parsed) = 0 \<and> \<not> internal_host (bare_hostname parsed)
        \<and> nt_lookup n (bare_hostname parsed) = Some as \<and> (\<forall>a \<in> set as. \<not> isForbiddenAddress a))"

lemma fetchUncached_vetted:
  assumes "fst (fetchUncached n u) \<noteq> []"
  shows "\<exists>as zs. vetted n u as \<and> take MAX_PINNED_ADDRESSES as = fst (fetchUncached n u) @ zs"
proof -
  obtain parsed where p: "nt_parse n u = Some parsed"
    using assms by (cases "nt_parse n u") (auto simp: fetchUncached_def)
  obtain as where as: "assertHostFetchable n parsed = Inr as"
    using assms p by (cases "assertHostFetchable n parsed") (auto simp: fetchUncached_def)
  have eq: "fst (fetchUncached n u) = fst (pinnedHttpsFetch n u parsed as)"
    by (simp add: fetchUncached_def p as split: prod.splits sum.splits)
  have h: "pu_protocol parsed = ''https:''"
    and d: "fst (pinnedHttpsFetch n u parsed as) = fst (try_candidates n u (take MAX_PINNED_ADDRESSES as))"
    using assms unfolding eq by (auto simp: pinnedHttpsFetch_def Let_def split: if_splits)
  have "vetted n u as"
    using as p h by (auto simp: vetted_def assertHostFetchable_def Let_def list_ex_iff split: if_splits option.splits)
  with try_candidates_prefix [of "take MAX_PINNED_ADDRESSES as" n u] d eq show ?thesis by metis
qed

lemma fetch_dials:
  "fst (snd (fetchClientIdMetadataDocument n now u c)) \<in> {[], fst (fetchUncached n u)}"
  by (auto simp: fetchClientIdMetadataDocument_def Let_def split: prod.splits option.splits sum.splits)

text \<open>C18: every address a metadata fetch dials was in the answer of the one resolution of the URL's
  host, none of that answer lies in a forbidden range, the URL is https with a public DNS name, and
  at most four addresses are tried, in the order of the answer.\<close>

theorem only_vetted_addresses_dialled:
  assumes "fetchClientIdMetadataDocument n now u c = (c', ds, r)" and "ds \<noteq> []"
  shows "isClientIdMetadataUrl (nt_parse n) u \<and> length ds \<le> 4
         \<and> (\<exists>as zs. vetted n u as \<and> take MAX_PINNED_ADDRESSES as = ds @ zs)"
proof -
  have ds: "ds = fst (fetchUncached n u)" using fetch_dials [of n now u c] assms by simp
  obtain as zs where v: "vetted n u as" "take MAX_PINNED_ADDRESSES as = ds @ zs"
    using fetchUncached_vetted [of n u] assms(2) ds by blast
  have "length ds \<le> length (take MAX_PINNED_ADDRESSES as)" unfolding v(2) by simp
  then have "length ds \<le> 4" by (simp add: MAX_PINNED_ADDRESSES_def)
  moreover have "isClientIdMetadataUrl (nt_parse n) u"
    using assms by (auto simp: fetchClientIdMetadataDocument_def split: if_splits)
  ultimately show ?thesis using v by blast
qed

definition demo_redirect :: url where
  "demo_redirect = \<lparr>pu_protocol = ''https:'', pu_username = [], pu_password = [], pu_hostname = Some ''cli.example'',
     pu_port = [], pu_pathname = ''/c'', pu_query = None, pu_fragment = None\<rparr>"

definition demo_net :: "string list option \<Rightarrow> net" where
  "demo_net answer = \<lparr>nt_parse = (\<lambda>_. Some demo_redirect), nt_isip = (\<lambda>_. 0), nt_lookup = (\<lambda>_. answer),
     nt_dial = (\<lambda>_ _. Dial_response \<lparr>ht_status = 200, ht_content_type = Some ''application/json'', ht_declared = Some 0,
        ht_cache_control = Some ''max-age=120'', ht_body = Body_chunks [''{'', ''}'']\<rparr>),
     nt_json = (\<lambda>_. Some (JObj [(''client_id'', JStr ''https://cli.example/c''), (''client_name'', JStr ''Cli''),
        (''redirect_uris'', JArr [JStr ''https://cli.example/c''])]))\<rparr>"

definition no_caches :: metadata_caches where
  "no_caches = \<lparr>mc_positive = [], mc_negative = []\<rparr>"

definition demo_fetch :: "string list option \<Rightarrow> metadata_caches \<times> string list \<times> (metadata_reason + metadata_document)" where
  "demo_fetch answer = fetchClientIdMetadataDocument (demo_net answer) 1000 ''https://cli.example/c'' no_caches"

lemma demo_fetch_runs:
  "fst (snd (demo_fetch (Some [''8.8.8.8'']))) = [''8.8.8.8'']"
  "snd (snd (demo_fetch (Some [''8.8.8.8''])))
     = Inr \<lparr>md_client_id = ''https://cli.example/c'', md_client_name = ''Cli'',
            md_redirect_uris = [''https://cli.example/c''], md_grant_types = allowed_grants\<rparr>"
  "snd (snd (demo_fetch (Some [''8.8.8.8'', ''10.0.0.1'']))) = Inl Forbidden_host"
  by code_simp+

lemma only_vetted_addresses_dialled_witness:
  "\<exists>as zs. vetted (demo_net (Some [''8.8.8.8''])) ''https://cli.example/c'' as
     \<and> take MAX_PINNED_ADDRESSES as = [''8.8.8.8''] @ zs"
proof -
  obtain c' ds r where f: "demo_fetch (Some [''8.8.8.8'']) = (c', ds, r)" by (cases "demo_fetch (Some [''8.8.8.8''])")
  with demo_fetch_runs(1) have "ds = [''8.8.8.8'']" by simp
  with only_vetted_addresses_dialled [OF f [unfolded demo_fetch_def]] show ?thesis by simp
qed

lemma ttl_bounds: "CLIENT_METADATA_MIN_TTL_MS \<le> ttlFromCacheControl h \<and> ttlFromCacheControl h \<le> CLIENT_METADATA_MAX_TTL_MS"
  by (auto simp: ttlFromCacheControl_def CLIENT_METADATA_MIN_TTL_MS_def CLIENT_METADATA_MAX_TTL_MS_def
      CLIENT_METADATA_DEFAULT_TTL_MS_def Let_def split: option.splits)

text \<open>A fetch that went to the network is not repeated for at least a minute: asked again within
  60 s, the same URL gives the same document or the same refusal, and nothing is dialled.\<close>

lemma metadata_fetched_once_a_minute:
  assumes "isClientIdMetadataUrl (nt_parse n) u" and "nt_parse n' = nt_parse n"
    and "cache_ttl u t (mc_positive c) = None" and "cache_ttl u t (mc_negative c) = None"
    and "fetchClientIdMetadataDocument n t u c = (c', ds, r)" and "t' < t + 60000"
  shows "snd (fetchClientIdMetadataDocument n' t' u c') = ([], r)"
proof -
  obtain p where p: "cache_get u t (mc_positive c) = (p, None)" "map_of p u = None"
    using cache_get_dead [OF assms(3)] by (metis prod.collapse)
  obtain q where q: "cache_get u t (mc_negative c) = (q, None)"
    using cache_get_dead(1) [OF assms(4)] by (metis prod.collapse)
  obtain ds' res where f: "fetchUncached n u = (ds', res)" by (cases "fetchUncached n u")
  show ?thesis
  proof (cases res)
    case (Inr dt)
    then obtain d ttl where dt: "dt = (d, ttl)" by (cases dt)
    have "60000 \<le> ttl"
      using f Inr dt ttl_bounds by (auto simp: fetchUncached_def readDocument_def CLIENT_METADATA_MIN_TTL_MS_def
          split: option.splits sum.splits prod.splits if_splits)
    then have live: "t' < t + ttl" using assms(6) by simp
    let ?p = "cache_set CLIENT_METADATA_CACHE_MAX_ENTRIES u d (t + ttl) t p"
    have cr: "mc_positive c' = ?p" "r = Inr d"
      using assms(1,5) Inr dt by (auto simp: fetchClientIdMetadataDocument_def p q f)
    have "snd (cache_get u t' ?p) = Some d"
      by (rule cache_get_live [OF map_of_cache_set live])
    then show ?thesis
      using assms(1,2) cr by (cases "cache_get u t' ?p") (simp add: fetchClientIdMetadataDocument_def)
  next
    case (Inl e)
    let ?q = "cache_set CLIENT_METADATA_CACHE_MAX_ENTRIES u e (t + CLIENT_METADATA_NEGATIVE_TTL_MS) t q"
    have cr: "mc_positive c' = p" "mc_negative c' = ?q" "r = Inl e"
      using assms(1,5) Inl by (auto simp: fetchClientIdMetadataDocument_def p q f)
    have "snd (cache_get u t' p) = None" by (rule cache_get_absent [OF p(2)])
    moreover have "snd (cache_get u t' ?q) = Some e"
      by (rule cache_get_live [OF map_of_cache_set]) (use assms(6) in \<open>simp add: CLIENT_METADATA_NEGATIVE_TTL_MS_def\<close>)
    ultimately show ?thesis
      using assms(1,2) cr
      by (cases "cache_get u t' p"; cases "cache_get u t' ?q") (simp add: fetchClientIdMetadataDocument_def)
  qed
qed

lemma metadata_fetched_once_a_minute_witness:
  "\<exists>c' ds. demo_fetch (Some [''8.8.8.8'', ''10.0.0.1'']) = (c', ds, Inl Forbidden_host)
     \<and> snd (fetchClientIdMetadataDocument (demo_net (Some [''8.8.8.8''])) 2000 ''https://cli.example/c'' c') = ([], Inl Forbidden_host)"
proof -
  obtain c' ds r where f: "demo_fetch (Some [''8.8.8.8'', ''10.0.0.1'']) = (c', ds, r)"
    by (cases "demo_fetch (Some [''8.8.8.8'', ''10.0.0.1''])")
  with demo_fetch_runs(3) have r: "r = Inl Forbidden_host" by simp
  have u: "isClientIdMetadataUrl (nt_parse (demo_net (Some [''8.8.8.8'', ''10.0.0.1'']))) ''https://cli.example/c''"
    by code_simp
  have "snd (fetchClientIdMetadataDocument (demo_net (Some [''8.8.8.8''])) 2000 ''https://cli.example/c'' c') = ([], r)"
    using metadata_fetched_once_a_minute [OF u _ _ _ f [unfolded demo_fetch_def], of "demo_net (Some [''8.8.8.8''])" 2000]
    by (simp add: demo_net_def no_caches_def cache_ttl_def)
  with f r show ?thesis by blast
qed

end
