(* ===== verification/Mcp_OAuth.thy ===== *)
theory Mcp_OAuth
  imports Metadata_Fetch
begin

text \<open>
  \<open>services/mcp-oauth.ts\<close>: the OAuth 2.1 authorization server in front of the MCP endpoint. The
  state is its five tables, the audit trail and the accounts' status; the environment holds the
  clock, the random strings, the digests, the URL parser, the two public URLs and the outcome of a
  metadata fetch (the result of \<open>fetchClientIdMetadataDocument\<close>, with the text of its error). An exchange is split, as in the code, into the reads
  before its transaction and the transaction, so that two of them can interleave.
\<close>

section \<open>Constants and rows\<close>

definition MCP_SCOPES :: "string list" where
  "MCP_SCOPES = [''read'', ''contribute'', ''validate'', ''artifact'', ''sponsor'', ''account'']"

definition CLIENT_ID_PREFIX :: string where "CLIENT_ID_PREFIX = ''db_mcp_client_''"
definition CODE_PREFIX :: string where "CODE_PREFIX = ''db_mcp_code_''"
definition ACCESS_PREFIX :: string where "ACCESS_PREFIX = ''db_mcp_at_''"
definition REFRESH_PREFIX :: string where "REFRESH_PREFIX = ''db_mcp_rt_''"
definition CODE_TTL_MS :: time where "CODE_TTL_MS = 60000"
definition ACCESS_TTL_MS :: time where "ACCESS_TTL_MS = 8 * 60 * 60 * 1000"
definition REFRESH_TTL_MS :: time where "REFRESH_TTL_MS = 30 * 24 * 60 * 60 * 1000"
definition REQUEST_TTL_MS :: time where "REQUEST_TTL_MS = 10 * 60 * 1000"
definition REFRESH_REUSE_GRACE_MS :: time where "REFRESH_REUSE_GRACE_MS = 60000"
definition ORPHAN_CLIENT_GRACE_MS :: time where "ORPHAN_CLIENT_GRACE_MS = 24 * 60 * 60 * 1000"

datatype request_failure = Not_found | Expired | Already_completed

record mcp_error =
  me_code :: string
  me_message :: string
  me_status :: int
  me_reason :: "request_failure option"

definition oauth_error :: "string \<Rightarrow> string \<Rightarrow> mcp_error" where
  "oauth_error c m = \<lparr>me_code = c, me_message = m, me_status = 400, me_reason = None\<rparr>"

record client_row =
  oc_client :: ident
  oc_name :: "string option"
  oc_redirects :: "string list"
  oc_grants :: "string list"
  oc_owner :: "ident option"
  oc_created :: time
  oc_updated :: time

record request_row =
  ar_id :: ident
  ar_client :: ident
  ar_user :: "ident option"
  ar_redirect :: string
  ar_scope :: "string list"
  ar_state :: "string option"
  ar_challenge :: string
  ar_resource :: "string option"
  ar_expires :: time
  ar_approved :: "time option"
  ar_denied :: "time option"

record code_row =
  ac_id :: ident
  ac_hash :: string
  ac_client :: ident
  ac_user :: ident
  ac_redirect :: string
  ac_scope :: "string list"
  ac_challenge :: string
  ac_resource :: "string option"
  ac_expires :: time
  ac_used :: "time option"

record access_row =
  at_hash :: string
  at_client :: ident
  at_user :: ident
  at_scope :: "string list"
  at_resource :: "string option"
  at_expires :: time
  at_revoked :: "time option"
  at_created :: time
  at_code :: "ident option"

record refresh_row =
  rt_id :: ident
  rt_hash :: string
  rt_client :: ident
  rt_user :: ident
  rt_scope :: "string list"
  rt_resource :: "string option"
  rt_expires :: time
  rt_revoked :: "time option"
  rt_rotated :: "time option"
  rt_created :: time
  rt_code :: "ident option"

record oauth_event =
  ev_action :: string
  ev_client :: "ident option"
  ev_user :: "ident option"

record oauth =
  clients :: "client_row list"
  requests :: "request_row list"
  codes :: "code_row list"
  accesses :: "access_row list"
  refreshes :: "refresh_row list"
  trail :: "oauth_event list"
  account_active :: "ident \<Rightarrow> bool"
  drawn :: nat

record oauth_env =
  ox_now :: time
  ox_id :: "nat \<Rightarrow> ident"
  ox_random :: "nat \<Rightarrow> string"
  ox_hmac :: "string \<Rightarrow> string"
  ox_sha256 :: "string \<Rightarrow> string"
  ox_url :: "string \<Rightarrow> url option"
  ox_public :: string
  ox_app :: string
  ox_document :: "string \<Rightarrow> string + metadata_document"

type_synonym 'a oauth_result = "oauth \<times> (mcp_error + 'a)"

text \<open>Random strings and row ids are drawn from supplies indexed by the number drawn so far.\<close>

definition opaque :: "oauth_env \<Rightarrow> oauth \<Rightarrow> string \<Rightarrow> string" where
  "opaque e s prefix = prefix @ ox_random e (drawn s)"

definition draw :: "oauth \<Rightarrow> oauth" where
  "draw s = s\<lparr>drawn := Suc (drawn s)\<rparr>"

definition withinReuseGrace :: "oauth_env \<Rightarrow> time option \<Rightarrow> bool" where
  "withinReuseGrace e rotatedAt =
     (case rotatedAt of None \<Rightarrow> False | Some t \<Rightarrow> ox_now e - t \<le> REFRESH_REUSE_GRACE_MS)"

definition record_event :: "string \<Rightarrow> ident option \<Rightarrow> ident option \<Rightarrow> oauth \<Rightarrow> oauth" where
  "record_event a c u s = s\<lparr>trail := trail s @ [\<lparr>ev_action = a, ev_client = c, ev_user = u\<rparr>]\<rparr>"

abbreviation the_resource :: "oauth_env \<Rightarrow> string" where
  "the_resource e \<equiv> canonicalMcpResource (ox_url e) (ox_public e)"

abbreviation wanted_resource :: "oauth_env \<Rightarrow> string option \<Rightarrow> string option" where
  "wanted_resource e \<equiv> requestedResource (ox_url e) (ox_public e)"

abbreviation kept_resource :: "oauth_env \<Rightarrow> string option \<Rightarrow> string" where
  "kept_resource e \<equiv> storedResource (ox_url e) (ox_public e)"

section \<open>Scopes\<close>

datatype scope_input = Scope_text string | Scope_list "string list"

definition scope_sep :: "char \<Rightarrow> bool" where
  "scope_sep c \<longleftrightarrow> c = CHR '' '' \<or> c = CHR '',''"

text \<open>\<open>split(/[ ,]+/)\<close>: a maximal run of separators is one cut.\<close>

fun split_scopes :: "string \<Rightarrow> string list" where
  "split_scopes [] = [[]]"
| "split_scopes [c] = (if scope_sep c then [[], []] else [[c]])"
| "split_scopes (c # d # s) =
     (if scope_sep c then (if scope_sep d then split_scopes (d # s) else [] # split_scopes (d # s))
      else (case split_scopes (d # s) of [] \<Rightarrow> [[c]] | p # ps \<Rightarrow> (c # p) # ps))"

fun space_join :: "string list \<Rightarrow> string" where
  "space_join [] = []"
| "space_join [x] = x"
| "space_join (x # y # r) = x @ '' '' @ space_join (y # r)"

definition parseScopes :: "scope_input option \<Rightarrow> string list \<Rightarrow> mcp_error + string list" where
  "parseScopes v fallback =
     (let raw = (case v of
                   Some (Scope_list xs) \<Rightarrow> concat (map split_scopes xs)
                 | Some (Scope_text t) \<Rightarrow> split_scopes t
                 | None \<Rightarrow> split_scopes (space_join fallback));
          unique = js_unique (filter (\<lambda>x. x \<noteq> []) raw)
      in if unique = [] then Inl (oauth_error ''invalid_scope'' ''At least one MCP scope is required.'')
         else if list_ex (\<lambda>x. \<not> List.member MCP_SCOPES x) unique
              then Inl (oauth_error ''invalid_scope'' ''Requested MCP scope is not supported.'')
         else Inr unique)"

section \<open>Clients\<close>

record registration =
  rg_redirects :: "string list"
  rg_name :: "string option"
  rg_grants :: "string list option"
  rg_auth_method :: "string option"
  rg_owner :: "ident option"

fun js_includes :: "string \<Rightarrow> string \<Rightarrow> bool" where
  "js_includes p [] \<longleftrightarrow> p = []"
| "js_includes p (c # s) \<longleftrightarrow> take (length p) (c # s) = p \<or> js_includes p s"

definition RESERVED_CLIENT_NAME_TERMS :: "string list" where
  "RESERVED_CLIENT_NAME_TERMS = [''databounty'', ''official'']"

definition reserved_name :: "string option \<Rightarrow> bool" where
  "reserved_name n =
     (case n of None \<Rightarrow> False | Some s \<Rightarrow> s \<noteq> [] \<and> list_ex (\<lambda>t. js_includes t (js_lower s)) RESERVED_CLIENT_NAME_TERMS)"

definition new_client :: "oauth_env \<Rightarrow> oauth \<Rightarrow> registration \<Rightarrow> string list \<Rightarrow> client_row" where
  "new_client e s i gs =
     \<lparr>oc_client = opaque e s CLIENT_ID_PREFIX, oc_name = map_option (take 200) (rg_name i),
      oc_redirects = rg_redirects i, oc_grants = gs, oc_owner = rg_owner i,
      oc_created = ox_now e, oc_updated = ox_now e\<rparr>"

definition registerClient :: "oauth_env \<Rightarrow> registration \<Rightarrow> oauth \<Rightarrow> client_row oauth_result" where
  "registerClient e i s =
     (let requested = (case rg_grants i of None \<Rightarrow> [''authorization_code'', ''refresh_token''] | Some gs \<Rightarrow> gs)
      in if rg_redirects i = [] \<or> length (rg_redirects i) > 20
            \<or> list_ex (\<lambda>r. \<not> isSafeRedirectUri (ox_url e) r) (rg_redirects i)
         then (s, Inl (oauth_error ''invalid_redirect_uri'' ''redirect_uris must contain safe HTTPS or loopback HTTP URLs.''))
         else if reserved_name (rg_name i)
         then (s, Inl (oauth_error ''invalid_client_metadata'' ''client_name must not contain reserved terms: databounty, official.''))
         else if \<not> List.member (offered_grants requested) ''authorization_code''
         then (s, Inl (oauth_error ''invalid_client_metadata'' ''grant_types must include authorization_code''))
         else if rg_auth_method i \<noteq> None \<and> rg_auth_method i \<noteq> Some [] \<and> rg_auth_method i \<noteq> Some ''none''
         then (s, Inl (oauth_error ''invalid_client_metadata'' ''MCP clients must use PKCE public-client authentication.''))
         else (let c = new_client e s i (offered_grants requested)
               in (record_event ''client.registered'' (Some (oc_client c)) (rg_owner i)
                     (draw s\<lparr>clients := clients s @ [c]\<rparr>), Inr c)))"

definition client_by :: "ident \<Rightarrow> oauth \<Rightarrow> client_row option" where
  "client_by k s = find_where (\<lambda>c. oc_client c = k) (clients s)"

definition getClient :: "ident \<Rightarrow> oauth \<Rightarrow> mcp_error + client_row" where
  "getClient k s =
     (case client_by k s of
        Some c \<Rightarrow> Inr c
      | None \<Rightarrow> Inl \<lparr>me_code = ''invalid_client'', me_message = ''Unknown OAuth client.'', me_status = 401, me_reason = None\<rparr>)"

definition document_client :: "oauth_env \<Rightarrow> ident \<Rightarrow> metadata_document \<Rightarrow> client_row" where
  "document_client e k d =
     \<lparr>oc_client = k, oc_name = Some (take 200 (md_client_name d)), oc_redirects = md_redirect_uris d,
      oc_grants = md_grant_types d, oc_owner = None, oc_created = ox_now e, oc_updated = ox_now e\<rparr>"

definition refreshed_client :: "oauth_env \<Rightarrow> metadata_document \<Rightarrow> client_row \<Rightarrow> client_row" where
  "refreshed_client e d c =
     c\<lparr>oc_name := Some (take 200 (md_client_name d)), oc_redirects := md_redirect_uris d,
       oc_grants := md_grant_types d, oc_updated := ox_now e\<rparr>"

definition resolveClient :: "oauth_env \<Rightarrow> bool \<Rightarrow> ident \<Rightarrow> oauth \<Rightarrow> client_row oauth_result" where
  "resolveClient e fallbackToStored k s =
     (if \<not> isClientIdMetadataUrl (ox_url e) k then (s, getClient k s)
      else (case ox_document e k of
              Inl detail \<Rightarrow>
                (case (if fallbackToStored then client_by k s else None) of
                   Some c \<Rightarrow> (s, Inr c)
                 | None \<Rightarrow> (s, Inl \<lparr>me_code = ''invalid_client'',
                             me_message = ''Client ID metadata document rejected: '' @ detail, me_status = 401, me_reason = None\<rparr>))
            | Inr d \<Rightarrow>
                (case client_by k s of
                   Some c \<Rightarrow> (s\<lparr>clients := update_where (\<lambda>c. oc_client c = k) (refreshed_client e d) (clients s)\<rparr>,
                             Inr (refreshed_client e d c))
                 | None \<Rightarrow> (record_event ''client.metadata_document_registered'' (Some k) None
                             (s\<lparr>clients := clients s @ [document_client e k d]\<rparr>),
                           Inr (document_client e k d)))))"

section \<open>Authorization requests\<close>

record request_input =
  rq_client :: ident
  rq_redirect :: string
  rq_scope :: "string list"
  rq_state :: "string option"
  rq_challenge :: string
  rq_resource :: "string option"

definition base64url_char :: "char \<Rightarrow> bool" where
  "base64url_char c \<longleftrightarrow> is_digit c \<or> 65 \<le> (of_char c :: nat) \<and> (of_char c :: nat) \<le> 90
     \<or> 97 \<le> (of_char c :: nat) \<and> (of_char c :: nat) \<le> 122 \<or> c = CHR ''_'' \<or> c = CHR ''-''"

definition challenge_ok :: "string \<Rightarrow> bool" where
  "challenge_ok s \<longleftrightarrow> 43 \<le> length s \<and> length s \<le> 128 \<and> list_all base64url_char s"

definition verifier_ok :: "string \<Rightarrow> bool" where
  "verifier_ok s \<longleftrightarrow> 43 \<le> length s \<and> length s \<le> 128
     \<and> list_all (\<lambda>c. base64url_char c \<or> c = CHR ''.'' \<or> c = CHR ''~'') s"

definition createAuthorizationRequest ::
  "oauth_env \<Rightarrow> request_input \<Rightarrow> oauth \<Rightarrow> (request_row \<times> client_row) oauth_result" where
  "createAuthorizationRequest e i s =
     (case resolveClient e False (rq_client i) s of
        (s1, Inl err) \<Rightarrow> (s1, Inl err)
      | (s1, Inr c) \<Rightarrow>
          if wanted_resource e (rq_resource i) = None \<or> wanted_resource e (rq_resource i) \<noteq> Some (the_resource e)
          then (s1, Inl (oauth_error ''invalid_target'' ''OAuth resource must be the DataBounty Community MCP endpoint.''))
          else if \<not> list_ex (\<lambda>r. redirectMatches (ox_url e) (rq_redirect i) r) (oc_redirects c)
          then (s1, Inl (oauth_error ''invalid_request'' ''redirect_uri is not registered.''))
          else if \<not> challenge_ok (rq_challenge i)
          then (s1, Inl (oauth_error ''invalid_request'' ''A valid S256 PKCE code_challenge is required.''))
          else (let r = \<lparr>ar_id = ox_id e (drawn s1), ar_client = rq_client i, ar_user = None, ar_redirect = rq_redirect i,
                         ar_scope = rq_scope i, ar_state = rq_state i, ar_challenge = rq_challenge i,
                         ar_resource = wanted_resource e (rq_resource i), ar_expires = ox_now e + REQUEST_TTL_MS,
                         ar_approved = None, ar_denied = None\<rparr>
                in (draw s1\<lparr>requests := requests s1 @ [r]\<rparr>, Inr (r, c))))"

definition request_by :: "ident \<Rightarrow> oauth \<Rightarrow> request_row option" where
  "request_by k s = find_where (\<lambda>r. ar_id r = k) (requests s)"

definition request_error :: "request_failure \<Rightarrow> string \<Rightarrow> mcp_error" where
  "request_error f m = \<lparr>me_code = ''invalid_request'', me_message = m, me_status = 400, me_reason = Some f\<rparr>"

definition getAuthorizationRequest :: "oauth_env \<Rightarrow> ident \<Rightarrow> oauth \<Rightarrow> mcp_error + request_row" where
  "getAuthorizationRequest e k s =
     (case request_by k s of
        None \<Rightarrow> Inl (request_error Not_found ''Authorization request is missing.'')
      | Some r \<Rightarrow>
          if ar_approved r \<noteq> None \<or> ar_denied r \<noteq> None
          then Inl (request_error Already_completed ''Authorization request is already completed.'')
          else if ar_expires r < ox_now e then Inl (request_error Expired ''Authorization request has expired.'')
          else Inr r)"

definition approvable :: "oauth_env \<Rightarrow> ident \<Rightarrow> request_row \<Rightarrow> bool" where
  "approvable e k r \<longleftrightarrow> ar_id r = k \<and> ar_approved r = None \<and> ar_denied r = None \<and> ox_now e < ar_expires r"

definition approve_row :: "oauth_env \<Rightarrow> ident \<Rightarrow> string list \<Rightarrow> request_row \<Rightarrow> request_row" where
  "approve_row e u sel r = r\<lparr>ar_user := Some u, ar_scope := sel, ar_approved := Some (ox_now e)\<rparr>"

definition issued_code :: "oauth_env \<Rightarrow> oauth \<Rightarrow> request_row \<Rightarrow> ident \<Rightarrow> string list \<Rightarrow> code_row" where
  "issued_code e s r u sel =
     \<lparr>ac_id = ox_id e (drawn s), ac_hash = ox_hmac e (opaque e s CODE_PREFIX), ac_client = ar_client r, ac_user = u,
      ac_redirect = ar_redirect r, ac_scope = sel, ac_challenge = ar_challenge r, ac_resource = ar_resource r,
      ac_expires = ox_now e + CODE_TTL_MS, ac_used = None\<rparr>"

definition approveAuthorizationRequest ::
  "oauth_env \<Rightarrow> ident \<Rightarrow> ident \<Rightarrow> string list \<Rightarrow> oauth \<Rightarrow> (string \<times> request_row) oauth_result" where
  "approveAuthorizationRequest e k u sel s =
     (case getAuthorizationRequest e k s of
        Inl err \<Rightarrow> (s, Inl err)
      | Inr r \<Rightarrow>
          if sel = [] then (s, Inl (oauth_error ''invalid_scope'' ''Choose at least one permission to continue.''))
          else if list_ex (\<lambda>x. \<not> List.member (ar_scope r) x) sel
          then (s, Inl (oauth_error ''invalid_scope'' ''A selected permission was not requested by this MCP client.''))
          else (case update_many (approvable e k) (approve_row e u sel) (requests s) of
                  (rs, n) \<Rightarrow>
                    if n \<noteq> 1 then (s, Inl (oauth_error ''invalid_request'' ''Authorization request was already completed.''))
                    else (record_event ''authorization.approved'' (Some (ar_client r)) (Some u)
                            (draw s\<lparr>requests := rs, codes := codes s @ [issued_code e s r u sel]\<rparr>),
                          Inr (opaque e s CODE_PREFIX, r))))"

definition deny_row :: "oauth_env \<Rightarrow> ident \<Rightarrow> request_row \<Rightarrow> request_row" where
  "deny_row e u r = r\<lparr>ar_user := Some u, ar_denied := Some (ox_now e)\<rparr>"

definition denyAuthorizationRequest :: "oauth_env \<Rightarrow> ident \<Rightarrow> ident \<Rightarrow> oauth \<Rightarrow> request_row oauth_result" where
  "denyAuthorizationRequest e k u s =
     (case getAuthorizationRequest e k s of
        Inl err \<Rightarrow> (s, Inl err)
      | Inr r \<Rightarrow>
          if ar_user r \<noteq> None \<and> ar_user r \<noteq> Some [] \<and> ar_user r \<noteq> Some u
          then (s, Inl \<lparr>me_code = ''access_denied'', me_message = ''Authorization request belongs to another account.'',
                        me_status = 403, me_reason = None\<rparr>)
          else (record_event ''authorization.denied'' (Some (ar_client r)) (Some u)
                  (s\<lparr>requests := update_where (\<lambda>x. ar_id x = k \<and> ar_denied x = None \<and> ar_approved x = None)
                                   (deny_row e u) (requests s)\<rparr>), Inr r))"

section \<open>Exchanging a code\<close>

record code_input =
  ci_client :: ident
  ci_code :: string
  ci_verifier :: string
  ci_redirect :: string
  ci_resource :: "string option"

record token_pair =
  tp_access :: string
  tp_refresh :: string
  tp_scope :: "string list"

definition code_by :: "string \<Rightarrow> oauth \<Rightarrow> code_row option" where
  "code_by h s = find_where (\<lambda>c. ac_hash c = h) (codes s)"

definition invalid_grant :: "string \<Rightarrow> mcp_error" where
  "invalid_grant m = oauth_error ''invalid_grant'' m"

definition revoke_access :: "oauth_env \<Rightarrow> (access_row \<Rightarrow> bool) \<Rightarrow> oauth \<Rightarrow> oauth" where
  "revoke_access e P s =
     s\<lparr>accesses := update_where (\<lambda>t. P t \<and> at_revoked t = None) (\<lambda>t. t\<lparr>at_revoked := Some (ox_now e)\<rparr>) (accesses s)\<rparr>"

definition revoke_refresh :: "oauth_env \<Rightarrow> (refresh_row \<Rightarrow> bool) \<Rightarrow> oauth \<Rightarrow> oauth" where
  "revoke_refresh e P s =
     s\<lparr>refreshes := update_where (\<lambda>t. P t \<and> rt_revoked t = None) (\<lambda>t. t\<lparr>rt_revoked := Some (ox_now e)\<rparr>) (refreshes s)\<rparr>"

definition count_access :: "(access_row \<Rightarrow> bool) \<Rightarrow> oauth \<Rightarrow> nat" where
  "count_access P s = count_where (\<lambda>t. P t \<and> at_revoked t = None) (accesses s)"

definition count_refresh :: "(refresh_row \<Rightarrow> bool) \<Rightarrow> oauth \<Rightarrow> nat" where
  "count_refresh P s = count_where (\<lambda>t. P t \<and> rt_revoked t = None) (refreshes s)"

definition revokeTokensFromAuthorizationCode :: "oauth_env \<Rightarrow> code_row \<Rightarrow> oauth \<Rightarrow> oauth" where
  "revokeTokensFromAuthorizationCode e c s =
     (let P = (\<lambda>t. at_code t = Some (ac_id c)); Q = (\<lambda>t. rt_code t = Some (ac_id c));
          s1 = revoke_refresh e Q (revoke_access e P s)
      in if count_access P s \<noteq> 0 \<or> count_refresh Q s \<noteq> 0
         then record_event ''token.revoked_code_replay'' (Some (ac_client c)) (Some (ac_user c)) s1 else s1)"

text \<open>The reads: everything before the transaction.\<close>

definition code_checks :: "oauth_env \<Rightarrow> code_input \<Rightarrow> client_row \<Rightarrow> oauth \<Rightarrow> (code_row \<times> string) oauth_result" where
  "code_checks e i c s =
     (if \<not> verifier_ok (ci_verifier i) then (s, Inl (invalid_grant ''PKCE code_verifier is invalid.''))
      else (case code_by (ox_hmac e (ci_code i)) s of
              None \<Rightarrow> (s, Inl (invalid_grant ''Authorization code is invalid or expired.''))
            | Some r \<Rightarrow>
                if ac_used r \<noteq> None
                then (revokeTokensFromAuthorizationCode e r s, Inl (invalid_grant ''Authorization code is invalid or expired.''))
                else if ac_client r \<noteq> oc_client c \<or> ac_expires r < ox_now e \<or> ac_redirect r \<noteq> ci_redirect i
                then (s, Inl (invalid_grant ''Authorization code is invalid or expired.''))
                else if \<not> account_active s (ac_user r) then (s, Inl (invalid_grant ''Account is not active.''))
                else if ox_sha256 e (ci_verifier i) \<noteq> ac_challenge r then (s, Inl (invalid_grant ''PKCE verification failed.''))
                else (case wanted_resource e (ci_resource i) of
                        None \<Rightarrow> (s, Inl (invalid_grant ''OAuth resource does not match.''))
                      | Some res \<Rightarrow>
                          if kept_resource e (ac_resource r) \<noteq> res then (s, Inl (invalid_grant ''OAuth resource does not match.''))
                          else (s, Inr (r, res)))))"

definition spendable :: "oauth_env \<Rightarrow> code_row \<Rightarrow> code_row \<Rightarrow> bool" where
  "spendable e r c \<longleftrightarrow> ac_id c = ac_id r \<and> ac_used c = None \<and> ox_now e < ac_expires c"

definition minted_access :: "oauth_env \<Rightarrow> string \<Rightarrow> ident \<Rightarrow> ident \<Rightarrow> string list \<Rightarrow> string \<Rightarrow> ident option \<Rightarrow> access_row" where
  "minted_access e tok c u sc res src =
     \<lparr>at_hash = ox_hmac e tok, at_client = c, at_user = u, at_scope = sc, at_resource = Some res,
      at_expires = ox_now e + ACCESS_TTL_MS, at_revoked = None, at_created = ox_now e, at_code = src\<rparr>"

definition minted_refresh :: "oauth_env \<Rightarrow> ident \<Rightarrow> string \<Rightarrow> ident \<Rightarrow> ident \<Rightarrow> string list \<Rightarrow> string \<Rightarrow> ident option \<Rightarrow> refresh_row" where
  "minted_refresh e k tok c u sc res src =
     \<lparr>rt_id = k, rt_hash = ox_hmac e tok, rt_client = c, rt_user = u, rt_scope = sc, rt_resource = Some res,
      rt_expires = ox_now e + REFRESH_TTL_MS, rt_revoked = None, rt_rotated = None, rt_created = ox_now e, rt_code = src\<rparr>"

text \<open>The access token uses the next random string and the refresh token the one after it.\<close>

definition mint_pair ::
  "oauth_env \<Rightarrow> ident \<Rightarrow> ident \<Rightarrow> string list \<Rightarrow> string list \<Rightarrow> string \<Rightarrow> ident option \<Rightarrow> oauth \<Rightarrow> oauth \<times> token_pair" where
  "mint_pair e c u asc rsc res src s =
     (let a = opaque e s ACCESS_PREFIX; r = opaque e (draw s) REFRESH_PREFIX
      in (draw (draw s)\<lparr>accesses := accesses s @ [minted_access e a c u asc res src],
                       refreshes := refreshes s @ [minted_refresh e (ox_id e (drawn s)) r c u rsc res src]\<rparr>,
          \<lparr>tp_access = a, tp_refresh = r, tp_scope = asc\<rparr>))"

definition code_txn :: "oauth_env \<Rightarrow> code_row \<Rightarrow> string \<Rightarrow> oauth \<Rightarrow> token_pair oauth_result" where
  "code_txn e r res s =
     (case update_many (spendable e r) (\<lambda>c. c\<lparr>ac_used := Some (ox_now e)\<rparr>) (codes s) of
        (cs, n) \<Rightarrow>
          if n \<noteq> 1 then (s, Inl (invalid_grant ''Authorization code has already been used.''))
          else (let (s1, p) = mint_pair e (ac_client r) (ac_user r) (ac_scope r) (ac_scope r) res (Some (ac_id r)) (s\<lparr>codes := cs\<rparr>)
                in (record_event ''token.issued'' (Some (ac_client r)) (Some (ac_user r)) s1, Inr p)))"

definition exchangeAuthorizationCode :: "oauth_env \<Rightarrow> code_input \<Rightarrow> oauth \<Rightarrow> token_pair oauth_result" where
  "exchangeAuthorizationCode e i s =
     (case resolveClient e True (ci_client i) s of
        (s1, Inl err) \<Rightarrow> (s1, Inl err)
      | (s1, Inr c) \<Rightarrow>
          (case code_checks e i c s1 of
             (s2, Inl err) \<Rightarrow> (s2, Inl err)
           | (s2, Inr (r, res)) \<Rightarrow> code_txn e r res s2))"

definition tokenResponse :: "token_pair \<Rightarrow> json" where
  "tokenResponse p = JObj [(''access_token'', JStr (tp_access p)), (''token_type'', JStr ''Bearer''),
     (''expires_in'', JNum (of_int (ACCESS_TTL_MS div 1000))), (''refresh_token'', JStr (tp_refresh p)),
     (''scope'', JStr (space_join (tp_scope p)))]"

section \<open>Exchanging a refresh token\<close>

record refresh_input =
  ri_client :: ident
  ri_token :: string
  ri_scope :: "string list option"
  ri_resource :: "string option"

definition refresh_by :: "string \<Rightarrow> oauth \<Rightarrow> refresh_row option" where
  "refresh_by h s = find_where (\<lambda>t. rt_hash t = h) (refreshes s)"

definition refresh_checks ::
  "oauth_env \<Rightarrow> refresh_input \<Rightarrow> client_row \<Rightarrow> oauth \<Rightarrow> (refresh_row \<times> string \<times> string list) oauth_result" where
  "refresh_checks e i c s =
     (case refresh_by (ox_hmac e (ri_token i)) s of
        None \<Rightarrow> (s, Inl (invalid_grant ''Refresh token is invalid or expired.''))
      | Some r \<Rightarrow>
          if rt_client r \<noteq> oc_client c \<or> rt_expires r < ox_now e
          then (s, Inl (invalid_grant ''Refresh token is invalid or expired.''))
          else if rt_revoked r \<noteq> None \<and> \<not> withinReuseGrace e (rt_rotated r)
          then (record_event ''refresh.replay_rejected'' (Some (rt_client r)) (Some (rt_user r)) s,
                Inl (invalid_grant ''Refresh token is invalid or has already been used.''))
          else if \<not> account_active s (rt_user r) then (s, Inl (invalid_grant ''Account is not active.''))
          else (case wanted_resource e (ri_resource i) of
                  None \<Rightarrow> (s, Inl (invalid_grant ''OAuth resource does not match.''))
                | Some res \<Rightarrow>
                    if kept_resource e (rt_resource r) \<noteq> res then (s, Inl (invalid_grant ''OAuth resource does not match.''))
                    else (let asc = (case ri_scope i of None \<Rightarrow> rt_scope r | Some xs \<Rightarrow> xs)
                          in if list_ex (\<lambda>x. \<not> List.member (rt_scope r) x) asc
                             then (s, Inl (oauth_error ''invalid_scope'' ''Cannot increase scope during refresh.''))
                             else (s, Inr (r, res, asc)))))"

definition rotatable :: "oauth_env \<Rightarrow> refresh_row \<Rightarrow> refresh_row \<Rightarrow> bool" where
  "rotatable e r t \<longleftrightarrow> rt_id t = rt_id r \<and> rt_revoked t = None \<and> ox_now e < rt_expires t"

definition rotate_row :: "oauth_env \<Rightarrow> refresh_row \<Rightarrow> refresh_row" where
  "rotate_row e t = t\<lparr>rt_revoked := Some (ox_now e), rt_rotated := Some (ox_now e)\<rparr>"

definition live_successor :: "oauth_env \<Rightarrow> refresh_row \<Rightarrow> refresh_row \<Rightarrow> bool" where
  "live_successor e r t \<longleftrightarrow> rt_user t = rt_user r \<and> rt_client t = rt_client r \<and> rt_revoked t = None \<and> ox_now e < rt_expires t"

text \<open>The rotation of the presented token: the new table and whether the grace path is taken, or the
  refusal of a caller that lost the race after the grace ended.\<close>

definition rotate :: "oauth_env \<Rightarrow> refresh_row \<Rightarrow> oauth \<Rightarrow> (refresh_row list \<times> bool) option" where
  "rotate e r s =
     (if rt_revoked r \<noteq> None then Some (refreshes s, True)
      else (case update_many (rotatable e r) (rotate_row e) (refreshes s) of
              (ts, n) \<Rightarrow>
                if n = 1 then Some (ts, False)
                else (case find_where (\<lambda>t. rt_id t = rt_id r) (refreshes s) of
                        None \<Rightarrow> None
                      | Some cur \<Rightarrow> if withinReuseGrace e (rt_rotated cur) then Some (ts, True) else None)))"

definition refresh_txn ::
  "oauth_env \<Rightarrow> refresh_row \<Rightarrow> string \<Rightarrow> string list \<Rightarrow> oauth \<Rightarrow> token_pair oauth_result" where
  "refresh_txn e r res asc s =
     (case rotate e r s of
        None \<Rightarrow> (s, Inl (invalid_grant ''Refresh token has already been rotated.''))
      | Some (ts, graced) \<Rightarrow>
          if graced \<and> \<not> list_ex (live_successor e r) ts
          then (s, Inl (invalid_grant ''Refresh token is invalid or has already been used.''))
          else (let (s1, p) = mint_pair e (rt_client r) (rt_user r) asc (rt_scope r) res None (s\<lparr>refreshes := ts\<rparr>)
                in (record_event (if graced then ''refresh.grace_reissued'' else ''refresh.rotated'')
                      (Some (rt_client r)) (Some (rt_user r)) s1, Inr p)))"

definition exchangeRefreshToken :: "oauth_env \<Rightarrow> refresh_input \<Rightarrow> oauth \<Rightarrow> token_pair oauth_result" where
  "exchangeRefreshToken e i s =
     (case resolveClient e True (ri_client i) s of
        (s1, Inl err) \<Rightarrow> (s1, Inl err)
      | (s1, Inr c) \<Rightarrow>
          (case refresh_checks e i c s1 of
             (s2, Inl err) \<Rightarrow> (s2, Inl err)
           | (s2, Inr (r, res, asc)) \<Rightarrow> refresh_txn e r res asc s2))"

section \<open>Verifying and revoking\<close>

record verified =
  vf_user :: ident
  vf_client :: ident
  vf_scopes :: "string list"

definition access_by :: "string \<Rightarrow> oauth \<Rightarrow> access_row option" where
  "access_by h s = find_where (\<lambda>t. at_hash t = h) (accesses s)"

definition verifyMcpAccessToken :: "oauth_env \<Rightarrow> string \<Rightarrow> oauth \<Rightarrow> verified option" where
  "verifyMcpAccessToken e tok s =
     (if take (length ACCESS_PREFIX) tok \<noteq> ACCESS_PREFIX then None
      else (case access_by (ox_hmac e tok) s of
              None \<Rightarrow> None
            | Some t \<Rightarrow>
                if at_revoked t \<noteq> None \<or> at_expires t < ox_now e \<or> \<not> account_active s (at_user t)
                   \<or> kept_resource e (at_resource t) \<noteq> the_resource e
                then None
                else Some \<lparr>vf_user = at_user t, vf_client = at_client t, vf_scopes = at_scope t\<rparr>))"

definition revokeMcpToken :: "oauth_env \<Rightarrow> string \<Rightarrow> ident option \<Rightarrow> oauth \<Rightarrow> oauth" where
  "revokeMcpToken e tok requester s =
     (let h = ox_hmac e tok; foreign = (\<lambda>k. requester \<noteq> None \<and> requester \<noteq> Some [] \<and> requester \<noteq> Some k)
      in case find_where (\<lambda>t. at_hash t = h \<and> at_revoked t = None) (accesses s) of
           Some a \<Rightarrow>
             (if foreign (at_client a) then s
              else record_event ''token.revoked'' (Some (at_client a)) (Some (at_user a))
                     (revoke_access e (\<lambda>t. at_hash t = h) s))
         | None \<Rightarrow>
             (case find_where (\<lambda>t. rt_hash t = h \<and> rt_revoked t = None) (refreshes s) of
                None \<Rightarrow> s
              | Some r \<Rightarrow>
                  if foreign (rt_client r) then s
                  else record_event ''token.revoked'' (Some (rt_client r)) (Some (rt_user r))
                         (revoke_access e (\<lambda>t. at_client t = rt_client r \<and> at_user t = rt_user r \<and> at_resource t = rt_resource r)
                            (revoke_refresh e (\<lambda>t. rt_hash t = h) s))))"

definition revokeMcpGrant :: "oauth_env \<Rightarrow> ident \<Rightarrow> ident \<Rightarrow> oauth \<Rightarrow> oauth \<times> bool" where
  "revokeMcpGrant e u c s =
     (let P = (\<lambda>t. at_user t = u \<and> at_client t = c); Q = (\<lambda>t. rt_user t = u \<and> rt_client t = c)
      in (record_event ''grant.revoked'' (Some c) (Some u) (revoke_refresh e Q (revoke_access e P s)),
          count_access P s + count_refresh Q s > 0))"

definition revokeAllMcpGrants :: "oauth_env \<Rightarrow> ident \<Rightarrow> oauth \<Rightarrow> oauth \<times> bool \<times> nat \<times> nat" where
  "revokeAllMcpGrants e u s =
     (let P = (\<lambda>t. at_user t = u); Q = (\<lambda>t. rt_user t = u)
      in (record_event ''grant.revoked_all'' None (Some u) (revoke_refresh e Q (revoke_access e P s)),
          count_access P s + count_refresh Q s > 0, count_access P s, count_refresh Q s))"

record grant_view =
  gv_client :: ident
  gv_name :: string
  gv_scopes :: "string list"
  gv_used :: time

text \<open>One step of the loop over the rows, newest first: a client's entry is replaced by a newer row,
  in place.\<close>

definition grant_row :: "oauth \<Rightarrow> ident \<Rightarrow> string list \<Rightarrow> time \<Rightarrow> grant_view" where
  "grant_row s c sc t =
     \<lparr>gv_client = c, gv_name = (case client_by c s of Some r \<Rightarrow> (case oc_name r of Some n \<Rightarrow> n | None \<Rightarrow> oc_client r) | None \<Rightarrow> c),
      gv_scopes = sc, gv_used = t\<rparr>"

definition add_grant :: "grant_view \<Rightarrow> grant_view list \<Rightarrow> grant_view list" where
  "add_grant g gs =
     (case find_where (\<lambda>x. gv_client x = gv_client g) gs of
        None \<Rightarrow> gs @ [g]
      | Some x \<Rightarrow> if gv_used g > gv_used x then update_where (\<lambda>x. gv_client x = gv_client g) (\<lambda>_. g) gs else gs)"

definition newest_first :: "('r \<Rightarrow> time) \<Rightarrow> 'r list \<Rightarrow> 'r list" where
  "newest_first f rs = sort_key (\<lambda>r. - f r) rs"

definition listMcpGrants :: "oauth_env \<Rightarrow> ident \<Rightarrow> oauth \<Rightarrow> grant_view list" where
  "listMcpGrants e u s =
     (let as = newest_first at_created (filter (\<lambda>t. at_user t = u \<and> at_revoked t = None \<and> ox_now e < at_expires t) (accesses s));
          rs = newest_first rt_created (filter (\<lambda>t. rt_user t = u \<and> rt_revoked t = None \<and> ox_now e < rt_expires t) (refreshes s))
      in fold add_grant (map (\<lambda>t. grant_row s (at_client t) (at_scope t) (at_created t)) as
                         @ map (\<lambda>t. grant_row s (rt_client t) (rt_scope t) (rt_created t)) rs) [])"

section \<open>The cleanup sweep\<close>

definition prunable_code :: "oauth_env \<Rightarrow> oauth \<Rightarrow> code_row \<Rightarrow> bool" where
  "prunable_code e s c \<longleftrightarrow>
     ac_used c = None \<and> ac_expires c < ox_now e
     \<or> ac_used c \<noteq> None
       \<and> \<not> list_ex (\<lambda>t. at_code t = Some (ac_id c) \<and> at_revoked t = None \<and> ox_now e < at_expires t) (accesses s)
       \<and> \<not> list_ex (\<lambda>t. rt_code t = Some (ac_id c) \<and> rt_revoked t = None \<and> ox_now e < rt_expires t) (refreshes s)"

text \<open>Deleting a code sets the reference of its tokens to null.\<close>

definition unlink :: "(ident \<Rightarrow> bool) \<Rightarrow> ident option \<Rightarrow> ident option" where
  "unlink gone k = (case k of Some i \<Rightarrow> if gone i then None else Some i | None \<Rightarrow> None)"

definition delete_codes :: "(code_row \<Rightarrow> bool) \<Rightarrow> oauth \<Rightarrow> oauth" where
  "delete_codes P s =
     (let gone = (\<lambda>i. list_ex (\<lambda>c. ac_id c = i \<and> P c) (codes s))
      in s\<lparr>codes := filter (\<lambda>c. \<not> P c) (codes s),
           accesses := map (\<lambda>t. t\<lparr>at_code := unlink gone (at_code t)\<rparr>) (accesses s),
           refreshes := map (\<lambda>t. t\<lparr>rt_code := unlink gone (rt_code t)\<rparr>) (refreshes s)\<rparr>)"

definition orphan_client :: "oauth_env \<Rightarrow> oauth \<Rightarrow> client_row \<Rightarrow> bool" where
  "orphan_client e s c \<longleftrightarrow>
     oc_created c < ox_now e - ORPHAN_CLIENT_GRACE_MS \<and> oc_updated c < ox_now e - ORPHAN_CLIENT_GRACE_MS
     \<and> \<not> list_ex (\<lambda>r. ar_client r = oc_client c) (requests s)
     \<and> \<not> list_ex (\<lambda>r. ac_client r = oc_client c) (codes s)
     \<and> \<not> list_ex (\<lambda>t. at_client t = oc_client c) (accesses s)
     \<and> \<not> list_ex (\<lambda>t. rt_client t = oc_client c) (refreshes s)"

definition delete_clients :: "(client_row \<Rightarrow> bool) \<Rightarrow> oauth \<Rightarrow> oauth" where
  "delete_clients P s =
     (let gone = (\<lambda>i. list_ex (\<lambda>c. oc_client c = i \<and> P c) (clients s))
      in s\<lparr>clients := filter (\<lambda>c. \<not> P c) (clients s),
           trail := map (\<lambda>v. v\<lparr>ev_client := unlink gone (ev_client v)\<rparr>) (trail s)\<rparr>)"

definition cleanupMcpOAuth :: "oauth_env \<Rightarrow> oauth \<Rightarrow> oauth" where
  "cleanupMcpOAuth e s =
     (let s1 = s\<lparr>requests := filter (\<lambda>r. \<not> ar_expires r < ox_now e) (requests s)\<rparr>;
          s2 = s1\<lparr>accesses := filter (\<lambda>t. \<not> at_expires t < ox_now e) (accesses s1)\<rparr>;
          s3 = s2\<lparr>refreshes := filter (\<lambda>t. \<not> rt_expires t < ox_now e) (refreshes s2)\<rparr>;
          s4 = delete_codes (prunable_code e s3) s3
      in delete_clients (orphan_client e s4) s4)"

section \<open>Operations as steps\<close>

datatype oauth_op =
  Op_register registration
| Op_request request_input
| Op_approve ident ident "string list"
| Op_deny ident ident
| Op_code code_input
| Op_refresh refresh_input
| Op_revoke string "ident option"
| Op_revoke_grant ident ident
| Op_revoke_all ident
| Op_cleanup
| Op_account ident bool

fun oauth_step :: "oauth_env \<Rightarrow> oauth_op \<Rightarrow> oauth \<Rightarrow> oauth" where
  "oauth_step e (Op_register i) s = fst (registerClient e i s)"
| "oauth_step e (Op_request i) s = fst (createAuthorizationRequest e i s)"
| "oauth_step e (Op_approve k u sel) s = fst (approveAuthorizationRequest e k u sel s)"
| "oauth_step e (Op_deny k u) s = fst (denyAuthorizationRequest e k u s)"
| "oauth_step e (Op_code i) s = fst (exchangeAuthorizationCode e i s)"
| "oauth_step e (Op_refresh i) s = fst (exchangeRefreshToken e i s)"
| "oauth_step e (Op_revoke tok c) s = revokeMcpToken e tok c s"
| "oauth_step e (Op_revoke_grant u c) s = fst (revokeMcpGrant e u c s)"
| "oauth_step e (Op_revoke_all u) s = fst (revokeAllMcpGrants e u s)"
| "oauth_step e Op_cleanup s = cleanupMcpOAuth e s"
| "oauth_step e (Op_account u a) s = s\<lparr>account_active := (account_active s)(u := a)\<rparr>"

text \<open>A run: operations at the times given.\<close>

fun oauth_run :: "oauth_env \<Rightarrow> (time \<times> oauth_op) list \<Rightarrow> oauth \<Rightarrow> oauth" where
  "oauth_run e [] s = s"
| "oauth_run e ((t, op) # ops) s = oauth_run e ops (oauth_step (e\<lparr>ox_now := t\<rparr>) op s)"

end
