(* ===== verification/OAuth_Safety.thy ===== *)
theory OAuth_Safety
  imports Mcp_OAuth
begin

text \<open>
  The safety properties of the MCP authorization server: what a consent bounds, that a code is spent
  once, what its replay revokes, and what a disconnect leaves alive. The library part classifies
  every operation by what it can add to the tables of credentials.
\<close>

section \<open>What an operation can add\<close>

definition keeps_access :: "access_row \<Rightarrow> access_row \<Rightarrow> bool" where
  "keeps_access t t' \<longleftrightarrow> at_hash t' = at_hash t \<and> at_client t' = at_client t \<and> at_user t' = at_user t
     \<and> at_scope t' = at_scope t \<and> (at_revoked t \<noteq> None \<longrightarrow> at_revoked t' \<noteq> None)"

definition keeps_refresh :: "refresh_row \<Rightarrow> refresh_row \<Rightarrow> bool" where
  "keeps_refresh t t' \<longleftrightarrow> rt_id t' = rt_id t \<and> rt_client t' = rt_client t \<and> rt_user t' = rt_user t
     \<and> rt_scope t' = rt_scope t \<and> (rt_revoked t \<noteq> None \<longrightarrow> rt_revoked t' \<noteq> None)"

definition keeps_code :: "code_row \<Rightarrow> code_row \<Rightarrow> bool" where
  "keeps_code c c' \<longleftrightarrow> ac_id c' = ac_id c \<and> ac_client c' = ac_client c \<and> ac_user c' = ac_user c
     \<and> ac_scope c' = ac_scope c \<and> ac_hash c' = ac_hash c \<and> (ac_used c \<noteq> None \<longrightarrow> ac_used c' \<noteq> None)"

definition narrows :: "oauth \<Rightarrow> oauth \<Rightarrow> bool" where
  "narrows s s' \<longleftrightarrow>
     (\<forall>t' \<in> set (accesses s'). \<exists>t \<in> set (accesses s). keeps_access t t')
     \<and> (\<forall>t' \<in> set (refreshes s'). \<exists>t \<in> set (refreshes s). keeps_refresh t t')
     \<and> (\<forall>c' \<in> set (codes s'). \<exists>c \<in> set (codes s). keeps_code c c')
     \<and> drawn s \<le> drawn s'"

definition adds :: "oauth \<Rightarrow> access_row list \<Rightarrow> refresh_row list \<Rightarrow> code_row list \<Rightarrow> oauth \<Rightarrow> bool" where
  "adds s as rs cs s' \<longleftrightarrow>
     (\<exists>m. narrows s m \<and> accesses s' = accesses m @ as \<and> refreshes s' = refreshes m @ rs \<and> codes s' = codes m @ cs
        \<and> drawn m \<le> drawn s')"

lemma row_found: "find_where P rs = Some r \<Longrightarrow> r \<in> set rs"
  by (simp add: find_where_Some)

lemma keeps_refl [simp]: "keeps_access t t" "keeps_refresh r r" "keeps_code c c"
  by (simp_all add: keeps_access_def keeps_refresh_def keeps_code_def)

lemma keeps_access_trans: "keeps_access a b \<Longrightarrow> keeps_access b c \<Longrightarrow> keeps_access a c"
  by (simp add: keeps_access_def)

lemma keeps_refresh_trans: "keeps_refresh a b \<Longrightarrow> keeps_refresh b c \<Longrightarrow> keeps_refresh a c"
  by (simp add: keeps_refresh_def)

lemma keeps_code_trans: "keeps_code a b \<Longrightarrow> keeps_code b c \<Longrightarrow> keeps_code a c"
  by (simp add: keeps_code_def)

lemma narrows_refl [simp]: "narrows s s"
  by (auto simp: narrows_def intro: keeps_refl)

lemma narrows_trans: "narrows s m \<Longrightarrow> narrows m s' \<Longrightarrow> narrows s s'"
  unfolding narrows_def by (meson keeps_access_trans keeps_refresh_trans keeps_code_trans order_trans)

lemma narrows_same:
  "accesses s' = accesses s \<Longrightarrow> refreshes s' = refreshes s \<Longrightarrow> codes s' = codes s \<Longrightarrow> drawn s \<le> drawn s' \<Longrightarrow> narrows s s'"
  by (auto simp: narrows_def intro: keeps_refl)

lemma narrows_revoke:
  "narrows s (revoke_access e P s)" "narrows s (revoke_refresh e Q s)" "narrows s (record_event a c u s)"
  by (force simp: narrows_def revoke_access_def revoke_refresh_def record_event_def set_update_where keeps_access_def
      keeps_refresh_def)+

lemma narrows_under:
  "narrows s m \<Longrightarrow> narrows s (revoke_access e P m)" "narrows s m \<Longrightarrow> narrows s (revoke_refresh e Q m)"
  "narrows s m \<Longrightarrow> narrows s (record_event a c u m)"
  using narrows_revoke narrows_trans by blast+

lemma narrows_updates:
  "(\<And>t. keeps_refresh t (f t)) \<Longrightarrow> narrows s (s\<lparr>refreshes := update_where P f (refreshes s)\<rparr>)"
  "(\<And>c. keeps_code c (g c)) \<Longrightarrow> narrows s (s\<lparr>codes := update_where Q g (codes s)\<rparr>)"
  by (force simp: narrows_def set_update_where)+

subsection \<open>Operations that only take away\<close>

lemma resolve_tables:
  assumes "resolveClient e b k s = (s1, r)"
  shows "accesses s1 = accesses s \<and> refreshes s1 = refreshes s \<and> codes s1 = codes s \<and> drawn s1 = drawn s
         \<and> requests s1 = requests s \<and> account_active s1 = account_active s"
  using assms by (auto simp: resolveClient_def record_event_def split: if_splits sum.splits option.splits)

lemma revoke_code_tokens_narrows: "narrows s (revokeTokensFromAuthorizationCode e c s)"
  by (auto simp: revokeTokensFromAuthorizationCode_def Let_def intro!: narrows_under)

lemma code_checks_narrows:
  assumes "code_checks e i c s = (s', r)"
  shows "narrows s s'"
  using assms revoke_code_tokens_narrows
  by (auto simp: code_checks_def split: if_splits option.splits)

lemma refresh_checks_narrows:
  assumes "refresh_checks e i c s = (s', r)"
  shows "narrows s s'"
  using assms narrows_revoke(3)
  by (auto simp: refresh_checks_def Let_def split: if_splits option.splits)

lemma revokeMcpToken_narrows: "narrows s (revokeMcpToken e tok c s)"
  by (auto simp: revokeMcpToken_def Let_def split: option.splits intro!: narrows_under)

lemma revokeMcpGrant_narrows: "narrows s (fst (revokeMcpGrant e u c s))"
  by (auto simp: revokeMcpGrant_def Let_def intro!: narrows_under)

lemma revokeAll_narrows: "narrows s (fst (revokeAllMcpGrants e u s))"
  by (auto simp: revokeAllMcpGrants_def Let_def intro!: narrows_under)

lemma delete_codes_narrows: "narrows s (delete_codes P s)"
  by (force simp: narrows_def delete_codes_def Let_def keeps_access_def keeps_refresh_def)

lemma cleanup_narrows: "narrows s (cleanupMcpOAuth e s)"
proof -
  define s3 where "s3 = s\<lparr>requests := filter (\<lambda>r. \<not> ar_expires r < ox_now e) (requests s),
      accesses := filter (\<lambda>t. \<not> at_expires t < ox_now e) (accesses s),
      refreshes := filter (\<lambda>t. \<not> rt_expires t < ox_now e) (refreshes s)\<rparr>"
  have "narrows s s3" by (auto simp: narrows_def s3_def intro: keeps_refl)
  moreover have "narrows s3 (delete_codes (prunable_code e s3) s3)" by (rule delete_codes_narrows)
  moreover have "narrows s4 (delete_clients (orphan_client e s4) s4)" for s4
    by (rule narrows_same) (simp_all add: delete_clients_def Let_def)
  moreover have "cleanupMcpOAuth e s
      = (let s4 = delete_codes (prunable_code e s3) s3 in delete_clients (orphan_client e s4) s4)"
    by (simp add: cleanupMcpOAuth_def s3_def Let_def)
  ultimately show ?thesis by (auto simp: Let_def intro: narrows_trans)
qed

lemma register_narrows: "narrows s (fst (registerClient e i s))"
  by (auto simp: registerClient_def Let_def record_event_def draw_def intro: narrows_same)

lemma request_narrows: "narrows s (fst (createAuthorizationRequest e i s))"
proof -
  obtain s1 r where r: "resolveClient e False (rq_client i) s = (s1, r)" by (cases "resolveClient e False (rq_client i) s")
  then show ?thesis
    using resolve_tables [OF r]
    by (auto simp: createAuthorizationRequest_def draw_def Let_def split: sum.splits intro!: narrows_same)
qed

lemma deny_narrows: "narrows s (fst (denyAuthorizationRequest e k u s))"
  by (auto simp: denyAuthorizationRequest_def record_event_def split: sum.splits intro: narrows_same)

subsection \<open>Operations that mint\<close>

lemma approve_adds:
  assumes "approveAuthorizationRequest e k u sel s = (s', x)"
  shows "case x of
           Inl _ \<Rightarrow> s' = s
         | Inr (code, r) \<Rightarrow> adds s [] [] [issued_code e s r u sel] s' \<and> drawn s' = Suc (drawn s)
                           \<and> r \<in> set (requests s) \<and> set sel \<subseteq> set (ar_scope r) \<and> sel \<noteq> []"
proof (cases "getAuthorizationRequest e k s")
  case (Inl err)
  with assms show ?thesis by (auto simp: approveAuthorizationRequest_def)
next
  case (Inr r)
  have r: "r \<in> set (requests s)"
    using Inr by (auto dest: row_found simp: getAuthorizationRequest_def request_by_def split: option.splits if_splits)
  show ?thesis
    using assms Inr r
    by (auto simp: approveAuthorizationRequest_def adds_def draw_def record_event_def update_many_def list_ex_iff
        split: if_splits intro!: exI [where x = s])
qed

lemma mint_adds:
  assumes "mint_pair e c u asc rsc res src m = (s', p)"
  shows "\<exists>a b. at_user a = u \<and> at_client a = c \<and> at_scope a = asc \<and> at_code a = src \<and> at_revoked a = None
           \<and> at_hash a = ox_hmac e (tp_access p) \<and> at_expires a = ox_now e + ACCESS_TTL_MS \<and> at_resource a = Some res
           \<and> rt_user b = u \<and> rt_client b = c \<and> rt_scope b = rsc \<and> rt_code b = src
           \<and> accesses s' = accesses m @ [a] \<and> refreshes s' = refreshes m @ [b] \<and> codes s' = codes m
           \<and> drawn s' = drawn m + 2 \<and> account_active s' = account_active m \<and> tp_scope p = asc"
  using assms by (auto simp: mint_pair_def Let_def draw_def minted_access_def minted_refresh_def)

lemma code_txn_cases:
  assumes "code_txn e r res s = (s', x)"
  shows "case x of
           Inl _ \<Rightarrow> s' = s
         | Inr p \<Rightarrow> (\<exists>a b. at_user a = ac_user r \<and> at_client a = ac_client r \<and> at_scope a = ac_scope r
                       \<and> rt_user b = ac_user r \<and> rt_client b = ac_client r \<and> rt_scope b = ac_scope r \<and> adds s [a] [b] [] s')
                    \<and> count_where (spendable e r) (codes s) = 1
                    \<and> codes s' = update_where (spendable e r) (\<lambda>c. c\<lparr>ac_used := Some (ox_now e)\<rparr>) (codes s)"
proof -
  let ?cs = "update_where (spendable e r) (\<lambda>c. c\<lparr>ac_used := Some (ox_now e)\<rparr>) (codes s)"
  let ?m = "s\<lparr>codes := ?cs\<rparr>"
  obtain s1 p where mp: "mint_pair e (ac_client r) (ac_user r) (ac_scope r) (ac_scope r) res (Some (ac_id r)) ?m = (s1, p)"
    by (cases "mint_pair e (ac_client r) (ac_user r) (ac_scope r) (ac_scope r) res (Some (ac_id r)) ?m")
  show ?thesis
  proof (cases "count_where (spendable e r) (codes s) = 1")
    case False
    with assms show ?thesis by (auto simp: code_txn_def update_many_def)
  next
    case True
    have x: "x = Inr p" "s' = record_event ''token.issued'' (Some (ac_client r)) (Some (ac_user r)) s1"
      using assms True mp by (auto simp: code_txn_def update_many_def)
    obtain a b where ab: "at_user a = ac_user r" "at_client a = ac_client r" "at_scope a = ac_scope r"
      "rt_user b = ac_user r" "rt_client b = ac_client r" "rt_scope b = ac_scope r"
      "accesses s1 = accesses ?m @ [a]" "refreshes s1 = refreshes ?m @ [b]" "codes s1 = codes ?m" "drawn s1 = drawn ?m + 2"
      using mint_adds [OF mp] by blast
    have "narrows s ?m" by (rule narrows_updates) (simp add: keeps_code_def)
    then have "adds s [a] [b] [] s'" using ab x(2) by (auto simp: adds_def record_event_def)
    then show ?thesis using x ab True by (auto simp: record_event_def)
  qed
qed

lemma code_exchange_adds:
  assumes "exchangeAuthorizationCode e i s = (s', x)"
  shows "narrows s s' \<or>
         (\<exists>r a b. r \<in> set (codes s) \<and> ac_used r = None
            \<and> at_user a = ac_user r \<and> at_client a = ac_client r \<and> at_scope a = ac_scope r
            \<and> rt_user b = ac_user r \<and> rt_client b = ac_client r \<and> rt_scope b = ac_scope r \<and> adds s [a] [b] [] s')"
proof -
  obtain s1 y where y: "resolveClient e True (ci_client i) s = (s1, y)" by (cases "resolveClient e True (ci_client i) s")
  note t1 = resolve_tables [OF y]
  have n1: "narrows s s1" using t1 by (auto intro: narrows_same)
  show ?thesis
  proof (cases y)
    case (Inl err)
    with assms y n1 show ?thesis by (auto simp: exchangeAuthorizationCode_def)
  next
    case (Inr c)
    obtain s2 z where z: "code_checks e i c s1 = (s2, z)" by (cases "code_checks e i c s1")
    have n2: "narrows s s2" using n1 code_checks_narrows [OF z] narrows_trans by blast
    show ?thesis
    proof (cases z)
      case (Inl err)
      with assms y z n2 Inr show ?thesis by (auto simp: exchangeAuthorizationCode_def)
    next
      case (Inr rr)
      then obtain r res where rr: "rr = (r, res)" by (cases rr)
      have r: "r \<in> set (codes s) \<and> ac_used r = None" "s2 = s1"
        using z Inr rr t1
        by (auto dest: row_found simp: code_checks_def code_by_def split: if_splits option.splits)
      have txn: "code_txn e r res s2 = (s', x)"
        using assms y z Inr rr \<open>y = Inr c\<close> by (simp add: exchangeAuthorizationCode_def)
      show ?thesis
      proof (cases x)
        case (Inl err)
        with code_txn_cases [OF txn] n2 show ?thesis by simp
      next
        case (Inr p)
        with code_txn_cases [OF txn] obtain a b where
          ab: "at_user a = ac_user r" "at_client a = ac_client r" "at_scope a = ac_scope r"
            "rt_user b = ac_user r" "rt_client b = ac_client r" "rt_scope b = ac_scope r" "adds s2 [a] [b] [] s'"
          by auto
        have "adds s [a] [b] [] s'" using ab(7) n2 narrows_trans unfolding adds_def by blast
        with ab r show ?thesis by blast
      qed
    qed
  qed
qed

lemma rotate_spec:
  assumes "rotate e r s = Some (ts, graced)"
  shows "narrows s (s\<lparr>refreshes := ts\<rparr>)"
    and "\<not> graced \<Longrightarrow> rt_revoked r = None"
proof -
  have step: "narrows s (s\<lparr>refreshes := update_where (rotatable e r) (rotate_row e) (refreshes s)\<rparr>)"
    by (rule narrows_updates) (simp add: keeps_refresh_def rotate_row_def)
  then show "narrows s (s\<lparr>refreshes := ts\<rparr>)"
    using assms by (auto simp: rotate_def update_many_def split: if_splits option.splits)
  show "rt_revoked r = None" if "\<not> graced"
    using assms that by (auto simp: rotate_def split: if_splits)
qed

lemma refresh_exchange_adds:
  assumes "exchangeRefreshToken e i s = (s', x)"
  shows "narrows s s' \<or>
         (\<exists>r a b l. r \<in> set (refreshes s) \<and> set (at_scope a) \<subseteq> set (rt_scope r)
            \<and> at_user a = rt_user r \<and> at_client a = rt_client r
            \<and> rt_user b = rt_user r \<and> rt_client b = rt_client r \<and> rt_scope b = rt_scope r
            \<and> l \<in> set (refreshes s) \<and> rt_revoked l = None \<and> rt_user l = rt_user r
            \<and> adds s [a] [b] [] s')"
proof -
  obtain s1 y where y: "resolveClient e True (ri_client i) s = (s1, y)" by (cases "resolveClient e True (ri_client i) s")
  note t1 = resolve_tables [OF y]
  have n1: "narrows s s1" using t1 by (auto intro: narrows_same)
  show ?thesis
  proof (cases y)
    case (Inl err)
    with assms y n1 show ?thesis by (auto simp: exchangeRefreshToken_def)
  next
    case (Inr c)
    obtain s2 z where z: "refresh_checks e i c s1 = (s2, z)" by (cases "refresh_checks e i c s1")
    have n2: "narrows s s2" using n1 refresh_checks_narrows [OF z] narrows_trans by blast
    show ?thesis
    proof (cases z)
      case (Inl err)
      with assms y z n2 Inr show ?thesis by (auto simp: exchangeRefreshToken_def)
    next
      case (Inr rr)
      then obtain r res asc where rr: "rr = (r, res, asc)" by (cases rr)
      have r: "r \<in> set (refreshes s)" "s2 = s1" "set asc \<subseteq> set (rt_scope r)"
        using z Inr rr t1
        by (auto dest: row_found simp: refresh_checks_def refresh_by_def Let_def list_ex_iff split: if_splits option.splits)
      have txn: "refresh_txn e r res asc s2 = (s', x)"
        using assms y z Inr rr \<open>y = Inr c\<close> by (simp add: exchangeRefreshToken_def)
      show ?thesis
      proof (cases x)
        case (Inl err)
        then have "s' = s2" using txn by (auto simp: refresh_txn_def split: option.splits if_splits prod.splits)
        with n2 show ?thesis by simp
      next
        case (Inr p)
        obtain ts graced where rot: "rotate e r s2 = Some (ts, graced)"
          and live: "graced \<longrightarrow> list_ex (live_successor e r) ts"
          using txn Inr by (auto simp: refresh_txn_def split: option.splits if_splits prod.splits)
        let ?m = "s2\<lparr>refreshes := ts\<rparr>"
        obtain s3 q where mp: "mint_pair e (rt_client r) (rt_user r) asc (rt_scope r) res None ?m = (s3, q)"
          by (cases "mint_pair e (rt_client r) (rt_user r) asc (rt_scope r) res None ?m")
        have s': "\<exists>act. s' = record_event act (Some (rt_client r)) (Some (rt_user r)) s3"
          using txn rot live mp by (auto simp: refresh_txn_def)
        obtain a b where ab: "at_user a = rt_user r" "at_client a = rt_client r" "at_scope a = asc"
          "rt_user b = rt_user r" "rt_client b = rt_client r" "rt_scope b = rt_scope r"
          "accesses s3 = accesses ?m @ [a]" "refreshes s3 = refreshes ?m @ [b]" "codes s3 = codes ?m" "drawn s3 = drawn ?m + 2"
          using mint_adds [OF mp] by blast
        have nm: "narrows s ?m" using narrows_trans [OF n2 rotate_spec(1) [OF rot]] .
        then have ad: "adds s [a] [b] [] s'" using ab s' by (auto simp: adds_def record_event_def)
        have "\<exists>l \<in> set (refreshes s). rt_revoked l = None \<and> rt_user l = rt_user r"
        proof (cases graced)
          case True
          then obtain l where "l \<in> set (refreshes ?m)" "rt_user l = rt_user r" "rt_revoked l = None"
            using live by (auto simp: list_ex_iff live_successor_def)
          then show ?thesis using nm unfolding narrows_def keeps_refresh_def by metis
        next
          case False
          with rotate_spec(2) [OF rot] r(1) show ?thesis by auto
        qed
        with ab r ad show ?thesis by blast
      qed
    qed
  qed
qed

section \<open>Every credential stays within a consent\<close>

type_synonym consent = "ident \<times> ident \<times> string list"

text \<open>The consents a run records: who approved which client for which scopes.\<close>

fun consent_of :: "oauth_env \<Rightarrow> oauth_op \<Rightarrow> oauth \<Rightarrow> consent list" where
  "consent_of e (Op_approve k u sel) s =
     (case snd (approveAuthorizationRequest e k u sel s) of Inl _ \<Rightarrow> [] | Inr (_, r) \<Rightarrow> [(u, ar_client r, sel)])"
| "consent_of e _ s = []"

fun consents :: "oauth_env \<Rightarrow> (time \<times> oauth_op) list \<Rightarrow> oauth \<Rightarrow> consent list" where
  "consents e [] s = []"
| "consents e ((t, op) # ops) s =
     consent_of (e\<lparr>ox_now := t\<rparr>) op s @ consents e ops (oauth_step (e\<lparr>ox_now := t\<rparr>) op s)"

definition consent_covers :: "consent list \<Rightarrow> ident \<Rightarrow> ident \<Rightarrow> string list \<Rightarrow> bool" where
  "consent_covers cs u c sc \<longleftrightarrow> (\<exists>sel. (u, c, sel) \<in> set cs \<and> set sc \<subseteq> set sel)"

definition all_covered :: "consent list \<Rightarrow> oauth \<Rightarrow> bool" where
  "all_covered cs s \<longleftrightarrow>
     (\<forall>t \<in> set (accesses s). consent_covers cs (at_user t) (at_client t) (at_scope t))
     \<and> (\<forall>t \<in> set (refreshes s). consent_covers cs (rt_user t) (rt_client t) (rt_scope t))
     \<and> (\<forall>c \<in> set (codes s). consent_covers cs (ac_user c) (ac_client c) (ac_scope c))"

lemma covered_more: "consent_covers cs u c sc \<Longrightarrow> set sc' \<subseteq> set sc \<Longrightarrow> set cs \<subseteq> set cs' \<Longrightarrow> consent_covers cs' u c sc'"
  by (auto simp: consent_covers_def)

lemma covered_narrows:
  assumes "narrows s s'" and "all_covered cs s"
  shows "all_covered cs s'"
  using assms unfolding narrows_def all_covered_def keeps_access_def keeps_refresh_def keeps_code_def
  by metis

lemma covered_adds:
  assumes "adds s as rs ks s'" and "all_covered cs s"
    and "\<forall>t \<in> set as. consent_covers cs (at_user t) (at_client t) (at_scope t)"
    and "\<forall>t \<in> set rs. consent_covers cs (rt_user t) (rt_client t) (rt_scope t)"
    and "\<forall>c \<in> set ks. consent_covers cs (ac_user c) (ac_client c) (ac_scope c)"
  shows "all_covered cs s'"
proof -
  obtain m where m: "narrows s m" "accesses s' = accesses m @ as" "refreshes s' = refreshes m @ rs" "codes s' = codes m @ ks"
    using assms(1) by (auto simp: adds_def)
  from covered_narrows [OF m(1) assms(2)] show ?thesis
    using assms(3-5) by (auto simp: all_covered_def m)
qed

lemma all_covered_mono: "all_covered cs s \<Longrightarrow> all_covered (cs @ ds) s"
  by (auto simp: all_covered_def intro: covered_more)

lemma step_covered:
  assumes "all_covered cs s"
  shows "all_covered (cs @ consent_of e op s) (oauth_step e op s)"
proof (cases op)
  case (Op_approve k u sel)
  obtain s' x where a: "approveAuthorizationRequest e k u sel s = (s', x)" by (cases "approveAuthorizationRequest e k u sel s")
  show ?thesis
  proof (cases x)
    case (Inl err)
    with approve_adds [OF a] a assms Op_approve show ?thesis by (simp add: all_covered_mono)
  next
    case (Inr cr)
    then obtain code r where cr: "x = Inr (code, r)" by (cases cr) auto
    have ad: "adds s [] [] [issued_code e s r u sel] s'" using approve_adds [OF a] cr by simp
    have "all_covered (cs @ [(u, ar_client r, sel)]) s'"
      by (rule covered_adds [OF ad all_covered_mono [OF assms]])
        (auto simp: issued_code_def consent_covers_def)
    then show ?thesis using Op_approve a cr by simp
  qed
next
  case (Op_code i)
  obtain s' x where a: "exchangeAuthorizationCode e i s = (s', x)" by (cases "exchangeAuthorizationCode e i s")
  from code_exchange_adds [OF a] have "all_covered cs s'"
  proof (elim disjE exE conjE)
    assume "narrows s s'"
    then show ?thesis using assms by (rule covered_narrows)
  next
    fix r a b
    assume r: "r \<in> set (codes s)" and f: "at_user a = ac_user r" "at_client a = ac_client r" "at_scope a = ac_scope r"
      "rt_user b = ac_user r" "rt_client b = ac_client r" "rt_scope b = ac_scope r" and ad: "adds s [a] [b] [] s'"
    have "consent_covers cs (ac_user r) (ac_client r) (ac_scope r)" using assms r by (simp add: all_covered_def)
    with f show ?thesis by (intro covered_adds [OF ad assms]) auto
  qed
  with Op_code a show ?thesis by simp
next
  case (Op_refresh i)
  obtain s' x where a: "exchangeRefreshToken e i s = (s', x)" by (cases "exchangeRefreshToken e i s")
  from refresh_exchange_adds [OF a] have "all_covered cs s'"
  proof (elim disjE exE conjE)
    assume "narrows s s'"
    then show ?thesis using assms by (rule covered_narrows)
  next
    fix r a b
    assume r: "r \<in> set (refreshes s)" and f: "set (at_scope a) \<subseteq> set (rt_scope r)" "at_user a = rt_user r" "at_client a = rt_client r"
      "rt_user b = rt_user r" "rt_client b = rt_client r" "rt_scope b = rt_scope r" and ad: "adds s [a] [b] [] s'"
    have "consent_covers cs (rt_user r) (rt_client r) (rt_scope r)" using assms r by (simp add: all_covered_def)
    with f show ?thesis by (intro covered_adds [OF ad assms]) (auto intro: covered_more)
  qed
  with Op_refresh a show ?thesis by simp
next
  case (Op_account u a)
  with assms show ?thesis by (simp add: all_covered_def)
qed (use assms in \<open>auto intro!: covered_narrows [OF _ assms] register_narrows request_narrows deny_narrows revokeMcpToken_narrows
        revokeMcpGrant_narrows revokeAll_narrows cleanup_narrows\<close>)

lemma run_covered: "all_covered cs s \<Longrightarrow> all_covered (cs @ consents e ops s) (oauth_run e ops s)"
proof (induction ops arbitrary: cs s)
  case (Cons top ops)
  obtain t op where top: "top = (t, op)" by (cases top)
  show ?case
    using Cons.IH [OF step_covered [OF Cons.prems, of "e\<lparr>ox_now := t\<rparr>" op]] by (simp add: top)
qed simp

definition empty_oauth :: oauth where
  "empty_oauth = \<lparr>clients = [], requests = [], codes = [], accesses = [], refreshes = [], trail = [],
     account_active = (\<lambda>_. True), drawn = 0\<rparr>"

text \<open>C14: whatever registrations, approvals, exchanges, refreshes, races and revocations happened, an
  access token that verifies acts for a user who approved its client, with no scope beyond one single
  consent of theirs.\<close>

theorem scopes_stay_within_consent:
  assumes "verifyMcpAccessToken e' tok (oauth_run e ops empty_oauth) = Some v"
  shows "\<exists>sel. (vf_user v, vf_client v, sel) \<in> set (consents e ops empty_oauth) \<and> set (vf_scopes v) \<subseteq> set sel"
proof -
  have "all_covered (consents e ops empty_oauth) (oauth_run e ops empty_oauth)"
    using run_covered [of "[]" empty_oauth e ops] by (simp add: all_covered_def empty_oauth_def)
  then show ?thesis
    using assms by (auto simp: verifyMcpAccessToken_def access_by_def all_covered_def consent_covers_def
        split: if_splits option.splits dest!: row_found)
qed

section \<open>A disconnect is final\<close>

definition disconnected :: "ident \<Rightarrow> oauth \<Rightarrow> bool" where
  "disconnected u s \<longleftrightarrow>
     (\<forall>t \<in> set (accesses s). at_user t = u \<longrightarrow> at_revoked t \<noteq> None)
     \<and> (\<forall>t \<in> set (refreshes s). rt_user t = u \<longrightarrow> rt_revoked t \<noteq> None)
     \<and> (\<forall>c \<in> set (codes s). ac_user c = u \<longrightarrow> ac_used c \<noteq> None)"

fun approves_for :: "ident \<Rightarrow> oauth_op \<Rightarrow> bool" where
  "approves_for u (Op_approve _ v _) \<longleftrightarrow> v = u"
| "approves_for u _ \<longleftrightarrow> False"

lemma disconnected_narrows: "narrows s s' \<Longrightarrow> disconnected u s \<Longrightarrow> disconnected u s'"
  unfolding narrows_def disconnected_def keeps_access_def keeps_refresh_def keeps_code_def by metis

lemma disconnected_adds:
  assumes "adds s as rs ks s'" and "disconnected u s"
    and "\<forall>t \<in> set as. at_user t \<noteq> u" and "\<forall>t \<in> set rs. rt_user t \<noteq> u" and "\<forall>c \<in> set ks. ac_user c \<noteq> u"
  shows "disconnected u s'"
proof -
  obtain m where m: "narrows s m" "accesses s' = accesses m @ as" "refreshes s' = refreshes m @ rs" "codes s' = codes m @ ks"
    using assms(1) by (auto simp: adds_def)
  from disconnected_narrows [OF m(1) assms(2)] show ?thesis
    using assms(3-5) by (auto simp: disconnected_def m)
qed

lemma step_disconnected:
  assumes "disconnected u s" and "\<not> approves_for u op"
  shows "disconnected u (oauth_step e op s)"
proof (cases op)
  case (Op_approve k v sel)
  then have v: "v \<noteq> u" using assms(2) by simp
  obtain s' x where a: "approveAuthorizationRequest e k v sel s = (s', x)" by (cases "approveAuthorizationRequest e k v sel s")
  show ?thesis
  proof (cases x)
    case (Inl err)
    with approve_adds [OF a] a assms Op_approve show ?thesis by simp
  next
    case (Inr cr)
    then obtain code r where cr: "x = Inr (code, r)" by (cases cr) auto
    have "adds s [] [] [issued_code e s r v sel] s'" using approve_adds [OF a] cr by simp
    then have "disconnected u s'" by (rule disconnected_adds [OF _ assms(1)]) (use v in \<open>auto simp: issued_code_def\<close>)
    then show ?thesis using Op_approve a by simp
  qed
next
  case (Op_code i)
  obtain s' x where a: "exchangeAuthorizationCode e i s = (s', x)" by (cases "exchangeAuthorizationCode e i s")
  from code_exchange_adds [OF a] have "disconnected u s'"
  proof (elim disjE exE conjE)
    assume "narrows s s'"
    then show ?thesis using assms(1) by (rule disconnected_narrows)
  next
    fix r a b
    assume r: "r \<in> set (codes s)" "ac_used r = None" and f: "at_user a = ac_user r" "rt_user b = ac_user r"
      and ad: "adds s [a] [b] [] s'"
    have "ac_user r \<noteq> u" using assms(1) r by (auto simp: disconnected_def)
    with f show ?thesis by (intro disconnected_adds [OF ad assms(1)]) auto
  qed
  with Op_code a show ?thesis by simp
next
  case (Op_refresh i)
  obtain s' x where a: "exchangeRefreshToken e i s = (s', x)" by (cases "exchangeRefreshToken e i s")
  from refresh_exchange_adds [OF a] have "disconnected u s'"
  proof (elim disjE exE conjE)
    assume "narrows s s'"
    then show ?thesis using assms(1) by (rule disconnected_narrows)
  next
    fix r a b l
    assume f: "at_user a = rt_user r" "rt_user b = rt_user r" and l: "l \<in> set (refreshes s)" "rt_revoked l = None" "rt_user l = rt_user r"
      and ad: "adds s [a] [b] [] s'"
    have "rt_user r \<noteq> u" using assms(1) l by (auto simp: disconnected_def)
    with f show ?thesis by (intro disconnected_adds [OF ad assms(1)]) auto
  qed
  with Op_refresh a show ?thesis by simp
next
  case (Op_account v a)
  with assms show ?thesis by (simp add: disconnected_def)
qed (use assms(1) in \<open>auto intro!: disconnected_narrows [OF _ assms(1)] register_narrows request_narrows deny_narrows revokeMcpToken_narrows
        revokeMcpGrant_narrows revokeAll_narrows cleanup_narrows\<close>)

lemma run_disconnected:
  "disconnected u s \<Longrightarrow> \<forall>(t, op) \<in> set ops. \<not> approves_for u op \<Longrightarrow> disconnected u (oauth_run e ops s)"
proof (induction ops arbitrary: s)
  case (Cons top ops)
  obtain t op where top: "top = (t, op)" by (cases top)
  with Cons.prems step_disconnected [OF Cons.prems(1), of op "e\<lparr>ox_now := t\<rparr>"] Cons.IH show ?case by simp
qed simp

definition no_pending_code :: "ident \<Rightarrow> oauth \<Rightarrow> bool" where
  "no_pending_code u s \<longleftrightarrow> (\<forall>c \<in> set (codes s). ac_user c = u \<longrightarrow> ac_used c \<noteq> None)"

lemma revoke_access_dead:
  assumes "t \<in> set (accesses (revoke_access e P s))" and "P t" and "\<And>t x. P (t\<lparr>at_revoked := x\<rparr>) = P t"
  shows "at_revoked t \<noteq> None"
proof -
  obtain t0 where "t0 \<in> set (accesses s)"
    and t: "t = (if P t0 \<and> at_revoked t0 = None then t0\<lparr>at_revoked := Some (ox_now e)\<rparr> else t0)"
    using assms(1) by (auto simp: revoke_access_def set_update_where)
  then show ?thesis using assms(2) by (cases "P t0 \<and> at_revoked t0 = None") auto
qed

lemma revoke_refresh_dead:
  assumes "t \<in> set (refreshes (revoke_refresh e Q s))" and "Q t" and "\<And>t x. Q (t\<lparr>rt_revoked := x\<rparr>) = Q t"
  shows "rt_revoked t \<noteq> None"
proof -
  obtain t0 where "t0 \<in> set (refreshes s)"
    and t: "t = (if Q t0 \<and> rt_revoked t0 = None then t0\<lparr>rt_revoked := Some (ox_now e)\<rparr> else t0)"
    using assms(1) by (auto simp: revoke_refresh_def set_update_where)
  then show ?thesis using assms(2) by (cases "Q t0 \<and> rt_revoked t0 = None") auto
qed

lemma revoke_tables [simp]:
  "accesses (revoke_refresh e Q s) = accesses s" "refreshes (revoke_access e P s) = refreshes s"
  "codes (revoke_access e P s) = codes s" "codes (revoke_refresh e Q s) = codes s"
  "clients (revoke_access e P s) = clients s" "clients (revoke_refresh e Q s) = clients s"
  "account_active (revoke_access e P s) = account_active s" "account_active (revoke_refresh e Q s) = account_active s"
  "drawn (revoke_access e P s) = drawn s" "drawn (revoke_refresh e Q s) = drawn s"
  "accesses (record_event a k v s) = accesses s" "refreshes (record_event a k v s) = refreshes s"
  "codes (record_event a k v s) = codes s" "clients (record_event a k v s) = clients s"
  "account_active (record_event a k v s) = account_active s" "drawn (record_event a k v s) = drawn s"
  by (simp_all add: revoke_access_def revoke_refresh_def record_event_def)

lemma revokeAll_disconnects: "no_pending_code u s \<Longrightarrow> disconnected u (fst (revokeAllMcpGrants e u s))"
proof -
  assume codes: "no_pending_code u s"
  let ?P = "\<lambda>t. at_user t = u" and ?Q = "\<lambda>t. rt_user t = u"
  have r: "accesses (fst (revokeAllMcpGrants e u s)) = accesses (revoke_access e ?P s)"
    "refreshes (fst (revokeAllMcpGrants e u s)) = refreshes (revoke_refresh e ?Q (revoke_access e ?P s))"
    "codes (fst (revokeAllMcpGrants e u s)) = codes s"
    by (simp_all add: revokeAllMcpGrants_def Let_def)
  show ?thesis
    unfolding disconnected_def r
    using codes revoke_access_dead [of _ e ?P s] revoke_refresh_dead [of _ e ?Q "revoke_access e ?P s"]
    by (auto simp: no_pending_code_def)
qed

lemma disconnected_verifies:
  assumes "disconnected u s" and "verifyMcpAccessToken e tok s = Some v"
  shows "vf_user v \<noteq> u"
  using assms by (auto simp: verifyMcpAccessToken_def access_by_def disconnected_def
      split: if_splits option.splits dest!: row_found)

text \<open>C16: after a user disconnected every client, with no code of theirs waiting to be exchanged, no
  access token acts for them again and no refresh token revives one, the rotation grace included,
  until they approve a new request.\<close>

theorem disconnect_is_final:
  assumes "no_pending_code u s" and "\<forall>(t, op) \<in> set ops. \<not> approves_for u op"
  shows "case verifyMcpAccessToken e' tok (oauth_run e ops (fst (revokeAllMcpGrants e0 u s))) of
           None \<Rightarrow> True
         | Some v \<Rightarrow> vf_user v \<noteq> u"
  using disconnected_verifies [OF run_disconnected [OF revokeAll_disconnects [OF assms(1)] assms(2)]]
  by (auto split: option.splits)

section \<open>A code is spent once\<close>

text \<open>Every stored code with this id or this hash is that code, and it is used.\<close>

definition spent :: "ident \<Rightarrow> string \<Rightarrow> oauth \<Rightarrow> bool" where
  "spent k h s \<longleftrightarrow> (\<forall>c \<in> set (codes s). ac_id c = k \<or> ac_hash c = h \<longrightarrow> ac_id c = k \<and> ac_used c \<noteq> None)"

text \<open>No id and no code string drawn from here on repeats those of a code: both columns are unique.\<close>

definition drawn_anew :: "oauth_env \<Rightarrow> ident \<Rightarrow> string \<Rightarrow> oauth \<Rightarrow> bool" where
  "drawn_anew e k h s \<longleftrightarrow> (\<forall>m \<ge> drawn s. ox_id e m \<noteq> k \<and> ox_hmac e (CODE_PREFIX @ ox_random e m) \<noteq> h)"

lemma spent_narrows: "narrows s s' \<Longrightarrow> spent k h s \<Longrightarrow> spent k h s' \<and> drawn s \<le> drawn s'"
  unfolding narrows_def spent_def keeps_code_def by metis

lemma spent_adds:
  assumes "adds s as rs ks s'" and "spent k h s" and "\<forall>c \<in> set ks. ac_id c \<noteq> k \<and> ac_hash c \<noteq> h"
  shows "spent k h s' \<and> drawn s \<le> drawn s'"
proof -
  obtain m where m: "narrows s m" "codes s' = codes m @ ks" "drawn m \<le> drawn s'"
    using assms(1) by (auto simp: adds_def)
  from spent_narrows [OF m(1) assms(2)] show ?thesis
    using assms(3) m by (auto simp: spent_def)
qed

lemma step_spent:
  assumes "spent k h s" and "drawn_anew e k h s"
  shows "spent k h (oauth_step e op s) \<and> drawn s \<le> drawn (oauth_step e op s)"
proof (cases op)
  case (Op_approve j v sel)
  obtain s' x where a: "approveAuthorizationRequest e j v sel s = (s', x)" by (cases "approveAuthorizationRequest e j v sel s")
  show ?thesis
  proof (cases x)
    case (Inl err)
    with approve_adds [OF a] a assms Op_approve show ?thesis by simp
  next
    case (Inr cr)
    then obtain code r where cr: "x = Inr (code, r)" by (cases cr) auto
    have ad: "adds s [] [] [issued_code e s r v sel] s'" using approve_adds [OF a] cr by simp
    have "spent k h s' \<and> drawn s \<le> drawn s'"
      by (intro spent_adds [OF ad assms(1)]) (use assms(2) in \<open>auto simp: issued_code_def drawn_anew_def opaque_def\<close>)
    then show ?thesis using Op_approve a by simp
  qed
next
  case (Op_code i)
  obtain s' x where a: "exchangeAuthorizationCode e i s = (s', x)" by (cases "exchangeAuthorizationCode e i s")
  have "spent k h s' \<and> drawn s \<le> drawn s'"
    using code_exchange_adds [OF a] spent_narrows [OF _ assms(1)] spent_adds [OF _ assms(1)] by fastforce
  with Op_code a show ?thesis by simp
next
  case (Op_refresh i)
  obtain s' x where a: "exchangeRefreshToken e i s = (s', x)" by (cases "exchangeRefreshToken e i s")
  have "spent k h s' \<and> drawn s \<le> drawn s'"
    using refresh_exchange_adds [OF a] spent_narrows [OF _ assms(1)] spent_adds [OF _ assms(1)] by fastforce
  with Op_refresh a show ?thesis by simp
next
  case (Op_account v a)
  with assms show ?thesis by (simp add: spent_def)
qed (use assms(1) in \<open>auto intro!: spent_narrows [OF _ assms(1), THEN conjunct1] spent_narrows [OF _ assms(1), THEN conjunct2]
        register_narrows request_narrows deny_narrows revokeMcpToken_narrows
        revokeMcpGrant_narrows revokeAll_narrows cleanup_narrows\<close>)

lemma run_spent:
  "spent k h s \<Longrightarrow> drawn_anew e k h s \<Longrightarrow> spent k h (oauth_run e ops s)"
proof (induction ops arbitrary: s)
  case (Cons top ops)
  obtain t op where top: "top = (t, op)" by (cases top)
  have "drawn_anew (e\<lparr>ox_now := t\<rparr>) k h s" using Cons.prems(2) by (simp add: drawn_anew_def)
  note s = step_spent [OF Cons.prems(1) this, of op]
  have "drawn_anew e k h (oauth_step (e\<lparr>ox_now := t\<rparr>) op s)" using Cons.prems(2) s by (auto simp: drawn_anew_def)
  with Cons.IH s top show ?case by simp
qed simp

lemma code_txn_spends:
  assumes "code_txn e r res s = (s', Inr p)" and "distinct (map ac_id (codes s))" and "distinct (map ac_hash (codes s))"
    and "r \<in> set (codes s)"
  shows "spent (ac_id r) (ac_hash r) s'" and "drawn s \<le> drawn s'"
proof -
  let ?f = "\<lambda>c. c\<lparr>ac_used := Some (ox_now e)\<rparr>"
  have c: "count_where (spendable e r) (codes s) = 1"
    and cs: "codes s' = update_where (spendable e r) ?f (codes s)"
    using code_txn_cases [OF assms(1)] by auto
  have id_uniq: "c1 = r" if "c1 \<in> set (codes s)" "ac_id c1 = ac_id r" for c1
    using that assms(2,4) by (metis distinct_map inj_on_def)
  have hash_uniq: "c1 = r" if "c1 \<in> set (codes s)" "ac_hash c1 = ac_hash r" for c1
    using that assms(3,4) by (metis distinct_map inj_on_def)
  obtain c0 where c0: "c0 \<in> set (codes s)" "spendable e r c0"
    using c count_where_pos_iff [of "spendable e r" "codes s"] by auto
  then have "c0 = r" using id_uniq by (simp add: spendable_def)
  then have sp: "spendable e r r" using c0 by simp
  have "ac_id c' = ac_id r \<and> ac_used c' \<noteq> None" if c': "c' \<in> set (codes s')" "ac_id c' = ac_id r \<or> ac_hash c' = ac_hash r" for c'
  proof -
    obtain c1 where c1: "c1 \<in> set (codes s)" "c' = (if spendable e r c1 then ?f c1 else c1)"
      using c'(1) cs by (auto simp: set_update_where)
    then have "c1 = r" using c'(2) id_uniq hash_uniq by (auto split: if_splits)
    with sp c1(2) show ?thesis by simp
  qed
  then show "spent (ac_id r) (ac_hash r) s'" by (auto simp: spent_def)
  have "adds s as rs ks s' \<Longrightarrow> drawn s \<le> drawn s'" for as rs ks
    by (auto simp: adds_def narrows_def)
  then show "drawn s \<le> drawn s'" using code_txn_cases [OF assms(1)] by auto
qed

text \<open>A successful exchange found the row of its code and spent it.\<close>

lemma exchange_spends:
  assumes "exchangeAuthorizationCode e i s = (s', Inr p)" and "code_by (ox_hmac e (ci_code i)) s = Some r"
    and "distinct (map ac_id (codes s))" and "distinct (map ac_hash (codes s))"
  shows "spent (ac_id r) (ac_hash r) s'" and "drawn s \<le> drawn s'" and "ac_hash r = ox_hmac e (ci_code i)"
proof -
  obtain s1 c where r1: "resolveClient e True (ci_client i) s = (s1, Inr c)"
    using assms(1) by (auto simp: exchangeAuthorizationCode_def split: prod.splits sum.splits)
  note t1 = resolve_tables [OF r1]
  have by1: "code_by (ox_hmac e (ci_code i)) s1 = Some r" using assms(2) t1 by (simp add: code_by_def)
  obtain s2 r2 res where ch: "code_checks e i c s1 = (s2, Inr (r2, res))" and tx: "code_txn e r2 res s2 = (s', Inr p)"
    using assms(1) r1 by (auto simp: exchangeAuthorizationCode_def split: prod.splits sum.splits)
  have r2: "r2 = r" "s2 = s1"
    using ch by1 by (auto simp: code_checks_def split: if_splits option.splits)
  have mem: "r \<in> set (codes s1)" and h: "ac_hash r = ox_hmac e (ci_code i)"
    using by1 by (auto simp: code_by_def dest: find_where_Some)
  have d: "distinct (map ac_id (codes s1))" "distinct (map ac_hash (codes s1))" using assms(3,4) t1 by simp_all
  show "spent (ac_id r) (ac_hash r) s'" using code_txn_spends(1) [OF tx [unfolded r2] d mem] .
  show "drawn s \<le> drawn s'" using code_txn_spends(2) [OF tx [unfolded r2] d mem] t1 by simp
  show "ac_hash r = ox_hmac e (ci_code i)" by (rule h)
qed

lemma spent_not_spendable: "spent k h s \<Longrightarrow> ac_id r = k \<Longrightarrow> count_where (spendable e r) (codes s) = 0"
  by (auto simp: count_where_0_iff spent_def spendable_def)

text \<open>From the first state to the second nothing happened to the tables of credentials but that live tokens
  of code \<open>k\<close> were revoked.\<close>

definition only_revokes :: "ident \<Rightarrow> oauth \<Rightarrow> oauth \<Rightarrow> bool" where
  "only_revokes k s s' \<longleftrightarrow>
     codes s' = codes s
     \<and> list_all2 (\<lambda>t t'. t' = t \<or> at_code t = Some k \<and> at_revoked t = None \<and> (\<exists>w. t' = t\<lparr>at_revoked := Some w\<rparr>))
          (accesses s) (accesses s')
     \<and> list_all2 (\<lambda>t t'. t' = t \<or> rt_code t = Some k \<and> rt_revoked t = None \<and> (\<exists>w. t' = t\<lparr>rt_revoked := Some w\<rparr>))
          (refreshes s) (refreshes s')"

lemma list_all2_update: "(\<And>x. P x \<Longrightarrow> R x (f x)) \<Longrightarrow> (\<And>x. R x x) \<Longrightarrow> list_all2 R xs (update_where P f xs)"
  by (induction xs) (auto simp: update_where_def)

lemma only_revokes_same:
  "accesses s' = accesses s \<Longrightarrow> refreshes s' = refreshes s \<Longrightarrow> codes s' = codes s \<Longrightarrow> only_revokes k s s'"
  by (simp add: only_revokes_def list.rel_refl)

lemma revoke_code_tokens_tables:
  "accesses (revokeTokensFromAuthorizationCode e r s) = accesses (revoke_access e (\<lambda>t. at_code t = Some (ac_id r)) s)"
  "refreshes (revokeTokensFromAuthorizationCode e r s) = refreshes (revoke_refresh e (\<lambda>t. rt_code t = Some (ac_id r)) s)"
  "codes (revokeTokensFromAuthorizationCode e r s) = codes s"
  "account_active (revokeTokensFromAuthorizationCode e r s) = account_active s"
  by (simp_all add: revokeTokensFromAuthorizationCode_def Let_def revoke_refresh_def)

lemma revoke_code_tokens_only: "only_revokes (ac_id r) s (revokeTokensFromAuthorizationCode e r s)"
  unfolding only_revokes_def revoke_code_tokens_tables
  by (intro conjI refl)
    (auto simp: revoke_access_def revoke_refresh_def intro!: list_all2_update)

text \<open>What an exchange of a spent code does.\<close>

lemma spent_exchange:
  assumes "spent k (ox_hmac e (ci_code i)) s" and "exchangeAuthorizationCode e i s = (s', x)"
  shows "(\<exists>err. x = Inl err) \<and> only_revokes k s s'
    \<and> (\<forall>c r. snd (resolveClient e True (ci_client i) s) = Inr c \<and> verifier_ok (ci_verifier i)
          \<and> code_by (ox_hmac e (ci_code i)) s = Some r
        \<longrightarrow> (\<forall>t \<in> set (accesses s'). at_code t = Some k \<longrightarrow> at_revoked t \<noteq> None)
          \<and> (\<forall>t \<in> set (refreshes s'). rt_code t = Some k \<longrightarrow> rt_revoked t \<noteq> None))"
proof -
  obtain s1 y where r1: "resolveClient e True (ci_client i) s = (s1, y)" by (cases "resolveClient e True (ci_client i) s")
  note t1 = resolve_tables [OF r1]
  have same1: "only_revokes k s s1" using t1 by (intro only_revokes_same) simp_all
  have by1: "code_by h s1 = code_by h s" for h using t1 by (simp add: code_by_def)
  show ?thesis
  proof (cases y)
    case (Inl err)
    then have "s' = s1" "x = Inl err" using assms(2) r1 by (simp_all add: exchangeAuthorizationCode_def)
    then show ?thesis using r1 same1 Inl by simp
  next
    case (Inr c)
    show ?thesis
    proof (cases "verifier_ok (ci_verifier i) \<and> code_by (ox_hmac e (ci_code i)) s \<noteq> None")
      case False
      then show ?thesis
        using assms(2) r1 Inr same1 by1
        by (auto simp: exchangeAuthorizationCode_def code_checks_def split: if_splits option.splits)
    next
      case True
      then obtain r where r: "code_by (ox_hmac e (ci_code i)) s = Some r" by blast
      have "r \<in> set (codes s)" "ac_hash r = ox_hmac e (ci_code i)" using r by (auto simp: code_by_def dest: find_where_Some)
      then have u: "ac_used r \<noteq> None" "ac_id r = k" using assms(1) by (auto simp: spent_def)
      have s': "s' = revokeTokensFromAuthorizationCode e r s1" "\<exists>err. x = Inl err"
        using assms(2) r1 Inr True r u(1) by1 by (auto simp: exchangeAuthorizationCode_def code_checks_def)
      have "only_revokes k s s'"
        using revoke_code_tokens_only [of r s1 e] t1 u(2) s'(1) by (simp add: only_revokes_def)
      moreover have "\<forall>t \<in> set (accesses s'). at_code t = Some k \<longrightarrow> at_revoked t \<noteq> None"
        "\<forall>t \<in> set (refreshes s'). rt_code t = Some k \<longrightarrow> rt_revoked t \<noteq> None"
        unfolding s'(1) revoke_code_tokens_tables u(2) by (auto dest: revoke_access_dead revoke_refresh_dead)
      ultimately show ?thesis using s'(2) by blast
    qed
  qed
qed

text \<open>C15: a code is spent once. Once a code was exchanged, then whatever the server does next (given that no
  id and no code string drawn later repeats those of this code), every later exchange of the same code
  string, by any client with any verifier, is refused and issues nothing: of the tables of credentials it
  touches live tokens issued from this very code only, which it revokes, and when its client resolves, its
  verifier is well formed and the code is still stored, it leaves none of them alive. A racing exchange that
  read the code while it was unused loses its guarded write and changes nothing at all.\<close>

theorem code_spent_once:
  assumes "exchangeAuthorizationCode (e\<lparr>ox_now := t\<rparr>) i s = (s1, Inr p)"
    and "code_by (ox_hmac e (ci_code i)) s = Some r"
    and "distinct (map ac_id (codes s))" and "distinct (map ac_hash (codes s))" and "drawn_anew e (ac_id r) (ac_hash r) s"
    and "s2 = oauth_run e ops s1" and "ci_code i' = ci_code i"
    and "exchangeAuthorizationCode (e\<lparr>ox_now := t'\<rparr>) i' s2 = (s3, x)"
  shows "(\<exists>err. x = Inl err) \<and> only_revokes (ac_id r) s2 s3
    \<and> (snd (resolveClient (e\<lparr>ox_now := t'\<rparr>) True (ci_client i') s2) = Inr c \<and> verifier_ok (ci_verifier i')
        \<and> code_by (ox_hmac e (ci_code i)) s2 \<noteq> None
       \<longrightarrow> (\<forall>t \<in> set (accesses s3). at_code t = Some (ac_id r) \<longrightarrow> at_revoked t \<noteq> None)
         \<and> (\<forall>t \<in> set (refreshes s3). rt_code t = Some (ac_id r) \<longrightarrow> rt_revoked t \<noteq> None))
    \<and> (ac_id r' = ac_id r \<longrightarrow>
         code_txn (e\<lparr>ox_now := t''\<rparr>) r' res s2 = (s2, Inl (invalid_grant ''Authorization code has already been used.'')))"
proof -
  let ?e = "e\<lparr>ox_now := t\<rparr>" and ?e' = "e\<lparr>ox_now := t'\<rparr>"
  have r: "code_by (ox_hmac ?e (ci_code i)) s = Some r" using assms(2) by simp
  note first = exchange_spends [OF assms(1) r assms(3,4)]
  have h: "ac_hash r = ox_hmac e (ci_code i)" using first(3) by simp
  have "drawn_anew e (ac_id r) (ac_hash r) s1" using assms(5) first(2) by (auto simp: drawn_anew_def)
  then have sp: "spent (ac_id r) (ac_hash r) s2" unfolding assms(6) by (rule run_spent [OF first(1)])
  then have "spent (ac_id r) (ox_hmac ?e' (ci_code i')) s2" using h assms(7) by simp
  note later = spent_exchange [OF this assms(8)]
  have "code_txn (e\<lparr>ox_now := t''\<rparr>) r' res s2 = (s2, Inl (invalid_grant ''Authorization code has already been used.''))"
    if "ac_id r' = ac_id r"
    using spent_not_spendable [OF sp that] by (simp add: code_txn_def update_many_def)
  with later show ?thesis using assms(7) by auto
qed

section \<open>The replay of a code\<close>

lemma filter_update_other:
  "(\<And>t. P (f t) = P t) \<Longrightarrow> filter (\<lambda>t. \<not> P t) (update_where (\<lambda>t. P t \<and> Q t) f rs) = filter (\<lambda>t. \<not> P t) rs"
  by (induction rs) auto

lemma resolve_snd_cong: "clients s' = clients s \<Longrightarrow> snd (resolveClient e b k s') = snd (resolveClient e b k s)"
  by (simp add: resolveClient_def getClient_def client_by_def split: sum.splits option.splits)

lemma unknown_code_refused:
  assumes "resolveClient e True (ci_client i) s = (s1, Inr c)" and "verifier_ok (ci_verifier i)"
  shows "snd (exchangeAuthorizationCode e i (s\<lparr>codes := []\<rparr>)) = Inl (invalid_grant ''Authorization code is invalid or expired.'')"
proof -
  obtain m where m: "resolveClient e True (ci_client i) (s\<lparr>codes := []\<rparr>) = (m, Inr c)"
    using resolve_snd_cong [of "s\<lparr>codes := []\<rparr>" s e True "ci_client i"] assms(1) by (metis oauth.select_convs(1) oauth.surjective
        oauth.update_convs(3) prod.collapse snd_conv)
  have "codes m = []" using resolve_tables [OF m] by simp
  then show ?thesis
    using assms(2) m by (simp add: exchangeAuthorizationCode_def code_checks_def code_by_def)
qed

text \<open>presenting a used code is refused with the same error as an unknown code; every token
  issued from it is revoked, and no other token is touched.\<close>

lemma replay_revokes_its_tokens:
  assumes "resolveClient e True (ci_client i) s = (s1, Inr c)" and "verifier_ok (ci_verifier i)"
    and "code_by (ox_hmac e (ci_code i)) s = Some r" and "ac_used r \<noteq> None"
    and "exchangeAuthorizationCode e i s = (s', x)"
  shows "x = snd (exchangeAuthorizationCode e i (s\<lparr>codes := []\<rparr>))
         \<and> (\<forall>t \<in> set (accesses s'). at_code t = Some (ac_id r) \<longrightarrow> at_revoked t \<noteq> None)
         \<and> (\<forall>t \<in> set (refreshes s'). rt_code t = Some (ac_id r) \<longrightarrow> rt_revoked t \<noteq> None)
         \<and> filter (\<lambda>t. \<not> at_code t = Some (ac_id r)) (accesses s') = filter (\<lambda>t. \<not> at_code t = Some (ac_id r)) (accesses s)
         \<and> filter (\<lambda>t. \<not> rt_code t = Some (ac_id r)) (refreshes s') = filter (\<lambda>t. \<not> rt_code t = Some (ac_id r)) (refreshes s)"
proof -
  note t1 = resolve_tables [OF assms(1)]
  have "code_by (ox_hmac e (ci_code i)) s1 = Some r" using assms(3) t1 by (simp add: code_by_def)
  then have "s' = revokeTokensFromAuthorizationCode e r s1"
    and x: "x = Inl (invalid_grant ''Authorization code is invalid or expired.'')"
    using assms(1,2,4,5) by (auto simp: exchangeAuthorizationCode_def code_checks_def)
  then have acc: "accesses s' = accesses (revoke_access e (\<lambda>t. at_code t = Some (ac_id r)) s1)"
    and ref: "refreshes s' = refreshes (revoke_refresh e (\<lambda>t. rt_code t = Some (ac_id r)) s1)"
    by (simp_all add: revoke_code_tokens_tables)
  have others: "filter (\<lambda>t. \<not> at_code t = Some (ac_id r)) (accesses s') = filter (\<lambda>t. \<not> at_code t = Some (ac_id r)) (accesses s)"
    "filter (\<lambda>t. \<not> rt_code t = Some (ac_id r)) (refreshes s') = filter (\<lambda>t. \<not> rt_code t = Some (ac_id r)) (refreshes s)"
    unfolding acc ref using t1 by (simp_all add: revoke_access_def revoke_refresh_def filter_update_other)
  have dead: "\<forall>t \<in> set (accesses s'). at_code t = Some (ac_id r) \<longrightarrow> at_revoked t \<noteq> None"
    "\<forall>t \<in> set (refreshes s'). rt_code t = Some (ac_id r) \<longrightarrow> rt_revoked t \<noteq> None"
    unfolding acc ref by (auto dest: revoke_access_dead revoke_refresh_dead)
  show ?thesis using unknown_code_refused [OF assms(1,2)] x others dead by simp
qed

section \<open>What a replay and a disconnect leave alive\<close>

lemma access_by_snoc:
  "(\<forall>t \<in> set as. at_hash t \<noteq> h) \<Longrightarrow> at_hash a = h \<Longrightarrow> find_where (\<lambda>t. at_hash t = h) (as @ [a]) = Some a"
  by (induction as) auto

lemma revoke_access_other:
  "\<not> P a \<Longrightarrow> find_where (\<lambda>t. at_hash t = h) (accesses s) = Some a
   \<Longrightarrow> find_where (\<lambda>t. at_hash t = h) (accesses (revoke_access e P s)) = Some a"
  by (simp add: revoke_access_def find_where_update_where)

lemma refresh_txn_access:
  assumes "refresh_txn e r res asc s = (s1, Inr p)" and "\<forall>t \<in> set (accesses s). at_hash t \<noteq> ox_hmac e (tp_access p)"
  shows "\<exists>a. access_by (ox_hmac e (tp_access p)) s1 = Some a \<and> at_user a = rt_user r \<and> at_client a = rt_client r
           \<and> at_scope a = asc \<and> at_code a = None \<and> at_revoked a = None \<and> at_resource a = Some res
           \<and> at_expires a = ox_now e + ACCESS_TTL_MS \<and> account_active s1 = account_active s
           \<and> take (length ACCESS_PREFIX) (tp_access p) = ACCESS_PREFIX"
proof -
  obtain ts graced where rot: "rotate e r s = Some (ts, graced)" and live: "\<not> (graced \<and> \<not> list_ex (live_successor e r) ts)"
    using assms(1) by (auto simp: refresh_txn_def split: option.splits if_splits prod.splits)
  obtain s3 q where mp: "mint_pair e (rt_client r) (rt_user r) asc (rt_scope r) res None (s\<lparr>refreshes := ts\<rparr>) = (s3, q)"
    by (cases "mint_pair e (rt_client r) (rt_user r) asc (rt_scope r) res None (s\<lparr>refreshes := ts\<rparr>)")
  have q: "q = p" "accesses s1 = accesses s3" "account_active s1 = account_active s3"
    using assms(1) rot live mp by (auto simp: refresh_txn_def split: if_splits)
  have pre: "take (length ACCESS_PREFIX) (tp_access q) = ACCESS_PREFIX"
    using mp by (auto simp: mint_pair_def Let_def opaque_def)
  show ?thesis
    using mint_adds [OF mp] access_by_snoc [OF assms(2)] q pre
    by (auto simp: access_by_def)
qed

text \<open>the replay response does not reach the tokens minted by a refresh: whichever code is
  replayed, the pair of the last refresh keeps working for its full eight hours.\<close>

lemma refreshed_tokens_survive_replay:
  assumes "refresh_txn e r res asc s = (s1, Inr p)" and "\<forall>t \<in> set (accesses s). at_hash t \<noteq> ox_hmac e (tp_access p)"
    and "ox_hmac e' = ox_hmac e" and "kept_resource e' (Some res) = the_resource e'"
    and "account_active s (rt_user r)" and "ox_now e' \<le> ox_now e + ACCESS_TTL_MS"
  shows "verifyMcpAccessToken e' (tp_access p) (revokeTokensFromAuthorizationCode e' c s1)
           = Some \<lparr>vf_user = rt_user r, vf_client = rt_client r, vf_scopes = asc\<rparr>"
proof -
  obtain a where a: "access_by (ox_hmac e (tp_access p)) s1 = Some a" "at_user a = rt_user r" "at_client a = rt_client r"
    "at_scope a = asc" "at_code a = None" "at_revoked a = None" "at_resource a = Some res"
    "at_expires a = ox_now e + ACCESS_TTL_MS" "account_active s1 = account_active s"
    "take (length ACCESS_PREFIX) (tp_access p) = ACCESS_PREFIX"
    using refresh_txn_access [OF assms(1,2)] by blast
  have "access_by (ox_hmac e' (tp_access p)) (revokeTokensFromAuthorizationCode e' c s1) = Some a"
    using a(1,5) assms(3) revoke_access_other [of "\<lambda>t. at_code t = Some (ac_id c)" a _ s1 e']
    by (simp add: access_by_def revoke_code_tokens_tables)
  with a assms(4-6) show ?thesis
    by (simp add: verifyMcpAccessToken_def revoke_code_tokens_tables)
qed

text \<open>An exchange reads nothing of the token tables.\<close>

definition same_codes :: "oauth \<Rightarrow> oauth \<Rightarrow> bool" where
  "same_codes s s' \<longleftrightarrow> clients s' = clients s \<and> codes s' = codes s \<and> account_active s' = account_active s \<and> drawn s' = drawn s"

lemma resolve_same:
  assumes "same_codes s s'"
  shows "snd (resolveClient e b k s') = snd (resolveClient e b k s)
         \<and> same_codes (fst (resolveClient e b k s)) (fst (resolveClient e b k s'))"
  using assms by (auto simp: resolveClient_def getClient_def client_by_def same_codes_def record_event_def
      split: sum.splits option.splits)

lemma code_checks_same:
  assumes "same_codes s s'"
  shows "snd (code_checks e i c s') = snd (code_checks e i c s)
         \<and> same_codes (fst (code_checks e i c s)) (fst (code_checks e i c s'))"
  using assms
  by (auto simp: code_checks_def code_by_def same_codes_def revokeTokensFromAuthorizationCode_def Let_def
      split: option.splits)

lemma code_txn_same: "same_codes s s' \<Longrightarrow> snd (code_txn e r res s') = snd (code_txn e r res s)"
  by (auto simp: code_txn_def update_many_def same_codes_def mint_pair_def Let_def opaque_def draw_def)

lemma exchange_same:
  assumes "same_codes s s'"
  shows "snd (exchangeAuthorizationCode e i s') = snd (exchangeAuthorizationCode e i s)"
proof -
  obtain s1 y where r: "resolveClient e True (ci_client i) s = (s1, y)" by (cases "resolveClient e True (ci_client i) s")
  obtain s1' y' where r': "resolveClient e True (ci_client i) s' = (s1', y')" by (cases "resolveClient e True (ci_client i) s'")
  have y: "y' = y" "same_codes s1 s1'" using resolve_same [OF assms, of e True "ci_client i"] r r' by simp_all
  show ?thesis
  proof (cases y)
    case (Inl err)
    with r r' y show ?thesis by (simp add: exchangeAuthorizationCode_def)
  next
    case (Inr c)
    obtain s2 z where z: "code_checks e i c s1 = (s2, z)" by (cases "code_checks e i c s1")
    obtain s2' z' where z': "code_checks e i c s1' = (s2', z')" by (cases "code_checks e i c s1'")
    have zz: "z' = z" "same_codes s2 s2'" using code_checks_same [OF y(2), of e i c] z z' by simp_all
    show ?thesis
      using r r' y z z' zz Inr code_txn_same [OF zz(2)]
      by (auto simp: exchangeAuthorizationCode_def split: sum.splits)
  qed
qed

text \<open>disconnecting every client does not touch a code still waiting to be exchanged: its exchange
  succeeds or fails exactly as without the disconnect.\<close>

lemma disconnect_spares_pending_codes:
  "snd (exchangeAuthorizationCode e i (fst (revokeAllMcpGrants e0 u s))) = snd (exchangeAuthorizationCode e i s)"
  by (rule exchange_same) (simp add: same_codes_def revokeAllMcpGrants_def Let_def)

section \<open>Scope parsing\<close>

definition scope_word :: "string \<Rightarrow> bool" where
  "scope_word w \<longleftrightarrow> w \<noteq> [] \<and> list_all (\<lambda>c. \<not> scope_sep c) w"

lemma split_scopes_ne [simp]: "split_scopes s \<noteq> []"
  by (induction s rule: split_scopes.induct) (auto split: list.splits)

lemma split_word: "list_all (\<lambda>c. \<not> scope_sep c) w \<Longrightarrow> split_scopes w = [w]"
  by (induction w rule: split_scopes.induct) auto

lemma split_word_space:
  "list_all (\<lambda>c. \<not> scope_sep c) w \<Longrightarrow> w \<noteq> [] \<Longrightarrow> s \<noteq> [] \<Longrightarrow> \<not> scope_sep (hd s)
   \<Longrightarrow> split_scopes (w @ CHR '' '' # s) = w # split_scopes s"
proof (induction w rule: split_scopes.induct)
  case (2 c)
  then show ?case by (cases s) (auto simp: scope_sep_def split: list.splits)
qed auto

lemma split_space_join:
  "ws \<noteq> [] \<Longrightarrow> list_all scope_word ws \<Longrightarrow> split_scopes (space_join ws) = ws"
proof (induction ws rule: space_join.induct)
  case (3 x y r)
  have h: "space_join (y # r) \<noteq> []" "\<not> scope_sep (hd (space_join (y # r)))"
    using 3(3) by (cases r; auto simp: scope_word_def neq_Nil_conv)+
  with 3 show ?case using split_word_space [of x "space_join (y # r)"] by (simp add: scope_word_def)
qed (auto simp: scope_word_def split_word)

lemma mcp_scope_words: "list_all scope_word MCP_SCOPES"
  by (simp add: MCP_SCOPES_def scope_word_def scope_sep_def)

text \<open>C17: parsing yields a non-empty list of distinct supported scopes, and the scope string of a
  token response parses back to the scopes of the token.\<close>

theorem parsed_scopes_roundtrip:
  assumes "parseScopes v fb = Inr ss"
  shows "ss \<noteq> [] \<and> distinct ss \<and> set ss \<subseteq> set MCP_SCOPES
         \<and> parseScopes (Some (Scope_text (space_join ss))) fb' = Inr ss"
proof -
  have ss: "ss \<noteq> []" "distinct ss" "set ss \<subseteq> set MCP_SCOPES"
    using assms by (auto simp: parseScopes_def Let_def list_ex_iff split: if_splits)
  then have w: "list_all scope_word ss" using mcp_scope_words by (auto simp: list_all_iff)
  then have "filter (\<lambda>x. x \<noteq> []) ss = ss" by (auto simp: filter_id_conv list_all_iff scope_word_def)
  then have "parseScopes (Some (Scope_text (space_join ss))) fb' = Inr ss"
    using ss by (auto simp: parseScopes_def Let_def split_space_join [OF ss(1) w] js_unique_id list_ex_iff)
  with ss show ?thesis by simp
qed

section \<open>A run: register, approve, exchange, refresh\<close>

definition demo_parse :: "string \<Rightarrow> url option" where
  "demo_parse s = (if take 8 s = ''https://''
     then Some (demo_redirect\<lparr>pu_pathname := drop 19 s\<rparr>) else None)"

definition demo_oauth_env :: oauth_env where
  "demo_oauth_env = \<lparr>ox_now = 0, ox_id = show_nat, ox_random = show_nat, ox_hmac = id, ox_sha256 = id, ox_url = demo_parse,
     ox_public = ''https://cli.example'', ox_app = ''https://cli.example'', ox_document = (\<lambda>_. Inl [])\<rparr>"

definition demo_secret :: string where
  "demo_secret = replicate 43 CHR ''v''"

definition demo_client :: ident where "demo_client = ''db_mcp_client_0''"

definition demo_approved :: "(time \<times> oauth_op) list" where
  "demo_approved =
     [(0, Op_register \<lparr>rg_redirects = [''https://cli.example/cb''], rg_name = None, rg_grants = None, rg_auth_method = None,
          rg_owner = None\<rparr>),
      (1, Op_request \<lparr>rq_client = demo_client, rq_redirect = ''https://cli.example/cb'', rq_scope = [''read'', ''sponsor''],
          rq_state = None, rq_challenge = demo_secret, rq_resource = None\<rparr>),
      (2, Op_approve ''1'' ''ann'' [''read''])]"

definition demo_code :: code_input where
  "demo_code = \<lparr>ci_client = demo_client, ci_code = ''db_mcp_code_2'', ci_verifier = demo_secret,
     ci_redirect = ''https://cli.example/cb'', ci_resource = None\<rparr>"

definition demo_refresh :: refresh_input where
  "demo_refresh = \<lparr>ri_client = demo_client, ri_token = ''db_mcp_rt_4'', ri_scope = None, ri_resource = None\<rparr>"

abbreviation demo_at :: "time \<Rightarrow> oauth_env" where
  "demo_at t \<equiv> demo_oauth_env\<lparr>ox_now := t\<rparr>"

definition demo_consented :: oauth where
  "demo_consented = oauth_run demo_oauth_env demo_approved empty_oauth"

definition demo_connected :: oauth where
  "demo_connected = oauth_run demo_oauth_env (demo_approved @ [(3, Op_code demo_code)]) empty_oauth"

text \<open>The two databases, evaluated once.\<close>

definition demo_consented_rows :: oauth where
  "demo_consented_rows =
   \<lparr>clients =
    [\<lparr>oc_client = ''db_mcp_client_0'', oc_name = None,
        oc_redirects = [''https://cli.example/cb''],
        oc_grants = [''authorization_code'', ''refresh_token''],
        oc_owner = None, oc_created = 0, oc_updated = 0\<rparr>],
    requests =
      [\<lparr>ar_id = ''1'', ar_client = ''db_mcp_client_0'',
          ar_user = Some ''ann'', ar_redirect = ''https://cli.example/cb'',
          ar_scope = [''read''], ar_state = None,
          ar_challenge = ''vvvvvvvvvvvvvvvvvvvvvvvvvvvvvvvvvvvvvvvvvvv'',
          ar_resource = Some ''https://cli.example/mcp'',
          ar_expires = 600001, ar_approved = Some 2, ar_denied = None\<rparr>],
    codes =
      [\<lparr>ac_id = ''2'', ac_hash = ''db_mcp_code_2'',
          ac_client = ''db_mcp_client_0'', ac_user = ''ann'',
          ac_redirect = ''https://cli.example/cb'', ac_scope = [''read''],
          ac_challenge = ''vvvvvvvvvvvvvvvvvvvvvvvvvvvvvvvvvvvvvvvvvvv'',
          ac_resource = Some ''https://cli.example/mcp'',
          ac_expires = 60002, ac_used = None\<rparr>],
    accesses = [], refreshes = [],
    trail =
      [\<lparr>ev_action = ''client.registered'',
          ev_client = Some ''db_mcp_client_0'', ev_user = None\<rparr>,
       \<lparr>ev_action = ''authorization.approved'',
          ev_client = Some ''db_mcp_client_0'', ev_user = Some ''ann''\<rparr>],
    account_active = (\<lambda>_. True), drawn = 3\<rparr>"

lemma demo_consented_run: "P demo_consented_rows \<longrightarrow> P demo_consented"
  by (code_simp, rule impI, assumption)

lemma demo_consented_val [code]: "demo_consented = demo_consented_rows"
  by (rule demo_consented_run [of "\<lambda>s. s = demo_consented_rows", THEN mp]) (rule refl)


definition demo_connected_rows :: oauth where
  "demo_connected_rows =
   \<lparr>clients =
    [\<lparr>oc_client = ''db_mcp_client_0'', oc_name = None,
        oc_redirects = [''https://cli.example/cb''],
        oc_grants = [''authorization_code'', ''refresh_token''],
        oc_owner = None, oc_created = 0, oc_updated = 0\<rparr>],
    requests =
      [\<lparr>ar_id = ''1'', ar_client = ''db_mcp_client_0'',
          ar_user = Some ''ann'', ar_redirect = ''https://cli.example/cb'',
          ar_scope = [''read''], ar_state = None,
          ar_challenge = ''vvvvvvvvvvvvvvvvvvvvvvvvvvvvvvvvvvvvvvvvvvv'',
          ar_resource = Some ''https://cli.example/mcp'',
          ar_expires = 600001, ar_approved = Some 2, ar_denied = None\<rparr>],
    codes =
      [\<lparr>ac_id = ''2'', ac_hash = ''db_mcp_code_2'',
          ac_client = ''db_mcp_client_0'', ac_user = ''ann'',
          ac_redirect = ''https://cli.example/cb'', ac_scope = [''read''],
          ac_challenge = ''vvvvvvvvvvvvvvvvvvvvvvvvvvvvvvvvvvvvvvvvvvv'',
          ac_resource = Some ''https://cli.example/mcp'',
          ac_expires = 60002, ac_used = Some 3\<rparr>],
    accesses =
      [\<lparr>at_hash = ''db_mcp_at_3'', at_client = ''db_mcp_client_0'',
          at_user = ''ann'', at_scope = [''read''],
          at_resource = Some ''https://cli.example/mcp'',
          at_expires = 28800003, at_revoked = None, at_created = 3,
          at_code = Some ''2''\<rparr>],
    refreshes =
      [\<lparr>rt_id = ''3'', rt_hash = ''db_mcp_rt_4'',
          rt_client = ''db_mcp_client_0'', rt_user = ''ann'',
          rt_scope = [''read''],
          rt_resource = Some ''https://cli.example/mcp'',
          rt_expires = 2592000003, rt_revoked = None, rt_rotated = None,
          rt_created = 3, rt_code = Some ''2''\<rparr>],
    trail =
      [\<lparr>ev_action = ''client.registered'',
          ev_client = Some ''db_mcp_client_0'', ev_user = None\<rparr>,
       \<lparr>ev_action = ''authorization.approved'',
          ev_client = Some ''db_mcp_client_0'', ev_user = Some ''ann''\<rparr>,
       \<lparr>ev_action = ''token.issued'', ev_client = Some ''db_mcp_client_0'',
          ev_user = Some ''ann''\<rparr>],
    account_active = (\<lambda>_. True), drawn = 5\<rparr>"

lemma demo_connected_run: "P demo_connected_rows \<longrightarrow> P demo_connected"
  by (code_simp, rule impI, assumption)

lemma demo_connected_val [code]: "demo_connected = demo_connected_rows"
  by (rule demo_connected_run [of "\<lambda>s. s = demo_connected_rows", THEN mp]) (rule refl)


lemma demo_inj: "inj (ox_id demo_oauth_env)"
  by (auto simp: demo_oauth_env_def inj_def show_nat_inj)

lemma demo_verifies:
  "verifyMcpAccessToken (demo_at 4) ''db_mcp_at_3'' demo_connected
     = Some \<lparr>vf_user = ''ann'', vf_client = demo_client, vf_scopes = [''read'']\<rparr>"
  by code_simp

lemma scopes_stay_within_consent_witness:
  "\<exists>sel. (''ann'', demo_client, sel) \<in> set (consents demo_oauth_env (demo_approved @ [(3, Op_code demo_code)]) empty_oauth)
     \<and> ''read'' \<in> set sel"
  using scopes_stay_within_consent [OF demo_verifies [unfolded demo_connected_def]] by simp

lemma disconnect_is_final_witness:
  "case verifyMcpAccessToken (demo_at 6) ''db_mcp_at_3''
          (oauth_run demo_oauth_env [(5, Op_refresh demo_refresh)] (fst (revokeAllMcpGrants (demo_at 4) ''ann'' demo_connected))) of
     None \<Rightarrow> True | Some v \<Rightarrow> vf_user v \<noteq> ''ann''"
proof (rule disconnect_is_final)
  show "no_pending_code ''ann'' demo_connected" by code_simp
qed simp

definition demo_resource :: string where
  "demo_resource = ''https://cli.example/mcp''"

definition demo_spent :: "oauth \<times> (mcp_error + token_pair)" where
  "demo_spent = exchangeAuthorizationCode (demo_at 3) demo_code demo_consented"

lemma demo_spends:
  "snd demo_spent = Inr \<lparr>tp_access = ''db_mcp_at_3'', tp_refresh = ''db_mcp_rt_4'', tp_scope = [''read'']\<rparr>"
  "map_option (\<lambda>r. (ac_id r, ac_hash r)) (code_by (ox_hmac demo_oauth_env (ci_code demo_code)) demo_consented) = Some (show_nat 2, ''db_mcp_code_2'')"
  "distinct (map ac_id (codes demo_consented))" "distinct (map ac_hash (codes demo_consented))" "drawn demo_consented = 3"
  by code_simp+

lemma demo_drawn_anew: "drawn_anew demo_oauth_env (show_nat 2) ''db_mcp_code_2'' demo_consented"
proof -
  have 2: "show_nat 2 = ''2''" by code_simp
  have "show_nat m \<noteq> show_nat 2" if "3 \<le> m" for m using that show_nat_inj [of m 2] by auto
  then show ?thesis unfolding drawn_anew_def demo_spends(5) by (simp add: demo_oauth_env_def CODE_PREFIX_def 2)
qed

theorem code_spent_once_witness:
  "\<exists>s2 err. s2 = oauth_run demo_oauth_env [(4, Op_cleanup)] (fst demo_spent)
     \<and> snd (exchangeAuthorizationCode (demo_at 5) demo_code s2) = Inl err
     \<and> only_revokes (show_nat 2) s2 (fst (exchangeAuthorizationCode (demo_at 5) demo_code s2))"
proof -
  obtain r where r: "code_by (ox_hmac demo_oauth_env (ci_code demo_code)) demo_consented = Some r"
      "ac_id r = show_nat 2" "ac_hash r = ''db_mcp_code_2''"
    using demo_spends(2) by auto
  have f: "exchangeAuthorizationCode (demo_at 3) demo_code demo_consented
      = (fst demo_spent, Inr \<lparr>tp_access = ''db_mcp_at_3'', tp_refresh = ''db_mcp_rt_4'', tp_scope = [''read'']\<rparr>)"
    using demo_spends(1) unfolding demo_spent_def by (metis prod.collapse)
  let ?s2 = "oauth_run demo_oauth_env [(4, Op_cleanup)] (fst demo_spent)"
  have an: "drawn_anew demo_oauth_env (ac_id r) (ac_hash r) demo_consented" using demo_drawn_anew r by simp
  have l: "exchangeAuthorizationCode (demo_at 5) demo_code ?s2
      = (fst (exchangeAuthorizationCode (demo_at 5) demo_code ?s2), snd (exchangeAuthorizationCode (demo_at 5) demo_code ?s2))"
    by simp
  from code_spent_once [OF f r(1) demo_spends(3,4) an refl refl l] r(2) show ?thesis by auto
qed

definition demo_replayed :: "oauth \<times> (mcp_error + token_pair)" where
  "demo_replayed = exchangeAuthorizationCode (demo_at 4) demo_code demo_connected"

lemma demo_replay_inputs:
  "snd (resolveClient (demo_at 4) True (ci_client demo_code) demo_connected) = Inr (hd (clients demo_connected))"
  "verifier_ok (ci_verifier demo_code)"
  "code_by (ox_hmac (demo_at 4) (ci_code demo_code)) demo_connected = Some (hd (codes demo_connected))"
  "ac_used (hd (codes demo_connected)) \<noteq> None" "ac_id (hd (codes demo_connected)) = ''2''"
  by code_simp+

lemma replay_revokes_its_tokens_witness:
  "list_all (\<lambda>t. at_revoked t \<noteq> None) (filter (\<lambda>t. at_code t = Some ''2'') (accesses (fst demo_replayed)))"
proof -
  obtain s1 where s1: "resolveClient (demo_at 4) True (ci_client demo_code) demo_connected = (s1, Inr (hd (clients demo_connected)))"
    using demo_replay_inputs(1) by (metis prod.collapse)
  have r: "exchangeAuthorizationCode (demo_at 4) demo_code demo_connected = (fst demo_replayed, snd demo_replayed)"
    by (simp add: demo_replayed_def)
  from replay_revokes_its_tokens [OF s1 demo_replay_inputs(2-4) r] show ?thesis
    by (simp add: demo_replay_inputs(5) list_all_iff)
qed

definition demo_refresh_row :: refresh_row where
  "demo_refresh_row = hd (refreshes demo_connected)"

lemma demo_refreshes:
  "snd (refresh_txn (demo_at 4) demo_refresh_row demo_resource [''read''] demo_connected)
     = Inr \<lparr>tp_access = ''db_mcp_at_5'', tp_refresh = ''db_mcp_rt_6'', tp_scope = [''read'']\<rparr>"
  "list_all (\<lambda>t. at_hash t \<noteq> ''db_mcp_at_5'') (accesses demo_connected)"
  "kept_resource (demo_at 9) (Some demo_resource) = the_resource (demo_at 9)"
  "account_active demo_connected (rt_user demo_refresh_row)"
  "rt_user demo_refresh_row = ''ann''" "rt_client demo_refresh_row = demo_client"
  by code_simp+

lemma refreshed_tokens_survive_replay_witness:
  "verifyMcpAccessToken (demo_at 9) ''db_mcp_at_5''
      (revokeTokensFromAuthorizationCode (demo_at 9) (hd (codes demo_connected))
         (fst (refresh_txn (demo_at 4) demo_refresh_row demo_resource [''read''] demo_connected)))
    = Some \<lparr>vf_user = ''ann'', vf_client = demo_client, vf_scopes = [''read'']\<rparr>"
proof -
  obtain s1 where s1: "refresh_txn (demo_at 4) demo_refresh_row demo_resource [''read''] demo_connected
      = (s1, Inr \<lparr>tp_access = ''db_mcp_at_5'', tp_refresh = ''db_mcp_rt_6'', tp_scope = [''read'']\<rparr>)"
    using demo_refreshes(1) by (metis prod.collapse)
  have h: "\<forall>t \<in> set (accesses demo_connected). at_hash t \<noteq> ox_hmac (demo_at 4) (tp_access \<lparr>tp_access = ''db_mcp_at_5'',
      tp_refresh = ''db_mcp_rt_6'', tp_scope = [''read'']\<rparr>)"
    using demo_refreshes(2) by (simp add: list_all_iff demo_oauth_env_def)
  have hm: "ox_hmac (demo_at 9) = ox_hmac (demo_at 4)" by simp
  have t: "ox_now (demo_at 9) \<le> ox_now (demo_at 4) + ACCESS_TTL_MS" by (simp add: ACCESS_TTL_MS_def)
  from refreshed_tokens_survive_replay [OF s1 h hm demo_refreshes(3,4) t, of "hd (codes demo_connected)"]
  show ?thesis by (simp only: s1 fst_conv token_pair.simps demo_refreshes(5,6))
qed

lemma parsed_scopes_roundtrip_witness:
  "parseScopes (Some (Scope_text (space_join [''read'', ''sponsor'']))) [] = Inr [''read'', ''sponsor'']"
proof -
  have "parseScopes (Some (Scope_list [''read,sponsor '', ''read''])) [] = Inr [''read'', ''sponsor'']" by code_simp
  from parsed_scopes_roundtrip [OF this, of "[]"] show ?thesis by simp
qed

end
