(* ===== verification/Public_Reads.thy ===== *)
theory Public_Reads
  imports Cache_Drivers Submissions "HOL-Library.Multiset"
begin

text \<open>
  \<open>lib/public-read-cache.ts\<close> over \<open>lib/cache/memory.ts\<close> and \<open>lib/cache/single-flight.ts\<close>: concurrent
  read-throughs that share one load per key, and the generation that invalidates them. The program is
  one thread; a call is cut where it awaits: its first look at the store (\<open>Ev_arrive\<close>), the entry into the
  flight after a miss (\<open>Ev_enter\<close>), and the end of the flight's load (\<open>Ev_settle\<close>).
\<close>

section \<open>Keys\<close>

text \<open>\<open>undefined\<close> parameters are \<open>None\<close>.\<close>

definition key_part :: "(real \<Rightarrow> string) \<Rightarrow> string \<times> json option \<Rightarrow> string" where
  "key_part num p = fst p @ ''='' @ json_text num (the (snd p))"

fun amp_join :: "string list \<Rightarrow> string" where
  "amp_join [] = []"
| "amp_join [s] = s"
| "amp_join (s # ss) = s @ ''&'' @ amp_join ss"

definition publicReadCacheKey :: "(real \<Rightarrow> string) \<Rightarrow> string \<Rightarrow> (string \<times> json option) list \<Rightarrow> string" where
  "publicReadCacheKey num route params =
     route @ ''?'' @ amp_join (map (key_part num) (sort_key fst (filter (\<lambda>p. snd p \<noteq> None) params)))"

definition gen_key :: "nat \<Rightarrow> string \<Rightarrow> string" where
  "gen_key g k = ''pr:v'' @ show_nat g @ '':'' @ k"

text \<open>\<open>Math.ceil(ttlMs / 1000)\<close>\<close>

definition ttl_seconds :: "int \<Rightarrow> int" where
  "ttl_seconds ms = - ((- ms) div 1000)"

definition FALLBACK_MAX_ENTRIES :: int where "FALLBACK_MAX_ENTRIES = 512"

section \<open>Reads in flight\<close>

text \<open>A flight: who waits for it, what its own second look found (\<open>JNull\<close> when it loads), and its ttl.\<close>

record flight =
  fl_callers :: "nat list"
  fl_hit :: json
  fl_ttl :: int

record reads =
  pr_store :: memory_cache
  pr_gen :: nat
  pr_missed :: "(nat \<times> string \<times> int) list"
  pr_flights :: "(string \<times> flight) list"
  pr_answers :: "(nat \<times> json option) list"

definition start_reads :: reads where
  "start_reads = \<lparr>pr_store = empty_cache FALLBACK_MAX_ENTRIES, pr_gen = 0, pr_missed = [], pr_flights = [], pr_answers = []\<rparr>"

text \<open>\<open>getOrLoad\<close> up to its first \<open>await\<close>.\<close>

definition arrive :: "time \<Rightarrow> nat \<Rightarrow> string \<Rightarrow> int \<Rightarrow> reads \<Rightarrow> reads" where
  "arrive t c k ms s =
     (let key = gen_key (pr_gen s) k
      in case mc_get t key (pr_store s) of
           (m, v) \<Rightarrow>
             (if v \<noteq> JNull then s\<lparr>pr_store := m, pr_answers := pr_answers s @ [(c, Some v)]\<rparr>
              else s\<lparr>pr_store := m, pr_missed := pr_missed s @ [(c, key, ttl_seconds ms)]\<rparr>))"

text \<open>\<open>SingleFlight.run\<close>: join the flight of the key, or start one, which looks at the store again.\<close>

definition enter :: "time \<Rightarrow> nat \<times> string \<times> int \<Rightarrow> reads \<Rightarrow> reads" where
  "enter t w s =
     (case w of (c, key, ttl) \<Rightarrow>
        (case map_of (pr_flights s) key of
           Some f \<Rightarrow> s\<lparr>pr_flights := js_put key (f\<lparr>fl_callers := fl_callers f @ [c]\<rparr>) (pr_flights s)\<rparr>
         | None \<Rightarrow>
             (case mc_get t key (pr_store s) of
                (m, v) \<Rightarrow> s\<lparr>pr_store := m,
                            pr_flights := js_put key \<lparr>fl_callers = [c], fl_hit = v, fl_ttl = ttl\<rparr> (pr_flights s)\<rparr>)))"

text \<open>The end of a flight: its outcome (\<open>None\<close> is an error) is stored if it is a value, goes to everyone who
  waits, and frees the slot.\<close>

definition settle :: "time \<Rightarrow> string \<Rightarrow> json option \<Rightarrow> reads \<Rightarrow> reads" where
  "settle t key out s =
     (case map_of (pr_flights s) key of
        None \<Rightarrow> s
      | Some f \<Rightarrow>
          (let r = (if fl_hit f \<noteq> JNull then Some (fl_hit f) else out);
               m = (case out of
                      Some x \<Rightarrow> if fl_hit f = JNull \<and> x \<noteq> JNull then mc_set t key x (fl_ttl f) (pr_store s) else pr_store s
                    | None \<Rightarrow> pr_store s)
           in s\<lparr>pr_store := m, pr_flights := js_delete key (pr_flights s),
                pr_answers := pr_answers s @ map (\<lambda>c. (c, r)) (fl_callers f)\<rparr>))"

definition clearPublicReadCache :: "reads \<Rightarrow> reads" where
  "clearPublicReadCache s = s\<lparr>pr_gen := pr_gen s + 1, pr_store := mc_clear (pr_store s)\<rparr>"

text \<open>A call with a ttl of zero or less runs its own computation and touches nothing here.\<close>

datatype read_event = Ev_arrive nat string int | Ev_enter nat | Ev_settle string "json option" | Ev_clear

fun read_step :: "time \<times> read_event \<Rightarrow> reads \<Rightarrow> reads" where
  "read_step (t, Ev_arrive c k ms) s = (if ms \<le> 0 then s else arrive t c k ms s)"
| "read_step (t, Ev_enter c) s =
     (case find_where (\<lambda>w. fst w = c) (pr_missed s) of
        None \<Rightarrow> s
      | Some w \<Rightarrow> enter t w (s\<lparr>pr_missed := remove1 w (pr_missed s)\<rparr>))"
| "read_step (t, Ev_settle key out) s = settle t key out s"
| "read_step (t, Ev_clear) s = clearPublicReadCache s"

definition reads_run :: "(time \<times> read_event) list \<Rightarrow> reads \<Rightarrow> reads" where
  "reads_run evs s = fold read_step evs s"

section \<open>Keys of generations\<close>

lemma show_nat_no_colon: "CHR '':'' \<notin> set (show_nat n)"
proof (induction n rule: less_induct)
  case (less n)
  have digit: "(char_of (48 + d) :: char) \<noteq> CHR '':''" if "d < 10" for d :: nat
  proof
    assume "(char_of (48 + d) :: char) = CHR '':''"
    then have "(of_char (char_of (48 + d) :: char) :: nat) = of_char (CHR '':'')" by simp
    then show False using that by simp
  qed
  show ?case
  proof (cases "n < 10")
    case True
    then show ?thesis using digit [of n] by (simp add: show_nat_digit eq_commute)
  next
    case False
    then show ?thesis using digit [of "n mod 10"] less.IH [of "n div 10"] by (simp add: show_nat_more eq_commute)
  qed
qed

lemma char_split:
  assumes "a @ c # x = b @ c # y" and "c \<notin> set a" and "c \<notin> set b"
  shows "a = b \<and> x = y"
  using assms
proof (induction a arbitrary: b)
  case (Cons d a)
  then show ?case by (cases b) auto
next
  case Nil
  then show ?case by (cases b) auto
qed

lemma gen_key_inj: "gen_key g k = gen_key g' k' \<longleftrightarrow> g = g' \<and> k = k'"
  using char_split [OF _ show_nat_no_colon show_nat_no_colon, of g k g' k'] show_nat_inj by (auto simp: gen_key_def)

section \<open>One load per key, and nobody is lost\<close>

definition one_flight_per_key :: "reads \<Rightarrow> bool" where
  "one_flight_per_key s \<longleftrightarrow> distinct (map fst (pr_flights s))"

text \<open>Everyone who is waiting or was answered.\<close>

definition callers :: "reads \<Rightarrow> nat multiset" where
  "callers s = mset (map fst (pr_missed s)) + (\<Sum>f \<in># mset (map snd (pr_flights s)). mset (fl_callers f))
     + mset (map fst (pr_answers s))"

fun arrivals :: "(time \<times> read_event) list \<Rightarrow> nat list" where
  "arrivals [] = []"
| "arrivals ((t, Ev_arrive c k ms) # evs) = (if ms \<le> 0 then arrivals evs else c # arrivals evs)"
| "arrivals (x # evs) = arrivals evs"

lemma delete_flight:
  assumes "distinct (map fst xs)" and "map_of xs k = Some f"
  shows "mset (map snd xs) = add_mset f (mset (map snd (js_delete k xs)))"
  using assms
proof (induction xs)
  case (Cons p xs)
  show ?case
  proof (cases "fst p = k")
    case True
    then have "\<forall>q \<in> set xs. fst q \<noteq> k" using Cons.prems(1) by (auto simp: image_iff)
    then have "js_delete k (p # xs) = xs" using True by (simp add: js_delete_def filter_id_conv)
    then show ?thesis using True Cons.prems(2) by simp
  next
    case False
    then show ?thesis using Cons by (simp add: js_delete_def)
  qed
qed simp

lemma put_flight:
  assumes "distinct (map fst xs)" and "map_of xs k = Some f"
  shows "mset (map snd (js_put k g xs)) = add_mset g (mset (map snd (js_delete k xs)))"
proof -
  have k: "map_of (js_put k g xs) k = Some g" by simp
  have "js_delete k (js_put k g xs) = js_delete k xs"
  proof -
    have "filter (\<lambda>p. fst p \<noteq> k) (map (\<lambda>p. if fst p = k then (k, g) else p) ys) = filter (\<lambda>p. fst p \<noteq> k) ys" for ys
      by (induction ys) auto
    then show ?thesis using assms(2) by (simp add: js_delete_def js_put_def)
  qed
  then show ?thesis using delete_flight [OF js_put_keys [OF assms(1)] k] by simp
qed

lemma arrive_callers: "callers (arrive t c k ms s) = add_mset c (callers s)"
  by (simp add: arrive_def callers_def Let_def split: prod.split)

lemma arrive_flights: "pr_flights (arrive t c k ms s) = pr_flights s"
  by (simp add: arrive_def Let_def split: prod.split)

lemma enter_spec:
  assumes "one_flight_per_key s"
  shows "one_flight_per_key (enter t (c, key, ttl) s)" and "callers (enter t (c, key, ttl) s) = add_mset c (callers s)"
proof -
  show "one_flight_per_key (enter t (c, key, ttl) s)"
    using assms by (simp add: enter_def one_flight_per_key_def js_put_keys split: option.split prod.split)
  show "callers (enter t (c, key, ttl) s) = add_mset c (callers s)"
  proof (cases "map_of (pr_flights s) key")
    case None
    then have "js_put key f (pr_flights s) = pr_flights s @ [(key, f)]" for f by (simp add: js_put_def)
    then show ?thesis using None by (simp add: enter_def callers_def split: prod.split)
  next
    case (Some f)
    have d: "distinct (map fst (pr_flights s))" using assms by (simp add: one_flight_per_key_def)
    show ?thesis
      using Some put_flight [OF d Some, of "f\<lparr>fl_callers := fl_callers f @ [c]\<rparr>"] delete_flight [OF d Some]
      by (simp add: enter_def callers_def)
  qed
qed

lemma settle_spec:
  assumes "one_flight_per_key s"
  shows "one_flight_per_key (settle t key out s)" and "callers (settle t key out s) = callers s"
proof -
  have d: "distinct (map fst (pr_flights s))" using assms by (simp add: one_flight_per_key_def)
  show "one_flight_per_key (settle t key out s)"
    using d js_delete_keys [OF d] by (simp add: settle_def one_flight_per_key_def Let_def split: option.split)
  show "callers (settle t key out s) = callers s"
  proof (cases "map_of (pr_flights s) key")
    case (Some f)
    then show ?thesis using delete_flight [OF d Some] by (simp add: settle_def callers_def Let_def comp_def)
  qed (simp add: settle_def)
qed

lemma read_step_spec:
  assumes "one_flight_per_key s"
  shows "one_flight_per_key (read_step p s) \<and> callers (read_step p s) = callers s + mset (arrivals [p])"
proof -
  obtain t x where p: "p = (t, x)" by force
  show ?thesis
  proof (cases x)
    case (Ev_arrive c k ms)
    then show ?thesis using assms p arrive_callers arrive_flights by (simp add: one_flight_per_key_def)
  next
    case (Ev_enter c)
    show ?thesis
    proof (cases "find_where (\<lambda>w. fst w = c) (pr_missed s)")
      case (Some w)
      obtain key ttl where w: "w = (c, key, ttl)" "w \<in> set (pr_missed s)"
        using find_where_Some [OF Some] by (cases w) auto
      let ?s = "s\<lparr>pr_missed := remove1 w (pr_missed s)\<rparr>"
      have "mset (pr_missed s) = add_mset w (mset (remove1 w (pr_missed s)))" using w(2) by simp
      then have "mset (map fst (pr_missed s)) = add_mset c (mset (map fst (remove1 w (pr_missed s))))"
        using w(1) by (metis fst_conv image_mset_add_mset mset_map)
      then have "callers s = add_mset c (callers ?s)" by (simp add: callers_def)
      moreover have "one_flight_per_key ?s" using assms by (simp add: one_flight_per_key_def)
      ultimately show ?thesis using enter_spec [of ?s t c key ttl] Some Ev_enter p w(1) by simp
    qed (use assms Ev_enter p in simp)
  next
    case (Ev_settle key out)
    then show ?thesis using settle_spec [OF assms] p by simp
  next
    case Ev_clear
    then show ?thesis using assms p by (simp add: clearPublicReadCache_def one_flight_per_key_def callers_def)
  qed
qed

lemma arrivals_Cons: "arrivals (p # evs) = arrivals [p] @ arrivals evs"
  by (cases p; cases "snd p") auto

lemma run_spec:
  "one_flight_per_key s \<Longrightarrow> one_flight_per_key (reads_run evs s) \<and> callers (reads_run evs s) = callers s + mset (arrivals evs)"
proof (induction evs arbitrary: s)
  case (Cons p evs)
  have top: "reads_run (p # evs) s = reads_run evs (read_step p s)" by (simp add: reads_run_def)
  show ?case unfolding top using Cons.IH read_step_spec [OF Cons.prems, of p] by (simp add: arrivals_Cons [of p evs])
qed (simp add: reads_run_def)

text \<open>C26: in every interleaving of callers, loads and invalidations at most one load per key is running, and
  every caller that arrived is exactly once among those that missed, wait for a load, or were answered.\<close>

theorem one_load_and_nobody_lost:
  "distinct (map fst (pr_flights (reads_run evs start_reads)))
   \<and> callers (reads_run evs start_reads) = mset (arrivals evs)"
proof -
  have "one_flight_per_key start_reads" "callers start_reads = {#}"
    by (simp_all add: start_reads_def one_flight_per_key_def callers_def)
  then show ?thesis using run_spec [of start_reads evs] by (simp add: one_flight_per_key_def)
qed

text \<open>A load that fails is not cached: everyone who waits for it gets the error, the store stays as it is,
  and the slot is free, so the next caller that misses starts a new load.\<close>

lemma failed_load_not_cached:
  assumes "one_flight_per_key s" and "map_of (pr_flights s) key = Some f" and "fl_hit f = JNull"
    and "map_of (mc_store (pr_store s)) key = None"
  shows "pr_answers (settle t key None s) = pr_answers s @ map (\<lambda>c. (c, None)) (fl_callers f)
         \<and> pr_store (settle t key None s) = pr_store s
         \<and> map_of (pr_flights (enter t' (c, key, ttl) (settle t key None s))) key = Some \<lparr>fl_callers = [c], fl_hit = JNull, fl_ttl = ttl\<rparr>"
  using assms by (simp add: settle_def enter_def Let_def mc_get_def mc_read_def del: put_fresh)

section \<open>Invalidation\<close>

text \<open>Keys of the generations so far; holds of every flight and every caller that missed.\<close>

definition known_generations :: "reads \<Rightarrow> bool" where
  "known_generations s \<longleftrightarrow>
     (\<forall>p \<in> set (pr_flights s). \<exists>g k. fst p = gen_key g k \<and> g \<le> pr_gen s)
     \<and> (\<forall>w \<in> set (pr_missed s). \<exists>g k. fst (snd w) = gen_key g k \<and> g \<le> pr_gen s)"

lemma js_put_set: "set (js_put k v xs) \<subseteq> insert (k, v) (set xs)"
  by (auto simp: js_put_def)

lemma known_step: "known_generations s \<Longrightarrow> known_generations (read_step p s)"
proof -
  assume k: "known_generations s"
  obtain t x where p: "p = (t, x)" by force
  show ?thesis
  proof (cases x)
    case (Ev_arrive c j ms)
    then show ?thesis using k p by (auto simp: known_generations_def arrive_def Let_def split: prod.split)
  next
    case (Ev_enter c)
    show ?thesis
    proof (cases "find_where (\<lambda>w. fst w = c) (pr_missed s)")
      case (Some w)
      have w: "w \<in> set (pr_missed s)" using find_where_Some [OF Some] by simp
      obtain c' key ttl where w3: "w = (c', key, ttl)" by (cases w)
      have key: "\<exists>g k. key = gen_key g k \<and> g \<le> pr_gen s" using k w w3 by (force simp: known_generations_def)
      let ?s = "s\<lparr>pr_missed := remove1 w (pr_missed s)\<rparr>"
      have fl: "\<exists>f. pr_flights (enter t w ?s) = js_put key f (pr_flights s)"
        "pr_missed (enter t w ?s) = remove1 w (pr_missed s)" "pr_gen (enter t w ?s) = pr_gen s"
        by (auto simp: enter_def w3 split: option.split prod.split)
      then obtain f where f: "pr_flights (enter t w ?s) = js_put key f (pr_flights s)" by blast
      have "\<exists>g k. fst q = gen_key g k \<and> g \<le> pr_gen s" if "q \<in> set (js_put key f (pr_flights s))" for q
        using that js_put_set [of key f "pr_flights s"] key k by (force simp: known_generations_def)
      moreover have "\<exists>g k. fst (snd q) = gen_key g k \<and> g \<le> pr_gen s" if "q \<in> set (remove1 w (pr_missed s))" for q
        using notin_set_remove1 that k by (metis known_generations_def)
      ultimately show ?thesis using Ev_enter p Some by (simp add: known_generations_def f fl(2,3))
    qed (use k Ev_enter p in simp)
  next
    case (Ev_settle key out)
    then show ?thesis using k p by (auto simp: known_generations_def settle_def Let_def js_delete_set split: option.split)
  next
    case Ev_clear
    then show ?thesis using k p by (force simp: known_generations_def clearPublicReadCache_def)
  qed
qed

lemma known_run: "known_generations s \<Longrightarrow> known_generations (reads_run evs s)"
  unfolding reads_run_def by (induction evs arbitrary: s) (simp_all add: known_step)

text \<open>Keys of generation \<open>g\<close> and later.\<close>

definition since :: "nat \<Rightarrow> string \<Rightarrow> bool" where
  "since g key \<longleftrightarrow> (\<exists>g' k. g \<le> g' \<and> key = gen_key g' k)"

text \<open>What holds after the invalidation: the values under its keys are good, and those who arrived since are
  waiting under its keys only.\<close>

definition fresh_state :: "nat \<Rightarrow> (json \<Rightarrow> bool) \<Rightarrow> nat set \<Rightarrow> nat \<Rightarrow> reads \<Rightarrow> bool" where
  "fresh_state g Q A n s \<longleftrightarrow>
     g \<le> pr_gen s \<and> n \<le> length (pr_answers s)
     \<and> (\<forall>e \<in> set (mc_store (pr_store s)). since g (fst e) \<longrightarrow> Q (fst (snd e)))
     \<and> (\<forall>w \<in> set (pr_missed s). fst w \<in> A \<longrightarrow> since g (fst (snd w)))
     \<and> (\<forall>p \<in> set (pr_flights s). (since g (fst p) \<longrightarrow> fl_hit (snd p) = JNull \<or> Q (fl_hit (snd p)))
            \<and> (\<forall>c \<in> set (fl_callers (snd p)). c \<in> A \<longrightarrow> since g (fst p)))
     \<and> (\<forall>a \<in> set (drop n (pr_answers s)). fst a \<in> A \<longrightarrow> (\<forall>v. snd a = Some v \<longrightarrow> Q v))"

text \<open>Loads settled under the new keys give good values.\<close>

fun good_event :: "nat \<Rightarrow> (json \<Rightarrow> bool) \<Rightarrow> time \<times> read_event \<Rightarrow> bool" where
  "good_event g Q (t, Ev_settle key (Some v)) = (since g key \<longrightarrow> Q v)"
| "good_event g Q e = True"

lemma mc_get_store:
  "mc_get t k m = (m', v) \<Longrightarrow> set (mc_store m') \<subseteq> set (mc_store m) \<and> (v \<noteq> JNull \<longrightarrow> (\<exists>e. (k, v, e) \<in> set (mc_store m)))"
  by (auto simp: mc_get_def mc_read_def js_delete_set dest!: map_of_SomeD split: option.splits if_splits)

lemma mc_set_store:
  assumes "e \<in> set (mc_store (mc_set t k x ttl m))"
  shows "e \<in> set (mc_store m) \<or> (fst e = k \<and> fst (snd e) = x)"
proof (cases "ttl \<le> 0")
  case False
  then have "e \<in> set (js_delete k (mc_store m) @ [(k, (x, t + ttl * 1000))])"
    using assms evict_set [of "mc_max m" "js_delete k (mc_store m) @ [(k, (x, t + ttl * 1000))]"] by (auto simp: mc_set_def)
  then show ?thesis by (auto simp: js_delete_set)
qed (use assms in \<open>simp add: mc_set_def\<close>)

lemma fresh_arrive:
  assumes "fresh_state g Q A n s"
  shows "fresh_state g Q A n (arrive t c k ms s)"
proof -
  let ?key = "gen_key (pr_gen s) k"
  obtain m v where mv: "mc_get t ?key (pr_store s) = (m, v)" by force
  note ms = mc_get_store [OF mv]
  have key: "since g ?key" using assms by (auto simp: fresh_state_def since_def)
  have Q: "v \<noteq> JNull \<Longrightarrow> Q v" using ms assms key by (force simp: fresh_state_def)
  have st: "\<forall>e \<in> set (mc_store m). since g (fst e) \<longrightarrow> Q (fst (snd e))" using ms assms by (auto simp: fresh_state_def)
  show ?thesis
  proof (cases "v = JNull")
    case True
    then show ?thesis using assms st key by (auto simp: arrive_def mv fresh_state_def)
  next
    case False
    then show ?thesis using assms st Q by (auto simp: arrive_def mv fresh_state_def)
  qed
qed

lemma fresh_flight:
  assumes "fresh_state g Q A n s" and "map_of (pr_flights s) key = Some f"
  shows "(since g key \<longrightarrow> fl_hit f = JNull \<or> Q (fl_hit f)) \<and> (\<forall>c \<in> set (fl_callers f). c \<in> A \<longrightarrow> since g key)"
proof -
  have "\<forall>p \<in> set (pr_flights s). (since g (fst p) \<longrightarrow> fl_hit (snd p) = JNull \<or> Q (fl_hit (snd p)))
      \<and> (\<forall>c \<in> set (fl_callers (snd p)). c \<in> A \<longrightarrow> since g (fst p))"
    using assms(1) by (simp add: fresh_state_def)
  from bspec [OF this map_of_SomeD [OF assms(2)]] show ?thesis by simp
qed

lemma fresh_enter:
  assumes "fresh_state g Q A n s" and "w \<in> set (pr_missed s)"
  shows "fresh_state g Q A n (enter t w (s\<lparr>pr_missed := remove1 w (pr_missed s)\<rparr>))"
proof -
  obtain c key ttl where w: "w = (c, key, ttl)" by (cases w)
  have c: "c \<in> A \<Longrightarrow> since g key" using assms w by (force simp: fresh_state_def)
  have mi: "\<forall>x \<in> set (remove1 w (pr_missed s)). fst x \<in> A \<longrightarrow> since g (fst (snd x))"
    using set_remove1_subset [of w "pr_missed s"] assms(1) unfolding fresh_state_def by blast
  show ?thesis
  proof (cases "map_of (pr_flights s) key")
    case (Some f)
    let ?f = "f\<lparr>fl_callers := fl_callers f @ [c]\<rparr>"
    have fok: "(since g key \<longrightarrow> fl_hit f = JNull \<or> Q (fl_hit f)) \<and> (\<forall>c \<in> set (fl_callers f). c \<in> A \<longrightarrow> since g key)"
      by (rule fresh_flight [OF assms(1) Some])
    have "\<forall>p \<in> set (js_put key ?f (pr_flights s)). (since g (fst p) \<longrightarrow> fl_hit (snd p) = JNull \<or> Q (fl_hit (snd p)))
        \<and> (\<forall>c \<in> set (fl_callers (snd p)). c \<in> A \<longrightarrow> since g (fst p))"
    proof
      fix p assume "p \<in> set (js_put key ?f (pr_flights s))"
      then have "p = (key, ?f) \<or> p \<in> set (pr_flights s)" using js_put_set [of key ?f "pr_flights s"] by blast
      then show "(since g (fst p) \<longrightarrow> fl_hit (snd p) = JNull \<or> Q (fl_hit (snd p)))
          \<and> (\<forall>c \<in> set (fl_callers (snd p)). c \<in> A \<longrightarrow> since g (fst p))"
        using fok c assms(1) by (auto simp: fresh_state_def)
    qed
    then show ?thesis using assms(1) mi Some w by (simp add: enter_def fresh_state_def)
  next
    case None
    obtain m v where mv: "mc_get t key (pr_store s) = (m, v)" by force
    note ms = mc_get_store [OF mv]
    have st: "\<forall>e \<in> set (mc_store m). since g (fst e) \<longrightarrow> Q (fst (snd e))" using ms assms(1) by (auto simp: fresh_state_def)
    have Q: "since g key \<Longrightarrow> v = JNull \<or> Q v" using ms assms(1) by (force simp: fresh_state_def)
    have pf: "js_put key f (pr_flights s) = pr_flights s @ [(key, f)]" for f using None by (simp add: js_put_def)
    show ?thesis using assms(1) mi None w st Q c by (auto simp: enter_def fresh_state_def mv pf)
  qed
qed

lemma fresh_settle:
  assumes "fresh_state g Q A n s" and "\<forall>v. out = Some v \<longrightarrow> since g key \<longrightarrow> Q v"
  shows "fresh_state g Q A n (settle t key out s)"
proof (cases "map_of (pr_flights s) key")
  case (Some f)
  have fok: "(since g key \<longrightarrow> fl_hit f = JNull \<or> Q (fl_hit f)) \<and> (\<forall>c \<in> set (fl_callers f). c \<in> A \<longrightarrow> since g key)"
    by (rule fresh_flight [OF assms(1) Some])
  let ?r = "if fl_hit f \<noteq> JNull then Some (fl_hit f) else out"
  let ?m = "case out of Some x \<Rightarrow> if fl_hit f = JNull \<and> x \<noteq> JNull then mc_set t key x (fl_ttl f) (pr_store s) else pr_store s
              | None \<Rightarrow> pr_store s"
  have r: "since g key \<Longrightarrow> ?r = Some v \<Longrightarrow> Q v" for v using fok assms(2) by (auto split: if_splits)
  have ans: "\<forall>a \<in> set (map (\<lambda>c. (c, ?r)) (fl_callers f)). fst a \<in> A \<longrightarrow> (\<forall>v. snd a = Some v \<longrightarrow> Q v)"
    using fok r by auto
  have old: "\<forall>e \<in> set (mc_store (pr_store s)). since g (fst e) \<longrightarrow> Q (fst (snd e))" using assms(1) by (simp add: fresh_state_def)
  have "e \<in> set (mc_store (pr_store s)) \<or> (\<exists>x. out = Some x \<and> fst e = key \<and> fst (snd e) = x)" if "e \<in> set (mc_store ?m)" for e
    using that mc_set_store by (cases out) (auto split: if_splits)
  then have st: "\<forall>e \<in> set (mc_store ?m). since g (fst e) \<longrightarrow> Q (fst (snd e))"
    using assms(2) old by blast
  have fl: "\<forall>p \<in> set (js_delete key (pr_flights s)). (since g (fst p) \<longrightarrow> fl_hit (snd p) = JNull \<or> Q (fl_hit (snd p)))
      \<and> (\<forall>c \<in> set (fl_callers (snd p)). c \<in> A \<longrightarrow> since g (fst p))"
    using assms(1) by (auto simp: js_delete_set fresh_state_def)
  have dr: "drop n (pr_answers s @ xs) = drop n (pr_answers s) @ xs" for xs using assms(1) by (simp add: fresh_state_def)
  show ?thesis
    using assms(1) Some ans st fl unfolding settle_def fresh_state_def Let_def by (simp add: dr ball_Un)
qed (use assms(1) in \<open>simp add: settle_def\<close>)

lemma fresh_step:
  assumes "fresh_state g Q A n s" and "good_event g Q p"
  shows "fresh_state g Q A n (read_step p s)"
proof -
  obtain t x where p: "p = (t, x)" by force
  show ?thesis
  proof (cases x)
    case (Ev_arrive c k ms)
    then show ?thesis using assms(1) fresh_arrive p by simp
  next
    case (Ev_enter c)
    then show ?thesis using assms(1) fresh_enter p by (auto split: option.split dest: find_where_Some)
  next
    case (Ev_settle key out)
    then show ?thesis using assms fresh_settle p by (cases out) simp_all
  next
    case Ev_clear
    then show ?thesis using assms(1) p by (simp add: fresh_state_def clearPublicReadCache_def mc_clear_def)
  qed
qed

lemma fresh_run:
  "fresh_state g Q A n s \<Longrightarrow> list_all (good_event g Q) evs \<Longrightarrow> fresh_state g Q A n (reads_run evs s)"
  unfolding reads_run_def by (induction evs arbitrary: s) (simp_all add: fresh_step)

lemma answers_grow: "\<exists>zs. pr_answers (reads_run evs x) = pr_answers x @ zs"
proof (induction evs arbitrary: x)
  case (Cons p evs)
  have "\<exists>ys. pr_answers (read_step p x) = pr_answers x @ ys"
    by (cases p; cases "snd p") (auto simp: arrive_def enter_def settle_def clearPublicReadCache_def Let_def
        split: prod.split option.split)
  then obtain ys where ys: "pr_answers (read_step p x) = pr_answers x @ ys" by blast
  obtain zs where "pr_answers (reads_run evs (read_step p x)) = pr_answers (read_step p x) @ zs" using Cons.IH by blast
  with ys show ?case by (simp add: reads_run_def)
qed (simp add: reads_run_def)

text \<open>C27: after an invalidation nobody who arrives is answered from before it: if every load that runs under
  the new keys gives a good value, every value they get is good, whatever loads of the old keys were still
  running and whatever they return.\<close>

theorem no_stale_body_after_clear:
  assumes "s = reads_run before start_reads" and "s' = reads_run after (clearPublicReadCache s)"
    and "list_all (good_event (pr_gen s + 1) Q) after"
    and "set (arrivals after) \<inter> set_mset (callers s) = {}"
  shows "list_all (\<lambda>a. fst a \<in> set (arrivals after) \<longrightarrow> (\<forall>v. snd a = Some v \<longrightarrow> Q v)) (pr_answers s')"
proof -
  let ?A = "set (arrivals after)" and ?g = "pr_gen s + 1" and ?n = "length (pr_answers s)"
  have kn: "known_generations s" unfolding assms(1)
    by (rule known_run) (simp add: known_generations_def start_reads_def)
  have old: "\<not> since ?g (gen_key h k)" if "h \<le> pr_gen s" for h k using that by (auto simp: since_def gen_key_inj)
  have nA: "c \<notin> ?A" if "c \<in># callers s" for c using assms(4) that by auto
  have "fresh_state ?g Q ?A ?n (clearPublicReadCache s)"
  proof -
    have "fst w \<notin> ?A" if "w \<in> set (pr_missed s)" for w by (rule nA) (use that in \<open>auto simp: callers_def\<close>)
    moreover have "c \<notin> ?A" if "p \<in> set (pr_flights s)" "c \<in> set (fl_callers (snd p))" for p c
      by (rule nA) (use that in \<open>auto simp: callers_def intro!: bexI [of _ p]\<close>)
    moreover have "\<not> since ?g (fst p)" if "p \<in> set (pr_flights s)" for p using kn old that by (metis known_generations_def)
    ultimately show ?thesis by (simp add: fresh_state_def clearPublicReadCache_def mc_clear_def)
  qed
  from fresh_run [OF this assms(3)] have fr: "fresh_state ?g Q ?A ?n s'" by (simp add: assms(2))
  obtain zs where zs: "pr_answers s' = pr_answers s @ zs"
    using answers_grow [of after "clearPublicReadCache s"] by (auto simp: assms(2) clearPublicReadCache_def)
  have "fst a \<notin> ?A" if "a \<in> set (pr_answers s)" for a by (rule nA) (use that in \<open>auto simp: callers_def\<close>)
  then show ?thesis using fr by (auto simp: fresh_state_def list_all_iff zs)
qed

text \<open>Two instances over one store that is not their own (the invalidation then only moves the generation of
  the instance that calls it): instance one, at generation \<open>Suc g\<close>, stored \<open>x\<close>; instance two moves from \<open>g\<close>
  to \<open>Suc g\<close> by an invalidation and is served \<open>x\<close>, although \<open>x\<close> was computed before that invalidation.\<close>

lemma shared_store_serves_old_body:
  assumes "cache_wf m" and "0 < mc_max m" and "0 < ttl" and "t' < t + ttl * 1000" and "x \<noteq> JNull"
    and "pr_gen two = g" and "pr_store two = mc_set t (gen_key (Suc g) k) x ttl m" and "0 < ms"
  shows "pr_answers (read_step (t', Ev_arrive c k ms) (two\<lparr>pr_gen := pr_gen two + 1\<rparr>)) = pr_answers two @ [(c, Some x)]"
proof -
  have "\<exists>pre'. mc_evict (mc_max m) (js_delete (gen_key (Suc g) k) (mc_store m) @ [(gen_key (Suc g) k, (x, t + ttl * 1000))])
      = pre' @ [(gen_key (Suc g) k, (x, t + ttl * 1000))]"
    by (rule evict_keeps) (use assms(2) in simp)
  then obtain pre' where pre: "mc_store (mc_set t (gen_key (Suc g) k) x ttl m) = pre' @ [(gen_key (Suc g) k, (x, t + ttl * 1000))]"
    using assms(3) by (auto simp: mc_set_def)
  have wf: "cache_wf (mc_set t (gen_key (Suc g) k) x ttl m)"
    using step_keys(1) [of t "Op_set (gen_key (Suc g) k) x ttl" m] assms(1) by simp
  then have "map_of (mc_store (mc_set t (gen_key (Suc g) k) x ttl m)) (gen_key (Suc g) k) = Some (x, t + ttl * 1000)"
    unfolding cache_wf_def pre by (intro map_of_is_SomeI) auto
  then have "snd (mc_get t' (gen_key (Suc g) k) (mc_set t (gen_key (Suc g) k) x ttl m)) = x"
    using assms(4) by (simp add: mc_get_def mc_read_def)
  then show ?thesis using assms(5-8) by (simp add: arrive_def Let_def case_prod_beta)
qed

section \<open>The key of a request\<close>

text \<open>A quoted string can be read off the front of a text.\<close>

definition unhex :: "char \<Rightarrow> nat" where
  "unhex c = (let n = of_char c in if n \<le> 57 then n - 48 else n - 87)"

lemma unhex_hex: "n < 16 \<Longrightarrow> unhex (hex_char n) = n"
  by (auto simp: unhex_def hex_char_def Let_def)

fun unescape :: "string \<Rightarrow> (char \<times> string) option" where
  "unescape [] = None"
| "unescape (c # r) =
     (if c \<noteq> CHR 0x5C then Some (c, r)
      else case r of
        [] \<Rightarrow> None
      | d # q \<Rightarrow>
          (if d = CHR ''b'' then Some (CHR 0x08, q) else if d = CHR ''t'' then Some (CHR 0x09, q)
           else if d = CHR ''n'' then Some (CHR 0x0A, q) else if d = CHR ''f'' then Some (CHR 0x0C, q)
           else if d = CHR ''r'' then Some (CHR 0x0D, q)
           else if d = CHR ''u'' then Some (char_of (16 * unhex (q ! 2) + unhex (q ! 3)), drop 4 q)
           else Some (d, q)))"

lemma of_char_eq: "(of_char c :: nat) = n \<Longrightarrow> c = char_of n"
  by auto

lemma control_chars:
  "char_of (8 :: nat) = CHR 0x08" "char_of (9 :: nat) = CHR 0x09" "char_of (10 :: nat) = CHR 0x0A"
  "char_of (12 :: nat) = CHR 0x0C" "char_of (13 :: nat) = CHR 0x0D"
  by code_simp+

lemma unescape_escape: "unescape (escape_char a @ x) = Some (a, x)"
proof -
  let ?n = "of_char a :: nat"
  have c: "char_of ?n = a" by simp
  show ?thesis
  proof (cases "a = CHR 0x22 \<or> a = CHR 0x5C")
    case True
    then show ?thesis by (auto simp: escape_char_def)
  next
    case no: False
    show ?thesis
    proof (cases "?n \<in> {8, 9, 10, 12, 13}")
      case True
      then consider "?n = 8" | "?n = 9" | "?n = 10" | "?n = 12" | "?n = 13" by blast
      then show ?thesis
      proof cases
        case 1
        then have "a = CHR 0x08" by (auto dest!: of_char_eq simp: control_chars)
        then show ?thesis by (simp add: escape_char_def)
      next
        case 2
        then have "a = CHR 0x09" by (auto dest!: of_char_eq simp: control_chars)
        then show ?thesis by (simp add: escape_char_def)
      next
        case 3
        then have "a = CHR 0x0A" by (auto dest!: of_char_eq simp: control_chars)
        then show ?thesis by (simp add: escape_char_def)
      next
        case 4
        then have "a = CHR 0x0C" by (auto dest!: of_char_eq simp: control_chars)
        then show ?thesis by (simp add: escape_char_def)
      next
        case 5
        then have "a = CHR 0x0D" by (auto dest!: of_char_eq simp: control_chars)
        then show ?thesis by (simp add: escape_char_def)
      qed
    next
      case False
      show ?thesis
      proof (cases "?n < 32")
        case True
        have "16 * (?n div 16) + ?n mod 16 = ?n" by simp
        moreover have "unhex (hex_char (?n div 16)) = ?n div 16" "unhex (hex_char (?n mod 16)) = ?n mod 16"
          using True by (simp_all add: unhex_hex)
        ultimately show ?thesis using True False no c by (simp add: escape_char_def Let_def)
      next
        case big: False
        then show ?thesis using False no by (simp add: escape_char_def Let_def)
      qed
    qed
  qed
qed

lemma escape_char_prefix:
  assumes "escape_char a @ x = escape_char b @ y"
  shows "a = b \<and> x = y"
proof -
  have "Some (a, x) = Some (b, y)"
    unfolding unescape_escape [symmetric] assms ..
  then show ?thesis by simp
qed

lemma escape_first: "\<exists>e r. escape_char a = e # r \<and> e \<noteq> CHR 0x22"
proof (cases "escape_char a")
  case Nil
  then show ?thesis using unescape_escape [of a "[]"] by simp
next
  case (Cons e r)
  moreover have "e \<noteq> CHR 0x22"
  proof
    assume e: "e = CHR 0x22"
    then have "a = CHR 0x22" using unescape_escape [of a "[]"] Cons by simp
    then show False using Cons e by (simp add: escape_char_def)
  qed
  ultimately show ?thesis by blast
qed

lemma quoted_prefix:
  assumes "quoted a @ x = quoted b @ y"
  shows "a = b \<and> x = y"
proof -
  have core: "concat (map escape_char a) @ CHR 0x22 # x = concat (map escape_char b) @ CHR 0x22 # y \<Longrightarrow> a = b \<and> x = y" for a b
  proof (induction a arbitrary: b)
    case Nil
    show ?case
    proof (cases b)
      case (Cons d b')
      obtain e r where "escape_char d = e # r" "e \<noteq> CHR 0x22" using escape_first by blast
      then show ?thesis using Nil.prems Cons by simp
    qed (use Nil.prems in simp)
  next
    case (Cons c a)
    show ?case
    proof (cases b)
      case Nil
      obtain e r where "escape_char c = e # r" "e \<noteq> CHR 0x22" using escape_first by blast
      then show ?thesis using Cons.prems Nil by simp
    next
      case (Cons d b')
      have h: "c = d \<and> concat (map escape_char a) @ CHR 0x22 # x = concat (map escape_char b') @ CHR 0x22 # y"
        using Cons.prems unfolding Cons by (intro escape_char_prefix) (simp only: list.map concat.simps append_assoc)
      have "a = b' \<and> x = y" by (rule Cons.IH [OF conjunct2 [OF h]])
      then show ?thesis using h Cons by blast
    qed
  qed
  show ?thesis by (rule core) (use assms in \<open>simp add: quoted_def\<close>)
qed

text \<open>Scalars whose numbers are in \<open>N\<close> (the doubles).\<close>

fun scalar :: "real set \<Rightarrow> json \<Rightarrow> bool" where
  "scalar N (JArr vs) = False"
| "scalar N (JObj kvs) = False"
| "scalar N (JNum x) = (x \<in> N)"
| "scalar N v = True"

text \<open>What the texts of numbers must be: different for different doubles, without \<open>&\<close>, not those of other
  constants, and not starting with a quote.\<close>

definition number_texts :: "real set \<Rightarrow> (real \<Rightarrow> string) \<Rightarrow> bool" where
  "number_texts N num \<longleftrightarrow>
     inj_on num N \<and> (\<forall>x. num x \<noteq> [] \<and> hd (num x) \<noteq> CHR 0x22 \<and> CHR ''&'' \<notin> set (num x) \<and> num x \<notin> {''null'', ''true'', ''false''})"

definition ends_part :: "string \<Rightarrow> bool" where
  "ends_part r \<longleftrightarrow> r = [] \<or> (\<exists>q. r = CHR ''&'' # q)"

lemma no_amp_prefix:
  assumes "a @ r = b @ q" and "ends_part r" and "ends_part q" and "CHR ''&'' \<notin> set a" and "CHR ''&'' \<notin> set b"
  shows "a = b \<and> r = q"
proof -
  consider "r = []" "q = []" | r' q' where "r = CHR ''&'' # r'" "q = CHR ''&'' # q'"
    | r' where "r = CHR ''&'' # r'" "q = []" | q' where "r = []" "q = CHR ''&'' # q'"
    using assms(2,3) by (auto simp: ends_part_def)
  then show ?thesis
  proof cases
    case (2 r' q')
    then show ?thesis using char_split [of a _ r' b q'] assms(1,4,5) by simp
  next
    case (3 r')
    then have "CHR ''&'' \<in> set b" using assms(1) by (metis append_Nil2 in_set_conv_decomp)
    then show ?thesis using assms(5) by simp
  next
    case (4 q')
    then have "CHR ''&'' \<in> set a" using assms(1) by (metis append_Nil2 in_set_conv_decomp)
    then show ?thesis using assms(4) by simp
  qed (use assms(1) in simp)
qed

text \<open>A scalar is a string, or has a text of its own that starts otherwise.\<close>

lemma plain_text:
  assumes "number_texts N num" and "scalar N u" and "\<forall>s. u \<noteq> JStr s"
  shows "CHR ''&'' \<notin> set (json_text num u)" and "\<exists>c t. json_text num u = c # t \<and> c \<noteq> CHR 0x22"
proof -
  have num: "CHR ''&'' \<notin> set (num x)" "num x \<noteq> []" "hd (num x) \<noteq> CHR 0x22" for x
    using assms(1) by (auto simp: number_texts_def)
  show "CHR ''&'' \<notin> set (json_text num u)" using assms(2,3) num(1) by (cases u) auto
  show "\<exists>c t. json_text num u = c # t \<and> c \<noteq> CHR 0x22"
  proof (cases u)
    case (JNum x)
    then show ?thesis using num(2,3) [of x] by (cases "num x") auto
  qed (use assms(2,3) in auto)
qed

lemma plain_inj:
  assumes "number_texts N num" and "scalar N u" "scalar N w" and "\<forall>s. u \<noteq> JStr s" "\<forall>s. w \<noteq> JStr s"
    and "json_text num u = json_text num w"
  shows "u = w"
proof -
  have num: "x \<in> N \<Longrightarrow> y \<in> N \<Longrightarrow> num x = num y \<Longrightarrow> x = y" "num x \<noteq> ''null''" "num x \<noteq> ''true''" "num x \<noteq> ''false''" for x y
    using assms(1) by (auto simp: number_texts_def dest: inj_onD)
  note num' = num(2-4) num(2-4) [symmetric]
  show ?thesis
  proof (cases u)
    case (JNum x)
    show ?thesis
    proof (cases w)
      case (JNum y)
      then have "x = y" using num(1) [of x y] assms(2,3,6) \<open>u = JNum x\<close> by simp
      then show ?thesis using JNum \<open>u = JNum x\<close> by simp
    qed (use assms(3,5,6) JNum in \<open>simp_all add: num' split: if_splits\<close>)
  next
    case JNull
    then show ?thesis using assms(3,5,6) by (cases w) (simp_all add: num' split: if_splits)
  next
    case (JBool p)
    then show ?thesis using assms(3,5,6) by (cases w) (simp_all add: num' split: if_splits)
  qed (use assms(2,4) in auto)
qed

lemma scalar_prefix:
  assumes n: "number_texts N num" and "scalar N v" and "scalar N w" and eq: "json_text num v @ r = json_text num w @ q"
    and "ends_part r" and "ends_part q"
  shows "v = w \<and> r = q"
proof -
  have q: "\<exists>t. quoted s = CHR 0x22 # t" for s by (simp add: quoted_def)
  consider s t where "v = JStr s" "w = JStr t" | s where "v = JStr s" "\<forall>t. w \<noteq> JStr t"
    | s where "w = JStr s" "\<forall>t. v \<noteq> JStr t" | "\<forall>t. v \<noteq> JStr t" "\<forall>t. w \<noteq> JStr t" by blast
  then show ?thesis
  proof cases
    case (1 s t)
    then show ?thesis using eq quoted_prefix [of s r t q] by simp
  next
    case (2 s)
    obtain c t where "json_text num w = c # t" "c \<noteq> CHR 0x22" using plain_text(2) [OF n assms(3) 2(2)] by blast
    then show ?thesis using eq q [of s] 2(1) by auto
  next
    case (3 s)
    obtain c t where "json_text num v = c # t" "c \<noteq> CHR 0x22" using plain_text(2) [OF n assms(2) 3(2)] by blast
    then show ?thesis using eq q [of s] 3(1) by auto
  next
    case 4
    have "json_text num v = json_text num w \<and> r = q"
      by (rule no_amp_prefix [OF eq assms(5,6) plain_text(1) [OF n assms(2) 4(1)] plain_text(1) [OF n assms(3) 4(2)]])
    then show ?thesis using plain_inj [OF n assms(2,3) 4] by simp
  qed
qed

lemma parts_text:
  assumes n: "number_texts N num"
    and "\<forall>p \<in> set ps. CHR ''='' \<notin> set (fst p) \<and> scalar N (the (snd p))" and "\<forall>p \<in> set qs. CHR ''='' \<notin> set (fst p) \<and> scalar N (the (snd p))"
    and "amp_join (map (key_part num) ps) = amp_join (map (key_part num) qs)"
  shows "map (\<lambda>p. (fst p, the (snd p))) ps = map (\<lambda>p. (fst p, the (snd p))) qs"
  using assms(2-4)
proof (induction ps arbitrary: qs)
  case Nil
  have "amp_join (key_part num q # xs) \<noteq> []" for q xs by (cases xs) (simp_all add: key_part_def)
  then show ?case using Nil.prems(3) by (cases qs) (simp, metis amp_join.simps(1) list.simps(8,9))
next
  case (Cons p ps)
  have ne: "amp_join (key_part num q # xs) \<noteq> []" for q xs by (cases xs) (simp_all add: key_part_def)
  have split: "\<exists>r. amp_join (map (key_part num) (q # xs)) = fst q @ CHR ''='' # json_text num (the (snd q)) @ r
      \<and> ends_part r \<and> (r = [] \<longleftrightarrow> xs = []) \<and> (\<forall>z. r = CHR ''&'' # z \<longrightarrow> z = amp_join (map (key_part num) xs))" for q xs
    by (cases xs) (auto simp: key_part_def ends_part_def)
  have "qs \<noteq> []" using Cons.prems(3) ne [of p "map (key_part num) ps"] by auto
  then obtain q qs' where qs: "qs = q # qs'" by (cases qs) simp_all
  obtain r where r: "amp_join (map (key_part num) (p # ps)) = fst p @ CHR ''='' # json_text num (the (snd p)) @ r"
      "ends_part r" "r = [] \<longleftrightarrow> ps = []" "\<And>z. r = CHR ''&'' # z \<Longrightarrow> z = amp_join (map (key_part num) ps)" using split by blast
  obtain r' where r': "amp_join (map (key_part num) (q # qs')) = fst q @ CHR ''='' # json_text num (the (snd q)) @ r'"
      "ends_part r'" "r' = [] \<longleftrightarrow> qs' = []" "\<And>z. r' = CHR ''&'' # z \<Longrightarrow> z = amp_join (map (key_part num) qs')" using split by blast
  have one: "fst p = fst q \<and> json_text num (the (snd p)) @ r = json_text num (the (snd q)) @ r'"
    by (rule char_split [of _ "CHR ''=''"]) (use Cons.prems qs r(1) r'(1) in auto)
  have two: "the (snd p) = the (snd q) \<and> r = r'"
    by (rule scalar_prefix [OF n _ _ _ r(2) r'(2)]) (use one Cons.prems(1,2) qs in auto)
  have "map (\<lambda>p. (fst p, the (snd p))) ps = map (\<lambda>p. (fst p, the (snd p))) qs'"
  proof (cases "r = []")
    case True
    then show ?thesis using r(3) r'(3) two by simp
  next
    case False
    then obtain z where "r = CHR ''&'' # z" using r(2) by (auto simp: ends_part_def)
    then have "amp_join (map (key_part num) ps) = amp_join (map (key_part num) qs')" using r(4) r'(4) two by metis
    then show ?thesis using Cons.IH [of qs'] Cons.prems(1,2) qs by simp
  qed
  then show ?case using one two qs by simp
qed

text \<open>The parameters of a request that are defined.\<close>

definition defined_params :: "(string \<times> json option) list \<Rightarrow> (string \<times> json) set" where
  "defined_params ps = {(n, v). (n, Some v) \<in> set ps}"

definition plain_params :: "real set \<Rightarrow> (string \<times> json option) list \<Rightarrow> bool" where
  "plain_params N ps \<longleftrightarrow> distinct (map fst ps) \<and> list_all (\<lambda>p. CHR ''='' \<notin> set (fst p) \<and> (case snd p of None \<Rightarrow> True | Some v \<Rightarrow> scalar N v)) ps"

lemma distinct_of_keys: "distinct (map fst xs) \<Longrightarrow> distinct xs"
  by (simp add: distinct_map)

text \<open>two requests share a cache key exactly when they go to the same route with the same defined
  parameters, in whatever order they name them: no value can forge another parameter.\<close>

lemma cache_key_names_request:
  assumes "number_texts N num" and "plain_params N ps" and "plain_params N qs" and "CHR ''?'' \<notin> set r" and "CHR ''?'' \<notin> set r'"
  shows "publicReadCacheKey num r ps = publicReadCacheKey num r' qs \<longleftrightarrow> r = r' \<and> defined_params ps = defined_params qs"
proof -
  let ?d = "filter (\<lambda>p. snd p \<noteq> None)" and ?v = "\<lambda>p. (fst p, the (snd p))"
  have dd: "distinct (map fst (?d xs))" if "plain_params N xs" for xs using that by (simp add: plain_params_def distinct_map_filter)
  have dp: "set (map ?v (?d xs)) = defined_params xs" for xs :: "(string \<times> json option) list"
    by (force simp: defined_params_def image_iff)
  have same: "sort_key fst (?d ps) = sort_key fst (?d qs)" if "defined_params ps = defined_params qs"
  proof (rule sort_key_inj_key_eq [OF _ _ sorted_sort_key])
    have "set (?d ps) = set (?d qs)" using that by (force simp: defined_params_def)
    then have "mset (?d ps) = mset (?d qs)"
      using set_eq_iff_mset_eq_distinct [OF distinct_of_keys [OF dd [OF assms(2)]] distinct_of_keys [OF dd [OF assms(3)]]] by simp
    then show "mset (?d ps) = mset (sort_key fst (?d qs))" by simp
    show "inj_on fst (set (?d ps))" using dd [OF assms(2)] by (simp add: distinct_map)
  qed
  have names: "defined_params ps = defined_params qs" if eq: "amp_join (map (key_part num) (sort_key fst (?d ps))) = amp_join (map (key_part num) (sort_key fst (?d qs)))"
  proof -
    have ok: "\<forall>p \<in> set (sort_key fst (?d xs)). CHR ''='' \<notin> set (fst p) \<and> scalar N (the (snd p))" if "plain_params N xs" for xs
      using that by (auto simp: plain_params_def list_all_iff)
    have "map ?v (sort_key fst (?d ps)) = map ?v (sort_key fst (?d qs))"
      using parts_text [where num = num and ps = "sort_key fst (?d ps)" and qs = "sort_key fst (?d qs)"]
        assms(1) ok [OF assms(2)] ok [OF assms(3)] eq by blast
    then have "set (map ?v (sort_key fst (?d ps))) = set (map ?v (sort_key fst (?d qs)))" by (rule arg_cong)
    then have "set (map ?v (?d ps)) = set (map ?v (?d qs))" by simp
    then show ?thesis using dp [of ps] dp [of qs] by simp
  qed
  let ?t = "\<lambda>xs. amp_join (map (key_part num) (sort_key fst (?d xs)))"
  show ?thesis
  proof
    assume "publicReadCacheKey num r ps = publicReadCacheKey num r' qs"
    then have "r @ CHR ''?'' # ?t ps = r' @ CHR ''?'' # ?t qs" by (simp add: publicReadCacheKey_def)
    then have h: "r = r' \<and> ?t ps = ?t qs" using assms(4,5) by (rule char_split)
    have "defined_params ps = defined_params qs" by (rule names [OF conjunct2 [OF h]])
    then show "r = r' \<and> defined_params ps = defined_params qs" using h by blast
  next
    assume h: "r = r' \<and> defined_params ps = defined_params qs"
    show "publicReadCacheKey num r ps = publicReadCacheKey num r' qs"
      unfolding publicReadCacheKey_def same [OF conjunct2 [OF h]] conjunct1 [OF h] ..
  qed
qed

section \<open>Instances\<close>

definition one_reader :: reads where
  "one_reader = reads_run [(0, Ev_arrive 1 ''k'' 60000), (0, Ev_enter 1)] start_reads"

lemma one_reader_state:
  "pr_flights one_reader = [(gen_key 0 ''k'', \<lparr>fl_callers = [1], fl_hit = JNull, fl_ttl = 60\<rparr>)]"
  "mc_store (pr_store one_reader) = []" "pr_gen one_reader = 0" "pr_missed one_reader = []" "pr_answers one_reader = []"
  by (simp_all add: one_reader_def reads_run_def start_reads_def empty_cache_def arrive_def enter_def mc_get_def mc_read_def
      js_put_def ttl_seconds_def)

lemma failed_load_not_cached_witness:
  "pr_answers (settle 5 (gen_key 0 ''k'') None one_reader) = [(1, None)]"
  using failed_load_not_cached [of one_reader "gen_key 0 ''k''" "\<lparr>fl_callers = [1], fl_hit = JNull, fl_ttl = 60\<rparr>" 5]
  by (simp add: one_reader_state one_flight_per_key_def)

theorem no_stale_body_after_clear_witness:
  "filter (\<lambda>a. fst a = 2 \<and> snd a = Some (JBool False))
     (pr_answers (reads_run [(2, Ev_arrive 2 ''k'' 60000), (3, Ev_settle (gen_key 0 ''k'') (Some (JBool False))), (4, Ev_enter 2),
        (5, Ev_settle (gen_key 1 ''k'') (Some (JBool True)))] (clearPublicReadCache one_reader))) = []"
proof -
  let ?after = "[(2, Ev_arrive 2 ''k'' 60000), (3, Ev_settle (gen_key 0 ''k'') (Some (JBool False))), (4, Ev_enter 2),
        (5, Ev_settle (gen_key 1 ''k'') (Some (JBool True)))]"
  have "\<not> since 1 (gen_key 0 ''k'')" by (auto simp: since_def gen_key_inj)
  then have good: "list_all (good_event (pr_gen one_reader + 1) (\<lambda>v. v = JBool True)) ?after" by (simp add: one_reader_state)
  have dis: "set (arrivals ?after) \<inter> set_mset (callers one_reader) = {}" by (simp add: callers_def one_reader_state)
  from no_stale_body_after_clear [OF one_reader_def refl good dis]
  show ?thesis by (auto simp: filter_empty_conv list_all_iff)
qed

lemma cache_key_names_request_witness:
  "publicReadCacheKey (\<lambda>x. ''1'') ''r'' [(''b'', Some (JStr ''x&a=1'')), (''a'', Some (JNum 1)), (''c'', None)]
     = publicReadCacheKey (\<lambda>x. ''1'') ''r'' [(''a'', Some (JNum 1)), (''b'', Some (JStr ''x&a=1''))]"
proof -
  have n: "number_texts {1} (\<lambda>x. ''1'')" by (simp add: number_texts_def)
  have "plain_params {1} [(''b'', Some (JStr ''x&a=1'')), (''a'', Some (JNum 1)), (''c'', None)]"
    "plain_params {1} [(''a'', Some (JNum 1)), (''b'', Some (JStr ''x&a=1''))]"
    by (simp_all add: plain_params_def)
  from cache_key_names_request [OF n this, of "''r''" "''r''"] show ?thesis by (auto simp: defined_params_def)
qed

end
