(* ===== verification/Delivery_Lease.thy ===== *)
theory Delivery_Lease
  imports Dispatch
begin

text \<open>
  One delivery under several dispatch workers (\<open>dispatchChannel\<close> of \<open>services/notifications.ts\<close>)
  and the retries of the admin console (\<open>routes/v1/admin-notifications.ts\<close>), each step on its own:
  the start of a tick, whose clock guards the claim; the read of the delivery; the guarded claim,
  whose lease is counted from a clock read between the two; the settlement of the answer, which is
  not guarded; after a delivery recorded as sent, the write of the channel's health, whose failure
  lands in the same \<open>catch\<close> as a refusal of the transport; and for the console the read of a dead
  row and the write that follows. A worker that stops is one that takes no further step.
\<close>

section \<open>The lane of one delivery\<close>

datatype worker =
    Idle
  | Started time
  | Seen time delivery_row
  | Sending time int \<comment> \<open>the end of the lease, the attempt number\<close>
  | Recorded int \<comment> \<open>sent is written, the health of the channel is not\<close>
  | Retrying \<comment> \<open>a request of the console that has read the row as dead\<close>

record lane =
  ln_clock :: time
  ln_row :: delivery_row
  ln_worker :: "nat \<Rightarrow> worker"

definition put_worker :: "nat \<Rightarrow> worker \<Rightarrow> lane \<Rightarrow> lane" where
  "put_worker w x l = l\<lparr>ln_worker := (ln_worker l)(w := x)\<rparr>"

definition after_answer :: "int \<Rightarrow> send_result \<Rightarrow> worker" where
  "after_answer att res = (case res of Accepted \<Rightarrow> Recorded att | Refused err \<Rightarrow> Idle)"

text \<open>The console's write names the row by its id and keeps the attempts.\<close>

definition retried_row :: "delivery_row \<Rightarrow> delivery_row" where
  "retried_row r = r\<lparr>dl_status := DL_pending, dl_next := None\<rparr>"

text \<open>The two steps that take a settled row back are told apart from the others.\<close>

datatype lane_event = Ordinary | Health_lost | Retried

inductive lane_step :: "delivery_settings \<Rightarrow> lane \<Rightarrow> lane_event \<Rightarrow> lane \<Rightarrow> bool" for st where
  time_passes: "ln_clock l \<le> t \<Longrightarrow> lane_step st l Ordinary (l\<lparr>ln_clock := t\<rparr>)"
| tick_starts: "ln_worker l w = Idle \<Longrightarrow> lane_step st l Ordinary (put_worker w (Started (ln_clock l)) l)"
| delivery_read:
    "\<lbrakk>ln_worker l w = Started now; \<not> settled (ln_row l); \<not> waiting now (ln_row l)\<rbrakk>
     \<Longrightarrow> lane_step st l Ordinary (put_worker w (Seen now (ln_row l)) l)"
| lease_taken:
    "\<lbrakk>ln_worker l w = Seen now r; lease_free now (ln_row l); now \<le> t; t \<le> ln_clock l\<rbrakk>
     \<Longrightarrow> lane_step st l Ordinary
          ((put_worker w (Sending (t + ds_lease st) (dl_attempts r + 1)) l)
             \<lparr>ln_row := leased_row st t (ln_row l)\<rparr>)"
| gives_up: "ln_worker l w \<in> {Started now, Seen now r} \<Longrightarrow> lane_step st l Ordinary (put_worker w Idle l)"
| answer_recorded:
    "\<lbrakk>ln_worker l w = Sending lease att; ln_clock l < lease\<rbrakk>
     \<Longrightarrow> lane_step st l Ordinary
          ((put_worker w (after_answer att res) l)\<lparr>ln_row := answered_row st (ln_clock l) att res (ln_row l)\<rparr>)"
| health_written: "ln_worker l w = Recorded att \<Longrightarrow> lane_step st l Ordinary (put_worker w Idle l)"
| health_lost:
    "ln_worker l w = Recorded att
     \<Longrightarrow> lane_step st l Health_lost
          ((put_worker w Idle l)\<lparr>ln_row := failed_row st (ln_clock l) att Other_error (ln_row l)\<rparr>)"
| retry_asked:
    "\<lbrakk>ln_worker l w = Idle; dl_status (ln_row l) = DL_dead\<rbrakk>
     \<Longrightarrow> lane_step st l Ordinary (put_worker w Retrying l)"
| retry_written:
    "\<lbrakk>ln_worker l w = Retrying; dl_status (ln_row l) = DL_dead\<rbrakk>
     \<Longrightarrow> lane_step st l Retried ((put_worker w Idle l)\<lparr>ln_row := retried_row (ln_row l)\<rparr>)"

inductive lane_run :: "delivery_settings \<Rightarrow> lane \<Rightarrow> lane_event list \<Rightarrow> lane \<Rightarrow> bool" for st where
  run_ends: "lane_run st l [] l"
| run_steps: "\<lbrakk>lane_run st l es l1; lane_step st l1 e l2\<rbrakk> \<Longrightarrow> lane_run st l (es @ [e]) l2"

text \<open>What the code also admits: an answer after the end of its lease, and a retry of the console
  whose row is no longer dead when the write lands.\<close>

inductive lane_late :: "delivery_settings \<Rightarrow> lane \<Rightarrow> lane \<Rightarrow> bool" for st where
  late_answer:
    "\<lbrakk>ln_worker l w = Sending lease att; lease \<le> ln_clock l\<rbrakk>
     \<Longrightarrow> lane_late st l
          ((put_worker w (after_answer att res) l)\<lparr>ln_row := answered_row st (ln_clock l) att res (ln_row l)\<rparr>)"
| late_retry:
    "\<lbrakk>ln_worker l w = Retrying; dl_status (ln_row l) \<noteq> DL_dead\<rbrakk>
     \<Longrightarrow> lane_late st l ((put_worker w Idle l)\<lparr>ln_row := retried_row (ln_row l)\<rparr>)"

definition fresh_lane :: "lane \<Rightarrow> bool" where
  "fresh_lane l \<longleftrightarrow>
     dl_status (ln_row l) = DL_pending \<and> dl_attempts (ln_row l) = 0 \<and> (\<forall>w. ln_worker l w = Idle)"

definition usable :: "delivery_settings \<Rightarrow> bool" where
  "usable st \<longleftrightarrow> 0 < ds_lease st \<and> 1 \<le> ds_max st \<and> ds_backoff st \<noteq> [] \<and> (\<forall>b \<in> set (ds_backoff st). 0 < b)"

text \<open>How far the recorded attempts may go: a lost health write counts an attempt twice, and a retry
  re-opens a row whose attempts are used up, which a worker may still claim under an older count.\<close>

definition event_cost :: "lane_event \<Rightarrow> int" where
  "event_cost e = (case e of Ordinary \<Rightarrow> 0 | Health_lost \<Rightarrow> 1 | Retried \<Rightarrow> 2)"

definition attempt_bound :: "delivery_settings \<Rightarrow> lane_event list \<Rightarrow> int" where
  "attempt_bound st es = ds_max st + sum_list (map event_cost es)"

section \<open>Invariant\<close>

definition live :: "lane \<Rightarrow> nat \<Rightarrow> bool" where
  "live l w \<longleftrightarrow> (case ln_worker l w of Sending lease att \<Rightarrow> ln_clock l < lease | _ \<Rightarrow> False)"

definition holds :: "lane \<Rightarrow> nat \<Rightarrow> bool" where
  "holds l w \<longleftrightarrow>
     (case ln_worker l w of Sending lease att \<Rightarrow> ln_clock l < lease | Recorded att \<Rightarrow> True | _ \<Rightarrow> False)"

definition row_ok :: "delivery_settings \<Rightarrow> int \<Rightarrow> delivery_row \<Rightarrow> bool" where
  "row_ok st b r \<longleftrightarrow>
     ds_max st \<le> b \<and> dl_attempts r \<le> b \<and> (\<not> settled r \<longrightarrow> dl_attempts r < b)"

text \<open>What a worker's view says of the row: a live holder owns it, and a reader that could still
  claim it has read it as it is, unless a retry re-opened it.\<close>

definition view_ok :: "int \<Rightarrow> lane \<Rightarrow> worker \<Rightarrow> bool" where
  "view_ok b l x =
     (let a = dl_attempts (ln_row l)
      in case x of
           Started now \<Rightarrow> now \<le> ln_clock l
         | Seen now r \<Rightarrow> now \<le> ln_clock l \<and> (lease_free now (ln_row l) \<longrightarrow> a = dl_attempts r \<or> a + 2 \<le> b)
         | Sending lease att \<Rightarrow>
             ln_clock l < lease \<longrightarrow>
               dl_status (ln_row l) = DL_processing \<and> dl_next (ln_row l) = Some lease \<and> (att = a + 1 \<or> a + 2 \<le> b)
         | Recorded att \<Rightarrow> dl_status (ln_row l) = DL_sent \<and> (att = a \<or> a + 1 \<le> b)
         | _ \<Rightarrow> True)"

definition lane_ok :: "delivery_settings \<Rightarrow> int \<Rightarrow> lane \<Rightarrow> bool" where
  "lane_ok st b l \<longleftrightarrow>
     row_ok st b (ln_row l) \<and> (\<forall>w. view_ok b l (ln_worker l w))
     \<and> (\<forall>v w. holds l v \<longrightarrow> holds l w \<longrightarrow> v = w)"

inductive_cases lane_stepE: "lane_step st l e l'"

lemma put_worker_simps [simp]:
  "ln_clock (put_worker w x l) = ln_clock l" "ln_row (put_worker w x l) = ln_row l"
  "ln_worker (put_worker w x l) = (ln_worker l)(w := x)"
  by (simp_all add: put_worker_def)

lemma holds_alt:
  "holds l w \<longleftrightarrow> (\<exists>att. ln_worker l w = Recorded att) \<or> (\<exists>lease att. ln_worker l w = Sending lease att \<and> ln_clock l < lease)"
  by (simp add: holds_def split: worker.split)

lemma live_holds: "live l w \<Longrightarrow> holds l w"
  by (simp add: live_def holds_def split: worker.splits)

lemma backoff_positive: "usable st \<Longrightarrow> 0 < backoffForAttempt st att"
proof -
  assume u: "usable st"
  let ?i = "min (att - 1) (int (length (ds_backoff st)) - 1)"
  have "0 < ds_backoff st ! nat ?i" if "0 \<le> ?i"
  proof -
    have "0 < length (ds_backoff st)" using u by (simp add: usable_def)
    with that have "nat ?i < length (ds_backoff st)" by linarith
    then show ?thesis using u by (simp add: usable_def)
  qed
  then show ?thesis by (simp add: backoffForAttempt_def Let_def)
qed

lemma answered_row_not_free:
  assumes "usable st" and "now \<le> t"
  shows "\<not> lease_free now (answered_row st t att res r)"
proof -
  have "now < t + backoffForAttempt st att * 1000" using backoff_positive [OF assms(1), of att] assms(2) by linarith
  then show ?thesis
    by (auto simp: answered_row_def sent_row_def failed_row_def lease_free_def due_def split: send_result.split)
qed

lemma failed_row_not_free:
  assumes "usable st" and "now \<le> t"
  shows "\<not> lease_free now (failed_row st t att err r)"
  using answered_row_not_free [OF assms, of att "Refused err" r] by (simp add: answered_row_def)

text \<open>A claim frees the row for nobody it was not free for already.\<close>

lemma leased_row_free:
  assumes "usable st" and "lease_free now r" and "now \<le> t" and "lease_free now' (leased_row st t r)"
  shows "lease_free now' r"
  using assms by (auto simp: leased_row_def lease_free_def due_def usable_def split: option.splits)

lemma leased_row_ok: "row_ok st b r \<Longrightarrow> lease_free now r \<Longrightarrow> row_ok st b (leased_row st t r)"
  by (auto simp: row_ok_def leased_row_def lease_free_def settled_def)

lemma answered_row_ok:
  assumes "row_ok st b r" and "dl_status r = DL_processing" and "att = dl_attempts r + 1 \<or> dl_attempts r + 2 \<le> b"
  shows "row_ok st b (answered_row st t att res r)"
  using assms
  by (auto simp: row_ok_def answered_row_def sent_row_def failed_row_def settled_def terminal_def split: send_result.split)

lemma caught_row_ok:
  assumes "row_ok st b r" and "att = dl_attempts r \<or> dl_attempts r + 1 \<le> b"
  shows "row_ok st (b + 1) (failed_row st t att err r)"
  using assms by (auto simp: row_ok_def failed_row_def settled_def terminal_def)

lemma lane_ok_mono:
  assumes "lane_ok st b l" and "b \<le> b'"
  shows "lane_ok st b' l"
proof -
  have "view_ok b' l x" if "view_ok b l x" for x
    using that assms(2) by (auto simp: view_ok_def Let_def split: worker.splits)
  then show ?thesis using assms by (auto simp: lane_ok_def row_ok_def)
qed

text \<open>When one worker is the only holder, or nobody holds the row, what the others see after a write is
  settled by whom the new row is free for.\<close>

lemma free_writer_ok:
  assumes ok: "lane_ok st b l" and row: "row_ok st b' r'" and le: "b \<le> b'"
    and alone: "\<And>x. x \<noteq> w \<Longrightarrow> \<not> holds l x"
    and seen: "\<And>now (r :: delivery_row). now \<le> ln_clock l \<Longrightarrow> (lease_free now (ln_row l) \<Longrightarrow> dl_attempts (ln_row l) = dl_attempts r \<or> dl_attempts (ln_row l) + 2 \<le> b)
      \<Longrightarrow> lease_free now r' \<Longrightarrow> dl_attempts r' = dl_attempts r \<or> dl_attempts r' + 2 \<le> b'"
    and own: "view_ok b' ((put_worker w s l)\<lparr>ln_row := r'\<rparr>) s"
  shows "lane_ok st b' ((put_worker w s l)\<lparr>ln_row := r'\<rparr>)"
proof -
  let ?l = "(put_worker w s l)\<lparr>ln_row := r'\<rparr>"
  have "view_ok b' ?l (ln_worker ?l x)" for x
  proof (cases "x = w")
    case True
    then show ?thesis using own by simp
  next
    case False
    have v: "view_ok b l (ln_worker l x)" using ok by (simp add: lane_ok_def)
    show ?thesis
    proof (cases "ln_worker l x")
      case (Seen now r)
      then show ?thesis using v False seen [of now r] by (simp add: view_ok_def Let_def)
    qed (use v False alone [OF False] in \<open>auto simp: view_ok_def Let_def holds_alt\<close>)
  qed
  moreover have "x = w" if "holds ?l x" for x
    using that alone [of x] by (cases "x = w") (auto simp: holds_alt)
  moreover have "row_ok st b' (ln_row ?l)" using row by simp
  ultimately show ?thesis unfolding lane_ok_def by blast
qed

lemma quiet_step_ok:
  assumes ok: "lane_ok st b l" and own: "view_ok b l s" and free: "\<And>lease att. s \<noteq> Sending lease att" "\<And>att. s \<noteq> Recorded att"
  shows "lane_ok st b (put_worker w s l)"
proof -
  have "view_ok b (put_worker w s l) x" if "view_ok b l x" for x
    using that by (auto simp: view_ok_def Let_def split: worker.splits)
  moreover have "x \<noteq> w \<and> holds l x" if "holds (put_worker w s l) x" for x
    using that free by (auto simp: holds_alt split: if_splits)
  ultimately show ?thesis using ok own by (auto simp: lane_ok_def)
qed

lemma lane_ok_step:
  assumes u: "usable st" and ok: "lane_ok st b l" and s: "lane_step st l e l'"
  shows "lane_ok st (b + event_cost e) l'"
  using s
proof (cases rule: lane_step.cases)
  case (time_passes t)
  have "view_ok b l' x" if "view_ok b l x" for x
    using that time_passes by (auto simp: view_ok_def Let_def split: worker.splits)
  moreover have "holds l w" if "holds l' w" for w
    using that time_passes by (auto simp: holds_alt)
  ultimately show ?thesis using ok time_passes(1,2) by (simp add: lane_ok_def event_cost_def)
next
  case (tick_starts w)
  then show ?thesis using quiet_step_ok [OF ok, of "Started (ln_clock l)" w] by (simp add: view_ok_def event_cost_def)
next
  case (delivery_read w now)
  have "view_ok b l (ln_worker l w)" using ok by (simp add: lane_ok_def)
  then show ?thesis
    using quiet_step_ok [OF ok, of "Seen now (ln_row l)" w] delivery_read by (simp add: view_ok_def event_cost_def Let_def)
next
  case (gives_up w now r)
  then show ?thesis using quiet_step_ok [OF ok, of Idle w] by (simp add: view_ok_def event_cost_def)
next
  case (health_written w att)
  then show ?thesis using quiet_step_ok [OF ok, of Idle w] by (simp add: view_ok_def event_cost_def)
next
  case (retry_asked w)
  then show ?thesis using quiet_step_ok [OF ok, of Retrying w] by (simp add: view_ok_def event_cost_def)
next
  case (lease_taken w now r t)
  have v: "view_ok b l (ln_worker l x)" for x using ok by (simp add: lane_ok_def)
  have none: "\<not> holds l x" for x
    using v [of x] lease_taken(4-6) by (auto simp: holds_alt view_ok_def Let_def lease_free_def due_def)
  have "row_ok st b (leased_row st t (ln_row l))"
    using ok leased_row_ok [OF _ lease_taken(4)] by (simp add: lane_ok_def)
  moreover have "view_ok b l' (Sending (t + ds_lease st) (dl_attempts r + 1))"
    using v [of w] lease_taken(2-4) by (auto simp: view_ok_def Let_def leased_row_def)
  moreover have "dl_attempts (leased_row st t (ln_row l)) = dl_attempts (ln_row l)" by (simp add: leased_row_def)
  ultimately have "lane_ok st b l'"
    using free_writer_ok [OF ok, of b "leased_row st t (ln_row l)" w "Sending (t + ds_lease st) (dl_attempts r + 1)"]
      none leased_row_free [OF u lease_taken(4,5)] lease_taken(2) by auto
  then show ?thesis using lease_taken(1) by (simp add: event_cost_def)
next
  case (answer_recorded w lease att res)
  have v: "view_ok b l (ln_worker l w)" using ok by (simp add: lane_ok_def)
  then have own: "dl_status (ln_row l) = DL_processing" "att = dl_attempts (ln_row l) + 1 \<or> dl_attempts (ln_row l) + 2 \<le> b"
    using answer_recorded(3,4) by (simp_all add: view_ok_def Let_def)
  have "holds l w" using answer_recorded(3,4) by (simp add: holds_alt)
  then have alone: "\<not> holds l x" if "x \<noteq> w" for x using ok that by (auto simp: lane_ok_def)
  let ?r = "answered_row st (ln_clock l) att res (ln_row l)"
  have "row_ok st b ?r" using ok answered_row_ok [OF _ own] by (simp add: lane_ok_def)
  moreover have "view_ok b l' (after_answer att res)"
    using own(2) answer_recorded(2)
    by (auto simp: view_ok_def Let_def after_answer_def answered_row_def sent_row_def split: send_result.split)
  ultimately have "lane_ok st b l'"
    using free_writer_ok [OF ok, of b ?r w "after_answer att res"] alone answered_row_not_free [OF u] answer_recorded(2)
    by blast
  then show ?thesis using answer_recorded(1) by (simp add: event_cost_def)
next
  case (health_lost w att)
  have v: "view_ok b l (ln_worker l w)" using ok by (simp add: lane_ok_def)
  then have own: "att = dl_attempts (ln_row l) \<or> dl_attempts (ln_row l) + 1 \<le> b"
    using health_lost(3) by (simp add: view_ok_def Let_def)
  have "holds l w" using health_lost(3) by (simp add: holds_alt)
  then have alone: "\<not> holds l x" if "x \<noteq> w" for x using ok that by (auto simp: lane_ok_def)
  let ?r = "failed_row st (ln_clock l) att Other_error (ln_row l)"
  have "row_ok st (b + 1) ?r" using ok caught_row_ok [OF _ own] by (simp add: lane_ok_def)
  then have "lane_ok st (b + 1) l'"
    using free_writer_ok [OF ok, of "b + 1" ?r w Idle] alone failed_row_not_free [OF u] health_lost(2)
    by (simp add: view_ok_def)
  then show ?thesis using health_lost(1) by (simp add: event_cost_def)
next
  case (retry_written w)
  have v: "view_ok b l (ln_worker l x)" for x using ok by (simp add: lane_ok_def)
  have none: "\<not> holds l x" for x
    using v [of x] retry_written(4) by (auto simp: holds_alt view_ok_def Let_def)
  have row: "dl_attempts (ln_row l) \<le> b" "ds_max st \<le> b" using ok by (simp_all add: lane_ok_def row_ok_def)
  then have "lane_ok st (b + 2) l'"
    using free_writer_ok [OF ok, of "b + 2" "retried_row (ln_row l)" w Idle] none retry_written(2)
    by (simp add: view_ok_def row_ok_def retried_row_def)
  then show ?thesis using retry_written(1) by (simp add: event_cost_def)
qed

lemma fresh_lane_ok: "usable st \<Longrightarrow> fresh_lane l \<Longrightarrow> lane_ok st (ds_max st) l"
  by (auto simp: fresh_lane_def lane_ok_def row_ok_def view_ok_def holds_alt usable_def settled_def)

lemma lane_run_ok:
  assumes "usable st" and "lane_run st l es l'" and "lane_ok st b l"
  shows "lane_ok st (b + sum_list (map event_cost es)) l'"
  using assms(2,3)
proof induction
  case (run_steps l es l1 e l2)
  then show ?case using lane_ok_step [OF assms(1) run_steps.IH run_steps.hyps(2)] by (simp add: add.assoc)
qed simp

text \<open>What can write a settled delivery.\<close>

lemma settled_step:
  assumes ok: "lane_ok st b l" and s: "lane_step st l e l'" and "settled (ln_row l)"
  shows "ln_row l' = ln_row l \<or> e = Health_lost \<and> dl_status (ln_row l) = DL_sent
    \<or> e = Retried \<and> dl_status (ln_row l) = DL_dead"
  using s
proof (cases rule: lane_step.cases)
  case (lease_taken w now r)
  then show ?thesis using assms(3) by (auto simp: lease_free_def settled_def)
next
  case (answer_recorded w lease att res)
  have "view_ok b l (ln_worker l w)" using ok by (simp add: lane_ok_def)
  then have "dl_status (ln_row l) = DL_processing" using answer_recorded(3,4) by (simp add: view_ok_def Let_def)
  then show ?thesis using assms(3) by (simp add: settled_def)
next
  case (health_lost w att)
  have "view_ok b l (ln_worker l w)" using ok by (simp add: lane_ok_def)
  then show ?thesis using health_lost(1,3) by (simp add: view_ok_def Let_def)
qed simp_all

lemma settled_for_good:
  assumes u: "usable st" and run: "lane_run st l es l'" and ok: "lane_ok st b l"
    and why: "dl_status (ln_row l) = DL_sent \<and> Health_lost \<notin> set es \<or> dl_status (ln_row l) = DL_dead \<and> Retried \<notin> set es"
  shows "ln_row l' = ln_row l"
  using run ok why
proof induction
  case (run_steps l es l1 e l2)
  have "ln_row l1 = ln_row l" using run_steps by auto
  moreover have "settled (ln_row l)" using run_steps.prems(2) by (auto simp: settled_def)
  ultimately show ?case
    using settled_step [OF lane_run_ok [OF u run_steps.hyps(1) run_steps.prems(1)] run_steps.hyps(2)] run_steps.prems(2) by auto
qed simp

section \<open>Properties\<close>

text \<open>C28: while every answer is recorded before its lease ends and every retry of the console is
  written while the row is still dead, at most one worker at a time is sending a delivery, even when
  the write of the channel's health fails after \<open>sent\<close> and rewrites the row. The recorded attempts stay
  within the configured limit, raised by one for each such lost health write and by two for each
  retry, and are below that bound while the delivery is unsettled. A delivery recorded as sent is
  written again only by the failure path of a lost health write, and a dead one only by a retry.\<close>

theorem one_sender_per_delivery:
  assumes "usable st" and "fresh_lane l" and "lane_run st l es l1"
  shows "(live l1 v \<longrightarrow> live l1 w \<longrightarrow> v = w)
    \<and> dl_attempts (ln_row l1) \<le> attempt_bound st es
    \<and> (settled (ln_row l1) \<or> dl_attempts (ln_row l1) < attempt_bound st es)
    \<and> (lane_run st l1 es' l2 \<longrightarrow> dl_status (ln_row l1) = DL_sent \<longrightarrow> Health_lost \<notin> set es' \<longrightarrow> ln_row l2 = ln_row l1)
    \<and> (lane_run st l1 es' l2 \<longrightarrow> dl_status (ln_row l1) = DL_dead \<longrightarrow> Retried \<notin> set es' \<longrightarrow> ln_row l2 = ln_row l1)"
proof -
  have ok: "lane_ok st (attempt_bound st es) l1"
    unfolding attempt_bound_def by (rule lane_run_ok [OF assms(1,3) fresh_lane_ok [OF assms(1,2)]])
  have "live l1 v \<longrightarrow> live l1 w \<longrightarrow> v = w"
    using ok live_holds unfolding lane_ok_def by blast
  moreover have "row_ok st (attempt_bound st es) (ln_row l1)" using ok by (simp add: lane_ok_def)
  ultimately show ?thesis
    using settled_for_good [OF assms(1) _ ok, of es' l2] unfolding row_ok_def by blast
qed

definition email_row :: "delivery_status \<Rightarrow> int \<Rightarrow> time option \<Rightarrow> string option \<Rightarrow> delivery_row" where
  "email_row s a nx er = \<lparr>dl_notification = ''n'', dl_channel = Ch_email, dl_address = ''a'',
     dl_status = s, dl_attempts = a, dl_next = nx, dl_error = er\<rparr>"

definition lane_of :: "delivery_row \<Rightarrow> worker \<Rightarrow> lane" where
  "lane_of r x = \<lparr>ln_clock = 0, ln_row = r, ln_worker = (\<lambda>w. Idle)(0 := x)\<rparr>"

lemma lane_of_simps [simp]:
  "ln_clock (lane_of r x) = 0" "ln_row (lane_of r x) = r" "ln_worker (lane_of r x) 0 = x"
  "put_worker 0 y (lane_of r x) = lane_of r y" "(lane_of r x)\<lparr>ln_row := r'\<rparr> = lane_of r' x"
  by (simp_all add: lane_of_def put_worker_def)

text \<open>The transport accepts the first attempt and the write of the channel's health fails.\<close>

lemma lost_health_run:
  "lane_run DEFAULT_NOTIFICATION_SETTINGS (lane_of (email_row DL_pending 0 None None) Idle)
     [Ordinary, Ordinary, Ordinary, Ordinary, Health_lost]
     (lane_of (email_row DL_failed 2 (Some 30000) (Some ''Delivery failed unexpectedly. DataBounty will retry.'')) Idle)"
proof -
  let ?st = DEFAULT_NOTIFICATION_SETTINGS
  let ?r0 = "email_row DL_pending 0 None None"
  let ?r1 = "email_row DL_processing 0 (Some 60000) None"
  let ?r2 = "email_row DL_sent 1 None None"
  have "lane_step ?st (lane_of ?r0 Idle) Ordinary (lane_of ?r0 (Started 0))"
    using tick_starts [of "lane_of ?r0 Idle" 0 ?st] by simp
  moreover have "lane_step ?st (lane_of ?r0 (Started 0)) Ordinary (lane_of ?r0 (Seen 0 ?r0))"
    using delivery_read [of "lane_of ?r0 (Started 0)" 0 0 ?st] by (simp add: email_row_def settled_def waiting_def)
  moreover have "lane_step ?st (lane_of ?r0 (Seen 0 ?r0)) Ordinary (lane_of ?r1 (Sending 60000 1))"
    using lease_taken [of "lane_of ?r0 (Seen 0 ?r0)" 0 0 ?r0 0 ?st]
    by (simp add: email_row_def lease_free_def leased_row_def DEFAULT_NOTIFICATION_SETTINGS_def)
  moreover have "lane_step ?st (lane_of ?r1 (Sending 60000 1)) Ordinary (lane_of ?r2 (Recorded 1))"
    using answer_recorded [of "lane_of ?r1 (Sending 60000 1)" 0 60000 1 ?st Accepted]
    by (simp add: email_row_def after_answer_def answered_row_def sent_row_def)
  moreover have "lane_step ?st (lane_of ?r2 (Recorded 1)) Health_lost
     (lane_of (email_row DL_failed 2 (Some 30000) (Some ''Delivery failed unexpectedly. DataBounty will retry.'')) Idle)"
    using health_lost [of "lane_of ?r2 (Recorded 1)" 0 1 ?st]
    by (simp add: email_row_def failed_row_def terminal_def backoffForAttempt_def DEFAULT_NOTIFICATION_SETTINGS_def)
  ultimately show ?thesis
    using run_steps [OF run_steps [OF run_steps [OF run_steps [OF run_steps [OF run_ends]]]]] by fastforce
qed

lemma one_sender_per_delivery_witness:
  "2 < attempt_bound DEFAULT_NOTIFICATION_SETTINGS [Ordinary, Ordinary, Ordinary, Ordinary, Health_lost]
   \<and> attempt_bound DEFAULT_NOTIFICATION_SETTINGS [Ordinary, Ordinary, Ordinary, Ordinary, Health_lost] = 9"
proof -
  let ?st = DEFAULT_NOTIFICATION_SETTINGS
  have u: "usable ?st" by (simp add: usable_def DEFAULT_NOTIFICATION_SETTINGS_def)
  have f: "fresh_lane (lane_of (email_row DL_pending 0 None None) Idle)"
    by (simp add: fresh_lane_def lane_of_def email_row_def)
  show ?thesis
    using one_sender_per_delivery [OF u f lost_health_run]
    by (simp add: email_row_def settled_def attempt_bound_def event_cost_def DEFAULT_NOTIFICATION_SETTINGS_def)
qed

section \<open>What the unguarded writes allow\<close>

text \<open>The settlement names the row alone, not the lease it was taken under: a worker whose lease ran
  out turns a delivery another worker has recorded as sent back into one to be retried.\<close>

lemma late_answer_unsends:
  assumes "ln_worker l w = Sending lease att" and "lease \<le> ln_clock l" and "dl_status (ln_row l) = DL_sent"
    and "att < ds_max st"
  shows "\<exists>l'. lane_late st l l' \<and> dl_status (ln_row l') = DL_failed
    \<and> lease_free (ln_clock l + backoffForAttempt st att * 1000) (ln_row l')"
proof -
  let ?l = "(put_worker w (after_answer att (Refused Other_error)) l)
    \<lparr>ln_row := answered_row st (ln_clock l) att (Refused Other_error) (ln_row l)\<rparr>"
  have "lane_late st l ?l" by (rule late_answer [OF assms(1,2)])
  moreover have "\<not> terminal st att Other_error" using assms(4) by (simp add: terminal_def)
  ultimately show ?thesis
    by (intro exI [of _ ?l]) (simp add: failed_row_def lease_free_def due_def answered_row_def)
qed

text \<open>After \<open>sent\<close> is written the write of the channel's health may fail inside the same \<open>try\<close>: the
  delivery the transport has accepted counts a second attempt and waits to be sent again.\<close>

lemma lost_health_sends_again:
  assumes "ln_worker l w = Recorded att" and "att < ds_max st"
  shows "\<exists>l'. lane_step st l Health_lost l' \<and> dl_status (ln_row l') = DL_failed
    \<and> dl_attempts (ln_row l') = dl_attempts (ln_row l) + 1
    \<and> lease_free (ln_clock l + backoffForAttempt st att * 1000) (ln_row l')"
proof -
  have "\<not> terminal st att Other_error" using assms(2) by (simp add: terminal_def)
  then show ?thesis
    using lane_step.health_lost [OF assms(1), of st] by (intro exI conjI) (auto simp: failed_row_def lease_free_def due_def)
qed

text \<open>The console reads the dead row outside its transaction and writes by id: of two requests the
  second takes the lease away from the worker that is sending after the first.\<close>

lemma late_retry_ends_a_lease:
  assumes "ln_worker l w = Retrying" and "live l v" and "dl_status (ln_row l) = DL_processing"
  shows "\<exists>l'. lane_late st l l' \<and> live l' v \<and> lease_free now (ln_row l')"
proof -
  have "v \<noteq> w" using assms(1,2) by (auto simp: live_def)
  then have "live ((put_worker w Idle l)\<lparr>ln_row := retried_row (ln_row l)\<rparr>) v"
    using assms(2) by (simp add: live_def split: worker.splits)
  then show ?thesis
    using lane_late.late_retry [OF assms(1), of st] assms(3)
    by (intro exI [of _ "(put_worker w Idle l)\<lparr>ln_row := retried_row (ln_row l)\<rparr>"])
      (simp add: retried_row_def lease_free_def)
qed

text \<open>The console keeps the attempts of the row it re-opens: when they were used up, the next refusal,
  of whatever kind, is final again.\<close>

lemma retry_of_used_up_row_has_one_try:
  assumes "ds_max st \<le> dl_attempts r"
  shows "dl_status (failed_row st t (dl_attempts (retried_row r) + 1) err (leased_row st t' (retried_row r))) = DL_dead"
  using assms by (simp add: failed_row_def terminal_def retried_row_def)

end
