(* ===== verification/Inbox.thy ===== *)
theory Inbox
  imports Digest Cursor Job_Queue
begin

text \<open>
  The reads and small writes of \<open>services/notifications.ts\<close>: the paginated fan-out of a new-work
  alert to its watchers and the job that carries it, the inbox list and its keyset cursor, the marks,
  the email channel seeded from a verified address, the watch preferences, and the delivery health
  counts. The cursor's base64 armour and the ISO text of a time are parameters.
\<close>

section \<open>Watchers\<close>

datatype fanout_kind = New_work_match | Audit_available

record watch_bounty =
  wb_id :: ident
  wb_title :: string
  wb_category :: string
  wb_language :: string
  wb_requester :: ident
  wb_domain :: string

definition WATCHER_PAGE_SIZE :: nat where "WATCHER_PAGE_SIZE = 500"

definition watch_matches :: "watch_bounty \<Rightarrow> watch_row \<Rightarrow> bool" where
  "watch_matches b w \<longleftrightarrow>
     wp_enabled w \<and> wb_domain b \<in> set (wp_domains w)
     \<and> (wb_domain b = ''coding'' \<longrightarrow> wb_category b \<in> set (wp_categories w) \<and> wb_language b \<in> set (wp_languages w))
     \<and> wp_user w \<noteq> wb_requester b"

definition watchers_after :: "watch_bounty \<Rightarrow> ident option \<Rightarrow> db \<Rightarrow> ident list" where
  "watchers_after b cur d =
     sort (filter (\<lambda>u. case cur of None \<Rightarrow> True | Some c \<Rightarrow> c < u) (map wp_user (filter (watch_matches b) (watches d))))"

text \<open>
  One alert, in a transaction of its own. \<open>bad\<close> says whose transaction fails in this run: its error is
  logged and dropped, nothing is written and the watcher is not counted.
\<close>

definition alert :: "env \<Rightarrow> string \<Rightarrow> watch_bounty \<Rightarrow> (ident \<Rightarrow> bool) \<Rightarrow> ident \<Rightarrow> db \<times> nat \<Rightarrow> db \<times> nat" where
  "alert e ty b bad u s =
     (if bad u then s
      else (notifyEvent e ty \<lparr>em_user = u, em_entity = Some (wb_id b), em_suffix = None, em_bounty = None\<rparr> (fst s), snd s + 1))"

lemma alert_watches [simp]: "watches (fst (alert e ty b bad u s)) = watches (fst s)"
  by (simp add: alert_def notifyEvent_def notify_def createDeliveryIntents_def Let_def split: option.split)

lemma alerts_watches [simp]: "watches (fst (fold (alert e ty b bad) us s)) = watches (fst s)"
  by (induction us arbitrary: s) simp_all

lemma watchers_after_shrink:
  assumes "pg = take psz (watchers_after b cur d)" and "pg \<noteq> []"
  shows "length (watchers_after b (Some (last pg)) d) < length (watchers_after b cur d)"
proof -
  let ?all = "map wp_user (filter (watch_matches b) (watches d))"
  let ?P = "\<lambda>u. case cur of None \<Rightarrow> True | Some c \<Rightarrow> c < u"
  have "last pg \<in> set (watchers_after b cur d)"
    using assms by (metis in_set_takeD last_in_set)
  then have mem: "last pg \<in> set (filter ?P ?all)" by (simp add: watchers_after_def)
  have "set (filter (\<lambda>u. last pg < u) ?all) \<subseteq> set (filter ?P ?all)"
    using mem by (auto split: option.split_asm intro: less_trans)
  have "filter (\<lambda>u. last pg < u) ?all = filter (\<lambda>u. last pg < u) (filter ?P ?all)"
    using mem unfolding filter_filter by (intro filter_cong refl) (auto split: option.splits intro: less_trans)
  then have "length (filter (\<lambda>u. last pg < u) ?all) < length (filter ?P ?all)"
    using mem by (metis length_filter_less less_irrefl)
  then show ?thesis by (simp add: watchers_after_def)
qed

text \<open>The loop: a page of at most \<open>psz\<close> watchers after the cursor, each alerted in its own
  transaction, until a page is short.\<close>

function fan_out_from ::
  "env \<Rightarrow> string \<Rightarrow> watch_bounty \<Rightarrow> (ident \<Rightarrow> bool) \<Rightarrow> nat \<Rightarrow> ident option \<Rightarrow> db \<times> nat \<Rightarrow> db \<times> nat" where
  "fan_out_from e ty b bad psz cur s =
     (let pg = take psz (watchers_after b cur (fst s));
          s1 = fold (alert e ty b bad) pg s
      in if length pg < psz \<or> pg = [] then s1 else fan_out_from e ty b bad psz (Some (last pg)) s1)"
  by pat_completeness auto

termination
proof (relation "measure (\<lambda>(e, ty, b, bad, psz, cur, s). length (watchers_after b cur (fst s)))")
  fix e :: env and ty b bad psz cur s pg s1
  assume pg: "pg = take psz (watchers_after b cur (fst s))" and s1: "s1 = fold (alert e ty b bad) pg s"
    and more: "\<not> (length pg < psz \<or> pg = [])"
  have "watchers_after b (Some (last pg)) (fst s1) = watchers_after b (Some (last pg)) (fst s)"
    by (simp add: s1 watchers_after_def)
  then show "((e, ty, b, bad, psz, Some (last pg), s1), e, ty, b, bad, psz, cur, s)
      \<in> measure (\<lambda>(e, ty, b, bad, psz, cur, s). length (watchers_after b cur (fst s)))"
    using watchers_after_shrink [OF pg] more by simp
qed simp

declare fan_out_from.simps [simp del]

definition fanOutWatchers :: "env \<Rightarrow> string \<Rightarrow> watch_bounty \<Rightarrow> (ident \<Rightarrow> bool) \<Rightarrow> db \<Rightarrow> db \<times> nat" where
  "fanOutWatchers e ty b bad d = fan_out_from e ty b bad WATCHER_PAGE_SIZE None (d, 0)"

definition fanoutPayload :: "fanout_kind \<Rightarrow> watch_bounty \<Rightarrow> json" where
  "fanoutPayload k b =
     JObj [(''kind'', JStr (case k of New_work_match \<Rightarrow> ''new_work_match'' | Audit_available \<Rightarrow> ''audit_available'')),
           (''entityId'', JStr (wb_id b)), (''bountyTitle'', JStr (wb_title b)), (''domain'', JStr (wb_domain b)),
           (''datasetCategory'', JStr (wb_category b)), (''language'', JStr (wb_language b)),
           (''requesterUserId'', JStr (wb_requester b))]"

definition fanout_job :: "fanout_kind \<Rightarrow> watch_bounty \<Rightarrow> string \<Rightarrow> job_request" where
  "fanout_job k b key =
     \<lparr>jq_type = ''notifications.fanout_watchers'', jq_key = key, jq_payload = fanoutPayload k b,
      jq_max = None, jq_workspace = None, jq_run_after = None\<rparr>"

definition emitNewWorkMatches :: "env \<Rightarrow> watch_bounty \<Rightarrow> db \<Rightarrow> db" where
  "emitNewWorkMatches e b d =
     fst (enqueue e (fanout_job New_work_match b (''fanout:new_work_match:'' @ wb_id b)) d)"

definition runWatcherFanoutJob :: "env \<Rightarrow> json \<Rightarrow> (ident \<Rightarrow> bool) \<Rightarrow> db \<Rightarrow> db \<times> nat" where
  "runWatcherFanoutJob e p bad d =
     (let s = \<lambda>k. str_of (jget p k)
      in fanOutWatchers e (if s ''kind'' = ''new_work_match'' then ''work.new_match'' else ''audit.available'')
           \<lparr>wb_id = s ''entityId'', wb_title = s ''bountyTitle'', wb_category = s ''datasetCategory'',
            wb_language = s ''language'', wb_requester = s ''requesterUserId'', wb_domain = s ''domain''\<rparr> bad d)"

section \<open>The inbox\<close>

definition encodeNotificationCursor :: "(time \<Rightarrow> string) \<Rightarrow> (string \<Rightarrow> string) \<Rightarrow> notification_row \<Rightarrow> string" where
  "encodeNotificationCursor isot b64 n = b64 (isot (n_at n) @ ''|'' @ n_id n)"

fun split_bar :: "string \<Rightarrow> string list" where
  "split_bar [] = [[]]"
| "split_bar (c # cs) =
     (if c = CHR ''|'' then [] # split_bar cs
      else (case split_bar cs of s # ss \<Rightarrow> (c # s) # ss | [] \<Rightarrow> [[c]]))"

datatype inbox_error = Notification_cursor_error

text \<open>\<open>unb64\<close> decodes the armour, \<open>date\<close> is the platform's reading of a date, \<open>None\<close> when invalid.\<close>

definition decodeNotificationCursor ::
  "(string \<Rightarrow> string) \<Rightarrow> (string \<Rightarrow> time option) \<Rightarrow> string \<Rightarrow> inbox_error + (time \<times> ident)" where
  "decodeNotificationCursor unb64 date cursor =
     (let parts = split_bar (unb64 cursor);
          stamp = hd parts;
          i = (if 1 < length parts then parts ! 1 else [])
      in case (if stamp = [] then None else date stamp) of
           Some t \<Rightarrow> if i = [] then Inl Notification_cursor_error else Inr (t, i)
         | None \<Rightarrow> Inl Notification_cursor_error)"

definition personal :: "ident \<Rightarrow> notification_row \<Rightarrow> bool" where
  "personal u n \<longleftrightarrow> n_user n = u \<and> \<not> starts_with ''admin.'' (n_type n)"

record inbox_query =
  iq_limit :: "nat option"
  iq_offset :: "nat option"
  iq_unread :: bool
  iq_cursor :: "string option"

record inbox_page =
  ip_items :: "notification_row list"
  ip_total :: nat
  ip_unread :: nat
  ip_limit :: nat
  ip_offset :: "nat option"
  ip_more :: bool
  ip_next :: "string option"

definition inbox_rows :: "ident \<Rightarrow> bool \<Rightarrow> db \<Rightarrow> notification_row list" where
  "inbox_rows u unread d =
     rev (sort_key dispatch_key (filter (\<lambda>n. personal u n \<and> (unread \<longrightarrow> \<not> n_read n)) (notifs d)))"

definition after_position :: "time \<times> ident \<Rightarrow> notification_row \<Rightarrow> bool" where
  "after_position p n \<longleftrightarrow> n_at n < fst p \<or> (n_at n = fst p \<and> n_id n < snd p)"

definition inbox_page_at :: "(notification_row \<Rightarrow> string) \<Rightarrow> ident \<Rightarrow> inbox_query \<Rightarrow> (time \<times> ident) option \<Rightarrow> db \<Rightarrow> inbox_page" where
  "inbox_page_at enc u q pos d =
     (let n = min (or_else (iq_limit q) 50) 100;
          sk = or_else (iq_offset q) 0;
          all = inbox_rows u (iq_unread q) d;
          rows = (case pos of
                    Some p \<Rightarrow> take (n + 1) (filter (after_position p) all)
                  | None \<Rightarrow> take (n + 1) (drop sk all));
          (items, hasMore) = takePage rows n
      in \<lparr>ip_items = items, ip_total = length all, ip_unread = length (inbox_rows u True d), ip_limit = n,
          ip_offset = (if pos = None then Some sk else None), ip_more = hasMore,
          ip_next = (if hasMore \<and> items \<noteq> [] then Some (enc (last items)) else None)\<rparr>)"

definition listNotifications ::
  "(notification_row \<Rightarrow> string) \<Rightarrow> (string \<Rightarrow> inbox_error + (time \<times> ident)) \<Rightarrow> ident \<Rightarrow> inbox_query \<Rightarrow> db
     \<Rightarrow> inbox_error + inbox_page" where
  "listNotifications enc dec u q d =
     (case truthy (iq_cursor q) of
        None \<Rightarrow> Inr (inbox_page_at enc u q None d)
      | Some c \<Rightarrow> (case dec c of Inl err \<Rightarrow> Inl err | Inr p \<Rightarrow> Inr (inbox_page_at enc u q (Some p) d)))"

definition markNotificationRead :: "ident \<Rightarrow> ident \<Rightarrow> db \<Rightarrow> db \<times> nat" where
  "markNotificationRead u i d =
     (let (ns, k) = update_many (\<lambda>n. n_id n = i \<and> n_user n = u) (\<lambda>n. n\<lparr>n_read := True\<rparr>) (notifs d)
      in (d\<lparr>notifs := ns\<rparr>, k))"

definition markAllNotificationsRead :: "ident \<Rightarrow> db \<Rightarrow> db \<times> nat" where
  "markAllNotificationsRead u d =
     (let (ns, k) = update_many (\<lambda>n. personal u n \<and> \<not> n_read n) (\<lambda>n. n\<lparr>n_read := True\<rparr>) (notifs d)
      in (d\<lparr>notifs := ns\<rparr>, k))"

section \<open>Channels and preferences\<close>

definition find_channel :: "ident \<Rightarrow> channel_kind \<Rightarrow> db \<Rightarrow> channel_row option" where
  "find_channel u k d = find_where (\<lambda>c. ch_user c = u \<and> ch_kind c = k) (channels d)"

text \<open>An unverified account gets no channel; an existing channel is repaired, its choices kept.\<close>

definition seedEmailNotificationChannel ::
  "env \<Rightarrow> ident \<Rightarrow> string option \<Rightarrow> time option \<Rightarrow> db \<Rightarrow> db" where
  "seedEmailNotificationChannel e u email verifiedAt d =
     (case truthy email of
        None \<Rightarrow> d
      | Some m \<Rightarrow>
          if verifiedAt = None then d
          else (let address = js_lower m
                in case find_channel u Ch_email d of
                     Some c \<Rightarrow> d\<lparr>channels := update_where (\<lambda>c. ch_user c = u \<and> ch_kind c = Ch_email)
                                   (\<lambda>c. c\<lparr>ch_address := address, ch_connected := True, ch_verified := True\<rparr>) (channels d)\<rparr>
                   | None \<Rightarrow> d\<lparr>channels := channels d @
                                  [\<lparr>ch_id = fresh e d, ch_user = u, ch_kind = Ch_email, ch_address = address, ch_connected = True,
                                    ch_verified = True, ch_deliver = True, ch_digest = True, ch_error = None\<rparr>],
                               db_seq := Suc (db_seq d)\<rparr>))"

definition find_watch :: "ident \<Rightarrow> db \<Rightarrow> watch_row option" where
  "find_watch u d = find_where (\<lambda>w. wp_user w = u) (watches d)"

definition ensureDefaultWatchPref :: "ident \<Rightarrow> db \<Rightarrow> db" where
  "ensureDefaultWatchPref u d =
     (case find_watch u d of
        Some w \<Rightarrow> d
      | None \<Rightarrow> d\<lparr>watches := watches d @
                    [\<lparr>wp_user = u, wp_enabled = True, wp_domains = [''coding''],
                      wp_categories = [''debugging'', ''implementation'', ''test_generation''],
                      wp_languages = [''TypeScript'', ''Python'', ''JavaScript'', ''Go'', ''Rust'']\<rparr>]\<rparr>)"

definition updateWatchPref ::
  "ident \<Rightarrow> bool option \<Rightarrow> string list option \<Rightarrow> string list option \<Rightarrow> string list option \<Rightarrow> db \<Rightarrow> db" where
  "updateWatchPref u enabled domains categories languages d =
     (case find_watch u d of
        None \<Rightarrow> d\<lparr>watches := watches d @
                    [\<lparr>wp_user = u, wp_enabled = or_else enabled True, wp_domains = or_else domains [''coding''],
                      wp_categories = or_else categories [], wp_languages = or_else languages []\<rparr>]\<rparr>
      | Some w \<Rightarrow> d\<lparr>watches := update_where (\<lambda>w. wp_user w = u)
                     (\<lambda>w. w\<lparr>wp_enabled := or_else enabled (wp_enabled w), wp_domains := or_else domains (wp_domains w),
                            wp_categories := or_else categories (wp_categories w),
                            wp_languages := or_else languages (wp_languages w)\<rparr>) (watches d)\<rparr>)"

definition unsubscribe_digest :: "ident \<Rightarrow> db \<Rightarrow> db" where
  "unsubscribe_digest u d =
     d\<lparr>channels := update_where (\<lambda>c. ch_user c = u \<and> ch_kind c = Ch_email) (\<lambda>c. c\<lparr>ch_digest := False\<rparr>) (channels d)\<rparr>"

section \<open>The fan-out reaches every watcher once\<close>

definition watch_ok :: "db \<Rightarrow> bool" where
  "watch_ok d \<longleftrightarrow> distinct (map wp_user (watches d))"

lemma distinct_watchers: "watch_ok d \<Longrightarrow> distinct (watchers_after b cur d)"
  by (simp add: watch_ok_def watchers_after_def distinct_map_filter)

text \<open>What follows the last watcher of a page is the rest of the list.\<close>

lemma watchers_rest:
  assumes "watch_ok d" and "pg = take psz (watchers_after b cur d)" and "pg \<noteq> []"
  shows "watchers_after b (Some (last pg)) d = drop psz (watchers_after b cur d)"
proof -
  let ?ws = "watchers_after b cur d"
  let ?all = "map wp_user (filter (watch_matches b) (watches d))"
  let ?P = "\<lambda>u. case cur of None \<Rightarrow> True | Some c \<Rightarrow> c < u"
  have srt: "sorted_wrt (<) ?ws"
    using distinct_watchers [OF assms(1), of b cur] by (simp add: strict_sorted_iff watchers_after_def)
  have "last pg \<in> set ?ws" using assms(2,3) by (metis in_set_takeD last_in_set)
  then have P: "?P (last pg)" by (simp add: watchers_after_def)
  have "filter (\<lambda>u. last pg < u) ?all = filter (\<lambda>u. last pg < u) (filter ?P ?all)"
    unfolding filter_filter using P by (intro filter_cong refl) (auto split: option.splits intro: less_trans)
  then have step: "watchers_after b (Some (last pg)) d = filter (\<lambda>u. last pg < u) ?ws"
    by (simp add: watchers_after_def filter_sort)
  have split: "?ws = butlast pg @ last pg # drop psz ?ws"
    using assms(2,3) by (metis append_butlast_last_id append_Cons append_Nil append_assoc append_take_drop_id)
  have "\<forall>u \<in> set (butlast pg). u < last pg" "\<forall>u \<in> set (drop psz ?ws). last pg < u"
    using srt split by (metis sorted_wrt_append sorted_wrt.simps(2) list.set_intros(1))+
  then have "filter (\<lambda>u. last pg < u) (butlast pg @ last pg # drop psz ?ws) = drop psz ?ws"
    by (auto simp: filter_empty_conv filter_id_conv)
  with step split show ?thesis by simp
qed

lemma fan_out_from_eq:
  assumes "watch_ok (fst s)" and "0 < psz"
  shows "fan_out_from e ty b bad psz cur s = fold (alert e ty b bad) (watchers_after b cur (fst s)) s"
  using assms
proof (induction e ty b bad psz cur s rule: fan_out_from.induct)
  case (1 e ty b bad psz cur s)
  let ?ws = "watchers_after b cur (fst s)"
  let ?pg = "take psz ?ws"
  show ?case
  proof (cases "length ?pg < psz \<or> ?pg = []")
    case True
    then have "?pg = ?ws" using 1(3) by auto
    then show ?thesis using True by (subst fan_out_from.simps) (simp add: Let_def)
  next
    case False
    let ?s1 = "fold (alert e ty b bad) ?pg s"
    have rest: "watchers_after b (Some (last ?pg)) (fst ?s1) = drop psz ?ws"
      using watchers_rest [OF 1(2) refl, of psz b cur] False by (simp add: watchers_after_def)
    have ok: "watch_ok (fst ?s1)" using 1(2) by (simp add: watch_ok_def)
    have "fan_out_from e ty b bad psz (Some (last ?pg)) ?s1 = fold (alert e ty b bad) (drop psz ?ws) ?s1"
      using 1(1) [OF refl refl False ok 1(3)] rest by simp
    moreover have "fold (alert e ty b bad) (drop psz ?ws) ?s1 = fold (alert e ty b bad) ?ws s"
      by (metis append_take_drop_id fold_append comp_apply)
    ultimately show ?thesis using False by (subst fan_out_from.simps) (simp add: Let_def)
  qed
qed

definition inbox_keys :: "db \<Rightarrow> (ident \<times> string) set" where
  "inbox_keys d = (\<lambda>n. (n_user n, n_key n)) ` set (notifs d)"

lemma find_notification_keys: "find_notification u k d \<noteq> None \<longleftrightarrow> (u, k) \<in> inbox_keys d"
  unfolding find_notification_def inbox_keys_def by (auto simp: find_where_None_iff)

lemma notify_keys: "inbox_keys (notify e i d) = insert (ni_user i, ni_key i) (inbox_keys d)"
proof (cases "find_notification (ni_user i) (ni_key i) d")
  case None
  then show ?thesis by (simp add: inbox_keys_def notify_new) (simp add: new_notification_def)
next
  case (Some r)
  then have "(ni_user i, ni_key i) \<in> inbox_keys d" using find_notification_keys by blast
  moreover have "notifs (notify e i d) = notifs d" by (rule notify_known_key) (simp add: Some)
  ultimately show ?thesis by (auto simp: inbox_keys_def)
qed

lemma alert_keys:
  "inbox_keys (fst (alert e ty b bad u s)) = (if bad u then {} else {(u, ty @ '':'' @ wb_id b)}) \<union> inbox_keys (fst s)"
  by (simp add: alert_def notifyEvent_def notify_keys event_suffix_def or_else_def)

lemma alerts_keys:
  "inbox_keys (fst (fold (alert e ty b bad) us s))
     = inbox_keys (fst s) \<union> (\<lambda>u. (u, ty @ '':'' @ wb_id b)) ` {u \<in> set us. \<not> bad u}"
  by (induction us arbitrary: s) (auto simp: alert_keys)

lemma alerts_counted: "snd (fold (alert e ty b bad) us s) = snd s + length (filter (\<lambda>u. \<not> bad u) us)"
  by (induction us arbitrary: s) (simp_all add: alert_def)

text \<open>C29: over a watch table that stays as it is during the run, the paginated fan-out ends and is one sweep
  over a duplicate-free list of exactly the matching watchers, the dataset's own requester not among them:
  each is attempted once, whatever became of the attempts before. It reports the number of the alerts that
  were committed, and the inboxes gain the alert of the dataset for precisely those watchers; an alert that
  fails is dropped.\<close>

theorem fanout_reaches_every_watcher_once:
  assumes "watch_ok d"
  shows "\<exists>us. fanOutWatchers e ty b bad d = fold (alert e ty b bad) us (d, 0)
    \<and> distinct us \<and> set us = wp_user ` {w \<in> set (watches d). watch_matches b w} \<and> wb_requester b \<notin> set us
    \<and> snd (fanOutWatchers e ty b bad d) = length (filter (\<lambda>w. watch_matches b w \<and> \<not> bad (wp_user w)) (watches d))
    \<and> inbox_keys (fst (fanOutWatchers e ty b bad d))
        = inbox_keys d \<union> (\<lambda>w. (wp_user w, ty @ '':'' @ wb_id b)) ` {w \<in> set (watches d). watch_matches b w \<and> \<not> bad (wp_user w)}"
proof (intro exI conjI)
  let ?us = "watchers_after b None d"
  show run: "fanOutWatchers e ty b bad d = fold (alert e ty b bad) ?us (d, 0)"
    unfolding fanOutWatchers_def using fan_out_from_eq [of "(d, 0)" WATCHER_PAGE_SIZE] assms
    by (simp add: WATCHER_PAGE_SIZE_def)
  show "distinct ?us" by (rule distinct_watchers [OF assms])
  show us: "set ?us = wp_user ` {w \<in> set (watches d). watch_matches b w}" by (simp add: watchers_after_def)
  show "wb_requester b \<notin> set ?us" by (auto simp: watchers_after_def watch_matches_def)
  have "length (filter (\<lambda>u. \<not> bad u) ?us) = length (filter (\<lambda>w. watch_matches b w \<and> \<not> bad (wp_user w)) (watches d))"
    by (simp add: watchers_after_def filter_sort filter_map comp_def conj_commute)
  then show "snd (fanOutWatchers e ty b bad d) = length (filter (\<lambda>w. watch_matches b w \<and> \<not> bad (wp_user w)) (watches d))"
    unfolding run alerts_counted by simp
  have "{u \<in> set ?us. \<not> bad u} = wp_user ` {w \<in> set (watches d). watch_matches b w \<and> \<not> bad (wp_user w)}"
    unfolding us by auto
  then show "inbox_keys (fst (fanOutWatchers e ty b bad d))
        = inbox_keys d \<union> (\<lambda>w. (wp_user w, ty @ '':'' @ wb_id b)) ` {w \<in> set (watches d). watch_matches b w \<and> \<not> bad (wp_user w)}"
    unfolding run alerts_keys by (simp add: image_image)
qed

definition demo_watcher :: "ident \<Rightarrow> watch_row" where
  "demo_watcher u = \<lparr>wp_user = u, wp_enabled = True, wp_domains = [''legal''], wp_categories = [], wp_languages = []\<rparr>"

definition demo_watch :: db where
  "demo_watch = db0\<lparr>watches := map demo_watcher [''w'', ''v'', ''r'']\<rparr>"

definition demo_watch_bounty :: watch_bounty where
  "demo_watch_bounty = \<lparr>wb_id = ''b'', wb_title = ''t'', wb_category = ''x'', wb_language = ''y'', wb_requester = ''r'', wb_domain = ''legal''\<rparr>"

text \<open>Two watchers and the requester; the alert of one watcher fails.\<close>

theorem fanout_reaches_every_watcher_once_witness:
  "snd (fanOutWatchers (env0 1) ''work.new_match'' demo_watch_bounty (\<lambda>u. u = ''v'') demo_watch) = 1
   \<and> inbox_keys (fst (fanOutWatchers (env0 1) ''work.new_match'' demo_watch_bounty (\<lambda>u. u = ''v'') demo_watch))
       = {(''w'', ''work.new_match:b'')}"
proof -
  have "watch_ok demo_watch" by (simp add: watch_ok_def demo_watch_def demo_watcher_def)
  from fanout_reaches_every_watcher_once [OF this, of "env0 1" "''work.new_match''" demo_watch_bounty "\<lambda>u. u = ''v''"]
  have "snd (fanOutWatchers (env0 1) ''work.new_match'' demo_watch_bounty (\<lambda>u. u = ''v'') demo_watch)
      = length (filter (\<lambda>w. watch_matches demo_watch_bounty w \<and> wp_user w \<noteq> ''v'') (watches demo_watch))"
    "inbox_keys (fst (fanOutWatchers (env0 1) ''work.new_match'' demo_watch_bounty (\<lambda>u. u = ''v'') demo_watch))
      = inbox_keys demo_watch \<union> (\<lambda>w. (wp_user w, ''work.new_match'' @ '':'' @ wb_id demo_watch_bounty)) `
          {w \<in> set (watches demo_watch). watch_matches demo_watch_bounty w \<and> wp_user w \<noteq> ''v''}"
    by blast+
  moreover have "{w \<in> set (watches demo_watch). watch_matches demo_watch_bounty w \<and> wp_user w \<noteq> ''v''} = {demo_watcher ''w''}"
    "filter (\<lambda>w. watch_matches demo_watch_bounty w \<and> wp_user w \<noteq> ''v'') (watches demo_watch) = [demo_watcher ''w'']"
    by (auto simp: demo_watch_def demo_watch_bounty_def watch_matches_def demo_watcher_def)
  ultimately show ?thesis by (simp add: demo_watcher_def demo_watch_bounty_def inbox_keys_def) (simp add: demo_watch_def db0_def)
qed

text \<open>The handler does not fail when its alerts do: the job ends as done and the watchers are not tried again.\<close>

lemma failed_alerts_are_not_retried:
  assumes "watch_ok d"
  shows "fanOutWatchers e ty b (\<lambda>u. True) d = (d, 0)"
proof -
  have skip: "fold (alert e ty b (\<lambda>u. True)) us s = s" for us s
    by (induction us) (simp_all add: alert_def)
  show ?thesis
    unfolding fanOutWatchers_def using fan_out_from_eq [of "(d, 0)" WATCHER_PAGE_SIZE] assms skip
    by (simp add: WATCHER_PAGE_SIZE_def)
qed

section \<open>The inbox pages\<close>

definition newer :: "notification_row \<Rightarrow> notification_row \<Rightarrow> bool" where
  "newer a b \<longleftrightarrow> dispatch_key b < dispatch_key a"

interpretation inbox_walk: keyset_walk newer
  by unfold_locales (auto simp: newer_def)

lemma after_position_newer: "after_position (n_at a, n_id a) b \<longleftrightarrow> newer a b"
  by (auto simp: after_position_def newer_def dispatch_key_def)

lemma inbox_rows_sorted:
  assumes "distinct (map n_id (notifs d))"
  shows "sorted_wrt newer (inbox_rows u unread d)"
proof -
  let ?ns = "filter (\<lambda>n. personal u n \<and> (unread \<longrightarrow> \<not> n_read n)) (notifs d)"
  have "distinct (map n_id ?ns)" using assms by (simp add: distinct_map_filter)
  then have "distinct (map dispatch_key ?ns)" by (auto simp: distinct_map inj_on_def dispatch_key_def)
  then have "distinct (map dispatch_key (sort_key dispatch_key ?ns))" by (simp add: distinct_map)
  then have "sorted_wrt (<) (map dispatch_key (sort_key dispatch_key ?ns))" by (simp add: strict_sorted_iff)
  then show ?thesis unfolding inbox_rows_def newer_def by (simp add: sorted_wrt_rev sorted_wrt_map)
qed

text \<open>A page read behind a cursor continues exactly where the page that issued it ended: its
  items are the next ones of the newest-first inbox, there is a next cursor exactly when rows remain,
  no row of the admin feed is among them, and marking everything read clears the unread count and
  leaves every row of the admin feed as it was.\<close>

lemma inbox_continues_behind_cursor:
  assumes "distinct (map n_id (notifs d))" and "inbox_rows u (iq_unread q) d = before @ n # rest"
    and "0 < min (or_else (iq_limit q) 50) 100" and p_def: "p = inbox_page_at enc u q (Some (n_at n, n_id n)) d"
  shows "ip_items p = take (min (or_else (iq_limit q) 50) 100) rest
    \<and> ip_next p = (if min (or_else (iq_limit q) 50) 100 < length rest then Some (enc (last (ip_items p))) else None)
    \<and> list_all (\<lambda>x. n_user x = u \<and> \<not> starts_with ''admin.'' (n_type x)) (ip_items p)
    \<and> ip_unread (inbox_page_at enc u q None (fst (markAllNotificationsRead u d))) = 0
    \<and> filter (\<lambda>x. starts_with ''admin.'' (n_type x)) (notifs (fst (markAllNotificationsRead u d)))
        = filter (\<lambda>x. starts_with ''admin.'' (n_type x)) (notifs d)"
proof -
  let ?n = "min (or_else (iq_limit q) 50) 100"
  have "filter (newer n) (inbox_rows u (iq_unread q) d) = rest"
    using inbox_walk.after_middle inbox_rows_sorted [OF assms(1), of u "iq_unread q"] assms(2) by simp
  then have rest: "filter (after_position (n_at n, n_id n)) (inbox_rows u (iq_unread q) d) = rest"
    unfolding after_position_newer .
  have page: "takePage (take (?n + 1) rest) ?n = (take ?n rest, ?n < length rest)"
    by (auto simp: takePage_def min_def)
  have items: "ip_items p = take ?n rest" and more: "ip_more p = (?n < length rest)"
    unfolding p_def inbox_page_at_def Let_def option.case rest page by simp_all
  have "ip_next p = (if ?n < length rest \<and> take ?n rest \<noteq> [] then Some (enc (last (take ?n rest))) else None)"
    unfolding p_def inbox_page_at_def Let_def option.case rest page by simp
  moreover have "take ?n rest \<noteq> []" if "?n < length rest" using that assms(3) by auto
  ultimately have nxt: "ip_next p = (if ?n < length rest then Some (enc (last (ip_items p))) else None)"
    using items by simp
  have "personal u x" if "x \<in> set rest" for x
  proof -
    have "x \<in> set (inbox_rows u (iq_unread q) d)" using assms(2) that by simp
    then show ?thesis by (simp add: inbox_rows_def)
  qed
  then have own: "list_all (\<lambda>x. n_user x = u \<and> \<not> starts_with ''admin.'' (n_type x)) (ip_items p)"
    unfolding items list_all_iff by (auto simp: personal_def dest: in_set_takeD)
  let ?d = "fst (markAllNotificationsRead u d)"
  have marked: "notifs ?d = update_where (\<lambda>n. personal u n \<and> \<not> n_read n) (\<lambda>n. n\<lparr>n_read := True\<rparr>) (notifs d)"
    by (simp add: markAllNotificationsRead_def update_many_def)
  have "\<not> (personal u x \<and> \<not> n_read x)" if mem: "x \<in> set (notifs ?d)" for x
  proof -
    obtain y where y: "y \<in> set (notifs d)" "x = (if personal u y \<and> \<not> n_read y then y\<lparr>n_read := True\<rparr> else y)"
      using mem unfolding marked update_where_def set_map by blast
    show ?thesis by (cases "personal u y \<and> \<not> n_read y") (use y(2) in simp_all)
  qed
  then have "filter (\<lambda>n. personal u n \<and> (True \<longrightarrow> \<not> n_read n)) (notifs ?d) = []" by (simp add: filter_empty_conv)
  then have unread: "ip_unread (inbox_page_at enc u q None ?d) = 0"
    by (simp add: inbox_page_at_def inbox_rows_def Let_def prod.case_eq_if)
  have "filter (\<lambda>x. starts_with ''admin.'' (n_type x)) (notifs ?d) = filter (\<lambda>x. starts_with ''admin.'' (n_type x)) (notifs d)"
    unfolding marked by (rule filter_update_where_other) (simp add: personal_def)
  then show ?thesis using items nxt own unread by blast
qed

lemma inbox_continues_behind_cursor_witness:
  "ip_items (inbox_page_at n_id ''u'' \<lparr>iq_limit = Some 1, iq_offset = None, iq_unread = False, iq_cursor = None\<rparr> (Some (2, ''b''))
     (db0\<lparr>notifs := [stall_note ''a'' N_done 1, stall_note ''b'' N_done 2]\<rparr>)) = [stall_note ''a'' N_done 1]"
proof -
  let ?q = "\<lparr>iq_limit = Some 1, iq_offset = None, iq_unread = False, iq_cursor = None\<rparr>"
  let ?d = "db0\<lparr>notifs := [stall_note ''a'' N_done 1, stall_note ''b'' N_done 2]\<rparr>"
  have ids: "distinct (map n_id (notifs ?d))" by (simp add: stall_note_def)
  have rows: "inbox_rows ''u'' (iq_unread ?q) ?d = [] @ stall_note ''b'' N_done 2 # [stall_note ''a'' N_done 1]"
    by (simp add: inbox_rows_def stall_note_def personal_def dispatch_key_def)
  have psz: "0 < min (or_else (iq_limit ?q) 50) (100 :: nat)" by (simp add: or_else_def)
  show ?thesis
    using inbox_continues_behind_cursor [OF ids rows psz refl, of n_id] by (simp add: or_else_def) (simp add: stall_note_def)
qed

text \<open>A malformed cursor is refused; a cursor the list issued is read back as the row's position.\<close>

lemma cursor_reads_back:
  assumes "unb64 (b64 (isot (n_at n) @ ''|'' @ n_id n)) = isot (n_at n) @ ''|'' @ n_id n"
    and "date (isot (n_at n)) = Some (n_at n)" and "isot (n_at n) \<noteq> []" and "CHR ''|'' \<notin> set (isot (n_at n))"
    and "n_id n \<noteq> []" and "CHR ''|'' \<notin> set (n_id n)"
  shows "decodeNotificationCursor unb64 date (encodeNotificationCursor isot b64 n) = Inr (n_at n, n_id n)"
proof -
  have plain: "split_bar s = [s]" if "CHR ''|'' \<notin> set s" for s
    using that by (induction s) auto
  have "split_bar (s @ ''|'' @ t) = s # split_bar t" if "CHR ''|'' \<notin> set s" for s t
    using that by (induction s) auto
  then show ?thesis
    using assms plain by (simp add: decodeNotificationCursor_def encodeNotificationCursor_def)
qed

end
