(* ===== verification/Publication.thy ===== *)
theory Publication
  imports Publication_Files Job_Queue
begin

text \<open>
  The publication jobs of \<open>services/community-publish.ts\<close>: the push of a dataset to every target, its
  withdrawal, and the rows that record them. What a provider answers is a parameter; an answer that never came
  is a transient failure.
\<close>

section \<open>Rows and answers\<close>

record publication_row =
  pu_bounty :: ident
  pu_target :: target
  pu_status :: publication_status
  pu_external :: "string option"
  pu_url :: "string option"
  pu_pushed :: "time option"
  pu_error :: "string option"
  pu_attempts :: int
  pu_by :: "ident option"
  pu_bundle :: "ident option"

record pub_log =
  lg_action :: string
  lg_bounty :: ident
  lg_target :: "target option"
  lg_reason :: string

record pub_state =
  pt_db :: db
  pt_text :: "ident \<Rightarrow> bounty_text"
  pt_rows :: "publication_row list"
  pt_log :: "pub_log list"

text \<open>A permanent answer carries the message of its error.\<close>

datatype 'a answer = Answered 'a | Permanent string | Transient

record provider =
  pv_missing :: "string \<Rightarrow> string option option" \<comment> \<open>why it is not configured: no reason, or a reason\<close>
  pv_pushes :: bool
  pv_push :: "string \<Rightarrow> publish_file list \<Rightarrow> (string \<times> string) answer"
  pv_withdraws :: bool
  pv_withdraw :: "string \<Rightarrow> string answer"

record pub_env =
  px_now :: time
  px_enabled :: bool
  px_namespace :: string
  px_default :: "target \<Rightarrow> string"
  px_provider :: "target \<Rightarrow> provider"
  px_read :: "string \<Rightarrow> string option"
  px_blob :: "ident \<Rightarrow> blob"
  px_fields :: "ident \<Rightarrow> json"
  px_titles :: "ident \<Rightarrow> string"
  px_stringify :: "json \<Rightarrow> string"
  px_pretty :: "json \<Rightarrow> string"
  px_shelf :: license_shelf
  px_stamp :: string

datatype job_end = Finished | Raised bool \<comment> \<open>whether the error is permanent\<close>

definition PUBLICATION_TARGETS :: "target list" where
  "PUBLICATION_TARGETS = [T_huggingface, T_github]"

definition target_name :: "target \<Rightarrow> string" where
  "target_name t = (case t of T_huggingface \<Rightarrow> ''huggingface'' | T_github \<Rightarrow> ''github'' | T_aikosh \<Rightarrow> ''aikosh'')"

definition resolveNamespace :: "pub_env \<Rightarrow> target \<Rightarrow> string" where
  "resolveNamespace e t = (if t = T_huggingface \<and> px_namespace e \<noteq> [] then px_namespace e else px_default e t)"

definition pub_key :: "publication_row \<Rightarrow> ident \<times> target" where
  "pub_key r = (pu_bounty r, pu_target r)"

definition pub_at :: "ident \<Rightarrow> target \<Rightarrow> pub_state \<Rightarrow> publication_row option" where
  "pub_at b t s = find_where (\<lambda>r. pub_key r = (b, t)) (pt_rows s)"

definition new_pub :: "ident \<Rightarrow> target \<Rightarrow> publication_row" where
  "new_pub b t = \<lparr>pu_bounty = b, pu_target = t, pu_status = P_pending, pu_external = None, pu_url = None, pu_pushed = None,
     pu_error = None, pu_attempts = 0, pu_by = None, pu_bundle = None\<rparr>"

text \<open>The upsert: \<open>c\<close> fills a new row, \<open>u\<close> updates the existing one.\<close>

definition upsert_pub ::
  "ident \<Rightarrow> target \<Rightarrow> (publication_row \<Rightarrow> publication_row) \<Rightarrow> (publication_row \<Rightarrow> publication_row) \<Rightarrow> pub_state \<Rightarrow> pub_state" where
  "upsert_pub b t c u s =
     (case pub_at b t s of
        None \<Rightarrow> s\<lparr>pt_rows := pt_rows s @ [c (new_pub b t)]\<rparr>
      | Some r \<Rightarrow> s\<lparr>pt_rows := update_where (\<lambda>r. pub_key r = (b, t)) u (pt_rows s)\<rparr>)"

definition log_pub :: "string \<Rightarrow> ident \<Rightarrow> target option \<Rightarrow> string \<Rightarrow> pub_state \<Rightarrow> pub_state" where
  "log_pub a b t reason s =
     s\<lparr>pt_log := pt_log s @ [\<lparr>lg_action = a, lg_bounty = b, lg_target = t, lg_reason = reason\<rparr>]\<rparr>"

definition set_rollup :: "ident \<Rightarrow> publication_status \<Rightarrow> pub_state \<Rightarrow> pub_state" where
  "set_rollup b st s = s\<lparr>pt_db := set_bounty (\<lambda>x. b_id x = b) (\<lambda>x. x\<lparr>b_publication := st\<rparr>) (pt_db s)\<rparr>"

definition set_hf :: "ident \<Rightarrow> string \<Rightarrow> pub_state \<Rightarrow> pub_state" where
  "set_hf b repo s = s\<lparr>pt_text := (pt_text s)(b := (pt_text s b)\<lparr>bt_hf := Some repo\<rparr>)\<rparr>"

section \<open>Recording by hand\<close>

record manual_record =
  mr_status :: publication_status
  mr_external :: "string option"
  mr_url :: "string option"
  mr_error :: "string option"
  mr_by :: "ident option"
  mr_bundle :: "ident option"

text \<open>An absent column of an update is left alone.\<close>

definition keep :: "'a option \<Rightarrow> 'a option \<Rightarrow> 'a option" where
  "keep v old = (case v of None \<Rightarrow> old | Some x \<Rightarrow> Some x)"

definition recordDatasetPublication :: "time \<Rightarrow> ident \<Rightarrow> target \<Rightarrow> manual_record \<Rightarrow> pub_state \<Rightarrow> pub_state" where
  "recordDatasetPublication now b t m s =
     upsert_pub b t
       (\<lambda>r. r\<lparr>pu_status := mr_status m, pu_external := mr_external m, pu_url := mr_url m, pu_error := mr_error m,
              pu_by := mr_by m, pu_bundle := mr_bundle m, pu_pushed := (if mr_status m = P_published then Some now else None)\<rparr>)
       (\<lambda>r. r\<lparr>pu_status := mr_status m, pu_external := keep (mr_external m) (pu_external r), pu_url := keep (mr_url m) (pu_url r),
              pu_error := keep (mr_error m) (pu_error r), pu_by := keep (mr_by m) (pu_by r), pu_bundle := keep (mr_bundle m) (pu_bundle r),
              pu_pushed := (if mr_status m = P_published then Some now else pu_pushed r)\<rparr>) s"

text \<open>\<open>None\<close>: the bounty does not exist, and the transaction writes nothing.\<close>

definition attestPublication :: "time \<Rightarrow> ident \<Rightarrow> target \<Rightarrow> string \<Rightarrow> string \<Rightarrow> ident \<Rightarrow> pub_state \<Rightarrow> pub_state option" where
  "attestPublication now b t url ext admin s =
     (if bounty_by b (pt_db s) = None then None
      else (let f = (\<lambda>r :: publication_row. r\<lparr>pu_status := P_published, pu_url := Some url, pu_external := Some ext,
                        pu_by := Some admin, pu_pushed := Some now\<rparr>);
                s1 = set_rollup b P_published (upsert_pub b t f f s);
                s2 = (if t = T_huggingface then set_hf b ext s1 else s1)
            in Some (log_pub ''community.dataset.published_attested'' b (Some t) url s2)))"

section \<open>The push\<close>

definition is_published :: "ident \<Rightarrow> target \<Rightarrow> pub_state \<Rightarrow> bool" where
  "is_published b t s \<longleftrightarrow> (case pub_at b t s of Some r \<Rightarrow> pu_status r = P_published | None \<Rightarrow> False)"

definition markTargetFailed :: "ident \<Rightarrow> target \<Rightarrow> string \<Rightarrow> pub_state \<Rightarrow> pub_state" where
  "markTargetFailed b t reason s =
     (if is_published b t s then s
      else log_pub ''community_publication.push_failed'' b (Some t) (take 500 reason)
             (upsert_pub b t
                (\<lambda>r. r\<lparr>pu_status := P_failed, pu_error := Some (take 500 reason), pu_attempts := 1\<rparr>)
                (\<lambda>r. r\<lparr>pu_status := P_failed, pu_error := Some (take 500 reason), pu_attempts := pu_attempts r + 1\<rparr>) s))"

definition markTargetNotConfigured :: "ident \<Rightarrow> target \<Rightarrow> string \<Rightarrow> pub_state \<Rightarrow> pub_state" where
  "markTargetNotConfigured b t reason s =
     (let f = (\<lambda>r. r\<lparr>pu_status := P_not_configured, pu_error := Some reason\<rparr>) in upsert_pub b t f f s)"

definition markTargetPushed :: "time \<Rightarrow> ident \<Rightarrow> target \<Rightarrow> string \<Rightarrow> string \<Rightarrow> pub_state \<Rightarrow> pub_state" where
  "markTargetPushed now b t repo url s =
     (if is_published b t s then s
      else log_pub ''community_publication.pushed'' b (Some t) url
             (upsert_pub b t
                (\<lambda>r. r\<lparr>pu_status := P_published, pu_external := Some repo, pu_url := Some url, pu_pushed := Some now, pu_attempts := 1\<rparr>)
                (\<lambda>r. r\<lparr>pu_status := P_published, pu_external := Some repo, pu_url := Some url, pu_pushed := Some now,
                       pu_error := None, pu_attempts := pu_attempts r + 1\<rparr>) s))"

text \<open>The repository of a target: the one recorded for it, for Hugging Face also the one on the
  bounty, when it is a full name, and else a new name.\<close>

definition existing_repo :: "ident \<Rightarrow> target \<Rightarrow> pub_state \<Rightarrow> string option" where
  "existing_repo b t s =
     (case (case pub_at b t s of Some r \<Rightarrow> pu_external r | None \<Rightarrow> None) of
        Some x \<Rightarrow> Some x
      | None \<Rightarrow> if t = T_huggingface then bt_hf (pt_text s b) else None)"

definition repo_for :: "pub_env \<Rightarrow> ident \<Rightarrow> target \<Rightarrow> pub_state \<Rightarrow> string" where
  "repo_for e b t s =
     (case existing_repo b t s of
        Some x \<Rightarrow> if CHR ''/'' \<in> set x then x else resolveNamespace e t @ ''/'' @ slugForBounty b (bt_title (pt_text s b))
      | None \<Rightarrow> resolveNamespace e t @ ''/'' @ slugForBounty b (bt_title (pt_text s b)))"

datatype verdict = V_unconfigured string | V_failed string | V_pushed string string | V_transient

definition or_reason :: "target \<Rightarrow> string option \<Rightarrow> string" where
  "or_reason t r = (case r of Some x \<Rightarrow> x | None \<Rightarrow> target_name t @ '' is not configured.'')"

definition push_verdict :: "pub_env \<Rightarrow> ident \<Rightarrow> (target \<Rightarrow> publish_file list) \<Rightarrow> pub_state \<Rightarrow> target \<Rightarrow> verdict" where
  "push_verdict e b files s t =
     (let p = px_provider e t
      in case pv_missing p (resolveNamespace e t) of
           Some r \<Rightarrow> V_unconfigured (or_reason t r)
         | None \<Rightarrow>
             if \<not> pv_pushes p then V_failed (''Publication provider '' @ target_name t @ '' does not support dataset push.'')
             else (case pv_push p (repo_for e b t s) (files t) of
                     Answered (repo, url) \<Rightarrow> V_pushed repo url
                   | Permanent m \<Rightarrow> V_failed m
                   | Transient \<Rightarrow> V_transient))"

definition record_verdict_of :: "time \<Rightarrow> ident \<Rightarrow> target \<Rightarrow> verdict \<Rightarrow> pub_state \<Rightarrow> pub_state" where
  "record_verdict_of now b t v s =
     (case v of
        V_unconfigured r \<Rightarrow> markTargetNotConfigured b t r s
      | V_failed m \<Rightarrow> markTargetFailed b t m s
      | V_pushed repo url \<Rightarrow> markTargetPushed now b t repo url s
      | V_transient \<Rightarrow> s)"

text \<open>The targets in order; \<open>s0\<close> is the state read before the loop.\<close>

fun push_targets ::
  "pub_env \<Rightarrow> ident \<Rightarrow> (target \<Rightarrow> publish_file list) \<Rightarrow> pub_state \<Rightarrow> target list \<Rightarrow> pub_state \<Rightarrow> pub_state" where
  "push_targets e b files s0 [] s = s"
| "push_targets e b files s0 (t # ts) s =
     push_targets e b files s0 ts (record_verdict_of (px_now e) b t (push_verdict e b files s0 t) s)"

definition saw_transient :: "pub_env \<Rightarrow> ident \<Rightarrow> (target \<Rightarrow> publish_file list) \<Rightarrow> pub_state \<Rightarrow> bool" where
  "saw_transient e b files s0 \<longleftrightarrow> list_ex (\<lambda>t. push_verdict e b files s0 t = V_transient) PUBLICATION_TARGETS"

definition finish_push :: "pub_env \<Rightarrow> ident \<Rightarrow> (target \<Rightarrow> publish_file list) \<Rightarrow> pub_state \<Rightarrow> pub_state \<times> job_end" where
  "finish_push e b files s0 =
     (let s1 = push_targets e b files s0 PUBLICATION_TARGETS s0;
          s2 = (case push_verdict e b files s0 T_huggingface of
                  V_pushed repo url \<Rightarrow> set_rollup b P_published (set_hf b repo s1)
                | _ \<Rightarrow> s1)
      in (s2, if saw_transient e b files s0 then Raised False else Finished))"

fun read_all :: "(string \<Rightarrow> string option) \<Rightarrow> publish_attachment list \<Rightarrow> publish_file list option" where
  "read_all rd [] = Some []"
| "read_all rd (a # as) =
     (case rd (pa_key a) of
        None \<Rightarrow> None
      | Some c \<Rightarrow> map_option (\<lambda>fs. (pa_path a, c) # fs) (read_all rd as))"

definition declared_fields :: "pub_env \<Rightarrow> ident \<Rightarrow> json list" where
  "declared_fields e b = (case px_fields e b of JArr fs \<Rightarrow> fs | _ \<Rightarrow> [])"

text \<open>The attachments of a run and the audit entries about what was left out.\<close>

definition run_attachments :: "pub_env \<Rightarrow> ident \<Rightarrow> submission_row list \<Rightarrow> db \<Rightarrow> publish_attachment list" where
  "run_attachments e b subs d = collectSubmissionAttachments (px_blob e) (declared_fields e b) subs d"

definition log_capped :: "ident \<Rightarrow> submission_row list \<Rightarrow> pub_state \<Rightarrow> pub_state" where
  "log_capped b subs s =
     (if length subs < count_where (\<lambda>x. s_bounty x = b \<and> s_status x = S_accepted) (submissions (pt_db s))
      then log_pub ''community_publication.items_capped_to_target'' b None [] s else s)"

definition log_truncated :: "ident \<Rightarrow> nat \<Rightarrow> nat \<Rightarrow> pub_state \<Rightarrow> pub_state" where
  "log_truncated b published resolved s =
     (if published < resolved then log_pub ''community_publication.attachments_truncated'' b None [] s else s)"

definition run_files ::
  "pub_env \<Rightarrow> bounty_row \<Rightarrow> submission_row list \<Rightarrow> publish_attachment list \<Rightarrow> nat \<Rightarrow> publish_file list \<Rightarrow> pub_state
     \<Rightarrow> target \<Rightarrow> publish_file list" where
  "run_files e br subs kept resolved bufs s t =
     (let (jsonl, k) = buildItemsJsonl (px_stringify e) (px_titles e) kept subs;
          tx = pt_text s (b_id br);
          m = buildManifest br tx (px_stamp e) (pt_db s) k resolved (length kept)
      in buildFilesForTarget (px_pretty e) (px_shelf e) t br tx m jsonl bufs)"

definition LICENSE_MISSING :: string where
  "LICENSE_MISSING = ''Community license must be set before publishing.''"

definition runCommunityPublishJob :: "pub_env \<Rightarrow> ident \<Rightarrow> pub_state \<Rightarrow> pub_state \<times> job_end" where
  "runCommunityPublishJob e b s =
     (case bounty_by b (pt_db s) of
        None \<Rightarrow> (s, Finished)
      | Some br \<Rightarrow>
          if \<not> bt_community (pt_text s b) then (s, Finished)
          else if \<not> px_enabled e then (s, Raised True)
          else if \<not> given (b_license br)
            then (fold (\<lambda>t. markTargetFailed b t LICENSE_MISSING) PUBLICATION_TARGETS s, Finished)
          else (case selectAcceptedSubmissionsForPublication b (b_target br) (pt_db s) of
                  None \<Rightarrow> (s, Raised True)
                | Some subs \<Rightarrow>
                    (let s1 = log_capped b subs s;
                         resolved = run_attachments e b subs (pt_db s);
                         kept = applyAttachmentCap MAX_PUBLISH_ATTACHMENT_BYTES resolved
                     in case read_all (px_read e) kept of
                          None \<Rightarrow> (s1, Raised False)
                        | Some bufs \<Rightarrow>
                            finish_push e b (run_files e br subs kept (length resolved) bufs s)
                              (log_truncated b (length kept) (length resolved) s1))))"

section \<open>The withdrawal\<close>

definition markRetractFailed :: "ident \<Rightarrow> target \<Rightarrow> string \<Rightarrow> pub_state \<Rightarrow> pub_state" where
  "markRetractFailed b t reason s =
     log_pub ''community_publication.retract_failed'' b (Some t) reason
       (s\<lparr>pt_rows := update_where (\<lambda>r. pub_key r = (b, t)) (\<lambda>r. r\<lparr>pu_error := Some reason\<rparr>) (pt_rows s)\<rparr>)"

definition markRetracted :: "ident \<Rightarrow> target \<Rightarrow> string \<Rightarrow> pub_state \<Rightarrow> pub_state" where
  "markRetracted b t repo s =
     log_pub ''community_publication.retracted'' b (Some t) repo
       (s\<lparr>pt_rows := update_where (\<lambda>r. pub_key r = (b, t)) (\<lambda>r. r\<lparr>pu_status := P_retracted, pu_error := None\<rparr>) (pt_rows s)\<rparr>)"

datatype withdrawal = W_done string | W_failed string | W_transient

definition withdraw_verdict :: "pub_env \<Rightarrow> target \<Rightarrow> string option \<Rightarrow> withdrawal" where
  "withdraw_verdict e t ext =
     (let p = px_provider e t
      in case pv_missing p (resolveNamespace e t) of
           Some r \<Rightarrow> W_failed (or_reason t r)
         | None \<Rightarrow>
             if \<not> pv_withdraws p then W_failed (''Publication provider '' @ target_name t @ '' does not support withdrawal.'')
             else if \<not> given ext
               then W_failed (''No provider repo id recorded for '' @ target_name t
                                @ ''; cannot withdraw without knowing what to withdraw.'')
             else (case pv_withdraw p (the ext) of
                     Answered repo \<Rightarrow> W_done repo
                   | Permanent m \<Rightarrow> W_failed m
                   | Transient \<Rightarrow> W_transient))"

definition published_rows :: "ident \<Rightarrow> pub_state \<Rightarrow> publication_row list" where
  "published_rows b s = filter (\<lambda>r. pu_bounty r = b \<and> pu_status r = P_published) (pt_rows s)"

definition row_verdict :: "pub_env \<Rightarrow> publication_row \<Rightarrow> withdrawal" where
  "row_verdict e r = withdraw_verdict e (pu_target r) (pu_external r)"

definition record_withdrawal :: "pub_env \<Rightarrow> ident \<Rightarrow> publication_row \<Rightarrow> pub_state \<Rightarrow> pub_state" where
  "record_withdrawal e b r s =
     (case row_verdict e r of
        W_done repo \<Rightarrow> markRetracted b (pu_target r) repo s
      | W_failed m \<Rightarrow> markRetractFailed b (pu_target r) m s
      | W_transient \<Rightarrow> s)"

definition withdrawn :: "pub_env \<Rightarrow> publication_row \<Rightarrow> bool" where
  "withdrawn e r \<longleftrightarrow> (case row_verdict e r of W_done repo \<Rightarrow> True | _ \<Rightarrow> False)"

text \<open>The provider of a target is looked up by name, and there is none for a manual portal: the lookup
  throws, which ends the run. The flag says so.\<close>

definition has_provider :: "target \<Rightarrow> bool" where
  "has_provider t \<longleftrightarrow> t \<in> set PUBLICATION_TARGETS"

fun withdraw_rows :: "pub_env \<Rightarrow> ident \<Rightarrow> publication_row list \<Rightarrow> pub_state \<Rightarrow> pub_state \<times> bool" where
  "withdraw_rows e b [] s = (s, False)"
| "withdraw_rows e b (r # rs) s =
     (if \<not> has_provider (pu_target r) then (s, True) else withdraw_rows e b rs (record_withdrawal e b r s))"

definition runCommunityUnpublishJob :: "pub_env \<Rightarrow> ident \<Rightarrow> pub_state \<Rightarrow> pub_state \<times> job_end" where
  "runCommunityUnpublishJob e b s =
     (let rows = published_rows b s
      in if rows = [] then (s, Finished)
         else (let (s1, unknown) = withdraw_rows e b rows s
               in if unknown then (s1, Raised False)
                  else (if length (filter (withdrawn e) rows) = length rows then set_rollup b P_retracted s1 else s1,
                        if list_ex (\<lambda>r. row_verdict e r = W_transient) rows then Raised False else Finished)))"

section \<open>Rows after a write\<close>

lemma pub_at_upsert:
  assumes "\<And>r. pub_key (u r) = pub_key r" and "\<And>r. pub_key (c r) = pub_key r"
  shows "pub_at b' t' (upsert_pub b t c u s)
    = (if (b', t') = (b, t) then Some (case pub_at b t s of None \<Rightarrow> c (new_pub b t) | Some r \<Rightarrow> u r) else pub_at b' t' s)"
proof (cases "pub_at b t s")
  case None
  have k: "pub_key (c (new_pub b t)) = (b, t)" by (simp add: assms(2)) (simp add: pub_key_def new_pub_def)
  show ?thesis
  proof (cases "(b', t') = (b, t)")
    case True
    then show ?thesis using None k by (simp add: upsert_pub_def pub_at_def find_where_append)
  next
    case False
    then have n: "pub_key (c (new_pub b t)) \<noteq> (b', t')" using k by (simp only: not_sym) blast
    show ?thesis using None n unfolding if_not_P [OF False]
      by (simp add: upsert_pub_def pub_at_def find_where_append split: option.split)
  qed
next
  case (Some r)
  have "find_where (\<lambda>x. pub_key x = (b', t')) (update_where (\<lambda>x. pub_key x = (b, t)) u (pt_rows s))
      = map_option (\<lambda>x. if pub_key x = (b, t) then u x else x) (find_where (\<lambda>x. pub_key x = (b', t')) (pt_rows s))"
    by (rule find_where_update_where) (simp add: assms(1))
  moreover have "find_where (\<lambda>x. pub_key x = (b', t')) (pt_rows s) = Some x \<Longrightarrow> pub_key x = (b', t')" for x
    by (drule find_where_Some) simp
  ultimately show ?thesis using Some
    by (cases "find_where (\<lambda>x. pub_key x = (b', t')) (pt_rows s)") (auto simp: upsert_pub_def pub_at_def)
qed

lemma pub_at_log [simp]: "pub_at b t (log_pub a b' t' x s) = pub_at b t s"
  by (simp add: pub_at_def log_pub_def)

lemma pub_at_rollup [simp]: "pub_at b t (set_rollup b' st s) = pub_at b t s"
  by (simp add: pub_at_def set_rollup_def)

lemma pub_at_hf [simp]: "pub_at b t (set_hf b' x s) = pub_at b t s"
  by (simp add: pub_at_def set_hf_def)

definition row_published :: "publication_row option \<Rightarrow> bool" where
  "row_published o' \<longleftrightarrow> (case o' of Some r \<Rightarrow> pu_status r = P_published | None \<Rightarrow> False)"

text \<open>What a push makes of the row of its target.\<close>

definition row_after_push :: "time \<Rightarrow> ident \<Rightarrow> target \<Rightarrow> verdict \<Rightarrow> publication_row option \<Rightarrow> publication_row option" where
  "row_after_push now b t v old =
     (let base = (case old of Some r \<Rightarrow> r | None \<Rightarrow> new_pub b t)
      in case v of
           V_transient \<Rightarrow> old
         | V_unconfigured reason \<Rightarrow> Some (base\<lparr>pu_status := P_not_configured, pu_error := Some reason\<rparr>)
         | V_failed reason \<Rightarrow>
             if row_published old then old
             else Some (base\<lparr>pu_status := P_failed, pu_error := Some (take 500 reason), pu_attempts := pu_attempts base + 1\<rparr>)
         | V_pushed repo url \<Rightarrow>
             if row_published old then old
             else Some (base\<lparr>pu_status := P_published, pu_external := Some repo, pu_url := Some url, pu_pushed := Some now,
                              pu_error := None, pu_attempts := pu_attempts base + 1\<rparr>))"

lemma is_published_row: "is_published b t s = row_published (pub_at b t s)"
  by (simp add: is_published_def row_published_def)

lemma pub_at_verdict:
  "pub_at b' t' (record_verdict_of now b t v s)
    = (if (b', t') = (b, t) then row_after_push now b t v (pub_at b t s) else pub_at b' t' s)"
proof (cases v)
  case (V_unconfigured r)
  then show ?thesis
    by (simp add: record_verdict_of_def markTargetNotConfigured_def row_after_push_def pub_at_upsert pub_key_def Let_def
        split: option.split)
next
  case (V_failed m)
  then show ?thesis
    by (simp add: record_verdict_of_def markTargetFailed_def row_after_push_def pub_at_upsert pub_key_def Let_def
        is_published_row new_pub_def split: option.split)
next
  case (V_pushed repo url)
  then show ?thesis
    by (simp add: record_verdict_of_def markTargetPushed_def row_after_push_def pub_at_upsert pub_key_def Let_def
        is_published_row new_pub_def split: option.split)
next
  case V_transient
  then show ?thesis by (simp add: record_verdict_of_def row_after_push_def Let_def)
qed

lemma pub_at_verdicts:
  "distinct ts \<Longrightarrow> pub_at b' t' (fold (\<lambda>t. record_verdict_of now b t (v t)) ts s)
    = (if b' = b \<and> t' \<in> set ts then row_after_push now b t' (v t') (pub_at b t' s) else pub_at b' t' s)"
proof (induction ts arbitrary: s)
  case (Cons t ts)
  then show ?case by (auto simp: pub_at_verdict)
qed simp

lemma push_targets_fold:
  "push_targets e b files s0 ts s = fold (\<lambda>t. record_verdict_of (px_now e) b t (push_verdict e b files s0 t)) ts s"
  by (induction ts arbitrary: s) simp_all

lemma distinct_targets: "distinct PUBLICATION_TARGETS"
  by (simp add: PUBLICATION_TARGETS_def)

lemma pub_at_finish_push:
  "pub_at b' t' (fst (finish_push e b files s))
    = (if b' = b \<and> t' \<in> set PUBLICATION_TARGETS
       then row_after_push (px_now e) b t' (push_verdict e b files s t') (pub_at b t' s) else pub_at b' t' s)"
  by (simp add: finish_push_def Let_def push_targets_fold pub_at_verdicts [OF distinct_targets] split: verdict.split)

text \<open>A row is made published by the answer of its provider only, and stays so unless the target lost its configuration.\<close>

lemma row_after_push_honest:
  assumes "row_after_push now b t v old = new" and "row_published new \<noteq> row_published old \<or> (row_published old \<and> new \<noteq> old)"
  shows "(\<exists>repo url r. v = V_pushed repo url \<and> new = Some r \<and> pu_status r = P_published
            \<and> pu_external r = Some repo \<and> pu_url r = Some url \<and> \<not> row_published old)
       \<or> (\<exists>reason. v = V_unconfigured reason \<and> row_published old \<and> \<not> row_published new)"
  using assms by (cases v) (auto simp: row_after_push_def row_published_def Let_def split: if_splits option.splits)

section \<open>What a run of the push changes\<close>

text \<open>The parts of the state a push reads; it is the same for all writes of the audit log.\<close>

definition same_rows :: "pub_state \<Rightarrow> pub_state \<Rightarrow> bool" where
  "same_rows s s' \<longleftrightarrow> pt_rows s' = pt_rows s \<and> pt_db s' = pt_db s \<and> pt_text s' = pt_text s"

lemma same_rows_logs: "same_rows s (log_truncated b m n (log_capped b subs s))" "same_rows s (log_capped b subs s)"
  by (simp_all add: same_rows_def log_truncated_def log_capped_def log_pub_def)

lemma failed_verdict: "record_verdict_of now b t (V_failed m) = markTargetFailed b t m"
  by (simp add: fun_eq_iff record_verdict_of_def)

lemma publish_run_cases:
  obtains (idle) x s' where "runCommunityPublishJob e b s = (s', x)" and "same_rows s s'"
      and "x = Finished \<Longrightarrow> bounty_by b (pt_db s) = None \<or> \<not> bt_community (pt_text s b)"
  | (unlicensed) "runCommunityPublishJob e b s
        = (fold (\<lambda>t. record_verdict_of (px_now e) b t (V_failed LICENSE_MISSING)) PUBLICATION_TARGETS s, Finished)"
  | (pushed) files s1 where "runCommunityPublishJob e b s = finish_push e b files s1" and "same_rows s s1"
proof (cases "bounty_by b (pt_db s)")
  case None
  then show ?thesis by (intro idle [of s Finished]) (simp_all add: runCommunityPublishJob_def same_rows_def)
next
  case (Some br)
  note run = runCommunityPublishJob_def [of e b s, unfolded Some option.case]
  consider "\<not> bt_community (pt_text s b)" | "bt_community (pt_text s b)" "\<not> px_enabled e"
    | "bt_community (pt_text s b)" "px_enabled e" "\<not> given (b_license br)"
    | "bt_community (pt_text s b)" "px_enabled e" "given (b_license br)" by blast
  then show ?thesis
  proof cases
    case 1
    then show ?thesis by (intro idle [of s Finished]) (simp_all add: run same_rows_def)
  next
    case 2
    then show ?thesis by (intro idle [of s "Raised True"]) (simp_all add: run same_rows_def)
  next
    case 3
    then show ?thesis by (intro unlicensed) (simp add: run failed_verdict)
  next
    case 4
    show ?thesis
    proof (cases "selectAcceptedSubmissionsForPublication b (b_target br) (pt_db s)")
      case None
      then show ?thesis using 4 by (intro idle [of s "Raised True"]) (simp_all add: run same_rows_def)
    next
      case subs: (Some subs)
      let ?res = "run_attachments e b subs (pt_db s)"
      let ?kept = "applyAttachmentCap MAX_PUBLISH_ATTACHMENT_BYTES ?res"
      show ?thesis
      proof (cases "read_all (px_read e) ?kept")
        case None
        then show ?thesis using 4 subs
          by (intro idle [of "log_capped b subs s" "Raised False"]) (simp_all add: run Let_def same_rows_logs)
      next
        case (Some bufs)
        then show ?thesis using 4 subs
          by (intro pushed [OF _ same_rows_logs(1)]) (simp add: run Let_def)
      qed
    qed
  qed
qed

lemma pub_at_same_rows: "same_rows s s' \<Longrightarrow> pub_at b t s' = pub_at b t s"
  by (simp add: same_rows_def pub_at_def)

definition target_verdict :: "pub_env \<Rightarrow> target \<Rightarrow> verdict \<Rightarrow> bool" where
  "target_verdict e t v \<longleftrightarrow>
     (case v of
        V_pushed repo url \<Rightarrow> \<exists>name fs. pv_push (px_provider e t) name fs = Answered (repo, url)
      | V_unconfigured r \<Rightarrow> pv_missing (px_provider e t) (resolveNamespace e t) \<noteq> None
      | _ \<Rightarrow> True)"

lemma push_verdict_sound: "target_verdict e t (push_verdict e b files s t)"
  by (auto simp: push_verdict_def target_verdict_def Let_def split: option.split answer.split)

text \<open>Every row after a run is the row before it, or what a sound verdict makes of it.\<close>

lemma publish_run_row:
  "pub_at b' t' (fst (runCommunityPublishJob e b s)) = pub_at b' t' s
   \<or> (b' = b \<and> t' \<in> set PUBLICATION_TARGETS \<and> (\<exists>v. target_verdict e t' v
         \<and> pub_at b' t' (fst (runCommunityPublishJob e b s)) = row_after_push (px_now e) b t' v (pub_at b t' s)))"
proof (cases rule: publish_run_cases [of e b s])
  case (idle x s')
  then show ?thesis by (simp add: pub_at_same_rows)
next
  case unlicensed
  then show ?thesis
    by (cases "b' = b \<and> t' \<in> set PUBLICATION_TARGETS")
      (auto simp: pub_at_verdicts [OF distinct_targets] target_verdict_def intro!: exI [of _ "V_failed LICENSE_MISSING"])
next
  case (pushed files s1)
  show ?thesis
  proof (cases "b' = b \<and> t' \<in> set PUBLICATION_TARGETS")
    case True
    have "pub_at b' t' (fst (runCommunityPublishJob e b s))
        = row_after_push (px_now e) b t' (push_verdict e b files s1 t') (pub_at b t' s)"
      using True pushed by (simp add: pub_at_finish_push pub_at_same_rows)
    then show ?thesis using True push_verdict_sound by blast
  next
    case False
    have "pub_at b' t' (fst (runCommunityPublishJob e b s)) = pub_at b' t' s"
      unfolding pushed(1) pub_at_finish_push if_not_P [OF False] by (rule pub_at_same_rows [OF pushed(2)])
    then show ?thesis ..
  qed
qed

lemma rollup_status:
  "map_option b_publication (bounty_by x (pt_db (set_rollup b st s)))
    = (if x = b then map_option (\<lambda>_. st) (bounty_by b (pt_db s)) else map_option b_publication (bounty_by x (pt_db s)))"
proof -
  have f: "find_where (\<lambda>y. b_id y = x) (update_where (\<lambda>y. b_id y = b) (\<lambda>y. y\<lparr>b_publication := st\<rparr>) (bounties (pt_db s)))
      = map_option (\<lambda>y. if b_id y = b then y\<lparr>b_publication := st\<rparr> else y) (find_where (\<lambda>y. b_id y = x) (bounties (pt_db s)))"
    by (rule find_where_update_where) simp
  show ?thesis
    using find_where_Some [of "\<lambda>y. b_id y = x" "bounties (pt_db s)"]
    by (cases "find_where (\<lambda>y. b_id y = x) (bounties (pt_db s))")
      (auto simp: set_rollup_def set_bounty_def bounty_by_def f)
qed

lemma verdict_keeps_db: "pt_db (record_verdict_of now b t v s) = pt_db s"
  by (cases v) (simp_all add: record_verdict_of_def markTargetNotConfigured_def markTargetFailed_def markTargetPushed_def
      log_pub_def upsert_pub_def Let_def split: option.split)

lemma verdicts_keep_db: "pt_db (fold (\<lambda>t. record_verdict_of now b t (v t)) ts s) = pt_db s"
  by (induction ts arbitrary: s) (simp_all add: verdict_keeps_db)

lemma finish_push_rollup:
  "map_option b_publication (bounty_by x (pt_db (fst (finish_push e b files s)))) = map_option b_publication (bounty_by x (pt_db s))
   \<or> (x = b \<and> map_option b_publication (bounty_by x (pt_db (fst (finish_push e b files s)))) = map_option (\<lambda>_. P_published) (bounty_by b (pt_db s))
        \<and> (\<exists>repo url. push_verdict e b files s T_huggingface = V_pushed repo url))"
proof (cases "push_verdict e b files s T_huggingface")
  case (V_pushed repo url)
  then show ?thesis
    by (simp add: finish_push_def Let_def rollup_status) (simp add: set_hf_def push_targets_fold verdicts_keep_db)
qed (simp_all add: finish_push_def Let_def push_targets_fold verdicts_keep_db)

text \<open>C30: what a publication run may say. A dataset becomes published on a target only if the provider of
  that target answered a push, and the row then carries the answer; a row published before stays
  exactly as it was while its target is configured; and the status of a bounty changes only to
  published, only for the bounty of the run, and only if Hugging Face answered.\<close>

theorem published_means_pushed:
  assumes "runCommunityPublishJob e b s = (s', x)"
  shows "(row_published (pub_at b' t s') \<and> \<not> row_published (pub_at b' t s) \<longrightarrow>
            b' = b \<and> (\<exists>repo url name files r. pv_push (px_provider e t) name files = Answered (repo, url)
              \<and> pub_at b' t s' = Some r \<and> pu_external r = Some repo \<and> pu_url r = Some url))
       \<and> (row_published (pub_at b' t s) \<and> pv_missing (px_provider e t) (resolveNamespace e t) = None \<longrightarrow>
            pub_at b' t s' = pub_at b' t s)
       \<and> (map_option b_publication (bounty_by b' (pt_db s')) \<noteq> map_option b_publication (bounty_by b' (pt_db s)) \<longrightarrow>
            b' = b \<and> map_option b_publication (bounty_by b' (pt_db s')) = Some P_published
              \<and> (\<exists>repo url name files. pv_push (px_provider e T_huggingface) name files = Answered (repo, url)))"
proof -
  have s': "s' = fst (runCommunityPublishJob e b s)" using assms by simp
  have changed: "(\<exists>v. b' = b \<and> target_verdict e t v \<and> pub_at b' t s' = row_after_push (px_now e) b t v (pub_at b t s))"
    if c: "pub_at b' t s' \<noteq> pub_at b' t s"
    using publish_run_row [of b' t e b s] c s' by auto
  have new: "b' = b \<and> (\<exists>repo url name files r. pv_push (px_provider e t) name files = Answered (repo, url)
              \<and> pub_at b' t s' = Some r \<and> pu_external r = Some repo \<and> pu_url r = Some url)"
    if p: "row_published (pub_at b' t s')" and n: "\<not> row_published (pub_at b' t s)"
  proof -
    have "pub_at b' t s' \<noteq> pub_at b' t s" using p n by auto
    then obtain v where v: "b' = b" "target_verdict e t v" "pub_at b' t s' = row_after_push (px_now e) b t v (pub_at b t s)"
      using changed by blast
    then show ?thesis
      using row_after_push_honest [OF v(3) [symmetric]] p n by (auto simp: target_verdict_def)
  qed
  have old: "pub_at b' t s' = pub_at b' t s"
    if p: "row_published (pub_at b' t s)" and m: "pv_missing (px_provider e t) (resolveNamespace e t) = None"
  proof (rule ccontr)
    assume c: "pub_at b' t s' \<noteq> pub_at b' t s"
    then obtain v where v: "b' = b" "target_verdict e t v" "pub_at b' t s' = row_after_push (px_now e) b t v (pub_at b t s)"
      using changed by blast
    then show False using row_after_push_honest [OF v(3) [symmetric]] p m c by (auto simp: target_verdict_def)
  qed
  have roll: "b' = b \<and> map_option b_publication (bounty_by b' (pt_db s')) = Some P_published
              \<and> (\<exists>repo url name files. pv_push (px_provider e T_huggingface) name files = Answered (repo, url))"
    if c: "map_option b_publication (bounty_by b' (pt_db s')) \<noteq> map_option b_publication (bounty_by b' (pt_db s))"
  proof (cases rule: publish_run_cases [of e b s])
    case (idle x' s'')
    then show ?thesis using c assms by (simp add: same_rows_def)
  next
    case unlicensed
    then show ?thesis using c s' by (simp add: verdicts_keep_db)
  next
    case (pushed files s1)
    have d: "pt_db s1 = pt_db s" using pushed(2) by (simp add: same_rows_def)
    have r: "s' = fst (finish_push e b files s1)" using s' pushed(1) by simp
    obtain repo url where "b' = b" and p: "map_option b_publication (bounty_by b' (pt_db s')) = map_option (\<lambda>_. P_published) (bounty_by b (pt_db s))"
        and v: "push_verdict e b files s1 T_huggingface = V_pushed repo url"
      using finish_push_rollup [of b' e b files s1] c unfolding r d by blast
    moreover have "bounty_by b (pt_db s) \<noteq> None" using c p \<open>b' = b\<close> by (cases "bounty_by b (pt_db s)") auto
    moreover have "\<exists>repo url name files. pv_push (px_provider e T_huggingface) name files = Answered (repo, url)"
      using push_verdict_sound [of e T_huggingface b files s1] v by (auto simp: target_verdict_def)
    ultimately show ?thesis by auto
  qed
  show ?thesis using new old roll by blast
qed

section \<open>What a run of the withdrawal changes\<close>

definition row_after_withdrawal :: "withdrawal \<Rightarrow> publication_row \<Rightarrow> publication_row" where
  "row_after_withdrawal w r =
     (case w of
        W_done repo \<Rightarrow> r\<lparr>pu_status := P_retracted, pu_error := None\<rparr>
      | W_failed m \<Rightarrow> r\<lparr>pu_error := Some m\<rparr>
      | W_transient \<Rightarrow> r)"

lemma pub_at_update:
  assumes "\<And>r. pub_key (f r) = pub_key r"
  shows "pub_at b' t' (s\<lparr>pt_rows := update_where (\<lambda>r. pub_key r = (b, t)) f (pt_rows s)\<rparr>)
    = (if (b', t') = (b, t) then map_option f (pub_at b t s) else pub_at b' t' s)"
proof -
  have u: "find_where (\<lambda>x. pub_key x = (b', t')) (update_where (\<lambda>x. pub_key x = (b, t)) f (pt_rows s))
      = map_option (\<lambda>x. if pub_key x = (b, t) then f x else x) (find_where (\<lambda>x. pub_key x = (b', t')) (pt_rows s))"
    by (rule find_where_update_where) (simp add: assms)
  have "find_where (\<lambda>x. pub_key x = (b', t')) (pt_rows s) = Some x \<Longrightarrow> pub_key x = (b', t')" for x
    by (drule find_where_Some) simp
  then show ?thesis
    by (cases "find_where (\<lambda>x. pub_key x = (b', t')) (pt_rows s)") (auto simp: pub_at_def u)
qed

lemma pub_at_record_withdrawal:
  "pub_at b' t' (record_withdrawal e b r s)
    = (if (b', t') = (b, pu_target r) then map_option (row_after_withdrawal (row_verdict e r)) (pub_at b' t' s) else pub_at b' t' s)"
proof -
  have k: "pub_key (r\<lparr>pu_status := P_retracted, pu_error := None\<rparr>) = pub_key r" "pub_key (r\<lparr>pu_error := Some m\<rparr>) = pub_key r" for r m
    by (simp_all add: pub_key_def)
  show ?thesis
    by (cases "row_verdict e r"; cases "pub_at b' t' s")
      (auto simp: record_withdrawal_def markRetracted_def markRetractFailed_def row_after_withdrawal_def pub_at_update [OF k(1)] pub_at_update [OF k(2)])
qed

lemma withdraw_rows_fold:
  "(\<forall>r \<in> set rs. has_provider (pu_target r)) \<Longrightarrow> withdraw_rows e b rs s = (fold (record_withdrawal e b) rs s, False)"
  by (induction rs arbitrary: s) simp_all

lemma pub_at_withdrawals:
  "distinct (map pu_target rs) \<Longrightarrow> pub_at b' t' (fold (record_withdrawal e b) rs s)
    = (case find_where (\<lambda>r. b' = b \<and> pu_target r = t') rs of
         Some r \<Rightarrow> map_option (row_after_withdrawal (row_verdict e r)) (pub_at b' t' s)
       | None \<Rightarrow> pub_at b' t' s)"
proof (induction rs arbitrary: s)
  case Nil
  then show ?case by simp
next
  case (Cons r rs)
  show ?case
  proof (cases "b' = b \<and> pu_target r = t'")
    case True
    have "find_where (\<lambda>r. b' = b \<and> pu_target r = t') rs = None"
      unfolding find_where_None_iff using Cons.prems True by (auto simp: rev_image_eqI)
    then show ?thesis using Cons True by (simp add: pub_at_record_withdrawal)
  next
    case False
    then have "pub_at b' t' (record_withdrawal e b r s) = pub_at b' t' s"
      by (auto simp: pub_at_record_withdrawal)
    then show ?thesis using Cons False by (auto split: option.split)
  qed
qed

lemma withdrawals_keep_db: "pt_db (fold (record_withdrawal e b) rs s) = pt_db s"
proof (induction rs arbitrary: s)
  case (Cons r rs)
  have "pt_db (record_withdrawal e b r s) = pt_db s"
    by (cases "row_verdict e r") (simp_all add: record_withdrawal_def markRetracted_def markRetractFailed_def log_pub_def)
  then show ?case using Cons by simp
qed simp

text \<open>One row per bounty and target.\<close>

definition pubs_ok :: "pub_state \<Rightarrow> bool" where
  "pubs_ok s \<longleftrightarrow> distinct (map pub_key (pt_rows s))"

lemma pub_at_row: "pubs_ok s \<Longrightarrow> r \<in> set (pt_rows s) \<Longrightarrow> pub_at (pu_bounty r) (pu_target r) s = Some r"
  unfolding pubs_ok_def pub_at_def
  using find_where_unique [of pub_key "pt_rows s" r] by (simp add: pub_key_def)

lemma pub_at_Some: "pub_at b t s = Some r \<Longrightarrow> r \<in> set (pt_rows s) \<and> pu_bounty r = b \<and> pu_target r = t"
  unfolding pub_at_def by (drule find_where_Some) (simp add: pub_key_def)

lemma published_targets_distinct: "pubs_ok s \<Longrightarrow> distinct (map pu_target (published_rows b s))"
  unfolding pubs_ok_def published_rows_def distinct_map
  by (auto simp: inj_on_def pub_key_def)

lemma find_published:
  assumes "pubs_ok s" and "pub_at b' t' s = Some r"
  shows "find_where (\<lambda>x. b' = b \<and> pu_target x = t') (published_rows b s)
    = (if b' = b \<and> pu_status r = P_published then Some r else None)"
proof (cases "b' = b \<and> pu_status r = P_published")
  case True
  have r: "r \<in> set (published_rows b s)" "pu_target r = t'"
    using pub_at_Some [OF assms(2)] True by (auto simp: published_rows_def)
  have "find_where (\<lambda>x. pu_target x = pu_target r) (published_rows b s) = Some r"
    by (rule find_where_unique [OF published_targets_distinct [OF assms(1)] r(1)])
  then show ?thesis using True r(2) by simp
next
  case False
  have "\<not> (b' = b \<and> pu_target x = t')" if x: "x \<in> set (published_rows b s)" for x
  proof
    assume e: "b' = b \<and> pu_target x = t'"
    then have "pub_at b' t' s = Some x" "pu_status x = P_published"
      using pub_at_row [OF assms(1), of x] x by (auto simp: published_rows_def)
    then show False using False e assms(2) by simp
  qed
  then show ?thesis using False by (auto simp: find_where_None_iff)
qed

lemma withdrawal_exact:
  assumes "pubs_ok s" and "\<forall>r \<in> set (published_rows b s). has_provider (pu_target r)"
    and "runCommunityUnpublishJob e b s = (s', x)"
  shows "pub_at b' t s' = map_option (\<lambda>r. if b' = b \<and> pu_status r = P_published
            then row_after_withdrawal (withdraw_verdict e t (pu_external r)) r else r) (pub_at b' t s)
       \<and> map_option b_publication (bounty_by b' (pt_db s'))
            = map_option (\<lambda>y. if b' = b \<and> published_rows b s \<noteq> [] \<and> (\<forall>r \<in> set (published_rows b s). withdrawn e r)
                then P_retracted else b_publication y) (bounty_by b' (pt_db s))
       \<and> x = (if \<exists>r \<in> set (published_rows b s). row_verdict e r = W_transient then Raised False else Finished)"
proof -
  let ?rows = "published_rows b s"
  let ?s1 = "fold (record_withdrawal e b) ?rows s"
  let ?all = "length (filter (withdrawn e) ?rows) = length ?rows"
  have all: "?all \<longleftrightarrow> (\<forall>r \<in> set ?rows. withdrawn e r)"
    by (metis filter_True length_filter_less order_less_irrefl)
  have rows: "pub_at b' t ?s1 = map_option (\<lambda>r. if b' = b \<and> pu_status r = P_published
            then row_after_withdrawal (withdraw_verdict e t (pu_external r)) r else r) (pub_at b' t s)"
  proof (cases "pub_at b' t s")
    case None
    then show ?thesis
      by (simp add: pub_at_withdrawals [OF published_targets_distinct [OF assms(1)]] split: option.split)
  next
    case (Some r)
    have "b' = b \<Longrightarrow> pub_at b t s = Some r" using Some by simp
    then show ?thesis
      using pub_at_Some [OF Some]
      by (simp add: pub_at_withdrawals [OF published_targets_distinct [OF assms(1)]] Some find_published [OF assms(1) Some] row_verdict_def)
  qed
  have run: "(s', x) = (if ?rows = [] then (s, Finished)
      else (if ?all then set_rollup b P_retracted ?s1 else ?s1, if list_ex (\<lambda>r. row_verdict e r = W_transient) ?rows then Raised False else Finished))"
    using assms(3) [symmetric] unfolding runCommunityUnpublishJob_def Let_def withdraw_rows_fold [OF assms(2)] prod.case if_False .
  show ?thesis
  proof (cases "?rows = []")
    case True
    then show ?thesis using run rows by (simp add: option.map_id0 id_def option.map_ident)
  next
    case False
    have "x = (if \<exists>r \<in> set ?rows. row_verdict e r = W_transient then Raised False else Finished)"
      using run False by (simp add: list_ex_iff)
    moreover have "pub_at b' t s' = pub_at b' t ?s1" using run False by simp
    moreover have "map_option b_publication (bounty_by b' (pt_db s'))
        = map_option (\<lambda>y. if b' = b \<and> ?rows \<noteq> [] \<and> ?all then P_retracted else b_publication y) (bounty_by b' (pt_db s))"
      using run False by (simp add: rollup_status withdrawals_keep_db)
    ultimately show ?thesis unfolding rows all by blast
  qed
qed

text \<open>the exact outcome of a withdrawal, over the targets that have a provider. A row is
  retracted exactly when it was published and its provider confirmed; a refusal leaves it published
  with the reason, a transient failure leaves it alone; every other row is untouched. The bounty
  becomes retracted exactly when all its published rows were withdrawn, and the job raises exactly
  when some answer was transient.\<close>

lemma withdrawal_outcome:
  assumes "pubs_ok s" and "\<forall>r \<in> set (published_rows b s). has_provider (pu_target r)"
    and "runCommunityUnpublishJob e b s = (s', x)"
  shows "pub_at b' t s' = map_option (\<lambda>r. if b' = b \<and> pu_status r = P_published
            then row_after_withdrawal (withdraw_verdict e t (pu_external r)) r else r) (pub_at b' t s)
       \<and> map_option b_publication (bounty_by b' (pt_db s'))
            = map_option (\<lambda>y. if b' = b \<and> published_rows b s \<noteq> [] \<and> (\<forall>r \<in> set (published_rows b s). withdrawn e r)
                then P_retracted else b_publication y) (bounty_by b' (pt_db s))
       \<and> x = (if \<exists>r \<in> set (published_rows b s). row_verdict e r = W_transient then Raised False else Finished)"
  using withdrawal_exact [OF assms] .

text \<open>The witnesses' bounty: published on both targets; Hugging Face answers a withdrawal.\<close>

definition demo_provider :: provider where
  "demo_provider = \<lparr>pv_missing = (\<lambda>n. None), pv_pushes = True, pv_push = (\<lambda>n fs. Answered (n, ''https://'' @ n)),
     pv_withdraws = True, pv_withdraw = (\<lambda>n. Answered n)\<rparr>"

definition lost_provider :: provider where
  "lost_provider = demo_provider\<lparr>pv_missing := (\<lambda>n. Some (Some ''no token''))\<rparr>"

definition demo_pub_env :: "(target \<Rightarrow> provider) \<Rightarrow> pub_env" where
  "demo_pub_env p = \<lparr>px_now = 5, px_enabled = True, px_namespace = [], px_default = (\<lambda>t. ''org''), px_provider = p, px_read = (\<lambda>k. Some []),
     px_blob = (\<lambda>i. \<lparr>bl_name = None, bl_size = None, bl_key = None\<rparr>), px_fields = (\<lambda>i. JNull), px_titles = (\<lambda>i. []),
     px_stringify = (\<lambda>j. []), px_pretty = (\<lambda>j. []), px_shelf = (\<lambda>l. None), px_stamp = []\<rparr>"

definition demo_pub :: "target \<Rightarrow> string \<Rightarrow> publication_row" where
  "demo_pub t repo = (new_pub ''b'' t)\<lparr>pu_status := P_published, pu_external := Some repo\<rparr>"

definition demo_pubs :: "publication_row list \<Rightarrow> pub_state" where
  "demo_pubs rows = \<lparr>pt_db = db0\<lparr>bounties := [(bounty0 ''b'')\<lparr>b_license := Some ''mit'', b_target := 5, b_publication := P_published\<rparr>]\<rparr>,
     pt_text = (\<lambda>i. demo_text), pt_rows = rows, pt_log = []\<rparr>"

lemmas demo_simps = demo_provider_def lost_provider_def demo_pub_env_def demo_pub_def demo_pubs_def demo_text_def new_pub_def
  published_rows_def row_verdict_def withdraw_verdict_def resolveNamespace_def has_provider_def PUBLICATION_TARGETS_def

lemma withdrawal_outcome_witness:
  "pu_status (the (pub_at ''b'' T_github
      (fst (runCommunityUnpublishJob (demo_pub_env (\<lambda>t. demo_provider)) ''b'' (demo_pubs [demo_pub T_github ''o/r'']))))) = P_retracted"
proof -
  let ?e = "demo_pub_env (\<lambda>t. demo_provider)" and ?s = "demo_pubs [demo_pub T_github ''o/r'']"
  obtain s' x where r: "runCommunityUnpublishJob ?e ''b'' ?s = (s', x)" by (cases "runCommunityUnpublishJob ?e ''b'' ?s")
  have "pubs_ok ?s" by (simp add: pubs_ok_def demo_pubs_def)
  moreover have "\<forall>r \<in> set (published_rows ''b'' ?s). has_provider (pu_target r)" by (simp add: demo_simps)
  ultimately show ?thesis
    using withdrawal_outcome [OF _ _ r, of "''b''" T_github] r
    by (simp add: demo_simps pub_at_def pub_key_def given_def row_after_withdrawal_def)
qed

lemma published_means_pushed_witness:
  "row_published (pub_at ''b'' T_github (fst (runCommunityPublishJob (demo_pub_env (\<lambda>t. demo_provider)) ''b'' (demo_pubs [demo_pub T_github ''o/r'']))))"
proof -
  let ?e = "demo_pub_env (\<lambda>t. demo_provider)" and ?s = "demo_pubs [demo_pub T_github ''o/r'']"
  obtain s' x where r: "runCommunityPublishJob ?e ''b'' ?s = (s', x)" by (cases "runCommunityPublishJob ?e ''b'' ?s")
  show ?thesis
    using published_means_pushed [OF r, of "''b''" T_github] r
    by (simp add: demo_simps pub_at_def pub_key_def row_published_def)
qed

end
