(* ===== verification/Publication_Console.thy ===== *)
theory Publication_Console
  imports Publication Pool_Settlement
begin

text \<open>
  The publication actions of the admin console (\<open>routes/v1/admin-community.ts\<close>), the attestation of a
  publication made by hand, and what becomes of a dataset when these meet the publication jobs.
\<close>

section \<open>The actions of the console\<close>

datatype pub_action = Request_review | Start_publishing | Retry | Retract

datatype action_answer = A_ok | A_queued | A_not_found | A_conflict

definition unpublish_request :: "ident \<Rightarrow> job_request" where
  "unpublish_request b = \<lparr>jq_type = ''community.unpublish'', jq_key = ''community.unpublish:'' @ b,
     jq_payload = JObj [(''bountyId'', JStr b)], jq_max = Some 5, jq_workspace = None, jq_run_after = None\<rparr>"

definition queue_publish :: "env \<Rightarrow> ident \<Rightarrow> pub_state \<Rightarrow> pub_state" where
  "queue_publish e b s = s\<lparr>pt_db := enqueueCommunityPublish e b (pt_db s)\<rparr>"

definition enqueueCommunityUnpublish :: "env \<Rightarrow> ident \<Rightarrow> pub_state \<Rightarrow> pub_state" where
  "enqueueCommunityUnpublish e b s = s\<lparr>pt_db := fst (enqueue e (unpublish_request b) (pt_db s))\<rparr>"

definition allowed_from :: "pub_action \<Rightarrow> publication_status set" where
  "allowed_from a =
     (case a of
        Request_review \<Rightarrow> {P_not_requested, P_pending, P_retracted}
      | Start_publishing \<Rightarrow> {P_manual_review, P_pending, P_failed, P_not_requested}
      | Retry \<Rightarrow> {P_manual_review, P_pending, P_failed, P_not_requested, P_published}
      | Retract \<Rightarrow> UNIV)"

definition publication_action :: "env \<Rightarrow> pub_action \<Rightarrow> ident \<Rightarrow> pub_state \<Rightarrow> pub_state \<times> action_answer" where
  "publication_action e a b s =
     (case bounty_by b (pt_db s) of
        None \<Rightarrow> (s, A_not_found)
      | Some br \<Rightarrow>
          if \<not> bt_community (pt_text s b) then (s, A_not_found)
          else if b_publication br \<notin> allowed_from a then (s, A_conflict)
          else (case a of
                  Request_review \<Rightarrow>
                    (log_pub ''admin.community_publication.review_requested'' b None [] (set_rollup b P_manual_review s), A_ok)
                | Start_publishing \<Rightarrow>
                    (queue_publish e b
                       (log_pub ''admin.community_publication.publish_queued'' b None [] (set_rollup b P_pending s)), A_queued)
                | Retry \<Rightarrow>
                    (queue_publish e b
                       (log_pub ''admin.community_publication.retry_queued'' b None [] (set_rollup b P_pending s)), A_queued)
                | Retract \<Rightarrow>
                    if published_rows b s = [] then (s, A_conflict)
                    else (enqueueCommunityUnpublish e b
                            (log_pub ''admin.community_publication.retract_queued'' b None [] s), A_queued)))"

section \<open>Facts\<close>

lemma upsert_pubs_ok:
  assumes "pubs_ok s" and "\<And>r. pub_key (u r) = pub_key r" and "\<And>r. pub_key (c r) = pub_key r"
  shows "pubs_ok (upsert_pub b t c u s)"
proof (cases "pub_at b t s")
  case None
  have k: "pub_key (c (new_pub b t)) = (b, t)" by (simp add: assms(3)) (simp add: pub_key_def new_pub_def)
  have "(b, t) \<notin> pub_key ` set (pt_rows s)"
    using None unfolding pub_at_def find_where_None_iff by auto
  then show ?thesis using assms(1) k by (simp add: pubs_ok_def upsert_pub_def None)
next
  case (Some r)
  have "map pub_key (update_where (\<lambda>r. pub_key r = (b, t)) u (pt_rows s)) = map pub_key (pt_rows s)"
    by (rule map_update_where) (simp add: assms(2))
  then show ?thesis using assms(1) Some by (simp add: pubs_ok_def upsert_pub_def)
qed

lemma pubs_ok_log [simp]: "pubs_ok (log_pub a b t x s) = pubs_ok s"
  by (simp add: pubs_ok_def log_pub_def)

lemma pubs_ok_rollup [simp]: "pubs_ok (set_rollup b st s) = pubs_ok s"
  by (simp add: pubs_ok_def set_rollup_def)

lemma pubs_ok_hf [simp]: "pubs_ok (set_hf b x s) = pubs_ok s"
  by (simp add: pubs_ok_def set_hf_def)

lemma verdict_pubs_ok: "pubs_ok s \<Longrightarrow> pubs_ok (record_verdict_of now b t v s)"
  by (cases v) (auto simp: record_verdict_of_def markTargetNotConfigured_def markTargetFailed_def markTargetPushed_def Let_def
      intro!: upsert_pubs_ok simp: pub_key_def)

lemma finish_push_pubs_ok: "pubs_ok s \<Longrightarrow> pubs_ok (fst (finish_push e b files s))"
proof -
  have "pubs_ok s' \<Longrightarrow> pubs_ok (fold (\<lambda>t. record_verdict_of now b t (v t)) ts s')" for now v ts s'
    by (induction ts arbitrary: s') (simp_all add: verdict_pubs_ok)
  then show "pubs_ok s \<Longrightarrow> pubs_ok (fst (finish_push e b files s))"
    by (simp add: finish_push_def Let_def push_targets_fold split: verdict.split)
qed

lemma read_all_total: "\<forall>k. rd k \<noteq> None \<Longrightarrow> read_all rd as \<noteq> None"
  by (induction as) (auto split: option.split)

text \<open>A run that meets no obstacle before the targets.\<close>

definition ready_to_push :: "pub_env \<Rightarrow> ident \<Rightarrow> pub_state \<Rightarrow> bool" where
  "ready_to_push e b s \<longleftrightarrow>
     (case bounty_by b (pt_db s) of
        None \<Rightarrow> False
      | Some br \<Rightarrow> bt_community (pt_text s b) \<and> px_enabled e \<and> given (b_license br) \<and> 1 \<le> b_target br
                    \<and> b_target br \<le> 9007199254740991 \<and> (\<forall>k. px_read e k \<noteq> None))"

lemma ready_run:
  assumes "ready_to_push e b s"
  obtains files s1 where "runCommunityPublishJob e b s = finish_push e b files s1" and "same_rows s s1"
proof (cases "bounty_by b (pt_db s)")
  case None
  then show ?thesis using assms by (simp add: ready_to_push_def)
next
  case (Some br)
  then have r: "bt_community (pt_text s b)" "px_enabled e" "given (b_license br)" "1 \<le> b_target br"
      "b_target br \<le> 9007199254740991" "\<forall>k. px_read e k \<noteq> None"
    using assms by (simp_all add: ready_to_push_def)
  obtain subs where subs: "selectAcceptedSubmissionsForPublication b (b_target br) (pt_db s) = Some subs"
    using r(4,5) by (simp add: selectAcceptedSubmissionsForPublication_def)
  obtain bufs where "read_all (px_read e) (applyAttachmentCap MAX_PUBLISH_ATTACHMENT_BYTES (run_attachments e b subs (pt_db s))) = Some bufs"
    using read_all_total [OF r(6)] by blast
  then show ?thesis
    using r Some subs by (intro that [OF _ same_rows_logs(1)]) (simp add: runCommunityPublishJob_def Let_def)
qed

text \<open>A run that starts settles every target: when it finishes, the row of each target is
  published, failed or not configured, and when it raises some target answered transiently.\<close>

lemma finished_run_settles_targets:
  assumes "ready_to_push e b s" and "runCommunityPublishJob e b s = (s', x)" and "t \<in> set PUBLICATION_TARGETS"
  shows "(x = Finished \<and> (\<exists>r. pub_at b t s' = Some r \<and> pu_status r \<in> {P_published, P_failed, P_not_configured}))
       \<or> (x = Raised False \<and> (\<exists>u name files. u \<in> set PUBLICATION_TARGETS \<and> pv_push (px_provider e u) name files = Transient))"
proof -
  obtain files s1 where run: "runCommunityPublishJob e b s = finish_push e b files s1" and same: "same_rows s s1"
    using ready_run [OF assms(1)] by blast
  have x: "x = (if saw_transient e b files s1 then Raised False else Finished)"
    using run assms(2) by (simp add: finish_push_def Let_def)
  show ?thesis
  proof (cases "saw_transient e b files s1")
    case True
    then obtain u where "u \<in> set PUBLICATION_TARGETS" "push_verdict e b files s1 u = V_transient"
      by (auto simp: saw_transient_def list_ex_iff)
    then have "\<exists>u name files. u \<in> set PUBLICATION_TARGETS \<and> pv_push (px_provider e u) name files = Transient"
      by (auto simp: push_verdict_def Let_def split: option.splits if_splits answer.splits)
    then show ?thesis using x True by simp
  next
    case False
    then have v: "push_verdict e b files s1 t \<noteq> V_transient"
      using assms(3) by (auto simp: saw_transient_def list_ex_iff)
    have "pub_at b t s' = row_after_push (px_now e) b t (push_verdict e b files s1 t) (pub_at b t s)"
      using assms(2,3) run pub_at_finish_push [of b t e b files s1] by (simp add: pub_at_same_rows [OF same])
    then have "\<exists>r. pub_at b t s' = Some r \<and> pu_status r \<in> {P_published, P_failed, P_not_configured}"
      using v by (cases "push_verdict e b files s1 t"; cases "pub_at b t s")
        (auto simp: row_after_push_def row_published_def Let_def)
    then show ?thesis using x False by simp
  qed
qed

lemma finished_run_settles_targets_witness:
  "snd (runCommunityPublishJob (demo_pub_env (\<lambda>t. lost_provider)) ''b'' (demo_pubs [])) = Finished"
proof -
  let ?e = "demo_pub_env (\<lambda>t. lost_provider)" and ?s = "demo_pubs []"
  obtain s' x where r: "runCommunityPublishJob ?e ''b'' ?s = (s', x)" by (cases "runCommunityPublishJob ?e ''b'' ?s")
  have "ready_to_push ?e ''b'' ?s"
    by (simp add: ready_to_push_def demo_simps bounty_by_def bounty0_def given_def)
  from finished_run_settles_targets [OF this r, of T_github] r show ?thesis
    by (simp add: demo_simps)
qed

section \<open>Where the jobs disagree\<close>

lemma published_rows_only:
  assumes "pubs_ok s" and "pub_at b T_github s = Some g" and "pu_status g = P_published"
    and "\<not> row_published (pub_at b T_huggingface s)" and "\<not> row_published (pub_at b T_aikosh s)"
  shows "published_rows b s = [g]"
proof -
  have m: "r = g" if "r \<in> set (published_rows b s)" for r
  proof -
    have r: "r \<in> set (pt_rows s)" "pu_bounty r = b" "pu_status r = P_published" using that by (simp_all add: published_rows_def)
    then have "pub_at b (pu_target r) s = Some r" using pub_at_row [OF assms(1)] by blast
    then show "r = g" using assms(2,4,5) r(3) by (cases "pu_target r") (auto simp: row_published_def)
  qed
  have g: "g \<in> set (published_rows b s)" using pub_at_Some [OF assms(2)] assms(3) by (simp add: published_rows_def)
  have "distinct (published_rows b s)"
    using published_targets_distinct [OF assms(1)] by (simp add: distinct_map)
  then show ?thesis using m g
    by (metis distinct_length_2_or_more insert_iff list.exhaust list.set(1) list.set(2) empty_iff)
qed

text \<open>a dataset is reported withdrawn while it is public. It is published on both targets; a run of
  the push then finds the credential of Hugging Face gone, which is recorded over the published row;
  a later withdrawal, whose providers may all be in order, passes over that row, withdraws the one on
  GitHub and marks the whole bounty as retracted.\<close>

lemma lost_credential_hides_public_repo:
  assumes "pubs_ok s" and "ready_to_push e b s"
    and "pub_at b T_huggingface s = Some h" and "pub_at b T_github s = Some g" and "pu_status g = P_published"
    and "\<not> row_published (pub_at b T_aikosh s)"
    and "pv_missing (px_provider e T_huggingface) (resolveNamespace e T_huggingface) = Some why"
    and "pv_missing (px_provider e T_github) (resolveNamespace e T_github) = None"
    and "withdrawn later g"
    and "runCommunityPublishJob e b s = (s1, x1)" and "runCommunityUnpublishJob later b s1 = (s2, x2)"
  shows "pub_at b T_huggingface s2 = Some (h\<lparr>pu_status := P_not_configured, pu_error := Some (or_reason T_huggingface why)\<rparr>)
    \<and> map_option b_publication (bounty_by b (pt_db s2)) = Some P_retracted \<and> x2 = Finished"
proof -
  obtain files s0 where run: "runCommunityPublishJob e b s = finish_push e b files s0" and same: "same_rows s s0"
    using ready_run [OF assms(2)] by blast
  have s1: "s1 = fst (finish_push e b files s0)" using run assms(10) by (metis fst_conv)
  have ok: "pubs_ok s1" unfolding s1
    using assms(1) same by (intro finish_push_pubs_ok) (simp add: pubs_ok_def same_rows_def)
  have v: "push_verdict e b files s0 T_huggingface = V_unconfigured (or_reason T_huggingface why)"
    using assms(7) by (simp add: push_verdict_def Let_def)
  have hf: "pub_at b T_huggingface s1 = Some (h\<lparr>pu_status := P_not_configured, pu_error := Some (or_reason T_huggingface why)\<rparr>)"
    unfolding s1 pub_at_finish_push v
    using assms(3) by (simp add: PUBLICATION_TARGETS_def row_after_push_def Let_def pub_at_same_rows [OF same])
  have gh: "pub_at b T_github s1 = Some g"
  proof (rule ccontr)
    assume c: "pub_at b T_github s1 \<noteq> Some g"
    have "pub_at b T_github s1 = row_after_push (px_now e) b T_github (push_verdict e b files s0 T_github) (Some g)"
      unfolding s1 pub_at_finish_push using assms(4) by (simp add: PUBLICATION_TARGETS_def pub_at_same_rows [OF same])
    moreover have "row_published (Some g)" using assms(5) by (simp add: row_published_def)
    ultimately show False
      using row_after_push_honest [of "px_now e" b T_github "push_verdict e b files s0 T_github" "Some g" "pub_at b T_github s1"] c
        push_verdict_sound [of e T_github b files s0] assms(8) by (auto simp: target_verdict_def)
  qed
  have ai: "\<not> row_published (pub_at b T_aikosh s1)"
    unfolding s1 pub_at_finish_push using assms(6) by (simp add: PUBLICATION_TARGETS_def pub_at_same_rows [OF same])
  have "published_rows b s1 = [g]"
    by (rule published_rows_only [OF ok gh assms(5) _ ai]) (simp add: hf row_published_def)
  moreover have g: "pu_target g = T_github" using pub_at_Some [OF assms(4)] by simp
  moreover have "row_verdict later g \<noteq> W_transient" using assms(9) by (auto simp: withdrawn_def)
  moreover have "bounty_by b (pt_db s1) \<noteq> None"
    using finish_push_rollup [of b e b files s0] assms(2) same unfolding s1 ready_to_push_def same_rows_def
    by (auto split: option.splits)
  ultimately show ?thesis
    using withdrawal_exact [OF ok _ assms(11), of b T_huggingface] assms(9) hf
    by (auto simp: has_provider_def PUBLICATION_TARGETS_def)
qed

lemma lost_credential_hides_public_repo_witness:
  "let s = demo_pubs [demo_pub T_huggingface ''o/h'', demo_pub T_github ''o/g''];
       e = demo_pub_env (\<lambda>t. if t = T_huggingface then lost_provider else demo_provider);
       s2 = fst (runCommunityUnpublishJob (demo_pub_env (\<lambda>t. demo_provider)) ''b'' (fst (runCommunityPublishJob e ''b'' s)))
   in map_option pu_status (pub_at ''b'' T_huggingface s2) = Some P_not_configured
      \<and> map_option b_publication (bounty_by ''b'' (pt_db s2)) = Some P_retracted"
proof -
  let ?s = "demo_pubs [demo_pub T_huggingface ''o/h'', demo_pub T_github ''o/g'']"
  let ?e = "demo_pub_env (\<lambda>t. if t = T_huggingface then lost_provider else demo_provider)"
  let ?l = "demo_pub_env (\<lambda>t. demo_provider)"
  obtain s1 x1 where r1: "runCommunityPublishJob ?e ''b'' ?s = (s1, x1)" by (cases "runCommunityPublishJob ?e ''b'' ?s")
  obtain s2 x2 where r2: "runCommunityUnpublishJob ?l ''b'' s1 = (s2, x2)" by (cases "runCommunityUnpublishJob ?l ''b'' s1")
  have a: "pubs_ok ?s" by (simp add: pubs_ok_def demo_simps pub_key_def)
  have b: "ready_to_push ?e ''b'' ?s"
    by (simp add: ready_to_push_def demo_simps bounty_by_def bounty0_def given_def)
  have c: "pub_at ''b'' T_huggingface ?s = Some (demo_pub T_huggingface ''o/h'')" "pub_at ''b'' T_github ?s = Some (demo_pub T_github ''o/g'')"
      "\<not> row_published (pub_at ''b'' T_aikosh ?s)" "pu_status (demo_pub T_github ''o/g'') = P_published"
    by (simp_all add: pub_at_def demo_simps pub_key_def row_published_def)
  have d: "pv_missing (px_provider ?e T_huggingface) (resolveNamespace ?e T_huggingface) = Some (Some ''no token'')"
      "pv_missing (px_provider ?e T_github) (resolveNamespace ?e T_github) = None" "withdrawn ?l (demo_pub T_github ''o/g'')"
    by (simp_all add: demo_simps withdrawn_def given_def)
  show ?thesis
    using lost_credential_hides_public_repo [OF a b c(1) c(2) c(4) c(3) d r1 r2] r1 r2 by (simp add: Let_def)
qed

text \<open>A publication attested for a manual portal can never be withdrawn, and keeps every target
  published after it public: no provider is registered under its name, the lookup throws before
  anything is written, and every run of the withdrawal ends so, with whatever providers.\<close>

lemma attested_portal_blocks_withdrawal:
  assumes "attestPublication now b T_aikosh url ext admin s = Some s1" and "pubs_ok s" and "published_rows b s = []"
    and "pub_at b T_aikosh s = None" and "pt_rows s2 = pt_rows s1 @ later"
  shows "runCommunityUnpublishJob e b s2 = (s2, Raised False)"
proof -
  have "published_rows b s1 \<noteq> [] \<and> pu_target (hd (published_rows b s1)) = T_aikosh"
    using assms(1,3,4)
    by (auto simp: attestPublication_def Let_def upsert_pub_def published_rows_def log_pub_def set_rollup_def set_hf_def new_pub_def
        split: if_splits)
  moreover have "published_rows b s2 = published_rows b s1 @ filter (\<lambda>r. pu_bounty r = b \<and> pu_status r = P_published) later"
    using assms(5) by (simp add: published_rows_def)
  ultimately obtain r rs where "published_rows b s2 = r # rs" "pu_target r = T_aikosh"
    by (cases "published_rows b s1") auto
  then show ?thesis
    by (simp add: runCommunityUnpublishJob_def Let_def has_provider_def PUBLICATION_TARGETS_def)
qed

lemma attested_portal_blocks_withdrawal_witness:
  "let s = the (attestPublication 3 ''b'' T_aikosh ''https://portal'' ''x'' ''adm'' (demo_pubs []));
       s2 = s\<lparr>pt_rows := pt_rows s @ [demo_pub T_github ''o/g'']\<rparr>
   in runCommunityUnpublishJob (demo_pub_env (\<lambda>t. demo_provider)) ''b'' s2 = (s2, Raised False)"
proof -
  obtain s1 where s1: "attestPublication 3 ''b'' T_aikosh ''https://portal'' ''x'' ''adm'' (demo_pubs []) = Some s1"
    by (simp add: attestPublication_def Let_def demo_pubs_def bounty_by_def bounty0_def)
  have "pubs_ok (demo_pubs [])" "published_rows ''b'' (demo_pubs []) = []" "pub_at ''b'' T_aikosh (demo_pubs []) = None"
    by (simp_all add: pubs_ok_def demo_pubs_def published_rows_def pub_at_def)
  from attested_portal_blocks_withdrawal [OF s1 this, of "s1\<lparr>pt_rows := pt_rows s1 @ [demo_pub T_github ''o/g'']\<rparr>"
      "[demo_pub T_github ''o/g'']" "demo_pub_env (\<lambda>t. demo_provider)"]
  show ?thesis by (simp add: s1 Let_def)
qed

text \<open>A retry of a published bounty shows it as pending, and a push that is refused for good leaves it
  so although its rows are still published.\<close>

lemma refused_retry_leaves_pending:
  assumes "b_publication br = P_published" and "bounty_by b (pt_db s) = Some br" and "bt_community (pt_text s b)"
    and "publication_action qe Retry b s = (s1, a)" and "\<And>name files. pv_push (px_provider e T_huggingface) name files = Permanent m"
    and "runCommunityPublishJob e b s1 = (s2, x)"
  shows "map_option b_publication (bounty_by b (pt_db s2)) = Some P_pending"
proof -
  have s1: "s1 = queue_publish qe b (log_pub ''admin.community_publication.retry_queued'' b None [] (set_rollup b P_pending s))"
    using assms(1-4) by (simp add: publication_action_def allowed_from_def)
  have p: "map_option b_publication (bounty_by b (pt_db s1)) = Some P_pending"
    using rollup_status [of b b P_pending s] assms(2)
    by (simp add: s1 queue_publish_def bounty_by_def log_pub_def)
  show ?thesis
  proof (cases rule: publish_run_cases [of e b s1])
    case (idle x' s')
    then show ?thesis using p assms(6) by (simp add: same_rows_def)
  next
    case unlicensed
    then show ?thesis using p assms(6) by (auto simp: verdicts_keep_db)
  next
    case (pushed files s')
    have s2: "s2 = fst (finish_push e b files s')" using pushed(1) assms(6) by (metis fst_conv)
    have "push_verdict e b files s' T_huggingface \<noteq> V_pushed repo url" for repo url
      using assms(5) by (simp add: push_verdict_def Let_def split: option.split)
    then show ?thesis
      using finish_push_rollup [of b e b files s'] p pushed(2) unfolding s2 same_rows_def by auto
  qed
qed

end
