(* ===== verification/Hugging_Driver.thy ===== *)
theory Hugging_Driver
  imports Hub_Request
begin

text \<open>
  The Hugging Face driver (\<open>lib/publication/hugging-face.ts\<close>): configuration, publishing with its
  uploads to large-file storage, withdrawal and statistics. Headers and timeouts are not modelled; the
  SHA-256 digest is a parameter.
\<close>

record hub_env =
  hu_api :: string
  hu_token :: string
  hu_sha :: "string \<Rightarrow> string"

record publish_input =
  pi_repo :: string
  pi_files :: "publish_file list"
  pi_message :: string
  pi_private :: bool

definition LFS_THRESHOLD_BYTES :: nat where
  "LFS_THRESHOLD_BYTES = 5 * 1024 * 1024"

definition MAX_FILE_BYTES :: nat where
  "MAX_FILE_BYTES = 5 * 1024 * 1024 * 1024"

definition hub_configured :: "hub_env \<Rightarrow> string \<Rightarrow> string option option" where
  "hub_configured e namespace =
     (if hu_token e = [] then Some (Some ''Hugging Face write token is not set (HUGGINGFACE_API_TOKEN).'')
      else if namespace = []
        then Some (Some ''Hugging Face namespace is not set (HUGGINGFACE_NAMESPACE, or community.publish.namespace admin setting).'')
      else None)"

definition hub_site :: "hub_env \<Rightarrow> string" where
  "hub_site e = without_suffix ''/api'' (hu_api e)"

definition hub_request :: "'w host \<Rightarrow> http_call \<Rightarrow> int list \<Rightarrow> ('w, http_response) net" where
  "hub_request host = request host (\<lambda>r d. isPermanentStatus (hr_status r)) ''Hugging Face''"

definition hubFetch :: "'w host \<Rightarrow> http_call \<Rightarrow> int list \<Rightarrow> ('w, unit) net" where
  "hubFetch host c ok = net_bind (hub_request host c ok) (\<lambda>r. net_return ())"

definition hubFetchJson :: "'w host \<Rightarrow> http_call \<Rightarrow> int list \<Rightarrow> ('w, json) net" where
  "hubFetchJson host c ok = net_bind (hub_request host c ok) (\<lambda>r. net_return (hr_json r))"

definition create_call :: "hub_env \<Rightarrow> string \<Rightarrow> string \<Rightarrow> bool \<Rightarrow> http_call" where
  "create_call e namespace name priv =
     \<lparr>hc_method = POST, hc_url = hu_api e @ ''/repos/create'',
      hc_body = Json_body (JObj [(''type'', JStr ''dataset''), (''name'', JStr name), (''organization'', JStr namespace),
                                 (''private'', JBool priv)])\<rparr>"

definition visibility_call :: "hub_env \<Rightarrow> string \<Rightarrow> bool \<Rightarrow> http_call" where
  "visibility_call e repo priv =
     \<lparr>hc_method = PUT, hc_url = hu_api e @ ''/datasets/'' @ repo @ ''/settings'', hc_body = Json_body (JObj [(''private'', JBool priv)])\<rparr>"

section \<open>Large files\<close>

record lfs_pointer =
  lp_path :: string
  lp_oid :: string
  lp_size :: nat

definition pointer_of :: "hub_env \<Rightarrow> publish_file \<Rightarrow> lfs_pointer" where
  "pointer_of e f = \<lparr>lp_path = fst f, lp_oid = hu_sha e (snd f), lp_size = length (snd f)\<rparr>"

definition batch_call :: "hub_env \<Rightarrow> string \<Rightarrow> publish_file list \<Rightarrow> http_call" where
  "batch_call e repo files =
     \<lparr>hc_method = POST, hc_url = hub_site e @ ''/datasets/'' @ repo @ ''.git/info/lfs/objects/batch'',
      hc_body = Json_body (JObj [(''operation'', JStr ''upload''), (''transfers'', JArr [JStr ''basic'']),
        (''objects'', JArr (map (\<lambda>f. JObj [(''oid'', JStr (lp_oid (pointer_of e f))), (''size'', JNum (real (lp_size (pointer_of e f))))]) files))])\<rparr>"

text \<open>The last entry of an object wins; without an upload action there is nothing to send.\<close>

definition upload_href :: "json \<Rightarrow> string \<Rightarrow> string option" where
  "upload_href batch oid =
     (case filter (\<lambda>b. field_text b ''oid'' = Some oid) (array_of (inner batch ''objects'')) of
        [] \<Rightarrow> None
      | bs \<Rightarrow> field_text (inner (inner (last bs) ''actions'') ''upload'') ''href'')"

definition upload_one :: "'w host \<Rightarrow> hub_env \<Rightarrow> json \<Rightarrow> publish_file \<Rightarrow> ('w, unit) net" where
  "upload_one host e batch f =
     (case upload_href batch (lp_oid (pointer_of e f)) of
        None \<Rightarrow> net_return ()
      | Some href \<Rightarrow> hubFetch host \<lparr>hc_method = PUT, hc_url = href, hc_body = Bytes_body (snd f)\<rparr> [])"

definition uploadLfsObjects :: "'w host \<Rightarrow> hub_env \<Rightarrow> string \<Rightarrow> publish_file list \<Rightarrow> ('w, lfs_pointer list) net" where
  "uploadLfsObjects host e repo files =
     net_bind (hubFetchJson host (batch_call e repo files) [])
       (\<lambda>batch. net_bind (net_each (upload_one host e batch) files)
          (\<lambda>us. net_return (map (pointer_of e) files)))"

section \<open>Publishing and withdrawing\<close>

definition file_line :: "publish_file \<Rightarrow> json" where
  "file_line f = JObj [(''key'', JStr ''file''),
     (''value'', JObj [(''path'', JStr (fst f)), (''encoding'', JStr ''base64''), (''content'', JStr (base64 (snd f)))])]"

definition lfs_line :: "lfs_pointer \<Rightarrow> json" where
  "lfs_line p = JObj [(''key'', JStr ''lfsFile''),
     (''value'', JObj [(''path'', JStr (lp_path p)), (''algo'', JStr ''sha256''), (''oid'', JStr (lp_oid p)), (''size'', JNum (real (lp_size p)))])]"

definition header_line :: "string \<Rightarrow> json" where
  "header_line message = JObj [(''key'', JStr ''header''), (''value'', JObj [(''summary'', JStr message)])]"

definition is_large :: "publish_file \<Rightarrow> bool" where
  "is_large f \<longleftrightarrow> LFS_THRESHOLD_BYTES \<le> length (snd f)"

definition commit_call :: "hub_env \<Rightarrow> publish_input \<Rightarrow> lfs_pointer list \<Rightarrow> http_call" where
  "commit_call e inp ptrs =
     \<lparr>hc_method = POST, hc_url = hu_api e @ ''/datasets/'' @ pi_repo inp @ ''/commit/main'',
      hc_body = Json_lines (header_line (pi_message inp) # map file_line (filter (\<lambda>f. \<not> is_large f) (pi_files inp)) @ map lfs_line ptrs)\<rparr>"

definition invalid_repo :: "string \<Rightarrow> string" where
  "invalid_repo r = ''Invalid Hugging Face repo id \"'' @ r @ ''\" (expected \"namespace/name\").''"

definition hub_publish :: "'w host \<Rightarrow> hub_env \<Rightarrow> publish_input \<Rightarrow> ('w, string \<times> string) net" where
  "hub_publish host e inp =
     (if hu_token e = [] then net_fail ''Hugging Face write token is not configured (HUGGINGFACE_API_TOKEN); cannot push a dataset.'' True
      else case find_where (\<lambda>f. MAX_FILE_BYTES < length (snd f)) (pi_files inp) of
        Some f \<Rightarrow> net_fail (''File \"'' @ fst f @ ''\" is '' @ fixed1 (length (snd f)) 1073741824 @ '' GB, over the 5 GB per-file ceiling.'') True
      | None \<Rightarrow>
          (case split_repo_id (pi_repo inp) of
             None \<Rightarrow> net_fail (invalid_repo (pi_repo inp)) True
           | Some nn \<Rightarrow>
               net_bind (hubFetch host (create_call e (fst nn) (snd nn) (pi_private inp)) [409]) (\<lambda>_.
               net_bind (hubFetch host (visibility_call e (pi_repo inp) (pi_private inp)) []) (\<lambda>_.
               net_bind (if filter is_large (pi_files inp) = [] then net_return []
                         else uploadLfsObjects host e (pi_repo inp) (filter is_large (pi_files inp))) (\<lambda>ptrs.
               net_bind (hubFetch host (commit_call e inp ptrs) []) (\<lambda>_.
               net_return (pi_repo inp, hub_site e @ ''/datasets/'' @ pi_repo inp)))))))"

definition hub_unpublish :: "'w host \<Rightarrow> hub_env \<Rightarrow> string \<Rightarrow> ('w, string) net" where
  "hub_unpublish host e repo =
     (if hu_token e = [] then net_fail ''Hugging Face write token is not configured (HUGGINGFACE_API_TOKEN); cannot withdraw a dataset.'' True
      else case split_repo_id repo of
        None \<Rightarrow> net_fail (invalid_repo repo) True
      | Some nn \<Rightarrow> net_bind (hubFetch host (visibility_call e repo True) [404]) (\<lambda>_. net_return repo))"

text \<open>A failed read throws a plain error, which is not permanent.\<close>

definition hub_stats :: "'w host \<Rightarrow> hub_env \<Rightarrow> string \<Rightarrow> ('w, real option) net" where
  "hub_stats host e i w =
     (case host \<lparr>hc_method = GET, hc_url = hu_api e @ ''/datasets/'' @ i, hc_body = No_body\<rparr> w of
        (Lost reason, w') \<Rightarrow> net_fail reason False w'
      | (Got r, w') \<Rightarrow>
          if is_ok (hr_status r)
          then net_return (case jget (hr_json r) ''downloads'' of Some (JNum n) \<Rightarrow> Some n | _ \<Rightarrow> None) w'
          else net_fail (''Hugging Face API returned '' @ show_int (hr_status r) @ '' for '' @ i) False w')"

section \<open>Facts\<close>

lemma hubFetch_ok:
  "hubFetch host c ok w = (Inr (), w') \<longleftrightarrow> (\<exists>r. host c w = (Got r, w') \<and> (is_ok (hr_status r) \<or> hr_status r \<in> set ok))"
  by (auto simp: hubFetch_def net_bind_ok hub_request_def request_ok)

lemma hubFetch_fails:
  "host c w = (Got r, w') \<Longrightarrow> \<not> is_ok (hr_status r) \<Longrightarrow> hr_status r \<notin> set ok
    \<Longrightarrow> \<exists>e. hubFetch host c ok w = (Inl e, w') \<and> (pe_permanent e \<longleftrightarrow> isPermanentStatus (hr_status r))"
  by (simp add: hubFetch_def net_bind_def hub_request_def request_def net_fail_def)

text \<open>Success means that the commit was accepted after the visibility was.\<close>

lemma hub_publish_confirmed:
  assumes "hub_publish host e inp w = (Inr res, w')"
  shows "res = (pi_repo inp, hub_site e @ ''/datasets/'' @ pi_repo inp)
    \<and> (\<exists>ptrs w1 w2 w3 r1 r2. host (visibility_call e (pi_repo inp) (pi_private inp)) w1 = (Got r1, w2) \<and> is_ok (hr_status r1)
         \<and> host (commit_call e inp ptrs) w3 = (Got r2, w') \<and> is_ok (hr_status r2)
         \<and> map lp_path ptrs = map fst (filter is_large (pi_files inp)))"
proof -
  obtain nn where nn: "split_repo_id (pi_repo inp) = Some nn" and tok: "hu_token e \<noteq> []"
    and small: "find_where (\<lambda>f. MAX_FILE_BYTES < length (snd f)) (pi_files inp) = None"
    using assms by (auto simp: hub_publish_def split: if_splits option.splits)
  obtain w1 w2 w3 ptrs where s: "hubFetch host (visibility_call e (pi_repo inp) (pi_private inp)) [] w1 = (Inr (), w2)"
    and p: "(if filter is_large (pi_files inp) = [] then net_return []
            else uploadLfsObjects host e (pi_repo inp) (filter is_large (pi_files inp))) w2 = (Inr ptrs, w3)"
    and c: "hubFetch host (commit_call e inp ptrs) [] w3 = (Inr (), w')"
    and r: "res = (pi_repo inp, hub_site e @ ''/datasets/'' @ pi_repo inp)"
    using assms unfolding hub_publish_def using nn tok small by (auto simp: net_bind_ok)
  have "map lp_path ptrs = map fst (filter is_large (pi_files inp))"
    using p by (cases "filter is_large (pi_files inp) = []")
      (auto simp: uploadLfsObjects_def net_bind_ok pointer_of_def)
  moreover obtain r1 r2 where "host (visibility_call e (pi_repo inp) (pi_private inp)) w1 = (Got r1, w2)" "is_ok (hr_status r1)"
      "host (commit_call e inp ptrs) w3 = (Got r2, w')" "is_ok (hr_status r2)"
    using s c by (auto simp: hubFetch_ok)
  ultimately show ?thesis using r by blast
qed

text \<open>An object the storage refuses carries an error instead of an action, and counts as stored: the
  commit then points to bytes that were never sent.\<close>

lemma refused_object_counts_as_stored:
  assumes "array_of (inner batch ''objects'') = [JObj [(''oid'', JStr (hu_sha e (snd f))), (''error'', err)]]"
  shows "upload_one host e batch f w = (Inr (), w)"
proof -
  have "upload_href batch (hu_sha e (snd f)) = None"
    using assms by (auto simp: upload_href_def field_text_def inner_def)
  then show ?thesis by (simp add: upload_one_def pointer_of_def net_return_def)
qed

text \<open>republishing opens the repository before it commits, and a commit that fails leaves it open.
  Whatever the visibility was, the calls made are the creation, the change of visibility and the
  commit; the push reports a failure, so that no published row remains that a withdrawal would pick up,
  and nothing restores the visibility.\<close>

lemma failed_commit_leaves_repo_open:
  assumes "hu_token e \<noteq> []" and "split_repo_id (pi_repo inp) = Some (owner, name)"
    and "\<forall>f \<in> set (pi_files inp). length (snd f) < LFS_THRESHOLD_BYTES"
    and "host (create_call e owner name (pi_private inp)) w = (Got r1, w1)" and "is_ok (hr_status r1) \<or> hr_status r1 = 409"
    and "host (visibility_call e (pi_repo inp) (pi_private inp)) w1 = (Got r2, w2)" and "is_ok (hr_status r2)"
    and "host (commit_call e inp []) w2 = (Got r3, w3)" and "\<not> is_ok (hr_status r3)"
  shows "\<exists>err. hub_publish (recording host) e inp (w, []) =
      (Inl err, (w3, [create_call e owner name (pi_private inp), visibility_call e (pi_repo inp) (pi_private inp), commit_call e inp []]))
    \<and> (pe_permanent err \<longleftrightarrow> isPermanentStatus (hr_status r3))"
proof -
  have big: "find_where (\<lambda>f. MAX_FILE_BYTES < length (snd f)) (pi_files inp) = None"
    using assms(3) by (auto simp: find_where_None_iff MAX_FILE_BYTES_def LFS_THRESHOLD_BYTES_def)
  have none: "filter is_large (pi_files inp) = []"
    using assms(3) by (auto simp: filter_empty_conv is_large_def)
  let ?h = "recording host"
  have 1: "hubFetch ?h (create_call e owner name (pi_private inp)) [409] (w, [])
      = (Inr (), (w1, [create_call e owner name (pi_private inp)]))"
    using assms(4,5) by (auto simp: hubFetch_ok recording_def)
  have 2: "hubFetch ?h (visibility_call e (pi_repo inp) (pi_private inp)) [] (w1, [create_call e owner name (pi_private inp)])
      = (Inr (), (w2, [create_call e owner name (pi_private inp), visibility_call e (pi_repo inp) (pi_private inp)]))"
    using assms(6,7) by (auto simp: hubFetch_ok recording_def)
  obtain err where 3: "hubFetch ?h (commit_call e inp []) []
        (w2, [create_call e owner name (pi_private inp), visibility_call e (pi_repo inp) (pi_private inp)])
      = (Inl err, (w3, [create_call e owner name (pi_private inp), visibility_call e (pi_repo inp) (pi_private inp), commit_call e inp []]))"
      "pe_permanent err \<longleftrightarrow> isPermanentStatus (hr_status r3)"
    using hubFetch_fails [of ?h "commit_call e inp []" "(w2, [create_call e owner name (pi_private inp), visibility_call e (pi_repo inp) (pi_private inp)])"
        r3 _ "[]"] assms(8,9) by (auto simp: recording_def)
  show ?thesis
    using 1 2 3 assms(1,2) big none by (simp add: hub_publish_def net_bind_def net_return_def)
qed

definition demo_hub :: hub_env where
  "demo_hub = \<lparr>hu_api = ''https://h/api'', hu_token = ''t'', hu_sha = (\<lambda>s. s)\<rparr>"

definition reply0 :: "int \<Rightarrow> http_response" where
  "reply0 s = \<lparr>hr_status = s, hr_json = JNull, hr_text = [], hr_retry_after = False, hr_remaining = None\<rparr>"

text \<open>The witness's host: it knows whether the repository is private, and refuses every commit.\<close>

definition demo_host :: "bool host" where
  "demo_host c w =
     (case hc_body c of
        Json_lines ls \<Rightarrow> (Got (reply0 422), w)
      | Json_body j \<Rightarrow> (if hc_method c = PUT then (Got (reply0 200), jget j ''private'' = Some (JBool True)) else (Got (reply0 409), w))
      | _ \<Rightarrow> (Got (reply0 404), w))"

definition demo_push :: publish_input where
  "demo_push = \<lparr>pi_repo = ''o/r'', pi_files = [(''a'', ''x'')], pi_message = [], pi_private = False\<rparr>"

lemma failed_commit_leaves_repo_open_witness:
  "\<exists>err past. hub_publish (recording demo_host) demo_hub demo_push (True, []) = (Inl err, (False, past))"
proof -
  have a: "hu_token demo_hub \<noteq> []" by (simp add: demo_hub_def)
  have b: "split_repo_id (pi_repo demo_push) = Some (''o'', ''r'')" by (simp add: split_repo_id_def demo_push_def)
  have c: "\<forall>f \<in> set (pi_files demo_push). length (snd f) < LFS_THRESHOLD_BYTES" by (simp add: LFS_THRESHOLD_BYTES_def demo_push_def)
  have d: "demo_host (create_call demo_hub ''o'' ''r'' (pi_private demo_push)) True = (Got (reply0 409), True)"
    by (simp add: demo_host_def create_call_def)
  have v: "demo_host (visibility_call demo_hub (pi_repo demo_push) (pi_private demo_push)) True = (Got (reply0 200), False)"
    by (simp add: demo_host_def visibility_call_def demo_push_def)
  have k: "demo_host (commit_call demo_hub demo_push []) False = (Got (reply0 422), False)"
    by (simp add: demo_host_def commit_call_def)
  have s: "is_ok (hr_status (reply0 409)) \<or> hr_status (reply0 409) = 409" "is_ok (hr_status (reply0 200))" "\<not> is_ok (hr_status (reply0 422))"
    by (simp_all add: is_ok_def reply0_def)
  show ?thesis
    using failed_commit_leaves_repo_open [where host = demo_host and e = demo_hub and inp = demo_push, OF a b c d s(1) v s(2) k s(3)]
    by blast
qed

end
