(* ===== verification/Github_Driver.thy ===== *)
theory Github_Driver
  imports Hugging_Driver
begin

text \<open>
  The GitHub driver (\<open>lib/publication/github.ts\<close>): every dataset is a folder of one shared repository.
  A publish or a withdrawal builds one commit over the head of \<open>main\<close> and lands it directly or through
  a pull request. Headers and timeouts are not modelled; the suffix of a branch (clock and randomness)
  is a parameter.
\<close>

record git_env =
  ge_api :: string
  ge_token :: string
  ge_owner :: string
  ge_repo :: string
  ge_protected :: bool
  ge_suffix :: string

definition MAX_BLOB_BYTES :: nat where
  "MAX_BLOB_BYTES = 100 * 1024 * 1024"

definition FILE_MODE :: string where
  "FILE_MODE = ''100644''"

definition git_configured :: "git_env \<Rightarrow> string \<Rightarrow> string option option" where
  "git_configured e owner =
     (if ge_token e = [] then Some (Some ''GitHub write token is not set (GITHUB_PUBLICATION_TOKEN).'')
      else if owner = [] then Some (Some ''GitHub owner is not set (GITHUB_PUBLICATION_OWNER).'')
      else None)"

definition git_site :: "git_env \<Rightarrow> string" where
  "git_site e = without_suffix ''/api/v3'' (if ge_api e = ''https://api.github.com'' then ''https://github.com'' else ge_api e)"

definition folderFor :: "string \<Rightarrow> string" where
  "folderFor slug = ''datasets/'' @ slug"

section \<open>Requests\<close>

definition git_call :: "git_env \<Rightarrow> http_method \<Rightarrow> string \<Rightarrow> http_body \<Rightarrow> http_call" where
  "git_call e m path body =
     \<lparr>hc_method = m, hc_url = (if starts_with ''http'' path then path else ge_api e @ path), hc_body = body\<rparr>"

definition git_request :: "'w host \<Rightarrow> http_call \<Rightarrow> int list \<Rightarrow> ('w, http_response) net" where
  "git_request host = request host github_permanent ''GitHub''"

definition git_json :: "'w host \<Rightarrow> http_call \<Rightarrow> int list \<Rightarrow> ('w, json) net" where
  "git_json host = request_json host github_permanent ''GitHub''"

definition repos_path :: "string \<Rightarrow> string \<Rightarrow> string \<Rightarrow> string" where
  "repos_path owner repo tail = ''/repos/'' @ owner @ ''/'' @ repo @ tail"

definition head_call :: "git_env \<Rightarrow> string \<Rightarrow> string \<Rightarrow> http_call" where
  "head_call e owner repo = git_call e GET (repos_path owner repo ''/git/ref/heads/main'') No_body"

definition commit_read :: "git_env \<Rightarrow> string \<Rightarrow> string \<Rightarrow> string \<Rightarrow> http_call" where
  "commit_read e owner repo sha = git_call e GET (repos_path owner repo (''/git/commits/'' @ sha)) No_body"

definition listing_call :: "git_env \<Rightarrow> string \<Rightarrow> string \<Rightarrow> string \<Rightarrow> http_call" where
  "listing_call e owner repo sha = git_call e GET (repos_path owner repo (''/git/trees/'' @ sha @ ''?recursive=1'')) No_body"

section \<open>Trees\<close>

text \<open>An entry without a digest deletes its path.\<close>

record tree_entry =
  te_path :: string
  te_sha :: "string option"

definition entry_json :: "tree_entry \<Rightarrow> json" where
  "entry_json t = JObj [(''path'', JStr (te_path t)), (''mode'', JStr FILE_MODE), (''type'', JStr ''blob''),
     (''sha'', case te_sha t of Some s \<Rightarrow> JStr s | None \<Rightarrow> JNull)]"

definition tree_write :: "git_env \<Rightarrow> string \<Rightarrow> string \<Rightarrow> string \<Rightarrow> tree_entry list \<Rightarrow> http_call" where
  "tree_write e owner repo base ts =
     git_call e POST (repos_path owner repo ''/git/trees'')
       (Json_body (JObj [(''base_tree'', JStr base), (''tree'', JArr (map entry_json ts))]))"

definition commit_write :: "git_env \<Rightarrow> string \<Rightarrow> string \<Rightarrow> string \<Rightarrow> string \<Rightarrow> string \<Rightarrow> http_call" where
  "commit_write e owner repo message tree parent =
     git_call e POST (repos_path owner repo ''/git/commits'')
       (Json_body (JObj [(''message'', JStr message), (''tree'', JStr tree), (''parents'', JArr [JStr parent])]))"

text \<open>The blobs of a listing under a prefix.\<close>

definition blob_under :: "string \<Rightarrow> json \<Rightarrow> string option" where
  "blob_under prefix x =
     (if jget x ''type'' = Some (JStr ''blob'') \<and> is_str (jget x ''path'') \<and> starts_with prefix (str_of (jget x ''path''))
      then Some (str_of (jget x ''path'')) else None)"

definition blobs_under :: "string \<Rightarrow> json \<Rightarrow> string list" where
  "blobs_under prefix listing = List.map_filter (blob_under prefix) (array_of (inner listing ''tree''))"

definition deletion :: "string \<Rightarrow> tree_entry" where
  "deletion p = \<lparr>te_path = p, te_sha = None\<rparr>"

definition deletions_for :: "string \<Rightarrow> tree_entry list \<Rightarrow> json \<Rightarrow> tree_entry list" where
  "deletions_for prefix ts listing =
     map deletion (filter (\<lambda>p. p \<notin> te_path ` set ts) (js_unique (blobs_under prefix listing)))"

definition blob_write :: "git_env \<Rightarrow> string \<Rightarrow> string \<Rightarrow> publish_file \<Rightarrow> http_call" where
  "blob_write e owner repo f =
     git_call e POST (repos_path owner repo ''/git/blobs'')
       (Json_body (JObj [(''content'', JStr (base64 (snd f))), (''encoding'', JStr ''base64'')]))"

definition create_blob :: "'w host \<Rightarrow> git_env \<Rightarrow> string \<Rightarrow> string \<Rightarrow> publish_file \<Rightarrow> ('w, tree_entry) net" where
  "create_blob host e owner repo f =
     net_bind (git_json host (blob_write e owner repo f) [])
       (\<lambda>j. case field_text j ''sha'' of
              None \<Rightarrow> net_fail (''GitHub returned no blob sha for \"'' @ fst f @ ''\".'') False
            | Some sha \<Rightarrow> net_return \<lparr>te_path = fst f, te_sha = Some sha\<rparr>)"

definition createBlobs :: "'w host \<Rightarrow> git_env \<Rightarrow> string \<Rightarrow> string \<Rightarrow> publish_file list \<Rightarrow> ('w, tree_entry list) net" where
  "createBlobs host e owner repo files = net_each (create_blob host e owner repo) files"

section \<open>Landing a commit\<close>

definition advance_call :: "git_env \<Rightarrow> string \<Rightarrow> string \<Rightarrow> string \<Rightarrow> http_call" where
  "advance_call e owner repo sha =
     git_call e PATCH (repos_path owner repo ''/git/refs/heads/main'') (Json_body (JObj [(''sha'', JStr sha), (''force'', JBool False)]))"

definition advanceMain :: "'w host \<Rightarrow> git_env \<Rightarrow> string \<Rightarrow> string \<Rightarrow> string \<Rightarrow> ('w, unit) net" where
  "advanceMain host e owner repo sha =
     net_bind (git_request host (advance_call e owner repo sha) [422])
       (\<lambda>r. if hr_status r = 422
            then net_fail (''GitHub repo '' @ owner @ ''/'' @ repo @ '' changed during publication; retrying from the latest main branch preserves concurrent dataset commits.'') False
            else net_return ())"

datatype land_action = Publish | Retract_dataset

definition action_text :: "land_action \<Rightarrow> string" where
  "action_text a = (case a of Publish \<Rightarrow> ''Publish'' | Retract_dataset \<Rightarrow> ''Retract'')"

definition pull_text :: "land_action \<Rightarrow> string \<Rightarrow> string" where
  "pull_text a slug = ''Automated '' @ js_lower (action_text a) @ '' of the '' @ TICK @ ''datasets/'' @ slug @ TICK
     @ '' folder, opened by DataBounty'' @ [CHR 0x27] @ ''s publication job because '' @ TICK @ ''main'' @ TICK
     @ '' on this repo requires pull requests. This pull request is merged immediately by the same job ''
     @ DASH @ '' it is a mechanical landing step, not a human review gate.''"

definition branch_prefix :: "string \<Rightarrow> string" where
  "branch_prefix slug = ''databounty-publish/'' @ slug @ ''-''"

definition pull_number :: "json \<Rightarrow> string option" where
  "pull_number j = (case jget j ''number'' of Some (JNum n) \<Rightarrow> if n = 0 then None else Some (show_int \<lfloor>n\<rfloor>) | _ \<Rightarrow> None)"

text \<open>An open pull request an earlier attempt of the same account left behind, with its branch.\<close>

definition stale_pull :: "string \<Rightarrow> json \<Rightarrow> json \<Rightarrow> (string \<times> string) option" where
  "stale_pull slug viewer p =
     (case field_text (inner p ''head'') ''ref'' of
        None \<Rightarrow> None
      | Some ref \<Rightarrow>
          if starts_with (branch_prefix slug) ref \<and> field_text viewer ''login'' \<noteq> None
             \<and> field_text (inner p ''user'') ''login'' = field_text viewer ''login''
          then map_option (\<lambda>n. (n, ref)) (pull_number p) else None)"

definition stale_pulls :: "string \<Rightarrow> json \<Rightarrow> json \<Rightarrow> (string \<times> string) list" where
  "stale_pulls slug viewer pulls = List.map_filter (stale_pull slug viewer) (array_of pulls)"

definition close_pull :: "git_env \<Rightarrow> string \<Rightarrow> string \<Rightarrow> string \<Rightarrow> http_call" where
  "close_pull e owner repo n =
     git_call e PATCH (repos_path owner repo (''/pulls/'' @ n)) (Json_body (JObj [(''state'', JStr ''closed'')]))"

definition delete_branch :: "git_env \<Rightarrow> string \<Rightarrow> string \<Rightarrow> string \<Rightarrow> http_call" where
  "delete_branch e owner repo branch = git_call e DELETE (repos_path owner repo (''/git/refs/heads/'' @ branch)) No_body"

definition drop_stale :: "'w host \<Rightarrow> git_env \<Rightarrow> string \<Rightarrow> string \<Rightarrow> string \<times> string \<Rightarrow> ('w, unit) net" where
  "drop_stale host e owner repo p =
     net_bind (net_try (git_request host (close_pull e owner repo (fst p)) [404, 422]))
       (\<lambda>_. net_try (git_request host (delete_branch e owner repo (snd p)) [404, 422]))"

definition clean_stale :: "'w host \<Rightarrow> git_env \<Rightarrow> string \<Rightarrow> string \<Rightarrow> string \<Rightarrow> ('w, unit) net" where
  "clean_stale host e owner repo slug =
     net_try (net_bind (git_json host (git_call e GET ''/user'' No_body) [])
       (\<lambda>viewer. net_bind (git_json host (git_call e GET (repos_path owner repo ''/pulls?state=open&base=main&per_page=100'') No_body) [])
          (\<lambda>pulls. net_each (drop_stale host e owner repo) (stale_pulls slug viewer pulls))))"

definition branch_create :: "git_env \<Rightarrow> string \<Rightarrow> string \<Rightarrow> string \<Rightarrow> string \<Rightarrow> http_call" where
  "branch_create e owner repo branch sha =
     git_call e POST (repos_path owner repo ''/git/refs'') (Json_body (JObj [(''ref'', JStr (''refs/heads/'' @ branch)), (''sha'', JStr sha)]))"

definition pull_create :: "git_env \<Rightarrow> string \<Rightarrow> string \<Rightarrow> land_action \<Rightarrow> string \<Rightarrow> string \<Rightarrow> http_call" where
  "pull_create e owner repo a slug branch =
     git_call e POST (repos_path owner repo ''/pulls'')
       (Json_body (JObj [(''title'', JStr (action_text a @ '' dataset '' @ slug)), (''head'', JStr branch), (''base'', JStr ''main''),
                         (''body'', JStr (pull_text a slug))]))"

definition merge_call :: "git_env \<Rightarrow> string \<Rightarrow> string \<Rightarrow> string \<Rightarrow> http_call" where
  "merge_call e owner repo n =
     git_call e PUT (repos_path owner repo (''/pulls/'' @ n @ ''/merge'')) (Json_body (JObj [(''merge_method'', JStr ''squash'')]))"

definition merged :: "json \<Rightarrow> bool" where
  "merged j \<longleftrightarrow> jget j ''merged'' = Some (JBool True)"

definition not_merged :: "string \<Rightarrow> string \<Rightarrow> json \<Rightarrow> json \<Rightarrow> string \<Rightarrow> string" where
  "not_merged owner repo pr body n =
     ''GitHub pull request '' @ (case jget pr ''html_url'' of Some (JStr u) \<Rightarrow> u | _ \<Rightarrow> owner @ ''/'' @ repo @ ''#'' @ n)
       @ '' did not merge'' @ (case field_text body ''message'' of Some m \<Rightarrow> '' ('' @ m @ '')'' | None \<Rightarrow> [])
       @ ''; retrying will re-check whether it can now be merged.''"

definition landCommitViaPullRequest ::
  "'w host \<Rightarrow> git_env \<Rightarrow> string \<Rightarrow> string \<Rightarrow> string \<Rightarrow> string \<Rightarrow> land_action \<Rightarrow> ('w, unit) net" where
  "landCommitViaPullRequest host e owner repo sha slug a =
     (let branch = branch_prefix slug @ ge_suffix e
      in net_bind (clean_stale host e owner repo slug) (\<lambda>_.
         net_bind (git_json host (branch_create e owner repo branch sha) []) (\<lambda>_.
         net_bind (git_json host (pull_create e owner repo a slug branch) []) (\<lambda>pr.
         case pull_number pr of
           None \<Rightarrow> net_fail (''GitHub returned no pull request number opening '' @ js_lower (action_text a) @ '' PR for '' @ owner
                               @ ''/'' @ repo @ '' branch \"'' @ branch @ ''\".'') False
         | Some n \<Rightarrow>
             net_bind (git_request host (merge_call e owner repo n) [405, 409]) (\<lambda>r.
             if \<not> merged (hr_json r) then net_fail (not_merged owner repo pr (hr_json r) n) False
             else net_try (git_request host (delete_branch e owner repo branch) [404, 422]))))))"

definition landCommit :: "'w host \<Rightarrow> git_env \<Rightarrow> string \<Rightarrow> string \<Rightarrow> string \<Rightarrow> string \<Rightarrow> land_action \<Rightarrow> ('w, unit) net" where
  "landCommit host e owner repo sha slug a =
     (if \<not> ge_protected e then advanceMain host e owner repo sha else landCommitViaPullRequest host e owner repo sha slug a)"

section \<open>Publishing\<close>

definition repo_json :: "string \<Rightarrow> bool \<Rightarrow> json" where
  "repo_json repo priv =
     JObj [(''name'', JStr repo), (''private'', JBool priv), (''auto_init'', JBool True),
           (''description'', JStr ''Dataset published by DataBounty.''), (''has_issues'', JBool True), (''has_wiki'', JBool False)]"

definition ensureRepo :: "'w host \<Rightarrow> git_env \<Rightarrow> string \<Rightarrow> string \<Rightarrow> bool \<Rightarrow> ('w, unit) net" where
  "ensureRepo host e owner repo priv =
     net_bind (git_request host (git_call e GET (repos_path owner repo []) No_body) [404]) (\<lambda>r.
     if hr_status r \<noteq> 404 then net_return ()
     else net_bind (git_request host (git_call e POST (''/orgs/'' @ owner @ ''/repos'') (Json_body (repo_json repo priv))) [404, 422]) (\<lambda>o'.
     if is_ok (hr_status o') \<or> hr_status o' = 422 then net_return ()
     else net_bind (git_json host (git_call e GET ''/user'' No_body) []) (\<lambda>viewer.
     let login = (case jget viewer ''login'' of Some (JStr l) \<Rightarrow> Some l | _ \<Rightarrow> None)
     in if map_option js_lower login \<noteq> Some (js_lower owner)
        then net_fail (''GitHub owner \"'' @ owner @ ''\" is not an organisation this token can create repositories in, and it is not the token''
               @ [CHR 0x27] @ ''s own account (\"'' @ (case login of Some l \<Rightarrow> l | None \<Rightarrow> ''unknown'')
               @ ''\"). Fix GITHUB_PUBLICATION_OWNER or the token'' @ [CHR 0x27] @ ''s org access.'') True
        else net_bind (git_request host (git_call e POST ''/user/repos'' (Json_body (repo_json repo priv))) [422]) (\<lambda>_. net_return ()))))"

text \<open>The commit: \<open>prefix\<close> is the folder whose other files it deletes.\<close>

definition commitFilesToMain ::
  "'w host \<Rightarrow> git_env \<Rightarrow> string \<Rightarrow> string \<Rightarrow> publish_file list \<Rightarrow> string option \<Rightarrow> string \<Rightarrow> string \<Rightarrow> ('w, unit) net" where
  "commitFilesToMain host e owner repo files prefix message slug =
     net_bind (git_json host (head_call e owner repo) []) (\<lambda>ref.
     case field_text (inner ref ''object'') ''sha'' of
       None \<Rightarrow> net_fail (''GitHub repo '' @ owner @ ''/'' @ repo @ '' has no main branch to commit onto.'') False
     | Some parent \<Rightarrow>
     net_bind (git_json host (commit_read e owner repo parent) []) (\<lambda>pc.
     case field_text (inner pc ''tree'') ''sha'' of
       None \<Rightarrow> net_fail (''GitHub commit '' @ parent @ '' in '' @ owner @ ''/'' @ repo @ '' has no tree.'') False
     | Some base \<Rightarrow>
     net_bind (createBlobs host e owner repo files) (\<lambda>ts.
     net_bind (case prefix of
                 None \<Rightarrow> net_return []
               | Some p \<Rightarrow> net_bind (git_json host (listing_call e owner repo base) []) (\<lambda>l. net_return (deletions_for p ts l))) (\<lambda>ds.
     net_bind (git_json host (tree_write e owner repo base (ts @ ds)) []) (\<lambda>created.
     case field_text created ''sha'' of
       None \<Rightarrow> net_fail (''GitHub returned no tree sha for '' @ owner @ ''/'' @ repo @ '' ('' @ slug @ '').'') False
     | Some tree \<Rightarrow>
     net_bind (git_json host (commit_write e owner repo message tree parent) []) (\<lambda>commit.
     case field_text commit ''sha'' of
       None \<Rightarrow> net_fail (''GitHub returned no commit sha for '' @ owner @ ''/'' @ repo @ '' ('' @ slug @ '').'') False
     | Some sha \<Rightarrow> landCommit host e owner repo sha slug Publish))))))"

definition bad_repo_id :: "string \<Rightarrow> string" where
  "bad_repo_id r = ''Invalid GitHub repo id \"'' @ r @ ''\" (expected \"owner/name\").''"

definition git_publish :: "'w host \<Rightarrow> git_env \<Rightarrow> publish_input \<Rightarrow> ('w, string \<times> string) net" where
  "git_publish host e inp =
     (if ge_token e = [] then net_fail ''GitHub write token is not configured (GITHUB_PUBLICATION_TOKEN); cannot push a dataset.'' True
      else case split_repo_id (pi_repo inp) of
        None \<Rightarrow> net_fail (bad_repo_id (pi_repo inp)) True
      | Some os \<Rightarrow>
          (case find_where (\<lambda>f. MAX_BLOB_BYTES \<le> length (snd f)) (pi_files inp) of
             Some f \<Rightarrow> net_fail (''File \"'' @ fst f @ ''\" is '' @ fixed1 (length (snd f)) 1048576 @ '' MB, at or over GitHub''
                 @ [CHR 0x27] @ ''s 100 MB per-file API limit. Publishing it needs Git LFS, which this target does not yet enable.'') True
           | None \<Rightarrow>
               net_bind (ensureRepo host e (fst os) (ge_repo e) (pi_private inp)) (\<lambda>_.
               net_bind (commitFilesToMain host e (fst os) (ge_repo e) (map (\<lambda>f. (folderFor (snd os) @ ''/'' @ fst f, snd f)) (pi_files inp))
                           (Some (folderFor (snd os) @ ''/'')) (pi_message inp) (snd os)) (\<lambda>_.
               net_return (pi_repo inp, git_site e @ ''/'' @ fst os @ ''/'' @ ge_repo e @ ''/tree/main/'' @ folderFor (snd os))))))"

section \<open>Withdrawing\<close>

definition git_unpublish :: "'w host \<Rightarrow> git_env \<Rightarrow> string \<Rightarrow> ('w, string) net" where
  "git_unpublish host e rid =
     (if ge_token e = [] then net_fail ''GitHub write token is not configured (GITHUB_PUBLICATION_TOKEN); cannot withdraw a dataset.'' True
      else case split_repo_id rid of
        None \<Rightarrow> net_fail (bad_repo_id rid) True
      | Some os \<Rightarrow>
          (let owner = fst os; slug = snd os; repo = ge_repo e; folder = folderFor slug
           in net_bind (git_request host (head_call e owner repo) [404]) (\<lambda>r.
              if hr_status r = 404 then net_return rid
              else case field_text (inner (hr_json r) ''object'') ''sha'' of
                None \<Rightarrow> net_return rid
              | Some parent \<Rightarrow>
              net_bind (git_json host (commit_read e owner repo parent) []) (\<lambda>pc.
              case field_text (inner pc ''tree'') ''sha'' of
                None \<Rightarrow> net_return rid
              | Some base \<Rightarrow>
              net_bind (git_json host (listing_call e owner repo base) []) (\<lambda>listing.
              let gone = blobs_under (folder @ ''/'') listing
              in if gone = [] then net_return rid
                 else net_bind (git_json host (tree_write e owner repo base (map deletion gone)) []) (\<lambda>created.
                 case field_text created ''sha'' of
                   None \<Rightarrow> net_fail (''GitHub returned no tree sha retracting '' @ owner @ ''/'' @ repo @ ''/'' @ folder @ ''.'') False
                 | Some tree \<Rightarrow>
                 net_bind (git_json host (commit_write e owner repo (''Retract '' @ slug) tree parent) []) (\<lambda>commit.
                 case field_text commit ''sha'' of
                   None \<Rightarrow> net_fail (''GitHub returned no commit sha retracting '' @ owner @ ''/'' @ repo @ ''/'' @ folder @ ''.'') False
                 | Some sha \<Rightarrow>
                 net_bind (landCommit host e owner repo sha slug Retract_dataset) (\<lambda>_. net_return rid))))))))"

section \<open>What the driver may touch\<close>

text \<open>The paths a call writes into a tree.\<close>

definition tree_paths :: "http_call \<Rightarrow> string list" where
  "tree_paths c = (case hc_body c of
      Json_body j \<Rightarrow> List.map_filter (\<lambda>x. case jget x ''path'' of Some (JStr p) \<Rightarrow> Some p | _ \<Rightarrow> None) (array_of (inner j ''tree''))
    | _ \<Rightarrow> [])"

text \<open>What the host answered to a call, at some moment.\<close>

definition said :: "'w host \<Rightarrow> http_call \<Rightarrow> json \<Rightarrow> bool" where
  "said host c j \<longleftrightarrow> (\<exists>w w' r. host c w = (Got r, w') \<and> hr_json r = j)"

definition viewer_call :: "git_env \<Rightarrow> http_call" where
  "viewer_call e = git_call e GET ''/user'' No_body"

definition pulls_call :: "git_env \<Rightarrow> string \<Rightarrow> string \<Rightarrow> http_call" where
  "pulls_call e owner repo = git_call e GET (repos_path owner repo ''/pulls?state=open&base=main&per_page=100'') No_body"

text \<open>A pull request the host listed as open, whose branch has the prefix of the dataset and whose author is
  the account the host named as that of the token.\<close>

definition left_behind :: "'w host \<Rightarrow> git_env \<Rightarrow> string \<Rightarrow> string \<Rightarrow> string \<Rightarrow> string \<Rightarrow> bool" where
  "left_behind host e owner slug n ref \<longleftrightarrow>
     (\<exists>viewer pulls p login. said host (viewer_call e) viewer \<and> said host (pulls_call e owner (ge_repo e)) pulls
        \<and> p \<in> set (array_of pulls) \<and> pull_number p = Some n
        \<and> field_text (inner p ''head'') ''ref'' = Some ref \<and> starts_with (branch_prefix slug) ref
        \<and> field_text viewer ''login'' = Some login \<and> field_text (inner p ''user'') ''login'' = Some login)"

text \<open>The tree of the commit the host named as the head of \<open>main\<close>.\<close>

definition head_tree :: "'w host \<Rightarrow> git_env \<Rightarrow> string \<Rightarrow> string \<Rightarrow> bool" where
  "head_tree host e owner base \<longleftrightarrow>
     (\<exists>ref parent pc. said host (head_call e owner (ge_repo e)) ref \<and> field_text (inner ref ''object'') ''sha'' = Some parent
        \<and> said host (commit_read e owner (ge_repo e) parent) pc \<and> field_text (inner pc ''tree'') ''sha'' = Some base)"

definition body_field :: "http_call \<Rightarrow> string \<Rightarrow> json option" where
  "body_field c k = (case hc_body c of Json_body j \<Rightarrow> jget j k | _ \<Rightarrow> None)"

definition writes_tree :: "http_call \<Rightarrow> bool" where
  "writes_tree c \<longleftrightarrow> (\<exists>xs. body_field c ''tree'' = Some (JArr xs))"

definition stays_in_folder :: "'w host \<Rightarrow> git_env \<Rightarrow> string \<Rightarrow> string \<Rightarrow> http_call \<Rightarrow> bool" where
  "stays_in_folder host e owner slug c \<longleftrightarrow>
     (writes_tree c \<longrightarrow>
        list_all (starts_with (folderFor slug @ ''/'')) (tree_paths c)
        \<and> (\<exists>base. body_field c ''base_tree'' = Some (JStr base) \<and> head_tree host e owner base))
     \<and> (hc_method c = PATCH \<longrightarrow>
          (\<exists>sha. c = git_call e PATCH (repos_path owner (ge_repo e) ''/git/refs/heads/main'')
                       (Json_body (JObj [(''sha'', JStr sha), (''force'', JBool False)])))
          \<or> (\<exists>n ref. left_behind host e owner slug n ref
                \<and> c = git_call e PATCH (repos_path owner (ge_repo e) (''/pulls/'' @ n)) (Json_body (JObj [(''state'', JStr ''closed'')]))))
     \<and> (hc_method c = PUT \<longrightarrow>
          (\<exists>pr n a. said host (pull_create e owner (ge_repo e) a slug (branch_prefix slug @ ge_suffix e)) pr \<and> pull_number pr = Some n
             \<and> hc_url c = hc_url (git_call e PUT (repos_path owner (ge_repo e) (''/pulls/'' @ n @ ''/merge'')) No_body)))
     \<and> (hc_method c = DELETE \<longrightarrow>
          (\<exists>b. (b = branch_prefix slug @ ge_suffix e \<or> (\<exists>n. left_behind host e owner slug n b))
             \<and> c = git_call e DELETE (repos_path owner (ge_repo e) (''/git/refs/heads/'' @ b)) No_body))"

lemma tree_paths_get: "tree_paths (git_call e m p No_body) = []"
  by (simp add: tree_paths_def git_call_def)

lemma tree_paths_write: "tree_paths (tree_write e owner repo base ts) = map te_path ts"
  by (induction ts)
    (simp_all add: tree_paths_def tree_write_def git_call_def inner_def array_of_def entry_json_def List.map_filter_def)

lemma hc_method_git_call [simp]: "hc_method (git_call e m p b) = m"
  by (simp add: git_call_def)

lemma body_field_call [simp]:
  "body_field (git_call e m p No_body) k = None" "body_field (git_call e m p (Json_body j)) k = jget j k"
  by (simp_all add: body_field_def git_call_def)

lemma stays_get: "stays_in_folder host e owner slug (git_call e GET p No_body)"
  by (simp add: stays_in_folder_def writes_tree_def)

lemma stays_post: "\<nexists>xs. jget j ''tree'' = Some (JArr xs) \<Longrightarrow> stays_in_folder host e owner slug (git_call e POST p (Json_body j))"
  by (simp add: stays_in_folder_def writes_tree_def)

lemma stays_reads:
  "stays_in_folder host e owner slug (head_call e o' r)" "stays_in_folder host e owner slug (commit_read e o' r s)"
  "stays_in_folder host e owner slug (listing_call e o' r s)" "stays_in_folder host e owner slug (viewer_call e)"
  "stays_in_folder host e owner slug (pulls_call e o' r)"
  by (simp_all add: head_call_def commit_read_def listing_call_def viewer_call_def pulls_call_def stays_get)

lemma stays_writes:
  "stays_in_folder host e owner slug (blob_write e o' r f)" "stays_in_folder host e owner slug (commit_write e o' r m t p)"
  "stays_in_folder host e owner slug (branch_create e o' r b s)" "stays_in_folder host e owner slug (pull_create e o' r a sl b)"
  by (simp_all add: blob_write_def commit_write_def branch_create_def pull_create_def stays_post)

lemma stays_repo: "stays_in_folder host e owner slug (git_call e POST p (Json_body (repo_json r b)))"
  by (rule stays_post) (simp add: repo_json_def)

lemma stays_merge:
  assumes "said host (pull_create e owner (ge_repo e) a slug (branch_prefix slug @ ge_suffix e)) pr" and "pull_number pr = Some n"
  shows "stays_in_folder host e owner slug (merge_call e owner (ge_repo e) n)"
  unfolding stays_in_folder_def
  by (intro conjI) (use assms in \<open>auto simp: merge_call_def writes_tree_def git_call_def body_field_def\<close>)

lemma stays_advance: "stays_in_folder host e owner slug (advance_call e owner (ge_repo e) sha)"
  unfolding stays_in_folder_def by (intro conjI) (auto simp: advance_call_def writes_tree_def)

lemma stays_close: "left_behind host e owner slug n ref \<Longrightarrow> stays_in_folder host e owner slug (close_pull e owner (ge_repo e) n)"
  unfolding stays_in_folder_def by (intro conjI) (auto simp: close_pull_def writes_tree_def)

lemma stays_delete:
  "b = branch_prefix slug @ ge_suffix e \<or> (\<exists>n. left_behind host e owner slug n b)
   \<Longrightarrow> stays_in_folder host e owner slug (delete_branch e owner (ge_repo e) b)"
  unfolding stays_in_folder_def by (intro conjI) (auto simp: delete_branch_def writes_tree_def)

lemma stays_tree:
  assumes "list_all (starts_with (folderFor slug @ ''/'')) (map te_path ts)" and "head_tree host e owner base"
  shows "stays_in_folder host e owner slug (tree_write e o' r base ts)"
  using assms unfolding stays_in_folder_def tree_paths_write by (simp add: tree_write_def)

lemmas stays = stays_reads stays_writes stays_repo stays_get stays_advance

lemma said_request: "returns (git_request (recording host) c ok) r \<Longrightarrow> said host c (hr_json r)"
proof -
  assume "returns (git_request (recording host) c ok) r"
  then obtain w w' where "recording host c w = (Got r, w')"
    by (auto simp: returns_def git_request_def request_ok)
  then have "host c (fst w) = (Got r, fst w')"
    by (auto simp: recording_def split: prod.splits)
  then show "said host c (hr_json r)" unfolding said_def by blast
qed

lemma said_json: "returns (git_json (recording host) c ok) j \<Longrightarrow> said host c j"
  using said_request [of host c ok]
  by (auto simp: git_json_def git_request_def request_json_def dest!: returns_bind)

lemma starts_with_append [simp]: "starts_with p (p @ s)"
  by (simp add: starts_with_def)

lemma stale_left_behind:
  assumes "said host (viewer_call e) viewer" and "said host (pulls_call e owner (ge_repo e)) pulls"
    and "(n, ref) \<in> set (stale_pulls slug viewer pulls)"
  shows "left_behind host e owner slug n ref"
proof -
  obtain p where p: "p \<in> set (array_of pulls)" "stale_pull slug viewer p = Some (n, ref)"
    using in_map_filter [OF assms(3) [unfolded stale_pulls_def]] by blast
  have "field_text (inner p ''head'') ''ref'' = Some ref \<and> starts_with (branch_prefix slug) ref
      \<and> pull_number p = Some n
      \<and> (\<exists>login. field_text viewer ''login'' = Some login \<and> field_text (inner p ''user'') ''login'' = Some login)"
    using p(2) by (auto simp: stale_pull_def split: option.splits if_splits)
  then show ?thesis unfolding left_behind_def using assms(1,2) p(1) by blast
qed

lemma makes_clean: "makes (stays_in_folder host e owner slug) (clean_stale (recording host) e owner (ge_repo e) slug)"
proof -
  have drop: "makes (stays_in_folder host e owner slug) (drop_stale (recording host) e owner (ge_repo e) p)"
    if v: "returns (git_json (recording host) (viewer_call e) []) v"
      and ps: "returns (git_json (recording host) (pulls_call e owner (ge_repo e)) []) ps"
      and p: "p \<in> set (stale_pulls slug v ps)" for p v ps
  proof -
    have "left_behind host e owner slug (fst p) (snd p)"
      by (rule stale_left_behind [OF said_json [OF v] said_json [OF ps]]) (use p in simp)
    then show ?thesis
      unfolding drop_stale_def git_request_def by (intro makes_bind makes_try makes_request stays_close stays_delete) auto
  qed
  show ?thesis
    unfolding clean_stale_def viewer_call_def [symmetric] pulls_call_def [symmetric]
    by (intro makes_try makes_bind_returns makes_each_in drop; (assumption | simp only: git_json_def)?;
        (intro makes_request_json stays)?)
qed

lemma makes_landing: "makes (stays_in_folder host e owner slug) (landCommit (recording host) e owner (ge_repo e) sha slug a)"
proof -
  have merge: "makes (stays_in_folder host e owner slug) (git_request (recording host) (merge_call e owner (ge_repo e) n) [405, 409])"
    if "returns (git_json (recording host) (pull_create e owner (ge_repo e) a slug (branch_prefix slug @ ge_suffix e)) []) pr"
      and "pull_number pr = Some n" for pr n
    unfolding git_request_def by (intro makes_request stays_merge [OF said_json [OF that(1)] that(2)])
  have del: "makes (stays_in_folder host e owner slug) (git_request (recording host) (delete_branch e owner (ge_repo e) (branch_prefix slug @ ge_suffix e)) [404, 422])"
    unfolding git_request_def by (intro makes_request stays_delete) simp
  have rest: "makes (stays_in_folder host e owner slug) (advanceMain (recording host) e owner (ge_repo e) sha)"
    unfolding advanceMain_def git_request_def by (intro makes_bind makes_if makes_request makes_fail makes_return stays)
  have open_branch: "makes (stays_in_folder host e owner slug) (git_json (recording host) (branch_create e owner (ge_repo e) b sha) [])"
    "makes (stays_in_folder host e owner slug) (git_json (recording host) (pull_create e owner (ge_repo e) a slug b) [])" for b
    unfolding git_json_def by (intro makes_request_json stays)+
  show ?thesis
    unfolding landCommit_def landCommitViaPullRequest_def Let_def
    by (intro makes_if rest makes_bind_returns [of _ "clean_stale _ _ _ _ _"] makes_clean
        makes_bind_returns [of _ "git_json _ _ _"] open_branch makes_option makes_fail makes_bind merge makes_try del)
qed

lemma blobs_under_start: "p \<in> set (blobs_under prefix l) \<Longrightarrow> starts_with prefix p"
  unfolding blobs_under_def by (drule in_map_filter) (auto simp: blob_under_def split: if_splits)

lemma created_paths: "returns (createBlobs host e owner repo files) ts \<Longrightarrow> map te_path ts = map fst files"
proof -
  have one: "returns (create_blob host e owner repo f) t \<Longrightarrow> te_path t = fst f" for f t
    by (auto simp: create_blob_def dest!: returns_bind split: option.splits)
  assume "returns (createBlobs host e owner repo files) ts"
  then have "list_all2 (\<lambda>f t. te_path t = fst f) files ts"
    unfolding createBlobs_def by (auto dest!: returns_each intro: list_all2_mono one)
  then show "map te_path ts = map fst files"
    by (induction rule: list_all2_induct) simp_all
qed

lemma own_paths: "starts_with (folderFor slug @ ''/'') (folderFor slug @ ''/'' @ p)"
  using starts_with_append [of "folderFor slug @ ''/''" p] by (simp only: append_assoc)

lemma deletions_paths: "p \<in> te_path ` set (deletions_for prefix ts l) \<Longrightarrow> starts_with prefix p"
  by (auto simp: deletions_for_def deletion_def dest: blobs_under_start)

lemma head_treeI:
  assumes "said host (head_call e owner (ge_repo e)) ref" and "field_text (inner ref ''object'') ''sha'' = Some parent"
    and "said host (commit_read e owner (ge_repo e) parent) pc" and "field_text (inner pc ''tree'') ''sha'' = Some base"
  shows "head_tree host e owner base"
  unfolding head_tree_def using assms by blast

lemma makes_commit:
  assumes "\<forall>f \<in> set files. starts_with (folderFor slug @ ''/'') (fst f)"
  shows "makes (stays_in_folder host e owner slug)
    (commitFilesToMain (recording host) e owner (ge_repo e) files (Some (folderFor slug @ ''/'')) message slug)"
proof -
  let ?P = "folderFor slug @ ''/''"
  have blobs: "makes (stays_in_folder host e owner slug) (createBlobs (recording host) e owner (ge_repo e) files)"
    unfolding createBlobs_def create_blob_def git_json_def
    by (intro makes_each makes_bind makes_request_json makes_option makes_fail makes_return stays)
  have writes: "makes (stays_in_folder host e owner slug) (git_json (recording host) (tree_write e owner (ge_repo e) base (ts @ ds)) [])"
    if made: "returns (createBlobs (recording host) e owner (ge_repo e) files) ts"
      and gone: "returns (net_bind (git_json (recording host) (listing_call e owner (ge_repo e) base) []) (\<lambda>l. net_return (deletions_for ?P ts l))) ds"
      and head: "head_tree host e owner base"
    for ts ds base
  proof -
    have "starts_with ?P p" if p: "p \<in> set (map te_path ts)" for p
      using p assms unfolding created_paths [OF made] by auto
    moreover obtain l where "ds = deletions_for ?P ts l"
      using gone by (auto dest!: returns_bind)
    ultimately have "list_all (starts_with ?P) (map te_path (ts @ ds))"
      using deletions_paths [of _ ?P ts l] by (auto simp: list_all_iff)
    then show ?thesis unfolding git_json_def by (intro makes_request_json stays_tree head)
  qed
  show ?thesis
    unfolding commitFilesToMain_def option.case
    by (intro makes_bind_returns makes_option makes_fail makes_landing blobs writes head_treeI said_json; assumption?; (simp only: git_json_def)?;
        (intro makes_bind makes_request_json makes_return stays)?)
qed

lemma makes_publish:
  assumes "split_repo_id (pi_repo inp) = Some (owner, slug)"
  shows "makes (stays_in_folder host e owner slug) (git_publish (recording host) e inp)"
proof -
  have ensure: "makes (stays_in_folder host e owner slug) (ensureRepo (recording host) e owner (ge_repo e) priv)" for priv
    unfolding ensureRepo_def Let_def git_request_def git_json_def
    by (intro makes_bind makes_if makes_request makes_request_json makes_return makes_fail stays)
  show ?thesis
    unfolding git_publish_def assms option.case fst_conv snd_conv
    by (intro makes_if makes_option makes_bind makes_fail makes_return ensure makes_commit) (use own_paths in auto)
qed

lemma makes_unpublish:
  assumes "split_repo_id rid = Some (owner, slug)"
  shows "makes (stays_in_folder host e owner slug) (git_unpublish (recording host) e rid)"
proof -
  let ?gone = "\<lambda>l. map deletion (blobs_under (folderFor slug @ ''/'') l)"
  have under: "list_all (starts_with (folderFor slug @ ''/'')) (map te_path (?gone l))" for l
    by (auto simp: list_all_iff deletion_def dest: blobs_under_start)
  have writes: "makes (stays_in_folder host e owner slug) (git_json (recording host) (tree_write e owner (ge_repo e) base (?gone l)) [])"
    if "returns (git_request (recording host) (head_call e owner (ge_repo e)) [404]) r"
      and "field_text (inner (hr_json r) ''object'') ''sha'' = Some parent"
      and "returns (git_json (recording host) (commit_read e owner (ge_repo e) parent) []) pc"
      and "field_text (inner pc ''tree'') ''sha'' = Some base" for r parent pc base l
    unfolding git_json_def
    by (intro makes_request_json stays_tree under)
      (rule head_treeI [OF said_request [OF that(1)] that(2) said_json [OF that(3)] that(4)])
  have head: "makes (stays_in_folder host e owner slug) (git_request (recording host) (head_call e owner (ge_repo e)) ok)" for ok
    unfolding git_request_def by (intro makes_request stays)
  have reads: "makes (stays_in_folder host e owner slug) (git_json (recording host) (commit_read e owner (ge_repo e) s) [])"
    "makes (stays_in_folder host e owner slug) (git_json (recording host) (listing_call e owner (ge_repo e) s) [])"
    "makes (stays_in_folder host e owner slug) (git_json (recording host) (commit_write e owner (ge_repo e) m s t) [])" for s m t
    unfolding git_json_def by (intro makes_request_json stays)+
  show ?thesis
    unfolding git_unpublish_def assms option.case fst_conv snd_conv Let_def
    by (intro makes_if makes_option makes_return makes_fail makes_bind_returns head reads makes_landing writes; assumption)
qed

text \<open>C31: whatever the host answers, publishing or withdrawing a dataset stays in its own folder of the shared
  repository. A tree it writes names paths of that folder only and overlays the tree of the commit the host
  named as head of \<open>main\<close>, so every other path stays. The references it moves are \<open>main\<close>, without force.
  It merges only the pull request it just opened, and closes only pull requests of its repository that the
  host listed as open with a branch under the prefix of the dataset and with the account of the token as
  author; the branches it deletes are the ones of such pull requests and its own.\<close>

theorem driver_stays_in_its_folder:
  assumes "split_repo_id (pi_repo inp) = Some (owner, slug)"
    and "c \<in> set (snd (snd (git_publish (recording host) e inp (w, []))))
           \<union> set (snd (snd (git_unpublish (recording host) e (pi_repo inp) (w, []))))"
  shows "(writes_tree c \<longrightarrow>
        list_all (starts_with (folderFor slug @ ''/'')) (tree_paths c)
        \<and> (\<exists>base. body_field c ''base_tree'' = Some (JStr base) \<and> head_tree host e owner base))
     \<and> (hc_method c = PATCH \<longrightarrow>
          (\<exists>sha. c = git_call e PATCH (repos_path owner (ge_repo e) ''/git/refs/heads/main'')
                       (Json_body (JObj [(''sha'', JStr sha), (''force'', JBool False)])))
          \<or> (\<exists>n ref. left_behind host e owner slug n ref
                \<and> c = git_call e PATCH (repos_path owner (ge_repo e) (''/pulls/'' @ n)) (Json_body (JObj [(''state'', JStr ''closed'')]))))
     \<and> (hc_method c = PUT \<longrightarrow>
          (\<exists>pr n a. said host (pull_create e owner (ge_repo e) a slug (branch_prefix slug @ ge_suffix e)) pr \<and> pull_number pr = Some n
             \<and> hc_url c = hc_url (git_call e PUT (repos_path owner (ge_repo e) (''/pulls/'' @ n @ ''/merge'')) No_body)))
     \<and> (hc_method c = DELETE \<longrightarrow>
          (\<exists>b. (b = branch_prefix slug @ ge_suffix e \<or> (\<exists>n. left_behind host e owner slug n b))
             \<and> c = git_call e DELETE (repos_path owner (ge_repo e) (''/git/refs/heads/'' @ b)) No_body))"
proof -
  have "stays_in_folder host e owner slug c"
    using assms(2) makes_log [OF makes_publish [OF assms(1)], of c host e w] makes_log [OF makes_unpublish [OF assms(1)], of c host e w] by blast
  then show ?thesis unfolding stays_in_folder_def .
qed

text \<open>The witness's host holds one file of the dataset and confirms every write.\<close>

definition demo_git :: git_env where
  "demo_git = \<lparr>ge_api = ''https://g'', ge_token = ''t'', ge_owner = ''o'', ge_repo = ''all'', ge_protected = False, ge_suffix = ''1''\<rparr>"

definition sha_reply :: json where
  "sha_reply = JObj [(''sha'', JStr ''1''), (''object'', JObj [(''sha'', JStr ''1'')]), (''tree'', JObj [(''sha'', JStr ''1'')])]"

definition one_file :: json where
  "one_file = JObj [(''tree'', JArr [JObj [(''type'', JStr ''blob''), (''path'', JStr ''datasets/r/a'')]])]"

definition git_host :: "unit host" where
  "git_host c w =
     (Got ((reply0 200)\<lparr>hr_json := if c = listing_call demo_git ''o'' ''all'' ''1'' then one_file else sha_reply\<rparr>), w)"

definition demo_deletion :: http_call where
  "demo_deletion = tree_write demo_git ''o'' ''all'' ''1'' [deletion ''datasets/r/a'']"

lemma git_host_reads:
  "head_call demo_git ''o'' ''all'' \<noteq> listing_call demo_git ''o'' ''all'' ''1''"
  "commit_read demo_git ''o'' ''all'' ''1'' \<noteq> listing_call demo_git ''o'' ''all'' ''1''"
  "tree_write demo_git ''o'' ''all'' ''1'' ts \<noteq> listing_call demo_git ''o'' ''all'' ''1''"
  "commit_write demo_git ''o'' ''all'' m ''1'' ''1'' \<noteq> listing_call demo_git ''o'' ''all'' ''1''"
  "advance_call demo_git ''o'' ''all'' ''1'' \<noteq> listing_call demo_git ''o'' ''all'' ''1''"
  by (simp_all add: head_call_def listing_call_def commit_read_def tree_write_def commit_write_def advance_call_def
      git_call_def repos_path_def starts_with_def)

lemma git_host_calls:
  assumes "c \<noteq> listing_call demo_git ''o'' ''all'' ''1''"
  shows "net_bind (git_json (recording git_host) c ok) f (w, xs) = f sha_reply (w, xs @ [c])"
    and "net_bind (git_request (recording git_host) c ok) g (w, xs) = g ((reply0 200)\<lparr>hr_json := sha_reply\<rparr>) (w, xs @ [c])"
  using assms
  by (simp_all add: git_json_def request_json_def git_request_def request_def net_bind_def recording_def git_host_def
      reply0_def is_ok_def net_return_def)

lemma git_host_listing:
  "net_bind (git_json (recording git_host) (listing_call demo_git ''o'' ''all'' ''1'') ok) f (w, xs)
     = f one_file (w, xs @ [listing_call demo_git ''o'' ''all'' ''1''])"
  by (simp add: git_json_def request_json_def request_def net_bind_def recording_def git_host_def
      reply0_def is_ok_def net_return_def)

lemma demo_deletion_made:
  "demo_deletion \<in> set (snd (snd (git_unpublish (recording git_host) demo_git (pi_repo demo_push) ((), []))))"
proof -
  let ?h = "recording git_host"
  have r: "split_repo_id (pi_repo demo_push) = Some (''o'', ''r'')" by (simp add: split_repo_id_def demo_push_def)
  have b: "blobs_under (folderFor ''r'' @ ''/'') one_file = [''datasets/r/a'']"
    by (simp add: blobs_under_def one_file_def inner_def array_of_def List.map_filter_def blob_under_def starts_with_def folderFor_def)
  have sha: "field_text (inner sha_reply ''object'') ''sha'' = Some ''1''" "field_text (inner sha_reply ''tree'') ''sha'' = Some ''1''"
    "field_text sha_reply ''sha'' = Some ''1''"
    by (simp_all add: sha_reply_def inner_def field_text_def)
  have e: "ge_token demo_git \<noteq> []" "ge_repo demo_git = ''all''" "\<not> ge_protected demo_git" by (simp_all add: demo_git_def)
  have ok: "hr_status ((reply0 200)\<lparr>hr_json := sha_reply\<rparr>) = 200" "hr_json ((reply0 200)\<lparr>hr_json := sha_reply\<rparr>) = sha_reply"
    by (simp_all add: reply0_def)
  have ne: "((200::int) = 404) = False" "((200::int) = 422) = False" "(x # xs = []) = False" for x :: "'z" and xs by simp_all
  let ?cw = "commit_write demo_git ''o'' ''all'' (''Retract '' @ ''r'') ''1'' ''1''"
  let ?calls = "[head_call demo_git ''o'' ''all'', commit_read demo_git ''o'' ''all'' ''1'', listing_call demo_git ''o'' ''all'' ''1'']"
  have advance: "landCommit ?h demo_git ''o'' ''all'' ''1'' ''r'' Retract_dataset ((), ?calls @ [demo_deletion, ?cw])
      = (Inr (), ((), ?calls @ [demo_deletion, ?cw, advance_call demo_git ''o'' ''all'' ''1'']))"
    unfolding landCommit_def advanceMain_def
    by (simp only: e if_True not_False_eq_True git_host_calls(2) [OF git_host_reads(5)] ok ne if_False)
      (simp add: net_return_def)
  have "git_unpublish ?h demo_git (pi_repo demo_push) ((), [])
      = net_bind (landCommit ?h demo_git ''o'' ''all'' ''1'' ''r'' Retract_dataset) (\<lambda>_. net_return (pi_repo demo_push))
          ((), ?calls @ [demo_deletion, ?cw])"
    unfolding git_unpublish_def r option.case Let_def fst_conv snd_conv e(2)
    by (simp only: e(1) if_False git_host_calls(2) [OF git_host_reads(1)]
        git_host_calls(1) [OF git_host_reads(2)] git_host_listing
        git_host_calls(1) [OF git_host_reads(3)] git_host_calls(1) [OF git_host_reads(4)]
        ok ne sha option.case b list.map append.simps append_assoc demo_deletion_def)
  then show ?thesis using advance by (simp add: net_bind_def net_return_def)
qed

theorem driver_stays_in_its_folder_witness:
  "list_all (starts_with ''datasets/r/'') (tree_paths demo_deletion)
   \<and> (\<exists>base. body_field demo_deletion ''base_tree'' = Some (JStr base) \<and> head_tree git_host demo_git ''o'' base)"
proof -
  have r: "split_repo_id (pi_repo demo_push) = Some (''o'', ''r'')" by (simp add: split_repo_id_def demo_push_def)
  have "demo_deletion \<in> set (snd (snd (git_publish (recording git_host) demo_git demo_push ((), []))))
      \<union> set (snd (snd (git_unpublish (recording git_host) demo_git (pi_repo demo_push) ((), []))))"
    using demo_deletion_made by simp
  note d = conjunct1 [OF driver_stays_in_its_folder [OF r this]]
  have "writes_tree demo_deletion" by (simp add: writes_tree_def demo_deletion_def tree_write_def)
  with d show ?thesis by (simp add: folderFor_def)
qed

section \<open>What a commit makes of the shared tree\<close>

text \<open>The documented meaning of a tree built over a base: an entry sets its path, an entry without a
  digest removes it, and every other path stays.\<close>

definition overlay :: "(string \<Rightarrow> string option) \<Rightarrow> tree_entry list \<Rightarrow> string \<Rightarrow> string option" where
  "overlay base ts = fold (\<lambda>t m. m(te_path t := te_sha t)) ts base"

lemma overlay_append: "overlay base (ts @ ds) = overlay (overlay base ts) ds"
  by (simp add: overlay_def)

lemma overlay_other: "p \<notin> te_path ` set ts \<Longrightarrow> overlay base ts p = base p"
  by (induction ts arbitrary: base) (auto simp: overlay_def)

lemma overlay_own: "p \<in> te_path ` set ts \<Longrightarrow> overlay base ts p = overlay (\<lambda>_. None) ts p"
proof (induction ts rule: rev_induct)
  case (snoc t ts)
  then show ?case by (cases "p = te_path t") (auto simp: overlay_append, auto simp: overlay_def)
qed simp

lemma overlay_deletions: "overlay base (map deletion ps) p = (if p \<in> set ps then None else base p)"
  by (induction ps arbitrary: base) (auto simp: overlay_def deletion_def)

text \<open>C32: over a complete listing of the base, the entries of a publish make the folder of the dataset
  hold exactly its files, older files being removed, and the entries of a withdrawal make it empty;
  every other path of the shared repository keeps its content.\<close>

theorem commit_replaces_exactly_the_folder:
  assumes "\<forall>p. starts_with prefix p \<and> base p \<noteq> None \<longrightarrow> p \<in> set (blobs_under prefix listing)"
    and "\<forall>t \<in> set ts. starts_with prefix (te_path t)"
  shows "overlay base (ts @ deletions_for prefix ts listing)
      = (\<lambda>p. if starts_with prefix p then overlay (\<lambda>_. None) ts p else base p)
    \<and> overlay base (map deletion (blobs_under prefix listing)) = (\<lambda>p. if starts_with prefix p then None else base p)"
proof (intro conjI ext)
  fix p
  let ?gone = "filter (\<lambda>p. p \<notin> te_path ` set ts) (js_unique (blobs_under prefix listing))"
  have d: "overlay base (ts @ deletions_for prefix ts listing) p = (if p \<in> set ?gone then None else overlay base ts p)"
    by (simp only: overlay_append deletions_for_def overlay_deletions)
  show "overlay base (ts @ deletions_for prefix ts listing) p = (if starts_with prefix p then overlay (\<lambda>_. None) ts p else base p)"
  proof (cases "p \<in> te_path ` set ts")
    case True
    then have "starts_with prefix p" using assms(2) by auto
    then show ?thesis using True overlay_own [OF True, of base] by (simp add: d)
  next
    case False
    have empty: "overlay (\<lambda>_. None) ts p = None" by (simp add: overlay_other [OF False])
    show ?thesis
    proof (cases "starts_with prefix p")
      case True
      then show ?thesis using False assms(1) by (auto simp: d overlay_other [OF False] empty)
    next
      case other: False
      then have "p \<notin> set ?gone" using blobs_under_start [of p prefix listing] by auto
      then show ?thesis using False other by (simp add: d overlay_other)
    qed
  qed
  show "overlay base (map deletion (blobs_under prefix listing)) p = (if starts_with prefix p then None else base p)"
    using assms(1) blobs_under_start [of p prefix listing] by (auto simp: overlay_deletions)
qed

definition demo_listing :: json where
  "demo_listing = JObj [(''tree'', JArr [JObj [(''type'', JStr ''blob''), (''path'', JStr ''d/a'')]])]"

definition demo_tree :: "string \<Rightarrow> string option" where
  "demo_tree = [''d/a'' \<mapsto> ''1'', ''e/a'' \<mapsto> ''2'']"

lemma commit_replaces_exactly_the_folder_witness:
  "overlay demo_tree (map deletion (blobs_under ''d/'' demo_listing)) ''d/a'' = None
   \<and> overlay demo_tree (map deletion (blobs_under ''d/'' demo_listing)) ''e/a'' = Some ''2''"
proof -
  have b: "blobs_under ''d/'' demo_listing = [''d/a'']"
    by (simp add: blobs_under_def demo_listing_def inner_def array_of_def List.map_filter_def blob_under_def starts_with_def)
  have c: "\<forall>p. starts_with ''d/'' p \<and> demo_tree p \<noteq> None \<longrightarrow> p \<in> set (blobs_under ''d/'' demo_listing)"
    unfolding b by (auto simp: starts_with_def demo_tree_def split: if_splits)
  have "\<forall>t \<in> set []. starts_with ''d/'' (te_path t)" by simp
  note d = fun_cong [OF conjunct2 [OF commit_replaces_exactly_the_folder [OF c this]]]
  show ?thesis
    using d [of "''d/a''"] d [of "''e/a''"] by (simp add: starts_with_def) (simp add: demo_tree_def)
qed

text \<open>The host cuts a recursive listing that is too long and says so in \<open>truncated\<close>, which nobody
  reads: when the cut listing holds no file of the dataset, its withdrawal is confirmed after three
  reads and without a single write.\<close>

lemma cut_listing_reads_as_withdrawn:
  assumes "ge_token e \<noteq> []" and "split_repo_id rid = Some (owner, slug)"
    and "host (head_call e owner (ge_repo e)) w = (Got r1, w1)" and "is_ok (hr_status r1)" and "hr_status r1 \<noteq> 404"
    and "field_text (inner (hr_json r1) ''object'') ''sha'' = Some parent"
    and "host (commit_read e owner (ge_repo e) parent) w1 = (Got r2, w2)" and "is_ok (hr_status r2)"
    and "field_text (inner (hr_json r2) ''tree'') ''sha'' = Some base"
    and "host (listing_call e owner (ge_repo e) base) w2 = (Got r3, w3)" and "is_ok (hr_status r3)"
    and "jget (hr_json r3) ''truncated'' = Some (JBool True)" and "blobs_under (folderFor slug @ ''/'') (hr_json r3) = []"
  shows "git_unpublish (recording host) e rid (w, [])
    = (Inr rid, (w3, [head_call e owner (ge_repo e), commit_read e owner (ge_repo e) parent, listing_call e owner (ge_repo e) base]))"
proof -
  let ?h = "recording host"
  have 1: "git_request ?h (head_call e owner (ge_repo e)) [404] (w, []) = (Inr r1, (w1, [head_call e owner (ge_repo e)]))"
    using assms(3,4) by (simp add: git_request_def request_ok recording_def)
  have 2: "git_json ?h (commit_read e owner (ge_repo e) parent) [] (w1, xs) = (Inr (hr_json r2), (w2, xs @ [commit_read e owner (ge_repo e) parent]))" for xs
    using assms(7,8) by (simp add: git_json_def request_json_def net_bind_ok request_ok recording_def)
  have 3: "git_json ?h (listing_call e owner (ge_repo e) base) [] (w2, xs) = (Inr (hr_json r3), (w3, xs @ [listing_call e owner (ge_repo e) base]))" for xs
    using assms(10,11) by (simp add: git_json_def request_json_def net_bind_ok request_ok recording_def)
  show ?thesis
    using assms(1,2,5,6,9,13) 1 2 3 by (simp add: git_unpublish_def net_bind_def Let_def net_return_def)
qed

section \<open>What a success means\<close>

definition landed :: "'w host \<Rightarrow> git_env \<Rightarrow> string \<Rightarrow> 'w \<Rightarrow> bool" where
  "landed host e owner w' \<longleftrightarrow>
     (if ge_protected e
      then \<exists>n w1 w2 r. host (merge_call e owner (ge_repo e) n) w1 = (Got r, w2) \<and> merged (hr_json r)
      else \<exists>sha w1 r. host (advance_call e owner (ge_repo e) sha) w1 = (Got r, w') \<and> is_ok (hr_status r))"

lemma landing_confirmed:
  assumes "landCommit host e owner (ge_repo e) sha slug a w = (Inr x, w')"
  shows "landed host e owner w'"
proof (cases "ge_protected e")
  case True
  then show ?thesis using assms
    by (auto simp: landed_def landCommit_def landCommitViaPullRequest_def Let_def net_bind_ok git_request_def request_ok
        split: option.splits if_splits)
next
  case False
  have "\<not> is_ok 422" by (simp add: is_ok_def)
  then show ?thesis using assms False
    by (auto simp: landed_def landCommit_def advanceMain_def net_bind_ok git_request_def request_ok split: if_splits)
qed

text \<open>A publish is reported only after the host accepted the move of \<open>main\<close> or confirmed the merge.\<close>

lemma publish_confirmed:
  assumes "git_publish host e inp w = (Inr res, w')"
  shows "\<exists>owner slug. split_repo_id (pi_repo inp) = Some (owner, slug) \<and> landed host e owner w'"
proof -
  obtain owner slug where os: "split_repo_id (pi_repo inp) = Some (owner, slug)"
    using assms by (auto simp: git_publish_def split: if_splits option.splits)
  obtain files prefix w1 where "commitFilesToMain host e owner (ge_repo e) files prefix (pi_message inp) slug w1 = (Inr (), w')"
    using assms os by (auto simp: git_publish_def net_bind_ok split: if_splits option.splits)
  then obtain sha w2 where "landCommit host e owner (ge_repo e) sha slug Publish w2 = (Inr (), w')"
    unfolding commitFilesToMain_def by (auto simp: net_bind_ok split: option.splits)
  then show ?thesis using os landing_confirmed [of host e owner sha slug Publish w2] by blast
qed

end
