(* ===== verification/Spec2Isabelle.thy ===== *)
theory Spec2Isabelle
  imports Difficulty Rate_Limits Execution Karma_Ledger Notifications Audit_History Pool_Life OAuth_Safety Public_Reads Delivery_Lease Inbox Publication_Console Github_Driver
begin

text \<open>
  A verification development for the DataBounty API (\<open>apps/api/src\<close>).

  \<^bold>\<open>The program.\<close> A sponsor opens a bounty: a pool of items of one dataset type at a price in karma.
  Contributors submit items; each is checked for duplicates and attribution, executed in an isolated
  sandbox and reviewed by a model, and then accepted up to the size of the pool. A closed pool is sampled:
  drawn items go to validators, who claim windows and decide, and rulings may be disputed. Awards are held
  until the dispute window is over and then paid to a ledger of karma. A settled community pool is pushed
  to public hosts. Around this run a durable job queue, an outbox of notifications with channels and a
  daily digest, an OAuth server and API keys for agents, request limits, and the caches of public reads.

  \<^bold>\<open>How the code is represented.\<close> Tables are lists of rows (\<open>record\<close>s named after the models of
  \<open>prisma/schema.prisma\<close>, theory \<open>Schema\<close>), with the operations the code issues on them in theory \<open>Prelude\<close>:
  find, count, guarded update, insert that skips duplicates. A transaction is one function from the state
  to the state and its result; an operation that can be refused returns an option or a sum with the
  refusal on the left. Where two calls may overlap, the parts between two awaits are separate steps and
  the theorems speak of every interleaving: a list of events run by a \<open>fun\<close>, or an \<open>inductive\<close> relation
  with its reachable states. Times are integers in milliseconds, JavaScript numbers that need not be
  integers are reals, except where their rounding decides a branch (the failure rate of a window, computed in
  the doubles of theory \<open>Doubles\<close>), strings are lists of ASCII characters, or of
  UTF-8 bytes where the code counts bytes, and JSON values are the datatype \<open>json\<close>.

  \<^bold>\<open>Parameters.\<close> What is not under \<open>src/\<close> is an argument: the clock and the settings (record \<open>env\<close>), digests
  and random secrets, \<open>JSON.parse\<close> and \<open>new URL\<close>, DNS and sockets, the Redis server and the fate of its
  commands, the hosts datasets are pushed to, the transports of notifications, the service behind the
  sandbox SDK, and the model review. Theorems assume nothing of them but what they name as a premise: that
  fresh identifiers are fresh, that a recheck does not repeat a digest, that answers are recorded before
  their lease ends, that a listing is complete, how late a command may still land on the server. Such a theorem has a witness with concrete functions.

  \<^bold>\<open>Shared.\<close> \<open>Prelude\<close> (tables, JavaScript strings, JSON, the generic lemmas and the locales below), \<open>Schema\<close>
  (the rows, the database record, the environment), \<open>Cursor\<close> (\<open>lib/keyset-cursor.ts\<close>).

  \<^bold>\<open>Prices and karma.\<close>
  \<^item> \<open>Difficulty\<close>: \<open>lib/difficulty.ts\<close>, \<open>lib/difficulty-requirement.ts\<close>.
  \<^item> \<open>Karma_Matrix\<close>, \<open>Karma_Pricing\<close>: \<open>lib/karma-matrix.ts\<close> and the pricing half of \<open>services/karma.ts\<close>.
    Lemmas: settings that do not validate fall back, a quote reads back as itself and freezes its price.
  \<^item> \<open>Karma_Ledger\<close>: awards, reversals and history of \<open>services/karma.ts\<close>, and the queued rank check. Lemmas:
    every balance is the sum of its events, an award is idempotent.
  \<^item> \<open>Karma_Holds\<close>: \<open>services/karma-holds.ts\<close>. Lemmas: a hold is released or cancelled once.
  \<^item> \<open>Reputation\<close>: \<open>services/reputation.ts\<close>.

  \<^bold>\<open>Items and pools.\<close>
  \<^item> \<open>Submissions\<close>, \<open>Dedup_Lsh\<close>, \<open>Artifact_Attach\<close>: \<open>services/submissions.ts\<close>, \<open>services/dedup-lsh.ts\<close>,
    \<open>services/artifact-attach.ts\<close>. The intake is two steps, the
    lookup of the key and the insert, with other writers between them. Lemmas: one active item per key under
    every interleaving, revision numbers stay within their cap.
  \<^item> \<open>Validation\<close>, \<open>Ai_Attribution\<close>: \<open>services/validation.ts\<close>, \<open>services/ai-attribution.ts\<close>. Lemmas: the verdict of
    a run from its stages, no disclosure is missed.
  \<^item> \<open>Sandbox\<close>, \<open>Harness\<close>, \<open>Execution\<close>: \<open>services/execution-providers\<close>, \<open>lib/exec-languages.ts\<close> and the sandbox part
    of \<open>config.ts\<close>. Lemmas: isolation before code, the network only where declared, one verdict line, why
    there is no verdict, which languages are verifiable.
  \<^item> \<open>Pool_Counters\<close>, \<open>Pool_Settlement\<close>, \<open>Pool_Sampling\<close>: \<open>services/pool-lifecycle.ts\<close>, \<open>services/pool-capacity.ts\<close>,
    \<open>services/submission-acceptance.ts\<close>, \<open>services/submission-limits.ts\<close>, \<open>services/audit-routing.ts\<close>. Lemmas:
    sampling returns and resolves every item, settling decides each pool.
  \<^item> \<open>Pool_Life\<close>: the sponsor's review of an item (\<open>routes/v1/bounties.ts\<close>) and the run of all operations that
    move an item into or out of a pool's counted set: acceptance by validation, the review, sampling, the
    decisions of auditors, an upheld flag. Lemmas: the pool is never overfilled but by the calls its
    premise names, each with a lemma that shows it overfilling.

  \<^bold>\<open>Audits.\<close> \<open>Audit_Claims\<close>, \<open>Audit_Decisions\<close>, \<open>Audit_History\<close> (\<open>services/audits.ts\<close>, \<open>services/audit-lifecycle.ts\<close>)
  and \<open>Disputes\<close> (\<open>services/disputes.ts\<close>, the ruling in \<open>routes/v1/admin.ts\<close>). Lemmas: the list agrees with the
  claim, items are decided once and the failed windows are those of the doubles, what the cursor pages of the
  history hold, including rows the first page filters out, and exactly when an overturned item can be
  reviewed again.

  \<^bold>\<open>Jobs and notifications.\<close>
  \<^item> \<open>Job_Queue\<close>: \<open>services/jobs.ts\<close> and the writes of \<open>routes/v1/admin-jobs.ts\<close>. A run is a list of events
    (enqueue, reads, claims, completions, failures, console writes, the passing of time). Lemmas: leases exclude
    until a report or a console write on the row, every reachable queue is consistent.
  \<^item> \<open>Notifications\<close>, \<open>Dispatch\<close>, \<open>Dispatch_Stall\<close>, \<open>Delivery_Lease\<close>, \<open>Digest\<close>, \<open>Inbox\<close>: \<open>services/notifications.ts\<close>
    with \<open>notifications/events.ts\<close>, \<open>href.ts\<close> and \<open>digest.ts\<close>, parts of \<open>services/notification-channels.ts\<close> and of two
    routes. Lemmas: one sender per delivery and what takes a settled delivery back, a pass settles every
    channel, a flush claims a row once, the fan-out attempts every watcher once and counts the alerts that
    commit, and what strands a row.

  \<^bold>\<open>Agents.\<close>
  \<^item> \<open>Web_Url\<close>, \<open>Client_Metadata\<close>, \<open>Metadata_Fetch\<close>: \<open>services/mcp-client-metadata.ts\<close>. Lemmas: the embedded forms
    of an address agree, only vetted addresses are dialled.
  \<^item> \<open>Mcp_OAuth\<close>, \<open>OAuth_Safety\<close>: \<open>services/mcp-oauth.ts\<close>. Lemmas: scopes stay within the consent, a code is
    spent once and its replay revokes what it gave, a disconnect is final.
  \<^item> \<open>Api_Keys\<close>, \<open>Rate_Limits\<close>: \<open>services/api-keys.ts\<close>, \<open>lib/mcp-rate-limit.ts\<close>, \<open>lib/rate-limit-key.ts\<close>,
    \<open>lib/env-int.ts\<close> and a hook of \<open>app.ts\<close>. Lemmas: an accepted key was valid, how long a revoked one lives,
    the durable limit, the bucket follows a verified credential.

  \<^bold>\<open>Caches.\<close> \<open>Cache_Store\<close>, \<open>Cache_Drivers\<close> (\<open>lib/cache\<close>), \<open>Public_Reads\<close> (\<open>lib/public-read-cache.ts\<close>). Lemmas: the LRU
  cache refines a map with deadlines, one load per key and nobody is lost. A Redis command whose caller timed
  out stays under way and lands later, and other instances use the same server; the bound on staleness counts
  that delay.

  \<^bold>\<open>Publication.\<close> \<open>Publication_Files\<close>, \<open>Publication\<close>, \<open>Publication_Console\<close> (\<open>services/community-publish.ts\<close>, the
  console actions of \<open>routes/v1/admin-community.ts\<close>) and \<open>Hub_Request\<close>, \<open>Hugging_Driver\<close>, \<open>Github_Driver\<close>
  (\<open>lib/publication\<close>). Lemmas: published means pushed, what a withdrawal leaves, a driver stays in its
  folder and closes only pull requests of its own, and a commit replaces exactly that folder.

  \<^bold>\<open>Interfaces.\<close> Each is a locale with the laws its clients use, interpreted on the code's model:
  \<^item> \<open>cas_column\<close>: a guarded update wins once (claims, releases, holds, closing, reopening, settling, publishing);
  \<^item> \<open>idempotent_sink\<close>: an insert that skips duplicates (awards, the outbox, unique inserts);
  \<^item> \<open>status_machine\<close>: a row invariant under a guarded step (the four writes of the queue);
  \<^item> \<open>threshold_ladder\<close>: a search in an ascending ladder (karma tiers, the three rank ladders);
  \<^item> \<open>keyset_walk\<close>: pages by cursor enumerate an ordered listing (open windows, own windows, inbox);
  \<^item> \<open>value_cache\<close>: a cache serves what was written, no later than allowed (in-process, no-op, and
    the tiers over their landing server);
  \<^item> \<open>verifying_provider\<close>: a result is marked isolated only where its isolation was read back (the sandbox).

  \<^bold>\<open>Bounds and fuel.\<close> The walks by cursor take one unit of fuel per page, and are shown complete for as many
  as there are rows; the bounded traversal of a payload stops at the bounds written in the code. Everything
  else recurses structurally or on a measure that is proved to fall.

  \<^bold>\<open>Behaviour the theorems record and the code does not mean.\<close> Where modelling showed a defect, a lemma proves it on
  the model, among them: a revoked key accepted for a minute after a racing verification, a blank limit
  read as off, a blocked sandbox accepted with open destinations, forged attempts in an evidence row, a
  delivery that strands its user, a row lost between two flushes, a public repository behind a withdrawal, a
  late report that ends another worker's lease, a job re-opened without a due time, a sent message that is
  sent again, a failed alert nobody retries, a replayed or late acceptance that overfills a pool, an overturned
  item no window shows, claimed rows leaking into another bucket's pages, a failure rate on the threshold that
  a double misses, a revision that commits between the lookup and the insert of an intake.

  \<^bold>\<open>Not modelled.\<close>
  \<^item> The front ends (\<open>apps/web\<close>, \<open>apps/admin\<close>, \<open>apps/landing\<close>): rendering and calls of the API.
  \<^item> \<open>apps/api/registry\<close>: programs that run inside the sandbox on a submission; a script is the template it is
    filled from.
  \<^item> Routes, the MCP server and its tools, apart from the handlers named above: parsing and authorisation
    around the services.
  \<^item> The language model client and planner, storage of artifacts and its scanner, parsers of uploads, drafts,
    benchmarks, issues, badges, dashboards, sessions and passwords, sponsor evidence and the editing of bounties:
    left out for extent, not because the code resists.
  \<^item> Of modelled files: prose of messages and catalogue pages, audit-log rows, logging, headers and timeouts of
    requests, the redaction patterns of logs, caching of files by their modification time, listings that only
    read, the leaderboard page.
\<close>

end
